(* ===== verification/Ids.thy ===== *)
theory Ids
  imports Koshi_Prelude
begin

text \<open>
  Typed identifiers (\<open>koshi-core/src/ids.rs\<close>). An identifier wraps a UUID, a 128-bit value; the
  derived order of the wrapper is the order of the wrapped value. Minting a fresh UUID and the text
  forms are not modelled: a fresh identifier is an argument of the operation that uses it.
\<close>

datatype pane_id = PaneId (get_uuid: "128 word")

instantiation pane_id :: linorder
begin

definition less_eq_pane_id :: "pane_id \<Rightarrow> pane_id \<Rightarrow> bool" where
  "less_eq_pane_id p q \<longleftrightarrow> get_uuid p \<le> get_uuid q"

definition less_pane_id :: "pane_id \<Rightarrow> pane_id \<Rightarrow> bool" where
  "less_pane_id p q \<longleftrightarrow> get_uuid p < get_uuid q"

instance
  by standard (auto simp: less_eq_pane_id_def less_pane_id_def pane_id.expand)

end

lemma PaneId_order [simp]: "PaneId a \<le> PaneId b \<longleftrightarrow> a \<le> b" "PaneId a < PaneId b \<longleftrightarrow> a < b"
  by (simp_all add: less_eq_pane_id_def less_pane_id_def)

datatype tab_id = TabId (get_tab_uuid: "128 word")

instantiation tab_id :: linorder
begin

definition less_eq_tab_id :: "tab_id \<Rightarrow> tab_id \<Rightarrow> bool" where
  "less_eq_tab_id p q \<longleftrightarrow> get_tab_uuid p \<le> get_tab_uuid q"

definition less_tab_id :: "tab_id \<Rightarrow> tab_id \<Rightarrow> bool" where
  "less_tab_id p q \<longleftrightarrow> get_tab_uuid p < get_tab_uuid q"

instance
  by standard (auto simp: less_eq_tab_id_def less_tab_id_def tab_id.expand)

end

lemma TabId_order [simp]: "TabId a \<le> TabId b \<longleftrightarrow> a \<le> b" "TabId a < TabId b \<longleftrightarrow> a < b"
  by (simp_all add: less_eq_tab_id_def less_tab_id_def)

datatype client_id = ClientId (get_client_uuid: "128 word")

instantiation client_id :: linorder
begin

definition less_eq_client_id :: "client_id \<Rightarrow> client_id \<Rightarrow> bool" where
  "less_eq_client_id p q \<longleftrightarrow> get_client_uuid p \<le> get_client_uuid q"

definition less_client_id :: "client_id \<Rightarrow> client_id \<Rightarrow> bool" where
  "less_client_id p q \<longleftrightarrow> get_client_uuid p < get_client_uuid q"

instance
  by standard (auto simp: less_eq_client_id_def less_client_id_def client_id.expand)

end

lemma ClientId_order [simp]: "ClientId a \<le> ClientId b \<longleftrightarrow> a \<le> b" "ClientId a < ClientId b \<longleftrightarrow> a < b"
  by (simp_all add: less_eq_client_id_def less_client_id_def)

datatype floating_pane_id = FloatingPaneId (get_floating_pane_uuid: "128 word")

instantiation floating_pane_id :: linorder
begin

definition less_eq_floating_pane_id :: "floating_pane_id \<Rightarrow> floating_pane_id \<Rightarrow> bool" where
  "less_eq_floating_pane_id p q \<longleftrightarrow> get_floating_pane_uuid p \<le> get_floating_pane_uuid q"

definition less_floating_pane_id :: "floating_pane_id \<Rightarrow> floating_pane_id \<Rightarrow> bool" where
  "less_floating_pane_id p q \<longleftrightarrow> get_floating_pane_uuid p < get_floating_pane_uuid q"

instance
  by standard (auto simp: less_eq_floating_pane_id_def less_floating_pane_id_def floating_pane_id.expand)

end

lemma FloatingPaneId_order [simp]: "FloatingPaneId a \<le> FloatingPaneId b \<longleftrightarrow> a \<le> b" "FloatingPaneId a < FloatingPaneId b \<longleftrightarrow> a < b"
  by (simp_all add: less_eq_floating_pane_id_def less_floating_pane_id_def)

datatype session_id = SessionId (get_session_uuid: "128 word")

datatype command_id = CommandId (get_command_uuid: "128 word")

end
