(* ===== verification/Geometry.thy ===== *)
theory Geometry
  imports Koshi_Prelude
begin

text \<open>
  Terminal-cell geometry (\<open>koshi-core/src/geometry.rs\<close>): points, sizes and half-open rectangles of
  cells, with coordinates in \<open>u16\<close> and edges computed in \<open>u32\<close>. The lemmas relate every rectangle
  operation to the set of cells the rectangle covers.
\<close>

section \<open>Data\<close>

record point =
  column :: u16
  row :: u16

record cell_size =
  column_count :: u16
  row_count :: u16

record required_size =
  required_column_count :: u32
  required_row_count :: u32

record rect =
  origin :: point
  rect_size :: cell_size

record image_cell_geometry =
  full_size :: cell_size
  cell_offset :: point

datatype direction = Left | Right | Up | Down

datatype split_direction = Horizontal | Vertical | Stacked

datatype pane_area = Reported cell_size | Starving

text \<open>
  A percentage and a pixel measurement hold the values their constructors accept; the constructors
  below are the only way the code builds them.
\<close>

datatype axis_percent = AxisPercent u8

datatype axis_percent_error = AxisPercentError u8

record pixel_cell_size =
  pixel_width :: u16
  pixel_height :: u16

datatype floating_pane_dimension = Cells u16 | AxisShare axis_percent

record floating_pane_size =
  floating_width :: floating_pane_dimension
  floating_height :: floating_pane_dimension

datatype floating_pane_position = DefaultPosition | Moved point | Pinned point

section \<open>Operations on sizes\<close>

definition compute_cell_count :: "cell_size \<Rightarrow> u32" where
  "compute_cell_count s = u32_of (column_count s) * u32_of (row_count s)"

definition compute_minimum_axes :: "cell_size \<Rightarrow> cell_size \<Rightarrow> cell_size" where
  "compute_minimum_axes s other_size =
     \<lparr>column_count = min (column_count s) (column_count other_size),
      row_count = min (row_count s) (row_count other_size)\<rparr>"

definition size_can_fit_inside :: "cell_size \<Rightarrow> cell_size \<Rightarrow> bool" where
  "size_can_fit_inside s container_size \<longleftrightarrow>
     column_count s \<le> column_count container_size \<and> row_count s \<le> row_count container_size"

definition compute_centered_origin :: "cell_size \<Rightarrow> cell_size \<Rightarrow> point" where
  "compute_centered_origin s content_size =
     \<lparr>column = (column_count s - min (column_count content_size) (column_count s)) div 2,
      row = (row_count s - min (row_count content_size) (row_count s)) div 2\<rparr>"

definition from_size_sum :: "cell_size \<Rightarrow> cell_size \<Rightarrow> required_size" where
  "from_size_sum first_size second_size =
     \<lparr>required_column_count = u32_of (column_count first_size) + u32_of (column_count second_size),
      required_row_count = u32_of (row_count first_size) + u32_of (row_count second_size)\<rparr>"

definition can_fit_inside :: "required_size \<Rightarrow> cell_size \<Rightarrow> bool" where
  "can_fit_inside s container_size \<longleftrightarrow>
     required_column_count s \<le> u32_of (column_count container_size) \<and>
     required_row_count s \<le> u32_of (row_count container_size)"

definition from_pixel_dimensions :: "u16 \<Rightarrow> u16 \<Rightarrow> pixel_cell_size option" where
  "from_pixel_dimensions w h =
     (if w = 0 then None else if h = 0 then None
      else Some \<lparr>pixel_width = w, pixel_height = h\<rparr>)"

definition axis_percent_try_from :: "u8 \<Rightarrow> axis_percent_error + axis_percent" where
  "axis_percent_try_from percent =
     (if \<not> (1 \<le> percent \<and> percent \<le> 100) then Inl (AxisPercentError percent)
      else Inr (AxisPercent percent))"

definition get_percent :: "axis_percent \<Rightarrow> u8" where
  "get_percent p = (case p of AxisPercent n \<Rightarrow> n)"

definition compute_percent_cell_count :: "u16 \<Rightarrow> u8 \<Rightarrow> u16" where
  "compute_percent_cell_count axis_cell_count percent =
     as_u16 (u32_of axis_cell_count * ucast (min percent 100) div 100)"

definition DEFAULT_FLOATING_PANE_SIZE :: floating_pane_size where
  "DEFAULT_FLOATING_PANE_SIZE =
     \<lparr>floating_width = AxisShare (AxisPercent 60), floating_height = AxisShare (AxisPercent 60)\<rparr>"

fun compute_opposite_direction :: "direction \<Rightarrow> direction" where
  "compute_opposite_direction Left = Right"
| "compute_opposite_direction Right = Left"
| "compute_opposite_direction Up = Down"
| "compute_opposite_direction Down = Up"

section \<open>Operations on rectangles\<close>

definition from_origin_and_size :: "point \<Rightarrow> cell_size \<Rightarrow> rect" where
  "from_origin_and_size p s = \<lparr>origin = p, rect_size = s\<rparr>"

definition from_size_at_origin :: "cell_size \<Rightarrow> rect" where
  "from_size_at_origin s = \<lparr>origin = \<lparr>column = 0, row = 0\<rparr>, rect_size = s\<rparr>"

definition build_empty_at_origin :: rect where
  "build_empty_at_origin = from_size_at_origin \<lparr>column_count = 0, row_count = 0\<rparr>"

definition is_empty :: "rect \<Rightarrow> bool" where
  "is_empty r \<longleftrightarrow> column_count (rect_size r) = 0 \<or> row_count (rect_size r) = 0"

definition get_right_edge :: "rect \<Rightarrow> u32" where
  "get_right_edge r = u32_of (column (origin r)) + u32_of (column_count (rect_size r))"

definition get_bottom_edge :: "rect \<Rightarrow> u32" where
  "get_bottom_edge r = u32_of (row (origin r)) + u32_of (row_count (rect_size r))"

definition is_inside_rect :: "rect \<Rightarrow> rect \<Rightarrow> bool" where
  "is_inside_rect r outer_rect \<longleftrightarrow>
     column (origin outer_rect) \<le> column (origin r) \<and>
     row (origin outer_rect) \<le> row (origin r) \<and>
     get_right_edge r \<le> get_right_edge outer_rect \<and>
     get_bottom_edge r \<le> get_bottom_edge outer_rect"

definition compute_moved_inside :: "rect \<Rightarrow> cell_size \<Rightarrow> rect" where
  "compute_moved_inside r container_size =
     \<lparr>origin =
        \<lparr>column = min (column (origin r))
                    (sat_sub (column_count container_size) (column_count (rect_size r))),
         row = min (row (origin r))
                 (sat_sub (row_count container_size) (row_count (rect_size r)))\<rparr>,
      rect_size = rect_size r\<rparr>"

definition is_point_inside :: "rect \<Rightarrow> point \<Rightarrow> bool" where
  "is_point_inside r p \<longleftrightarrow>
     column (origin r) \<le> column p \<and> row (origin r) \<le> row p \<and>
     u32_of (column p) < get_right_edge r \<and> u32_of (row p) < get_bottom_edge r"

definition compute_nearest_edge_direction :: "rect \<Rightarrow> point \<Rightarrow> direction" where
  "compute_nearest_edge_direction r p =
     (let last_column = sat_add (column (origin r)) (sat_sub (column_count (rect_size r)) 1);
          last_row = sat_add (row (origin r)) (sat_sub (row_count (rect_size r)) 1);
          left_distance = sat_sub (column p) (column (origin r));
          right_distance = sat_sub last_column (column p);
          top_distance = sat_sub (row p) (row (origin r));
          bottom_distance = sat_sub last_row (row p);
          nearest_edge_distance =
            min (min (min left_distance right_distance) top_distance) bottom_distance
      in if nearest_edge_distance = top_distance then Up
         else if nearest_edge_distance = bottom_distance then Down
         else if nearest_edge_distance = left_distance then Left
         else Right)"

definition compute_intersection :: "rect \<Rightarrow> rect \<Rightarrow> rect option" where
  "compute_intersection r other_rect =
     (let left_edge = max (column (origin r)) (column (origin other_rect));
          top_edge = max (row (origin r)) (row (origin other_rect));
          right_edge = min (get_right_edge r) (get_right_edge other_rect);
          bottom_edge = min (get_bottom_edge r) (get_bottom_edge other_rect)
      in if u32_of left_edge < right_edge \<and> u32_of top_edge < bottom_edge
         then Some \<lparr>origin = \<lparr>column = left_edge, row = top_edge\<rparr>,
                    rect_size = \<lparr>column_count = as_u16 (right_edge - u32_of left_edge),
                                 row_count = as_u16 (bottom_edge - u32_of top_edge)\<rparr>\<rparr>
         else None)"

definition compute_inset :: "rect \<Rightarrow> u16 \<Rightarrow> rect" where
  "compute_inset r border_cells =
     (let double_border_cells = sat_mul border_cells 2
      in \<lparr>origin = \<lparr>column = sat_add (column (origin r)) border_cells,
                    row = sat_add (row (origin r)) border_cells\<rparr>,
          rect_size = \<lparr>column_count = sat_sub (column_count (rect_size r)) double_border_cells,
                       row_count = sat_sub (row_count (rect_size r)) double_border_cells\<rparr>\<rparr>)"

definition compute_inner_with_border :: "rect \<Rightarrow> rect" where
  "compute_inner_with_border r = compute_inset r 1"

definition is_visible_size_contained :: "image_cell_geometry \<Rightarrow> cell_size \<Rightarrow> bool" where
  "is_visible_size_contained g visible_size \<longleftrightarrow>
     0 < column_count visible_size \<and> 0 < row_count visible_size \<and>
     is_inside_rect (from_origin_and_size (cell_offset g) visible_size)
       (from_size_at_origin (full_size g))"

section \<open>Rectangles as sets of cells\<close>

definition left_of :: "rect \<Rightarrow> nat" where
  "left_of r = unat (column (origin r))"

definition top_of :: "rect \<Rightarrow> nat" where
  "top_of r = unat (row (origin r))"

definition width_of :: "rect \<Rightarrow> nat" where
  "width_of r = unat (column_count (rect_size r))"

definition height_of :: "rect \<Rightarrow> nat" where
  "height_of r = unat (row_count (rect_size r))"

definition cells :: "rect \<Rightarrow> (nat \<times> nat) set" where
  "cells r = {left_of r ..< left_of r + width_of r} \<times> {top_of r ..< top_of r + height_of r}"

text \<open>A rectangle whose exclusive edges are \<open>u16\<close> values: it reaches no cell past \<open>u16::MAX\<close>.\<close>

definition within_grid :: "rect \<Rightarrow> bool" where
  "within_grid r \<longleftrightarrow> left_of r + width_of r \<le> 65535 \<and> top_of r + height_of r \<le> 65535"

lemmas rect_measures = left_of_def top_of_def width_of_def height_of_def

lemma measures_less:
  "left_of r < 65536" "top_of r < 65536" "width_of r < 65536" "height_of r < 65536"
  by (simp_all add: rect_measures unat_u16_less)

lemma unat_right_edge [unat_simps]: "unat (get_right_edge r) = left_of r + width_of r"
  by (simp add: get_right_edge_def rect_measures unat_add_u32)

lemma unat_bottom_edge [unat_simps]: "unat (get_bottom_edge r) = top_of r + height_of r"
  by (simp add: get_bottom_edge_def rect_measures unat_add_u32)

lemma is_empty_iff: "is_empty r \<longleftrightarrow> width_of r = 0 \<or> height_of r = 0"
  by (simp add: is_empty_def rect_measures unat_eq_0)

lemma is_empty_cells: "is_empty r \<longleftrightarrow> cells r = {}"
  by (auto simp: is_empty_iff cells_def)

lemma finite_cells [simp]: "finite (cells r)"
  by (simp add: cells_def)

lemma card_cells: "card (cells r) = width_of r * height_of r"
  by (simp add: cells_def)

lemma unat_cell_count [unat_simps]:
  "unat (compute_cell_count s) = unat (column_count s) * unat (row_count s)"
proof -
  have "unat (column_count s) * unat (row_count s) \<le> 65535 * 65535"
    by (rule mult_le_mono) (rule unat_u16_le)+
  then show ?thesis
    by (simp add: compute_cell_count_def unat_word_ariths unat_u32_of)
qed

lemma empty_at_origin_measures [simp]:
  "left_of build_empty_at_origin = 0" "top_of build_empty_at_origin = 0"
  "width_of build_empty_at_origin = 0" "height_of build_empty_at_origin = 0"
  by (simp_all add: build_empty_at_origin_def from_size_at_origin_def rect_measures)

lemma empty_at_origin [simp]: "is_empty build_empty_at_origin" "cells build_empty_at_origin = {}"
  by (simp_all add: is_empty_iff cells_def)

lemma is_inside_rect_iff:
  "is_inside_rect r outer \<longleftrightarrow>
     left_of outer \<le> left_of r \<and> top_of outer \<le> top_of r \<and>
     left_of r + width_of r \<le> left_of outer + width_of outer \<and>
     top_of r + height_of r \<le> top_of outer + height_of outer"
  by (simp add: is_inside_rect_def unat_simps) (simp add: rect_measures)

lemma is_inside_rect_cells: "is_inside_rect r outer \<Longrightarrow> cells r \<subseteq> cells outer"
  by (auto simp: is_inside_rect_iff cells_def)

lemma cells_subset_inside:
  assumes "cells r \<subseteq> cells outer" and "\<not> is_empty r"
  shows "is_inside_rect r outer"
proof -
  from assms(2) have pos: "0 < width_of r" "0 < height_of r" by (auto simp: is_empty_iff)
  then have "(left_of r, top_of r) \<in> cells r"
    and "(left_of r + width_of r - 1, top_of r + height_of r - 1) \<in> cells r"
    by (auto simp: cells_def)
  with assms(1) have "(left_of r, top_of r) \<in> cells outer"
    and "(left_of r + width_of r - 1, top_of r + height_of r - 1) \<in> cells outer" by blast+
  with pos show ?thesis by (auto simp: is_inside_rect_iff cells_def)
qed

lemma is_point_inside_cells:
  "is_point_inside r p \<longleftrightarrow> (unat (column p), unat (row p)) \<in> cells r"
  by (simp add: is_point_inside_def cells_def unat_simps) (auto simp: rect_measures)

lemma intersection_axis:
  assumes "a < 65536" "c < 65536" "b < 65536"
    and "(max a c :: nat) < min (a + b) (c + d)"
  shows "min (a + b) (c + d) - max a c < 65536"
  using assms by arith

lemma compute_intersection_None:
  "compute_intersection r s = None \<longleftrightarrow>
     \<not> (max (left_of r) (left_of s) < min (left_of r + width_of r) (left_of s + width_of s) \<and>
        max (top_of r) (top_of s) < min (top_of r + height_of r) (top_of s + height_of s))"
  by (auto simp: compute_intersection_def Let_def unat_simps rect_measures)

lemma compute_intersection_Some:
  assumes "compute_intersection r s = Some t"
  shows "left_of t = max (left_of r) (left_of s)" "top_of t = max (top_of r) (top_of s)"
    "left_of t + width_of t = min (left_of r + width_of r) (left_of s + width_of s)"
    "top_of t + height_of t = min (top_of r + height_of r) (top_of s + height_of s)"
    "0 < width_of t" "0 < height_of t"
proof -
  have less: "max (left_of r) (left_of s) < min (left_of r + width_of r) (left_of s + width_of s)"
    "max (top_of r) (top_of s) < min (top_of r + height_of r) (top_of s + height_of s)"
    using assms compute_intersection_None [of r s] by auto
  let ?w = "min (get_right_edge r) (get_right_edge s) -
            u32_of (max (column (origin r)) (column (origin s)))"
  let ?h = "min (get_bottom_edge r) (get_bottom_edge s) -
            u32_of (max (row (origin r)) (row (origin s)))"
  have w: "unat ?w = min (left_of r + width_of r) (left_of s + width_of s) -
                     max (left_of r) (left_of s)"
    using less by (subst unat_sub_small) (auto simp: unat_simps rect_measures)
  have h: "unat ?h = min (top_of r + height_of r) (top_of s + height_of s) -
                     max (top_of r) (top_of s)"
    using less by (subst unat_sub_small) (auto simp: unat_simps rect_measures)
  have t: "t = \<lparr>origin = \<lparr>column = max (column (origin r)) (column (origin s)),
                          row = max (row (origin r)) (row (origin s))\<rparr>,
                rect_size = \<lparr>column_count = as_u16 ?w, row_count = as_u16 ?h\<rparr>\<rparr>"
    using assms by (auto simp: compute_intersection_def Let_def split: if_splits)
  have tw: "column_count (rect_size t) = as_u16 ?w" and th: "row_count (rect_size t) = as_u16 ?h"
    by (simp_all only: t rect.simps cell_size.simps)
  have wt: "width_of t = unat ?w"
    using intersection_axis [of "left_of r" "left_of s" "width_of r" "width_of s"] less w
    by (simp only: width_of_def [of t] tw unat_as_u16) (simp add: measures_less)
  have ht: "height_of t = unat ?h"
    using intersection_axis [of "top_of r" "top_of s" "height_of r" "height_of s"] less h
    by (simp only: height_of_def [of t] th unat_as_u16) (simp add: measures_less)
  show 1: "left_of t = max (left_of r) (left_of s)" and 2: "top_of t = max (top_of r) (top_of s)"
    by (simp_all add: t rect_measures unat_max)
  show "left_of t + width_of t = min (left_of r + width_of r) (left_of s + width_of s)"
    and "0 < width_of t" using less wt w 1 by auto
  show "top_of t + height_of t = min (top_of r + height_of r) (top_of s + height_of s)"
    and "0 < height_of t" using less ht h 2 by auto
qed

lemma moved_inside_measures:
  "left_of (compute_moved_inside r s) = min (left_of r) (unat (column_count s) - width_of r)"
  "top_of (compute_moved_inside r s) = min (top_of r) (unat (row_count s) - height_of r)"
  "width_of (compute_moved_inside r s) = width_of r"
  "height_of (compute_moved_inside r s) = height_of r"
  by (simp_all add: compute_moved_inside_def rect_measures unat_simps)

lemma inner_with_border_measures:
  "left_of (compute_inner_with_border r) = min (left_of r + 1) 65535"
  "top_of (compute_inner_with_border r) = min (top_of r + 1) 65535"
  "width_of (compute_inner_with_border r) = width_of r - 2"
  "height_of (compute_inner_with_border r) = height_of r - 2"
  by (simp_all add: compute_inner_with_border_def compute_inset_def Let_def rect_measures unat_simps)

lemma from_size_at_origin_measures [simp]:
  "left_of (from_size_at_origin s) = 0" "top_of (from_size_at_origin s) = 0"
  "width_of (from_size_at_origin s) = unat (column_count s)"
  "height_of (from_size_at_origin s) = unat (row_count s)"
  by (simp_all add: from_size_at_origin_def rect_measures)

lemma from_origin_and_size_measures [simp]:
  "left_of (from_origin_and_size p s) = unat (column p)"
  "top_of (from_origin_and_size p s) = unat (row p)"
  "width_of (from_origin_and_size p s) = unat (column_count s)"
  "height_of (from_origin_and_size p s) = unat (row_count s)"
  by (simp_all add: from_origin_and_size_def rect_measures)

lemma can_fit_inside_iff:
  "can_fit_inside s c \<longleftrightarrow>
     unat (required_column_count s) \<le> unat (column_count c) \<and>
     unat (required_row_count s) \<le> unat (row_count c)"
  by (simp add: can_fit_inside_def unat_simps)

lemma from_size_sum_measures [simp]:
  "unat (required_column_count (from_size_sum s t)) = unat (column_count s) + unat (column_count t)"
  "unat (required_row_count (from_size_sum s t)) = unat (row_count s) + unat (row_count t)"
  by (simp_all add: from_size_sum_def unat_add_u32)

lemma unat_percent_cell_count:
  "unat (compute_percent_cell_count n p) = unat n * min (unat p) 100 div 100"
proof -
  have p: "unat (ucast (min p 100) :: u32) = min (unat p) 100"
    by (simp add: unsigned_ucast_eq unat_min take_bit_nat_eq_self_iff)
  have "unat n * min (unat p) 100 \<le> 65535 * 100"
    by (rule mult_le_mono) (simp_all add: unat_u16_le)
  then have m: "unat (u32_of n * ucast (min p 100)) = unat n * min (unat p) 100"
    by (simp add: unat_word_ariths p unat_u32_of)
  have "unat n * min (unat p) 100 div 100 \<le> unat n * 100 div 100"
    by (intro div_le_mono mult_le_mono) simp_all
  then have "unat n * min (unat p) 100 div 100 < 65536"
    using unat_u16_less [of n] by simp
  then show ?thesis
    by (simp add: compute_percent_cell_count_def unat_as_u16 unat_div m)
qed

section \<open>Properties\<close>

text \<open>
  Intersecting two rectangles gives exactly the cells they share: \<open>compute_intersection\<close>
  returns \<open>None\<close> when they share no cell, and otherwise a rectangle that covers the shared cells,
  whatever the coordinates, edges past \<open>u16::MAX\<close> included.
\<close>

theorem compute_intersection_cells:
  "(case compute_intersection r s of None \<Rightarrow> {} | Some t \<Rightarrow> cells t) = cells r \<inter> cells s"
proof (cases "compute_intersection r s")
  case None
  then have "cells r \<inter> cells s = {}" by (auto simp: compute_intersection_None cells_def)
  with None show ?thesis by simp
next
  case (Some t)
  note t = compute_intersection_Some [OF Some]
  have "cells t = {max (left_of r) (left_of s) ..< min (left_of r + width_of r) (left_of s + width_of s)} \<times>
                  {max (top_of r) (top_of s) ..< min (top_of r + height_of r) (top_of s + height_of s)}"
    by (simp only: cells_def t(3,4)) (simp only: t(1,2))
  with Some show ?thesis by (auto simp: cells_def)
qed

lemma min_of_four:
  fixes l r t b :: nat
  shows "min (min (min l r) t) b = t \<longleftrightarrow> t \<le> l \<and> t \<le> r \<and> t \<le> b"
    "min (min (min l r) t) b = b \<longleftrightarrow> b \<le> l \<and> b \<le> r \<and> b \<le> t"
    "min (min (min l r) t) b = l \<longleftrightarrow> l \<le> r \<and> l \<le> t \<and> l \<le> b"
  by linarith+

lemma nearest_edge_unfold:
  fixes r :: rect and p :: point
  defines "l \<equiv> unat (column p) - left_of r"
    and "rt \<equiv> min (left_of r + (width_of r - 1)) 65535 - unat (column p)"
    and "t \<equiv> unat (row p) - top_of r"
    and "b \<equiv> min (top_of r + (height_of r - 1)) 65535 - unat (row p)"
  shows "compute_nearest_edge_direction r p =
     (if t \<le> l \<and> t \<le> rt \<and> t \<le> b then Up
      else if b \<le> l \<and> b \<le> rt \<and> b \<le> t then Down
      else if l \<le> rt \<and> l \<le> t \<and> l \<le> b then Left else Right)"
proof -
  have eq: "unat (sat_sub (column p) (column (origin r))) = l"
    "unat (sat_sub (sat_add (column (origin r)) (sat_sub (column_count (rect_size r)) 1)) (column p)) = rt"
    "unat (sat_sub (row p) (row (origin r))) = t"
    "unat (sat_sub (sat_add (row (origin r)) (sat_sub (row_count (rect_size r)) 1)) (row p)) = b"
    by (simp_all add: l_def rt_def t_def b_def unat_simps rect_measures)
  show ?thesis
    by (simp only: compute_nearest_edge_direction_def Let_def unat_eq_iff [where 'a = 16] unat_min eq
        min_of_four)
qed

text \<open>The cells between a point of the rectangle and the row or column of cells along one side.\<close>

definition edge_cell_distance :: "rect \<Rightarrow> point \<Rightarrow> direction \<Rightarrow> nat" where
  "edge_cell_distance r p d = (case d of
     Left \<Rightarrow> unat (column p) - left_of r
   | Right \<Rightarrow> left_of r + width_of r - 1 - unat (column p)
   | Up \<Rightarrow> unat (row p) - top_of r
   | Down \<Rightarrow> top_of r + height_of r - 1 - unat (row p))"

fun direction_rank :: "direction \<Rightarrow> nat" where
  "direction_rank Up = 0"
| "direction_rank Down = 1"
| "direction_rank Left = 2"
| "direction_rank Right = 3"

lemma nearest_of_four:
  fixes f :: "direction \<Rightarrow> nat"
  assumes "chosen = (if f Up \<le> f Left \<and> f Up \<le> f Right \<and> f Up \<le> f Down then Up
      else if f Down \<le> f Left \<and> f Down \<le> f Right \<and> f Down \<le> f Up then Down
      else if f Left \<le> f Right \<and> f Left \<le> f Up \<and> f Left \<le> f Down then Left else Right)"
  shows "f chosen \<le> f d \<and> (f d = f chosen \<longrightarrow> direction_rank chosen \<le> direction_rank d)"
proof -
  obtain l r u b where f: "f Left = l" "f Right = r" "f Up = u" "f Down = b" by simp
  show ?thesis
  proof (cases "u \<le> l \<and> u \<le> r \<and> u \<le> b")
    case True
    with assms f show ?thesis by (cases d) simp_all
  next
    case up: False
    show ?thesis
    proof (cases "b \<le> l \<and> b \<le> r \<and> b \<le> u")
      case True
      with up have "b < u" by linarith
      with True up assms f show ?thesis by (cases d) simp_all
    next
      case down: False
      show ?thesis
      proof (cases "l \<le> r \<and> l \<le> u \<and> l \<le> b")
        case True
        with up down have "l < u" "l < b" by linarith+
        with True up down assms f show ?thesis by (cases d) simp_all
      next
        case False
        with up down have "r < l" "r < u" "r < b" by linarith+
        with False up down assms f show ?thesis by (cases d) simp_all
      qed
    qed
  qed
qed

text \<open>
  The side \<open>compute_nearest_edge_direction\<close> picks for a point of the rectangle is one whose
  edge cells are nearest the point: no other side's edge row or column is nearer, and a tie goes to
  \<open>Up\<close>, then \<open>Down\<close>, then \<open>Left\<close>, then \<open>Right\<close>.
\<close>

theorem nearest_edge_direction_nearest:
  assumes "is_point_inside r p" and "within_grid r"
    and "compute_nearest_edge_direction r p = chosen"
  shows "edge_cell_distance r p chosen \<le> edge_cell_distance r p d \<and>
         (edge_cell_distance r p d = edge_cell_distance r p chosen \<longrightarrow>
            direction_rank chosen \<le> direction_rank d)"
proof -
  have inside: "left_of r \<le> unat (column p)" "unat (column p) < left_of r + width_of r"
    "top_of r \<le> unat (row p)" "unat (row p) < top_of r + height_of r"
    using assms(1) by (auto simp: is_point_inside_cells cells_def)
  have "left_of r + (width_of r - 1) \<le> 65535" "top_of r + (height_of r - 1) \<le> 65535"
    using assms(2) by (auto simp: within_grid_def)
  then have grid: "min (left_of r + (width_of r - 1)) 65535 = left_of r + width_of r - 1"
    "min (top_of r + (height_of r - 1)) 65535 = top_of r + height_of r - 1"
    using inside by (simp_all add: min_def)
  let ?f = "edge_cell_distance r p"
  have f: "unat (column p) - left_of r = ?f Left" "left_of r + width_of r - 1 - unat (column p) = ?f Right"
    "unat (row p) - top_of r = ?f Up" "top_of r + height_of r - 1 - unat (row p) = ?f Down"
    by (simp_all add: edge_cell_distance_def)
  have "chosen = (if ?f Up \<le> ?f Left \<and> ?f Up \<le> ?f Right \<and> ?f Up \<le> ?f Down then Up
      else if ?f Down \<le> ?f Left \<and> ?f Down \<le> ?f Right \<and> ?f Down \<le> ?f Up then Down
      else if ?f Left \<le> ?f Right \<and> ?f Left \<le> ?f Up \<and> ?f Left \<le> ?f Down then Left else Right)"
    using assms(3) by (simp only: nearest_edge_unfold grid f)
  then show ?thesis by (rule nearest_of_four)
qed

theorem nearest_edge_direction_nearest_witness:
  "edge_cell_distance \<lparr>origin = \<lparr>column = 40, row = 0\<rparr>, rect_size = \<lparr>column_count = 40, row_count = 22\<rparr>\<rparr>
     \<lparr>column = 75, row = 10\<rparr> Right \<le>
   edge_cell_distance \<lparr>origin = \<lparr>column = 40, row = 0\<rparr>, rect_size = \<lparr>column_count = 40, row_count = 22\<rparr>\<rparr>
     \<lparr>column = 75, row = 10\<rparr> Up"
proof -
  let ?r = "\<lparr>origin = \<lparr>column = 40, row = 0\<rparr>, rect_size = \<lparr>column_count = 40, row_count = 22\<rparr>\<rparr>"
  let ?p = "\<lparr>column = 75, row = 10\<rparr>"
  have "is_point_inside ?r ?p" by (simp add: is_point_inside_cells cells_def rect_measures)
  moreover have "within_grid ?r" by (simp add: within_grid_def rect_measures)
  moreover have "compute_nearest_edge_direction ?r ?p = Right"
    by (simp add: nearest_edge_unfold rect_measures)
  ultimately show ?thesis
    by (rule nearest_edge_direction_nearest [THEN conjunct1])
qed

end
