(* ===== verification/Size_Weight.thy ===== *)
theory Size_Weight
  imports Geometry
begin

text \<open>
  Size constraints of split children (\<open>koshi-layout/src/size.rs\<close>): the distribution strategies, the
  validated constructors and the complete sizing instruction of one split child. A resize offset is
  an \<open>i32\<close> of the code, kept as an \<open>int\<close>.
\<close>

type_synonym flex_weight = u32

datatype size_constraint =
    Flex flex_weight
  | Percent u8
  | Fixed u16
  | Minimum u16
  | Preferred u16

datatype constraint_error =
    ZeroFlexWeight
  | PercentOutOfRange u8
  | ZeroFixedCellCount

definition from_flex_weight :: "flex_weight \<Rightarrow> constraint_error + size_constraint" where
  "from_flex_weight w = (if w = 0 then Inl ZeroFlexWeight else Inr (Flex w))"

definition from_percent :: "u8 \<Rightarrow> constraint_error + size_constraint" where
  "from_percent percent_value =
     (if 1 \<le> percent_value \<and> percent_value \<le> 100 then Inr (Percent percent_value)
      else Inl (PercentOutOfRange percent_value))"

definition from_fixed_cell_count :: "u16 \<Rightarrow> constraint_error + size_constraint" where
  "from_fixed_cell_count cell_count =
     (if cell_count = 0 then Inl ZeroFixedCellCount else Inr (Fixed cell_count))"

record size_weight =
  primary_constraint :: size_constraint
  minimum_cell_count :: "u16 option"
  preferred_cell_count :: "u16 option"
  resize_delta :: int

definition from_primary_constraint :: "size_constraint \<Rightarrow> size_weight" where
  "from_primary_constraint c =
     \<lparr>primary_constraint = c, minimum_cell_count = None, preferred_cell_count = None,
      resize_delta = 0\<rparr>"

definition default_size_weight :: size_weight where
  "default_size_weight = from_primary_constraint (Flex 1)"

text \<open>\<open>weights.get(i).copied().unwrap_or_default()\<close>: a child without a weight has the default share.\<close>

definition weight_at :: "size_weight list \<Rightarrow> nat \<Rightarrow> size_weight" where
  "weight_at ws i = (case nth_opt ws i of Some w \<Rightarrow> w | None \<Rightarrow> default_size_weight)"

text \<open>The values the validated constructors produce; normalization restores this range.\<close>

fun valid_constraint :: "size_constraint \<Rightarrow> bool" where
  "valid_constraint (Flex w) \<longleftrightarrow> w \<noteq> 0"
| "valid_constraint (Percent p) \<longleftrightarrow> 1 \<le> p \<and> p \<le> 100"
| "valid_constraint (Fixed n) \<longleftrightarrow> n \<noteq> 0"
| "valid_constraint (Minimum n) \<longleftrightarrow> n \<noteq> 0"
| "valid_constraint (Preferred n) \<longleftrightarrow> n \<noteq> 0"

lemma validated_constructors:
  "from_flex_weight w = Inr c \<Longrightarrow> valid_constraint c"
  "from_percent p = Inr c \<Longrightarrow> valid_constraint c"
  "from_fixed_cell_count n = Inr c \<Longrightarrow> valid_constraint c"
  by (auto simp: from_flex_weight_def from_percent_def from_fixed_cell_count_def split: if_splits)

definition in_i32 :: "int \<Rightarrow> bool" where
  "in_i32 d \<longleftrightarrow> - 2147483648 \<le> d \<and> d \<le> 2147483647"

definition clamp_i32 :: "int \<Rightarrow> int" where
  "clamp_i32 d = max (- 2147483648) (min 2147483647 d)"

lemma in_i32_clamp [simp]: "in_i32 (clamp_i32 d)"
  by (simp add: in_i32_def clamp_i32_def)

lemma clamp_i32_id [simp]: "in_i32 d \<Longrightarrow> clamp_i32 d = d"
  by (simp add: in_i32_def clamp_i32_def)

end
