(* ===== verification/Layout_Tree.thy ===== *)
theory Layout_Tree
  imports Ids Size_Weight
begin

text \<open>
  The layout tree (\<open>koshi-layout/src/tree.rs\<close>) and the layout modes (\<open>mode.rs\<close>). Leaves are panes;
  interior nodes are splits. Walks over the tree are recursive functions over the children lists; a
  \<open>&mut\<close> accessor that the code writes through is the path of the node together with
  \<open>update_node_at_path\<close>. The code's panics on a path that does not belong to the tree are the result
  \<open>None\<close> of \<open>get_node_at_path\<close> and \<open>update_node_at_path\<close>.
\<close>

section \<open>Nodes\<close>

datatype layout_node = Pane pane_id | Split split_node
  and split_node =
    SplitNode (direction: split_direction) (children: "layout_node list")
      (weights: "size_weight list") (active_child_index: nat)

datatype layout_mode = Tiled | Fullscreen (focused_pane_id: pane_id)

fun compute_split_direction :: "direction \<Rightarrow> split_direction" where
  "compute_split_direction Left = Horizontal"
| "compute_split_direction Right = Horizontal"
| "compute_split_direction Up = Vertical"
| "compute_split_direction Down = Vertical"

lemma layout_node_induct [case_names Pane Split]:
  assumes "\<And>p. P (Pane p)"
    and "\<And>d cs ws a. (\<And>c. c \<in> set cs \<Longrightarrow> P c) \<Longrightarrow> P (Split (SplitNode d cs ws a))"
  shows "P t"
  by (rule layout_node.induct [of P "\<lambda>s. P (Split s)"]) (auto intro: assms)

fun list_leaf_pane_ids :: "layout_node \<Rightarrow> pane_id list" where
  "list_leaf_pane_ids (Pane p) = [p]"
| "list_leaf_pane_ids (Split (SplitNode d cs ws a)) = concat (map list_leaf_pane_ids cs)"

fun has_pane :: "layout_node \<Rightarrow> pane_id \<Rightarrow> bool" where
  "has_pane (Pane q) p \<longleftrightarrow> q = p"
| "has_pane (Split (SplitNode d cs ws a)) p \<longleftrightarrow> (\<exists>c \<in> set cs. has_pane c p)"

section \<open>Split nodes\<close>

definition with_equal_weights :: "split_direction \<Rightarrow> layout_node list \<Rightarrow> split_node" where
  "with_equal_weights d cs = SplitNode d cs (replicate (length cs) default_size_weight) 0"

definition from_stacked_pane_ids :: "pane_id list \<Rightarrow> nat \<Rightarrow> split_node" where
  "from_stacked_pane_ids ps active =
     SplitNode Stacked (map Pane ps) (replicate (length ps) default_size_weight)
       (min active (length ps - 1))"

definition get_active_child_index :: "split_node \<Rightarrow> nat" where
  "get_active_child_index s = min (active_child_index s) (length (children s) - 1)"

text \<open>\<open>iter().find_map(..)\<close>: the first result that is there.\<close>

fun find_map :: "('a \<Rightarrow> 'b option) \<Rightarrow> 'a list \<Rightarrow> 'b option" where
  "find_map f [] = None"
| "find_map f (x # xs) = (case f x of Some y \<Rightarrow> Some y | None \<Rightarrow> find_map f xs)"

definition get_shown_child_index :: "split_node \<Rightarrow> pane_id list \<Rightarrow> nat" where
  "get_shown_child_index s focus_history =
     (case find_map (\<lambda>p. position (\<lambda>c. has_pane c p) (children s)) focus_history of
        Some i \<Rightarrow> i
      | None \<Rightarrow> get_active_child_index s)"

definition is_child_collapsed :: "split_node \<Rightarrow> nat \<Rightarrow> bool" where
  "is_child_collapsed s i \<longleftrightarrow>
     direction s = Stacked \<and> i < length (children s) \<and> i \<noteq> get_active_child_index s"

section \<open>Walks over the tree\<close>

function is_pane_collapsed :: "layout_node \<Rightarrow> pane_id \<Rightarrow> pane_id list \<Rightarrow> bool" where
  "is_pane_collapsed (Pane q) p focus_history = False"
| "is_pane_collapsed (Split (SplitNode d cs ws a)) p focus_history =
     (case position (\<lambda>c. has_pane c p) cs of
        None \<Rightarrow> False
      | Some i \<Rightarrow>
          if d = Stacked \<and> i \<noteq> get_shown_child_index (SplitNode d cs ws a) focus_history then True
          else is_pane_collapsed (cs ! i) p focus_history)"
  by pat_completeness auto
termination
  by (relation "measure (\<lambda>(n, _, _). size n)")
     (auto dest!: position_Some nth_mem size_list_estimation' [where f = size, OF _ order_refl])

fun has_stack_showing_inactive_member :: "layout_node \<Rightarrow> pane_id list \<Rightarrow> bool" where
  "has_stack_showing_inactive_member (Pane q) focus_history = False"
| "has_stack_showing_inactive_member (Split (SplitNode d cs ws a)) focus_history =
     ((d = Stacked \<and>
       get_shown_child_index (SplitNode d cs ws a) focus_history \<noteq>
         get_active_child_index (SplitNode d cs ws a)) \<or>
      (\<exists>c \<in> set cs. has_stack_showing_inactive_member c focus_history))"

fun apply_shown_stack_members :: "layout_node \<Rightarrow> pane_id list \<Rightarrow> layout_node" where
  "apply_shown_stack_members (Pane q) focus_history = Pane q"
| "apply_shown_stack_members (Split (SplitNode d cs ws a)) focus_history =
     Split (SplitNode d (map (\<lambda>c. apply_shown_stack_members c focus_history) cs) ws
       (if d = Stacked then get_shown_child_index (SplitNode d cs ws a) focus_history else a))"

definition build_shown_layout_tree :: "layout_node \<Rightarrow> pane_id list \<Rightarrow> layout_node option" where
  "build_shown_layout_tree t focus_history =
     (if \<not> has_stack_showing_inactive_member t focus_history then None
      else Some (apply_shown_stack_members t focus_history))"

section \<open>Paths\<close>

fun find_pane_path :: "layout_node \<Rightarrow> pane_id \<Rightarrow> nat list option"
  and find_pane_in_children :: "layout_node list \<Rightarrow> nat \<Rightarrow> pane_id \<Rightarrow> nat list option" where
  "find_pane_path (Pane q) p = (if q = p then Some [] else None)"
| "find_pane_path (Split (SplitNode d cs ws a)) p = find_pane_in_children cs 0 p"
| "find_pane_in_children [] i p = None"
| "find_pane_in_children (c # cs) i p =
     (case find_pane_path c p of
        Some path \<Rightarrow> Some (i # path)
      | None \<Rightarrow> find_pane_in_children cs (Suc i) p)"

fun get_node_at_path :: "layout_node \<Rightarrow> nat list \<Rightarrow> layout_node option" where
  "get_node_at_path n [] = Some n"
| "get_node_at_path (Pane q) (i # path) = None"
| "get_node_at_path (Split s) (i # path) =
     (if i < length (children s) then get_node_at_path (children s ! i) path else None)"

definition get_split_at_path :: "layout_node \<Rightarrow> nat list \<Rightarrow> split_node option" where
  "get_split_at_path n path =
     (case get_node_at_path n path of Some (Split s) \<Rightarrow> Some s | _ \<Rightarrow> None)"

fun update_node_at_path :: "(layout_node \<Rightarrow> layout_node) \<Rightarrow> layout_node \<Rightarrow> nat list \<Rightarrow> layout_node option" where
  "update_node_at_path f n [] = Some (f n)"
| "update_node_at_path f (Pane q) (i # path) = None"
| "update_node_at_path f (Split (SplitNode d cs ws a)) (i # path) =
     (if i < length cs then
        map_option (\<lambda>c. Split (SplitNode d (cs[i := c]) ws a)) (update_node_at_path f (cs ! i) path)
      else None)"

definition is_stack_at_path :: "layout_node \<Rightarrow> nat list \<Rightarrow> bool" where
  "is_stack_at_path n path =
     (case get_node_at_path n path of Some (Split s) \<Rightarrow> direction s = Stacked | _ \<Rightarrow> False)"

text \<open>
  \<open>find_containing_stack_mut\<close> hands out the innermost stack around a pane; the model gives its path.
\<close>

definition find_containing_stack :: "layout_node \<Rightarrow> pane_id \<Rightarrow> nat list option" where
  "find_containing_stack n p =
     (case find_pane_path n p of
        None \<Rightarrow> None
      | Some path \<Rightarrow>
          map_option (\<lambda>k. take k path)
            (find (\<lambda>k. is_stack_at_path n (take k path)) (rev [0..<length path])))"

section \<open>Leaves and paths\<close>

lemma has_pane_iff: "has_pane t p \<longleftrightarrow> p \<in> set (list_leaf_pane_ids t)"
  by (induction t rule: layout_node_induct) auto

lemma shown_leaves: "list_leaf_pane_ids (apply_shown_stack_members t h) = list_leaf_pane_ids t"
  by (induction t h rule: apply_shown_stack_members.induct) (auto simp: comp_def intro!: arg_cong [where f = concat])

lemma leaves_split: "list_leaf_pane_ids (Split s) = concat (map list_leaf_pane_ids (children s))"
  by (cases s) simp

lemma get_node_at_path_append:
  "get_node_at_path t (xs @ ys) = Option.bind (get_node_at_path t xs) (\<lambda>n. get_node_at_path n ys)"
proof (induction xs arbitrary: t)
  case Nil
  then show ?case by simp
next
  case (Cons x xs)
  then show ?case by (cases t) auto
qed

lemma get_node_at_path_take:
  "get_node_at_path t path = Some n \<Longrightarrow> \<exists>m. get_node_at_path t (take k path) = Some m"
  using get_node_at_path_append [of t "take k path" "drop k path"]
  by (cases "get_node_at_path t (take k path)") auto

text \<open>Every node strictly above the end of a path of the tree is a split.\<close>

lemma get_node_at_path_proper_prefix:
  assumes "get_node_at_path t path = Some n" and "k < length path"
  shows "\<exists>s. get_node_at_path t (take k path) = Some (Split s) \<and> path ! k < length (children s)"
proof -
  have "get_node_at_path t (take k path @ path ! k # drop (Suc k) path) = Some n"
    using assms by (simp add: id_take_nth_drop [symmetric])
  then obtain m where m: "get_node_at_path t (take k path) = Some m"
    and "get_node_at_path m (path ! k # drop (Suc k) path) = Some n"
    by (auto simp: get_node_at_path_append bind_eq_Some_conv)
  then show ?thesis by (cases m) (auto split: if_splits)
qed

text \<open>
  A walk down a path splits the leaf sequence in the leaves before, in and after the node there; an
  update replaces the middle part.
\<close>

fun leaves_before :: "layout_node \<Rightarrow> nat list \<Rightarrow> pane_id list" where
  "leaves_before t [] = []"
| "leaves_before (Pane q) (i # path) = []"
| "leaves_before (Split s) (i # path) =
     concat (map list_leaf_pane_ids (take i (children s))) @
     (if i < length (children s) then leaves_before (children s ! i) path else [])"

fun leaves_after :: "layout_node \<Rightarrow> nat list \<Rightarrow> pane_id list" where
  "leaves_after t [] = []"
| "leaves_after (Pane q) (i # path) = []"
| "leaves_after (Split s) (i # path) =
     (if i < length (children s) then leaves_after (children s ! i) path else []) @
     concat (map list_leaf_pane_ids (drop (Suc i) (children s)))"

lemma concat_map_nth:
  "i < length cs \<Longrightarrow>
     concat (map f cs) = concat (map f (take i cs)) @ f (cs ! i) @ concat (map f (drop (Suc i) cs))"
  by (subst (1) id_take_nth_drop [of i cs]) simp_all

lemma concat_map_update:
  "i < length cs \<Longrightarrow>
     concat (map f (cs[i := c])) = concat (map f (take i cs)) @ f c @ concat (map f (drop (Suc i) cs))"
  by (simp add: upd_conv_take_nth_drop)

lemma leaves_at_path:
  "get_node_at_path t path = Some n \<Longrightarrow>
     list_leaf_pane_ids t = leaves_before t path @ list_leaf_pane_ids n @ leaves_after t path"
proof (induction path arbitrary: t)
  case Nil
  then show ?case by simp
next
  case (Cons i path)
  then obtain s where s: "t = Split s" "i < length (children s)"
    and "get_node_at_path (children s ! i) path = Some n"
    by (cases t) (auto split: if_splits)
  with Cons.IH show ?case
    by (simp add: leaves_split concat_map_nth [of i "children s" list_leaf_pane_ids])
qed

lemma update_node_at_path_Some:
  "get_node_at_path t path = Some n \<Longrightarrow>
     \<exists>t'. update_node_at_path f t path = Some t' \<and> get_node_at_path t' path = Some (f n) \<and>
          leaves_before t' path = leaves_before t path \<and> leaves_after t' path = leaves_after t path"
proof (induction path arbitrary: t)
  case Nil
  then show ?case by simp
next
  case (Cons i path)
  then obtain d cs ws a where s: "t = Split (SplitNode d cs ws a)" "i < length cs"
    and get: "get_node_at_path (cs ! i) path = Some n"
    by (cases t rule: layout_node.exhaust) (metis layout_node.exhaust split_node.exhaust split_node.sel(2)
      get_node_at_path.simps(2,3) option.distinct(1))+
  from Cons.IH [OF get] obtain c where
    "update_node_at_path f (cs ! i) path = Some c" "get_node_at_path c path = Some (f n)"
    "leaves_before c path = leaves_before (cs ! i) path"
    "leaves_after c path = leaves_after (cs ! i) path" by blast
  with s show ?case by (simp add: take_update_cancel drop_update_cancel)
qed

lemma update_node_at_path_None:
  "update_node_at_path f t path = None \<longleftrightarrow> get_node_at_path t path = None"
proof (induction path arbitrary: t)
  case Nil
  then show ?case by simp
next
  case (Cons i path)
  show ?case
  proof (cases t)
    case (Pane q)
    then show ?thesis by simp
  next
    case (Split s)
    then show ?thesis using Cons.IH by (cases s) simp
  qed
qed

lemma leaves_update:
  assumes "update_node_at_path f t path = Some t'" and "get_node_at_path t path = Some n"
  shows "list_leaf_pane_ids t' =
           leaves_before t path @ list_leaf_pane_ids (f n) @ leaves_after t path"
  using update_node_at_path_Some [OF assms(2), of f] assms(1) leaves_at_path [of t' path "f n"]
  by auto

lemma find_pane_path_None:
  "find_pane_path t p = None \<longleftrightarrow> p \<notin> set (list_leaf_pane_ids t)"
  "find_pane_in_children cs k p = None \<longleftrightarrow> p \<notin> set (concat (map list_leaf_pane_ids cs))"
  by (induction t p and cs k p rule: find_pane_path_find_pane_in_children.induct)
     (auto split: option.splits)

lemma find_pane_path_props:
  "find_pane_path t p = Some path \<Longrightarrow>
     get_node_at_path t path = Some (Pane p) \<and> p \<notin> set (leaves_before t path)"
  "find_pane_in_children cs k p = Some path \<Longrightarrow>
     \<exists>i rest. path = (k + i) # rest \<and> i < length cs \<and> get_node_at_path (cs ! i) rest = Some (Pane p) \<and>
       p \<notin> set (leaves_before (cs ! i) rest) \<and>
       p \<notin> set (concat (map list_leaf_pane_ids (take i cs)))"
proof (induction t p and cs k p arbitrary: path and path rule: find_pane_path_find_pane_in_children.induct)
  case (1 q p)
  then show ?case by (simp split: if_splits)
next
  case (2 d cs ws a p)
  then show ?case by fastforce
next
  case (3 i p)
  then show ?case by simp
next
  case (4 c cs i p)
  show ?case
  proof (cases "find_pane_path c p")
    case None
    with 4 obtain j rest where *: "path = (Suc i + j) # rest" "j < length cs"
      "get_node_at_path (cs ! j) rest = Some (Pane p)" "p \<notin> set (leaves_before (cs ! j) rest)"
      "p \<notin> set (concat (map list_leaf_pane_ids (take j cs)))" by fastforce
    with None show ?thesis
      by (intro exI [of _ "Suc j"] exI [of _ rest]) (simp add: find_pane_path_None)
  next
    case (Some rest)
    with 4 show ?thesis by (intro exI [of _ 0] exI [of _ rest]) simp
  qed
qed

lemma find_pane_path_iff: "(\<exists>path. find_pane_path t p = Some path) \<longleftrightarrow> has_pane t p"
  using find_pane_path_None(1) [of t p] by (auto simp: has_pane_iff)

lemma find_containing_stack_props:
  assumes "find_containing_stack t p = Some path"
  shows "\<exists>pane_path s k. find_pane_path t p = Some pane_path \<and> k < length pane_path \<and>
           path = take k pane_path \<and> get_node_at_path t path = Some (Split s) \<and>
           direction s = Stacked \<and> pane_path ! k < length (children s) \<and>
           (\<forall>j. k < j \<and> j < length pane_path \<longrightarrow> \<not> is_stack_at_path t (take j pane_path))"
proof -
  from assms obtain pane_path k where pp: "find_pane_path t p = Some pane_path"
    and k: "find (\<lambda>k. is_stack_at_path t (take k pane_path)) (rev [0..<length pane_path]) = Some k"
    and path: "path = take k pane_path"
    by (auto simp: find_containing_stack_def split: option.splits)
  from k obtain i where i: "i < length pane_path" "k = rev [0..<length pane_path] ! i"
    "is_stack_at_path t (take k pane_path)"
    "\<forall>j < i. \<not> is_stack_at_path t (take (rev [0..<length pane_path] ! j) pane_path)"
    by (auto simp: find_Some_iff)
  from i have k_eq: "k = length pane_path - Suc i" by (simp add: rev_nth)
  have above: "\<not> is_stack_at_path t (take j pane_path)" if "k < j" "j < length pane_path" for j
    using i(4) [rule_format, of "length pane_path - Suc j"] that k_eq i(1) by (simp add: rev_nth)
  from pp have "get_node_at_path t pane_path = Some (Pane p)" by (simp add: find_pane_path_props)
  moreover from i k_eq have "k < length pane_path" by simp
  ultimately obtain s where "get_node_at_path t (take k pane_path) = Some (Split s)"
    "pane_path ! k < length (children s)"
    using get_node_at_path_proper_prefix by blast
  with pp path i(3) \<open>k < length pane_path\<close> above show ?thesis
    by (auto simp: is_stack_at_path_def)
qed

section \<open>Shapes of trees\<close>

text \<open>
  \<open>paired\<close>: every split has one weight per child. \<open>populated\<close>: no split is empty, hence every node
  holds a leaf. The edits keep both.
\<close>

fun paired :: "layout_node \<Rightarrow> bool" where
  "paired (Pane q) = True"
| "paired (Split (SplitNode d cs ws a)) \<longleftrightarrow> length ws = length cs \<and> (\<forall>c \<in> set cs. paired c)"

fun populated :: "layout_node \<Rightarrow> bool" where
  "populated (Pane q) = True"
| "populated (Split (SplitNode d cs ws a)) \<longleftrightarrow> cs \<noteq> [] \<and> (\<forall>c \<in> set cs. populated c)"

lemma populated_leaves: "populated t \<Longrightarrow> list_leaf_pane_ids t \<noteq> []"
proof (induction t rule: layout_node_induct)
  case (Pane p)
  then show ?case by simp
next
  case (Split d cs ws a)
  then show ?case by (cases cs) auto
qed

lemma shape_at_path:
  assumes "get_node_at_path t path = Some n"
  shows "paired t \<Longrightarrow> paired n" and "populated t \<Longrightarrow> populated n"
  using assms
proof (induction path arbitrary: t)
  case (Cons i path)
  {
    case 1
    with Cons.IH show ?case
      by (cases t rule: paired.cases) (auto simp: all_set_conv_all_nth split: if_splits)
  next
    case 2
    with Cons.IH show ?case
      by (cases t rule: paired.cases) (auto simp: all_set_conv_all_nth split: if_splits)
  }
qed simp_all

lemma update_Cons_cases:
  assumes "update_node_at_path f t (i # path) = Some t'"
  obtains d cs ws a c where "t = Split (SplitNode d cs ws a)" "i < length cs"
    "update_node_at_path f (cs ! i) path = Some c" "t' = Split (SplitNode d (cs[i := c]) ws a)"
  using assms by (cases t rule: paired.cases) (auto split: if_splits)

lemma shape_update:
  assumes "update_node_at_path f t path = Some t'" and "get_node_at_path t path = Some n"
  shows "(paired t \<longrightarrow> paired (f n) \<longrightarrow> paired t') \<and>
         (populated t \<longrightarrow> populated (f n) \<longrightarrow> populated t')"
  using assms
proof (induction path arbitrary: t t')
  case Nil
  then show ?case by simp
next
  case (Cons i path)
  from Cons.prems(1) obtain d cs ws a c where t: "t = Split (SplitNode d cs ws a)" "i < length cs"
    "update_node_at_path f (cs ! i) path = Some c" "t' = Split (SplitNode d (cs[i := c]) ws a)"
    by (rule update_Cons_cases)
  with Cons.prems(2) have "get_node_at_path (cs ! i) path = Some n" by simp
  from Cons.IH [OF t(3) this] t show ?case
    by (auto simp: all_set_conv_all_nth nth_list_update)
qed

end
