(* ===== verification/Normalize.thy ===== *)
theory Normalize
  imports Layout_Tree
begin

text \<open>
  Layout normalization (\<open>koshi-layout/src/normalize.rs\<close>): dead leaves are dropped, empty splits
  pruned, single-child splits collapsed, same-direction splits merged and weights brought back into
  their valid ranges. The theory shows what normalization keeps (exactly the live leaves, in order)
  and the shape it gives, and that a second pass changes nothing.

  Products the code computes in \<open>u128\<close> are natural numbers with the overflow checks written out. The
  code's \<open>unreachable!\<close> and \<open>expect\<close> in the merge rest on the merge factor computed just before;
  those branches are the function's own failure value here, and \<open>merge_factor_split\<close> shows that a
  factor other than \<open>1\<close> never reaches them.
\<close>

section \<open>Weights\<close>

definition canonicalize_size_weight :: "size_weight \<Rightarrow> size_weight" where
  "canonicalize_size_weight w =
     \<lparr>primary_constraint =
        (case primary_constraint w of
           Flex n \<Rightarrow> if n = 0 then Flex 1 else Flex n
         | Percent p \<Rightarrow> Percent (if p < 1 then 1 else if 100 < p then 100 else p)
         | Fixed n \<Rightarrow> if n = 0 then Fixed 1 else Fixed n
         | Minimum n \<Rightarrow> if n = 0 then Minimum 1 else Minimum n
         | Preferred n \<Rightarrow> if n = 0 then Preferred 1 else Preferred n),
      minimum_cell_count =
        (case minimum_cell_count w of Some n \<Rightarrow> if 0 < n then Some n else None | None \<Rightarrow> None),
      preferred_cell_count =
        (case preferred_cell_count w of Some n \<Rightarrow> if 0 < n then Some n else None | None \<Rightarrow> None),
      resize_delta = resize_delta w\<rparr>"

definition get_plain_flex_weight :: "size_weight \<Rightarrow> flex_weight option" where
  "get_plain_flex_weight w =
     (case primary_constraint w of
        Flex share \<Rightarrow>
          if minimum_cell_count w = None \<and> preferred_cell_count w = None \<and> resize_delta w = 0
          then Some share else None
      | _ \<Rightarrow> None)"

text \<open>\<open>u128::checked_mul\<close> and \<open>FlexWeight::try_from\<close> on a \<open>u128\<close>.\<close>

definition checked_mul_u128 :: "nat \<Rightarrow> nat \<Rightarrow> nat option" where
  "checked_mul_u128 a b = (if a * b < 2 ^ 128 then Some (a * b) else None)"

definition flex_weight_try_from :: "nat \<Rightarrow> flex_weight option" where
  "flex_weight_try_from n = (if n < 2 ^ 32 then Some (word_of_nat n) else None)"

definition compute_scaled_flex :: "size_weight \<Rightarrow> nat \<Rightarrow> size_weight option" where
  "compute_scaled_flex w merge_scale =
     Option.bind (get_plain_flex_weight w) (\<lambda>share.
     Option.bind (checked_mul_u128 (unat share) merge_scale) (\<lambda>product.
     Option.bind (flex_weight_try_from product) (\<lambda>rescaled.
     Some (from_primary_constraint (Flex rescaled)))))"

section \<open>Merging same-direction splits\<close>

record normalized_child =
  nc_layout_node :: layout_node
  nc_size_weight :: size_weight
  nc_original_child_index :: nat

fun sum_plain_flex_weights :: "size_weight list \<Rightarrow> u32 \<Rightarrow> u32 option" where
  "sum_plain_flex_weights [] running = Some running"
| "sum_plain_flex_weights (w # ws) running =
     Option.bind (get_plain_flex_weight w) (\<lambda>share.
     Option.bind (checked_add running share) (\<lambda>running'. sum_plain_flex_weights ws running'))"

definition compute_mergeable_weight_sum :: "split_direction \<Rightarrow> normalized_child \<Rightarrow> u32 option" where
  "compute_mergeable_weight_sum d c =
     (case nc_layout_node c of
        Pane _ \<Rightarrow> None
      | Split inner_split \<Rightarrow>
          if direction inner_split \<noteq> d \<or> children inner_split = [] then None
          else
            Option.bind (get_plain_flex_weight (nc_size_weight c)) (\<lambda>_.
            Option.bind (sum_plain_flex_weights (weights inner_split) 0) (\<lambda>running.
            if 0 < running then Some running else None)))"

definition compute_merged_size_weights :: "normalized_child \<Rightarrow> nat \<Rightarrow> nat \<Rightarrow> size_weight list option" where
  "compute_merged_size_weights c merge_factor merge_scale =
     (if merge_factor = 1
      then map_option (\<lambda>w. [w]) (compute_scaled_flex (nc_size_weight c) merge_scale)
      else
        (case nc_layout_node c of
           Pane _ \<Rightarrow> None
         | Split inner_split \<Rightarrow>
             Option.bind (get_plain_flex_weight (nc_size_weight c)) (\<lambda>slot_share.
             those (map (\<lambda>w.
               Option.bind (get_plain_flex_weight w) (\<lambda>inner_share.
               Option.bind (checked_mul_u128 (unat inner_share) (unat slot_share)) (\<lambda>product.
               Option.bind (checked_mul_u128 product merge_scale) (\<lambda>product'.
               map_option (\<lambda>share. from_primary_constraint (Flex share))
                 (flex_weight_try_from product')))))
               (weights inner_split)))))"

definition merge_factor :: "split_direction \<Rightarrow> normalized_child \<Rightarrow> nat" where
  "merge_factor d c = (case compute_mergeable_weight_sum d c of None \<Rightarrow> 1 | Some weight_sum \<Rightarrow> unat weight_sum)"

fun checked_product :: "nat list \<Rightarrow> nat \<Rightarrow> nat option" where
  "checked_product [] product = Some product"
| "checked_product (f # fs) product =
     Option.bind (checked_mul_u128 product f) (\<lambda>product'. checked_product fs product')"

definition merge_child :: "nat \<Rightarrow> normalized_child \<Rightarrow> size_weight list \<Rightarrow> normalized_child list" where
  "merge_child factor c size_weights =
     (if factor = 1 then [c\<lparr>nc_size_weight := size_weights ! 0\<rparr>]
      else
        (case nc_layout_node c of
           Pane _ \<Rightarrow> []
         | Split inner_split \<Rightarrow>
             map (\<lambda>(child_node, w).
                    \<lparr>nc_layout_node = child_node, nc_size_weight = w,
                     nc_original_child_index = nc_original_child_index c\<rparr>)
               (zip (children inner_split) size_weights)))"

definition merge_same_direction ::
  "split_direction \<Rightarrow> normalized_child list \<Rightarrow> normalized_child list" where
  "merge_same_direction d ncs =
     (let merge_factors = map (merge_factor d) ncs in
      if \<forall>f \<in> set merge_factors. f = 1 then ncs
      else
        (case checked_product merge_factors 1 of
           None \<Rightarrow> ncs
         | Some merge_weight_product \<Rightarrow>
             (case those (map (\<lambda>(c, f). compute_merged_size_weights c f (merge_weight_product div f))
                            (zip ncs merge_factors)) of
                None \<Rightarrow> ncs
              | Some planned_size_weights \<Rightarrow>
                  concat (map (\<lambda>(f, c, ws). merge_child f c ws)
                    (zip merge_factors (zip ncs planned_size_weights))))))"

section \<open>The normalization pass\<close>

definition finish_normalized_split ::
  "split_direction \<Rightarrow> nat \<Rightarrow> normalized_child list \<Rightarrow> layout_node option" where
  "finish_normalized_split d active ncs =
     (if ncs = [] then None
      else
        (let active_child_index =
               (if d = Stacked
                then (case position (\<lambda>c. active \<le> nc_original_child_index c) ncs of
                        Some i \<Rightarrow> i | None \<Rightarrow> length ncs - 1)
                else 0);
             merged = (if d = Stacked then ncs else merge_same_direction d ncs)
         in case merged of
              [c] \<Rightarrow> Some (nc_layout_node c)
            | _ \<Rightarrow> Some (Split (SplitNode d (map nc_layout_node merged) (map nc_size_weight merged)
                     active_child_index))))"

fun normalize_layout_tree :: "layout_node \<Rightarrow> pane_id set \<Rightarrow> layout_node option"
  and normalize_children ::
    "layout_node list \<Rightarrow> nat \<Rightarrow> size_weight list \<Rightarrow> pane_id set \<Rightarrow> normalized_child list" where
  "normalize_layout_tree (Pane p) live = (if p \<in> live then Some (Pane p) else None)"
| "normalize_layout_tree (Split (SplitNode d cs ws a)) live =
     finish_normalized_split d a (normalize_children cs 0 ws live)"
| "normalize_children [] i ws live = []"
| "normalize_children (c # cs) i ws live =
     (case normalize_layout_tree c live of
        None \<Rightarrow> normalize_children cs (Suc i) ws live
      | Some n \<Rightarrow>
          \<lparr>nc_layout_node = n, nc_size_weight = canonicalize_size_weight (weight_at ws i),
           nc_original_child_index = i\<rparr> # normalize_children cs (Suc i) ws live)"

section \<open>Weights in range\<close>

definition canonical :: "size_weight \<Rightarrow> bool" where
  "canonical w \<longleftrightarrow> valid_constraint (primary_constraint w) \<and>
     minimum_cell_count w \<noteq> Some 0 \<and> preferred_cell_count w \<noteq> Some 0"

lemma canonical_canonicalize: "canonical (canonicalize_size_weight w)"
  by (auto simp: canonical_def canonicalize_size_weight_def word_le_nat_alt word_less_nat_alt
        split: size_constraint.splits option.splits)

lemma canonicalize_canonical: "canonical w \<Longrightarrow> canonicalize_size_weight w = w"
  by (cases w)
     (auto simp: canonical_def canonicalize_size_weight_def word_neq_0_conv
        word_le_nat_alt word_less_nat_alt split: size_constraint.splits option.splits)

lemma canonical_default: "canonical default_size_weight"
  by (simp add: canonical_def default_size_weight_def from_primary_constraint_def)

section \<open>What the merge computes\<close>

definition share_of :: "size_weight \<Rightarrow> nat" where
  "share_of w = (case get_plain_flex_weight w of Some u \<Rightarrow> unat u | None \<Rightarrow> 0)"

definition plain :: "size_weight \<Rightarrow> bool" where
  "plain w \<longleftrightarrow> get_plain_flex_weight w \<noteq> None"

definition flex_share :: "nat \<Rightarrow> size_weight" where
  "flex_share n = from_primary_constraint (Flex (word_of_nat n))"

lemma plain_flex_share [simp]: "plain (flex_share n)"
  by (simp add: plain_def flex_share_def get_plain_flex_weight_def from_primary_constraint_def)

lemma share_of_flex_share [simp]: "n < 2 ^ 32 \<Longrightarrow> share_of (flex_share n) = n"
  by (simp add: share_of_def flex_share_def get_plain_flex_weight_def from_primary_constraint_def
      unat_of_nat)

lemma share_of_less: "share_of w < 2 ^ 32"
  using unat_u32_less by (auto simp: share_of_def split: option.splits)

lemma canonical_flex_share: "0 < n \<Longrightarrow> n < 2 ^ 32 \<Longrightarrow> canonical (flex_share n)"
  by (auto simp: canonical_def flex_share_def from_primary_constraint_def word_of_nat_eq_0_iff
      dvd_imp_le)

lemma canonical_share_pos: "canonical w \<Longrightarrow> plain w \<Longrightarrow> 0 < share_of w"
  by (auto simp: canonical_def plain_def share_of_def get_plain_flex_weight_def unat_gt_0
      split: size_constraint.splits if_splits)

lemma compute_scaled_flex_eq:
  "compute_scaled_flex w k =
     (if plain w \<and> share_of w * k < 2 ^ 32 then Some (flex_share (share_of w * k)) else None)"
  by (auto simp: compute_scaled_flex_def plain_def share_of_def checked_mul_u128_def
      flex_weight_try_from_def flex_share_def split: option.splits)

lemma those_map: "those (map f xs) = (if \<forall>x \<in> set xs. f x \<noteq> None then Some (map (the \<circ> f) xs) else None)"
  by (induction xs) (auto split: option.splits)

lemma sum_plain_flex_weights_Some:
  "sum_plain_flex_weights ws acc = Some s \<longleftrightarrow>
     (\<forall>w \<in> set ws. plain w) \<and> unat acc + sum_list (map share_of ws) < 2 ^ 32 \<and>
     unat s = unat acc + sum_list (map share_of ws)"
proof (induction ws arbitrary: acc)
  case Nil
  have "unat acc < 2 ^ 32" using unat_u32_less [of acc] by simp
  then show ?case by (auto simp: word_unat_eq_iff)
next
  case (Cons w ws)
  show ?case
  proof (cases "get_plain_flex_weight w")
    case None
    then show ?thesis by (simp add: plain_def)
  next
    case (Some u)
    then have w: "plain w" "share_of w = unat u" by (simp_all add: plain_def share_of_def)
    show ?thesis
    proof (cases "unat acc + unat u < 2 ^ 32")
      case True
      then have "unat (acc + u) = unat acc + unat u" by (simp add: unat_word_ariths)
      with True Some w Cons.IH [of "acc + u"] show ?thesis
        by (simp add: checked_add_def add.assoc)
    next
      case False
      with Some w show ?thesis by (simp add: checked_add_def)
    qed
  qed
qed

text \<open>Whether a child merges depends on its node once its slot weight is plain.\<close>

definition node_merge_sum :: "split_direction \<Rightarrow> layout_node \<Rightarrow> nat option" where
  "node_merge_sum d n =
     (case n of
        Pane _ \<Rightarrow> None
      | Split s \<Rightarrow>
          if direction s = d \<and> children s \<noteq> [] \<and> (\<forall>w \<in> set (weights s). plain w) \<and>
             0 < sum_list (map share_of (weights s)) \<and> sum_list (map share_of (weights s)) < 2 ^ 32
          then Some (sum_list (map share_of (weights s))) else None)"

lemma merge_factor_eq:
  "merge_factor d c =
     (if plain (nc_size_weight c)
      then (case node_merge_sum d (nc_layout_node c) of None \<Rightarrow> 1 | Some n \<Rightarrow> n) else 1)"
proof (cases "nc_layout_node c")
  case (Pane q)
  then show ?thesis by (simp add: merge_factor_def compute_mergeable_weight_sum_def node_merge_sum_def)
next
  case (Split s)
  note sum0 = sum_plain_flex_weights_Some [of "weights s" 0]
  show ?thesis
  proof (cases "sum_plain_flex_weights (weights s) 0")
    case None
    then have "\<not> ((\<forall>w \<in> set (weights s). plain w) \<and> sum_list (map share_of (weights s)) < 2 ^ 32)"
      using sum0 [of "word_of_nat (sum_list (map share_of (weights s)))"]
      by (auto simp: unat_of_nat)
    with None Split show ?thesis
      by (auto simp: merge_factor_def compute_mergeable_weight_sum_def node_merge_sum_def plain_def
          split: option.splits)
  next
    case (Some t)
    with sum0 [of t] have "unat t = sum_list (map share_of (weights s))" "\<forall>w \<in> set (weights s). plain w"
      "sum_list (map share_of (weights s)) < 2 ^ 32" by simp_all
    moreover from this(1) have "0 < t \<longleftrightarrow> 0 < sum_list (map share_of (weights s))"
      by (simp add: word_less_nat_alt)
    ultimately show ?thesis
      using Some Split
      by (auto simp: merge_factor_def compute_mergeable_weight_sum_def node_merge_sum_def plain_def
          simp del: sum_list_eq_0_iff split: option.splits)
  qed
qed

lemma merge_factor_pos: "1 \<le> merge_factor d c"
  by (auto simp: merge_factor_eq node_merge_sum_def split: option.splits layout_node.splits if_splits)

lemma merge_factor_split:
  assumes "merge_factor d c \<noteq> 1"
  obtains s where "nc_layout_node c = Split s" "direction s = d" "plain (nc_size_weight c)"
    "\<forall>w \<in> set (weights s). plain w" "children s \<noteq> []"
    "merge_factor d c = sum_list (map share_of (weights s))"
  using assms by (auto simp: merge_factor_eq node_merge_sum_def
      split: option.splits layout_node.splits if_splits)

lemma checked_product_eq:
  "\<lbrakk>\<forall>f \<in> set fs. 1 \<le> f; 1 \<le> p; p < 2 ^ 128\<rbrakk> \<Longrightarrow>
     checked_product fs p = (if p * prod_list fs < 2 ^ 128 then Some (p * prod_list fs) else None)"
proof (induction fs arbitrary: p)
  case Nil
  then show ?case by simp
next
  case (Cons f fs)
  have ge: "1 \<le> prod_list fs"
    using Cons.prems(1) by (induction fs) (auto simp: Suc_le_eq)
  show ?case
  proof (cases "p * f < 2 ^ 128")
    case True
    with Cons.IH [of "p * f"] Cons.prems show ?thesis
      by (simp add: checked_mul_u128_def mult.assoc)
  next
    case False
    have "p * f * 1 \<le> p * f * prod_list fs" using ge by (rule mult_le_mono2)
    with False have "\<not> p * prod_list (f # fs) < 2 ^ 128" by (simp only: prod_list.Cons mult.assoc)
    with False show ?thesis by (simp add: checked_mul_u128_def)
  qed
qed

text \<open>The shares a child brings to the merged split, and the children it becomes.\<close>

definition planned_shares :: "split_direction \<Rightarrow> normalized_child \<Rightarrow> nat \<Rightarrow> nat list" where
  "planned_shares d c scale =
     (if merge_factor d c = 1 then [share_of (nc_size_weight c) * scale]
      else (case nc_layout_node c of
              Pane _ \<Rightarrow> []
            | Split s \<Rightarrow> map (\<lambda>w. share_of w * share_of (nc_size_weight c) * scale) (weights s)))"

lemma compute_merged_size_weights_eq:
  "compute_merged_size_weights c (merge_factor d c) scale =
     (if plain (nc_size_weight c) \<and> (\<forall>n \<in> set (planned_shares d c scale). n < 2 ^ 32)
      then Some (map flex_share (planned_shares d c scale)) else None)"
proof (cases "merge_factor d c = 1")
  case True
  then show ?thesis
    by (simp add: compute_merged_size_weights_def planned_shares_def compute_scaled_flex_eq)
next
  case False
  then obtain s where s: "nc_layout_node c = Split s" "plain (nc_size_weight c)"
    "\<forall>w \<in> set (weights s). plain w" by (rule merge_factor_split)
  let ?slot = "share_of (nc_size_weight c)"
  let ?f = "\<lambda>w. Option.bind (get_plain_flex_weight w) (\<lambda>inner_share.
               Option.bind (checked_mul_u128 (unat inner_share) ?slot) (\<lambda>product.
               Option.bind (checked_mul_u128 product scale) (\<lambda>product'.
               map_option (\<lambda>share. from_primary_constraint (Flex share))
                 (flex_weight_try_from product'))))"
  have f: "?f w = (if share_of w * ?slot * scale < 2 ^ 32 then Some (flex_share (share_of w * ?slot * scale)) else None)"
    if "w \<in> set (weights s)" for w
  proof -
    from s that obtain u where u: "get_plain_flex_weight w = Some u" by (auto simp: plain_def)
    then have "unat u = share_of w" by (simp add: share_of_def)
    moreover have "share_of w * ?slot < 2 ^ 32 * 2 ^ 32"
      by (rule mult_strict_mono') (simp_all add: share_of_less [simplified])
    ultimately show ?thesis
      using u by (simp add: checked_mul_u128_def flex_weight_try_from_def flex_share_def)
  qed
  have slot: "get_plain_flex_weight (nc_size_weight c) = Some v \<Longrightarrow> unat v = ?slot" for v
    by (simp add: share_of_def)
  from s(2) obtain v where v: "get_plain_flex_weight (nc_size_weight c) = Some v"
    by (auto simp: plain_def)
  have "compute_merged_size_weights c (merge_factor d c) scale = those (map ?f (weights s))"
    using False s(1) v slot [OF v] by (simp add: compute_merged_size_weights_def)
  also have "\<dots> = those (map (\<lambda>w. if share_of w * ?slot * scale < 2 ^ 32
      then Some (flex_share (share_of w * ?slot * scale)) else None) (weights s))"
    by (simp only: f cong: map_cong)
  also have "\<dots> = (if \<forall>w \<in> set (weights s). share_of w * ?slot * scale < 2 ^ 32
      then Some (map (\<lambda>w. flex_share (share_of w * ?slot * scale)) (weights s)) else None)"
    by (auto simp: those_map)
  finally show ?thesis using False s by (simp add: planned_shares_def comp_def)
qed

definition merged_children :: "split_direction \<Rightarrow> normalized_child \<Rightarrow> nat \<Rightarrow> normalized_child list" where
  "merged_children d c scale =
     merge_child (merge_factor d c) c (map flex_share (planned_shares d c scale))"

definition can_merge :: "split_direction \<Rightarrow> normalized_child list \<Rightarrow> bool" where
  "can_merge d ncs \<longleftrightarrow>
     (let P = prod_list (map (merge_factor d) ncs) in
      (\<exists>c \<in> set ncs. merge_factor d c \<noteq> 1) \<and> P < 2 ^ 128 \<and>
      (\<forall>c \<in> set ncs. plain (nc_size_weight c) \<and>
         (\<forall>n \<in> set (planned_shares d c (P div merge_factor d c)). n < 2 ^ 32)))"

lemma zip_map_self: "zip (map f xs) (zip xs (map g xs)) = map (\<lambda>x. (f x, x, g x)) xs"
  by (induction xs) auto

lemma merge_same_direction_eq:
  "merge_same_direction d ncs =
     (if can_merge d ncs
      then concat (map (\<lambda>c. merged_children d c
             (prod_list (map (merge_factor d) ncs) div merge_factor d c)) ncs)
      else ncs)"
proof -
  let ?P = "prod_list (map (merge_factor d) ncs)"
  let ?plan = "\<lambda>c. compute_merged_size_weights c (merge_factor d c) (?P div merge_factor d c)"
  have product: "checked_product (map (merge_factor d) ncs) 1 = (if ?P < 2 ^ 128 then Some ?P else None)"
    by (subst checked_product_eq) (auto simp: merge_factor_pos [simplified])
  have zips: "map (\<lambda>(c, f). compute_merged_size_weights c f (?P div f))
      (zip ncs (map (merge_factor d) ncs)) = map ?plan ncs"
    by (simp add: zip_map2 zip_same_conv_map)
  have plans: "those (map ?plan ncs) =
      (if \<forall>c \<in> set ncs. plain (nc_size_weight c) \<and>
            (\<forall>n \<in> set (planned_shares d c (?P div merge_factor d c)). n < 2 ^ 32)
       then Some (map (\<lambda>c. map flex_share (planned_shares d c (?P div merge_factor d c))) ncs) else None)"
    by (auto simp: those_map compute_merged_size_weights_eq)
  show ?thesis
    unfolding merge_same_direction_def Let_def product can_merge_def merged_children_def
    using zips plans by (auto simp: zip_map_self comp_def)
qed

section \<open>Normal form\<close>

text \<open>
  \<open>normal live t\<close>: the shape one pass produces. A directional split is one whose children cannot be
  merged; a stack has its active member in range.
\<close>

definition as_children :: "layout_node list \<Rightarrow> size_weight list \<Rightarrow> normalized_child list" where
  "as_children cs ws =
     map (\<lambda>(n, w). \<lparr>nc_layout_node = n, nc_size_weight = w, nc_original_child_index = 0\<rparr>) (zip cs ws)"

fun normal :: "pane_id set \<Rightarrow> layout_node \<Rightarrow> bool" where
  "normal live (Pane p) \<longleftrightarrow> p \<in> live"
| "normal live (Split (SplitNode d cs ws a)) \<longleftrightarrow>
     2 \<le> length cs \<and> length ws = length cs \<and> (\<forall>w \<in> set ws. canonical w) \<and>
     (\<forall>c \<in> set cs. normal live c) \<and>
     (if d = Stacked then a < length cs else a = 0 \<and> \<not> can_merge d (as_children cs ws))"

lemma node_merge_sum_ge2:
  assumes "normal live n" and "node_merge_sum d n = Some k"
  shows "2 \<le> k"
proof -
  from assms obtain cs ws a where n: "n = Split (SplitNode d cs ws a)" "2 \<le> length cs"
    "length ws = length cs" "\<forall>w \<in> set ws. canonical w" "\<forall>w \<in> set ws. plain w"
    "k = sum_list (map share_of ws)"
    by (cases n rule: paired.cases) (auto simp: node_merge_sum_def split: if_splits)
  have "\<forall>w \<in> set ws. 1 \<le> share_of w"
    using n(4,5) canonical_share_pos by (auto simp: Suc_le_eq)
  then have "length ws \<le> sum_list (map share_of ws)"
    by (induction ws) auto
  with n show ?thesis by simp
qed

text \<open>The factor of a child whose slot weight is plain depends on its node only.\<close>

definition node_factor :: "split_direction \<Rightarrow> layout_node \<Rightarrow> nat" where
  "node_factor d n = (case node_merge_sum d n of None \<Rightarrow> 1 | Some k \<Rightarrow> k)"

lemma merge_factor_plain: "plain (nc_size_weight c) \<Longrightarrow> merge_factor d c = node_factor d (nc_layout_node c)"
  by (simp add: merge_factor_eq node_factor_def)

lemma node_factor_pos: "1 \<le> node_factor d n"
  by (auto simp: node_factor_def node_merge_sum_def split: option.splits layout_node.splits if_splits)

definition drop_index :: "normalized_child \<Rightarrow> normalized_child" where
  "drop_index c = c\<lparr>nc_original_child_index := 0\<rparr>"

lemma drop_index_sel [simp]:
  "nc_layout_node (drop_index c) = nc_layout_node c" "nc_size_weight (drop_index c) = nc_size_weight c"
  by (simp_all add: drop_index_def)

lemma merge_factor_drop_index [simp]: "merge_factor d (drop_index c) = merge_factor d c"
  by (simp add: merge_factor_eq)

lemma planned_shares_drop_index [simp]: "planned_shares d (drop_index c) k = planned_shares d c k"
  by (simp add: planned_shares_def split: layout_node.splits)

lemma can_merge_drop_index: "can_merge d (map drop_index ncs) = can_merge d ncs"
  by (simp add: can_merge_def Let_def comp_def)

lemma as_children_of: "as_children (map nc_layout_node ncs) (map nc_size_weight ncs) = map drop_index ncs"
  by (induction ncs) (auto simp: as_children_def drop_index_def)

lemma prod_list_ge:
  assumes "\<forall>x \<in> set xs. 1 \<le> (x::nat)"
  shows "1 \<le> prod_list xs" and "x \<in> set xs \<Longrightarrow> x \<le> prod_list xs"
  using assms by (induction xs) (auto simp: Suc_le_eq intro: le_trans mult_le_mono2
      dest: mult_le_mono2 [where i = 1, simplified])

lemma prod_list_concat: "prod_list (concat xss) = prod_list (map prod_list xss)"
  by (induction xss) auto

lemma planned_shares_mono:
  assumes "nc_layout_node c' = nc_layout_node c" "merge_factor d c' = merge_factor d c"
    "share_of (nc_size_weight c) \<le> share_of (nc_size_weight c')" "k \<le> k'"
    "n \<in> set (planned_shares d c k)"
  shows "\<exists>n' \<in> set (planned_shares d c' k'). n \<le> n'"
  using assms
  by (cases "nc_layout_node c"; cases "merge_factor d c = 1")
     (auto simp: planned_shares_def intro!: mult_le_mono)

text \<open>Children in normal form with valid weights, as the pass hands them to the merge.\<close>

definition good_children :: "pane_id set \<Rightarrow> normalized_child list \<Rightarrow> bool" where
  "good_children live ncs \<longleftrightarrow>
     (\<forall>c \<in> set ncs. normal live (nc_layout_node c) \<and> canonical (nc_size_weight c))"

lemma merged_children_kept:
  "merge_factor d c = 1 \<Longrightarrow>
     merged_children d c k = [c\<lparr>nc_size_weight := flex_share (share_of (nc_size_weight c) * k)\<rparr>]"
  by (simp add: merged_children_def merge_child_def planned_shares_def)

definition inlined_children ::
  "normalized_child \<Rightarrow> layout_node list \<Rightarrow> size_weight list \<Rightarrow> nat \<Rightarrow> normalized_child list" where
  "inlined_children c cs ws k =
     map (\<lambda>(n, w). \<lparr>nc_layout_node = n,
            nc_size_weight = flex_share (share_of w * share_of (nc_size_weight c) * k),
            nc_original_child_index = nc_original_child_index c\<rparr>) (zip cs ws)"

lemma merged_children_inlined:
  assumes "merge_factor d c \<noteq> 1" and "normal live (nc_layout_node c)"
  obtains cs ws a where "nc_layout_node c = Split (SplitNode d cs ws a)" "length ws = length cs"
    "2 \<le> length cs" "\<forall>w \<in> set ws. canonical w \<and> plain w" "plain (nc_size_weight c)"
    "\<forall>n \<in> set cs. normal live n" "d \<noteq> Stacked \<Longrightarrow> \<not> can_merge d (as_children cs ws)"
    "\<And>k. planned_shares d c k = map (\<lambda>w. share_of w * share_of (nc_size_weight c) * k) ws"
    "\<And>k. merged_children d c k = inlined_children c cs ws k"
proof -
  from assms(1) obtain s where s: "nc_layout_node c = Split s" "direction s = d"
    "plain (nc_size_weight c)" "\<forall>w \<in> set (weights s). plain w" by (rule merge_factor_split)
  obtain cs ws a where sn: "s = SplitNode d cs ws a" using s(2) by (cases s) auto
  have planned: "planned_shares d c k = map (\<lambda>w. share_of w * share_of (nc_size_weight c) * k) ws" for k
    using assms(1) s(1) sn by (simp add: planned_shares_def)
  have merged: "merged_children d c k = inlined_children c cs ws k" for k
    using assms(1) s(1) sn
    by (simp add: merged_children_def merge_child_def planned zip_map2 split_def comp_def inlined_children_def)
  show thesis
    by (rule that [of cs ws a]) (use assms(2) s sn planned merged in auto)
qed

lemma merged_children_length:
  assumes "normal live (nc_layout_node c)"
  shows "(if merge_factor d c = 1 then 1 else 2) \<le> length (merged_children d c k)"
proof (cases "merge_factor d c = 1")
  case True
  then show ?thesis by (simp add: merged_children_kept)
next
  case False
  from False assms obtain cs ws a where "length ws = length cs" "2 \<le> length cs"
    "merged_children d c k = inlined_children c cs ws k"
    using merged_children_inlined by metis
  with False show ?thesis by (simp add: inlined_children_def)
qed

lemma merged_children_leaves:
  assumes "normal live (nc_layout_node c)"
  shows "concat (map (list_leaf_pane_ids \<circ> nc_layout_node) (merged_children d c k)) =
           list_leaf_pane_ids (nc_layout_node c)"
proof (cases "merge_factor d c = 1")
  case True
  then show ?thesis by (simp add: merged_children_kept)
next
  case False
  from False assms obtain cs ws a where n: "nc_layout_node c = Split (SplitNode d cs ws a)" "length ws = length cs"
    "merged_children d c k = inlined_children c cs ws k"
    using merged_children_inlined by metis
  have "map (list_leaf_pane_ids \<circ> nc_layout_node) (merged_children d c k) = map list_leaf_pane_ids (map fst (zip cs ws))"
    by (simp add: n(3) inlined_children_def comp_def split_def)
  with n(1,2) show ?thesis by simp
qed

text \<open>
  The facts of one successful merge: the scale of each child is positive and every rescaled share
  fits.
\<close>

lemma can_mergeD:
  assumes "can_merge d ncs" and "c \<in> set ncs"
  defines "k \<equiv> prod_list (map (merge_factor d) ncs) div merge_factor d c"
  shows "plain (nc_size_weight c)" "\<forall>n \<in> set (planned_shares d c k). n < 2 ^ 32" "1 \<le> k"
proof -
  show "plain (nc_size_weight c)" "\<forall>n \<in> set (planned_shares d c k). n < 2 ^ 32"
    using assms(1,2) by (auto simp: can_merge_def Let_def k_def)
  have "merge_factor d c \<le> prod_list (map (merge_factor d) ncs)"
    using assms(2) by (intro prod_list_ge(2)) (auto simp: merge_factor_pos [simplified])
  then show "1 \<le> k"
    using merge_factor_pos [of d c] by (simp add: k_def Suc_le_eq div_greater_zero_iff)
qed

lemma inlined_children_nth:
  "i < length cs \<Longrightarrow> length ws = length cs \<Longrightarrow>
     inlined_children c cs ws k ! i =
       \<lparr>nc_layout_node = cs ! i,
        nc_size_weight = flex_share (share_of (ws ! i) * share_of (nc_size_weight c) * k),
        nc_original_child_index = nc_original_child_index c\<rparr>"
  by (simp add: inlined_children_def)

lemma inlined_children_elem:
  assumes "r \<in> set (inlined_children c cs ws k)"
  obtains i where "i < length cs" "i < length ws" "nc_layout_node r = cs ! i"
    "nc_size_weight r = flex_share (share_of (ws ! i) * share_of (nc_size_weight c) * k)"
  using assms by (auto simp: inlined_children_def in_set_zip)

lemma merged_children_good:
  assumes "can_merge d ncs" and "good_children live ncs" and "c \<in> set ncs"
    and "r \<in> set (merged_children d c (prod_list (map (merge_factor d) ncs) div merge_factor d c))"
  shows "normal live (nc_layout_node r) \<and> canonical (nc_size_weight r) \<and> plain (nc_size_weight r)"
proof -
  let ?k = "prod_list (map (merge_factor d) ncs) div merge_factor d c"
  note c = can_mergeD [OF assms(1,3)]
  have n: "normal live (nc_layout_node c)" and "canonical (nc_size_weight c)"
    using assms(2,3) by (auto simp: good_children_def)
  with c(1) have slot: "1 \<le> share_of (nc_size_weight c)"
    using canonical_share_pos [of "nc_size_weight c"] by simp
  show ?thesis
  proof (cases "merge_factor d c = 1")
    case True
    with assms(4) c slot n show ?thesis
      by (auto simp: merged_children_kept planned_shares_def intro!: canonical_flex_share)
  next
    case False
    from merged_children_inlined [OF this n] obtain cs ws a where
      m: "length ws = length cs" "\<forall>w \<in> set ws. canonical w \<and> plain w" "\<forall>n \<in> set cs. normal live n"
      "planned_shares d c ?k = map (\<lambda>w. share_of w * share_of (nc_size_weight c) * ?k) ws"
      "merged_children d c ?k = inlined_children c cs ws ?k" by metis
    from assms(4) m(5) obtain i where i: "i < length cs" "i < length ws" "nc_layout_node r = cs ! i"
      "nc_size_weight r = flex_share (share_of (ws ! i) * share_of (nc_size_weight c) * ?k)"
      by (auto elim: inlined_children_elem)
    have "0 < share_of (ws ! i)" using m(2) i(2) canonical_share_pos by auto
    moreover have "share_of (ws ! i) * share_of (nc_size_weight c) * ?k < 2 ^ 32"
      using c(2) m(4) i(2) by auto
    ultimately show ?thesis
      using i m(3) slot c(3) by (auto intro!: canonical_flex_share)
  qed
qed

lemma prod_list_part:
  assumes "\<forall>xs \<in> set xss. \<forall>x \<in> set xs. 1 \<le> (x::nat)" and "ys \<in> set xss"
  shows "prod_list ys \<le> prod_list (concat xss)"
  unfolding prod_list_concat
  using assms prod_list_ge(1) by (intro prod_list_ge(2)) auto

text \<open>
  A merged split merges no further: a child of an inlined split that could merge was kept apart by an
  overflow, and every share is now at least as large as it was.
\<close>

lemma merged_blocked:
  assumes merge: "can_merge d ncs" and good: "good_children live ncs" and dir: "d \<noteq> Stacked"
  shows "\<not> can_merge d (merge_same_direction d ncs)"
proof
  let ?k = "\<lambda>c. prod_list (map (merge_factor d) ncs) div merge_factor d c"
  let ?R = "merge_same_direction d ncs"
  have R: "?R = concat (map (\<lambda>c. merged_children d c (?k c)) ncs)"
    using merge by (simp add: merge_same_direction_eq)
  assume again: "can_merge d ?R"
  then obtain r where "r \<in> set ?R" and f: "merge_factor d r \<noteq> 1"
    by (auto simp: can_merge_def Let_def)
  then obtain c where c: "c \<in> set ncs" and r: "r \<in> set (merged_children d c (?k c))"
    by (auto simp: R)
  have n: "normal live (nc_layout_node c)" using good c by (auto simp: good_children_def)
  have slot: "plain (nc_size_weight c)" "1 \<le> share_of (nc_size_weight c)"
    using can_mergeD(1) [OF merge c] good c canonical_share_pos [of "nc_size_weight c"]
    by (auto simp: good_children_def)
  have "merge_factor d c \<noteq> 1"
  proof
    assume "merge_factor d c = 1"
    with r slot have "merge_factor d r = merge_factor d c"
      by (auto simp: merged_children_kept merge_factor_plain)
    with f \<open>merge_factor d c = 1\<close> show False by simp
  qed
  from merged_children_inlined [OF this n] obtain cs ws a where
    m: "length ws = length cs" "\<forall>w \<in> set ws. canonical w \<and> plain w" "\<not> can_merge d (as_children cs ws)"
    "planned_shares d c (?k c) = map (\<lambda>w. share_of w * share_of (nc_size_weight c) * ?k c) ws"
    "merged_children d c (?k c) = inlined_children c cs ws (?k c)" using dir by metis
  let ?K = "as_children cs ws" and ?Rc = "inlined_children c cs ws (?k c)"
  have K_nth: "?K ! i = \<lparr>nc_layout_node = cs ! i, nc_size_weight = ws ! i, nc_original_child_index = 0\<rparr>"
    if "i < length cs" for i using that m(1) by (simp add: as_children_def)
  have len: "length ?K = length cs" "length ?Rc = length cs"
    using m(1) by (simp_all add: as_children_def inlined_children_def)
  have fac: "merge_factor d (?Rc ! i) = merge_factor d (?K ! i)" if "i < length cs" for i
    using that m(1,2) by (simp add: K_nth inlined_children_nth merge_factor_plain)
  have facs: "map (merge_factor d) ?Rc = map (merge_factor d) ?K"
    by (rule nth_equalityI) (use len fac in auto)
  have part: "prod_list (map (merge_factor d) ?K) \<le> prod_list (map (merge_factor d) ?R)"
    unfolding facs [symmetric] R map_concat
    by (rule prod_list_part)
       (use c m(5) in \<open>auto simp: merge_factor_pos [simplified] intro!: image_eqI [of _ _ c]\<close>)
  have "\<exists>x \<in> set ?K. merge_factor d x \<noteq> 1"
    using r f m(5) fac len by (metis in_set_conv_nth)
  moreover have "prod_list (map (merge_factor d) ?K) < 2 ^ 128"
    using again part by (simp add: can_merge_def Let_def)
  moreover have "plain (nc_size_weight x) \<and>
      (\<forall>n \<in> set (planned_shares d x (prod_list (map (merge_factor d) ?K) div merge_factor d x)). n < 2 ^ 32)"
    if x: "x \<in> set ?K" for x
  proof
    from x len obtain i where i: "i < length cs" "x = ?K ! i" by (metis in_set_conv_nth)
    with m(1,2) show "plain (nc_size_weight x)" by (simp add: K_nth)
    let ?y = "?Rc ! i"
    have y: "?y \<in> set ?R" using c m(5) i len by (auto simp: R intro!: bexI [of _ c])
    have "share_of (ws ! i) * 1 * 1 \<le> share_of (ws ! i) * share_of (nc_size_weight c) * ?k c"
      using slot(2) can_mergeD(3) [OF merge c] by (intro mult_le_mono) auto
    moreover have "share_of (ws ! i) * share_of (nc_size_weight c) * ?k c < 2 ^ 32"
      using can_mergeD(2) [OF merge c] m(1,4) i by auto
    ultimately have share: "share_of (nc_size_weight x) \<le> share_of (nc_size_weight ?y)"
      using i m(1) by (simp add: K_nth inlined_children_nth)
    have node: "nc_layout_node ?y = nc_layout_node x" using i m(1) by (simp add: K_nth inlined_children_nth)
    show "\<forall>n \<in> set (planned_shares d x (prod_list (map (merge_factor d) ?K) div merge_factor d x)). n < 2 ^ 32"
      using planned_shares_mono [OF node fac [OF i(1), folded i(2)] share div_le_mono [OF part]]
        can_mergeD(2) [OF again y] fac [OF i(1)] i(2) by (metis le_less_trans)
  qed
  ultimately have "can_merge d ?K" by (simp add: can_merge_def Let_def)
  with m(3) show False by simp
qed

lemma concat_map_concat: "concat (map g (concat (map f xs))) = concat (map (\<lambda>x. concat (map g (f x))) xs)"
  by (induction xs) auto

lemma merge_same_direction_good:
  assumes "good_children live ncs" and "ncs \<noteq> []" and "d \<noteq> Stacked"
  defines "R \<equiv> merge_same_direction d ncs"
  shows "good_children live R" "\<not> can_merge d R" "R \<noteq> []"
    "length R = 1 \<Longrightarrow> R = ncs"
    "concat (map (list_leaf_pane_ids \<circ> nc_layout_node) R) =
     concat (map (list_leaf_pane_ids \<circ> nc_layout_node) ncs)"
proof -
  let ?k = "\<lambda>c. prod_list (map (merge_factor d) ncs) div merge_factor d c"
  have n: "normal live (nc_layout_node c)" if "c \<in> set ncs" for c
    using assms(1) that by (auto simp: good_children_def)
  have len: "merged_children d c k \<noteq> []" if "c \<in> set ncs" for c k
    using merged_children_length [OF n [OF that], of d k] by (auto split: if_splits)
  show "good_children live R"
  proof (cases "can_merge d ncs")
    case True
    then have "R = concat (map (\<lambda>c. merged_children d c (?k c)) ncs)"
      by (simp add: R_def merge_same_direction_eq)
    with merged_children_good [OF True assms(1)] show ?thesis
      by (auto simp: good_children_def)
  next
    case False
    with assms(1) show ?thesis by (simp add: R_def merge_same_direction_eq)
  qed
  show "\<not> can_merge d R"
    using merged_blocked [OF _ assms(1,3)] by (cases "can_merge d ncs") (auto simp: R_def merge_same_direction_eq)
  show "R \<noteq> []"
    using assms(2) len by (cases ncs) (auto simp: R_def merge_same_direction_eq)
  show "concat (map (list_leaf_pane_ids \<circ> nc_layout_node) R) =
        concat (map (list_leaf_pane_ids \<circ> nc_layout_node) ncs)"
    using merged_children_leaves [OF n]
    by (simp add: R_def merge_same_direction_eq concat_map_concat cong: map_cong)
  show "R = ncs" if "length R = 1"
  proof (rule ccontr)
    assume "R \<noteq> ncs"
    then have "can_merge d ncs" by (auto simp: R_def merge_same_direction_eq split: if_splits)
    then obtain c where c: "c \<in> set ncs" "merge_factor d c \<noteq> 1" by (auto simp: can_merge_def Let_def)
    have "length (merged_children d c (?k c)) \<le> sum_list (map (\<lambda>c. length (merged_children d c (?k c))) ncs)"
      using c(1) by (intro member_le_sum_list) auto
    also have "\<dots> = length R" using \<open>can_merge d ncs\<close>
      by (simp add: R_def merge_same_direction_eq length_concat comp_def)
    finally show False using merged_children_length [OF n [OF c(1)], of d "?k c"] c(2) that by auto
  qed
qed

section \<open>The pass\<close>

lemma finish_normalized_split_None [simp]: "finish_normalized_split d a ncs = None \<longleftrightarrow> ncs = []"
  by (auto simp: finish_normalized_split_def Let_def split: list.splits)

lemma finish_normalized_split_good:
  assumes "good_children live ncs" and "finish_normalized_split d a ncs = Some t"
  shows "normal live t \<and>
         list_leaf_pane_ids t = concat (map (list_leaf_pane_ids \<circ> nc_layout_node) ncs)"
proof -
  define M where "M = (if d = Stacked then ncs else merge_same_direction d ncs)"
  define active where "active = (if d = Stacked
     then (case position (\<lambda>c. a \<le> nc_original_child_index c) ncs of
             Some i \<Rightarrow> i | None \<Rightarrow> length ncs - 1)
     else 0)"
  have ne: "ncs \<noteq> []" using assms(2) by (auto simp: finish_normalized_split_def)
  have M: "good_children live M" "M \<noteq> []"
    "concat (map (list_leaf_pane_ids \<circ> nc_layout_node) M) =
     concat (map (list_leaf_pane_ids \<circ> nc_layout_node) ncs)"
    "d \<noteq> Stacked \<Longrightarrow> \<not> can_merge d M"
    using merge_same_direction_good [OF assms(1) ne] assms(1) ne by (auto simp: M_def)
  have result: "t = (case M of [c] \<Rightarrow> nc_layout_node c
     | _ \<Rightarrow> Split (SplitNode d (map nc_layout_node M) (map nc_size_weight M) active))"
    using assms(2) ne
    by (auto simp: finish_normalized_split_def M_def active_def Let_def split: list.splits)
  show ?thesis
  proof (cases "length M = 1")
    case True
    then obtain c where "M = [c]" by (cases M) auto
    with M result show ?thesis by (simp add: good_children_def)
  next
    case False
    with M(2) have len: "2 \<le> length M" by (cases M) (auto simp: Suc_le_eq)
    then have t: "t = Split (SplitNode d (map nc_layout_node M) (map nc_size_weight M) active)"
      using result by (auto split: list.splits)
    have "d = Stacked \<Longrightarrow> active < length M"
      using ne by (auto simp: active_def M_def dest: position_Some split: option.splits)
    with M len show ?thesis
      by (auto simp: t good_children_def as_children_of can_merge_drop_index comp_def active_def)
  qed
qed

lemma normalize_good:
  "case normalize_layout_tree t live of
     None \<Rightarrow> filter (\<lambda>p. p \<in> live) (list_leaf_pane_ids t) = []
   | Some t' \<Rightarrow> normal live t' \<and>
       list_leaf_pane_ids t' = filter (\<lambda>p. p \<in> live) (list_leaf_pane_ids t)"
  "good_children live (normalize_children cs i ws live) \<and>
   concat (map (list_leaf_pane_ids \<circ> nc_layout_node) (normalize_children cs i ws live)) =
     filter (\<lambda>p. p \<in> live) (concat (map list_leaf_pane_ids cs))"
proof (induction t live and cs i ws live rule: normalize_layout_tree_normalize_children.induct)
  case (1 p live)
  then show ?case by simp
next
  case (2 d cs ws a live)
  then show ?case
    using finish_normalized_split_good [of live "normalize_children cs 0 ws live" d a]
    by (auto simp: comp_def split: option.splits)
next
  case (3 i ws live)
  then show ?case by (simp add: good_children_def)
next
  case (4 c cs i ws live)
  then show ?case
    by (cases "normalize_layout_tree c live")
       (auto simp: good_children_def canonical_canonicalize)
qed

lemma normalize_children_fixed:
  "\<lbrakk>\<forall>c \<in> set cs. normalize_layout_tree c live = Some c; i + length cs \<le> length ws;
    \<forall>w \<in> set ws. canonical w\<rbrakk> \<Longrightarrow>
     map nc_layout_node (normalize_children cs i ws live) = cs \<and>
     map nc_size_weight (normalize_children cs i ws live) = take (length cs) (drop i ws) \<and>
     map nc_original_child_index (normalize_children cs i ws live) = [i..<i + length cs]"
proof (induction cs arbitrary: i)
  case Nil
  then show ?case by simp
next
  case (Cons c cs)
  have i: "i < length ws" using Cons.prems(2) by simp
  then have w: "canonicalize_size_weight (weight_at ws i) = ws ! i"
    using Cons.prems(3) by (simp add: weight_at_def nth_opt_def canonicalize_canonical)
  from Cons.IH [of "Suc i"] Cons.prems have "map nc_layout_node (normalize_children cs (Suc i) ws live) = cs \<and>
     map nc_size_weight (normalize_children cs (Suc i) ws live) = take (length cs) (drop (Suc i) ws) \<and>
     map nc_original_child_index (normalize_children cs (Suc i) ws live) = [Suc i..<Suc i + length cs]"
    by simp
  moreover have "drop i ws = ws ! i # drop (Suc i) ws" using i by (simp add: Cons_nth_drop_Suc)
  ultimately show ?case
    using Cons.prems(1) w by (simp add: upt_conv_Cons del: upt_Suc)
qed

lemma normal_fixed: "normal live t \<Longrightarrow> normalize_layout_tree t live = Some t"
proof (induction t rule: layout_node_induct)
  case (Pane p)
  then show ?case by simp
next
  case (Split d cs ws a)
  let ?ncs = "normalize_children cs 0 ws live"
  from Split have ncs: "map nc_layout_node ?ncs = cs" "map nc_size_weight ?ncs = ws"
    "map nc_original_child_index ?ncs = [0..<length cs]"
    using normalize_children_fixed [of cs live 0 ws] by auto
  have len: "length ?ncs = length cs" using ncs(1) by (metis length_map)
  have active: "position (\<lambda>c. a \<le> nc_original_child_index c) ?ncs = Some a" if "a < length cs"
  proof (rule position_SomeI)
    have idx: "nc_original_child_index (?ncs ! j) = j" if "j < length cs" for j
      using ncs(3) len that by (metis nth_map nth_upt add_0)
    show "a < length ?ncs" "a \<le> nc_original_child_index (?ncs ! a)" using that len idx by auto
    show "\<not> a \<le> nc_original_child_index (?ncs ! j)" if "j < a" for j
      using that \<open>a < length cs\<close> idx [of j] by simp
  qed
  have merged: "merge_same_direction d ?ncs = ?ncs" if "d \<noteq> Stacked"
    using Split.prems that as_children_of [of ?ncs] can_merge_drop_index [of d ?ncs]
    by (simp add: ncs merge_same_direction_eq)
  obtain x y zs where "?ncs = x # y # zs"
    using len Split.prems by (cases ?ncs; cases "tl ?ncs") auto
  then show ?case
    using Split.prems ncs active merged
    by (auto simp: finish_normalized_split_def Let_def)
qed

lemma normal_shape: "normal live t \<Longrightarrow> paired t \<and> populated t"
  by (induction t rule: layout_node_induct) auto

lemma normalize_SomeD:
  assumes "normalize_layout_tree t live = Some t'"
  shows "normal live t'" "list_leaf_pane_ids t' = filter (\<lambda>p. p \<in> live) (list_leaf_pane_ids t)"
    "paired t'" "populated t'"
  using normalize_good(1) [of live t] assms normal_shape [of live t'] by auto

lemma normalize_None_iff:
  "normalize_layout_tree t live = None \<longleftrightarrow> filter (\<lambda>p. p \<in> live) (list_leaf_pane_ids t) = []"
proof (cases "normalize_layout_tree t live")
  case None
  then show ?thesis using normalize_good(1) [of live t] by simp
next
  case (Some t')
  from populated_leaves [OF normalize_SomeD(4) [OF Some]] normalize_SomeD(2) [OF Some] Some
  show ?thesis by simp
qed

text \<open>The pass the edits run: every leaf of the tree is live.\<close>

lemma normalize_all_live:
  assumes "list_leaf_pane_ids t \<noteq> []"
  obtains t' where "normalize_layout_tree t (set (list_leaf_pane_ids t)) = Some t'"
    "list_leaf_pane_ids t' = list_leaf_pane_ids t" "paired t'" "populated t'"
proof -
  have "normalize_layout_tree t (set (list_leaf_pane_ids t)) \<noteq> None"
    using assms by (simp add: normalize_None_iff)
  then obtain t' where t': "normalize_layout_tree t (set (list_leaf_pane_ids t)) = Some t'" by auto
  with normalize_SomeD [OF t'] show thesis by (intro that [of t']) simp_all
qed

section \<open>Properties\<close>

text \<open>
  C14. One pass keeps exactly the live leaves, in layout order: normalization returns \<open>None\<close> just
  when no leaf is live, and otherwise a tree whose leaf sequence is the live part of the old one.
\<close>

theorem normalize_keeps_live_leaves:
  "(case normalize_layout_tree t live of None \<Rightarrow> [] | Some t' \<Rightarrow> list_leaf_pane_ids t') =
     filter (\<lambda>p. p \<in> live) (list_leaf_pane_ids t) \<and>
   (normalize_layout_tree t live = None \<longleftrightarrow> set (list_leaf_pane_ids t) \<inter> live = {})"
  using normalize_good(1) [of live t] normalize_None_iff [of t live]
  by (auto simp: filter_empty_conv disjoint_iff split: option.splits)

text \<open>
  C15. Normalization is idempotent: normalizing a normalized tree returns it unchanged. This includes
  the merge of same-direction splits: whatever the first pass merged or left apart because a share
  would overflow, the second pass merges nothing more.
\<close>

theorem normalize_idempotent:
  assumes "normalize_layout_tree t live = Some t'"
  shows "normalize_layout_tree t' live = Some t'"
  by (rule normal_fixed) (rule normalize_SomeD(1) [OF assms])

text \<open>The definitions the simplifier needs to run the pass on a concrete tree.\<close>

lemmas normalize_eval =
  with_equal_weights_def default_size_weight_def from_primary_constraint_def weight_at_def nth_opt_def
  canonicalize_size_weight_def finish_normalized_split_def merge_same_direction_def merge_factor_def
  compute_mergeable_weight_sum_def get_plain_flex_weight_def checked_add_def checked_mul_u128_def
  compute_merged_size_weights_def compute_scaled_flex_def flex_weight_try_from_def merge_child_def

definition example_nested :: layout_node where
  "example_nested =
     Split (with_equal_weights Horizontal
       [Pane (PaneId 1), Split (with_equal_weights Horizontal [Pane (PaneId 2), Pane (PaneId 3)])])"

definition example_merged :: layout_node where
  "example_merged =
     Split (SplitNode Horizontal [Pane (PaneId 1), Pane (PaneId 2), Pane (PaneId 3)]
       [from_primary_constraint (Flex 2), from_primary_constraint (Flex 1), from_primary_constraint (Flex 1)] 0)"

theorem normalize_idempotent_witness:
  "normalize_layout_tree example_nested {PaneId 1, PaneId 2, PaneId 3} = Some example_merged \<and>
   normalize_layout_tree example_merged {PaneId 1, PaneId 2, PaneId 3} = Some example_merged"
proof
  show h: "normalize_layout_tree example_nested {PaneId 1, PaneId 2, PaneId 3} = Some example_merged"
    by (simp add: example_nested_def example_merged_def normalize_eval)
  show "normalize_layout_tree example_merged {PaneId 1, PaneId 2, PaneId 3} = Some example_merged"
    by (rule normalize_idempotent [OF h])
qed

end
