(* ===== verification/Edit.thy ===== *)
theory Edit
  imports Normalize
begin

text \<open>
  Structural edits of the layout tree (\<open>koshi-layout/src/edit.rs\<close>): splitting a pane in, stacking
  panes, taking a pane out. Every edit returns a new tree. An outer \<open>None\<close> is a panic of the code's
  path accessors; the lemmas show that it never occurs, because the paths come from
  \<open>find_pane_path\<close> on the same tree.
\<close>

section \<open>Splitting and stacking\<close>

datatype split_error = SplitPaneNotFound (target_pane_id: pane_id)

fun pair_in_direction :: "direction \<Rightarrow> layout_node \<Rightarrow> layout_node \<Rightarrow> layout_node list" where
  "pair_in_direction Right existing new = [existing, new]"
| "pair_in_direction Down existing new = [existing, new]"
| "pair_in_direction Left existing new = [new, existing]"
| "pair_in_direction Up existing new = [new, existing]"

definition split_operand_depth :: "layout_node \<Rightarrow> nat list \<Rightarrow> nat" where
  "split_operand_depth t path =
     (case find (\<lambda>k. is_stack_at_path t (take k path)) [0..<length path] of
        Some k \<Rightarrow> k
      | None \<Rightarrow> length path)"

definition split_leaf ::
  "layout_node \<Rightarrow> pane_id \<Rightarrow> pane_id \<Rightarrow> direction \<Rightarrow> (split_error + layout_node) option" where
  "split_leaf t target new dir =
     (case find_pane_path t target of
        None \<Rightarrow> Some (Inl (SplitPaneNotFound target))
      | Some path \<Rightarrow>
          map_option Inr
            (update_node_at_path
               (\<lambda>operand. Split (with_equal_weights (compute_split_direction dir)
                  (pair_in_direction dir operand (Pane new))))
               t (take (split_operand_depth t path) path)))"

fun push_panes :: "pane_id list \<Rightarrow> layout_node \<Rightarrow> layout_node" where
  "push_panes new (Split (SplitNode d cs ws a)) =
     Split (SplitNode d (cs @ map Pane new) (ws @ replicate (length new) default_size_weight) a)"
| "push_panes new (Pane q) = Pane q"

definition add_panes_to_stack ::
  "layout_node \<Rightarrow> pane_id \<Rightarrow> pane_id list \<Rightarrow> (split_error + layout_node) option" where
  "add_panes_to_stack t anchor new =
     (if \<not> has_pane t anchor then Some (Inl (SplitPaneNotFound anchor))
      else if new = [] then Some (Inr t)
      else
        (case find_containing_stack t anchor of
           Some stack_path \<Rightarrow> map_option Inr (update_node_at_path (push_panes new) t stack_path)
         | None \<Rightarrow>
             (case find_pane_path t anchor of
                None \<Rightarrow> None
              | Some path \<Rightarrow>
                  map_option Inr
                    (update_node_at_path
                       (\<lambda>_. Split (from_stacked_pane_ids (anchor # new) 0)) t path))))"

section \<open>Removal\<close>

datatype remove_error = RemovePaneNotFound pane_id | LastPane pane_id

datatype pane_removal_status = PaneNotFound | Removed | SubtreeEmpty

definition set_active_child_after_removal :: "split_node \<Rightarrow> nat \<Rightarrow> split_node" where
  "set_active_child_after_removal s removed =
     (case s of SplitNode d cs ws a \<Rightarrow>
        (let a' = (if removed < a then a - 1 else a)
         in SplitNode d cs ws (get_active_child_index (SplitNode d cs ws a'))))"

fun remove_leaf :: "layout_node \<Rightarrow> pane_id \<Rightarrow> layout_node \<times> pane_removal_status"
  and remove_leaf_in_children ::
    "layout_node list \<Rightarrow> nat \<Rightarrow> pane_id \<Rightarrow> layout_node list \<times> (nat \<times> pane_removal_status) option" where
  "remove_leaf (Pane q) p = (Pane q, if q = p then SubtreeEmpty else PaneNotFound)"
| "remove_leaf (Split (SplitNode d cs ws a)) p =
     (case remove_leaf_in_children cs 0 p of
        (cs', None) \<Rightarrow> (Split (SplitNode d cs' ws a), PaneNotFound)
      | (cs', Some (i, SubtreeEmpty)) \<Rightarrow>
          (let cs'' = remove_nth i cs';
               ws' = (if i < length ws then remove_nth i ws else ws)
           in if cs'' = [] then (Split (SplitNode d cs'' ws' a), SubtreeEmpty)
              else (Split (set_active_child_after_removal (SplitNode d cs'' ws' a) i), Removed))
      | (cs', Some (i, status)) \<Rightarrow> (Split (SplitNode d cs' ws a), Removed))"
| "remove_leaf_in_children [] i p = ([], None)"
| "remove_leaf_in_children (c # cs) i p =
     (case remove_leaf c p of
        (c', PaneNotFound) \<Rightarrow>
          (case remove_leaf_in_children cs (Suc i) p of (cs', r) \<Rightarrow> (c' # cs', r))
      | (c', status) \<Rightarrow> (c' # cs, Some (i, status)))"

definition remove_pane :: "layout_node \<Rightarrow> pane_id \<Rightarrow> remove_error + layout_node" where
  "remove_pane t p =
     (case remove_leaf t p of
        (t', PaneNotFound) \<Rightarrow> Inl (RemovePaneNotFound p)
      | (t', SubtreeEmpty) \<Rightarrow> Inl (LastPane p)
      | (t', Removed) \<Rightarrow>
          if list_leaf_pane_ids t' = [] then Inl (LastPane p) else Inr t')"

definition remove_pane_and_normalize :: "layout_node \<Rightarrow> pane_id \<Rightarrow> remove_error + layout_node" where
  "remove_pane_and_normalize t p =
     (case remove_pane t p of
        Inl e \<Rightarrow> Inl e
      | Inr t' \<Rightarrow>
          Inr (case normalize_layout_tree t' (set (list_leaf_pane_ids t')) of
                 Some n \<Rightarrow> n | None \<Rightarrow> t'))"

section \<open>Splits add one leaf beside the operand\<close>

lemma leaves_pair_in_direction:
  "concat (map list_leaf_pane_ids (pair_in_direction dir n (Pane q))) =
     (if dir = Right \<or> dir = Down then list_leaf_pane_ids n @ [q] else q # list_leaf_pane_ids n)"
  by (cases dir) simp_all

lemma with_equal_weights_leaves:
  "list_leaf_pane_ids (Split (with_equal_weights d cs)) = concat (map list_leaf_pane_ids cs)"
  by (simp add: with_equal_weights_def)

lemma with_equal_weights_shape:
  "paired (Split (with_equal_weights d cs)) \<longleftrightarrow> (\<forall>c \<in> set cs. paired c)"
  "populated (Split (with_equal_weights d cs)) \<longleftrightarrow> cs \<noteq> [] \<and> (\<forall>c \<in> set cs. populated c)"
  by (simp_all add: with_equal_weights_def)

lemma pair_in_direction_set: "set (pair_in_direction dir m n) = {m, n}"
  by (cases dir) auto

text \<open>
  The operand of a split: the outermost stack above the target, or the target's leaf when no stack is
  above it.
\<close>

lemma split_operand:
  assumes path: "find_pane_path t target = Some path"
  obtains n where "get_node_at_path t (take (split_operand_depth t path) path) = Some n"
    "target \<in> set (list_leaf_pane_ids n)"
    "n = Pane target \<and> (\<forall>k < length path. \<not> is_stack_at_path t (take k path)) \<or>
     (\<exists>s. n = Split s \<and> direction s = Stacked) \<and>
     (\<forall>k < split_operand_depth t path. \<not> is_stack_at_path t (take k path))"
proof -
  note props = find_pane_path_props(1) [OF path]
  let ?k = "split_operand_depth t path"
  show thesis
  proof (cases "find (\<lambda>k. is_stack_at_path t (take k path)) [0..<length path]")
    case None
    then have "?k = length path" by (simp add: split_operand_depth_def)
    moreover from None have "\<forall>k < length path. \<not> is_stack_at_path t (take k path)"
      by (auto simp: find_None_iff)
    ultimately show thesis using props by (intro that [of "Pane target"]) simp_all
  next
    case (Some k)
    then have "?k = k" by (simp add: split_operand_depth_def)
    moreover from Some have "k < length path" "is_stack_at_path t (take k path)"
      "\<forall>j < k. \<not> is_stack_at_path t (take j path)"
      by (auto simp: find_Some_iff)
    ultimately have k: "?k = k" "k < length path" "is_stack_at_path t (take k path)"
      "\<forall>j < k. \<not> is_stack_at_path t (take j path)" by simp_all
    then obtain s where s: "get_node_at_path t (take k path) = Some (Split s)" "direction s = Stacked"
      by (auto simp: is_stack_at_path_def split: option.splits layout_node.splits)
    have "get_node_at_path (Split s) (drop k path) = Some (Pane target)"
      using props s get_node_at_path_append [of t "take k path" "drop k path"] by simp
    then have "target \<in> set (list_leaf_pane_ids (Split s))"
      using leaves_at_path by fastforce
    with k s show thesis by (intro that [of "Split s"]) auto
  qed
qed



section \<open>Stacking appends members\<close>

lemma push_panes_leaves:
  "direction s = Stacked \<Longrightarrow>
     list_leaf_pane_ids (push_panes new (Split s)) = list_leaf_pane_ids (Split s) @ new"
  by (cases s) (simp add: o_def)

lemma from_stacked_leaves [simp]: "list_leaf_pane_ids (Split (from_stacked_pane_ids ps a)) = ps"
  by (simp add: from_stacked_pane_ids_def o_def)

lemma find_containing_stack_pane:
  assumes "find_containing_stack t p = Some path"
  obtains s where "get_node_at_path t path = Some (Split s)" "direction s = Stacked"
    "p \<in> set (list_leaf_pane_ids (Split s))"
proof -
  from find_containing_stack_props [OF assms] obtain pane_path s k where
    pp: "find_pane_path t p = Some pane_path" and path: "path = take k pane_path"
    and s: "get_node_at_path t path = Some (Split s)" "direction s = Stacked" by blast
  have "get_node_at_path (Split s) (drop k pane_path) = Some (Pane p)"
    using find_pane_path_props(1) [OF pp] s path get_node_at_path_append [of t "take k pane_path" "drop k pane_path"]
    by simp
  then have "p \<in> set (list_leaf_pane_ids (Split s))" using leaves_at_path by fastforce
  with s that show thesis by blast
qed

text \<open>
  Stacking panes onto a pane of the layout always succeeds and never panics. The new panes follow,
  in the order given, the last member of the stack around the anchor (or the anchor itself when it is
  in no stack); the active member of an existing stack stays as it is, and a new stack shows the
  anchor. Every other leaf keeps its place. An absent anchor is refused.
\<close>

theorem add_panes_to_stack_spec:
  "if has_pane t anchor
   then \<exists>t' before member_ids after.
          add_panes_to_stack t anchor new = Some (Inr t') \<and>
          list_leaf_pane_ids t = before @ member_ids @ after \<and>
          list_leaf_pane_ids t' = before @ member_ids @ new @ after \<and>
          anchor \<in> set member_ids \<and>
          (if new = [] then t' = t
           else case find_containing_stack t anchor of
             Some path \<Rightarrow>
               \<exists>s s'. get_split_at_path t path = Some s \<and> get_split_at_path t' path = Some s' \<and>
                 list_leaf_pane_ids (Split s) = member_ids \<and>
                 direction s' = Stacked \<and> active_child_index s' = active_child_index s
           | None \<Rightarrow> member_ids = [anchor] \<and>
               (\<exists>path. find_pane_path t anchor = Some path \<and>
                  get_split_at_path t' path = Some (from_stacked_pane_ids (anchor # new) 0)))
   else add_panes_to_stack t anchor new = Some (Inl (SplitPaneNotFound anchor))"
proof (cases "has_pane t anchor")
  case False
  then show ?thesis by (simp add: add_panes_to_stack_def)
next
  case has: True
  then obtain path where path: "find_pane_path t anchor = Some path" using find_pane_path_iff by blast
  show ?thesis
  proof (cases "find_containing_stack t anchor")
    case None
    note at = find_pane_path_props(1) [OF path, THEN conjunct1]
    let ?f = "\<lambda>_. Split (from_stacked_pane_ids (anchor # new) 0)"
    from update_node_at_path_Some [OF at, of ?f] obtain t' where
      t': "update_node_at_path ?f t path = Some t'" "get_node_at_path t' path = Some (?f (Pane anchor))"
      by blast
    show ?thesis
    proof (cases "new = []")
      case True
      then show ?thesis
        using has leaves_at_path [OF at]
        by (intro if_bool_eq_conj [THEN iffD2] conjI impI exI [of _ t] exI [of _ "leaves_before t path"]
            exI [of _ "[anchor]"] exI [of _ "leaves_after t path"])
           (simp_all add: add_panes_to_stack_def)
    next
      case False
      then show ?thesis
        using has None path t' leaves_update [OF t'(1) at] leaves_at_path [OF at]
        by (auto simp: add_panes_to_stack_def get_split_at_path_def)
    qed
  next
    case (Some sp)
    from Some obtain s where s: "get_node_at_path t sp = Some (Split s)" "direction s = Stacked"
      "anchor \<in> set (list_leaf_pane_ids (Split s))" by (rule find_containing_stack_pane)
    from update_node_at_path_Some [OF s(1), of "push_panes new"] obtain t' where
      t': "update_node_at_path (push_panes new) t sp = Some t'"
        "get_node_at_path t' sp = Some (push_panes new (Split s))" by blast
    from s(2) obtain s' where s': "push_panes new (Split s) = Split s'" "direction s' = Stacked"
      "active_child_index s' = active_child_index s" by (cases s) simp
    show ?thesis
    proof (cases "new = []")
      case True
      then show ?thesis
        using has Some s leaves_at_path [OF s(1)]
        by (auto simp: add_panes_to_stack_def get_split_at_path_def)
    next
      case False
      then show ?thesis
        using has Some s t' s' leaves_update [OF t'(1) s(1)] leaves_at_path [OF s(1)]
          push_panes_leaves [OF s(2), of new]
        by (auto simp: add_panes_to_stack_def get_split_at_path_def)
    qed
  qed
qed

section \<open>Removal takes out exactly one leaf\<close>

lemma remove_leaf_in_children_cases:
  assumes "remove_leaf_in_children cs i p = (cs', r)"
  obtains (absent) "r = None" "\<And>c. c \<in> set cs \<Longrightarrow> snd (remove_leaf c p) = PaneNotFound"
      "cs' = map (\<lambda>c. fst (remove_leaf c p)) cs"
  | (found) k c st where "k < length cs" "r = Some (i + k, st)" "st \<noteq> PaneNotFound"
      "remove_leaf (cs ! k) p = (c, st)"
      "cs' = map (\<lambda>c. fst (remove_leaf c p)) (take k cs) @ c # drop (Suc k) cs"
      "\<And>b. b \<in> set (take k cs) \<Longrightarrow> snd (remove_leaf b p) = PaneNotFound"
  using assms
proof (induction cs arbitrary: i cs' r thesis)
  case Nil
  then show ?case by simp
next
  case (Cons x xs)
  obtain x' st where x: "remove_leaf x p = (x', st)" by fastforce
  show ?case
  proof (cases "st = PaneNotFound")
    case True
    obtain ys q where ys: "remove_leaf_in_children xs (Suc i) p = (ys, q)" by fastforce
    with True x Cons.prems(3) have eq: "cs' = x' # ys" "r = q" by simp_all
    show ?thesis
    proof (rule Cons.IH [OF _ _ ys])
      assume "q = None" "\<And>c. c \<in> set xs \<Longrightarrow> snd (remove_leaf c p) = PaneNotFound"
        "ys = map (\<lambda>c. fst (remove_leaf c p)) xs"
      with eq x True show thesis by (intro Cons.prems(1)) auto
    next
      fix k c s
      assume "k < length xs" "q = Some (Suc i + k, s)" "s \<noteq> PaneNotFound"
        "remove_leaf (xs ! k) p = (c, s)"
        "ys = map (\<lambda>c. fst (remove_leaf c p)) (take k xs) @ c # drop (Suc k) xs"
        "\<And>b. b \<in> set (take k xs) \<Longrightarrow> snd (remove_leaf b p) = PaneNotFound"
      with eq x True show thesis by (intro Cons.prems(2) [of "Suc k" s c]) auto
    qed
  next
    case False
    with x Cons.prems(3) have "cs' = x' # xs" "r = Some (i, st)" by (cases st; simp)+
    with x False show ?thesis by (intro Cons.prems(2) [of 0 st x']) auto
  qed
qed

text \<open>The contract of one removal walk.\<close>

definition removal_ok :: "pane_id \<Rightarrow> layout_node \<Rightarrow> layout_node \<times> pane_removal_status \<Rightarrow> bool" where
  "removal_ok p t res \<longleftrightarrow>
     (case res of
        (t', PaneNotFound) \<Rightarrow> t' = t \<and> p \<notin> set (list_leaf_pane_ids t)
      | (t', Removed) \<Rightarrow>
          p \<in> set (list_leaf_pane_ids t) \<and> list_leaf_pane_ids t' = remove1 p (list_leaf_pane_ids t) \<and>
          (paired t \<longrightarrow> paired t') \<and> (populated t \<longrightarrow> populated t')
      | (t', SubtreeEmpty) \<Rightarrow> list_leaf_pane_ids t = [p])"

lemma remove_leaf_absent:
  assumes "\<And>c. c \<in> set cs \<Longrightarrow> removal_ok p c (remove_leaf c p)"
    and "\<And>c. c \<in> set cs \<Longrightarrow> snd (remove_leaf c p) = PaneNotFound"
  shows "map (\<lambda>c. fst (remove_leaf c p)) cs = cs" and "p \<notin> set (concat (map list_leaf_pane_ids cs))"
proof -
  have *: "fst (remove_leaf c p) = c \<and> p \<notin> set (list_leaf_pane_ids c)" if "c \<in> set cs" for c
    using assms [OF that] by (auto simp: removal_ok_def split: prod.splits)
  then show "map (\<lambda>c. fst (remove_leaf c p)) cs = cs" by (simp add: map_idI)
  from * show "p \<notin> set (concat (map list_leaf_pane_ids cs))" by auto
qed

lemma remove_nth_middle: "k = length xs \<Longrightarrow> remove_nth k (xs @ y # zs) = xs @ zs"
  by (simp add: remove_nth_def)

lemma remove1_middle:
  "p \<notin> set xs \<Longrightarrow> p \<in> set ys \<Longrightarrow> remove1 p (xs @ ys @ zs) = xs @ remove1 p ys @ zs"
  by (simp add: remove1_append)

lemma remove_leaf_ok: "removal_ok p t (remove_leaf t p)"
proof (induction t rule: layout_node_induct)
  case (Pane q)
  then show ?case by (simp add: removal_ok_def)
next
  case (Split d cs ws a)
  obtain cs' r where cs': "remove_leaf_in_children cs 0 p = (cs', r)" by fastforce
  then show ?case
  proof (cases rule: remove_leaf_in_children_cases)
    case absent
    from remove_leaf_absent [of cs p, OF Split absent(2)] absent cs' show ?thesis
      by (simp add: removal_ok_def)
  next
    case (found k c st)
    from remove_leaf_absent [of "take k cs" p] Split found(6)
    have before: "map (\<lambda>c. fst (remove_leaf c p)) (take k cs) = take k cs"
      "p \<notin> set (concat (map list_leaf_pane_ids (take k cs)))" by (metis in_set_takeD)+
    with found have eq: "cs' = take k cs @ c # drop (Suc k) cs" by simp
    from Split [of "cs ! k"] found have ok: "removal_ok p (cs ! k) (c, st)" by simp
    have leaves: "list_leaf_pane_ids (Split (SplitNode d cs ws a)) =
        concat (map list_leaf_pane_ids (take k cs)) @ list_leaf_pane_ids (cs ! k) @
        concat (map list_leaf_pane_ids (drop (Suc k) cs))"
      using found(1) by (simp add: concat_map_nth)
    show ?thesis
    proof (cases st)
      case PaneNotFound
      with found show ?thesis by simp
    next
      case Removed
      with ok have c: "p \<in> set (list_leaf_pane_ids (cs ! k))"
        "list_leaf_pane_ids c = remove1 p (list_leaf_pane_ids (cs ! k))"
        "paired (cs ! k) \<longrightarrow> paired c" "populated (cs ! k) \<longrightarrow> populated c"
        by (simp_all add: removal_ok_def)
      have res: "remove_leaf (Split (SplitNode d cs ws a)) p = (Split (SplitNode d cs' ws a), Removed)"
        using cs' found Removed by simp
      have shape: "length cs' = length cs" "(\<forall>c \<in> set cs. paired c) \<longrightarrow> (\<forall>c \<in> set cs'. paired c)"
        "(\<forall>c \<in> set cs. populated c) \<longrightarrow> (\<forall>c \<in> set cs'. populated c)" "cs' \<noteq> []"
        using c(3,4) eq found(1) nth_mem [OF found(1)] by (auto dest: in_set_takeD in_set_dropD)
      have "list_leaf_pane_ids (Split (SplitNode d cs' ws a)) =
          remove1 p (list_leaf_pane_ids (Split (SplitNode d cs ws a)))"
        unfolding leaves using c eq remove1_middle [OF before(2) c(1)] by simp
      moreover have "p \<in> set (list_leaf_pane_ids (Split (SplitNode d cs ws a)))"
        unfolding leaves using c by simp
      ultimately show ?thesis using shape
        by (simp add: removal_ok_def res del: remove_leaf.simps list_leaf_pane_ids.simps)
    next
      case SubtreeEmpty
      with ok have c: "list_leaf_pane_ids (cs ! k) = [p]" by (simp add: removal_ok_def)
      have rest: "remove_nth k cs' = take k cs @ drop (Suc k) cs"
        using eq found(1) by (simp add: remove_nth_middle)
      let ?ws = "if k < length ws then remove_nth k ws else ws"
      show ?thesis
      proof (cases "remove_nth k cs' = []")
        case True
        with rest have "take k cs = []" "drop (Suc k) cs = []" by simp_all
        with c have "list_leaf_pane_ids (Split (SplitNode d cs ws a)) = [p]"
          unfolding leaves by (simp only: list.map concat.simps append_Nil append_Nil2)
        with True cs' found SubtreeEmpty show ?thesis by (simp add: removal_ok_def)
      next
        case False
        then have res: "remove_leaf (Split (SplitNode d cs ws a)) p =
            (Split (set_active_child_after_removal (SplitNode d (remove_nth k cs') ?ws a) k), Removed)"
          using cs' found SubtreeEmpty by (simp add: Let_def)
        have shape: "length ws = length cs \<longrightarrow> length ?ws = length (remove_nth k cs')"
          "set (remove_nth k cs') \<subseteq> set cs"
          using found(1) rest by (auto simp: remove_nth_def dest: in_set_takeD in_set_dropD)
        have "remove1 p (list_leaf_pane_ids (Split (SplitNode d cs ws a))) =
            concat (map list_leaf_pane_ids (remove_nth k cs'))"
          unfolding leaves rest using before(2) c by (simp add: remove1_append)
        moreover have "p \<in> set (list_leaf_pane_ids (Split (SplitNode d cs ws a)))"
          unfolding leaves using c by simp
        moreover obtain a' where "set_active_child_after_removal (SplitNode d (remove_nth k cs') ?ws a) k =
            SplitNode d (remove_nth k cs') ?ws a'"
          by (simp add: set_active_child_after_removal_def Let_def)
        ultimately show ?thesis using shape False
          unfolding removal_ok_def res by (auto simp del: list_leaf_pane_ids.simps(2) simp add: leaves_split)
      qed
    qed
  qed
qed

lemma remove1_last: "p \<in> set xs \<Longrightarrow> remove1 p xs = [] \<Longrightarrow> xs = [p]"
  by (cases xs) (auto split: if_splits)

lemma remove_pane_Inr:
  assumes "remove_pane t p = Inr t'"
  shows "p \<in> set (list_leaf_pane_ids t) \<and> list_leaf_pane_ids t' \<noteq> [] \<and>
         list_leaf_pane_ids t' = remove1 p (list_leaf_pane_ids t) \<and>
         (paired t \<longrightarrow> paired t') \<and> (populated t \<longrightarrow> populated t')"
  using assms remove_leaf_ok [of p t]
  by (cases "remove_leaf t p"; cases "snd (remove_leaf t p)")
     (auto simp: remove_pane_def removal_ok_def split: if_splits)

lemma remove_pane_Inl:
  assumes "remove_pane t p = Inl e"
  shows "e = RemovePaneNotFound p \<and> p \<notin> set (list_leaf_pane_ids t) \<or>
         e = LastPane p \<and> list_leaf_pane_ids t = [p]"
  using assms remove_leaf_ok [of p t] remove1_last [of p "list_leaf_pane_ids t"]
  by (cases "remove_leaf t p"; cases "snd (remove_leaf t p)")
     (auto simp: remove_pane_def removal_ok_def split: if_splits)

text \<open>
  C36. Removing a pane takes out exactly its leaf and keeps the order of the others, keeps one weight
  per child and no split empty; it is refused exactly when the pane is absent, or when no pane would
  be left.
\<close>

theorem remove_pane_spec:
  "case remove_pane t p of
     Inl e \<Rightarrow> e = RemovePaneNotFound p \<and> p \<notin> set (list_leaf_pane_ids t) \<or>
       e = LastPane p \<and> list_leaf_pane_ids t = [p]
   | Inr t' \<Rightarrow> p \<in> set (list_leaf_pane_ids t) \<and> list_leaf_pane_ids t' \<noteq> [] \<and>
       list_leaf_pane_ids t' = remove1 p (list_leaf_pane_ids t) \<and>
       (paired t \<longrightarrow> paired t') \<and> (populated t \<longrightarrow> populated t')"
proof (cases "remove_pane t p")
  case (Inl e)
  then show ?thesis using remove_pane_Inl [OF Inl] by (simp only: sum.case)
next
  case (Inr t')
  show ?thesis unfolding Inr sum.case by (rule remove_pane_Inr [OF Inr])
qed

text \<open>Taking the middle pane out of a row of three.\<close>

definition example_row :: layout_node where
  "example_row = Split (with_equal_weights Horizontal [Pane (PaneId 1), Pane (PaneId 2), Pane (PaneId 3)])"

theorem remove_pane_spec_witness:
  "paired example_row \<and> populated example_row \<and>
   (\<exists>t'. remove_pane example_row (PaneId 2) = Inr t' \<and> paired t' \<and> populated t' \<and>
      list_leaf_pane_ids t' = [PaneId 1, PaneId 3])"
proof -
  have shape: "paired example_row" "populated example_row"
    by (simp_all add: example_row_def with_equal_weights_def)
  have leaves: "list_leaf_pane_ids example_row = [PaneId 1, PaneId 2, PaneId 3]"
    by (simp add: example_row_def with_equal_weights_def)
  show ?thesis
    using remove_pane_spec [where t = example_row and p = "PaneId 2"] shape
    by (cases "remove_pane example_row (PaneId 2)") (simp_all add: leaves)
qed

text \<open>
  Removing a pane and normalizing leaves the same leaves as the removal alone, in normal form:
  normalizing again with the same panes live changes nothing.
\<close>

theorem remove_pane_and_normalize_spec:
  "case remove_pane_and_normalize t p of
     Inl e \<Rightarrow> remove_pane t p = Inl e
   | Inr t' \<Rightarrow> list_leaf_pane_ids t' = remove1 p (list_leaf_pane_ids t) \<and> p \<in> set (list_leaf_pane_ids t) \<and>
       normalize_layout_tree t' (set (list_leaf_pane_ids t')) = Some t'"
proof (cases "remove_pane t p")
  case (Inl e)
  then show ?thesis by (simp add: remove_pane_and_normalize_def)
next
  case (Inr r)
  from remove_pane_Inr [OF Inr] have r: "list_leaf_pane_ids r \<noteq> []" "p \<in> set (list_leaf_pane_ids t)"
    "list_leaf_pane_ids r = remove1 p (list_leaf_pane_ids t)" by blast+
  from r(1) obtain n where n: "normalize_layout_tree r (set (list_leaf_pane_ids r)) = Some n"
    "list_leaf_pane_ids n = list_leaf_pane_ids r" by (rule normalize_all_live)
  have "normalize_layout_tree n (set (list_leaf_pane_ids n)) = Some n"
    using n by (metis normal_fixed normalize_SomeD(1))
  with n r Inr show ?thesis by (simp add: remove_pane_and_normalize_def)
qed

end
