(* ===== verification/Distribute.thy ===== *)
theory Distribute
  imports Size_Weight Geometry
begin

text \<open>
  The distribution of the cells of one axis among the children of a split (the second half of
  \<open>koshi-layout/src/solver.rs\<close>): shares by constraint, preferred targets, user resize deltas, floors,
  and the repair of the sum. A list of cell counts is a list of \<open>u16\<close>; \<open>cell_total\<close> is its exact sum. A
  loop that writes an array slot by slot is a recursion over the slots. The sums the code keeps in
  \<open>u64\<close> are natural numbers: they are bounded by the number of children times \<open>2\<^sup>3\<^sup>2\<close>.
\<close>

section \<open>Shares\<close>

definition cell_total :: "u16 list \<Rightarrow> nat" where
  "cell_total cell_counts = sum_list (map unat cell_counts)"

text \<open>
  The claims of \<open>Fixed\<close> and \<open>Percent\<close> children: in child order, never more than remains.
\<close>

fun claim_cells ::
  "(size_constraint \<Rightarrow> u16 option) \<Rightarrow> size_weight list \<Rightarrow> u16 list \<Rightarrow> u16 \<Rightarrow> u16 list \<times> u16" where
  "claim_cells request (w # ws) (c # cs) remaining =
     (case request (primary_constraint w) of
        None \<Rightarrow> (case claim_cells request ws cs remaining of (cs', remaining') \<Rightarrow> (c # cs', remaining'))
      | Some requested \<Rightarrow>
          (let claimed = min requested remaining in
           case claim_cells request ws cs (remaining - claimed) of
             (cs', remaining') \<Rightarrow> (claimed # cs', remaining')))"
| "claim_cells request ws cs remaining = (cs, remaining)"

fun fixed_request :: "size_constraint \<Rightarrow> u16 option" where
  "fixed_request (Fixed fixed_cell_count) = Some fixed_cell_count"
| "fixed_request _ = None"

fun percent_request :: "u16 \<Rightarrow> size_constraint \<Rightarrow> u16 option" where
  "percent_request available (Percent percent_value) =
     Some (compute_percent_cell_count available percent_value)"
| "percent_request available _ = None"

fun get_flexible_weight :: "size_constraint \<Rightarrow> nat option" where
  "get_flexible_weight (Flex flex_weight) = Some (unat flex_weight)"
| "get_flexible_weight (Minimum _) = Some 1"
| "get_flexible_weight (Preferred _) = Some 1"
| "get_flexible_weight (Fixed _) = None"
| "get_flexible_weight (Percent _) = None"

definition list_flexible_child_weight_pairs :: "size_weight list \<Rightarrow> (nat \<times> nat) list" where
  "list_flexible_child_weight_pairs weights =
     List.map_filter
       (\<lambda>(child_index, w). map_option (Pair child_index) (get_flexible_weight (primary_constraint w)))
       (enumerate 0 weights)"

definition compute_flexible_share :: "nat \<Rightarrow> nat \<Rightarrow> nat \<Rightarrow> u16" where
  "compute_flexible_share pool total_weight flex_weight =
     (if total_weight = 0 then 0 else of_nat (pool * flex_weight div total_weight))"

definition share_flexible_cells :: "(nat \<times> nat) list \<Rightarrow> u16 \<Rightarrow> u16 list \<Rightarrow> u16 list" where
  "share_flexible_cells pairs remaining cell_counts =
     (let total_weight = sum_list (map snd pairs);
          pool = unat remaining;
          share = compute_flexible_share pool total_weight;
          shared = fold (\<lambda>(i, w) cs. cs[i := share w]) pairs cell_counts;
          assigned = sum_list (map (\<lambda>(i, w). unat (share w)) pairs);
          leftover = pool - assigned
      in fold (\<lambda>(i, w) cs. cs[i := cs ! i + 1]) (take leftover (rev pairs)) shared)"

definition compute_share_cell_counts :: "size_weight list \<Rightarrow> u16 \<Rightarrow> u16 list" where
  "compute_share_cell_counts weights available =
     (case claim_cells fixed_request weights (replicate (length weights) 0) available of
        (fixed_counts, remaining) \<Rightarrow>
          (case claim_cells (percent_request available) weights fixed_counts remaining of
             (claimed_counts, remaining') \<Rightarrow>
               (let pairs = list_flexible_child_weight_pairs weights in
                if pairs = [] then claimed_counts
                else share_flexible_cells pairs remaining' claimed_counts)))"

section \<open>Repairing the sum\<close>

fun trim_excess :: "u16 list \<Rightarrow> nat \<Rightarrow> u16 list" where
  "trim_excess [] excess = []"
| "trim_excess (c # cs) excess =
     (let trimmed = min excess (unat c); rest = excess - trimmed in
      (c - of_nat trimmed) # (if rest = 0 then cs else trim_excess cs rest))"

definition repair_cell_count_sum :: "u16 list \<Rightarrow> u16 \<Rightarrow> u16 list" where
  "repair_cell_count_sum cell_counts available =
     (let total_cell_count = cell_total cell_counts in
      if total_cell_count < unat available then
        (if cell_counts = [] then []
         else butlast cell_counts @ [last cell_counts + of_nat (unat available - total_cell_count)])
      else if unat available < total_cell_count then
        rev (trim_excess (rev cell_counts) (total_cell_count - unat available))
      else cell_counts)"

section \<open>Resize deltas and donors\<close>

definition apply_resize_deltas :: "u16 list \<Rightarrow> size_weight list \<Rightarrow> u16 \<Rightarrow> u16 list" where
  "apply_resize_deltas cell_counts weights available =
     repair_cell_count_sum
       (map2 (\<lambda>c w. of_int (max 0 (min (int (unat available)) (int (unat c) + resize_delta w))))
          cell_counts weights)
       available"

definition is_flexible :: "size_weight \<Rightarrow> bool" where
  "is_flexible w =
     (case primary_constraint w of Flex _ \<Rightarrow> True | Minimum _ \<Rightarrow> True | Preferred _ \<Rightarrow> True | _ \<Rightarrow> False)"

definition get_preferred_cell_count :: "size_weight \<Rightarrow> u16 option" where
  "get_preferred_cell_count w =
     (case preferred_cell_count w of
        Some c \<Rightarrow> Some c
      | None \<Rightarrow> (case primary_constraint w of Preferred c \<Rightarrow> Some c | _ \<Rightarrow> None))"

datatype donor_pool = FlexibleOnly | AllChildren

text \<open>
  One pass over the children, trailing first. A pass that starts with nothing left to take returns at
  once, so the early return of the first pass also skips the second.
\<close>

fun take_from_donors ::
  "bool \<Rightarrow> size_weight list \<Rightarrow> u16 list \<Rightarrow> u16 \<Rightarrow> nat \<Rightarrow> nat list \<Rightarrow> u16 list \<times> u16 \<Rightarrow> u16 list \<times> u16" where
  "take_from_donors flexible_pass weights floors needed skipped [] (cs, taken) = (cs, taken)"
| "take_from_donors flexible_pass weights floors needed skipped (i # indices) (cs, taken) =
     (if taken = needed then (cs, taken)
      else if i = skipped \<or> is_flexible (weights ! i) \<noteq> flexible_pass then
        take_from_donors flexible_pass weights floors needed skipped indices (cs, taken)
      else
        (let spare = sat_sub (cs ! i) (floors ! i);
             given = min spare (needed - taken)
         in take_from_donors flexible_pass weights floors needed skipped indices
              (cs[i := cs ! i - given], taken + given)))"

definition take_donor_cell_count ::
  "u16 list \<Rightarrow> size_weight list \<Rightarrow> u16 list \<Rightarrow> u16 \<Rightarrow> nat \<Rightarrow> donor_pool \<Rightarrow> u16 list \<times> u16" where
  "take_donor_cell_count cell_counts weights floors needed skipped pool =
     (let indices = rev [0..<length cell_counts];
          flexible = take_from_donors True weights floors needed skipped indices (cell_counts, 0)
      in if pool = FlexibleOnly then flexible
         else take_from_donors False weights floors needed skipped indices flexible)"

definition find_surplus_receiver :: "size_weight list \<Rightarrow> nat \<Rightarrow> nat option" where
  "find_surplus_receiver weights child_index =
     find (\<lambda>i. i \<noteq> child_index \<and> is_flexible (weights ! i)) (rev [0..<length weights])"

definition apply_preferred_cell_count ::
  "size_weight list \<Rightarrow> u16 list \<Rightarrow> nat \<Rightarrow> u16 list \<Rightarrow> u16 list" where
  "apply_preferred_cell_count weights floors i cs =
     (case get_preferred_cell_count (weights ! i) of
        None \<Rightarrow> cs
      | Some target \<Rightarrow>
          (let current = cs ! i in
           if target < current then
             (let surplus = sat_sub current (max target (floors ! i)) in
              case find_surplus_receiver weights i of
                None \<Rightarrow> cs
              | Some r \<Rightarrow>
                  (let cs' = cs[i := cs ! i - surplus] in cs'[r := sat_add (cs' ! r) surplus]))
           else if current < target then
             (case take_donor_cell_count cs weights floors (target - current) i FlexibleOnly of
                (cs', taken) \<Rightarrow> cs'[i := sat_add (cs' ! i) taken])
           else cs))"

definition apply_preferred_cell_counts :: "u16 list \<Rightarrow> size_weight list \<Rightarrow> u16 list \<Rightarrow> u16 list" where
  "apply_preferred_cell_counts cell_counts weights floors =
     fold (apply_preferred_cell_count weights floors) [0..<length weights] cell_counts"

definition clamp_cell_count_to_floor ::
  "size_weight list \<Rightarrow> u16 list \<Rightarrow> nat \<Rightarrow> u16 list \<Rightarrow> u16 list" where
  "clamp_cell_count_to_floor weights floors i cs =
     (if cs ! i < floors ! i then
        (case take_donor_cell_count cs weights floors (floors ! i - cs ! i) i AllChildren of
           (cs', taken) \<Rightarrow> cs'[i := cs' ! i + taken])
      else cs)"

definition clamp_cell_counts_to_floors ::
  "u16 list \<Rightarrow> size_weight list \<Rightarrow> u16 list \<Rightarrow> u16 \<Rightarrow> u16 list" where
  "clamp_cell_counts_to_floors cell_counts weights floors available =
     (if unat available < cell_total floors then cell_counts
      else fold (clamp_cell_count_to_floor weights floors) [0..<length cell_counts] cell_counts)"

definition distribute_axis_cells :: "size_weight list \<Rightarrow> u16 list \<Rightarrow> u16 \<Rightarrow> u16 list" where
  "distribute_axis_cells weights floors available =
     (let shares = repair_cell_count_sum (compute_share_cell_counts weights available) available;
          preferred = apply_preferred_cell_counts shares weights floors;
          resized = apply_resize_deltas preferred weights available
      in clamp_cell_counts_to_floors resized weights floors available)"

section \<open>Exact sums\<close>

lemma total_simps [simp]:
  "cell_total [] = 0" "cell_total (c # cs) = unat c + cell_total cs" "cell_total (cs @ ds) = cell_total cs + cell_total ds"
  "cell_total (rev cs) = cell_total cs"
  by (simp_all add: cell_total_def sum_list_rev rev_map [symmetric])

lemma total_update: "i < length cs \<Longrightarrow> cell_total (cs[i := x]) + unat (cs ! i) = cell_total cs + unat x"
proof (induction cs arbitrary: i)
  case (Cons c cs)
  then show ?case by (cases i) auto
qed simp

lemma total_nth_le: "i < length cs \<Longrightarrow> unat (cs ! i) \<le> cell_total cs"
proof (induction cs arbitrary: i)
  case (Cons c cs)
  then show ?case by (cases i) (auto intro: trans_le_add2)
qed simp

lemma total_mono: "length cs = length ds \<Longrightarrow> (\<And>i. i < length cs \<Longrightarrow> cs ! i \<le> ds ! i) \<Longrightarrow> cell_total cs \<le> cell_total ds"
proof (induction cs ds rule: list_induct2)
  case (Cons c cs d ds)
  from Cons.prems [of 0] Cons.prems [of "Suc _"] Cons.IH show ?case
    by (auto simp: word_le_nat_alt intro!: add_mono)
qed simp


lemma length_trim_excess [simp]: "length (trim_excess cs excess) = length cs"
  by (induction cs excess rule: trim_excess.induct) (simp_all add: Let_def)

lemma unat_sub_of_nat: "n \<le> unat c \<Longrightarrow> unat (c - of_nat n) = unat c - n" for c :: u16
  using unat_u16_less [of c] by (subst unat_sub_small) (simp_all add: unat_of_nat)

lemma unat_add_of_nat: "unat c + n < 65536 \<Longrightarrow> unat (c + of_nat n) = unat c + n" for c :: u16
  by (simp add: unat_word_ariths unat_of_nat)

lemma total_trim_excess: "excess \<le> cell_total cs \<Longrightarrow> cell_total (trim_excess cs excess) = cell_total cs - excess"
proof (induction cs excess rule: trim_excess.induct)
  case (2 c cs excess)
  show ?case
  proof (cases "excess \<le> unat c")
    case True
    then show ?thesis by (simp add: Let_def unat_sub_of_nat)
  next
    case False
    with 2 have "cell_total (trim_excess cs (excess - unat c)) = cell_total cs - (excess - unat c)" by simp
    with False 2(2) show ?thesis by (simp add: Let_def min_def)
  qed
qed simp

lemma length_repair [simp]: "length (repair_cell_count_sum cs available) = length cs"
  by (simp add: repair_cell_count_sum_def Let_def)

text \<open>The repair makes the sum exact, whatever the counts were before.\<close>

lemma total_repair:
  assumes "cs \<noteq> []"
  shows "cell_total (repair_cell_count_sum cs available) = unat available"
proof -
  have split: "cell_total cs = cell_total (butlast cs) + unat (last cs)"
    using assms by (metis append_butlast_last_id total_simps(1,2,3) add_0_right)
  show ?thesis
  proof (cases "cell_total cs" "unat available" rule: linorder_cases)
    case less
    let ?d = "unat available - cell_total cs"
    have "unat (last cs) + ?d < 65536" using less split unat_u16_less [of available] by linarith
    from unat_add_of_nat [OF this] have "unat (last cs + of_nat ?d) = unat (last cs) + ?d" .
    with less assms split show ?thesis by (simp add: repair_cell_count_sum_def Let_def del: of_nat_diff)
  next
    case equal
    then show ?thesis by (simp add: repair_cell_count_sum_def)
  next
    case greater
    then show ?thesis by (simp add: repair_cell_count_sum_def total_trim_excess)
  qed
qed

lemma repair_exact: "cell_total cs = unat available \<Longrightarrow> repair_cell_count_sum cs available = cs"
  by (simp add: repair_cell_count_sum_def)

section \<open>Donors\<close>

text \<open>
  What a donor pass over \<open>indices\<close> does: it moves cells, loses none, leaves the skipped child alone,
  takes nobody below the floor, and stops short only when every donor it may ask is at its floor.
\<close>

definition donors_ok ::
  "(nat \<Rightarrow> bool) \<Rightarrow> u16 list \<Rightarrow> u16 \<Rightarrow> nat \<Rightarrow> u16 list \<times> u16 \<Rightarrow> u16 list \<times> u16 \<Rightarrow> bool" where
  "donors_ok asked floors needed skipped before after \<longleftrightarrow>
     length (fst after) = length (fst before) \<and>
     cell_total (fst after) + unat (snd after) = cell_total (fst before) + unat (snd before) \<and>
     unat (snd after) \<le> unat needed \<and> fst after ! skipped = fst before ! skipped \<and>
     (\<forall>j < length (fst before). fst after ! j \<le> fst before ! j \<and>
        (fst before ! j < floors ! j \<and> fst after ! j = fst before ! j \<or>
         floors ! j \<le> fst before ! j \<and> floors ! j \<le> fst after ! j)) \<and>
     (snd after = needed \<or> (\<forall>j < length (fst before). asked j \<and> j \<noteq> skipped \<longrightarrow> fst after ! j \<le> floors ! j))"

lemma give_cells:
  fixes needed taken :: u16
  assumes "unat taken \<le> unat needed" "i < length cs" "i \<noteq> skipped"
    and given: "given = min (sat_sub (cs ! i) (floors ! i)) (needed - taken)"
  shows "donors_ok (\<lambda>j. j = i) floors needed skipped (cs, taken) (cs[i := cs ! i - given], taken + given)"
proof -
  have g: "unat given = min (unat (cs ! i) - unat (floors ! i)) (unat needed - unat taken)"
    using assms by (simp add: unat_simps unat_sub_small)
  then have a: "unat (cs ! i - given) = unat (cs ! i) - unat given" by (intro unat_sub_small) simp
  have b: "unat (taken + given) = unat taken + unat given"
    using g assms(1) unat_u16_less [of needed] by (intro unat_add_small) simp
  have c: "cell_total (cs[i := cs ! i - given]) + unat given = cell_total cs"
    using total_update [OF assms(2), of "cs ! i - given"] a g by linarith
  have d: "taken + given = needed \<or> unat (cs ! i - given) \<le> unat (floors ! i)"
    using a b g assms(1) by (auto simp: unat_eq_iff min_def)
  have e: "unat (cs ! i) < unat (floors ! i) \<and> cs ! i - given = cs ! i \<or>
      unat (floors ! i) \<le> unat (cs ! i) \<and> unat (floors ! i) \<le> unat (cs ! i - given)"
    using a g by (auto simp: unat_eq_iff)
  have f: "unat taken + unat given \<le> unat needed" using g assms(1) by simp
  show ?thesis
    using b c d e f a assms(2,3)
    by (auto simp: donors_ok_def nth_list_update word_le_nat_alt word_less_nat_alt)
qed

lemma donors_ok_trans:
  assumes "donors_ok p floors needed skipped s t" and "donors_ok q floors needed skipped t u"
    and finished: "snd t = needed \<Longrightarrow> u = t"
  shows "donors_ok (\<lambda>j. p j \<or> q j) floors needed skipped s u"
proof (cases "snd t = needed")
  case True
  with finished assms(1) show ?thesis by (simp add: donors_ok_def)
next
  case False
  have len: "length (fst t) = length (fst s)" using assms(1) by (simp add: donors_ok_def)
  have step1: "fst t ! j \<le> fst s ! j \<and> (fst s ! j < floors ! j \<and> fst t ! j = fst s ! j \<or>
      floors ! j \<le> fst s ! j \<and> floors ! j \<le> fst t ! j)" if "j < length (fst s)" for j
    using assms(1) that by (simp add: donors_ok_def)
  have step2: "fst u ! j \<le> fst t ! j \<and> (fst t ! j < floors ! j \<and> fst u ! j = fst t ! j \<or>
      floors ! j \<le> fst t ! j \<and> floors ! j \<le> fst u ! j)" if "j < length (fst s)" for j
    using assms(2) that len by (simp add: donors_ok_def)
  have floor1: "fst t ! j \<le> floors ! j" if "j < length (fst s)" "p j" "j \<noteq> skipped" for j
    using assms(1) that False by (simp add: donors_ok_def)
  have floor2: "snd u = needed \<or> (\<forall>j < length (fst s). q j \<and> j \<noteq> skipped \<longrightarrow> fst u ! j \<le> floors ! j)"
    using assms(2) len by (simp add: donors_ok_def)
  have floors: "snd u = needed \<or>
      (\<forall>j < length (fst s). (p j \<or> q j) \<and> j \<noteq> skipped \<longrightarrow> fst u ! j \<le> floors ! j)"
    using floor2
  proof (rule disj_forward)
    assume below: "\<forall>j < length (fst s). q j \<and> j \<noteq> skipped \<longrightarrow> fst u ! j \<le> floors ! j"
    show "\<forall>j < length (fst s). (p j \<or> q j) \<and> j \<noteq> skipped \<longrightarrow> fst u ! j \<le> floors ! j"
    proof (intro allI impI)
      fix j assume j: "j < length (fst s)" "(p j \<or> q j) \<and> j \<noteq> skipped"
      show "fst u ! j \<le> floors ! j"
        using j below floor1 [of j] step2 [OF j(1)] order_trans [of "fst u ! j" "fst t ! j" "floors ! j"] by blast
    qed
  qed
  have between: "fst u ! j \<le> fst s ! j \<and>
      (fst s ! j < floors ! j \<and> fst u ! j = fst s ! j \<or> floors ! j \<le> fst s ! j \<and> floors ! j \<le> fst u ! j)"
    if "j < length (fst s)" for j
    using step1 [OF that] step2 [OF that] by auto
  have sums: "length (fst u) = length (fst s)"
    "cell_total (fst u) + unat (snd u) = cell_total (fst s) + unat (snd s)"
    "unat (snd u) \<le> unat needed" "fst u ! skipped = fst s ! skipped"
    using assms(1,2) by (simp_all add: donors_ok_def)
  from between floors sums show ?thesis unfolding donors_ok_def by blast
qed

lemma donors_ok_weaken:
  "donors_ok p floors needed skipped s t \<Longrightarrow> (\<And>j. j \<noteq> skipped \<Longrightarrow> q j \<Longrightarrow> p j) \<Longrightarrow>
     donors_ok q floors needed skipped s t"
  by (auto simp: donors_ok_def)

lemma donors_ok_refl: "unat (snd s) \<le> unat needed \<Longrightarrow> donors_ok (\<lambda>j. False) floors needed skipped s s"
  by (auto simp: donors_ok_def)

lemma take_from_donors_ok:
  assumes "unat (snd s) \<le> unat needed" "set indices \<subseteq> {..<length (fst s)}"
  shows "donors_ok (\<lambda>j. j \<in> set indices \<and> is_flexible (weights ! j) = flexible_pass) floors needed skipped s
           (take_from_donors flexible_pass weights floors needed skipped indices s)"
  using assms
proof (induction indices arbitrary: s)
  case Nil
  then show ?case by (cases s) (simp add: donors_ok_refl)
next
  case (Cons i indices)
  obtain cs taken where s: "s = (cs, taken)" by fastforce
  show ?case
  proof (cases "taken = needed \<or> i = skipped \<or> is_flexible (weights ! i) \<noteq> flexible_pass")
    case True
    show ?thesis
    proof (cases "taken = needed")
      case True
      with s show ?thesis by (auto simp: donors_ok_def)
    next
      case False
      with True s have "take_from_donors flexible_pass weights floors needed skipped (i # indices) s =
          take_from_donors flexible_pass weights floors needed skipped indices s" by simp
      with Cons.IH [of s] Cons.prems True False show ?thesis
        by (auto elim!: donors_ok_weaken)
    qed
  next
    case False
    define given where "given = min (sat_sub (cs ! i) (floors ! i)) (needed - taken)"
    let ?t = "(cs[i := cs ! i - given], taken + given)"
    have step: "donors_ok (\<lambda>j. j = i) floors needed skipped s ?t"
      using Cons.prems s False by (auto intro!: give_cells simp: given_def)
    then have le: "unat (snd ?t) \<le> unat needed" by (simp add: donors_ok_def)
    have rest: "donors_ok (\<lambda>j. j \<in> set indices \<and> is_flexible (weights ! j) = flexible_pass) floors needed
        skipped ?t (take_from_donors flexible_pass weights floors needed skipped indices ?t)"
      using Cons.prems s le by (intro Cons.IH) auto
    have "take_from_donors flexible_pass weights floors needed skipped indices ?t = ?t"
      if "snd ?t = needed" using that by (cases indices) simp_all
    with donors_ok_trans [OF step rest] have
      "donors_ok (\<lambda>j. j = i \<or> j \<in> set indices \<and> is_flexible (weights ! j) = flexible_pass) floors needed
        skipped s (take_from_donors flexible_pass weights floors needed skipped indices ?t)" by blast
    moreover have "take_from_donors flexible_pass weights floors needed skipped (i # indices) s =
        take_from_donors flexible_pass weights floors needed skipped indices ?t"
      using False s by (simp add: given_def Let_def)
    ultimately show ?thesis by (auto elim!: donors_ok_weaken)
  qed
qed

lemma take_donor_ok:
  "donors_ok (\<lambda>j. j < length cs \<and> (is_flexible (weights ! j) \<or> pool = AllChildren)) floors needed skipped (cs, 0)
     (take_donor_cell_count cs weights floors needed skipped pool)"
proof -
  let ?is = "rev [0..<length cs]"
  let ?t = "take_from_donors True weights floors needed skipped ?is (cs, 0)"
  let ?u = "take_from_donors False weights floors needed skipped ?is ?t"
  have first: "donors_ok (\<lambda>j. j \<in> set ?is \<and> is_flexible (weights ! j) = True) floors needed skipped (cs, 0) ?t"
    by (rule take_from_donors_ok) auto
  show ?thesis
  proof (cases pool)
    case FlexibleOnly
    with first show ?thesis
      by (auto simp: take_donor_cell_count_def elim!: donors_ok_weaken)
  next
    case AllChildren
    have second: "donors_ok (\<lambda>j. j \<in> set ?is \<and> is_flexible (weights ! j) = False) floors needed skipped ?t ?u"
      using first by (intro take_from_donors_ok) (auto simp: donors_ok_def)
    have "?u = ?t" if "snd ?t = needed"
      using that by (cases ?t; cases ?is) (simp_all del: upt_Suc)
    from donors_ok_trans [OF first second this] AllChildren show ?thesis
      by (auto simp: take_donor_cell_count_def Let_def elim!: donors_ok_weaken)
  qed
qed


section \<open>Preferred targets keep the sum\<close>

lemma total_le_u16: "cell_total cs = unat (available :: u16) \<Longrightarrow> i < length cs \<Longrightarrow> unat (cs ! i) \<le> unat available"
  by (metis total_nth_le)

lemma move_cells_total:
  assumes "cell_total cs = unat (available :: u16)" "i < length cs" "r < length cs" "r \<noteq> i"
    and "unat moved \<le> unat (cs ! i)"
  shows "cell_total ((cs[i := cs ! i - moved])[r := sat_add (cs[i := cs ! i - moved] ! r) moved]) =
           unat available"
proof -
  let ?cs = "cs[i := cs ! i - moved]"
  have a: "cell_total ?cs + unat moved = unat available"
    using total_update [OF assms(2), of "cs ! i - moved"] assms unat_sub_small [OF assms(5)] by simp
  have "unat (?cs ! r) + unat moved \<le> unat available"
    using total_nth_le [of r ?cs] a assms by simp
  then have "unat (sat_add (?cs ! r) moved) = unat (?cs ! r) + unat moved"
    using unat_u16_less [of available] by (simp add: unat_sat_add)
  with total_update [of r ?cs "sat_add (?cs ! r) moved"] a assms show ?thesis by simp
qed

lemma find_surplus_receiver_props:
  "find_surplus_receiver weights i = Some r \<Longrightarrow> r < length weights \<and> r \<noteq> i \<and> is_flexible (weights ! r)"
  by (auto simp: find_surplus_receiver_def find_Some_iff rev_nth)

lemma gain_total:
  assumes "donors_ok p floors needed i (cs, 0) (cs', taken)" "cell_total cs = unat (available :: u16)"
    "i < length cs"
  shows "cell_total (cs'[i := sat_add (cs' ! i) taken]) = unat available"
    and "unat (sat_add (cs' ! i) taken) = unat (cs ! i) + unat taken"
    and "sat_add (cs' ! i) taken = cs' ! i + taken"
proof -
  from assms have *: "length cs' = length cs" "cell_total cs' + unat taken = unat available"
    "cs' ! i = cs ! i" by (simp_all add: donors_ok_def)
  have le: "unat (cs' ! i) + unat taken \<le> unat available"
    using total_nth_le [of i cs'] * assms(3) by simp
  with unat_u16_less [of available] show "unat (sat_add (cs' ! i) taken) = unat (cs ! i) + unat taken"
    using * by (simp add: unat_sat_add)
  with total_update [of i cs' "sat_add (cs' ! i) taken"] * assms(3)
  show "cell_total (cs'[i := sat_add (cs' ! i) taken]) = unat available" by simp
  show "sat_add (cs' ! i) taken = cs' ! i + taken"
    using le unat_u16_less [of available] by (simp add: sat_add_def)
qed

lemma apply_preferred_cell_count_total:
  assumes "cell_total cs = unat (available :: u16)" "length cs = length weights" "i < length cs"
  shows "cell_total (apply_preferred_cell_count weights floors i cs) = unat available \<and>
         length (apply_preferred_cell_count weights floors i cs) = length weights"
proof (cases "get_preferred_cell_count (weights ! i)")
  case None
  then show ?thesis using assms by (simp add: apply_preferred_cell_count_def)
next
  case (Some target)
  show ?thesis
  proof (cases "cs ! i" target rule: linorder_cases)
    case less
    obtain cs' taken where t:
      "take_donor_cell_count cs weights floors (target - cs ! i) i FlexibleOnly = (cs', taken)" by fastforce
    note ok = take_donor_ok [of cs weights FlexibleOnly floors "target - cs ! i" i, unfolded t]
    then have "length cs' = length cs" by (simp add: donors_ok_def)
    moreover have "\<not> target < cs ! i" using less by (metis order.asym)
    ultimately show ?thesis using gain_total(1) [OF ok assms(1,3)] Some less t assms(2)
      by (simp add: apply_preferred_cell_count_def Let_def)
  next
    case equal
    then show ?thesis using Some assms by (simp add: apply_preferred_cell_count_def)
  next
    case greater
    let ?surplus = "sat_sub (cs ! i) (max target (floors ! i))"
    have le: "unat ?surplus \<le> unat (cs ! i)" by (simp add: unat_sat_sub)
    show ?thesis
    proof (cases "find_surplus_receiver weights i")
      case None
      with greater Some assms show ?thesis by (simp add: apply_preferred_cell_count_def)
    next
      case (Some r)
      from find_surplus_receiver_props [OF this] assms(2) have "r < length cs" "r \<noteq> i" by simp_all
      from move_cells_total [OF assms(1,3) this le] Some greater assms(2)
        \<open>get_preferred_cell_count (weights ! i) = Some target\<close>
      show ?thesis by (simp add: apply_preferred_cell_count_def Let_def)
    qed
  qed
qed

text \<open>A loop over the slots keeps what every step keeps.\<close>

lemma fold_keeps:
  assumes "\<And>i x. i \<in> set is \<Longrightarrow> P x \<Longrightarrow> P (f i x)" and "P x"
  shows "P (fold f is x)"
  using assms by (induction "is" arbitrary: x) auto

lemma apply_preferred_total:
  assumes "cell_total cs = unat (available :: u16)" "length cs = length weights"
  shows "cell_total (apply_preferred_cell_counts cs weights floors) = unat available \<and>
         length (apply_preferred_cell_counts cs weights floors) = length weights"
  unfolding apply_preferred_cell_counts_def
  using assms apply_preferred_cell_count_total
  by (intro fold_keeps [where P = "\<lambda>cs. cell_total cs = unat available \<and> length cs = length weights"]) auto

section \<open>Floors\<close>

text \<open>
  When the floors fit, the siblings of a child below its floor can always fund the whole deficit:
  otherwise every one of them would be at its floor or below, and the floors would not fit.
\<close>

lemma deficit_funded:
  assumes ok: "donors_ok (\<lambda>j. j < length cs) floors (floors ! i - cs ! i) i (cs, 0) (cs', taken)"
    and "cell_total cs = unat (available :: u16)" "length floors = length cs" "i < length cs"
    and fit: "cell_total floors \<le> unat available" and below: "cs ! i < floors ! i"
  shows "taken = floors ! i - cs ! i"
proof (rule ccontr)
  assume short: "taken \<noteq> floors ! i - cs ! i"
  have needed: "unat (floors ! i - cs ! i) = unat (floors ! i) - unat (cs ! i)"
    using below by (intro unat_sub_small) (simp add: word_less_nat_alt)
  from ok short have *: "length cs' = length cs" "cell_total cs' + unat taken = unat available"
    "unat taken < unat (floors ! i) - unat (cs ! i)" "cs' ! i = cs ! i"
    "\<forall>j < length cs. j \<noteq> i \<longrightarrow> cs' ! j \<le> floors ! j"
    using assms(2) by (auto simp: donors_ok_def needed unat_eq_iff order_less_le)
  let ?cs = "cs'[i := floors ! i]"
  have "cell_total ?cs \<le> cell_total floors"
    using * assms(3,4) by (intro total_mono) (auto simp: nth_list_update)
  moreover have "cell_total ?cs + unat (cs' ! i) = cell_total cs' + unat (floors ! i)"
    using total_update [of i cs' "floors ! i"] * assms(4) by simp
  ultimately show False using * fit by simp
qed

lemma clamp_step:
  fixes weights
  assumes "cell_total cs = unat (available :: u16)" "length floors = length cs" "i < length cs"
    and fit: "cell_total floors \<le> unat available"
    and done_before: "\<forall>j < i. floors ! j \<le> cs ! j"
  defines "cs' \<equiv> clamp_cell_count_to_floor weights floors i cs"
  shows "cell_total cs' = unat available" "length cs' = length cs" "\<forall>j < Suc i. floors ! j \<le> cs' ! j"
proof (atomize(full), cases "cs ! i < floors ! i")
  case False
  with assms show "cell_total cs' = unat available \<and> length cs' = length cs \<and> (\<forall>j < Suc i. floors ! j \<le> cs' ! j)"
    by (auto simp: clamp_cell_count_to_floor_def less_Suc_eq)
next
  case True
  obtain ds taken where t:
    "take_donor_cell_count cs weights floors (floors ! i - cs ! i) i AllChildren = (ds, taken)" by fastforce
  have ok: "donors_ok (\<lambda>j. j < length cs) floors (floors ! i - cs ! i) i (cs, 0) (ds, taken)"
    using take_donor_ok [of cs weights AllChildren floors "floors ! i - cs ! i" i] t by simp
  have taken: "taken = floors ! i - cs ! i" by (rule deficit_funded) (use assms ok True in auto)
  have between: "cs ! j < floors ! j \<or> floors ! j \<le> ds ! j" if "j < i" for j
    using ok order.strict_trans [OF that assms(3)] by (auto simp: donors_ok_def)
  have keep: "length ds = length cs" "ds ! i = cs ! i" "\<And>j. j < i \<Longrightarrow> floors ! j \<le> ds ! j"
    using ok done_before between by (auto simp: donors_ok_def dest: leD)
  have cs': "cs' = ds[i := sat_add (ds ! i) taken]"
    using True t gain_total(3) [OF ok assms(1,3)] by (simp add: cs'_def clamp_cell_count_to_floor_def)
  have "ds ! i + taken = floors ! i" using keep taken by simp
  then have "\<forall>j < Suc i. floors ! j \<le> cs' ! j"
    using keep assms(3) cs' gain_total(3) [OF ok assms(1,3)] by (auto simp: less_Suc_eq nth_list_update)
  then show "cell_total cs' = unat available \<and> length cs' = length cs \<and> (\<forall>j < Suc i. floors ! j \<le> cs' ! j)"
    using gain_total(1) [OF ok assms(1,3)] cs' keep(1) by simp
qed

lemma clamp_loop:
  fixes weights
  assumes "cell_total cs = unat (available :: u16)" "length floors = length cs" "n \<le> length cs"
    and "cell_total floors \<le> unat available"
  defines "cs' \<equiv> fold (clamp_cell_count_to_floor weights floors) [0..<n] cs"
  shows "cell_total cs' = unat available \<and> length cs' = length cs \<and> (\<forall>j < n. floors ! j \<le> cs' ! j)"
  unfolding cs'_def using assms(3)
proof (induction n)
  case 0
  then show ?case using assms by simp
next
  case (Suc n)
  then show ?case
    using clamp_step [of "fold (clamp_cell_count_to_floor weights floors) [0..<n] cs" available floors n weights]
      assms(1,2,4) by simp
qed

section \<open>The distribution contract\<close>

text \<open>
  What the solver relies on: as many counts as children, an exact sum, and every count at its floor
  or above whenever the floors fit.
\<close>

locale axis_distribution =
  fixes distribute :: "size_weight list \<Rightarrow> u16 list \<Rightarrow> u16 \<Rightarrow> u16 list"
  assumes distribute_length:
      "length floors = length weights \<Longrightarrow> length (distribute weights floors available) = length weights"
    and distribute_total:
      "length floors = length weights \<Longrightarrow> weights \<noteq> [] \<Longrightarrow>
         cell_total (distribute weights floors available) = unat available"
    and distribute_floor:
      "length floors = length weights \<Longrightarrow> cell_total floors \<le> unat available \<Longrightarrow> i < length weights \<Longrightarrow>
         floors ! i \<le> distribute weights floors available ! i"
begin

lemma prefix_total:
  assumes "length floors = length weights" "i < length weights"
  shows "cell_total (take i (distribute weights floors available)) +
         unat (distribute weights floors available ! i) +
         cell_total (drop (Suc i) (distribute weights floors available)) = unat available"
proof -
  let ?d = "distribute weights floors available"
  have "?d = take i ?d @ ?d ! i # drop (Suc i) ?d"
    using assms distribute_length by (simp add: id_take_nth_drop)
  then have "cell_total ?d = cell_total (take i ?d) + unat (?d ! i) + cell_total (drop (Suc i) ?d)"
    by (metis total_simps(2,3) add.assoc)
  moreover have "weights \<noteq> []" using assms by auto
  ultimately show ?thesis using distribute_total assms by metis
qed

lemma tight_fit:
  assumes "length floors = length weights" "cell_total floors = unat available"
  shows "distribute weights floors available = floors"
proof (cases "weights = []")
  case True
  then show ?thesis using assms(1) distribute_length [of floors weights available] by simp
next
  case False
  let ?d = "distribute weights floors available"
  have len: "length ?d = length floors" using assms distribute_length by simp
  have ge: "floors ! i \<le> ?d ! i" if "i < length floors" for i
    using distribute_floor assms that by simp
  have eq: "cell_total floors = cell_total ?d" using distribute_total assms False by simp
  have "floors ! i = ?d ! i" if i: "i < length floors" for i
  proof (rule ccontr)
    assume "floors ! i \<noteq> ?d ! i"
    with ge [OF i] have "unat (floors ! i) < unat (?d ! i)"
      by (simp add: word_le_nat_alt order_less_le unat_eq_iff)
    moreover have "cell_total (floors[i := ?d ! i]) \<le> cell_total ?d"
      using ge len i by (intro total_mono) (auto simp: nth_list_update)
    ultimately show False using total_update [OF i, of "?d ! i"] eq by simp
  qed
  with len show ?thesis by (simp add: list_eq_iff_nth_eq)
qed

end

lemma length_claim_cells: "length (fst (claim_cells request ws cs remaining)) = length cs"
proof (induction ws arbitrary: cs remaining)
  case (Cons w ws)
  show ?case
  proof (cases cs)
    case (Cons c cs')
    with Cons.IH [of cs'] show ?thesis
      by (cases "request (primary_constraint w)") (simp_all add: Let_def split_beta)
  qed simp
qed simp

lemma length_fold_updates [simp]: "length (fold (\<lambda>(i, w) cs. cs[i := f i w cs]) pairs cs) = length cs"
  by (induction pairs arbitrary: cs) auto

lemma length_compute_share [simp]: "length (compute_share_cell_counts weights available) = length weights"
  by (auto simp: compute_share_cell_counts_def share_flexible_cells_def Let_def length_claim_cells
      dest!: arg_cong [where f = "\<lambda>p. length (fst p)"] split: prod.splits)

lemma distribute_shape:
  assumes "weights \<noteq> []"
  shows "\<exists>cs. distribute_axis_cells weights floors available =
            clamp_cell_counts_to_floors cs weights floors available \<and>
          cell_total cs = unat available \<and> length cs = length weights"
proof -
  let ?shares = "repair_cell_count_sum (compute_share_cell_counts weights available) available"
  let ?preferred = "apply_preferred_cell_counts ?shares weights floors"
  have nonempty: "compute_share_cell_counts weights available \<noteq> []"
    using assms length_compute_share [of weights available] by (metis length_0_conv)
  have "cell_total ?shares = unat available" "length ?shares = length weights"
    using total_repair [OF nonempty] by simp_all
  then have len: "length ?preferred = length weights" using apply_preferred_total by blast
  then have "?preferred \<noteq> []" using assms by (metis length_0_conv)
  then have "cell_total (apply_resize_deltas ?preferred weights available) = unat available"
    "length (apply_resize_deltas ?preferred weights available) = length weights"
    unfolding apply_resize_deltas_def
    using assms len by (simp_all add: total_repair zip_eq_Nil_iff)
  then show ?thesis by (auto simp: distribute_axis_cells_def Let_def)
qed

lemma distribute_contract:
  assumes len: "length floors = length weights" and "weights \<noteq> []"
  shows "cell_total (distribute_axis_cells weights floors available) = unat available \<and>
         length (distribute_axis_cells weights floors available) = length weights \<and>
         (cell_total floors \<le> unat available \<longrightarrow>
            (\<forall>i < length weights. floors ! i \<le> distribute_axis_cells weights floors available ! i))"
proof -
  from distribute_shape [OF assms(2), of floors available] obtain cs where cs:
    "distribute_axis_cells weights floors available = clamp_cell_counts_to_floors cs weights floors available"
    "cell_total cs = unat available" "length cs = length weights" by blast
  show ?thesis
  proof (cases "cell_total floors \<le> unat available")
    case True
    with clamp_loop [OF cs(2) _ _ True, of "length cs" weights] cs len show ?thesis
      by (simp add: clamp_cell_counts_to_floors_def)
  next
    case False
    with cs show ?thesis by (simp add: clamp_cell_counts_to_floors_def)
  qed
qed

lemma distribute_none [simp]: "distribute_axis_cells [] floors available = []"
  by (simp add: distribute_axis_cells_def clamp_cell_counts_to_floors_def apply_resize_deltas_def
      apply_preferred_cell_counts_def compute_share_cell_counts_def list_flexible_child_weight_pairs_def
      List.map_filter_def repair_cell_count_sum_def)

interpretation dist: axis_distribution distribute_axis_cells
proof
  fix floors :: "u16 list" and weights :: "size_weight list" and available
  assume len: "length floors = length weights"
  show "length (distribute_axis_cells weights floors available) = length weights"
    using distribute_contract [OF len] by (cases "weights = []") auto
  show "cell_total (distribute_axis_cells weights floors available) = unat available" if "weights \<noteq> []"
    using distribute_contract [OF len that] by simp
  show "floors ! i \<le> distribute_axis_cells weights floors available ! i"
    if "cell_total floors \<le> unat available" "i < length weights" for i
    using distribute_contract [OF len] that by (cases "weights = []") auto
qed

section \<open>Shares of the whole axis\<close>

lemma claim_cells_keeps:
  "request (primary_constraint (ws ! i)) = None \<Longrightarrow> i < length cs \<Longrightarrow> length ws = length cs \<Longrightarrow>
     fst (claim_cells request ws cs remaining) ! i = cs ! i"
proof (induction ws arbitrary: cs remaining i)
  case (Cons w ws)
  then obtain c cs' where cs: "cs = c # cs'" by (cases cs) auto
  show ?case
  proof (cases i)
    case 0
    with Cons.prems cs show ?thesis by (simp add: split_beta)
  next
    case (Suc k)
    with Cons.IH [of k cs'] Cons.prems cs show ?thesis
      by (cases "request (primary_constraint w)") (simp_all add: Let_def split_beta)
  qed
qed simp

lemma claim_cells_total:
  assumes "length ws = length cs"
    and "\<And>i. i < length cs \<Longrightarrow> request (primary_constraint (ws ! i)) \<noteq> None \<Longrightarrow> cs ! i = 0"
  shows "cell_total (fst (claim_cells request ws cs remaining)) + unat (snd (claim_cells request ws cs remaining)) =
         cell_total cs + unat remaining"
  using assms
proof (induction ws cs arbitrary: remaining rule: list_induct2)
  case (Cons w ws c cs)
  have IH: "cell_total (fst (claim_cells request ws cs r)) + unat (snd (claim_cells request ws cs r)) =
      cell_total cs + unat r" for r
    using Cons.IH [of r] Cons.prems [of "Suc _"] by auto
  show ?case
  proof (cases "request (primary_constraint w)")
    case None
    then show ?thesis using IH [of remaining] by (simp add: split_beta)
  next
    case (Some requested)
    then have "c = 0" using Cons.prems [of 0] by simp
    moreover have "unat (remaining - min requested remaining) = unat remaining - unat (min requested remaining)"
      by (intro unat_sub_small) (simp add: unat_simps)
    moreover have "unat (min requested remaining) \<le> unat remaining" by (simp add: unat_simps)
    moreover have "cell_total (fst (claim_cells request (w # ws) (c # cs) remaining)) +
        unat (snd (claim_cells request (w # ws) (c # cs) remaining)) =
        unat (min requested remaining) + (cell_total cs + unat (remaining - min requested remaining))"
      using Some by (simp add: Let_def split_beta flip: IH)
    ultimately show ?thesis by simp
  qed
qed simp

text \<open>Writing distinct slots one after the other.\<close>

lemma nth_fold_updates:
  assumes "distinct (map fst pairs)" "\<forall>(i, w) \<in> set pairs. i < length cs" "j < length cs"
  shows "fold (\<lambda>(i, w) cs. cs[i := f w (cs ! i)]) pairs cs ! j =
         (case map_of pairs j of None \<Rightarrow> cs ! j | Some w \<Rightarrow> f w (cs ! j))"
  using assms
proof (induction pairs arbitrary: cs)
  case (Cons p pairs)
  obtain i w where p: "p = (i, w)" by fastforce
  have none: "map_of pairs i = None" using Cons.prems(1) p by (simp add: map_of_eq_None_iff)
  have "fold (\<lambda>(i, w) cs. cs[i := f w (cs ! i)]) pairs (cs[i := f w (cs ! i)]) ! j =
      (case map_of pairs j of None \<Rightarrow> cs[i := f w (cs ! i)] ! j | Some w' \<Rightarrow> f w' (cs[i := f w (cs ! i)] ! j))"
    using Cons.prems p by (intro Cons.IH) auto
  then show ?case
    using Cons.prems p none by (cases "j = i") (auto split: option.splits)
qed simp

lemma total_fold_updates:
  assumes "distinct (map fst pairs)" "\<forall>(i, w) \<in> set pairs. i < length cs"
    and "\<And>i w. (i, w) \<in> set pairs \<Longrightarrow> unat (f w (cs ! i)) = unat (cs ! i) + g w"
  shows "cell_total (fold (\<lambda>(i, w) cs. cs[i := f w (cs ! i)]) pairs cs) =
         cell_total cs + sum_list (map (g \<circ> snd) pairs)"
  using assms
proof (induction pairs arbitrary: cs)
  case (Cons p pairs)
  obtain i w where p: "p = (i, w)" by fastforce
  let ?cs = "cs[i := f w (cs ! i)]"
  have "cell_total (fold (\<lambda>(i, w) cs. cs[i := f w (cs ! i)]) pairs ?cs) =
      cell_total ?cs + sum_list (map (g \<circ> snd) pairs)"
    using Cons.prems p by (intro Cons.IH) (force simp: nth_list_update)+
  moreover have "cell_total ?cs = cell_total cs + g w"
    using total_update [of i cs "f w (cs ! i)"] Cons.prems p by force
  ultimately show ?case using p by (simp add: o_def)
qed simp

lemma flexible_pairs_props:
  "(i, w) \<in> set (list_flexible_child_weight_pairs weights) \<longleftrightarrow>
     i < length weights \<and> get_flexible_weight (primary_constraint (weights ! i)) = Some w"
  "distinct (map fst (list_flexible_child_weight_pairs weights))"
  "sorted (map fst (list_flexible_child_weight_pairs weights))"
proof -
  let ?f = "\<lambda>(child_index, w). map_option (Pair child_index) (get_flexible_weight (primary_constraint w))"
  have eq: "map fst (List.map_filter ?f (enumerate n ws)) =
      filter (\<lambda>i. get_flexible_weight (primary_constraint (ws ! (i - n))) \<noteq> None) [n..<n + length ws]" for n ws
  proof (induction ws arbitrary: n)
    case (Cons w ws)
    have "filter (\<lambda>i. get_flexible_weight (primary_constraint ((w # ws) ! (i - n))) \<noteq> None) [Suc n..<Suc n + length ws] =
        filter (\<lambda>i. get_flexible_weight (primary_constraint (ws ! (i - Suc n))) \<noteq> None) [Suc n..<Suc n + length ws]"
      by (intro filter_cong) (auto simp: nth_Cons' )
    moreover have "[n..<n + length (w # ws)] = n # [Suc n..<Suc n + length ws]"
      by (simp add: upt_conv_Cons del: upt_Suc)
    ultimately show ?case using Cons.IH [of "Suc n"]
      by (cases "get_flexible_weight (primary_constraint w)") (simp_all add: List.map_filter_simps del: upt_Suc)
  qed (simp add: List.map_filter_simps)
  show "distinct (map fst (list_flexible_child_weight_pairs weights))"
    "sorted (map fst (list_flexible_child_weight_pairs weights))"
    by (simp_all add: list_flexible_child_weight_pairs_def eq sorted_wrt_filter)
  show "(i, w) \<in> set (list_flexible_child_weight_pairs weights) \<longleftrightarrow>
     i < length weights \<and> get_flexible_weight (primary_constraint (weights ! i)) = Some w"
    by (auto simp: list_flexible_child_weight_pairs_def set_map_filter in_set_enumerate_eq
        intro!: bexI [of _ "(i, weights ! i)"])
qed

text \<open>Flooring loses less than one cell per flexible child.\<close>

lemma floored_shares:
  assumes "sum_list ws = total_weight" "0 < total_weight"
  shows "sum_list (map (\<lambda>w. pool * w div total_weight) ws) \<le> pool"
    and "pool \<le> sum_list (map (\<lambda>w. pool * w div total_weight) ws) + length ws"
proof -
  have *: "total_weight * sum_list (map (\<lambda>w. pool * w div total_weight) vs) \<le> pool * sum_list vs \<and>
      pool * sum_list vs \<le> total_weight * (sum_list (map (\<lambda>w. pool * w div total_weight) vs) + length vs)" for vs
  proof (induction vs)
    case (Cons v vs)
    have "total_weight * (pool * v div total_weight) \<le> pool * v" by simp
    moreover have "pool * v \<le> total_weight * (pool * v div total_weight) + total_weight"
      using mult_div_mod_eq [of total_weight "pool * v"] mod_less_divisor [OF assms(2), of "pool * v"] by linarith
    ultimately show ?case using Cons unfolding list.map sum_list.Cons list.size add_mult_distrib2 by linarith
  qed simp
  from * [of ws] assms show "sum_list (map (\<lambda>w. pool * w div total_weight) ws) \<le> pool"
    "pool \<le> sum_list (map (\<lambda>w. pool * w div total_weight) ws) + length ws"
    by (metis mult.commute mult_le_cancel2)+
qed


lemma pair_le_sum: "(i, w) \<in> set pairs \<Longrightarrow> f w \<le> sum_list (map (\<lambda>p. f (snd p)) pairs)" for f :: "_ \<Rightarrow> nat"
  by (rule member_le_sum_list) (auto intro!: image_eqI [of _ _ "(i, w)"])

lemma unat_flexible_share:
  assumes "(i, w) \<in> set pairs"
  shows "unat (compute_flexible_share (unat (remaining :: u16)) (sum_list (map snd pairs)) w) =
         unat remaining * w div sum_list (map snd pairs)"
proof (cases "sum_list (map snd pairs) = 0")
  case False
  let ?W = "sum_list (map snd pairs)"
  have "w \<le> ?W" using pair_le_sum [OF assms, of "\<lambda>w. w"] by simp
  then have "unat remaining * w div ?W \<le> unat remaining * ?W div ?W" by (intro div_le_mono mult_le_mono2)
  with False have "unat remaining * w div ?W \<le> unat remaining" by simp
  then have "unat remaining * w div ?W < 65536" using unat_u16_less [of remaining] by linarith
  then show ?thesis using False by (simp add: compute_flexible_share_def unat_of_nat del: sum_list_eq_0_iff)
next
  case True
  show ?thesis unfolding compute_flexible_share_def True by simp
qed

lemma trailing_increment_total:
  assumes "distinct (map fst pairs)" "\<forall>(i, w) \<in> set pairs. i < length cs \<and> unat (cs ! i) < 65535"
  shows "cell_total (fold (\<lambda>(i, w) cs. cs[i := cs ! i + 1]) (take k (rev pairs)) cs) =
         cell_total cs + min k (length pairs)"
proof -
  let ?trailing = "take k (rev pairs)"
  have mem: "(i, w) \<in> set ?trailing \<Longrightarrow> (i, w) \<in> set pairs" for i w by (auto dest: in_set_takeD)
  have inc: "unat (c + 1) = unat c + 1" if "unat c < 65535" for c :: u16
    using that by (subst unat_add_small) simp_all
  have slots: "i < length cs" "unat (cs ! i) < 65535" if "(i, w) \<in> set ?trailing" for i w
    using assms(2) mem [OF that] by auto
  have "cell_total (fold (\<lambda>(i, w) cs. cs[i := (\<lambda>w c. c + 1) w (cs ! i)]) ?trailing cs) =
      cell_total cs + sum_list (map ((\<lambda>_. 1) \<circ> snd) ?trailing)"
  proof (rule total_fold_updates)
    show "distinct (map fst ?trailing)" using assms(1) by (metis distinct_rev distinct_take rev_map take_map)
    show "\<forall>(i, w) \<in> set ?trailing. i < length cs" using slots(1) by blast
    show "unat ((\<lambda>w c. c + 1) w (cs ! i)) = unat (cs ! i) + 1" if "(i, w) \<in> set ?trailing" for i w
      using inc slots(2) [OF that] by simp
  qed
  then show ?thesis by (simp add: o_def sum_list_triv)
qed

lemma shared_total:
  assumes "distinct (map fst pairs)" "\<forall>(i, w) \<in> set pairs. i < length cs \<and> cs ! i = 0"
  shows "cell_total (fold (\<lambda>(i, w) cs. cs[i := share w]) pairs cs) =
         cell_total cs + sum_list (map (\<lambda>p. unat (share (snd p))) pairs)"
  using total_fold_updates [of pairs cs "\<lambda>w c. share w" "\<lambda>w. unat (share w)"] assms
  by (fastforce simp: o_def)

lemma shared_nth:
  assumes "distinct (map fst pairs)" "\<forall>(i, w) \<in> set pairs. i < length cs" "(i, w) \<in> set pairs"
  shows "fold (\<lambda>(i, w) cs. cs[i := share w]) pairs cs ! i = share w"
proof -
  have "map_of pairs i = Some w" using assms(1,3) by simp
  moreover have "i < length cs" using assms(2,3) by blast
  ultimately show ?thesis by (simp add: nth_fold_updates [OF assms(1,2), where f = "\<lambda>w c. share w"])
qed

lemma share_flexible_total:
  assumes pairs: "distinct (map fst pairs)" "\<forall>(i, w) \<in> set pairs. i < length cs \<and> cs ! i = 0" "pairs \<noteq> []"
  shows "cell_total (share_flexible_cells pairs remaining cs) \<le> cell_total cs + unat remaining"
    and "0 < sum_list (map snd pairs) \<Longrightarrow>
           cell_total (share_flexible_cells pairs remaining cs) = cell_total cs + unat remaining"
proof -
  define W where "W = sum_list (map snd pairs)"
  define pool where "pool = unat remaining"
  define share where "share = compute_flexible_share pool W"
  define assigned where "assigned = sum_list (map (\<lambda>p. unat (share (snd p))) pairs)"
  define shared where "shared = fold (\<lambda>(i, w) cs. cs[i := share w]) pairs cs"
  have share: "unat (share w) = pool * w div W" if "(i, w) \<in> set pairs" for i w
    using unat_flexible_share [OF that, of remaining] by (simp add: share_def pool_def W_def)
  have assigned: "assigned = sum_list (map (\<lambda>w. pool * w div W) (map snd pairs))"
  proof -
    have "unat (share (snd p)) = ((\<lambda>w. pool * w div W) \<circ> snd) p" if "p \<in> set pairs" for p
      using share [of "fst p" "snd p"] that by simp
    then show ?thesis unfolding assigned_def map_map by (metis (mono_tags, lifting) map_cong)
  qed
  have bound: "assigned \<le> pool" "0 < W \<Longrightarrow> pool \<le> assigned + length pairs"
  proof -
    show "assigned \<le> pool"
    proof (cases "W = 0")
      case True
      show ?thesis unfolding assigned True by (simp add: o_def)
    next
      case False
      then show ?thesis unfolding assigned by (intro floored_shares(1)) (simp_all only: W_def)
    qed
    show "pool \<le> assigned + length pairs" if "0 < W"
      using floored_shares(2) [of "map snd pairs" W pool] that unfolding assigned W_def by (simp only: length_map)
  qed
  have cells: "cell_total shared = cell_total cs + assigned"
    unfolding shared_def assigned_def by (rule shared_total [OF pairs(1,2)])
  have result: "share_flexible_cells pairs remaining cs =
      fold (\<lambda>(i, w) cs. cs[i := cs ! i + 1]) (take (pool - assigned) (rev pairs)) shared"
    by (simp add: share_flexible_cells_def Let_def shared_def assigned_def share_def pool_def W_def case_prod_unfold)
  have "cell_total (share_flexible_cells pairs remaining cs) =
      cell_total shared + min (pool - assigned) (length pairs)"
  proof (cases "pool \<le> assigned")
    case False
    have "i < length shared \<and> unat (shared ! i) < 65535" if p: "(i, w) \<in> set pairs" for i w
    proof -
      have "unat (share w) \<le> assigned"
        using pair_le_sum [OF p, of "\<lambda>w. unat (share w)"] by (simp add: assigned_def)
      then have "unat (share w) < pool" using False by simp
      moreover have "shared ! i = share w"
        unfolding shared_def using pairs by (intro shared_nth p) auto
      ultimately show ?thesis
        using pairs(2) p unat_u16_less [of remaining] by (auto simp: pool_def shared_def)
    qed
    then show ?thesis unfolding result by (intro trailing_increment_total pairs(1)) blast
  qed (simp add: result)
  with cells bound show "cell_total (share_flexible_cells pairs remaining cs) \<le> cell_total cs + unat remaining"
    "0 < sum_list (map snd pairs) \<Longrightarrow>
       cell_total (share_flexible_cells pairs remaining cs) = cell_total cs + unat remaining"
    unfolding W_def [symmetric] pool_def [symmetric] by simp_all
qed

lemma claim_cells_result:
  assumes "claim_cells request ws cs remaining = (cs', remaining')" "length ws = length cs"
    and "\<And>i. i < length cs \<Longrightarrow> request (primary_constraint (ws ! i)) \<noteq> None \<Longrightarrow> cs ! i = 0"
  shows "length cs' = length cs" "cell_total cs' + unat remaining' = cell_total cs + unat remaining"
    and "\<And>i. i < length cs \<Longrightarrow> request (primary_constraint (ws ! i)) = None \<Longrightarrow> cs' ! i = cs ! i"
  using length_claim_cells [of request ws cs remaining] claim_cells_total [of ws cs request remaining] assms(3)
    claim_cells_keeps [of request ws _ cs remaining] assms(1,2) by simp_all

lemma requests_disjoint:
  "percent_request available c \<noteq> None \<Longrightarrow> fixed_request c = None"
  "get_flexible_weight c = Some w \<Longrightarrow> fixed_request c = None"
  "get_flexible_weight c = Some w \<Longrightarrow> percent_request available c = None"
  by (cases c; simp)+

lemma claimed_counts:
  assumes "claim_cells fixed_request weights (replicate (length weights) 0) available = (fixed_counts, remaining)"
    and "claim_cells (percent_request available) weights fixed_counts remaining = (claimed_counts, remaining')"
  shows "cell_total claimed_counts + unat remaining' = unat available"
    and "length claimed_counts = length weights"
    and "\<And>i w. i < length weights \<Longrightarrow> get_flexible_weight (primary_constraint (weights ! i)) = Some w \<Longrightarrow>
           claimed_counts ! i = 0"
proof -
  let ?zeros = "replicate (length weights) (0 :: u16)"
  have zeros: "cell_total ?zeros = 0" by (simp add: cell_total_def)
  have fixed: "length fixed_counts = length weights" "cell_total fixed_counts + unat remaining = unat available"
    "\<And>i. i < length weights \<Longrightarrow> fixed_request (primary_constraint (weights ! i)) = None \<Longrightarrow> fixed_counts ! i = 0"
    using claim_cells_result [OF assms(1)] zeros by simp_all
  have percent: "length claimed_counts = length fixed_counts"
    "cell_total claimed_counts + unat remaining' = cell_total fixed_counts + unat remaining"
    "\<And>i. i < length fixed_counts \<Longrightarrow> percent_request available (primary_constraint (weights ! i)) = None \<Longrightarrow>
       claimed_counts ! i = fixed_counts ! i"
    using claim_cells_result [OF assms(2)] fixed(1,3) requests_disjoint(1) by metis+
  show "cell_total claimed_counts + unat remaining' = unat available" using fixed percent by simp
  show "length claimed_counts = length weights" using fixed percent by simp
  show "claimed_counts ! i = 0"
    if "i < length weights" "get_flexible_weight (primary_constraint (weights ! i)) = Some w" for i w
    using that fixed(1) fixed(3) [OF that(1)] percent(3) [of i] requests_disjoint(2,3) by metis
qed

lemma compute_share_total:
  "cell_total (compute_share_cell_counts weights available) \<le> unat available \<and>
   ((\<exists>w \<in> set weights. \<exists>n > 0. get_flexible_weight (primary_constraint w) = Some n) \<longrightarrow>
      cell_total (compute_share_cell_counts weights available) = unat available)"
proof -
  obtain fixed_counts remaining where fixed: "claim_cells fixed_request weights (replicate (length weights) 0)
      available = (fixed_counts, remaining)" by fastforce
  obtain claimed_counts remaining' where percent: "claim_cells (percent_request available) weights fixed_counts
      remaining = (claimed_counts, remaining')" by fastforce
  note claimed = claimed_counts [OF fixed percent]
  let ?pairs = "list_flexible_child_weight_pairs weights"
  have shares: "compute_share_cell_counts weights available =
      (if ?pairs = [] then claimed_counts else share_flexible_cells ?pairs remaining' claimed_counts)"
    by (simp add: compute_share_cell_counts_def fixed percent Let_def)
  show ?thesis
  proof (cases "?pairs = []")
    case True
    then have "\<And>i w. \<not> (i < length weights \<and> get_flexible_weight (primary_constraint (weights ! i)) = Some w)"
      using flexible_pairs_props(1) by (metis list.set(1) empty_iff)
    with True shares claimed(1) show ?thesis by (auto simp: in_set_conv_nth)
  next
    case False
    have slots: "\<forall>(i, w) \<in> set ?pairs. i < length claimed_counts \<and> claimed_counts ! i = 0"
      using claimed(2,3) flexible_pairs_props(1) by auto
    have "0 < sum_list (map snd ?pairs)"
      if "\<exists>w \<in> set weights. \<exists>n > 0. get_flexible_weight (primary_constraint w) = Some n"
    proof -
      from that obtain i n where "(i, n) \<in> set ?pairs" "0 < n"
        by (metis in_set_conv_nth flexible_pairs_props(1))
      then show ?thesis using pair_le_sum [of i n ?pairs "\<lambda>n. n"] by simp
    qed
    with share_flexible_total [OF flexible_pairs_props(2) slots False, of remaining'] shares claimed(1) False
    show ?thesis by auto
  qed
qed


text \<open>
  The shares never exceed the axis, and they use it up exactly as soon as one flexible child with
  a weight above 0 is there.
\<close>

theorem compute_share_cell_counts_total:
  "cell_total (compute_share_cell_counts weights available) \<le> unat available \<and>
   ((\<exists>w \<in> set weights. \<exists>n > 0. get_flexible_weight (primary_constraint w) = Some n) \<longrightarrow>
      cell_total (compute_share_cell_counts weights available) = unat available)"
  by (rule compute_share_total)

text \<open>A percentage and a flexible child over 99 cells.\<close>

theorem compute_share_cell_counts_total_witness:
  "cell_total (compute_share_cell_counts [from_primary_constraint (Percent 30), default_size_weight] 99) = 99"
  using compute_share_cell_counts_total [of "[from_primary_constraint (Percent 30), default_size_weight]" 99]
  by (simp add: default_size_weight_def from_primary_constraint_def)

section \<open>Equal shares\<close>

lemma all_less_two: "(\<forall>i < Suc (Suc 0). P i) \<longleftrightarrow> P 0 \<and> P 1"
  by (auto simp: less_Suc_eq)


text \<open>Children without preferred targets, resize deltas or unmet floors keep their shares.\<close>

lemma distribute_plain:
  assumes "\<forall>w \<in> set weights. get_preferred_cell_count w = None \<and> resize_delta w = 0"
    and "length floors = length weights" "weights \<noteq> []"
    and shares: "cell_total (compute_share_cell_counts weights available) = unat available"
    and "\<forall>i < length weights. floors ! i \<le> compute_share_cell_counts weights available ! i"
  shows "distribute_axis_cells weights floors available = compute_share_cell_counts weights available"
proof -
  let ?s = "compute_share_cell_counts weights available"
  have fold_id: "(\<And>i. i \<in> set is \<Longrightarrow> f i x = x) \<Longrightarrow> fold f is x = x" for f :: "nat \<Rightarrow> u16 list \<Rightarrow> u16 list" and "is" x
    by (induction "is") auto
  have "apply_preferred_cell_count weights floors i ?s = ?s" if "i \<in> set [0..<length weights]" for i
  proof -
    have "get_preferred_cell_count (weights ! i) = None" using assms(1) that by (simp add: nth_mem)
    then show ?thesis by (simp add: apply_preferred_cell_count_def)
  qed
  then have preferred: "apply_preferred_cell_counts ?s weights floors = ?s"
    unfolding apply_preferred_cell_counts_def by (rule fold_id)
  have "map2 (\<lambda>c w. of_int (max 0 (min (int (unat available)) (int (unat c) + resize_delta w)))) ?s weights = ?s"
  proof (rule nth_equalityI)
    fix i assume "i < length (map2 (\<lambda>c w. of_int (max 0 (min (int (unat available)) (int (unat c) + resize_delta w))) :: u16) ?s weights)"
    then have i: "i < length weights" by simp
    then have "resize_delta (weights ! i) = 0" using assms(1) by simp
    moreover have "?s ! i \<le> available" using total_le_u16 [OF shares] i by (simp add: word_le_nat_alt)
    then have "uint (?s ! i) \<le> uint available" by (simp add: word_le_def)
    ultimately show "map2 (\<lambda>c w. of_int (max 0 (min (int (unat available)) (int (unat c) + resize_delta w)))) ?s weights ! i = ?s ! i"
      using i by simp
  qed simp
  then have resized: "apply_resize_deltas ?s weights available = ?s"
    unfolding apply_resize_deltas_def using shares by (simp add: repair_exact)
  have "clamp_cell_count_to_floor weights floors i ?s = ?s" if "i \<in> set [0..<length ?s]" for i
  proof -
    have "\<not> ?s ! i < floors ! i" using assms(5) that by (simp add: not_less)
    then show ?thesis by (simp add: clamp_cell_count_to_floor_def)
  qed
  then have clamped: "clamp_cell_counts_to_floors ?s weights floors available = ?s"
    unfolding clamp_cell_counts_to_floors_def by (subst fold_id) simp_all
  show ?thesis
    by (simp add: distribute_axis_cells_def Let_def repair_exact [OF shares] preferred resized clamped)
qed

lemma equal_pairs:
  "list_flexible_child_weight_pairs (replicate n default_size_weight) = map (\<lambda>i. (i, 1)) [0..<n]"
proof -
  have "List.map_filter (\<lambda>(i, w). map_option (Pair i) (get_flexible_weight (primary_constraint w)))
      (enumerate k (replicate n default_size_weight)) = map (\<lambda>i. (i, 1)) [k..<k + n]" for k
  proof (induction n arbitrary: k)
    case (Suc n)
    then show ?case
      by (simp add: List.map_filter_simps upt_conv_Cons default_size_weight_def from_primary_constraint_def del: upt_Suc)
  qed (simp add: List.map_filter_simps)
  from this [of 0] show ?thesis by (simp add: list_flexible_child_weight_pairs_def)
qed

lemma no_claims:
  assumes "\<And>w. w \<in> set ws \<Longrightarrow> request (primary_constraint w) = None"
  shows "claim_cells request ws cs remaining = (cs, remaining)"
  using assms
proof (induction ws arbitrary: cs)
  case (Cons w ws)
  then show ?case by (cases cs) simp_all
qed simp

lemma equal_shares_nth:
  assumes "0 < n" "j < n"
  shows "unat (compute_share_cell_counts (replicate n default_size_weight) available ! j) =
         unat available div n + (if n - unat available mod n \<le> j then 1 else 0)"
proof -
  let ?ws = "replicate n default_size_weight" and ?pool = "unat available"
  let ?pairs = "map (\<lambda>i. (i, 1 :: nat)) [0..<n]"
  let ?q = "of_nat (?pool div n) :: u16"
  have default: "primary_constraint default_size_weight = Flex 1"
    by (simp add: default_size_weight_def from_primary_constraint_def)
  have q: "unat ?q = ?pool div n"
    using unat_u16_less [of available] div_le_dividend [of ?pool n] by (simp add: unat_of_nat del: div_le_dividend)
  have W: "sum_list (map snd ?pairs) = n" by (simp add: o_def sum_list_triv)
  have share: "compute_flexible_share ?pool n 1 = ?q" using assms by (simp add: compute_flexible_share_def)
  have assigned: "sum_list (map (\<lambda>(i, w). unat (compute_flexible_share ?pool n w)) ?pairs) = ?pool - ?pool mod n"
    using share q by (simp add: o_def sum_list_triv flip: minus_mod_eq_mult_div)
  have leftover: "?pool - (?pool - ?pool mod n) = ?pool mod n" by simp
  define shared where "shared = fold (\<lambda>(i, w) cs. cs[i := compute_flexible_share ?pool n w]) ?pairs (replicate n (0 :: u16))"
  have shared: "shared ! i = ?q" if "i < n" for i
    unfolding shared_def using that share
    by (subst shared_nth [where w = 1]) (auto simp: comp_def)
  have len: "length shared = n" by (simp add: shared_def)
  have claims: "claim_cells fixed_request ?ws cs r = (cs, r)"
    "claim_cells (percent_request available) ?ws cs r = (cs, r)" for cs r
    by (rule no_claims, simp add: default)+
  have "?pairs \<noteq> []" using assms(1) by simp
  then have result: "compute_share_cell_counts ?ws available =
      fold (\<lambda>(i, w) cs. cs[i := cs ! i + 1]) (take (?pool mod n) (rev ?pairs)) shared"
    unfolding compute_share_cell_counts_def claims prod.case equal_pairs Let_def share_flexible_cells_def W
      assigned leftover shared_def length_replicate by (simp only: if_False)
  let ?trailing = "take (?pool mod n) (rev ?pairs)"
  have trailing: "?trailing = map (\<lambda>i. (i, 1)) (rev [n - ?pool mod n..<n])"
    using mod_less_divisor [OF assms(1), of ?pool] by (simp add: rev_map take_map take_rev)
  have "fold (\<lambda>(i, w) cs. cs[i := cs ! i + 1]) ?trailing shared ! j =
      (case map_of ?trailing j of None \<Rightarrow> shared ! j | Some w \<Rightarrow> shared ! j + 1)"
    unfolding trailing by (rule nth_fold_updates) (use assms len in \<open>auto simp: rev_map comp_def\<close>)
  moreover have "map_of ?trailing j = (if n - ?pool mod n \<le> j then Some 1 else None)"
  proof (cases "n - ?pool mod n \<le> j")
    case True
    then have "(j, 1) \<in> set ?trailing" using assms(2) unfolding trailing by auto
    then show ?thesis using True unfolding trailing by (simp add: map_of_eq_Some_iff rev_map comp_def)
  next
    case False
    then have "j \<notin> fst ` set ?trailing" unfolding trailing by auto
    then show ?thesis using False by (simp add: map_of_eq_None_iff)
  qed
  moreover have "unat (?q + 1) = ?pool div n + 1" if "n - ?pool mod n \<le> j"
  proof -
    have "?pool mod n \<noteq> 0" using that assms(2) by auto
    moreover have "?pool div n \<le> n * (?pool div n)" using assms(1) by simp
    ultimately have "?pool div n < 65535"
      using unat_u16_less [of available] mult_div_mod_eq [of n ?pool] by linarith
    then show ?thesis using q by (subst unat_add_small) simp_all
  qed
  ultimately show ?thesis using q shared [OF assms(2)] by (simp add: result)
qed

text \<open>
  Children of equal weight split the axis evenly: every child gets the quotient, and the
  remainder goes one cell each to the trailing children.
\<close>

theorem distribute_equal_weights:
  assumes "0 < n" "j < n" "length floors = n" "\<forall>i < n. unat (floors ! i) \<le> unat available div n"
  shows "unat (distribute_axis_cells (replicate n default_size_weight) floors available ! j) =
         unat available div n + (if n - unat available mod n \<le> j then 1 else 0)"
proof -
  let ?ws = "replicate n default_size_weight"
  have default: "get_preferred_cell_count default_size_weight = None" "resize_delta default_size_weight = 0"
    by (simp_all add: default_size_weight_def from_primary_constraint_def get_preferred_cell_count_def)
  have "get_flexible_weight (primary_constraint default_size_weight) = Some 1"
    by (simp add: default_size_weight_def from_primary_constraint_def)
  then have "cell_total (compute_share_cell_counts ?ws available) = unat available"
    using compute_share_total [of ?ws available] assms(1) by (simp add: set_replicate_conv_if)
  moreover have "floors ! i \<le> compute_share_cell_counts ?ws available ! i" if "i < n" for i
    using equal_shares_nth [OF assms(1) that, of available] assms(4) that by (simp add: word_le_nat_alt trans_le_add1)
  ultimately have "distribute_axis_cells ?ws floors available = compute_share_cell_counts ?ws available"
    using assms(1,3) default by (intro distribute_plain) auto
  then show ?thesis using equal_shares_nth [OF assms(1,2)] by simp
qed

text \<open>101 cells for two equal children: 50 and 51.\<close>

theorem distribute_equal_weights_witness:
  "unat (distribute_axis_cells (replicate 2 default_size_weight) [4, 4] 101 ! 0) = 50 \<and>
   unat (distribute_axis_cells (replicate 2 default_size_weight) [4, 4] 101 ! 1) = 51"
  using distribute_equal_weights [of 2 0 "[4, 4]" 101] distribute_equal_weights [of 2 1 "[4, 4]" 101]
  by (simp add: less_2_cases_iff)

text \<open>
  C13. The cells of an axis are distributed exactly: one count per child, the counts sum to the axis,
  and no child is below its floor whenever the floors fit.
\<close>

theorem distribute_axis_cells_exact:
  assumes "length floors = length weights" "weights \<noteq> []"
  shows "length (distribute_axis_cells weights floors available) = length weights \<and>
         cell_total (distribute_axis_cells weights floors available) = unat available \<and>
         (cell_total floors \<le> unat available \<longrightarrow>
            (\<forall>i < length weights. floors ! i \<le> distribute_axis_cells weights floors available ! i))"
  using dist.distribute_length [OF assms(1)] dist.distribute_total [OF assms]
    dist.distribute_floor [OF assms(1)] by simp

text \<open>A fixed child of 80 cells and a flexible one with a floor of 30 over 100 cells.\<close>

theorem distribute_axis_cells_exact_witness:
  "cell_total (distribute_axis_cells [from_primary_constraint (Fixed 80), default_size_weight] [4, 30] 100) = 100 \<and>
   30 \<le> distribute_axis_cells [from_primary_constraint (Fixed 80), default_size_weight] [4, 30] 100 ! 1"
  using distribute_axis_cells_exact [of "[4, 30]" "[from_primary_constraint (Fixed 80), default_size_weight]" 100]
  by (simp add: all_less_two)

end
