(* ===== verification/Solver.thy ===== *)
theory Solver
  imports Layout_Tree Distribute
begin

text \<open>
  The geometry solver (the first half of \<open>koshi-layout/src/solver.rs\<close>): a layout tree and a tab
  rectangle in, one rectangle per pane out. The accumulators the code threads through its recursion
  are the record \<open>layout_solve_state\<close>, passed along and returned extended.
\<close>

section \<open>Data\<close>

record pane_sizing =
  minimum_size :: cell_size
  gap_cell_count :: u16

definition MIN_PANE_SIZE :: cell_size where
  "MIN_PANE_SIZE = \<lparr>column_count = 2, row_count = 1\<rparr>"

definition default_pane_sizing :: pane_sizing where
  "default_pane_sizing = \<lparr>minimum_size = MIN_PANE_SIZE, gap_cell_count = 0\<rparr>"

definition PANE_BORDER_SIZE :: cell_size where
  "PANE_BORDER_SIZE = \<lparr>column_count = 2, row_count = 2\<rparr>"

record stack_header =
  header_pane_id :: pane_id
  header_rect :: rect
  member_index :: nat
  member_count :: nat

record layout_solve =
  pane_rects :: "(pane_id \<times> rect) list"
  suppressed_pane_ids :: "pane_id list"
  is_every_pane_suppressed :: bool
  stack_headers :: "stack_header list"

record layout_solve_state =
  state_pane_sizing :: pane_sizing
  state_pane_rects :: "(pane_id \<times> rect) list"
  state_suppressed_pane_ids :: "pane_id list"
  state_stack_headers :: "stack_header list"

definition from_pane_sizing :: "pane_sizing \<Rightarrow> layout_solve_state" where
  "from_pane_sizing z =
     \<lparr>state_pane_sizing = z, state_pane_rects = [], state_suppressed_pane_ids = [], state_stack_headers = []\<rparr>"

definition into_layout_solve :: "layout_solve_state \<Rightarrow> layout_solve" where
  "into_layout_solve st =
     \<lparr>pane_rects = state_pane_rects st, suppressed_pane_ids = state_suppressed_pane_ids st,
      is_every_pane_suppressed =
        (state_suppressed_pane_ids st \<noteq> [] \<and> (\<forall>(_, r) \<in> set (state_pane_rects st). is_empty r)),
      stack_headers = state_stack_headers st\<rparr>"

definition find_pane_rect :: "layout_solve \<Rightarrow> pane_id \<Rightarrow> rect option" where
  "find_pane_rect solve p = map_option snd (find (\<lambda>(q, _). q = p) (pane_rects solve))"

definition push_pane_rect :: "pane_id \<Rightarrow> rect \<Rightarrow> layout_solve_state \<Rightarrow> layout_solve_state" where
  "push_pane_rect p r st = st\<lparr>state_pane_rects := state_pane_rects st @ [(p, r)]\<rparr>"

definition push_suppressed :: "pane_id \<Rightarrow> layout_solve_state \<Rightarrow> layout_solve_state" where
  "push_suppressed p st = st\<lparr>state_suppressed_pane_ids := state_suppressed_pane_ids st @ [p]\<rparr>"

definition push_stack_header :: "stack_header \<Rightarrow> layout_solve_state \<Rightarrow> layout_solve_state" where
  "push_stack_header h st = st\<lparr>state_stack_headers := state_stack_headers st @ [h]\<rparr>"

section \<open>Minimum sizes\<close>

definition compute_border_inclusive_minimum :: "cell_size \<Rightarrow> required_size" where
  "compute_border_inclusive_minimum content_minimum_size =
     from_size_sum content_minimum_size PANE_BORDER_SIZE"

definition split_axis_and_cross_cell_counts :: "'a \<Rightarrow> 'a \<Rightarrow> bool \<Rightarrow> 'a \<times> 'a" where
  "split_axis_and_cross_cell_counts columns rows is_horizontal_split =
     (if is_horizontal_split then (columns, rows) else (rows, columns))"

definition weight_floor :: "size_weight \<Rightarrow> u16" where
  "weight_floor w =
     max (case primary_constraint w of Minimum c \<Rightarrow> c | _ \<Rightarrow> 0)
         (case minimum_cell_count w of Some c \<Rightarrow> c | None \<Rightarrow> 0)"

definition compute_child_floor :: "split_node \<Rightarrow> nat \<Rightarrow> u32 \<Rightarrow> u32" where
  "compute_child_floor split_node child_index subtree_axis_minimum =
     max subtree_axis_minimum
       (u32_of (case nth_opt (weights split_node) child_index of None \<Rightarrow> 0 | Some w \<Rightarrow> weight_floor w))"

text \<open>\<open>u32::try_from(n).unwrap_or(u32::MAX)\<close>.\<close>

definition u32_or_max :: "nat \<Rightarrow> u32" where
  "u32_or_max n = (if n < 2 ^ 32 then of_nat n else - 1)"

fun sum_child_floors ::
  "split_node \<Rightarrow> bool \<Rightarrow> required_size list \<Rightarrow> nat \<Rightarrow> u32 \<Rightarrow> u32 \<Rightarrow> u32 \<times> u32" where
  "sum_child_floors s h [] i axis cross = (axis, cross)"
| "sum_child_floors s h (m # minima) i axis cross =
     (case split_axis_and_cross_cell_counts (required_column_count m) (required_row_count m) h of
        (axis_minimum, cross_minimum) \<Rightarrow>
          sum_child_floors s h minima (Suc i) (sat_add axis (compute_child_floor s i axis_minimum))
            (max cross cross_minimum))"

definition directional_minimum_size :: "split_node \<Rightarrow> pane_sizing \<Rightarrow> required_size list \<Rightarrow> required_size" where
  "directional_minimum_size s z minima =
     (let is_horizontal_split = (direction s = Horizontal);
          gap_count = u32_or_max (length minima - 1);
          gap_cell_total = sat_mul (u32_of (gap_cell_count z)) gap_count
      in case sum_child_floors s is_horizontal_split minima 0 0 0 of
           (axis, cross) \<Rightarrow>
             (if is_horizontal_split
              then \<lparr>required_column_count = sat_add axis gap_cell_total, required_row_count = cross\<rparr>
              else \<lparr>required_column_count = cross, required_row_count = sat_add axis gap_cell_total\<rparr>))"

text \<open>The walk of \<open>compute_stack_minimum_size\<close> over the members: the widest, and the active one's rows.\<close>

fun stack_member_minima :: "nat \<Rightarrow> required_size list \<Rightarrow> nat \<Rightarrow> u32 \<Rightarrow> u32 \<Rightarrow> u32 \<times> u32" where
  "stack_member_minima active [] i columns rows = (columns, rows)"
| "stack_member_minima active (m # minima) i columns rows =
     stack_member_minima active minima (Suc i) (max columns (required_column_count m))
       (if i = active then required_row_count m else rows)"

definition stack_minimum_size :: "split_node \<Rightarrow> required_size list \<Rightarrow> required_size" where
  "stack_minimum_size s minima =
     (case stack_member_minima (get_active_child_index s) minima 0 0 0 of
        (columns, rows) \<Rightarrow>
          \<lparr>required_column_count = columns,
           required_row_count = sat_add (u32_or_max (length minima - 1)) rows\<rparr>)"

fun compute_minimum_size :: "layout_node \<Rightarrow> pane_sizing \<Rightarrow> required_size" where
  "compute_minimum_size (Pane p) z = compute_border_inclusive_minimum (minimum_size z)"
| "compute_minimum_size (Split (SplitNode d cs ws a)) z =
     (if d = Stacked then stack_minimum_size (SplitNode d cs ws a) (map (\<lambda>c. compute_minimum_size c z) cs)
      else directional_minimum_size (SplitNode d cs ws a) z (map (\<lambda>c. compute_minimum_size c z) cs))"

definition compute_stack_minimum_size :: "split_node \<Rightarrow> pane_sizing \<Rightarrow> required_size" where
  "compute_stack_minimum_size s z = stack_minimum_size s (map (\<lambda>c. compute_minimum_size c z) (children s))"

definition compute_slot_floor :: "split_node \<Rightarrow> nat \<Rightarrow> bool \<Rightarrow> pane_sizing \<Rightarrow> u32" where
  "compute_slot_floor s child_index is_horizontal_split z =
     (let child_minimum_size =
            (case nth_opt (children s) child_index of
               None \<Rightarrow> \<lparr>required_column_count = 0, required_row_count = 0\<rparr>
             | Some child \<Rightarrow> compute_minimum_size child z)
      in compute_child_floor s child_index
           (fst (split_axis_and_cross_cell_counts (required_column_count child_minimum_size)
                   (required_row_count child_minimum_size) is_horizontal_split)))"

definition is_layout_within_rect :: "layout_node \<Rightarrow> rect \<Rightarrow> pane_sizing \<Rightarrow> bool" where
  "is_layout_within_rect t r z = can_fit_inside (compute_minimum_size t z) (rect_size r)"

definition is_leaf_within_minimum :: "rect \<Rightarrow> pane_sizing \<Rightarrow> bool" where
  "is_leaf_within_minimum r z =
     can_fit_inside (compute_border_inclusive_minimum (minimum_size z)) (rect_size r)"

definition is_content_visible :: "pane_id \<Rightarrow> rect \<Rightarrow> stack_header list \<Rightarrow> bool" where
  "is_content_visible p r headers \<longleftrightarrow> \<not> is_empty r \<and> \<not> (\<exists>h \<in> set headers. header_pane_id h = p)"

section \<open>Child rectangles of a directional split\<close>

record kept_children =
  is_child_kept :: "bool list"
  kept_weights :: "size_weight list"
  kept_floors :: "u16 list"
  shared_cell_count :: u16

text \<open>
  The loop of \<open>list_kept_children\<close>: one entry per child, the weight and the floor of a kept one.
\<close>

fun keep_children ::
  "split_node \<Rightarrow> bool \<Rightarrow> pane_sizing \<Rightarrow> u16 \<Rightarrow> u16 \<Rightarrow> layout_node list \<Rightarrow> nat \<Rightarrow> bool \<Rightarrow> bool \<Rightarrow> u32 \<Rightarrow>
   (size_weight \<times> u16) option list" where
  "keep_children s h z available available_cross [] i has_kept can_keep claimed = []"
| "keep_children s h z available available_cross (c # cs) i has_kept can_keep claimed =
     (let m = compute_minimum_size c z in
      case split_axis_and_cross_cell_counts (required_column_count m) (required_row_count m) h of
        (axis_minimum, cross_minimum) \<Rightarrow>
          (let child_floor = compute_child_floor s i axis_minimum;
               leading_gap = (if has_kept then u32_of (gap_cell_count z) else 0);
               claimed_with_child = sat_add (sat_add claimed leading_gap) child_floor
           in if u32_of available_cross < cross_minimum then
                None # keep_children s h z available available_cross cs (Suc i) has_kept can_keep claimed
              else if can_keep \<and> claimed_with_child \<le> u32_of available then
                Some (weight_at (weights s) i, as_u16 child_floor) #
                  keep_children s h z available available_cross cs (Suc i) True can_keep claimed_with_child
              else None # keep_children s h z available available_cross cs (Suc i) has_kept False claimed))"

fun somes :: "'a option list \<Rightarrow> 'a list" where
  "somes [] = []"
| "somes (None # slots) = somes slots"
| "somes (Some x # slots) = x # somes slots"

definition list_kept_children :: "split_node \<Rightarrow> rect \<Rightarrow> pane_sizing \<Rightarrow> kept_children" where
  "list_kept_children s split_rect z =
     (let is_horizontal_split = (direction s = Horizontal) in
      case split_axis_and_cross_cell_counts (column_count (rect_size split_rect))
             (row_count (rect_size split_rect)) is_horizontal_split of
        (available, available_cross) \<Rightarrow>
          (let slots = keep_children s is_horizontal_split z available available_cross (children s) 0
                 False True 0;
               kept = somes slots;
               gap_cell_total = sat_mul (gap_cell_count z) (of_nat (length kept - 1))
           in \<lparr>is_child_kept = map (\<lambda>slot. slot \<noteq> None) slots, kept_weights = map fst kept,
               kept_floors = map snd kept, shared_cell_count = sat_sub available gap_cell_total\<rparr>))"

definition place_child :: "bool \<Rightarrow> rect \<Rightarrow> u16 \<Rightarrow> u16 \<Rightarrow> rect" where
  "place_child is_horizontal_split split_rect axis_offset child_cell_count =
     (if is_horizontal_split then
        from_origin_and_size
          \<lparr>column = sat_add (column (origin split_rect)) axis_offset, row = row (origin split_rect)\<rparr>
          \<lparr>column_count = child_cell_count, row_count = row_count (rect_size split_rect)\<rparr>
      else
        from_origin_and_size
          \<lparr>column = column (origin split_rect), row = sat_add (row (origin split_rect)) axis_offset\<rparr>
          \<lparr>column_count = column_count (rect_size split_rect), row_count = child_cell_count\<rparr>)"

text \<open>
  The placement loop. The kept counts are used up in order; there are as many of them as kept
  children, so the list never runs out at a kept child.
\<close>

fun place_children :: "bool \<Rightarrow> rect \<Rightarrow> u16 \<Rightarrow> bool list \<Rightarrow> u16 list \<Rightarrow> u16 \<Rightarrow> rect list" where
  "place_children h r gap [] counts axis_offset = []"
| "place_children h r gap (False # flags) counts axis_offset =
     build_empty_at_origin # place_children h r gap flags counts axis_offset"
| "place_children h r gap (True # flags) (n # counts) axis_offset =
     place_child h r axis_offset n #
       place_children h r gap flags counts (sat_add (sat_add axis_offset n) gap)"
| "place_children h r gap (True # flags) [] axis_offset = []"

definition compute_directional_child_rects :: "split_node \<Rightarrow> rect \<Rightarrow> pane_sizing \<Rightarrow> rect list" where
  "compute_directional_child_rects s split_rect z =
     (let kept = list_kept_children s split_rect z;
          child_cell_counts =
            distribute_axis_cells (kept_weights kept) (kept_floors kept) (shared_cell_count kept)
      in place_children (direction s = Horizontal) split_rect (gap_cell_count z) (is_child_kept kept)
           child_cell_counts 0)"

section \<open>Member rectangles of a stack\<close>

fun place_members :: "nat \<Rightarrow> rect \<Rightarrow> u16 \<Rightarrow> nat list \<Rightarrow> u16 \<Rightarrow> rect list" where
  "place_members active r active_row_count [] row_offset = []"
| "place_members active r active_row_count (i # indices) row_offset =
     (let member_row_count = (if i = active then active_row_count else 1)
      in from_origin_and_size \<lparr>column = column (origin r), row = row_offset\<rparr>
           \<lparr>column_count = column_count (rect_size r), row_count = member_row_count\<rparr> #
         place_members active r active_row_count indices (sat_add row_offset member_row_count))"

definition compute_stacked_child_rects :: "split_node \<Rightarrow> rect \<Rightarrow> pane_sizing \<Rightarrow> rect list" where
  "compute_stacked_child_rects s split_rect z =
     (let members = length (children s) in
      if members = 0 then []
      else if \<not> can_fit_inside (compute_stack_minimum_size s z) (rect_size split_rect) then
        replicate members build_empty_at_origin
      else
        (let header_row_count = of_nat (members - 1);
             active_row_count = row_count (rect_size split_rect) - header_row_count
         in place_members (get_active_child_index s) split_rect active_row_count [0..<members]
              (row (origin split_rect))))"

section \<open>The solve\<close>

definition suppress_layout_subtree :: "layout_node \<Rightarrow> layout_solve_state \<Rightarrow> layout_solve_state" where
  "suppress_layout_subtree n st =
     fold (\<lambda>p st. push_suppressed p (push_pane_rect p build_empty_at_origin st)) (list_leaf_pane_ids n) st"

definition emit_stack_header ::
  "layout_node \<Rightarrow> rect \<Rightarrow> nat \<Rightarrow> nat \<Rightarrow> layout_solve_state \<Rightarrow> layout_solve_state" where
  "emit_stack_header child r index members st =
     (case list_leaf_pane_ids child of
        [] \<Rightarrow> st
      | p # remaining_pane_ids \<Rightarrow>
          fold (\<lambda>q. push_pane_rect q build_empty_at_origin) remaining_pane_ids
            (push_stack_header
               \<lparr>header_pane_id = p, header_rect = r, member_index = index, member_count = members\<rparr>
               (push_pane_rect p r st)))"

fun solve_layout_node :: "layout_node \<Rightarrow> rect \<Rightarrow> layout_solve_state \<Rightarrow> layout_solve_state"
  and solve_children :: "layout_node list \<Rightarrow> rect list \<Rightarrow> layout_solve_state \<Rightarrow> layout_solve_state"
  and solve_members ::
    "layout_node list \<Rightarrow> rect list \<Rightarrow> nat \<Rightarrow> nat \<Rightarrow> nat \<Rightarrow> layout_solve_state \<Rightarrow> layout_solve_state" where
  "solve_layout_node (Pane p) r st =
     (if is_leaf_within_minimum r (state_pane_sizing st) then push_pane_rect p r st
      else push_suppressed p (push_pane_rect p build_empty_at_origin st))"
| "solve_layout_node (Split (SplitNode d cs ws a)) r st =
     (if d = Stacked then
        solve_members cs (compute_stacked_child_rects (SplitNode d cs ws a) r (state_pane_sizing st)) 0
          (get_active_child_index (SplitNode d cs ws a)) (length cs) st
      else
        solve_children cs (compute_directional_child_rects (SplitNode d cs ws a) r (state_pane_sizing st)) st)"
| "solve_children [] rs st = st"
| "solve_children (c # cs) [] st = st"
| "solve_children (c # cs) (r # rs) st =
     solve_children cs rs
       (if is_empty r then suppress_layout_subtree c st else solve_layout_node c r st)"
| "solve_members [] rs i active members st = st"
| "solve_members (c # cs) [] i active members st = st"
| "solve_members (c # cs) (r # rs) i active members st =
     solve_members cs rs (Suc i) active members
       (if is_empty r then suppress_layout_subtree c st
        else if i = active then solve_layout_node c r st
        else emit_stack_header c r i members st)"

definition solve_layout_with_sizing :: "layout_node \<Rightarrow> rect \<Rightarrow> pane_sizing \<Rightarrow> layout_solve" where
  "solve_layout_with_sizing t tab_rect z =
     into_layout_solve (solve_layout_node t tab_rect (from_pane_sizing z))"

definition solve_layout :: "layout_node \<Rightarrow> rect \<Rightarrow> layout_solve" where
  "solve_layout t tab_rect = solve_layout_with_sizing t tab_rect default_pane_sizing"

definition solve_fullscreen_pane ::
  "pane_id \<Rightarrow> bool \<Rightarrow> rect \<Rightarrow> pane_id \<Rightarrow> layout_solve_state \<Rightarrow> layout_solve_state" where
  "solve_fullscreen_pane focused is_too_small tab_rect p st =
     (if p \<noteq> focused then push_pane_rect p build_empty_at_origin st
      else if is_too_small then push_suppressed p (push_pane_rect p build_empty_at_origin st)
      else push_pane_rect p tab_rect st)"

definition solve_layout_with_mode ::
  "layout_node \<Rightarrow> layout_mode \<Rightarrow> rect \<Rightarrow> pane_sizing \<Rightarrow> layout_solve" where
  "solve_layout_with_mode t mode tab_rect z =
     (case mode of
        Tiled \<Rightarrow> solve_layout_with_sizing t tab_rect z
      | Fullscreen focused \<Rightarrow>
          if \<not> has_pane t focused then solve_layout_with_sizing t tab_rect z
          else
            (let is_too_small = (\<not> is_leaf_within_minimum tab_rect z)
             in into_layout_solve
                  (fold (solve_fullscreen_pane focused is_too_small tab_rect) (list_leaf_pane_ids t)
                     (from_pane_sizing z))))"

section \<open>The accumulators only grow\<close>

text \<open>
  Every step appends to the three lists of the state, and what it appends depends on the sizing alone.
  \<open>extend\<close> appends the lists of one state to another.
\<close>

definition extend :: "layout_solve_state \<Rightarrow> layout_solve_state \<Rightarrow> layout_solve_state" where
  "extend st new =
     st\<lparr>state_pane_rects := state_pane_rects st @ state_pane_rects new,
        state_suppressed_pane_ids := state_suppressed_pane_ids st @ state_suppressed_pane_ids new,
        state_stack_headers := state_stack_headers st @ state_stack_headers new\<rparr>"

lemmas push_defs = push_pane_rect_def push_suppressed_def push_stack_header_def

lemma extend_sel [simp]:
  "state_pane_sizing (extend st new) = state_pane_sizing st"
  "state_pane_rects (extend st new) = state_pane_rects st @ state_pane_rects new"
  "state_suppressed_pane_ids (extend st new) = state_suppressed_pane_ids st @ state_suppressed_pane_ids new"
  "state_stack_headers (extend st new) = state_stack_headers st @ state_stack_headers new"
  by (simp_all add: extend_def)

lemma from_pane_sizing_sel [simp]:
  "state_pane_sizing (from_pane_sizing z) = z" "state_pane_rects (from_pane_sizing z) = []"
  "state_suppressed_pane_ids (from_pane_sizing z) = []" "state_stack_headers (from_pane_sizing z) = []"
  by (simp_all add: from_pane_sizing_def)

lemma extend_assoc: "extend (extend st a) b = extend st (extend a b)"
  by (simp add: extend_def)

lemma extend_empty [simp]: "extend st (from_pane_sizing z) = st"
  by (simp add: extend_def)

lemma extend_from [simp]: "state_pane_sizing st = z \<Longrightarrow> extend (from_pane_sizing z) st = st"
  by (simp add: extend_def from_pane_sizing_def)

lemma push_extend:
  "push_pane_rect p r (extend st new) = extend st (push_pane_rect p r new)"
  "push_suppressed p (extend st new) = extend st (push_suppressed p new)"
  "push_stack_header h (extend st new) = extend st (push_stack_header h new)"
  by (simp_all add: extend_def push_defs)

lemma fold_extend:
  assumes "\<And>x a b. f x (extend a b) = extend a (f x b)"
  shows "fold f xs (extend st new) = extend st (fold f xs new)"
  by (induction xs arbitrary: new) (simp_all add: assms)

text \<open>What one child of a split contributes.\<close>

definition suppressed_child :: "layout_node \<Rightarrow> pane_sizing \<Rightarrow> layout_solve_state" where
  "suppressed_child c z = suppress_layout_subtree c (from_pane_sizing z)"

definition header_child :: "layout_node \<Rightarrow> rect \<Rightarrow> nat \<Rightarrow> nat \<Rightarrow> pane_sizing \<Rightarrow> layout_solve_state" where
  "header_child c r i members z = emit_stack_header c r i members (from_pane_sizing z)"

definition solved :: "layout_node \<Rightarrow> rect \<Rightarrow> pane_sizing \<Rightarrow> layout_solve_state" where
  "solved n r z = solve_layout_node n r (from_pane_sizing z)"

lemma suppress_extend: "suppress_layout_subtree c (extend st new) = extend st (suppress_layout_subtree c new)"
  unfolding suppress_layout_subtree_def by (intro fold_extend) (simp add: push_extend)

lemma emit_extend:
  "emit_stack_header c r i members (extend st new) = extend st (emit_stack_header c r i members new)"
  by (simp add: emit_stack_header_def push_extend fold_extend split: list.split)

lemma fold_push_empty:
  "fold (\<lambda>q. push_pane_rect q build_empty_at_origin) ps st =
     st\<lparr>state_pane_rects := state_pane_rects st @ map (\<lambda>q. (q, build_empty_at_origin)) ps\<rparr>"
  by (induction ps arbitrary: st) (simp_all add: push_defs)

lemma suppressed_child_sel [simp]:
  "state_pane_sizing (suppressed_child c z) = z"
  "state_pane_rects (suppressed_child c z) = map (\<lambda>p. (p, build_empty_at_origin)) (list_leaf_pane_ids c)"
  "state_suppressed_pane_ids (suppressed_child c z) = list_leaf_pane_ids c"
  "state_stack_headers (suppressed_child c z) = []"
proof -
  have "fold (\<lambda>p st. push_suppressed p (push_pane_rect p build_empty_at_origin st)) ps st =
      st\<lparr>state_pane_rects := state_pane_rects st @ map (\<lambda>p. (p, build_empty_at_origin)) ps,
         state_suppressed_pane_ids := state_suppressed_pane_ids st @ ps\<rparr>" for ps st
    by (induction ps arbitrary: st) (simp_all add: push_defs)
  then show "state_pane_sizing (suppressed_child c z) = z"
    "state_pane_rects (suppressed_child c z) = map (\<lambda>p. (p, build_empty_at_origin)) (list_leaf_pane_ids c)"
    "state_suppressed_pane_ids (suppressed_child c z) = list_leaf_pane_ids c"
    "state_stack_headers (suppressed_child c z) = []"
    by (simp_all add: suppressed_child_def suppress_layout_subtree_def)
qed

lemma header_child_sel:
  "state_pane_sizing (header_child c r i members z) = z"
  "state_suppressed_pane_ids (header_child c r i members z) = []"
  "state_pane_rects (header_child c r i members z) =
     (case list_leaf_pane_ids c of [] \<Rightarrow> []
      | p # ps \<Rightarrow> (p, r) # map (\<lambda>q. (q, build_empty_at_origin)) ps)"
  "state_stack_headers (header_child c r i members z) =
     (case list_leaf_pane_ids c of [] \<Rightarrow> []
      | p # ps \<Rightarrow> [\<lparr>header_pane_id = p, header_rect = r, member_index = i, member_count = members\<rparr>])"
  by (simp_all add: header_child_def emit_stack_header_def fold_push_empty push_defs split: list.split)

lemma suppress_sizing [simp]: "state_pane_sizing (suppress_layout_subtree c st) = state_pane_sizing st"
proof -
  have "state_pane_sizing (fold (\<lambda>p st. push_suppressed p (push_pane_rect p build_empty_at_origin st)) ps st) =
      state_pane_sizing st" for ps st
    by (induction ps arbitrary: st) (simp_all add: push_defs)
  then show ?thesis by (simp add: suppress_layout_subtree_def)
qed

lemma emit_sizing [simp]: "state_pane_sizing (emit_stack_header c r i members st) = state_pane_sizing st"
  by (simp add: emit_stack_header_def fold_push_empty push_defs split: list.split)

lemma solve_sizing [simp]:
  "state_pane_sizing (solve_layout_node n r st) = state_pane_sizing st"
  "state_pane_sizing (solve_children cs rs st) = state_pane_sizing st"
  "state_pane_sizing (solve_members cs rs i active members st) = state_pane_sizing st"
  by (induction n r st and cs rs st and cs rs i active members st
      rule: solve_layout_node_solve_children_solve_members.induct) (simp_all add: push_defs)

lemma solved_sizing [simp]: "state_pane_sizing (solved n r z) = z"
  by (simp add: solved_def)

definition child_out :: "layout_node \<Rightarrow> rect \<Rightarrow> pane_sizing \<Rightarrow> layout_solve_state" where
  "child_out c r z = (if is_empty r then suppressed_child c z else solved c r z)"

definition member_out ::
  "layout_node \<Rightarrow> rect \<Rightarrow> nat \<Rightarrow> nat \<Rightarrow> nat \<Rightarrow> pane_sizing \<Rightarrow> layout_solve_state" where
  "member_out c r i active members z =
     (if is_empty r then suppressed_child c z
      else if i = active then solved c r z
      else header_child c r i members z)"

lemma out_sizing [simp]:
  "state_pane_sizing (child_out c r z) = z" "state_pane_sizing (member_out c r i active members z) = z"
  by (simp_all add: child_out_def member_out_def header_child_sel)

lemma suppress_is_extend: "suppress_layout_subtree c st = extend st (suppressed_child c (state_pane_sizing st))"
  using suppress_extend [of c st "from_pane_sizing (state_pane_sizing st)"] by (simp add: suppressed_child_def)

lemma emit_is_extend:
  "emit_stack_header c r i members st = extend st (header_child c r i members (state_pane_sizing st))"
  using emit_extend [of c r i members st "from_pane_sizing (state_pane_sizing st)"] by (simp add: header_child_def)

lemma solve_children_extend:
  assumes "\<And>c r st. c \<in> set cs \<Longrightarrow>
             solve_layout_node c r st = extend st (solved c r (state_pane_sizing st))"
  shows "solve_children cs rs st =
         extend st (foldr extend (map2 (\<lambda>c r. child_out c r (state_pane_sizing st)) cs rs)
           (from_pane_sizing (state_pane_sizing st)))"
  using assms
proof (induction cs arbitrary: rs st)
  case (Cons c cs)
  show ?case
  proof (cases rs)
    case (Cons r rs')
    have "(if is_empty r then suppress_layout_subtree c st else solve_layout_node c r st) =
        extend st (child_out c r (state_pane_sizing st))"
      using Cons.prems by (simp add: child_out_def suppress_is_extend)
    with Cons.IH [of rs' "extend st (child_out c r (state_pane_sizing st))"] Cons Cons.prems show ?thesis
      by (simp add: extend_assoc)
  qed simp
qed simp

lemma solve_members_extend:
  assumes "\<And>c r st. c \<in> set cs \<Longrightarrow>
             solve_layout_node c r st = extend st (solved c r (state_pane_sizing st))"
  shows "solve_members cs rs i active members st =
         extend st (foldr extend
           (map (\<lambda>(j, c, r). member_out c r j active members (state_pane_sizing st)) (enumerate i (zip cs rs)))
           (from_pane_sizing (state_pane_sizing st)))"
  using assms
proof (induction cs arbitrary: rs i st)
  case (Cons c cs)
  show ?case
  proof (cases rs)
    case (Cons r rs')
    have "(if is_empty r then suppress_layout_subtree c st
           else if i = active then solve_layout_node c r st
           else emit_stack_header c r i members st) =
        extend st (member_out c r i active members (state_pane_sizing st))"
      using Cons.prems by (simp add: member_out_def suppress_is_extend emit_is_extend)
    with Cons.IH [of rs' "Suc i" "extend st (member_out c r i active members (state_pane_sizing st))"] Cons Cons.prems
    show ?thesis by (simp add: extend_assoc)
  qed simp
qed simp

lemma foldr_extend_sel:
  "state_pane_rects (foldr extend outs (from_pane_sizing z)) = concat (map state_pane_rects outs)"
  "state_suppressed_pane_ids (foldr extend outs (from_pane_sizing z)) = concat (map state_suppressed_pane_ids outs)"
  "state_stack_headers (foldr extend outs (from_pane_sizing z)) = concat (map state_stack_headers outs)"
  by (induction outs) simp_all

lemma foldr_extend_sizing:
  "(\<And>out. out \<in> set outs \<Longrightarrow> state_pane_sizing out = z) \<Longrightarrow>
     state_pane_sizing (foldr extend outs (from_pane_sizing z)) = z"
  by (cases outs) simp_all

lemma solve_is_extend: "solve_layout_node n r st = extend st (solved n r (state_pane_sizing st))"
proof (induction n arbitrary: r st rule: layout_node_induct)
  case (Pane p)
  show ?case by (simp add: solved_def extend_def from_pane_sizing_def push_defs)
next
  case (Split d cs ws a)
  have outs: "solve_children cs rs st =
      extend st (foldr extend (map2 (\<lambda>c q. child_out c q (state_pane_sizing st)) cs rs)
        (from_pane_sizing (state_pane_sizing st)))"
    "solve_members cs rs i active members st =
      extend st (foldr extend
        (map (\<lambda>(j, c, q). member_out c q j active members (state_pane_sizing st)) (enumerate i (zip cs rs)))
        (from_pane_sizing (state_pane_sizing st)))" for rs i active members st
    by (rule solve_children_extend solve_members_extend; rule Split; assumption)+
  let ?z = "state_pane_sizing st" and ?s = "SplitNode d cs ws a"
  have "state_pane_sizing (foldr extend (map2 (\<lambda>c q. child_out c q ?z) cs
          (compute_directional_child_rects ?s r ?z)) (from_pane_sizing ?z)) = ?z"
    "state_pane_sizing (foldr extend (map (\<lambda>(j, c, q). member_out c q j (get_active_child_index ?s) (length cs) ?z)
          (enumerate 0 (zip cs (compute_stacked_child_rects ?s r ?z)))) (from_pane_sizing ?z)) = ?z"
    by (rule foldr_extend_sizing; auto)+
  then show ?case
    unfolding solved_def solve_layout_node.simps outs by simp
qed

lemmas solve_children_outs = solve_children_extend [OF solve_is_extend]
lemmas solve_members_outs = solve_members_extend [OF solve_is_extend]

lemma solved_pane:
  "solved (Pane p) r z =
     (if is_leaf_within_minimum r z then push_pane_rect p r (from_pane_sizing z) else suppressed_child (Pane p) z)"
  by (simp add: solved_def suppressed_child_def suppress_layout_subtree_def)

lemma solved_directional:
  assumes "d \<noteq> Stacked"
  shows "state_pane_rects (solved (Split (SplitNode d cs ws a)) r z) =
           concat (map2 (\<lambda>c q. state_pane_rects (child_out c q z)) cs
             (compute_directional_child_rects (SplitNode d cs ws a) r z))"
    and "state_suppressed_pane_ids (solved (Split (SplitNode d cs ws a)) r z) =
           concat (map2 (\<lambda>c q. state_suppressed_pane_ids (child_out c q z)) cs
             (compute_directional_child_rects (SplitNode d cs ws a) r z))"
    and "state_stack_headers (solved (Split (SplitNode d cs ws a)) r z) =
           concat (map2 (\<lambda>c q. state_stack_headers (child_out c q z)) cs
             (compute_directional_child_rects (SplitNode d cs ws a) r z))"
  using assms
  by (simp_all add: solved_def solve_children_outs foldr_extend_sel o_def case_prod_unfold)

text \<open>The outputs of the members of a stack, in order.\<close>

definition member_outs :: "split_node \<Rightarrow> rect \<Rightarrow> pane_sizing \<Rightarrow> layout_solve_state list" where
  "member_outs s r z =
     map (\<lambda>(i, c, q). member_out c q i (get_active_child_index s) (length (children s)) z)
       (enumerate 0 (zip (children s) (compute_stacked_child_rects s r z)))"

lemma solved_stack:
  "state_pane_rects (solved (Split (SplitNode Stacked cs ws a)) r z) =
     concat (map state_pane_rects (member_outs (SplitNode Stacked cs ws a) r z))"
  "state_suppressed_pane_ids (solved (Split (SplitNode Stacked cs ws a)) r z) =
     concat (map state_suppressed_pane_ids (member_outs (SplitNode Stacked cs ws a) r z))"
  "state_stack_headers (solved (Split (SplitNode Stacked cs ws a)) r z) =
     concat (map state_stack_headers (member_outs (SplitNode Stacked cs ws a) r z))"
  by (simp_all add: solved_def solve_members_outs foldr_extend_sel member_outs_def)

lemma solve_layout_with_sizing_sel:
  "pane_rects (solve_layout_with_sizing t r z) = state_pane_rects (solved t r z)"
  "suppressed_pane_ids (solve_layout_with_sizing t r z) = state_suppressed_pane_ids (solved t r z)"
  "stack_headers (solve_layout_with_sizing t r z) = state_stack_headers (solved t r z)"
  by (simp_all add: solve_layout_with_sizing_def into_layout_solve_def solved_def)

section \<open>Every leaf once, in order\<close>

text \<open>A child's minimum along and across the axis of its split.\<close>

definition axis_minimum :: "bool \<Rightarrow> pane_sizing \<Rightarrow> layout_node \<Rightarrow> u32" where
  "axis_minimum h z c =
     (if h then required_column_count (compute_minimum_size c z) else required_row_count (compute_minimum_size c z))"

definition cross_minimum :: "bool \<Rightarrow> pane_sizing \<Rightarrow> layout_node \<Rightarrow> u32" where
  "cross_minimum h z c =
     (if h then required_row_count (compute_minimum_size c z) else required_column_count (compute_minimum_size c z))"

lemma axis_and_cross:
  "split_axis_and_cross_cell_counts (required_column_count (compute_minimum_size c z))
     (required_row_count (compute_minimum_size c z)) h = (axis_minimum h z c, cross_minimum h z c)"
  by (simp add: split_axis_and_cross_cell_counts_def axis_minimum_def cross_minimum_def)

definition claimed_with :: "split_node \<Rightarrow> bool \<Rightarrow> pane_sizing \<Rightarrow> bool \<Rightarrow> nat \<Rightarrow> layout_node \<Rightarrow> u32 \<Rightarrow> u32" where
  "claimed_with s h z has_kept i c claimed =
     sat_add (sat_add claimed (if has_kept then u32_of (gap_cell_count z) else 0))
       (compute_child_floor s i (axis_minimum h z c))"

lemma keep_children_Cons:
  "keep_children s h z available cross (c # cs) i has_kept can_keep claimed =
     (if u32_of cross < cross_minimum h z c then
        None # keep_children s h z available cross cs (Suc i) has_kept can_keep claimed
      else if can_keep \<and> claimed_with s h z has_kept i c claimed \<le> u32_of available then
        Some (weight_at (weights s) i, as_u16 (compute_child_floor s i (axis_minimum h z c))) #
          keep_children s h z available cross cs (Suc i) True can_keep (claimed_with s h z has_kept i c claimed)
      else None # keep_children s h z available cross cs (Suc i) has_kept False claimed)"
  unfolding keep_children.simps Let_def axis_and_cross prod.case claimed_with_def ..

declare keep_children.simps(2) [simp del]

lemma length_keep_children [simp]:
  "length (keep_children s h z available cross cs i has_kept can_keep claimed) = length cs"
  by (induction cs arbitrary: i has_kept can_keep claimed) (simp_all add: keep_children_Cons)

lemma length_place_children:
  "length (somes slots) = length counts \<Longrightarrow>
     length (place_children h r gap (map (\<lambda>slot. slot \<noteq> None) slots) counts off) = length slots"
proof (induction slots arbitrary: counts off)
  case (Cons slot slots)
  then show ?case by (cases slot; cases counts) auto
qed simp

text \<open>The slots the solver keeps, and the counts it hands them.\<close>

definition slots_of :: "split_node \<Rightarrow> rect \<Rightarrow> pane_sizing \<Rightarrow> (size_weight \<times> u16) option list" where
  "slots_of s r z =
     (let h = (direction s = Horizontal) in
      case split_axis_and_cross_cell_counts (column_count (rect_size r)) (row_count (rect_size r)) h of
        (available, cross) \<Rightarrow> keep_children s h z available cross (children s) 0 False True 0)"

definition counts_of :: "split_node \<Rightarrow> rect \<Rightarrow> pane_sizing \<Rightarrow> u16 list" where
  "counts_of s r z =
     distribute_axis_cells (kept_weights (list_kept_children s r z)) (kept_floors (list_kept_children s r z))
       (shared_cell_count (list_kept_children s r z))"

lemma list_kept_children_sel:
  "is_child_kept (list_kept_children s r z) = map (\<lambda>slot. slot \<noteq> None) (slots_of s r z)"
  "kept_weights (list_kept_children s r z) = map fst (somes (slots_of s r z))"
  "kept_floors (list_kept_children s r z) = map snd (somes (slots_of s r z))"
  by (simp_all add: list_kept_children_def slots_of_def Let_def split: prod.split)

lemma length_slots_of [simp]: "length (slots_of s r z) = length (children s)"
  by (simp add: slots_of_def Let_def split: prod.split)

lemma length_counts_of: "length (counts_of s r z) = length (somes (slots_of s r z))"
  by (simp add: counts_of_def list_kept_children_sel dist.distribute_length)

lemma directional_rects_eq:
  "compute_directional_child_rects s r z =
     place_children (direction s = Horizontal) r (gap_cell_count z) (map (\<lambda>slot. slot \<noteq> None) (slots_of s r z))
       (counts_of s r z) 0"
  by (simp add: compute_directional_child_rects_def counts_of_def list_kept_children_sel Let_def)

lemma length_directional_rects [simp]: "length (compute_directional_child_rects s r z) = length (children s)"
  by (simp add: directional_rects_eq length_place_children length_counts_of del: not_None_eq)

lemma length_place_members [simp]: "length (place_members active r rows is off) = length is"
  by (induction "is" arbitrary: off) (simp_all add: Let_def)

lemma length_stacked_rects [simp]: "length (compute_stacked_child_rects s r z) = length (children s)"
  by (simp add: compute_stacked_child_rects_def Let_def)

lemma concat_map2_fst:
  assumes "length rs = length cs" "\<And>c r. c \<in> set cs \<Longrightarrow> map f (g c r) = l c"
  shows "map f (concat (map2 g cs rs)) = concat (map l cs)"
  using assms by (induction rs cs rule: list_induct2) simp_all

lemma header_child_leaves: "map fst (state_pane_rects (header_child c r i members z)) = list_leaf_pane_ids c"
  by (simp add: header_child_sel o_def split: list.split)

lemma member_outs_nth:
  assumes "i < length (children s)"
  shows "member_outs s r z ! i =
         member_out (children s ! i) (compute_stacked_child_rects s r z ! i) i (get_active_child_index s)
           (length (children s)) z"
  using assms by (simp add: member_outs_def nth_enumerate_eq)

lemma length_member_outs [simp]: "length (member_outs s r z) = length (children s)"
  by (simp add: member_outs_def)

lemma solved_leaves: "map fst (state_pane_rects (solved n r z)) = list_leaf_pane_ids n"
proof (induction n arbitrary: r rule: layout_node_induct)
  case (Pane p)
  then show ?case by (simp add: solved_pane push_defs o_def)
next
  case (Split d cs ws a)
  have child: "map fst (state_pane_rects (child_out c q z)) = list_leaf_pane_ids c" if "c \<in> set cs" for c q
    using Split [OF that] by (simp add: child_out_def o_def)
  show ?case
  proof (cases "d = Stacked")
    case False
    then show ?thesis using child by (simp add: solved_directional concat_map2_fst)
  next
    case True
    have "map fst (state_pane_rects (member_outs (SplitNode Stacked cs ws a) r z ! i)) = list_leaf_pane_ids (cs ! i)"
      if "i < length cs" for i
      using Split [of "cs ! i"] that by (auto simp: member_outs_nth member_out_def header_child_leaves o_def)
    then have "map (map fst \<circ> state_pane_rects) (member_outs (SplitNode Stacked cs ws a) r z) =
        map list_leaf_pane_ids cs"
      by (intro nth_equalityI) simp_all
    then show ?thesis using True by (simp add: solved_stack map_concat)
  qed
qed

end
