(* ===== verification/Solver_Geometry.thy ===== *)
theory Solver_Geometry
  imports Solver
begin

text \<open>
  What the solved rectangles cover: children of a split lie along its axis in order without
  overlapping, every kept child can hold its subtree, a layout that fits suppresses nothing, and the
  panes of a tab never overlap.
\<close>

section \<open>Which children are kept\<close>

lemma unat_claimed_with:
  "unat (claimed_with s h z has_kept i c claimed) =
     min (unat claimed + (if has_kept then unat (gap_cell_count z) else 0) +
          unat (compute_child_floor s i (axis_minimum h z c))) (2 ^ 32 - 1)"
  by (simp add: claimed_with_def unat_sat_add unat_u32_of min_def)

lemma saturated_le:
  "(a :: nat) < 65536 \<Longrightarrow> min x (2 ^ 32 - 1) \<le> a \<longleftrightarrow> x \<le> a"
  "(a :: nat) < 65536 \<Longrightarrow> min x (2 ^ 32 - 1) \<le> a \<Longrightarrow> min x (2 ^ 32 - 1) = x"
  by (auto simp: min_def split: if_splits)

lemma claimed_fits:
  "claimed_with s h z has_kept i c claimed \<le> u32_of available \<longleftrightarrow>
     unat claimed + (if has_kept then unat (gap_cell_count z) else 0) +
       unat (compute_child_floor s i (axis_minimum h z c)) \<le> unat available"
  "claimed_with s h z has_kept i c claimed \<le> u32_of available \<Longrightarrow>
     unat (claimed_with s h z has_kept i c claimed) =
       unat claimed + (if has_kept then unat (gap_cell_count z) else 0) +
       unat (compute_child_floor s i (axis_minimum h z c))"
  using unat_u16_less [of available]
  by (simp_all only: word_le_nat_alt unat_u32_of unat_claimed_with saturated_le)

lemma child_floor_ge: "unat m \<le> unat (compute_child_floor s i m)"
  by (simp add: compute_child_floor_def unat_simps)

text \<open>The gaps before \<open>k\<close> further children.\<close>

definition gaps :: "pane_sizing \<Rightarrow> bool \<Rightarrow> nat \<Rightarrow> nat" where
  "gaps z has_kept k = unat (gap_cell_count z) * (k - (if has_kept then 0 else 1))"

lemma gaps_Suc: "gaps z has_kept (Suc k) = (if has_kept then unat (gap_cell_count z) else 0) + gaps z True k"
  by (simp add: gaps_def)

lemma gaps_0 [simp]: "gaps z has_kept 0 = 0"
  by (simp add: gaps_def)

lemma kept_floors_fit:
  assumes "unat claimed \<le> unat (available :: u16)"
  shows "unat claimed +
         cell_total (map snd (somes
           (keep_children s h z available cross cs i has_kept can_keep claimed))) +
         gaps z has_kept (length (somes
           (keep_children s h z available cross cs i has_kept can_keep claimed))) \<le> unat available"
  using assms
proof (induction cs arbitrary: i has_kept can_keep claimed)
  case (Cons c cs)
  let ?claimed = "claimed_with s h z has_kept i c claimed"
  let ?floor = "compute_child_floor s i (axis_minimum h z c)"
  show ?case
  proof (cases "\<not> u32_of cross < cross_minimum h z c \<and> can_keep \<and> ?claimed \<le> u32_of available")
    case False
    then show ?thesis using Cons by (auto simp: keep_children_Cons)
  next
    case True
    note fit = claimed_fits [of s h z has_kept i c claimed available]
    have le: "unat ?claimed \<le> unat available" using True by (simp add: word_le_nat_alt unat_u32_of)
    have "unat ?floor < 65536" using fit(1) True unat_u16_less [of available] by linarith
    then have "unat (as_u16 ?floor) = unat ?floor" by (simp add: unat_as_u16)
    with Cons.IH [OF le, of "Suc i" True can_keep] True fit(2) show ?thesis
      by (simp add: keep_children_Cons gaps_Suc)
  qed
qed simp

text \<open>Every child keeps no slot, or one at least as large as its minimum.\<close>

lemma kept_slots_hold:
  "unat claimed \<le> unat (available :: u16) \<Longrightarrow>
   list_all2 (\<lambda>c slot. case slot of None \<Rightarrow> True
       | Some (w, f) \<Rightarrow> unat (axis_minimum h z c) \<le> unat f \<and> unat (cross_minimum h z c) \<le> unat cross)
     cs (keep_children s h z available cross cs i has_kept can_keep claimed)"
proof (induction cs arbitrary: i has_kept can_keep claimed)
  case (Cons c cs)
  let ?claimed = "claimed_with s h z has_kept i c claimed"
  let ?floor = "compute_child_floor s i (axis_minimum h z c)"
  show ?case
  proof (cases "\<not> u32_of cross < cross_minimum h z c \<and> can_keep \<and> ?claimed \<le> u32_of available")
    case False
    then show ?thesis using Cons by (auto simp: keep_children_Cons)
  next
    case True
    note fit = claimed_fits [of s h z has_kept i c claimed available]
    have le: "unat ?claimed \<le> unat available" using True by (simp add: word_le_nat_alt unat_u32_of)
    have "unat ?floor < 65536" using fit(1) True unat_u16_less [of available] by linarith
    then have "unat (as_u16 ?floor) = unat ?floor" by (simp add: unat_as_u16)
    moreover have "unat (cross_minimum h z c) \<le> unat cross"
      using True by (simp add: word_less_nat_alt unat_u32_of)
    ultimately show ?thesis
      using Cons.IH [OF le] True child_floor_ge by (simp add: keep_children_Cons)
  qed
qed simp

text \<open>All children are kept exactly when their floors and the gaps between them fit.\<close>

fun floor_sum :: "split_node \<Rightarrow> bool \<Rightarrow> pane_sizing \<Rightarrow> layout_node list \<Rightarrow> nat \<Rightarrow> nat" where
  "floor_sum s h z [] i = 0"
| "floor_sum s h z (c # cs) i =
     unat (compute_child_floor s i (axis_minimum h z c)) + floor_sum s h z cs (Suc i)"

lemma not_keeping: "None \<in> set (keep_children s h z available cross (c # cs) i has_kept False claimed)"
  by (simp add: keep_children_Cons)

lemma all_kept_iff:
  "unat claimed \<le> unat (available :: u16) \<Longrightarrow>
   None \<notin> set (keep_children s h z available cross cs i has_kept True claimed) \<longleftrightarrow>
     (\<forall>c \<in> set cs. unat (cross_minimum h z c) \<le> unat cross) \<and>
     unat claimed + floor_sum s h z cs i + gaps z has_kept (length cs) \<le> unat available"
proof (induction cs arbitrary: i has_kept claimed)
  case (Cons c cs)
  let ?claimed = "claimed_with s h z has_kept i c claimed"
  note fit = claimed_fits [of s h z has_kept i c claimed available]
  show ?case
  proof (cases "u32_of cross < cross_minimum h z c")
    case True
    then show ?thesis by (auto simp: keep_children_Cons word_less_nat_alt unat_u32_of)
  next
    case cross: False
    show ?thesis
    proof (cases "?claimed \<le> u32_of available")
      case True
      then have le: "unat ?claimed \<le> unat available" by (simp add: word_le_nat_alt unat_u32_of)
      show ?thesis
        using Cons.IH [OF le, of "Suc i" True] True cross fit(2)
        by (simp add: keep_children_Cons gaps_Suc word_less_nat_alt unat_u32_of not_less algebra_simps)
    next
      case False
      then have "\<not> unat claimed + floor_sum s h z (c # cs) i + gaps z has_kept (length (c # cs)) \<le> unat available"
        using fit(1) by (simp add: gaps_Suc)
      with False cross show ?thesis by (simp add: keep_children_Cons)
    qed
  qed
qed simp

section \<open>Minimum sizes\<close>

lemma unat_u32_or_max: "unat (u32_or_max n) = min n (2 ^ 32 - 1)"
  by (auto simp: u32_or_max_def unat_of_nat unat_max_word min_def)

lemma sum_child_floors_eq:
  assumes "sum_child_floors s h (map (\<lambda>c. compute_minimum_size c z) cs) i axis cross = (axis', cross')"
  shows "unat axis' = min (unat axis + floor_sum s h z cs i) (2 ^ 32 - 1)"
    and "unat cross' \<le> n \<longleftrightarrow> unat cross \<le> n \<and> (\<forall>c \<in> set cs. unat (cross_minimum h z c) \<le> n)"
  using assms
proof (induction cs arbitrary: i axis cross)
  case Nil
  { case 1 then show ?case using unat_u32_less [of axis] by simp }
  { case 2 then show ?case by simp }
next
  case (Cons c cs)
  { case 1
    with Cons.IH(1) [of "Suc i" "sat_add axis (compute_child_floor s i (axis_minimum h z c))"
        "max cross (cross_minimum h z c)"] show ?case
      by (simp add: axis_and_cross unat_sat_add min_def) }
  { case 2
    with Cons.IH(2) [of "Suc i" "sat_add axis (compute_child_floor s i (axis_minimum h z c))"
        "max cross (cross_minimum h z c)"] show ?case
      by (simp add: axis_and_cross unat_max) }
qed


abbreviation (input) split_horizontal :: "split_node \<Rightarrow> bool" where
  "split_horizontal s \<equiv> direction s = Horizontal"

definition axis_length :: "bool \<Rightarrow> rect \<Rightarrow> nat" where
  "axis_length h r = (if h then width_of r else height_of r)"

definition cross_length :: "bool \<Rightarrow> rect \<Rightarrow> nat" where
  "cross_length h r = (if h then height_of r else width_of r)"

lemma axis_length_less: "axis_length h r < 65536" "cross_length h r < 65536"
  by (simp_all add: axis_length_def cross_length_def measures_less)

text \<open>A subtree fits when its minimum fits along and across the axis.\<close>

lemma fits_axis_cross:
  "is_layout_within_rect c r z \<longleftrightarrow>
     unat (axis_minimum h z c) \<le> axis_length h r \<and> unat (cross_minimum h z c) \<le> cross_length h r"
  by (auto simp: is_layout_within_rect_def can_fit_inside_iff axis_minimum_def cross_minimum_def
      axis_length_def cross_length_def rect_measures)

lemma gap_total_le:
  fixes g n b :: nat
  assumes "b < 65536"
  shows "min (a + min (g * min n (2 ^ 32 - 1)) (2 ^ 32 - 1)) (2 ^ 32 - 1) \<le> b \<longleftrightarrow> a + g * n \<le> b"
proof (cases "g = 0 \<or> n \<le> 2 ^ 32 - 1")
  case True
  then have "g * min n (2 ^ 32 - 1) = g * n" by (auto simp: min_def)
  with assms show ?thesis by (auto simp: min_def split: if_splits)
next
  case False
  then have n: "2 ^ 32 - 1 < n" "1 \<le> g" by simp_all
  have "n \<le> g * n" using mult_le_mono1 [OF n(2), of n] by simp
  moreover have "b < n" using n(1) assms by simp
  ultimately have "\<not> a + g * n \<le> b" by linarith
  moreover have "1 * (2 ^ 32 - 1) \<le> g * min n (2 ^ 32 - 1)" using n by (intro mult_le_mono) simp_all
  then have "\<not> min (a + min (g * min n (2 ^ 32 - 1)) (2 ^ 32 - 1)) (2 ^ 32 - 1) \<le> b" using assms by simp
  ultimately show ?thesis by blast
qed

lemma directional_minimum:
  assumes "direction s \<noteq> Stacked"
  shows "unat (axis_minimum (split_horizontal s) z (Split s)) =
           min (floor_sum s (split_horizontal s) z (children s) 0 +
                min (unat (gap_cell_count z) * min (length (children s) - 1) (2 ^ 32 - 1)) (2 ^ 32 - 1)) (2 ^ 32 - 1)"
    and "unat (cross_minimum (split_horizontal s) z (Split s)) \<le> n \<longleftrightarrow>
           (\<forall>c \<in> set (children s). unat (cross_minimum (split_horizontal s) z c) \<le> n)"
proof -
  obtain d cs ws a where s: "s = SplitNode d cs ws a" by (cases s)
  let ?h = "d = Horizontal"
  obtain axis cross where sums:
    "sum_child_floors s ?h (map (\<lambda>c. compute_minimum_size c z) cs) 0 0 0 = (axis, cross)" by fastforce
  let ?axis = "sat_add axis (sat_mul (u32_of (gap_cell_count z)) (u32_or_max (length cs - 1)))"
  have "compute_minimum_size (Split s) z =
      (if ?h then \<lparr>required_column_count = ?axis, required_row_count = cross\<rparr>
       else \<lparr>required_column_count = cross, required_row_count = ?axis\<rparr>)"
    using assms sums by (simp add: s directional_minimum_size_def Let_def)
  then have eq: "axis_minimum ?h z (Split s) = ?axis" "cross_minimum ?h z (Split s) = cross"
    by (auto simp: axis_minimum_def cross_minimum_def)
  have "unat axis = min (floor_sum s ?h z cs 0) (2 ^ 32 - 1)"
    using sum_child_floors_eq(1) [OF sums] by simp
  then have "unat ?axis = min (floor_sum s ?h z cs 0 +
      min (unat (gap_cell_count z) * min (length cs - 1) (2 ^ 32 - 1)) (2 ^ 32 - 1)) (2 ^ 32 - 1)"
    by (simp add: unat_sat_add unat_sat_mul unat_u32_of unat_u32_or_max min_def)
  with eq s show "unat (axis_minimum (split_horizontal s) z (Split s)) =
      min (floor_sum s (split_horizontal s) z (children s) 0 +
        min (unat (gap_cell_count z) * min (length (children s) - 1) (2 ^ 32 - 1)) (2 ^ 32 - 1)) (2 ^ 32 - 1)"
    by simp
  show "unat (cross_minimum (split_horizontal s) z (Split s)) \<le> n \<longleftrightarrow>
      (\<forall>c \<in> set (children s). unat (cross_minimum (split_horizontal s) z c) \<le> n)"
    using sum_child_floors_eq(2) [OF sums] eq s by simp
qed

lemma directional_fits_iff:
  assumes "direction s \<noteq> Stacked"
  shows "is_layout_within_rect (Split s) r z \<longleftrightarrow>
           (\<forall>c \<in> set (children s). unat (cross_minimum (split_horizontal s) z c) \<le>
              cross_length (split_horizontal s) r) \<and>
           floor_sum s (split_horizontal s) z (children s) 0 + gaps z False (length (children s)) \<le>
              axis_length (split_horizontal s) r"
proof -
  have "unat (axis_minimum (split_horizontal s) z (Split s)) \<le> axis_length (split_horizontal s) r \<longleftrightarrow>
      floor_sum s (split_horizontal s) z (children s) 0 + gaps z False (length (children s)) \<le>
        axis_length (split_horizontal s) r"
    unfolding directional_minimum(1) [OF assms] gaps_def if_False
    by (rule gap_total_le [OF axis_length_less(1)])
  then show ?thesis
    using directional_minimum(2) [OF assms] fits_axis_cross [of "Split s" r z "split_horizontal s"] by blast
qed

lemma slots_of_eq:
  "slots_of s r z =
     (let h = split_horizontal s;
          available = (if h then column_count (rect_size r) else row_count (rect_size r));
          cross = (if h then row_count (rect_size r) else column_count (rect_size r))
      in keep_children s h z available cross (children s) 0 False True 0)"
  by (simp add: slots_of_def split_axis_and_cross_cell_counts_def Let_def)

lemma axis_length_unat:
  "axis_length h r = unat (if h then column_count (rect_size r) else row_count (rect_size r))"
  "cross_length h r = unat (if h then row_count (rect_size r) else column_count (rect_size r))"
  by (simp_all add: axis_length_def cross_length_def rect_measures)

lemma slots_all_kept:
  "direction s \<noteq> Stacked \<Longrightarrow> None \<notin> set (slots_of s r z) \<longleftrightarrow> is_layout_within_rect (Split s) r z"
  by (simp add: slots_of_eq Let_def directional_fits_iff all_kept_iff axis_length_unat del: if_split)

lemma slots_hold:
  "list_all2 (\<lambda>c slot. case slot of None \<Rightarrow> True
       | Some (w, f) \<Rightarrow> unat (axis_minimum (split_horizontal s) z c) \<le> unat f \<and>
           unat (cross_minimum (split_horizontal s) z c) \<le> cross_length (split_horizontal s) r)
     (children s) (slots_of s r z)"
  unfolding slots_of_eq Let_def axis_length_unat by (rule kept_slots_hold) simp

lemma shared_cell_count_eq:
  "unat (shared_cell_count (list_kept_children s r z)) =
     axis_length (split_horizontal s) r - gaps z False (length (somes (slots_of s r z)))"
  "cell_total (map snd (somes (slots_of s r z))) +
     gaps z False (length (somes (slots_of s r z))) \<le> axis_length (split_horizontal s) r"
proof -
  let ?kept = "somes (slots_of s r z)" and ?h = "split_horizontal s"
  let ?available = "if ?h then column_count (rect_size r) else row_count (rect_size r)"
  show fit: "cell_total (map snd ?kept) + gaps z False (length ?kept) \<le> axis_length ?h r"
    using kept_floors_fit [of 0 ?available s ?h z
        "if ?h then row_count (rect_size r) else column_count (rect_size r)" "children s" 0 False True]
    by (simp add: slots_of_eq Let_def axis_length_unat del: if_split)
  have "unat (sat_mul (gap_cell_count z) (of_nat (length ?kept - 1))) = gaps z False (length ?kept)"
  proof (cases "gap_cell_count z = 0")
    case False
    then have "1 \<le> unat (gap_cell_count z)" by (simp add: Suc_leI unat_gt_0)
    then have "length ?kept - 1 \<le> gaps z False (length ?kept)" by (simp add: gaps_def)
    also have small: "gaps z False (length ?kept) < 65536"
      using fit axis_length_less(1) [of ?h r] by linarith
    finally show ?thesis using small by (simp add: unat_sat_mul unat_of_nat gaps_def)
  qed (simp add: unat_sat_mul gaps_def)
  moreover have "shared_cell_count (list_kept_children s r z) =
      sat_sub ?available (sat_mul (gap_cell_count z) (of_nat (length ?kept - 1)))"
    by (simp add: list_kept_children_def slots_of_def split_axis_and_cross_cell_counts_def Let_def)
  ultimately show "unat (shared_cell_count (list_kept_children s r z)) =
      axis_length ?h r - gaps z False (length ?kept)"
    by (simp add: unat_sat_sub axis_length_unat del: if_split)
qed

lemma counts_total:
  assumes "somes (slots_of s r z) \<noteq> []"
  shows "cell_total (counts_of s r z) + gaps z False (length (counts_of s r z)) = axis_length (split_horizontal s) r"
proof -
  have "cell_total (counts_of s r z) = unat (shared_cell_count (list_kept_children s r z))"
    unfolding counts_of_def using assms
    by (intro dist.distribute_total) (simp_all add: list_kept_children_sel)
  with shared_cell_count_eq [of s r z] show ?thesis by (simp add: length_counts_of)
qed

lemma counts_ge_floors:
  "list_all2 (\<lambda>f n. unat f \<le> unat n) (map snd (somes (slots_of s r z))) (counts_of s r z)"
proof (rule list_all2_all_nthI)
  show "length (map snd (somes (slots_of s r z))) = length (counts_of s r z)"
    by (simp add: length_counts_of)
  fix i assume "i < length (map snd (somes (slots_of s r z)))"
  then have "map snd (somes (slots_of s r z)) ! i \<le> counts_of s r z ! i"
    unfolding counts_of_def list_kept_children_sel
    using shared_cell_count_eq [of s r z] by (intro dist.distribute_floor) simp_all
  then show "unat (map snd (somes (slots_of s r z)) ! i) \<le> unat (counts_of s r z ! i)"
    by (simp add: word_le_nat_alt)
qed


section \<open>Children along an axis\<close>

definition axis_start :: "bool \<Rightarrow> rect \<Rightarrow> nat" where
  "axis_start h r = (if h then left_of r else top_of r)"

definition cross_start :: "bool \<Rightarrow> rect \<Rightarrow> nat" where
  "cross_start h r = (if h then top_of r else left_of r)"

lemmas axis_measures = axis_start_def axis_length_def cross_start_def cross_length_def

lemma cells_axis:
  "(x, y) \<in> cells r \<longleftrightarrow>
     axis_start h r \<le> (if h then x else y) \<and> (if h then x else y) < axis_start h r + axis_length h r \<and>
     cross_start h r \<le> (if h then y else x) \<and> (if h then y else x) < cross_start h r + cross_length h r"
  by (auto simp: cells_def axis_measures)

text \<open>
  A row of rectangles inside \<open>r\<close>, from position \<open>start\<close> on: each is empty, or spans \<open>r\<close> across the axis
  and lies behind the ones before it. A tight row leaves no cell between them and ends with \<open>r\<close>.
\<close>

fun in_row :: "bool \<Rightarrow> rect \<Rightarrow> nat \<Rightarrow> rect list \<Rightarrow> bool" where
  "in_row h r start [] = True"
| "in_row h r start (q # qs) \<longleftrightarrow>
     q = build_empty_at_origin \<and> in_row h r start qs \<or>
     start \<le> axis_start h q \<and> axis_start h q + axis_length h q \<le> axis_start h r + axis_length h r \<and>
     cross_start h q = cross_start h r \<and> cross_length h q = cross_length h r \<and>
     in_row h r (axis_start h q + axis_length h q) qs"

fun tight_row :: "bool \<Rightarrow> rect \<Rightarrow> nat \<Rightarrow> rect list \<Rightarrow> bool" where
  "tight_row h r start [] \<longleftrightarrow> start = axis_start h r + axis_length h r"
| "tight_row h r start (q # qs) \<longleftrightarrow>
     axis_start h q = start \<and> cross_start h q = cross_start h r \<and> cross_length h q = cross_length h r \<and>
     tight_row h r (start + axis_length h q) qs"

lemma in_row_cells:
  "in_row h r start qs \<Longrightarrow> q \<in> set qs \<Longrightarrow> (x, y) \<in> cells q \<Longrightarrow>
     start \<le> (if h then x else y) \<and> (if h then x else y) < axis_start h r + axis_length h r \<and>
     cross_start h r \<le> (if h then y else x) \<and> (if h then y else x) < cross_start h r + cross_length h r"
proof (induction qs arbitrary: start)
  case (Cons p qs)
  show ?case
  proof (cases "p = build_empty_at_origin")
    case True
    with Cons have row: "in_row h r start qs \<or> in_row h r (axis_start h p + axis_length h p) qs \<and>
        start \<le> axis_start h p" and q: "q \<in> set qs" by auto
    from row Cons.IH [OF _ q Cons.prems(3)] show ?thesis by fastforce
  next
    case False
    with Cons.prems(1) have p: "start \<le> axis_start h p"
      "axis_start h p + axis_length h p \<le> axis_start h r + axis_length h r"
      "cross_start h p = cross_start h r" "cross_length h p = cross_length h r"
      "in_row h r (axis_start h p + axis_length h p) qs" by simp_all
    show ?thesis
    proof (cases "q = p")
      case True
      with p Cons.prems(3) cells_axis [of x y p h] show ?thesis by auto
    next
      case False
      with Cons.prems(2) have "q \<in> set qs" by simp
      from Cons.IH [OF p(5) this Cons.prems(3)] p(1) show ?thesis by auto
    qed
  qed
qed simp

lemma in_row_inside:
  assumes "in_row h r (axis_start h r) qs" "q \<in> set qs"
  shows "cells q \<subseteq> cells r"
proof
  fix xy assume "xy \<in> cells q"
  moreover obtain x y where "xy = (x, y)" by fastforce
  ultimately show "xy \<in> cells r" using in_row_cells [OF assms] cells_axis [of x y r h] by simp
qed

lemma in_row_disjoint:
  "in_row h r start qs \<Longrightarrow> i < j \<Longrightarrow> j < length qs \<Longrightarrow> cells (qs ! i) \<inter> cells (qs ! j) = {}"
proof (induction qs arbitrary: start i j)
  case (Cons p qs)
  show ?case
  proof (cases i)
    case (Suc k)
    then obtain l where j: "j = Suc l" "k < l" "l < length qs" using Cons.prems by (cases j) auto
    obtain start' where "in_row h r start' qs" using Cons.prems(1) by auto
    from Cons.IH [OF this j(2,3)] show ?thesis using Suc j by simp
  next
    case 0
    show ?thesis
    proof (cases "p = build_empty_at_origin")
      case False
      then have row: "in_row h r (axis_start h p + axis_length h p) qs" using Cons.prems(1) by simp
      have "qs ! (j - 1) \<in> set qs" using Cons.prems 0 by auto
      from in_row_cells [OF row this] cells_axis [of _ _ p h] show ?thesis
        using Cons.prems(2) 0 by (fastforce simp: nth_Cons')
    qed (simp add: 0)
  qed
qed simp

lemma tight_row_covers:
  "tight_row h r start qs \<Longrightarrow> start \<le> (if h then x else y) \<Longrightarrow>
   (if h then x else y) < axis_start h r + axis_length h r \<Longrightarrow>
   cross_start h r \<le> (if h then y else x) \<Longrightarrow> (if h then y else x) < cross_start h r + cross_length h r \<Longrightarrow>
     \<exists>q \<in> set qs. (x, y) \<in> cells q"
proof (induction qs arbitrary: start)
  case (Cons q qs)
  show ?case
  proof (cases "(if h then x else y) < start + axis_length h q")
    case True
    then have "(x, y) \<in> cells q" using Cons.prems cells_axis [of x y q h] by simp
    then show ?thesis by simp
  next
    case False
    with Cons.prems Cons.IH [of "start + axis_length h q"] show ?thesis by (simp only: tight_row.simps list.set) auto
  qed
qed (simp add: not_less [symmetric] del: not_less)


lemma place_child_size [simp]:
  "axis_length h (place_child h r off n) = unat n" "cross_length h (place_child h r off n) = cross_length h r"
  by (simp_all add: place_child_def axis_measures) (simp_all add: rect_measures)

lemma place_child_start:
  "axis_start h r + unat off < 65536 \<Longrightarrow> axis_start h (place_child h r off n) = axis_start h r + unat off"
  "cross_start h (place_child h r off n) = cross_start h r"
  by (auto simp: place_child_def axis_measures unat_sat_add) (simp_all add: rect_measures)

lemma place_child_nonempty: "0 < unat n \<Longrightarrow> 0 < cross_length h r \<Longrightarrow> \<not> is_empty (place_child h r off n)"
  using place_child_size [of h r off n] by (auto simp: is_empty_iff axis_length_def cross_length_def split: if_splits)

lemma in_row_empty: "in_row h r start (replicate n build_empty_at_origin)"
  by (induction n) simp_all

lemma place_no_counts:
  "somes slots = [] \<Longrightarrow>
     place_children h r gap (map (\<lambda>slot. slot \<noteq> None) slots) counts off = replicate (length slots) build_empty_at_origin"
proof (induction slots)
  case (Cons slot slots)
  then show ?case by (cases slot) simp_all
qed simp

lemma next_offset:
  fixes off n gap :: u16
  assumes "unat off + unat n + unat gap < 65536"
  shows "unat (sat_add (sat_add off n) gap) = unat off + unat n + unat gap"
  using assms by (simp add: unat_sat_add)

lemma place_children_in_row:
  assumes "length counts = length (somes slots)"
    and "axis_start h r + axis_length h r \<le> 65535"
    and "counts \<noteq> [] \<Longrightarrow>
           unat off + cell_total counts + unat gap * (length counts - 1) \<le> axis_length h r"
    and "start \<le> axis_start h r + unat off"
  shows "in_row h r start (place_children h r gap (map (\<lambda>slot. slot \<noteq> None) slots) counts off)"
  using assms(1,3,4)
proof (induction slots arbitrary: counts off start)
  case (Cons slot slots)
  show ?case
  proof (cases slot)
    case None
    with Cons.IH [of counts off start] Cons.prems show ?thesis by simp
  next
    case (Some wf)
    with Cons.prems(1) obtain n rest where counts: "counts = n # rest" by (cases counts) auto
    with Cons.prems(2) have fit: "unat off + (unat n + cell_total rest) + unat gap * length rest \<le> axis_length h r"
      by simp
    have off: "axis_start h r + unat off < 65536" using fit assms(2) by linarith
    let ?off = "sat_add (sat_add off n) gap"
    have "in_row h r (axis_start h r + unat off + unat n)
        (place_children h r gap (map (\<lambda>slot. slot \<noteq> None) slots) rest ?off)"
    proof (cases rest)
      case Nil
      then show ?thesis using Some counts Cons.prems(1) by (simp add: place_no_counts in_row_empty del: not_None_eq)
    next
      case (Cons m rest')
      then have "unat off + unat n + unat gap + (cell_total rest + unat gap * (length rest - 1)) \<le> axis_length h r"
        using fit by simp
      moreover from this have "unat ?off = unat off + unat n + unat gap"
        using axis_length_less(1) [of h r] by (intro next_offset) linarith
      ultimately show ?thesis
        using Some counts Cons.prems(1) Cons.IH [of rest ?off "axis_start h r + unat off + unat n"] by simp
    qed
    then show ?thesis
      using Some counts Cons.prems(3) place_child_start(1) [OF off, of n] place_child_start(2) [of h r off n] fit
      by simp
  qed
qed simp

lemma place_children_tight:
  assumes "length counts = length slots" "None \<notin> set slots" "slots \<noteq> []"
    and "axis_start h r + axis_length h r \<le> 65535"
    and "unat off + cell_total counts = axis_length h r"
  shows "tight_row h r (axis_start h r + unat off)
           (place_children h r 0 (map (\<lambda>slot. slot \<noteq> None) slots) counts off)"
  using assms(1,2,5)
proof (induction slots arbitrary: counts off)
  case Nil
  then show ?case by simp
next
  case (Cons slot slots)
  then obtain n rest wf where counts: "counts = n # rest" and slot: "slot = Some wf" by (cases counts; cases slot) auto
  have fit: "unat off + (unat n + cell_total rest) = axis_length h r" using Cons.prems counts by simp
  have off: "axis_start h r + unat off < 65536" using fit assms(4) by linarith
  let ?off = "sat_add (sat_add off n) 0"
  have "unat ?off = unat off + unat n"
    using next_offset [of off n 0] fit axis_length_less(1) [of h r] by simp
  with Cons.IH [of rest ?off] Cons.prems counts fit place_child_start(1) [OF off, of n] slot
    place_child_start(2) [of h r off n]
  show ?case by (simp add: add.assoc)
qed

text \<open>The rectangles of a directional split's children.\<close>

lemma directional_in_row:
  assumes "within_grid r"
  shows "in_row (split_horizontal s) r (axis_start (split_horizontal s) r) (compute_directional_child_rects s r z)"
  unfolding directional_rects_eq
proof (rule place_children_in_row)
  show "length (counts_of s r z) = length (somes (slots_of s r z))" by (rule length_counts_of)
  show "axis_start (split_horizontal s) r + axis_length (split_horizontal s) r \<le> 65535"
    using assms by (simp add: axis_measures within_grid_def)
  show "unat 0 + cell_total (counts_of s r z) + unat (gap_cell_count z) * (length (counts_of s r z) - 1) \<le>
      axis_length (split_horizontal s) r" if "counts_of s r z \<noteq> []"
    using counts_total [of s r z] that length_counts_of [of s r z] by (fastforce simp: gaps_def)
qed simp

lemma length_somes_all: "None \<notin> set slots \<Longrightarrow> length (somes slots) = length slots"
proof (induction slots)
  case (Cons slot slots)
  then show ?case by (cases slot) auto
qed simp

lemma directional_tight:
  assumes "within_grid r" "direction s \<noteq> Stacked" "children s \<noteq> []" "gap_cell_count z = 0"
    "is_layout_within_rect (Split s) r z"
  shows "tight_row (split_horizontal s) r (axis_start (split_horizontal s) r) (compute_directional_child_rects s r z)"
proof -
  let ?h = "split_horizontal s"
  have kept: "None \<notin> set (slots_of s r z)" using slots_all_kept assms(2,5) by blast
  then have len: "length (counts_of s r z) = length (slots_of s r z)"
    by (simp add: length_counts_of length_somes_all)
  then have "somes (slots_of s r z) \<noteq> []"
    using assms(3) length_counts_of [of s r z] by fastforce
  from counts_total [OF this] have total: "cell_total (counts_of s r z) = axis_length ?h r"
    using assms(4) by (simp add: gaps_def)
  have "slots_of s r z \<noteq> []" using assms(3) length_slots_of [of s r z] by fastforce
  moreover have "axis_start ?h r + axis_length ?h r \<le> 65535"
    using assms(1) by (simp add: axis_measures within_grid_def)
  ultimately show ?thesis
    using place_children_tight [OF len kept, of ?h r 0] total unfolding directional_rects_eq assms(4) by simp
qed

text \<open>Every child gets no cell, or a rectangle its subtree fits into.\<close>

lemma place_children_hold:
  assumes "list_all2 (\<lambda>c slot. case slot of None \<Rightarrow> True
             | Some (w, f) \<Rightarrow> unat (axis_minimum h z c) \<le> unat f \<and> unat (cross_minimum h z c) \<le> cross_length h r)
           cs slots"
    and "list_all2 (\<lambda>f n. unat f \<le> unat n) (map snd (somes slots)) counts"
  shows "list_all2 (\<lambda>(c, slot) q. (slot = None \<longrightarrow> q = build_empty_at_origin) \<and>
             (slot \<noteq> None \<longrightarrow> is_layout_within_rect c q z))
           (zip cs slots) (place_children h r gap (map (\<lambda>slot. slot \<noteq> None) slots) counts off)"
  using assms
proof (induction cs slots arbitrary: counts off rule: list_all2_induct)
  case (Cons c cs slot slots)
  show ?case
  proof (cases slot)
    case None
    then show ?thesis using Cons.IH [of counts off] Cons.prems by simp
  next
    case (Some wf)
    obtain w f where wf: "wf = (w, f)" by fastforce
    with Some Cons.prems obtain n rest where counts: "counts = n # rest" "unat f \<le> unat n"
      "list_all2 (\<lambda>f n. unat f \<le> unat n) (map snd (somes slots)) rest"
      by (auto simp: list_all2_Cons1)
    have "is_layout_within_rect c (place_child h r off n) z"
      using Cons.hyps(1) counts(2) Some wf by (simp add: fits_axis_cross [where h = h])
    with Cons.IH [OF counts(3)] Some wf counts(1) show ?thesis by simp
  qed
qed simp

lemma directional_holds:
  "list_all2 (\<lambda>(c, slot) q. (slot = None \<longrightarrow> q = build_empty_at_origin) \<and>
       (slot \<noteq> None \<longrightarrow> is_layout_within_rect c q z))
     (zip (children s) (slots_of s r z)) (compute_directional_child_rects s r z)"
  unfolding directional_rects_eq by (rule place_children_hold [OF slots_hold counts_ge_floors])

lemma directional_nth:
  assumes "i < length (children s)"
  shows "slots_of s r z ! i = None \<and> compute_directional_child_rects s r z ! i = build_empty_at_origin \<or>
         slots_of s r z ! i \<noteq> None \<and> is_layout_within_rect (children s ! i) (compute_directional_child_rects s r z ! i) z"
  using list_all2_nthD [OF directional_holds [of z s r], of i] assms by (cases "slots_of s r z ! i") auto

lemma directional_all_hold:
  assumes "direction s \<noteq> Stacked" "is_layout_within_rect (Split s) r z" "i < length (children s)"
  shows "is_layout_within_rect (children s ! i) (compute_directional_child_rects s r z ! i) z"
proof -
  have "None \<notin> set (slots_of s r z)" using slots_all_kept assms by blast
  then have "slots_of s r z ! i \<noteq> None" using assms(3) by (metis length_slots_of nth_mem)
  with directional_nth [OF assms(3), of r z] show ?thesis by blast
qed

lemma directional_drops:
  assumes "direction s \<noteq> Stacked" "\<not> is_layout_within_rect (Split s) r z"
  shows "\<exists>i < length (children s). compute_directional_child_rects s r z ! i = build_empty_at_origin"
proof -
  have "None \<in> set (slots_of s r z)" using slots_all_kept assms by blast
  then obtain i where "i < length (children s)" "slots_of s r z ! i = None"
    by (metis in_set_conv_nth length_slots_of)
  with directional_nth show ?thesis by blast
qed

section \<open>Members of a stack\<close>

lemma stack_member_minima_eq:
  assumes "stack_member_minima active (map (\<lambda>c. compute_minimum_size c z) cs) i columns rows = (columns', rows')"
  shows "unat columns' \<le> n \<longleftrightarrow> unat columns \<le> n \<and>
           (\<forall>c \<in> set cs. unat (required_column_count (compute_minimum_size c z)) \<le> n)"
    and "rows' = (if i \<le> active \<and> active < i + length cs
                  then required_row_count (compute_minimum_size (cs ! (active - i)) z) else rows)"
  using assms
proof (induction cs arbitrary: i columns rows)
  case Nil
  { case 1 then show ?case by simp }
  { case 2 then show ?case by auto }
next
  case (Cons c cs)
  { case 1 with Cons.IH(1) [of "Suc i"] show ?case by (simp add: unat_max) }
  { case 2
    then have rows': "rows' = (if Suc i \<le> active \<and> active < Suc i + length cs
        then required_row_count (compute_minimum_size (cs ! (active - Suc i)) z)
        else if i = active then required_row_count (compute_minimum_size c z) else rows)"
      using Cons.IH(2) [of "Suc i"] by simp
    show ?case
    proof (cases "i = active")
      case False
      then show ?thesis using rows' by (cases "i < active") (simp_all add: nth_Cons')
    qed (simp add: rows') }
qed

lemma active_in_range: "children s \<noteq> [] \<Longrightarrow> get_active_child_index s < length (children s)"
  by (cases "children s") (auto simp: get_active_child_index_def)

lemma stack_fits_iff:
  assumes "children s \<noteq> []"
  shows "can_fit_inside (compute_stack_minimum_size s z) (rect_size r) \<longleftrightarrow>
           (\<forall>c \<in> set (children s). unat (required_column_count (compute_minimum_size c z)) \<le> width_of r) \<and>
           (length (children s) - 1) +
             unat (required_row_count (compute_minimum_size (children s ! get_active_child_index s) z)) \<le> height_of r"
proof -
  obtain columns rows where m:
    "stack_member_minima (get_active_child_index s) (map (\<lambda>c. compute_minimum_size c z) (children s)) 0 0 0 =
     (columns, rows)" by fastforce
  have rows: "rows = required_row_count (compute_minimum_size (children s ! get_active_child_index s) z)"
    using stack_member_minima_eq(2) [OF m] active_in_range [OF assms] by simp
  have columns: "unat columns \<le> width_of r \<longleftrightarrow>
      (\<forall>c \<in> set (children s). unat (required_column_count (compute_minimum_size c z)) \<le> width_of r)"
    using stack_member_minima_eq(1) [OF m] by simp
  have "height_of r < 65536" by (rule measures_less)
  then have "unat (sat_add (u32_or_max (length (children s) - 1)) rows) \<le> height_of r \<longleftrightarrow>
      (length (children s) - 1) + unat rows \<le> height_of r"
    by (auto simp: unat_sat_add unat_u32_or_max min_def split: if_splits)
  with rows columns m show ?thesis
    by (simp add: can_fit_inside_iff compute_stack_minimum_size_def stack_minimum_size_def flip: width_of_def height_of_def)
qed

lemma stack_layout_fits:
  "direction s = Stacked \<Longrightarrow>
     is_layout_within_rect (Split s) r z \<longleftrightarrow> can_fit_inside (compute_stack_minimum_size s z) (rect_size r)"
  by (cases s) (simp add: is_layout_within_rect_def compute_stack_minimum_size_def)

lemma place_members_sizes:
  "i < length is \<Longrightarrow> width_of (place_members active r rows is off ! i) = width_of r \<and>
     left_of (place_members active r rows is off ! i) = left_of r \<and>
     height_of (place_members active r rows is off ! i) = (if is ! i = active then unat rows else 1)"
proof (induction "is" arbitrary: off i)
  case (Cons j "is")
  then show ?case by (cases i) (simp_all add: Let_def, simp_all add: rect_measures)
qed simp

definition member_rows :: "nat \<Rightarrow> u16 \<Rightarrow> nat list \<Rightarrow> nat" where
  "member_rows active rows is = sum_list (map (\<lambda>i. if i = active then unat rows else 1) is)"

lemma place_members_tight:
  assumes "top_of r + height_of r \<le> 65535" "unat off + member_rows active rows is = top_of r + height_of r"
  shows "tight_row False r (unat off) (place_members active r rows is off)"
  using assms(2)
proof (induction "is" arbitrary: off)
  case Nil
  then show ?case by (simp add: member_rows_def axis_measures)
next
  case (Cons i "is")
  let ?rows = "if i = active then rows else 1"
  have sum: "unat off + (unat ?rows + member_rows active rows is) = top_of r + height_of r"
    using Cons.prems by (cases "i = active") (simp_all add: member_rows_def)
  then have "unat off + unat ?rows < 65536" using assms(1) by linarith
  then have "unat (sat_add off ?rows) = unat off + unat ?rows" by (simp add: unat_sat_add)
  with Cons.IH [of "sat_add off ?rows"] sum show ?case
    by (simp add: Let_def axis_measures) (simp add: rect_measures)
qed

lemma member_rows_upt:
  "active < n \<Longrightarrow> member_rows active rows [0..<n] = unat rows + (n - 1)"
proof (induction n)
  case (Suc n)
  have "member_rows active rows [0..<n] = n" if "active \<ge> n"
    using that by (induction n) (simp_all add: member_rows_def)
  with Suc show ?case by (cases "active = n") (simp_all add: member_rows_def)
qed simp

lemma tight_in_row:
  "tight_row h r start qs \<Longrightarrow> in_row h r start qs \<and> start \<le> axis_start h r + axis_length h r"
proof (induction qs arbitrary: start)
  case (Cons q qs)
  then have "in_row h r (start + axis_length h q) qs \<and> start + axis_length h q \<le> axis_start h r + axis_length h r"
    by simp
  with Cons.prems show ?case by simp
qed simp

text \<open>The shape of a stack's member rectangles when the stack fits.\<close>

lemma stacked_rects_fit:
  assumes "children s \<noteq> []" "can_fit_inside (compute_stack_minimum_size s z) (rect_size r)"
  defines "rects \<equiv> compute_stacked_child_rects s r z"
  shows "within_grid r \<Longrightarrow> tight_row False r (top_of r) rects"
    and "i < length (children s) \<Longrightarrow> width_of (rects ! i) = width_of r \<and>
           (i \<noteq> get_active_child_index s \<longrightarrow> height_of (rects ! i) = 1)"
    and "is_layout_within_rect (children s ! get_active_child_index s) (rects ! get_active_child_index s) z"
proof -
  let ?n = "length (children s)" and ?a = "get_active_child_index s"
  let ?rows = "row_count (rect_size r) - of_nat (?n - 1)"
  note fit = stack_fits_iff [OF assms(1), of z r, THEN iffD1, OF assms(2)]
  have a: "?a < ?n" by (rule active_in_range [OF assms(1)])
  have n: "?n - 1 \<le> height_of r" using fit by simp
  then have "?n - 1 < 65536" using measures_less(4) [of r] by linarith
  then have rows: "unat ?rows = height_of r - (?n - 1)"
    using n unfolding height_of_def by (simp add: unat_sub_of_nat)
  have rects: "rects = place_members ?a r ?rows [0..<?n] (row (origin r))"
    using assms by (simp add: rects_def compute_stacked_child_rects_def Let_def)
  show "tight_row False r (top_of r) rects" if "within_grid r"
    unfolding rects using that rows n place_members_tight [of r "row (origin r)" ?a ?rows "[0..<?n]"]
      member_rows_upt [OF a, of ?rows] by (simp add: within_grid_def flip: top_of_def)
  show "width_of (rects ! i) = width_of r \<and> (i \<noteq> ?a \<longrightarrow> height_of (rects ! i) = 1)" if "i < ?n" for i
    using that place_members_sizes [of i "[0..<?n]" ?a r ?rows "row (origin r)"] by (simp add: rects)
  have "width_of (rects ! ?a) = width_of r" "height_of (rects ! ?a) = height_of r - (?n - 1)"
    using a place_members_sizes [of ?a "[0..<?n]" ?a r ?rows "row (origin r)"] rows by (simp_all add: rects)
  moreover have "unat (required_row_count (compute_minimum_size (children s ! ?a) z)) \<le> height_of r - (?n - 1)"
    using fit by linarith
  ultimately show "is_layout_within_rect (children s ! ?a) (rects ! ?a) z"
    using fit a nth_mem by (auto simp: is_layout_within_rect_def can_fit_inside_iff simp flip: width_of_def height_of_def)
qed

lemma stacked_rects_too_small:
  "\<not> can_fit_inside (compute_stack_minimum_size s z) (rect_size r) \<Longrightarrow> i < length (children s) \<Longrightarrow>
     compute_stacked_child_rects s r z ! i = build_empty_at_origin"
  by (auto simp: compute_stacked_child_rects_def Let_def)

lemma stacked_in_row:
  assumes "within_grid r"
  shows "in_row False r (top_of r) (compute_stacked_child_rects s r z)"
proof (cases "children s = [] \<or> \<not> can_fit_inside (compute_stack_minimum_size s z) (rect_size r)")
  case True
  then show ?thesis
    by (auto simp: compute_stacked_child_rects_def Let_def in_row_empty)
next
  case False
  with stacked_rects_fit(1) assms show ?thesis using tight_in_row by blast
qed

section \<open>A layout that fits suppresses nothing\<close>

lemma populated_minimum:
  "populated t \<Longrightarrow> 2 \<le> unat (required_column_count (compute_minimum_size t z)) \<and>
     2 \<le> unat (required_row_count (compute_minimum_size t z))"
proof (induction t rule: layout_node_induct)
  case (Pane p)
  then show ?case by (simp add: compute_border_inclusive_minimum_def PANE_BORDER_SIZE_def)
next
  case (Split d cs ws a)
  let ?s = "SplitNode d cs ws a" and ?t = "Split (SplitNode d cs ws a)"
  have child: "2 \<le> unat (axis_minimum h z c)" "2 \<le> unat (cross_minimum h z c)" if "c \<in> set cs" for c h
    using Split that by (auto simp: axis_minimum_def cross_minimum_def)
  have nonempty: "cs \<noteq> []" using Split.prems by simp
  then obtain c cs' where cs: "cs = c # cs'" by (cases cs) auto
  show ?case
  proof (cases "d = Stacked")
    case False
    let ?h = "d = Horizontal"
    have "\<not> unat (cross_minimum ?h z ?t) \<le> 1"
      using directional_minimum(2) [of ?s z 1] child(2) [of c ?h] False cs by auto
    moreover have "2 \<le> floor_sum ?s ?h z cs 0"
      using child(1) [of c ?h] child_floor_ge [of "axis_minimum ?h z c" ?s 0] by (simp add: cs)
    then have "2 \<le> unat (axis_minimum ?h z ?t)"
      using directional_minimum(1) [of ?s z] False by simp
    ultimately show ?thesis by (cases ?h) (simp_all add: axis_minimum_def cross_minimum_def del: compute_minimum_size.simps)
  next
    case True
    let ?a = "get_active_child_index ?s"
    obtain columns rows where m:
      "stack_member_minima ?a (map (\<lambda>c. compute_minimum_size c z) cs) 0 0 0 = (columns, rows)" by fastforce
    have a: "cs ! ?a \<in> set cs" "?a < length cs" using active_in_range [of ?s] nonempty by simp_all
    have "rows = required_row_count (compute_minimum_size (cs ! ?a) z)"
      using stack_member_minima_eq(2) [OF m] a by simp
    then have "2 \<le> unat rows" using child(1) [OF a(1), of False] by (simp add: axis_minimum_def)
    moreover have "\<not> unat columns \<le> 1"
      using stack_member_minima_eq(1) [OF m, of 1] child(1) [OF a(1), of True] a(1) by (force simp: axis_minimum_def)
    ultimately show ?thesis
      using m True by (simp add: stack_minimum_size_def unat_sat_add)
  qed
qed

lemma fits_nonempty: "populated t \<Longrightarrow> is_layout_within_rect t r z \<Longrightarrow> \<not> is_empty r"
  using populated_minimum [of t z]
  by (auto simp: is_layout_within_rect_def can_fit_inside_iff is_empty_iff rect_measures)

lemma concat_eq_Nil: "concat xss = [] \<longleftrightarrow> (\<forall>i < length xss. xss ! i = [])"
  by (simp add: all_set_conv_all_nth)

lemma child_out_suppressed:
  "populated c \<Longrightarrow> state_suppressed_pane_ids (child_out c q z) = [] \<longleftrightarrow>
     \<not> is_empty q \<and> state_suppressed_pane_ids (solved c q z) = []"
  by (simp add: child_out_def populated_leaves)

lemma solved_suppressed_iff:
  "populated t \<Longrightarrow> state_suppressed_pane_ids (solved t r z) = [] \<longleftrightarrow> is_layout_within_rect t r z"
proof (induction t arbitrary: r rule: layout_node_induct)
  case (Pane p)
  then show ?case
    by (simp add: solved_pane push_defs is_leaf_within_minimum_def is_layout_within_rect_def)
next
  case (Split d cs ws a)
  let ?s = "SplitNode d cs ws a"
  have child: "populated (cs ! i)" "state_suppressed_pane_ids (solved (cs ! i) q z) = [] \<longleftrightarrow>
      is_layout_within_rect (cs ! i) q z" if "i < length cs" for i q
    using Split that by simp_all
  show ?case
  proof (cases "d = Stacked")
    case False
    let ?rects = "compute_directional_child_rects ?s r z"
    have "state_suppressed_pane_ids (solved (Split ?s) r z) = [] \<longleftrightarrow>
        (\<forall>i < length cs. \<not> is_empty (?rects ! i) \<and> is_layout_within_rect (cs ! i) (?rects ! i) z)"
      using False child by (simp add: solved_directional concat_eq_Nil child_out_suppressed del: concat_eq_Nil_conv)
    moreover have "\<forall>i < length cs. \<not> is_empty (?rects ! i) \<and> is_layout_within_rect (cs ! i) (?rects ! i) z"
      if fit: "is_layout_within_rect (Split ?s) r z"
    proof (intro allI impI)
      fix i assume i: "i < length cs"
      have "is_layout_within_rect (cs ! i) (?rects ! i) z"
        using directional_all_hold [of ?s r z i] False fit i by simp
      with fits_nonempty [OF child(1) [OF i]]
      show "\<not> is_empty (?rects ! i) \<and> is_layout_within_rect (cs ! i) (?rects ! i) z" by blast
    qed
    moreover have "\<exists>i < length cs. is_empty (?rects ! i)" if "\<not> is_layout_within_rect (Split ?s) r z"
      using directional_drops [of ?s r z] False that by auto
    ultimately show ?thesis by blast
  next
    case True
    let ?rects = "compute_stacked_child_rects ?s r z" and ?a = "get_active_child_index ?s"
    have nonempty: "cs \<noteq> []" using Split.prems by simp
    have outs: "state_suppressed_pane_ids (solved (Split ?s) r z) = [] \<longleftrightarrow>
        (\<forall>i < length cs. state_suppressed_pane_ids (member_outs ?s r z ! i) = [])"
      using True by (simp add: solved_stack concat_eq_Nil del: concat_eq_Nil_conv)
    have member: "state_suppressed_pane_ids (member_outs ?s r z ! i) = [] \<longleftrightarrow>
        \<not> is_empty (?rects ! i) \<and> (i = ?a \<longrightarrow> is_layout_within_rect (cs ! i) (?rects ! i) z)" if "i < length cs" for i
      using child [OF that] that by (auto simp: member_outs_nth member_out_def header_child_sel populated_leaves)
    show ?thesis
    proof (cases "can_fit_inside (compute_stack_minimum_size ?s z) (rect_size r)")
      case fit: True
      note rects = stacked_rects_fit [of ?s z r, OF _ fit]
      have "\<not> is_empty (?rects ! i)" if "i < length cs" for i
      proof (cases "i = ?a")
        case True
        then show ?thesis using rects(3) nonempty child(1) [OF that] fits_nonempty by auto
      next
        case False
        have "is_layout_within_rect (Split ?s) r z" using stack_layout_fits [of ?s] True fit by simp
        then have "width_of r \<noteq> 0" using fits_nonempty [OF Split.prems] by (simp add: is_empty_iff)
        then show ?thesis using rects(2) [of i] False that nonempty by (simp add: is_empty_iff)
      qed
      then show ?thesis
        using outs member rects(3) nonempty stack_layout_fits [of ?s] True fit by auto
    next
      case False
      have "0 < length cs" using nonempty by simp
      moreover have "is_empty (?rects ! 0)" using stacked_rects_too_small [OF False] nonempty by simp
      ultimately show ?thesis using outs member stack_layout_fits [of ?s] True False by auto
    qed
  qed
qed


section \<open>Panes never overlap\<close>

text \<open>Rectangles that lie inside \<open>r\<close> and are pairwise disjoint.\<close>

definition separated :: "rect \<Rightarrow> rect list \<Rightarrow> bool" where
  "separated r qs \<longleftrightarrow> (\<forall>q \<in> set qs. cells q \<subseteq> cells r) \<and> sorted_wrt (\<lambda>p q. cells p \<inter> cells q = {}) qs"

lemma separated_empty: "(\<forall>q \<in> set qs. cells q = {}) \<Longrightarrow> separated r qs"
  by (auto simp: separated_def sorted_wrt_iff_nth_less)

lemma separated_concat:
  assumes "separated r qs" "length qss = length qs" "\<And>i. i < length qs \<Longrightarrow> separated (qs ! i) (qss ! i)"
  shows "separated r (concat qss)"
  using assms(2,1,3)
proof (induction qss qs rule: list_induct2)
  case Nil
  then show ?case by (simp add: separated_def)
next
  case (Cons ps pss q qs)
  from Cons.prems(2) [of 0] have ps: "separated q ps" by simp
  from Cons.prems(1) have q: "cells q \<subseteq> cells r" "separated r qs" "\<forall>p \<in> set qs. cells q \<inter> cells p = {}"
    by (simp_all add: separated_def)
  have rest: "separated r (concat pss)" using Cons.IH [OF q(2)] Cons.prems(2) [of "Suc _"] by auto
  have inside: "\<exists>q' \<in> set qs. cells p \<subseteq> cells q'" if "p \<in> set (concat pss)" for p
  proof -
    from that obtain ps' where "ps' \<in> set pss" "p \<in> set ps'" by auto
    then obtain i where i: "i < length pss" "p \<in> set (pss ! i)" by (metis in_set_conv_nth)
    with Cons.prems(2) [of "Suc i"] Cons.hyps have "cells p \<subseteq> cells (qs ! i)" by (auto simp: separated_def)
    with i Cons.hyps show ?thesis by auto
  qed
  have "cells p \<inter> cells p' = {}" if p: "p \<in> set ps" and p': "p' \<in> set (concat pss)" for p p'
  proof -
    from inside [OF p'] obtain q' where q': "q' \<in> set qs" "cells p' \<subseteq> cells q'" by blast
    moreover have "cells p \<subseteq> cells q" using ps p by (simp add: separated_def)
    ultimately show ?thesis using q(3) by blast
  qed
  then have "sorted_wrt (\<lambda>p q. cells p \<inter> cells q = {}) (ps @ concat pss)"
    using ps rest by (simp add: separated_def sorted_wrt_append)
  moreover have "\<forall>p \<in> set (ps @ concat pss). cells p \<subseteq> cells r"
    using ps rest q(1) unfolding separated_def set_append by blast
  ultimately show ?case by (simp add: separated_def)
qed

lemma in_row_separated: "in_row h r (axis_start h r) qs \<Longrightarrow> separated r qs"
  using in_row_inside [of h r qs] in_row_disjoint [of h r "axis_start h r" qs]
  by (auto simp: separated_def sorted_wrt_iff_nth_less)

lemma inside_within_grid: "within_grid r \<Longrightarrow> cells q \<subseteq> cells r \<Longrightarrow> \<not> is_empty q \<Longrightarrow> within_grid q"
  using cells_subset_inside [of q r] by (auto simp: is_inside_rect_iff within_grid_def)

lemma separated_self: "separated q [q]"
  by (simp add: separated_def)

lemma separated_subset: "separated q qs \<Longrightarrow> cells q \<subseteq> cells r \<Longrightarrow> separated r qs"
  by (auto simp: separated_def)

abbreviation rects_of :: "layout_solve_state \<Rightarrow> rect list" where
  "rects_of st \<equiv> map snd (state_pane_rects st)"

lemma suppressed_separated: "separated q (rects_of (suppressed_child c z))"
  by (rule separated_empty) auto

lemma header_separated: "separated q (rects_of (header_child c q i members z))"
  by (auto simp: header_child_sel separated_def sorted_wrt_iff_nth_less nth_Cons' o_def split: list.split)

text \<open>The rectangles and the outputs of a split's children, for every kind of split.\<close>

definition split_rects :: "split_node \<Rightarrow> rect \<Rightarrow> pane_sizing \<Rightarrow> rect list" where
  "split_rects s r z =
     (if direction s = Stacked then compute_stacked_child_rects s r z else compute_directional_child_rects s r z)"

definition split_out :: "split_node \<Rightarrow> rect \<Rightarrow> pane_sizing \<Rightarrow> nat \<Rightarrow> layout_solve_state" where
  "split_out s r z i =
     (let c = children s ! i; q = split_rects s r z ! i in
      if is_empty q then suppressed_child c z
      else if direction s = Stacked \<and> i \<noteq> get_active_child_index s then header_child c q i (length (children s)) z
      else solved c q z)"

lemma length_split_rects [simp]: "length (split_rects s r z) = length (children s)"
  by (simp add: split_rects_def)

lemma solved_split:
  "state_pane_rects (solved (Split s) r z) = concat (map (\<lambda>i. state_pane_rects (split_out s r z i)) [0..<length (children s)])"
  "state_stack_headers (solved (Split s) r z) =
     concat (map (\<lambda>i. state_stack_headers (split_out s r z i)) [0..<length (children s)])"
proof -
  obtain d cs ws a where s: "s = SplitNode d cs ws a" by (cases s)
  have member: "member_outs s r z = map (split_out s r z) [0..<length cs]" if "d = Stacked"
    using that by (intro nth_equalityI) (auto simp: s member_outs_nth member_out_def split_out_def split_rects_def Let_def)
  have child: "map2 (\<lambda>c q. child_out c q z) cs (compute_directional_child_rects s r z) =
      map (split_out s r z) [0..<length cs]" if "d \<noteq> Stacked"
    using that by (intro nth_equalityI) (auto simp: s child_out_def split_out_def split_rects_def Let_def)
  have outs: "map2 (\<lambda>c q. f (child_out c q z)) cs (compute_directional_child_rects s r z) =
      map (\<lambda>i. f (split_out s r z i)) [0..<length cs]" if "d \<noteq> Stacked" for f :: "layout_solve_state \<Rightarrow> 'c"
    using arg_cong [OF child [OF that], of "map f"] by (simp add: o_def case_prod_unfold)
  show "state_pane_rects (solved (Split s) r z) = concat (map (\<lambda>i. state_pane_rects (split_out s r z i)) [0..<length (children s)])"
  proof (cases "d = Stacked")
    case True
    then show ?thesis using member solved_stack(1) [of cs ws a r z] by (simp add: s o_def)
  next
    case False
    show ?thesis using outs [OF False, of state_pane_rects] solved_directional(1) [OF False, of cs ws a r z] by (simp add: s)
  qed
  show "state_stack_headers (solved (Split s) r z) =
     concat (map (\<lambda>i. state_stack_headers (split_out s r z i)) [0..<length (children s)])"
  proof (cases "d = Stacked")
    case True
    then show ?thesis using member solved_stack(3) [of cs ws a r z] by (simp add: s o_def)
  next
    case False
    show ?thesis using outs [OF False, of state_stack_headers] solved_directional(3) [OF False, of cs ws a r z] by (simp add: s)
  qed
qed

lemma split_rects_separated:
  assumes "within_grid r"
  shows "separated r (split_rects s r z)"
proof (cases "direction s = Stacked")
  case True
  then show ?thesis
    using stacked_in_row [OF assms, of s z] in_row_separated [of False r] by (simp add: split_rects_def axis_start_def)
next
  case False
  then show ?thesis using in_row_separated [OF directional_in_row [OF assms, of s z]] by (simp add: split_rects_def)
qed

lemma split_rect_inside:
  assumes "within_grid r" "i < length (children s)"
  shows "cells (split_rects s r z ! i) \<subseteq> cells r"
    and "\<not> is_empty (split_rects s r z ! i) \<Longrightarrow> within_grid (split_rects s r z ! i)"
proof -
  show inside: "cells (split_rects s r z ! i) \<subseteq> cells r"
    using split_rects_separated [OF assms(1), of s z] assms(2) by (simp add: separated_def)
  show "within_grid (split_rects s r z ! i)" if "\<not> is_empty (split_rects s r z ! i)"
    by (rule inside_within_grid [OF assms(1) inside that])
qed

lemma solved_separated: "within_grid r \<Longrightarrow> separated r (rects_of (solved t r z))"
proof (induction t arbitrary: r rule: layout_node_induct)
  case (Pane p)
  then show ?case using suppressed_separated [of r "Pane p" z] by (simp add: solved_pane push_defs separated_self)
next
  case (Split d cs ws a)
  let ?s = "SplitNode d cs ws a"
  have "separated (split_rects ?s r z ! i) (rects_of (split_out ?s r z i))" if "i < length cs" for i
    using split_rect_inside(2) [OF Split.prems, of i ?s z] that Split.IH [OF nth_mem [OF that]]
    using suppressed_separated header_separated by (auto simp add: split_out_def Let_def simp del: suppressed_child_sel)
  then have "separated r (concat (map (\<lambda>i. rects_of (split_out ?s r z i)) [0..<length cs]))"
    by (intro separated_concat [OF split_rects_separated [OF Split.prems, of ?s z]]) simp_all
  then show ?case by (simp add: solved_split map_concat o_def)
qed

section \<open>Tiling\<close>

lemma tight_row_covers_cell:
  assumes "tight_row h r (axis_start h r) qs" "xy \<in> cells r"
  obtains i where "i < length qs" "xy \<in> cells (qs ! i)"
proof -
  obtain x y where xy: "xy = (x, y)" by fastforce
  have "\<exists>q \<in> set qs. (x, y) \<in> cells q"
    using assms(2) cells_axis [of x y r h] by (intro tight_row_covers [OF assms(1)]) (auto simp: xy)
  then show thesis using that by (metis in_set_conv_nth xy)
qed

lemma split_rects_tight:
  assumes "gap_cell_count z = 0" "within_grid r" "children s \<noteq> []" "is_layout_within_rect (Split s) r z"
  obtains h where "tight_row h r (axis_start h r) (split_rects s r z)"
proof (cases "direction s = Stacked")
  case True
  then show thesis
    using that [of False] stacked_rects_fit(1) [OF assms(3) _ assms(2), of z] stack_layout_fits [OF True] assms(4)
    by (simp add: split_rects_def axis_start_def)
next
  case False
  then show thesis
    using that directional_tight [OF assms(2) False assms(3,1,4)] by (simp add: split_rects_def)
qed

text \<open>In a split that fits, every child but a collapsed stack member fits its own rectangle.\<close>

lemma split_child_fits:
  assumes "is_layout_within_rect (Split s) r z" "populated (Split s)" "i < length (children s)"
  shows "\<not> is_empty (split_rects s r z ! i)"
    and "direction s = Stacked \<and> i \<noteq> get_active_child_index s \<or>
         is_layout_within_rect (children s ! i) (split_rects s r z ! i) z"
proof -
  have pop: "populated (children s ! i)" "children s \<noteq> []" using assms(2,3) by (cases s; auto)+
  have "\<not> is_empty (split_rects s r z ! i) \<and> (direction s = Stacked \<and> i \<noteq> get_active_child_index s \<or>
      is_layout_within_rect (children s ! i) (split_rects s r z ! i) z)"
  proof (cases "direction s = Stacked \<and> i \<noteq> get_active_child_index s")
    case True
    then have fit: "can_fit_inside (compute_stack_minimum_size s z) (rect_size r)"
      using stack_layout_fits assms(1) by blast
    have "width_of r \<noteq> 0" using fits_nonempty [OF assms(2,1)] by (simp add: is_empty_iff)
    with stacked_rects_fit(2) [OF pop(2) fit assms(3)] True show ?thesis
      by (simp add: split_rects_def is_empty_iff)
  next
    case False
    have "is_layout_within_rect (children s ! i) (split_rects s r z ! i) z"
    proof (cases "direction s = Stacked")
      case True
      then show ?thesis
        using False stacked_rects_fit(3) [OF pop(2), of z r] stack_layout_fits [OF True] assms(1)
        by (simp add: split_rects_def)
    next
      case dir: False
      then show ?thesis using directional_all_hold [OF dir assms(1,3)] by (simp add: split_rects_def)
    qed
    with fits_nonempty [OF pop(1)] show ?thesis by blast
  qed
  then show "\<not> is_empty (split_rects s r z ! i)"
    "direction s = Stacked \<and> i \<noteq> get_active_child_index s \<or>
       is_layout_within_rect (children s ! i) (split_rects s r z ! i) z" by blast+
qed

lemma header_covers:
  "populated c \<Longrightarrow> (\<Union>q \<in> set (rects_of (header_child c r i members z)). cells q) = cells r"
  using populated_leaves [of c] by (cases "list_leaf_pane_ids c") (auto simp: header_child_sel)

lemma solved_covers:
  assumes "gap_cell_count z = 0"
  shows "within_grid r \<Longrightarrow> populated t \<Longrightarrow> is_layout_within_rect t r z \<Longrightarrow>
         (\<Union>q \<in> set (rects_of (solved t r z)). cells q) = cells r"
proof (induction t arbitrary: r rule: layout_node_induct)
  case (Pane p)
  then show ?case
    by (simp add: solved_pane push_defs is_leaf_within_minimum_def is_layout_within_rect_def)
next
  case (Split d cs ws a)
  let ?s = "SplitNode d cs ws a"
  have nonempty: "children ?s \<noteq> []" using Split.prems(2) by simp
  have child: "(\<Union>q \<in> set (rects_of (split_out ?s r z i)). cells q) = cells (split_rects ?s r z ! i)"
    if i: "i < length cs" for i
  proof -
    have pop: "populated (cs ! i)" using Split.prems(2) i by simp
    note ne = split_child_fits(1) [OF Split.prems(3,2), of i]
    note fit = split_child_fits(2) [OF Split.prems(3,2), of i]
    show ?thesis
      using ne fit i pop split_rect_inside(2) [OF Split.prems(1), of i ?s z] Split.IH [OF nth_mem [OF i] _ pop]
        header_covers [OF pop]
      by (auto simp: split_out_def Let_def)
  qed
  have "cells r \<subseteq> (\<Union>q \<in> set (rects_of (solved (Split ?s) r z)). cells q)"
  proof
    fix xy assume xy: "xy \<in> cells r"
    obtain h where "tight_row h r (axis_start h r) (split_rects ?s r z)"
      using split_rects_tight [OF assms Split.prems(1) nonempty Split.prems(3)] .
    from tight_row_covers_cell [OF this xy] obtain i where i: "i < length cs" "xy \<in> cells (split_rects ?s r z ! i)"
      by auto
    from child [OF i(1)] i(2) obtain q where "q \<in> set (rects_of (split_out ?s r z i))" "xy \<in> cells q" by blast
    then show "xy \<in> (\<Union>q \<in> set (rects_of (solved (Split ?s) r z)). cells q)"
      using i(1) by (fastforce simp: solved_split)
  qed
  moreover have "(\<Union>q \<in> set (rects_of (solved (Split ?s) r z)). cells q) \<subseteq> cells r"
    using solved_separated [OF Split.prems(1)] by (auto simp: separated_def)
  ultimately show ?case by blast
qed


section \<open>Shown content\<close>

lemma header_child_ids: "header_pane_id ` set (state_stack_headers (header_child c r i members z)) \<subseteq> set (list_leaf_pane_ids c)"
  by (cases "list_leaf_pane_ids c") (simp_all add: header_child_sel)

lemma header_child_hidden:
  "(p, q) \<in> set (state_pane_rects (header_child c r i members z)) \<Longrightarrow>
     \<not> is_content_visible p q (state_stack_headers (header_child c r i members z))"
  by (cases "list_leaf_pane_ids c") (auto simp: header_child_sel is_content_visible_def)

lemma header_ids_leaves: "header_pane_id ` set (state_stack_headers (solved t r z)) \<subseteq> set (list_leaf_pane_ids t)"
proof (induction t arbitrary: r rule: layout_node_induct)
  case (Pane p)
  then show ?case by (simp add: solved_pane push_defs)
next
  case (Split d cs ws a)
  let ?s = "SplitNode d cs ws a"
  have "header_pane_id ` set (state_stack_headers (split_out ?s r z i)) \<subseteq> set (list_leaf_pane_ids (cs ! i))"
    if "i < length cs" for i
    using Split [OF nth_mem [OF that]] header_child_ids by (simp add: split_out_def Let_def)
  then show ?case by (fastforce simp: solved_split)
qed

lemma split_out_leaves: "map fst (state_pane_rects (split_out s r z i)) = list_leaf_pane_ids (children s ! i)"
  by (simp add: split_out_def Let_def solved_leaves header_child_leaves o_def)

lemma split_out_ids: "header_pane_id ` set (state_stack_headers (split_out s r z i)) \<subseteq> set (list_leaf_pane_ids (children s ! i))"
  using header_ids_leaves header_child_ids by (simp add: split_out_def Let_def)

lemma split_entry:
  assumes "(p, q) \<in> set (state_pane_rects (solved (Split s) r z))"
  obtains i where "i < length (children s)" "(p, q) \<in> set (state_pane_rects (split_out s r z i))"
    "p \<in> set (list_leaf_pane_ids (children s ! i))"
proof -
  from assms obtain i where i: "i < length (children s)" "(p, q) \<in> set (state_pane_rects (split_out s r z i))"
    by (auto simp: solved_split)
  from i(2) have "p \<in> set (map fst (state_pane_rects (split_out s r z i)))" by force
  then have "p \<in> set (list_leaf_pane_ids (children s ! i))" by (simp only: split_out_leaves)
  with i show thesis by (rule that)
qed

text \<open>Whatever the space, content is only ever shown in a rectangle that holds the pane's minimum.\<close>

lemma shown_content_minimum:
  "(p, q) \<in> set (state_pane_rects (solved t r z)) \<Longrightarrow> is_content_visible p q (state_stack_headers (solved t r z)) \<Longrightarrow>
     is_leaf_within_minimum q z"
proof (induction t arbitrary: r rule: layout_node_induct)
  case (Pane p')
  then show ?case by (auto simp: solved_pane push_defs is_content_visible_def split: if_splits)
next
  case (Split d cs ws a)
  let ?s = "SplitNode d cs ws a"
  from Split.prems(1) obtain i where i: "i < length cs" "(p, q) \<in> set (state_pane_rects (split_out ?s r z i))"
    by (rule split_entry) simp
  with Split.prems(2) have vis: "is_content_visible p q (state_stack_headers (split_out ?s r z i))"
    by (fastforce simp: solved_split is_content_visible_def)
  then have "\<not> is_empty q" by (simp add: is_content_visible_def)
  then show ?case
    using Split.IH [OF nth_mem [OF i(1)]] i(2) vis header_child_hidden
    by (auto simp: split_out_def Let_def split: if_splits)
qed

lemma distinct_children:
  assumes "distinct (concat (map f cs))" "i < length cs" "j < length cs" "p \<in> set (f (cs ! i))" "p \<in> set (f (cs ! j))"
  shows "i = j"
  using assms
proof (induction cs arbitrary: i j)
  case (Cons c cs)
  have "p \<in> set (concat (map f cs)) " if "k < length cs" "p \<in> set (f (cs ! k))" for k using that by auto
  with Cons show ?case by (cases i; cases j) auto
qed simp

lemma position_child:
  assumes "distinct (concat (map list_leaf_pane_ids cs))" "i < length cs" "p \<in> set (list_leaf_pane_ids (cs ! i))"
  shows "position (\<lambda>c. has_pane c p) cs = Some i"
proof (rule position_SomeI)
  show "\<not> has_pane (cs ! j) p" if "j < i" for j
    using distinct_children [OF assms(1,2) _ assms(3), of j] that assms(2) by (auto simp: has_pane_iff)
qed (use assms in \<open>simp_all add: has_pane_iff\<close>)

lemma collapsed_child:
  assumes "distinct (list_leaf_pane_ids (Split s))" "i < length (children s)" "p \<in> set (list_leaf_pane_ids (children s ! i))"
  shows "is_pane_collapsed (Split s) p [] \<longleftrightarrow>
         direction s = Stacked \<and> i \<noteq> get_active_child_index s \<or> is_pane_collapsed (children s ! i) p []"
  using assms position_child [of "children s" i p]
  by (cases s) (auto simp: leaves_split get_shown_child_index_def)

lemma distinct_concat_nth: "distinct (concat xss) \<Longrightarrow> i < length xss \<Longrightarrow> distinct (xss ! i)"
  by (induction xss arbitrary: i) (auto simp: nth_Cons')

lemma shown_iff_not_collapsed:
  "populated t \<Longrightarrow> distinct (list_leaf_pane_ids t) \<Longrightarrow> is_layout_within_rect t r z \<Longrightarrow>
   (p, q) \<in> set (state_pane_rects (solved t r z)) \<Longrightarrow>
     is_content_visible p q (state_stack_headers (solved t r z)) \<longleftrightarrow> \<not> is_pane_collapsed t p []"
proof (induction t arbitrary: r rule: layout_node_induct)
  case (Pane p')
  then show ?case
    using fits_nonempty [OF Pane(1,3)]
    by (auto simp: solved_pane push_defs is_content_visible_def is_leaf_within_minimum_def is_layout_within_rect_def)
next
  case (Split d cs ws a)
  let ?s = "SplitNode d cs ws a"
  from Split.prems(4) obtain i where i: "i < length cs" "(p, q) \<in> set (state_pane_rects (split_out ?s r z i))"
    and p: "p \<in> set (list_leaf_pane_ids (cs ! i))" by (rule split_entry) simp
  have dist: "distinct (concat (map list_leaf_pane_ids cs))" using Split.prems(2) by simp
  have other: "p \<notin> header_pane_id ` set (state_stack_headers (split_out ?s r z j))" if "j < length cs" "j \<noteq> i" for j
    using split_out_ids [of ?s r z j] distinct_children [OF dist i(1) that(1) p] that(2) by auto
  then have vis: "is_content_visible p q (state_stack_headers (solved (Split ?s) r z)) \<longleftrightarrow>
      is_content_visible p q (state_stack_headers (split_out ?s r z i))"
    using i(1) by (fastforce simp: solved_split is_content_visible_def)
  have pop: "populated (cs ! i)" "distinct (list_leaf_pane_ids (cs ! i))"
    using Split.prems(1) i(1) distinct_concat_nth [OF dist, of i] by simp_all
  note ne = split_child_fits(1) [OF Split.prems(3,1), of i]
  note fit = split_child_fits(2) [OF Split.prems(3,1), of i]
  have collapsed: "is_pane_collapsed (Split ?s) p [] \<longleftrightarrow>
      d = Stacked \<and> i \<noteq> get_active_child_index ?s \<or> is_pane_collapsed (cs ! i) p []"
    using collapsed_child [OF Split.prems(2), of i p] i(1) p by (simp del: is_pane_collapsed.simps)
  show ?case
  proof (cases "d = Stacked \<and> i \<noteq> get_active_child_index ?s")
    case True
    then have "split_out ?s r z i = header_child (cs ! i) (split_rects ?s r z ! i) i (length cs) z"
      using ne i(1) by (auto simp: split_out_def Let_def)
    with True i(2) header_child_hidden show ?thesis unfolding vis collapsed by auto
  next
    case False
    then have out: "split_out ?s r z i = solved (cs ! i) (split_rects ?s r z ! i) z"
      using ne i(1) by (auto simp: split_out_def Let_def)
    moreover have "is_layout_within_rect (cs ! i) (split_rects ?s r z ! i) z" using fit False i(1) by simp
    ultimately show ?thesis
      using Split.IH [OF nth_mem [OF i(1)] pop] i(2) False unfolding vis collapsed by auto
  qed
qed


section \<open>Fullscreen\<close>

lemma fold_fullscreen:
  "fold (solve_fullscreen_pane focused is_too_small tab_rect) ps st =
     st\<lparr>state_pane_rects := state_pane_rects st @
          map (\<lambda>p. (p, if p = focused \<and> \<not> is_too_small then tab_rect else build_empty_at_origin)) ps,
        state_suppressed_pane_ids := state_suppressed_pane_ids st @
          (if is_too_small then filter (\<lambda>p. p = focused) ps else [])\<rparr>"
  by (induction ps arbitrary: st) (auto simp: solve_fullscreen_pane_def push_defs)

lemma solve_fullscreen:
  assumes "has_pane t focused"
  shows "pane_rects (solve_layout_with_mode t (Fullscreen focused) r z) =
           map (\<lambda>p. (p, if p = focused \<and> is_leaf_within_minimum r z then r else build_empty_at_origin))
             (list_leaf_pane_ids t)"
    and "stack_headers (solve_layout_with_mode t (Fullscreen focused) r z) = []"
    and "suppressed_pane_ids (solve_layout_with_mode t (Fullscreen focused) r z) =
           (if is_leaf_within_minimum r z then [] else filter (\<lambda>p. p = focused) (list_leaf_pane_ids t))"
  using assms
  by (simp_all add: solve_layout_with_mode_def into_layout_solve_def fold_fullscreen Let_def from_pane_sizing_def)

lemma solve_mode_cases:
  obtains "solve_layout_with_mode t mode r z = solve_layout_with_sizing t r z"
  | focused where "mode = Fullscreen focused" "has_pane t focused"
proof (cases mode)
  case Tiled
  then show thesis using that(1) by (simp add: solve_layout_with_mode_def)
next
  case (Fullscreen focused)
  then show thesis using that by (cases "has_pane t focused") (simp_all add: solve_layout_with_mode_def)
qed

section \<open>The solver interface\<close>

text \<open>
  What the consumers of a solve rely on: every leaf once and in order, rectangles that do not overlap,
  and no content below the pane minimum. Every mode and sizing of the solver provides it.
\<close>

locale layout_solver =
  fixes solve :: "layout_node \<Rightarrow> rect \<Rightarrow> layout_solve" and sizing :: pane_sizing
  assumes solve_leaves: "map fst (pane_rects (solve t r)) = list_leaf_pane_ids t"
    and solve_separated: "within_grid r \<Longrightarrow> distinct (list_leaf_pane_ids t) \<Longrightarrow>
      separated r (map snd (pane_rects (solve t r)))"
    and solve_minimum: "(p, q) \<in> set (pane_rects (solve t r)) \<Longrightarrow>
      is_content_visible p q (stack_headers (solve t r)) \<Longrightarrow> is_leaf_within_minimum q sizing"
begin

lemma find_pane_rect_member:
  "find_pane_rect (solve t r) p = Some q \<Longrightarrow> (p, q) \<in> set (pane_rects (solve t r))"
  by (auto simp: find_pane_rect_def find_Some_iff) (metis nth_mem)

lemma find_pane_rect_None: "find_pane_rect (solve t r) p = None \<longleftrightarrow> p \<notin> set (list_leaf_pane_ids t)"
  by (force simp: find_pane_rect_def find_None_iff simp flip: solve_leaves [of t r])

lemma find_pane_rect_Some:
  assumes "distinct (list_leaf_pane_ids t)"
  shows "find_pane_rect (solve t r) p = Some q \<longleftrightarrow> (p, q) \<in> set (pane_rects (solve t r))"
proof
  assume pq: "(p, q) \<in> set (pane_rects (solve t r))"
  then have "p \<in> set (list_leaf_pane_ids t)" by (force simp flip: solve_leaves [of t r])
  then obtain q' where q': "find_pane_rect (solve t r) p = Some q'" using find_pane_rect_None by fastforce
  have "distinct (map fst (pane_rects (solve t r)))" using assms by (simp add: solve_leaves)
  with find_pane_rect_member [OF q'] pq have "q' = q" by (metis eq_key_imp_eq_value)
  with q' show "find_pane_rect (solve t r) p = Some q" by simp
qed (rule find_pane_rect_member)

text \<open>Two different panes share no cell.\<close>

lemma panes_disjoint:
  assumes "within_grid r" "distinct (list_leaf_pane_ids t)"
    and "(p, q) \<in> set (pane_rects (solve t r))" "(p', q') \<in> set (pane_rects (solve t r))" "p \<noteq> p'"
  shows "cells q \<inter> cells q' = {}"
proof -
  let ?rs = "pane_rects (solve t r)"
  from assms(3,4) obtain i j where ij: "i < length ?rs" "?rs ! i = (p, q)" "j < length ?rs" "?rs ! j = (p', q')"
    by (auto simp: in_set_conv_nth)
  have "cells (snd (?rs ! k)) \<inter> cells (snd (?rs ! l)) = {}" if "k < l" "l < length ?rs" for k l
    using solve_separated [OF assms(1,2)] that by (simp add: separated_def sorted_wrt_iff_nth_less)
  from this [of i j] this [of j i] ij assms(5) show ?thesis by (cases i j rule: linorder_cases) auto
qed

lemma pane_inside:
  assumes "within_grid r" "distinct (list_leaf_pane_ids t)" "(p, q) \<in> set (pane_rects (solve t r))"
  shows "cells q \<subseteq> cells r"
  using solve_separated [OF assms(1,2)] assms(3) by (force simp: separated_def)

end

lemma fullscreen_separated:
  assumes "distinct ps"
  shows "separated r (map (\<lambda>p. if p = focused \<and> fits then r else build_empty_at_origin) ps)"
  using assms by (auto simp: separated_def sorted_wrt_iff_nth_less distinct_conv_nth)

lemma solve_mode_separated:
  assumes "within_grid r" "mode = Tiled \<or> distinct (list_leaf_pane_ids t)"
  shows "separated r (map snd (pane_rects (solve_layout_with_mode t mode r z)))"
proof (rule solve_mode_cases [of t mode r z])
  assume "solve_layout_with_mode t mode r z = solve_layout_with_sizing t r z"
  with solved_separated [OF assms(1), of t z] show ?thesis by (simp add: solve_layout_with_sizing_sel)
next
  fix focused assume f: "mode = Fullscreen focused" "has_pane t focused"
  with assms(2) fullscreen_separated show ?thesis by (simp add: solve_fullscreen o_def)
qed

lemma solve_mode_minimum:
  assumes "(p, q) \<in> set (pane_rects (solve_layout_with_mode t mode r z))"
    and "is_content_visible p q (stack_headers (solve_layout_with_mode t mode r z))"
  shows "is_leaf_within_minimum q z"
proof (rule solve_mode_cases [of t mode r z])
  assume "solve_layout_with_mode t mode r z = solve_layout_with_sizing t r z"
  with assms shown_content_minimum show ?thesis by (simp add: solve_layout_with_sizing_sel)
next
  fix focused assume "mode = Fullscreen focused" "has_pane t focused"
  with assms show ?thesis by (auto simp: solve_fullscreen is_content_visible_def split: if_splits)
qed

lemma solve_mode_leaves: "map fst (pane_rects (solve_layout_with_mode t mode r z)) = list_leaf_pane_ids t"
  by (rule solve_mode_cases [of t mode r z])
     (simp_all add: solve_layout_with_sizing_sel solved_leaves solve_fullscreen o_def)

interpretation moded: layout_solver "\<lambda>t r. solve_layout_with_mode t mode r z" z for mode z
  by unfold_locales (simp_all add: solve_mode_leaves solve_mode_separated solve_mode_minimum)

section \<open>Properties\<close>

text \<open>
  C16. A solve places every leaf of the layout exactly once, in layout order, in every mode and
  whatever the space.
\<close>

theorem solve_places_every_leaf:
  "map fst (pane_rects (solve_layout_with_mode t mode r z)) = list_leaf_pane_ids t"
  by (rule moded.solve_leaves)

text \<open>
  C1. Solved panes never overlap and never leave the tab: the rectangles of one solve are pairwise
  disjoint sets of cells, each inside the tab rectangle, with every gap and in every mode (a
  fullscreen solve needs the focused pane to be one leaf, not several). The tab's edges have to be
  \<open>u16\<close> coordinates: past \<open>u16::MAX\<close> the saturating offsets pile up.
\<close>

theorem solve_separates_panes:
  assumes "within_grid r" "mode = Tiled \<or> distinct (list_leaf_pane_ids t)"
  shows "(\<forall>q \<in> set (map snd (pane_rects (solve_layout_with_mode t mode r z))). cells q \<subseteq> cells r) \<and>
         sorted_wrt (\<lambda>p q. cells p \<inter> cells q = {}) (map snd (pane_rects (solve_layout_with_mode t mode r z)))"
  using solve_mode_separated [OF assms] by (simp add: separated_def)

text \<open>Two panes side by side over 80 by 24 cells.\<close>

definition example_pair :: layout_node where
  "example_pair = Split (with_equal_weights Horizontal [Pane (PaneId 1), Pane (PaneId 2)])"

definition example_tab :: rect where
  "example_tab = from_size_at_origin \<lparr>column_count = 80, row_count = 24\<rparr>"

lemma example_pair_shape:
  "populated example_pair" "distinct (list_leaf_pane_ids example_pair)" "within_grid example_tab"
  "is_layout_within_rect example_pair example_tab default_pane_sizing"
proof -
  show "populated example_pair" "distinct (list_leaf_pane_ids example_pair)"
    by (simp_all add: example_pair_def with_equal_weights_def)
  show "within_grid example_tab" by (simp add: example_tab_def within_grid_def)
  have "width_of example_tab = 80" "height_of example_tab = 24" by (simp_all add: example_tab_def)
  moreover have leaf: "unat (axis_minimum True default_pane_sizing (Pane p)) = 4"
    "unat (cross_minimum True default_pane_sizing (Pane p)) = 3" for p
    by (simp_all add: axis_minimum_def cross_minimum_def compute_border_inclusive_minimum_def default_pane_sizing_def
        MIN_PANE_SIZE_def PANE_BORDER_SIZE_def)
  moreover have "compute_child_floor (with_equal_weights Horizontal [Pane (PaneId 1), Pane (PaneId 2)]) i m = m" for i m
    by (auto simp: compute_child_floor_def with_equal_weights_def nth_opt_def weight_floor_def default_size_weight_def
        from_primary_constraint_def unat_eq_iff unat_max nth_Cons')
  ultimately show "is_layout_within_rect example_pair example_tab default_pane_sizing"
    unfolding example_pair_def by (subst directional_fits_iff)
      (simp_all add: with_equal_weights_def axis_length_def cross_length_def gaps_def default_pane_sizing_def)
qed

theorem solve_separates_panes_witness:
  "within_grid example_tab \<and>
   sorted_wrt (\<lambda>p q. cells p \<inter> cells q = {})
     (map snd (pane_rects (solve_layout_with_mode example_pair Tiled example_tab default_pane_sizing)))"
  using solve_separates_panes [of example_tab Tiled example_pair default_pane_sizing] example_pair_shape by blast

text \<open>
  C11. A pane is suppressed exactly when the layout does not fit: with no empty split in the tree, the
  list of suppressed panes is empty if and only if the tree's minimum size fits the tab.
\<close>

theorem solve_suppresses_iff_too_small:
  assumes "populated t"
  shows "suppressed_pane_ids (solve_layout_with_sizing t r z) = [] \<longleftrightarrow> is_layout_within_rect t r z"
  by (simp add: solve_layout_with_sizing_sel solved_suppressed_iff [OF assms])

theorem solve_suppresses_iff_too_small_witness:
  "suppressed_pane_ids (solve_layout_with_sizing example_pair example_tab default_pane_sizing) = []"
  using solve_suppresses_iff_too_small [OF example_pair_shape(1)] example_pair_shape(4) by blast

text \<open>
  C12. At gap 0 a layout that fits tiles the tab: the solved rectangles together cover exactly the
  cells of the tab rectangle.
\<close>

theorem solve_tiles_tab:
  assumes "within_grid r" "populated t" "is_layout_within_rect t r z" "gap_cell_count z = 0"
  shows "(\<Union>(p, q) \<in> set (pane_rects (solve_layout_with_sizing t r z)). cells q) = cells r"
  using solved_covers [OF assms(4,1,2,3)] by (simp add: solve_layout_with_sizing_sel case_prod_unfold)

theorem solve_tiles_tab_witness:
  "(\<Union>(p, q) \<in> set (pane_rects (solve_layout_with_sizing example_pair example_tab default_pane_sizing)). cells q) =
     cells example_tab"
  using solve_tiles_tab [OF example_pair_shape(3,1,4)] by (simp add: default_pane_sizing_def)

text \<open>
  Content is never squeezed: whatever the space, a pane that shows its content has a rectangle
  that holds the pane minimum with its border.
\<close>

theorem solve_shows_at_minimum:
  assumes "(p, q) \<in> set (pane_rects (solve_layout_with_mode t mode r z))"
    and "is_content_visible p q (stack_headers (solve_layout_with_mode t mode r z))"
  shows "is_leaf_within_minimum q z"
  using assms by (rule moded.solve_minimum)

theorem solve_shows_at_minimum_witness:
  "is_leaf_within_minimum example_tab default_pane_sizing"
proof -
  have "is_leaf_within_minimum example_tab default_pane_sizing"
    by (simp add: is_leaf_within_minimum_def can_fit_inside_iff example_tab_def from_size_at_origin_def
        compute_border_inclusive_minimum_def default_pane_sizing_def MIN_PANE_SIZE_def PANE_BORDER_SIZE_def)
  then have "pane_rects (solve_layout_with_mode (Pane (PaneId 1)) Tiled example_tab default_pane_sizing) =
      [(PaneId 1, example_tab)]"
    "stack_headers (solve_layout_with_mode (Pane (PaneId 1)) Tiled example_tab default_pane_sizing) = []"
    by (simp_all add: solve_layout_with_mode_def solve_layout_with_sizing_sel solved_pane push_defs)
  then show ?thesis
    by (intro solve_shows_at_minimum [of "PaneId 1" example_tab "Pane (PaneId 1)" Tiled example_tab])
       (simp_all add: is_content_visible_def is_empty_def example_tab_def from_size_at_origin_def)
qed

text \<open>
  C17. When the layout fits and every pane is one leaf, the panes that show their content are exactly
  those the tree says are not collapsed inside a stack.
\<close>

theorem solve_shows_uncollapsed:
  assumes "populated t" "distinct (list_leaf_pane_ids t)" "is_layout_within_rect t r z"
    and "(p, q) \<in> set (pane_rects (solve_layout_with_sizing t r z))"
  shows "is_content_visible p q (stack_headers (solve_layout_with_sizing t r z)) \<longleftrightarrow> \<not> is_pane_collapsed t p []"
  using shown_iff_not_collapsed [OF assms(1-3)] assms(4) by (simp add: solve_layout_with_sizing_sel)

theorem solve_shows_uncollapsed_witness:
  "\<exists>q. is_content_visible (PaneId 2) q (stack_headers (solve_layout_with_sizing example_pair example_tab default_pane_sizing))"
proof -
  have "PaneId 2 \<in> set (map fst (pane_rects (solve_layout_with_sizing example_pair example_tab default_pane_sizing)))"
    by (simp add: solve_layout_with_sizing_sel solved_leaves del: set_map) (simp add: example_pair_def with_equal_weights_def)
  then obtain q where q: "(PaneId 2, q) \<in> set (pane_rects (solve_layout_with_sizing example_pair example_tab default_pane_sizing))"
    by auto
  have "\<not> is_pane_collapsed example_pair (PaneId 2) []"
    by (simp add: example_pair_def with_equal_weights_def)
  with solve_shows_uncollapsed [OF example_pair_shape(1,2,4) q] show ?thesis by blast
qed

text \<open>
  Fullscreen gives the focused pane the whole tab and every other pane zero area, and emits no
  stack header; a tab below the pane minimum suppresses the focused pane alone. A focused pane that is
  not in the tree falls back to the tiled solve.
\<close>

theorem solve_fullscreen_spec:
  "if has_pane t focused
   then pane_rects (solve_layout_with_mode t (Fullscreen focused) r z) =
          map (\<lambda>p. (p, if p = focused \<and> is_leaf_within_minimum r z then r else build_empty_at_origin))
            (list_leaf_pane_ids t) \<and>
        stack_headers (solve_layout_with_mode t (Fullscreen focused) r z) = [] \<and>
        suppressed_pane_ids (solve_layout_with_mode t (Fullscreen focused) r z) =
          (if is_leaf_within_minimum r z then [] else filter (\<lambda>p. p = focused) (list_leaf_pane_ids t))
   else solve_layout_with_mode t (Fullscreen focused) r z = solve_layout_with_sizing t r z"
  by (simp add: solve_fullscreen) (simp add: solve_layout_with_mode_def)

end
