(* ===== verification/Resize.thy ===== *)
theory Resize
  imports Edit Solver_Geometry
begin

text \<open>
  The resize transaction (\<open>koshi-layout/src/resize.rs\<close>): move one border by shifting resize offset
  between two siblings. The closures of the code are definitions over the values they capture; each
  probe of the search overwrites both offsets, so a probe is a function of its candidate number. The
  \<open>i64\<close> counts are integers: offsets are \<open>i32\<close> and an axis is a \<open>u16\<close>, so no sum leaves \<open>i64\<close>. An outer
  \<open>None\<close> is a panic of a path or an index; it never occurs.
\<close>

section \<open>Operations\<close>

datatype resize_error =
    ResizePaneNotFound pane_id
  | NoAdjacentBorder pane_id Geometry.direction
  | DonorAtMinimumSize pane_id Geometry.direction bool
  | BorderHeld pane_id Geometry.direction bool

record border_measure =
  moved_cell_count :: int
  spare_cell_count :: u16

function find_first_candidate ::
  "int \<Rightarrow> int \<Rightarrow> border_measure \<Rightarrow> (int \<Rightarrow> border_measure) \<Rightarrow> (border_measure \<Rightarrow> bool) \<Rightarrow> int \<times> border_measure" where
  "find_first_candidate lowest highest highest_measure measure_candidate is_found =
     (if lowest < highest then
        (let middle = lowest + (highest - lowest) div 2;
             middle_measure = measure_candidate middle
         in if is_found middle_measure
            then find_first_candidate lowest middle middle_measure measure_candidate is_found
            else find_first_candidate (middle + 1) highest highest_measure measure_candidate is_found)
      else (highest, highest_measure))"
  by pat_completeness auto
termination
  by (relation "measure (\<lambda>(lowest, highest, _). nat (highest - lowest))") auto

declare find_first_candidate.simps [simp del]

text \<open>The length of the path above the first collapsed stack member on it.\<close>

fun visible_path_length :: "layout_node \<Rightarrow> nat list \<Rightarrow> nat option" where
  "visible_path_length n [] = Some 0"
| "visible_path_length (Pane q) (i # path) = Some (Suc (length path))"
| "visible_path_length (Split s) (i # path) =
     (if direction s = Stacked \<and> i \<noteq> get_active_child_index s then Some 0
      else if i < length (children s) then map_option Suc (visible_path_length (children s ! i) path)
      else None)"

definition find_adjacent_child_index :: "Geometry.direction \<Rightarrow> nat \<Rightarrow> nat \<Rightarrow> nat option" where
  "find_adjacent_child_index dir child_index child_count =
     (case dir of
        Left \<Rightarrow> (if child_index = 0 then None else Some (child_index - 1))
      | Up \<Rightarrow> (if child_index = 0 then None else Some (child_index - 1))
      | Right \<Rightarrow> (if child_index + 1 < child_count then Some (child_index + 1) else None)
      | Down \<Rightarrow> (if child_index + 1 < child_count then Some (child_index + 1) else None))"

text \<open>
  The upward walk of \<open>find_resize_border\<close>: \<open>Some None\<close> when no split of the path has the border, an
  outer \<open>None\<close> when the path leaves the tree.
\<close>

fun find_border_above ::
  "layout_node \<Rightarrow> nat list \<Rightarrow> split_direction \<Rightarrow> Geometry.direction \<Rightarrow> nat \<Rightarrow> (nat \<times> nat \<times> nat) option option" where
  "find_border_above t path split_dir dir 0 = Some None"
| "find_border_above t path split_dir dir (Suc depth) =
     (case get_split_at_path t (take depth path) of
        None \<Rightarrow> None
      | Some s \<Rightarrow>
          if direction s \<noteq> split_dir then find_border_above t path split_dir dir depth
          else
            (case find_adjacent_child_index dir (path ! depth) (length (children s)) of
               Some adjacent \<Rightarrow> Some (Some (depth, path ! depth, adjacent))
             | None \<Rightarrow> find_border_above t path split_dir dir depth))"

definition find_resize_border ::
  "layout_node \<Rightarrow> nat list \<Rightarrow> split_direction \<Rightarrow> Geometry.direction \<Rightarrow> (nat \<times> nat \<times> nat) option option" where
  "find_resize_border t path split_dir dir =
     Option.bind (visible_path_length t path) (find_border_above t path split_dir dir)"

fun compute_rect_at_path :: "layout_node \<Rightarrow> rect \<Rightarrow> nat list \<Rightarrow> pane_sizing \<Rightarrow> rect option" where
  "compute_rect_at_path n r [] z = Some r"
| "compute_rect_at_path (Pane q) r (i # path) z = None"
| "compute_rect_at_path (Split s) r (i # path) z =
     (if i < length (children s) then
        compute_rect_at_path (children s ! i)
          (if direction s = Stacked then compute_stacked_child_rects s r z ! i
           else compute_directional_child_rects s r z ! i) path z
      else None)"

definition pad_weights :: "split_node \<Rightarrow> split_node" where
  "pad_weights s =
     (case s of SplitNode d cs ws a \<Rightarrow>
        if length ws < length cs
        then SplitNode d cs (ws @ replicate (length cs - length ws) default_size_weight) a else s)"

definition set_resize_delta :: "nat \<Rightarrow> int \<Rightarrow> split_node \<Rightarrow> split_node" where
  "set_resize_delta i delta s =
     (case s of SplitNode d cs ws a \<Rightarrow> SplitNode d cs (ws[i := (ws ! i)\<lparr>resize_delta := delta\<rparr>]) a)"

definition set_added_cell_count :: "nat \<Rightarrow> nat \<Rightarrow> int \<Rightarrow> int \<Rightarrow> int \<Rightarrow> split_node \<Rightarrow> split_node" where
  "set_added_cell_count receiving donating starting_receiving starting_donating added s =
     set_resize_delta donating (clamp_i32 (starting_donating - added))
       (set_resize_delta receiving (clamp_i32 (starting_receiving + added)) s)"

definition measure_border ::
  "bool \<Rightarrow> rect \<Rightarrow> pane_sizing \<Rightarrow> nat \<Rightarrow> nat \<Rightarrow> u32 \<Rightarrow> split_node \<Rightarrow> int \<times> u16" where
  "measure_border h split_rect z border donating donating_slot_floor s =
     (let child_rects = compute_directional_child_rects s split_rect z;
          border_rect = child_rects ! border;
          donating_rect = child_rects ! donating;
          border_cell = (if h then column (origin border_rect) else row (origin border_rect));
          donating_cell_count =
            (if h then column_count (rect_size donating_rect) else row_count (rect_size donating_rect))
      in (int (unat border_cell),
          if unat donating_slot_floor < 2 ^ 16 then sat_sub donating_cell_count (as_u16 donating_slot_floor) else 0))"

record candidate_windows =
  first_window_start :: int
  first_window_length :: int
  second_window_start :: int
  candidate_count :: int

definition compute_candidate_windows :: "int \<Rightarrow> int \<Rightarrow> int \<Rightarrow> candidate_windows" where
  "compute_candidate_windows axis starting_receiving starting_donating =
     (let receiving_window = (max (1 - axis - starting_receiving) 1, axis - starting_receiving);
          donating_window = (max (1 - axis + starting_donating) 1, axis + starting_donating);
          ordered = (if fst receiving_window \<le> fst donating_window then (receiving_window, donating_window)
                     else (donating_window, receiving_window));
          first_window = fst ordered; second_window = snd ordered;
          first_length = max (snd first_window - fst first_window + 1) 0;
          second_start = max (fst second_window) (snd first_window + 1);
          second_length = max (snd second_window - second_start + 1) 0
      in \<lparr>first_window_start = fst first_window, first_window_length = first_length,
          second_window_start = second_start, candidate_count = first_length + second_length\<rparr>)"

definition get_added_cell_count :: "candidate_windows \<Rightarrow> int \<Rightarrow> int" where
  "get_added_cell_count w candidate_number =
     (if candidate_number \<le> first_window_length w then first_window_start w + candidate_number - 1
      else second_window_start w + candidate_number - first_window_length w - 1)"

definition is_move_stopped :: "int \<Rightarrow> border_measure \<Rightarrow> bool" where
  "is_move_stopped requested m \<longleftrightarrow> requested \<le> moved_cell_count m \<or> spare_cell_count m = 0"

text \<open>The candidate at which the move stops, with its measure.\<close>

definition find_stopping_candidate :: "int \<Rightarrow> int \<Rightarrow> (int \<Rightarrow> border_measure) \<Rightarrow> int \<times> border_measure" where
  "find_stopping_candidate requested candidates measure_candidate =
     (let probed = min requested candidates;
          probed_measure = measure_candidate probed
      in if is_move_stopped requested probed_measure then
           (if 0 < spare_cell_count probed_measure then (probed, probed_measure)
            else find_first_candidate 1 probed probed_measure measure_candidate (is_move_stopped requested))
         else if probed = candidates then (probed, probed_measure)
         else
           (let last_measure = measure_candidate candidates
            in if is_move_stopped requested last_measure
               then find_first_candidate (probed + 1) candidates last_measure measure_candidate
                      (is_move_stopped requested)
               else (candidates, last_measure)))"

text \<open>
  The search: the cells the border moves and the offset cells added for it. Nothing moves without a
  request, without a spare cell at the donor, or without a candidate.
\<close>

definition search_border_move ::
  "int \<Rightarrow> u16 \<Rightarrow> candidate_windows \<Rightarrow> (int \<Rightarrow> border_measure) \<Rightarrow> u16 \<times> int" where
  "search_border_move requested starting_spare w measure_candidate =
     (if 0 < requested \<and> 0 < starting_spare \<and> 0 < candidate_count w then
        (case find_stopping_candidate requested (candidate_count w) measure_candidate of
           (stopping_candidate, stopping_measure) \<Rightarrow>
             (let stopping_moved = moved_cell_count stopping_measure in
              if 0 < stopping_moved then
                (of_int stopping_moved,
                 get_added_cell_count w
                   (fst (find_first_candidate stopping_moved stopping_candidate stopping_measure measure_candidate
                           (\<lambda>m. stopping_moved \<le> moved_cell_count m))))
              else (0, 0)))
      else (0, 0))"

definition unsigned_abs_i16 :: "int \<Rightarrow> int" where
  "unsigned_abs_i16 delta = \<bar>delta\<bar>"

text \<open>The probe of one candidate on the padded split.\<close>

definition measure_candidate_on ::
  "bool \<Rightarrow> rect \<Rightarrow> pane_sizing \<Rightarrow> nat \<Rightarrow> nat \<Rightarrow> candidate_windows \<Rightarrow> split_node \<Rightarrow> int \<Rightarrow> border_measure" where
  "measure_candidate_on h split_rect z receiving donating w s candidate_number =
     (let border = max receiving donating;
          floor = compute_slot_floor s donating h z;
          starting_receiving = resize_delta (weights s ! receiving);
          starting_donating = resize_delta (weights s ! donating);
          starting_border = fst (measure_border h split_rect z border donating floor s);
          moved = measure_border h split_rect z border donating floor
                    (set_added_cell_count receiving donating starting_receiving starting_donating
                       (get_added_cell_count w candidate_number) s)
      in \<lparr>moved_cell_count =
            (if receiving < donating then fst moved - starting_border else starting_border - fst moved),
          spare_cell_count = snd moved\<rparr>)"

text \<open>The transaction on the split that owns the border.\<close>

definition resize_split ::
  "bool \<Rightarrow> rect \<Rightarrow> pane_sizing \<Rightarrow> nat \<Rightarrow> nat \<Rightarrow> int \<Rightarrow> split_node \<Rightarrow> split_node \<times> u16 \<times> u16" where
  "resize_split h split_rect z receiving donating requested padded =
     (let starting_receiving = resize_delta (weights padded ! receiving);
          starting_donating = resize_delta (weights padded ! donating);
          axis = int (unat (if h then column_count (rect_size split_rect) else row_count (rect_size split_rect)));
          w = compute_candidate_windows axis starting_receiving starting_donating;
          starting_spare = snd (measure_border h split_rect z (max receiving donating) donating
                                  (compute_slot_floor padded donating h z) padded)
      in case search_border_move requested starting_spare w
                (measure_candidate_on h split_rect z receiving donating w padded) of
           (moved, kept_added) \<Rightarrow>
             (set_added_cell_count receiving donating starting_receiving starting_donating kept_added padded,
              moved, starting_spare))"

definition resize_layout_with_sizing ::
  "layout_node \<Rightarrow> rect \<Rightarrow> pane_id \<Rightarrow> Geometry.direction \<Rightarrow> int \<Rightarrow> pane_sizing \<Rightarrow>
   (resize_error + layout_node \<times> u16) option" where
  "resize_layout_with_sizing t layout_rect p dir resize_cell_delta z =
     (case find_pane_path t p of
        None \<Rightarrow> Some (Inl (ResizePaneNotFound p))
      | Some pane_path \<Rightarrow>
          (let split_dir = compute_split_direction dir;
               h = (split_dir = Horizontal)
           in case find_resize_border t pane_path split_dir dir of
                None \<Rightarrow> None
              | Some None \<Rightarrow> Some (Inl (NoAdjacentBorder p dir))
              | Some (Some (depth, target, adjacent)) \<Rightarrow>
                  (let requested = unsigned_abs_i16 resize_cell_delta;
                       is_pane_growing = (0 < resize_cell_delta);
                       receiving = (if is_pane_growing then target else adjacent);
                       donating = (if is_pane_growing then adjacent else target);
                       split_path = take depth pane_path
                   in case (compute_rect_at_path t layout_rect split_path z, get_split_at_path t split_path) of
                        (Some split_rect, Some s) \<Rightarrow>
                          (case resize_split h split_rect z receiving donating requested (pad_weights s) of
                             (resized, moved, starting_spare) \<Rightarrow>
                               if 0 < requested \<and> moved = 0 then
                                 Some (Inl (if starting_spare = 0 then DonorAtMinimumSize p dir is_pane_growing
                                            else BorderHeld p dir is_pane_growing))
                               else
                                 map_option (\<lambda>t'. Inr (t', moved))
                                   (update_node_at_path (\<lambda>_. Split resized) t split_path))
                      | _ \<Rightarrow> None)))"

section \<open>The search\<close>

text \<open>
  The binary search ends, whatever the measures are: its result satisfies the test, and the candidate
  before it does not, unless it is the first of the range.
\<close>

lemma find_first_candidate_spec:
  assumes "highest_measure = measure_candidate highest" "is_found highest_measure"
    and "find_first_candidate lowest highest highest_measure measure_candidate is_found = (c, m)"
  shows "m = measure_candidate c \<and> is_found m \<and> c \<le> highest \<and> min lowest highest \<le> c \<and>
         (c \<le> lowest \<or> \<not> is_found (measure_candidate (c - 1)))"
proof -
  have "find_first_candidate lo hi hm measure_candidate is_found = (c, m) \<Longrightarrow> hm = measure_candidate hi \<Longrightarrow>
      is_found hm \<Longrightarrow> lowest \<le> lo \<Longrightarrow> lo = lowest \<or> \<not> is_found (measure_candidate (lo - 1)) \<Longrightarrow>
      hi \<le> highest \<Longrightarrow> min lowest highest \<le> hi \<Longrightarrow> lo \<le> hi \<or> lo = lowest \<Longrightarrow>
      m = measure_candidate c \<and> is_found m \<and> c \<le> highest \<and> min lowest highest \<le> c \<and>
      (c \<le> lowest \<or> \<not> is_found (measure_candidate (c - 1)))" for lo hi hm
  proof (induction lo hi hm measure_candidate is_found rule: find_first_candidate.induct)
    case (1 lo hi hm measure_candidate is_found)
    show ?case
    proof (cases "lo < hi")
      case False
      then have "c = hi" "m = hm" using 1(3) by (simp_all add: find_first_candidate.simps)
      then show ?thesis using 1 False by (cases "lo = hi") auto
    next
      case True
      let ?mid = "lo + (hi - lo) div 2"
      have mid: "lo \<le> ?mid" "?mid < hi" using True by auto
      show ?thesis
      proof (cases "is_found (measure_candidate ?mid)")
        case found: True
        then have "find_first_candidate lo ?mid (measure_candidate ?mid) measure_candidate is_found = (c, m)"
          using 1(3) True by (subst (asm) find_first_candidate.simps) (simp add: Let_def)
        from 1(1) [OF True refl refl found this refl found] 1(6-10) mid show ?thesis by auto
      next
        case notfound: False
        then have "find_first_candidate (?mid + 1) hi hm measure_candidate is_found = (c, m)"
          using 1(3) True by (subst (asm) find_first_candidate.simps) (simp add: Let_def)
        from 1(2) [OF True refl refl notfound this 1(4,5)] 1(6-10) mid notfound show ?thesis by auto
      qed
    qed
  qed
  from this [OF assms(3,1,2)] show ?thesis by auto
qed

lemma find_stopping_candidate_measure:
  assumes "find_stopping_candidate requested candidates measure_candidate = (c, m)"
  shows "m = measure_candidate c"
proof -
  let ?stop = "is_move_stopped requested" and ?probed = "min requested candidates"
  have first: "m = measure_candidate c"
    if "find_first_candidate lo hi (measure_candidate hi) measure_candidate ?stop = (c, m)" "?stop (measure_candidate hi)" for lo hi
    using find_first_candidate_spec [OF refl that(2,1)] by simp
  show ?thesis
    using assms first [of 1 ?probed] first [of "?probed + 1" candidates]
    by (auto simp: find_stopping_candidate_def Let_def split: if_splits)
qed

lemma search_border_move_spec:
  assumes "search_border_move requested starting_spare w measure_candidate = (moved, added)"
    and small: "\<And>c. moved_cell_count (measure_candidate c) < 65536"
  obtains (still) "moved = 0" "added = 0"
  | (moved) c where "0 < requested" "0 < starting_spare" "0 < unat moved" "added = get_added_cell_count w c"
      "int (unat moved) \<le> moved_cell_count (measure_candidate c)"
      "c \<le> int (unat moved) \<or> moved_cell_count (measure_candidate (c - 1)) < int (unat moved)"
proof (cases "0 < requested \<and> 0 < starting_spare \<and> 0 < candidate_count w")
  case False
  then show thesis using assms(1) still by (auto simp: search_border_move_def)
next
  case True
  obtain stop m where stop: "find_stopping_candidate requested (candidate_count w) measure_candidate = (stop, m)" by fastforce
  have m: "m = measure_candidate stop" by (rule find_stopping_candidate_measure [OF stop])
  let ?moved = "moved_cell_count m"
  show thesis
  proof (cases "0 < ?moved")
    case False
    then show thesis using assms(1) stop True still by (simp add: search_border_move_def Let_def)
  next
    case pos: True
    obtain c m' where first: "find_first_candidate ?moved stop m measure_candidate (\<lambda>m. ?moved \<le> moved_cell_count m) = (c, m')"
      by fastforce
    have res: "moved = of_int ?moved" "added = get_added_cell_count w c"
      using assms(1) stop True pos first by (auto simp: search_border_move_def Let_def)
    have "?moved < 65536" using small m by simp
    then have u: "int (unat moved) = ?moved" using pos by (simp add: res unat_eq_nat_uint take_bit_int_eq_self uint_word_of_int)
    from find_first_candidate_spec [OF m order_refl first]
    have "?moved \<le> moved_cell_count (measure_candidate c)"
      "c \<le> ?moved \<or> moved_cell_count (measure_candidate (c - 1)) < ?moved" by auto
    moreover have "0 < unat moved" using u pos by linarith
    ultimately show thesis using u res(2) True by (intro moved [of c]) auto
  qed
qed


section \<open>The border\<close>

lemma visible_path_length_Some:
  "get_node_at_path t path = Some n \<Longrightarrow> \<exists>k \<le> length path. visible_path_length t path = Some k"
proof (induction t path rule: visible_path_length.induct)
  case (3 s i path)
  then show ?case
    by (cases "direction s = Stacked \<and> i \<noteq> get_active_child_index s") (auto split: if_splits)
qed auto

lemma find_adjacent_child_index_Some:
  "find_adjacent_child_index dir i n = Some j \<Longrightarrow> i < n \<Longrightarrow> j < n \<and> i \<noteq> j"
  by (cases dir) (auto simp: find_adjacent_child_index_def split: if_splits)

lemma find_border_above_spec:
  assumes "get_node_at_path t path = Some n" "k \<le> length path"
  shows "\<exists>res. find_border_above t path split_dir dir k = Some res \<and>
           (\<forall>depth i j. res = Some (depth, i, j) \<longrightarrow> depth < length path \<and>
              (\<exists>s. get_split_at_path t (take depth path) = Some s \<and> direction s = split_dir \<and>
                 i < length (children s) \<and> j < length (children s) \<and> i \<noteq> j \<and> i = path ! depth))"
  using assms(2)
proof (induction k)
  case (Suc k)
  then have k: "k < length path" by simp
  from get_node_at_path_proper_prefix [OF assms(1) k] obtain s where
    s: "get_split_at_path t (take k path) = Some s" "path ! k < length (children s)"
    by (auto simp: get_split_at_path_def)
  show ?case
  proof (cases "direction s = split_dir \<and> find_adjacent_child_index dir (path ! k) (length (children s)) \<noteq> None")
    case True
    then obtain j where j: "find_adjacent_child_index dir (path ! k) (length (children s)) = Some j" by auto
    then show ?thesis using s k True find_adjacent_child_index_Some [OF j s(2)] by simp
  next
    case False
    then have "find_border_above t path split_dir dir (Suc k) = find_border_above t path split_dir dir k"
      using s by auto
    with Suc show ?thesis by simp
  qed
qed simp

lemma find_resize_border_spec:
  assumes "get_node_at_path t path = Some n"
  obtains (none) "find_resize_border t path split_dir dir = Some None"
  | (border) depth i j s where "find_resize_border t path split_dir dir = Some (Some (depth, i, j))"
      "depth < length path" "get_split_at_path t (take depth path) = Some s" "direction s = split_dir"
      "i < length (children s)" "j < length (children s)" "i \<noteq> j"
proof -
  from visible_path_length_Some [OF assms] obtain k where k: "k \<le> length path" "visible_path_length t path = Some k" by blast
  from find_border_above_spec [OF assms k(1), of split_dir dir] obtain res where
    res: "find_border_above t path split_dir dir k = Some res" and
    spec: "\<forall>depth i j. res = Some (depth, i, j) \<longrightarrow> depth < length path \<and>
              (\<exists>s. get_split_at_path t (take depth path) = Some s \<and> direction s = split_dir \<and>
                 i < length (children s) \<and> j < length (children s) \<and> i \<noteq> j \<and> i = path ! depth)" by blast
  have eq: "find_resize_border t path split_dir dir = Some res" using k(2) res by (simp add: find_resize_border_def)
  show thesis
  proof (cases res)
    case None
    then show thesis using eq none by simp
  next
    case (Some d)
    obtain depth i j where d: "d = (depth, i, j)" by (cases d) auto
    with spec Some eq show thesis using border by blast
  qed
qed

lemma compute_rect_at_path_Some:
  "get_node_at_path t path = Some n \<Longrightarrow> \<exists>q. compute_rect_at_path t r path z = Some q"
  by (induction t r path z rule: compute_rect_at_path.induct) (auto split: if_splits)

lemma get_split_at_path_node: "get_split_at_path t path = Some s \<longleftrightarrow> get_node_at_path t path = Some (Split s)"
  by (auto simp: get_split_at_path_def split: option.splits layout_node.splits)

section \<open>Offsets do not change the structure\<close>

text \<open>A tree without its resize offsets, with the weights the solver reads for children without one.\<close>

definition plain_weights :: "split_node \<Rightarrow> size_weight list" where
  "plain_weights s = map (\<lambda>w. w\<lparr>resize_delta := 0\<rparr>) (weights (pad_weights s))"

fun without_offsets :: "layout_node \<Rightarrow> layout_node" where
  "without_offsets (Pane p) = Pane p"
| "without_offsets (Split (SplitNode d cs ws a)) =
     Split (SplitNode d (map without_offsets cs) (plain_weights (SplitNode d cs ws a)) a)"

lemma without_offsets_split:
  "without_offsets (Split s) =
     Split (SplitNode (direction s) (map without_offsets (children s)) (plain_weights s) (active_child_index s))"
  by (cases s) simp

lemma pad_weights_sel [simp]:
  "direction (pad_weights s) = direction s" "children (pad_weights s) = children s"
  "active_child_index (pad_weights s) = active_child_index s" "pad_weights (pad_weights s) = pad_weights s"
  "length (children s) \<le> length (weights (pad_weights s))"
  by (cases s; simp add: pad_weights_def)+

lemma set_resize_delta_sel [simp]:
  "direction (set_resize_delta i x s) = direction s" "children (set_resize_delta i x s) = children s"
  "active_child_index (set_resize_delta i x s) = active_child_index s"
  "length (weights (set_resize_delta i x s)) = length (weights s)"
  by (cases s; simp add: set_resize_delta_def)+

lemma plain_weights_set_resize_delta:
  assumes "length (children s) \<le> length (weights s)"
  shows "plain_weights (set_resize_delta i x s) = plain_weights s"
proof -
  have "map (\<lambda>w. w\<lparr>resize_delta := 0\<rparr>) (ws[i := (ws ! i)\<lparr>resize_delta := x\<rparr>]) = map (\<lambda>w. w\<lparr>resize_delta := 0\<rparr>) ws" for ws
  proof (rule nth_equalityI)
    show "map (\<lambda>w. w\<lparr>resize_delta := 0\<rparr>) (ws[i := (ws ! i)\<lparr>resize_delta := x\<rparr>]) ! k =
          map (\<lambda>w. w\<lparr>resize_delta := 0\<rparr>) ws ! k"
      if "k < length (map (\<lambda>w. w\<lparr>resize_delta := 0\<rparr>) (ws[i := (ws ! i)\<lparr>resize_delta := x\<rparr>]))" for k
      using that by (cases "k = i") (simp_all add: nth_list_update)
  qed simp
  then show ?thesis using assms by (cases s) (simp add: plain_weights_def pad_weights_def set_resize_delta_def)
qed

lemma plain_weights_pad [simp]: "plain_weights (pad_weights s) = plain_weights s"
  by (simp add: plain_weights_def)

lemma resized_without_offsets:
  "without_offsets (Split (set_added_cell_count i j x y n (pad_weights s))) = without_offsets (Split s)"
  by (simp add: without_offsets_split set_added_cell_count_def plain_weights_set_resize_delta)

lemma update_without_offsets:
  "update_node_at_path f t path = Some t' \<Longrightarrow> get_node_at_path t path = Some n \<Longrightarrow>
     without_offsets (f n) = without_offsets n \<Longrightarrow> without_offsets t' = without_offsets t"
proof (induction path arbitrary: t t')
  case Nil
  then show ?case by simp
next
  case (Cons i path)
  from Cons.prems(1) obtain d cs ws a c where t: "t = Split (SplitNode d cs ws a)" "i < length cs"
    "update_node_at_path f (cs ! i) path = Some c" "t' = Split (SplitNode d (cs[i := c]) ws a)"
    by (rule update_Cons_cases)
  with Cons.prems(2) have "get_node_at_path (cs ! i) path = Some n" by simp
  from Cons.IH [OF t(3) this Cons.prems(3)] have "without_offsets c = without_offsets (cs ! i)" .
  then have "map without_offsets (cs[i := c]) = map without_offsets cs"
    using t(2) by (simp add: map_update list_update_same_conv)
  with t show ?case by (simp add: plain_weights_def pad_weights_def)
qed

lemma without_offsets_leaves: "list_leaf_pane_ids (without_offsets t) = list_leaf_pane_ids t"
  by (induction t rule: layout_node_induct) (simp_all add: o_def cong: map_cong)


section \<open>The geometry reads no more than sizes and weights\<close>

lemma child_floor_weight:
  "compute_child_floor s i m = max m (u32_of (weight_floor (weight_at (weights s) i)))"
  by (simp add: compute_child_floor_def weight_at_def default_size_weight_def from_primary_constraint_def
        weight_floor_def split: option.splits)

lemma weight_floor_plain: "weight_floor (weight_at (plain_weights s) i) = weight_floor (weight_at (weights s) i)"
  by (cases s) (simp add: plain_weights_def pad_weights_def weight_at_def nth_opt_def nth_append weight_floor_def
      default_size_weight_def from_primary_constraint_def)

lemma sum_child_floors_cong:
  "(\<And>i. weight_floor (weight_at (weights s') i) = weight_floor (weight_at (weights s) i)) \<Longrightarrow>
     sum_child_floors s' h ms i axis cross = sum_child_floors s h ms i axis cross"
  by (induction ms arbitrary: i axis cross) (simp_all add: child_floor_weight split: prod.split)

lemma minimum_without_offsets: "compute_minimum_size (without_offsets t) z = compute_minimum_size t z"
proof (induction t rule: layout_node_induct)
  case (Split d cs ws a)
  let ?s = "SplitNode d cs ws a" and ?p = "SplitNode d (map without_offsets cs) (plain_weights (SplitNode d cs ws a)) a"
  have minima: "map (\<lambda>c. compute_minimum_size c z) (map without_offsets cs) = map (\<lambda>c. compute_minimum_size c z) cs"
    using Split by simp
  have "sum_child_floors ?p h ms i axis cross = sum_child_floors ?s h ms i axis cross" for h ms i axis cross
    using weight_floor_plain [of ?s] by (intro sum_child_floors_cong) simp
  moreover have "get_active_child_index ?p = get_active_child_index ?s" by (simp add: get_active_child_index_def)
  ultimately show ?case
    unfolding without_offsets.simps compute_minimum_size.simps minima
    by (cases "d = Stacked") (simp_all add: directional_minimum_size_def stack_minimum_size_def)
qed simp

lemma keep_children_cong:
  assumes "\<And>i. weight_at (weights s') i = weight_at (weights s) i"
    and "map (\<lambda>c. compute_minimum_size c z) cs' = map (\<lambda>c. compute_minimum_size c z) cs"
  shows "keep_children s' h z available cross cs' i has_kept can_keep claimed =
         keep_children s h z available cross cs i has_kept can_keep claimed"
  using assms(2)
proof (induction cs arbitrary: cs' i has_kept can_keep claimed)
  case (Cons c cs)
  then obtain c' cs'' where cs': "cs' = c' # cs''" "compute_minimum_size c' z = compute_minimum_size c z"
    "map (\<lambda>c. compute_minimum_size c z) cs'' = map (\<lambda>c. compute_minimum_size c z) cs" by (cases cs') auto
  have "cross_minimum h z c' = cross_minimum h z c" "axis_minimum h z c' = axis_minimum h z c"
    using cs'(2) by (simp_all add: cross_minimum_def axis_minimum_def)
  moreover from this have "claimed_with s' h z has_kept i c' claimed = claimed_with s h z has_kept i c claimed"
    by (simp add: claimed_with_def child_floor_weight assms(1))
  ultimately show ?case by (simp add: keep_children_Cons cs'(1) Cons.IH [OF cs'(3)] child_floor_weight assms(1))
qed simp

lemma directional_rects_cong:
  assumes "direction s' = direction s" "\<And>i. weight_at (weights s') i = weight_at (weights s) i"
    and "map (\<lambda>c. compute_minimum_size c z) (children s') = map (\<lambda>c. compute_minimum_size c z) (children s)"
  shows "compute_directional_child_rects s' r z = compute_directional_child_rects s r z"
  unfolding compute_directional_child_rects_def list_kept_children_def
  by (simp add: assms(1) keep_children_cong [OF assms(2,3)] cong: if_cong)

lemma stacked_rects_cong:
  assumes "active_child_index s' = active_child_index s"
    and "map (\<lambda>c. compute_minimum_size c z) (children s') = map (\<lambda>c. compute_minimum_size c z) (children s)"
  shows "compute_stacked_child_rects s' r z = compute_stacked_child_rects s r z"
proof -
  have "length (children s') = length (children s)" using assms(2) by (rule map_eq_imp_length_eq)
  moreover from this have "get_active_child_index s' = get_active_child_index s"
    using assms(1) by (simp add: get_active_child_index_def)
  moreover from this have "compute_stack_minimum_size s' z = compute_stack_minimum_size s z"
    by (simp add: compute_stack_minimum_size_def stack_minimum_size_def assms(2) cong: list.map_cong0)
  ultimately show ?thesis by (simp only: compute_stacked_child_rects_def)
qed

lemma directional_rects_pad: "compute_directional_child_rects (pad_weights s) r z = compute_directional_child_rects s r z"
  by (rule directional_rects_cong; cases s) (simp_all add: pad_weights_def weight_at_def nth_opt_def nth_append)

text \<open>Changing offsets below a split does not move the split itself.\<close>

lemma compute_rect_at_path_update:
  "update_node_at_path f t path = Some t' \<Longrightarrow> get_node_at_path t path = Some n \<Longrightarrow>
     without_offsets (f n) = without_offsets n \<Longrightarrow>
     compute_rect_at_path t' r path z = compute_rect_at_path t r path z"
proof (induction path arbitrary: t t' r)
  case (Cons i path)
  from Cons.prems(1) obtain d cs ws a c where t: "t = Split (SplitNode d cs ws a)" "i < length cs"
    "update_node_at_path f (cs ! i) path = Some c" "t' = Split (SplitNode d (cs[i := c]) ws a)"
    by (rule update_Cons_cases)
  with Cons.prems(2) have get: "get_node_at_path (cs ! i) path = Some n" by simp
  from update_without_offsets [OF t(3) get Cons.prems(3)]
  have "compute_minimum_size c z = compute_minimum_size (cs ! i) z" by (metis minimum_without_offsets)
  then have minima: "map (\<lambda>c. compute_minimum_size c z) (cs[i := c]) = map (\<lambda>c. compute_minimum_size c z) cs"
    using t(2) by (simp add: map_update list_update_same_conv)
  have "compute_directional_child_rects (SplitNode d (cs[i := c]) ws a) r z =
        compute_directional_child_rects (SplitNode d cs ws a) r z"
    by (rule directional_rects_cong) (simp_all add: minima)
  moreover have "compute_stacked_child_rects (SplitNode d (cs[i := c]) ws a) r z =
        compute_stacked_child_rects (SplitNode d cs ws a) r z"
    by (rule stacked_rects_cong) (simp_all add: minima)
  ultimately show ?case using t Cons.IH [OF t(3) get Cons.prems(3)] by (cases "d = Stacked") simp_all
qed simp

section \<open>The transaction\<close>

lemma measure_border_range: "0 \<le> fst (measure_border h r z b d f s) \<and> fst (measure_border h r z b d f s) < 65536"
proof -
  have "uint w < 65536" for w :: u16 using uint_lt2p [of w] by simp
  then show ?thesis by (simp add: measure_border_def Let_def)
qed

lemma moved_cell_count_small: "moved_cell_count (measure_candidate_on h r z i j w s c) < 65536"
  using measure_border_range by (simp add: measure_candidate_on_def Let_def) (smt (verit))

text \<open>How far the border of the split stands from where it stood in \<open>before\<close>, towards the donor.\<close>

definition border_shift :: "bool \<Rightarrow> rect \<Rightarrow> pane_sizing \<Rightarrow> nat \<Rightarrow> nat \<Rightarrow> split_node \<Rightarrow> split_node \<Rightarrow> int" where
  "border_shift h r z receiving donating before after =
     (let cell = \<lambda>s. (let q = compute_directional_child_rects s r z ! max receiving donating
                      in int (unat (if h then column (origin q) else row (origin q))))
      in if receiving < donating then cell after - cell before else cell before - cell after)"

lemma border_shift_measure:
  "border_shift h r z i j s (set_added_cell_count i j (resize_delta (weights s ! i)) (resize_delta (weights s ! j))
       (get_added_cell_count w c) s) =
     moved_cell_count (measure_candidate_on h r z i j w s c)"
  by (simp add: border_shift_def measure_candidate_on_def measure_border_def Let_def)

lemma border_shift_pad: "border_shift h r z i j (pad_weights s) s' = border_shift h r z i j s s'"
  by (simp add: border_shift_def Let_def directional_rects_pad)

lemma resize_split_spec:
  assumes "resize_split h r z i j requested s = (s', moved, spare)"
  shows "\<exists>added. s' = set_added_cell_count i j (resize_delta (weights s ! i)) (resize_delta (weights s ! j)) added s"
    and "requested \<le> 0 \<Longrightarrow> moved = 0"
    and "0 < unat moved \<Longrightarrow> int (unat moved) \<le> border_shift h r z i j s s'"
    and "spare = snd (measure_border h r z (max i j) j (compute_slot_floor s j h z) s)"
    and "0 < unat moved \<Longrightarrow> 0 < unat spare"
proof -
  let ?w = "compute_candidate_windows (int (unat (if h then column_count (rect_size r) else row_count (rect_size r))))
              (resize_delta (weights s ! i)) (resize_delta (weights s ! j))"
  obtain added where search: "search_border_move requested spare ?w (measure_candidate_on h r z i j ?w s) = (moved, added)"
    and s': "s' = set_added_cell_count i j (resize_delta (weights s ! i)) (resize_delta (weights s ! j)) added s"
    and spare: "spare = snd (measure_border h r z (max i j) j (compute_slot_floor s j h z) s)"
    using assms by (auto simp: resize_split_def Let_def split: prod.splits)
  show "\<exists>added. s' = set_added_cell_count i j (resize_delta (weights s ! i)) (resize_delta (weights s ! j)) added s"
    using s' by blast
  show "spare = snd (measure_border h r z (max i j) j (compute_slot_floor s j h z) s)" by (fact spare)
  have "(requested \<le> 0 \<longrightarrow> moved = 0) \<and>
      (0 < unat moved \<longrightarrow> int (unat moved) \<le> border_shift h r z i j s s' \<and> 0 < unat spare)"
    using search
  proof (rule search_border_move_spec)
    show "moved_cell_count (measure_candidate_on h r z i j ?w s c) < 65536" for c by (rule moved_cell_count_small)
  next
    fix c
    assume "0 < requested" "0 < spare" "added = get_added_cell_count ?w c"
      "int (unat moved) \<le> moved_cell_count (measure_candidate_on h r z i j ?w s c)"
    then show ?thesis by (simp add: s' border_shift_measure unat_gt_0 word_gt_0)
  qed simp
  then show "requested \<le> 0 \<Longrightarrow> moved = 0" "0 < unat moved \<Longrightarrow> int (unat moved) \<le> border_shift h r z i j s s'"
    "0 < unat moved \<Longrightarrow> 0 < unat spare" by simp_all
qed


text \<open>The receiver and the donor of a resize of the border between \<open>target\<close> and \<open>adjacent\<close>.\<close>

definition transfer_of :: "int \<Rightarrow> nat \<Rightarrow> nat \<Rightarrow> nat \<times> nat" where
  "transfer_of delta target adjacent = (if 0 < delta then (target, adjacent) else (adjacent, target))"

lemma resize_cases:
  assumes "find_pane_path t p = Some path"
  obtains (no_border) "find_resize_border t path (compute_split_direction dir) dir = Some None"
      "resize_layout_with_sizing t r p dir delta z = Some (Inl (NoAdjacentBorder p dir))"
  | (border) depth target adjacent s q receiving donating resized moved spare where
      "find_resize_border t path (compute_split_direction dir) dir = Some (Some (depth, target, adjacent))"
      "depth < length path" "get_split_at_path t (take depth path) = Some s"
      "direction s = compute_split_direction dir"
      "target < length (children s)" "adjacent < length (children s)" "target \<noteq> adjacent"
      "compute_rect_at_path t r (take depth path) z = Some q"
      "transfer_of delta target adjacent = (receiving, donating)"
      "resize_split (direction s = Horizontal) q z receiving donating \<bar>delta\<bar> (pad_weights s) = (resized, moved, spare)"
      "resize_layout_with_sizing t r p dir delta z =
         (if delta \<noteq> 0 \<and> moved = 0 then
            Some (Inl (if spare = 0 then DonorAtMinimumSize p dir (0 < delta) else BorderHeld p dir (0 < delta)))
          else map_option (\<lambda>t'. Inr (t', moved)) (update_node_at_path (\<lambda>_. Split resized) t (take depth path)))"
proof -
  have node: "get_node_at_path t path = Some (Pane p)" using find_pane_path_props(1) [OF assms] by simp
  from node show thesis
  proof (cases rule: find_resize_border_spec [of t path "Pane p" "compute_split_direction dir" dir])
    case none
    with assms show thesis by (intro no_border) (simp_all add: resize_layout_with_sizing_def Let_def)
  next
    case (border depth i j s)
    from border(3) have "get_node_at_path t (take depth path) = Some (Split s)" by (simp add: get_split_at_path_node)
    from compute_rect_at_path_Some [OF this] obtain q where q: "compute_rect_at_path t r (take depth path) z = Some q" by blast
    obtain receiving donating where tr: "transfer_of delta i j = (receiving, donating)" by fastforce
    obtain resized moved spare where rs:
      "resize_split (direction s = Horizontal) q z receiving donating \<bar>delta\<bar> (pad_weights s) = (resized, moved, spare)"
      by (rule prod_cases3)
    have "resize_layout_with_sizing t r p dir delta z =
         (if delta \<noteq> 0 \<and> moved = 0 then
            Some (Inl (if spare = 0 then DonorAtMinimumSize p dir (0 < delta) else BorderHeld p dir (0 < delta)))
          else map_option (\<lambda>t'. Inr (t', moved)) (update_node_at_path (\<lambda>_. Split resized) t (take depth path)))"
      using assms border q tr rs
      by (auto simp: resize_layout_with_sizing_def Let_def unsigned_abs_i16_def transfer_of_def split: if_splits)
    with border q tr rs show thesis by (intro that(2)) auto
  qed
qed

section \<open>A resize of a pair of panes\<close>

definition example_split :: "int \<Rightarrow> split_node" where
  "example_split d = SplitNode Horizontal [Pane (PaneId 1), Pane (PaneId 2)]
     [default_size_weight\<lparr>resize_delta := d\<rparr>, default_size_weight\<lparr>resize_delta := - d\<rparr>] 0"

lemmas example_sizes = example_tab_def from_size_at_origin_def compute_border_inclusive_minimum_def
  default_pane_sizing_def MIN_PANE_SIZE_def PANE_BORDER_SIZE_def from_size_sum_def default_size_weight_def
  from_primary_constraint_def

lemma example_kept: "list_kept_children (example_split d) example_tab default_pane_sizing =
  \<lparr>is_child_kept = [True, True], kept_weights = weights (example_split d), kept_floors = [4, 4], shared_cell_count = 80\<rparr>"
  by (simp add: list_kept_children_def example_split_def split_axis_and_cross_cell_counts_def keep_children.simps Let_def
   weight_at_def nth_opt_def compute_child_floor_def weight_floor_def sat_add_def sat_sub_def sat_mul_def example_sizes)

lemma example_shares: "compute_share_cell_counts (weights (example_split d)) 80 = [40, 40]"
  by (simp add: compute_share_cell_counts_def example_split_def example_sizes list_flexible_child_weight_pairs_def
     share_flexible_cells_def Let_def compute_flexible_share_def map_filter_def) (simp add: numeral_2_eq_2 [symmetric])

lemma example_counts: "(d = 0 \<or> d = 1) \<Longrightarrow> distribute_axis_cells (weights (example_split d)) [4, 4] 80 = [if d = 0 then 40 else 41, if d = 0 then 40 else 39]"
  by (simp add: distribute_axis_cells_def example_shares Let_def repair_cell_count_sum_def)
     (auto simp: apply_preferred_cell_counts_def apply_preferred_cell_count_def get_preferred_cell_count_def example_split_def example_sizes
    clamp_cell_counts_to_floors_def clamp_cell_count_to_floor_def apply_resize_deltas_def repair_cell_count_sum_def)

lemma example_rects: "(d = 0 \<or> d = 1) \<Longrightarrow> compute_directional_child_rects (example_split d) example_tab default_pane_sizing =
   [\<lparr>origin = \<lparr>column = 0, row = 0\<rparr>, rect_size = \<lparr>column_count = if d = 0 then 40 else 41, row_count = 24\<rparr>\<rparr>,
    \<lparr>origin = \<lparr>column = if d = 0 then 40 else 41, row = 0\<rparr>, rect_size = \<lparr>column_count = if d = 0 then 40 else 39, row_count = 24\<rparr>\<rparr>]"
  by (simp add: compute_directional_child_rects_def example_kept example_counts)
     (simp add: example_split_def place_child_def from_origin_and_size_def sat_add_def example_sizes)

lemma example_added: "set_added_cell_count 0 (Suc 0) 0 0 d (example_split 0) = example_split (clamp_i32 d)" if "d = 0 \<or> d = 1"
  using that by (auto simp: set_added_cell_count_def set_resize_delta_def example_split_def clamp_i32_def)

lemma example_resize_split: "resize_split True example_tab default_pane_sizing 0 (Suc 0) 1 (example_split 0) = (example_split 1, 1, 36)"
proof -
  have floor: "compute_slot_floor (example_split 0) (Suc 0) True default_pane_sizing = 4"
    by (simp add: compute_slot_floor_def example_split_def split_axis_and_cross_cell_counts_def Let_def nth_opt_def
      compute_child_floor_def weight_floor_def example_sizes)
  have measure: "measure_border True example_tab default_pane_sizing (Suc 0) (Suc 0) 4 (example_split d) =
      (if d = 0 then (40, 36) else (41, 35))" if "d = 0 \<or> d = 1" for d
    using that by (auto simp: measure_border_def example_rects Let_def sat_sub_def)
  have w: "compute_candidate_windows 80 0 0 = \<lparr>first_window_start = 1, first_window_length = 80,
      second_window_start = 81, candidate_count = 80\<rparr>" by (simp add: compute_candidate_windows_def Let_def)
  have offs: "resize_delta (weights (example_split 0) ! 0) = 0" "resize_delta (weights (example_split 0) ! Suc 0) = 0"
    by (simp_all add: example_split_def)
  let ?m = "measure_candidate_on True example_tab default_pane_sizing 0 (Suc 0) (compute_candidate_windows 80 0 0) (example_split 0)"
  have m: "?m 1 = \<lparr>moved_cell_count = 1, spare_cell_count = 35\<rparr>"
    using example_added [of 1] measure [of 0] measure [of 1]
    by (simp add: measure_candidate_on_def Let_def floor offs get_added_cell_count_def w clamp_i32_def)
  have "column_count (rect_size example_tab) = 80" by (simp add: example_sizes)
  then show ?thesis
    using example_added [of 1] measure [of 0]
    by (simp add: resize_split_def Let_def offs floor search_border_move_def find_stopping_candidate_def m w [symmetric]
        is_move_stopped_def find_first_candidate.simps get_added_cell_count_def clamp_i32_def)
       (simp add: w)
qed

lemma example_pair_split: "example_pair = Split (example_split 0)"
  by (simp add: example_pair_def with_equal_weights_def example_split_def default_size_weight_def
      from_primary_constraint_def numeral_2_eq_2)

lemma example_border:
  "find_pane_path example_pair (PaneId 1) = Some [0]"
  "find_resize_border example_pair [0] Horizontal Right = Some (Some (0, 0, 1))"
  by (simp_all add: example_pair_split example_split_def find_resize_border_def find_adjacent_child_index_def
      get_split_at_path_def)

lemma example_resize:
  "resize_layout_with_sizing example_pair example_tab (PaneId 1) Right 1 default_pane_sizing =
     Some (Inr (Split (example_split 1), 1))"
proof -
  have pad: "pad_weights (example_split 0) = example_split 0" by (simp add: pad_weights_def example_split_def)
  show ?thesis
    by (simp add: resize_layout_with_sizing_def Let_def unsigned_abs_i16_def get_split_at_path_def pad
        example_resize_split example_border [unfolded example_pair_split] example_pair_split)
qed

section \<open>Only offsets change\<close>

text \<open>
  C23. A resize never panics. It fails with \<open>ResizePaneNotFound\<close> exactly when the tree does not hold
  the pane. When it succeeds it changes resize offsets only: every split keeps its direction, children,
  active child, constraints and bounds, the panes are the same in the same order, and it reports zero
  moved cells exactly when zero were asked for.
\<close>

theorem resize_changes_offsets_only:
  "\<exists>result. resize_layout_with_sizing t r p dir delta z = Some result \<and>
     (result = Inl (ResizePaneNotFound p) \<longleftrightarrow> p \<notin> set (list_leaf_pane_ids t)) \<and>
     (\<forall>t' moved. result = Inr (t', moved) \<longrightarrow>
        without_offsets t' = without_offsets t \<and> list_leaf_pane_ids t' = list_leaf_pane_ids t \<and>
        (moved = 0 \<longleftrightarrow> delta = 0))"
proof (cases "find_pane_path t p")
  case None
  then have "resize_layout_with_sizing t r p dir delta z = Some (Inl (ResizePaneNotFound p))"
    by (simp add: resize_layout_with_sizing_def)
  then show ?thesis using None find_pane_path_None(1) [of t p] by simp
next
  case (Some path)
  then have has: "p \<in> set (list_leaf_pane_ids t)" using find_pane_path_None(1) [of t p] by simp
  from Some show ?thesis
  proof (cases rule: resize_cases [where r = r and dir = dir and delta = delta and z = z])
    case no_border
    then show ?thesis using has by simp
  next
    case (border depth target adjacent s q receiving donating resized moved spare)
    note spec = resize_split_spec [OF border(10)]
    from border(3) have node: "get_node_at_path t (take depth path) = Some (Split s)" by (simp add: get_split_at_path_node)
    from update_node_at_path_Some [OF node] obtain t' where
      t': "update_node_at_path (\<lambda>_. Split resized) t (take depth path) = Some t'" by blast
    from spec(1) have same: "without_offsets (Split resized) = without_offsets (Split s)"
      by (auto simp: resized_without_offsets)
    have "without_offsets t' = without_offsets t" by (rule update_without_offsets [OF t' node]) (rule same)
    moreover from this have "list_leaf_pane_ids t' = list_leaf_pane_ids t" by (metis without_offsets_leaves)
    moreover have "delta = 0 \<Longrightarrow> moved = 0" using spec(2) by simp
    ultimately show ?thesis using border(11) t' has by auto
  qed
qed

theorem resize_changes_offsets_only_witness:
  "without_offsets (Split (example_split 1)) = without_offsets example_pair \<and> (1::u16) \<noteq> 0"
  using resize_changes_offsets_only [of example_pair example_tab "PaneId 1" Right 1 default_pane_sizing]
  by (simp add: example_resize)

section \<open>The border moves\<close>

text \<open>
  C34. A successful resize moves the border it names. The border belongs to the split that
  \<open>find_resize_border\<close> finds; this split stands in the same rectangle before and after; the border is
  the leading edge of the later one of the two siblings, and it shifts from the receiver into the donor
  by at least the cells the call reports, which are more than none.
\<close>

theorem resize_moves_border:
  assumes "resize_layout_with_sizing t r p dir delta z = Some (Inr (t', moved))" and "delta \<noteq> 0"
  shows "\<exists>path depth target adjacent receiving donating s s' q.
    find_pane_path t p = Some path \<and>
    find_resize_border t path (compute_split_direction dir) dir = Some (Some (depth, target, adjacent)) \<and>
    (receiving, donating) = (if 0 < delta then (target, adjacent) else (adjacent, target)) \<and>
    get_split_at_path t (take depth path) = Some s \<and> get_split_at_path t' (take depth path) = Some s' \<and>
    compute_rect_at_path t r (take depth path) z = Some q \<and> compute_rect_at_path t' r (take depth path) z = Some q \<and>
    0 < unat moved \<and>
    int (unat moved) \<le> border_shift (direction s = Horizontal) q z receiving donating s s'"
proof -
  from assms obtain path where path: "find_pane_path t p = Some path"
    by (cases "find_pane_path t p") (auto simp: resize_layout_with_sizing_def)
  from path show ?thesis
  proof (cases rule: resize_cases [where r = r and dir = dir and delta = delta and z = z])
    case no_border
    then show ?thesis using assms by simp
  next
    case (border depth target adjacent s q receiving donating resized moved' spare)
    note spec = resize_split_spec [OF border(10)]
    from border(3) have node: "get_node_at_path t (take depth path) = Some (Split s)" by (simp add: get_split_at_path_node)
    have res: "moved' \<noteq> 0" "moved' = moved" "update_node_at_path (\<lambda>_. Split resized) t (take depth path) = Some t'"
      using assms border(11) by (auto split: if_splits)
    have same: "without_offsets (Split resized) = without_offsets (Split s)"
      using spec(1) by (auto simp: resized_without_offsets)
    have "get_node_at_path t' (take depth path) = Some (Split resized)"
      using update_node_at_path_Some [OF node, of "\<lambda>_. Split resized"] res(3) by simp
    then have "get_split_at_path t' (take depth path) = Some resized" by (simp add: get_split_at_path_node)
    moreover have "compute_rect_at_path t' r (take depth path) z = Some q"
      using compute_rect_at_path_update [OF res(3) node same] border(8) by simp
    moreover have "0 < unat moved" using res(1,2) by (simp add: unat_gt_0)
    moreover from this have "int (unat moved) \<le> border_shift (direction s = Horizontal) q z receiving donating s resized"
      using spec(3) res(2) by (simp add: border_shift_pad)
    moreover have "(receiving, donating) = (if 0 < delta then (target, adjacent) else (adjacent, target))"
      using border(9) by (simp add: transfer_of_def)
    ultimately show ?thesis using path border(1,3,8) by blast
  qed
qed

theorem resize_moves_border_witness:
  "\<exists>q s s'. compute_rect_at_path example_pair example_tab [] default_pane_sizing = Some q \<and>
     1 \<le> border_shift (direction s = Horizontal) q default_pane_sizing 0 1 s s'"
proof -
  from resize_moves_border [OF example_resize] example_border show ?thesis
    by (auto split: if_splits)
qed

end
