(* ===== verification/Content.thy ===== *)
theory Content
  imports Solver_Geometry
begin

text \<open>
  Content rectangles (\<open>koshi-layout/src/content.rs\<close>): the cells inside a shown pane's border, which
  size the pane's PTY. The properties rest on the solver interface.
\<close>

definition compute_content_rect :: "layout_solve \<Rightarrow> pane_id \<Rightarrow> rect \<Rightarrow> rect option" where
  "compute_content_rect solve p outer_pane_rect =
     (if p \<notin> set (suppressed_pane_ids solve) \<and> is_content_visible p outer_pane_rect (stack_headers solve)
      then Some (compute_inner_with_border outer_pane_rect) else None)"

definition list_content_rects :: "layout_solve \<Rightarrow> (pane_id \<times> rect option) list" where
  "list_content_rects solve = map (\<lambda>(p, r). (p, compute_content_rect solve p r)) (pane_rects solve)"

definition find_content_rect :: "layout_solve \<Rightarrow> pane_id \<Rightarrow> rect option" where
  "find_content_rect solve p =
     (case find_pane_rect solve p of
        None \<Rightarrow> None
      | Some outer_pane_rect \<Rightarrow> compute_content_rect solve p outer_pane_rect)"

lemma inner_cells: "within_grid r \<Longrightarrow> cells (compute_inner_with_border r) \<subseteq> cells r"
  by (auto simp: cells_def inner_with_border_measures within_grid_def)

context layout_solver
begin

lemma content_rect_outer:
  assumes "find_content_rect (solve t r) p = Some inner"
  obtains outer where "(p, outer) \<in> set (pane_rects (solve t r))" "inner = compute_inner_with_border outer"
    "is_content_visible p outer (stack_headers (solve t r))"
  using assms find_pane_rect_member [of t r p]
  by (auto simp: find_content_rect_def compute_content_rect_def split: option.splits if_splits)

text \<open>Content is never smaller than the configured pane minimum.\<close>

lemma content_rect_minimum:
  assumes "find_content_rect (solve t r) p = Some inner"
  shows "size_can_fit_inside (minimum_size sizing) (rect_size inner)"
proof -
  from assms obtain outer where outer: "(p, outer) \<in> set (pane_rects (solve t r))"
    "inner = compute_inner_with_border outer" "is_content_visible p outer (stack_headers (solve t r))"
    by (rule content_rect_outer)
  from solve_minimum [OF outer(1,3)] have
    "unat (column_count (minimum_size sizing)) + 2 \<le> width_of outer"
    "unat (row_count (minimum_size sizing)) + 2 \<le> height_of outer"
    by (simp_all add: is_leaf_within_minimum_def can_fit_inside_iff compute_border_inclusive_minimum_def
        PANE_BORDER_SIZE_def rect_measures)
  then have "unat (column_count (minimum_size sizing)) \<le> width_of inner"
    "unat (row_count (minimum_size sizing)) \<le> height_of inner"
    unfolding outer(2) inner_with_border_measures by simp_all
  then show ?thesis
    by (simp add: size_can_fit_inside_def word_le_nat_alt width_of_def height_of_def)
qed

lemma content_disjoint:
  assumes "within_grid r" "distinct (list_leaf_pane_ids t)" "p \<noteq> p'"
    and "find_content_rect (solve t r) p = Some q" "find_content_rect (solve t r) p' = Some q'"
  shows "cells q \<inter> cells q' = {}"
proof -
  from assms(4) obtain o1 where o1: "(p, o1) \<in> set (pane_rects (solve t r))" "q = compute_inner_with_border o1"
    "is_content_visible p o1 (stack_headers (solve t r))"
    by (rule content_rect_outer)
  from assms(5) obtain o2 where o2: "(p', o2) \<in> set (pane_rects (solve t r))" "q' = compute_inner_with_border o2"
    "is_content_visible p' o2 (stack_headers (solve t r))"
    by (rule content_rect_outer)
  have "within_grid o1" "within_grid o2"
    using inside_within_grid [OF assms(1)] pane_inside [OF assms(1,2)] o1 o2 by (auto simp: is_content_visible_def)
  then show ?thesis
    using panes_disjoint [OF assms(1,2) o1(1) o2(1) assms(3)] inner_cells o1(2) o2(2) by blast
qed

lemma list_find_content:
  assumes "distinct (list_leaf_pane_ids t)"
  shows "list_content_rects (solve t r) = map (\<lambda>p. (p, find_content_rect (solve t r) p)) (list_leaf_pane_ids t)"
proof -
  have "find_content_rect (solve t r) p = compute_content_rect (solve t r) p q"
    if "(p, q) \<in> set (pane_rects (solve t r))" for p q
    using that find_pane_rect_Some [OF assms, of r p q] by (simp add: find_content_rect_def)
  then have "map (\<lambda>(p, q). (p, compute_content_rect (solve t r) p q)) (pane_rects (solve t r)) =
      map (\<lambda>(p, q). (p, find_content_rect (solve t r) p)) (pane_rects (solve t r))"
    by (intro map_cong) auto
  then show ?thesis by (simp add: list_content_rects_def case_prod_unfold o_def flip: solve_leaves [of t r])
qed

end

text \<open>
  A pane's PTY is never sized below the configured pane minimum: whenever a solve gives a pane a
  content rectangle, the minimum size fits into it, in every mode and whatever the space.
\<close>

theorem content_rect_holds_minimum:
  assumes "find_content_rect (solve_layout_with_mode t mode r z) p = Some q"
  shows "size_can_fit_inside (minimum_size z) (rect_size q)"
  using assms by (rule moded.content_rect_minimum)

text \<open>One pane over a tab of 80 by 24 cells.\<close>

theorem content_rect_holds_minimum_witness:
  "\<exists>q. find_content_rect (solve_layout_with_mode (Pane (PaneId 1)) Tiled example_tab default_pane_sizing) (PaneId 1) = Some q \<and>
       size_can_fit_inside (minimum_size default_pane_sizing) (rect_size q)"
proof -
  have fit: "is_leaf_within_minimum example_tab default_pane_sizing"
    by (simp add: is_leaf_within_minimum_def can_fit_inside_iff example_tab_def from_size_at_origin_def
        compute_border_inclusive_minimum_def default_pane_sizing_def MIN_PANE_SIZE_def PANE_BORDER_SIZE_def)
  have shown: "\<not> is_empty example_tab" by (simp add: is_empty_def example_tab_def from_size_at_origin_def)
  have "find_content_rect (solve_layout_with_mode (Pane (PaneId 1)) Tiled example_tab default_pane_sizing) (PaneId 1) =
      Some (compute_inner_with_border example_tab)"
    using fit shown
    by (simp add: solve_layout_with_mode_def find_content_rect_def find_pane_rect_def solve_layout_with_sizing_sel
        solved_pane push_defs compute_content_rect_def is_content_visible_def)
  with content_rect_holds_minimum show ?thesis by blast
qed

text \<open>
  The content rectangles of two panes share no cell, and \<open>list_content_rects\<close> lists, in layout
  order, what \<open>find_content_rect\<close> finds for every leaf.
\<close>

theorem content_rects_separate:
  assumes "within_grid r" "distinct (list_leaf_pane_ids t)"
  shows "list_content_rects (solve_layout_with_mode t mode r z) =
           map (\<lambda>p. (p, find_content_rect (solve_layout_with_mode t mode r z) p)) (list_leaf_pane_ids t) \<and>
         (\<forall>p p' q q'. p \<noteq> p' \<and> find_content_rect (solve_layout_with_mode t mode r z) p = Some q \<and>
            find_content_rect (solve_layout_with_mode t mode r z) p' = Some q' \<longrightarrow> cells q \<inter> cells q' = {})"
  using moded.list_find_content [OF assms(2)] moded.content_disjoint [OF assms] by blast

theorem content_rects_separate_witness:
  "list_content_rects (solve_layout_with_mode example_pair Tiled example_tab default_pane_sizing) =
     map (\<lambda>p. (p, find_content_rect (solve_layout_with_mode example_pair Tiled example_tab default_pane_sizing) p))
       [PaneId 1, PaneId 2]"
  using content_rects_separate [OF example_pair_shape(3,2)]
  by (simp add: example_pair_def with_equal_weights_def)

end
