(* ===== verification/Neighbor.thy ===== *)
theory Neighbor
  imports Geometry Ids
begin

text \<open>
  Directional neighbor selection over solved rectangles (\<open>koshi-layout/src/neighbor.rs\<close>). Candidates
  are ranked by a lexicographic key; the reversed component prefers the larger overlap.
\<close>

section \<open>Edges and overlaps\<close>

definition compute_span_overlap :: "u16 \<Rightarrow> u16 \<Rightarrow> u16 \<Rightarrow> u16 \<Rightarrow> u16" where
  "compute_span_overlap first_span_start first_span_length second_span_start second_span_length =
     (let overlap_start = max first_span_start second_span_start;
          first_span_end = sat_add first_span_start first_span_length;
          second_span_end = sat_add second_span_start second_span_length
      in sat_sub (min first_span_end second_span_end) overlap_start)"

definition compute_right_edge :: "rect \<Rightarrow> u16" where
  "compute_right_edge r = sat_add (column (origin r)) (column_count (rect_size r))"

definition compute_bottom_edge :: "rect \<Rightarrow> u16" where
  "compute_bottom_edge r = sat_add (row (origin r)) (row_count (rect_size r))"

definition compute_facing_edge_distance :: "rect \<Rightarrow> rect \<Rightarrow> direction \<Rightarrow> u16 option" where
  "compute_facing_edge_distance source candidate dir =
     (let source_right_edge = compute_right_edge source;
          source_bottom_edge = compute_bottom_edge source;
          candidate_right_edge = compute_right_edge candidate;
          candidate_bottom_edge = compute_bottom_edge candidate
      in case dir of
           Left \<Rightarrow> (if candidate_right_edge \<le> column (origin source)
                    then Some (column (origin source) - candidate_right_edge) else None)
         | Right \<Rightarrow> (if source_right_edge \<le> column (origin candidate)
                     then Some (column (origin candidate) - source_right_edge) else None)
         | Up \<Rightarrow> (if candidate_bottom_edge \<le> row (origin source)
                  then Some (row (origin source) - candidate_bottom_edge) else None)
         | Down \<Rightarrow> (if source_bottom_edge \<le> row (origin candidate)
                    then Some (row (origin candidate) - source_bottom_edge) else None))"

definition compute_perpendicular_overlap :: "rect \<Rightarrow> rect \<Rightarrow> direction \<Rightarrow> u16" where
  "compute_perpendicular_overlap source candidate dir =
     (if dir = Left \<or> dir = Right then
        compute_span_overlap (row (origin source)) (row_count (rect_size source))
          (row (origin candidate)) (row_count (rect_size candidate))
      else
        compute_span_overlap (column (origin source)) (column_count (rect_size source))
          (column (origin candidate)) (column_count (rect_size candidate)))"

type_synonym candidate_rank = "u16 \<times> u16 reverse \<times> u16 \<times> u16 \<times> u16 \<times> pane_id"

definition rank_candidate :: "rect \<Rightarrow> direction \<Rightarrow> pane_id \<times> rect \<Rightarrow> (candidate_rank \<times> pane_id) option" where
  "rank_candidate source dir candidate =
     (case candidate of (p, r) \<Rightarrow>
        (case compute_facing_edge_distance source r dir of
           None \<Rightarrow> None
         | Some edge_distance \<Rightarrow>
             (let perpendicular_overlap = compute_perpendicular_overlap source r dir in
              if perpendicular_overlap = 0 then None
              else
                (let perpendicular_origin =
                       (if dir = Left \<or> dir = Right then row (origin r) else column (origin r))
                 in Some ((edge_distance, Reverse perpendicular_overlap, perpendicular_origin,
                           row (origin r), column (origin r), p), p)))))"

definition select_directional_neighbor ::
  "rect \<Rightarrow> (pane_id \<times> rect) list \<Rightarrow> direction \<Rightarrow> pane_id option" where
  "select_directional_neighbor source candidates dir =
     map_option snd
       (min_by_key fst
          (List.map_filter (rank_candidate source dir)
             (filter (\<lambda>(_, r). \<not> is_empty r) candidates)))"

section \<open>What a candidate has to be\<close>

text \<open>The rows or columns between the two rectangles, and the ones they share, as natural numbers.\<close>

definition edge_gap :: "direction \<Rightarrow> rect \<Rightarrow> rect \<Rightarrow> nat" where
  "edge_gap dir s r = (case dir of
     Left \<Rightarrow> left_of s - (left_of r + width_of r)
   | Right \<Rightarrow> left_of r - (left_of s + width_of s)
   | Up \<Rightarrow> top_of s - (top_of r + height_of r)
   | Down \<Rightarrow> top_of r - (top_of s + height_of s))"

definition beyond :: "direction \<Rightarrow> rect \<Rightarrow> rect \<Rightarrow> bool" where
  "beyond dir s r = (case dir of
     Left \<Rightarrow> left_of r + width_of r \<le> left_of s
   | Right \<Rightarrow> left_of s + width_of s \<le> left_of r
   | Up \<Rightarrow> top_of r + height_of r \<le> top_of s
   | Down \<Rightarrow> top_of s + height_of s \<le> top_of r)"

definition shared_span :: "direction \<Rightarrow> rect \<Rightarrow> rect \<Rightarrow> nat" where
  "shared_span dir s r =
     (if dir = Left \<or> dir = Right
      then min (top_of s + height_of s) (top_of r + height_of r) - max (top_of s) (top_of r)
      else min (left_of s + width_of s) (left_of r + width_of r) - max (left_of s) (left_of r))"

definition faces :: "direction \<Rightarrow> rect \<Rightarrow> rect \<Rightarrow> bool" where
  "faces dir s r \<longleftrightarrow> \<not> is_empty r \<and> beyond dir s r \<and> 0 < shared_span dir s r"

type_synonym neighbor_rank = "nat \<times> nat reverse \<times> nat \<times> nat \<times> nat \<times> pane_id"

definition neighbor_rank :: "direction \<Rightarrow> rect \<Rightarrow> pane_id \<Rightarrow> rect \<Rightarrow> neighbor_rank" where
  "neighbor_rank dir s p r =
     (edge_gap dir s r, Reverse (shared_span dir s r),
      if dir = Left \<or> dir = Right then top_of r else left_of r, top_of r, left_of r, p)"

definition nat_rank :: "candidate_rank \<Rightarrow> neighbor_rank" where
  "nat_rank k = (case k of (d, v, n, r, c, p) \<Rightarrow>
     (unat d, Reverse (unat (unreverse v)), unat n, unat r, unat c, p))"

lemma nat_rank_le: "nat_rank k \<le> nat_rank l \<longleftrightarrow> k \<le> l"
  by (cases k; cases l)
     (auto simp: nat_rank_def less_eq_reverse_def less_reverse_def word_le_nat_alt word_less_nat_alt)

lemma unat_edges:
  "within_grid r \<Longrightarrow> unat (compute_right_edge r) = left_of r + width_of r"
  "within_grid r \<Longrightarrow> unat (compute_bottom_edge r) = top_of r + height_of r"
  by (simp_all add: compute_right_edge_def compute_bottom_edge_def unat_sat_add within_grid_def rect_measures)

lemma facing_edge_distance:
  assumes "within_grid s" "within_grid r"
  shows "case compute_facing_edge_distance s r dir of
           None \<Rightarrow> \<not> beyond dir s r
         | Some d \<Rightarrow> beyond dir s r \<and> unat d = edge_gap dir s r"
  using assms
  by (cases dir)
     (simp_all add: compute_facing_edge_distance_def Let_def beyond_def edge_gap_def word_le_nat_alt unat_edges
       unat_sub_small flip: left_of_def top_of_def)

lemma unat_span_overlap:
  "unat a + unat n \<le> 65535 \<Longrightarrow> unat b + unat m \<le> 65535 \<Longrightarrow>
     unat (compute_span_overlap a n b m) = min (unat a + unat n) (unat b + unat m) - max (unat a) (unat b)"
  by (simp add: compute_span_overlap_def Let_def unat_sat_sub unat_sat_add unat_min unat_max)

lemma perpendicular_overlap:
  "within_grid s \<Longrightarrow> within_grid r \<Longrightarrow> unat (compute_perpendicular_overlap s r dir) = shared_span dir s r"
  by (simp add: compute_perpendicular_overlap_def shared_span_def within_grid_def rect_measures unat_span_overlap)

lemma rank_candidate_iff:
  assumes "within_grid s" "within_grid r" "\<not> is_empty r"
  shows "case rank_candidate s dir (p, r) of
           None \<Rightarrow> \<not> faces dir s r
         | Some (k, q) \<Rightarrow> faces dir s r \<and> q = p \<and> nat_rank k = neighbor_rank dir s p r"
proof (cases "compute_facing_edge_distance s r dir")
  case None
  then show ?thesis using facing_edge_distance [OF assms(1,2), of dir] by (simp add: rank_candidate_def faces_def)
next
  case (Some d)
  have "compute_perpendicular_overlap s r dir = 0 \<longleftrightarrow> shared_span dir s r = 0"
    using perpendicular_overlap [OF assms(1,2), of dir] by (metis unat_eq_0)
  with Some facing_edge_distance [OF assms(1,2), of dir] perpendicular_overlap [OF assms(1,2), of dir] assms(3)
  show ?thesis
    by (simp add: rank_candidate_def faces_def Let_def nat_rank_def neighbor_rank_def left_of_def top_of_def)
qed

text \<open>
  C38. The directional neighbor is the best of the panes the user sees in that direction. Over
  rectangles within the grid, a neighbor is selected exactly when some candidate lies wholly beyond
  the source's edge and shares a row (or column) with it; the selected one has the smallest distance,
  then the largest shared span, then the smallest origin across, row, column and pane id.
\<close>

theorem select_directional_neighbor_spec:
  assumes "within_grid s" "\<forall>(p, r) \<in> set candidates. within_grid r"
  shows "case select_directional_neighbor s candidates dir of
           None \<Rightarrow> \<forall>(p, r) \<in> set candidates. \<not> faces dir s r
         | Some p \<Rightarrow> \<exists>r. (p, r) \<in> set candidates \<and> faces dir s r \<and>
             (\<forall>(p', r') \<in> set candidates. faces dir s r' \<longrightarrow> neighbor_rank dir s p r \<le> neighbor_rank dir s p' r')"
proof -
  let ?ranked = "List.map_filter (rank_candidate s dir) (filter (\<lambda>(_, r). \<not> is_empty r) candidates)"
  have mem: "kq \<in> set ?ranked \<longleftrightarrow>
      (\<exists>p r. (p, r) \<in> set candidates \<and> \<not> is_empty r \<and> rank_candidate s dir (p, r) = Some kq)" for kq
    by (auto simp: set_map_filter)
  have faced: "\<exists>k. (k, p) \<in> set ?ranked \<and> nat_rank k = neighbor_rank dir s p r"
    if "(p, r) \<in> set candidates" "faces dir s r" for p r
  proof -
    have "within_grid r" "\<not> is_empty r" using that assms(2) by (auto simp: faces_def)
    from rank_candidate_iff [OF assms(1) this, of dir p] that(2) obtain k where
      "rank_candidate s dir (p, r) = Some (k, p)" "nat_rank k = neighbor_rank dir s p r"
      by (auto split: option.splits)
    with mem that(1) \<open>\<not> is_empty r\<close> show ?thesis by blast
  qed
  show ?thesis
  proof (cases "min_by_key fst ?ranked")
    case None
    then have "?ranked = []" by simp
    with faced have "\<forall>(p, r) \<in> set candidates. \<not> faces dir s r" by force
    with None show ?thesis by (simp add: select_directional_neighbor_def)
  next
    case (Some kq)
    obtain k p where kq: "kq = (k, p)" by fastforce
    note least = min_by_key_least [OF Some]
    from least mem [of kq] kq obtain p' r where r: "(p', r) \<in> set candidates" "\<not> is_empty r"
      "rank_candidate s dir (p', r) = Some (k, p)" by auto
    have "within_grid r" using r(1) assms(2) by auto
    from rank_candidate_iff [OF assms(1) this r(2), of dir p'] r(3)
    have p: "faces dir s r" "p' = p" "nat_rank k = neighbor_rank dir s p r" by auto
    have "neighbor_rank dir s p r \<le> neighbor_rank dir s q r'" if "(q, r') \<in> set candidates" "faces dir s r'" for q r'
      using faced [OF that] least kq p(3) by (metis fst_conv nat_rank_le)
    with r p kq Some show ?thesis
      unfolding select_directional_neighbor_def by auto
  qed
qed

text \<open>Two panes to the right of the source: the one at the upper row is selected.\<close>

definition example_source :: rect where
  "example_source = from_size_at_origin \<lparr>column_count = 10, row_count = 10\<rparr>"

definition example_candidates :: "(pane_id \<times> rect) list" where
  "example_candidates =
     [(PaneId 1, from_origin_and_size \<lparr>column = 10, row = 0\<rparr> \<lparr>column_count = 5, row_count = 5\<rparr>),
      (PaneId 2, from_origin_and_size \<lparr>column = 10, row = 5\<rparr> \<lparr>column_count = 5, row_count = 5\<rparr>)]"

theorem select_directional_neighbor_spec_witness:
  "select_directional_neighbor example_source example_candidates Right = Some (PaneId 1)"
proof -
  have grid: "within_grid example_source" "\<forall>(p, r) \<in> set example_candidates. within_grid r"
    by (simp_all add: example_source_def example_candidates_def within_grid_def)
  have face: "faces Right example_source r"
    "neighbor_rank Right example_source q r = (0, Reverse 5, top_of r, top_of r, 10, q)"
    if "(q, r) \<in> set example_candidates" for q r
    using that by (auto simp: faces_def beyond_def shared_span_def is_empty_iff example_source_def example_candidates_def
        neighbor_rank_def edge_gap_def)
  from select_directional_neighbor_spec [OF grid, of Right] face show ?thesis
    by (auto simp: example_candidates_def split: option.splits)
qed

end
