(* ===== verification/Regions.thy ===== *)
theory Regions
  imports Solver_Geometry
begin

text \<open>
  Ordered regions at the viewport edges (\<open>koshi-layout/src/regions.rs\<close>): every region is cut off the
  rectangle the earlier ones left.
\<close>

datatype edge = TopEdge | BottomEdge | LeftEdge | RightEdge

record region_geometry =
  region_edge :: edge
  extent_cell_count :: u16

record solved_regions =
  region_rects :: "rect list"
  pane_rect :: rect

text \<open>One turn of the loop: the region's rectangle and the rectangle that remains.\<close>

definition solve_region_rect :: "rect \<Rightarrow> region_geometry \<Rightarrow> rect \<times> rect" where
  "solve_region_rect remaining region =
     (let o1 = origin remaining; s1 = rect_size remaining in
      case region_edge region of
        TopEdge \<Rightarrow>
          (let rows = min (extent_cell_count region) (row_count s1)
           in (from_origin_and_size o1 \<lparr>column_count = column_count s1, row_count = rows\<rparr>,
               remaining\<lparr>origin := o1\<lparr>row := row o1 + rows\<rparr>, rect_size := s1\<lparr>row_count := row_count s1 - rows\<rparr>\<rparr>))
      | BottomEdge \<Rightarrow>
          (let rows = min (extent_cell_count region) (row_count s1)
           in (from_origin_and_size \<lparr>column = column o1, row = row o1 + row_count s1 - rows\<rparr>
                 \<lparr>column_count = column_count s1, row_count = rows\<rparr>,
               remaining\<lparr>rect_size := s1\<lparr>row_count := row_count s1 - rows\<rparr>\<rparr>))
      | LeftEdge \<Rightarrow>
          (let columns = min (extent_cell_count region) (column_count s1)
           in (from_origin_and_size o1 \<lparr>column_count = columns, row_count = row_count s1\<rparr>,
               remaining\<lparr>origin := o1\<lparr>column := column o1 + columns\<rparr>,
                 rect_size := s1\<lparr>column_count := column_count s1 - columns\<rparr>\<rparr>))
      | RightEdge \<Rightarrow>
          (let columns = min (extent_cell_count region) (column_count s1)
           in (from_origin_and_size \<lparr>column = column o1 + column_count s1 - columns, row = row o1\<rparr>
                 \<lparr>column_count = columns, row_count = row_count s1\<rparr>,
               remaining\<lparr>rect_size := s1\<lparr>column_count := column_count s1 - columns\<rparr>\<rparr>)))"

fun solve_regions_from :: "rect \<Rightarrow> region_geometry list \<Rightarrow> rect list \<times> rect" where
  "solve_regions_from remaining [] = ([], remaining)"
| "solve_regions_from remaining (g # gs) =
     (case solve_region_rect remaining g of (region_rect, remaining') \<Rightarrow>
      case solve_regions_from remaining' gs of (rects, remaining'') \<Rightarrow> (region_rect # rects, remaining''))"

definition solve_region_rects :: "cell_size \<Rightarrow> region_geometry list \<Rightarrow> solved_regions" where
  "solve_region_rects viewport_size region_geometries =
     (case solve_regions_from (from_size_at_origin viewport_size) region_geometries of
        (rects, remaining) \<Rightarrow> \<lparr>region_rects = rects, pane_rect = remaining\<rparr>)"

lemma cut_axis:
  fixes a n e :: u16
  assumes "unat a + unat n \<le> 65535"
  shows "unat (a + min e n) = unat a + min (unat e) (unat n)" "unat (n - min e n) = unat n - min (unat e) (unat n)"
    "unat (a + n - min e n) = unat a + unat n - min (unat e) (unat n)"
proof -
  have m: "unat (min e n) = min (unat e) (unat n)" by (rule unat_min)
  show "unat (a + min e n) = unat a + min (unat e) (unat n)"
    using assms m by (subst unat_add_small) simp_all
  show "unat (n - min e n) = unat n - min (unat e) (unat n)"
    using m by (subst unat_sub_small) simp_all
  have "unat (a + n) = unat a + unat n" using assms by (intro unat_add_small) simp
  then show "unat (a + n - min e n) = unat a + unat n - min (unat e) (unat n)"
    using m by (subst unat_sub_small) simp_all
qed

lemma solve_region_rect_cells:
  assumes "within_grid remaining" "solve_region_rect remaining g = (region, remaining')"
  shows "cells region \<union> cells remaining' = cells remaining" "cells region \<inter> cells remaining' = {}"
    "within_grid remaining'"
proof -
  have col: "unat (column (origin remaining)) + unat (column_count (rect_size remaining)) \<le> 65535"
    and row: "unat (row (origin remaining)) + unat (row_count (rect_size remaining)) \<le> 65535"
    using assms(1) by (simp_all add: within_grid_def rect_measures)
  note cuts = cut_axis [OF col] cut_axis [OF row]
  have "cells region \<union> cells remaining' = cells remaining \<and> cells region \<inter> cells remaining' = {} \<and>
      within_grid remaining'"
    using assms(2) col row
    by (cases "region_edge g")
       (auto simp: solve_region_rect_def Let_def cells_def within_grid_def left_of_def top_of_def width_of_def
          height_of_def from_origin_and_size_def cuts unat_min)
  then show "cells region \<union> cells remaining' = cells remaining" "cells region \<inter> cells remaining' = {}"
    "within_grid remaining'" by blast+
qed


lemma solve_regions_from_cells:
  "within_grid r \<Longrightarrow> solve_regions_from r gs = (rects, remaining) \<Longrightarrow>
     length rects = length gs \<and> (\<Union>q \<in> set (rects @ [remaining]). cells q) = cells r \<and>
     separated r (rects @ [remaining])"
proof (induction gs arbitrary: r rects)
  case Nil
  then show ?case by (simp add: separated_self)
next
  case (Cons g gs)
  obtain region r' where step: "solve_region_rect r g = (region, r')" by fastforce
  obtain rects' where rest: "solve_regions_from r' gs = (rects', remaining)" "rects = region # rects'"
    using Cons.prems(2) step by (auto split: prod.splits)
  note cut = solve_region_rect_cells [OF Cons.prems(1) step]
  from Cons.IH [OF cut(3) rest(1)] have IH: "length rects' = length gs"
    "(\<Union>q \<in> set (rects' @ [remaining]). cells q) = cells r'" "separated r' (rects' @ [remaining])" by auto
  have "\<forall>q \<in> set (rects' @ [remaining]). cells region \<inter> cells q = {}"
    using IH(3) cut(2) unfolding separated_def by blast
  moreover have "\<forall>q \<in> set (rects' @ [remaining]). cells q \<subseteq> cells r" using IH(2) cut(1) by blast
  moreover have "cells region \<subseteq> cells r" using cut(1) by blast
  ultimately have "separated r (region # rects' @ [remaining])"
    using IH(3) by (simp add: separated_def)
  moreover have "(\<Union>q \<in> set (region # rects' @ [remaining]). cells q) = cells r"
    using IH(2) cut(1) by auto
  ultimately show ?case using rest(2) IH(1) by simp
qed

lemma viewport_within_grid: "within_grid (from_size_at_origin s)"
  using unat_u16_le [of "column_count s"] unat_u16_le [of "row_count s"] by (simp add: within_grid_def)

text \<open>
  C39. The regions and the pane rectangle partition the viewport: one rectangle per region, all
  pairwise disjoint, together with the pane rectangle exactly the cells of the viewport, whatever the
  extents.
\<close>

theorem solve_region_rects_partition:
  "length (region_rects (solve_region_rects viewport gs)) = length gs \<and>
   (\<Union>q \<in> set (pane_rect (solve_region_rects viewport gs) # region_rects (solve_region_rects viewport gs)). cells q) =
     cells (from_size_at_origin viewport) \<and>
   sorted_wrt (\<lambda>p q. cells p \<inter> cells q = {})
     (region_rects (solve_region_rects viewport gs) @ [pane_rect (solve_region_rects viewport gs)])"
proof -
  obtain rects remaining where sol: "solve_regions_from (from_size_at_origin viewport) gs = (rects, remaining)" by fastforce
  from solve_regions_from_cells [OF viewport_within_grid sol] sol show ?thesis
    by (auto simp: solve_region_rects_def separated_def)
qed

end
