(* ===== verification/Template.thy ===== *)
theory Template
  imports Solver_Geometry
begin

text \<open>
  Layout templates (\<open>koshi-layout/src/template.rs\<close>): the layout tree of a profile before its panes
  exist. Paths and environment strings are character lists; a \<open>BTreeMap\<close> is a finite map given by
  its key-sorted association list.
\<close>

section \<open>Data\<close>

record command_template =
  program :: string
  arguments :: "string list"

record terminal_template =
  command :: "command_template option"
  working_directory :: "string option"
  environment_variables :: "(string \<times> string) list"

datatype template_node = Leaf terminal_template | TemplateSplit template_split
  and template_split =
    TemplateSplitNode (template_direction: split_direction) (template_children: "template_node list")
      (template_weights: "size_weight list") (template_active_child_index: nat)

record tab_template =
  root :: template_node
  focused_leaf_index :: nat

record profile_template =
  tabs :: "tab_template list"
  focused_tab_index :: nat
  is_locked :: bool

datatype template_error = PaneCountMismatch (expected_leaf_count: nat) (provided_pane_id_count: nat)

lemma template_node_induct [case_names Leaf Split]:
  assumes "\<And>x. P (Leaf x)"
    and "\<And>d cs ws a. (\<And>c. c \<in> set cs \<Longrightarrow> P c) \<Longrightarrow> P (TemplateSplit (TemplateSplitNode d cs ws a))"
  shows "P t"
  by (rule template_node.induct [of P "\<lambda>s. P (TemplateSplit s)"]) (auto intro: assms)

section \<open>Operations\<close>

fun list_leaf_templates :: "template_node \<Rightarrow> terminal_template list" where
  "list_leaf_templates (Leaf x) = [x]"
| "list_leaf_templates (TemplateSplit (TemplateSplitNode d cs ws a)) = concat (map list_leaf_templates cs)"

fun count_leaf_templates :: "template_node \<Rightarrow> nat" where
  "count_leaf_templates (Leaf x) = 1"
| "count_leaf_templates (TemplateSplit (TemplateSplitNode d cs ws a)) = sum_list (map count_leaf_templates cs)"

function find_first_visible_leaf_index :: "template_node \<Rightarrow> nat" where
  "find_first_visible_leaf_index (Leaf x) = 0"
| "find_first_visible_leaf_index (TemplateSplit (TemplateSplitNode d cs ws a)) =
     (let active = (if d = Stacked then min a (length cs - 1) else 0)
      in if active < length cs then
           sum_list (map count_leaf_templates (take active cs)) + find_first_visible_leaf_index (cs ! active)
         else 0)"
  by pat_completeness auto
termination
  by (relation "measure size") (auto simp: size_list_estimation' [OF nth_mem] dest!: nth_mem
      size_list_estimation' [where f = size, OF _ order_refl])

text \<open>The walk that fills the leaves; the counter of the code is the list of the ids still unused.\<close>

fun build_layout_subtree :: "template_node \<Rightarrow> pane_id list \<Rightarrow> (layout_node \<times> pane_id list) option"
  and build_layout_children :: "template_node list \<Rightarrow> pane_id list \<Rightarrow> (layout_node list \<times> pane_id list) option" where
  "build_layout_subtree (Leaf x) ps = (case ps of [] \<Rightarrow> None | p # rest \<Rightarrow> Some (Pane p, rest))"
| "build_layout_subtree (TemplateSplit (TemplateSplitNode d cs ws a)) ps =
     map_option (\<lambda>(ns, rest). (Split (SplitNode d ns ws a), rest)) (build_layout_children cs ps)"
| "build_layout_children [] ps = Some ([], ps)"
| "build_layout_children (c # cs) ps =
     (case build_layout_subtree c ps of
        None \<Rightarrow> None
      | Some (n, rest) \<Rightarrow> map_option (\<lambda>(ns, rest'). (n # ns, rest')) (build_layout_children cs rest))"

definition build_layout_node :: "template_node \<Rightarrow> pane_id list \<Rightarrow> (template_error + layout_node) option" where
  "build_layout_node t pane_ids =
     (if length pane_ids \<noteq> count_leaf_templates t
      then Some (Inl (PaneCountMismatch (count_leaf_templates t) (length pane_ids)))
      else map_option (\<lambda>(n, _). Inr n) (build_layout_subtree t pane_ids))"

section \<open>Instantiation\<close>

lemma count_leaves: "count_leaf_templates t = length (list_leaf_templates t)"
proof (induction t rule: template_node_induct)
  case (Split d cs ws a)
  then show ?case by (simp add: length_concat o_def cong: map_cong)
qed simp

text \<open>The same tree, a pane in place of every leaf.\<close>

fun same_shape :: "template_node \<Rightarrow> layout_node \<Rightarrow> bool" where
  "same_shape (Leaf x) (Pane p) = True"
| "same_shape (TemplateSplit (TemplateSplitNode d cs ws a)) (Split (SplitNode d' ns ws' a')) \<longleftrightarrow>
     d' = d \<and> ws' = ws \<and> a' = a \<and> list_all2 same_shape cs ns"
| "same_shape _ _ = False"

lemma build_layout_subtree_ok:
  "count_leaf_templates t \<le> length ps \<Longrightarrow>
     \<exists>n. build_layout_subtree t ps = Some (n, drop (count_leaf_templates t) ps) \<and>
         list_leaf_pane_ids n = take (count_leaf_templates t) ps \<and> same_shape t n"
  "sum_list (map count_leaf_templates cs) \<le> length ps \<Longrightarrow>
     \<exists>ns. build_layout_children cs ps = Some (ns, drop (sum_list (map count_leaf_templates cs)) ps) \<and>
          concat (map list_leaf_pane_ids ns) = take (sum_list (map count_leaf_templates cs)) ps \<and>
          list_all2 same_shape cs ns"
proof (induction t ps and cs ps rule: build_layout_subtree_build_layout_children.induct)
  case (1 x ps)
  then show ?case by (cases ps) simp_all
next
  case (2 d cs ws a ps)
  then show ?case by fastforce
next
  case (3 ps)
  then show ?case by simp
next
  case (4 c cs ps)
  from 4(1) 4(3) obtain n where n: "build_layout_subtree c ps = Some (n, drop (count_leaf_templates c) ps)"
    "list_leaf_pane_ids n = take (count_leaf_templates c) ps" "same_shape c n" by auto
  have "sum_list (map count_leaf_templates cs) \<le> length (drop (count_leaf_templates c) ps)" using 4(3) by simp
  from 4(2) [OF n(1) refl this] obtain ns where
    "build_layout_children cs (drop (count_leaf_templates c) ps) =
       Some (ns, drop (sum_list (map count_leaf_templates cs)) (drop (count_leaf_templates c) ps))"
    "concat (map list_leaf_pane_ids ns) = take (sum_list (map count_leaf_templates cs)) (drop (count_leaf_templates c) ps)"
    "list_all2 same_shape cs ns" by blast
  with n show ?case by (auto simp: take_add add.commute)
qed

text \<open>
  C40. A template instantiates exactly when it gets one pane id per leaf, and never panics: the tree has
  the template's structure, directions, weights and expanded members, and its leaves are the given ids
  in order.
\<close>

theorem build_layout_node_spec:
  "if length ps = length (list_leaf_templates t)
   then \<exists>n. build_layout_node t ps = Some (Inr n) \<and> list_leaf_pane_ids n = ps \<and> same_shape t n
   else build_layout_node t ps = Some (Inl (PaneCountMismatch (length (list_leaf_templates t)) (length ps)))"
  using build_layout_subtree_ok(1) [of t ps] by (auto simp: build_layout_node_def count_leaves)


section \<open>The first visible leaf\<close>

fun template_populated :: "template_node \<Rightarrow> bool" where
  "template_populated (Leaf x) = True"
| "template_populated (TemplateSplit (TemplateSplitNode d cs ws a)) \<longleftrightarrow>
     cs \<noteq> [] \<and> (\<forall>c \<in> set cs. template_populated c)"

lemma same_shape_leaves: "same_shape t n \<Longrightarrow> count_leaf_templates t = length (list_leaf_pane_ids n)"
proof (induction t n rule: same_shape.induct)
  case (2 d cs ws a d' ns ws' a')
  then have all2: "list_all2 same_shape cs ns" by simp
  then have "count_leaf_templates (cs ! i) = length (list_leaf_pane_ids (ns ! i))" if "i < length ns" for i
    using 2(1) [of "cs ! i" "ns ! i"] that by (simp add: list_all2_conv_all_nth)
  with all2 have "map count_leaf_templates cs = map (length \<circ> list_leaf_pane_ids) ns"
    by (auto simp: list_all2_conv_all_nth intro!: nth_equalityI)
  then show ?case by (simp add: length_concat o_def)
qed simp_all

lemma nth_concat_child:
  assumes "i < length xss" "k < length (xss ! i)"
  shows "sum_list (map length (take i xss)) + k < length (concat xss)"
    "concat xss ! (sum_list (map length (take i xss)) + k) = xss ! i ! k"
proof -
  have split: "concat xss = concat (take i xss) @ xss ! i @ concat (drop (Suc i) xss)"
    using assms(1) by (metis concat_append concat.simps(2) id_take_nth_drop)
  show "sum_list (map length (take i xss)) + k < length (concat xss)"
    "concat xss ! (sum_list (map length (take i xss)) + k) = xss ! i ! k"
    using assms(2) by (simp_all add: split nth_append length_concat)
qed

lemma first_visible_leaf:
  "same_shape t n \<Longrightarrow> template_populated t \<Longrightarrow> distinct (list_leaf_pane_ids n) \<Longrightarrow>
     find_first_visible_leaf_index t < length (list_leaf_pane_ids n) \<and>
     \<not> is_pane_collapsed n (list_leaf_pane_ids n ! find_first_visible_leaf_index t) []"
proof (induction t arbitrary: n rule: template_node_induct)
  case (Leaf x)
  then show ?case by (cases n rule: paired.cases) simp_all
next
  case (Split d cs ws a)
  from Split.prems(1) obtain ns where n: "n = Split (SplitNode d ns ws a)" and all2: "list_all2 same_shape cs ns"
    by (cases n rule: paired.cases) auto
  have len: "length cs = length ns" using all2 by (rule list_all2_lengthD)
  let ?active = "if d = Stacked then min a (length cs - 1) else 0"
  let ?s = "SplitNode d ns ws a"
  have "cs \<noteq> []" using Split.prems(2) by simp
  then have active: "?active < length cs" by (cases cs) auto
  have shape: "same_shape (cs ! ?active) (ns ! ?active)" using all2 active by (rule list_all2_nthD)
  have dist: "distinct (concat (map list_leaf_pane_ids ns))" using Split.prems(3) n by simp
  let ?k = "find_first_visible_leaf_index (cs ! ?active)" and ?ls = "list_leaf_pane_ids (ns ! ?active)"
  have "distinct ?ls" using distinct_concat_nth [OF dist, of ?active] active len by simp
  with Split.IH [of "cs ! ?active" "ns ! ?active"] shape active Split.prems(2)
  have IH: "?k < length ?ls" "\<not> is_pane_collapsed (ns ! ?active) (?ls ! ?k) []" by auto
  have "map count_leaf_templates (take ?active cs) = map length (take ?active (map list_leaf_pane_ids ns))"
    using all2 len active same_shape_leaves
    by (intro nth_equalityI) (auto simp: list_all2_conv_all_nth)
  then have index: "find_first_visible_leaf_index (TemplateSplit (TemplateSplitNode d cs ws a)) =
      sum_list (map length (take ?active (map list_leaf_pane_ids ns))) + ?k"
    using active by (simp add: Let_def)
  have at: "concat (map list_leaf_pane_ids ns) ! find_first_visible_leaf_index (TemplateSplit (TemplateSplitNode d cs ws a)) =
      ?ls ! ?k"
    "find_first_visible_leaf_index (TemplateSplit (TemplateSplitNode d cs ws a)) < length (concat (map list_leaf_pane_ids ns))"
    unfolding index using nth_concat_child [of ?active "map list_leaf_pane_ids ns" ?k] IH(1) active len by simp_all
  have "get_active_child_index ?s = min a (length cs - 1)" by (simp add: get_active_child_index_def len)
  then have "\<not> is_pane_collapsed (Split ?s) (?ls ! ?k) []"
    using collapsed_child [of ?s ?active "?ls ! ?k"] IH Split.prems(3) n active len
    by (simp del: is_pane_collapsed.simps split: if_splits)
  with at n show ?case by (simp del: is_pane_collapsed.simps find_first_visible_leaf_index.simps)
qed

text \<open>
  The first visible leaf of a template really is visible: in the instantiated tree, the pane at that
  index is a leaf and not collapsed inside any stack.
\<close>

theorem first_visible_leaf_shown:
  assumes "build_layout_node t ps = Some (Inr n)" "template_populated t" "distinct ps"
  shows "find_first_visible_leaf_index t < length ps \<and>
         \<not> is_pane_collapsed n (ps ! find_first_visible_leaf_index t) []"
proof -
  from assms(1) have "length ps = count_leaf_templates t" by (simp add: build_layout_node_def split: if_splits)
  with build_layout_subtree_ok(1) [of t ps] assms(1) have "list_leaf_pane_ids n = ps" "same_shape t n"
    by (auto simp: build_layout_node_def)
  with first_visible_leaf [of t n] assms show ?thesis by simp
qed

text \<open>A stack whose second member is expanded: its first visible leaf is the second one.\<close>

definition example_terminal :: terminal_template where
  "example_terminal = \<lparr>command = None, working_directory = None, environment_variables = []\<rparr>"

definition example_template :: template_node where
  "example_template =
     TemplateSplit (TemplateSplitNode Stacked [Leaf example_terminal, Leaf example_terminal]
       [default_size_weight, default_size_weight] 1)"

theorem first_visible_leaf_shown_witness:
  "find_first_visible_leaf_index example_template < length [PaneId 7, PaneId 8] \<and>
   find_first_visible_leaf_index example_template = 1"
proof -
  have "build_layout_node example_template [PaneId 7, PaneId 8] =
      Some (Inr (Split (SplitNode Stacked [Pane (PaneId 7), Pane (PaneId 8)] [default_size_weight, default_size_weight] 1)))"
    by (simp add: example_template_def build_layout_node_def)
  from first_visible_leaf_shown [OF this] show ?thesis by (simp add: example_template_def)
qed

end
