(* ===== verification/Text.thy ===== *)
theory Text
  imports Koshi_Prelude "HOL-Library.Sublist"
begin

text \<open>
  Bounding and filtering reported text (\<open>koshi-core/src/text.rs\<close>). A string is the list of its Unicode
  scalar values; \<open>char::is_control\<close> and \<open>char::len_utf8\<close> of the standard library are written out.
\<close>

type_synonym rust_string = "nat list"

definition is_control :: "nat \<Rightarrow> bool" where
  "is_control c \<longleftrightarrow> c \<le> 0x1F \<or> 0x7F \<le> c \<and> c \<le> 0x9F"

definition len_utf8 :: "nat \<Rightarrow> nat" where
  "len_utf8 c = (if c < 0x80 then 1 else if c < 0x800 then 2 else if c < 0x10000 then 3 else 4)"

definition byte_length :: "rust_string \<Rightarrow> nat" where
  "byte_length s = sum_list (map len_utf8 s)"

definition MAX_REPORTED_TEXT_BYTE_COUNT :: nat where
  "MAX_REPORTED_TEXT_BYTE_COUNT = 512"

definition is_refused_character :: "nat \<Rightarrow> bool" where
  "is_refused_character c \<longleftrightarrow>
     0x202A \<le> c \<and> c \<le> 0x202E \<or> 0x2066 \<le> c \<and> c \<le> 0x2069 \<or> c = 0x200E \<or> c = 0x200F \<or> c = 0x061C \<or>
     c = 0x2028 \<or> c = 0x2029 \<or> 0xFFF9 \<le> c \<and> c \<le> 0xFFFB \<or> c = 0xFFFE \<or> c = 0xFFFF \<or>
     0xE0000 \<le> c \<and> c \<le> 0xE007F \<or> is_control c"

text \<open>The loop over the characters that stay: it stops at the first one that does not fit.\<close>

fun push_while_fits :: "nat \<Rightarrow> rust_string \<Rightarrow> rust_string \<Rightarrow> rust_string" where
  "push_while_fits max_byte_count sanitized [] = sanitized"
| "push_while_fits max_byte_count sanitized (c # cs) =
     (if max_byte_count < byte_length sanitized + len_utf8 c then sanitized
      else push_while_fits max_byte_count (sanitized @ [c]) cs)"

definition sanitize_text_to_byte_count :: "rust_string \<Rightarrow> nat \<Rightarrow> rust_string" where
  "sanitize_text_to_byte_count raw max_byte_count =
     push_while_fits max_byte_count [] (filter (\<lambda>c. \<not> is_refused_character c) raw)"

definition sanitize_reported_text :: "rust_string \<Rightarrow> rust_string" where
  "sanitize_reported_text raw = sanitize_text_to_byte_count raw MAX_REPORTED_TEXT_BYTE_COUNT"

definition remove_refused_characters :: "rust_string \<Rightarrow> rust_string" where
  "remove_refused_characters raw = filter (\<lambda>c. \<not> is_refused_character c) raw"

lemma byte_length_simps [simp]:
  "byte_length [] = 0" "byte_length (c # s) = len_utf8 c + byte_length s"
  "byte_length (s @ t) = byte_length s + byte_length t"
  by (simp_all add: byte_length_def)

lemma push_while_fits_spec:
  "byte_length s \<le> m \<Longrightarrow>
     \<exists>kept rest. cs = kept @ rest \<and> push_while_fits m s cs = s @ kept \<and> byte_length (s @ kept) \<le> m \<and>
       (rest = [] \<or> m < byte_length (s @ kept) + len_utf8 (hd rest))"
proof (induction m s cs rule: push_while_fits.induct)
  case (2 m s c cs)
  show ?case
  proof (cases "m < byte_length s + len_utf8 c")
    case True
    then show ?thesis using "2.prems" by (intro exI [of _ "[]"] exI [of _ "c # cs"]) simp
  next
    case False
    with 2 obtain kept rest where "cs = kept @ rest" "push_while_fits m (s @ [c]) cs = (s @ [c]) @ kept"
      "byte_length ((s @ [c]) @ kept) \<le> m" "rest = [] \<or> m < byte_length ((s @ [c]) @ kept) + len_utf8 (hd rest)"
      by (auto simp: not_less)
    with False show ?thesis by (intro exI [of _ "c # kept"] exI [of _ rest]) simp
  qed
qed simp

lemma sanitize_split:
  obtains rest where "remove_refused_characters raw = sanitize_text_to_byte_count raw m @ rest"
    "byte_length (sanitize_text_to_byte_count raw m) \<le> m"
    "\<forall>c \<in> set (sanitize_text_to_byte_count raw m). \<not> is_refused_character c"
    "rest = [] \<or> m < byte_length (sanitize_text_to_byte_count raw m) + len_utf8 (hd rest)"
proof -
  let ?kept = "remove_refused_characters raw"
  have "\<exists>kept rest. ?kept = kept @ rest \<and> push_while_fits m [] ?kept = [] @ kept \<and> byte_length ([] @ kept) \<le> m \<and>
      (rest = [] \<or> m < byte_length ([] @ kept) + len_utf8 (hd rest))" by (rule push_while_fits_spec) simp
  then obtain kept rest where kept: "?kept = kept @ rest" "push_while_fits m [] ?kept = kept"
    "byte_length kept \<le> m" "rest = [] \<or> m < byte_length kept + len_utf8 (hd rest)" by (metis append_Nil)
  have "\<forall>c \<in> set ?kept. \<not> is_refused_character c" by (simp add: remove_refused_characters_def)
  with kept(1) have "\<forall>c \<in> set kept. \<not> is_refused_character c" by simp
  moreover have "sanitize_text_to_byte_count raw m = kept"
    using kept(2) by (simp add: sanitize_text_to_byte_count_def remove_refused_characters_def)
  ultimately show thesis using that [of rest] kept by simp
qed

text \<open>
  C32. Sanitized text is safe and as long as it may be: it holds no refused character, its bytes never
  exceed the limit, it is a prefix of the text without its refused characters, and when something is
  cut the next character would not have fitted.
\<close>

theorem sanitize_text_spec:
  "\<exists>rest. remove_refused_characters raw = sanitize_text_to_byte_count raw m @ rest \<and>
     byte_length (sanitize_text_to_byte_count raw m) \<le> m \<and>
     filter is_refused_character (sanitize_text_to_byte_count raw m) = [] \<and>
     (rest = [] \<or> m < byte_length (sanitize_text_to_byte_count raw m) + len_utf8 (hd rest))"
  by (rule sanitize_split [of raw m]) (auto simp: filter_empty_conv)

lemma push_while_fits_all: "byte_length (s @ cs) \<le> m \<Longrightarrow> push_while_fits m s cs = s @ cs"
  by (induction m s cs rule: push_while_fits.induct) auto

text \<open>Sanitizing twice is sanitizing once.\<close>

lemma sanitize_text_idempotent:
  "sanitize_text_to_byte_count (sanitize_text_to_byte_count raw m) m = sanitize_text_to_byte_count raw m"
proof -
  let ?s = "sanitize_text_to_byte_count raw m"
  have "byte_length ?s \<le> m" "filter (\<lambda>c. \<not> is_refused_character c) ?s = ?s"
    by (rule sanitize_split [of raw m], simp add: filter_id_conv)+
  then show ?thesis by (subst sanitize_text_to_byte_count_def) (simp add: push_while_fits_all)
qed

end
