(* ===== verification/Notification.thy ===== *)
theory Notification
  imports Text Ids
begin

text \<open>
  Notifications and their bounded queue (\<open>koshi-core/src/notification.rs\<close>). Times are natural numbers;
  the \<open>u64\<close> revision and sequence are natural numbers too, since a queue does not live for \<open>2\<^sup>6\<^sup>4\<close> posts;
  the saturating \<open>u32\<close> repeat count keeps its width. A fresh epoch is an argument.
\<close>

definition MAX_NOTIFICATION_TEXT_BYTE_COUNT :: nat where
  "MAX_NOTIFICATION_TEXT_BYTE_COUNT = 4096"

definition MAX_QUEUED_NOTIFICATION_COUNT :: nat where
  "MAX_QUEUED_NOTIFICATION_COUNT = 256"

datatype notification_severity = Info | Warning | Error

datatype notification_source = Core

datatype notification_queue_owner = ClientQueue client_id | SessionQueue session_id

datatype notification_epoch = NotificationEpoch "128 word"

record notification_id =
  id_owner :: notification_queue_owner
  id_epoch :: notification_epoch
  sequence :: nat

record notification_entry =
  entry_id :: notification_id
  entry_source :: notification_source
  severity :: notification_severity
  entry_text :: rust_string
  created_at :: nat
  repeat_count :: u32

record notification_queue =
  queue_owner :: notification_queue_owner
  queue_epoch :: notification_epoch
  revision :: nat
  queued_entries :: "notification_entry list"

datatype notification_queue_error = TooManyEntries nat | ForeignEntry notification_id

definition from_owner :: "notification_epoch \<Rightarrow> notification_queue_owner \<Rightarrow> notification_queue" where
  "from_owner fresh owner = \<lparr>queue_owner = owner, queue_epoch = fresh, revision = 0, queued_entries = []\<rparr>"

definition is_repeat :: "notification_severity \<Rightarrow> rust_string \<Rightarrow> notification_entry \<Rightarrow> bool" where
  "is_repeat sev sanitized e \<longleftrightarrow> entry_source e = Core \<and> severity e = sev \<and> entry_text e = sanitized"

definition merge_post :: "u32 \<Rightarrow> nat \<Rightarrow> notification_entry \<Rightarrow> notification_entry" where
  "merge_post post_count at e = e\<lparr>repeat_count := sat_add (repeat_count e) post_count, created_at := at\<rparr>"

text \<open>\<open>post_count\<close> is a \<open>NonZeroU32\<close>. The returned entry is the last of the queue.\<close>

definition post_core_entry ::
  "notification_severity \<Rightarrow> rust_string \<Rightarrow> u32 \<Rightarrow> nat \<Rightarrow> notification_queue \<Rightarrow> notification_queue" where
  "post_core_entry sev raw post_count at q =
     (let sanitized = sanitize_text_to_byte_count raw MAX_NOTIFICATION_TEXT_BYTE_COUNT;
          q1 = q\<lparr>revision := revision q + unat post_count\<rparr>;
          entries = queued_entries q1
      in if entries \<noteq> [] \<and> is_repeat sev sanitized (last entries) then
           q1\<lparr>queued_entries := butlast entries @ [merge_post post_count at (last entries)]\<rparr>
         else
           (let next_sequence = (if entries = [] then 0 else sequence (entry_id (last entries)) + 1);
                kept = (if length entries = MAX_QUEUED_NOTIFICATION_COUNT then tl entries else entries)
            in q1\<lparr>queued_entries :=
                    kept @ [\<lparr>entry_id = \<lparr>id_owner = queue_owner q1, id_epoch = queue_epoch q1, sequence = next_sequence\<rparr>,
                             entry_source = Core, severity = sev, entry_text = sanitized, created_at = at,
                             repeat_count = post_count\<rparr>]\<rparr>))"

definition validate_queued_entries :: "notification_queue \<Rightarrow> notification_queue_error + unit" where
  "validate_queued_entries q =
     (if MAX_QUEUED_NOTIFICATION_COUNT < length (queued_entries q) then Inl (TooManyEntries (length (queued_entries q)))
      else
        (case find (\<lambda>e. id_owner (entry_id e) \<noteq> queue_owner q \<or> id_epoch (entry_id e) \<noteq> queue_epoch q)
                (queued_entries q) of
           Some e \<Rightarrow> Inl (ForeignEntry (entry_id e))
         | None \<Rightarrow> Inr ()))"

section \<open>The queue as a window on a log\<close>

text \<open>
  The specification: an unbounded log. A post merges into the newest entry when it repeats it, and
  is appended otherwise.
\<close>

definition log_post ::
  "notification_queue_owner \<Rightarrow> notification_epoch \<Rightarrow> notification_severity \<times> rust_string \<times> u32 \<times> nat \<Rightarrow>
   notification_entry list \<Rightarrow> notification_entry list" where
  "log_post owner ep post log =
     (case post of (sev, raw, post_count, at) \<Rightarrow>
        (let sanitized = sanitize_text_to_byte_count raw MAX_NOTIFICATION_TEXT_BYTE_COUNT
         in if log \<noteq> [] \<and> is_repeat sev sanitized (last log)
            then butlast log @ [merge_post post_count at (last log)]
            else log @ [\<lparr>entry_id = \<lparr>id_owner = owner, id_epoch = ep, sequence = length log\<rparr>, entry_source = Core,
                         severity = sev, entry_text = sanitized, created_at = at, repeat_count = post_count\<rparr>]))"

definition window :: "notification_entry list \<Rightarrow> notification_entry list" where
  "window log = drop (length log - MAX_QUEUED_NOTIFICATION_COUNT) log"

definition numbered :: "notification_queue_owner \<Rightarrow> notification_epoch \<Rightarrow> notification_entry list \<Rightarrow> bool" where
  "numbered owner ep log \<longleftrightarrow>
     map entry_id log = map (\<lambda>n. \<lparr>id_owner = owner, id_epoch = ep, sequence = n\<rparr>) [0..<length log]"

definition post :: "notification_severity \<times> rust_string \<times> u32 \<times> nat \<Rightarrow> notification_queue \<Rightarrow> notification_queue" where
  "post p q = (case p of (sev, raw, post_count, at) \<Rightarrow> post_core_entry sev raw post_count at q)"


lemma numbered_last:
  assumes "numbered owner ep log" "log \<noteq> []"
  shows "entry_id (last log) = \<lparr>id_owner = owner, id_epoch = ep, sequence = length log - 1\<rparr>"
proof -
  have "entry_id (last log) = last (map entry_id log)" using assms(2) by (simp add: last_map)
  also have "\<dots> = \<lparr>id_owner = owner, id_epoch = ep, sequence = length log - 1\<rparr>"
    using assms by (simp add: numbered_def last_map)
  finally show ?thesis .
qed

lemma numbered_log_post: "numbered owner ep log \<Longrightarrow> numbered owner ep (log_post owner ep p log)"
proof -
  assume n: "numbered owner ep log"
  have "map entry_id (butlast log @ [merge_post k at (last log)]) = map entry_id log" if "log \<noteq> []" for k at
  proof -
    have "map entry_id (butlast log @ [merge_post k at (last log)]) = map entry_id (butlast log @ [last log])"
      by (simp add: merge_post_def)
    then show ?thesis using that by simp
  qed
  with n show ?thesis
    by (cases p) (auto simp: log_post_def numbered_def Let_def)
qed

lemma window_props [simp]:
  "window log = [] \<longleftrightarrow> log = []" "log \<noteq> [] \<Longrightarrow> last (window log) = last log"
  "length (window log) = min (length log) MAX_QUEUED_NOTIFICATION_COUNT"
  by (auto simp: window_def MAX_QUEUED_NOTIFICATION_COUNT_def) (cases log; simp)

lemma butlast_window: "log \<noteq> [] \<Longrightarrow> butlast (window log) @ [e] = window (butlast log @ [e])"
  by (simp add: window_def MAX_QUEUED_NOTIFICATION_COUNT_def butlast_drop)

lemma window_snoc:
  "(if length (window log) = MAX_QUEUED_NOTIFICATION_COUNT then tl (window log) else window log) @ [e] = window (log @ [e])"
proof (cases "256 \<le> length log")
  case True
  then have "tl (drop (length log - 256) log) = drop (Suc (length log) - 256) log"
    by (simp only: Suc_diff_le drop_Suc tl_drop)
  with True show ?thesis by (simp add: window_def MAX_QUEUED_NOTIFICATION_COUNT_def)
next
  case False
  then show ?thesis by (auto simp: window_def MAX_QUEUED_NOTIFICATION_COUNT_def)
qed

lemma post_refines_log:
  assumes "queued_entries q = window log" "numbered (queue_owner q) (queue_epoch q) log"
  shows "queued_entries (post p q) = window (log_post (queue_owner q) (queue_epoch q) p log)"
    and "queue_owner (post p q) = queue_owner q" "queue_epoch (post p q) = queue_epoch q"
    and "revision (post p q) = revision q + unat (fst (snd (snd p)))"
proof -
  obtain sev raw k at where p: "p = (sev, raw, k, at)" by (cases p) auto
  show "queue_owner (post p q) = queue_owner q" "queue_epoch (post p q) = queue_epoch q"
    "revision (post p q) = revision q + unat (fst (snd (snd p)))"
    by (simp_all add: p post_def post_core_entry_def Let_def)
  have seq: "(if log = [] then 0 else sequence (entry_id (last log)) + 1) = length log"
    using numbered_last [OF assms(2)] by auto
  show "queued_entries (post p q) = window (log_post (queue_owner q) (queue_epoch q) p log)"
  proof (cases "log \<noteq> [] \<and> is_repeat sev (sanitize_text_to_byte_count raw MAX_NOTIFICATION_TEXT_BYTE_COUNT) (last log)")
    case True
    then show ?thesis by (simp add: p post_def post_core_entry_def log_post_def assms(1) Let_def butlast_window)
  next
    case False
    then have "queued_entries (post p q) =
        (if length (window log) = MAX_QUEUED_NOTIFICATION_COUNT then tl (window log) else window log) @
          [\<lparr>entry_id = \<lparr>id_owner = queue_owner q, id_epoch = queue_epoch q, sequence = length log\<rparr>, entry_source = Core,
            severity = sev, entry_text = sanitize_text_to_byte_count raw MAX_NOTIFICATION_TEXT_BYTE_COUNT,
            created_at = at, repeat_count = k\<rparr>]"
      using seq by (auto simp: p post_def post_core_entry_def assms(1) Let_def)
    also have "\<dots> = window (log_post (queue_owner q) (queue_epoch q) p log)"
      using False by (subst window_snoc) (auto simp: p log_post_def Let_def)
    finally show ?thesis .
  qed
qed

lemma validate_window:
  assumes "queued_entries q = window log" "numbered (queue_owner q) (queue_epoch q) log"
  shows "validate_queued_entries q = Inr ()"
proof -
  have "\<forall>e \<in> set log. id_owner (entry_id e) = queue_owner q \<and> id_epoch (entry_id e) = queue_epoch q"
  proof
    fix e
    assume "e \<in> set log"
    then have "entry_id e \<in> set (map entry_id log)" by simp
    then have "entry_id e \<in> (\<lambda>n. \<lparr>id_owner = queue_owner q, id_epoch = queue_epoch q, sequence = n\<rparr>) ` {0..<length log}"
      using assms(2) unfolding numbered_def by (metis set_map set_upt)
    then show "id_owner (entry_id e) = queue_owner q \<and> id_epoch (entry_id e) = queue_epoch q" by auto
  qed
  then have "find (\<lambda>e. id_owner (entry_id e) \<noteq> queue_owner q \<or> id_epoch (entry_id e) \<noteq> queue_epoch q) (window log) = None"
    by (auto simp: find_None_iff window_def dest: in_set_dropD)
  then show ?thesis by (simp add: validate_queued_entries_def assms(1))
qed


end
