(* ===== verification/Ordered_Map.thy ===== *)
theory Ordered_Map
  imports Koshi_Prelude "HOL-Library.RBT"
begin

text \<open>
  Keyed collections of the session model. A \<open>BTreeMap\<close> of the code is a red-black tree of the library
  and is walked in key order. A \<open>HashMap\<close> is the same type: the code either looks a key up, walks
  the entries with an order-independent effect, or sorts the keys first, so its own order is never
  seen.
\<close>

type_synonym ('k, 'v) ordered_map = "('k, 'v) rbt"

abbreviation get :: "('k::linorder, 'v) ordered_map \<Rightarrow> 'k \<Rightarrow> 'v option" where
  "get \<equiv> RBT.lookup"

abbreviation has_key :: "('k::linorder, 'v) ordered_map \<Rightarrow> 'k \<Rightarrow> bool" where
  "has_key m k \<equiv> RBT.lookup m k \<noteq> None"

definition map_values :: "('k::linorder, 'v) ordered_map \<Rightarrow> 'v list" where
  "map_values m = map snd (RBT.entries m)"

abbreviation map_size :: "('k::linorder, 'v) ordered_map \<Rightarrow> nat" where
  "map_size m \<equiv> length (RBT.keys m)"

text \<open>\<open>values_mut\<close> with the same change for every value.\<close>

abbreviation map_all :: "('v \<Rightarrow> 'v) \<Rightarrow> ('k::linorder, 'v) ordered_map \<Rightarrow> ('k, 'v) ordered_map" where
  "map_all f \<equiv> RBT.map (\<lambda>_. f)"

lemma map_values_iff: "v \<in> set (map_values m) \<longleftrightarrow> (\<exists>k. get m k = Some v)"
  by (force simp: map_values_def RBT.lookup_in_tree)

lemma in_map_values: "get m k = Some v \<Longrightarrow> v \<in> set (map_values m)"
  by (auto simp: map_values_iff)

lemma keys_iff: "k \<in> set (RBT.keys m) \<longleftrightarrow> has_key m k"
  using RBT.lookup_keys [of m] by (auto simp: domIff)

lemma map_values_keys: "map_values m = map (\<lambda>k. the (get m k)) (RBT.keys m)"
proof -
  have "snd e = the (get m (fst e))" if "e \<in> set (RBT.entries m)" for e
    using that by (metis RBT.lookup_in_tree option.sel prod.collapse)
  then show ?thesis by (simp add: map_values_def RBT.keys_def_alt)
qed

lemma sorted_unique: "sorted xs \<Longrightarrow> distinct xs \<Longrightarrow> sorted ys \<Longrightarrow> distinct ys \<Longrightarrow> set xs = set ys \<Longrightarrow> xs = ys"
  for xs :: "'a::linorder list"
  by (rule sorted_distinct_set_unique)

lemma keys_cong: "dom (get m) = dom (get m') \<Longrightarrow> RBT.keys m = RBT.keys m'"
  by (rule sorted_unique) (simp_all add: RBT.lookup_keys [symmetric])

lemma keys_map_entry [simp]: "RBT.keys (RBT.map_entry k f m) = RBT.keys m"
  by (rule keys_cong) (auto simp: dom_def)

lemma keys_map [simp]: "RBT.keys (RBT.map f m) = RBT.keys m"
  by (rule keys_cong) (auto simp: dom_def)

lemma set_keys_insert [simp]: "set (RBT.keys (RBT.insert k v m)) = insert k (set (RBT.keys m))"
  by (simp flip: RBT.lookup_keys)

lemma set_keys_delete [simp]: "set (RBT.keys (RBT.delete k m)) = set (RBT.keys m) - {k}"
  by (simp flip: RBT.lookup_keys)

lemma keys_delete: "RBT.keys (RBT.delete k m) = filter (\<lambda>k'. k' \<noteq> k) (RBT.keys m)"
  by (rule sorted_unique) (auto simp: sorted_filter [of "\<lambda>x. x", simplified])

lemma keys_insert: "RBT.keys (RBT.insert k v m) = (if has_key m k then RBT.keys m else insort k (RBT.keys m))"
  by (rule sorted_unique) (auto simp: sorted_insort distinct_insort set_insort_key keys_iff)

lemma map_size_insert: "\<not> has_key m k \<Longrightarrow> map_size (RBT.insert k v m) = Suc (map_size m)"
  by (simp add: keys_insert)

lemma map_size_delete: "has_key m k \<Longrightarrow> Suc (map_size (RBT.delete k m)) = map_size m"
  by (metis One_nat_def Suc_pred diff_Suc_1 distinct_card distinct_keys set_keys_delete card_Diff_singleton keys_iff
      card_gt_0_iff empty_iff finite_set)

lemma keys_empty_iff [simp]: "RBT.keys m = [] \<longleftrightarrow> m = RBT.empty"
  using RBT.non_empty_keys by fastforce

lemma map_values_empty [simp]: "map_values RBT.empty = []"
  by (simp add: map_values_keys)

lemma map_values_map_all [simp]: "map_values (map_all f m) = map f (map_values m)"
proof -
  have "the (get (map_all f m) k) = f (the (get m k))" if "k \<in> set (RBT.keys m)" for k
    using that by (auto simp: keys_iff)
  then show ?thesis by (simp add: map_values_keys)
qed

lemma map_values_map_entry:
  "map_values (RBT.map_entry k f m) = map (\<lambda>k'. if k' = k then f (the (get m k)) else the (get m k')) (RBT.keys m)"
  by (auto simp: map_values_keys keys_iff)

lemma get_map_entry: "get (RBT.map_entry k f m) k' = (if k' = k then map_option f (get m k) else get m k')"
  by simp

declare RBT.lookup_filter [simp]

end
