(* ===== verification/Pane_Registry.thy ===== *)
theory Pane_Registry
  imports Ordered_Map Ids Text
begin

text \<open>
  The pane registry (\<open>koshi-pane/src/registry.rs\<close>, \<open>pane/state.rs\<close>): one record of runtime metadata
  per pane, keyed by pane id. Paths and arguments are strings of Unicode scalar values.
\<close>

datatype shell_kind = Zsh | Bash | Fish | PowerShell | Nu | OtherShell rust_string

record spawn_spec =
  program :: rust_string
  arguments :: "rust_string list"
  spawn_working_directory :: "rust_string option"
  environment_variables :: "(rust_string \<times> rust_string) list"
  shell_kind_of :: shell_kind

record pane_record =
  record_pane_id :: pane_id
  record_spawn_spec :: "spawn_spec option"
  working_directory :: "rust_string option"

definition from_terminal_pane :: "pane_id \<Rightarrow> pane_record" where
  "from_terminal_pane p = \<lparr>record_pane_id = p, record_spawn_spec = None, working_directory = None\<rparr>"

type_synonym pane_registry = "(pane_id, pane_record) ordered_map"

datatype pane_registry_error = DuplicatePaneId pane_id

definition new_pane_registry :: pane_registry where
  "new_pane_registry = RBT.empty"

definition register_pane_record :: "pane_record \<Rightarrow> pane_registry \<Rightarrow> pane_registry_error + pane_registry" where
  "register_pane_record rec registry =
     (if has_key registry (record_pane_id rec) then Inl (DuplicatePaneId (record_pane_id rec))
      else Inr (RBT.insert (record_pane_id rec) rec registry))"

abbreviation get_pane_record_by_id :: "pane_registry \<Rightarrow> pane_id \<Rightarrow> pane_record option" where
  "get_pane_record_by_id \<equiv> get"

definition remove_pane_record :: "pane_id \<Rightarrow> pane_registry \<Rightarrow> pane_record option \<times> pane_registry" where
  "remove_pane_record p registry = (get registry p, RBT.delete p registry)"

definition list_pane_records :: "pane_registry \<Rightarrow> pane_record list" where
  "list_pane_records registry = map_values registry"

definition count_pane_records :: "pane_registry \<Rightarrow> nat" where
  "count_pane_records registry = map_size registry"

text \<open>Every record is kept under its own id.\<close>

definition keyed_by_id :: "pane_registry \<Rightarrow> bool" where
  "keyed_by_id registry \<longleftrightarrow> (\<forall>p rec. get registry p = Some rec \<longrightarrow> record_pane_id rec = p)"

lemma keyed_new: "keyed_by_id new_pane_registry"
  by (simp add: keyed_by_id_def new_pane_registry_def)

lemma keyed_register: "keyed_by_id registry \<Longrightarrow> register_pane_record rec registry = Inr registry' \<Longrightarrow> keyed_by_id registry'"
  by (auto simp: keyed_by_id_def register_pane_record_def split: if_splits)

lemma keyed_remove: "keyed_by_id registry \<Longrightarrow> keyed_by_id (snd (remove_pane_record p registry))"
  by (auto simp: keyed_by_id_def remove_pane_record_def)

end
