(* ===== verification/Layout_Area.thy ===== *)
theory Layout_Area
  imports Solver Pane_Registry
begin

text \<open>
  The layout trees a session holds (the first part of \<open>koshi-session/src/session/state.rs\<close>): layout
  areas with their stored solve, tabs with their focus history, floating panes and the floating set,
  and the sizes of floating panes. A method that changes its receiver returns the changed value.
\<close>

section \<open>Layout areas\<close>

record layout_area =
  area_layout :: layout_node
  area_solved_size :: cell_size
  area_layout_solve :: layout_solve

definition default_layout_solve :: layout_solve where
  "default_layout_solve =
     \<lparr>pane_rects = [], suppressed_pane_ids = [], is_every_pane_suppressed = False, stack_headers = []\<rparr>"

definition compute_layout_solve :: "layout_area \<Rightarrow> pane_sizing \<Rightarrow> layout_solve" where
  "compute_layout_solve area z =
     solve_layout_with_sizing (area_layout area) (from_size_at_origin (area_solved_size area)) z"

text \<open>\<open>update_layout_solve\<close> returns the changed area and the solve it held before.\<close>

definition update_layout_solve :: "pane_sizing \<Rightarrow> layout_area \<Rightarrow> layout_area \<times> layout_solve" where
  "update_layout_solve z area =
     (area\<lparr>area_layout_solve := compute_layout_solve area z\<rparr>, area_layout_solve area)"

definition area_from_layout_tree :: "layout_node \<Rightarrow> cell_size \<Rightarrow> pane_sizing \<Rightarrow> layout_area" where
  "area_from_layout_tree t solved_size z =
     fst (update_layout_solve z
            \<lparr>area_layout = t, area_solved_size = solved_size, area_layout_solve = default_layout_solve\<rparr>)"

definition build_zoomed_solve :: "layout_area \<Rightarrow> pane_id \<Rightarrow> pane_sizing \<Rightarrow> layout_solve option" where
  "build_zoomed_solve area zoomed_pane z =
     (if \<not> has_pane (area_layout area) zoomed_pane then None
      else Some (solve_layout_with_mode (area_layout area) (Fullscreen zoomed_pane)
                   (from_size_at_origin (area_solved_size area)) z))"

definition build_client_solve ::
  "layout_area \<Rightarrow> layout_mode \<Rightarrow> pane_id list \<Rightarrow> pane_sizing \<Rightarrow> layout_solve option" where
  "build_client_solve area mode focus_history z =
     (case mode of
        Fullscreen zoomed_pane \<Rightarrow> build_zoomed_solve area zoomed_pane z
      | Tiled \<Rightarrow>
          map_option
            (\<lambda>shown. solve_layout_with_sizing shown (from_size_at_origin (area_solved_size area)) z)
            (build_shown_layout_tree (area_layout area) focus_history))"

section \<open>Tabs\<close>

definition MAX_TAB_FOCUS_MRU_ENTRY_COUNT :: nat where
  "MAX_TAB_FOCUS_MRU_ENTRY_COUNT = 16"

record tab =
  own_tab_id :: tab_id
  tab_name :: rust_string
  tab_index :: nat
  tab_layout_area :: layout_area
  focus_mru :: "pane_id list"

definition tab_from_layout_tree ::
  "tab_id \<Rightarrow> rust_string \<Rightarrow> nat \<Rightarrow> layout_node \<Rightarrow> cell_size \<Rightarrow> pane_sizing \<Rightarrow> tab" where
  "tab_from_layout_tree new_tab_id name index t tab_size z =
     \<lparr>own_tab_id = new_tab_id, tab_name = name, tab_index = index,
      tab_layout_area = area_from_layout_tree t tab_size z, focus_mru = []\<rparr>"

abbreviation tab_layout :: "tab \<Rightarrow> layout_node" where
  "tab_layout t \<equiv> area_layout (tab_layout_area t)"

abbreviation tab_solve :: "tab \<Rightarrow> layout_solve" where
  "tab_solve t \<equiv> area_layout_solve (tab_layout_area t)"

definition set_tab_index :: "nat \<Rightarrow> tab \<Rightarrow> tab \<times> bool" where
  "set_tab_index index t = (t\<lparr>tab_index := index\<rparr>, tab_index t \<noteq> index)"

definition record_focus_mru :: "pane_id \<Rightarrow> tab \<Rightarrow> tab" where
  "record_focus_mru p t =
     t\<lparr>focus_mru := take MAX_TAB_FOCUS_MRU_ENTRY_COUNT (p # filter (\<lambda>q. q \<noteq> p) (focus_mru t))\<rparr>"

definition remove_focus_mru :: "pane_id \<Rightarrow> tab \<Rightarrow> tab" where
  "remove_focus_mru p t = t\<lparr>focus_mru := filter (\<lambda>q. q \<noteq> p) (focus_mru t)\<rparr>"

section \<open>Floating panes\<close>

definition FLOATING_TITLEBAR_STRIP_ROW_COUNT :: u16 where
  "FLOATING_TITLEBAR_STRIP_ROW_COUNT = 1"

definition MAX_FLOATING_PANES_PER_SESSION :: nat where
  "MAX_FLOATING_PANES_PER_SESSION = 12"

definition MAX_FLOATING_PANE_AXIS_PERCENT :: u8 where
  "MAX_FLOATING_PANE_AXIS_PERCENT = 90"

record floating_pane =
  own_floating_pane_id :: floating_pane_id
  floating_layout_area :: layout_area
  desired_size :: floating_pane_size
  outer_solved_size :: cell_size

abbreviation floating_layout :: "floating_pane \<Rightarrow> layout_node" where
  "floating_layout f \<equiv> area_layout (floating_layout_area f)"

abbreviation floating_solve :: "floating_pane \<Rightarrow> layout_solve" where
  "floating_solve f \<equiv> area_layout_solve (floating_layout_area f)"

definition compute_floating_layout_size :: "cell_size \<Rightarrow> cell_size" where
  "compute_floating_layout_size s =
     s\<lparr>row_count := sat_sub (row_count s) FLOATING_TITLEBAR_STRIP_ROW_COUNT\<rparr>"

text \<open>The fresh id of \<open>FloatingPaneId::new()\<close> is an argument.\<close>

definition floating_pane_from_pane ::
  "floating_pane_id \<Rightarrow> pane_id \<Rightarrow> floating_pane_size \<Rightarrow> cell_size \<Rightarrow> pane_sizing \<Rightarrow> floating_pane" where
  "floating_pane_from_pane fresh p desired solved_size z =
     \<lparr>own_floating_pane_id = fresh,
      floating_layout_area = area_from_layout_tree (Pane p) (compute_floating_layout_size solved_size) z,
      desired_size = desired, outer_solved_size = solved_size\<rparr>"

definition u16_or_max :: "u32 \<Rightarrow> u16" where
  "u16_or_max n = (if unat n < 2 ^ 16 then as_u16 n else - 1)"

definition compute_floating_pane_minimum_size :: "required_size \<Rightarrow> cell_size" where
  "compute_floating_pane_minimum_size m =
     \<lparr>column_count = u16_or_max (required_column_count m),
      row_count = u16_or_max (sat_add (required_row_count m) (u32_of FLOATING_TITLEBAR_STRIP_ROW_COUNT))\<rparr>"

definition floating_minimum_size :: "floating_pane \<Rightarrow> pane_sizing \<Rightarrow> cell_size" where
  "floating_minimum_size f z = compute_floating_pane_minimum_size (compute_minimum_size (floating_layout f) z)"

definition list_floating_pane_ids :: "floating_pane \<Rightarrow> pane_id list" where
  "list_floating_pane_ids f = list_leaf_pane_ids (floating_layout f)"

definition compute_one_pane_floating_content_size :: "cell_size \<Rightarrow> cell_size" where
  "compute_one_pane_floating_content_size s =
     \<lparr>column_count = sat_sub (column_count s) (column_count PANE_BORDER_SIZE),
      row_count = sat_sub (sat_sub (row_count s) FLOATING_TITLEBAR_STRIP_ROW_COUNT) (row_count PANE_BORDER_SIZE)\<rparr>"

definition compute_floating_pane_size_cap :: "cell_size \<Rightarrow> cell_size" where
  "compute_floating_pane_size_cap viewport =
     \<lparr>column_count = compute_percent_cell_count (column_count viewport) MAX_FLOATING_PANE_AXIS_PERCENT,
      row_count = compute_percent_cell_count (row_count viewport) MAX_FLOATING_PANE_AXIS_PERCENT\<rparr>"

definition solve_floating_pane_axis :: "floating_pane_dimension \<Rightarrow> u16 \<Rightarrow> u16 \<Rightarrow> u16 \<Rightarrow> u16" where
  "solve_floating_pane_axis dimension axis_cell_count minimum_cells cap_cell_count =
     (let requested_cell_count =
            (case dimension of
               Cells cell_count \<Rightarrow> cell_count
             | AxisShare axis_percent \<Rightarrow> compute_percent_cell_count axis_cell_count (get_percent axis_percent))
      in min (max requested_cell_count minimum_cells) cap_cell_count)"

definition solve_floating_pane_size :: "floating_pane_size \<Rightarrow> cell_size \<Rightarrow> cell_size \<Rightarrow> cell_size" where
  "solve_floating_pane_size desired viewport minimum =
     (let cap = compute_floating_pane_size_cap viewport
      in \<lparr>column_count = solve_floating_pane_axis (floating_width desired) (column_count viewport) (column_count minimum)
                           (column_count cap),
          row_count = solve_floating_pane_axis (floating_height desired) (row_count viewport) (row_count minimum)
                        (row_count cap)\<rparr>)"

section \<open>The floating set\<close>

type_synonym floating_set = "floating_pane list"

datatype floating_set_error = DuplicatePane pane_id | TooManyPanes

definition list_floating_set_pane_ids :: "floating_set \<Rightarrow> pane_id list" where
  "list_floating_set_pane_ids floats = concat (map list_floating_pane_ids floats)"

definition find_floating_pane_by_pane_id :: "floating_set \<Rightarrow> pane_id \<Rightarrow> (nat \<times> floating_pane) option" where
  "find_floating_pane_by_pane_id floats p =
     find (\<lambda>(_, f). has_pane (floating_layout f) p) (enumerate 0 floats)"

definition find_floating_pane_by_id :: "floating_set \<Rightarrow> floating_pane_id \<Rightarrow> (nat \<times> floating_pane) option" where
  "find_floating_pane_by_id floats floating_id = find (\<lambda>(_, f). own_floating_pane_id f = floating_id) (enumerate 0 floats)"

definition floating_set_has_pane :: "floating_set \<Rightarrow> pane_id \<Rightarrow> bool" where
  "floating_set_has_pane floats p \<longleftrightarrow> find_floating_pane_by_pane_id floats p \<noteq> None"

definition is_full :: "floating_set \<Rightarrow> bool" where
  "is_full floats \<longleftrightarrow> MAX_FLOATING_PANES_PER_SESSION \<le> length floats"

definition set_add_floating_pane :: "floating_pane \<Rightarrow> floating_set \<Rightarrow> floating_set_error + floating_set" where
  "set_add_floating_pane f floats =
     (case find (floating_set_has_pane floats) (list_floating_pane_ids f) of
        Some p \<Rightarrow> Inl (DuplicatePane p)
      | None \<Rightarrow> if is_full floats then Inl TooManyPanes else Inr (floats @ [f]))"

text \<open>
  The loop of \<open>update_floating_pane_sizes\<close>: each floating pane at its new size, with the solve it held
  when the size changed.
\<close>

definition resize_floating_pane ::
  "cell_size \<Rightarrow> pane_sizing \<Rightarrow> floating_pane \<Rightarrow> floating_pane \<times> layout_solve option" where
  "resize_floating_pane viewport z f =
     (let solved_size = solve_floating_pane_size (desired_size f) viewport (floating_minimum_size f z)
      in if outer_solved_size f = solved_size then (f, None)
         else
           (case update_layout_solve z
                   ((floating_layout_area f)\<lparr>area_solved_size := compute_floating_layout_size solved_size\<rparr>) of
              (area, previous) \<Rightarrow>
                (f\<lparr>outer_solved_size := solved_size, floating_layout_area := area\<rparr>, Some previous)))"

definition set_update_floating_pane_sizes ::
  "cell_size \<Rightarrow> pane_sizing \<Rightarrow> floating_set \<Rightarrow> floating_set \<times> (floating_pane_id \<times> layout_solve) list" where
  "set_update_floating_pane_sizes viewport z floats =
     (let resized = map (resize_floating_pane viewport z) floats
      in (map fst resized,
          List.map_filter (\<lambda>(f, previous). map_option (Pair (own_floating_pane_id f)) previous) resized))"

text \<open>\<open>iter_mut().find(..)\<close> followed by a change: the first floating pane with the id changes.\<close>

fun update_first_floating_pane ::
  "floating_pane_id \<Rightarrow> (floating_pane \<Rightarrow> floating_pane) \<Rightarrow> floating_set \<Rightarrow> floating_set" where
  "update_first_floating_pane floating_id g [] = []"
| "update_first_floating_pane floating_id g (f # floats) =
     (if own_floating_pane_id f = floating_id then g f # floats else f # update_first_floating_pane floating_id g floats)"

definition update_floating_pane_desired_size ::
  "floating_pane_id \<Rightarrow> floating_pane_size \<Rightarrow> floating_set \<Rightarrow> floating_set \<times> bool" where
  "update_floating_pane_desired_size floating_id desired floats =
     (update_first_floating_pane floating_id (\<lambda>f. f\<lparr>desired_size := desired\<rparr>) floats,
      find_floating_pane_by_id floats floating_id \<noteq> None)"

end
