(* ===== verification/Event.thy ===== *)
theory Event
  imports Ids Geometry
begin

text \<open>
  The events a session reports (\<open>koshi-core/src/event.rs\<close>), with the small data types of the core
  crate they carry: lock modes (\<open>lock.rs\<close>), text selections (\<open>selection.rs\<close>) and client origins
  (\<open>client.rs\<close>), and the placement targets of \<open>command.rs\<close>.
\<close>

datatype client_origin = LocalOrigin | RemoteOrigin

datatype lock_mode =
    NormalMode
  | LockedMode
  | PanePlacementMode
  | PaneMoveChoiceMode
  | FloatingPaneMoveMode
  | FloatingPaneTrayMode
  | NotificationCenterMode

definition should_pass_unbound_input_to_pane :: "lock_mode \<Rightarrow> bool" where
  "should_pass_unbound_input_to_pane mode \<longleftrightarrow> mode \<in> {NormalMode, LockedMode}"

definition ALL_MODES :: "lock_mode list" where
  "ALL_MODES = [NormalMode, LockedMode, PanePlacementMode, PaneMoveChoiceMode, FloatingPaneMoveMode, FloatingPaneTrayMode,
          NotificationCenterMode]"

fun get_keymap_name :: "lock_mode \<Rightarrow> string" where
  "get_keymap_name NormalMode = ''normal''"
| "get_keymap_name LockedMode = ''locked''"
| "get_keymap_name PanePlacementMode = ''pane-placement''"
| "get_keymap_name PaneMoveChoiceMode = ''pane-move-choice''"
| "get_keymap_name FloatingPaneMoveMode = ''floating-pane-move''"
| "get_keymap_name FloatingPaneTrayMode = ''floating-pane-tray''"
| "get_keymap_name NotificationCenterMode = ''notification-center''"

text \<open>The keymap names tell every two modes apart, and \<open>ALL_MODES\<close> lists each mode once.\<close>

lemma ALL_complete: "set ALL_MODES = UNIV" "distinct ALL_MODES"
proof -
  have "mode \<in> set ALL_MODES" for mode by (cases mode) (simp_all add: ALL_MODES_def)
  then show "set ALL_MODES = UNIV" by blast
qed (simp add: ALL_MODES_def)

lemma get_keymap_name_inj: "get_keymap_name a = get_keymap_name b \<longleftrightarrow> a = b"
  by (cases a; cases b) simp_all

datatype selection_kind = CharacterSelection | WordSelection | LineSelection | BlockSelection

record grid_position =
  row_index :: "64 word"
  column_index :: u16

record selection =
  kind_of_selection :: selection_kind
  anchor :: grid_position
  cursor :: grid_position

text \<open>\<open>PaneProcessExited\<close>: the exit of a pane's child process; codes and signals are \<open>i32\<close>.\<close>

record pane_process_exited =
  exited_pane_id :: pane_id
  exit_code :: "int option"
  exit_signal :: "int option"

definition is_failure :: "pane_process_exited \<Rightarrow> bool" where
  "is_failure e \<longleftrightarrow> exit_signal e \<noteq> None \<or> exit_code e \<noteq> Some 0"

datatype quit_cause =
    QuitRequested
  | LastTabClosed tab_id "pane_process_exited option"

datatype terminal_too_small_cause = TerminalCause | RegionsCause | OtherClientCause client_id

text \<open>The size of a pane's PTY (\<open>process.rs\<close>).\<close>

record pty_size =
  pty_column_count :: u16
  pty_row_count :: u16

text \<open>Where a placement puts a pane (\<open>command.rs\<close>).\<close>

datatype pane_placement_anchor = PaneAnchor pane_id | GroupAnchor "pane_id list" | TabAnchor

datatype tiled_placement_target =
    SwapTarget pane_id
  | SplitTarget tab_id pane_placement_anchor direction
  | StackTarget pane_id

datatype pane_placement_target = TiledTarget tiled_placement_target | FloatingTarget "point option"

record pane_placement_committed =
  placement_command_id :: command_id
  source_pane_ids :: "pane_id list"
  source_tab_id :: "tab_id option"
  destination_tab_id :: "tab_id option"
  placement_target :: pane_placement_target

datatype event =
    PaneCreated pane_id "tab_id option"
  | PaneProcessExited pane_process_exited
  | PaneClosing pane_id
  | PaneRemoved pane_id "tab_id option"
  | PaneFocused client_id "tab_id option" pane_id "pane_id option"
  | PtyResized pane_id pty_size
  | LayoutChanged tab_id
  | FloatingPaneLayoutChanged "pane_id list"
  | PanePlacementCommitted pane_placement_committed
  | TabCreated tab_id
  | TabClosed tab_id
  | TabFocused client_id tab_id tab_id
  | TabMoved tab_id nat nat
  | TerminalTooSmallEntered client_id cell_size "pane_area option" terminal_too_small_cause
  | ConfigReloaded session_id
  | InputModeChanged client_id lock_mode
  | MouseSelectChanged client_id bool
  | PaneCommandStarted pane_id
  | PaneCommandFinished pane_id
  | SelectionChanged client_id pane_id "selection option"
  | FloatingPaneMoved client_id "pane_id list" point
  | FloatingPanePinChanged client_id "pane_id list" bool
  | FloatingPaneMinimizedChanged client_id "pane_id list" bool
  | Quit quit_cause
  | Restarting

fun get_event_name :: "event \<Rightarrow> string" where
  "get_event_name (PaneCreated _ _) = ''PaneCreated''"
| "get_event_name (PaneProcessExited _) = ''PaneProcessExited''"
| "get_event_name (PaneClosing _) = ''PaneClosing''"
| "get_event_name (PaneRemoved _ _) = ''PaneRemoved''"
| "get_event_name (PaneFocused _ _ _ _) = ''PaneFocused''"
| "get_event_name (PtyResized _ _) = ''PtyResized''"
| "get_event_name (LayoutChanged _) = ''LayoutChanged''"
| "get_event_name (FloatingPaneLayoutChanged _) = ''FloatingPaneLayoutChanged''"
| "get_event_name (PanePlacementCommitted _) = ''PanePlacementCommitted''"
| "get_event_name (TabCreated _) = ''TabCreated''"
| "get_event_name (TabClosed _) = ''TabClosed''"
| "get_event_name (TabFocused _ _ _) = ''TabFocused''"
| "get_event_name (TabMoved _ _ _) = ''TabMoved''"
| "get_event_name (TerminalTooSmallEntered _ _ _ _) = ''TerminalTooSmallEntered''"
| "get_event_name (ConfigReloaded _) = ''ConfigReloaded''"
| "get_event_name (InputModeChanged _ _) = ''InputModeChanged''"
| "get_event_name (MouseSelectChanged _ _) = ''MouseSelectChanged''"
| "get_event_name (PaneCommandStarted _) = ''PaneCommandStarted''"
| "get_event_name (PaneCommandFinished _) = ''PaneCommandFinished''"
| "get_event_name (SelectionChanged _ _ _) = ''SelectionChanged''"
| "get_event_name (FloatingPaneMoved _ _ _) = ''FloatingPaneMoved''"
| "get_event_name (FloatingPanePinChanged _ _ _) = ''FloatingPanePinChanged''"
| "get_event_name (FloatingPaneMinimizedChanged _ _ _) = ''FloatingPaneMinimizedChanged''"
| "get_event_name (Quit _) = ''Quit''"
| "get_event_name Restarting = ''Restarting''"

end
