(* ===== verification/Client.thy ===== *)
theory Client
  imports Layout_Area Event
begin

text \<open>
  One attached client and the client registry (\<open>koshi-session/src/client.rs\<close>): the view state that is
  the client's alone. A setter that reports a change returns it beside the changed client.
  The two \<open>OnceCell\<close> caches are options: \<open>None\<close> is the empty cell. Reading a cell that is empty builds
  the value; keeping it in the cell is the operation \<open>keep_own_active_tab_solve\<close>, and likewise for
  floating panes.
\<close>

section \<open>Data\<close>

definition MIN_FLOATING_PANE_SIZE :: cell_size where
  "MIN_FLOATING_PANE_SIZE =
     \<lparr>column_count = column_count MIN_PANE_SIZE + column_count PANE_BORDER_SIZE,
      row_count = row_count MIN_PANE_SIZE + row_count PANE_BORDER_SIZE + FLOATING_TITLEBAR_STRIP_ROW_COUNT\<rparr>"

definition compute_default_pane_area_size :: "cell_size \<Rightarrow> cell_size" where
  "compute_default_pane_area_size viewport = viewport\<lparr>row_count := sat_sub (row_count viewport) 2\<rparr>"

record floating_pane_view =
  view_position :: floating_pane_position
  is_minimized :: bool
  view_focus_history :: "pane_id list"
  view_zoomed_pane_id :: "pane_id option"

record floating_pane_view_with_own_solve =
  own_view :: floating_pane_view
  own_solve :: "layout_solve option option"

record tiled_pane_focus_change =
  previous_pane_id :: "pane_id option"
  minimized_floating_pane_ids :: "floating_pane_id list"

record client =
  own_client_id :: client_id
  client_session_id :: session_id
  attached_at :: nat
  viewport_size :: cell_size
  client_cell_size :: "pixel_cell_size option"
  reported_pane_area :: "pane_area option"
  active_tab_id :: tab_id
  client_origin_of :: client_origin
  label :: rust_string
  color_index :: u8
  focus_history_by_tab_id :: "(tab_id, pane_id list) ordered_map"
  client_lock_mode :: lock_mode
  last_applied_lock_command_id :: "command_id option"
  last_applied_floating_pane_move_command_id :: "command_id option"
  last_applied_placement_command_id :: "command_id option"
  is_mouse_selection_enabled :: bool
  scroll_offset_by_pane_id :: "(pane_id, nat) ordered_map"
  selection_by_pane_id :: "(pane_id, selection) ordered_map"
  zoomed_pane_id_by_tab_id :: "(tab_id, pane_id) ordered_map"
  own_active_tab_solve :: "layout_solve option option"
  floating_pane_view_by_id :: "(floating_pane_id, floating_pane_view_with_own_solve) ordered_map"
  shown_floating_pane_ids :: "floating_pane_id list"
  focused_floating_pane_id :: "floating_pane_id option"
  is_view_changed :: bool

definition from_attachment ::
  "client_id \<Rightarrow> session_id \<Rightarrow> nat \<Rightarrow> cell_size \<Rightarrow> pane_area option \<Rightarrow> tab_id \<Rightarrow> client_origin \<Rightarrow>
   rust_string \<Rightarrow> u8 \<Rightarrow> client" where
  "from_attachment c s at viewport area t orig lab col =
     \<lparr>own_client_id = c, client_session_id = s, attached_at = at, viewport_size = viewport,
      client_cell_size = None, reported_pane_area = area, active_tab_id = t, client_origin_of = orig,
      label = lab, color_index = col, focus_history_by_tab_id = RBT.empty, client_lock_mode = NormalMode,
      last_applied_lock_command_id = None, last_applied_floating_pane_move_command_id = None,
      last_applied_placement_command_id = None, is_mouse_selection_enabled = False,
      scroll_offset_by_pane_id = RBT.empty, selection_by_pane_id = RBT.empty,
      zoomed_pane_id_by_tab_id = RBT.empty, own_active_tab_solve = None,
      floating_pane_view_by_id = RBT.empty, shown_floating_pane_ids = [], focused_floating_pane_id = None,
      is_view_changed = False\<rparr>"

text \<open>\<open>self.is_view_changed |= changed\<close>.\<close>

definition mark_view_changed :: "bool \<Rightarrow> client \<Rightarrow> client" where
  "mark_view_changed changed c = c\<lparr>is_view_changed := (is_view_changed c \<or> changed)\<rparr>"

definition clear_own_active_tab_solve :: "client \<Rightarrow> client" where
  "clear_own_active_tab_solve c = c\<lparr>own_active_tab_solve := None\<rparr>"

section \<open>Placement of floating panes\<close>

definition place_floating_pane :: "floating_pane_position \<Rightarrow> cell_size \<Rightarrow> nat \<Rightarrow> cell_size \<Rightarrow> rect" where
  "place_floating_pane pos pane_size cascade_index viewport =
     (let free_column_count = sat_sub (column_count viewport) (column_count pane_size);
          free_row_count = sat_sub (row_count viewport) (row_count pane_size);
          unclamped_top_left_cell =
            (case pos of
               Moved top_left_cell \<Rightarrow> top_left_cell
             | Pinned top_left_cell \<Rightarrow> top_left_cell
             | DefaultPosition \<Rightarrow>
                 (let centered_cell = compute_centered_origin viewport pane_size;
                      right_margin = free_column_count - column centered_cell;
                      bottom_margin = free_row_count - row centered_cell;
                      max_cascade_steps = unat (min (right_margin div 2) bottom_margin);
                      cascade_step = of_nat (cascade_index mod (max_cascade_steps + 1))
                  in \<lparr>column = column centered_cell + 2 * cascade_step, row = row centered_cell + cascade_step\<rparr>))
      in compute_moved_inside (from_origin_and_size unclamped_top_left_cell pane_size) viewport)"

section \<open>Reading a client\<close>

definition view_layout_mode :: "floating_pane_view \<Rightarrow> layout_mode" where
  "view_layout_mode v = (case view_zoomed_pane_id v of Some p \<Rightarrow> Fullscreen p | None \<Rightarrow> Tiled)"

definition list_focus_history :: "client \<Rightarrow> tab_id \<Rightarrow> pane_id list" where
  "list_focus_history c t = (case get (focus_history_by_tab_id c) t of Some h \<Rightarrow> h | None \<Rightarrow> [])"

text \<open>\<open>slice.first().copied()\<close>.\<close>

definition first :: "'a list \<Rightarrow> 'a option" where
  "first xs = (case xs of [] \<Rightarrow> None | x # _ \<Rightarrow> Some x)"

text \<open>\<open>slice.last().copied()\<close>.\<close>

definition last_opt :: "'a list \<Rightarrow> 'a option" where
  "last_opt xs = (if xs = [] then None else Some (last xs))"

definition get_focused_pane_id :: "client \<Rightarrow> tab_id \<Rightarrow> pane_id option" where
  "get_focused_pane_id c t = first (list_focus_history c t)"

definition get_floating_pane_view :: "client \<Rightarrow> floating_pane_id \<Rightarrow> floating_pane_view option" where
  "get_floating_pane_view c f = map_option own_view (get (floating_pane_view_by_id c) f)"

definition find_floating_pane_input_pane_id :: "client \<Rightarrow> floating_pane_id \<Rightarrow> pane_id option" where
  "find_floating_pane_input_pane_id c f =
     Option.bind (get_floating_pane_view c f) (\<lambda>v. first (view_focus_history v))"

definition find_focused_floating_pane_input_pane_id :: "client \<Rightarrow> pane_id option" where
  "find_focused_floating_pane_input_pane_id c =
     Option.bind (focused_floating_pane_id c) (find_floating_pane_input_pane_id c)"

definition get_active_focused_pane_id :: "client \<Rightarrow> pane_id option" where
  "get_active_focused_pane_id c =
     (case find_focused_floating_pane_input_pane_id c of
        Some p \<Rightarrow> Some p
      | None \<Rightarrow> get_focused_pane_id c (active_tab_id c))"

definition get_layout_mode :: "client \<Rightarrow> tab_id \<Rightarrow> layout_mode" where
  "get_layout_mode c t = (case get (zoomed_pane_id_by_tab_id c) t of None \<Rightarrow> Tiled | Some p \<Rightarrow> Fullscreen p)"

definition get_scroll_offset :: "client \<Rightarrow> pane_id \<Rightarrow> nat" where
  "get_scroll_offset c p = (case get (scroll_offset_by_pane_id c) p of Some n \<Rightarrow> n | None \<Rightarrow> 0)"

definition is_view_held :: "client \<Rightarrow> pane_id \<Rightarrow> bool" where
  "is_view_held c p \<longleftrightarrow> 0 < get_scroll_offset c p \<or> has_key (selection_by_pane_id c) p"

definition get_pane_area :: "client \<Rightarrow> cell_size option" where
  "get_pane_area c =
     (case reported_pane_area c of
        None \<Rightarrow> Some (compute_default_pane_area_size (viewport_size c))
      | Some (Reported area) \<Rightarrow> Some (compute_minimum_axes area (viewport_size c))
      | Some Starving \<Rightarrow> None)"

definition get_floating_viewport :: "client \<Rightarrow> cell_size option" where
  "get_floating_viewport c =
     (case get_pane_area c of
        Some area \<Rightarrow>
          if size_can_fit_inside MIN_FLOATING_PANE_SIZE (compute_floating_pane_size_cap area) then Some area else None
      | None \<Rightarrow> None)"

definition is_floating_pane_shown :: "client \<Rightarrow> floating_pane_id \<Rightarrow> bool" where
  "is_floating_pane_shown c f =
     (case get_floating_pane_view c f of Some v \<Rightarrow> \<not> is_minimized v | None \<Rightarrow> False)"


section \<open>Zoom, scroll and selection\<close>

definition zoom_pane :: "tab_id \<Rightarrow> pane_id \<Rightarrow> client \<Rightarrow> client" where
  "zoom_pane t p c =
     clear_own_active_tab_solve
       (mark_view_changed (get (zoomed_pane_id_by_tab_id c) t \<noteq> Some p)
          (c\<lparr>zoomed_pane_id_by_tab_id := RBT.insert t p (zoomed_pane_id_by_tab_id c)\<rparr>))"

definition clear_zoom :: "tab_id \<Rightarrow> client \<Rightarrow> client" where
  "clear_zoom t c =
     clear_own_active_tab_solve
       (mark_view_changed (has_key (zoomed_pane_id_by_tab_id c) t)
          (c\<lparr>zoomed_pane_id_by_tab_id := RBT.delete t (zoomed_pane_id_by_tab_id c)\<rparr>))"

text \<open>A change of one view; a floating pane the client holds no view of changes nothing.\<close>

definition update_view ::
  "floating_pane_id \<Rightarrow> (floating_pane_view_with_own_solve \<Rightarrow> floating_pane_view_with_own_solve) \<Rightarrow> client \<Rightarrow> client" where
  "update_view f g c = c\<lparr>floating_pane_view_by_id := RBT.map_entry f g (floating_pane_view_by_id c)\<rparr>"

definition clear_own_floating_pane_solve :: "floating_pane_id \<Rightarrow> client \<Rightarrow> client" where
  "clear_own_floating_pane_solve f c = update_view f (\<lambda>v. v\<lparr>own_solve := None\<rparr>) c"

definition clear_floating_pane_zoom :: "floating_pane_id \<Rightarrow> client \<Rightarrow> client" where
  "clear_floating_pane_zoom f c =
     (case get_floating_pane_view c f of
        None \<Rightarrow> c
      | Some v \<Rightarrow>
          if view_zoomed_pane_id v = None then c
          else
            clear_own_floating_pane_solve f
              (mark_view_changed True
                 (update_view f (\<lambda>v. v\<lparr>own_view := (own_view v)\<lparr>view_zoomed_pane_id := None\<rparr>\<rparr>) c)))"

definition zoom_pane_in_floating_pane :: "floating_pane_id \<Rightarrow> pane_id \<Rightarrow> client \<Rightarrow> client" where
  "zoom_pane_in_floating_pane f p c =
     (case get_floating_pane_view c f of
        None \<Rightarrow> c
      | Some v \<Rightarrow>
          clear_own_floating_pane_solve f
            (mark_view_changed (view_zoomed_pane_id v \<noteq> Some p)
               (update_view f (\<lambda>v. v\<lparr>own_view := (own_view v)\<lparr>view_zoomed_pane_id := Some p\<rparr>\<rparr>) c)))"

definition clear_zoom_of_pane :: "pane_id \<Rightarrow> client \<Rightarrow> client" where
  "clear_zoom_of_pane p c =
     (let kept = RBT.filter (\<lambda>_ q. q \<noteq> p) (zoomed_pane_id_by_tab_id c);
          c' = clear_own_active_tab_solve
                 (mark_view_changed (map_size kept \<noteq> map_size (zoomed_pane_id_by_tab_id c))
                    (c\<lparr>zoomed_pane_id_by_tab_id := kept\<rparr>));
          zoomed = map fst (filter (\<lambda>(_, v). view_zoomed_pane_id (own_view v) = Some p)
                              (RBT.entries (floating_pane_view_by_id c')))
      in fold clear_floating_pane_zoom zoomed c')"

definition set_scroll_offset :: "pane_id \<Rightarrow> nat \<Rightarrow> client \<Rightarrow> client" where
  "set_scroll_offset p n c =
     (let c' = mark_view_changed (get_scroll_offset c p \<noteq> n) c in
      if n = 0 then c'\<lparr>scroll_offset_by_pane_id := RBT.delete p (scroll_offset_by_pane_id c')\<rparr>
      else c'\<lparr>scroll_offset_by_pane_id := RBT.insert p n (scroll_offset_by_pane_id c')\<rparr>)"

definition set_selection :: "pane_id \<Rightarrow> selection \<Rightarrow> client \<Rightarrow> client" where
  "set_selection p s c =
     mark_view_changed (get (selection_by_pane_id c) p \<noteq> Some s)
       (c\<lparr>selection_by_pane_id := RBT.insert p s (selection_by_pane_id c)\<rparr>)"

definition clear_selection :: "pane_id \<Rightarrow> client \<Rightarrow> client" where
  "clear_selection p c =
     mark_view_changed (has_key (selection_by_pane_id c) p)
       (c\<lparr>selection_by_pane_id := RBT.delete p (selection_by_pane_id c)\<rparr>)"

section \<open>Modes and sizes\<close>

definition update_lock_mode :: "lock_mode \<Rightarrow> client \<Rightarrow> client" where
  "update_lock_mode m c = mark_view_changed (client_lock_mode c \<noteq> m) (c\<lparr>client_lock_mode := m\<rparr>)"

definition set_last_applied_lock_command_id :: "command_id \<Rightarrow> client \<Rightarrow> client" where
  "set_last_applied_lock_command_id i c =
     mark_view_changed (last_applied_lock_command_id c \<noteq> Some i) (c\<lparr>last_applied_lock_command_id := Some i\<rparr>)"

definition set_last_applied_floating_pane_move_command_id :: "command_id \<Rightarrow> client \<Rightarrow> client" where
  "set_last_applied_floating_pane_move_command_id i c =
     mark_view_changed (last_applied_floating_pane_move_command_id c \<noteq> Some i)
       (c\<lparr>last_applied_floating_pane_move_command_id := Some i\<rparr>)"

definition set_last_applied_placement_command_id :: "command_id \<Rightarrow> client \<Rightarrow> client" where
  "set_last_applied_placement_command_id i c =
     mark_view_changed (last_applied_placement_command_id c \<noteq> Some i)
       (c\<lparr>last_applied_placement_command_id := Some i\<rparr>)"

definition toggle_mouse_selection :: "client \<Rightarrow> client \<times> bool" where
  "toggle_mouse_selection c =
     (let c' = c\<lparr>is_view_changed := True, is_mouse_selection_enabled := \<not> is_mouse_selection_enabled c\<rparr>
      in (c', is_mouse_selection_enabled c'))"

definition update_viewport_size :: "cell_size \<Rightarrow> client \<Rightarrow> client" where
  "update_viewport_size s c = mark_view_changed (viewport_size c \<noteq> s) (c\<lparr>viewport_size := s\<rparr>)"

definition update_pane_area :: "pane_area option \<Rightarrow> client \<Rightarrow> client" where
  "update_pane_area a c = mark_view_changed (reported_pane_area c \<noteq> a) (c\<lparr>reported_pane_area := a\<rparr>)"

definition update_cell_size :: "pixel_cell_size option \<Rightarrow> client \<Rightarrow> client" where
  "update_cell_size s c = c\<lparr>client_cell_size := s\<rparr>"

definition update_origin :: "client_origin \<Rightarrow> client \<Rightarrow> client" where
  "update_origin orig c = c\<lparr>client_origin_of := orig\<rparr>"

definition update_active_tab_id :: "tab_id \<Rightarrow> client \<Rightarrow> client" where
  "update_active_tab_id t c =
     clear_own_active_tab_solve (mark_view_changed (active_tab_id c \<noteq> t) (c\<lparr>active_tab_id := t\<rparr>))"

section \<open>Focus in tabs\<close>

text \<open>The pane at the front of a history that holds it once.\<close>

definition move_to_front :: "'a \<Rightarrow> 'a list \<Rightarrow> 'a list" where
  "move_to_front x xs = x # filter (\<lambda>y. y \<noteq> x) xs"

definition update_focused_pane :: "tab_id \<Rightarrow> pane_id \<Rightarrow> client \<Rightarrow> client \<times> pane_id option" where
  "update_focused_pane t p c =
     (let zoom_moved = (case get (zoomed_pane_id_by_tab_id c) t of Some q \<Rightarrow> q \<noteq> p | None \<Rightarrow> False);
          c1 = mark_view_changed zoom_moved
                 (c\<lparr>zoomed_pane_id_by_tab_id := RBT.map_entry t (\<lambda>_. p) (zoomed_pane_id_by_tab_id c)\<rparr>);
          history = list_focus_history c1 t;
          previous = first history;
          c2 = c1\<lparr>focus_history_by_tab_id := RBT.insert t (move_to_front p history) (focus_history_by_tab_id c1)\<rparr>
      in (clear_own_active_tab_solve (mark_view_changed (previous \<noteq> Some p) c2), previous))"

definition remove_pane_from_focus_history :: "tab_id \<Rightarrow> pane_id \<Rightarrow> client \<Rightarrow> client" where
  "remove_pane_from_focus_history t p c =
     (case get (focus_history_by_tab_id c) t of
        None \<Rightarrow> c
      | Some history \<Rightarrow>
          (let kept = filter (\<lambda>q. q \<noteq> p) history;
               c1 = mark_view_changed (length kept \<noteq> length history) c
           in clear_own_active_tab_solve
                (c1\<lparr>focus_history_by_tab_id :=
                     (if kept = [] then RBT.delete t (focus_history_by_tab_id c1)
                      else RBT.insert t kept (focus_history_by_tab_id c1))\<rparr>)))"

definition insert_panes_into_focus_history :: "tab_id \<Rightarrow> nat \<Rightarrow> pane_id list \<Rightarrow> client \<Rightarrow> client" where
  "insert_panes_into_focus_history t history_index ps c =
     (let history = list_focus_history c t;
          inserted = filter (\<lambda>p. p \<notin> set history) ps
      in if inserted = [] then c
         else
           (let i = min history_index (length history)
            in clear_own_active_tab_solve
                 (c\<lparr>focus_history_by_tab_id :=
                      RBT.insert t (take i history @ inserted @ drop i history) (focus_history_by_tab_id c),
                    is_view_changed := True\<rparr>)))"

definition clear_focus_history :: "tab_id \<Rightarrow> client \<Rightarrow> client" where
  "clear_focus_history t c =
     clear_own_active_tab_solve
       (mark_view_changed (has_key (focus_history_by_tab_id c) t \<or> has_key (zoomed_pane_id_by_tab_id c) t)
          (c\<lparr>focus_history_by_tab_id := RBT.delete t (focus_history_by_tab_id c),
             zoomed_pane_id_by_tab_id := RBT.delete t (zoomed_pane_id_by_tab_id c)\<rparr>))"

section \<open>Floating views\<close>

definition set_minimized :: "bool \<Rightarrow> floating_pane_view_with_own_solve \<Rightarrow> floating_pane_view_with_own_solve" where
  "set_minimized b v = v\<lparr>own_view := (own_view v)\<lparr>is_minimized := b\<rparr>\<rparr>"

definition minimize_shown_floating_panes :: "client \<Rightarrow> client \<times> floating_pane_id list" where
  "minimize_shown_floating_panes c =
     (let minimized = shown_floating_pane_ids c;
          c1 = fold (\<lambda>f. update_view f (set_minimized True)) minimized (c\<lparr>shown_floating_pane_ids := []\<rparr>);
          c2 = mark_view_changed (minimized \<noteq> [] \<or> focused_floating_pane_id c1 \<noteq> None) c1
      in (c2\<lparr>focused_floating_pane_id := None\<rparr>, minimized))"

definition focus_tiled_pane :: "tab_id \<Rightarrow> pane_id \<Rightarrow> client \<Rightarrow> client \<times> tiled_pane_focus_change" where
  "focus_tiled_pane t p c =
     (let previous_floating = find_focused_floating_pane_input_pane_id c;
          is_active = (t = active_tab_id c)
      in case (if is_active then minimize_shown_floating_panes c else (c, [])) of
           (c1, minimized) \<Rightarrow>
             (case update_focused_pane t p c1 of
                (c2, previous_tab_pane) \<Rightarrow>
                  (c2, \<lparr>previous_pane_id =
                          (if is_active then
                             (case previous_floating of Some q \<Rightarrow> Some q | None \<Rightarrow> previous_tab_pane)
                           else previous_tab_pane),
                        minimized_floating_pane_ids = minimized\<rparr>)))"

definition add_floating_pane_view :: "floating_pane \<Rightarrow> floating_pane_position \<Rightarrow> client \<Rightarrow> client" where
  "add_floating_pane_view f pos c =
     (if has_key (floating_pane_view_by_id c) (own_floating_pane_id f) then c
      else
        c\<lparr>floating_pane_view_by_id :=
            RBT.insert (own_floating_pane_id f)
              \<lparr>own_view = \<lparr>view_position = pos, is_minimized = True,
                            view_focus_history = take 1 (list_floating_pane_ids f), view_zoomed_pane_id = None\<rparr>,
               own_solve = None\<rparr>
              (floating_pane_view_by_id c)\<rparr>)"

definition focus_floating_pane :: "floating_pane_id \<Rightarrow> client \<Rightarrow> client \<times> bool" where
  "focus_floating_pane f c =
     (case get_floating_pane_view c f of
        None \<Rightarrow> (c, False)
      | Some v \<Rightarrow>
          (let restored = is_minimized v;
               c1 = mark_view_changed
                      (restored \<or> last_opt (shown_floating_pane_ids c) \<noteq> Some f \<or> focused_floating_pane_id c \<noteq> Some f)
                      (update_view f (set_minimized False) c)
           in (c1\<lparr>shown_floating_pane_ids := filter (\<lambda>g. g \<noteq> f) (shown_floating_pane_ids c1) @ [f],
                  focused_floating_pane_id := Some f\<rparr>, restored)))"

definition update_floating_pane_focused_pane :: "floating_pane_id \<Rightarrow> pane_id \<Rightarrow> client \<Rightarrow> client" where
  "update_floating_pane_focused_pane f p c =
     (case get_floating_pane_view c f of
        None \<Rightarrow> c
      | Some v \<Rightarrow>
          if first (view_focus_history v) = Some p then c
          else
            clear_own_floating_pane_solve f
              (mark_view_changed True
                 (update_view f
                    (\<lambda>w. w\<lparr>own_view := (own_view w)
                        \<lparr>view_focus_history := move_to_front p (view_focus_history (own_view w)),
                         view_zoomed_pane_id :=
                           (if view_zoomed_pane_id (own_view w) \<noteq> None then Some p else None)\<rparr>\<rparr>) c)))"

definition remove_pane_from_floating_pane_focus_history :: "floating_pane_id \<Rightarrow> pane_id \<Rightarrow> client \<Rightarrow> client" where
  "remove_pane_from_floating_pane_focus_history f p c =
     (case get_floating_pane_view c f of
        None \<Rightarrow> c
      | Some v \<Rightarrow>
          (let kept = filter (\<lambda>q. q \<noteq> p) (view_focus_history v);
               c1 = update_view f (\<lambda>w. w\<lparr>own_view := (own_view w)\<lparr>view_focus_history := kept\<rparr>\<rparr>) c
           in if length kept = length (view_focus_history v) then c1
              else clear_own_floating_pane_solve f (mark_view_changed True c1)))"

definition remove_shown_floating_pane :: "floating_pane_id \<Rightarrow> client \<Rightarrow> client" where
  "remove_shown_floating_pane f c =
     (let kept = filter (\<lambda>g. g \<noteq> f) (shown_floating_pane_ids c);
          c1 = mark_view_changed (length kept \<noteq> length (shown_floating_pane_ids c)) (c\<lparr>shown_floating_pane_ids := kept\<rparr>)
      in if focused_floating_pane_id c1 = Some f then c1\<lparr>focused_floating_pane_id := last_opt kept\<rparr> else c1)"

definition minimize_floating_pane :: "floating_pane_id \<Rightarrow> client \<Rightarrow> client \<times> bool" where
  "minimize_floating_pane f c =
     (case get_floating_pane_view c f of
        None \<Rightarrow> (c, False)
      | Some v \<Rightarrow>
          if is_minimized v then (c, False)
          else (remove_shown_floating_pane f (update_view f (set_minimized True) c), True))"

definition update_floating_pane_position :: "floating_pane_id \<Rightarrow> floating_pane_position \<Rightarrow> client \<Rightarrow> client" where
  "update_floating_pane_position f pos c =
     (case get_floating_pane_view c f of
        None \<Rightarrow> c
      | Some v \<Rightarrow>
          update_view f (\<lambda>w. w\<lparr>own_view := (own_view w)\<lparr>view_position := pos\<rparr>\<rparr>)
            (mark_view_changed (view_position v \<noteq> pos \<and> \<not> is_minimized v) c))"

definition pin_floating_pane :: "floating_pane_id \<Rightarrow> point \<Rightarrow> client \<Rightarrow> client" where
  "pin_floating_pane f top_left_cell = update_floating_pane_position f (Pinned top_left_cell)"

definition unpin_floating_pane :: "floating_pane_id \<Rightarrow> client \<Rightarrow> client" where
  "unpin_floating_pane f c =
     (case map_option view_position (get_floating_pane_view c f) of
        Some (Pinned top_left_cell) \<Rightarrow> update_floating_pane_position f (Moved top_left_cell) c
      | _ \<Rightarrow> c)"

definition set_floating_pane_position :: "floating_pane_id \<Rightarrow> point \<Rightarrow> client \<Rightarrow> client \<times> bool" where
  "set_floating_pane_position f top_left_cell c =
     (case map_option view_position (get_floating_pane_view c f) of
        None \<Rightarrow> (c, False)
      | Some (Pinned _) \<Rightarrow> (c, False)
      | Some _ \<Rightarrow> (update_floating_pane_position f (Moved top_left_cell) c, True))"

definition remove_floating_pane_view :: "floating_pane_id \<Rightarrow> client \<Rightarrow> client" where
  "remove_floating_pane_view f c =
     remove_shown_floating_pane f (c\<lparr>floating_pane_view_by_id := RBT.delete f (floating_pane_view_by_id c)\<rparr>)"


definition restored_view ::
  "(floating_pane_id, floating_pane_view) ordered_map \<Rightarrow> floating_pane_id list \<Rightarrow> floating_pane \<Rightarrow>
   floating_pane_view_with_own_solve" where
  "restored_view saved shown f =
     (let saved_view = get saved (own_floating_pane_id f);
          history = (case saved_view of
                       Some v \<Rightarrow> filter (has_pane (floating_layout f)) (view_focus_history v)
                     | None \<Rightarrow> [])
      in \<lparr>own_view =
            \<lparr>view_position = (case saved_view of Some v \<Rightarrow> view_position v | None \<Rightarrow> DefaultPosition),
             is_minimized = (own_floating_pane_id f \<notin> set shown),
             view_focus_history = (if history = [] then take 1 (list_floating_pane_ids f) else history),
             view_zoomed_pane_id =
               (case Option.bind saved_view view_zoomed_pane_id of
                  Some p \<Rightarrow> if has_pane (floating_layout f) p then Some p else None
                | None \<Rightarrow> None)\<rparr>,
          own_solve = None\<rparr>)"

definition replace_floating_view ::
  "(floating_pane_id, floating_pane_view) ordered_map \<Rightarrow> floating_pane_id list \<Rightarrow> floating_set \<Rightarrow> client \<Rightarrow> client" where
  "replace_floating_view saved saved_shown floats c =
     (let shown = filter (\<lambda>f. find_floating_pane_by_id floats f \<noteq> None \<and>
                              (case get saved f of Some v \<Rightarrow> \<not> is_minimized v | None \<Rightarrow> False)) saved_shown;
          views = fold (\<lambda>f. RBT.insert (own_floating_pane_id f) (restored_view saved shown f)) floats RBT.empty;
          focused = last_opt shown;
          changed = (shown \<noteq> shown_floating_pane_ids c \<or> focused \<noteq> focused_floating_pane_id c \<or>
                     list_ex (\<lambda>f. map_option own_view (get views f) \<noteq> get_floating_pane_view c f) shown)
      in (mark_view_changed changed c)
           \<lparr>floating_pane_view_by_id := views, shown_floating_pane_ids := shown, focused_floating_pane_id := focused\<rparr>)"

section \<open>Kept solves\<close>

text \<open>
  \<open>get_or_init\<close>: the value of the cell, or the built value. Keeping the built value is a change of the
  client of its own.
\<close>

definition get_own_active_tab_solve :: "client \<Rightarrow> layout_solve option \<Rightarrow> layout_solve option" where
  "get_own_active_tab_solve c built = (case own_active_tab_solve c of Some kept \<Rightarrow> kept | None \<Rightarrow> built)"

definition keep_own_active_tab_solve :: "layout_solve option \<Rightarrow> client \<Rightarrow> client" where
  "keep_own_active_tab_solve built c = c\<lparr>own_active_tab_solve := Some (get_own_active_tab_solve c built)\<rparr>"

definition get_own_floating_pane_solve :: "client \<Rightarrow> floating_pane_id \<Rightarrow> layout_solve option \<Rightarrow> layout_solve option" where
  "get_own_floating_pane_solve c f built =
     Option.bind (get (floating_pane_view_by_id c) f)
       (\<lambda>v. case own_solve v of Some kept \<Rightarrow> kept | None \<Rightarrow> built)"

definition keep_own_floating_pane_solve :: "floating_pane_id \<Rightarrow> layout_solve option \<Rightarrow> client \<Rightarrow> client" where
  "keep_own_floating_pane_solve f built c =
     update_view f (\<lambda>v. v\<lparr>own_solve := Some (case own_solve v of Some kept \<Rightarrow> kept | None \<Rightarrow> built)\<rparr>) c"

section \<open>The registry\<close>

record client_registry =
  client_by_id :: "(client_id, client) ordered_map"
  has_client_write :: bool
  detached_client_ids :: "client_id list"

definition new_client_registry :: client_registry where
  "new_client_registry = \<lparr>client_by_id = RBT.empty, has_client_write = False, detached_client_ids = []\<rparr>"

abbreviation get_client_by_id :: "client_registry \<Rightarrow> client_id \<Rightarrow> client option" where
  "get_client_by_id r \<equiv> get (client_by_id r)"

text \<open>A change through \<open>get_client_mut_by_id\<close>, and one through \<open>list_attached_clients_mut\<close>.\<close>

definition update_client :: "client_id \<Rightarrow> (client \<Rightarrow> client) \<Rightarrow> client_registry \<Rightarrow> client_registry" where
  "update_client i g r = r\<lparr>has_client_write := True, client_by_id := RBT.map_entry i g (client_by_id r)\<rparr>"

definition update_all_clients :: "(client \<Rightarrow> client) \<Rightarrow> client_registry \<Rightarrow> client_registry" where
  "update_all_clients g r = r\<lparr>has_client_write := True, client_by_id := map_all g (client_by_id r)\<rparr>"

definition registry_detach_client :: "client_id \<Rightarrow> client_registry \<Rightarrow> client_registry \<times> client option" where
  "registry_detach_client i r =
     (case get (client_by_id r) i of
        None \<Rightarrow> (r, None)
      | Some c \<Rightarrow>
          (r\<lparr>client_by_id := RBT.delete i (client_by_id r), detached_client_ids := detached_client_ids r @ [i]\<rparr>, Some c))"

definition registry_attach_client :: "client \<Rightarrow> client_registry \<Rightarrow> client_registry \<times> client option" where
  "registry_attach_client c r =
     (r\<lparr>has_client_write := True,
        client_by_id := RBT.insert (own_client_id c) (c\<lparr>is_view_changed := True\<rparr>) (client_by_id r)\<rparr>,
      get (client_by_id r) (own_client_id c))"

definition take_changed_client_ids :: "client_registry \<Rightarrow> client_registry \<times> client_id set" where
  "take_changed_client_ids r =
     (if has_client_write r then
        (r\<lparr>has_client_write := False, detached_client_ids := [],
           client_by_id := map_all (\<lambda>c. c\<lparr>is_view_changed := False\<rparr>) (client_by_id r)\<rparr>,
         set (detached_client_ids r) \<union>
           set (map own_client_id (filter is_view_changed (map_values (client_by_id r)))))
      else (r\<lparr>detached_client_ids := []\<rparr>, set (detached_client_ids r)))"

definition clear_own_active_tab_solves :: "tab_id \<Rightarrow> client_registry \<Rightarrow> client_registry" where
  "clear_own_active_tab_solves t r =
     r\<lparr>client_by_id :=
         map_all (\<lambda>c. if active_tab_id c = t then clear_own_active_tab_solve c else c) (client_by_id r)\<rparr>"

definition clear_own_floating_pane_solves :: "floating_pane_id \<Rightarrow> client_registry \<Rightarrow> client_registry" where
  "clear_own_floating_pane_solves f r =
     r\<lparr>client_by_id := map_all (clear_own_floating_pane_solve f) (client_by_id r)\<rparr>"

definition list_attached_clients :: "client_registry \<Rightarrow> client list" where
  "list_attached_clients r = map_values (client_by_id r)"

definition has_clients :: "client_registry \<Rightarrow> bool" where
  "has_clients r \<longleftrightarrow> \<not> RBT.is_empty (client_by_id r)"

definition count_clients :: "client_registry \<Rightarrow> nat" where
  "count_clients r = map_size (client_by_id r)"

end
