(* ===== verification/Lifecycle.thy ===== *)
theory Lifecycle
  imports Main
begin

text \<open>
  The lifecycle of a session (\<open>koshi-session/src/session/lifecycle.rs\<close>): five states, five events, and
  a transition function that accepts seven pairs and rejects every other.
\<close>

datatype session_lifecycle = Starting | Running | Detaching | Stopping | Stopped

datatype session_lifecycle_event =
    FirstTabCreated
  | LastClientDetached
  | ClientAttached
  | StopRequested
  | StopCompleted

datatype invalid_transition = InvalidTransition session_lifecycle session_lifecycle_event

definition transition ::
  "session_lifecycle \<Rightarrow> session_lifecycle_event \<Rightarrow> invalid_transition + session_lifecycle" where
  "transition s e =
     (case (s, e) of
        (Starting, FirstTabCreated) \<Rightarrow> Inr Running
      | (Running, LastClientDetached) \<Rightarrow> Inr Detaching
      | (Detaching, ClientAttached) \<Rightarrow> Inr Running
      | (Starting, StopRequested) \<Rightarrow> Inr Stopping
      | (Running, StopRequested) \<Rightarrow> Inr Stopping
      | (Detaching, StopRequested) \<Rightarrow> Inr Stopping
      | (Stopping, StopCompleted) \<Rightarrow> Inr Stopped
      | _ \<Rightarrow> Inl (InvalidTransition s e))"

text \<open>The state after an event that may be rejected: \<open>let _ = update_lifecycle(event)\<close>.\<close>

definition settle :: "session_lifecycle \<Rightarrow> session_lifecycle_event \<Rightarrow> session_lifecycle" where
  "settle s e = (case transition s e of Inl _ \<Rightarrow> s | Inr s' \<Rightarrow> s')"

inductive lifecycle_step :: "session_lifecycle \<Rightarrow> session_lifecycle \<Rightarrow> bool" where
  accepted: "transition s e = Inr s' \<Longrightarrow> lifecycle_step s s'"

inductive_cases lifecycle_step_from: "lifecycle_step s s'"

text \<open>How far a session is from its end: no accepted event raises it but the reattach of a client.\<close>

fun shutdown_phase :: "session_lifecycle \<Rightarrow> nat" where
  "shutdown_phase Starting = 0"
| "shutdown_phase Running = 1"
| "shutdown_phase Detaching = 1"
| "shutdown_phase Stopping = 2"
| "shutdown_phase Stopped = 3"

lemma lifecycle_step_phase: "lifecycle_step s s' \<Longrightarrow> shutdown_phase s \<le> shutdown_phase s'"
  by (erule lifecycle_step_from)
     (auto simp: transition_def split: session_lifecycle.splits session_lifecycle_event.splits)

lemma settle_phase: "shutdown_phase s \<le> shutdown_phase (settle s e)"
  by (auto simp: settle_def intro: lifecycle_step_phase lifecycle_step.accepted split: sum.split)

lemma settle_stop: "s \<noteq> Stopped \<Longrightarrow> settle s StopRequested = Stopping"
  by (cases s) (simp_all add: settle_def transition_def)

text \<open>
  C33. A session ends for good: whatever accepted events happen, a stopping session is stopping or
  stopped ever after, a stopped one stays stopped, and from every state a stop request followed by its
  completion ends in \<open>Stopped\<close>.
\<close>

theorem lifecycle_ends:
  "(lifecycle_step\<^sup>*\<^sup>* Stopping s \<longrightarrow> s \<in> {Stopping, Stopped}) \<and> (lifecycle_step\<^sup>*\<^sup>* Stopped s \<longrightarrow> s = Stopped) \<and>
   settle (settle s' StopRequested) StopCompleted = Stopped"
proof -
  have phase: "shutdown_phase a \<le> shutdown_phase b" if "lifecycle_step\<^sup>*\<^sup>* a b" for a b
    using that by induction (auto dest: lifecycle_step_phase)
  have "s \<in> {Stopping, Stopped}" if "lifecycle_step\<^sup>*\<^sup>* Stopping s"
    using phase [OF that] by (cases s) auto
  moreover have "s = Stopped" if "lifecycle_step\<^sup>*\<^sup>* Stopped s"
    using phase [OF that] by (cases s) auto
  moreover have "settle (settle s' StopRequested) StopCompleted = Stopped"
    by (cases s') (simp_all add: settle_def transition_def)
  ultimately show ?thesis by blast
qed

theorem lifecycle_ends_witness:
  "lifecycle_step\<^sup>*\<^sup>* Stopping Stopped \<and> Stopped \<in> {Stopping, Stopped}"
proof -
  have "lifecycle_step Stopping Stopped" by (rule lifecycle_step.accepted [of _ StopCompleted]) (simp add: transition_def)
  then have "lifecycle_step\<^sup>*\<^sup>* Stopping Stopped" by blast
  with lifecycle_ends [of Stopped Running] show ?thesis by blast
qed

end
