(* ===== verification/Session_State.thy ===== *)
theory Session_State
  imports Client Lifecycle Notification
begin

text \<open>
  The session, the aggregate root (\<open>koshi-session/src/session/state.rs\<close>): its data, what it computes
  from them, and the changes that touch one store only. A method that changes the session returns the
  changed session, and beside it what it returns in the code.
\<close>

section \<open>Data\<close>

datatype layout_area_id = TabArea tab_id | FloatingPaneArea floating_pane_id

record session_view_changes =
  layout_changed_tab_ids :: "tab_id set"
  changed_client_ids :: "client_id set"
  is_tab_bar_changed :: bool
  is_floating_set_changed :: bool
  is_pane_sizing_changed :: bool

definition no_view_changes :: session_view_changes where
  "no_view_changes =
     \<lparr>layout_changed_tab_ids = {}, changed_client_ids = {}, is_tab_bar_changed = False,
      is_floating_set_changed = False, is_pane_sizing_changed = False\<rparr>"

record session =
  own_session_id :: session_id
  session_name :: rust_string
  session_created_at :: nat
  tabs :: "(tab_id, tab) ordered_map"
  floats :: floating_set
  panes :: pane_registry
  clients :: client_registry
  should_start_locked :: bool
  starting_tab_id :: "tab_id option"
  session_notifications :: notification_queue
  session_pane_sizing :: pane_sizing
  lifecycle :: session_lifecycle
  view_changes :: session_view_changes

definition from_identity_and_client_registry ::
  "notification_epoch \<Rightarrow> session_id \<Rightarrow> rust_string \<Rightarrow> nat \<Rightarrow> client_registry \<Rightarrow> session" where
  "from_identity_and_client_registry fresh sid name at registry =
     \<lparr>own_session_id = sid, session_name = name, session_created_at = at, tabs = RBT.empty, floats = [],
      panes = new_pane_registry, clients = registry, should_start_locked = False, starting_tab_id = None,
      session_notifications = from_owner fresh (SessionQueue sid), session_pane_sizing = default_pane_sizing,
      lifecycle = Starting, view_changes = no_view_changes\<rparr>"

section \<open>Changes of one store\<close>

definition mark_layout_changed :: "bool \<Rightarrow> tab_id \<Rightarrow> session \<Rightarrow> session" where
  "mark_layout_changed changed t s =
     (if changed
      then s\<lparr>view_changes := (view_changes s)
               \<lparr>layout_changed_tab_ids := insert t (layout_changed_tab_ids (view_changes s))\<rparr>\<rparr>
      else s)"

definition mark_tab_bar_changed :: "bool \<Rightarrow> session \<Rightarrow> session" where
  "mark_tab_bar_changed changed s =
     s\<lparr>view_changes := (view_changes s)\<lparr>is_tab_bar_changed := (is_tab_bar_changed (view_changes s) \<or> changed)\<rparr>\<rparr>"

definition mark_floating_set_changed :: "bool \<Rightarrow> session \<Rightarrow> session" where
  "mark_floating_set_changed changed s =
     s\<lparr>view_changes := (view_changes s)
         \<lparr>is_floating_set_changed := (is_floating_set_changed (view_changes s) \<or> changed)\<rparr>\<rparr>"

definition mark_pane_sizing_changed :: "bool \<Rightarrow> session \<Rightarrow> session" where
  "mark_pane_sizing_changed changed s =
     s\<lparr>view_changes := (view_changes s)
         \<lparr>is_pane_sizing_changed := (is_pane_sizing_changed (view_changes s) \<or> changed)\<rparr>\<rparr>"

definition add_tab :: "tab \<Rightarrow> session \<Rightarrow> session \<times> tab option" where
  "add_tab t s =
     ((mark_tab_bar_changed True s)\<lparr>tabs := RBT.insert (own_tab_id t) t (tabs s)\<rparr>, get (tabs s) (own_tab_id t))"

definition remove_tab :: "tab_id \<Rightarrow> session \<Rightarrow> session \<times> tab option" where
  "remove_tab t s =
     (case get (tabs s) t of
        None \<Rightarrow> (s, None)
      | Some removed \<Rightarrow> ((mark_tab_bar_changed True s)\<lparr>tabs := RBT.delete t (tabs s)\<rparr>, Some removed))"

definition update_tab_index :: "tab_id \<Rightarrow> nat \<Rightarrow> session \<Rightarrow> session" where
  "update_tab_index t index s =
     (case get (tabs s) t of
        None \<Rightarrow> s
      | Some tab \<Rightarrow>
          (case set_tab_index index tab of
             (tab', changed) \<Rightarrow> mark_tab_bar_changed changed (s\<lparr>tabs := RBT.insert t tab' (tabs s)\<rparr>)))"

definition update_lifecycle :: "session_lifecycle_event \<Rightarrow> session \<Rightarrow> session" where
  "update_lifecycle e s = s\<lparr>lifecycle := settle (lifecycle s) e\<rparr>"

definition request_session_stop :: "session \<Rightarrow> session" where
  "request_session_stop s = update_lifecycle StopRequested s"

definition complete_session_stop :: "session \<Rightarrow> session" where
  "complete_session_stop s = update_lifecycle StopCompleted s"

definition take_view_changes :: "session \<Rightarrow> session \<times> session_view_changes" where
  "take_view_changes s =
     (case take_changed_client_ids (clients s) of
        (registry, changed) \<Rightarrow>
          (s\<lparr>view_changes := no_view_changes, clients := registry\<rparr>, (view_changes s)\<lparr>changed_client_ids := changed\<rparr>))"

definition take_start_lock :: "session \<Rightarrow> session \<times> bool" where
  "take_start_lock s = (s\<lparr>should_start_locked := False\<rparr>, should_start_locked s)"

definition take_starting_tab_id :: "session \<Rightarrow> session \<times> tab_id option" where
  "take_starting_tab_id s = (s\<lparr>starting_tab_id := None\<rparr>, starting_tab_id s)"

definition attach_client :: "client \<Rightarrow> session \<Rightarrow> session \<times> client option" where
  "attach_client c s =
     (let c' = fold (\<lambda>f. add_floating_pane_view f DefaultPosition) (floats s) c
      in case registry_attach_client c' (clients s) of
           (registry, displaced) \<Rightarrow> (update_lifecycle ClientAttached (s\<lparr>clients := registry\<rparr>), displaced))"

definition detach_client :: "client_id \<Rightarrow> session \<Rightarrow> session \<times> client option" where
  "detach_client i s =
     (case registry_detach_client i (clients s) of
        (registry, detached) \<Rightarrow>
          (let s' = s\<lparr>clients := registry\<rparr>
           in (if \<not> has_clients registry then update_lifecycle LastClientDetached s' else s', detached)))"

section \<open>Lookups and sizes\<close>

definition find_tab_by_pane_id :: "session \<Rightarrow> pane_id \<Rightarrow> tab option" where
  "find_tab_by_pane_id s p = find (\<lambda>t. has_pane (tab_layout t) p) (map_values (tabs s))"

definition find_layout_area_id_by_pane_id :: "session \<Rightarrow> pane_id \<Rightarrow> layout_area_id option" where
  "find_layout_area_id_by_pane_id s p =
     (case find_tab_by_pane_id s p of
        Some t \<Rightarrow> Some (TabArea (own_tab_id t))
      | None \<Rightarrow>
          map_option (\<lambda>(_, f). FloatingPaneArea (own_floating_pane_id f)) (find_floating_pane_by_pane_id (floats s) p))"

text \<open>\<open>Iterator::reduce\<close>.\<close>

fun reduce :: "('a \<Rightarrow> 'a \<Rightarrow> 'a) \<Rightarrow> 'a list \<Rightarrow> 'a option" where
  "reduce f [] = None"
| "reduce f (x # xs) = Some (fold (\<lambda>y acc. f acc y) xs x)"

definition get_tab_size :: "session \<Rightarrow> tab_id \<Rightarrow> cell_size option" where
  "get_tab_size s t =
     reduce compute_minimum_axes
       (List.map_filter get_pane_area (filter (\<lambda>c. active_tab_id c = t) (list_attached_clients (clients s))))"

definition resolve_tab_solve_size :: "session \<Rightarrow> tab_id \<Rightarrow> cell_size option" where
  "resolve_tab_solve_size s t =
     map_option
       (\<lambda>tab.
          if \<not> list_ex (\<lambda>c. active_tab_id c = t) (list_attached_clients (clients s)) then
            area_solved_size (tab_layout_area tab)
          else
            (case get_tab_size s t of Some z \<Rightarrow> z | None \<Rightarrow> \<lparr>column_count = 0, row_count = 0\<rparr>))
       (get (tabs s) t)"

definition get_shared_floating_viewport :: "session \<Rightarrow> cell_size option" where
  "get_shared_floating_viewport s =
     reduce compute_minimum_axes (List.map_filter get_floating_viewport (list_attached_clients (clients s)))"

definition compute_new_floating_pane_size :: "session \<Rightarrow> floating_pane_size \<Rightarrow> cell_size" where
  "compute_new_floating_pane_size s desired =
     (let minimum = compute_floating_pane_minimum_size
                      (compute_border_inclusive_minimum (minimum_size (session_pane_sizing s)))
      in case get_shared_floating_viewport s of
           Some viewport \<Rightarrow> solve_floating_pane_size desired viewport minimum
         | None \<Rightarrow> minimum)"

definition find_client_floating_pane_rect :: "session \<Rightarrow> client \<Rightarrow> floating_pane_id \<Rightarrow> rect option" where
  "find_client_floating_pane_rect s c f =
     Option.bind (get_floating_viewport c) (\<lambda>viewport.
     Option.bind (find_floating_pane_by_id (floats s) f) (\<lambda>(cascade_index, pane).
     map_option (\<lambda>v. place_floating_pane (view_position v) (outer_solved_size pane) cascade_index viewport)
       (get_floating_pane_view c f)))"

definition find_earliest_reported_cell_size :: "client list \<Rightarrow> pixel_cell_size option" where
  "find_earliest_reported_cell_size cs =
     Option.bind (min_by_key (\<lambda>c. (attached_at c, own_client_id c)) (filter (\<lambda>c. client_cell_size c \<noteq> None) cs))
       client_cell_size"

definition get_tab_cell_size :: "session \<Rightarrow> tab_id \<Rightarrow> pixel_cell_size option" where
  "get_tab_cell_size s t =
     find_earliest_reported_cell_size (filter (\<lambda>c. active_tab_id c = t) (list_attached_clients (clients s)))"

definition get_floating_cell_size :: "session \<Rightarrow> pixel_cell_size option" where
  "get_floating_cell_size s = find_earliest_reported_cell_size (list_attached_clients (clients s))"

section \<open>What a client draws\<close>

definition build_own_client_solve :: "session \<Rightarrow> client \<Rightarrow> tab \<Rightarrow> layout_solve option" where
  "build_own_client_solve s c t =
     build_client_solve (tab_layout_area t) (get_layout_mode c (own_tab_id t)) (list_focus_history c (own_tab_id t))
       (session_pane_sizing s)"

definition compute_client_solve :: "session \<Rightarrow> client \<Rightarrow> tab_id \<Rightarrow> layout_solve option" where
  "compute_client_solve s c t =
     map_option
       (\<lambda>tab.
          case (if t = active_tab_id c then get_own_active_tab_solve c (build_own_client_solve s c tab)
                else build_own_client_solve s c tab) of
            Some solve \<Rightarrow> solve
          | None \<Rightarrow> tab_solve tab)
       (get (tabs s) t)"

definition compute_layout_mode_solve :: "session \<Rightarrow> layout_area_id \<Rightarrow> layout_mode \<Rightarrow> layout_solve option" where
  "compute_layout_mode_solve s area_id mode =
     map_option
       (\<lambda>area.
          case (case mode of Fullscreen p \<Rightarrow> build_zoomed_solve area p (session_pane_sizing s) | Tiled \<Rightarrow> None) of
            Some solve \<Rightarrow> solve
          | None \<Rightarrow> area_layout_solve area)
       (case area_id of
          TabArea t \<Rightarrow> map_option tab_layout_area (get (tabs s) t)
        | FloatingPaneArea f \<Rightarrow> map_option (\<lambda>(_, pane). floating_layout_area pane) (find_floating_pane_by_id (floats s) f))"

definition build_own_floating_solve :: "session \<Rightarrow> floating_pane \<Rightarrow> floating_pane_view \<Rightarrow> layout_solve option" where
  "build_own_floating_solve s f v =
     build_client_solve (floating_layout_area f) (view_layout_mode v) (view_focus_history v) (session_pane_sizing s)"

definition compute_client_floating_pane_solve :: "session \<Rightarrow> client \<Rightarrow> floating_pane_id \<Rightarrow> layout_solve option" where
  "compute_client_floating_pane_solve s c f =
     Option.bind (find_floating_pane_by_id (floats s) f) (\<lambda>(_, pane).
     map_option
       (\<lambda>v. case get_own_floating_pane_solve c f (build_own_floating_solve s pane v) of
              Some solve \<Rightarrow> solve
            | None \<Rightarrow> floating_solve pane)
       (get_floating_pane_view c f))"

definition can_client_draw_floating_panes :: "session \<Rightarrow> client \<Rightarrow> bool" where
  "can_client_draw_floating_panes s c =
     (get_floating_viewport c \<noteq> None \<and>
      (case compute_client_solve s c (active_tab_id c) of
         None \<Rightarrow> True
       | Some solve \<Rightarrow> \<not> is_every_pane_suppressed solve))"

section \<open>Adding and removing a floating pane\<close>

definition session_add_floating_pane ::
  "floating_pane \<Rightarrow> (client_id \<times> floating_pane_position) list \<Rightarrow> session \<Rightarrow> floating_set_error + session" where
  "session_add_floating_pane f client_positions s =
     (case set_add_floating_pane f (floats s) of
        Inl e \<Rightarrow> Inl e
      | Inr floats' \<Rightarrow>
          Inr ((mark_floating_set_changed True s)
                 \<lparr>floats := floats',
                  clients :=
                    update_all_clients
                      (\<lambda>c. add_floating_pane_view f
                             (case map_of client_positions (own_client_id c) of
                                Some pos \<Rightarrow> pos | None \<Rightarrow> DefaultPosition) c)
                      (clients s)\<rparr>))"

definition session_remove_floating_pane :: "floating_pane_id \<Rightarrow> session \<Rightarrow> session \<times> floating_pane option" where
  "session_remove_floating_pane f s =
     (case find_floating_pane_by_id (floats s) f of
        None \<Rightarrow> (s, None)
      | Some (index, pane) \<Rightarrow>
          ((mark_floating_set_changed True s)
             \<lparr>floats := remove_nth index (floats s),
              clients := update_all_clients (remove_floating_pane_view f) (clients s)\<rparr>, Some pane))"

end
