(* ===== verification/Focus.thy ===== *)
theory Focus
  imports Solver_Geometry
begin

text \<open>
  Focus candidates after a pane disappears (\<open>koshi-layout/src/focus.rs\<close>): the visible survivors, the
  one whose center is closest, and the one that took over most of the removed pane's cells.
\<close>

record focus_candidates =
  spatial_neighbor_pane_id :: "pane_id option"
  absorbed_space_pane_id :: "pane_id option"
  layout_order_pane_ids :: "pane_id list"

definition compute_doubled_center :: "rect \<Rightarrow> u32 \<times> u32" where
  "compute_doubled_center r =
     (2 * u32_of (column (origin r)) + u32_of (column_count (rect_size r)),
      2 * u32_of (row (origin r)) + u32_of (row_count (rect_size r)))"

text \<open>The \<open>i64\<close> differences and their squares stay below \<open>2\<^sup>6\<^sup>3\<close>; see \<open>center_distance_bound\<close>.\<close>

definition compute_center_distance :: "rect \<Rightarrow> rect \<Rightarrow> nat" where
  "compute_center_distance removed_pane_rect candidate_pane_rect =
     (case compute_doubled_center removed_pane_rect of (removed_column, removed_row) \<Rightarrow>
      case compute_doubled_center candidate_pane_rect of (candidate_column, candidate_row) \<Rightarrow>
        (let column_distance = int (unat removed_column) - int (unat candidate_column);
             row_distance = int (unat removed_row) - int (unat candidate_row)
         in nat (column_distance * column_distance + row_distance * row_distance)))"

fun find_largest_absorbed ::
  "rect \<Rightarrow> (pane_id \<times> rect) list \<Rightarrow> (pane_id \<times> u32) option \<Rightarrow> (pane_id \<times> u32) option" where
  "find_largest_absorbed removed [] largest = largest"
| "find_largest_absorbed removed ((p, r) # rest) largest =
     (case compute_intersection r removed of
        None \<Rightarrow> find_largest_absorbed removed rest largest
      | Some overlap_rect \<Rightarrow>
          (let absorbed_cell_area = compute_cell_count (rect_size overlap_rect) in
           if (case largest of None \<Rightarrow> True | Some (_, largest_area) \<Rightarrow> largest_area < absorbed_cell_area)
           then find_largest_absorbed removed rest (Some (p, absorbed_cell_area))
           else find_largest_absorbed removed rest largest))"

definition compute_focus_candidates ::
  "rect \<Rightarrow> (pane_id \<times> rect) list \<Rightarrow> stack_header list \<Rightarrow> focus_candidates" where
  "compute_focus_candidates removed_pane_rect surviving_pane_rects headers =
     (let visible = filter (\<lambda>(p, r). is_content_visible p r headers) surviving_pane_rects
      in \<lparr>spatial_neighbor_pane_id =
            map_option fst (min_by_key (\<lambda>(_, r). compute_center_distance removed_pane_rect r) visible),
          absorbed_space_pane_id = map_option fst (find_largest_absorbed removed_pane_rect visible None),
          layout_order_pane_ids = map fst visible\<rparr>)"

section \<open>Distances and areas\<close>

lemma unat_doubled_center:
  "unat (fst (compute_doubled_center r)) = 2 * left_of r + width_of r"
  "unat (snd (compute_doubled_center r)) = 2 * top_of r + height_of r"
proof -
  have "unat (2 * u32_of a + u32_of b) = 2 * unat a + unat b" for a b :: u16
    using unat_u16_less [of a] unat_u16_less [of b] by (simp add: unat_word_ariths unat_u32_of)
  then show "unat (fst (compute_doubled_center r)) = 2 * left_of r + width_of r"
    "unat (snd (compute_doubled_center r)) = 2 * top_of r + height_of r"
    by (simp_all add: compute_doubled_center_def rect_measures)
qed

lemma center_distance_eq:
  "int (compute_center_distance r s) =
     (int (2 * left_of r + width_of r) - int (2 * left_of s + width_of s))\<^sup>2 +
     (int (2 * top_of r + height_of r) - int (2 * top_of s + height_of s))\<^sup>2"
  unfolding compute_center_distance_def Let_def case_prod_unfold unat_doubled_center power2_eq_square by simp

lemma center_distance_bound: "compute_center_distance r s < 2 ^ 63"
proof -
  have "\<bar>int a - int b\<bar> \<le> 200000" if "a < 196608" "b < 196608" for a b :: nat using that by simp
  then have sq: "(int a - int b)\<^sup>2 \<le> 200000\<^sup>2" if "a < 196608" "b < 196608" for a b :: nat
    using that by (metis abs_le_square_iff abs_numeral)
  have m: "2 * left_of q + width_of q < 196608" "2 * top_of q + height_of q < 196608" for q
    using measures_less [of q] by linarith+
  have "int (compute_center_distance r s) \<le> 200000\<^sup>2 + 200000\<^sup>2"
    unfolding center_distance_eq by (intro add_mono sq m)
  then show ?thesis by simp
qed

definition absorbed_area :: "rect \<Rightarrow> rect \<Rightarrow> nat" where
  "absorbed_area removed r = card (cells r \<inter> cells removed)"

lemma intersection_area:
  "compute_intersection r removed = None \<Longrightarrow> absorbed_area removed r = 0"
  "compute_intersection r removed = Some q \<Longrightarrow>
     unat (compute_cell_count (rect_size q)) = absorbed_area removed r \<and> 0 < absorbed_area removed r"
proof -
  show "absorbed_area removed r = 0" if none: "compute_intersection r removed = None"
  proof -
    have "cells r \<inter> cells removed = {}"
      using none by (auto simp: compute_intersection_None cells_def)
    then show ?thesis by (simp add: absorbed_area_def)
  qed
  assume some: "compute_intersection r removed = Some q"
  have "cells q = cells r \<inter> cells removed"
    using compute_intersection_Some [OF some] by (auto simp: cells_def)
  then have "absorbed_area removed r = width_of q * height_of q"
    by (simp add: absorbed_area_def flip: card_cells)
  then show "unat (compute_cell_count (rect_size q)) = absorbed_area removed r \<and> 0 < absorbed_area removed r"
    using compute_intersection_Some(5,6) [OF some] by (simp add: unat_cell_count rect_measures)
qed

lemma find_largest_absorbed_spec:
  assumes "case largest of None \<Rightarrow> True | Some (p, a) \<Rightarrow> 0 < a"
  shows "case find_largest_absorbed removed rs largest of
           None \<Rightarrow> largest = None \<and> (\<forall>(p, r) \<in> set rs. absorbed_area removed r = 0)
         | Some (p, a) \<Rightarrow> 0 < a \<and>
             (largest = Some (p, a) \<or> (\<exists>r. (p, r) \<in> set rs \<and> unat a = absorbed_area removed r)) \<and>
             (\<forall>(p', r') \<in> set rs. absorbed_area removed r' \<le> unat a) \<and>
             (case largest of None \<Rightarrow> True | Some (_, b) \<Rightarrow> unat b \<le> unat a)"
  using assms
proof (induction rs arbitrary: largest)
  case Nil
  then show ?case by (auto split: option.splits)
next
  case (Cons pr rs)
  obtain p r where pr: "pr = (p, r)" by fastforce
  show ?case
  proof (cases "compute_intersection r removed")
    case None
    from Cons.IH [OF Cons.prems] show ?thesis
      using None intersection_area(1) [OF None] by (auto simp: pr split: option.splits)
  next
    case (Some q)
    let ?area = "compute_cell_count (rect_size q)"
    note area = intersection_area(2) [OF Some]
    show ?thesis
    proof (cases "case largest of None \<Rightarrow> True | Some (_, b) \<Rightarrow> b < ?area")
      case True
      have pos: "case Some (p, ?area) of None \<Rightarrow> True | Some (p, a) \<Rightarrow> 0 < a"
        using area by (simp add: word_less_nat_alt)
      from Cons.IH [OF pos] show ?thesis
        using True Some area by (auto simp: pr Let_def word_less_nat_alt split: option.splits prod.splits)
    next
      case False
      from Cons.IH [OF Cons.prems] show ?thesis
        using False Some area by (auto simp: pr Let_def word_less_nat_alt split: option.splits prod.splits)
    qed
  qed
qed

text \<open>
  C37. After a removal, the absorbing pane is a visible survivor that overlaps the removed rectangle in
  the most cells, and there is one exactly when some visible survivor overlaps it; the spatial
  neighbor is the first visible survivor, in layout order, whose center is closest.
\<close>

theorem compute_focus_candidates_spec:
  fixes removed survivors headers
  defines "visible \<equiv> filter (\<lambda>(p, r). is_content_visible p r headers) survivors"
  shows "(case absorbed_space_pane_id (compute_focus_candidates removed survivors headers) of
            None \<Rightarrow> \<forall>(p, r) \<in> set visible. cells r \<inter> cells removed = {}
          | Some p \<Rightarrow> \<exists>r. (p, r) \<in> set visible \<and> cells r \<inter> cells removed \<noteq> {} \<and>
              (\<forall>(p', r') \<in> set visible. card (cells r' \<inter> cells removed) \<le> card (cells r \<inter> cells removed)))
       \<and> (case spatial_neighbor_pane_id (compute_focus_candidates removed survivors headers) of
            None \<Rightarrow> visible = []
          | Some p \<Rightarrow> \<exists>before r after. visible = before @ (p, r) # after \<and>
              (\<forall>(p', r') \<in> set before. compute_center_distance removed r < compute_center_distance removed r') \<and>
              (\<forall>(p', r') \<in> set after. compute_center_distance removed r \<le> compute_center_distance removed r'))
       \<and> layout_order_pane_ids (compute_focus_candidates removed survivors headers) = map fst visible"
proof (intro conjI)
  let ?c = "compute_focus_candidates removed survivors headers"
  show "layout_order_pane_ids ?c = map fst visible"
    by (simp add: compute_focus_candidates_def visible_def Let_def)
  have spatial: "spatial_neighbor_pane_id ?c =
      map_option fst (min_by_key (\<lambda>(_, r). compute_center_distance removed r) visible)"
    by (simp add: compute_focus_candidates_def visible_def Let_def)
  show "case spatial_neighbor_pane_id ?c of
          None \<Rightarrow> visible = []
        | Some p \<Rightarrow> \<exists>before r after. visible = before @ (p, r) # after \<and>
            (\<forall>(p', r') \<in> set before. compute_center_distance removed r < compute_center_distance removed r') \<and>
            (\<forall>(p', r') \<in> set after. compute_center_distance removed r \<le> compute_center_distance removed r')"
  proof (cases "min_by_key (\<lambda>(_, r). compute_center_distance removed r) visible")
    case None
    then show ?thesis by (simp add: spatial)
  next
    case (Some pr)
    obtain p r where pr: "pr = (p, r)" by fastforce
    from min_by_key_first [OF Some] pr show ?thesis
      unfolding spatial Some by (fastforce simp: case_prod_unfold)
  qed
  have absorbed: "absorbed_space_pane_id ?c = map_option fst (find_largest_absorbed removed visible None)"
    by (simp add: compute_focus_candidates_def visible_def Let_def)
  have area0: "absorbed_area removed r = 0 \<longleftrightarrow> cells r \<inter> cells removed = {}" for r
    by (simp add: absorbed_area_def)
  show "case absorbed_space_pane_id ?c of
          None \<Rightarrow> \<forall>(p, r) \<in> set visible. cells r \<inter> cells removed = {}
        | Some p \<Rightarrow> \<exists>r. (p, r) \<in> set visible \<and> cells r \<inter> cells removed \<noteq> {} \<and>
            (\<forall>(p', r') \<in> set visible. card (cells r' \<inter> cells removed) \<le> card (cells r \<inter> cells removed))"
  proof (cases "find_largest_absorbed removed visible None")
    case None
    with find_largest_absorbed_spec [where largest = None and removed = removed and rs = visible] area0 show ?thesis by (simp add: absorbed)
  next
    case (Some pa)
    obtain p a where pa: "pa = (p, a)" by fastforce
    from find_largest_absorbed_spec [where largest = None and removed = removed and rs = visible] Some pa obtain r where
      "(p, r) \<in> set visible" "unat a = absorbed_area removed r" "0 < a"
      "\<forall>(p', r') \<in> set visible. absorbed_area removed r' \<le> unat a" by auto
    moreover from this have "cells r \<inter> cells removed \<noteq> {}"
      using area0 [of r] by (auto simp: word_less_nat_alt)
    ultimately show ?thesis by (auto simp: absorbed Some pa absorbed_area_def)
  qed
qed

text \<open>One survivor that covers the removed pane.\<close>

theorem compute_focus_candidates_spec_witness:
  "absorbed_space_pane_id (compute_focus_candidates example_tab [(PaneId 1, example_tab)] []) = Some (PaneId 1)"
proof -
  have "\<not> is_empty example_tab" by (simp add: is_empty_def example_tab_def from_size_at_origin_def)
  then have "is_content_visible (PaneId 1) example_tab []" "cells example_tab \<noteq> {}"
    by (simp_all add: is_content_visible_def is_empty_cells)
  with compute_focus_candidates_spec [of "[]" "[(PaneId 1, example_tab)]" example_tab]
  show ?thesis by (auto split: option.splits)
qed

end
