(* ===== verification/Session_Focus.thy ===== *)
theory Session_Focus
  imports Session_State Focus
begin

text \<open>
  Focus of clients: recovery and focus events (\<open>koshi-session/src/session/focus.rs\<close>), landing panes
  (\<open>tab_ops.rs\<close>) and the hand-off of a focus that left its pane (\<open>cascade.rs\<close>). An operation on the
  session returns the changed session and its events in order.
\<close>

section \<open>Picking a pane\<close>

datatype focus_repair_result = Focused pane_id | TerminalTooSmall

definition is_eligible_pane :: "pane_registry \<Rightarrow> focus_candidates \<Rightarrow> pane_id \<Rightarrow> bool" where
  "is_eligible_pane registry candidates p \<longleftrightarrow>
     p \<in> set (layout_order_pane_ids candidates) \<and> has_key registry p"

definition option_list :: "'a option \<Rightarrow> 'a list" where
  "option_list x = (case x of None \<Rightarrow> [] | Some y \<Rightarrow> [y])"

definition repair_focus :: "pane_id list \<Rightarrow> pane_registry \<Rightarrow> focus_candidates \<Rightarrow> focus_repair_result" where
  "repair_focus focus_history registry candidates =
     (case find (is_eligible_pane registry candidates)
             (focus_history @ option_list (spatial_neighbor_pane_id candidates) @
              option_list (absorbed_space_pane_id candidates) @ layout_order_pane_ids candidates) of
        Some p \<Rightarrow> Focused p
      | None \<Rightarrow> TerminalTooSmall)"

definition find_landing_pane :: "session \<Rightarrow> client \<Rightarrow> tab_id \<Rightarrow> pane_id option" where
  "find_landing_pane s c t =
     Option.bind (get (tabs s) t) (\<lambda>tab.
       let leaves = list_leaf_pane_ids (tab_layout tab); history = list_focus_history c t
       in find (\<lambda>p. p \<in> set leaves \<and> \<not> is_pane_collapsed (tab_layout tab) p history \<and> has_key (panes s) p)
            (history @ leaves))"

section \<open>Focus events\<close>

definition build_pane_focused_event :: "client \<Rightarrow> pane_id option \<Rightarrow> event list" where
  "build_pane_focused_event c previous =
     (case get_active_focused_pane_id c of
        None \<Rightarrow> []
      | Some p \<Rightarrow>
          if Some p = previous then []
          else [PaneFocused (own_client_id c)
                  (case focused_floating_pane_id c of Some _ \<Rightarrow> None | None \<Rightarrow> Some (active_tab_id c)) p previous])"

definition build_floating_pane_minimized_changed_events ::
  "client_id \<Rightarrow> floating_set \<Rightarrow> floating_pane_id list \<Rightarrow> bool \<Rightarrow> event list" where
  "build_floating_pane_minimized_changed_events i fs ids minimized =
     List.map_filter
       (\<lambda>f. map_option (\<lambda>(_, pane). FloatingPaneMinimizedChanged i (list_floating_pane_ids pane) minimized)
              (find_floating_pane_by_id fs f)) ids"

definition apply_tiled_pane_focus :: "floating_set \<Rightarrow> tab_id \<Rightarrow> pane_id \<Rightarrow> client \<Rightarrow> client \<times> event list" where
  "apply_tiled_pane_focus fs t p c =
     (case focus_tiled_pane t p c of
        (c', change) \<Rightarrow>
          (c', build_floating_pane_minimized_changed_events (own_client_id c) fs (minimized_floating_pane_ids change) True @
               (if previous_pane_id change \<noteq> Some p
                then [PaneFocused (own_client_id c) (Some t) p (previous_pane_id change)] else [])))"

definition apply_floating_pane_focus ::
  "floating_set \<Rightarrow> floating_pane_id \<Rightarrow> pane_id \<Rightarrow> client \<Rightarrow> client \<times> event list" where
  "apply_floating_pane_focus fs f p c =
     (let previous = get_active_focused_pane_id c
      in case focus_floating_pane f c of
           (c1, restored) \<Rightarrow>
             (let c2 = update_floating_pane_focused_pane f p c1
              in (c2, (if restored then build_floating_pane_minimized_changed_events (own_client_id c2) fs [f] False else []) @
                      build_pane_focused_event c2 previous)))"

text \<open>A change of one client that reports events; a client that is not attached reports none.\<close>

definition with_client ::
  "client_id \<Rightarrow> (client \<Rightarrow> client \<times> event list) \<Rightarrow> session \<Rightarrow> session \<times> event list" where
  "with_client i g s =
     (s\<lparr>clients := update_client i (fst \<circ> g) (clients s)\<rparr>,
      case get_client_by_id (clients s) i of None \<Rightarrow> [] | Some c \<Rightarrow> snd (g c))"

definition update_tab :: "tab_id \<Rightarrow> (tab \<Rightarrow> tab) \<Rightarrow> session \<Rightarrow> session" where
  "update_tab t g s = s\<lparr>tabs := RBT.map_entry t g (tabs s)\<rparr>"

definition update_client_tab_focus :: "client_id \<Rightarrow> tab_id \<Rightarrow> pane_id \<Rightarrow> session \<Rightarrow> session \<times> event list" where
  "update_client_tab_focus i t p s =
     (let s1 = s\<lparr>clients := update_client i (\<lambda>c. fst (update_focused_pane t p c)) (clients s)\<rparr>
      in case get_client_by_id (clients s) i of
           None \<Rightarrow> (s1, [])
         | Some c \<Rightarrow>
             (update_tab t (record_focus_mru p) s1, [PaneFocused i (Some t) p (snd (update_focused_pane t p c))]))"

text \<open>\<open>land_focus\<close> returns the events it appends.\<close>

definition land_focus :: "client_id \<Rightarrow> tab_id \<Rightarrow> session \<Rightarrow> session \<times> event list" where
  "land_focus i t s =
     (case get_client_by_id (clients s) i of
        None \<Rightarrow> (s, [])
      | Some c \<Rightarrow>
          if get_focused_pane_id c t \<noteq> None then (s, [])
          else
            (case find_landing_pane s c t of
               None \<Rightarrow> (s, [])
             | Some p \<Rightarrow> update_client_tab_focus i t p s))"

section \<open>Handing a focus on\<close>

definition other_viewer_constrains :: "client_id \<Rightarrow> tab_id \<Rightarrow> cell_size \<Rightarrow> cell_size \<Rightarrow> client \<Rightarrow> bool" where
  "other_viewer_constrains i t own_pane_area tab_size other \<longleftrightarrow>
     own_client_id other \<noteq> i \<and> active_tab_id other = t \<and>
     (case get_pane_area other of
        None \<Rightarrow> False
      | Some other_pane_area \<Rightarrow>
          column_count tab_size < column_count own_pane_area \<and> column_count other_pane_area = column_count tab_size \<or>
          row_count tab_size < row_count own_pane_area \<and> row_count other_pane_area = row_count tab_size)"

definition resolve_terminal_too_small_cause :: "session \<Rightarrow> tab_id \<Rightarrow> client_id \<Rightarrow> terminal_too_small_cause" where
  "resolve_terminal_too_small_cause s t i =
     (case get_client_by_id (clients s) i of
        None \<Rightarrow> TerminalCause
      | Some c \<Rightarrow>
          if (case reported_pane_area c of
                Some Starving \<Rightarrow> True
              | Some (Reported area) \<Rightarrow>
                  \<not> size_can_fit_inside (compute_default_pane_area_size (viewport_size c))
                      (compute_minimum_axes area (viewport_size c))
              | None \<Rightarrow> False)
          then RegionsCause
          else
            (case get_pane_area c of
               None \<Rightarrow> RegionsCause
             | Some own_pane_area \<Rightarrow>
                 (case get_tab_size s t of
                    None \<Rightarrow> TerminalCause
                  | Some tab_size \<Rightarrow>
                      (case find (other_viewer_constrains i t own_pane_area tab_size) (list_attached_clients (clients s)) of
                         Some other \<Rightarrow> OtherClientCause (own_client_id other)
                       | None \<Rightarrow> TerminalCause))))"

definition repair_client_focus :: "tab_id \<Rightarrow> client_id \<times> rect \<Rightarrow> session \<Rightarrow> session \<times> event list" where
  "repair_client_focus t repaired s =
     (case repaired of (i, ranking_pane_rect) \<Rightarrow>
      (case get_client_by_id (clients s) i of
         None \<Rightarrow> (s, [])
       | Some c \<Rightarrow>
           (case compute_client_solve s c t of
              None \<Rightarrow> (s, [])
            | Some solve \<Rightarrow>
                (let candidates = compute_focus_candidates ranking_pane_rect (pane_rects solve) (stack_headers solve);
                     verdict = repair_focus (list_focus_history c t) (panes s) candidates;
                     inheriting = (case verdict of Focused p \<Rightarrow> Some p | TerminalTooSmall \<Rightarrow> find_landing_pane s c t);
                     moved = (case inheriting of
                                Some p \<Rightarrow> update_client_tab_focus i t p s
                              | None \<Rightarrow> (s\<lparr>clients := update_client i (clear_focus_history t) (clients s)\<rparr>, []));
                     s' = fst moved
                 in (s', snd moved @
                         (if verdict = TerminalTooSmall then
                            (case get_client_by_id (clients s') i of
                               Some c' \<Rightarrow>
                                 if active_tab_id c' = t then
                                   [TerminalTooSmallEntered i (viewport_size c') (reported_pane_area c')
                                      (resolve_terminal_too_small_cause s' t i)]
                                 else []
                             | None \<Rightarrow> [])
                          else []))))))"

text \<open>The operation for each item in turn, the events of all in order.\<close>

fun run_each :: "('a \<Rightarrow> session \<Rightarrow> session \<times> event list) \<Rightarrow> 'a list \<Rightarrow> session \<Rightarrow> session \<times> event list" where
  "run_each g [] s = (s, [])"
| "run_each g (x # xs) s =
     (case g x s of (s', es) \<Rightarrow> (case run_each g xs s' of (s'', es') \<Rightarrow> (s'', es @ es')))"

definition ranking_rect :: "layout_solve option \<Rightarrow> layout_solve \<Rightarrow> pane_id \<Rightarrow> rect" where
  "ranking_rect previous solve p =
     (case Option.bind previous (\<lambda>previous. find_pane_rect previous p) of
        Some r \<Rightarrow> r
      | None \<Rightarrow> (case find_pane_rect solve p of Some r \<Rightarrow> r | None \<Rightarrow> build_empty_at_origin))"

definition hand_off_suppressed_focus ::
  "tab_id \<Rightarrow> layout_solve option \<Rightarrow> session \<Rightarrow> session \<times> event list" where
  "hand_off_suppressed_focus t previous s =
     (case get (tabs s) t of
        None \<Rightarrow> (s, [])
      | Some tab \<Rightarrow>
          if is_every_pane_suppressed (tab_solve tab) then (s, [])
          else
            run_each (repair_client_focus t)
              (concat (map (\<lambda>p. map (\<lambda>c. (own_client_id c, ranking_rect previous (tab_solve tab) p))
                                  (filter (\<lambda>c. active_tab_id c = t \<and> get_layout_mode c t = Tiled \<and>
                                               get_focused_pane_id c t = Some p)
                                     (list_attached_clients (clients s))))
                         (suppressed_pane_ids (tab_solve tab)))) s)"

definition repair_floating_pane_client_focus ::
  "floating_pane_id \<Rightarrow> client_id \<times> rect \<Rightarrow> session \<Rightarrow> session \<times> event list" where
  "repair_floating_pane_client_focus f repaired s =
     (case repaired of (i, ranking_pane_rect) \<Rightarrow>
      (case get_client_by_id (clients s) i of
         None \<Rightarrow> (s, [])
       | Some c \<Rightarrow>
           (case (compute_client_floating_pane_solve s c f, get_floating_pane_view c f) of
              (Some solve, Some v) \<Rightarrow>
                (let candidates = compute_focus_candidates ranking_pane_rect (pane_rects solve) (stack_headers solve);
                     inheriting =
                       (case repair_focus (view_focus_history v) (panes s) candidates of
                          Focused p \<Rightarrow> Some p
                        | TerminalTooSmall \<Rightarrow>
                            Option.bind (find_floating_pane_by_id (floats s) f)
                              (\<lambda>(_, pane). first (list_floating_pane_ids pane)))
                 in case inheriting of
                      None \<Rightarrow> (s, [])
                    | Some p \<Rightarrow>
                        with_client i
                          (\<lambda>c. (let c' = update_floating_pane_focused_pane f p c
                                in (c', build_pane_focused_event c' (get_active_focused_pane_id c)))) s)
            | _ \<Rightarrow> (s, []))))"

definition hand_off_suppressed_floating_focus ::
  "floating_pane_id \<Rightarrow> layout_solve option \<Rightarrow> session \<Rightarrow> session \<times> event list" where
  "hand_off_suppressed_floating_focus f previous s =
     (case find_floating_pane_by_id (floats s) f of
        None \<Rightarrow> (s, [])
      | Some (_, pane) \<Rightarrow>
          if is_every_pane_suppressed (floating_solve pane) then (s, [])
          else
            run_each (repair_floating_pane_client_focus f)
              (concat (map (\<lambda>p. map (\<lambda>c. (own_client_id c, ranking_rect previous (floating_solve pane) p))
                                  (filter (\<lambda>c. find_floating_pane_input_pane_id c f = Some p)
                                     (list_attached_clients (clients s))))
                         (suppressed_pane_ids (floating_solve pane)))) s)"

end
