(* ===== verification/Session_Update.thy ===== *)
theory Session_Update
  imports Session_Focus
begin

text \<open>
  Solving layout areas again and what follows from it (the rest of
  \<open>koshi-session/src/session/state.rs\<close>): the focus hand-off, the floating panes a client can no longer
  draw, and the kept solves of the clients.
\<close>

definition minimize_for_client :: "floating_set \<Rightarrow> client_id \<Rightarrow> session \<Rightarrow> session \<times> event list" where
  "minimize_for_client fs i s =
     with_client i
       (\<lambda>c. (case minimize_shown_floating_panes c of
                (c', minimized) \<Rightarrow>
                  (c', build_floating_pane_minimized_changed_events i fs minimized True @
                       build_pane_focused_event c' (get_active_focused_pane_id c)))) s"

definition minimize_undrawable_floating_panes :: "session \<Rightarrow> session \<times> event list" where
  "minimize_undrawable_floating_panes s =
     run_each (minimize_for_client (floats s))
       (map own_client_id
          (filter (\<lambda>c. shown_floating_pane_ids c \<noteq> [] \<and> \<not> can_client_draw_floating_panes s c)
             (list_attached_clients (clients s)))) s"

text \<open>One operation after another, with the events of both.\<close>

definition andThen ::
  "(session \<Rightarrow> session \<times> event list) \<Rightarrow> (session \<Rightarrow> session \<times> event list) \<Rightarrow> session \<Rightarrow> session \<times> event list" where
  "andThen g h s = (case g s of (s', es) \<Rightarrow> (case h s' of (s'', es') \<Rightarrow> (s'', es @ es')))"

definition apply_tab_solve_change :: "tab_id \<Rightarrow> layout_solve option \<Rightarrow> session \<Rightarrow> session \<times> event list" where
  "apply_tab_solve_change t previous =
     andThen (hand_off_suppressed_focus t previous) minimize_undrawable_floating_panes"

definition set_tab_area :: "tab_id \<Rightarrow> layout_area \<Rightarrow> session \<Rightarrow> session" where
  "set_tab_area t area s = update_tab t (\<lambda>tab. tab\<lparr>tab_layout_area := area\<rparr>) s"

definition update_tab_solve :: "tab_id \<Rightarrow> session \<Rightarrow> session \<times> event list" where
  "update_tab_solve t s =
     (case (resolve_tab_solve_size s t, get (tabs s) t) of
        (Some tab_size, Some tab) \<Rightarrow>
          if area_solved_size (tab_layout_area tab) = tab_size then apply_tab_solve_change t None s
          else
            (case update_layout_solve (session_pane_sizing s) ((tab_layout_area tab)\<lparr>area_solved_size := tab_size\<rparr>) of
               (area, previous) \<Rightarrow>
                 (let s1 = mark_layout_changed True t (set_tab_area t area s)
                  in apply_tab_solve_change t (Some previous)
                       (s1\<lparr>clients := clear_own_active_tab_solves t (clients s1)\<rparr>)))
      | _ \<Rightarrow> (s, []))"

definition update_tab_layout :: "tab_id \<Rightarrow> layout_node \<Rightarrow> session \<Rightarrow> session \<times> event list" where
  "update_tab_layout t layout_tree s =
     (case get (tabs s) t of
        None \<Rightarrow> (s, [])
      | Some tab \<Rightarrow>
          (case update_layout_solve (session_pane_sizing s) ((tab_layout_area tab)\<lparr>area_layout := layout_tree\<rparr>) of
             (area, previous) \<Rightarrow>
               (let s1 = mark_layout_changed (tab_layout tab \<noteq> layout_tree \<or> previous \<noteq> area_layout_solve area) t
                           (set_tab_area t area s)
                in apply_tab_solve_change t (Some previous)
                     (s1\<lparr>clients := clear_own_active_tab_solves t (clients s1)\<rparr>))))"

section \<open>Floating panes\<close>

definition update_floating_pane_layout :: "floating_pane_id \<Rightarrow> layout_node \<Rightarrow> session \<Rightarrow> session \<times> event list" where
  "update_floating_pane_layout f layout_tree s =
     (case find_floating_pane_by_id (floats s) f of
        None \<Rightarrow> (s, [])
      | Some (_, pane) \<Rightarrow>
          (case update_layout_solve (session_pane_sizing s) ((floating_layout_area pane)\<lparr>area_layout := layout_tree\<rparr>) of
             (area, previous) \<Rightarrow>
               (let s1 = mark_floating_set_changed True
                           (s\<lparr>floats := update_first_floating_pane f (\<lambda>pane. pane\<lparr>floating_layout_area := area\<rparr>) (floats s)\<rparr>)
                in hand_off_suppressed_floating_focus f (Some previous)
                     (s1\<lparr>clients := clear_own_floating_pane_solves f (clients s1)\<rparr>))))"

text \<open>The previous solves are a map from ids; ids are unique in a floating set.\<close>

definition update_floating_pane_sizes :: "cell_size \<Rightarrow> session \<Rightarrow> session \<times> event list" where
  "update_floating_pane_sizes viewport s =
     (case set_update_floating_pane_sizes viewport (session_pane_sizing s) (floats s) of
        (floats', previous_solves) \<Rightarrow>
          (let s1 = mark_floating_set_changed (previous_solves \<noteq> []) (s\<lparr>floats := floats'\<rparr>);
               s2 = s1\<lparr>clients := fold (\<lambda>(f, _). clear_own_floating_pane_solves f) previous_solves (clients s1)\<rparr>
           in run_each (\<lambda>f. hand_off_suppressed_floating_focus f (map_of previous_solves f))
                (map own_floating_pane_id floats') s2))"

section \<open>The pane sizing\<close>

definition solve_tab_with_sizing :: "tab_id \<Rightarrow> session \<Rightarrow> session \<times> event list" where
  "solve_tab_with_sizing t s =
     (case (resolve_tab_solve_size s t, get (tabs s) t) of
        (Some tab_size, Some tab) \<Rightarrow>
          (case update_layout_solve (session_pane_sizing s) ((tab_layout_area tab)\<lparr>area_solved_size := tab_size\<rparr>) of
             (area, previous) \<Rightarrow>
               (let s1 = mark_layout_changed
                           (area_solved_size (tab_layout_area tab) \<noteq> tab_size \<or> previous \<noteq> area_layout_solve area) t
                           (set_tab_area t area s)
                in hand_off_suppressed_focus t (Some previous)
                     (s1\<lparr>clients := clear_own_active_tab_solves t (clients s1)\<rparr>)))
      | _ \<Rightarrow> (s, []))"

definition solve_floats_with_sizing :: "session \<Rightarrow> session \<times> event list" where
  "solve_floats_with_sizing s =
     (let solved = map (\<lambda>pane. case update_layout_solve (session_pane_sizing s) (floating_layout_area pane) of
                                  (area, previous) \<Rightarrow> (pane\<lparr>floating_layout_area := area\<rparr>, previous)) (floats s);
          s1 = s\<lparr>floats := map fst solved\<rparr>
      in run_each
           (\<lambda>(f, previous) s. hand_off_suppressed_floating_focus f (Some previous)
                (s\<lparr>clients := clear_own_floating_pane_solves f (clients s)\<rparr>))
           (map (\<lambda>(pane, previous). (own_floating_pane_id pane, previous)) solved) s1)"

definition update_pane_sizing :: "pane_sizing \<Rightarrow> session \<Rightarrow> session \<times> event list" where
  "update_pane_sizing z s =
     (let s1 = (mark_pane_sizing_changed (session_pane_sizing s \<noteq> z) s)\<lparr>session_pane_sizing := z\<rparr>
      in andThen (run_each solve_tab_with_sizing (RBT.keys (tabs s1)))
           (andThen solve_floats_with_sizing minimize_undrawable_floating_panes) s1)"

end
