(* ===== verification/Tab_Ops.thy ===== *)
theory Tab_Ops
  imports Session_Update Edit
begin

text \<open>
  Tab operations (\<open>koshi-session/src/session/tab_ops.rs\<close>), the close and quit cascade
  (\<open>cascade.rs\<close>) and the pane operations (\<open>pane_ops.rs\<close>). The ids a caller mints are arguments.
\<close>

section \<open>Removing a floating pane\<close>

definition drop_pane_records :: "pane_id list \<Rightarrow> session \<Rightarrow> session" where
  "drop_pane_records ps s = s\<lparr>panes := fold (\<lambda>p r. snd (remove_pane_record p r)) ps (panes s)\<rparr>"

definition removal_events :: "tab_id option \<Rightarrow> pane_id list \<Rightarrow> event list" where
  "removal_events t ps = concat (map (\<lambda>p. [PaneClosing p, PaneRemoved p t]) ps)"

definition remove_floating_pane :: "floating_pane_id \<Rightarrow> session \<Rightarrow> session \<times> event list" where
  "remove_floating_pane f s =
     (case find_floating_pane_by_id (floats s) f of
        None \<Rightarrow> (s, [])
      | Some (_, pane) \<Rightarrow>
          (let ps = list_floating_pane_ids pane;
               focusing = List.map_filter
                 (\<lambda>c. map_option (Pair (own_client_id c)) (get_active_focused_pane_id c))
                 (filter (\<lambda>c. focused_floating_pane_id c = Some f) (list_attached_clients (clients s)));
               s' = drop_pane_records ps (fst (session_remove_floating_pane f s))
           in (s', removal_events None ps @
                   concat (map (\<lambda>(i, previous). case get_client_by_id (clients s') i of
                                  Some c \<Rightarrow> build_pane_focused_event c (Some previous)
                                | None \<Rightarrow> []) focusing))))"

section \<open>Display order\<close>

datatype tab_target = TargetId tab_id | TargetIndex nat | Previous | Next

definition find_tab_at_index :: "session \<Rightarrow> nat \<Rightarrow> tab_id option" where
  "find_tab_at_index s index = map_option own_tab_id (find (\<lambda>t. tab_index t = index) (map_values (tabs s)))"

definition resolve_tab_target :: "session \<Rightarrow> tab_id \<Rightarrow> tab_target \<Rightarrow> tab_id option" where
  "resolve_tab_target s active target =
     (case target of
        TargetId t \<Rightarrow> (if has_key (tabs s) t then Some t else None)
      | TargetIndex index \<Rightarrow> find_tab_at_index s index
      | Next \<Rightarrow>
          Option.bind (get (tabs s) active)
            (\<lambda>t. find_tab_at_index s ((tab_index t + 1) mod map_size (tabs s)))
      | Previous \<Rightarrow>
          Option.bind (get (tabs s) active)
            (\<lambda>t. find_tab_at_index s ((tab_index t + map_size (tabs s) - 1) mod map_size (tabs s))))"

text \<open>\<open>sort_by_key\<close> is stable: tabs with one index keep their id order.\<close>

definition list_tab_ids_in_display_order :: "session \<Rightarrow> tab_id list" where
  "list_tab_ids_in_display_order s = sort_key (\<lambda>t. tab_index (the (get (tabs s) t))) (RBT.keys (tabs s))"

definition reindex_tabs_by_display_index :: "session \<Rightarrow> session" where
  "reindex_tabs_by_display_index s =
     fold (\<lambda>(position, t). update_tab_index t position) (enumerate 0 (list_tab_ids_in_display_order s)) s"

definition move_tab :: "tab_id \<Rightarrow> nat \<Rightarrow> session \<Rightarrow> session \<times> event list" where
  "move_tab target new_index s =
     (case get (tabs s) target of
        None \<Rightarrow> (s, [])
      | Some tab \<Rightarrow>
          if map_size (tabs s) \<le> new_index \<or> new_index = tab_index tab then (s, [])
          else
            (let others = filter (\<lambda>t. t \<noteq> target) (list_tab_ids_in_display_order s);
                 s1 = fold (\<lambda>(position, t). update_tab_index t (if new_index \<le> position then position + 1 else position))
                        (enumerate 0 others) s
             in (update_tab_index target new_index s1, [TabMoved target (tab_index tab) new_index])))"

text \<open>\<open>max_by_key\<close> returns the last of equal maxima.\<close>

fun max_by_key :: "('a \<Rightarrow> 'k::linorder) \<Rightarrow> 'a list \<Rightarrow> 'a option" where
  "max_by_key key [] = None"
| "max_by_key key (x # xs) =
     (case max_by_key key xs of
        None \<Rightarrow> Some x
      | Some y \<Rightarrow> if key x \<le> key y then Some y else Some x)"

definition find_nearest_surviving_tab_by_index :: "session \<Rightarrow> nat \<Rightarrow> tab_id option" where
  "find_nearest_surviving_tab_by_index s closed_index =
     map_option own_tab_id
       (case max_by_key tab_index (filter (\<lambda>t. tab_index t < closed_index) (map_values (tabs s))) of
          Some t \<Rightarrow> Some t
        | None \<Rightarrow> min_by_key tab_index (filter (\<lambda>t. closed_index < tab_index t) (map_values (tabs s))))"

definition find_nearest_surviving_tab :: "session \<Rightarrow> tab_id \<Rightarrow> tab_id option" where
  "find_nearest_surviving_tab s closed =
     Option.bind (get (tabs s) closed) (\<lambda>t. find_nearest_surviving_tab_by_index s (tab_index t))"

section \<open>Closing a tab\<close>

definition move_client_to_tab :: "tab_id \<Rightarrow> tab_id \<Rightarrow> client_id \<Rightarrow> session \<Rightarrow> session \<times> event list" where
  "move_client_to_tab closed next_tab i s =
     (case land_focus i next_tab (s\<lparr>clients := update_client i (update_active_tab_id next_tab) (clients s)\<rparr>) of
        (s', es) \<Rightarrow> (s', TabFocused i next_tab closed # es))"

definition quit_without_tabs :: "tab_id \<Rightarrow> pane_process_exited option \<Rightarrow> session \<Rightarrow> session \<times> event list" where
  "quit_without_tabs t pane_exit s =
     (if RBT.is_empty (tabs s) then
        (case run_each remove_floating_pane (map own_floating_pane_id (floats s)) s of
           (s', es) \<Rightarrow> (update_lifecycle StopRequested s', es @ [Quit (LastTabClosed t pane_exit)]))
      else (s, []))"

definition close_and_refocus_tab :: "tab_id \<Rightarrow> pane_process_exited option \<Rightarrow> session \<Rightarrow> session \<times> event list" where
  "close_and_refocus_tab t pane_exit s =
     (case remove_tab t s of
        (s1, removed) \<Rightarrow>
          (let next_tab = Option.bind removed (\<lambda>tab. find_nearest_surviving_tab_by_index s1 (tab_index tab));
               viewing = map own_client_id (filter (\<lambda>c. active_tab_id c = t) (list_attached_clients (clients s1)));
               s2 = s1\<lparr>clients := update_all_clients (clear_focus_history t) (clients s1)\<rparr>
           in case (case next_tab of
                      None \<Rightarrow> (s2, [])
                    | Some n \<Rightarrow> andThen (run_each (move_client_to_tab t n) viewing) (update_tab_solve n) s2) of
                (s3, es) \<Rightarrow>
                  (case quit_without_tabs t pane_exit (reindex_tabs_by_display_index s3) of
                     (s4, es') \<Rightarrow> (s4, TabClosed t # es @ es'))))"

definition close_tab :: "tab_id \<Rightarrow> session \<Rightarrow> session \<times> event list" where
  "close_tab t s =
     (case get (tabs s) t of
        None \<Rightarrow> (s, [])
      | Some tab \<Rightarrow>
          (let ps = list_leaf_pane_ids (tab_layout tab)
           in case close_and_refocus_tab t None (drop_pane_records ps s) of
                (s', es) \<Rightarrow> (s', removal_events (Some t) ps @ es)))"

section \<open>Focusing a tab\<close>

definition focus_tab :: "client_id \<Rightarrow> tab_target \<Rightarrow> session \<Rightarrow> session \<times> event list" where
  "focus_tab i target s =
     (case get_client_by_id (clients s) i of
        None \<Rightarrow> (s, [])
      | Some c \<Rightarrow>
          (case resolve_tab_target s (active_tab_id c) target of
             None \<Rightarrow> (s, [])
           | Some t \<Rightarrow>
               if active_tab_id c = t then (s, [])
               else
                 (case andThen (land_focus i t) (andThen (update_tab_solve t) (update_tab_solve (active_tab_id c)))
                         (s\<lparr>clients := update_client i (update_active_tab_id t) (clients s)\<rparr>) of
                    (s', es) \<Rightarrow> (s', TabFocused i t (active_tab_id c) # es))))"

section \<open>Creating tabs\<close>

record new_pane_spec =
  spec_working_directory :: "rust_string option"
  spec_spawn_spec :: "spawn_spec option"

definition register_spawned_pane :: "pane_id \<Rightarrow> new_pane_spec \<Rightarrow> session \<Rightarrow> session" where
  "register_spawned_pane p spec s =
     (case register_pane_record
             ((from_terminal_pane p)\<lparr>working_directory := spec_working_directory spec,
                record_spawn_spec := spec_spawn_spec spec\<rparr>) (panes s) of
        Inl _ \<Rightarrow> s
      | Inr registry \<Rightarrow> s\<lparr>panes := registry\<rparr>)"

text \<open>A tab appended after the last one; the first tab starts the session.\<close>

definition append_tab :: "tab_id \<Rightarrow> rust_string \<Rightarrow> layout_node \<Rightarrow> pane_id \<Rightarrow> cell_size \<Rightarrow> session \<Rightarrow> session" where
  "append_tab t name layout_tree focused tab_size s =
     (let tab = record_focus_mru focused
                  (tab_from_layout_tree t name (map_size (tabs s)) layout_tree tab_size (session_pane_sizing s));
          s1 = (if RBT.is_empty (tabs s) then update_lifecycle FirstTabCreated s else s)
      in fst (add_tab tab s1))"

definition commit_new_tab ::
  "tab_id \<Rightarrow> pane_id \<Rightarrow> rust_string \<Rightarrow> client_id option \<Rightarrow> new_pane_spec \<Rightarrow> cell_size \<Rightarrow> session \<Rightarrow>
   session \<times> tab_id option \<times> event list" where
  "commit_new_tab t p name focus_client spec tab_size s =
     (let s1 = append_tab t name (Pane p) p tab_size (register_spawned_pane p spec s);
          created = [TabCreated t, PaneCreated p (Some t)]
      in case Option.bind focus_client (\<lambda>i. map_option (Pair i) (get_client_by_id (clients s1) i)) of
           None \<Rightarrow> (s1, None, created)
         | Some (i, c) \<Rightarrow>
             (case andThen
                     (with_client i (\<lambda>c. apply_tiled_pane_focus (floats s1) t p (update_active_tab_id t c)))
                     (andThen (update_tab_solve t) (update_tab_solve (active_tab_id c))) s1 of
                (s', es) \<Rightarrow> (s', Some (active_tab_id c), created @ [TabFocused i t (active_tab_id c)] @ es)))"

record profile_tab =
  profile_pane_ids :: "pane_id list"
  profile_layout_tree :: layout_node
  profile_pane_specs :: "new_pane_spec list"
  focused_leaf_index :: nat

text \<open>\<open>None\<close> is the panic on a profile tab without panes.\<close>

definition commit_profile_tab ::
  "tab_id \<Rightarrow> profile_tab \<Rightarrow> rust_string \<Rightarrow> cell_size \<Rightarrow> session \<Rightarrow> (session \<times> event list) option" where
  "commit_profile_tab t profile name tab_size s =
     (let ps = profile_pane_ids profile in
      if ps = [] then None
      else
        (let s1 = fold (\<lambda>(p, spec). register_spawned_pane p spec) (zip ps (profile_pane_specs profile)) s;
             focused = (case nth_opt ps (focused_leaf_index profile) of Some p \<Rightarrow> p | None \<Rightarrow> hd ps)
         in Some (append_tab t name (profile_layout_tree profile) focused tab_size s1,
                  TabCreated t # map (\<lambda>p. PaneCreated p (Some t)) ps)))"

end
