(* ===== verification/Cascade.thy ===== *)
theory Cascade
  imports Tab_Ops
begin

text \<open>
  The close and quit cascade (\<open>koshi-session/src/session/cascade.rs\<close>) and the commit of new panes
  (\<open>koshi-session/src/session/pane_ops.rs\<close>). The ids a caller mints are arguments.
\<close>

section \<open>Removing a pane from a tab\<close>

definition change_all_clients :: "(client \<Rightarrow> client) \<Rightarrow> session \<Rightarrow> session" where
  "change_all_clients g s = s\<lparr>clients := update_all_clients g (clients s)\<rparr>"

definition rect_or_empty :: "layout_solve option \<Rightarrow> pane_id \<Rightarrow> rect" where
  "rect_or_empty solve p =
     (case Option.bind solve (\<lambda>solve. find_pane_rect solve p) of Some r \<Rightarrow> r | None \<Rightarrow> build_empty_at_origin)"

definition list_focused_client_rects :: "session \<Rightarrow> tab_id \<Rightarrow> pane_id \<Rightarrow> (client_id \<times> rect) list" where
  "list_focused_client_rects s t p =
     map (\<lambda>c. (own_client_id c, rect_or_empty (compute_client_solve s c t) p))
       (filter (\<lambda>c. get_focused_pane_id c t = Some p) (list_attached_clients (clients s)))"

definition repair_focus_after_pane_left ::
  "tab_id \<Rightarrow> pane_id \<Rightarrow> (client_id \<times> rect) list \<Rightarrow> session \<Rightarrow> session \<times> event list" where
  "repair_focus_after_pane_left t departed focused_client_rects s =
     (case run_each (repair_client_focus t) focused_client_rects s of
        (s', es) \<Rightarrow> (change_all_clients (remove_pane_from_focus_history t departed) s', es))"

definition remove_pane_from_tab ::
  "tab_id \<Rightarrow> pane_id \<Rightarrow> pane_process_exited option \<Rightarrow> session \<Rightarrow> session \<times> event list" where
  "remove_pane_from_tab t p pane_exit s =
     (let focused_client_rects = list_focused_client_rects s t p
      in case get (tabs s) t of
           None \<Rightarrow> (s, [])
         | Some tab \<Rightarrow>
             (let s1 = update_tab t (remove_focus_mru p) s
              in case (case remove_pane_and_normalize (tab_layout tab) p of
                         Inr canonical_tree \<Rightarrow>
                           (case update_tab_layout t canonical_tree s1 of (s2, es) \<Rightarrow> (s2, LayoutChanged t # es, False))
                       | Inl (LastPane _) \<Rightarrow> (s1, [], True)
                       | Inl (RemovePaneNotFound _) \<Rightarrow> (s1, [], False)) of
                   (s2, es, is_tab_empty) \<Rightarrow>
                     (let s3 = change_all_clients (clear_zoom_of_pane p) s2
                      in case (if is_tab_empty then close_and_refocus_tab t pane_exit s3
                               else repair_focus_after_pane_left t p focused_client_rects s3) of
                           (s4, es') \<Rightarrow> (s4, es @ es'))))"

definition remove_pane_cascade ::
  "tab_id \<Rightarrow> pane_id \<Rightarrow> pane_process_exited option \<Rightarrow> session \<Rightarrow> session \<times> event list" where
  "remove_pane_cascade t p pane_exit s =
     (if \<not> has_key (tabs s) t then (s, [])
      else
        (case remove_pane_record p (panes s) of
           (None, registry) \<Rightarrow> (s\<lparr>panes := registry\<rparr>, [])
         | (Some _, registry) \<Rightarrow>
             (case remove_pane_from_tab t p pane_exit (s\<lparr>panes := registry\<rparr>) of
                (s', es) \<Rightarrow> (s', [PaneClosing p, PaneRemoved p (Some t)] @ es))))"

definition apply_child_exit :: "tab_id \<Rightarrow> pane_process_exited \<Rightarrow> session \<Rightarrow> session \<times> event list" where
  "apply_child_exit t pane_exit s =
     (let p = exited_pane_id pane_exit
      in if \<not> has_key (panes s) p then (s, [PaneProcessExited pane_exit])
         else
           (case remove_pane_cascade t p (Some pane_exit) s of
              (s', es) \<Rightarrow> (s', PaneProcessExited pane_exit # es)))"

section \<open>Removing a pane from a floating pane\<close>

definition list_floating_pane_focused_client_rects ::
  "session \<Rightarrow> floating_pane_id \<Rightarrow> pane_id \<Rightarrow> (client_id \<times> rect) list" where
  "list_floating_pane_focused_client_rects s f p =
     map (\<lambda>c. (own_client_id c, rect_or_empty (compute_client_floating_pane_solve s c f) p))
       (filter (\<lambda>c. find_floating_pane_input_pane_id c f = Some p) (list_attached_clients (clients s)))"

definition remove_pane_leaf_from_floating_pane ::
  "floating_pane_id \<Rightarrow> pane_id \<Rightarrow> session \<Rightarrow> session \<times> event list" where
  "remove_pane_leaf_from_floating_pane f p s =
     (case find_floating_pane_by_id (floats s) f of
        None \<Rightarrow> (s, [])
      | Some (_, pane) \<Rightarrow>
          (case remove_pane_and_normalize (floating_layout pane) p of
             Inl (LastPane _) \<Rightarrow> (fst (session_remove_floating_pane f s), [])
           | Inl (RemovePaneNotFound _) \<Rightarrow> (s, [])
           | Inr canonical_tree \<Rightarrow>
               (case update_floating_pane_layout f canonical_tree s of
                  (s', es) \<Rightarrow>
                    (change_all_clients (clear_zoom_of_pane p) s',
                     FloatingPaneLayoutChanged (list_leaf_pane_ids canonical_tree) # es))))"

definition repair_floating_pane_focus_after_pane_left ::
  "floating_pane_id \<Rightarrow> pane_id \<Rightarrow> (client_id \<times> rect) list \<Rightarrow> session \<Rightarrow> session \<times> event list" where
  "repair_floating_pane_focus_after_pane_left f departed focused_client_rects s =
     (case run_each (repair_floating_pane_client_focus f) focused_client_rects s of
        (s', es) \<Rightarrow> (change_all_clients (remove_pane_from_floating_pane_focus_history f departed) s', es))"

definition remove_pane_from_floating_pane :: "pane_id \<Rightarrow> session \<Rightarrow> session \<times> event list" where
  "remove_pane_from_floating_pane p s =
     (case find_floating_pane_by_pane_id (floats s) p of
        None \<Rightarrow> (s, [])
      | Some (_, pane) \<Rightarrow>
          (let f = own_floating_pane_id pane
           in if list_floating_pane_ids pane = [p] then remove_floating_pane f s
              else
                (let focused_client_rects = list_floating_pane_focused_client_rects s f p
                 in case andThen (remove_pane_leaf_from_floating_pane f p)
                           (repair_floating_pane_focus_after_pane_left f p focused_client_rects)
                           (drop_pane_records [p] s) of
                      (s', es) \<Rightarrow> (s', removal_events None [p] @ es))))"

section \<open>Committing new panes\<close>

text \<open>A client id that is not attached counts as none.\<close>

definition attached :: "session \<Rightarrow> client_id option \<Rightarrow> client_id option" where
  "attached s focus_client =
     Option.bind focus_client (\<lambda>i. if get_client_by_id (clients s) i = None then None else Some i)"

text \<open>The switch of the designated client onto the tab, with the tab it left and its event.\<close>

definition switch_onto_tab ::
  "tab_id \<Rightarrow> client_id option \<Rightarrow> session \<Rightarrow> session \<times> tab_id option \<times> event list" where
  "switch_onto_tab t focused_client s =
     (case focused_client of
        None \<Rightarrow> (s, None, [])
      | Some i \<Rightarrow>
          (case get_client_by_id (clients s) i of
             None \<Rightarrow> (s, None, [])
           | Some c \<Rightarrow>
               (let g = (\<lambda>c. if active_tab_id c \<noteq> t then update_active_tab_id t c else c);
                    s' = s\<lparr>clients := update_client i g (clients s)\<rparr>
                in if active_tab_id c \<noteq> t then (s', Some (active_tab_id c), [TabFocused i t (active_tab_id c)])
                   else (s', None, []))))"

definition commit_new_pane ::
  "pane_id \<Rightarrow> tab_id \<Rightarrow> layout_node \<Rightarrow> client_id option \<Rightarrow> new_pane_spec \<Rightarrow> session \<Rightarrow>
   session \<times> tab_id option \<times> event list" where
  "commit_new_pane p t candidate focus_client spec s =
     (if \<not> has_key (tabs s) t then (s, None, [])
      else
        (let focused_client = attached s focus_client
         in case switch_onto_tab t focused_client s of
              (s1, previous_tab, switched) \<Rightarrow>
                (case andThen (update_tab_layout t candidate)
                        (andThen
                           (\<lambda>s. case focused_client of
                                   Some i \<Rightarrow>
                                     with_client i (\<lambda>c. apply_tiled_pane_focus (floats s) t p (clear_zoom t c))
                                       (update_tab t (record_focus_mru p) s)
                                 | None \<Rightarrow> (change_all_clients (clear_zoom t) s, []))
                           (\<lambda>s. case previous_tab of
                                   Some previous \<Rightarrow> andThen (update_tab_solve t) (update_tab_solve previous) s
                                 | None \<Rightarrow> (s, [])))
                        (register_spawned_pane p spec s1) of
                   (s2, es) \<Rightarrow>
                     (s2, previous_tab, switched @ [PaneCreated p (Some t), LayoutChanged t] @ es))))"

definition commit_new_pane_in_floating_pane ::
  "pane_id \<Rightarrow> floating_pane_id \<Rightarrow> layout_node \<Rightarrow> client_id option \<Rightarrow> new_pane_spec \<Rightarrow> session \<Rightarrow>
   session \<times> event list" where
  "commit_new_pane_in_floating_pane p f candidate focus_client spec s =
     (if find_floating_pane_by_id (floats s) f = None then (s, [])
      else
        (case andThen (update_floating_pane_layout f candidate)
                (\<lambda>s. case attached s focus_client of
                        None \<Rightarrow> (change_all_clients (clear_floating_pane_zoom f) s, [])
                      | Some i \<Rightarrow>
                          (let can_draw = (case get_client_by_id (clients s) i of
                                             Some c \<Rightarrow> can_client_draw_floating_panes s c
                                           | None \<Rightarrow> False)
                           in with_client i
                                (\<lambda>c. (let c' = clear_floating_pane_zoom f c
                                      in if can_draw then apply_floating_pane_focus (floats s) f p c'
                                         else (update_floating_pane_focused_pane f p c', []))) s))
                (register_spawned_pane p spec s) of
           (s', es) \<Rightarrow> (s', [PaneCreated p None, FloatingPaneLayoutChanged (list_leaf_pane_ids candidate)] @ es)))"

definition show_new_floating_pane :: "client_id \<Rightarrow> floating_pane_id \<Rightarrow> session \<Rightarrow> session \<times> event list" where
  "show_new_floating_pane i f s =
     (case get_client_by_id (clients s) i of
        None \<Rightarrow> (s, [])
      | Some c \<Rightarrow>
          if \<not> can_client_draw_floating_panes s c then (s, [])
          else
            with_client i
              (\<lambda>c. (let c' = fst (focus_floating_pane f c)
                    in (c', build_pane_focused_event c' (get_active_focused_pane_id c)))) s)"

definition commit_new_floating_pane ::
  "floating_pane_id \<Rightarrow> pane_id \<Rightarrow> floating_pane_size \<Rightarrow> cell_size \<Rightarrow> (client_id \<times> floating_pane_position) option \<Rightarrow>
   new_pane_spec \<Rightarrow> session \<Rightarrow> floating_set_error + session \<times> event list" where
  "commit_new_floating_pane fresh p desired solved_size acting_view spec s =
     (case session_add_floating_pane
             (floating_pane_from_pane fresh p desired solved_size (session_pane_sizing s))
             (option_list acting_view) s of
        Inl e \<Rightarrow> Inl e
      | Inr s1 \<Rightarrow>
          (let s2 = register_spawned_pane p spec s1
           in case (case acting_view of Some (i, _) \<Rightarrow> show_new_floating_pane i fresh s2 | None \<Rightarrow> (s2, [])) of
                (s3, es) \<Rightarrow> Inr (s3, PaneCreated p None # es)))"

end
