(* ===== verification/Client_Invariant.thy ===== *)
theory Client_Invariant
  imports Client
begin

text \<open>
  What every client method keeps. The view state of a client refers to the session by ids only: a
  client is well-formed against the panes of the tabs and of the floating panes, given as maps from
  ids to sets of panes, and its kept solves are coherent against the layout areas they were built
  from.
\<close>

section \<open>Well-formed clients\<close>

type_synonym panes_of_tabs = "tab_id \<rightharpoonup> pane_id set"
type_synonym panes_of_floats = "floating_pane_id \<rightharpoonup> pane_id set"

text \<open>
  The tab side: the active tab is one of the tabs while there are any, a focus history is a list of
  different panes of its tab and never empty, and a zoomed pane is a pane of its tab.
\<close>

definition tab_side_ok :: "panes_of_tabs \<Rightarrow> client \<Rightarrow> bool" where
  "tab_side_ok T c \<longleftrightarrow>
     (T = Map.empty \<or> T (active_tab_id c) \<noteq> None) \<and>
     (\<forall>t h. get (focus_history_by_tab_id c) t = Some h \<longrightarrow>
        h \<noteq> [] \<and> distinct h \<and> (\<exists>P. T t = Some P \<and> set h \<subseteq> P)) \<and>
     (\<forall>t p. get (zoomed_pane_id_by_tab_id c) t = Some p \<longrightarrow> (\<exists>P. T t = Some P \<and> p \<in> P))"

definition view_ok :: "pane_id set \<Rightarrow> floating_pane_view \<Rightarrow> bool" where
  "view_ok P v \<longleftrightarrow>
     view_focus_history v \<noteq> [] \<and> distinct (view_focus_history v) \<and> set (view_focus_history v) \<subseteq> P \<and>
     (\<forall>p. view_zoomed_pane_id v = Some p \<longrightarrow> p \<in> P)"

text \<open>
  The floating side: one view for each floating pane and no other, the shown floating panes are the
  ones that are not minimized, and the focused floating pane is the last shown one.
\<close>

definition float_side_ok :: "panes_of_floats \<Rightarrow> client \<Rightarrow> bool" where
  "float_side_ok F c \<longleftrightarrow>
     dom (get (floating_pane_view_by_id c)) = dom F \<and>
     (\<forall>f w. get (floating_pane_view_by_id c) f = Some w \<longrightarrow>
        view_ok (the (F f)) (own_view w) \<and> (is_minimized (own_view w) \<longleftrightarrow> f \<notin> set (shown_floating_pane_ids c))) \<and>
     distinct (shown_floating_pane_ids c) \<and> set (shown_floating_pane_ids c) \<subseteq> dom F \<and>
     focused_floating_pane_id c = last_opt (shown_floating_pane_ids c)"

section \<open>Kept solves\<close>

text \<open>
  A kept solve is what the layout area gives for the client's present view of it. The areas of the
  tabs and of the floating panes are given with the sizing each was last solved with: that is the
  session's sizing, but while the session is being solved with a new one.
\<close>

type_synonym 'i solved_areas = "'i \<rightharpoonup> layout_area \<times> pane_sizing"

definition tab_solve_ok :: "tab_id solved_areas \<Rightarrow> client \<Rightarrow> bool" where
  "tab_solve_ok A c \<longleftrightarrow>
     (\<forall>kept. own_active_tab_solve c = Some kept \<longrightarrow>
        (\<exists>area z. A (active_tab_id c) = Some (area, z) \<and>
           kept = build_client_solve area (get_layout_mode c (active_tab_id c))
                    (list_focus_history c (active_tab_id c)) z))"

definition view_solve_ok :: "(layout_area \<times> pane_sizing) option \<Rightarrow> floating_pane_view_with_own_solve \<Rightarrow> bool" where
  "view_solve_ok area w \<longleftrightarrow>
     (\<forall>kept. own_solve w = Some kept \<longrightarrow>
        (\<exists>a z. area = Some (a, z) \<and>
           kept = build_client_solve a (view_layout_mode (own_view w)) (view_focus_history (own_view w)) z))"

definition kept_ok :: "tab_id solved_areas \<Rightarrow> floating_pane_id solved_areas \<Rightarrow> client \<Rightarrow> bool" where
  "kept_ok A B c \<longleftrightarrow>
     tab_solve_ok A c \<and>
     (\<forall>f w. get (floating_pane_view_by_id c) f = Some w \<longrightarrow> view_solve_ok (B f) w)"

section \<open>The contract of a client method\<close>

text \<open>A method keeps who the client is, and leaves no stale solve behind.\<close>

locale client_method =
  fixes g :: "client \<Rightarrow> client"
  assumes keeps_id: "own_client_id (g c) = own_client_id c"
    and keeps_session: "client_session_id (g c) = client_session_id c"
    and keeps_solves: "kept_ok A B c \<Longrightarrow> kept_ok A B (g c)"

lemma method_comp: "client_method g \<Longrightarrow> client_method h \<Longrightarrow> client_method (\<lambda>c. h (g c))"
  by (simp add: client_method_def)

lemma method_id: "client_method (\<lambda>c. c)"
  by (simp add: client_method_def)

lemma method_if: "client_method g \<Longrightarrow> client_method h \<Longrightarrow> client_method (\<lambda>c. if b c then g c else h c)"
  by (simp add: client_method_def)

lemma method_fold: "(\<And>x. client_method (g x)) \<Longrightarrow> client_method (\<lambda>c. fold g (xs c) c)"
proof -
  assume g: "\<And>x. client_method (g x)"
  have "client_method (fold g ys)" for ys
    by (induction ys) (use g in \<open>simp_all add: client_method_def\<close>)
  then show ?thesis by (simp add: client_method_def)
qed

text \<open>
  Two ways to meet the contract: leave alone what a solve is built from, or clear the solve.
\<close>

lemma tab_solve_ok_cleared [simp]: "own_active_tab_solve c = None \<Longrightarrow> tab_solve_ok A c"
  by (simp add: tab_solve_ok_def)

lemma view_solve_ok_cleared [simp]: "own_solve w = None \<Longrightarrow> view_solve_ok a w"
  by (simp add: view_solve_ok_def)

lemmas client_frame =
  mark_view_changed_def clear_own_active_tab_solve_def update_view_def clear_own_floating_pane_solve_def
  get_floating_pane_view_def

text \<open>A solve follows a change when it is cleared, or nothing it was built from changed.\<close>

definition tab_solve_follows :: "client \<Rightarrow> client \<Rightarrow> bool" where
  "tab_solve_follows c c' \<longleftrightarrow>
     own_active_tab_solve c' = None \<or>
     own_active_tab_solve c' = own_active_tab_solve c \<and> active_tab_id c' = active_tab_id c \<and>
     focus_history_by_tab_id c' = focus_history_by_tab_id c \<and> zoomed_pane_id_by_tab_id c' = zoomed_pane_id_by_tab_id c"

definition view_solve_follows ::
  "floating_pane_view_with_own_solve option \<Rightarrow> floating_pane_view_with_own_solve \<Rightarrow> bool" where
  "view_solve_follows before w' \<longleftrightarrow>
     own_solve w' = None \<or>
     (\<exists>w. before = Some w \<and> own_solve w' = own_solve w \<and>
        view_zoomed_pane_id (own_view w') = view_zoomed_pane_id (own_view w) \<and>
        view_focus_history (own_view w') = view_focus_history (own_view w))"

lemma view_follows_refl [simp]: "view_solve_follows (Some w) w"
  by (simp add: view_solve_follows_def)

lemma view_follows_get [simp]: "get m f = Some w \<Longrightarrow> view_solve_follows (get m f) w"
  by simp

lemma view_follows_cleared [simp]: "view_solve_follows before (w\<lparr>own_solve := None\<rparr>)"
  by (simp add: view_solve_follows_def)

lemma view_follows_minimized [simp]: "view_solve_follows (Some w) (set_minimized b w)"
  by (simp add: view_solve_follows_def set_minimized_def)

lemma tab_follows_refl [simp]: "tab_solve_follows c c"
  by (simp add: tab_solve_follows_def)

lemma tab_solve_follows_ok: "tab_solve_ok A c \<Longrightarrow> tab_solve_follows c c' \<Longrightarrow> tab_solve_ok A c'"
  by (auto simp: tab_solve_follows_def tab_solve_ok_def list_focus_history_def get_layout_mode_def)

lemma view_solve_follows_ok:
  "(\<And>w. before = Some w \<Longrightarrow> view_solve_ok a w) \<Longrightarrow> view_solve_follows before w' \<Longrightarrow> view_solve_ok a w'"
  by (auto simp: view_solve_follows_def view_solve_ok_def view_layout_mode_def)

lemma methodI:
  assumes "\<And>c. own_client_id (g c) = own_client_id c" "\<And>c. client_session_id (g c) = client_session_id c"
    and "\<And>c. tab_solve_follows c (g c)"
    and "\<And>c f w. get (floating_pane_view_by_id (g c)) f = Some w \<Longrightarrow>
           view_solve_follows (get (floating_pane_view_by_id c) f) w"
  shows "client_method g"
proof
  show "kept_ok A B (g c)" if "kept_ok A B c" for A B c
    using that assms(3,4) unfolding kept_ok_def
    by (blast intro: tab_solve_follows_ok view_solve_follows_ok)
qed (rule assms)+

text \<open>The methods that touch no view.\<close>

lemma methodI_tabs:
  assumes "\<And>c. own_client_id (g c) = own_client_id c" "\<And>c. client_session_id (g c) = client_session_id c"
    and "\<And>c. tab_solve_follows c (g c)" "\<And>c. floating_pane_view_by_id (g c) = floating_pane_view_by_id c"
  shows "client_method g"
  by (rule methodI) (use assms in simp_all)

lemma fold_update_view:
  "fold (\<lambda>f. update_view f g) fs c =
     c\<lparr>floating_pane_view_by_id := fold (\<lambda>f. RBT.map_entry f g) fs (floating_pane_view_by_id c)\<rparr>"
  by (induction fs arbitrary: c) (simp_all add: update_view_def)

lemma get_fold_map_entry:
  "(\<And>v. g (g v) = g v) \<Longrightarrow>
   get (fold (\<lambda>f. RBT.map_entry f g) fs m) f = (if f \<in> set fs then map_option g (get m f) else get m f)"
  by (induction fs arbitrary: m) (auto simp: option.map_comp comp_def)

lemma set_minimized_idem [simp]: "set_minimized b (set_minimized b v) = set_minimized b v"
  by (simp add: set_minimized_def)

lemma minimize_shown_sel [simp]:
  "fst (minimize_shown_floating_panes c) =
     c\<lparr>floating_pane_view_by_id := fold (\<lambda>f. RBT.map_entry f (set_minimized True)) (shown_floating_pane_ids c) (floating_pane_view_by_id c),
       shown_floating_pane_ids := [], focused_floating_pane_id := None,
       is_view_changed := is_view_changed c \<or> shown_floating_pane_ids c \<noteq> [] \<or> focused_floating_pane_id c \<noteq> None\<rparr>"
  "snd (minimize_shown_floating_panes c) = shown_floating_pane_ids c"
  by (simp_all add: minimize_shown_floating_panes_def fold_update_view mark_view_changed_def Let_def)

section \<open>Every method meets it\<close>

interpretation mark_view_changed: client_method "mark_view_changed b" for b
  by (rule methodI_tabs) (auto simp: client_frame tab_solve_follows_def  Let_def split: option.splits if_splits)

interpretation clear_own_active_tab_solve: client_method "clear_own_active_tab_solve"
  by (rule methodI_tabs) (auto simp: client_frame tab_solve_follows_def  Let_def split: option.splits if_splits)

interpretation clear_own_floating_pane_solve: client_method "clear_own_floating_pane_solve f" for f
  by (rule methodI) (auto simp: client_frame tab_solve_follows_def  Let_def split: option.splits if_splits)

interpretation zoom_pane: client_method "zoom_pane t p" for t p
  by (rule methodI_tabs) (auto simp: client_frame tab_solve_follows_def zoom_pane_def Let_def split: option.splits if_splits)

interpretation clear_zoom: client_method "clear_zoom t" for t
  by (rule methodI_tabs) (auto simp: client_frame tab_solve_follows_def clear_zoom_def Let_def split: option.splits if_splits)

interpretation clear_floating_pane_zoom: client_method "clear_floating_pane_zoom f" for f
  by (rule methodI) (auto simp: client_frame tab_solve_follows_def clear_floating_pane_zoom_def Let_def split: option.splits if_splits)

interpretation zoom_pane_in_floating_pane: client_method "zoom_pane_in_floating_pane f p" for f p
  by (rule methodI) (auto simp: client_frame tab_solve_follows_def zoom_pane_in_floating_pane_def Let_def split: option.splits if_splits)

interpretation clear_zoom_of_pane: client_method "clear_zoom_of_pane p" for p
proof -
  define h where "h c = clear_own_active_tab_solve
       (mark_view_changed (map_size (RBT.filter (\<lambda>_ q. q \<noteq> p) (zoomed_pane_id_by_tab_id c)) \<noteq>
          map_size (zoomed_pane_id_by_tab_id c))
          (c\<lparr>zoomed_pane_id_by_tab_id := RBT.filter (\<lambda>_ q. q \<noteq> p) (zoomed_pane_id_by_tab_id c)\<rparr>))" for c
  have h: "client_method h" by (rule methodI_tabs) (simp_all add: h_def client_frame tab_solve_follows_def)
  have *: "clear_zoom_of_pane p = (\<lambda>c. (\<lambda>c'. fold clear_floating_pane_zoom
      (map fst (filter (\<lambda>(_, v). view_zoomed_pane_id (own_view v) = Some p) (RBT.entries (floating_pane_view_by_id c')))) c') (h c))"
    by (rule ext) (simp add: clear_zoom_of_pane_def h_def Let_def)
  show "client_method (clear_zoom_of_pane p)"
    unfolding * by (rule method_comp [OF h method_fold]) (rule clear_floating_pane_zoom.client_method_axioms)
qed

interpretation set_scroll_offset: client_method "set_scroll_offset p n" for p n
  by (rule methodI_tabs) (auto simp: client_frame tab_solve_follows_def set_scroll_offset_def Let_def split: option.splits if_splits)

interpretation set_selection: client_method "set_selection p sel" for p sel
  by (rule methodI_tabs) (auto simp: client_frame tab_solve_follows_def set_selection_def Let_def split: option.splits if_splits)

interpretation clear_selection: client_method "clear_selection p" for p
  by (rule methodI_tabs) (auto simp: client_frame tab_solve_follows_def clear_selection_def Let_def split: option.splits if_splits)

interpretation update_lock_mode: client_method "update_lock_mode m" for m
  by (rule methodI_tabs) (auto simp: client_frame tab_solve_follows_def update_lock_mode_def Let_def split: option.splits if_splits)

interpretation set_last_applied_lock_command_id: client_method "set_last_applied_lock_command_id i" for i
  by (rule methodI_tabs) (auto simp: client_frame tab_solve_follows_def set_last_applied_lock_command_id_def Let_def split: option.splits if_splits)

interpretation set_last_applied_floating_pane_move_command_id: client_method "set_last_applied_floating_pane_move_command_id i" for i
  by (rule methodI_tabs) (auto simp: client_frame tab_solve_follows_def set_last_applied_floating_pane_move_command_id_def Let_def split: option.splits if_splits)

interpretation set_last_applied_placement_command_id: client_method "set_last_applied_placement_command_id i" for i
  by (rule methodI_tabs) (auto simp: client_frame tab_solve_follows_def set_last_applied_placement_command_id_def Let_def split: option.splits if_splits)

interpretation toggle_mouse_selection: client_method "\<lambda>c. fst (toggle_mouse_selection c)"
  by (rule methodI_tabs) (auto simp: client_frame tab_solve_follows_def toggle_mouse_selection_def Let_def split: option.splits if_splits)

interpretation update_viewport_size: client_method "update_viewport_size z" for z
  by (rule methodI_tabs) (auto simp: client_frame tab_solve_follows_def update_viewport_size_def Let_def split: option.splits if_splits)

interpretation update_pane_area: client_method "update_pane_area a" for a
  by (rule methodI_tabs) (auto simp: client_frame tab_solve_follows_def update_pane_area_def Let_def split: option.splits if_splits)

interpretation update_cell_size: client_method "update_cell_size a" for a
  by (rule methodI_tabs) (auto simp: client_frame tab_solve_follows_def update_cell_size_def Let_def split: option.splits if_splits)

interpretation update_origin: client_method "update_origin a" for a
  by (rule methodI_tabs) (auto simp: client_frame tab_solve_follows_def update_origin_def Let_def split: option.splits if_splits)

interpretation update_active_tab_id: client_method "update_active_tab_id t" for t
  by (rule methodI_tabs) (auto simp: client_frame tab_solve_follows_def update_active_tab_id_def Let_def split: option.splits if_splits)

interpretation update_focused_pane: client_method "\<lambda>c. fst (update_focused_pane t p c)" for t p
  by (rule methodI_tabs) (auto simp: client_frame tab_solve_follows_def update_focused_pane_def Let_def split: option.splits if_splits)

interpretation remove_pane_from_focus_history: client_method "remove_pane_from_focus_history t p" for t p
  by (rule methodI_tabs) (auto simp: client_frame tab_solve_follows_def remove_pane_from_focus_history_def Let_def split: option.splits if_splits)

interpretation insert_panes_into_focus_history: client_method "insert_panes_into_focus_history t n ps" for t n ps
  by (rule methodI_tabs) (auto simp: client_frame tab_solve_follows_def insert_panes_into_focus_history_def Let_def split: option.splits if_splits)

interpretation clear_focus_history: client_method "clear_focus_history t" for t
  by (rule methodI_tabs) (auto simp: client_frame tab_solve_follows_def clear_focus_history_def Let_def split: option.splits if_splits)

interpretation minimize_shown_floating_panes: client_method "\<lambda>c. fst (minimize_shown_floating_panes c)"
  by (rule methodI) (auto simp: tab_solve_follows_def get_fold_map_entry split: if_splits)

lemma focus_tiled_pane_fst:
  "fst (focus_tiled_pane t p c) =
     fst (update_focused_pane t p (if t = active_tab_id c then fst (minimize_shown_floating_panes c) else c))"
  unfolding focus_tiled_pane_def Let_def
  by (cases "minimize_shown_floating_panes c") (simp split: prod.split del: minimize_shown_sel)

interpretation focus_tiled_pane: client_method "\<lambda>c. fst (focus_tiled_pane t p c)" for t p
  unfolding focus_tiled_pane_fst
  by (rule method_comp [OF method_if [OF minimize_shown_floating_panes.client_method_axioms method_id]
        update_focused_pane.client_method_axioms])

interpretation add_floating_pane_view: client_method "add_floating_pane_view f pos" for f pos
  by (rule methodI) (auto simp: client_frame tab_solve_follows_def add_floating_pane_view_def view_solve_follows_def Let_def split: option.splits if_splits)

interpretation focus_floating_pane: client_method "\<lambda>c. fst (focus_floating_pane f c)" for f
  by (rule methodI) (auto simp: client_frame tab_solve_follows_def focus_floating_pane_def Let_def split: option.splits if_splits)

interpretation update_floating_pane_focused_pane: client_method "update_floating_pane_focused_pane f p" for f p
  by (rule methodI) (auto simp: client_frame tab_solve_follows_def update_floating_pane_focused_pane_def Let_def split: option.splits if_splits)

interpretation remove_shown_floating_pane: client_method "remove_shown_floating_pane f" for f
  by (rule methodI_tabs) (auto simp: client_frame tab_solve_follows_def remove_shown_floating_pane_def Let_def split: option.splits if_splits)

interpretation remove_pane_from_floating_pane_focus_history:
  client_method "remove_pane_from_floating_pane_focus_history f p" for f p
proof -
  have "filter (\<lambda>q. q \<noteq> p) h = h" if "length (filter (\<lambda>q. q \<noteq> p) h) = length h" for h :: "pane_id list"
    using that by (metis filter_id_conv length_filter_less less_irrefl)
  then show "client_method (remove_pane_from_floating_pane_focus_history f p)"
    by (intro methodI)
       (auto simp: client_frame tab_solve_follows_def remove_pane_from_floating_pane_focus_history_def
          view_solve_follows_def Let_def split: option.splits if_splits)
qed

interpretation minimize_floating_pane: client_method "\<lambda>c. fst (minimize_floating_pane f c)" for f
  by (rule methodI) (auto simp: client_frame tab_solve_follows_def minimize_floating_pane_def remove_shown_floating_pane_def Let_def split: option.splits if_splits)

interpretation update_floating_pane_position: client_method "update_floating_pane_position f pos" for f pos
  by (rule methodI) (auto simp: client_frame tab_solve_follows_def update_floating_pane_position_def view_solve_follows_def Let_def split: option.splits if_splits)

interpretation pin_floating_pane: client_method "pin_floating_pane f cell" for f cell
  by (rule methodI) (auto simp: client_frame tab_solve_follows_def pin_floating_pane_def update_floating_pane_position_def view_solve_follows_def Let_def split: option.splits if_splits)

interpretation remove_floating_pane_view: client_method "remove_floating_pane_view f" for f
  by (rule methodI) (auto simp: client_frame tab_solve_follows_def remove_floating_pane_view_def remove_shown_floating_pane_def Let_def split: option.splits if_splits)

interpretation unpin_floating_pane: client_method "unpin_floating_pane f" for f
proof
  show "own_client_id (unpin_floating_pane f c) = own_client_id c"
    "client_session_id (unpin_floating_pane f c) = client_session_id c"
    "kept_ok A B c \<Longrightarrow> kept_ok A B (unpin_floating_pane f c)" for A B c
    by (auto simp: unpin_floating_pane_def update_floating_pane_position.keeps_id update_floating_pane_position.keeps_session
        update_floating_pane_position.keeps_solves split: option.splits floating_pane_position.splits)
qed

interpretation set_floating_pane_position: client_method "\<lambda>c. fst (set_floating_pane_position f cell c)" for f cell
proof
  show "own_client_id (fst (set_floating_pane_position f cell c)) = own_client_id c"
    "client_session_id (fst (set_floating_pane_position f cell c)) = client_session_id c"
    "kept_ok A B c \<Longrightarrow> kept_ok A B (fst (set_floating_pane_position f cell c))" for A B c
    by (auto simp: set_floating_pane_position_def update_floating_pane_position.keeps_id
        update_floating_pane_position.keeps_session update_floating_pane_position.keeps_solves
        split: option.splits floating_pane_position.splits)
qed

section \<open>Well-formedness of one side\<close>

lemma tab_side_frame:
  "active_tab_id c' = active_tab_id c \<Longrightarrow> focus_history_by_tab_id c' = focus_history_by_tab_id c \<Longrightarrow>
   zoomed_pane_id_by_tab_id c' = zoomed_pane_id_by_tab_id c \<Longrightarrow> tab_side_ok T c' = tab_side_ok T c"
  by (simp add: tab_side_ok_def)

lemma float_side_frame:
  "floating_pane_view_by_id c' = floating_pane_view_by_id c \<Longrightarrow>
   shown_floating_pane_ids c' = shown_floating_pane_ids c \<Longrightarrow>
   focused_floating_pane_id c' = focused_floating_pane_id c \<Longrightarrow> float_side_ok F c' = float_side_ok F c"
  by (simp add: float_side_ok_def)

lemma neither_side_frame [simp]:
  "tab_side_ok T (set_scroll_offset p n c) = tab_side_ok T c" "float_side_ok F (set_scroll_offset p n c) = float_side_ok F c"
  "tab_side_ok T (set_selection p sel c) = tab_side_ok T c" "float_side_ok F (set_selection p sel c) = float_side_ok F c"
  "tab_side_ok T (clear_selection p c) = tab_side_ok T c" "float_side_ok F (clear_selection p c) = float_side_ok F c"
  "tab_side_ok T (update_lock_mode m c) = tab_side_ok T c" "float_side_ok F (update_lock_mode m c) = float_side_ok F c"
  "tab_side_ok T (update_viewport_size z c) = tab_side_ok T c" "float_side_ok F (update_viewport_size z c) = float_side_ok F c"
  "tab_side_ok T (update_pane_area a c) = tab_side_ok T c" "float_side_ok F (update_pane_area a c) = float_side_ok F c"
  "tab_side_ok T (mark_view_changed b c) = tab_side_ok T c" "float_side_ok F (mark_view_changed b c) = float_side_ok F c"
  "tab_side_ok T (clear_own_active_tab_solve c) = tab_side_ok T c"
  "float_side_ok F (clear_own_active_tab_solve c) = float_side_ok F c"
  by (simp_all add: tab_side_ok_def float_side_ok_def set_scroll_offset_def set_selection_def clear_selection_def
      update_lock_mode_def update_viewport_size_def update_pane_area_def client_frame Let_def)

lemma tab_methods_float_side [simp]:
  "float_side_ok F (zoom_pane t p c) = float_side_ok F c"
  "float_side_ok F (clear_zoom t c) = float_side_ok F c"
  "float_side_ok F (update_active_tab_id t c) = float_side_ok F c"
  "float_side_ok F (fst (update_focused_pane t p c)) = float_side_ok F c"
  "float_side_ok F (remove_pane_from_focus_history t p c) = float_side_ok F c"
  "float_side_ok F (insert_panes_into_focus_history t n ps c) = float_side_ok F c"
  "float_side_ok F (clear_focus_history t c) = float_side_ok F c"
  by (rule float_side_frame;
      simp add: zoom_pane_def clear_zoom_def update_active_tab_id_def update_focused_pane_def client_frame
        remove_pane_from_focus_history_def insert_panes_into_focus_history_def clear_focus_history_def Let_def
        split: option.split)+

lemma float_methods_tab_side [simp]:
  "tab_side_ok T (update_view f g c) = tab_side_ok T c"
  "tab_side_ok T (clear_own_floating_pane_solve f c) = tab_side_ok T c"
  "tab_side_ok T (clear_floating_pane_zoom f c) = tab_side_ok T c"
  "tab_side_ok T (zoom_pane_in_floating_pane f p c) = tab_side_ok T c"
  "tab_side_ok T (fst (minimize_shown_floating_panes c)) = tab_side_ok T c"
  "tab_side_ok T (add_floating_pane_view pane pos c) = tab_side_ok T c"
  "tab_side_ok T (fst (focus_floating_pane f c)) = tab_side_ok T c"
  "tab_side_ok T (update_floating_pane_focused_pane f p c) = tab_side_ok T c"
  "tab_side_ok T (remove_pane_from_floating_pane_focus_history f p c) = tab_side_ok T c"
  "tab_side_ok T (remove_shown_floating_pane f c) = tab_side_ok T c"
  "tab_side_ok T (fst (minimize_floating_pane f c)) = tab_side_ok T c"
  "tab_side_ok T (update_floating_pane_position f pos c) = tab_side_ok T c"
  "tab_side_ok T (remove_floating_pane_view f c) = tab_side_ok T c"
  by (rule tab_side_frame;
      simp add: client_frame clear_floating_pane_zoom_def zoom_pane_in_floating_pane_def add_floating_pane_view_def
        focus_floating_pane_def update_floating_pane_focused_pane_def remove_pane_from_floating_pane_focus_history_def
        remove_shown_floating_pane_def minimize_floating_pane_def update_floating_pane_position_def
        remove_floating_pane_view_def Let_def split: option.split)+

subsection \<open>Tabs\<close>

lemma tab_sideD:
  "tab_side_ok T c \<Longrightarrow> get (focus_history_by_tab_id c) t = Some h \<Longrightarrow> h \<noteq> [] \<and> distinct h \<and> (\<exists>P. T t = Some P \<and> set h \<subseteq> P)"
  "tab_side_ok T c \<Longrightarrow> get (zoomed_pane_id_by_tab_id c) t = Some p \<Longrightarrow> \<exists>P. T t = Some P \<and> p \<in> P"
  "tab_side_ok T c \<Longrightarrow> T = Map.empty \<or> T (active_tab_id c) \<noteq> None"
  by (simp_all add: tab_side_ok_def)

lemma zoom_pane_side: "tab_side_ok T c \<Longrightarrow> T t = Some P \<Longrightarrow> p \<in> P \<Longrightarrow> tab_side_ok T (zoom_pane t p c)"
  by (auto simp: tab_side_ok_def zoom_pane_def client_frame)

lemma clear_zoom_side: "tab_side_ok T c \<Longrightarrow> tab_side_ok T (clear_zoom t c)"
  by (auto simp: tab_side_ok_def clear_zoom_def client_frame)

lemma update_active_tab_side: "tab_side_ok T c \<Longrightarrow> T t \<noteq> None \<Longrightarrow> tab_side_ok T (update_active_tab_id t c)"
  by (auto simp: tab_side_ok_def update_active_tab_id_def client_frame)

lemma set_move_to_front [simp]: "set (move_to_front x xs) = insert x (set xs)"
  by (auto simp: move_to_front_def)

lemma distinct_move_to_front [simp]: "distinct xs \<Longrightarrow> distinct (move_to_front x xs)"
  by (simp add: move_to_front_def)

lemma first_move_to_front [simp]: "first (move_to_front x xs) = Some x"
  by (simp add: move_to_front_def first_def)

lemma move_to_front_not_Nil [simp]: "move_to_front x xs \<noteq> []"
  by (simp add: move_to_front_def)

lemma update_focused_pane_sel:
  "get (focus_history_by_tab_id (fst (update_focused_pane t p c))) t' =
     (if t' = t then Some (move_to_front p (list_focus_history c t)) else get (focus_history_by_tab_id c) t')"
  "get (zoomed_pane_id_by_tab_id (fst (update_focused_pane t p c))) t' =
     (if t' = t then map_option (\<lambda>_. p) (get (zoomed_pane_id_by_tab_id c) t) else get (zoomed_pane_id_by_tab_id c) t')"
  "active_tab_id (fst (update_focused_pane t p c)) = active_tab_id c"
  "snd (update_focused_pane t p c) = get_focused_pane_id c t"
  by (simp_all add: update_focused_pane_def client_frame list_focus_history_def get_focused_pane_id_def Let_def)

lemma history_side:
  "tab_side_ok T c \<Longrightarrow> T t = Some P \<Longrightarrow> distinct (list_focus_history c t) \<and> set (list_focus_history c t) \<subseteq> P"
  by (cases "get (focus_history_by_tab_id c) t") (force simp: tab_side_ok_def list_focus_history_def)+

lemma update_focused_pane_side:
  assumes ok: "tab_side_ok T c" and P: "T t = Some P" and p: "p \<in> P"
  shows "tab_side_ok T (fst (update_focused_pane t p c))"
  using ok history_side [OF ok P] P p unfolding tab_side_ok_def update_focused_pane_sel
  by (auto split: if_splits)

lemma clear_focus_history_side: "tab_side_ok T c \<Longrightarrow> tab_side_ok T (clear_focus_history t c)"
  by (auto simp: tab_side_ok_def clear_focus_history_def client_frame)

lemma remove_pane_from_focus_history_side:
  "tab_side_ok T c \<Longrightarrow> tab_side_ok T (remove_pane_from_focus_history t p c)"
  by (fastforce simp: tab_side_ok_def remove_pane_from_focus_history_def client_frame Let_def split: option.split if_splits)

lemma insert_panes_into_focus_history_side:
  assumes ok: "tab_side_ok T c" and P: "T t = Some P" and ps: "distinct ps" "set ps \<subseteq> P"
  shows "tab_side_ok T (insert_panes_into_focus_history t n ps c)"
proof -
  note h = history_side [OF ok P]
  have "distinct (take i h @ filter (\<lambda>p. p \<notin> set h) ps @ drop i h)" if "distinct h" for i and h :: "pane_id list"
    using that ps(1) set_take_disj_set_drop_if_distinct [OF that, of i i]
    by (auto dest: in_set_takeD in_set_dropD)
  with ok h P ps(2) show ?thesis
    by (auto simp: tab_side_ok_def insert_panes_into_focus_history_def client_frame Let_def
        dest!: in_set_takeD in_set_dropD split: if_splits)
qed

lemma focus_tiled_pane_side:
  "tab_side_ok T c \<Longrightarrow> T t = Some P \<Longrightarrow> p \<in> P \<Longrightarrow> tab_side_ok T (fst (focus_tiled_pane t p c))"
  unfolding focus_tiled_pane_fst
  by (rule update_focused_pane_side) (auto simp del: minimize_shown_sel)

subsection \<open>Floating panes\<close>

lemma float_side_view:
  "float_side_ok F c \<Longrightarrow> get (floating_pane_view_by_id c) f = Some w \<Longrightarrow> \<exists>P. F f = Some P \<and> view_ok P (own_view w)"
proof -
  assume ok: "float_side_ok F c" and w: "get (floating_pane_view_by_id c) f = Some w"
  from ok w have "f \<in> dom F" "view_ok (the (F f)) (own_view w)" by (auto simp: float_side_ok_def)
  then show "\<exists>P. F f = Some P \<and> view_ok P (own_view w)" by auto
qed

lemma set_minimized_view [simp]:
  "view_ok P (own_view (set_minimized b w)) = view_ok P (own_view w)"
  "is_minimized (own_view (set_minimized b w)) = b"
  by (simp_all add: set_minimized_def view_ok_def)

text \<open>A change of one view that keeps whether it is minimized.\<close>

lemma update_view_side:
  assumes ok: "float_side_ok F c"
    and g: "\<And>w P. get (floating_pane_view_by_id c) f = Some w \<Longrightarrow> F f = Some P \<Longrightarrow> view_ok P (own_view w) \<Longrightarrow>
              view_ok P (own_view (g w)) \<and> is_minimized (own_view (g w)) = is_minimized (own_view w)"
  shows "float_side_ok F (update_view f g c)"
proof -
  have "view_ok (the (F f)) (own_view (g w)) \<and> is_minimized (own_view (g w)) = is_minimized (own_view w)"
    if "get (floating_pane_view_by_id c) f = Some w" for w
    using g [OF that] float_side_view [OF ok that] by auto
  with ok show ?thesis by (auto simp: float_side_ok_def update_view_def dom_def split: if_splits)
qed

lemma clear_own_floating_pane_solve_side [simp]:
  "float_side_ok F c \<Longrightarrow> float_side_ok F (clear_own_floating_pane_solve f c)"
  unfolding clear_own_floating_pane_solve_def by (rule update_view_side) simp_all

lemma clear_floating_pane_zoom_side: "float_side_ok F c \<Longrightarrow> float_side_ok F (clear_floating_pane_zoom f c)"
  unfolding clear_floating_pane_zoom_def
  by (auto intro!: clear_own_floating_pane_solve_side update_view_side simp: view_ok_def split: option.split)

lemma zoom_pane_in_floating_pane_side:
  "float_side_ok F c \<Longrightarrow> F f = Some P \<Longrightarrow> p \<in> P \<Longrightarrow> float_side_ok F (zoom_pane_in_floating_pane f p c)"
  unfolding zoom_pane_in_floating_pane_def
  by (auto intro!: clear_own_floating_pane_solve_side update_view_side simp: view_ok_def split: option.split)

lemma update_floating_pane_focused_pane_side:
  "float_side_ok F c \<Longrightarrow> F f = Some P \<Longrightarrow> p \<in> P \<Longrightarrow> float_side_ok F (update_floating_pane_focused_pane f p c)"
  unfolding update_floating_pane_focused_pane_def
  by (auto intro!: clear_own_floating_pane_solve_side update_view_side simp: view_ok_def split: option.split)

lemma update_floating_pane_position_side:
  "float_side_ok F c \<Longrightarrow> float_side_ok F (update_floating_pane_position f pos c)"
  unfolding update_floating_pane_position_def
  by (auto intro!: update_view_side simp: view_ok_def split: option.split)

lemma remove_pane_from_floating_pane_focus_history_side:
  "float_side_ok F c \<Longrightarrow> find_floating_pane_input_pane_id c f \<noteq> Some p \<Longrightarrow>
   float_side_ok F (remove_pane_from_floating_pane_focus_history f p c)"
  unfolding remove_pane_from_floating_pane_focus_history_def Let_def
  by (auto intro!: clear_own_floating_pane_solve_side update_view_side
      simp: view_ok_def find_floating_pane_input_pane_id_def get_floating_pane_view_def first_def subset_iff
      split: option.split list.splits)

lemma last_opt_filter_last: "last_opt (filter (\<lambda>g. g \<noteq> f) xs @ [f]) = Some f"
  by (simp add: last_opt_def)

lemma last_opt_filter_other: "last_opt xs \<noteq> Some f \<Longrightarrow> last_opt (filter (\<lambda>g. g \<noteq> f) xs) = last_opt xs"
proof (induction xs rule: rev_induct)
  case (snoc x xs)
  then show ?case by (auto simp: last_opt_def)
qed simp

lemma minimize_shown_side: "float_side_ok F c \<Longrightarrow> float_side_ok F (fst (minimize_shown_floating_panes c))"
  by (auto simp: float_side_ok_def get_fold_map_entry dom_def last_opt_def split: if_splits)

lemma focus_tiled_pane_float_side: "float_side_ok F c \<Longrightarrow> float_side_ok F (fst (focus_tiled_pane t p c))"
  unfolding focus_tiled_pane_fst by (simp add: minimize_shown_side del: minimize_shown_sel)

lemma focus_floating_pane_side: "float_side_ok F c \<Longrightarrow> float_side_ok F (fst (focus_floating_pane f c))"
  unfolding focus_floating_pane_def
  by (auto simp: float_side_ok_def client_frame dom_def last_opt_def split: option.split if_splits)

lemma remove_shown_side:
  "float_side_ok F c \<Longrightarrow>
   distinct (shown_floating_pane_ids (remove_shown_floating_pane f c)) \<and>
   shown_floating_pane_ids (remove_shown_floating_pane f c) = filter (\<lambda>g. g \<noteq> f) (shown_floating_pane_ids c) \<and>
   focused_floating_pane_id (remove_shown_floating_pane f c) = last_opt (filter (\<lambda>g. g \<noteq> f) (shown_floating_pane_ids c))"
  by (auto simp: float_side_ok_def remove_shown_floating_pane_def client_frame Let_def last_opt_filter_other)

lemma remove_shown_views [simp]:
  "floating_pane_view_by_id (remove_shown_floating_pane f c) = floating_pane_view_by_id c"
  by (simp add: remove_shown_floating_pane_def client_frame Let_def)

lemma remove_shown_independent:
  "shown_floating_pane_ids (remove_shown_floating_pane f (c\<lparr>floating_pane_view_by_id := v\<rparr>)) =
     shown_floating_pane_ids (remove_shown_floating_pane f c)"
  "focused_floating_pane_id (remove_shown_floating_pane f (c\<lparr>floating_pane_view_by_id := v\<rparr>)) =
     focused_floating_pane_id (remove_shown_floating_pane f c)"
  by (simp_all add: remove_shown_floating_pane_def client_frame Let_def)

lemma minimize_floating_pane_side: "float_side_ok F c \<Longrightarrow> float_side_ok F (fst (minimize_floating_pane f c))"
  using remove_shown_side [of F c f]
  by (auto simp: minimize_floating_pane_def update_view_def float_side_ok_def dom_def
      remove_shown_independent split: option.split if_splits)

lemma remove_floating_pane_view_side:
  "float_side_ok F c \<Longrightarrow> float_side_ok (F(f := None)) (remove_floating_pane_view f c)"
  using remove_shown_side [of F c f]
  by (auto simp: remove_floating_pane_view_def float_side_ok_def dom_def remove_shown_independent split: if_splits)

lemma add_floating_pane_view_side:
  assumes ok: "float_side_ok F c" and fresh: "F (own_floating_pane_id pane) = None"
    and panes: "list_floating_pane_ids pane \<noteq> []"
  shows "float_side_ok (F(own_floating_pane_id pane \<mapsto> set (list_floating_pane_ids pane))) (add_floating_pane_view pane pos c)"
proof -
  have "get (floating_pane_view_by_id c) (own_floating_pane_id pane) = None"
    using ok fresh unfolding float_side_ok_def by (metis domIff)
  moreover have "take 1 (list_floating_pane_ids pane) = [hd (list_floating_pane_ids pane)]"
    using panes by (cases "list_floating_pane_ids pane") auto
  ultimately show ?thesis
    using ok panes fresh by (auto simp: float_side_ok_def add_floating_pane_view_def view_ok_def)
qed

subsection \<open>A pane that left\<close>

lemma clear_zoom_of_pane_tabs:
  "active_tab_id (clear_zoom_of_pane p c) = active_tab_id c"
  "focus_history_by_tab_id (clear_zoom_of_pane p c) = focus_history_by_tab_id c"
  "zoomed_pane_id_by_tab_id (clear_zoom_of_pane p c) = RBT.filter (\<lambda>_ q. q \<noteq> p) (zoomed_pane_id_by_tab_id c)"
proof -
  have "active_tab_id (fold clear_floating_pane_zoom fs c) = active_tab_id c \<and>
    focus_history_by_tab_id (fold clear_floating_pane_zoom fs c) = focus_history_by_tab_id c \<and>
    zoomed_pane_id_by_tab_id (fold clear_floating_pane_zoom fs c) = zoomed_pane_id_by_tab_id c" for fs c
  proof (induction fs arbitrary: c)
    case (Cons f fs)
    then show ?case by (simp add: clear_floating_pane_zoom_def client_frame split: option.split)
  qed simp
  then show "active_tab_id (clear_zoom_of_pane p c) = active_tab_id c"
    "focus_history_by_tab_id (clear_zoom_of_pane p c) = focus_history_by_tab_id c"
    "zoomed_pane_id_by_tab_id (clear_zoom_of_pane p c) = RBT.filter (\<lambda>_ q. q \<noteq> p) (zoomed_pane_id_by_tab_id c)"
    by (simp_all add: clear_zoom_of_pane_def client_frame Let_def)
qed

lemma clear_zoom_of_pane_side:
  "tab_side_ok T c \<Longrightarrow> tab_side_ok T (clear_zoom_of_pane p c)"
  by (auto simp: tab_side_ok_def clear_zoom_of_pane_tabs split: option.splits if_splits)

definition zoomed_nowhere_on :: "pane_id \<Rightarrow> client \<Rightarrow> bool" where
  "zoomed_nowhere_on p c \<longleftrightarrow>
     (\<forall>t. get (zoomed_pane_id_by_tab_id c) t \<noteq> Some p) \<and>
     (\<forall>f w. get (floating_pane_view_by_id c) f = Some w \<longrightarrow> view_zoomed_pane_id (own_view w) \<noteq> Some p)"

definition not_zoomed_in :: "tab_id \<Rightarrow> pane_id \<Rightarrow> client \<Rightarrow> bool" where
  "not_zoomed_in t p c \<longleftrightarrow> get (zoomed_pane_id_by_tab_id c) t \<noteq> Some p"

definition not_zoomed_floating :: "floating_pane_id \<Rightarrow> pane_id \<Rightarrow> client \<Rightarrow> bool" where
  "not_zoomed_floating f p c \<longleftrightarrow>
     (\<forall>w. get (floating_pane_view_by_id c) f = Some w \<longrightarrow> view_zoomed_pane_id (own_view w) \<noteq> Some p)"

lemma zoomed_nowhere: "zoomed_nowhere_on p c \<longleftrightarrow> (\<forall>t. not_zoomed_in t p c) \<and> (\<forall>f. not_zoomed_floating f p c)"
  by (simp add: zoomed_nowhere_on_def not_zoomed_in_def not_zoomed_floating_def)

lemma fold_clear_floating_pane_zoom:
  "get (floating_pane_view_by_id (fold clear_floating_pane_zoom fs c)) f = Some w \<Longrightarrow>
   \<exists>v. get (floating_pane_view_by_id c) f = Some v \<and> view_focus_history (own_view w) = view_focus_history (own_view v) \<and>
     view_zoomed_pane_id (own_view w) = (if f \<in> set fs then None else view_zoomed_pane_id (own_view v))"
proof (induction fs arbitrary: c)
  case (Cons g fs)
  from Cons.IH [of "clear_floating_pane_zoom g c"] Cons.prems
  obtain v where v: "get (floating_pane_view_by_id (clear_floating_pane_zoom g c)) f = Some v"
    "view_focus_history (own_view w) = view_focus_history (own_view v)"
    "view_zoomed_pane_id (own_view w) = (if f \<in> set fs then None else view_zoomed_pane_id (own_view v))" by auto
  from v(1) have "\<exists>u. get (floating_pane_view_by_id c) f = Some u \<and>
      view_focus_history (own_view v) = view_focus_history (own_view u) \<and>
      view_zoomed_pane_id (own_view v) = (if f = g then None else view_zoomed_pane_id (own_view u))"
    by (cases "f = g") (auto simp: clear_floating_pane_zoom_def client_frame split: option.splits if_splits)
  with v show ?case by auto
qed auto

lemma clear_zoom_of_pane_views:
  assumes "get (floating_pane_view_by_id (clear_zoom_of_pane p c)) f = Some w"
  shows "\<exists>v. get (floating_pane_view_by_id c) f = Some v \<and> view_focus_history (own_view w) = view_focus_history (own_view v)"
    and "view_zoomed_pane_id (own_view w) \<noteq> Some p"
proof -
  define c' where "c' = clear_own_active_tab_solve
       (mark_view_changed (map_size (RBT.filter (\<lambda>_ q. q \<noteq> p) (zoomed_pane_id_by_tab_id c)) \<noteq>
          map_size (zoomed_pane_id_by_tab_id c))
          (c\<lparr>zoomed_pane_id_by_tab_id := RBT.filter (\<lambda>_ q. q \<noteq> p) (zoomed_pane_id_by_tab_id c)\<rparr>))"
  have views: "floating_pane_view_by_id c' = floating_pane_view_by_id c" by (simp add: c'_def client_frame)
  define fs where "fs = map fst (filter (\<lambda>(_, v). view_zoomed_pane_id (own_view v) = Some p)
     (RBT.entries (floating_pane_view_by_id c')))"
  have "clear_zoom_of_pane p c = fold clear_floating_pane_zoom fs c'"
    by (simp add: clear_zoom_of_pane_def c'_def fs_def Let_def)
  with assms fold_clear_floating_pane_zoom [of fs c' f w] views
  obtain v where v: "get (floating_pane_view_by_id c) f = Some v"
    "view_focus_history (own_view w) = view_focus_history (own_view v)"
    "view_zoomed_pane_id (own_view w) = (if f \<in> set fs then None else view_zoomed_pane_id (own_view v))" by auto
  then show "\<exists>v. get (floating_pane_view_by_id c) f = Some v \<and> view_focus_history (own_view w) = view_focus_history (own_view v)"
    by blast
  have "f \<in> set fs" if "view_zoomed_pane_id (own_view v) = Some p"
    using that v(1) views by (force simp: fs_def RBT.lookup_in_tree)
  with v(3) show "view_zoomed_pane_id (own_view w) \<noteq> Some p" by auto
qed

lemma clear_zoom_of_pane_nowhere: "zoomed_nowhere_on p (clear_zoom_of_pane p c)"
  by (auto simp: zoomed_nowhere_on_def clear_zoom_of_pane_tabs dest: clear_zoom_of_pane_views(2) split: option.splits if_splits)

lemma clear_zoom_of_pane_input:
  "find_floating_pane_input_pane_id (clear_zoom_of_pane p c) f = Some q \<Longrightarrow> find_floating_pane_input_pane_id c f = Some q"
  by (auto simp: find_floating_pane_input_pane_id_def get_floating_pane_view_def bind_eq_Some_conv
      dest!: clear_zoom_of_pane_views(1))

lemma clear_zoom_of_pane_float_side: "float_side_ok F c \<Longrightarrow> float_side_ok F (clear_zoom_of_pane p c)"
proof -
  have "float_side_ok F (fold clear_floating_pane_zoom fs c)" if "float_side_ok F c" for fs c
    using that by (induction fs arbitrary: c) (simp_all add: clear_floating_pane_zoom_side)
  moreover assume "float_side_ok F c"
  then have "float_side_ok F (clear_own_active_tab_solve
       (mark_view_changed (map_size (RBT.filter (\<lambda>_ q. q \<noteq> p) (zoomed_pane_id_by_tab_id c)) \<noteq>
          map_size (zoomed_pane_id_by_tab_id c))
          (c\<lparr>zoomed_pane_id_by_tab_id := RBT.filter (\<lambda>_ q. q \<noteq> p) (zoomed_pane_id_by_tab_id c)\<rparr>)))"
    by (simp add: float_side_ok_def client_frame)
  ultimately show ?thesis by (simp add: clear_zoom_of_pane_def Let_def)
qed

text \<open>Once nothing refers to the pane, the client is well-formed without it.\<close>

lemma tab_side_without:
  assumes ok: "tab_side_ok T c" and P: "T t = Some P" and zoom: "not_zoomed_in t p c"
  shows "tab_side_ok (T(t \<mapsto> P - {p})) (remove_pane_from_focus_history t p c)"
proof -
  let ?c = "remove_pane_from_focus_history t p c"
  have *: "active_tab_id ?c = active_tab_id c" "zoomed_pane_id_by_tab_id ?c = zoomed_pane_id_by_tab_id c"
    by (simp_all add: remove_pane_from_focus_history_def client_frame Let_def split: option.split)
  have "h \<noteq> [] \<and> distinct h \<and> (\<exists>Q. (T(t \<mapsto> P - {p})) t' = Some Q \<and> set h \<subseteq> Q)"
    if "get (focus_history_by_tab_id ?c) t' = Some h" for t' h
  proof (cases "t' = t")
    case True
    from that obtain h0 where h0: "get (focus_history_by_tab_id c) t = Some h0" "h = filter (\<lambda>q. q \<noteq> p) h0" "h \<noteq> []"
      by (auto simp: True remove_pane_from_focus_history_def client_frame Let_def split: option.splits if_splits)
    with ok P have "distinct h0 \<and> set h0 \<subseteq> P" by (force simp: tab_side_ok_def)
    with h0 True show ?thesis by auto
  next
    case False
    with that have "get (focus_history_by_tab_id c) t' = Some h"
      by (auto simp: remove_pane_from_focus_history_def client_frame Let_def split: option.splits if_splits)
    with ok False show ?thesis by (auto simp: tab_side_ok_def)
  qed
  moreover have "\<exists>Q. (T(t \<mapsto> P - {p})) t' = Some Q \<and> q \<in> Q" if "get (zoomed_pane_id_by_tab_id c) t' = Some q" for t' q
    using that ok P zoom by (force simp: tab_side_ok_def not_zoomed_in_def)
  moreover have "(T(t \<mapsto> P - {p})) (active_tab_id c) \<noteq> None" using ok P by (auto simp: tab_side_ok_def)
  ultimately show ?thesis by (simp add: tab_side_ok_def *)
qed

lemma float_side_without:
  assumes ok: "float_side_ok F c" and P: "F f = Some P" and zoom: "not_zoomed_floating f p c"
    and input: "find_floating_pane_input_pane_id c f \<noteq> Some p"
  shows "float_side_ok (F(f \<mapsto> P - {p})) (remove_pane_from_floating_pane_focus_history f p c)"
proof -
  let ?c = "remove_pane_from_floating_pane_focus_history f p c"
  have *: "shown_floating_pane_ids ?c = shown_floating_pane_ids c" "focused_floating_pane_id ?c = focused_floating_pane_id c"
    by (simp_all add: remove_pane_from_floating_pane_focus_history_def client_frame Let_def split: option.split)
  have d: "dom (get (floating_pane_view_by_id ?c)) = dom (get (floating_pane_view_by_id c))"
    by (auto simp: remove_pane_from_floating_pane_focus_history_def client_frame Let_def dom_def split: option.split)
  have "view_ok (the ((F(f \<mapsto> P - {p})) f')) (own_view w) \<and> (is_minimized (own_view w) \<longleftrightarrow> f' \<notin> set (shown_floating_pane_ids c))"
    if "get (floating_pane_view_by_id ?c) f' = Some w" for f' w
  proof (cases "f' = f")
    case True
    from that True obtain v where v: "get (floating_pane_view_by_id c) f = Some v"
      "own_view w = (own_view v)\<lparr>view_focus_history := filter (\<lambda>q. q \<noteq> p) (view_focus_history (own_view v))\<rparr>"
      by (auto simp: remove_pane_from_floating_pane_focus_history_def client_frame Let_def split: option.splits if_splits)
    from float_side_view [OF ok v(1)] P have "view_ok P (own_view v)" by simp
    moreover from ok v(1) have "is_minimized (own_view v) \<longleftrightarrow> f \<notin> set (shown_floating_pane_ids c)"
      by (auto simp: float_side_ok_def)
    moreover have "view_zoomed_pane_id (own_view v) \<noteq> Some p" using zoom v(1) by (auto simp: not_zoomed_floating_def)
    ultimately show ?thesis
      using v input True
      by (cases "view_focus_history (own_view v)")
         (auto simp: view_ok_def find_floating_pane_input_pane_id_def get_floating_pane_view_def first_def)
  next
    case False
    with that have "get (floating_pane_view_by_id c) f' = Some w"
      by (auto simp: remove_pane_from_floating_pane_focus_history_def client_frame Let_def split: option.splits if_splits)
    with ok False show ?thesis by (auto simp: float_side_ok_def)
  qed
  moreover have "dom (F(f \<mapsto> P - {p})) = dom F" using P by auto
  ultimately show ?thesis using ok by (simp add: float_side_ok_def * d)
qed

text \<open>A pane that no client refers to yet may join; a tab that no client refers to may go.\<close>

lemma tab_side_mono:
  assumes ok: "tab_side_ok T c" and le: "\<And>t P. T t = Some P \<Longrightarrow> \<exists>P'. T' t = Some P' \<and> P \<subseteq> P'"
    and "T = Map.empty \<Longrightarrow> T' = Map.empty \<or> T' (active_tab_id c) \<noteq> None"
  shows "tab_side_ok T' c"
proof -
  have "T' = Map.empty \<or> T' (active_tab_id c) \<noteq> None"
    using tab_sideD(3) [OF ok] le assms(3) by (metis option.exhaust option.distinct(1))
  moreover have "h \<noteq> [] \<and> distinct h \<and> (\<exists>P. T' t = Some P \<and> set h \<subseteq> P)"
    if "get (focus_history_by_tab_id c) t = Some h" for t h
    using tab_sideD(1) [OF ok that] le by (meson subset_trans)
  moreover have "\<exists>P. T' t = Some P \<and> p \<in> P" if "get (zoomed_pane_id_by_tab_id c) t = Some p" for t p
    using tab_sideD(2) [OF ok that] le by blast
  ultimately show ?thesis by (simp add: tab_side_ok_def)
qed

lemma float_side_mono:
  assumes ok: "float_side_ok F c" and "dom F' = dom F" and le: "\<And>f P. F f = Some P \<Longrightarrow> P \<subseteq> the (F' f)"
  shows "float_side_ok F' c"
proof -
  have "view_ok (the (F' f)) (own_view w)" if "get (floating_pane_view_by_id c) f = Some w" for f w
    using float_side_view [OF ok that] le unfolding view_ok_def by blast
  with assms(1,2) show ?thesis by (simp add: float_side_ok_def)
qed

lemma tab_side_drop_tab:
  assumes "tab_side_ok T c" "active_tab_id c \<noteq> t \<or> T(t := None) = Map.empty"
    and "get (focus_history_by_tab_id c) t = None" "get (zoomed_pane_id_by_tab_id c) t = None"
  shows "tab_side_ok (T(t := None)) c"
  using assms unfolding tab_side_ok_def by (auto simp: fun_upd_def split: if_splits)

end
