(* ===== verification/Session_Invariant.thy ===== *)
theory Session_Invariant
  imports Cascade Client_Invariant
begin

text \<open>
  The invariant of a session and the focus operations that keep it. A session is well-formed when its
  stores agree (tabs, floating panes, registry) and every client is well-formed against them.
\<close>

section \<open>What a solve draws\<close>

lemma solve_panes: "map fst (pane_rects (solve_layout_with_sizing t r z)) = list_leaf_pane_ids t"
  by (simp add: solve_layout_with_sizing_sel solved_leaves)

lemma fold_fullscreen_panes:
  "map fst (state_pane_rects (fold (solve_fullscreen_pane q b r) ps st)) = map fst (state_pane_rects st) @ ps"
  by (induction ps arbitrary: st) (simp_all add: solve_fullscreen_pane_def push_defs)

lemma mode_solve_panes: "map fst (pane_rects (solve_layout_with_mode t mode r z)) = list_leaf_pane_ids t"
  by (cases mode) (simp_all add: solve_layout_with_mode_def solve_panes into_layout_solve_def fold_fullscreen_panes Let_def)

lemma client_solve_panes:
  "build_client_solve area mode h z = Some solve \<Longrightarrow> map fst (pane_rects solve) = list_leaf_pane_ids (area_layout area)"
  by (auto simp: build_client_solve_def build_zoomed_solve_def build_shown_layout_tree_def mode_solve_panes solve_panes
      shown_leaves split: layout_mode.splits if_splits)

lemma candidates_subset:
  "set (layout_order_pane_ids (compute_focus_candidates r rects headers)) \<subseteq> set (map fst rects)"
  by (auto simp: compute_focus_candidates_def Let_def)

lemma repair_focus_eligible: "repair_focus h registry candidates = Focused p \<Longrightarrow> is_eligible_pane registry candidates p"
  by (auto simp: repair_focus_def find_Some_iff split: option.splits)

section \<open>The stores\<close>

definition float_at :: "session \<Rightarrow> floating_pane_id \<Rightarrow> floating_pane option" where
  "float_at s f = map_option snd (find_floating_pane_by_id (floats s) f)"

definition tab_panes :: "session \<Rightarrow> tab_id \<rightharpoonup> pane_id set" where
  "tab_panes s t = map_option (\<lambda>tab. set (list_leaf_pane_ids (tab_layout tab))) (get (tabs s) t)"

definition floating_panes :: "session \<Rightarrow> floating_pane_id \<rightharpoonup> pane_id set" where
  "floating_panes s f = map_option (\<lambda>pane. set (list_floating_pane_ids pane)) (float_at s f)"

text \<open>The areas, each with the sizing \<open>Z\<close> it was last solved with.\<close>

type_synonym sizings = "layout_area_id \<Rightarrow> pane_sizing"

definition tab_area :: "sizings \<Rightarrow> session \<Rightarrow> tab_id solved_areas" where
  "tab_area Z s t = map_option (\<lambda>tab. (tab_layout_area tab, Z (TabArea t))) (get (tabs s) t)"

definition floating_area :: "sizings \<Rightarrow> session \<Rightarrow> floating_pane_id solved_areas" where
  "floating_area Z s f = map_option (\<lambda>pane. (floating_layout_area pane, Z (FloatingPaneArea f))) (float_at s f)"

text \<open>Every stored solve is the solve of its tree.\<close>

definition solved_with :: "pane_sizing \<Rightarrow> layout_area \<Rightarrow> bool" where
  "solved_with z area \<longleftrightarrow> area_layout_solve area = compute_layout_solve area z"

definition areas_ok :: "sizings \<Rightarrow> session \<Rightarrow> bool" where
  "areas_ok Z s \<longleftrightarrow>
     (\<forall>t tab. get (tabs s) t = Some tab \<longrightarrow> solved_with (Z (TabArea t)) (tab_layout_area tab)) \<and>
     (\<forall>f pane. float_at s f = Some pane \<longrightarrow> solved_with (Z (FloatingPaneArea f)) (floating_layout_area pane))"

text \<open>
  The clients are well-formed against panes \<open>T\<close> and \<open>F\<close>, which cover the panes of the session: while a
  pane is on its way out they still hold it.
\<close>

definition covers :: "panes_of_tabs \<Rightarrow> panes_of_floats \<Rightarrow> session \<Rightarrow> bool" where
  "covers T F s \<longleftrightarrow>
     (\<forall>t P. tab_panes s t = Some P \<longrightarrow> (\<exists>P'. T t = Some P' \<and> P \<subseteq> P')) \<and>
     (\<forall>f P. floating_panes s f = Some P \<longrightarrow> (\<exists>P'. F f = Some P' \<and> P \<subseteq> P'))"

definition client_ok :: "sizings \<Rightarrow> panes_of_tabs \<Rightarrow> panes_of_floats \<Rightarrow> session \<Rightarrow> client \<Rightarrow> bool" where
  "client_ok Z T F s c \<longleftrightarrow>
     tab_side_ok T c \<and> float_side_ok F c \<and> client_session_id c = own_session_id s \<and>
     kept_ok (tab_area Z s) (floating_area Z s) c"

definition clients_ok :: "sizings \<Rightarrow> panes_of_tabs \<Rightarrow> panes_of_floats \<Rightarrow> session \<Rightarrow> bool" where
  "clients_ok Z T F s \<longleftrightarrow>
     (\<forall>i c. get_client_by_id (clients s) i = Some c \<longrightarrow> own_client_id c = i \<and> client_ok Z T F s c)"

lemma covers_refl: "covers (tab_panes s) (floating_panes s) s"
  by (auto simp: covers_def)

lemma clients_okD: "clients_ok Z T F s \<Longrightarrow> get_client_by_id (clients s) i = Some c \<Longrightarrow> own_client_id c = i \<and> client_ok Z T F s c"
  by (simp add: clients_ok_def)

lemma find_enumerate_snd: "map_option snd (find (\<lambda>(_, x). P x) (enumerate n xs)) = find P xs"
  by (induction xs arbitrary: n) auto

lemma float_at_find: "float_at s f = find (\<lambda>pane. own_floating_pane_id pane = f) (floats s)"
  by (simp add: float_at_def find_floating_pane_by_id_def find_enumerate_snd)

lemma float_at_Some: "float_at s f = Some pane \<longleftrightarrow> (\<exists>n. find_floating_pane_by_id (floats s) f = Some (n, pane))"
  by (auto simp: float_at_def)

lemma float_at_None: "float_at s f = None \<longleftrightarrow> find_floating_pane_by_id (floats s) f = None"
  by (simp add: float_at_def)

lemma float_at_id: "float_at s f = Some pane \<Longrightarrow> own_floating_pane_id pane = f \<and> pane \<in> set (floats s)"
  by (auto simp: float_at_find find_Some_iff)

text \<open>What a client draws of a tab or of a floating pane are its panes.\<close>

lemma stored_solve_panes: "solved_with z area \<Longrightarrow> map fst (pane_rects (area_layout_solve area)) = list_leaf_pane_ids (area_layout area)"
  by (simp add: solved_with_def compute_layout_solve_def solve_panes)

lemma client_tab_solve_panes:
  assumes areas: "areas_ok Y s" and ok: "client_ok Z T F s c" and solve: "compute_client_solve s c t = Some solve"
  shows "tab_panes s t = Some (set (map fst (pane_rects solve)))"
proof -
  from solve obtain tab where tab: "get (tabs s) t = Some tab" by (auto simp: compute_client_solve_def)
  have kept: "\<exists>mode h z. kept = build_client_solve (tab_layout_area tab) mode h z"
    if "t = active_tab_id c" "own_active_tab_solve c = Some kept" for kept
    using ok tab that by (auto simp: client_ok_def kept_ok_def tab_solve_ok_def tab_area_def)
  from solve tab have "solve = tab_solve tab \<or> (\<exists>mode h z. build_client_solve (tab_layout_area tab) mode h z = Some solve)"
    by (auto simp: compute_client_solve_def build_own_client_solve_def get_own_active_tab_solve_def
        split: option.splits if_splits) (metis kept)
  then have "map fst (pane_rects solve) = list_leaf_pane_ids (tab_layout tab)"
    using areas tab by (auto simp: client_solve_panes areas_ok_def dest: stored_solve_panes)
  with tab show ?thesis by (simp add: tab_panes_def)
qed

lemma client_floating_solve_panes:
  assumes areas: "areas_ok Y s" and ok: "client_ok Z T F s c" and solve: "compute_client_floating_pane_solve s c f = Some solve"
  shows "floating_panes s f = Some (set (map fst (pane_rects solve)))"
proof -
  from solve obtain pane v where pane: "float_at s f = Some pane"
    and v: "get (floating_pane_view_by_id c) f = Some v"
    by (auto simp: compute_client_floating_pane_solve_def float_at_Some get_floating_pane_view_def bind_eq_Some_conv)
  from ok v have "view_solve_ok (floating_area Z s f) v" by (simp add: client_ok_def kept_ok_def)
  then have kept: "\<exists>mode h z. kept = build_client_solve (floating_layout_area pane) mode h z"
    if "own_solve v = Some kept" for kept
    using pane that by (auto simp: view_solve_ok_def floating_area_def)
  from solve pane v have "solve = floating_solve pane \<or>
      (\<exists>mode h z. build_client_solve (floating_layout_area pane) mode h z = Some solve)"
    by (auto simp: compute_client_floating_pane_solve_def build_own_floating_solve_def get_own_floating_pane_solve_def
        float_at_Some get_floating_pane_view_def split: option.splits) (metis kept)
  then have "map fst (pane_rects solve) = list_floating_pane_ids pane"
    using stored_solve_panes [of "Y (FloatingPaneArea f)" "floating_layout_area pane"] areas pane
    by (auto simp: client_solve_panes areas_ok_def list_floating_pane_ids_def)
  with pane show ?thesis by (simp add: floating_panes_def)
qed

section \<open>Operations that move focus only\<close>

text \<open>The focus history of a tab holds different panes, and not too many.\<close>

definition mru_ok :: "tab \<Rightarrow> bool" where
  "mru_ok tab \<longleftrightarrow> distinct (focus_mru tab) \<and> length (focus_mru tab) \<le> MAX_TAB_FOCUS_MRU_ENTRY_COUNT"

lemma mru_ok_record: "mru_ok tab \<Longrightarrow> mru_ok (record_focus_mru p tab)"
  by (auto simp: mru_ok_def record_focus_mru_def intro!: distinct_take)

lemma mru_ok_remove: "mru_ok tab \<Longrightarrow> mru_ok (remove_focus_mru p tab)"
  by (auto simp: mru_ok_def remove_focus_mru_def intro: le_trans [OF length_filter_le])

text \<open>
  A focus operation changes clients and the focus history of tabs. The rest of the session, which the
  clients are checked against, stays.
\<close>

definition same_layout :: "session \<Rightarrow> session \<Rightarrow> bool" where
  "same_layout s s' \<longleftrightarrow>
     own_session_id s' = own_session_id s \<and> floats s' = floats s \<and> panes s' = panes s \<and>
     session_pane_sizing s' = session_pane_sizing s \<and>
     (\<forall>t. map_option (\<lambda>tab. tab\<lparr>focus_mru := []\<rparr>) (get (tabs s') t) = map_option (\<lambda>tab. tab\<lparr>focus_mru := []\<rparr>) (get (tabs s) t)) \<and>
     (\<forall>t tab'. get (tabs s') t = Some tab' \<longrightarrow> (\<exists>tab. get (tabs s) t = Some tab \<and> (mru_ok tab \<longrightarrow> mru_ok tab')))"

lemma same_layout_refl [simp]: "same_layout s s"
  by (simp add: same_layout_def)

lemma same_layout_trans: "same_layout s s' \<Longrightarrow> same_layout s' s'' \<Longrightarrow> same_layout s s''"
  unfolding same_layout_def by (metis (no_types, lifting))

lemma map_option_forget:
  assumes "map_option (\<lambda>tab. tab\<lparr>focus_mru := []\<rparr>) x = map_option (\<lambda>tab. tab\<lparr>focus_mru := []\<rparr>) y"
    and "\<And>tab. g (tab\<lparr>focus_mru := []\<rparr>) = g tab"
  shows "map_option g x = map_option g y"
proof -
  have "map_option g x = map_option g (map_option (\<lambda>tab. tab\<lparr>focus_mru := []\<rparr>) x)" for x
    by (simp add: option.map_comp comp_def assms(2))
  with assms(1) show ?thesis by metis
qed

lemma same_layout_stores:
  assumes "same_layout s s'"
  shows "tab_area Z s' = tab_area Z s" "floating_area Z s' = floating_area Z s" "tab_panes s' = tab_panes s"
    "floating_panes s' = floating_panes s" "session_pane_sizing s' = session_pane_sizing s"
    "own_session_id s' = own_session_id s" "panes s' = panes s" "floats s' = floats s"
proof -
  have t: "map_option g (get (tabs s') t) = map_option g (get (tabs s) t)"
    if "\<And>tab. g (tab\<lparr>focus_mru := []\<rparr>) = g tab" for g :: "tab \<Rightarrow> 'x" and t
    by (rule map_option_forget) (use assms that in \<open>simp_all add: same_layout_def\<close>)
  show "tab_area Z s' = tab_area Z s" "tab_panes s' = tab_panes s"
    unfolding tab_area_def tab_panes_def fun_eq_iff by (intro allI t; simp)+
  show "floating_area Z s' = floating_area Z s" "floating_panes s' = floating_panes s"
    "session_pane_sizing s' = session_pane_sizing s" "own_session_id s' = own_session_id s" "panes s' = panes s" "floats s' = floats s"
    using assms by (simp_all add: same_layout_def fun_eq_iff floating_area_def floating_panes_def float_at_def)
qed

lemma same_layout_keys: "same_layout s s' \<Longrightarrow> has_key (tabs s') t = has_key (tabs s) t"
  by (metis map_option_is_None same_layout_def)

lemma same_layout_tab: "same_layout s s' \<Longrightarrow> get (tabs s') t = Some tab' \<Longrightarrow>
    \<exists>tab. get (tabs s) t = Some tab \<and> tab'\<lparr>focus_mru := []\<rparr> = tab\<lparr>focus_mru := []\<rparr> \<and> (mru_ok tab \<longrightarrow> mru_ok tab')"
  unfolding same_layout_def by (metis option.inject option.simps(9))

lemma same_layout_area:
  assumes "same_layout s s'" "get (tabs s') t = Some tab'"
  shows "\<exists>tab. get (tabs s) t = Some tab \<and> tab_layout_area tab' = tab_layout_area tab"
proof -
  from same_layout_tab [OF assms] obtain tab where tab: "get (tabs s) t = Some tab"
    and eq: "tab'\<lparr>focus_mru := []\<rparr> = tab\<lparr>focus_mru := []\<rparr>" by blast
  from arg_cong [OF eq, of tab_layout_area] tab show ?thesis by simp
qed

lemma same_layout_areas_ok: "same_layout s s' \<Longrightarrow> areas_ok Z s \<Longrightarrow> areas_ok Z s'"
proof -
  assume s: "same_layout s s'" and ok: "areas_ok Z s"
  have "float_at s' = float_at s" using s by (simp add: same_layout_def float_at_def fun_eq_iff)
  with ok show ?thesis using same_layout_area [OF s] by (fastforce simp: areas_ok_def)
qed

lemma same_layout_ok:
  "same_layout s s' \<Longrightarrow> covers T F s' = covers T F s"
  "same_layout s s' \<Longrightarrow> client_ok Z T F s' c = client_ok Z T F s c"
  by (simp_all add: covers_def client_ok_def same_layout_stores)

locale focus_operation =
  fixes op :: "session \<Rightarrow> session \<times> event list"
  assumes keeps_layout: "same_layout s (fst (op s))"
    and keeps_clients: "areas_ok Y s \<Longrightarrow> covers T F s \<Longrightarrow> clients_ok Z T F s \<Longrightarrow> clients_ok Z T F (fst (op s))"

lemma focus_nothing: "focus_operation (\<lambda>s. (s, es s))"
  by unfold_locales simp_all

lemma focus_andThen: "focus_operation g \<Longrightarrow> focus_operation h \<Longrightarrow> focus_operation (andThen g h)"
  unfolding focus_operation_def andThen_def
  by (auto split: prod.split) (metis fst_conv same_layout_trans, metis fst_conv same_layout_ok(1) same_layout_areas_ok)

lemma focus_run_each: "(\<And>x. focus_operation (g x)) \<Longrightarrow> focus_operation (run_each g xs)"
proof (induction xs)
  case Nil
  then show ?case using focus_nothing [of "\<lambda>_. []"] by (simp add: fun_eq_iff [where f = "run_each g []", THEN iffD2] focus_operation_def)
next
  case (Cons x xs)
  have "run_each g (x # xs) = andThen (g x) (run_each g xs)" by (rule ext) (simp add: andThen_def)
  with Cons show ?case by (simp add: focus_andThen)
qed

text \<open>The argument of an operation may be read off the session.\<close>

lemma focus_read: "(\<And>x. focus_operation (g x)) \<Longrightarrow> focus_operation (\<lambda>s. g (k s) s)"
  by (simp add: focus_operation_def)

lemma focus_run_read: "(\<And>x. focus_operation (g x)) \<Longrightarrow> focus_operation (\<lambda>s. run_each g (items s) s)"
  by (rule focus_read [OF focus_run_each])

subsection \<open>Changing one client\<close>

lemma same_layout_clients [simp]: "same_layout s (s\<lparr>clients := r\<rparr>)"
  by (simp add: same_layout_def)

lemma same_layout_flags [simp]: "same_layout s (s\<lparr>view_changes := v\<rparr>)"
  by (simp add: same_layout_def)

lemma same_layout_mru [simp]: "same_layout s (update_tab t (record_focus_mru p) s)"
  by (auto simp: same_layout_def update_tab_def option.map_comp comp_def record_focus_mru_def [abs_def] mru_ok_record [unfolded record_focus_mru_def])

lemma same_layout_remove_mru [simp]: "same_layout s (update_tab t (remove_focus_mru p) s)"
  by (auto simp: same_layout_def update_tab_def option.map_comp comp_def remove_focus_mru_def [abs_def] mru_ok_remove [unfolded remove_focus_mru_def])

lemma clients_update_tab [simp]: "clients (update_tab t g s) = clients s"
  by (simp add: update_tab_def)

lemma clients_ok_layout: "clients_ok Z T F s \<Longrightarrow> same_layout s s' \<Longrightarrow> clients s' = clients s \<Longrightarrow> clients_ok Z T F s'"
  by (simp add: clients_ok_def same_layout_ok(2))

lemma client_ok_clients [simp]: "client_ok Z T F (s\<lparr>clients := r\<rparr>) c = client_ok Z T F s c"
  by (rule same_layout_ok) simp

lemma clients_ok_update:
  assumes "clients_ok Z T F s"
    and "\<And>c. get_client_by_id (clients s) i = Some c \<Longrightarrow> client_ok Z T F s c \<Longrightarrow>
           own_client_id (g c) = own_client_id c \<and> client_ok Z T F s (g c)"
  shows "clients_ok Z T F (s\<lparr>clients := update_client i g (clients s)\<rparr>)"
  using assms by (auto simp: clients_ok_def update_client_def split: if_splits)

lemma clients_ok_update_all:
  assumes "clients_ok Z T F s"
    and "\<And>i c. get_client_by_id (clients s) i = Some c \<Longrightarrow> client_ok Z T F s c \<Longrightarrow>
           own_client_id (g c) = own_client_id c \<and> client_ok Z T F s (g c)"
  shows "clients_ok Z T F (s\<lparr>clients := update_all_clients g (clients s)\<rparr>)"
  using assms by (auto simp: clients_ok_def update_all_clients_def)

text \<open>A method that keeps both sides well-formed keeps the client.\<close>

context client_method
begin

lemma keeps_client:
  "client_ok Z T F s c \<Longrightarrow> tab_side_ok T (g c) \<Longrightarrow> float_side_ok F (g c) \<Longrightarrow>
   own_client_id (g c) = own_client_id c \<and> client_ok Z T F s (g c)"
  by (simp add: client_ok_def keeps_id keeps_session keeps_solves)

lemma keeps_clients:
  assumes "clients_ok Z T F s"
    and "\<And>c. get_client_by_id (clients s) i = Some c \<Longrightarrow> tab_side_ok T c \<Longrightarrow> tab_side_ok T (g c)"
    and "\<And>c. get_client_by_id (clients s) i = Some c \<Longrightarrow> float_side_ok F c \<Longrightarrow> float_side_ok F (g c)"
  shows "clients_ok Z T F (s\<lparr>clients := update_client i g (clients s)\<rparr>)"
  by (rule clients_ok_update [OF assms(1)]) (rule keeps_client; simp add: assms(2,3) client_ok_def)

lemma keeps_all_clients:
  assumes "clients_ok Z T F s"
    and "\<And>i c. get_client_by_id (clients s) i = Some c \<Longrightarrow> tab_side_ok T c \<Longrightarrow> tab_side_ok T (g c)"
    and "\<And>i c. get_client_by_id (clients s) i = Some c \<Longrightarrow> float_side_ok F c \<Longrightarrow> float_side_ok F (g c)"
  shows "clients_ok Z T F (s\<lparr>clients := update_all_clients g (clients s)\<rparr>)"
  by (rule clients_ok_update_all [OF assms(1)]) (rule keeps_client; simp add: assms(2,3) client_ok_def)

end

subsection \<open>Focus in tabs\<close>

lemma covered_pane: "covers T F s \<Longrightarrow> tab_panes s t = Some P \<Longrightarrow> p \<in> P \<Longrightarrow> \<exists>P'. T t = Some P' \<and> p \<in> P'"
  unfolding covers_def by blast

lemma covered_floating_pane: "covers T F s \<Longrightarrow> floating_panes s f = Some P \<Longrightarrow> p \<in> P \<Longrightarrow> \<exists>P'. F f = Some P' \<and> p \<in> P'"
  unfolding covers_def by blast

lemma update_client_tab_focus_layout: "same_layout s (fst (update_client_tab_focus i t p s))"
  using same_layout_trans [OF same_layout_clients same_layout_mru]
  by (simp add: update_client_tab_focus_def Let_def split: option.split)

lemma update_client_tab_focus_clients:
  assumes "covers T F s" "clients_ok Z T F s" "tab_panes s t = Some P" "p \<in> P"
  shows "clients_ok Z T F (fst (update_client_tab_focus i t p s))"
proof -
  have "clients_ok Z T F (s\<lparr>clients := update_client i (\<lambda>c. fst (update_focused_pane t p c)) (clients s)\<rparr>)"
    using covered_pane [OF assms(1,3,4)] assms(2)
    by (auto intro!: update_focused_pane.keeps_clients intro: update_focused_pane_side)
  then show ?thesis
    by (auto simp: update_client_tab_focus_def Let_def intro: clients_ok_layout split: option.split)
qed

lemma find_landing_pane_panes:
  "find_landing_pane s c t = Some p \<Longrightarrow> \<exists>P. tab_panes s t = Some P \<and> p \<in> P"
  by (auto simp: find_landing_pane_def bind_eq_Some_conv Let_def find_Some_iff tab_panes_def)

interpretation land_focus: focus_operation "land_focus i t" for i t
proof
  show "same_layout s (fst (land_focus i t s))" for s
    by (auto simp: land_focus_def update_client_tab_focus_layout split: option.split)
  show "clients_ok Z T F (fst (land_focus i t s))" if "covers T F s" "clients_ok Z T F s" for Z T F s
    using that by (auto simp: land_focus_def update_client_tab_focus_clients dest: find_landing_pane_panes split: option.split)
qed

text \<open>What a repair does to the session: nothing, a focus on a pane of the tab, or no focus at all.\<close>

lemma repair_client_focus_cases:
  assumes areas: "areas_ok Y s" and ok: "clients_ok Z T F s"
  obtains "fst (repair_client_focus t (i, r) s) = s"
  | P p where "tab_panes s t = Some P" "p \<in> P" "fst (repair_client_focus t (i, r) s) = fst (update_client_tab_focus i t p s)"
  | "fst (repair_client_focus t (i, r) s) = s\<lparr>clients := update_client i (clear_focus_history t) (clients s)\<rparr>"
proof (cases "get_client_by_id (clients s) i")
  case None
  with that(1) show ?thesis by (simp add: repair_client_focus_def)
next
  case c: (Some c)
  show ?thesis
  proof (cases "compute_client_solve s c t")
    case None
    with c that(1) show ?thesis by (simp add: repair_client_focus_def)
  next
    case (Some solve)
    let ?verdict = "repair_focus (list_focus_history c t) (panes s)
       (compute_focus_candidates r (pane_rects solve) (stack_headers solve))"
    define inheriting where "inheriting = (case ?verdict of Focused p \<Rightarrow> Some p | TerminalTooSmall \<Rightarrow> find_landing_pane s c t)"
    have eq: "fst (repair_client_focus t (i, r) s) = (case inheriting of
        Some p \<Rightarrow> fst (update_client_tab_focus i t p s)
      | None \<Rightarrow> s\<lparr>clients := update_client i (clear_focus_history t) (clients s)\<rparr>)"
      by (simp add: repair_client_focus_def c Some Let_def inheriting_def split: option.split)
    have "\<exists>P. tab_panes s t = Some P \<and> p \<in> P" if "inheriting = Some p" for p
    proof (cases ?verdict)
      case (Focused q)
      with that have "?verdict = Focused p" by (simp add: inheriting_def)
      from client_tab_solve_panes [OF areas _ Some] clients_okD [OF ok c] repair_focus_eligible [OF this]
        candidates_subset [of r "pane_rects solve" "stack_headers solve"]
      show ?thesis by (auto simp: is_eligible_pane_def)
    next
      case TerminalTooSmall
      with that show ?thesis by (auto simp: inheriting_def intro: find_landing_pane_panes)
    qed
    with that(2,3) eq show ?thesis by (cases inheriting) auto
  qed
qed

interpretation repair_client_focus: focus_operation "repair_client_focus t repaired" for t repaired
proof
  obtain i r where [simp]: "repaired = (i, r)" by (cases repaired)
  show "same_layout s (fst (repair_client_focus t repaired s))" for s
    by (auto simp: repair_client_focus_def Let_def update_client_tab_focus_layout split: prod.split option.split)
  show "clients_ok Z T F (fst (repair_client_focus t repaired s))"
    if "areas_ok Y s" "covers T F s" "clients_ok Z T F s" for Y Z T F s
  proof (cases rule: repair_client_focus_cases [OF that(1,3), of t i r])
    case (2 P p)
    with update_client_tab_focus_clients [OF that(2,3)] show ?thesis by simp
  next
    case 3
    with that(3) show ?thesis by (auto intro!: clear_focus_history.keeps_clients clear_focus_history_side)
  qed (use that(3) in simp)
qed

definition suppressed_focuses :: "tab_id \<Rightarrow> layout_solve option \<Rightarrow> session \<Rightarrow> (client_id \<times> rect) list" where
  "suppressed_focuses t previous s =
     (case get (tabs s) t of
        None \<Rightarrow> []
      | Some tab \<Rightarrow>
          if is_every_pane_suppressed (tab_solve tab) then []
          else concat (map (\<lambda>p. map (\<lambda>c. (own_client_id c, ranking_rect previous (tab_solve tab) p))
                                  (filter (\<lambda>c. active_tab_id c = t \<and> get_layout_mode c t = Tiled \<and>
                                               get_focused_pane_id c t = Some p)
                                     (list_attached_clients (clients s))))
                         (suppressed_pane_ids (tab_solve tab))))"

lemma hand_off_runs:
  "hand_off_suppressed_focus t previous = (\<lambda>s. run_each (repair_client_focus t) (suppressed_focuses t previous s) s)"
  unfolding hand_off_suppressed_focus_def suppressed_focuses_def fun_eq_iff by (auto split: option.split)

interpretation hand_off_suppressed_focus: focus_operation "hand_off_suppressed_focus t previous" for t previous
  unfolding hand_off_runs by (rule focus_run_read [OF repair_client_focus.focus_operation_axioms])

subsection \<open>Focus in floating panes\<close>

lemma with_client_layout [simp]: "same_layout s (fst (with_client i g s))"
  by (simp add: with_client_def)

lemma with_client_clients:
  assumes "client_method (\<lambda>c. fst (g c))" "clients_ok Z T F s"
    and "\<And>c. get_client_by_id (clients s) i = Some c \<Longrightarrow> tab_side_ok T c \<Longrightarrow> tab_side_ok T (fst (g c))"
    and "\<And>c. get_client_by_id (clients s) i = Some c \<Longrightarrow> float_side_ok F c \<Longrightarrow> float_side_ok F (fst (g c))"
  shows "clients_ok Z T F (fst (with_client i g s))"
  using client_method.keeps_clients [OF assms] by (simp add: with_client_def comp_def)

lemma repair_floating_pane_client_focus_cases:
  assumes areas: "areas_ok Y s" and ok: "clients_ok Z T F s"
  obtains "fst (repair_floating_pane_client_focus f (i, r) s) = s"
      "get_client_by_id (clients s) i = None \<or> float_at s f = None \<or> floating_panes s f = Some {} \<or>
       (\<exists>c. get_client_by_id (clients s) i = Some c \<and> get_floating_pane_view c f = None)"
  | P p where "floating_panes s f = Some P" "p \<in> P"
      "fst (repair_floating_pane_client_focus f (i, r) s) =
         s\<lparr>clients := update_client i (update_floating_pane_focused_pane f p) (clients s)\<rparr>"
proof (cases "get_client_by_id (clients s) i")
  case None
  with that(1) show ?thesis by (simp add: repair_floating_pane_client_focus_def)
next
  case c: (Some c)
  show ?thesis
  proof (cases "float_at s f = None \<or> get_floating_pane_view c f = None")
    case True
    then have "compute_client_floating_pane_solve s c f = None"
      by (auto simp: compute_client_floating_pane_solve_def float_at_None bind_eq_None_conv)
    with c True that(1) show ?thesis by (auto simp: repair_floating_pane_client_focus_def)
  next
    case False
    then obtain n pane v where pane: "find_floating_pane_by_id (floats s) f = Some (n, pane)" and at: "float_at s f = Some pane"
      and v: "get_floating_pane_view c f = Some v"
      by (metis float_at_Some option.exhaust)
    then obtain solve where solve: "compute_client_floating_pane_solve s c f = Some solve"
      by (auto simp: compute_client_floating_pane_solve_def)
    let ?verdict = "repair_focus (view_focus_history v) (panes s)
       (compute_focus_candidates r (pane_rects solve) (stack_headers solve))"
    define inheriting where "inheriting = (case ?verdict of Focused p \<Rightarrow> Some p | TerminalTooSmall \<Rightarrow> first (list_floating_pane_ids pane))"
    have eq: "fst (repair_floating_pane_client_focus f (i, r) s) = (case inheriting of
        Some p \<Rightarrow> s\<lparr>clients := update_client i (update_floating_pane_focused_pane f p) (clients s)\<rparr>
      | None \<Rightarrow> s)"
      by (simp add: repair_floating_pane_client_focus_def c solve v pane Let_def inheriting_def with_client_def comp_def
          split: option.split focus_repair_result.split)
    have "\<exists>P. floating_panes s f = Some P \<and> p \<in> P" if "inheriting = Some p" for p
    proof (cases ?verdict)
      case (Focused q)
      with that have "?verdict = Focused p" by (simp add: inheriting_def)
      from client_floating_solve_panes [OF areas _ solve] clients_okD [OF ok c] repair_focus_eligible [OF this]
        candidates_subset [of r "pane_rects solve" "stack_headers solve"]
      show ?thesis by (auto simp: is_eligible_pane_def)
    next
      case TerminalTooSmall
      with that at show ?thesis by (auto simp: inheriting_def floating_panes_def first_def split: list.splits)
    qed
    moreover have "floating_panes s f = Some {}" if "inheriting = None"
      using that at by (auto simp: inheriting_def floating_panes_def first_def split: list.splits focus_repair_result.splits)
    ultimately show ?thesis using that eq by (cases inheriting) auto
  qed
qed

interpretation repair_floating_pane_client_focus: focus_operation "repair_floating_pane_client_focus f repaired" for f repaired
proof
  obtain i r where [simp]: "repaired = (i, r)" by (cases repaired)
  show "same_layout s (fst (repair_floating_pane_client_focus f repaired s))" for s
    by (auto simp: repair_floating_pane_client_focus_def Let_def split: prod.split option.split)
  show "clients_ok Z T F (fst (repair_floating_pane_client_focus f repaired s))"
    if areas: "areas_ok Y s" and cov: "covers T F s" and ok: "clients_ok Z T F s" for Y Z T F s
  proof (cases rule: repair_floating_pane_client_focus_cases [OF areas ok, of f i r])
    case (2 P p)
    then obtain P' where "F f = Some P'" "p \<in> P'" using covered_floating_pane [OF cov] by blast
    with 2(3) ok show ?thesis
      by (auto intro!: update_floating_pane_focused_pane.keeps_clients update_floating_pane_focused_pane_side)
  qed (use ok in simp)
qed

definition suppressed_floating_focuses ::
  "floating_pane_id \<Rightarrow> layout_solve option \<Rightarrow> session \<Rightarrow> (client_id \<times> rect) list" where
  "suppressed_floating_focuses f previous s =
     (case find_floating_pane_by_id (floats s) f of
        None \<Rightarrow> []
      | Some (_, pane) \<Rightarrow>
          if is_every_pane_suppressed (floating_solve pane) then []
          else concat (map (\<lambda>p. map (\<lambda>c. (own_client_id c, ranking_rect previous (floating_solve pane) p))
                                  (filter (\<lambda>c. find_floating_pane_input_pane_id c f = Some p)
                                     (list_attached_clients (clients s))))
                         (suppressed_pane_ids (floating_solve pane))))"

lemma hand_off_floating_runs:
  "hand_off_suppressed_floating_focus f previous =
     (\<lambda>s. run_each (repair_floating_pane_client_focus f) (suppressed_floating_focuses f previous s) s)"
  unfolding hand_off_suppressed_floating_focus_def suppressed_floating_focuses_def fun_eq_iff
  by (auto split: option.split)

interpretation hand_off_suppressed_floating_focus:
  focus_operation "hand_off_suppressed_floating_focus f previous" for f previous
  unfolding hand_off_floating_runs
  by (rule focus_run_read [OF repair_floating_pane_client_focus.focus_operation_axioms])

interpretation minimize_for_client: focus_operation "minimize_for_client fs i" for fs i
proof
  show "same_layout s (fst (minimize_for_client fs i s))" for s by (simp add: minimize_for_client_def)
  have fst_eq: "fst (case minimize_shown_floating_panes c of (c', minimized) \<Rightarrow> (c', E c' minimized)) =
    fst (minimize_shown_floating_panes c)" for c and E :: "client \<Rightarrow> floating_pane_id list \<Rightarrow> event list"
    by (simp split: prod.split del: minimize_shown_sel)
  show "clients_ok Z T F (fst (minimize_for_client fs i s))" if "clients_ok Z T F s" for Z T F s
    unfolding minimize_for_client_def
    by (rule with_client_clients)
       (simp_all add: fst_eq that minimize_shown_floating_panes.client_method_axioms minimize_shown_side
          del: minimize_shown_sel)
qed

interpretation minimize_undrawable_floating_panes: focus_operation minimize_undrawable_floating_panes
  unfolding minimize_undrawable_floating_panes_def [abs_def]
  by (intro focus_read [where g = "\<lambda>(fs, is). run_each (minimize_for_client fs) is" and
        k = "\<lambda>s. (floats s, map own_client_id
          (filter (\<lambda>c. shown_floating_pane_ids c \<noteq> [] \<and> \<not> can_client_draw_floating_panes s c)
             (list_attached_clients (clients s))))", simplified]
      ) (auto intro: focus_run_each minimize_for_client.focus_operation_axioms)

interpretation apply_tab_solve_change: focus_operation "apply_tab_solve_change t previous" for t previous
  unfolding apply_tab_solve_change_def
  by (intro focus_andThen hand_off_suppressed_focus.focus_operation_axioms
      minimize_undrawable_floating_panes.focus_operation_axioms)

section \<open>The invariant\<close>

text \<open>The leaves of every layout tree of the session, by the id of its area.\<close>

fun leaves_of :: "session \<Rightarrow> layout_area_id \<rightharpoonup> pane_id list" where
  "leaves_of s (TabArea t) = map_option (\<lambda>tab. list_leaf_pane_ids (tab_layout tab)) (get (tabs s) t)"
| "leaves_of s (FloatingPaneArea f) = map_option list_floating_pane_ids (float_at s f)"

text \<open>
  The trees partition the panes: no tree is empty, no leaf occurs twice in a tree or in two trees, and
  the leaves are the panes \<open>K\<close>.
\<close>

definition partition_of :: "(layout_area_id \<rightharpoonup> pane_id list) \<Rightarrow> pane_id set \<Rightarrow> bool" where
  "partition_of L K \<longleftrightarrow>
     (\<forall>a ps. L a = Some ps \<longrightarrow> ps \<noteq> [] \<and> distinct ps) \<and>
     (\<forall>a b ps qs. L a = Some ps \<longrightarrow> L b = Some qs \<longrightarrow> a \<noteq> b \<longrightarrow> set ps \<inter> set qs = {}) \<and>
     (\<forall>p. p \<in> K \<longleftrightarrow> (\<exists>a ps. L a = Some ps \<and> p \<in> set ps))"

definition dense_indices :: "(tab_id, tab) ordered_map \<Rightarrow> bool" where
  "dense_indices m \<longleftrightarrow>
     bij_betw (\<lambda>t. tab_index (the (get m t))) (set (RBT.keys m)) {..<map_size m}"

definition floating_pane_ok :: "floating_pane \<Rightarrow> bool" where
  "floating_pane_ok pane \<longleftrightarrow>
     area_solved_size (floating_layout_area pane) = compute_floating_layout_size (outer_solved_size pane)"

text \<open>What each store promises on its own, and together with the others.\<close>

definition frame_ok :: "sizings \<Rightarrow> session \<Rightarrow> bool" where
  "frame_ok Z s \<longleftrightarrow>
     (\<forall>t tab. get (tabs s) t = Some tab \<longrightarrow> own_tab_id tab = t \<and> mru_ok tab) \<and> keyed_by_id (panes s) \<and>
     distinct (map own_floating_pane_id (floats s)) \<and> length (floats s) \<le> MAX_FLOATING_PANES_PER_SESSION \<and>
     (\<forall>pane \<in> set (floats s). floating_pane_ok pane) \<and> areas_ok Z s"

abbreviation one_sizing :: "session \<Rightarrow> sizings" where
  "one_sizing s \<equiv> \<lambda>_. session_pane_sizing s"

definition session_ok :: "session \<Rightarrow> bool" where
  "session_ok s \<longleftrightarrow>
     frame_ok (one_sizing s) s \<and> dense_indices (tabs s) \<and> partition_of (leaves_of s) (set (RBT.keys (panes s))) \<and>
     clients_ok (one_sizing s) (tab_panes s) (floating_panes s) s"

subsection \<open>Partitions\<close>

lemma partitionD:
  "partition_of L K \<Longrightarrow> L a = Some ps \<Longrightarrow> ps \<noteq> [] \<and> distinct ps \<and> set ps \<subseteq> K"
  "partition_of L K \<Longrightarrow> L a = Some ps \<Longrightarrow> L b = Some qs \<Longrightarrow> a \<noteq> b \<Longrightarrow> set ps \<inter> set qs = {}"
  "partition_of L K \<Longrightarrow> p \<in> K \<Longrightarrow> \<exists>a ps. L a = Some ps \<and> p \<in> set ps"
  unfolding partition_of_def by blast+

lemma partition_update:
  assumes "partition_of L K" and "L a = Some ps \<or> L a = None \<and> ps = []"
    and "qs \<noteq> []" "distinct qs" "set qs \<inter> (K - set ps) = {}"
  shows "partition_of (L(a \<mapsto> qs)) (K - set ps \<union> set qs)"
proof -
  have others: "set rs \<inter> set ps = {} \<and> set rs \<subseteq> K" if "L b = Some rs" "b \<noteq> a" for b rs
    using that assms(1,2) unfolding partition_of_def by (metis empty_set inf_bot_right subsetI)
  have "\<exists>b rs. (L(a \<mapsto> qs)) b = Some rs \<and> p \<in> set rs" if "p \<in> K - set ps \<union> set qs" for p
  proof (cases "p \<in> set qs")
    case False
    with that partitionD(3) [OF assms(1), of p] obtain b rs where "L b = Some rs" "p \<in> set rs" "p \<notin> set ps" by blast
    moreover from this assms(2) have "b \<noteq> a" by auto
    ultimately show ?thesis by auto
  qed auto
  moreover have "p \<in> K - set ps \<union> set qs" if "(L(a \<mapsto> qs)) b = Some rs" "p \<in> set rs" for b rs p
    using that others [of b rs] by (auto split: if_splits)
  moreover have "set rs \<inter> set us = {}" if "(L(a \<mapsto> qs)) b = Some rs" "(L(a \<mapsto> qs)) c = Some us" "b \<noteq> c" for b c rs us
    using that others [of b rs] others [of c us] partitionD(2) [OF assms(1), of b rs c us] assms(5)
    by (auto split: if_splits)
  moreover have "rs \<noteq> [] \<and> distinct rs" if "(L(a \<mapsto> qs)) b = Some rs" for b rs
    using that assms(3,4) partitionD(1) [OF assms(1), of b rs] by (auto split: if_splits)
  ultimately show ?thesis unfolding partition_of_def by blast
qed

lemma partition_drop:
  assumes "partition_of L K" "L a = Some ps"
  shows "partition_of (L(a := None)) (K - set ps)"
proof -
  have others: "set rs \<inter> set ps = {} \<and> set rs \<subseteq> K" if "L b = Some rs" "b \<noteq> a" for b rs
    using that assms unfolding partition_of_def by blast
  have "\<exists>b rs. (L(a := None)) b = Some rs \<and> p \<in> set rs" if "p \<in> K - set ps" for p
    using that partitionD(3) [OF assms(1), of p] assms(2) by (metis DiffE fun_upd_apply option.inject)
  moreover have "p \<in> K - set ps" if "(L(a := None)) b = Some rs" "p \<in> set rs" for b rs p
    using that others [of b rs] by (auto split: if_splits)
  moreover have "set rs \<inter> set us = {}" if "(L(a := None)) b = Some rs" "(L(a := None)) c = Some us" "b \<noteq> c" for b c rs us
    using that partitionD(2) [OF assms(1), of b rs c us] by (auto split: if_splits)
  moreover have "rs \<noteq> [] \<and> distinct rs" if "(L(a := None)) b = Some rs" for b rs
    using that partitionD(1) [OF assms(1), of b rs] by (auto split: if_splits)
  ultimately show ?thesis unfolding partition_of_def by blast
qed

subsection \<open>Focus operations keep it\<close>

lemma same_layout_tabs:
  assumes "same_layout s s'"
  shows "map_option own_tab_id (get (tabs s') t) = map_option own_tab_id (get (tabs s) t)"
    "map_option tab_index (get (tabs s') t) = map_option tab_index (get (tabs s) t)"
  by (rule map_option_forget; use assms in \<open>simp add: same_layout_def\<close>)+

lemma same_layout_leaves: "same_layout s s' \<Longrightarrow> leaves_of s' = leaves_of s"
proof
  fix a
  assume s: "same_layout s s'"
  show "leaves_of s' a = leaves_of s a"
  proof (cases a)
    case (TabArea t)
    then show ?thesis by simp (rule map_option_forget; use s in \<open>simp add: same_layout_def\<close>)
  next
    case (FloatingPaneArea f)
    with s show ?thesis by (simp add: float_at_def same_layout_def)
  qed
qed

lemma same_layout_map_size: "same_layout s s' \<Longrightarrow> RBT.keys (tabs s') = RBT.keys (tabs s)"
  by (rule keys_cong) (use same_layout_keys [of s s'] in \<open>auto simp: dom_def\<close>)

lemma same_layout_dense: "same_layout s s' \<Longrightarrow> dense_indices (tabs s) \<Longrightarrow> dense_indices (tabs s')"
proof -
  assume s: "same_layout s s'" and d: "dense_indices (tabs s)"
  have "tab_index (the (get (tabs s') t)) = tab_index (the (get (tabs s) t))" if "t \<in> set (RBT.keys (tabs s))" for t
    using same_layout_tabs(2) [OF s, of t] that by (auto simp: keys_iff)
  then have "bij_betw (\<lambda>t. tab_index (the (get (tabs s') t))) (set (RBT.keys (tabs s))) {..<map_size (tabs s)} =
      bij_betw (\<lambda>t. tab_index (the (get (tabs s) t))) (set (RBT.keys (tabs s))) {..<map_size (tabs s)}"
    by (rule bij_betw_cong)
  with d show ?thesis by (simp only: dense_indices_def same_layout_map_size [OF s])
qed

lemma same_layout_frame_ok:
  assumes s: "same_layout s s'" and ok: "frame_ok Z s"
  shows "frame_ok Z s'"
proof -
  have "own_tab_id tab' = t \<and> mru_ok tab'" if tab': "get (tabs s') t = Some tab'" for t tab'
  proof -
    from same_layout_tab [OF s tab'] obtain tab where tab: "get (tabs s) t = Some tab" "mru_ok tab \<longrightarrow> mru_ok tab'" by blast
    with same_layout_tabs(1) [OF s, of t] tab' ok show ?thesis by (auto simp: frame_ok_def)
  qed
  with ok same_layout_areas_ok [OF s] show ?thesis by (simp add: frame_ok_def same_layout_stores [OF s])
qed

context focus_operation
begin

lemma keeps_frame: "frame_ok Z s \<Longrightarrow> frame_ok Z (fst (op s))"
  by (rule same_layout_frame_ok [OF keeps_layout])

lemma keeps_leaves: "leaves_of (fst (op s)) = leaves_of s"
  by (rule same_layout_leaves [OF keeps_layout])

lemma keeps_session:
  assumes "session_ok s"
  shows "session_ok (fst (op s))"
proof -
  from assms have ok: "frame_ok (one_sizing s) s" "dense_indices (tabs s)"
    "partition_of (leaves_of s) (set (RBT.keys (panes s)))" "clients_ok (one_sizing s) (tab_panes s) (floating_panes s) s"
    and areas: "areas_ok (one_sizing s) s" by (simp_all add: session_ok_def frame_ok_def)
  from keeps_clients [OF areas covers_refl ok(4)] keeps_frame [OF ok(1)] same_layout_dense [OF keeps_layout ok(2)] ok(3)
  show ?thesis by (simp add: session_ok_def keeps_leaves same_layout_stores [OF keeps_layout])
qed

end

end
