(* ===== verification/Session_Layout.thy ===== *)
theory Session_Layout
  imports Session_Invariant
begin

text \<open>
  The operations that solve layout areas again keep the invariant of the session: a tab or a floating
  pane at a new size, with a new tree, or with a new pane sizing.
\<close>

section \<open>The invariant in the course of an operation\<close>

text \<open>
  What holds between the steps of an operation: the clients are well-formed against panes \<open>T\<close> and \<open>F\<close>
  that cover the session's, the stored solves agree with the sizings \<open>Y\<close>, and the kept solves of
  the clients with the sizings \<open>Z\<close>.
\<close>

definition held :: "sizings \<Rightarrow> sizings \<Rightarrow> panes_of_tabs \<Rightarrow> panes_of_floats \<Rightarrow> session \<Rightarrow> bool" where
  "held Y Z T F s \<longleftrightarrow> frame_ok Y s \<and> dense_indices (tabs s) \<and> covers T F s \<and> clients_ok Z T F s"

lemma heldD: "held Y Z T F s \<Longrightarrow> frame_ok Y s" "held Y Z T F s \<Longrightarrow> dense_indices (tabs s)" "held Y Z T F s \<Longrightarrow> covers T F s"
  "held Y Z T F s \<Longrightarrow> clients_ok Z T F s" "held Y Z T F s \<Longrightarrow> areas_ok Y s"
  by (simp_all add: held_def frame_ok_def)

text \<open>The same while a tab is closing and the bar indices have a gap.\<close>

definition bare :: "sizings \<Rightarrow> sizings \<Rightarrow> panes_of_tabs \<Rightarrow> panes_of_floats \<Rightarrow> session \<Rightarrow> bool" where
  "bare Y Z T F s \<longleftrightarrow> frame_ok Y s \<and> covers T F s \<and> clients_ok Z T F s"

lemma held_bare: "held Y Z T F s \<longleftrightarrow> bare Y Z T F s \<and> dense_indices (tabs s)"
  by (auto simp: held_def bare_def)

lemma bareD: "bare Y Z T F s \<Longrightarrow> frame_ok Y s" "bare Y Z T F s \<Longrightarrow> covers T F s" "bare Y Z T F s \<Longrightarrow> clients_ok Z T F s"
  "bare Y Z T F s \<Longrightarrow> areas_ok Y s"
  by (simp_all add: bare_def frame_ok_def)

text \<open>The stores that no layout operation and no focus operation changes.\<close>

definition same_registry :: "session \<Rightarrow> session \<Rightarrow> bool" where
  "same_registry s s' \<longleftrightarrow>
     panes s' = panes s \<and> session_pane_sizing s' = session_pane_sizing s \<and> own_session_id s' = own_session_id s"

lemma same_registry_refl [simp]: "same_registry s s"
  by (simp add: same_registry_def)

lemma same_registry_trans: "same_registry s s' \<Longrightarrow> same_registry s' s'' \<Longrightarrow> same_registry s s''"
  by (simp add: same_registry_def)

lemma tab_panes_leaves: "tab_panes s t = map_option set (leaves_of s (TabArea t))"
  by (simp add: tab_panes_def option.map_comp comp_def)

lemma floating_panes_leaves: "floating_panes s f = map_option set (leaves_of s (FloatingPaneArea f))"
  by (simp add: floating_panes_def option.map_comp comp_def)

lemma session_ok_held:
  "session_ok s \<longleftrightarrow> held (one_sizing s) (one_sizing s) (tab_panes s) (floating_panes s) s \<and>
     partition_of (leaves_of s) (set (RBT.keys (panes s)))"
  by (auto simp: session_ok_def held_def covers_refl)

lemma session_okI:
  assumes "held Y Z T F s" "\<And>a. Y a = session_pane_sizing s" "\<And>a. Z a = session_pane_sizing s" "\<And>t. T t = map_option set (leaves_of s (TabArea t))"
    "\<And>f. F f = map_option set (leaves_of s (FloatingPaneArea f))" "partition_of (leaves_of s) (set (RBT.keys (panes s)))"
  shows "session_ok s"
proof -
  have "Y = one_sizing s" "Z = one_sizing s" "T = tab_panes s" "F = floating_panes s"
    using assms(2-5) by (simp_all add: fun_eq_iff tab_panes_leaves floating_panes_leaves)
  with assms(1,6) show ?thesis by (simp add: session_ok_held)
qed

lemma panes_same_leaves: "leaves_of s' = leaves_of s \<Longrightarrow> tab_panes s' = tab_panes s \<and> floating_panes s' = floating_panes s"
  by (simp add: fun_eq_iff tab_panes_leaves floating_panes_leaves del: leaves_of.simps)

lemma session_ok_same_leaves:
  assumes "session_ok s" "leaves_of s' = leaves_of s" "same_registry s s'"
    and "held (one_sizing s) (one_sizing s) (tab_panes s) (floating_panes s) s'"
  shows "session_ok s'"
  using assms panes_same_leaves [OF assms(2)] by (simp add: session_ok_held same_registry_def)

context focus_operation
begin

lemma keeps_bare: "bare Y Z T F s \<Longrightarrow> bare Y Z T F (fst (op s))"
  unfolding bare_def by (metis frame_ok_def keeps_clients keeps_frame keeps_layout same_layout_ok(1))

lemma keeps_dense: "dense_indices (tabs s) \<Longrightarrow> dense_indices (tabs (fst (op s)))"
  by (rule same_layout_dense [OF keeps_layout])

lemma keeps_held: "held Y Z T F s \<Longrightarrow> held Y Z T F (fst (op s))"
  unfolding held_def
  by (metis frame_ok_def keeps_clients keeps_frame keeps_layout same_layout_dense same_layout_ok(1))

lemma keeps_registry: "same_registry s (fst (op s))"
  using keeps_layout [of s] by (simp add: same_registry_def same_layout_def)

end

section \<open>A new area for a tab\<close>

definition put_tab_area :: "tab_id \<Rightarrow> layout_area \<Rightarrow> bool \<Rightarrow> session \<Rightarrow> session" where
  "put_tab_area t area changed s =
     (let s1 = mark_layout_changed changed t (set_tab_area t area s)
      in s1\<lparr>clients := clear_own_active_tab_solves t (clients s1)\<rparr>)"

lemma put_tab_area_sel [simp]:
  "tabs (put_tab_area t area b s) = RBT.map_entry t (\<lambda>tab. tab\<lparr>tab_layout_area := area\<rparr>) (tabs s)"
  "floats (put_tab_area t area b s) = floats s" "panes (put_tab_area t area b s) = panes s"
  "session_pane_sizing (put_tab_area t area b s) = session_pane_sizing s"
  "own_session_id (put_tab_area t area b s) = own_session_id s"
  "clients (put_tab_area t area b s) = clear_own_active_tab_solves t (clients s)"
  by (simp_all add: put_tab_area_def mark_layout_changed_def set_tab_area_def update_tab_def Let_def)

lemma put_tab_area_float_at [simp]: "float_at (put_tab_area t area b s) = float_at s"
  by (simp add: float_at_def fun_eq_iff)

lemma put_tab_area_leaves:
  "has_key (tabs s) t \<Longrightarrow>
   leaves_of (put_tab_area t area b s) = (leaves_of s)(TabArea t \<mapsto> list_leaf_pane_ids (area_layout area))"
proof
  fix a
  assume "has_key (tabs s) t"
  then show "leaves_of (put_tab_area t area b s) a = ((leaves_of s)(TabArea t \<mapsto> list_leaf_pane_ids (area_layout area))) a"
    by (cases a) (auto simp: option.map_comp comp_def)
qed

lemma map_entry_dense: "(\<And>tab. tab_index (g tab) = tab_index tab) \<Longrightarrow> dense_indices (RBT.map_entry t g m) = dense_indices m"
proof -
  assume g: "\<And>tab. tab_index (g tab) = tab_index tab"
  have "bij_betw (\<lambda>t'. tab_index (the (get (RBT.map_entry t g m) t'))) (set (RBT.keys m)) {..<map_size m} =
    bij_betw (\<lambda>t'. tab_index (the (get m t'))) (set (RBT.keys m)) {..<map_size m}"
    by (rule bij_betw_cong) (auto simp: g keys_iff)
  then show ?thesis by (simp add: dense_indices_def)
qed

lemma put_tab_area_frame:
  "frame_ok Z s \<Longrightarrow> solved_with z area \<Longrightarrow> frame_ok (Z(TabArea t := z)) (put_tab_area t area b s)"
  by (auto simp: frame_ok_def areas_ok_def mru_ok_def split: if_splits)

lemma kept_ok_cong:
  "kept_ok A B c \<Longrightarrow> A' (active_tab_id c) = A (active_tab_id c) \<Longrightarrow> B' = B \<Longrightarrow> kept_ok A' B' c"
  by (simp add: kept_ok_def tab_solve_ok_def)

lemma put_tab_area_clients:
  assumes "clients_ok Z T F s"
  shows "clients_ok (Z(TabArea t := z)) T F (put_tab_area t area b s)"
proof -
  have B: "floating_area (Z(TabArea t := z)) (put_tab_area t area b s) = floating_area Z s"
    by (simp add: fun_eq_iff floating_area_def)
  have A: "tab_area (Z(TabArea t := z)) (put_tab_area t area b s) t' = tab_area Z s t'" if "t' \<noteq> t" for t'
    using that by (simp add: tab_area_def)
  have "client_ok (Z(TabArea t := z)) T F (put_tab_area t area b s) c" if "client_ok Z T F s c" "active_tab_id c \<noteq> t" for c
    using that by (auto simp: client_ok_def A B intro: kept_ok_cong)
  moreover have "client_ok (Z(TabArea t := z)) T F (put_tab_area t area b s) (clear_own_active_tab_solve c)"
    if "client_ok Z T F s c" for c
    using that by (simp add: client_ok_def kept_ok_def B clear_own_active_tab_solve.keeps_session)
       (simp add: clear_own_active_tab_solve_def)
  ultimately show ?thesis
    using assms by (auto simp: clients_ok_def clear_own_active_tab_solves_def clear_own_active_tab_solve.keeps_id)
qed

lemma covers_leaves:
  "covers T F s \<longleftrightarrow>
     (\<forall>t ps. leaves_of s (TabArea t) = Some ps \<longrightarrow> (\<exists>P. T t = Some P \<and> set ps \<subseteq> P)) \<and>
     (\<forall>f ps. leaves_of s (FloatingPaneArea f) = Some ps \<longrightarrow> (\<exists>P. F f = Some P \<and> set ps \<subseteq> P))"
  by (auto simp: covers_def tab_panes_leaves floating_panes_leaves simp del: leaves_of.simps)

lemma put_tab_area_bare:
  assumes "bare Y Z T F s" "has_key (tabs s) t" "solved_with z area"
    "T t = Some P" "set (list_leaf_pane_ids (area_layout area)) \<subseteq> P"
  shows "bare (Y(TabArea t := z)) (Z(TabArea t := z)) T F (put_tab_area t area b s)"
proof -
  have "covers T F (put_tab_area t area b s)"
    using assms(1,4,5) unfolding bare_def covers_leaves put_tab_area_leaves [OF assms(2)] by auto
  with assms(1,3) show ?thesis
    by (simp add: bare_def put_tab_area_frame put_tab_area_clients)
qed

lemma put_tab_area_held:
  assumes "held Y Z T F s" "has_key (tabs s) t" "solved_with z area"
    "T t = Some P" "set (list_leaf_pane_ids (area_layout area)) \<subseteq> P"
  shows "held (Y(TabArea t := z)) (Z(TabArea t := z)) T F (put_tab_area t area b s)"
proof -
  from assms(1) have "bare Y Z T F s" "dense_indices (tabs s)" by (simp_all add: held_bare)
  with put_tab_area_bare [OF this(1) assms(2-5)] show ?thesis by (simp add: held_bare map_entry_dense)
qed

lemma solved_update [simp]: "solved_with z (fst (update_layout_solve z area))"
  "area_layout (fst (update_layout_solve z area)) = area_layout area"
  "area_solved_size (fst (update_layout_solve z area)) = area_solved_size area"
  by (simp_all add: solved_with_def update_layout_solve_def compute_layout_solve_def)

section \<open>Tabs\<close>

text \<open>The tab at its present size: the tree stays, and with it the panes.\<close>

lemma update_tab_solve_eq:
  "update_tab_solve t s =
     (case (resolve_tab_solve_size s t, get (tabs s) t) of
        (Some tab_size, Some tab) \<Rightarrow>
          if area_solved_size (tab_layout_area tab) = tab_size then apply_tab_solve_change t None s
          else
            (let solved = update_layout_solve (session_pane_sizing s) ((tab_layout_area tab)\<lparr>area_solved_size := tab_size\<rparr>)
             in apply_tab_solve_change t (Some (snd solved)) (put_tab_area t (fst solved) True s))
      | _ \<Rightarrow> (s, []))"
  by (simp add: update_tab_solve_def put_tab_area_def Let_def split: option.split prod.split)

lemma update_tab_layout_eq:
  "update_tab_layout t layout_tree s =
     (case get (tabs s) t of
        None \<Rightarrow> (s, [])
      | Some tab \<Rightarrow>
          (let solved = update_layout_solve (session_pane_sizing s) ((tab_layout_area tab)\<lparr>area_layout := layout_tree\<rparr>)
           in apply_tab_solve_change t (Some (snd solved))
                (put_tab_area t (fst solved)
                   (tab_layout tab \<noteq> layout_tree \<or> snd solved \<noteq> area_layout_solve (fst solved)) s)))"
  by (simp add: update_tab_layout_def put_tab_area_def Let_def split: option.split prod.split)

lemma fun_upd_const [simp]: "(\<lambda>_. z)(a := z) = (\<lambda>_. z)"
  by (rule ext) simp

lemma update_tab_layout_held:
  assumes "held (\<lambda>_. session_pane_sizing s) (\<lambda>_. session_pane_sizing s) T F s" "has_key (tabs s) t"
    "T t = Some P" "set (list_leaf_pane_ids layout_tree) \<subseteq> P"
  shows "held (\<lambda>_. session_pane_sizing s) (\<lambda>_. session_pane_sizing s) T F (fst (update_tab_layout t layout_tree s))"
    "leaves_of (fst (update_tab_layout t layout_tree s)) = (leaves_of s)(TabArea t \<mapsto> list_leaf_pane_ids layout_tree)"
    "same_registry s (fst (update_tab_layout t layout_tree s))"
proof -
  from assms(2) obtain tab where tab: "get (tabs s) t = Some tab" by auto
  let ?solved = "update_layout_solve (session_pane_sizing s) ((tab_layout_area tab)\<lparr>area_layout := layout_tree\<rparr>)"
  let ?s = "put_tab_area t (fst ?solved) (tab_layout tab \<noteq> layout_tree \<or> snd ?solved \<noteq> area_layout_solve (fst ?solved)) s"
  have eq: "update_tab_layout t layout_tree s = apply_tab_solve_change t (Some (snd ?solved)) ?s"
    by (simp add: update_tab_layout_eq tab Let_def)
  have "held ((\<lambda>_. session_pane_sizing s)(TabArea t := session_pane_sizing s))
      ((\<lambda>_. session_pane_sizing s)(TabArea t := session_pane_sizing s)) T F ?s"
    by (rule put_tab_area_held [OF assms(1,2) _ assms(3)]) (use assms(4) in simp_all)
  then show "held (\<lambda>_. session_pane_sizing s) (\<lambda>_. session_pane_sizing s) T F (fst (update_tab_layout t layout_tree s))"
    by (simp add: eq apply_tab_solve_change.keeps_held)
  show "leaves_of (fst (update_tab_layout t layout_tree s)) = (leaves_of s)(TabArea t \<mapsto> list_leaf_pane_ids layout_tree)"
    by (simp add: eq apply_tab_solve_change.keeps_leaves put_tab_area_leaves tab)
  show "same_registry s (fst (update_tab_layout t layout_tree s))"
    using apply_tab_solve_change.keeps_registry [of ?s t "Some (snd ?solved)"] by (simp add: eq same_registry_def)
qed

lemma put_same_leaves_bare:
  assumes bare: "bare (\<lambda>_. session_pane_sizing s) (\<lambda>_. session_pane_sizing s) T F s" and tab: "get (tabs s) t = Some tab"
    and area: "solved_with (session_pane_sizing s) area" "list_leaf_pane_ids (area_layout area) = list_leaf_pane_ids (tab_layout tab)"
  shows "bare (\<lambda>_. session_pane_sizing s) (\<lambda>_. session_pane_sizing s) T F (put_tab_area t area b s)" "leaves_of (put_tab_area t area b s) = leaves_of s"
proof -
  have leaves: "leaves_of s (TabArea t) = Some (list_leaf_pane_ids (area_layout area))" using tab area(2) by simp
  then obtain P where "T t = Some P" "set (list_leaf_pane_ids (area_layout area)) \<subseteq> P"
    using bareD(2) [OF bare] unfolding covers_leaves by blast
  from put_tab_area_bare [OF bare _ area(1) this] tab
  show "bare (\<lambda>_. session_pane_sizing s) (\<lambda>_. session_pane_sizing s) T F (put_tab_area t area b s)" by simp
  show "leaves_of (put_tab_area t area b s) = leaves_of s" using leaves tab by (simp add: put_tab_area_leaves fun_upd_idem)
qed

lemma update_tab_solve_bare:
  assumes bare: "bare (\<lambda>_. session_pane_sizing s) (\<lambda>_. session_pane_sizing s) T F s"
  shows "bare (\<lambda>_. session_pane_sizing s) (\<lambda>_. session_pane_sizing s) T F (fst (update_tab_solve t s)) \<and>
    leaves_of (fst (update_tab_solve t s)) = leaves_of s \<and> same_registry s (fst (update_tab_solve t s)) \<and>
    (dense_indices (tabs s) \<longrightarrow> dense_indices (tabs (fst (update_tab_solve t s))))"
proof (cases "resolve_tab_solve_size s t")
  case None
  with bare show ?thesis by (simp add: update_tab_solve_eq)
next
  case (Some tab_size)
  show ?thesis
  proof (cases "get (tabs s) t")
    case None
    with bare show ?thesis by (simp add: update_tab_solve_eq split: option.split)
  next
    case tab: (Some tab)
    let ?solved = "update_layout_solve (session_pane_sizing s) ((tab_layout_area tab)\<lparr>area_solved_size := tab_size\<rparr>)"
    let ?s = "put_tab_area t (fst ?solved) True s"
    show ?thesis
    proof (cases "area_solved_size (tab_layout_area tab) = tab_size")
      case True
      with bare Some tab show ?thesis
        by (simp add: update_tab_solve_eq apply_tab_solve_change.keeps_bare apply_tab_solve_change.keeps_dense apply_tab_solve_change.keeps_leaves map_entry_dense
            apply_tab_solve_change.keeps_registry)
    next
      case False
      then have eq: "update_tab_solve t s = apply_tab_solve_change t (Some (snd ?solved)) ?s"
        by (simp add: update_tab_solve_eq Some tab Let_def)
      have "bare (\<lambda>_. session_pane_sizing s) (\<lambda>_. session_pane_sizing s) T F ?s" "leaves_of ?s = leaves_of s"
        by (rule put_same_leaves_bare [OF bare tab]; simp)+
      then show ?thesis
        using apply_tab_solve_change.keeps_registry [of ?s t "Some (snd ?solved)"]
        by (simp add: eq apply_tab_solve_change.keeps_bare apply_tab_solve_change.keeps_dense apply_tab_solve_change.keeps_leaves map_entry_dense same_registry_def)
    qed
  qed
qed

lemma update_tab_solve_held:
  assumes "held (\<lambda>_. session_pane_sizing s) (\<lambda>_. session_pane_sizing s) T F s"
  shows "held (\<lambda>_. session_pane_sizing s) (\<lambda>_. session_pane_sizing s) T F (fst (update_tab_solve t s)) \<and>
    leaves_of (fst (update_tab_solve t s)) = leaves_of s \<and> same_registry s (fst (update_tab_solve t s))"
  using update_tab_solve_bare [of s T F t] assms by (simp add: held_bare)

section \<open>New areas for floating panes\<close>

text \<open>
  The floating panes change in place: each keeps its id and its place. The clients drop the kept solves
  of the ones in \<open>cleared\<close>.
\<close>

definition clear_floating_solves :: "floating_pane_id list \<Rightarrow> client \<Rightarrow> client" where
  "clear_floating_solves fs = fold clear_own_floating_pane_solve fs"

interpretation clear_floating_solves: client_method "clear_floating_solves fs" for fs
  unfolding clear_floating_solves_def [abs_def]
  using method_fold [OF clear_own_floating_pane_solve.client_method_axioms, where xs = "\<lambda>_. fs"] by simp

lemma clear_floating_solves_eq:
  "clear_floating_solves fs c =
     c\<lparr>floating_pane_view_by_id := fold (\<lambda>f. RBT.map_entry f (\<lambda>v. v\<lparr>own_solve := None\<rparr>)) fs (floating_pane_view_by_id c)\<rparr>"
  unfolding clear_floating_solves_def clear_own_floating_pane_solve_def by (rule fold_update_view)

lemma clear_floating_solves_views:
  "get (floating_pane_view_by_id (clear_floating_solves fs c)) f =
     (if f \<in> set fs then map_option (\<lambda>v. v\<lparr>own_solve := None\<rparr>) (get (floating_pane_view_by_id c) f)
      else get (floating_pane_view_by_id c) f)"
  by (simp add: clear_floating_solves_eq get_fold_map_entry)

lemma clear_floating_solves_sides [simp]:
  "tab_side_ok T (clear_floating_solves fs c) = tab_side_ok T c"
  "float_side_ok F c \<Longrightarrow> float_side_ok F (clear_floating_solves fs c)"
proof -
  show "tab_side_ok T (clear_floating_solves fs c) = tab_side_ok T c"
    by (rule tab_side_frame) (simp_all add: clear_floating_solves_eq)
  show "float_side_ok F c \<Longrightarrow> float_side_ok F (clear_floating_solves fs c)"
    unfolding clear_floating_solves_def by (induction fs arbitrary: c) simp_all
qed

lemma put_floats_clients:
  assumes ok: "clients_ok Z T F s"
    and stores: "tabs s' = tabs s" "own_session_id s' = own_session_id s"
    and clients: "\<And>i. get_client_by_id (clients s') i = map_option (clear_floating_solves cleared) (get_client_by_id (clients s) i)"
    and areas: "\<And>f. f \<notin> set cleared \<Longrightarrow> floating_area Z' s' f = floating_area Z s f"
    and Z': "\<And>t. Z' (TabArea t) = Z (TabArea t)"
  shows "clients_ok Z' T F s'"
proof -
  have A: "tab_area Z' s' = tab_area Z s" by (simp add: tab_area_def fun_eq_iff stores Z')
  have "client_ok Z' T F s' (clear_floating_solves cleared c)" if "client_ok Z T F s c" for c
  proof -
    from that have "tab_solve_ok (tab_area Z s) (clear_floating_solves cleared c)"
      using clear_floating_solves.keeps_solves [of "tab_area Z s" "floating_area Z s" c cleared]
      by (simp add: client_ok_def kept_ok_def)
    moreover have "view_solve_ok (floating_area Z' s' f) w"
      if "get (floating_pane_view_by_id (clear_floating_solves cleared c)) f = Some w" for f w
      using that \<open>client_ok Z T F s c\<close> areas [of f]
      by (auto simp: clear_floating_solves_views client_ok_def kept_ok_def split: if_splits)
    ultimately show ?thesis
      using that by (simp add: client_ok_def kept_ok_def A stores clear_floating_solves.keeps_session)
  qed
  with ok show ?thesis by (auto simp: clients_ok_def clients clear_floating_solves.keeps_id)
qed

text \<open>What one step makes of a floating pane: its id and its leaves stay, its solve is fresh.\<close>

definition refreshed :: "pane_sizing \<Rightarrow> floating_pane \<Rightarrow> floating_pane \<Rightarrow> bool" where
  "refreshed z pane pane' \<longleftrightarrow>
     own_floating_pane_id pane' = own_floating_pane_id pane \<and>
     list_floating_pane_ids pane' = list_floating_pane_ids pane \<and> floating_pane_ok pane' \<and>
     solved_with z (floating_layout_area pane')"

lemma find_map_ids:
  "(\<And>pane. pane \<in> set fs \<Longrightarrow> own_floating_pane_id (g pane) = own_floating_pane_id pane) \<Longrightarrow>
   find (\<lambda>pane. own_floating_pane_id pane = f) (map g fs) = map_option g (find (\<lambda>pane. own_floating_pane_id pane = f) fs)"
  by (induction fs) auto

lemma map_floats:
  assumes floats: "floats s' = map g (floats s)" and tabs: "tabs s' = tabs s"
    and g: "\<And>pane. pane \<in> set (floats s) \<Longrightarrow> refreshed z pane (g pane)"
  shows "float_at s' f = map_option g (float_at s f)" "leaves_of s' = leaves_of s"
    "map own_floating_pane_id (floats s') = map own_floating_pane_id (floats s)"
proof -
  show *: "float_at s' f = map_option g (float_at s f)" for f
    unfolding float_at_find floats by (rule find_map_ids) (use g in \<open>simp add: refreshed_def\<close>)
  show "leaves_of s' = leaves_of s"
  proof
    fix a
    show "leaves_of s' a = leaves_of s a"
    proof (cases a)
      case (FloatingPaneArea f)
      have "list_floating_pane_ids (g pane) = list_floating_pane_ids pane" if "float_at s f = Some pane" for pane
        using g float_at_id [OF that] by (simp add: refreshed_def)
      with FloatingPaneArea show ?thesis by (cases "float_at s f") (simp_all add: *)
    qed (simp add: tabs)
  qed
  show "map own_floating_pane_id (floats s') = map own_floating_pane_id (floats s)"
    using g by (simp add: floats refreshed_def)
qed

lemma map_floats_frame:
  assumes ok: "frame_ok Y s" and floats: "floats s' = map g (floats s)" and tabs: "tabs s' = tabs s" and panes: "panes s' = panes s"
    and g: "\<And>pane. pane \<in> set (floats s) \<Longrightarrow> refreshed z pane (g pane)"
    and Y': "\<And>t. Y' (TabArea t) = Y (TabArea t)" "\<And>f. Y' (FloatingPaneArea f) = z"
  shows "frame_ok Y' s'"
proof -
  note m = map_floats [OF floats tabs g]
  have "solved_with z (floating_layout_area pane)" if "float_at s' f = Some pane" for f pane
    using that g by (auto simp: m refreshed_def dest!: float_at_id)
  moreover have "floating_pane_ok pane" if "pane \<in> set (floats s')" for pane
    using that g by (auto simp: floats refreshed_def)
  moreover have "length (floats s') = length (floats s)" by (simp add: floats)
  ultimately show ?thesis
    using ok by (simp add: frame_ok_def areas_ok_def tabs panes m(3) Y')
qed

lemma covers_same_leaves: "leaves_of s' = leaves_of s \<Longrightarrow> covers T F s' = covers T F s"
  by (simp only: covers_leaves)

subsection \<open>A new tree for one floating pane\<close>

lemma map_own_update_first [simp]:
  "(\<And>pane. own_floating_pane_id (g pane) = own_floating_pane_id pane) \<Longrightarrow>
   map own_floating_pane_id (update_first_floating_pane f g fs) = map own_floating_pane_id fs"
  by (induction f g fs rule: update_first_floating_pane.induct) auto

lemma length_update_first [simp]: "length (update_first_floating_pane f g fs) = length fs"
  by (induction f g fs rule: update_first_floating_pane.induct) auto

lemma find_update_first:
  "(\<And>pane. own_floating_pane_id (g pane) = own_floating_pane_id pane) \<Longrightarrow>
   find (\<lambda>pane. own_floating_pane_id pane = f') (update_first_floating_pane f g fs) =
     (if f' = f then map_option g (find (\<lambda>pane. own_floating_pane_id pane = f) fs)
      else find (\<lambda>pane. own_floating_pane_id pane = f') fs)"
  by (induction f g fs rule: update_first_floating_pane.induct) auto

lemma set_update_first:
  "pane \<in> set (update_first_floating_pane f g fs) \<Longrightarrow>
   pane \<in> set fs \<or> (\<exists>before. find (\<lambda>pane. own_floating_pane_id pane = f) fs = Some before \<and> pane = g before)"
  by (induction f g fs rule: update_first_floating_pane.induct) (auto split: if_splits)

definition put_floating_area :: "floating_pane_id \<Rightarrow> layout_area \<Rightarrow> session \<Rightarrow> session" where
  "put_floating_area f area s =
     (let s1 = mark_floating_set_changed True
                 (s\<lparr>floats := update_first_floating_pane f (\<lambda>pane. pane\<lparr>floating_layout_area := area\<rparr>) (floats s)\<rparr>)
      in s1\<lparr>clients := clear_own_floating_pane_solves f (clients s1)\<rparr>)"

lemma put_floating_area_sel [simp]:
  "floats (put_floating_area f area s) =
     update_first_floating_pane f (\<lambda>pane. pane\<lparr>floating_layout_area := area\<rparr>) (floats s)"
  "tabs (put_floating_area f area s) = tabs s" "panes (put_floating_area f area s) = panes s"
  "session_pane_sizing (put_floating_area f area s) = session_pane_sizing s"
  "own_session_id (put_floating_area f area s) = own_session_id s"
  "clients (put_floating_area f area s) = clear_own_floating_pane_solves f (clients s)"
  by (simp_all add: put_floating_area_def mark_floating_set_changed_def Let_def)

lemma put_floating_area_at:
  "float_at (put_floating_area f area s) f' =
     (if f' = f then map_option (\<lambda>pane. pane\<lparr>floating_layout_area := area\<rparr>) (float_at s f) else float_at s f')"
  by (simp add: float_at_find find_update_first)

lemma put_floating_area_leaves:
  "float_at s f \<noteq> None \<Longrightarrow>
   leaves_of (put_floating_area f area s) = (leaves_of s)(FloatingPaneArea f \<mapsto> list_leaf_pane_ids (area_layout area))"
proof
  fix a
  assume "float_at s f \<noteq> None"
  then show "leaves_of (put_floating_area f area s) a =
    ((leaves_of s)(FloatingPaneArea f \<mapsto> list_leaf_pane_ids (area_layout area))) a"
    by (cases a) (auto simp: put_floating_area_at list_floating_pane_ids_def)
qed

lemma put_floating_area_held:
  assumes held: "held (\<lambda>_. session_pane_sizing s) (\<lambda>_. session_pane_sizing s) T F s" and pane: "float_at s f = Some pane"
    and area: "solved_with (session_pane_sizing s) area" "area_solved_size area = area_solved_size (floating_layout_area pane)"
    and cov: "F f = Some P" "set (list_leaf_pane_ids (area_layout area)) \<subseteq> P"
  shows "held (\<lambda>_. session_pane_sizing s) (\<lambda>_. session_pane_sizing s) T F (put_floating_area f area s)"
proof -
  let ?s = "put_floating_area f area s"
  have "frame_ok (\<lambda>_. session_pane_sizing s) ?s"
  proof -
    have "floating_pane_ok pane'" if "pane' \<in> set (floats ?s)" for pane'
      using set_update_first [OF that [unfolded put_floating_area_sel]] heldD(1) [OF held] pane area(2) float_at_id [OF pane]
      by (auto simp: frame_ok_def floating_pane_ok_def float_at_find)
    with heldD(1) [OF held] area(1) show ?thesis
      by (auto simp: frame_ok_def areas_ok_def put_floating_area_at split: if_splits)
  qed
  moreover have "covers T F ?s"
    using heldD(3) [OF held] cov pane unfolding covers_leaves by (auto simp: put_floating_area_leaves simp del: leaves_of.simps)
  moreover have "clients_ok (\<lambda>_. session_pane_sizing s) T F ?s"
    by (rule put_floats_clients [OF heldD(4) [OF held], where cleared = "[f]"])
       (simp_all add: clear_own_floating_pane_solves_def clear_floating_solves_def floating_area_def put_floating_area_at)
  ultimately show ?thesis using heldD(2) [OF held] by (simp add: held_def)
qed

lemma update_floating_pane_layout_held:
  assumes held: "held (\<lambda>_. session_pane_sizing s) (\<lambda>_. session_pane_sizing s) T F s" and pane: "float_at s f = Some pane"
    and cov: "F f = Some P" "set (list_leaf_pane_ids layout_tree) \<subseteq> P"
  shows "held (\<lambda>_. session_pane_sizing s) (\<lambda>_. session_pane_sizing s) T F (fst (update_floating_pane_layout f layout_tree s))"
    "leaves_of (fst (update_floating_pane_layout f layout_tree s)) = (leaves_of s)(FloatingPaneArea f \<mapsto> list_leaf_pane_ids layout_tree)"
    "same_registry s (fst (update_floating_pane_layout f layout_tree s))"
proof -
  let ?solved = "update_layout_solve (session_pane_sizing s) ((floating_layout_area pane)\<lparr>area_layout := layout_tree\<rparr>)"
  let ?s = "put_floating_area f (fst ?solved) s"
  from pane obtain n where "find_floating_pane_by_id (floats s) f = Some (n, pane)" by (auto simp: float_at_Some)
  then have eq: "update_floating_pane_layout f layout_tree s = hand_off_suppressed_floating_focus f (Some (snd ?solved)) ?s"
    by (simp add: update_floating_pane_layout_def put_floating_area_def Let_def split: prod.split)
  have "held (\<lambda>_. session_pane_sizing s) (\<lambda>_. session_pane_sizing s) T F ?s"
    by (rule put_floating_area_held [OF held pane _ _ cov(1)]) (use cov(2) in simp_all)
  then show "held (\<lambda>_. session_pane_sizing s) (\<lambda>_. session_pane_sizing s) T F (fst (update_floating_pane_layout f layout_tree s))"
    by (simp add: eq hand_off_suppressed_floating_focus.keeps_held)
  show "leaves_of (fst (update_floating_pane_layout f layout_tree s)) = (leaves_of s)(FloatingPaneArea f \<mapsto> list_leaf_pane_ids layout_tree)"
    using pane by (simp add: eq hand_off_suppressed_floating_focus.keeps_leaves put_floating_area_leaves)
  show "same_registry s (fst (update_floating_pane_layout f layout_tree s))"
    using hand_off_suppressed_floating_focus.keeps_registry [of ?s f "Some (snd ?solved)"] by (simp add: eq same_registry_def)
qed

subsection \<open>New sizes for all\<close>

lemma resize_refreshed:
  "floating_pane_ok pane \<Longrightarrow> solved_with z (floating_layout_area pane) \<Longrightarrow> refreshed z pane (fst (resize_floating_pane viewport z pane))"
  by (simp add: resize_floating_pane_def Let_def refreshed_def floating_pane_ok_def list_floating_pane_ids_def
      solved_with_def update_layout_solve_def compute_layout_solve_def)

lemma resize_None: "snd (resize_floating_pane viewport z pane) = None \<Longrightarrow> fst (resize_floating_pane viewport z pane) = pane"
  by (simp add: resize_floating_pane_def Let_def split: if_splits prod.splits)

lemma fold_clear_registry:
  "get_client_by_id (fold clear_own_floating_pane_solves fs r) i =
     map_option (clear_floating_solves fs) (get_client_by_id r i)"
  by (induction fs arbitrary: r)
     (simp_all add: clear_floating_solves_def clear_own_floating_pane_solves_def option.map_comp comp_def option.map_id)

lemma float_at_solved:
  "frame_ok Y s \<Longrightarrow> pane \<in> set (floats s) \<Longrightarrow>
   floating_pane_ok pane \<and> solved_with (Y (FloatingPaneArea (own_floating_pane_id pane))) (floating_layout_area pane)"
proof -
  assume ok: "frame_ok Y s" and pane: "pane \<in> set (floats s)"
  have "find (\<lambda>q. own_floating_pane_id q = own_floating_pane_id pane) fs = Some pane"
    if "distinct (map own_floating_pane_id fs)" "pane \<in> set fs" for fs
    using that by (induction fs) (auto simp: image_iff)
  with ok pane have "float_at s (own_floating_pane_id pane) = Some pane" by (simp add: frame_ok_def float_at_find)
  with ok pane show ?thesis by (simp add: frame_ok_def areas_ok_def)
qed

lemma set_update_sizes:
  "fst (set_update_floating_pane_sizes viewport z fs) = map (\<lambda>pane. fst (resize_floating_pane viewport z pane)) fs"
  "f \<notin> set (map fst (snd (set_update_floating_pane_sizes viewport z fs))) \<Longrightarrow> pane \<in> set fs \<Longrightarrow>
   own_floating_pane_id (fst (resize_floating_pane viewport z pane)) = f \<Longrightarrow> fst (resize_floating_pane viewport z pane) = pane"
proof -
  show "fst (set_update_floating_pane_sizes viewport z fs) = map (\<lambda>pane. fst (resize_floating_pane viewport z pane)) fs"
    by (simp add: set_update_floating_pane_sizes_def Let_def comp_def)
  assume f: "f \<notin> set (map fst (snd (set_update_floating_pane_sizes viewport z fs)))" and pane: "pane \<in> set fs"
    "own_floating_pane_id (fst (resize_floating_pane viewport z pane)) = f"
  have "snd (resize_floating_pane viewport z pane) = None"
  proof (rule ccontr)
    assume "snd (resize_floating_pane viewport z pane) \<noteq> None"
    then obtain previous where "resize_floating_pane viewport z pane = (fst (resize_floating_pane viewport z pane), Some previous)"
      by (metis option.exhaust prod.collapse)
    then have "(f, previous) \<in> set (snd (set_update_floating_pane_sizes viewport z fs))"
      using pane by (force simp: set_update_floating_pane_sizes_def Let_def set_map_filter)
    with f show False by force
  qed
  then show "fst (resize_floating_pane viewport z pane) = pane" by (rule resize_None)
qed

lemma update_floating_pane_sizes_held:
  assumes held: "held (\<lambda>_. session_pane_sizing s) (\<lambda>_. session_pane_sizing s) T F s"
  shows "held (\<lambda>_. session_pane_sizing s) (\<lambda>_. session_pane_sizing s) T F (fst (update_floating_pane_sizes viewport s)) \<and>
    leaves_of (fst (update_floating_pane_sizes viewport s)) = leaves_of s \<and> same_registry s (fst (update_floating_pane_sizes viewport s))"
proof -
  let ?z = "session_pane_sizing s" and ?g = "\<lambda>pane. fst (resize_floating_pane viewport (session_pane_sizing s) pane)"
  define fs where "fs = map fst (snd (set_update_floating_pane_sizes viewport ?z (floats s)))"
  define s2 where "s2 = (mark_floating_set_changed (fs \<noteq> []) (s\<lparr>floats := map ?g (floats s)\<rparr>))
     \<lparr>clients := fold clear_own_floating_pane_solves fs (clients s)\<rparr>"
  define run where "run = run_each (\<lambda>f. hand_off_suppressed_floating_focus f
     (map_of (snd (set_update_floating_pane_sizes viewport ?z (floats s))) f)) (map own_floating_pane_id (map ?g (floats s)))"
  have fold_eq: "fold (\<lambda>(f, _). clear_own_floating_pane_solves f) ps r = fold clear_own_floating_pane_solves (map fst ps) r"
    for ps :: "(floating_pane_id \<times> layout_solve) list" and r
    by (induction ps arbitrary: r) auto
  have eq: "update_floating_pane_sizes viewport s = run s2"
    by (simp add: update_floating_pane_sizes_def s2_def run_def fs_def fold_eq Let_def mark_floating_set_changed_def
        set_update_sizes(1) [symmetric] split: prod.split)
  have run: "focus_operation run"
    unfolding run_def by (rule focus_run_each) (rule hand_off_suppressed_floating_focus.focus_operation_axioms)
  have s2: "floats s2 = map ?g (floats s)" "tabs s2 = tabs s" "panes s2 = panes s" "session_pane_sizing s2 = ?z"
    "own_session_id s2 = own_session_id s" "clients s2 = fold clear_own_floating_pane_solves fs (clients s)"
    by (simp_all add: s2_def mark_floating_set_changed_def)
  have g: "refreshed ?z pane (?g pane)" if "pane \<in> set (floats s)" for pane
    using float_at_solved [OF heldD(1) [OF held] that] by (simp add: resize_refreshed)
  note m = map_floats [OF s2(1,2) g]
  have "floating_area (\<lambda>_. ?z) s2 f = floating_area (\<lambda>_. ?z) s f" if "f \<notin> set fs" for f
    using set_update_sizes(2) [OF that [unfolded fs_def]] float_at_id [of s f] g
    by (cases "float_at s f") (simp_all add: floating_area_def m(1) refreshed_def)
  then have "clients_ok (\<lambda>_. ?z) T F s2"
    using s2 by (intro put_floats_clients [OF heldD(4) [OF held], where cleared = fs]) (simp_all add: fold_clear_registry)
  moreover have "frame_ok (\<lambda>_. ?z) s2" by (rule map_floats_frame [OF heldD(1) [OF held] s2(1-3) g]) simp_all
  ultimately have "held (\<lambda>_. ?z) (\<lambda>_. ?z) T F s2"
    using heldD(2,3) [OF held] by (simp add: held_def s2(2) covers_same_leaves [OF m(2)])
  then show ?thesis
    using focus_operation.keeps_registry [OF run, of s2] s2
    by (simp add: eq focus_operation.keeps_held [OF run] focus_operation.keeps_leaves [OF run] m(2) same_registry_def)
qed

section \<open>A new pane sizing\<close>

text \<open>Only the areas the session has count.\<close>

lemma held_cong:
  assumes "held Y Z T F s"
    and "\<And>t. has_key (tabs s) t \<Longrightarrow> Y' (TabArea t) = Y (TabArea t) \<and> Z' (TabArea t) = Z (TabArea t)"
    and "\<And>f. float_at s f \<noteq> None \<Longrightarrow> Y' (FloatingPaneArea f) = Y (FloatingPaneArea f) \<and> Z' (FloatingPaneArea f) = Z (FloatingPaneArea f)"
  shows "held Y' Z' T F s"
proof -
  have "tab_area Z' s = tab_area Z s" using assms(2) by (auto simp: tab_area_def fun_eq_iff map_option_case split: option.split)
  moreover have "floating_area Z' s = floating_area Z s"
    using assms(3) by (auto simp: floating_area_def fun_eq_iff map_option_case split: option.split)
  moreover have "areas_ok Y' s" using heldD(5) [OF assms(1)] assms(2,3) by (auto simp: areas_ok_def)
  ultimately show ?thesis using assms(1) by (simp add: held_def frame_ok_def clients_ok_def client_ok_def)
qed

lemma sizing_irrelevant:
  "held Y Z T F (s\<lparr>session_pane_sizing := z, view_changes := v\<rparr>) = held Y Z T F s"
  "leaves_of (s\<lparr>session_pane_sizing := z, view_changes := v\<rparr>) = leaves_of s"
proof -
  let ?s = "s\<lparr>session_pane_sizing := z, view_changes := v\<rparr>"
  have at: "float_at ?s = float_at s" by (simp add: float_at_def fun_eq_iff)
  show leaves: "leaves_of ?s = leaves_of s"
  proof
    show "leaves_of ?s a = leaves_of s a" for a by (cases a) (simp_all add: at)
  qed
  show "held Y Z T F ?s = held Y Z T F s"
    by (simp add: held_def frame_ok_def areas_ok_def clients_ok_def client_ok_def tab_area_def [abs_def]
        floating_area_def [abs_def] at covers_same_leaves [OF leaves])
qed

fun sized_tabs :: "tab_id set \<Rightarrow> pane_sizing \<Rightarrow> sizings \<Rightarrow> sizings" where
  "sized_tabs ts z Y (TabArea t) = (if t \<in> ts then z else Y (TabArea t))"
| "sized_tabs ts z Y (FloatingPaneArea f) = Y (FloatingPaneArea f)"

lemma sized_tabs_simps [simp]: "sized_tabs {} z Y = Y" "sized_tabs ts z (Y(TabArea t := z)) = sized_tabs (insert t ts) z Y"
proof -
  show "sized_tabs {} z Y = Y" by (rule ext) (rename_tac a, case_tac a; simp)
  show "sized_tabs ts z (Y(TabArea t := z)) = sized_tabs (insert t ts) z Y" by (rule ext) (rename_tac a, case_tac a; simp)
qed

lemma solve_tab_with_sizing_held:
  assumes held: "held Y Z T F s" and tab: "has_key (tabs s) t"
  shows "held (Y(TabArea t := session_pane_sizing s)) (Z(TabArea t := session_pane_sizing s)) T F (fst (solve_tab_with_sizing t s)) \<and>
    leaves_of (fst (solve_tab_with_sizing t s)) = leaves_of s \<and> same_registry s (fst (solve_tab_with_sizing t s))"
proof -
  from tab obtain tb where tb: "get (tabs s) t = Some tb" by auto
  then obtain tab_size where tab_size: "resolve_tab_solve_size s t = Some tab_size" by (auto simp: resolve_tab_solve_size_def)
  let ?z = "session_pane_sizing s"
  let ?solved = "update_layout_solve ?z ((tab_layout_area tb)\<lparr>area_solved_size := tab_size\<rparr>)"
  let ?s = "put_tab_area t (fst ?solved)
     (area_solved_size (tab_layout_area tb) \<noteq> tab_size \<or> snd ?solved \<noteq> area_layout_solve (fst ?solved)) s"
  have eq: "solve_tab_with_sizing t s = hand_off_suppressed_focus t (Some (snd ?solved)) ?s"
    by (simp add: solve_tab_with_sizing_def put_tab_area_def tb tab_size Let_def split: prod.split)
  have leaves: "leaves_of s (TabArea t) = Some (list_leaf_pane_ids (area_layout (fst ?solved)))" using tb by simp
  then obtain P where P: "T t = Some P" "set (list_leaf_pane_ids (area_layout (fst ?solved))) \<subseteq> P"
    using heldD(3) [OF held] unfolding covers_leaves by blast
  have "held (Y(TabArea t := ?z)) (Z(TabArea t := ?z)) T F ?s"
    by (rule put_tab_area_held [OF held tab _ P]) simp
  moreover have "leaves_of ?s = leaves_of s" using leaves by (simp add: put_tab_area_leaves [OF tab] fun_upd_idem)
  ultimately show ?thesis
    using hand_off_suppressed_focus.keeps_registry [of ?s t "Some (snd ?solved)"]
    by (simp add: eq hand_off_suppressed_focus.keeps_held hand_off_suppressed_focus.keeps_leaves same_registry_def)
qed

lemma run_each_Cons: "fst (run_each g (x # xs) s) = fst (run_each g xs (fst (g x s)))"
  by (simp split: prod.split)

lemma leaves_has_key: "has_key (tabs s) t \<longleftrightarrow> leaves_of s (TabArea t) \<noteq> None"
  by simp

lemma solve_tabs_with_sizing_held:
  assumes "held Y Z T F s" "\<And>t. t \<in> set ts \<Longrightarrow> has_key (tabs s) t"
  shows "held (sized_tabs (set ts) (session_pane_sizing s) Y) (sized_tabs (set ts) (session_pane_sizing s) Z) T F
      (fst (run_each solve_tab_with_sizing ts s)) \<and>
    leaves_of (fst (run_each solve_tab_with_sizing ts s)) = leaves_of s \<and>
    same_registry s (fst (run_each solve_tab_with_sizing ts s))"
  using assms
proof (induction ts arbitrary: s Y Z)
  case (Cons t ts)
  let ?s = "fst (solve_tab_with_sizing t s)" and ?z = "session_pane_sizing s"
  note step = solve_tab_with_sizing_held [OF Cons.prems(1), of t]
  from step Cons.prems(2) have s: "held (Y(TabArea t := ?z)) (Z(TabArea t := ?z)) T F ?s" "leaves_of ?s = leaves_of s"
    "same_registry s ?s" by auto
  have "has_key (tabs ?s) t'" if "t' \<in> set ts" for t'
    using Cons.prems(2) that s(2) unfolding leaves_has_key by simp
  note IH = Cons.IH [OF s(1) this]
  have z: "session_pane_sizing ?s = ?z" using s(3) by (simp add: same_registry_def)
  show ?case
    using IH [unfolded z sized_tabs_simps] s(2) same_registry_trans [OF s(3)]
    unfolding run_each_Cons list.set by auto
qed simp

subsection \<open>Floating panes with a new sizing\<close>

text \<open>A kept solve does not depend on the solve its area stores.\<close>

lemma build_client_solve_stored: "build_client_solve (area\<lparr>area_layout_solve := x\<rparr>) mode h z = build_client_solve area mode h z"
  by (simp add: build_client_solve_def build_zoomed_solve_def split: layout_mode.split)

definition resolved_float :: "pane_sizing \<Rightarrow> floating_pane \<Rightarrow> floating_pane" where
  "resolved_float z pane = pane\<lparr>floating_layout_area := fst (update_layout_solve z (floating_layout_area pane))\<rparr>"

lemma resolved_float_refreshed: "floating_pane_ok pane \<Longrightarrow> refreshed z pane (resolved_float z pane)"
  by (simp add: refreshed_def resolved_float_def floating_pane_ok_def list_floating_pane_ids_def)

lemma resolved_floats_clients:
  assumes ok: "clients_ok Z T F s" and at: "\<And>f. float_at s' f = map_option (resolved_float z) (float_at s f)"
    and stores: "tabs s' = tabs s" "own_session_id s' = own_session_id s" "clients s' = clients s"
  shows "clients_ok Z T F s'"
proof -
  have A: "tab_area Z s' = tab_area Z s" by (simp add: tab_area_def fun_eq_iff stores)
  have B: "view_solve_ok (floating_area Z s' f) w = view_solve_ok (floating_area Z s f) w" for f w
    by (cases "float_at s f")
       (simp_all add: view_solve_ok_def floating_area_def at resolved_float_def update_layout_solve_def build_client_solve_stored)
  from ok show ?thesis by (simp add: clients_ok_def client_ok_def kept_ok_def A B stores)
qed

fun sized_floats :: "floating_pane_id set \<Rightarrow> pane_sizing \<Rightarrow> sizings \<Rightarrow> sizings" where
  "sized_floats fs z Z (TabArea t) = Z (TabArea t)"
| "sized_floats fs z Z (FloatingPaneArea f) = (if f \<in> fs then z else Z (FloatingPaneArea f))"

lemma sized_floats_simps [simp]:
  "sized_floats {} z Z = Z" "sized_floats fs z (Z(FloatingPaneArea f := z)) = sized_floats (insert f fs) z Z"
proof -
  show "sized_floats {} z Z = Z" by (rule ext) (rename_tac a, case_tac a; simp)
  show "sized_floats fs z (Z(FloatingPaneArea f := z)) = sized_floats (insert f fs) z Z" by (rule ext) (rename_tac a, case_tac a; simp)
qed

definition clear_and_hand_off :: "floating_pane_id \<times> layout_solve \<Rightarrow> session \<Rightarrow> session \<times> event list" where
  "clear_and_hand_off = (\<lambda>(f, previous) s. hand_off_suppressed_floating_focus f (Some previous)
     (s\<lparr>clients := clear_own_floating_pane_solves f (clients s)\<rparr>))"

lemma clear_and_hand_off_held:
  assumes held: "held Y Z T F s"
  shows "held Y (Z(FloatingPaneArea (fst x) := z)) T F (fst (clear_and_hand_off x s)) \<and>
    leaves_of (fst (clear_and_hand_off x s)) = leaves_of s \<and> same_registry s (fst (clear_and_hand_off x s))"
proof -
  obtain f previous where [simp]: "x = (f, previous)" by (cases x)
  let ?s = "s\<lparr>clients := clear_own_floating_pane_solves f (clients s)\<rparr>"
  have at: "float_at (s\<lparr>clients := r\<rparr>) = float_at s" for r by (simp add: float_at_def fun_eq_iff)
  have "clients_ok (Z(FloatingPaneArea f := z)) T F ?s"
    by (rule put_floats_clients [OF heldD(4) [OF held], where cleared = "[f]"])
       (simp_all add: clear_own_floating_pane_solves_def clear_floating_solves_def floating_area_def at)
  moreover have "frame_ok Y ?s" using same_layout_frame_ok [OF same_layout_clients heldD(1) [OF held]] .
  moreover have "covers T F ?s" using heldD(3) [OF held] same_layout_ok(1) [OF same_layout_clients] by blast
  ultimately have "held Y (Z(FloatingPaneArea f := z)) T F ?s" using heldD(2) [OF held] by (simp add: held_def)
  moreover have "leaves_of ?s = leaves_of s" by (rule same_layout_leaves) simp
  ultimately show ?thesis
    using hand_off_suppressed_floating_focus.keeps_registry [of ?s f "Some previous"]
    by (simp add: clear_and_hand_off_def hand_off_suppressed_floating_focus.keeps_held
        hand_off_suppressed_floating_focus.keeps_leaves same_registry_def)
qed

lemma clear_and_hand_off_all_held:
  assumes "held Y Z T F s"
  shows "held Y (sized_floats (fst ` set xs) z Z) T F (fst (run_each clear_and_hand_off xs s)) \<and>
    leaves_of (fst (run_each clear_and_hand_off xs s)) = leaves_of s \<and>
    same_registry s (fst (run_each clear_and_hand_off xs s))"
  using assms
proof (induction xs arbitrary: s Z)
  case (Cons x xs)
  note step = clear_and_hand_off_held [OF Cons.prems, of x z]
  from Cons.IH [OF step [THEN conjunct1], unfolded sized_floats_simps] step show ?case
    unfolding run_each_Cons list.set image_insert by (auto intro: same_registry_trans)
qed simp

lemma resolved_floats_held:
  assumes held: "held Y Z T F s" and s1: "s1 = s\<lparr>floats := map (resolved_float z) (floats s)\<rparr>"
  shows "held (sized_floats UNIV z Y) Z T F s1" "leaves_of s1 = leaves_of s"
proof -
  have g: "refreshed z pane (resolved_float z pane)" if "pane \<in> set (floats s)" for pane
    using float_at_solved [OF heldD(1) [OF held] that] by (simp add: resolved_float_refreshed)
  have sel: "floats s1 = map (resolved_float z) (floats s)" "tabs s1 = tabs s" "panes s1 = panes s"
    "own_session_id s1 = own_session_id s" "clients s1 = clients s"
    by (simp_all add: s1)
  note m = map_floats [OF sel(1,2) g]
  show leaves: "leaves_of s1 = leaves_of s" by (rule m(2))
  have "frame_ok (sized_floats UNIV z Y) s1" by (rule map_floats_frame [OF heldD(1) [OF held] sel(1-3) g]) simp_all
  moreover have "clients_ok Z T F s1" by (rule resolved_floats_clients [OF heldD(4) [OF held] m(1) sel(2,4,5)])
  ultimately show "held (sized_floats UNIV z Y) Z T F s1"
    using heldD(2,3) [OF held] by (simp add: held_def covers_same_leaves [OF leaves] sel(2))
qed

lemma solve_floats_with_sizing_held:
  assumes held: "held Y Z T F s"
  shows "held (sized_floats UNIV (session_pane_sizing s) Y) (sized_floats UNIV (session_pane_sizing s) Z) T F
      (fst (solve_floats_with_sizing s)) \<and>
    leaves_of (fst (solve_floats_with_sizing s)) = leaves_of s \<and> same_registry s (fst (solve_floats_with_sizing s))"
proof -
  define z where "z = session_pane_sizing s"
  define s1 where "s1 = s\<lparr>floats := map (resolved_float z) (floats s)\<rparr>"
  define xs where "xs = map (\<lambda>pane. (own_floating_pane_id pane, snd (update_layout_solve z (floating_layout_area pane)))) (floats s)"
  define s2 where "s2 = fst (solve_floats_with_sizing s)"
  have "solve_floats_with_sizing s = run_each clear_and_hand_off xs s1"
    by (simp add: solve_floats_with_sizing_def Let_def clear_and_hand_off_def resolved_float_def [abs_def] case_prod_beta
        comp_def z_def s1_def xs_def)
  with clear_and_hand_off_all_held [OF resolved_floats_held(1) [OF held s1_def], of xs z] resolved_floats_held(2) [OF held s1_def]
  have base: "held (sized_floats UNIV z Y) (sized_floats (fst ` set xs) z Z) T F s2"
    and reg: "same_registry s1 s2" and leaves: "leaves_of s2 = leaves_of s"
    by (simp_all add: s2_def)
  have gone: "f \<in> fst ` set xs" if "float_at s2 f \<noteq> None" for f
  proof -
    from that have "leaves_of s (FloatingPaneArea f) \<noteq> None" unfolding leaves [symmetric] by simp
    then obtain pane where "float_at s f = Some pane" by auto
    from float_at_id [OF this] show ?thesis by (force simp: xs_def)
  qed
  have "held (sized_floats UNIV z Y) (sized_floats UNIV z Z) T F s2"
    by (rule held_cong [OF base]) (simp_all add: gone)
  moreover have "same_registry s s2" using reg by (simp add: same_registry_def s1_def)
  ultimately show ?thesis using leaves unfolding s2_def z_def by blast
qed

lemma update_pane_sizing_held:
  assumes held: "held Y Z T F s"
  shows "held (\<lambda>_. z) (\<lambda>_. z) T F (fst (update_pane_sizing z s)) \<and>
    leaves_of (fst (update_pane_sizing z s)) = leaves_of s \<and> panes (fst (update_pane_sizing z s)) = panes s \<and>
    session_pane_sizing (fst (update_pane_sizing z s)) = z"
proof -
  define s1 where "s1 = (mark_pane_sizing_changed (session_pane_sizing s \<noteq> z) s)\<lparr>session_pane_sizing := z\<rparr>"
  define s2 where "s2 = fst (run_each solve_tab_with_sizing (RBT.keys (tabs s1)) s1)"
  define s3 where "s3 = fst (solve_floats_with_sizing s2)"
  have eq: "fst (update_pane_sizing z s) = fst (minimize_undrawable_floating_panes s3)"
    by (simp add: update_pane_sizing_def s1_def s2_def s3_def andThen_def Let_def case_prod_beta)
  have s1': "s1 = s\<lparr>session_pane_sizing := z, view_changes := view_changes s1\<rparr>"
    by (simp add: s1_def mark_pane_sizing_changed_def)
  have s1: "held Y Z T F s1" "leaves_of s1 = leaves_of s" "session_pane_sizing s1 = z" "panes s1 = panes s"
    using held sizing_irrelevant [where s = s and z = z and v = "view_changes s1", folded s1']
    by (simp_all add: s1_def mark_pane_sizing_changed_def)
  have s2: "held (sized_tabs (set (RBT.keys (tabs s1))) z Y) (sized_tabs (set (RBT.keys (tabs s1))) z Z) T F s2"
    "leaves_of s2 = leaves_of s1" "same_registry s1 s2"
    using solve_tabs_with_sizing_held [OF s1(1), of "RBT.keys (tabs s1)"] by (simp_all add: s2_def s1(3) keys_iff)
  have z2: "session_pane_sizing s2 = z" using s2(3) s1(3) by (simp add: same_registry_def)
  have tabs2: "t \<in> set (RBT.keys (tabs s1))" if "has_key (tabs s2) t" for t
    using that s2(2) unfolding keys_iff leaves_has_key by simp
  have "held (sized_tabs UNIV z Y) (sized_tabs UNIV z Z) T F s2"
    by (rule held_cong [OF s2(1)]) (use tabs2 in auto)
  note s3 = solve_floats_with_sizing_held [OF this, unfolded z2, folded s3_def]
  have const: "sized_floats UNIV z (sized_tabs UNIV z Y) = (\<lambda>_. z)" for Y
    by (rule ext) (rename_tac a, case_tac a; simp)
  have "held (\<lambda>_. z) (\<lambda>_. z) T F s3" using s3 by (simp add: const)
  then show ?thesis
    using s1 s2 s3 z2 minimize_undrawable_floating_panes.keeps_registry [of s3]
    by (simp add: eq minimize_undrawable_floating_panes.keeps_held minimize_undrawable_floating_panes.keeps_leaves same_registry_def)
qed

section \<open>Whole operations\<close>

lemma session_heldD: "session_ok s \<Longrightarrow> held (one_sizing s) (one_sizing s) (tab_panes s) (floating_panes s) s"
  by (simp add: session_ok_held)

lemma update_tab_solve_session: "session_ok s \<Longrightarrow> session_ok (fst (update_tab_solve t s))"
  by (rule session_ok_same_leaves) (use update_tab_solve_held [OF session_heldD] in blast)+

lemma update_floating_pane_sizes_session: "session_ok s \<Longrightarrow> session_ok (fst (update_floating_pane_sizes viewport s))"
  by (rule session_ok_same_leaves) (use update_floating_pane_sizes_held [OF session_heldD] in blast)+

lemma update_pane_sizing_session: "session_ok s \<Longrightarrow> session_ok (fst (update_pane_sizing z s))"
proof -
  assume ok: "session_ok s"
  from update_pane_sizing_held [OF session_heldD [OF ok], of z] ok panes_same_leaves [of "fst (update_pane_sizing z s)" s]
  show ?thesis by (simp add: session_ok_held)
qed

text \<open>A layout edit that rearranges the panes of one tree.\<close>

lemma rearrange_partition:
  assumes part: "partition_of L K" and a: "L a = Some ps" and qs: "distinct qs" "set qs = set ps"
  shows "partition_of (L(a \<mapsto> qs)) K"
proof -
  from partitionD(1) [OF part a] qs have "qs \<noteq> []" "set ps \<subseteq> K" by (metis set_empty, blast)
  with partition_update [OF part, of a ps qs] a qs show ?thesis by (simp add: Un_absorb2 Un_Diff_cancel2)
qed

lemma update_tab_layout_session:
  assumes ok: "session_ok s" and tab: "get (tabs s) t = Some tab"
    and tree: "distinct (list_leaf_pane_ids layout_tree)" "set (list_leaf_pane_ids layout_tree) = set (list_leaf_pane_ids (tab_layout tab))"
  shows "session_ok (fst (update_tab_layout t layout_tree s))"
proof -
  let ?s = "fst (update_tab_layout t layout_tree s)"
  have held: "held (one_sizing s) (one_sizing s) (tab_panes s) (floating_panes s) s" using ok by (simp add: session_ok_held)
  have P: "tab_panes s t = Some (set (list_leaf_pane_ids (tab_layout tab)))" using tab by (simp add: tab_panes_def)
  note u = update_tab_layout_held [OF held _ P] tree(2) tab
  have leaves: "leaves_of ?s = (leaves_of s)(TabArea t \<mapsto> list_leaf_pane_ids layout_tree)" by (rule u) (use u in auto)
  have reg: "same_registry s ?s" by (rule u) (use u in auto)
  show ?thesis
  proof (rule session_okI)
    show "held (one_sizing s) (one_sizing s) (tab_panes s) (floating_panes s) ?s" by (rule u) (use u in auto)
    show "partition_of (leaves_of ?s) (set (RBT.keys (panes ?s)))"
      using ok rearrange_partition [of "leaves_of s" _ "TabArea t"] tab tree reg
      by (simp add: leaves session_ok_def same_registry_def)
    show "tab_panes s t' = map_option set (leaves_of ?s (TabArea t'))" for t'
      using tab tree(2) by (simp add: leaves tab_panes_leaves)
    show "floating_panes s f = map_option set (leaves_of ?s (FloatingPaneArea f))" for f
      by (simp only: leaves floating_panes_leaves) simp
  qed (use reg in \<open>simp_all add: same_registry_def\<close>)
qed

lemma update_floating_pane_layout_session:
  assumes ok: "session_ok s" and pane: "float_at s f = Some pane"
    and tree: "distinct (list_leaf_pane_ids layout_tree)" "set (list_leaf_pane_ids layout_tree) = set (list_floating_pane_ids pane)"
  shows "session_ok (fst (update_floating_pane_layout f layout_tree s))"
proof -
  let ?s = "fst (update_floating_pane_layout f layout_tree s)"
  have held: "held (one_sizing s) (one_sizing s) (tab_panes s) (floating_panes s) s" using ok by (simp add: session_ok_held)
  have P: "floating_panes s f = Some (set (list_floating_pane_ids pane))" using pane by (simp add: floating_panes_def)
  note u = update_floating_pane_layout_held [OF held pane P, of layout_tree]
  have leaves: "leaves_of ?s = (leaves_of s)(FloatingPaneArea f \<mapsto> list_leaf_pane_ids layout_tree)" using u tree(2) by simp
  have reg: "same_registry s ?s" using u tree(2) by simp
  show ?thesis
  proof (rule session_okI)
    show "held (one_sizing s) (one_sizing s) (tab_panes s) (floating_panes s) ?s" using u tree(2) by simp
    show "partition_of (leaves_of ?s) (set (RBT.keys (panes ?s)))"
      using ok rearrange_partition [of "leaves_of s" _ "FloatingPaneArea f"] pane tree reg
      by (simp add: leaves session_ok_def same_registry_def)
    show "tab_panes s t = map_option set (leaves_of ?s (TabArea t))" for t
      by (simp only: leaves tab_panes_leaves) simp
    show "floating_panes s g = map_option set (leaves_of ?s (FloatingPaneArea g))" for g
      using pane tree(2) by (simp add: leaves floating_panes_leaves)
  qed (use reg in \<open>simp_all add: same_registry_def\<close>)
qed

end
