(* ===== verification/Tab_Order.thy ===== *)
theory Tab_Order
  imports Session_Layout
begin

text \<open>
  The display order of the tabs (\<open>koshi-session/src/session/tab_ops.rs\<close>): the bar indices of the tabs
  number them from 0 without a gap, and moving or closing a tab renumbers them.
\<close>

section \<open>Numbered tabs\<close>

definition numbered :: "tab_id list \<Rightarrow> (tab_id, tab) ordered_map \<Rightarrow> bool" where
  "numbered order m \<longleftrightarrow>
     distinct order \<and> set order = set (RBT.keys m) \<and> (\<forall>k < length order. tab_index (the (get m (order ! k))) = k)"

lemma numbered_length: "numbered order m \<Longrightarrow> length order = map_size m"
  unfolding numbered_def by (metis RBT.distinct_keys distinct_card)

lemma numbered_dense: "numbered order m \<Longrightarrow> dense_indices m"
proof -
  assume n: "numbered order m"
  let ?i = "\<lambda>t. tab_index (the (get m t))"
  have idx: "?i t < length order \<and> order ! ?i t = t" if "t \<in> set order" for t
    using that n by (auto simp: numbered_def in_set_conv_nth)
  have "bij_betw ?i (set order) {..<length order}"
  proof (rule bij_betw_byWitness [where f' = "\<lambda>k. order ! k"])
    show "\<forall>t \<in> set order. order ! ?i t = t" using idx by blast
    show "\<forall>k \<in> {..<length order}. ?i (order ! k) = k" using n by (simp add: numbered_def)
    show "?i ` set order \<subseteq> {..<length order}" using idx by auto
    show "(\<lambda>k. order ! k) ` {..<length order} \<subseteq> set order" by auto
  qed
  with n show ?thesis by (simp add: dense_indices_def numbered_length [OF n, symmetric]) (simp add: numbered_def)
qed

lemma numbered_display: "numbered order (tabs s) \<Longrightarrow> list_tab_ids_in_display_order s = order"
proof -
  assume n: "numbered order (tabs s)"
  let ?i = "\<lambda>t. tab_index (the (get (tabs s) t))"
  have "map ?i order = [0..<length order]" using n by (auto simp: numbered_def intro: nth_equalityI)
  then have "sorted (map ?i order)" by simp
  moreover have "inj_on ?i (set (RBT.keys (tabs s)))"
    using numbered_dense [OF n] by (auto simp: dense_indices_def bij_betw_def)
  moreover have "mset order = mset (RBT.keys (tabs s))"
    using n by (auto simp: numbered_def intro: set_eq_iff_mset_eq_distinct [THEN iffD1])
  ultimately show ?thesis
    unfolding list_tab_ids_in_display_order_def by (intro sort_key_inj_key_eq) auto
qed

lemma dense_numbered: "dense_indices (tabs s) \<Longrightarrow> numbered (list_tab_ids_in_display_order s) (tabs s)"
proof -
  assume d: "dense_indices (tabs s)"
  let ?i = "\<lambda>t. tab_index (the (get (tabs s) t))" and ?o = "list_tab_ids_in_display_order s"
  have o: "distinct ?o" "set ?o = set (RBT.keys (tabs s))" "length ?o = map_size (tabs s)"
    by (simp_all add: list_tab_ids_in_display_order_def)
  have "sorted (map ?i ?o)" by (simp add: list_tab_ids_in_display_order_def)
  moreover have "distinct (map ?i ?o)" using d o by (simp add: distinct_map dense_indices_def bij_betw_def)
  moreover have "set (map ?i ?o) = {..<map_size (tabs s)}" using d o by (simp add: dense_indices_def bij_betw_def)
  ultimately have "map ?i ?o = [0..<map_size (tabs s)]"
    by (intro sorted_distinct_set_unique) (auto simp: atLeast0LessThan)
  with o show ?thesis by (simp add: numbered_def) (metis map_nth nth_map nth_upt add_0 o(3))
qed

section \<open>Renumbering\<close>

lemma update_tab_index_sel:
  "get (tabs (update_tab_index t n s)) t' =
     (if t' = t then map_option (\<lambda>tab. tab\<lparr>tab_index := n\<rparr>) (get (tabs s) t) else get (tabs s) t')"
  "floats (update_tab_index t n s) = floats s" "panes (update_tab_index t n s) = panes s"
  "clients (update_tab_index t n s) = clients s" "session_pane_sizing (update_tab_index t n s) = session_pane_sizing s"
  "own_session_id (update_tab_index t n s) = own_session_id s"
  by (auto simp: update_tab_index_def set_tab_index_def mark_tab_bar_changed_def split: option.split)

text \<open>A renumbering keeps everything but the indices.\<close>

definition renumbered :: "session \<Rightarrow> session \<Rightarrow> bool" where
  "renumbered s s' \<longleftrightarrow>
     (\<forall>t. map_option (\<lambda>tab. tab\<lparr>tab_index := 0\<rparr>) (get (tabs s') t) = map_option (\<lambda>tab. tab\<lparr>tab_index := 0\<rparr>) (get (tabs s) t)) \<and>
     floats s' = floats s \<and> panes s' = panes s \<and> clients s' = clients s \<and>
     session_pane_sizing s' = session_pane_sizing s \<and> own_session_id s' = own_session_id s"

lemma renumbered_step: "renumbered s (update_tab_index t n s)"
  by (simp add: renumbered_def update_tab_index_sel option.map_comp comp_def)

lemma renumbered_trans: "renumbered s s' \<Longrightarrow> renumbered s' s'' \<Longrightarrow> renumbered s s''"
  by (simp add: renumbered_def)

lemma renumbered_fold: "renumbered s (fold (\<lambda>(n, t). update_tab_index t (g n)) xs s)"
proof (induction xs arbitrary: s)
  case (Cons x xs)
  show ?case using renumbered_trans [OF renumbered_step Cons.IH] by (simp add: case_prod_beta)
qed (simp add: renumbered_def)

lemma fold_update_tab_index:
  "distinct (map snd xs) \<Longrightarrow>
   get (tabs (fold (\<lambda>(n, t). update_tab_index t (g n)) xs s)) t =
     (case map_of (map prod.swap xs) t of
        Some n \<Rightarrow> map_option (\<lambda>tab. tab\<lparr>tab_index := g n\<rparr>) (get (tabs s) t)
      | None \<Rightarrow> get (tabs s) t)"
proof (induction xs arbitrary: s)
  case (Cons x xs)
  obtain n t' where [simp]: "x = (n, t')" by (cases x)
  have "map_of (map prod.swap xs) t' = None"
    using Cons.prems by (force simp: map_of_eq_None_iff image_iff)
  with Cons.IH [of "update_tab_index t' (g n) s"] Cons.prems show ?case
    by (auto simp: update_tab_index_sel split: option.split)
qed simp

lemma enumerate_swap: "distinct xs \<Longrightarrow> k < length xs \<Longrightarrow> map_of (map prod.swap (enumerate 0 xs)) (xs ! k) = Some k"
proof -
  assume d: "distinct xs" "k < length xs"
  have "map fst (map prod.swap (enumerate 0 xs)) = xs" by (simp add: comp_def map_snd_enumerate)
  then have "distinct (map fst (map prod.swap (enumerate 0 xs)))" using d by simp
  moreover have "(xs ! k, k) \<in> set (map prod.swap (enumerate 0 xs))"
    using d by (force simp: in_set_enumerate_eq)
  ultimately show ?thesis by (rule map_of_is_SomeI)
qed

lemma enumerate_swap_None: "t \<notin> set xs \<Longrightarrow> map_of (map prod.swap (enumerate 0 xs)) t = None"
  by (auto simp: map_of_eq_None_iff in_set_enumerate_eq)

lemma renumbered_keys: "renumbered s s' \<Longrightarrow> RBT.keys (tabs s') = RBT.keys (tabs s)"
proof (rule keys_cong)
  assume r: "renumbered s s'"
  have "get (tabs s') t = None \<longleftrightarrow> get (tabs s) t = None" for t
    using r unfolding renumbered_def by (metis map_option_is_None)
  then show "dom (get (tabs s')) = dom (get (tabs s))" by (auto simp: dom_def)
qed

lemma reindex_numbered: "numbered (list_tab_ids_in_display_order s) (tabs (reindex_tabs_by_display_index s))"
proof -
  let ?o = "list_tab_ids_in_display_order s" and ?s = "reindex_tabs_by_display_index s"
  have o: "distinct ?o" "set ?o = set (RBT.keys (tabs s))" by (simp_all add: list_tab_ids_in_display_order_def)
  have "renumbered s ?s"
    unfolding reindex_tabs_by_display_index_def using renumbered_fold [where g = "\<lambda>n. n"] by simp
  note keys = renumbered_keys [OF this]
  have "tab_index (the (get (tabs ?s) (?o ! k))) = k" if "k < length ?o" for k
  proof -
    have "get (tabs s) (?o ! k) \<noteq> None" using that o(2) nth_mem [OF that] by (simp add: keys_iff)
    with fold_update_tab_index [where g = "\<lambda>n. n" and xs = "enumerate 0 ?o" and s = s] enumerate_swap [OF o(1) that] o(1)
    show ?thesis by (auto simp: reindex_tabs_by_display_index_def)
  qed
  with o show ?thesis by (simp add: numbered_def keys)
qed

section \<open>Moving a tab\<close>

definition inserted_at :: "nat \<Rightarrow> 'a \<Rightarrow> 'a list \<Rightarrow> 'a list" where
  "inserted_at n x xs = take n xs @ x # drop n xs"

lemma nth_inserted_at:
  "n \<le> length xs \<Longrightarrow> k \<le> length xs \<Longrightarrow>
   inserted_at n x xs ! k = (if k < n then xs ! k else if k = n then x else xs ! (k - 1))"
  by (auto simp: inserted_at_def nth_append nth_Cons' min_def)

lemma inserted_at_sets: "set (inserted_at n x xs) = insert x (set xs)" "length (inserted_at n x xs) = Suc (length xs)"
  "x \<notin> set xs \<Longrightarrow> distinct xs \<Longrightarrow> distinct (inserted_at n x xs)"
proof -
  have "set (take n xs) \<union> set (drop n xs) = set xs" by (metis append_take_drop_id set_append)
  then show "set (inserted_at n x xs) = insert x (set xs)" by (auto simp: inserted_at_def)
  show "length (inserted_at n x xs) = Suc (length xs)" by (simp add: inserted_at_def)
  show "x \<notin> set xs \<Longrightarrow> distinct xs \<Longrightarrow> distinct (inserted_at n x xs)"
    using set_take_disj_set_drop_if_distinct [of xs n n] by (auto simp: inserted_at_def dest: in_set_takeD in_set_dropD)
qed

lemma move_tab_numbered:
  assumes tab: "get (tabs s) target = Some tab" and n: "new_index < map_size (tabs s)" "new_index \<noteq> tab_index tab"
  shows "numbered (inserted_at new_index target (filter (\<lambda>t. t \<noteq> target) (list_tab_ids_in_display_order s)))
      (tabs (fst (move_tab target new_index s)))" "renumbered s (fst (move_tab target new_index s))"
proof -
  define others where "others = filter (\<lambda>t. t \<noteq> target) (list_tab_ids_in_display_order s)"
  define g where "g = (\<lambda>k. if new_index \<le> k then k + 1 else k)"
  define s1 where "s1 = fold (\<lambda>(k, t). update_tab_index t (g k)) (enumerate 0 others) s"
  have eq: "fst (move_tab target new_index s) = update_tab_index target new_index s1"
    using assms by (simp add: move_tab_def Let_def s1_def others_def g_def)
  have keys: "distinct (list_tab_ids_in_display_order s)" "set (list_tab_ids_in_display_order s) = set (RBT.keys (tabs s))"
    by (simp_all add: list_tab_ids_in_display_order_def)
  then have o: "distinct others" "set others = set (RBT.keys (tabs s)) - {target}" by (auto simp: others_def)
  have tk: "target \<in> set (RBT.keys (tabs s))" using tab by (simp add: keys_iff)
  have len: "Suc (length others) = map_size (tabs s)"
    using distinct_card [OF o(1)] distinct_card [OF RBT.distinct_keys [of "tabs s"]] tk
      card_Suc_Diff1 [OF List.finite_set tk]
    by (simp add: o(2))
  show r: "renumbered s (fst (move_tab target new_index s))"
    unfolding eq using renumbered_trans [OF renumbered_fold renumbered_step] by (simp add: s1_def)
  have idx: "tab_index (the (get (tabs (fst (move_tab target new_index s))) (others ! k))) = g k" if "k < length others" for k
  proof -
    have ok: "others ! k \<noteq> target" "get (tabs s) (others ! k) \<noteq> None" using nth_mem [OF that] o(2) by (auto simp: keys_iff)
    then show ?thesis
      using fold_update_tab_index [where xs = "enumerate 0 others" and s = s and g = g, folded s1_def] enumerate_swap [OF o(1) that] o(1)
      by (auto simp: eq update_tab_index_sel)
  qed
  have "get (tabs s1) target \<noteq> None"
    using tab o fold_update_tab_index [where xs = "enumerate 0 others" and s = s and g = g and t = target, folded s1_def]
      enumerate_swap_None [of target others] by simp
  then have tgt: "tab_index (the (get (tabs (fst (move_tab target new_index s))) target)) = new_index"
    by (auto simp: eq update_tab_index_sel)
  have "tab_index (the (get (tabs (fst (move_tab target new_index s))) (inserted_at new_index target others ! k))) = k"
    if "k < Suc (length others)" for k
    using that n(1) len idx [of k] idx [of "k - 1"] tgt by (auto simp: nth_inserted_at g_def)
  with o tk show "numbered (inserted_at new_index target (filter (\<lambda>t. t \<noteq> target) (list_tab_ids_in_display_order s)))
      (tabs (fst (move_tab target new_index s)))"
    by (auto simp: numbered_def inserted_at_sets renumbered_keys [OF r] others_def [symmetric])
qed

section \<open>Renumbering keeps the invariant\<close>

lemma renumbered_map:
  assumes "renumbered s s'" and "\<And>tab. g (tab\<lparr>tab_index := 0\<rparr>) = g tab"
  shows "map_option g (get (tabs s') t) = map_option g (get (tabs s) t)"
proof -
  have "map_option g x = map_option g (map_option (\<lambda>tab. tab\<lparr>tab_index := 0\<rparr>) x)" for x
    by (simp add: option.map_comp comp_def assms(2))
  with assms(1) show ?thesis unfolding renumbered_def by metis
qed

lemma renumbered_leaves: "renumbered s s' \<Longrightarrow> leaves_of s' = leaves_of s"
proof
  fix a
  assume r: "renumbered s s'"
  show "leaves_of s' a = leaves_of s a"
  proof (cases a)
    case (TabArea t)
    then show ?thesis using renumbered_map [OF r, of "\<lambda>tab. list_leaf_pane_ids (tab_layout tab)" t] by simp
  next
    case (FloatingPaneArea f)
    with r show ?thesis by (simp add: float_at_def renumbered_def)
  qed
qed

lemma renumbered_held:
  assumes r: "renumbered s s'" and d: "dense_indices (tabs s')" and bare: "bare Y Z T F s"
  shows "held Y Z T F s'"
proof -
  have at: "float_at s' = float_at s" using r by (simp add: float_at_def renumbered_def fun_eq_iff)
  have A: "tab_area Z s' = tab_area Z s"
    unfolding tab_area_def fun_eq_iff by (intro allI renumbered_map [OF r]) simp
  have B: "floating_area Z s' = floating_area Z s" by (simp add: floating_area_def fun_eq_iff at)
  have "own_tab_id tab' = t \<and> mru_ok tab' \<and> solved_with (Y (TabArea t)) (tab_layout_area tab')"
    if tab': "get (tabs s') t = Some tab'" for t tab'
  proof -
    from renumbered_map [OF r, of "\<lambda>tab. (own_tab_id tab, focus_mru tab, tab_layout_area tab)" t] tab'
    obtain tab where "get (tabs s) t = Some tab" "own_tab_id tab' = own_tab_id tab" "focus_mru tab' = focus_mru tab"
      "tab_layout_area tab' = tab_layout_area tab" by (auto simp: map_option_case split: option.splits)
    with bareD(1) [OF bare] show ?thesis by (auto simp: frame_ok_def areas_ok_def mru_ok_def)
  qed
  with bareD(1) [OF bare] r have "frame_ok Y s'" by (simp add: frame_ok_def areas_ok_def at renumbered_def)
  moreover have "clients_ok Z T F s'"
    using bareD(3) [OF bare] r by (simp add: clients_ok_def client_ok_def A B renumbered_def)
  ultimately show ?thesis
    using d bareD(2) [OF bare] covers_same_leaves [OF renumbered_leaves [OF r]] by (simp add: held_def)
qed

lemma renumbered_session:
  assumes "renumbered s s'" "dense_indices (tabs s')" "session_ok s"
  shows "session_ok s'"
  by (rule session_ok_same_leaves [OF assms(3) renumbered_leaves [OF assms(1)]])
     (use assms in \<open>auto simp: same_registry_def renumbered_def session_ok_held held_bare intro: renumbered_held [unfolded held_bare, THEN conjunct1]\<close>)

lemma move_tab_session:
  assumes "session_ok s"
  shows "session_ok (fst (move_tab target new_index s))"
proof (cases "get (tabs s) target")
  case None
  with assms show ?thesis by (simp add: move_tab_def)
next
  case (Some tab)
  show ?thesis
  proof (cases "new_index < map_size (tabs s) \<and> new_index \<noteq> tab_index tab")
    case True
    with move_tab_numbered [OF Some] numbered_dense renumbered_session [OF _ _ assms] show ?thesis by blast
  next
    case False
    with assms Some show ?thesis by (auto simp: move_tab_def)
  qed
qed

text \<open>
  C29. Moving a tab of a session whose bar indices are dense moves it to exactly the requested place: the
  display order is the old order without the tab, with the tab put back at the new index, the indices
  number that order from 0, and nothing else changes.
\<close>

theorem move_tab_display_order:
  assumes "dense_indices (tabs s)" "has_key (tabs s) target" "new_index < map_size (tabs s)"
  shows "list_tab_ids_in_display_order (fst (move_tab target new_index s)) =
      inserted_at new_index target (filter (\<lambda>t. t \<noteq> target) (list_tab_ids_in_display_order s)) \<and>
    dense_indices (tabs (fst (move_tab target new_index s))) \<and> renumbered s (fst (move_tab target new_index s))"
proof -
  from assms(2) obtain tab where tab: "get (tabs s) target = Some tab" by auto
  show ?thesis
  proof (cases "new_index = tab_index tab")
    case False
    from move_tab_numbered [OF tab assms(3) False] show ?thesis by (blast intro: numbered_display numbered_dense)
  next
    case True
    let ?o = "list_tab_ids_in_display_order s"
    from True tab have same: "fst (move_tab target new_index s) = s" by (simp add: move_tab_def)
    note n = dense_numbered [OF assms(1)]
    from n assms(3) have k: "new_index < length ?o" by (simp add: numbered_length)
    have "target \<in> set ?o" using n tab by (simp add: numbered_def keys_iff)
    then obtain j where "j < length ?o" "?o ! j = target" by (auto simp: in_set_conv_nth)
    with n tab True have "?o ! new_index = target" by (auto simp: numbered_def)
    with k have split: "?o = take new_index ?o @ target # drop (Suc new_index) ?o" by (metis id_take_nth_drop)
    have "distinct ?o" using n by (simp add: numbered_def)
    then have d: "target \<notin> set (take new_index ?o)" "target \<notin> set (drop (Suc new_index) ?o)"
      by (subst (asm) split, simp)+
    have "filter (\<lambda>t. t \<noteq> target) (take new_index ?o) = take new_index ?o"
      "filter (\<lambda>t. t \<noteq> target) (drop (Suc new_index) ?o) = drop (Suc new_index) ?o"
      by (rule filter_True; use d in blast)+
    then have "filter (\<lambda>t. t \<noteq> target) ?o = take new_index ?o @ drop (Suc new_index) ?o"
      by (subst split) simp
    then have "inserted_at new_index target (filter (\<lambda>t. t \<noteq> target) ?o) = ?o"
      using k split by (simp add: inserted_at_def min_def)
    with same assms(1) show ?thesis by (simp add: renumbered_def)
  qed
qed

end
