(* ===== verification/Session_Opening.thy ===== *)
theory Session_Opening
  imports Tab_Order
begin

text \<open>
  Attaching clients and opening tabs and panes keep the invariant of the session.
\<close>

section \<open>Steps that leave the layout alone\<close>

lemma fst_andThen: "fst (andThen g h s) = fst (h (fst (g s)))"
  by (simp add: andThen_def split: prod.split)

lemma held_same_layout: "held Y Z T F s \<Longrightarrow> same_layout s s' \<Longrightarrow> clients_ok Z T F s' \<Longrightarrow> held Y Z T F s'"
  unfolding held_def by (metis same_layout_dense same_layout_frame_ok same_layout_ok(1))

lemma session_same_layout:
  assumes "session_ok s" "same_layout s s'" "clients_ok (one_sizing s) (tab_panes s) (floating_panes s) s'"
  shows "session_ok s'"
proof (rule session_ok_same_leaves [OF assms(1) same_layout_leaves [OF assms(2)]])
  show "same_registry s s'" using assms(2) by (simp add: same_registry_def same_layout_def)
  show "held (one_sizing s) (one_sizing s) (tab_panes s) (floating_panes s) s'"
    by (rule held_same_layout [OF session_heldD [OF assms(1)] assms(2,3)])
qed

lemma session_same_clients: "session_ok s \<Longrightarrow> same_layout s s' \<Longrightarrow> clients s' = clients s \<Longrightarrow> session_ok s'"
  using clients_ok_layout session_same_layout heldD(4) [OF session_heldD] by blast

lemma session_update_client:
  assumes ok: "session_ok s" and m: "client_method g"
    and "\<And>c. get_client_by_id (clients s) i = Some c \<Longrightarrow> tab_side_ok (tab_panes s) c \<Longrightarrow> tab_side_ok (tab_panes s) (g c)"
    and "\<And>c. get_client_by_id (clients s) i = Some c \<Longrightarrow> float_side_ok (floating_panes s) c \<Longrightarrow> float_side_ok (floating_panes s) (g c)"
  shows "session_ok (s\<lparr>clients := update_client i g (clients s)\<rparr>)"
  by (rule session_same_layout [OF ok same_layout_clients])
     (rule client_method.keeps_clients [OF m heldD(4) [OF session_heldD [OF ok]] assms(3,4)])

section \<open>Clients come and go\<close>

lemma detach_client_session:
  assumes ok: "session_ok s"
  shows "session_ok (fst (detach_client i s))"
proof (rule session_same_layout [OF ok])
  show "same_layout s (fst (detach_client i s))"
    by (auto simp: detach_client_def registry_detach_client_def same_layout_def update_lifecycle_def Let_def split: option.split)
  have sub: "get_client_by_id (clients (fst (detach_client i s))) j = Some c \<Longrightarrow> get_client_by_id (clients s) j = Some c" for j c
    by (auto simp: detach_client_def registry_detach_client_def update_lifecycle_def Let_def split: option.splits if_splits)
  show "clients_ok (one_sizing s) (tab_panes s) (floating_panes s) (fst (detach_client i s))"
    using heldD(4) [OF session_heldD [OF ok]] same_layout_ok(2) [OF \<open>same_layout s (fst (detach_client i s))\<close>]
    by (auto simp: clients_ok_def dest: sub)
qed

lemma fold_views_side:
  assumes "float_side_ok F c" "distinct (map own_floating_pane_id fs)" "\<And>pane. pane \<in> set fs \<Longrightarrow> F (own_floating_pane_id pane) = None \<and> list_floating_pane_ids pane \<noteq> []"
  shows "float_side_ok (F ++ map_of (map (\<lambda>pane. (own_floating_pane_id pane, set (list_floating_pane_ids pane))) fs))
    (fold (\<lambda>f. add_floating_pane_view f DefaultPosition) fs c)"
  using assms
proof (induction fs arbitrary: F c)
  case (Cons pane fs)
  let ?F = "F(own_floating_pane_id pane \<mapsto> set (list_floating_pane_ids pane))"
  have "float_side_ok ?F (add_floating_pane_view pane DefaultPosition c)"
    using Cons.prems by (intro add_floating_pane_view_side) auto
  moreover have "distinct (map own_floating_pane_id fs)" using Cons.prems(2) by simp
  moreover have "?F (own_floating_pane_id q) = None \<and> list_floating_pane_ids q \<noteq> []" if "q \<in> set fs" for q
    using that Cons.prems(2,3) by (auto simp: image_iff)
  ultimately have IH: "float_side_ok (?F ++ map_of (map (\<lambda>pane. (own_floating_pane_id pane, set (list_floating_pane_ids pane))) fs))
    (fold (\<lambda>f. add_floating_pane_view f DefaultPosition) fs (add_floating_pane_view pane DefaultPosition c))"
    by (rule Cons.IH)
  have "map_of (map (\<lambda>pane. (own_floating_pane_id pane, set (list_floating_pane_ids pane))) fs) (own_floating_pane_id pane) = None"
    using Cons.prems(2) by (simp add: map_of_eq_None_iff image_image)
  then have "?F ++ map_of (map (\<lambda>pane. (own_floating_pane_id pane, set (list_floating_pane_ids pane))) fs) =
    F ++ map_of (map (\<lambda>pane. (own_floating_pane_id pane, set (list_floating_pane_ids pane))) (pane # fs))"
    by (auto simp: map_add_def fun_eq_iff split: option.split)
  with IH show ?case by (simp only: fold_Cons comp_apply)
qed simp

lemma floats_map_of: "map_of (map (\<lambda>pane. (own_floating_pane_id pane, set (list_floating_pane_ids pane))) (floats s)) = floating_panes s"
proof
  fix f
  have "map_of (map (\<lambda>pane. (own_floating_pane_id pane, set (list_floating_pane_ids pane))) fs) f =
    map_option (\<lambda>pane. set (list_floating_pane_ids pane)) (find (\<lambda>pane. own_floating_pane_id pane = f) fs)" for fs
    by (induction fs) auto
  then show "map_of (map (\<lambda>pane. (own_floating_pane_id pane, set (list_floating_pane_ids pane))) (floats s)) f = floating_panes s f"
    by (simp add: floating_panes_def float_at_find)
qed

lemma fold_views_method: "client_method (fold (\<lambda>f. add_floating_pane_view f DefaultPosition) fs)"
  using method_fold [where g = "\<lambda>f. add_floating_pane_view f DefaultPosition" and xs = "\<lambda>_. fs"]
    add_floating_pane_view.client_method_axioms by simp

lemma fold_views_tab_side: "tab_side_ok T (fold (\<lambda>f. add_floating_pane_view f DefaultPosition) fs c) = tab_side_ok T c"
  by (induction fs arbitrary: c) simp_all

lemma float_leaves: "partition_of (leaves_of s) K \<Longrightarrow> distinct (map own_floating_pane_id (floats s)) \<Longrightarrow> pane \<in> set (floats s) \<Longrightarrow>
   list_floating_pane_ids pane \<noteq> [] \<and> float_at s (own_floating_pane_id pane) = Some pane"
proof -
  assume part: "partition_of (leaves_of s) K" and d: "distinct (map own_floating_pane_id (floats s))" and pane: "pane \<in> set (floats s)"
  have "find (\<lambda>q. own_floating_pane_id q = own_floating_pane_id pane) fs = Some pane"
    if "distinct (map own_floating_pane_id fs)" "pane \<in> set fs" for fs
    using that by (induction fs) (auto simp: image_iff)
  with d pane have at: "float_at s (own_floating_pane_id pane) = Some pane" by (simp add: float_at_find)
  with partitionD(1) [OF part, of "FloatingPaneArea (own_floating_pane_id pane)"] show ?thesis by simp
qed

lemma attach_client_session:
  assumes ok: "session_ok s" and tab: "has_key (tabs s) t"
    and c: "c = from_attachment i (own_session_id s) at viewport area t orig lab col"
  shows "session_ok (fst (attach_client c s))"
proof (rule session_same_layout [OF ok])
  let ?c = "fold (\<lambda>f. add_floating_pane_view f DefaultPosition) (floats s) c"
  show same: "same_layout s (fst (attach_client c s))"
    by (simp add: attach_client_def registry_attach_client_def same_layout_def update_lifecycle_def Let_def)
  from ok have part: "partition_of (leaves_of s) (set (RBT.keys (panes s)))" and d: "distinct (map own_floating_pane_id (floats s))"
    by (simp_all add: session_ok_def frame_ok_def)
  have "float_side_ok (Map.empty ++ map_of (map (\<lambda>pane. (own_floating_pane_id pane, set (list_floating_pane_ids pane))) (floats s))) ?c"
    by (rule fold_views_side [OF _ d]) (use float_leaves [OF part d] in \<open>auto simp: c from_attachment_def float_side_ok_def last_opt_def\<close>)
  then have "float_side_ok (floating_panes s) ?c" by (simp add: floats_map_of)
  moreover have "tab_side_ok (tab_panes s) ?c"
    unfolding fold_views_tab_side using tab by (auto simp: tab_side_ok_def c from_attachment_def tab_panes_def)
  moreover have "kept_ok A B ?c" for A B
    by (rule client_method.keeps_solves [OF fold_views_method]) (simp add: c from_attachment_def kept_ok_def)
  moreover have "own_client_id ?c = i" "client_session_id ?c = own_session_id s"
    using client_method.keeps_id [OF fold_views_method] client_method.keeps_session [OF fold_views_method]
    by (simp_all add: c from_attachment_def)
  ultimately have "client_ok (one_sizing s) (tab_panes s) (floating_panes s) s (?c\<lparr>is_view_changed := True\<rparr>)"
    using mark_view_changed.keeps_client [of "one_sizing s" "tab_panes s" "floating_panes s" s ?c True]
    by (simp add: client_ok_def mark_view_changed_def)
       (simp add: kept_ok_def tab_solve_ok_def tab_side_ok_def float_side_ok_def list_focus_history_def get_layout_mode_def)
  moreover have "get_client_by_id (clients (fst (attach_client c s))) j =
    (if j = i then Some (?c\<lparr>is_view_changed := True\<rparr>) else get_client_by_id (clients s) j)" for j
    using \<open>own_client_id ?c = i\<close>
    by (simp add: attach_client_def registry_attach_client_def update_lifecycle_def Let_def)
  ultimately show "clients_ok (one_sizing s) (tab_panes s) (floating_panes s) (fst (attach_client c s))"
    using heldD(4) [OF session_heldD [OF ok]] \<open>own_client_id ?c = i\<close>
    unfolding clients_ok_def same_layout_ok(2) [OF same] by (simp split: if_splits)
qed

section \<open>New panes and tabs\<close>

lemma register_spawned_pane_sel:
  "tabs (register_spawned_pane p spec s) = tabs s" "floats (register_spawned_pane p spec s) = floats s"
  "clients (register_spawned_pane p spec s) = clients s" "session_pane_sizing (register_spawned_pane p spec s) = session_pane_sizing s"
  "own_session_id (register_spawned_pane p spec s) = own_session_id s"
  "set (RBT.keys (panes (register_spawned_pane p spec s))) = insert p (set (RBT.keys (panes s)))"
  "keyed_by_id (panes s) \<Longrightarrow> keyed_by_id (panes (register_spawned_pane p spec s))"
  by (auto simp: register_spawned_pane_def register_pane_record_def from_terminal_pane_def keys_iff keyed_by_id_def
      split: sum.split)

lemma register_spawned_pane_held:
  "held Y Z T F s \<Longrightarrow> held Y Z T F (register_spawned_pane p spec s)" "leaves_of (register_spawned_pane p spec s) = leaves_of s"
proof -
  let ?s = "register_spawned_pane p spec s"
  have at: "float_at ?s = float_at s" by (simp add: float_at_def fun_eq_iff register_spawned_pane_sel)
  show leaves: "leaves_of ?s = leaves_of s"
  proof
    show "leaves_of ?s a = leaves_of s a" for a by (cases a) (simp_all add: at register_spawned_pane_sel)
  qed
  show "held Y Z T F s \<Longrightarrow> held Y Z T F ?s"
    by (simp add: held_def frame_ok_def areas_ok_def clients_ok_def client_ok_def tab_area_def [abs_def]
        floating_area_def [abs_def] at covers_same_leaves [OF leaves] register_spawned_pane_sel)
qed

lemma append_tab_sel:
  "tabs (append_tab t name tree p z s) =
     RBT.insert t (record_focus_mru p (tab_from_layout_tree t name (map_size (tabs s)) tree z (session_pane_sizing s))) (tabs s)"
  "floats (append_tab t name tree p z s) = floats s" "panes (append_tab t name tree p z s) = panes s"
  "clients (append_tab t name tree p z s) = clients s"
  "session_pane_sizing (append_tab t name tree p z s) = session_pane_sizing s"
  "own_session_id (append_tab t name tree p z s) = own_session_id s"
  by (simp_all add: append_tab_def add_tab_def Let_def update_lifecycle_def mark_tab_bar_changed_def record_focus_mru_def
      tab_from_layout_tree_def)

lemma append_dense:
  fixes s :: session
  assumes "dense_indices (tabs s)" "\<not> has_key (tabs s) t" "tab_index tab = map_size (tabs s)"
  shows "dense_indices (RBT.insert t tab (tabs s))"
proof (rule numbered_dense)
  note n = dense_numbered [OF assms(1)]
  let ?o = "list_tab_ids_in_display_order s"
  have t: "t \<notin> set ?o" using n assms(2) by (simp add: numbered_def keys_iff)
  show "numbered (?o @ [t]) (RBT.insert t tab (tabs s))"
    using n t assms(3) numbered_length [OF n]
    by (auto simp: numbered_def nth_append less_Suc_eq)
qed

lemma append_tab_held:
  assumes held: "held (\<lambda>_. session_pane_sizing s) (\<lambda>_. session_pane_sizing s) T F s" and t: "\<not> has_key (tabs s) t"
    and P: "T t = Some P" "set (list_leaf_pane_ids tree) \<subseteq> P"
  shows "held (\<lambda>_. session_pane_sizing s) (\<lambda>_. session_pane_sizing s) T F (append_tab t name tree p z s)"
    "leaves_of (append_tab t name tree p z s) = (leaves_of s)(TabArea t \<mapsto> list_leaf_pane_ids tree)"
proof -
  let ?s = "append_tab t name tree p z s" and ?z = "session_pane_sizing s"
  let ?tab = "record_focus_mru p (tab_from_layout_tree t name (map_size (tabs s)) tree z (session_pane_sizing s))"
  have tab: "own_tab_id ?tab = t" "tab_index ?tab = map_size (tabs s)" "tab_layout ?tab = tree" "mru_ok ?tab"
    "solved_with ?z (tab_layout_area ?tab)"
    by (simp_all add: record_focus_mru_def tab_from_layout_tree_def mru_ok_def area_from_layout_tree_def MAX_TAB_FOCUS_MRU_ENTRY_COUNT_def)
  have at: "float_at ?s = float_at s" by (simp add: float_at_def fun_eq_iff append_tab_sel)
  show leaves: "leaves_of ?s = (leaves_of s)(TabArea t \<mapsto> list_leaf_pane_ids tree)"
  proof
    show "leaves_of ?s a = ((leaves_of s)(TabArea t \<mapsto> list_leaf_pane_ids tree)) a" for a
      by (cases a) (simp_all add: at append_tab_sel tab)
  qed
  have "frame_ok (\<lambda>_. ?z) ?s"
    using heldD(1) [OF held] tab by (auto simp: frame_ok_def areas_ok_def at append_tab_sel split: if_splits)
  moreover have "covers T F ?s" using heldD(3) [OF held] P unfolding covers_leaves leaves by auto
  moreover have "clients_ok (\<lambda>_. ?z) T F ?s"
  proof -
    have B: "floating_area (\<lambda>_. ?z) ?s = floating_area (\<lambda>_. ?z) s" by (simp add: floating_area_def fun_eq_iff at)
    have "tab_solve_ok (tab_area (\<lambda>_. ?z) ?s) c" if "tab_solve_ok (tab_area (\<lambda>_. ?z) s) c" for c
      using that t by (auto simp: tab_solve_ok_def tab_area_def append_tab_sel)
    then show ?thesis
      using heldD(4) [OF held] by (simp add: clients_ok_def client_ok_def kept_ok_def B append_tab_sel)
  qed
  ultimately show "held (\<lambda>_. ?z) (\<lambda>_. ?z) T F ?s"
    using append_dense [OF heldD(2) [OF held] t tab(2)] by (simp add: held_def append_tab_sel)
qed

lemma clients_ok_mono:
  assumes "clients_ok Z T F s"
    and "\<And>i c. get_client_by_id (clients s) i = Some c \<Longrightarrow> tab_side_ok T c \<Longrightarrow> tab_side_ok T' c"
    and "\<And>i c. get_client_by_id (clients s) i = Some c \<Longrightarrow> float_side_ok F c \<Longrightarrow> float_side_ok F' c"
  shows "clients_ok Z T' F' s"
  using assms unfolding clients_ok_def client_ok_def by blast

text \<open>
  A pane that is about to join tab \<open>t\<close>: the clients are well-formed against the tab with the pane. The
  first tab of a session is opened before a client attaches.
\<close>

lemma joining_held:
  assumes ok: "session_ok s" and new: "T = (tab_panes s)(t \<mapsto> P)" "\<And>Q. tab_panes s t = Some Q \<Longrightarrow> Q \<subseteq> P"
    and first: "RBT.is_empty (tabs s) \<Longrightarrow> \<not> has_clients (clients s)"
  shows "held (one_sizing s) (one_sizing s) T (floating_panes s) s"
proof -
  have "tab_side_ok T c" if c: "get_client_by_id (clients s) i = Some c" and side: "tab_side_ok (tab_panes s) c" for i c
  proof (rule tab_side_mono [OF side])
    show "\<exists>P'. T t' = Some P' \<and> Q \<subseteq> P'" if "tab_panes s t' = Some Q" for t' Q
      using that new by (cases "t' = t") auto
    assume "tab_panes s = Map.empty"
    then have "get (tabs s) t' = None" for t' by (metis map_option_is_None tab_panes_def)
    then have "RBT.is_empty (tabs s)" by (metis RBT.is_empty_empty RBT.lookup_empty_empty ext)
    with first c show "T = Map.empty \<or> T (active_tab_id c) \<noteq> None" by (auto simp: has_clients_def)
  qed
  with heldD(4) [OF session_heldD [OF ok]]
  have "clients_ok (one_sizing s) T (floating_panes s) s" by (rule clients_ok_mono)
  moreover have "covers T (floating_panes s) s"
    using new by (auto simp: covers_def split: if_splits)
  ultimately show ?thesis using session_heldD [OF ok] by (simp add: held_def)
qed

text \<open>The end of an operation that gave tab \<open>t\<close> new leaves.\<close>

lemma session_okI_tab:
  assumes held: "held (one_sizing s) (one_sizing s) ((tab_panes s)(t \<mapsto> set ps)) (floating_panes s) s'"
    and leaves: "leaves_of s' = (leaves_of s)(TabArea t \<mapsto> ps)"
    and sizing: "session_pane_sizing s' = session_pane_sizing s"
    and part: "partition_of ((leaves_of s)(TabArea t \<mapsto> ps)) (set (RBT.keys (panes s')))"
  shows "session_ok s'"
proof (rule session_okI [OF held])
  show "((tab_panes s)(t \<mapsto> set ps)) t' = map_option set (leaves_of s' (TabArea t'))" for t'
    by (cases "t' = t") (simp_all add: leaves tab_panes_leaves del: leaves_of.simps)
  show "floating_panes s f = map_option set (leaves_of s' (FloatingPaneArea f))" for f
    by (simp add: leaves floating_panes_leaves del: leaves_of.simps)
qed (simp_all add: sizing part leaves)

lemma update_tab_solve_held':
  assumes "held (\<lambda>_. z) (\<lambda>_. z) T F s" "session_pane_sizing s = z"
  shows "held (\<lambda>_. z) (\<lambda>_. z) T F (fst (update_tab_solve t s))" "leaves_of (fst (update_tab_solve t s)) = leaves_of s"
    "same_registry s (fst (update_tab_solve t s))"
  using update_tab_solve_held [of s T F t] assms by auto

lemma with_client_held:
  assumes "held Y Z T F s" "client_method (\<lambda>c. fst (g c))"
    and "\<And>c. get_client_by_id (clients s) i = Some c \<Longrightarrow> tab_side_ok T c \<Longrightarrow> tab_side_ok T (fst (g c))"
    and "\<And>c. get_client_by_id (clients s) i = Some c \<Longrightarrow> float_side_ok F c \<Longrightarrow> float_side_ok F (fst (g c))"
  shows "held Y Z T F (fst (with_client i g s))"
  by (rule held_same_layout [OF assms(1) with_client_layout])
     (rule with_client_clients [OF assms(2) heldD(4) [OF assms(1)] assms(3,4)])

lemma fst_apply_tiled: "fst (apply_tiled_pane_focus fs t p c) = fst (focus_tiled_pane t p c)"
  by (simp add: apply_tiled_pane_focus_def split: prod.split)

lemma with_client_sel [simp]: "leaves_of (fst (with_client i g s)) = leaves_of s" "same_registry s (fst (with_client i g s))"
  "session_pane_sizing (fst (with_client i g s)) = session_pane_sizing s" "panes (fst (with_client i g s)) = panes s"
  "own_session_id (fst (with_client i g s)) = own_session_id s"
  by (simp_all add: same_layout_leaves [OF with_client_layout]) (simp_all add: with_client_def same_registry_def)

lemma commit_new_tab_session:
  assumes ok: "session_ok s" and t: "\<not> has_key (tabs s) t" and p: "\<not> has_key (panes s) p"
    and first: "RBT.is_empty (tabs s) \<Longrightarrow> \<not> has_clients (clients s)"
  shows "session_ok (fst (commit_new_tab t p name focus_client spec tab_size s))"
proof -
  let ?T = "(tab_panes s)(t \<mapsto> {p})" and ?F = "floating_panes s" and ?Z = "one_sizing s"
  define s1 where "s1 = append_tab t name (Pane p) p tab_size (register_spawned_pane p spec s)"
  have "tab_panes s t = None" using t by (simp add: tab_panes_def)
  with joining_held [OF ok refl _ first, of t "{p}"] have "held ?Z ?Z ?T ?F s" by simp
  note reg = register_spawned_pane_held(1) [OF this, of p spec]
  have z: "session_pane_sizing (register_spawned_pane p spec s) = session_pane_sizing s" by (simp add: register_spawned_pane_sel)
  have s1: "held ?Z ?Z ?T ?F s1" "leaves_of s1 = (leaves_of s)(TabArea t \<mapsto> [p])"
    using append_tab_held [of "register_spawned_pane p spec s" ?T ?F t "{p}" "Pane p"] reg t
    by (simp_all add: s1_def z register_spawned_pane_sel register_spawned_pane_held(2))
  have sel: "session_pane_sizing s1 = session_pane_sizing s" "set (RBT.keys (panes s1)) = insert p (set (RBT.keys (panes s)))"
    by (simp_all add: s1_def append_tab_sel register_spawned_pane_sel)
  have part: "partition_of ((leaves_of s)(TabArea t \<mapsto> [p])) (insert p (set (RBT.keys (panes s))))"
    using partition_update [of "leaves_of s" "set (RBT.keys (panes s))" "TabArea t" "[]" "[p]"] ok t p
    by (simp add: session_ok_def keys_iff)
  have finish: "session_ok s'" if "held ?Z ?Z ?T ?F s'" "leaves_of s' = leaves_of s1" "same_registry s1 s'" for s'
    by (rule session_okI_tab [of s t "[p]"]) (use that s1 sel part in \<open>simp_all add: same_registry_def\<close>)
  show ?thesis
  proof (cases "Option.bind focus_client (\<lambda>i. map_option (Pair i) (get_client_by_id (clients s1) i))")
    case None
    then have "fst (commit_new_tab t p name focus_client spec tab_size s) = s1"
      by (simp add: commit_new_tab_def s1_def Let_def)
    with finish s1 show ?thesis by simp
  next
    case (Some ic)
    obtain i c where [simp]: "ic = (i, c)" by (cases ic)
    define s2 where "s2 = fst (with_client i (\<lambda>c. apply_tiled_pane_focus (floats s1) t p (update_active_tab_id t c)) s1)"
    define s3 where "s3 = fst (update_tab_solve t s2)"
    have eq: "fst (commit_new_tab t p name focus_client spec tab_size s) = fst (update_tab_solve (active_tab_id c) s3)"
      using Some by (simp add: commit_new_tab_def s1_def [symmetric] s2_def s3_def Let_def fst_andThen case_prod_beta)
    have "held ?Z ?Z ?T ?F s2"
      unfolding s2_def
    proof (rule with_client_held [OF s1(1)], unfold fst_apply_tiled)
      show "client_method (\<lambda>c. fst (focus_tiled_pane t p (update_active_tab_id t c)))"
        by (rule method_comp [OF update_active_tab_id.client_method_axioms focus_tiled_pane.client_method_axioms])
    qed (auto intro!: focus_tiled_pane_side [of _ _ t "{p}"] focus_tiled_pane_float_side update_active_tab_side)
    moreover have z2: "session_pane_sizing s2 = session_pane_sizing s" "leaves_of s2 = leaves_of s1" "same_registry s1 s2"
      by (simp_all add: s2_def sel)
    ultimately have s3: "held ?Z ?Z ?T ?F s3" "leaves_of s3 = leaves_of s1" "same_registry s1 s3"
      using update_tab_solve_held' [of "session_pane_sizing s" ?T ?F s2 t] same_registry_trans by (auto simp: s3_def)
    moreover have "session_pane_sizing s3 = session_pane_sizing s" using s3(3) sel by (simp add: same_registry_def)
    ultimately show ?thesis
      using update_tab_solve_held' [of "session_pane_sizing s" ?T ?F s3 "active_tab_id c"] same_registry_trans
      by (intro finish) (auto simp: eq)
  qed
qed

lemma fold_register_sel:
  "tabs (fold (\<lambda>(p, spec). register_spawned_pane p spec) xs s) = tabs s \<and>
   session_pane_sizing (fold (\<lambda>(p, spec). register_spawned_pane p spec) xs s) = session_pane_sizing s \<and>
   leaves_of (fold (\<lambda>(p, spec). register_spawned_pane p spec) xs s) = leaves_of s \<and>
   set (RBT.keys (panes (fold (\<lambda>(p, spec). register_spawned_pane p spec) xs s))) = set (map fst xs) \<union> set (RBT.keys (panes s)) \<and>
   (held Y Z T F s \<longrightarrow> held Y Z T F (fold (\<lambda>(p, spec). register_spawned_pane p spec) xs s))"
  by (induction xs arbitrary: s) (auto simp: register_spawned_pane_sel register_spawned_pane_held)

lemma commit_profile_tab_session:
  assumes ok: "session_ok s" and t: "\<not> has_key (tabs s) t"
    and ps: "list_leaf_pane_ids (profile_layout_tree profile) = profile_pane_ids profile" "distinct (profile_pane_ids profile)"
      "\<And>p. p \<in> set (profile_pane_ids profile) \<Longrightarrow> \<not> has_key (panes s) p"
      "length (profile_pane_specs profile) = length (profile_pane_ids profile)"
    and first: "RBT.is_empty (tabs s) \<Longrightarrow> \<not> has_clients (clients s)"
    and commit: "commit_profile_tab t profile name tab_size s = Some (s', es)"
  shows "session_ok s'"
proof -
  let ?ps = "profile_pane_ids profile" and ?Z = "one_sizing s" and ?F = "floating_panes s"
  let ?T = "(tab_panes s)(t \<mapsto> set ?ps)"
  define s1 where "s1 = fold (\<lambda>(p, spec). register_spawned_pane p spec) (zip ?ps (profile_pane_specs profile)) s"
  from commit obtain p where ne: "?ps \<noteq> []" and s': "s' = append_tab t name (profile_layout_tree profile) p tab_size s1"
    by (auto simp: commit_profile_tab_def s1_def Let_def split: if_splits)
  have "tab_panes s t = None" using t by (simp add: tab_panes_def)
  with joining_held [OF ok refl _ first, of t "set ?ps"] have "held ?Z ?Z ?T ?F s" by simp
  with fold_register_sel [where s = s and xs = "zip ?ps (profile_pane_specs profile)", folded s1_def] ps(4)
  have s1: "held ?Z ?Z ?T ?F s1" "tabs s1 = tabs s" "session_pane_sizing s1 = session_pane_sizing s" "leaves_of s1 = leaves_of s"
    "set (RBT.keys (panes s1)) = set ?ps \<union> set (RBT.keys (panes s))" by auto
  have "held ?Z ?Z ?T ?F s'" "leaves_of s' = (leaves_of s)(TabArea t \<mapsto> ?ps)"
    using append_tab_held [of s1 ?T ?F t "set ?ps" "profile_layout_tree profile"] s1 t ps(1) by (simp_all add: s')
  moreover have "set ?ps \<inter> set (RBT.keys (panes s)) = {}" using ps(3) unfolding disjoint_iff keys_iff by blast
  then have "partition_of ((leaves_of s)(TabArea t \<mapsto> ?ps)) (set ?ps \<union> set (RBT.keys (panes s)))"
    using partition_update [of "leaves_of s" "set (RBT.keys (panes s))" "TabArea t" "[]" ?ps] ok t ps(2) ne
    by (simp add: session_ok_def Un_commute)
  ultimately show ?thesis
    by (intro session_okI_tab [of s t ?ps]) (simp_all add: s' append_tab_sel s1)
qed

section \<open>Focusing a tab\<close>

lemma resolve_tab_target_key:
  assumes "frame_ok Z s" "resolve_tab_target s active target = Some t"
  shows "has_key (tabs s) t"
proof -
  have at: "has_key (tabs s) t" if "find_tab_at_index s n = Some t" for n
    using that assms(1) by (auto simp: find_tab_at_index_def find_Some_iff frame_ok_def map_values_iff in_set_conv_nth)
      (metis map_values_iff nth_mem option.distinct(1))
  show ?thesis
    using assms(2) by (auto simp: resolve_tab_target_def bind_eq_Some_conv split: tab_target.splits if_splits dest: at)
qed

lemma focus_tab_session:
  assumes ok: "session_ok s"
  shows "session_ok (fst (focus_tab i target s))"
proof (cases "get_client_by_id (clients s) i")
  case None
  with ok show ?thesis by (simp add: focus_tab_def)
next
  case (Some c)
  show ?thesis
  proof (cases "resolve_tab_target s (active_tab_id c) target")
    case None
    with ok Some show ?thesis by (simp add: focus_tab_def)
  next
    case t: (Some t)
    let ?s = "s\<lparr>clients := update_client i (update_active_tab_id t) (clients s)\<rparr>"
    from ok have "frame_ok (one_sizing s) s" by (simp add: session_ok_def)
    from resolve_tab_target_key [OF this t] have "tab_panes s t \<noteq> None" by (simp add: tab_panes_def)
    then have "session_ok ?s"
      by (intro session_update_client [OF ok update_active_tab_id.client_method_axioms]) (simp_all add: update_active_tab_side)
    then have "session_ok (fst (update_tab_solve (active_tab_id c) (fst (update_tab_solve t (fst (land_focus i t ?s))))))"
      by (intro update_tab_solve_session land_focus.keeps_session)
    with ok Some t show ?thesis by (simp add: focus_tab_def fst_andThen case_prod_beta)
  qed
qed

section \<open>A new pane in a tab\<close>

lemma join_partition:
  assumes part: "partition_of L K" and a: "L a = Some ps" and p: "p \<notin> K"
    and qs: "distinct qs" "set qs = insert p (set ps)"
  shows "partition_of (L(a \<mapsto> qs)) (insert p K)"
proof -
  from partitionD(1) [OF part a] have "set ps \<subseteq> K" by blast
  then have K: "K - set ps \<union> set qs = insert p K" using qs(2) by blast
  have "qs \<noteq> []" "set qs \<inter> (K - set ps) = {}" using qs(2) p by auto
  with partition_update [OF part _ this(1) qs(1) this(2)] a show ?thesis by (simp add: K)
qed

lemma switch_onto_tab_held:
  assumes "held Y Z T F s" "T t \<noteq> None"
  shows "held Y Z T F (fst (switch_onto_tab t focused s))" "leaves_of (fst (switch_onto_tab t focused s)) = leaves_of s"
    "same_registry s (fst (switch_onto_tab t focused s))" "tabs (fst (switch_onto_tab t focused s)) = tabs s"
proof -
  let ?g = "\<lambda>c. if active_tab_id c \<noteq> t then update_active_tab_id t c else c"
  have m: "client_method ?g" by (rule method_if [OF update_active_tab_id.client_method_axioms method_id])
  have held: "held Y Z T F (s\<lparr>clients := update_client i ?g (clients s)\<rparr>)" for i
    by (rule held_same_layout [OF assms(1) same_layout_clients], rule client_method.keeps_clients [OF m heldD(4) [OF assms(1)]])
       (simp_all add: update_active_tab_side assms(2))
  have leaves: "leaves_of (s\<lparr>clients := r\<rparr>) = leaves_of s" for r by (rule same_layout_leaves) simp
  show "held Y Z T F (fst (switch_onto_tab t focused s))" "leaves_of (fst (switch_onto_tab t focused s)) = leaves_of s"
    "same_registry s (fst (switch_onto_tab t focused s))" "tabs (fst (switch_onto_tab t focused s)) = tabs s"
    using held assms(1) by (simp_all add: switch_onto_tab_def Let_def leaves same_registry_def split: option.split)
qed

lemma change_all_clients_held:
  assumes "held Y Z T F s" "client_method g"
    and "\<And>i c. get_client_by_id (clients s) i = Some c \<Longrightarrow> tab_side_ok T c \<Longrightarrow> tab_side_ok T (g c)"
    and "\<And>i c. get_client_by_id (clients s) i = Some c \<Longrightarrow> float_side_ok F c \<Longrightarrow> float_side_ok F (g c)"
  shows "held Y Z T F (change_all_clients g s)"
  unfolding change_all_clients_def
  by (rule held_same_layout [OF assms(1) same_layout_clients])
     (rule client_method.keeps_all_clients [OF assms(2) heldD(4) [OF assms(1)] assms(3,4)])

lemma change_all_clients_sel [simp]:
  "leaves_of (change_all_clients g s) = leaves_of s" "same_registry s (change_all_clients g s)"
  "tabs (change_all_clients g s) = tabs s" "session_pane_sizing (change_all_clients g s) = session_pane_sizing s"
  by (simp_all add: change_all_clients_def same_registry_def same_layout_leaves)

lemma update_mru_held:
  "held Y Z T F s \<Longrightarrow> held Y Z T F (update_tab t (record_focus_mru p) s)"
  "leaves_of (update_tab t (record_focus_mru p) s) = leaves_of s" "same_registry s (update_tab t (record_focus_mru p) s)"
proof -
  show "held Y Z T F (update_tab t (record_focus_mru p) s)" if "held Y Z T F s"
    using held_same_layout [OF that same_layout_mru] clients_ok_layout [OF heldD(4) [OF that] same_layout_mru] by simp
  show "leaves_of (update_tab t (record_focus_mru p) s) = leaves_of s" by (simp add: same_layout_leaves)
  show "same_registry s (update_tab t (record_focus_mru p) s)" by (simp add: same_registry_def update_tab_def)
qed

lemma commit_new_pane_session:
  assumes ok: "session_ok s" and tab: "get (tabs s) t = Some tab" and p: "\<not> has_key (panes s) p"
    and tree: "distinct (list_leaf_pane_ids candidate_tree)"
      "set (list_leaf_pane_ids candidate_tree) = insert p (set (list_leaf_pane_ids (tab_layout tab)))"
  shows "session_ok (fst (commit_new_pane p t candidate_tree focus_client spec s))"
proof -
  let ?ps = "list_leaf_pane_ids candidate_tree" and ?Z = "one_sizing s" and ?F = "floating_panes s"
  let ?T = "(tab_panes s)(t \<mapsto> set ?ps)"
  have old: "tab_panes s t = Some (set (list_leaf_pane_ids (tab_layout tab)))" using tab by (simp add: tab_panes_def)
  have "\<not> RBT.is_empty (tabs s)" using tab by (auto simp: RBT.is_empty_def)
  with joining_held [OF ok refl, of t "set ?ps"] old tree(2) have "held ?Z ?Z ?T ?F s" by auto
  note sw = switch_onto_tab_held [OF this, of t "attached s focus_client"]
  define s2 where "s2 = register_spawned_pane p spec (fst (switch_onto_tab t (attached s focus_client) s))"
  have s2: "held ?Z ?Z ?T ?F s2" "leaves_of s2 = leaves_of s" "session_pane_sizing s2 = session_pane_sizing s" "tabs s2 = tabs s"
    "set (RBT.keys (panes s2)) = insert p (set (RBT.keys (panes s)))"
    using sw by (simp_all add: s2_def register_spawned_pane_held register_spawned_pane_sel same_registry_def)
  define s3 where "s3 = fst (update_tab_layout t candidate_tree s2)"
  have s3: "held ?Z ?Z ?T ?F s3" "leaves_of s3 = (leaves_of s)(TabArea t \<mapsto> ?ps)" "same_registry s2 s3"
    using update_tab_layout_held [of s2 ?T ?F t "set ?ps" candidate_tree] s2 tab by (simp_all add: s3_def)
  define s4 where "s4 = fst (case attached s focus_client of
        Some i \<Rightarrow> with_client i (\<lambda>c. apply_tiled_pane_focus (floats s3) t p (clear_zoom t c)) (update_tab t (record_focus_mru p) s3)
      | None \<Rightarrow> (change_all_clients (clear_zoom t) s3, []))"
  have "held ?Z ?Z ?T ?F s4 \<and> leaves_of s4 = leaves_of s3 \<and> same_registry s3 s4"
  proof (cases "attached s focus_client")
    case None
    with s3(1) show ?thesis
      by (simp add: s4_def change_all_clients_held clear_zoom.client_method_axioms clear_zoom_side)
  next
    case (Some i)
    have "held ?Z ?Z ?T ?F (fst (with_client i (\<lambda>c. apply_tiled_pane_focus (floats s3) t p (clear_zoom t c)) (update_tab t (record_focus_mru p) s3)))"
    proof (rule with_client_held [OF update_mru_held(1) [OF s3(1)]], unfold fst_apply_tiled)
      show "client_method (\<lambda>c. fst (focus_tiled_pane t p (clear_zoom t c)))"
        by (rule method_comp [OF clear_zoom.client_method_axioms focus_tiled_pane.client_method_axioms])
    qed (use tree(2) in \<open>auto intro!: focus_tiled_pane_side [of _ _ t "set ?ps"] focus_tiled_pane_float_side clear_zoom_side\<close>)
    with Some show ?thesis
      using update_mru_held(3) [of s3 t p] by (simp add: s4_def update_mru_held same_registry_def)
  qed
  then have s4: "held ?Z ?Z ?T ?F s4" "leaves_of s4 = leaves_of s3" "same_registry s2 s4"
    using same_registry_trans [OF s3(3)] by auto
  have finish: "session_ok s'" if "held ?Z ?Z ?T ?F s'" "leaves_of s' = leaves_of s3" "same_registry s2 s'" for s'
  proof (rule session_okI_tab [of s t ?ps])
    show "partition_of ((leaves_of s)(TabArea t \<mapsto> ?ps)) (set (RBT.keys (panes s')))"
      using join_partition [of "leaves_of s" "set (RBT.keys (panes s))" "TabArea t" _ p ?ps] ok tab tree p that(3) s2(5)
      by (simp add: session_ok_def keys_iff same_registry_def)
  qed (use that s3 s2 in \<open>simp_all add: same_registry_def\<close>)
  define previous where "previous = fst (snd (switch_onto_tab t (attached s focus_client) s))"
  have eq: "fst (commit_new_pane p t candidate_tree focus_client spec s) =
      (case previous of Some previous \<Rightarrow> fst (update_tab_solve previous (fst (update_tab_solve t s4))) | None \<Rightarrow> s4)"
    unfolding commit_new_pane_def Let_def s4_def s3_def s2_def
    by (cases previous; simp add: tab fst_andThen case_prod_beta previous_def)
  have z4: "session_pane_sizing s4 = session_pane_sizing s" using s4(3) s2(3) by (simp add: same_registry_def)
  note u = update_tab_solve_held' [OF s4(1) z4, of t]
  have zu: "session_pane_sizing (fst (update_tab_solve t s4)) = session_pane_sizing s" using u(3) z4 by (simp add: same_registry_def)
  note v = update_tab_solve_held' [OF u(1) zu]
  show ?thesis
  proof (cases previous)
    case None
    with finish s4 show ?thesis by (simp add: eq)
  next
    case (Some q)
    have "session_ok (fst (update_tab_solve q (fst (update_tab_solve t s4))))"
      by (rule finish [OF v(1)])
         (use u v [of q] s4 same_registry_trans [OF s4(3) same_registry_trans [OF u(3) v(3)]] in simp_all)
    with Some show ?thesis by (simp add: eq)
  qed
qed

section \<open>New floating panes\<close>

lemma set_add_floating_pane_ok:
  "set_add_floating_pane pane fs = Inr fs' \<Longrightarrow> fs' = fs @ [pane] \<and> length fs < MAX_FLOATING_PANES_PER_SESSION"
  by (auto simp: set_add_floating_pane_def is_full_def split: option.splits if_splits)

lemma joining_float_held:
  assumes ok: "session_ok s" and at: "float_at s (own_floating_pane_id pane) = None" and pane: "list_floating_pane_ids pane \<noteq> []"
      "floating_pane_ok pane" "solved_with (session_pane_sizing s) (floating_layout_area pane)"
    and add: "session_add_floating_pane pane positions s = Inr s1"
  shows "held (one_sizing s) (one_sizing s) (tab_panes s)
      ((floating_panes s)(own_floating_pane_id pane \<mapsto> set (list_floating_pane_ids pane))) s1"
    "leaves_of s1 = (leaves_of s)(FloatingPaneArea (own_floating_pane_id pane) \<mapsto> list_floating_pane_ids pane)"
    "same_registry s s1"
proof -
  let ?f = "own_floating_pane_id pane" and ?Z = "one_sizing s"
  let ?F = "(floating_panes s)(?f \<mapsto> set (list_floating_pane_ids pane))"
  let ?g = "\<lambda>c. add_floating_pane_view pane (case map_of positions (own_client_id c) of Some pos \<Rightarrow> pos | None \<Rightarrow> DefaultPosition) c"
  from add set_add_floating_pane_ok [of pane "floats s"]
  have s1: "floats s1 = floats s @ [pane]" "length (floats s) < MAX_FLOATING_PANES_PER_SESSION" "tabs s1 = tabs s" "panes s1 = panes s"
    "session_pane_sizing s1 = session_pane_sizing s" "own_session_id s1 = own_session_id s" "clients s1 = update_all_clients ?g (clients s)"
    by (auto simp: session_add_floating_pane_def mark_floating_set_changed_def split: sum.splits)
  note held = session_heldD [OF ok]
  have none: "\<forall>q \<in> set (floats s). own_floating_pane_id q \<noteq> ?f" using at by (auto simp: float_at_find find_None_iff)
  have find_app: "find P (xs @ [x]) = (case find P xs of Some y \<Rightarrow> Some y | None \<Rightarrow> if P x then Some x else None)" for P xs and x :: floating_pane
    by (induction xs) auto
  have at1: "float_at s1 f = (if f = ?f then Some pane else float_at s f)" for f
    using at by (auto simp: float_at_find s1 find_app split: option.split)
  show leaves: "leaves_of s1 = (leaves_of s)(FloatingPaneArea ?f \<mapsto> list_floating_pane_ids pane)"
  proof
    show "leaves_of s1 a = ((leaves_of s)(FloatingPaneArea ?f \<mapsto> list_floating_pane_ids pane)) a" for a
      by (cases a) (simp_all add: s1 at1)
  qed
  show "same_registry s s1" by (simp add: same_registry_def s1)
  have "frame_ok ?Z s1"
    using heldD(1) [OF held] none pane s1(2) by (auto simp: frame_ok_def areas_ok_def s1 at1 Suc_le_eq split: if_splits)
  moreover have "covers (tab_panes s) ?F s1"
    using heldD(3) [OF held] unfolding covers_leaves leaves by auto
  moreover have "clients_ok ?Z (tab_panes s) ?F s1"
  proof -
    have A: "tab_area ?Z s1 = tab_area ?Z s" by (simp add: tab_area_def fun_eq_iff s1)
    have new: "floating_panes s ?f = None" using at by (simp add: floating_panes_def)
    have "client_ok ?Z (tab_panes s) ?F s1 (?g c)" if c: "client_ok ?Z (tab_panes s) (floating_panes s) s c" for c
    proof -
      from c have side: "float_side_ok (floating_panes s) c" by (simp add: client_ok_def)
      then have nov: "get (floating_pane_view_by_id c) ?f = None" using new unfolding float_side_ok_def by (metis domIff)
      have "view_solve_ok (floating_area ?Z s1 f) w" if "get (floating_pane_view_by_id (?g c)) f = Some w" for f w
        using that c nov by (auto simp: add_floating_pane_view_def client_ok_def kept_ok_def floating_area_def at1 split: if_splits)
      moreover have "tab_solve_ok (tab_area ?Z s) (?g c)"
        using c by (auto simp: client_ok_def kept_ok_def add_floating_pane_view_def tab_solve_ok_def list_focus_history_def get_layout_mode_def)
      ultimately show ?thesis
        using c add_floating_pane_view_side [OF side new pane(1)]
        by (simp add: client_ok_def kept_ok_def A s1 add_floating_pane_view.keeps_session)
    qed
    then show ?thesis
      using heldD(4) [OF held] by (auto simp: clients_ok_def s1 update_all_clients_def add_floating_pane_view.keeps_id)
  qed
  ultimately show "held ?Z ?Z (tab_panes s) ?F s1" using heldD(2) [OF held] by (simp add: held_def s1)
qed

lemma session_okI_float:
  assumes held: "held (one_sizing s) (one_sizing s) (tab_panes s) ((floating_panes s)(f \<mapsto> set ps)) s'"
    and leaves: "leaves_of s' = (leaves_of s)(FloatingPaneArea f \<mapsto> ps)"
    and sizing: "session_pane_sizing s' = session_pane_sizing s"
    and part: "partition_of ((leaves_of s)(FloatingPaneArea f \<mapsto> ps)) (set (RBT.keys (panes s')))"
  shows "session_ok s'"
proof (rule session_okI [OF held])
  show "((floating_panes s)(f \<mapsto> set ps)) f' = map_option set (leaves_of s' (FloatingPaneArea f'))" for f'
    by (cases "f' = f") (simp_all add: leaves floating_panes_leaves del: leaves_of.simps)
  show "tab_panes s t = map_option set (leaves_of s' (TabArea t))" for t
    by (simp add: leaves tab_panes_leaves del: leaves_of.simps)
qed (simp_all add: sizing part leaves)

lemma show_new_floating_pane_held:
  assumes "held Y Z T F s"
  shows "held Y Z T F (fst (show_new_floating_pane i f s))" "leaves_of (fst (show_new_floating_pane i f s)) = leaves_of s"
    "same_registry s (fst (show_new_floating_pane i f s))"
  using assms
  by (auto simp: show_new_floating_pane_def Let_def focus_floating_pane.client_method_axioms focus_floating_pane_side
      intro!: with_client_held split: option.split)

lemma commit_new_floating_pane_session:
  assumes ok: "session_ok s" and fresh: "float_at s fresh = None" and p: "\<not> has_key (panes s) p"
    and commit: "commit_new_floating_pane fresh p desired solved_size acting_view spec s = Inr (s', es)"
  shows "session_ok s'"
proof -
  let ?pane = "floating_pane_from_pane fresh p desired solved_size (session_pane_sizing s)"
  let ?F = "(floating_panes s)(fresh \<mapsto> {p})" and ?Z = "one_sizing s"
  have pane: "own_floating_pane_id ?pane = fresh" "list_floating_pane_ids ?pane = [p]" "floating_pane_ok ?pane"
    "solved_with (session_pane_sizing s) (floating_layout_area ?pane)"
    by (simp_all add: floating_pane_from_pane_def list_floating_pane_ids_def floating_pane_ok_def area_from_layout_tree_def)
  from commit obtain s1 where add: "session_add_floating_pane ?pane (option_list acting_view) s = Inr s1"
    by (auto simp: commit_new_floating_pane_def split: sum.splits)
  define s2 where "s2 = register_spawned_pane p spec s1"
  from commit add have s': "s' = (case acting_view of Some (i, _) \<Rightarrow> fst (show_new_floating_pane i fresh s2) | None \<Rightarrow> s2)"
    by (auto simp: commit_new_floating_pane_def s2_def Let_def split: option.splits prod.splits)
  note j = joining_float_held [OF ok _ _ _ _ add, unfolded pane list.set]
  have j: "held ?Z ?Z (tab_panes s) ?F s1" "leaves_of s1 = (leaves_of s)(FloatingPaneArea fresh \<mapsto> [p])" "same_registry s s1"
    using j fresh pane by auto
  have s2: "held ?Z ?Z (tab_panes s) ?F s2" "leaves_of s2 = (leaves_of s)(FloatingPaneArea fresh \<mapsto> [p])"
    "session_pane_sizing s2 = session_pane_sizing s" "set (RBT.keys (panes s2)) = insert p (set (RBT.keys (panes s)))"
    using j by (simp_all add: s2_def register_spawned_pane_held register_spawned_pane_sel same_registry_def)
  have "held ?Z ?Z (tab_panes s) ?F s'" "leaves_of s' = leaves_of s2" "same_registry s2 s'"
    using s2(1) show_new_floating_pane_held [OF s2(1)] by (auto simp: s' split: option.split)
  moreover have "partition_of ((leaves_of s)(FloatingPaneArea fresh \<mapsto> [p])) (insert p (set (RBT.keys (panes s))))"
    using partition_update [of "leaves_of s" "set (RBT.keys (panes s))" "FloatingPaneArea fresh" "[]" "[p]"] ok fresh p
    by (simp add: session_ok_def keys_iff)
  ultimately show ?thesis
    by (intro session_okI_float [of s fresh "[p]"]) (use s2 in \<open>simp_all add: same_registry_def\<close>)
qed

lemma fst_apply_floating:
  "fst (apply_floating_pane_focus fs f p c) = update_floating_pane_focused_pane f p (fst (focus_floating_pane f c))"
  by (simp add: apply_floating_pane_focus_def Let_def split: prod.split)

text \<open>A pane that is about to join floating pane \<open>f\<close>.\<close>

lemma joining_in_float_held:
  assumes ok: "session_ok s" and Q: "floating_panes s f = Some Q" "Q \<subseteq> P"
  shows "held (one_sizing s) (one_sizing s) (tab_panes s) ((floating_panes s)(f \<mapsto> P)) s"
proof -
  let ?F = "(floating_panes s)(f \<mapsto> P)"
  note held = session_heldD [OF ok]
  have "float_side_ok ?F c" if "float_side_ok (floating_panes s) c" for c
    by (rule float_side_mono [OF that]) (use Q in \<open>auto split: if_splits\<close>)
  then have "clients_ok (one_sizing s) (tab_panes s) ?F s" by (intro clients_ok_mono [OF heldD(4) [OF held]])
  moreover have "covers (tab_panes s) ?F s" using Q by (auto simp: covers_def split: if_splits)
  ultimately show ?thesis using held by (simp add: held_def)
qed

lemma commit_new_pane_in_floating_pane_session:
  assumes ok: "session_ok s" and at: "float_at s f = Some pane" and p: "\<not> has_key (panes s) p"
    and tree: "distinct (list_leaf_pane_ids candidate_tree)"
      "set (list_leaf_pane_ids candidate_tree) = insert p (set (list_floating_pane_ids pane))"
  shows "session_ok (fst (commit_new_pane_in_floating_pane p f candidate_tree focus_client spec s))"
proof -
  let ?ps = "list_leaf_pane_ids candidate_tree" and ?Z = "one_sizing s" and ?T = "tab_panes s"
  let ?F = "(floating_panes s)(f \<mapsto> set ?ps)"
  define s1 where "s1 = register_spawned_pane p spec s"
  have at1: "float_at s1 f = Some pane" using at by (simp add: s1_def float_at_def register_spawned_pane_sel)
  have "held ?Z ?Z ?T ?F s" by (rule joining_in_float_held [OF ok]) (use at tree(2) in \<open>auto simp: floating_panes_def\<close>)
  then have s1: "held ?Z ?Z ?T ?F s1" "leaves_of s1 = leaves_of s" "session_pane_sizing s1 = session_pane_sizing s"
    "set (RBT.keys (panes s1)) = insert p (set (RBT.keys (panes s)))"
    by (simp_all add: s1_def register_spawned_pane_held register_spawned_pane_sel)
  define s2 where "s2 = fst (update_floating_pane_layout f candidate_tree s1)"
  have s2: "held ?Z ?Z ?T ?F s2" "leaves_of s2 = (leaves_of s)(FloatingPaneArea f \<mapsto> ?ps)" "same_registry s1 s2"
    using update_floating_pane_layout_held [of s1 ?T ?F f pane "set ?ps" candidate_tree] s1 at1 by (simp_all add: s2_def)
  obtain e where found: "find_floating_pane_by_id (floats s) f = Some e" using at by (auto simp: float_at_def)
  define s3 where "s3 = fst (commit_new_pane_in_floating_pane p f candidate_tree focus_client spec s)"
  have focus: "float_side_ok ?F (update_floating_pane_focused_pane f p c)" if "float_side_ok ?F c" for c
    by (rule update_floating_pane_focused_pane_side [where P = "set ?ps"]) (use that tree(2) in auto)
  have "held ?Z ?Z ?T ?F s3 \<and> leaves_of s3 = leaves_of s2 \<and> same_registry s2 s3"
  proof (cases "attached s2 focus_client")
    case None
    then have "s3 = change_all_clients (clear_floating_pane_zoom f) s2"
      using found by (simp add: s3_def commit_new_pane_in_floating_pane_def fst_andThen case_prod_beta
          s1_def [symmetric] s2_def [symmetric])
    with s2(1) show ?thesis
      by (simp add: change_all_clients_held clear_floating_pane_zoom.client_method_axioms clear_floating_pane_zoom_side)
  next
    case (Some i)
    define g where "g = (\<lambda>c. let c' = clear_floating_pane_zoom f c
                              in if (case get_client_by_id (clients s2) i of Some c \<Rightarrow> can_client_draw_floating_panes s2 c | None \<Rightarrow> False)
                                 then apply_floating_pane_focus (floats s2) f p c' else (update_floating_pane_focused_pane f p c', []))"
    have eq: "s3 = fst (with_client i g s2)"
      using found Some unfolding s3_def g_def s2_def s1_def commit_new_pane_in_floating_pane_def Let_def
      by (simp add: fst_andThen case_prod_beta)
    have fst_g: "fst (g c) = update_floating_pane_focused_pane f p
        (if (case get_client_by_id (clients s2) i of Some c \<Rightarrow> can_client_draw_floating_panes s2 c | None \<Rightarrow> False)
         then fst (focus_floating_pane f (clear_floating_pane_zoom f c)) else clear_floating_pane_zoom f c)" for c
      by (simp add: g_def Let_def fst_apply_floating)
    have "held ?Z ?Z ?T ?F s3"
      unfolding eq
    proof (rule with_client_held [OF s2(1)], unfold fst_g)
      show "client_method (\<lambda>c. update_floating_pane_focused_pane f p
        (if (case get_client_by_id (clients s2) i of Some c \<Rightarrow> can_client_draw_floating_panes s2 c | None \<Rightarrow> False)
         then fst (focus_floating_pane f (clear_floating_pane_zoom f c)) else clear_floating_pane_zoom f c))"
        by (rule method_comp [OF method_if [OF method_comp [OF clear_floating_pane_zoom.client_method_axioms
                focus_floating_pane.client_method_axioms] clear_floating_pane_zoom.client_method_axioms]
              update_floating_pane_focused_pane.client_method_axioms])
    qed (simp_all add: focus focus_floating_pane_side clear_floating_pane_zoom_side)
    then show ?thesis by (simp add: eq)
  qed
  moreover have "partition_of ((leaves_of s)(FloatingPaneArea f \<mapsto> ?ps)) (insert p (set (RBT.keys (panes s))))"
    using join_partition [of "leaves_of s" "set (RBT.keys (panes s))" "FloatingPaneArea f" _ p ?ps] ok at tree p
    by (simp add: session_ok_def keys_iff)
  ultimately show ?thesis
    unfolding s3_def [symmetric]
    by (intro session_okI_float [of s f ?ps]) (use s1 s2 in \<open>simp_all add: same_registry_def\<close>)
qed

end
