(* ===== verification/Session_Closing.thy ===== *)
theory Session_Closing
  imports Session_Opening
begin

text \<open>
  Removing panes, floating panes and tabs keeps the invariant of the session, down to the quit of a
  session that lost its last tab.
\<close>

section \<open>Dropping records\<close>

lemma drop_pane_records_sel:
  "tabs (drop_pane_records ps s) = tabs s" "floats (drop_pane_records ps s) = floats s"
  "clients (drop_pane_records ps s) = clients s" "session_pane_sizing (drop_pane_records ps s) = session_pane_sizing s"
  "own_session_id (drop_pane_records ps s) = own_session_id s"
  "set (RBT.keys (panes (drop_pane_records ps s))) = set (RBT.keys (panes s)) - set ps"
  "keyed_by_id (panes s) \<Longrightarrow> keyed_by_id (panes (drop_pane_records ps s))"
proof -
  have *: "set (RBT.keys (fold (\<lambda>p r. snd (remove_pane_record p r)) ps r)) = set (RBT.keys r) - set ps \<and>
    (keyed_by_id r \<longrightarrow> keyed_by_id (fold (\<lambda>p r. snd (remove_pane_record p r)) ps r))" for r
    by (induction ps arbitrary: r) (auto simp: keyed_remove, auto simp: remove_pane_record_def)
  show "set (RBT.keys (panes (drop_pane_records ps s))) = set (RBT.keys (panes s)) - set ps"
    "keyed_by_id (panes s) \<Longrightarrow> keyed_by_id (panes (drop_pane_records ps s))"
    using * [of "panes s"] by (simp_all add: drop_pane_records_def)
qed (simp_all add: drop_pane_records_def)

lemma drop_pane_records_held:
  "held Y Z T F s \<Longrightarrow> held Y Z T F (drop_pane_records ps s)" "leaves_of (drop_pane_records ps s) = leaves_of s"
proof -
  let ?s = "drop_pane_records ps s"
  have at: "float_at ?s = float_at s" by (simp add: float_at_def fun_eq_iff drop_pane_records_sel)
  show leaves: "leaves_of ?s = leaves_of s"
  proof
    show "leaves_of ?s a = leaves_of s a" for a by (cases a) (simp_all add: at drop_pane_records_sel)
  qed
  show "held Y Z T F s \<Longrightarrow> held Y Z T F ?s"
    by (simp add: held_def frame_ok_def areas_ok_def clients_ok_def client_ok_def tab_area_def [abs_def]
        floating_area_def [abs_def] at covers_same_leaves [OF leaves] drop_pane_records_sel)
qed

section \<open>Removing a floating pane\<close>

lemma find_enumerate_Some:
  "find (\<lambda>(_, x). P x) (enumerate n xs) = Some (k, x) \<Longrightarrow> n \<le> k \<and> k - n < length xs \<and> xs ! (k - n) = x \<and> P x"
proof (induction xs arbitrary: n)
  case (Cons y ys)
  show ?case
  proof (cases "P y")
    case False
    with Cons have "Suc n \<le> k \<and> k - Suc n < length ys \<and> ys ! (k - Suc n) = x \<and> P x" by simp
    then show ?thesis by (auto simp: nth_Cons' Suc_diff_le)
  qed (use Cons.prems in simp)
qed simp

lemma remove_nth_floats:
  assumes n: "find_floating_pane_by_id fs f = Some (n, pane)" and d: "distinct (map own_floating_pane_id fs)"
  shows "find (\<lambda>pane. own_floating_pane_id pane = f') (remove_nth n fs) =
      (if f' = f then None else find (\<lambda>pane. own_floating_pane_id pane = f') fs)"
    "distinct (map own_floating_pane_id (remove_nth n fs))" "set (remove_nth n fs) \<subseteq> set fs" "length (remove_nth n fs) \<le> length fs"
proof -
  from find_enumerate_Some [OF n [unfolded find_floating_pane_by_id_def]]
  have nth: "n < length fs" "fs ! n = pane" "own_floating_pane_id pane = f" by auto
  define pre post where "pre = take n fs" and "post = drop (Suc n) fs"
  have fs: "fs = pre @ pane # post" using nth unfolding pre_def post_def by (metis id_take_nth_drop)
  have rem: "remove_nth n fs = pre @ post" by (simp add: remove_nth_def pre_def post_def)
  have find_app: "find P (xs @ ys) = (case find P xs of Some y \<Rightarrow> Some y | None \<Rightarrow> find P ys)" for P and xs ys :: "floating_pane list"
    by (induction xs) auto
  have gone: "f \<notin> own_floating_pane_id ` set (pre @ post)" using d nth(3) by (auto simp: fs)
  then have "find (\<lambda>pane. own_floating_pane_id pane = f) (pre @ post) = None" by (auto simp: find_None_iff)
  moreover have "find (\<lambda>pane. own_floating_pane_id pane = f') (pre @ post) = find (\<lambda>pane. own_floating_pane_id pane = f') fs" if "f' \<noteq> f"
    using that nth(3) by (simp add: fs find_app split: option.split)
  ultimately show "find (\<lambda>pane. own_floating_pane_id pane = f') (remove_nth n fs) =
      (if f' = f then None else find (\<lambda>pane. own_floating_pane_id pane = f') fs)" by (simp add: rem)
  show "distinct (map own_floating_pane_id (remove_nth n fs))" using d unfolding rem by (auto simp: fs)
  show "set (remove_nth n fs) \<subseteq> set fs" "length (remove_nth n fs) \<le> length fs" unfolding rem by (auto simp: fs)
qed

lemma remove_floating_pane_held:
  assumes held: "held (\<lambda>_. z) (\<lambda>_. z) T F s" and pane: "float_at s f = Some pane" and s': "s' = fst (session_remove_floating_pane f s)"
  shows "held (\<lambda>_. z) (\<lambda>_. z) T (F(f := None)) s'" "leaves_of s' = (leaves_of s)(FloatingPaneArea f := None)"
    "same_registry s s'" "tabs s' = tabs s"
proof -
  from pane obtain n where n: "find_floating_pane_by_id (floats s) f = Some (n, pane)" by (auto simp: float_at_Some)
  have sel: "floats s' = remove_nth n (floats s)" "tabs s' = tabs s" "panes s' = panes s" "session_pane_sizing s' = session_pane_sizing s"
    "own_session_id s' = own_session_id s" "clients s' = update_all_clients (remove_floating_pane_view f) (clients s)"
    by (simp_all add: s' session_remove_floating_pane_def n mark_floating_set_changed_def)
  show "same_registry s s'" "tabs s' = tabs s" by (simp_all add: same_registry_def sel)
  have "distinct (map own_floating_pane_id (floats s))" using heldD(1) [OF held] by (simp add: frame_ok_def)
  note rem = remove_nth_floats [OF n this, folded sel(1)]
  have at: "float_at s' f' = (if f' = f then None else float_at s f')" for f' by (simp add: float_at_find rem(1))
  show leaves: "leaves_of s' = (leaves_of s)(FloatingPaneArea f := None)"
  proof
    show "leaves_of s' a = ((leaves_of s)(FloatingPaneArea f := None)) a" for a by (cases a) (simp_all add: at sel)
  qed
  have "frame_ok (\<lambda>_. z) s'"
    using heldD(1) [OF held] rem(2-4) unfolding frame_ok_def areas_ok_def at sel(2,3) by (auto split: if_splits)
  moreover have "covers T (F(f := None)) s'" using heldD(3) [OF held] unfolding covers_leaves leaves by auto
  moreover have "clients_ok (\<lambda>_. z) T (F(f := None)) s'"
  proof -
    have A: "tab_area (\<lambda>_. z) s' = tab_area (\<lambda>_. z) s" by (simp add: tab_area_def fun_eq_iff sel)
    have "client_ok (\<lambda>_. z) T (F(f := None)) s' (remove_floating_pane_view f c)" if c: "client_ok (\<lambda>_. z) T F s c" for c
    proof -
      have views: "get (floating_pane_view_by_id (remove_floating_pane_view f c)) f' = (if f' = f then None else get (floating_pane_view_by_id c) f')" for f'
        by (simp add: remove_floating_pane_view_def)
      have "kept_ok (tab_area (\<lambda>_. z) s) (floating_area (\<lambda>_. z) s) (remove_floating_pane_view f c)"
        using c by (auto simp: client_ok_def intro: remove_floating_pane_view.keeps_solves)
      then have "kept_ok (tab_area (\<lambda>_. z) s) (floating_area (\<lambda>_. z) s') (remove_floating_pane_view f c)"
        unfolding kept_ok_def views floating_area_def at by (auto split: if_splits)
      with c show ?thesis
        by (simp add: client_ok_def A sel remove_floating_pane_view_side remove_floating_pane_view.keeps_session)
    qed
    then show ?thesis
      using heldD(4) [OF held] by (auto simp: clients_ok_def sel update_all_clients_def remove_floating_pane_view.keeps_id)
  qed
  ultimately show "held (\<lambda>_. z) (\<lambda>_. z) T (F(f := None)) s'" using heldD(2) [OF held] by (simp add: held_def sel)
qed

lemma session_okI_float_gone:
  assumes held: "held (one_sizing s) (one_sizing s) (tab_panes s) ((floating_panes s)(f := None)) s'"
    and leaves: "leaves_of s' = (leaves_of s)(FloatingPaneArea f := None)" and sizing: "session_pane_sizing s' = session_pane_sizing s"
    and part: "partition_of ((leaves_of s)(FloatingPaneArea f := None)) (set (RBT.keys (panes s')))"
  shows "session_ok s'"
proof (rule session_okI [OF held])
  show "((floating_panes s)(f := None)) f' = map_option set (leaves_of s' (FloatingPaneArea f'))" for f'
    by (cases "f' = f") (simp_all add: leaves floating_panes_leaves del: leaves_of.simps)
  show "tab_panes s t = map_option set (leaves_of s' (TabArea t))" for t
    by (simp add: leaves tab_panes_leaves del: leaves_of.simps)
qed (simp_all add: sizing part leaves)

lemma remove_floating_pane_session:
  assumes ok: "session_ok s"
  shows "session_ok (fst (remove_floating_pane f s))"
proof (cases "float_at s f")
  case None
  then have "find_floating_pane_by_id (floats s) f = None" by (simp add: float_at_None)
  with ok show ?thesis by (simp add: remove_floating_pane_def)
next
  case (Some pane)
  then obtain n where n: "find_floating_pane_by_id (floats s) f = Some (n, pane)" by (auto simp: float_at_Some)
  let ?ps = "list_floating_pane_ids pane" and ?s1 = "fst (session_remove_floating_pane f s)"
  note r = remove_floating_pane_held [OF session_heldD [OF ok] Some refl]
  have eq: "fst (remove_floating_pane f s) = drop_pane_records ?ps ?s1"
    by (simp add: remove_floating_pane_def n Let_def)
  have "partition_of ((leaves_of s)(FloatingPaneArea f := None)) (set (RBT.keys (panes s)) - set ?ps)"
    using partition_drop [of "leaves_of s" _ "FloatingPaneArea f"] ok Some by (simp add: session_ok_def)
  with r show ?thesis
    unfolding eq
    by (intro session_okI_float_gone [of s f])
       (simp_all add: drop_pane_records_held drop_pane_records_sel same_registry_def)
qed

section \<open>Closing a tab\<close>

lemma run_each_invariant: "(\<And>x s. Q s \<Longrightarrow> Q (fst (g x s))) \<Longrightarrow> Q s \<Longrightarrow> Q (fst (run_each g xs s))"
  by (induction xs arbitrary: s) (auto simp: run_each_Cons simp del: run_each.simps(2))

lemma quit_without_tabs_session: "session_ok s \<Longrightarrow> session_ok (fst (quit_without_tabs t pane_exit s))"
proof (cases "RBT.is_empty (tabs s)")
  case True
  assume ok: "session_ok s"
  let ?s = "fst (run_each remove_floating_pane (map own_floating_pane_id (floats s)) s)"
  have "session_ok ?s" by (rule run_each_invariant [OF remove_floating_pane_session ok])
  then have "session_ok (update_lifecycle StopRequested ?s)"
    by (rule session_same_clients) (simp_all add: update_lifecycle_def same_layout_def)
  with True show ?thesis by (simp add: quit_without_tabs_def case_prod_beta)
qed (simp add: quit_without_tabs_def)

text \<open>The nearest surviving tab is a tab, and there is one while any tab is left.\<close>

lemma max_by_key_in: "max_by_key key xs = Some x \<Longrightarrow> x \<in> set xs"
  by (induction xs arbitrary: x) (auto split: option.splits if_splits)

lemma max_by_key_None [simp]: "max_by_key key xs = None \<longleftrightarrow> xs = []"
  by (cases xs) (auto split: option.splits)

lemma nearest_surviving_tab:
  assumes keyed: "\<And>t tab. get (tabs s) t = Some tab \<Longrightarrow> own_tab_id tab = t \<and> tab_index tab \<noteq> n"
  shows "case find_nearest_surviving_tab_by_index s n of
      Some t \<Rightarrow> has_key (tabs s) t
    | None \<Rightarrow> RBT.is_empty (tabs s)"
proof (cases "find_nearest_surviving_tab_by_index s n")
  case None
  then have "filter (\<lambda>t. tab_index t < n) (map_values (tabs s)) = []" "filter (\<lambda>t. n < tab_index t) (map_values (tabs s)) = []"
    by (auto simp: find_nearest_surviving_tab_by_index_def split: option.splits)
  then have "\<forall>tab \<in> set (map_values (tabs s)). \<not> tab_index tab < n \<and> \<not> n < tab_index tab" by (auto simp: filter_empty_conv)
  moreover have "\<forall>tab \<in> set (map_values (tabs s)). tab_index tab \<noteq> n" using keyed by (metis map_values_iff)
  ultimately have "set (map_values (tabs s)) = {}" by (metis all_not_in_conv nat_neq_iff)
  then have "get (tabs s) t = None" for t by (metis empty_iff in_map_values option.exhaust)
  then have "RBT.is_empty (tabs s)" by (metis RBT.is_empty_empty RBT.lookup_empty_empty ext)
  with None show ?thesis by simp
next
  case (Some t)
  then obtain tab where "tab \<in> set (map_values (tabs s))" "own_tab_id tab = t"
    by (auto simp: find_nearest_surviving_tab_by_index_def split: option.splits dest!: max_by_key_in min_by_key_least)
  with keyed Some show ?thesis by (auto simp: map_values_iff)
qed

lemma dense_inj: "dense_indices m \<Longrightarrow> get m t = Some a \<Longrightarrow> get m u = Some b \<Longrightarrow> tab_index a = tab_index b \<Longrightarrow> t = u"
proof -
  assume d: "dense_indices m" and a: "get m t = Some a" and b: "get m u = Some b" and eq: "tab_index a = tab_index b"
  have "t \<in> set (RBT.keys m)" "u \<in> set (RBT.keys m)" using a b by (simp_all add: keys_iff)
  with d a b eq show ?thesis
    unfolding dense_indices_def bij_betw_def by (elim conjE inj_onD [where f = "\<lambda>t. tab_index (the (get m t))"]) simp_all
qed

text \<open>Moving a client to another tab touches no other client.\<close>

lemma land_focus_clients:
  "get_client_by_id (clients (fst (land_focus i t s))) j =
     (if j = i then map_option (\<lambda>c. the (get_client_by_id (clients (fst (land_focus i t s))) i)) (get_client_by_id (clients s) i)
      else get_client_by_id (clients s) j)"
  "get_client_by_id (clients (fst (land_focus i t s))) i = Some c' \<Longrightarrow>
     \<exists>c. get_client_by_id (clients s) i = Some c \<and> active_tab_id c' = active_tab_id c"
  by (auto simp: land_focus_def update_client_tab_focus_def update_client_def update_focused_pane_sel(3) Let_def
      split: option.splits if_splits)

lemma move_client_to_tab_bare:
  assumes "bare Y Z T F s" "T n \<noteq> None"
  shows "bare Y Z T F (fst (move_client_to_tab t n i s))" "same_layout s (fst (move_client_to_tab t n i s))"
    "get_client_by_id (clients (fst (move_client_to_tab t n i s))) j = Some c' \<Longrightarrow>
       \<exists>c. get_client_by_id (clients s) j = Some c \<and> active_tab_id c' = (if j = i then n else active_tab_id c)"
proof -
  let ?s = "s\<lparr>clients := update_client i (update_active_tab_id n) (clients s)\<rparr>"
  have fst: "fst (move_client_to_tab t n i s) = fst (land_focus i n ?s)" by (simp add: move_client_to_tab_def case_prod_beta)
  have "clients_ok Z T F ?s"
    by (rule update_active_tab_id.keeps_clients [OF bareD(3) [OF assms(1)]]) (simp_all add: update_active_tab_side assms(2))
  then have "bare Y Z T F ?s"
    using assms(1) same_layout_frame_ok [OF same_layout_clients] same_layout_ok(1) [OF same_layout_clients] by (simp add: bare_def)
  then show "bare Y Z T F (fst (move_client_to_tab t n i s))" unfolding fst by (rule land_focus.keeps_bare)
  show "same_layout s (fst (move_client_to_tab t n i s))"
    unfolding fst by (rule same_layout_trans [OF same_layout_clients land_focus.keeps_layout])
  show "\<exists>c. get_client_by_id (clients s) j = Some c \<and> active_tab_id c' = (if j = i then n else active_tab_id c)"
    if "get_client_by_id (clients (fst (move_client_to_tab t n i s))) j = Some c'"
  proof (cases "j = i")
    case True
    with land_focus_clients(2) [of i n ?s c'] that [unfolded fst] show ?thesis
      by (auto simp: update_client_def update_active_tab_id_def client_frame)
  next
    case False
    with land_focus_clients(1) [of i n ?s j] that [unfolded fst] show ?thesis by (auto simp: update_client_def)
  qed
qed

lemma move_clients_to_tab_bare:
  assumes "bare Y Z T F s" "T n \<noteq> None" "n \<noteq> t"
    and "\<And>j c. get_client_by_id (clients s) j = Some c \<Longrightarrow> active_tab_id c = t \<Longrightarrow> j \<in> set ids"
  shows "bare Y Z T F (fst (run_each (move_client_to_tab t n) ids s)) \<and> same_layout s (fst (run_each (move_client_to_tab t n) ids s)) \<and>
    (\<forall>j c. get_client_by_id (clients (fst (run_each (move_client_to_tab t n) ids s))) j = Some c \<longrightarrow> active_tab_id c \<noteq> t)"
  using assms
proof (induction ids arbitrary: s)
  case (Cons i ids)
  let ?s = "fst (move_client_to_tab t n i s)"
  note step = move_client_to_tab_bare [OF Cons.prems(1,2), of t i]
  have left: "j \<in> set ids" if "get_client_by_id (clients ?s) j = Some c" "active_tab_id c = t" for j c
    using step(3) [OF that(1)] that(2) Cons.prems(3,4) by (force split: if_splits)
  from Cons.IH [of ?s] step(1) Cons.prems(2,3) left
  have "bare Y Z T F (fst (run_each (move_client_to_tab t n) ids ?s)) \<and> same_layout ?s (fst (run_each (move_client_to_tab t n) ids ?s)) \<and>
    (\<forall>j c. get_client_by_id (clients (fst (run_each (move_client_to_tab t n) ids ?s))) j = Some c \<longrightarrow> active_tab_id c \<noteq> t)"
    by blast
  then show ?case
    unfolding run_each_Cons using same_layout_trans [OF step(2)] by blast
qed auto

text \<open>
  The tab leaves the session. The records of its panes are gone already, so the panes the trees hold
  are \<open>K\<close>, and the registry holds the others.
\<close>

lemma remove_tab_bare:
  assumes held: "held (\<lambda>_. z) (\<lambda>_. z) T F s" and tab: "get (tabs s) t = Some tab" and T: "T t \<noteq> None"
  defines "s2 \<equiv> change_all_clients (clear_focus_history t) (fst (remove_tab t s))"
  shows "bare (\<lambda>_. z) (\<lambda>_. z) (T(t \<mapsto> {})) F s2" "leaves_of s2 = (leaves_of s)(TabArea t := None)" "same_registry s s2"
    "tabs s2 = RBT.delete t (tabs s)" "map own_client_id (list_attached_clients (clients s2)) = map own_client_id (list_attached_clients (clients s))"
proof -
  have sel: "tabs s2 = RBT.delete t (tabs s)" "floats s2 = floats s" "panes s2 = panes s" "session_pane_sizing s2 = session_pane_sizing s"
    "own_session_id s2 = own_session_id s" "clients s2 = update_all_clients (clear_focus_history t) (clients s)"
    by (simp_all add: s2_def change_all_clients_def remove_tab_def tab mark_tab_bar_changed_def)
  show "same_registry s s2" "tabs s2 = RBT.delete t (tabs s)" by (simp_all add: same_registry_def sel)
  show "map own_client_id (list_attached_clients (clients s2)) = map own_client_id (list_attached_clients (clients s))"
    by (simp add: sel list_attached_clients_def update_all_clients_def comp_def clear_focus_history.keeps_id)
  have at: "float_at s2 = float_at s" by (simp add: float_at_def fun_eq_iff sel)
  show leaves: "leaves_of s2 = (leaves_of s)(TabArea t := None)"
  proof
    show "leaves_of s2 a = ((leaves_of s)(TabArea t := None)) a" for a by (cases a) (simp_all add: at sel)
  qed
  have "frame_ok (\<lambda>_. z) s2"
    using heldD(1) [OF held] by (auto simp: frame_ok_def areas_ok_def at sel split: if_splits)
  moreover have "covers (T(t \<mapsto> {})) F s2" using heldD(3) [OF held] unfolding covers_leaves leaves by auto
  moreover have "clients_ok (\<lambda>_. z) (T(t \<mapsto> {})) F s2"
  proof -
    have B: "floating_area (\<lambda>_. z) s2 = floating_area (\<lambda>_. z) s" by (simp add: floating_area_def fun_eq_iff at)
    have "client_ok (\<lambda>_. z) (T(t \<mapsto> {})) F s2 (clear_focus_history t c)" if c: "client_ok (\<lambda>_. z) T F s c" for c
    proof -
      have "tab_side_ok (T(t \<mapsto> {})) (clear_focus_history t c)"
        using c T by (auto simp: client_ok_def tab_side_ok_def clear_focus_history_def client_frame split: if_splits)
      moreover have "kept_ok (tab_area (\<lambda>_. z) s2) (floating_area (\<lambda>_. z) s2) (clear_focus_history t c)"
        using c by (auto simp: client_ok_def kept_ok_def B tab_solve_ok_def clear_focus_history_def client_frame)
      ultimately show ?thesis using c by (simp add: client_ok_def sel clear_focus_history.keeps_session)
    qed
    then show ?thesis
      using heldD(4) [OF held] by (auto simp: clients_ok_def sel update_all_clients_def clear_focus_history.keeps_id)
  qed
  ultimately show "bare (\<lambda>_. z) (\<lambda>_. z) (T(t \<mapsto> {})) F s2" by (simp add: bare_def)
qed

lemma tab_side_gone:
  assumes ok: "tab_side_ok (T(t \<mapsto> {})) c" and gone: "active_tab_id c \<noteq> t \<or> T(t := None) = Map.empty"
  shows "tab_side_ok (T(t := None)) c"
proof -
  have "tab_side_ok ((T(t \<mapsto> {}))(t := None)) c"
  proof (rule tab_side_drop_tab [OF ok])
    show "get (focus_history_by_tab_id c) t = None"
      using tab_sideD(1) [OF ok, of t] by (cases "get (focus_history_by_tab_id c) t") auto
    show "get (zoomed_pane_id_by_tab_id c) t = None"
      using tab_sideD(2) [OF ok, of t] by (cases "get (zoomed_pane_id_by_tab_id c) t") auto
  qed (use gone in auto)
  then show ?thesis by simp
qed

lemma bare_gone:
  assumes bare: "bare Y Z (T(t \<mapsto> {})) F s" and t: "\<not> has_key (tabs s) t"
    and gone: "\<And>j c. get_client_by_id (clients s) j = Some c \<Longrightarrow> active_tab_id c \<noteq> t \<or> T(t := None) = Map.empty"
  shows "bare Y Z (T(t := None)) F s"
proof -
  have "clients_ok Z (T(t := None)) F s"
    by (rule clients_ok_mono [OF bareD(3) [OF bare]]) (auto intro: tab_side_gone dest: gone)
  moreover have "covers (T(t := None)) F s"
    using bareD(2) [OF bare] t by (auto simp: covers_def tab_panes_def split: if_splits)
  ultimately show ?thesis using bare by (simp add: bare_def)
qed

lemma close_and_refocus_tab_session:
  assumes held: "held (one_sizing s) (one_sizing s) (tab_panes s) (floating_panes s) s" and tab: "get (tabs s) t = Some tab"
    and part: "partition_of ((leaves_of s)(TabArea t := None)) (set (RBT.keys (panes s)))"
  shows "session_ok (fst (close_and_refocus_tab t pane_exit s))"
proof -
  let ?Z = "one_sizing s" and ?T = "tab_panes s" and ?F = "floating_panes s"
  define s1 where "s1 = fst (remove_tab t s)"
  define s2 where "s2 = change_all_clients (clear_focus_history t) s1"
  define next_tab where "next_tab = find_nearest_surviving_tab_by_index s1 (tab_index tab)"
  define viewing where "viewing = map own_client_id (filter (\<lambda>c. active_tab_id c = t) (list_attached_clients (clients s1)))"
  have T: "?T t \<noteq> None" using tab by (simp add: tab_panes_def)
  note r = remove_tab_bare [OF held tab T, folded s1_def, folded s2_def]
  have tabs1: "tabs s1 = RBT.delete t (tabs s)" and clients1: "clients s1 = clients s"
    by (simp_all add: s1_def remove_tab_def tab mark_tab_bar_changed_def)
  have near: "case next_tab of Some n \<Rightarrow> has_key (tabs s1) n | None \<Rightarrow> RBT.is_empty (tabs s1)"
    unfolding next_tab_def
  proof (rule nearest_surviving_tab)
    fix u b
    assume "get (tabs s1) u = Some b"
    then have u: "get (tabs s) u = Some b" "u \<noteq> t" by (auto simp: tabs1 split: if_splits)
    with heldD(1,2) [OF held] dense_inj [of "tabs s" u b t tab] tab
    show "own_tab_id b = u \<and> tab_index b \<noteq> tab_index tab" by (auto simp: frame_ok_def)
  qed
  define s3 where "s3 = (case next_tab of None \<Rightarrow> s2
    | Some n \<Rightarrow> fst (update_tab_solve n (fst (run_each (move_client_to_tab t n) viewing s2))))"
  define s4 where "s4 = reindex_tabs_by_display_index s3"
  have eq: "fst (close_and_refocus_tab t pane_exit s) = fst (quit_without_tabs t pane_exit s4)"
    unfolding close_and_refocus_tab_def s4_def s3_def s2_def change_all_clients_def viewing_def next_tab_def s1_def Let_def
    by (simp add: remove_tab_def tab fst_andThen case_prod_beta split: option.split)
  have "bare ?Z ?Z (?T(t := None)) ?F s3 \<and> leaves_of s3 = leaves_of s2 \<and> same_registry s2 s3"
  proof (cases next_tab)
    case None
    with near have "RBT.is_empty (tabs s1)" by simp
    then have "get (RBT.delete t (tabs s)) u = None" for u by (simp add: tabs1 [symmetric])
    then have "get (tabs s) u = None" if "u \<noteq> t" for u using that by (metis RBT.lookup_delete fun_upd_apply)
    then have "?T(t := None) = Map.empty" by (auto simp: fun_eq_iff tab_panes_def)
    with bare_gone [OF r(1)] None r(4) show ?thesis by (simp add: s3_def)
  next
    case (Some n)
    from near Some tabs1 have n: "n \<noteq> t" "has_key (tabs s) n" by (auto split: if_splits)
    let ?s = "fst (run_each (move_client_to_tab t n) viewing s2)"
    have Tn: "(?T(t \<mapsto> {})) n \<noteq> None" using n by (simp add: tab_panes_def)
    have view: "j \<in> set viewing" if "get_client_by_id (clients s2) j = Some c" "active_tab_id c = t" for j c
    proof -
      from that obtain c0 where c0: "get_client_by_id (clients s) j = Some c0" "c = clear_focus_history t c0"
        by (auto simp: s2_def change_all_clients_def update_all_clients_def clients1)
      then have "active_tab_id c0 = t" using that(2) by (simp add: clear_focus_history_def client_frame)
      moreover have "own_client_id c0 = j" using clients_okD [OF heldD(4) [OF held] c0(1)] by simp
      ultimately show ?thesis using in_map_values [OF c0(1)] by (auto simp: viewing_def list_attached_clients_def clients1)
    qed
    have m: "bare ?Z ?Z (?T(t \<mapsto> {})) ?F ?s" "same_layout s2 ?s"
      "\<And>j c. get_client_by_id (clients ?s) j = Some c \<Longrightarrow> active_tab_id c \<noteq> t"
      using move_clients_to_tab_bare [where ids = viewing and t = t and n = n, OF r(1) Tn n(1)] view by blast+
    have "\<not> has_key (tabs ?s) t" using same_layout_keys [OF m(2), of t] r(4) by simp
    then have b: "bare ?Z ?Z (?T(t := None)) ?F ?s" by (rule bare_gone [OF m(1)]) (use m(3) in blast)
    have reg: "same_registry s2 ?s" using m(2) by (auto simp: same_layout_def same_registry_def)
    have z: "session_pane_sizing ?s = session_pane_sizing s" using reg r(3) by (simp add: same_registry_def)
    from update_tab_solve_bare [of ?s "?T(t := None)" ?F n] b
    have "bare ?Z ?Z (?T(t := None)) ?F s3" "leaves_of s3 = leaves_of ?s" "same_registry ?s s3" by (simp_all add: s3_def Some z)
    with same_layout_leaves [OF m(2)] reg show ?thesis by (simp add: same_registry_def)
  qed
  then have s3: "bare ?Z ?Z (?T(t := None)) ?F s3" "leaves_of s3 = (leaves_of s)(TabArea t := None)" "same_registry s s3"
    using r by (auto simp: same_registry_def)
  have ren: "renumbered s3 s4"
    unfolding s4_def reindex_tabs_by_display_index_def using renumbered_fold [where g = "\<lambda>n. n"] by simp
  have s4: "held ?Z ?Z (?T(t := None)) ?F s4"
    by (rule renumbered_held [OF ren _ s3(1)]) (use numbered_dense [OF reindex_numbered] in \<open>simp add: s4_def\<close>)
  have "session_ok s4"
  proof (rule session_okI [OF s4])
    show "(?T(t := None)) t' = map_option set (leaves_of s4 (TabArea t'))" for t'
      by (cases "t' = t") (simp_all add: renumbered_leaves [OF ren] s3(2) tab_panes_leaves del: leaves_of.simps)
    show "?F f = map_option set (leaves_of s4 (FloatingPaneArea f))" for f
      by (simp add: renumbered_leaves [OF ren] s3(2) floating_panes_leaves del: leaves_of.simps)
    show "partition_of (leaves_of s4) (set (RBT.keys (panes s4)))"
      using part s3(3) ren
      by (simp add: renumbered_leaves [OF ren] s3(2) same_registry_def renumbered_def)
  qed (use s3(3) ren in \<open>simp_all add: same_registry_def renumbered_def\<close>)
  then show ?thesis unfolding eq by (rule quit_without_tabs_session)
qed

lemma close_tab_session:
  assumes ok: "session_ok s"
  shows "session_ok (fst (close_tab t s))"
proof (cases "get (tabs s) t")
  case None
  with ok show ?thesis by (simp add: close_tab_def)
next
  case (Some tab)
  let ?ps = "list_leaf_pane_ids (tab_layout tab)"
  let ?s = "drop_pane_records ?ps s"
  have panes: "tab_panes ?s = tab_panes s" "floating_panes ?s = floating_panes s"
    using panes_same_leaves [OF drop_pane_records_held(2)] by auto
  have "session_ok (fst (close_and_refocus_tab t None ?s))"
  proof (rule close_and_refocus_tab_session)
    show "held (one_sizing ?s) (one_sizing ?s) (tab_panes ?s) (floating_panes ?s) ?s"
      using drop_pane_records_held(1) [OF session_heldD [OF ok]] by (simp add: panes drop_pane_records_sel)
    show "get (tabs ?s) t = Some tab" using Some by (simp add: drop_pane_records_sel)
    show "partition_of ((leaves_of ?s)(TabArea t := None)) (set (RBT.keys (panes ?s)))"
      using partition_drop [of "leaves_of s" _ "TabArea t"] ok Some
      by (simp add: drop_pane_records_held drop_pane_records_sel session_ok_def)
  qed
  with Some show ?thesis by (simp add: close_tab_def Let_def case_prod_beta)
qed

section \<open>Removing a pane from a tab\<close>

lemma remove_and_normalize:
  "remove_pane_and_normalize t p = Inr t' \<Longrightarrow> list_leaf_pane_ids t' = remove1 p (list_leaf_pane_ids t) \<and> list_leaf_pane_ids t' \<noteq> []"
  "remove_pane_and_normalize t p = Inl e \<Longrightarrow>
     e = RemovePaneNotFound p \<and> p \<notin> set (list_leaf_pane_ids t) \<or> e = LastPane p \<and> list_leaf_pane_ids t = [p]"
proof -
  assume n: "remove_pane_and_normalize t p = Inr t'"
  then obtain r where r: "remove_pane t p = Inr r"
    and t': "t' = (case normalize_layout_tree r (set (list_leaf_pane_ids r)) of Some n \<Rightarrow> n | None \<Rightarrow> r)"
    by (auto simp: remove_pane_and_normalize_def split: sum.splits)
  from remove_pane_Inr [OF r] have leaves: "list_leaf_pane_ids r = remove1 p (list_leaf_pane_ids t)" "list_leaf_pane_ids r \<noteq> []" by auto
  obtain m where "normalize_layout_tree r (set (list_leaf_pane_ids r)) = Some m" "list_leaf_pane_ids m = list_leaf_pane_ids r"
    using leaves(2) by (rule normalize_all_live)
  with leaves t' show "list_leaf_pane_ids t' = remove1 p (list_leaf_pane_ids t) \<and> list_leaf_pane_ids t' \<noteq> []" by simp
next
  assume "remove_pane_and_normalize t p = Inl e"
  then have "remove_pane t p = Inl e" by (auto simp: remove_pane_and_normalize_def split: sum.splits)
  then show "e = RemovePaneNotFound p \<and> p \<notin> set (list_leaf_pane_ids t) \<or> e = LastPane p \<and> list_leaf_pane_ids t = [p]"
    by (rule remove_pane_Inl)
qed

lemma not_zoomed_focus:
  "not_zoomed_in t p c \<Longrightarrow> u \<noteq> t \<or> q \<noteq> p \<Longrightarrow> not_zoomed_in t p (fst (update_focused_pane u q c))"
  "not_zoomed_in t p c \<Longrightarrow> not_zoomed_in t p (clear_focus_history u c)"
  by (auto simp: not_zoomed_in_def update_focused_pane_def clear_focus_history_def client_frame Let_def split: if_splits)

definition all_clients :: "(client \<Rightarrow> bool) \<Rightarrow> session \<Rightarrow> bool" where
  "all_clients Q s \<longleftrightarrow> (\<forall>i c. get_client_by_id (clients s) i = Some c \<longrightarrow> Q c)"

lemma all_clients_mono: "all_clients Q s \<Longrightarrow> (\<And>c. Q c \<Longrightarrow> R c) \<Longrightarrow> all_clients R s"
  by (auto simp: all_clients_def)

lemma repairs_keep_zoom:
  assumes "bare Y Z T F s" "all_clients (not_zoomed_in t p) s" "\<And>P. tab_panes s t = Some P \<Longrightarrow> p \<notin> P"
  shows "all_clients (not_zoomed_in t p) (fst (run_each (repair_client_focus u) xs s))"
  using assms
proof (induction xs arbitrary: s)
  case (Cons x xs)
  obtain i r where [simp]: "x = (i, r)" by (cases x)
  let ?s = "fst (repair_client_focus u x s)"
  have "all_clients (not_zoomed_in t p) ?s"
  proof (cases rule: repair_client_focus_cases [OF bareD(4,3) [OF Cons.prems(1)], of u i r])
    case (2 P q)
    with Cons.prems(3) have "u \<noteq> t \<or> q \<noteq> p" by auto
    with 2(3) Cons.prems(2) show ?thesis
      by (auto simp: all_clients_def update_client_tab_focus_def update_client_def Let_def not_zoomed_focus split: option.splits if_splits)
  next
    case 3
    with Cons.prems(2) show ?thesis by (auto simp: all_clients_def update_client_def not_zoomed_focus split: if_splits)
  qed (use Cons.prems(2) in simp)
  moreover have "tab_panes ?s = tab_panes s" using same_layout_stores(3) [OF repair_client_focus.keeps_layout] .
  then have "p \<notin> P" if "tab_panes ?s t = Some P" for P using that Cons.prems(3) by simp
  ultimately show ?case
    unfolding run_each_Cons fst_conv using Cons.IH [of ?s] repair_client_focus.keeps_bare [OF Cons.prems(1)] by blast
qed simp

lemma repair_focus_after_pane_left_held:
  assumes held: "held Y Z T F s" and zoom: "all_clients (not_zoomed_in t p) s"
    and gone: "\<And>P. tab_panes s t = Some P \<Longrightarrow> p \<notin> P" and P: "T t = Some P"
  shows "held Y Z (T(t \<mapsto> P - {p})) F (fst (repair_focus_after_pane_left t p xs s))"
    "leaves_of (fst (repair_focus_after_pane_left t p xs s)) = leaves_of s"
    "same_registry s (fst (repair_focus_after_pane_left t p xs s))"
proof -
  have run: "focus_operation (run_each (repair_client_focus t) xs)"
    by (rule focus_run_each) (rule repair_client_focus.focus_operation_axioms)
  let ?s = "fst (run_each (repair_client_focus t) xs s)"
  let ?s' = "change_all_clients (remove_pane_from_focus_history t p) ?s"
  have eq: "fst (repair_focus_after_pane_left t p xs s) = ?s'" by (simp add: repair_focus_after_pane_left_def case_prod_beta)
  have h: "held Y Z T F ?s" by (rule focus_operation.keeps_held [OF run held])
  have b: "bare Y Z T F s" using held by (simp add: held_bare)
  have z: "all_clients (not_zoomed_in t p) ?s" using repairs_keep_zoom [OF b zoom] gone by blast
  have "client_ok Z (T(t \<mapsto> P - {p})) F ?s (remove_pane_from_focus_history t p c)"
    if c: "get_client_by_id (clients ?s) i = Some c" for i c
  proof -
    from clients_okD [OF heldD(4) [OF h] c] have "client_ok Z T F ?s c" by simp
    then have "tab_side_ok T c" "client_ok Z T F ?s (remove_pane_from_focus_history t p c)"
      using remove_pane_from_focus_history.keeps_client [of Z T F ?s c t p]
      by (simp_all add: client_ok_def remove_pane_from_focus_history_side)
    moreover have "not_zoomed_in t p c" using z c by (simp add: all_clients_def)
    ultimately show ?thesis using tab_side_without [of T c t P p, OF _ P] by (simp add: client_ok_def)
  qed
  then have "clients_ok Z (T(t \<mapsto> P - {p})) F ?s'"
    using heldD(4) [OF h]
    by (auto simp: clients_ok_def change_all_clients_def update_all_clients_def remove_pane_from_focus_history.keeps_id)
  moreover have "covers (T(t \<mapsto> P - {p})) F ?s'"
  proof -
    have "tab_panes ?s = tab_panes s" "leaves_of ?s' = leaves_of ?s"
      using same_layout_stores(3) [OF focus_operation.keeps_layout [OF run]] by simp_all
    with heldD(3) [OF h] gone P show ?thesis
      unfolding covers_same_leaves [OF \<open>leaves_of ?s' = leaves_of ?s\<close>] by (fastforce simp: covers_def split: if_splits)
  qed
  moreover have "frame_ok Y ?s'" "dense_indices (tabs ?s')"
    using same_layout_frame_ok [OF _ heldD(1) [OF h]] heldD(2) [OF h] by (simp_all add: change_all_clients_def)
  ultimately show "held Y Z (T(t \<mapsto> P - {p})) F (fst (repair_focus_after_pane_left t p xs s))" by (simp add: eq held_def)
  show "leaves_of (fst (repair_focus_after_pane_left t p xs s)) = leaves_of s"
    by (simp add: eq focus_operation.keeps_leaves [OF run])
  show "same_registry s (fst (repair_focus_after_pane_left t p xs s))"
    using focus_operation.keeps_registry [OF run, of s] by (simp add: eq same_registry_def change_all_clients_def)
qed

lemma leave_partition:
  assumes part: "partition_of L K" and a: "L a = Some ps" and p: "p \<in> set ps" and qs: "qs = remove1 p ps" "qs \<noteq> []"
  shows "partition_of (L(a \<mapsto> qs)) (K - {p})"
proof -
  from partitionD(1) [OF part a] have ps: "set ps \<subseteq> K" "distinct ps" by blast+
  then have K: "K - set ps \<union> set qs = K - {p}" and d: "distinct qs" and disj: "set qs \<inter> (K - set ps) = {}"
    using p by (auto simp: qs(1))
  from partition_update [OF part _ qs(2) d disj] a show ?thesis by (simp add: K)
qed

lemma leave_area:
  assumes part: "partition_of L K" and a: "L a = Some ps" and p: "p \<in> set ps"
  shows "partition_of (L(a := (case remove1 p ps of [] \<Rightarrow> None | qs \<Rightarrow> Some qs))) (K - {p})"
proof (cases "remove1 p ps")
  case Nil
  then have "ps = [p]" using p partitionD(1) [OF part a] by (cases ps) (auto split: if_splits)
  with partition_drop [OF part a] Nil show ?thesis by simp
next
  case (Cons q qs)
  with leave_partition [OF part a p refl] show ?thesis by simp
qed

lemma clear_zoom_everywhere_held:
  assumes "held Y Z T F s"
  shows "held Y Z T F (change_all_clients (clear_zoom_of_pane p) s)"
    "all_clients (zoomed_nowhere_on p) (change_all_clients (clear_zoom_of_pane p) s)"
  using change_all_clients_held [OF assms clear_zoom_of_pane.client_method_axioms]
  by (auto simp: clear_zoom_of_pane_side clear_zoom_of_pane_float_side all_clients_def change_all_clients_def
      update_all_clients_def clear_zoom_of_pane_nowhere)

lemma remove_pane_from_tab_session:
  assumes held: "held (one_sizing s) (one_sizing s) (tab_panes s) (floating_panes s) s" and tab: "get (tabs s) t = Some tab"
    and p: "p \<in> set (list_leaf_pane_ids (tab_layout tab))"
    and dist: "distinct (list_leaf_pane_ids (tab_layout tab))"
    and part: "partition_of ((leaves_of s)(TabArea t := (case remove1 p (list_leaf_pane_ids (tab_layout tab)) of [] \<Rightarrow> None | ps \<Rightarrow> Some ps)))
      (set (RBT.keys (panes s)))"
  shows "session_ok (fst (remove_pane_from_tab t p pane_exit s))"
proof -
  let ?Z = "one_sizing s" and ?T = "tab_panes s" and ?F = "floating_panes s" and ?ps = "list_leaf_pane_ids (tab_layout tab)"
  define rects where "rects = list_focused_client_rects s t p"
  define s1 where "s1 = update_tab t (remove_focus_mru p) s"
  have same: "same_layout s s1" by (simp add: s1_def)
  have s1: "held ?Z ?Z ?T ?F s1" "leaves_of s1 = leaves_of s" "same_registry s s1"
    using held_same_layout [OF held same] clients_ok_layout [OF heldD(4) [OF held] same] same_layout_leaves [OF same]
    by (simp_all add: s1_def same_registry_def update_tab_def)
  have tab1: "get (tabs s1) t = Some (remove_focus_mru p tab)" using tab by (simp add: s1_def update_tab_def)
  have Tt: "?T t = Some (set ?ps)" using tab by (simp add: tab_panes_def)
  show ?thesis
  proof (cases "remove_pane_and_normalize (tab_layout tab) p")
    case (Inr n)
    note n = remove_and_normalize(1) [OF Inr]
    then have ne: "remove1 p ?ps \<noteq> []" by auto
    define s2 where "s2 = fst (update_tab_layout t n s1)"
    define s3 where "s3 = change_all_clients (clear_zoom_of_pane p) s2"
    have z: "session_pane_sizing s1 = session_pane_sizing s" using s1(3) by (simp add: same_registry_def)
    have s2: "held ?Z ?Z ?T ?F s2" "leaves_of s2 = (leaves_of s)(TabArea t \<mapsto> remove1 p ?ps)" "same_registry s1 s2"
      using update_tab_layout_held [of s1 ?T ?F t "set ?ps" n] s1 z tab1 Tt n set_remove1_subset [of p ?ps] by (simp_all add: s2_def)
    have s3: "held ?Z ?Z ?T ?F s3" "all_clients (zoomed_nowhere_on p) s3" "leaves_of s3 = leaves_of s2" "same_registry s2 s3"
      using clear_zoom_everywhere_held [OF s2(1), of p] by (simp_all add: s3_def)
    have gone: "p \<notin> P" if "tab_panes s3 t = Some P" for P
      using that dist by (auto simp: tab_panes_leaves s3(3) s2(2) simp del: leaves_of.simps)
    let ?s = "fst (repair_focus_after_pane_left t p rects s3)"
    have r: "held ?Z ?Z (?T(t \<mapsto> set ?ps - {p})) ?F ?s" "leaves_of ?s = leaves_of s3" "same_registry s3 ?s"
      using repair_focus_after_pane_left_held [where t = t and xs = rects and p = p, OF s3(1) all_clients_mono [OF s3(2)]] gone Tt
      by (simp_all add: zoomed_nowhere)
    have reg: "same_registry s ?s" using s1(3) s2(3) s3(4) r(3) by (simp add: same_registry_def)
    have eq: "fst (remove_pane_from_tab t p pane_exit s) = ?s"
      unfolding remove_pane_from_tab_def Let_def rects_def s3_def s2_def s1_def by (simp add: tab Inr case_prod_beta)
    have "session_ok ?s"
    proof (rule session_okI_tab [of s t "remove1 p ?ps"])
      show "held ?Z ?Z (?T(t \<mapsto> set (remove1 p ?ps))) ?F ?s" using r(1) by (simp add: dist)
      show "partition_of ((leaves_of s)(TabArea t \<mapsto> remove1 p ?ps)) (set (RBT.keys (panes ?s)))"
        using part ne reg by (cases "remove1 p ?ps") (simp_all add: same_registry_def)
    qed (use r s2 s3 reg in \<open>simp_all add: same_registry_def\<close>)
    then show ?thesis by (simp add: eq)
  next
    case (Inl e)
    from remove_and_normalize(2) [OF Inl] p have e: "e = LastPane p" "?ps = [p]" by auto
    define s3 where "s3 = change_all_clients (clear_zoom_of_pane p) s1"
    have s3: "held ?Z ?Z ?T ?F s3" "leaves_of s3 = leaves_of s" "same_registry s s3"
      using clear_zoom_everywhere_held [OF s1(1), of p] s1(2) same_registry_trans [OF s1(3), of s3] by (simp_all add: s3_def)
    have eq: "fst (remove_pane_from_tab t p pane_exit s) = fst (close_and_refocus_tab t pane_exit s3)"
      unfolding remove_pane_from_tab_def Let_def s3_def s1_def by (simp add: tab Inl e case_prod_beta)
    show ?thesis
      unfolding eq
    proof (rule close_and_refocus_tab_session)
      show "held (one_sizing s3) (one_sizing s3) (tab_panes s3) (floating_panes s3) s3"
        using s3 panes_same_leaves [OF s3(2)] by (simp add: same_registry_def)
      show "get (tabs s3) t = Some (remove_focus_mru p tab)" using tab1 by (simp add: s3_def change_all_clients_def)
      show "partition_of ((leaves_of s3)(TabArea t := None)) (set (RBT.keys (panes s3)))"
        using part s3(2,3) e(2) by (simp add: same_registry_def)
    qed
  qed
qed

lemma remove_pane_cascade_session:
  assumes ok: "session_ok s" and p: "\<And>tab. get (tabs s) t = Some tab \<Longrightarrow> has_key (panes s) p \<Longrightarrow> p \<in> set (list_leaf_pane_ids (tab_layout tab))"
  shows "session_ok (fst (remove_pane_cascade t p pane_exit s))"
proof (cases "has_key (tabs s) t \<and> has_key (panes s) p")
  case True
  then obtain tab where tab: "get (tabs s) t = Some tab" by auto
  let ?s = "drop_pane_records [p] s"
  have panes: "tab_panes ?s = tab_panes s" "floating_panes ?s = floating_panes s"
    using panes_same_leaves [OF drop_pane_records_held(2)] by auto
  have "session_ok (fst (remove_pane_from_tab t p pane_exit ?s))"
  proof (rule remove_pane_from_tab_session)
    show "held (one_sizing ?s) (one_sizing ?s) (tab_panes ?s) (floating_panes ?s) ?s"
      using drop_pane_records_held(1) [OF session_heldD [OF ok]] by (simp add: panes drop_pane_records_sel)
    show "get (tabs ?s) t = Some tab" using tab by (simp add: drop_pane_records_sel)
    show mem: "p \<in> set (list_leaf_pane_ids (tab_layout tab))" using p [OF tab] True by simp
    have part: "partition_of (leaves_of s) (set (RBT.keys (panes s)))" using ok by (simp add: session_ok_def)
    show "distinct (list_leaf_pane_ids (tab_layout tab))" using partitionD(1) [OF part, of "TabArea t"] tab by simp
    show "partition_of ((leaves_of ?s)(TabArea t := (case remove1 p (list_leaf_pane_ids (tab_layout tab)) of [] \<Rightarrow> None | ps \<Rightarrow> Some ps)))
        (set (RBT.keys (panes ?s)))"
      using leave_area [OF part _ mem, of "TabArea t"] tab by (simp add: drop_pane_records_held drop_pane_records_sel)
  qed
  moreover have "fst (remove_pane_record p (panes s)) \<noteq> None" using True by (simp add: remove_pane_record_def)
  ultimately show ?thesis using True
    by (auto simp: remove_pane_cascade_def drop_pane_records_def split: prod.splits option.splits)
next
  case False
  let ?s = "drop_pane_records [p] s"
  have eq: "fst (remove_pane_cascade t p pane_exit s) = (if has_key (tabs s) t then ?s else s)"
    using False by (auto simp: remove_pane_cascade_def remove_pane_record_def drop_pane_records_def)
  have "session_ok ?s" if "\<not> has_key (panes s) p"
  proof -
    have "held (one_sizing ?s) (one_sizing ?s) (tab_panes ?s) (floating_panes ?s) ?s"
      using drop_pane_records_held(1) [OF session_heldD [OF ok]] panes_same_leaves [OF drop_pane_records_held(2)]
      by (simp add: drop_pane_records_sel)
    moreover have "partition_of (leaves_of ?s) (set (RBT.keys (panes s)) - {p})"
      using ok that by (simp add: drop_pane_records_held session_ok_def keys_iff)
    ultimately show ?thesis by (simp add: session_ok_held drop_pane_records_sel)
  qed
  with ok False show ?thesis by (auto simp: eq)
qed

lemma apply_child_exit_session:
  assumes "session_ok s"
    "\<And>tab. get (tabs s) t = Some tab \<Longrightarrow> has_key (panes s) (exited_pane_id e) \<Longrightarrow> exited_pane_id e \<in> set (list_leaf_pane_ids (tab_layout tab))"
  shows "session_ok (fst (apply_child_exit t e s))"
  using assms(1) remove_pane_cascade_session [OF assms(1), of t "exited_pane_id e" "Some e"] assms(2)
  by (simp add: apply_child_exit_def Let_def case_prod_beta)

section \<open>Removing a pane from a floating pane\<close>

lemma update_floating_pane_focused_pane_input:
  "find_floating_pane_input_pane_id (update_floating_pane_focused_pane f q c) f =
     (if get_floating_pane_view c f = None then None else Some q)"
  by (auto simp: find_floating_pane_input_pane_id_def update_floating_pane_focused_pane_def get_floating_pane_view_def
      client_frame update_view_def move_to_front_def first_def split: option.splits)

lemma update_floating_pane_focused_pane_zoom:
  "not_zoomed_floating f p c \<Longrightarrow> q \<noteq> p \<Longrightarrow> not_zoomed_floating f p (update_floating_pane_focused_pane f q c)"
  by (auto simp: not_zoomed_floating_def update_floating_pane_focused_pane_def get_floating_pane_view_def client_frame update_view_def
      split: option.splits if_splits)

text \<open>The clients that type into a pane of a floating pane are among \<open>J\<close>.\<close>

definition typed_by :: "floating_pane_id \<Rightarrow> pane_id \<Rightarrow> client_id set \<Rightarrow> session \<Rightarrow> bool" where
  "typed_by f p J s \<longleftrightarrow>
     (\<forall>j c. get_client_by_id (clients s) j = Some c \<longrightarrow> find_floating_pane_input_pane_id c f = Some p \<longrightarrow> j \<in> J)"

lemma floating_repair_step:
  assumes bare: "bare Y Z T F s" and P: "floating_panes s f = Some P" "P \<noteq> {}" "p \<notin> P"
  shows "typed_by f p J s \<Longrightarrow> typed_by f p (J - {i}) (fst (repair_floating_pane_client_focus f (i, r) s))"
    "all_clients (not_zoomed_floating f p) s \<Longrightarrow>
     all_clients (not_zoomed_floating f p) (fst (repair_floating_pane_client_focus f (i, r) s))"
proof -
  note cases = repair_floating_pane_client_focus_cases [OF bareD(4,3) [OF bare], of f i r]
  show "typed_by f p (J - {i}) (fst (repair_floating_pane_client_focus f (i, r) s))" if J: "typed_by f p J s"
  proof (cases rule: cases)
    case 1
    have "float_at s f \<noteq> None" using P(1) by (auto simp: floating_panes_def)
    with 1(2) P have "find_floating_pane_input_pane_id c f = None" if "get_client_by_id (clients s) i = Some c" for c
      using that by (auto simp: find_floating_pane_input_pane_id_def)
    with J 1(1) show ?thesis by (auto simp: typed_by_def)
  next
    case (2 Q q)
    with P have "q \<noteq> p" by auto
    with 2(3) J show ?thesis
      by (auto simp: typed_by_def update_client_def update_floating_pane_focused_pane_input split: option.splits if_splits)
  qed
  show "all_clients (not_zoomed_floating f p) (fst (repair_floating_pane_client_focus f (i, r) s))" if "all_clients (not_zoomed_floating f p) s"
  proof (cases rule: cases)
    case (2 Q q)
    with P have "q \<noteq> p" by auto
    with 2(3) that show ?thesis
      by (auto simp: all_clients_def update_client_def update_floating_pane_focused_pane_zoom split: option.splits if_splits)
  qed (use that in simp)
qed

lemma floating_repairs:
  assumes "bare Y Z T F s" "floating_panes s f = Some P" "P \<noteq> {}" "p \<notin> P"
  shows "typed_by f p J s \<Longrightarrow> typed_by f p (J - fst ` set xs) (fst (run_each (repair_floating_pane_client_focus f) xs s))"
    "all_clients (not_zoomed_floating f p) s \<Longrightarrow>
     all_clients (not_zoomed_floating f p) (fst (run_each (repair_floating_pane_client_focus f) xs s))"
  using assms
proof (induction xs arbitrary: s J)
  case (Cons x xs)
  obtain i r where [simp]: "x = (i, r)" by (cases x)
  {
    case 1
    let ?s = "fst (repair_floating_pane_client_focus f x s)"
    have P: "floating_panes ?s f = Some P" using same_layout_stores(4) [OF repair_floating_pane_client_focus.keeps_layout] 1(3) by simp
    have "typed_by f p (J - {i}) ?s" using floating_repair_step(1) [OF 1(2-5,1)] by simp
    from Cons.IH(1) [OF this repair_floating_pane_client_focus.keeps_bare [OF 1(2)] P 1(4,5)]
    show ?case unfolding run_each_Cons by (simp add: Diff_insert2 [symmetric] insert_commute)
  next
    case 2
    let ?s = "fst (repair_floating_pane_client_focus f x s)"
    have P: "floating_panes ?s f = Some P" using same_layout_stores(4) [OF repair_floating_pane_client_focus.keeps_layout] 2(3) by simp
    have "all_clients (not_zoomed_floating f p) ?s" using floating_repair_step(2) [OF 2(2-5,1)] by simp
    from Cons.IH(2) [OF this repair_floating_pane_client_focus.keeps_bare [OF 2(2)] P 2(4,5)]
    show ?case unfolding run_each_Cons .
  }
qed simp_all

lemma typed_by_mono: "typed_by f p J s \<Longrightarrow> J \<subseteq> J' \<Longrightarrow> typed_by f p J' s"
  by (auto simp: typed_by_def)

lemma update_floating_pane_layout_typed:
  assumes held: "held (\<lambda>_. session_pane_sizing s) (\<lambda>_. session_pane_sizing s) T F s" and pane: "float_at s f = Some pane"
    and cov: "F f = Some P" "set (list_leaf_pane_ids layout_tree) \<subseteq> P"
    and p: "list_leaf_pane_ids layout_tree \<noteq> []" "p \<notin> set (list_leaf_pane_ids layout_tree)" and J: "typed_by f p J s"
  shows "typed_by f p J (fst (update_floating_pane_layout f layout_tree s))"
proof -
  let ?solved = "update_layout_solve (session_pane_sizing s) ((floating_layout_area pane)\<lparr>area_layout := layout_tree\<rparr>)"
  let ?s = "put_floating_area f (fst ?solved) s"
  from pane obtain n where "find_floating_pane_by_id (floats s) f = Some (n, pane)" by (auto simp: float_at_Some)
  then have eq: "update_floating_pane_layout f layout_tree s = hand_off_suppressed_floating_focus f (Some (snd ?solved)) ?s"
    by (simp add: update_floating_pane_layout_def put_floating_area_def Let_def split: prod.split)
  have "held (\<lambda>_. session_pane_sizing s) (\<lambda>_. session_pane_sizing s) T F ?s"
    by (rule put_floating_area_held [OF held pane _ _ cov(1)]) (use cov(2) in simp_all)
  then have bare: "bare (\<lambda>_. session_pane_sizing s) (\<lambda>_. session_pane_sizing s) T F ?s" by (simp add: held_bare)
  have P: "floating_panes ?s f = Some (set (list_leaf_pane_ids layout_tree))"
    using pane by (simp add: floating_panes_leaves put_floating_area_leaves del: leaves_of.simps)
  have "find_floating_pane_input_pane_id (clear_own_floating_pane_solve f c) f = find_floating_pane_input_pane_id c f" for c
    by (simp add: find_floating_pane_input_pane_id_def get_floating_pane_view_def client_frame option.map_comp comp_def)
  with J have "typed_by f p J ?s" by (auto simp: typed_by_def clear_own_floating_pane_solves_def)
  with floating_repairs(1) [OF bare P] p show ?thesis
    unfolding eq hand_off_floating_runs by (auto intro: typed_by_mono)
qed

lemma repair_floating_pane_focus_after_pane_left_held:
  assumes held: "held Y Z T F s" and zoom: "all_clients (not_zoomed_floating f p) s"
    and Q: "floating_panes s f = Some Q" "Q \<noteq> {}" "p \<notin> Q" and P: "F f = Some P" and J: "typed_by f p (fst ` set xs) s"
  shows "held Y Z T (F(f \<mapsto> P - {p})) (fst (repair_floating_pane_focus_after_pane_left f p xs s))"
    "leaves_of (fst (repair_floating_pane_focus_after_pane_left f p xs s)) = leaves_of s"
    "same_registry s (fst (repair_floating_pane_focus_after_pane_left f p xs s))"
proof -
  have run: "focus_operation (run_each (repair_floating_pane_client_focus f) xs)"
    by (rule focus_run_each) (rule repair_floating_pane_client_focus.focus_operation_axioms)
  let ?s = "fst (run_each (repair_floating_pane_client_focus f) xs s)"
  let ?s' = "change_all_clients (remove_pane_from_floating_pane_focus_history f p) ?s"
  have eq: "fst (repair_floating_pane_focus_after_pane_left f p xs s) = ?s'"
    by (simp add: repair_floating_pane_focus_after_pane_left_def case_prod_beta)
  have h: "held Y Z T F ?s" by (rule focus_operation.keeps_held [OF run held])
  have b: "bare Y Z T F s" using held by (simp add: held_bare)
  have z: "all_clients (not_zoomed_floating f p) ?s" by (rule floating_repairs(2) [OF b Q zoom])
  have none: "typed_by f p {} ?s" using floating_repairs(1) [OF b Q J, of xs] by simp
  have "client_ok Z T (F(f \<mapsto> P - {p})) ?s (remove_pane_from_floating_pane_focus_history f p c)"
    if c: "get_client_by_id (clients ?s) i = Some c" for i c
  proof -
    from clients_okD [OF heldD(4) [OF h] c] have ok: "client_ok Z T F ?s c" by simp
    moreover have "find_floating_pane_input_pane_id c f \<noteq> Some p" using none c by (auto simp: typed_by_def)
    ultimately have "client_ok Z T F ?s (remove_pane_from_floating_pane_focus_history f p c)"
      using remove_pane_from_floating_pane_focus_history.keeps_client [OF ok, of f p]
      by (simp add: client_ok_def remove_pane_from_floating_pane_focus_history_side)
    moreover have "not_zoomed_floating f p c" using z c by (simp add: all_clients_def)
    ultimately show ?thesis
      using float_side_without [of F c f P p, OF _ P] ok \<open>find_floating_pane_input_pane_id c f \<noteq> Some p\<close> by (simp add: client_ok_def)
  qed
  then have "clients_ok Z T (F(f \<mapsto> P - {p})) ?s'"
    using heldD(4) [OF h]
    by (auto simp: clients_ok_def change_all_clients_def update_all_clients_def remove_pane_from_floating_pane_focus_history.keeps_id)
  moreover have "covers T (F(f \<mapsto> P - {p})) ?s'"
  proof -
    have "floating_panes ?s = floating_panes s" "leaves_of ?s' = leaves_of ?s"
      using same_layout_stores(4) [OF focus_operation.keeps_layout [OF run]] by simp_all
    with heldD(3) [OF h] Q P show ?thesis
      unfolding covers_same_leaves [OF \<open>leaves_of ?s' = leaves_of ?s\<close>] by (fastforce simp: covers_def split: if_splits)
  qed
  moreover have "frame_ok Y ?s'" "dense_indices (tabs ?s')"
    using same_layout_frame_ok [OF _ heldD(1) [OF h]] heldD(2) [OF h] by (simp_all add: change_all_clients_def)
  ultimately show "held Y Z T (F(f \<mapsto> P - {p})) (fst (repair_floating_pane_focus_after_pane_left f p xs s))" by (simp add: eq held_def)
  show "leaves_of (fst (repair_floating_pane_focus_after_pane_left f p xs s)) = leaves_of s"
    by (simp add: eq focus_operation.keeps_leaves [OF run])
  show "same_registry s (fst (repair_floating_pane_focus_after_pane_left f p xs s))"
    using focus_operation.keeps_registry [OF run, of s] by (simp add: eq same_registry_def change_all_clients_def)
qed

lemma float_at_member:
  assumes "pane \<in> set (floats s)" "distinct (map own_floating_pane_id (floats s))"
  shows "float_at s (own_floating_pane_id pane) = Some pane"
proof -
  have "find (\<lambda>other. own_floating_pane_id other = own_floating_pane_id pane) fs = Some pane"
    if "pane \<in> set fs" "distinct (map own_floating_pane_id fs)" for fs
    using that by (induction fs) auto
  with assms show ?thesis unfolding float_at_find by blast
qed

lemma find_by_pane_id:
  assumes "find_floating_pane_by_pane_id (floats s) p = Some (n, pane)" "distinct (map own_floating_pane_id (floats s))"
  shows "float_at s (own_floating_pane_id pane) = Some pane" "p \<in> set (list_floating_pane_ids pane)"
proof -
  from find_enumerate_Some [OF assms(1) [unfolded find_floating_pane_by_pane_id_def]]
  have pane: "pane \<in> set (floats s)" "has_pane (floating_layout pane) p" by auto
  then show "p \<in> set (list_floating_pane_ids pane)" by (simp add: has_pane_iff list_floating_pane_ids_def)
  from pane(1) assms(2) show "float_at s (own_floating_pane_id pane) = Some pane" by (rule float_at_member)
qed

lemma remove_pane_from_floating_pane_session:
  assumes ok: "session_ok s"
  shows "session_ok (fst (remove_pane_from_floating_pane p s))"
proof (cases "find_floating_pane_by_pane_id (floats s) p")
  case None
  with ok show ?thesis by (simp add: remove_pane_from_floating_pane_def)
next
  case (Some found)
  then obtain n pane where found: "find_floating_pane_by_pane_id (floats s) p = Some (n, pane)" by (cases found) auto
  let ?Z = "one_sizing s" and ?T = "tab_panes s" and ?F = "floating_panes s" and ?ps = "list_floating_pane_ids pane"
  define f where "f = own_floating_pane_id pane"
  note held = session_heldD [OF ok]
  have "distinct (map own_floating_pane_id (floats s))" using heldD(1) [OF held] by (simp add: frame_ok_def)
  note pane = find_by_pane_id [OF found this, folded f_def]
  have part: "partition_of (leaves_of s) (set (RBT.keys (panes s)))" using ok by (simp add: session_ok_def)
  have dist: "distinct ?ps" using partitionD(1) [OF part, of "FloatingPaneArea f" ?ps] pane(1) by simp
  show ?thesis
  proof (cases "?ps = [p]")
    case True
    with found remove_floating_pane_session [OF ok] show ?thesis by (simp add: remove_pane_from_floating_pane_def)
  next
    case False
    define rects where "rects = list_floating_pane_focused_client_rects s f p"
    define s0 where "s0 = drop_pane_records [p] s"
    have s0: "held ?Z ?Z ?T ?F s0" "leaves_of s0 = leaves_of s" "session_pane_sizing s0 = session_pane_sizing s"
      "set (RBT.keys (panes s0)) = set (RBT.keys (panes s)) - {p}" "clients s0 = clients s" "floats s0 = floats s"
      using drop_pane_records_held(1) [OF held] by (simp_all add: s0_def drop_pane_records_sel drop_pane_records_held(2))
    have at0: "float_at s0 f = Some pane" using pane(1) by (simp add: float_at_find s0(6))
    have Ff: "?F f = Some (set ?ps)" using pane(1) by (simp add: floating_panes_def)
    obtain m where m: "remove_pane_and_normalize (floating_layout pane) p = Inr m"
      using remove_and_normalize(2) [of "floating_layout pane" p] pane(2) False
      by (cases "remove_pane_and_normalize (floating_layout pane) p") (auto simp: list_floating_pane_ids_def)
    have leaves: "list_leaf_pane_ids m = remove1 p ?ps" "list_leaf_pane_ids m \<noteq> []"
      using remove_and_normalize(1) [OF m] by (auto simp: list_floating_pane_ids_def)
    have left: "set (list_leaf_pane_ids m) = set ?ps - {p}" using dist by (simp add: leaves(1))
    define s1 where "s1 = fst (update_floating_pane_layout f m s0)"
    have J: "typed_by f p (fst ` set rects) s0"
      using clients_okD [OF heldD(4) [OF held]] in_map_values
      by (fastforce simp: typed_by_def s0(5) rects_def list_floating_pane_focused_client_rects_def list_attached_clients_def image_iff)
    have s1: "held ?Z ?Z ?T ?F s1" "leaves_of s1 = (leaves_of s)(FloatingPaneArea f \<mapsto> remove1 p ?ps)" "same_registry s0 s1"
      "typed_by f p (fst ` set rects) s1"
      using update_floating_pane_layout_held [of s0 ?T ?F f pane "set ?ps" m] s0 at0 Ff left leaves
        update_floating_pane_layout_typed [of s0 ?T ?F f pane "set ?ps" m p, OF _ _ _ _ _ _ J] by (simp_all add: s1_def)
    define s2 where "s2 = change_all_clients (clear_zoom_of_pane p) s1"
    have s2: "held ?Z ?Z ?T ?F s2" "all_clients (zoomed_nowhere_on p) s2" "leaves_of s2 = leaves_of s1" "same_registry s1 s2"
      using clear_zoom_everywhere_held [OF s1(1), of p] by (simp_all add: s2_def)
    have J2: "typed_by f p (fst ` set rects) s2"
      using s1(4) by (auto simp: typed_by_def s2_def change_all_clients_def update_all_clients_def dest: clear_zoom_of_pane_input)
    have Q: "floating_panes s2 f = Some (set ?ps - {p})" "set ?ps - {p} \<noteq> {}"
      using left leaves(2) dist by (simp_all add: floating_panes_leaves s2(3) s1(2) flip: left del: leaves_of.simps)
    let ?s = "fst (repair_floating_pane_focus_after_pane_left f p rects s2)"
    have r: "held ?Z ?Z ?T (?F(f \<mapsto> set ?ps - {p})) ?s" "leaves_of ?s = leaves_of s2" "same_registry s2 ?s"
      by (rule repair_floating_pane_focus_after_pane_left_held [OF s2(1) all_clients_mono [OF s2(2)] Q _ Ff J2]; simp add: zoomed_nowhere)+
    have reg: "same_registry s0 ?s" by (rule same_registry_trans [OF s1(3) same_registry_trans [OF s2(4) r(3)]])
    have eq: "fst (remove_pane_from_floating_pane p s) = ?s"
      using float_at_Some [of s0 f pane] at0
      unfolding remove_pane_from_floating_pane_def found rects_def s2_def s1_def s0_def f_def
      by (auto simp: False case_prod_beta Let_def fst_andThen remove_pane_leaf_from_floating_pane_def m)
    show ?thesis
      unfolding eq
    proof (rule session_okI_float [of s f "remove1 p ?ps"])
      show "held ?Z ?Z ?T (?F(f \<mapsto> set (remove1 p ?ps))) ?s" using r(1) by (simp add: dist)
      show "partition_of ((leaves_of s)(FloatingPaneArea f \<mapsto> remove1 p ?ps)) (set (RBT.keys (panes ?s)))"
        using leave_partition [OF part _ pane(2) refl, of "FloatingPaneArea f"] pane(1) leaves reg s0(4) by (simp add: same_registry_def)
    qed (use r s1 s2 reg s0 in \<open>simp_all add: same_registry_def\<close>)
  qed
qed

end
