(* ===== verification/Session_Reachable.thy ===== *)
theory Session_Reachable
  imports Session_Closing
begin

text \<open>
  The sessions a server can reach: every public operation of the session crate as a step, under what its
  documentation asks of the caller. The invariant holds in all of them, and so the solves the clients
  keep are never stale.
\<close>

section \<open>Calls on one client\<close>

text \<open>
  What a caller may do through \<open>get_client_mut_by_id\<close>: a pane named to a method is a pane of the tab or
  of the floating pane named with it, and a tab is a tab of the session. A kept solve is filled by the
  reads \<open>compute_client_solve\<close> and \<open>compute_client_floating_pane_solve\<close>.
\<close>

inductive client_call :: "session \<Rightarrow> client \<Rightarrow> (client \<Rightarrow> client) \<Rightarrow> bool" for s :: session and c :: client where
  zoom_pane: "tab_panes s t = Some P \<Longrightarrow> p \<in> P \<Longrightarrow> client_call s c (zoom_pane t p)"
| clear_zoom: "client_call s c (clear_zoom t)"
| zoom_floating: "floating_panes s f = Some P \<Longrightarrow> p \<in> P \<Longrightarrow> client_call s c (zoom_pane_in_floating_pane f p)"
| clear_floating_zoom: "client_call s c (clear_floating_pane_zoom f)"
| clear_zoom_of: "client_call s c (clear_zoom_of_pane p)"
| set_scroll: "client_call s c (set_scroll_offset p n)"
| set_selection: "client_call s c (set_selection p sel)"
| clear_selection: "client_call s c (clear_selection p)"
| lock_mode: "client_call s c (update_lock_mode mode)"
| lock_command: "client_call s c (set_last_applied_lock_command_id k)"
| move_command: "client_call s c (set_last_applied_floating_pane_move_command_id k)"
| placement_command: "client_call s c (set_last_applied_placement_command_id k)"
| mouse_selection: "client_call s c (\<lambda>c. fst (toggle_mouse_selection c))"
| viewport: "client_call s c (update_viewport_size viewport)"
| pane_area: "client_call s c (update_pane_area area)"
| cell_size: "client_call s c (update_cell_size pixels)"
| origin: "client_call s c (update_origin orig)"
| active_tab: "has_key (tabs s) t \<Longrightarrow> client_call s c (update_active_tab_id t)"
| focus_pane: "tab_panes s t = Some P \<Longrightarrow> p \<in> P \<Longrightarrow> client_call s c (\<lambda>c. fst (update_focused_pane t p c))"
| focus_tiled: "tab_panes s t = Some P \<Longrightarrow> p \<in> P \<Longrightarrow> client_call s c (\<lambda>c. fst (focus_tiled_pane t p c))"
| insert_history: "tab_panes s t = Some P \<Longrightarrow> distinct ps \<Longrightarrow> set ps \<subseteq> P \<Longrightarrow> client_call s c (insert_panes_into_focus_history t n ps)"
| forget_pane: "client_call s c (remove_pane_from_focus_history t p)"
| forget_tab: "client_call s c (clear_focus_history t)"
| focus_floating: "client_call s c (\<lambda>c. fst (focus_floating_pane f c))"
| floating_input: "floating_panes s f = Some P \<Longrightarrow> p \<in> P \<Longrightarrow> client_call s c (update_floating_pane_focused_pane f p)"
| minimize: "client_call s c (\<lambda>c. fst (minimize_floating_pane f c))"
| minimize_shown: "client_call s c (\<lambda>c. fst (minimize_shown_floating_panes c))"
| pin: "client_call s c (pin_floating_pane f cell)"
| unpin: "client_call s c (unpin_floating_pane f)"
| move_floating: "client_call s c (\<lambda>c. fst (set_floating_pane_position f cell c))"
| replace_view: "distinct saved_shown \<Longrightarrow> (\<And>f v. get saved f = Some v \<Longrightarrow> distinct (view_focus_history v)) \<Longrightarrow>
    client_call s c (replace_floating_view saved saved_shown (floats s))"
| keep_tab_solve: "get (tabs s) (active_tab_id c) = Some tab \<Longrightarrow>
    client_call s c (keep_own_active_tab_solve (build_own_client_solve s c tab))"
| keep_floating_solve: "float_at s f = Some pane \<Longrightarrow> get_floating_pane_view c f = Some v \<Longrightarrow>
    client_call s c (keep_own_floating_pane_solve f (build_own_floating_solve s pane v))"

subsection \<open>The two calls that are no client method on their own\<close>

lemma keep_tab_solve_ok:
  assumes ok: "client_ok (one_sizing s) T F s c" and tab: "get (tabs s) (active_tab_id c) = Some tab" "own_tab_id tab = active_tab_id c"
  shows "client_ok (one_sizing s) T F s (keep_own_active_tab_solve (build_own_client_solve s c tab) c)"
proof -
  let ?c = "keep_own_active_tab_solve (build_own_client_solve s c tab) c"
  have "tab_side_ok T ?c = tab_side_ok T c" "float_side_ok F ?c = float_side_ok F c"
    by (simp_all add: tab_side_ok_def float_side_ok_def keep_own_active_tab_solve_def)
  moreover have "tab_solve_ok (tab_area (one_sizing s) s) ?c"
    using ok tab
    by (auto simp: client_ok_def kept_ok_def tab_solve_ok_def keep_own_active_tab_solve_def get_own_active_tab_solve_def
        tab_area_def build_own_client_solve_def get_layout_mode_def list_focus_history_def split: option.splits)
  ultimately show ?thesis using ok by (simp add: client_ok_def kept_ok_def keep_own_active_tab_solve_def)
qed

lemma keep_floating_solve_ok:
  assumes ok: "client_ok (one_sizing s) T F s c" and pane: "float_at s f = Some pane" and v: "get_floating_pane_view c f = Some v"
  shows "client_ok (one_sizing s) T F s (keep_own_floating_pane_solve f (build_own_floating_solve s pane v) c)"
proof -
  let ?c = "keep_own_floating_pane_solve f (build_own_floating_solve s pane v) c"
  from v obtain w where w: "get (floating_pane_view_by_id c) f = Some w" "own_view w = v" by (auto simp: get_floating_pane_view_def)
  have "float_side_ok F ?c" if "float_side_ok F c"
    unfolding keep_own_floating_pane_solve_def by (rule update_view_side [OF that]) simp
  moreover have "view_solve_ok (floating_area (one_sizing s) s f) w"
    using ok w by (simp add: client_ok_def kept_ok_def)
  then have "view_solve_ok (floating_area (one_sizing s) s f)
      (w\<lparr>own_solve := Some (case own_solve w of Some kept \<Rightarrow> kept | None \<Rightarrow> build_own_floating_solve s pane v)\<rparr>)"
    using w pane by (auto simp: view_solve_ok_def floating_area_def build_own_floating_solve_def split: option.splits)
  ultimately show ?thesis
    using ok w
    by (auto simp: client_ok_def kept_ok_def keep_own_floating_pane_solve_def update_view_def tab_side_ok_def tab_solve_ok_def
        get_layout_mode_def list_focus_history_def split: if_splits)
qed

lemma get_fold_insert:
  "distinct (map key xs) \<Longrightarrow>
   get (fold (\<lambda>x. RBT.insert (key x) (g x)) xs m) k = (case find (\<lambda>x. key x = k) xs of Some x \<Rightarrow> Some (g x) | None \<Rightarrow> get m k)"
proof (induction xs arbitrary: m)
  case (Cons x xs)
  have "find (\<lambda>y. key y = k) xs = None" if "key x = k" using Cons.prems that by (simp add: find_None_iff) (metis image_eqI)
  with Cons show ?case by (auto split: option.split)
qed simp

lemma restored_view_unsolved: "own_solve (restored_view saved shown pane) = None"
  by (simp add: restored_view_def Let_def)

lemma restored_views_unsolved:
  "(\<And>f w. get m f = Some w \<Longrightarrow> own_solve w = None) \<Longrightarrow>
   get (fold (\<lambda>f. RBT.insert (own_floating_pane_id f) (restored_view saved shown f)) fs m) f = Some w \<Longrightarrow> own_solve w = None"
proof (induction fs arbitrary: m)
  case (Cons pane fs)
  let ?m = "RBT.insert (own_floating_pane_id pane) (restored_view saved shown pane) m"
  have "own_solve w = None" if "get ?m f = Some w" for f w
    using that Cons.prems(1) by (auto simp: restored_view_unsolved split: if_splits)
  with Cons.IH [of ?m] Cons.prems(2) show ?case by simp
qed simp

interpretation replace_floating_view: client_method "replace_floating_view saved saved_shown fs" for saved saved_shown fs
proof
  fix c A B
  show "own_client_id (replace_floating_view saved saved_shown fs c) = own_client_id c"
    "client_session_id (replace_floating_view saved saved_shown fs c) = client_session_id c"
    by (simp_all add: replace_floating_view_def client_frame Let_def)
  assume "kept_ok A B c"
  moreover have "tab_solve_ok A (replace_floating_view saved saved_shown fs c) = tab_solve_ok A c"
    by (simp add: tab_solve_ok_def replace_floating_view_def client_frame Let_def get_layout_mode_def list_focus_history_def)
  ultimately show "kept_ok A B (replace_floating_view saved saved_shown fs c)"
    by (auto simp: kept_ok_def replace_floating_view_def client_frame Let_def intro!: view_solve_ok_cleared
        elim!: restored_views_unsolved [rotated])
qed

lemma restored_view_ok:
  assumes "list_floating_pane_ids pane \<noteq> []" "\<And>v. get saved (own_floating_pane_id pane) = Some v \<Longrightarrow> distinct (view_focus_history v)"
  shows "view_ok (set (list_floating_pane_ids pane)) (own_view (restored_view saved shown pane))"
proof -
  have hd: "take 1 ps \<noteq> [] \<and> distinct (take 1 ps) \<and> set (take 1 ps) \<subseteq> set ps" if "ps \<noteq> []" for ps :: "pane_id list"
    using that by (cases ps) auto
  show ?thesis
    using assms hd [OF assms(1)]
    by (auto simp: view_ok_def restored_view_def Let_def has_pane_iff list_floating_pane_ids_def bind_eq_Some_conv filter_empty_conv
        split: option.splits if_splits)
qed

lemma replace_floating_view_side:
  assumes frame: "distinct (map own_floating_pane_id (floats s))" "\<And>pane. pane \<in> set (floats s) \<Longrightarrow> list_floating_pane_ids pane \<noteq> []"
    and saved: "distinct saved_shown" "\<And>f v. get saved f = Some v \<Longrightarrow> distinct (view_focus_history v)"
  shows "float_side_ok (floating_panes s) (replace_floating_view saved saved_shown (floats s) c)"
proof -
  define shown where "shown = filter (\<lambda>f. find_floating_pane_by_id (floats s) f \<noteq> None \<and>
      (case get saved f of Some v \<Rightarrow> \<not> is_minimized v | None \<Rightarrow> False)) saved_shown"
  let ?c = "replace_floating_view saved saved_shown (floats s) c"
  have sel: "shown_floating_pane_ids ?c = shown" "focused_floating_pane_id ?c = last_opt shown"
    by (simp_all add: replace_floating_view_def shown_def client_frame Let_def)
  have views: "get (floating_pane_view_by_id ?c) f = map_option (restored_view saved shown) (float_at s f)" for f
    by (simp add: replace_floating_view_def shown_def client_frame Let_def get_fold_insert [OF frame(1)] float_at_find split: option.split)
  have d: "dom (get (floating_pane_view_by_id ?c)) = dom (floating_panes s)"
    unfolding views by (auto simp: floating_panes_def dom_def)
  have "view_ok (the (floating_panes s f)) (own_view w) \<and> (is_minimized (own_view w) \<longleftrightarrow> f \<notin> set shown)"
    if "get (floating_pane_view_by_id ?c) f = Some w" for f w
  proof -
    from that obtain pane where pane: "float_at s f = Some pane" "w = restored_view saved shown pane" by (auto simp: views)
    note f = float_at_id [OF pane(1)]
    then have "view_ok (set (list_floating_pane_ids pane)) (own_view w)"
      using restored_view_ok [OF frame(2)] saved(2) pane(2) by blast
    with pane f show ?thesis by (simp add: floating_panes_def restored_view_def Let_def)
  qed
  moreover have "set shown \<subseteq> dom (floating_panes s)"
    by (auto simp: shown_def floating_panes_def float_at_def dom_def)
  moreover have "distinct shown" using saved(1) by (simp add: shown_def)
  ultimately show ?thesis by (simp add: float_side_ok_def d sel)
qed

subsection \<open>Every call keeps the client well-formed\<close>

lemma session_okD:
  assumes "session_ok s"
  shows "distinct (map own_floating_pane_id (floats s))" "\<And>pane. pane \<in> set (floats s) \<Longrightarrow> list_floating_pane_ids pane \<noteq> []"
    "\<And>t tab. get (tabs s) t = Some tab \<Longrightarrow> own_tab_id tab = t"
proof -
  show d: "distinct (map own_floating_pane_id (floats s))" and "\<And>t tab. get (tabs s) t = Some tab \<Longrightarrow> own_tab_id tab = t"
    using heldD(1) [OF session_heldD [OF assms]] by (auto simp: frame_ok_def)
  fix pane
  assume "pane \<in> set (floats s)"
  then have "leaves_of s (FloatingPaneArea (own_floating_pane_id pane)) = Some (list_floating_pane_ids pane)"
    using float_at_member [OF _ d] by simp
  moreover have "partition_of (leaves_of s) (set (RBT.keys (panes s)))" using assms by (simp add: session_ok_def)
  ultimately show "list_floating_pane_ids pane \<noteq> []" using partitionD(1) by blast
qed

lemma neutral_calls [simp]:
  "tab_side_ok T (set_last_applied_lock_command_id k c) = tab_side_ok T c"
  "float_side_ok F (set_last_applied_lock_command_id k c) = float_side_ok F c"
  "tab_side_ok T (set_last_applied_floating_pane_move_command_id k c) = tab_side_ok T c"
  "float_side_ok F (set_last_applied_floating_pane_move_command_id k c) = float_side_ok F c"
  "tab_side_ok T (set_last_applied_placement_command_id k c) = tab_side_ok T c"
  "float_side_ok F (set_last_applied_placement_command_id k c) = float_side_ok F c"
  "tab_side_ok T (fst (toggle_mouse_selection c)) = tab_side_ok T c"
  "float_side_ok F (fst (toggle_mouse_selection c)) = float_side_ok F c"
  "tab_side_ok T (update_cell_size x c) = tab_side_ok T c" "float_side_ok F (update_cell_size x c) = float_side_ok F c"
  "tab_side_ok T (update_origin y c) = tab_side_ok T c" "float_side_ok F (update_origin y c) = float_side_ok F c"
  by (simp_all add: tab_side_ok_def float_side_ok_def set_last_applied_lock_command_id_def
      set_last_applied_floating_pane_move_command_id_def set_last_applied_placement_command_id_def toggle_mouse_selection_def
      update_cell_size_def update_origin_def client_frame Let_def)

lemma floating_positions_side:
  assumes "float_side_ok F c"
  shows "float_side_ok F (pin_floating_pane f cell c)" "float_side_ok F (unpin_floating_pane f c)"
    "float_side_ok F (fst (set_floating_pane_position f cell c))" "tab_side_ok T (pin_floating_pane f cell c) = tab_side_ok T c"
    "tab_side_ok T (unpin_floating_pane f c) = tab_side_ok T c" "tab_side_ok T (fst (set_floating_pane_position f cell c)) = tab_side_ok T c"
  using update_floating_pane_position_side [OF assms]
  by (auto simp: pin_floating_pane_def unpin_floating_pane_def set_floating_pane_position_def assms
      split: option.splits floating_pane_position.splits)

lemma replace_floating_view_tab_side: "tab_side_ok T (replace_floating_view saved saved_shown fs c) = tab_side_ok T c"
  by (simp add: tab_side_ok_def replace_floating_view_def client_frame Let_def)

lemmas call_methods =
  zoom_pane.client_method_axioms clear_zoom.client_method_axioms zoom_pane_in_floating_pane.client_method_axioms
  clear_floating_pane_zoom.client_method_axioms clear_zoom_of_pane.client_method_axioms set_scroll_offset.client_method_axioms
  set_selection.client_method_axioms clear_selection.client_method_axioms update_lock_mode.client_method_axioms
  set_last_applied_lock_command_id.client_method_axioms set_last_applied_floating_pane_move_command_id.client_method_axioms
  set_last_applied_placement_command_id.client_method_axioms toggle_mouse_selection.client_method_axioms
  update_viewport_size.client_method_axioms update_pane_area.client_method_axioms update_cell_size.client_method_axioms
  update_origin.client_method_axioms update_active_tab_id.client_method_axioms update_focused_pane.client_method_axioms
  focus_tiled_pane.client_method_axioms insert_panes_into_focus_history.client_method_axioms
  remove_pane_from_focus_history.client_method_axioms clear_focus_history.client_method_axioms
  focus_floating_pane.client_method_axioms update_floating_pane_focused_pane.client_method_axioms
  minimize_floating_pane.client_method_axioms minimize_shown_floating_panes.client_method_axioms
  pin_floating_pane.client_method_axioms unpin_floating_pane.client_method_axioms
  set_floating_pane_position.client_method_axioms replace_floating_view.client_method_axioms

lemmas call_sides =
  zoom_pane_side clear_zoom_side zoom_pane_in_floating_pane_side clear_floating_pane_zoom_side clear_zoom_of_pane_side
  clear_zoom_of_pane_float_side update_active_tab_side update_focused_pane_side focus_tiled_pane_side focus_tiled_pane_float_side
  insert_panes_into_focus_history_side remove_pane_from_focus_history_side clear_focus_history_side focus_floating_pane_side
  update_floating_pane_focused_pane_side minimize_floating_pane_side minimize_shown_side floating_positions_side(1-3)

lemma client_call_cases:
  assumes call: "client_call s c g" and ok: "client_ok (one_sizing s) (tab_panes s) (floating_panes s) s c" and session: "session_ok s"
  shows "client_method g \<and> tab_side_ok (tab_panes s) (g c) \<and> float_side_ok (floating_panes s) (g c) \<or>
    (\<exists>tab. g = keep_own_active_tab_solve (build_own_client_solve s c tab) \<and> get (tabs s) (active_tab_id c) = Some tab) \<or>
    (\<exists>f pane v. g = keep_own_floating_pane_solve f (build_own_floating_solve s pane v) \<and> float_at s f = Some pane \<and>
       get_floating_pane_view c f = Some v)"
    (is "?method \<or> ?kept")
proof -
  have sides: "tab_side_ok (tab_panes s) c" "float_side_ok (floating_panes s) c" using ok by (simp_all add: client_ok_def)
  from call have "?method" if "\<not> ?kept"
  proof cases
    case (active_tab t)
    then have "tab_panes s t \<noteq> None" by (simp add: tab_panes_def)
    then show ?thesis by (simp add: active_tab call_methods call_sides sides)
  next
    case (replace_view saved_shown saved)
    note side = replace_floating_view_side [OF session_okD(1,2) [OF session] replace_view(2,3)]
    show ?thesis by (simp add: replace_view(1) call_methods replace_floating_view_tab_side side sides session)
  qed (use that sides in \<open>simp_all add: call_methods call_sides floating_positions_side(4-6) [OF sides(2)]
      del: minimize_shown_sel\<close>)
  then show ?thesis by blast
qed

lemma client_call_ok:
  assumes call: "client_call s c g" and ok: "client_ok (one_sizing s) (tab_panes s) (floating_panes s) s c" and session: "session_ok s"
  shows "own_client_id (g c) = own_client_id c \<and> client_ok (one_sizing s) (tab_panes s) (floating_panes s) s (g c)"
  using client_call_cases [OF call ok session]
proof (elim disjE exE conjE)
  assume "client_method g" "tab_side_ok (tab_panes s) (g c)" "float_side_ok (floating_panes s) (g c)"
  then show ?thesis using client_method.keeps_client ok by blast
next
  fix tab
  assume g: "g = keep_own_active_tab_solve (build_own_client_solve s c tab)" and tab: "get (tabs s) (active_tab_id c) = Some tab"
  then show ?thesis
    using keep_tab_solve_ok [OF ok tab session_okD(3) [OF session tab]] by (simp add: keep_own_active_tab_solve_def)
next
  fix f pane v
  assume "g = keep_own_floating_pane_solve f (build_own_floating_solve s pane v)" "float_at s f = Some pane"
    "get_floating_pane_view c f = Some v"
  then show ?thesis
    using keep_floating_solve_ok [OF ok] by (simp add: keep_own_floating_pane_solve_def update_view_def)
qed

lemma client_call_session:
  assumes ok: "session_ok s" and c: "get_client_by_id (clients s) i = Some c" and call: "client_call s c g"
  shows "session_ok (s\<lparr>clients := update_client i g (clients s)\<rparr>)"
proof (rule session_same_layout [OF ok same_layout_clients])
  show "clients_ok (one_sizing s) (tab_panes s) (floating_panes s) (s\<lparr>clients := update_client i g (clients s)\<rparr>)"
    by (rule clients_ok_update [OF heldD(4) [OF session_heldD [OF ok]]]) (use c client_call_ok [OF call _ ok] in auto)
qed

section \<open>Steps of a session\<close>

text \<open>
  The guards are the callers' part of each contract: ids are fresh, a rearranged tree holds the panes of
  the tree it replaces, a tree that takes a new pane holds that pane besides, a removal names a pane of
  the tab, a client attaches to a tab of the session, and the first tab is opened before a client
  attaches.
\<close>

inductive session_step :: "session \<Rightarrow> session \<Rightarrow> bool" for s :: session where
  call: "get_client_by_id (clients s) i = Some c \<Longrightarrow> client_call s c g \<Longrightarrow>
    session_step s (s\<lparr>clients := update_client i g (clients s)\<rparr>)"
| attach: "has_key (tabs s) t \<Longrightarrow>
    session_step s (fst (attach_client (from_attachment i (own_session_id s) at viewport area t orig lab col) s))"
| detach: "session_step s (fst (detach_client i s))"
| take_changes: "session_step s (fst (take_view_changes s))"
| take_lock: "session_step s (fst (take_start_lock s))"
| take_tab: "session_step s (fst (take_starting_tab_id s))"
| request_stop: "session_step s (request_session_stop s)"
| complete_stop: "session_step s (complete_session_stop s)"
| solve_tab: "session_step s (fst (update_tab_solve t s))"
| solve_floats: "session_step s (fst (update_floating_pane_sizes viewport s))"
| resize_floating: "session_step s (s\<lparr>floats := fst (update_floating_pane_desired_size f desired (floats s))\<rparr>)"
| sizing: "session_step s (fst (update_pane_sizing z s))"
| rearrange_tab: "get (tabs s) t = Some tab \<Longrightarrow> distinct (list_leaf_pane_ids tree) \<Longrightarrow>
    set (list_leaf_pane_ids tree) = set (list_leaf_pane_ids (tab_layout tab)) \<Longrightarrow>
    session_step s (fst (update_tab_layout t tree s))"
| rearrange_floating: "float_at s f = Some pane \<Longrightarrow> distinct (list_leaf_pane_ids tree) \<Longrightarrow>
    set (list_leaf_pane_ids tree) = set (list_floating_pane_ids pane) \<Longrightarrow>
    session_step s (fst (update_floating_pane_layout f tree s))"
| new_tab: "\<not> has_key (tabs s) t \<Longrightarrow> \<not> has_key (panes s) p \<Longrightarrow> (RBT.is_empty (tabs s) \<Longrightarrow> \<not> has_clients (clients s)) \<Longrightarrow>
    session_step s (fst (commit_new_tab t p name focus_client spec tab_size s))"
| profile_tab: "\<not> has_key (tabs s) t \<Longrightarrow> list_leaf_pane_ids (profile_layout_tree profile) = profile_pane_ids profile \<Longrightarrow>
    distinct (profile_pane_ids profile) \<Longrightarrow> (\<And>p. p \<in> set (profile_pane_ids profile) \<Longrightarrow> \<not> has_key (panes s) p) \<Longrightarrow>
    length (profile_pane_specs profile) = length (profile_pane_ids profile) \<Longrightarrow>
    (RBT.is_empty (tabs s) \<Longrightarrow> \<not> has_clients (clients s)) \<Longrightarrow>
    commit_profile_tab t profile name tab_size s = Some (s', es) \<Longrightarrow> session_step s s'"
| close_tab: "session_step s (fst (close_tab t s))"
| focus_tab: "session_step s (fst (focus_tab i target s))"
| move_tab: "session_step s (fst (move_tab t n s))"
| land: "session_step s (fst (land_focus i t s))"
| focus_in_tab: "tab_panes s t = Some P \<Longrightarrow> p \<in> P \<Longrightarrow> session_step s (fst (update_client_tab_focus i t p s))"
| new_pane: "get (tabs s) t = Some tab \<Longrightarrow> \<not> has_key (panes s) p \<Longrightarrow> distinct (list_leaf_pane_ids tree) \<Longrightarrow>
    set (list_leaf_pane_ids tree) = insert p (set (list_leaf_pane_ids (tab_layout tab))) \<Longrightarrow>
    session_step s (fst (commit_new_pane p t tree focus_client spec s))"
| new_pane_in_floating: "float_at s f = Some pane \<Longrightarrow> \<not> has_key (panes s) p \<Longrightarrow> distinct (list_leaf_pane_ids tree) \<Longrightarrow>
    set (list_leaf_pane_ids tree) = insert p (set (list_floating_pane_ids pane)) \<Longrightarrow>
    session_step s (fst (commit_new_pane_in_floating_pane p f tree focus_client spec s))"
| new_floating: "float_at s fresh = None \<Longrightarrow> \<not> has_key (panes s) p \<Longrightarrow>
    commit_new_floating_pane fresh p desired solved_size acting_view spec s = Inr (s', es) \<Longrightarrow> session_step s s'"
| remove_pane: "(\<And>tab. get (tabs s) t = Some tab \<Longrightarrow> has_key (panes s) p \<Longrightarrow> p \<in> set (list_leaf_pane_ids (tab_layout tab))) \<Longrightarrow>
    session_step s (fst (remove_pane_cascade t p pane_exit s))"
| child_exit: "(\<And>tab. get (tabs s) t = Some tab \<Longrightarrow> has_key (panes s) (exited_pane_id e) \<Longrightarrow>
      exited_pane_id e \<in> set (list_leaf_pane_ids (tab_layout tab))) \<Longrightarrow>
    session_step s (fst (apply_child_exit t e s))"
| remove_from_floating: "session_step s (fst (remove_pane_from_floating_pane p s))"
| remove_floating: "session_step s (fst (remove_floating_pane f s))"

inductive_cases session_step_cases: "session_step s s'"

lemma desired_size_session:
  assumes ok: "session_ok s"
  shows "session_ok (s\<lparr>floats := fst (update_floating_pane_desired_size f desired (floats s))\<rparr>)" (is "session_ok ?s")
proof -
  have at: "float_at ?s f' = (if f' = f then map_option (\<lambda>pane. pane\<lparr>desired_size := desired\<rparr>) (float_at s f) else float_at s f')" for f'
    by (simp add: float_at_find update_floating_pane_desired_size_def find_update_first)
  have leaves: "leaves_of ?s = leaves_of s"
  proof
    show "leaves_of ?s a = leaves_of s a" for a
      by (cases a) (auto simp: at option.map_comp comp_def list_floating_pane_ids_def [abs_def])
  qed
  note h = session_heldD [OF ok]
  have "floating_pane_ok pane" if "pane \<in> set (floats ?s)" for pane
    using that heldD(1) [OF h]
    by (auto simp: frame_ok_def update_floating_pane_desired_size_def floating_pane_ok_def find_Some_iff dest!: set_update_first)
  moreover have "areas_ok (one_sizing s) ?s"
    using heldD(5) [OF h] by (auto simp: areas_ok_def at split: if_splits)
  moreover have "map own_floating_pane_id (update_first_floating_pane f (\<lambda>pane. pane\<lparr>desired_size := desired\<rparr>) fs) =
      map own_floating_pane_id fs" for fs
    by (induction fs) auto
  then have "map own_floating_pane_id (floats ?s) = map own_floating_pane_id (floats s)"
    by (simp add: update_floating_pane_desired_size_def)
  ultimately have "frame_ok (one_sizing s) ?s"
    using heldD(1) [OF h] by (auto simp: frame_ok_def dest: map_eq_imp_length_eq)
  moreover have "floating_area (one_sizing s) ?s = floating_area (one_sizing s) s"
    by (auto simp: floating_area_def fun_eq_iff at option.map_comp comp_def)
  then have "clients_ok (one_sizing s) (tab_panes s) (floating_panes s) ?s"
    using heldD(4) [OF h] by (simp add: clients_ok_def client_ok_def tab_area_def [abs_def])
  ultimately have "held (one_sizing s) (one_sizing s) (tab_panes s) (floating_panes s) ?s"
    using h by (simp add: held_def covers_same_leaves [OF leaves])
  then show ?thesis
    by (rule session_ok_same_leaves [OF ok leaves, rotated]) (simp add: same_registry_def)
qed

lemma viewed_client_ok: "client_ok Z T F s (c\<lparr>is_view_changed := False\<rparr>) = client_ok Z T F s c"
  by (simp add: client_ok_def tab_side_ok_def float_side_ok_def kept_ok_def tab_solve_ok_def get_layout_mode_def list_focus_history_def)

lemma take_view_changes_session:
  assumes ok: "session_ok s"
  shows "session_ok (fst (take_view_changes s))"
proof (rule session_same_layout [OF ok])
  show "same_layout s (fst (take_view_changes s))" by (simp add: take_view_changes_def same_layout_def split: prod.split)
  note same = same_layout_ok(2) [OF this]
  have "\<exists>c. get_client_by_id (clients s) i = Some c \<and> (c' = c \<or> c' = c\<lparr>is_view_changed := False\<rparr>)"
    if "get_client_by_id (clients (fst (take_view_changes s))) i = Some c'" for i c'
    using that by (auto simp: take_view_changes_def take_changed_client_ids_def split: if_splits)
  then have "own_client_id c' = i \<and> client_ok (one_sizing s) (tab_panes s) (floating_panes s) s c'"
    if "get_client_by_id (clients (fst (take_view_changes s))) i = Some c'" for i c'
    using that clients_okD [OF heldD(4) [OF session_heldD [OF ok]], of i] by (fastforce simp: viewed_client_ok)
  then show "clients_ok (one_sizing s) (tab_panes s) (floating_panes s) (fst (take_view_changes s))"
    unfolding clients_ok_def same by blast
qed

lemma session_step_ok:
  assumes step: "session_step s s'" and ok: "session_ok s"
  shows "session_ok s'"
  using step
proof cases
  case (profile_tab t profile name tab_size es)
  from commit_profile_tab_session [OF ok profile_tab(1-6)] profile_tab(7) show ?thesis by blast
next
  case (focus_in_tab t P p i)
  have "clients_ok (one_sizing s) (tab_panes s) (floating_panes s) s'"
    unfolding focus_in_tab(1)
    by (rule update_client_tab_focus_clients [OF covers_refl heldD(4) [OF session_heldD [OF ok]] focus_in_tab(2,3)])
  then show ?thesis using session_same_layout [OF ok] update_client_tab_focus_layout unfolding focus_in_tab(1) by blast
next
  case (call i c g)
  show ?thesis unfolding call(1) by (rule client_call_session [OF ok call(2,3)])
next
  case (remove_pane t p pane_exit)
  show ?thesis unfolding remove_pane(1) by (rule remove_pane_cascade_session [OF ok]) (rule remove_pane(2))
next
  case (child_exit t e)
  show ?thesis unfolding child_exit(1) by (rule apply_child_exit_session [OF ok]) (rule child_exit(2))
next
  case (new_tab t p name focus_client spec tab_size)
  show ?thesis unfolding new_tab(1) by (rule commit_new_tab_session [OF ok new_tab(2,3)]) (rule new_tab(4))
qed (use ok in \<open>auto intro: attach_client_session detach_client_session take_view_changes_session session_same_clients
    update_tab_solve_session update_floating_pane_sizes_session desired_size_session update_pane_sizing_session
    update_tab_layout_session update_floating_pane_layout_session close_tab_session focus_tab_session move_tab_session
    land_focus.keeps_session commit_new_pane_session commit_new_pane_in_floating_pane_session commit_new_floating_pane_session
    remove_pane_from_floating_pane_session remove_floating_pane_session
    simp: take_start_lock_def take_starting_tab_id_def request_session_stop_def complete_session_stop_def update_lifecycle_def
      same_layout_def\<close>)

section \<open>Reachable sessions\<close>

definition reachable :: "session \<Rightarrow> bool" where
  "reachable s \<longleftrightarrow>
     (\<exists>fresh sid name at. session_step\<^sup>*\<^sup>* (from_identity_and_client_registry fresh sid name at new_client_registry) s)"

lemma start_session_ok: "session_ok (from_identity_and_client_registry fresh sid name at new_client_registry)"
  using keyed_new
  by (auto simp: session_ok_def frame_ok_def areas_ok_def clients_ok_def new_client_registry_def partition_of_def
      from_identity_and_client_registry_def dense_indices_def new_pane_registry_def float_at_def find_floating_pane_by_id_def
      bij_betw_def elim!: leaves_of.elims)

lemma steps_ok: "session_step\<^sup>*\<^sup>* s s' \<Longrightarrow> session_ok s \<Longrightarrow> session_ok s'"
  by (induction rule: rtranclp_induct) (auto intro: session_step_ok)

lemma reachable_ok: "reachable s \<Longrightarrow> session_ok s"
  unfolding reachable_def using steps_ok start_session_ok by blast

lemma reachable_step: "reachable s \<Longrightarrow> session_step s s' \<Longrightarrow> reachable s'"
  unfolding reachable_def using rtranclp.rtrancl_into_rtrancl [of session_step] by blast

lemma reachable_start: "reachable (from_identity_and_client_registry fresh sid name at new_client_registry)"
  unfolding reachable_def by blast

text \<open>
  What a client draws, computed from the trees alone: no stored solve of a tab or of a floating pane and
  no solve the client keeps is read.
\<close>

definition drawn_tab_solve :: "session \<Rightarrow> client \<Rightarrow> tab_id \<Rightarrow> layout_solve option" where
  "drawn_tab_solve s c t =
     map_option
       (\<lambda>tab. case build_client_solve (tab_layout_area tab) (get_layout_mode c t) (list_focus_history c t) (session_pane_sizing s) of
                Some solve \<Rightarrow> solve
              | None \<Rightarrow> compute_layout_solve (tab_layout_area tab) (session_pane_sizing s))
       (get (tabs s) t)"

definition drawn_floating_solve :: "session \<Rightarrow> client \<Rightarrow> floating_pane_id \<Rightarrow> layout_solve option" where
  "drawn_floating_solve s c f =
     Option.bind (float_at s f) (\<lambda>pane.
     map_option
       (\<lambda>v. case build_client_solve (floating_layout_area pane) (view_layout_mode v) (view_focus_history v) (session_pane_sizing s) of
              Some solve \<Rightarrow> solve
            | None \<Rightarrow> compute_layout_solve (floating_layout_area pane) (session_pane_sizing s))
       (get_floating_pane_view c f))"

lemma client_solve_drawn:
  assumes ok: "session_ok s" and c: "get_client_by_id (clients s) i = Some c"
  shows "compute_client_solve s c t = drawn_tab_solve s c t"
proof (cases "get (tabs s) t")
  case (Some tab)
  have "own_tab_id tab = t" using session_okD(3) [OF ok Some] .
  moreover have "tab_solve tab = compute_layout_solve (tab_layout_area tab) (session_pane_sizing s)"
    using heldD(5) [OF session_heldD [OF ok]] Some by (simp add: areas_ok_def solved_with_def)
  moreover have "kept = build_client_solve (tab_layout_area tab) (get_layout_mode c t) (list_focus_history c t) (session_pane_sizing s)"
    if "t = active_tab_id c" "own_active_tab_solve c = Some kept" for kept
    using clients_okD [OF heldD(4) [OF session_heldD [OF ok]] c] that Some
    by (auto simp: client_ok_def kept_ok_def tab_solve_ok_def tab_area_def)
  ultimately show ?thesis
    using Some
    by (simp add: compute_client_solve_def drawn_tab_solve_def build_own_client_solve_def get_own_active_tab_solve_def
        split: option.split)
qed (simp add: compute_client_solve_def drawn_tab_solve_def)

lemma client_floating_solve_drawn:
  assumes ok: "session_ok s" and c: "get_client_by_id (clients s) i = Some c"
  shows "compute_client_floating_pane_solve s c f = drawn_floating_solve s c f"
proof (cases "float_at s f")
  case (Some pane)
  then obtain n where n: "find_floating_pane_by_id (floats s) f = Some (n, pane)" by (auto simp: float_at_Some)
  have "floating_solve pane = compute_layout_solve (floating_layout_area pane) (session_pane_sizing s)"
    using heldD(5) [OF session_heldD [OF ok]] Some by (simp add: areas_ok_def solved_with_def)
  moreover have "view_solve_ok (floating_area (one_sizing s) s f) w" if "get (floating_pane_view_by_id c) f = Some w" for w
    using clients_okD [OF heldD(4) [OF session_heldD [OF ok]] c] that by (simp add: client_ok_def kept_ok_def)
  then have "kept = build_client_solve (floating_layout_area pane) (view_layout_mode (own_view w)) (view_focus_history (own_view w)) (session_pane_sizing s)"
    if "get (floating_pane_view_by_id c) f = Some w" "own_solve w = Some kept" for w kept
    using that Some by (auto simp: view_solve_ok_def floating_area_def)
  ultimately show ?thesis
    using Some n
    by (cases "get (floating_pane_view_by_id c) f")
       (auto simp: compute_client_floating_pane_solve_def drawn_floating_solve_def build_own_floating_solve_def
        get_own_floating_pane_solve_def get_floating_pane_view_def split: option.split)
next
  case None
  then show ?thesis
    using float_at_None [of s f] by (simp add: compute_client_floating_pane_solve_def drawn_floating_solve_def)
qed

section \<open>Properties\<close>


text \<open>A session with one tab, and one with a client attached to it.\<close>

definition one_pane_session :: session where
  "one_pane_session =
     fst (commit_new_tab (TabId 1) (PaneId 1) [] None \<lparr>spec_working_directory = None, spec_spawn_spec = None\<rparr>
       \<lparr>column_count = 80, row_count = 22\<rparr>
       (from_identity_and_client_registry (NotificationEpoch 0) (SessionId 1) [] 0 new_client_registry))"

definition attached_session :: session where
  "attached_session =
     fst (attach_client
       (from_attachment (ClientId 1) (own_session_id one_pane_session) 0 \<lparr>column_count = 80, row_count = 24\<rparr> None (TabId 1)
          LocalOrigin [] 0)
       one_pane_session)"

lemma one_pane_session_reachable: "reachable one_pane_session"
  unfolding one_pane_session_def
  by (rule reachable_step [OF reachable_start session_step.new_tab])
     (simp_all add: from_identity_and_client_registry_def new_pane_registry_def new_client_registry_def has_clients_def)

lemma attached_session_reachable: "reachable attached_session"
proof -
  have "has_key (tabs one_pane_session) (TabId 1)" by code_simp
  then show ?thesis
    unfolding attached_session_def by (intro reachable_step [OF one_pane_session_reachable session_step.attach])
qed

definition two_tab_session :: session where
  "two_tab_session =
     fst (commit_new_tab (TabId 2) (PaneId 2) [] None \<lparr>spec_working_directory = None, spec_spawn_spec = None\<rparr>
       \<lparr>column_count = 80, row_count = 22\<rparr> one_pane_session)"

lemma two_tab_session_reachable: "reachable two_tab_session"
proof -
  have "\<not> has_key (tabs one_pane_session) (TabId 2)" "\<not> has_key (panes one_pane_session) (PaneId 2)"
    "\<not> RBT.is_empty (tabs one_pane_session)" by code_simp+
  then show ?thesis
    unfolding two_tab_session_def by (intro reachable_step [OF one_pane_session_reachable session_step.new_tab]) simp_all
qed

theorem move_tab_display_order_witness:
  "dense_indices (tabs two_tab_session) \<and>
   list_tab_ids_in_display_order (fst (move_tab (TabId 2) 0 two_tab_session)) = [TabId 2, TabId 1]"
proof -
  have dense: "dense_indices (tabs two_tab_session)" using reachable_ok [OF two_tab_session_reachable] by (simp add: session_ok_def)
  have here: "has_key (tabs two_tab_session) (TabId 2)" "0 < map_size (tabs two_tab_session)"
    "inserted_at 0 (TabId 2) (filter (\<lambda>t. t \<noteq> TabId 2) (list_tab_ids_in_display_order two_tab_session)) = [TabId 2, TabId 1]"
    by code_simp+
  from move_tab_display_order [OF dense here(1,2)] here(3) dense show ?thesis by simp
qed




end
