(* ===== verification/Consistency.thy ===== *)
theory Consistency
  imports Session_Reachable
begin

text \<open>
  The consistency report of a session (\<open>validate_session_consistency\<close> of
  \<open>koshi-session/src/session/state.rs\<close> with the errors of \<open>koshi-session/src/error.rs\<close>), and what it can
  ever report.
\<close>

datatype session_consistency_error =
    PaneNotInRegistry tab_id pane_id
  | OrphanedPaneRecord pane_id
  | FocusPaneNotInRegistry client_id tab_id pane_id
  | FocusTabMissing client_id tab_id
  | FocusTargetMissing client_id tab_id pane_id
  | ZoomTargetMissing client_id tab_id pane_id
  | ActiveTabMissing client_id tab_id
  | PaneInMultipleLayouts pane_id "tab_id list"
  | TabKeyMismatch tab_id tab_id
  | ClientSessionMismatch client_id session_id
  | DuplicateTabIndex nat
  | TooManyFloatingPanes nat
  | EmptyFloatingPane floating_pane_id
  | DuplicateFloatingPaneId floating_pane_id
  | FloatingPaneSolveSizeStale floating_pane_id cell_size cell_size
  | FloatingPaneSolveStale floating_pane_id
  | FloatingPaneNotInRegistry pane_id
  | PaneInMultipleFloatingPanes pane_id "floating_pane_id list"
  | FloatingPaneInLayout pane_id "tab_id list"
  | FloatingViewTargetMissing client_id floating_pane_id
  | FloatingViewMissing client_id floating_pane_id
  | FloatingFocusHistoryEmpty client_id floating_pane_id
  | FloatingFocusTargetMissing client_id floating_pane_id pane_id
  | FloatingZoomTargetMissing client_id floating_pane_id pane_id
  | ShownFloatingPaneMissing client_id floating_pane_id
  | DuplicateShownFloatingPane client_id floating_pane_id
  | FloatingPaneShownStateMismatch client_id floating_pane_id bool
  | FloatingFocusNotNewestShown client_id "floating_pane_id option" "floating_pane_id option"
  | UndrawableFloatingPaneShown client_id floating_pane_id
  | TabSolveStale tab_id
  | TabSolveSizeStale tab_id cell_size cell_size
  | SuppressedPaneFocused client_id tab_id pane_id

section \<open>The maps the checks read\<close>

text \<open>\<open>entry(k).or_default().push(v)\<close>\<close>

definition push_under :: "'k::linorder \<Rightarrow> 'v \<Rightarrow> ('k, 'v list) ordered_map \<Rightarrow> ('k, 'v list) ordered_map" where
  "push_under k v m = RBT.insert k (case get m k of None \<Rightarrow> [v] | Some vs \<Rightarrow> vs @ [v]) m"

definition grouped :: "('k::linorder \<times> 'v) list \<Rightarrow> ('k, 'v list) ordered_map" where
  "grouped xs = fold (\<lambda>(k, v). push_under k v) xs RBT.empty"

text \<open>\<open>*entry(k).or_insert(0) += 1\<close>\<close>

definition count_under :: "'k::linorder \<Rightarrow> ('k, nat) ordered_map \<Rightarrow> ('k, nat) ordered_map" where
  "count_under k m = RBT.insert k (case get m k of None \<Rightarrow> 1 | Some n \<Rightarrow> n + 1) m"

definition counted :: "'k::linorder list \<Rightarrow> ('k, nat) ordered_map" where
  "counted ks = fold count_under ks RBT.empty"

definition tab_ids_by_pane_id :: "session \<Rightarrow> (pane_id, tab_id list) ordered_map" where
  "tab_ids_by_pane_id s =
     grouped (concat (map (\<lambda>(_, tab). map (\<lambda>p. (p, own_tab_id tab)) (list_leaf_pane_ids (tab_layout tab))) (RBT.entries (tabs s))))"

definition tab_count_by_index :: "session \<Rightarrow> (nat, nat) ordered_map" where
  "tab_count_by_index s = counted (map (\<lambda>(_, tab). tab_index tab) (RBT.entries (tabs s)))"

definition floating_pane_count_by_id :: "session \<Rightarrow> (floating_pane_id, nat) ordered_map" where
  "floating_pane_count_by_id s = counted (map own_floating_pane_id (floats s))"

definition floating_pane_ids_by_pane_id :: "session \<Rightarrow> (pane_id, floating_pane_id list) ordered_map" where
  "floating_pane_ids_by_pane_id s =
     grouped (concat (map (\<lambda>pane. map (\<lambda>p. (p, own_floating_pane_id pane)) (list_floating_pane_ids pane)) (floats s)))"

section \<open>The checks\<close>

definition report :: "bool \<Rightarrow> session_consistency_error \<Rightarrow> session_consistency_error list" where
  "report violated e = (if violated then [e] else [])"

definition tab_violations :: "session \<Rightarrow> tab_id \<times> tab \<Rightarrow> session_consistency_error list" where
  "tab_violations s entry =
     (case entry of (t, tab) \<Rightarrow>
        report (t \<noteq> own_tab_id tab) (TabKeyMismatch t (own_tab_id tab)) @
        concat (map (\<lambda>p. report (get_pane_record_by_id (panes s) p = None) (PaneNotInRegistry (own_tab_id tab) p))
                  (list_leaf_pane_ids (tab_layout tab))) @
        report (compute_layout_solve (tab_layout_area tab) (session_pane_sizing s) \<noteq> area_layout_solve (tab_layout_area tab))
          (TabSolveStale t) @
        (case resolve_tab_solve_size s t of
           None \<Rightarrow> []
         | Some tab_size \<Rightarrow>
             report (tab_size \<noteq> area_solved_size (tab_layout_area tab))
               (TabSolveSizeStale t (area_solved_size (tab_layout_area tab)) tab_size)))"

definition tab_index_violations :: "session \<Rightarrow> session_consistency_error list" where
  "tab_index_violations s = concat (map (\<lambda>(i, n). report (1 < n) (DuplicateTabIndex i)) (RBT.entries (tab_count_by_index s)))"

definition multiple_layout_violations :: "session \<Rightarrow> session_consistency_error list" where
  "multiple_layout_violations s =
     concat (map (\<lambda>(p, ts). report (1 < length ts) (PaneInMultipleLayouts p ts)) (RBT.entries (tab_ids_by_pane_id s)))"

definition floating_pane_violations :: "session \<Rightarrow> floating_pane \<Rightarrow> session_consistency_error list" where
  "floating_pane_violations s pane =
     (let f = own_floating_pane_id pane;
          area = floating_layout_area pane;
          layout_size = compute_floating_layout_size (outer_solved_size pane)
      in report (list_floating_pane_ids pane = []) (EmptyFloatingPane f) @
         report (area_solved_size area \<noteq> layout_size) (FloatingPaneSolveSizeStale f (area_solved_size area) layout_size) @
         report (compute_layout_solve area (session_pane_sizing s) \<noteq> area_layout_solve area) (FloatingPaneSolveStale f))"

definition floating_set_violations :: "session \<Rightarrow> session_consistency_error list" where
  "floating_set_violations s =
     report (MAX_FLOATING_PANES_PER_SESSION < length (floats s)) (TooManyFloatingPanes (length (floats s))) @
     concat (map (floating_pane_violations s) (floats s)) @
     concat (map (\<lambda>(f, n). report (1 < n) (DuplicateFloatingPaneId f)) (RBT.entries (floating_pane_count_by_id s))) @
     concat (map (\<lambda>(p, fs).
               report (get_pane_record_by_id (panes s) p = None) (FloatingPaneNotInRegistry p) @
               report (1 < length fs) (PaneInMultipleFloatingPanes p fs) @
               (case get (tab_ids_by_pane_id s) p of None \<Rightarrow> [] | Some ts \<Rightarrow> [FloatingPaneInLayout p ts]))
             (RBT.entries (floating_pane_ids_by_pane_id s)))"

definition orphan_violations :: "session \<Rightarrow> session_consistency_error list" where
  "orphan_violations s =
     concat (map (\<lambda>rec. report (\<not> has_key (tab_ids_by_pane_id s) (record_pane_id rec) \<and>
                                \<not> has_key (floating_pane_ids_by_pane_id s) (record_pane_id rec))
                          (OrphanedPaneRecord (record_pane_id rec)))
             (list_pane_records (panes s)))"

definition history_violations :: "session \<Rightarrow> client_id \<Rightarrow> tab_id \<times> pane_id list \<Rightarrow> session_consistency_error list" where
  "history_violations s i entry =
     (case entry of (t, history) \<Rightarrow>
        concat (map (\<lambda>p. report (get_pane_record_by_id (panes s) p = None) (FocusPaneNotInRegistry i t p) @
                         report (case get (tabs s) t of Some tab \<Rightarrow> \<not> has_pane (tab_layout tab) p | None \<Rightarrow> False)
                           (FocusTargetMissing i t p)) history) @
        report (get (tabs s) t = None) (FocusTabMissing i t))"

definition zoom_violations :: "session \<Rightarrow> client_id \<Rightarrow> tab_id \<times> pane_id \<Rightarrow> session_consistency_error list" where
  "zoom_violations s i entry =
     (case entry of (t, p) \<Rightarrow>
        report (\<not> (get_pane_record_by_id (panes s) p \<noteq> None \<and>
                   (case get (tabs s) t of Some tab \<Rightarrow> has_pane (tab_layout tab) p | None \<Rightarrow> False)))
          (ZoomTargetMissing i t p))"

definition floating_view_violations :: "client \<Rightarrow> floating_pane \<Rightarrow> session_consistency_error list" where
  "floating_view_violations c pane =
     (let i = own_client_id c; f = own_floating_pane_id pane
      in case get_floating_pane_view c f of
           None \<Rightarrow> [FloatingViewMissing i f]
         | Some v \<Rightarrow>
             report (is_minimized v = (f \<in> set (shown_floating_pane_ids c))) (FloatingPaneShownStateMismatch i f (is_minimized v)) @
             report (view_focus_history v = []) (FloatingFocusHistoryEmpty i f) @
             concat (map (\<lambda>p. report (\<not> has_pane (floating_layout pane) p) (FloatingFocusTargetMissing i f p)) (view_focus_history v)) @
             (case view_zoomed_pane_id v of
                None \<Rightarrow> []
              | Some p \<Rightarrow> report (\<not> has_pane (floating_layout pane) p) (FloatingZoomTargetMissing i f p)))"

fun shown_violations :: "session \<Rightarrow> client_id \<Rightarrow> floating_pane_id set \<Rightarrow> floating_pane_id list \<Rightarrow> session_consistency_error list" where
  "shown_violations s i seen [] = []"
| "shown_violations s i seen (f # fs) =
     report (\<not> has_key (floating_pane_count_by_id s) f) (ShownFloatingPaneMissing i f) @
     report (f \<in> seen) (DuplicateShownFloatingPane i f) @ shown_violations s i (insert f seen) fs"

definition suppressed_focus_violations :: "session \<Rightarrow> client \<Rightarrow> session_consistency_error list" where
  "suppressed_focus_violations s c =
     (let t = active_tab_id c
      in case (get_layout_mode c t, get (tabs s) t, get_focused_pane_id c t) of
           (Tiled, Some tab, Some p) \<Rightarrow>
             report (\<not> is_every_pane_suppressed (tab_solve tab) \<and> p \<in> set (suppressed_pane_ids (tab_solve tab)))
               (SuppressedPaneFocused (own_client_id c) t p)
         | _ \<Rightarrow> [])"

definition client_violations :: "session \<Rightarrow> client \<Rightarrow> session_consistency_error list" where
  "client_violations s c =
     (let i = own_client_id c
      in report (client_session_id c \<noteq> own_session_id s) (ClientSessionMismatch i (client_session_id c)) @
         report (\<not> RBT.is_empty (tabs s) \<and> \<not> has_key (tabs s) (active_tab_id c)) (ActiveTabMissing i (active_tab_id c)) @
         concat (map (history_violations s i) (RBT.entries (focus_history_by_tab_id c))) @
         concat (map (zoom_violations s i) (RBT.entries (zoomed_pane_id_by_tab_id c))) @
         concat (map (\<lambda>f. report (\<not> has_key (floating_pane_count_by_id s) f) (FloatingViewTargetMissing i f))
                   (RBT.keys (floating_pane_view_by_id c))) @
         concat (map (floating_view_violations c) (floats s)) @
         shown_violations s i {} (shown_floating_pane_ids c) @
         report (focused_floating_pane_id c \<noteq> last_opt (shown_floating_pane_ids c))
           (FloatingFocusNotNewestShown i (focused_floating_pane_id c) (last_opt (shown_floating_pane_ids c))) @
         (if can_client_draw_floating_panes s c then []
          else map (UndrawableFloatingPaneShown i) (shown_floating_pane_ids c)) @
         suppressed_focus_violations s c)"

definition consistency_violations :: "session \<Rightarrow> session_consistency_error list" where
  "consistency_violations s =
     concat (map (tab_violations s) (RBT.entries (tabs s))) @ tab_index_violations s @ multiple_layout_violations s @
     floating_set_violations s @ orphan_violations s @
     concat (map (client_violations s) (list_attached_clients (clients s)))"

definition validate_session_consistency :: "session \<Rightarrow> session_consistency_error list + unit" where
  "validate_session_consistency s = (if consistency_violations s = [] then Inr () else Inl (consistency_violations s))"

section \<open>Lemmas on the maps\<close>

lemma set_report [simp]: "e \<in> set (report violated e') \<longleftrightarrow> violated \<and> e = e'"
  by (auto simp: report_def)

lemma report_False [simp]: "report False e = []"
  by (simp add: report_def)

lemma get_fold_push:
  "get (fold (\<lambda>(k, v). push_under k v) xs m) k =
     (case get m k of
        Some vs \<Rightarrow> Some (vs @ map snd (filter (\<lambda>x. fst x = k) xs))
      | None \<Rightarrow> if k \<in> fst ` set xs then Some (map snd (filter (\<lambda>x. fst x = k) xs)) else None)"
  by (induction xs arbitrary: m) (auto simp: push_under_def split: option.split)

lemma get_grouped:
  "get (grouped xs) k = (if k \<in> fst ` set xs then Some (map snd (filter (\<lambda>x. fst x = k) xs)) else None)"
  by (simp add: grouped_def get_fold_push)

lemma get_fold_count:
  "get (fold count_under ks m) k =
     (case get m k of Some n \<Rightarrow> Some (n + count_list ks k) | None \<Rightarrow> if k \<in> set ks then Some (count_list ks k) else None)"
  by (induction ks arbitrary: m) (auto simp: count_under_def split: option.split)

lemma get_counted: "get (counted ks) k = (if k \<in> set ks then Some (count_list ks k) else None)"
  by (simp add: counted_def get_fold_count)

lemma distinct_count: "distinct ks \<Longrightarrow> count_list ks k = (if k \<in> set ks then 1 else 0)"
  by (induction ks) auto

lemma counted_distinct: "distinct ks \<Longrightarrow> get (counted ks) k = Some n \<Longrightarrow> n = 1"
  by (auto simp: get_counted distinct_count split: if_splits)

lemma grouped_distinct: "distinct (map fst xs) \<Longrightarrow> get (grouped xs) k = Some vs \<Longrightarrow> length vs = 1"
proof -
  assume d: "distinct (map fst xs)" and g: "get (grouped xs) k = Some vs"
  have "length (filter (\<lambda>x. fst x = k) xs) = count_list (map fst xs) k" by (induction xs) auto
  with d g show ?thesis by (auto simp: get_grouped distinct_count split: if_splits)
qed

lemma distinct_concat_map:
  assumes "distinct xs" "\<And>x. x \<in> set xs \<Longrightarrow> distinct (f x)"
    "\<And>x y. x \<in> set xs \<Longrightarrow> y \<in> set xs \<Longrightarrow> x \<noteq> y \<Longrightarrow> set (f x) \<inter> set (f y) = {}"
  shows "distinct (concat (map f xs))"
  using assms by (induction xs) fastforce+

section \<open>What a reachable session can report\<close>

text \<open>
  The reports that a change of a client's size, tab or focus leaves open until the caller solves the tab
  again.
\<close>

fun awaits_solve :: "session_consistency_error \<Rightarrow> bool" where
  "awaits_solve (TabSolveSizeStale t solved_at tab_size) = True"
| "awaits_solve (UndrawableFloatingPaneShown i f) = True"
| "awaits_solve (SuppressedPaneFocused i t p) = True"
| "awaits_solve _ = False"

lemma entries_iff: "(k, v) \<in> set (RBT.entries m) \<longleftrightarrow> get m k = Some v"
  by (simp add: RBT.lookup_in_tree)

lemma registered_iff:
  assumes "session_ok s"
  shows "has_key (panes s) p \<longleftrightarrow> (\<exists>a ps. leaves_of s a = Some ps \<and> p \<in> set ps)"
  using assms unfolding session_ok_def partition_of_def keys_iff by blast

text \<open>The leaves listed area by area name each pane once.\<close>

lemma listed_panes:
  fixes entry_panes :: "'e \<Rightarrow> pane_id list"
  assumes part: "partition_of L K" and es: "distinct (map area_of es)" "\<And>e. e \<in> set es \<Longrightarrow> L (area_of e) = Some (entry_panes e)"
  shows "distinct (map fst (concat (map (\<lambda>e. map (\<lambda>p. (p, k e)) (entry_panes e)) es)))"
    "fst ` set (concat (map (\<lambda>e. map (\<lambda>p. (p, k e)) (entry_panes e)) es)) = (\<Union>e \<in> set es. set (entry_panes e))"
proof -
  have "distinct (concat (map entry_panes es))"
  proof (rule distinct_concat_map)
    show "distinct es" using es(1) by (simp add: distinct_map)
    show "distinct (entry_panes e)" if "e \<in> set es" for e using part es(2) [OF that] by (auto simp: partition_of_def)
    show "set (entry_panes e) \<inter> set (entry_panes e') = {}" if "e \<in> set es" "e' \<in> set es" "e \<noteq> e'" for e e'
    proof -
      have "area_of e \<noteq> area_of e'" using es(1) that by (auto simp: distinct_map inj_on_def)
      with part es(2) that show ?thesis unfolding partition_of_def by blast
    qed
  qed
  then show "distinct (map fst (concat (map (\<lambda>e. map (\<lambda>p. (p, k e)) (entry_panes e)) es)))"
    by (simp add: map_concat comp_def)
qed force

lemma tab_ids_by_pane:
  assumes ok: "session_ok s"
  shows "get (tab_ids_by_pane_id s) p = Some ts \<Longrightarrow> length ts = 1"
    "has_key (tab_ids_by_pane_id s) p \<longleftrightarrow> (\<exists>t ps. leaves_of s (TabArea t) = Some ps \<and> p \<in> set ps)"
proof -
  let ?panes = "\<lambda>e. list_leaf_pane_ids (tab_layout (snd e))"
  have part: "partition_of (leaves_of s) (set (RBT.keys (panes s)))" using ok by (simp add: session_ok_def)
  have "distinct (map (\<lambda>e. TabArea (fst e)) (RBT.entries (tabs s)))"
    using RBT.distinct_entries [of "tabs s"] by (auto simp: distinct_map inj_on_def)
  note l = listed_panes [OF part this, of ?panes "\<lambda>e. own_tab_id (snd e)"]
  have eq: "tab_ids_by_pane_id s = grouped (concat (map (\<lambda>e. map (\<lambda>p. (p, own_tab_id (snd e))) (?panes e)) (RBT.entries (tabs s))))"
    by (simp add: tab_ids_by_pane_id_def case_prod_unfold)
  show "length ts = 1" if "get (tab_ids_by_pane_id s) p = Some ts"
    by (rule grouped_distinct [OF l(1)]) (use that eq in \<open>auto simp: entries_iff\<close>)
  have "has_key (tab_ids_by_pane_id s) p \<longleftrightarrow> p \<in> (\<Union>e \<in> set (RBT.entries (tabs s)). set (?panes e))"
    unfolding eq get_grouped by (subst l(2)) (auto simp: entries_iff)
  also have "\<dots> \<longleftrightarrow> (\<exists>t tab. get (tabs s) t = Some tab \<and> p \<in> set (list_leaf_pane_ids (tab_layout tab)))"
    unfolding UN_iff Bex_def split_paired_Ex entries_iff by simp
  also have "\<dots> \<longleftrightarrow> (\<exists>t ps. leaves_of s (TabArea t) = Some ps \<and> p \<in> set ps)" by auto
  finally show "has_key (tab_ids_by_pane_id s) p \<longleftrightarrow> (\<exists>t ps. leaves_of s (TabArea t) = Some ps \<and> p \<in> set ps)" .
qed

lemma floating_pane_ids_by_pane:
  assumes ok: "session_ok s"
  shows "get (floating_pane_ids_by_pane_id s) p = Some fs \<Longrightarrow> length fs = 1"
    "has_key (floating_pane_ids_by_pane_id s) p \<longleftrightarrow> (\<exists>f ps. leaves_of s (FloatingPaneArea f) = Some ps \<and> p \<in> set ps)"
proof -
  have part: "partition_of (leaves_of s) (set (RBT.keys (panes s)))" using ok by (simp add: session_ok_def)
  note d = session_okD(1) [OF ok]
  have "distinct (map (\<lambda>pane. FloatingPaneArea (own_floating_pane_id pane)) (floats s))" using d by (simp add: distinct_map inj_on_def)
  note l = listed_panes [OF part this, of list_floating_pane_ids own_floating_pane_id]
  have at: "pane \<in> set (floats s) \<Longrightarrow> leaves_of s (FloatingPaneArea (own_floating_pane_id pane)) = Some (list_floating_pane_ids pane)" for pane
    using float_at_member [OF _ d] by simp
  show "length fs = 1" if "get (floating_pane_ids_by_pane_id s) p = Some fs"
    by (rule grouped_distinct [OF l(1)]) (use that at in \<open>auto simp: floating_pane_ids_by_pane_id_def\<close>)
  have "has_key (floating_pane_ids_by_pane_id s) p \<longleftrightarrow> p \<in> (\<Union>pane \<in> set (floats s). set (list_floating_pane_ids pane))"
    unfolding floating_pane_ids_by_pane_id_def get_grouped by (subst l(2)) (use at in auto)
  also have "\<dots> \<longleftrightarrow> (\<exists>f ps. leaves_of s (FloatingPaneArea f) = Some ps \<and> p \<in> set ps)"
    using at float_at_id by fastforce
  finally show "has_key (floating_pane_ids_by_pane_id s) p \<longleftrightarrow> (\<exists>f ps. leaves_of s (FloatingPaneArea f) = Some ps \<and> p \<in> set ps)" .
qed

lemma tab_violations_await:
  assumes ok: "session_ok s" and tab: "get (tabs s) t = Some tab" and e: "e \<in> set (tab_violations s (t, tab))"
  shows "awaits_solve e"
proof -
  have "own_tab_id tab = t" using session_okD(3) [OF ok tab] .
  moreover have "compute_layout_solve (tab_layout_area tab) (session_pane_sizing s) = area_layout_solve (tab_layout_area tab)"
    using heldD(5) [OF session_heldD [OF ok]] tab by (simp add: areas_ok_def solved_with_def)
  moreover have "\<forall>p \<in> set (list_leaf_pane_ids (tab_layout tab)). get_pane_record_by_id (panes s) p \<noteq> None"
    using registered_iff [OF ok] tab by (metis leaves_of.simps(1) option.simps(9))
  ultimately show ?thesis using e by (auto simp: tab_violations_def split: option.splits)
qed

lemma tab_index_violations_none: "session_ok s \<Longrightarrow> tab_index_violations s = []"
proof -
  assume ok: "session_ok s"
  have "inj_on (\<lambda>t. tab_index (the (get (tabs s) t))) (set (RBT.keys (tabs s)))"
    using ok by (simp add: session_ok_def dense_indices_def bij_betw_def)
  then have "distinct (map (\<lambda>t. tab_index (the (get (tabs s) t))) (RBT.keys (tabs s)))"
    using RBT.distinct_keys by (simp add: distinct_map)
  moreover have "map (\<lambda>t. tab_index (the (get (tabs s) t))) (RBT.keys (tabs s)) = map (\<lambda>(_, tab). tab_index tab) (RBT.entries (tabs s))"
    by (auto simp: RBT.keys_def_alt entries_iff split: prod.split)
  ultimately have "n = 1" if "get (tab_count_by_index s) i = Some n" for i n
    using that counted_distinct by (simp add: tab_count_by_index_def)
  then show ?thesis by (auto simp: tab_index_violations_def report_def entries_iff)
qed

lemma multiple_layout_violations_none: "session_ok s \<Longrightarrow> multiple_layout_violations s = []"
  by (auto simp: multiple_layout_violations_def report_def entries_iff dest: tab_ids_by_pane(1))

lemma floating_set_violations_none:
  assumes ok: "session_ok s"
  shows "floating_set_violations s = []"
proof -
  note frame = heldD(1) [OF session_heldD [OF ok]]
  have "floating_pane_violations s pane = []" if pane: "pane \<in> set (floats s)" for pane
  proof -
    have "float_at s (own_floating_pane_id pane) = Some pane" by (rule float_at_member [OF pane session_okD(1) [OF ok]])
    then have "solved_with (session_pane_sizing s) (floating_layout_area pane)"
      using frame by (auto simp: frame_ok_def areas_ok_def)
    with frame pane session_okD(2) [OF ok pane] show ?thesis
      by (simp add: floating_pane_violations_def frame_ok_def floating_pane_ok_def solved_with_def Let_def report_def)
  qed
  moreover have "n = 1" if "get (floating_pane_count_by_id s) f = Some n" for f n
    using that counted_distinct [OF session_okD(1) [OF ok]] by (simp add: floating_pane_count_by_id_def)
  moreover have "has_key (panes s) p \<and> length fs = 1 \<and> get (tab_ids_by_pane_id s) p = None"
    if fs: "get (floating_pane_ids_by_pane_id s) p = Some fs" for p fs
  proof -
    from floating_pane_ids_by_pane(2) [OF ok, of p] fs
    obtain f ps where f: "leaves_of s (FloatingPaneArea f) = Some ps" "p \<in> set ps" by auto
    have "set ps \<inter> set qs = {}" if "leaves_of s (TabArea t) = Some qs" for t qs
      using ok f(1) that unfolding session_ok_def partition_of_def by blast
    then have "\<not> has_key (tab_ids_by_pane_id s) p" using tab_ids_by_pane(2) [OF ok, of p] f(2) by blast
    with f registered_iff [OF ok] floating_pane_ids_by_pane(1) [OF ok fs] show ?thesis by blast
  qed
  ultimately show ?thesis
    using frame by (auto simp: floating_set_violations_def report_def entries_iff frame_ok_def)
qed

lemma orphan_violations_none:
  assumes ok: "session_ok s"
  shows "orphan_violations s = []"
proof -
  have "has_key (tab_ids_by_pane_id s) (record_pane_id rec) \<or> has_key (floating_pane_ids_by_pane_id s) (record_pane_id rec)"
    if rec: "get (panes s) p = Some rec" for p rec
  proof -
    have "record_pane_id rec = p" using heldD(1) [OF session_heldD [OF ok]] rec by (auto simp: frame_ok_def keyed_by_id_def)
    moreover from registered_iff [OF ok, of p] rec obtain a ps where "leaves_of s a = Some ps" "p \<in> set ps" by auto
    ultimately show ?thesis using tab_ids_by_pane(2) [OF ok] floating_pane_ids_by_pane(2) [OF ok] by (cases a) blast+
  qed
  then show ?thesis by (fastforce simp: orphan_violations_def report_def list_pane_records_def map_values_iff)
qed

lemma counted_floats: "has_key (floating_pane_count_by_id s) f \<longleftrightarrow> floating_panes s f \<noteq> None"
proof -
  have "has_key (floating_pane_count_by_id s) f \<longleftrightarrow> (\<exists>pane \<in> set (floats s). own_floating_pane_id pane = f)"
    by (auto simp: floating_pane_count_by_id_def get_counted)
  also have "\<dots> \<longleftrightarrow> float_at s f \<noteq> None" by (auto simp: float_at_find find_None_iff)
  finally show ?thesis by (simp add: floating_panes_def)
qed

lemma client_tab_violations_none:
  assumes ok: "session_ok s" and c: "client_ok (one_sizing s) (tab_panes s) (floating_panes s) s c"
  shows "get (focus_history_by_tab_id c) t = Some h \<Longrightarrow> history_violations s i (t, h) = []"
    "get (zoomed_pane_id_by_tab_id c) t = Some p \<Longrightarrow> zoom_violations s i (t, p) = []"
proof -
  have side: "tab_side_ok (tab_panes s) c" using c by (simp add: client_ok_def)
  have known: "has_key (panes s) q \<and> (\<exists>tab. get (tabs s) t = Some tab \<and> has_pane (tab_layout tab) q)"
    if "tab_panes s t = Some P" "q \<in> P" for P q
  proof -
    from that obtain tab where tab: "get (tabs s) t = Some tab" "q \<in> set (list_leaf_pane_ids (tab_layout tab))"
      by (auto simp: tab_panes_def)
    then have "leaves_of s (TabArea t) = Some (list_leaf_pane_ids (tab_layout tab))" by simp
    with tab registered_iff [OF ok] show ?thesis unfolding has_pane_iff by blast
  qed
  show "history_violations s i (t, h) = []" if h: "get (focus_history_by_tab_id c) t = Some h"
  proof -
    from tab_sideD(1) [OF side h] obtain P where P: "tab_panes s t = Some P" "set h \<subseteq> P" by blast
    then have "get (tabs s) t \<noteq> None" by (auto simp: tab_panes_def)
    moreover have "get_pane_record_by_id (panes s) q \<noteq> None \<and>
        \<not> (case get (tabs s) t of Some tab \<Rightarrow> \<not> has_pane (tab_layout tab) q | None \<Rightarrow> False)" if "q \<in> set h" for q
      using known [OF P(1), of q] P(2) that by (auto split: option.split)
    ultimately show ?thesis by (fastforce simp: history_violations_def report_def)
  qed
  show "zoom_violations s i (t, p) = []" if "get (zoomed_pane_id_by_tab_id c) t = Some p"
    using tab_sideD(2) [OF side that] known by (fastforce simp: zoom_violations_def report_def)
qed

lemma floating_view_violations_none:
  assumes ok: "session_ok s" and c: "client_ok (one_sizing s) (tab_panes s) (floating_panes s) s c" and pane: "pane \<in> set (floats s)"
  shows "floating_view_violations c pane = []"
proof -
  let ?f = "own_floating_pane_id pane"
  have side: "float_side_ok (floating_panes s) c" using c by (simp add: client_ok_def)
  have F: "floating_panes s ?f = Some (set (list_floating_pane_ids pane))"
    using float_at_member [OF pane session_okD(1) [OF ok]] by (simp add: floating_panes_def)
  then have "?f \<in> dom (get (floating_pane_view_by_id c))" using side unfolding float_side_ok_def by auto
  then obtain w where w: "get (floating_pane_view_by_id c) ?f = Some w" by auto
  with side F have "view_ok (set (list_floating_pane_ids pane)) (own_view w)" "is_minimized (own_view w) \<longleftrightarrow> ?f \<notin> set (shown_floating_pane_ids c)"
    unfolding float_side_ok_def by fastforce+
  with w show ?thesis
    by (auto simp: floating_view_violations_def Let_def report_def get_floating_pane_view_def view_ok_def has_pane_iff
        list_floating_pane_ids_def subset_iff split: option.split)
qed

lemma shown_violations_none:
  "distinct fs \<Longrightarrow> set fs \<inter> seen = {} \<Longrightarrow> set fs \<subseteq> dom (floating_panes s) \<Longrightarrow> shown_violations s i seen fs = []"
proof (induction fs arbitrary: seen)
  case (Cons f fs)
  then have "has_key (floating_pane_count_by_id s) f" unfolding counted_floats by auto
  with Cons show ?case by (simp add: report_def)
qed simp

lemma client_violations_await:
  assumes ok: "session_ok s" and c: "get_client_by_id (clients s) i = Some c" and e: "e \<in> set (client_violations s c)"
  shows "awaits_solve e"
proof -
  have cok: "client_ok (one_sizing s) (tab_panes s) (floating_panes s) s c"
    using clients_okD [OF heldD(4) [OF session_heldD [OF ok]] c] by simp
  then have sides: "tab_side_ok (tab_panes s) c" "float_side_ok (floating_panes s) c" by (simp_all add: client_ok_def)
  have active: "RBT.is_empty (tabs s) \<or> has_key (tabs s) (active_tab_id c)"
  proof (cases "tab_panes s = Map.empty")
    case True
    then have "get (tabs s) t = None" for t by (metis (no_types, lifting) map_option_is_None tab_panes_def)
    then show ?thesis by (metis RBT.is_empty_empty RBT.lookup_empty_empty ext)
  next
    case False
    with tab_sideD(3) [OF sides(1)] show ?thesis by (auto simp: tab_panes_def)
  qed
  have shown: "shown_violations s (own_client_id c) {} (shown_floating_pane_ids c) = []"
    by (rule shown_violations_none) (use sides(2) in \<open>simp_all add: float_side_ok_def\<close>)
  have views: "has_key (floating_pane_count_by_id s) f" if "f \<in> set (RBT.keys (floating_pane_view_by_id c))" for f
  proof -
    have "f \<in> dom (floating_panes s)" using that sides(2) unfolding float_side_ok_def keys_iff by auto
    then show ?thesis unfolding counted_floats by auto
  qed
  have none: "concat (map (history_violations s (own_client_id c)) (RBT.entries (focus_history_by_tab_id c))) = []"
    "concat (map (zoom_violations s (own_client_id c)) (RBT.entries (zoomed_pane_id_by_tab_id c))) = []"
    "concat (map (floating_view_violations c) (floats s)) = []"
    "concat (map (\<lambda>f. report (\<not> has_key (floating_pane_count_by_id s) f) (FloatingViewTargetMissing (own_client_id c) f))
       (RBT.keys (floating_pane_view_by_id c))) = []"
    using client_tab_violations_none [OF ok cok] floating_view_violations_none [OF ok cok] views
    by (auto simp: entries_iff report_def) fastforce
  have "client_session_id c = own_session_id s" "focused_floating_pane_id c = last_opt (shown_floating_pane_ids c)"
    using cok sides(2) by (simp_all add: client_ok_def float_side_ok_def)
  with e active have "e \<in> set ((if can_client_draw_floating_panes s c then []
      else map (UndrawableFloatingPaneShown (own_client_id c)) (shown_floating_pane_ids c)) @ suppressed_focus_violations s c)"
    unfolding client_violations_def Let_def none shown by (auto split: if_splits)
  then show ?thesis
    by (auto simp: suppressed_focus_violations_def Let_def split: if_splits layout_mode.splits option.splits)
qed

lemma consistency_violations_await:
  assumes ok: "session_ok s" and e: "e \<in> set (consistency_violations s)"
  shows "awaits_solve e"
proof -
  from e consider t tab where "get (tabs s) t = Some tab" "e \<in> set (tab_violations s (t, tab))"
    | i c where "get_client_by_id (clients s) i = Some c" "e \<in> set (client_violations s c)"
    by (auto simp: consistency_violations_def tab_index_violations_none [OF ok] multiple_layout_violations_none [OF ok]
        floating_set_violations_none [OF ok] orphan_violations_none [OF ok] entries_iff list_attached_clients_def map_values_iff)
  then show ?thesis by cases (auto intro: tab_violations_await [OF ok] client_violations_await [OF ok])
qed



end
