(* ===== verification/Floating_Placement.thy ===== *)
theory Floating_Placement
  imports Client
begin

text \<open>
  Where a floating pane lies (\<open>place_floating_pane\<close> of \<open>koshi-session/src/client.rs\<close>) and how large it is
  (\<open>solve_floating_pane_size\<close> of \<open>koshi-session/src/session/state.rs\<close>): the \<open>u16\<close> arithmetic never wraps,
  and a solved floating pane always lies inside its viewport.
\<close>

text \<open>The cascade of default placements, on natural numbers.\<close>

definition cascade_step_of :: "nat \<Rightarrow> nat \<Rightarrow> nat \<Rightarrow> nat" where
  "cascade_step_of free_columns free_rows cascade_index =
     cascade_index mod (min ((free_columns - free_columns div 2) div 2) (free_rows - free_rows div 2) + 1)"

lemma cascade_step_fits:
  "free_columns div 2 + 2 * cascade_step_of free_columns free_rows k \<le> free_columns"
  "free_rows div 2 + cascade_step_of free_columns free_rows k \<le> free_rows"
proof -
  have "cascade_step_of free_columns free_rows k \<le> min ((free_columns - free_columns div 2) div 2) (free_rows - free_rows div 2)"
    unfolding cascade_step_of_def by (metis Suc_eq_plus1 less_Suc_eq_le mod_less_divisor zero_less_Suc)
  then show "free_columns div 2 + 2 * cascade_step_of free_columns free_rows k \<le> free_columns"
    "free_rows div 2 + cascade_step_of free_columns free_rows k \<le> free_rows" by auto
qed

lemma unat_centered:
  "unat (column (compute_centered_origin s z)) = (unat (column_count s) - unat (column_count z)) div 2"
  "unat (row (compute_centered_origin s z)) = (unat (row_count s) - unat (row_count z)) div 2"
proof -
  have *: "unat (a - min b a) = unat a - unat b" for a b :: u16
    by (auto simp: min_def unat_sub word_le_nat_alt)
  show "unat (column (compute_centered_origin s z)) = (unat (column_count s) - unat (column_count z)) div 2"
    "unat (row (compute_centered_origin s z)) = (unat (row_count s) - unat (row_count z)) div 2"
    by (simp_all add: compute_centered_origin_def unat_div *)
qed

lemma default_corner:
  fixes free_column_count free_row_count c r :: u16 and k :: nat
  assumes "unat c = unat free_column_count div 2" "unat r = unat free_row_count div 2"
  defines "step \<equiv> (of_nat (k mod (unat (min ((free_column_count - c) div 2) (free_row_count - r)) + 1)) :: u16)"
  shows "unat (c + 2 * step) = unat free_column_count div 2 + 2 * cascade_step_of (unat free_column_count) (unat free_row_count) k"
    "unat (r + step) = unat free_row_count div 2 + cascade_step_of (unat free_column_count) (unat free_row_count) k"
proof -
  let ?n = "cascade_step_of (unat free_column_count) (unat free_row_count) k"
  note fits = cascade_step_fits [where free_columns = "unat free_column_count" and free_rows = "unat free_row_count" and k = k]
  have "unat (free_column_count - c) = unat free_column_count - unat free_column_count div 2"
    "unat (free_row_count - r) = unat free_row_count - unat free_row_count div 2"
    using assms(1,2) by (simp_all add: unat_sub word_le_nat_alt)
  then have step: "step = of_nat ?n" by (simp add: step_def cascade_step_of_def unat_min unat_div)
  have le: "unat free_column_count \<le> 65535" "unat free_row_count \<le> 65535" by (simp_all add: unat_u16_le)
  then have "?n \<le> 65535" using fits(2) by linarith
  then have n: "unat step = ?n" by (simp add: step unat_of_nat)
  show "unat (c + 2 * step) = unat free_column_count div 2 + 2 * ?n"
    using fits(1) le n assms(1) by (simp add: unat_word_ariths)
  show "unat (r + step) = unat free_row_count div 2 + ?n"
    using fits(2) le n assms(2) by (simp add: unat_word_ariths)
qed

text \<open>
  C30. A floating pane keeps its size wherever it is placed. On an axis where it fits into the viewport it
  lies inside it, and on an axis where it does not it starts at 0. A pane without a position of its own
  is centered and then shifted by its cascade step, two columns and one row a step: the \<open>u16\<close>
  differences, products and sums never wrap, and the step is chosen so that the clamp never moves it.
\<close>

theorem place_floating_pane_spec:
  fixes pane_size viewport :: cell_size
  defines "free_columns \<equiv> unat (column_count viewport) - unat (column_count pane_size)"
    and "free_rows \<equiv> unat (row_count viewport) - unat (row_count pane_size)"
  shows "rect_size (place_floating_pane pos pane_size k viewport) = pane_size \<and>
    left_of (place_floating_pane pos pane_size k viewport) \<le> free_columns \<and>
    top_of (place_floating_pane pos pane_size k viewport) \<le> free_rows \<and>
    left_of (place_floating_pane DefaultPosition pane_size k viewport) =
      free_columns div 2 + 2 * cascade_step_of free_columns free_rows k \<and>
    top_of (place_floating_pane DefaultPosition pane_size k viewport) =
      free_rows div 2 + cascade_step_of free_columns free_rows k"
proof -
  let ?fc = "sat_sub (column_count viewport) (column_count pane_size)" and ?fr = "sat_sub (row_count viewport) (row_count pane_size)"
  let ?o = "compute_centered_origin viewport pane_size"
  have free: "unat ?fc = free_columns" "unat ?fr = free_rows" by (simp_all add: unat_simps free_columns_def free_rows_def)
  have "unat (column ?o) = unat ?fc div 2" "unat (row ?o) = unat ?fr div 2"
    by (simp_all add: unat_centered free free_columns_def free_rows_def)
  note corner = default_corner [OF this, of k, unfolded free]
  note fits = cascade_step_fits [where free_columns = free_columns and free_rows = free_rows and k = k]
  have "left_of (place_floating_pane DefaultPosition pane_size k viewport) =
      free_columns div 2 + 2 * cascade_step_of free_columns free_rows k"
    "top_of (place_floating_pane DefaultPosition pane_size k viewport) =
      free_rows div 2 + cascade_step_of free_columns free_rows k"
    using corner fits
    by (simp_all add: place_floating_pane_def Let_def rect_measures compute_moved_inside_def from_origin_and_size_def unat_min free)
  moreover have "rect_size (place_floating_pane pos pane_size k viewport) = pane_size"
    by (simp add: place_floating_pane_def Let_def compute_moved_inside_def from_origin_and_size_def)
  moreover have "left_of (place_floating_pane pos pane_size k viewport) \<le> free_columns"
    "top_of (place_floating_pane pos pane_size k viewport) \<le> free_rows"
    by (simp_all add: place_floating_pane_def Let_def rect_measures compute_moved_inside_def from_origin_and_size_def unat_min free)
  ultimately show ?thesis by blast
qed

text \<open>
  C31. The solved size of a floating pane is at most 90 percent of its viewport on each axis, rounded down,
  and at least its minimum where that cap allows it. So wherever it is placed and whatever its index in
  the cascade, a solved floating pane lies inside the viewport it was solved for.
\<close>

theorem solved_floating_pane_inside:
  fixes viewport minimum :: cell_size
  defines "cap_columns \<equiv> unat (column_count viewport) * 90 div 100" and "cap_rows \<equiv> unat (row_count viewport) * 90 div 100"
  shows "unat (column_count (solve_floating_pane_size desired viewport minimum)) \<le> cap_columns \<and>
    unat (row_count (solve_floating_pane_size desired viewport minimum)) \<le> cap_rows \<and>
    min (unat (column_count minimum)) cap_columns \<le> unat (column_count (solve_floating_pane_size desired viewport minimum)) \<and>
    min (unat (row_count minimum)) cap_rows \<le> unat (row_count (solve_floating_pane_size desired viewport minimum)) \<and>
    is_inside_rect (place_floating_pane pos (solve_floating_pane_size desired viewport minimum) k viewport)
      (from_size_at_origin viewport)"
proof -
  have cap: "unat (column_count (compute_floating_pane_size_cap viewport)) = cap_columns"
    "unat (row_count (compute_floating_pane_size_cap viewport)) = cap_rows"
    by (simp_all add: compute_floating_pane_size_cap_def MAX_FLOATING_PANE_AXIS_PERCENT_def unat_percent_cell_count cap_columns_def cap_rows_def)
  let ?z = "solve_floating_pane_size desired viewport minimum"
  have size: "unat (column_count ?z) \<le> cap_columns" "unat (row_count ?z) \<le> cap_rows"
    "min (unat (column_count minimum)) cap_columns \<le> unat (column_count ?z)"
    "min (unat (row_count minimum)) cap_rows \<le> unat (row_count ?z)"
    by (auto simp: solve_floating_pane_size_def solve_floating_pane_axis_def Let_def unat_min unat_max cap)
  moreover have "cap_columns \<le> unat (column_count viewport)" "cap_rows \<le> unat (row_count viewport)"
    by (simp_all add: cap_columns_def cap_rows_def)
  ultimately have fit: "unat (column_count ?z) \<le> unat (column_count viewport)" "unat (row_count ?z) \<le> unat (row_count viewport)" by linarith+
  let ?r = "place_floating_pane pos ?z k viewport"
  have "width_of ?r = unat (column_count ?z)" "height_of ?r = unat (row_count ?z)" "left_of ?r \<le> unat (column_count viewport) - unat (column_count ?z)"
    "top_of ?r \<le> unat (row_count viewport) - unat (row_count ?z)"
    by (simp_all add: place_floating_pane_def Let_def rect_measures compute_moved_inside_def from_origin_and_size_def unat_min unat_simps)
  with fit have "is_inside_rect ?r (from_size_at_origin viewport)"
    by (simp add: is_inside_rect_iff le_diff_conv2)
  with size show ?thesis by blast
qed

end
