(* ===== verification/Varint.thy ===== *)
theory Varint
  imports Koshi_Prelude
begin

unbundle bit_operations_syntax

text \<open>
  Unsigned LEB128 varints (\<open>koshi-core/src/varint.rs\<close>), the number form of the painted updates and of
  the row encoding: seven bits per byte, low bits first, the high bit set on every byte but the last.
  A number on the wire is a 64-bit word and a byte an 8-bit word. A reader takes the bytes that remain
  and gives back either an error or the value with the bytes after it.
\<close>

type_synonym u64 = "64 word"

definition MAX_VARINT_BYTE_COUNT :: nat where
  "MAX_VARINT_BYTE_COUNT = 10"

datatype varint_error = Varint_Truncated | Varint_TooLong

function write_varint :: "u64 \<Rightarrow> u8 list \<Rightarrow> u8 list" where
  "write_varint varint_value output_bytes =
     (let low_bits = ucast (varint_value AND 0x7F) :: u8;
          varint_value = drop_bit 7 varint_value
      in if varint_value = 0 then output_bytes @ [low_bits]
         else write_varint varint_value (output_bytes @ [low_bits OR 0x80]))"
  by auto

lemma drop_bit_7_less: "drop_bit 7 v \<noteq> 0 \<Longrightarrow> unat (drop_bit 7 v) < unat v" for v :: u64
proof (cases "unat v = 0")
  case True
  assume "drop_bit 7 v \<noteq> 0"
  with True show ?thesis by (simp only: unsigned_eq_0_iff drop_bit_of_0 not_True_eq_False)
next
  case False
  have "unat (drop_bit 7 v) = unat v div 2 ^ 7" unfolding unat_drop_bit_eq by (simp only: drop_bit_eq_div)
  with False show ?thesis by simp
qed

termination write_varint
  by (relation "measure (\<lambda>(v, out). unat v)") (simp_all add: drop_bit_7_less)

declare write_varint.simps [simp del]

text \<open>
  The loop of \<open>read_long_varint\<close> over the first ten bytes, at \<open>byte_index\<close> with the value so far.
\<close>

fun read_long_varint_from :: "nat \<Rightarrow> u64 \<Rightarrow> u8 list \<Rightarrow> varint_error + (u64 \<times> u8 list)" where
  "read_long_varint_from byte_index varint_value [] = Inl Varint_Truncated"
| "read_long_varint_from byte_index varint_value (varint_byte # bytes) =
     (if MAX_VARINT_BYTE_COUNT \<le> byte_index then Inl Varint_Truncated
      else let low_bits = ucast (varint_byte AND 0x7F) :: u64
           in if byte_index = MAX_VARINT_BYTE_COUNT - 1 \<and> (1 < low_bits \<or> varint_byte AND 0x80 \<noteq> 0)
              then Inl Varint_TooLong
              else let varint_value = varint_value OR push_bit (7 * byte_index) low_bits
                   in if varint_byte AND 0x80 = 0 then Inr (varint_value, bytes)
                      else read_long_varint_from (Suc byte_index) varint_value bytes)"

definition read_long_varint :: "u8 list \<Rightarrow> varint_error + (u64 \<times> u8 list)" where
  "read_long_varint remaining_bytes = read_long_varint_from 0 0 remaining_bytes"

definition read_varint :: "u8 list \<Rightarrow> varint_error + (u64 \<times> u8 list)" where
  "read_varint remaining_bytes =
     (case remaining_bytes of
        varint_byte # bytes_after_varint \<Rightarrow>
          if varint_byte AND 0x80 = 0 then Inr (ucast varint_byte, bytes_after_varint)
          else read_long_varint remaining_bytes
      | [] \<Rightarrow> read_long_varint remaining_bytes)"

text \<open>The two bytes a group of seven bits is written as.\<close>

lemma bit_seven_mask: "bit (0x7F :: int) n \<longleftrightarrow> n < 7"
proof -
  have "(0x7F :: int) = mask 7" by (simp add: mask_eq_exp_minus_1)
  then show ?thesis by (simp only: bit_mask_iff) simp
qed

lemma bit_flag: "bit (0x80 :: int) n \<longleftrightarrow> n = 7"
proof -
  have "(0x80 :: int) = push_bit 7 1" by (simp add: push_bit_eq_mult)
  then show ?thesis by (simp only: bit_push_bit_iff) (auto simp: bit_simps)
qed

lemmas bit_consts = bit_seven_mask bit_flag

lemma bit_low_byte: "bit (ucast (v AND 0x7F) :: u8) n \<longleftrightarrow> n < 7 \<and> bit v n" for v :: u64
  by (auto simp: bit_simps bit_consts)

lemma byte_flag_iff: "b AND 0x80 = 0 \<longleftrightarrow> \<not> bit b 7" for b :: u8
proof
  assume "b AND 0x80 = 0"
  then have "\<not> bit (b AND 0x80) 7" by simp
  then show "\<not> bit b 7" by (simp add: bit_simps bit_consts)
next
  assume "\<not> bit b 7"
  then show "b AND 0x80 = 0" by (intro bit_eqI) (auto simp: bit_simps bit_consts)
qed

lemma low_byte_flag [simp]: "(ucast (v AND 0x7F) :: u8) AND 0x80 = 0" for v :: u64
  by (simp add: byte_flag_iff bit_low_byte)

lemma flagged_byte_flag [simp]: "(b OR 0x80) AND 0x80 \<noteq> (0 :: u8)"
  by (simp add: byte_flag_iff bit_simps bit_consts)

lemma low_byte_read: "(ucast ((ucast (v AND 0x7F) :: u8) AND 0x7F) :: u64) = take_bit 7 v" for v :: u64
  by (rule bit_eqI) (auto simp: bit_low_byte bit_simps bit_consts)

lemma flagged_byte_read: "(ucast (((ucast (v AND 0x7F) :: u8) OR 0x80) AND 0x7F) :: u64) = take_bit 7 v" for v :: u64
  by (rule bit_eqI) (auto simp: bit_low_byte bit_simps bit_consts)

lemma take_bit_step: "take_bit n v OR push_bit n (take_bit m (drop_bit n v)) = take_bit (n + m) v" for v :: u64
  by (rule bit_eqI) (auto simp: bit_simps)

text \<open>The bytes one value is written as, and reading them back at any point of the loop.\<close>

abbreviation varint_bytes :: "u64 \<Rightarrow> u8 list" where
  "varint_bytes v \<equiv> write_varint v []"

lemma write_varint_append: "write_varint v out = out @ varint_bytes v"
proof (induction v arbitrary: out rule: measure_induct_rule [of unat])
  case (less v)
  show ?case
  proof (cases "drop_bit 7 v = 0")
    case True
    then show ?thesis by (simp add: write_varint.simps [of v])
  next
    case False
    let ?b = "ucast (v AND 0x7F) OR 0x80"
    have "write_varint (drop_bit 7 v) (o' @ [?b]) = (o' @ [?b]) @ varint_bytes (drop_bit 7 v)" for o'
      using False by (intro less drop_bit_7_less)
    from this [of out] this [of "[]"] False show ?thesis by (simp add: write_varint.simps [of v])
  qed
qed

lemma varint_bytes_rec:
  "varint_bytes v =
     (if drop_bit 7 v = 0 then [ucast (v AND 0x7F)]
      else (ucast (v AND 0x7F) OR 0x80) # varint_bytes (drop_bit 7 v))"
  using write_varint_append [of "drop_bit 7 v" "[ucast (v AND 0x7F) OR 0x80]"]
  by (simp add: write_varint.simps [of v])

lemma drop_bit_0_take_bit: "drop_bit n v = 0 \<Longrightarrow> take_bit n v = v" for v :: u64
  using bits_ident [of n v] by simp

lemma last_group_le_1: "take_bit 7 (drop_bit 63 v) \<le> 1" for v :: u64
proof -
  have "unat (take_bit 7 (drop_bit 63 v)) \<le> unat (drop_bit 63 v)"
    unfolding unsigned_take_bit_eq by (simp add: take_bit_nat_less_eq_self)
  also have "\<dots> = unat v div 2 ^ 63" unfolding unat_drop_bit_eq by (simp only: drop_bit_eq_div)
  also have "\<dots> \<le> 1" using unsigned_less [of v, where 'a = nat] by simp
  finally show ?thesis by (simp add: word_le_nat_alt)
qed

lemma read_long_varint_bytes:
  "i < MAX_VARINT_BYTE_COUNT \<Longrightarrow>
     read_long_varint_from i (take_bit (7 * i) v) (varint_bytes (drop_bit (7 * i) v) @ rest) = Inr (v, rest)"
proof (induction "MAX_VARINT_BYTE_COUNT - i" arbitrary: i)
  case 0
  then show ?case by simp
next
  case (Suc k)
  let ?w = "drop_bit (7 * i) v"
  have acc: "take_bit (7 * i) v OR push_bit (7 * i) (take_bit 7 ?w) = take_bit (7 * Suc i) v"
    unfolding take_bit_step by (simp add: add.commute)
  have shift: "drop_bit 7 ?w = drop_bit (7 * Suc i) v" by simp
  have last: "i = MAX_VARINT_BYTE_COUNT - 1 \<Longrightarrow> \<not> 1 < take_bit 7 ?w \<and> drop_bit 7 ?w = 0"
    using last_group_le_1 [of v] by (simp add: MAX_VARINT_BYTE_COUNT_def)
  show ?case
  proof (cases "drop_bit 7 ?w = 0")
    case True
    then have "take_bit (7 * Suc i) v = v" unfolding shift by (rule drop_bit_0_take_bit)
    moreover have "varint_bytes ?w = [ucast (?w AND 0x7F)]" by (subst varint_bytes_rec) (simp only: True simp_thms if_True)
    ultimately show ?thesis using Suc.prems last acc
      by (simp only: append.simps read_long_varint_from.simps Let_def low_byte_read low_byte_flag) auto
  next
    case False
    with last have i: "i \<noteq> MAX_VARINT_BYTE_COUNT - 1" by blast
    with Suc.prems have "Suc i < MAX_VARINT_BYTE_COUNT" by simp
    have "read_long_varint_from (Suc i) (take_bit (7 * Suc i) v) (varint_bytes (drop_bit (7 * Suc i) v) @ rest) = Inr (v, rest)"
      using Suc.hyps(2) \<open>Suc i < _\<close> by (intro Suc.hyps(1)) simp_all
    with False i Suc.prems show ?thesis
      unfolding varint_bytes_rec [of ?w] shift
      by (simp only: if_False append.simps read_long_varint_from.simps Let_def flagged_byte_read flagged_byte_flag acc, simp)
  qed
qed

lemma read_varint_bytes [simp]: "read_varint (varint_bytes v @ rest) = Inr (v, rest)"
proof (cases "drop_bit 7 v = 0")
  case True
  then have "varint_bytes v = [ucast (v AND 0x7F)]" by (simp add: varint_bytes_rec [of v])
  moreover have "(ucast (ucast (v AND 0x7F) :: u8) :: u64) = v"
    using drop_bit_0_take_bit [OF True] by (auto simp: bit_eq_iff bit_low_byte bit_simps bit_consts)
  ultimately show ?thesis by (simp add: read_varint_def)
next
  case False
  then have "varint_bytes v = (ucast (v AND 0x7F) OR 0x80) # varint_bytes (drop_bit 7 v)"
    by (simp add: varint_bytes_rec [of v])
  then have "read_varint (varint_bytes v @ rest) = read_long_varint (varint_bytes v @ rest)"
    by (simp only: read_varint_def append.simps list.case flagged_byte_flag if_False)
  also have "\<dots> = Inr (v, rest)"
    using read_long_varint_bytes [of 0 v rest] by (simp add: read_long_varint_def MAX_VARINT_BYTE_COUNT_def)
  finally show ?thesis .
qed

lemma varint_bytes_nonempty [simp]: "varint_bytes v \<noteq> []"
  by (subst varint_bytes_rec) simp

lemma length_varint_bytes_aux:
  "n \<le> MAX_VARINT_BYTE_COUNT \<Longrightarrow> unat v < 2 ^ (7 * n) \<Longrightarrow> 0 < n \<Longrightarrow> length (varint_bytes v) \<le> n"
proof (induction n arbitrary: v)
  case (Suc n)
  show ?case
  proof (cases "drop_bit 7 v = 0")
    case False
    then have "0 < unat (drop_bit 7 v)" by (simp add: unat_gt_0)
    have div: "unat (drop_bit 7 v) = unat v div 2 ^ 7" unfolding unat_drop_bit_eq by (simp only: drop_bit_eq_div)
    then have "unat (drop_bit 7 v) < 2 ^ (7 * n)"
      using Suc.prems(2) by (simp add: less_mult_imp_div_less power_add mult.commute)
    moreover from this \<open>0 < unat (drop_bit 7 v)\<close> have "0 < n" by (cases n) simp_all
    ultimately have "length (varint_bytes (drop_bit 7 v)) \<le> n" using Suc by simp
    with False show ?thesis by (subst varint_bytes_rec) simp
  qed (simp add: varint_bytes_rec [of v])
qed simp

lemma length_varint_bytes: "length (varint_bytes v) \<le> MAX_VARINT_BYTE_COUNT"
proof (rule length_varint_bytes_aux)
  have "unat v < 2 ^ 64" using unsigned_less [of v, where 'a = nat] by simp
  also have "(2 :: nat) ^ 64 \<le> 2 ^ (7 * MAX_VARINT_BYTE_COUNT)"
    by (rule power_increasing) (simp_all add: MAX_VARINT_BYTE_COUNT_def)
  finally show "unat v < 2 ^ (7 * MAX_VARINT_BYTE_COUNT)" .
qed (simp_all add: MAX_VARINT_BYTE_COUNT_def)

text \<open>
  What a reader gives, without the loop: the number the seven-bit groups up to the first byte without
  the flag spell, in base 128, and an error when there is no such byte among the first ten or when the
  number passes 64 bits.
\<close>

definition has_flag :: "u8 \<Rightarrow> bool" where
  "has_flag b \<longleftrightarrow> b AND 0x80 \<noteq> 0"

fun leb128_value :: "u8 list \<Rightarrow> nat" where
  "leb128_value [] = 0"
| "leb128_value (b # bs) = unat b mod 128 + 128 * leb128_value bs"

definition leb128 :: "u8 list \<Rightarrow> varint_error + (nat \<times> u8 list)" where
  "leb128 bytes =
     (let flagged_count = length (takeWhile has_flag bytes);
          number = leb128_value (take (Suc flagged_count) bytes)
      in if flagged_count = length bytes \<and> flagged_count < 10 then Inl Varint_Truncated
         else if 10 \<le> flagged_count \<or> 2 ^ 64 \<le> number then Inl Varint_TooLong
         else Inr (number, drop (Suc flagged_count) bytes))"

lemma unat_low_bits: "unat (ucast (b AND 0x7F) :: u64) = unat b mod 128" for b :: u8
proof -
  have "b AND 0x7F = take_bit 7 b" by (rule bit_eqI) (auto simp: bit_simps bit_consts)
  then have "unat (b AND 0x7F) = unat b mod 2 ^ 7"
    unfolding unsigned_take_bit_eq by (simp only: unsigned_take_bit_eq) (simp add: take_bit_eq_mod)
  moreover have "unat (ucast (b AND 0x7F) :: u64) = unat (b AND 0x7F)" by (rule unsigned_ucast_eq [THEN trans]) (simp add: take_bit_nat_eq_self_iff unsigned_less [THEN less_trans])
  ultimately show ?thesis by simp
qed

lemma unat_widen: "unat (ucast b :: u64) = unat b" for b :: u8
  by (rule unsigned_ucast_eq [THEN trans]) (simp add: take_bit_nat_eq_self_iff unsigned_less [THEN less_trans])

lemma unflagged_byte: "\<not> has_flag b \<Longrightarrow> unat b mod 128 = unat b"
proof -
  assume "\<not> has_flag b"
  then have "bit b n \<Longrightarrow> n < 7" for n
    using bit_imp_le_length [of b n] by (cases "n = 7") (simp_all add: has_flag_def byte_flag_iff)
  then have "b AND 0x7F = b" by (intro bit_eqI) (auto simp: bit_simps bit_consts)
  then show ?thesis using unat_low_bits [of b] by (simp add: unat_widen)
qed

lemma add_group:
  fixes acc low :: u64
  assumes acc: "unat acc < 2 ^ (7 * i)" and low: "unat low < 128" and i: "i < 9 \<or> i = 9 \<and> unat low \<le> 1"
  shows "unat (acc OR push_bit (7 * i) low) = unat acc + 2 ^ (7 * i) * unat low"
proof -
  have "(2 :: nat) ^ (7 * i) * (unat low + 1) \<le> 2 ^ 64"
  proof (cases "i = 9")
    case False
    with i have "(2 :: nat) ^ (7 * i) \<le> 2 ^ 56" by (intro power_increasing) auto
    with low have "(2 :: nat) ^ (7 * i) * (unat low + 1) \<le> 2 ^ 56 * 128" by (intro mult_mono) auto
    then show ?thesis by simp
  qed (use i in auto)
  then have sum: "unat acc + 2 ^ (7 * i) * unat low < 2 ^ 64" using acc by simp
  have "unat (push_bit (7 * i) low) = (unat low * 2 ^ (7 * i)) mod 2 ^ 64"
    unfolding unsigned_push_bit_eq by (simp add: push_bit_eq_mult take_bit_eq_mod)
  also have "\<dots> = unat low * 2 ^ (7 * i)" using sum by (intro mod_less) (simp add: mult.commute)
  finally have push: "unat (push_bit (7 * i) low) = 2 ^ (7 * i) * unat low" by (simp add: mult.commute)
  have "take_bit (7 * i) acc = acc"
    using acc by (simp add: unat_eq_iff unsigned_take_bit_eq take_bit_nat_eq_self_iff)
  then have "\<not> bit acc n" if "7 * i \<le> n" for n using that by (metis bit_take_bit_iff not_less)
  then have "acc AND push_bit (7 * i) low = 0" by (intro bit_eqI) (auto simp: bit_simps)
  then have "acc OR push_bit (7 * i) low = acc + push_bit (7 * i) low" by (simp add: disjunctive_add_eq_or)
  with push sum show ?thesis by (simp add: unat_word_ariths)
qed

lemma read_long_varint_from_value:
  "i \<le> 9 \<Longrightarrow> unat acc < 2 ^ (7 * i) \<Longrightarrow>
     read_long_varint_from i acc bytes =
       (let k = length (takeWhile has_flag bytes)
        in if k = length bytes \<and> i + k < 10 then Inl Varint_Truncated
           else if 10 \<le> i + k \<or> i + k = 9 \<and> 1 < bytes ! k then Inl Varint_TooLong
           else Inr (of_nat (unat acc + 2 ^ (7 * i) * leb128_value (take (Suc k) bytes)), drop (Suc k) bytes))"
proof (induction bytes arbitrary: i acc)
  case (Cons b bytes)
  let ?low = "ucast (b AND 0x7F) :: u64"
  let ?acc = "acc OR push_bit (7 * i) ?low"
  have low: "unat ?low < 128" by (simp add: unat_low_bits)
  show ?case
  proof (cases "has_flag b")
    case True
    show ?thesis
    proof (cases "i = 9")
      case False
      with Cons.prems have i: "i < 9" by simp
      then have acc: "unat ?acc = unat acc + 2 ^ (7 * i) * (unat b mod 128)"
        using add_group [OF Cons.prems(2) low] by (simp add: unat_low_bits)
      have "2 ^ (7 * i) * (unat b mod 128) \<le> 2 ^ (7 * i) * 127" by (intro mult_left_mono) auto
      with acc Cons.prems(2) have "unat ?acc < 2 ^ (7 * i) * 128" by linarith
      then have "unat ?acc < 2 ^ (7 * Suc i)" by (simp add: power_add)
      from Cons.IH [OF _ this] i True acc show ?thesis
        by (simp add: has_flag_def MAX_VARINT_BYTE_COUNT_def Let_def algebra_simps power_add)
    qed (use True in \<open>simp add: has_flag_def MAX_VARINT_BYTE_COUNT_def Let_def\<close>)
  next
    case False
    then have b: "unat ?low = unat b" "unat b mod 128 = unat b" by (simp_all add: unat_low_bits unflagged_byte)
    then have "1 < ?low \<longleftrightarrow> 1 < b" by (simp add: word_less_nat_alt)
    moreover have "?acc = of_nat (unat acc + 2 ^ (7 * i) * unat b)" if "\<not> (i = 9 \<and> 1 < b)"
    proof -
      have "unat ?acc = unat acc + 2 ^ (7 * i) * unat b"
        using add_group [OF Cons.prems(2) low] that b Cons.prems(1) by (simp add: word_less_nat_alt) linarith
      then show ?thesis by (metis of_nat_unat ucast_id)
    qed
    ultimately show ?thesis using False Cons.prems(1) b
      by (simp add: has_flag_def MAX_VARINT_BYTE_COUNT_def Let_def)
  qed
qed simp

lemma leb128_value_append: "leb128_value (xs @ ys) = leb128_value xs + 128 ^ length xs * leb128_value ys"
  by (induction xs) (simp_all add: algebra_simps)

lemma leb128_value_less: "leb128_value bytes < 128 ^ length bytes"
proof (induction bytes)
  case (Cons b bytes)
  have "unat b mod 128 < 128" by simp
  with Cons have "unat b mod 128 + 128 * leb128_value bytes < 128 * 128 ^ length bytes" by linarith
  then show ?case by simp
qed simp

text \<open>The tenth group passes 64 bits exactly when it is above one.\<close>

lemma leb128_value_overflow:
  assumes "k < length bytes" "k < 10" "\<not> has_flag (bytes ! k)"
  shows "2 ^ 64 \<le> leb128_value (take (Suc k) bytes) \<longleftrightarrow> k = 9 \<and> 1 < bytes ! k"
proof -
  have split: "leb128_value (take (Suc k) bytes) = leb128_value (take k bytes) + 128 ^ k * unat (bytes ! k)"
    using assms(1) unflagged_byte [OF assms(3)] by (simp add: take_Suc_conv_app_nth leb128_value_append)
  show ?thesis
  proof (cases "k = 9")
    case True
    have "leb128_value (take k bytes) < 128 ^ 9" using leb128_value_less [of "take k bytes"] assms(1) True by simp
    with True show ?thesis unfolding split by (simp add: word_less_nat_alt) linarith
  next
    case False
    have "leb128_value (take (Suc k) bytes) < 128 ^ Suc k"
      using leb128_value_less [of "take (Suc k) bytes"] assms(1) by simp
    also have "(128 :: nat) ^ Suc k \<le> 128 ^ 9" using False assms(2) by (intro power_increasing) auto
    finally show ?thesis using False by simp
  qed
qed

lemma read_long_varint_leb128: "read_long_varint bytes = map_sum id (map_prod of_nat id) (leb128 bytes)"
proof -
  let ?k = "length (takeWhile has_flag bytes)"
  have k: "?k < length bytes \<Longrightarrow> \<not> has_flag (bytes ! ?k)" by (rule nth_length_takeWhile)
  show ?thesis
  proof (cases "?k = length bytes")
    case False
    then have "?k < length bytes" using length_takeWhile_le [of has_flag bytes] by simp
    with k leb128_value_overflow [of ?k bytes] show ?thesis
      by (auto simp: read_long_varint_def read_long_varint_from_value leb128_def Let_def)
  qed (simp add: read_long_varint_def read_long_varint_from_value leb128_def Let_def)
qed

lemma read_varint_leb128: "read_varint bytes = map_sum id (map_prod of_nat id) (leb128 bytes)"
proof (cases "bytes \<noteq> [] \<and> \<not> has_flag (hd bytes)")
  case True
  then obtain b bs where "bytes = b # bs" "\<not> has_flag b" by (cases bytes) auto
  then show ?thesis using unflagged_byte [of b] unsigned_less [of b, where 'a = nat]
    by (simp add: read_varint_def leb128_def has_flag_def)
next
  case False
  then have "read_varint bytes = read_long_varint bytes"
    by (auto simp: read_varint_def has_flag_def split: list.splits)
  then show ?thesis by (simp add: read_long_varint_leb128)
qed

text \<open>The bytes a reader consumes: a non-empty prefix of what it was given, of at most ten bytes.\<close>

lemma read_varint_consumes:
  "read_varint bytes = Inr (v, rest) \<Longrightarrow> \<exists>used. bytes = used @ rest \<and> 0 < length used \<and> length used \<le> MAX_VARINT_BYTE_COUNT"
proof -
  let ?k = "length (takeWhile has_flag bytes)"
  assume "read_varint bytes = Inr (v, rest)"
  then have "?k < length bytes" "?k < 10" "rest = drop (Suc ?k) bytes"
    using length_takeWhile_le [of has_flag bytes]
    by (auto simp: read_varint_leb128 leb128_def Let_def split: if_splits)
  then show ?thesis by (intro exI [of _ "take (Suc ?k) bytes"]) (simp add: MAX_VARINT_BYTE_COUNT_def)
qed

text \<open>
  A varint reads back as the number it was written from: \<open>read_varint\<close> on the bytes \<open>write_varint\<close>
  appended, whatever follows them, gives the number and leaves exactly what follows; the number takes
  one to ten bytes.
\<close>

theorem varint_roundtrip:
  "\<exists>bytes. write_varint v out = out @ bytes \<and> bytes \<noteq> [] \<and> length bytes \<le> MAX_VARINT_BYTE_COUNT \<and>
     read_varint (bytes @ rest) = Inr (v, rest)"
  using length_varint_bytes [of v] by (intro exI [of _ "varint_bytes v"]) (simp add: write_varint_append [of v out])

text \<open>
  C27. \<open>read_varint\<close> is total and every input falls in one of three cases, those of the base-128 reading
  \<open>leb128\<close>: bytes that all carry the flag and number fewer than ten are \<open>Truncated\<close>; ten flagged bytes,
  or a number past 64 bits, are \<open>TooLong\<close>; any other input gives the number its groups spell, with no
  wrap-around, and the bytes after its last group.
\<close>

theorem read_varint_equals_leb128:
  "read_varint bytes = map_sum id (map_prod of_nat id) (leb128 bytes) \<and>
     (case leb128 bytes of Inl e \<Rightarrow> True | Inr (number, rest) \<Rightarrow> number < 2 ^ 64)"
  by (auto simp: read_varint_leb128 leb128_def Let_def)

end
