(* ===== verification/Byte_Reader.thy ===== *)
theory Byte_Reader
  imports Varint
begin

text \<open>
  What the binary decoders share: readers over a byte slice, which give an error or a value with the
  bytes after it, the slice operations of the standard library they use, and big-endian numbers
  (\<open>to_be_bytes\<close> and \<open>from_be_bytes\<close>) on words of any width.
\<close>

named_theorems wire_reads \<open>what a reader gives on the bytes a writer wrote\<close>

section \<open>Readers\<close>

type_synonym ('e, 'a) reader = "u8 list \<Rightarrow> 'e + ('a \<times> u8 list)"

text \<open>One read after another: the \<open>?\<close> of the code, which stops at the first error.\<close>

definition and_then :: "('e, 'a) reader \<Rightarrow> ('a \<Rightarrow> ('e, 'b) reader) \<Rightarrow> ('e, 'b) reader" where
  "and_then r k remaining_bytes =
     (case r remaining_bytes of Inl e \<Rightarrow> Inl e | Inr (x, rest) \<Rightarrow> k x rest)"

definition give :: "'a \<Rightarrow> ('e, 'a) reader" where
  "give x remaining_bytes = Inr (x, remaining_bytes)"

definition refuse :: "'e \<Rightarrow> ('e, 'a) reader" where
  "refuse e remaining_bytes = Inl e"

fun read_times :: "nat \<Rightarrow> ('e, 'a) reader \<Rightarrow> ('e, 'a list) reader" where
  "read_times 0 r = give []"
| "read_times (Suc n) r = and_then r (\<lambda>x. and_then (read_times n r) (\<lambda>xs. give (x # xs)))"

text \<open>\<open>slice::split_first\<close> and \<open>slice::split_first_chunk\<close>.\<close>

definition split_first_chunk :: "nat \<Rightarrow> 'a list \<Rightarrow> ('a list \<times> 'a list) option" where
  "split_first_chunk n xs = (if n \<le> length xs then Some (take n xs, drop n xs) else None)"

lemma read_times_concat:
  "(\<And>x rest. x \<in> set xs \<Longrightarrow> r (w x @ rest) = Inr (x, rest)) \<Longrightarrow>
     read_times (length xs) r (concat (map w xs) @ rest) = Inr (xs, rest)"
  by (induction xs) (simp_all add: and_then_def give_def)

lemmas reader_defs = and_then_def give_def refuse_def

lemma read_varint_append: "read_varint bytes = Inr (v, r) \<Longrightarrow> read_varint (bytes @ rest) = Inr (v, r @ rest)"
proof -
  let ?k = "length (takeWhile has_flag bytes)"
  assume read: "read_varint bytes = Inr (v, r)"
  then have "?k < length bytes"
    using length_takeWhile_le [of has_flag bytes]
    by (auto simp: read_varint_leb128 leb128_def Let_def split: if_splits)
  then have "takeWhile has_flag (bytes @ rest) = takeWhile has_flag bytes"
    by (intro takeWhile_append1 [of "bytes ! ?k"] nth_mem nth_length_takeWhile)
  with read \<open>?k < length bytes\<close> show ?thesis
    by (auto simp: read_varint_leb128 leb128_def Let_def split: if_splits)
qed

lemma unat_widen_u16: "unat (ucast n :: u64) = unat n" for n :: u16
  by (rule unsigned_ucast_eq [THEN trans]) (simp add: take_bit_nat_eq_self_iff unsigned_less [THEN less_trans])

lemma narrow_widen_u16 [simp]: "ucast (ucast n :: u64) = n" for n :: u16
  by (rule bit_eqI) (auto simp: bit_simps dest: bit_imp_le_length)

lemma unat_count: "n < 2 ^ 64 \<Longrightarrow> unat (of_nat n :: u64) = n"
  by (simp add: unat_of_nat)

lemma length_le_concat: "(\<And>x. x \<in> set xs \<Longrightarrow> w x \<noteq> []) \<Longrightarrow> length xs \<le> length (concat (map w xs))"
proof (induction xs)
  case (Cons x xs)
  then have "w x \<noteq> []" "length xs \<le> length (concat (map w xs))" by simp_all
  then show ?case by (cases "w x") simp_all
qed simp

section \<open>Big-endian bytes\<close>

definition to_be_bytes :: "nat \<Rightarrow> 'a::len word \<Rightarrow> u8 list" where
  "to_be_bytes byte_count w = map (\<lambda>i. ucast (drop_bit (8 * i) w)) (rev [0..<byte_count])"

definition from_be_bytes :: "u8 list \<Rightarrow> 'a::len word" where
  "from_be_bytes bytes = foldl (\<lambda>w b. push_bit 8 w OR ucast b) 0 bytes"

lemma length_to_be_bytes [simp]: "length (to_be_bytes n w) = n"
  by (simp add: to_be_bytes_def)

lemma to_be_bytes_Suc: "to_be_bytes (Suc n) w = ucast (drop_bit (8 * n) w) # to_be_bytes n w"
  by (simp add: to_be_bytes_def)

lemma foldl_be_bytes:
  "foldl (\<lambda>w b. push_bit 8 w OR ucast b) acc (to_be_bytes n w) = push_bit (8 * n) acc OR take_bit (8 * n) w"
  for w :: "'a::len word"
proof (induction n arbitrary: acc)
  case (Suc n)
  have "push_bit (8 * n) (push_bit 8 acc OR ucast (ucast (drop_bit (8 * n) w) :: u8)) OR take_bit (8 * n) w =
      push_bit (8 * Suc n) acc OR take_bit (8 * Suc n) w"
    by (rule bit_eqI) (auto simp: bit_simps ac_simps)
  with Suc show ?case by (simp only: to_be_bytes_Suc foldl_Cons)
qed (simp add: to_be_bytes_def)

lemma from_to_be_bytes [simp]: "LENGTH('a) \<le> 8 * n \<Longrightarrow> from_be_bytes (to_be_bytes n w) = w" for w :: "'a::len word"
  by (simp add: from_be_bytes_def foldl_be_bytes take_bit_word_eq_self)

end
