(* ===== verification/Image_Chunk.thy ===== *)
theory Image_Chunk
  imports Byte_Reader
begin

text \<open>
  Image chunk frames (\<open>koshi-ipc/src/image_chunk.rs\<close>): one kind byte, two big-endian 64-bit numbers, a
  flag byte and the raw bytes of the image. The decode errors are the ones every binary frame of the
  session plane shares (\<open>SessionBinaryFrameDecodeError\<close> of \<open>koshi-ipc/src/painted_update.rs\<close>).
\<close>

section \<open>The frame\<close>

datatype session_binary_frame_decode_error =
    MissingFrameKind
  | Frame_Truncated
  | Frame_VarintTooLong
  | Frame_ValueOutOfRange (field_name: string) (decoded_value: u64)
  | UnknownFlags (field_name: string) (flag_bits: u8)
  | UnknownRowInstruction (instruction_tag: u8)
  | Frame_TrailingBytes (trailing_byte_count: nat)
  | MalformedStructure (error_detail: string)

definition IMAGE_CHUNK_FRAME_KIND :: u8 where
  "IMAGE_CHUNK_FRAME_KIND = 2"

definition IMAGE_CHUNK_FRAME_HEAD_BYTE_COUNT :: nat where
  "IMAGE_CHUNK_FRAME_HEAD_BYTE_COUNT = 18"

record image_chunk_frame =
  image_transfer_id :: u64
  byte_offset :: u64
  is_last_chunk :: bool
  frame_payload :: "u8 list"

definition get_chunk_bytes :: "image_chunk_frame \<Rightarrow> u8 list" where
  "get_chunk_bytes frame = drop IMAGE_CHUNK_FRAME_HEAD_BYTE_COUNT (frame_payload frame)"

definition build_image_chunk_frame_head :: "u64 \<Rightarrow> u64 \<Rightarrow> bool \<Rightarrow> u8 list" where
  "build_image_chunk_frame_head transfer_id offset last_chunk =
     [IMAGE_CHUNK_FRAME_KIND] @ to_be_bytes 8 transfer_id @ to_be_bytes 8 offset @ [of_bool last_chunk]"

definition decode_image_chunk_frame ::
    "u8 list \<Rightarrow> session_binary_frame_decode_error + image_chunk_frame" where
  "decode_image_chunk_frame payload =
     (case split_first_chunk 1 payload of
        None \<Rightarrow> Inl Frame_Truncated
      | Some (frame_kind, after_frame_kind) \<Rightarrow>
     (case split_first_chunk 8 after_frame_kind of
        None \<Rightarrow> Inl Frame_Truncated
      | Some (transfer_id_bytes, after_transfer_id) \<Rightarrow>
     (case split_first_chunk 8 after_transfer_id of
        None \<Rightarrow> Inl Frame_Truncated
      | Some (byte_offset_bytes, after_byte_offset) \<Rightarrow>
     (case after_byte_offset of
        [] \<Rightarrow> Inl Frame_Truncated
      | last_chunk_flag # chunk_bytes \<Rightarrow>
          if last_chunk_flag = 0 \<or> last_chunk_flag = 1
          then Inr \<lparr>image_transfer_id = from_be_bytes transfer_id_bytes,
                    byte_offset = from_be_bytes byte_offset_bytes,
                    is_last_chunk = (last_chunk_flag = 1), frame_payload = payload\<rparr>
          else Inl (Frame_ValueOutOfRange ''last_chunk_flag'' (ucast last_chunk_flag))))))"

lemma length_image_chunk_frame_head [simp]:
  "length (build_image_chunk_frame_head t o' l) = IMAGE_CHUNK_FRAME_HEAD_BYTE_COUNT"
  by (simp add: build_image_chunk_frame_head_def IMAGE_CHUNK_FRAME_HEAD_BYTE_COUNT_def)

text \<open>
  An image chunk frame reads back as what its head was built from: the transfer id, the byte
  offset, the last-chunk flag, and exactly the chunk bytes that follow the head.
\<close>

theorem image_chunk_roundtrip:
  "\<exists>frame. decode_image_chunk_frame (build_image_chunk_frame_head transfer_id offset last_chunk @ chunk) = Inr frame \<and>
     image_transfer_id frame = transfer_id \<and> byte_offset frame = offset \<and> is_last_chunk frame = last_chunk \<and>
     get_chunk_bytes frame = chunk"
  by (simp add: decode_image_chunk_frame_def split_first_chunk_def build_image_chunk_frame_head_def
      get_chunk_bytes_def IMAGE_CHUNK_FRAME_HEAD_BYTE_COUNT_def)

text \<open>Every refusal: a payload shorter than the head, or a flag byte other than zero and one.\<close>

lemma decode_image_chunk_frame_error:
  "decode_image_chunk_frame payload = Inl e \<longleftrightarrow>
     (if length payload < IMAGE_CHUNK_FRAME_HEAD_BYTE_COUNT then e = Frame_Truncated
      else 1 < payload ! 17 \<and> e = Frame_ValueOutOfRange ''last_chunk_flag'' (ucast (payload ! 17)))"
proof (cases "length payload < IMAGE_CHUNK_FRAME_HEAD_BYTE_COUNT")
  case True
  then show ?thesis
    by (auto simp: decode_image_chunk_frame_def split_first_chunk_def IMAGE_CHUNK_FRAME_HEAD_BYTE_COUNT_def)
next
  case False
  then have "drop 17 payload = payload ! 17 # drop 18 payload"
    using Cons_nth_drop_Suc [of 17 payload] by (simp add: IMAGE_CHUNK_FRAME_HEAD_BYTE_COUNT_def)
  moreover have "payload ! 17 = 0 \<or> payload ! 17 = 1 \<longleftrightarrow> \<not> 1 < payload ! 17"
    by (simp add: unat_eq_iff [of "payload ! 17"] word_less_nat_alt) linarith
  ultimately show ?thesis using False
    by (auto simp: decode_image_chunk_frame_def split_first_chunk_def IMAGE_CHUNK_FRAME_HEAD_BYTE_COUNT_def)
qed

end
