(* ===== verification/Painted_Update.thy ===== *)
theory Painted_Update
  imports Ids Image_Chunk
begin

text \<open>
  The wire form of painted updates (\<open>koshi-ipc/src/painted_update.rs\<close>): how one update of an attached
  client's screen becomes the payloads of binary frames, split in parts that fit a frame, and how a
  payload is read back. The JSON of the frame structure and of the placement preview is bytes here:
  \<open>serde_json::from_slice\<close> is a parameter of the decoder for each of the two, giving an error text or
  the decoded value. Writers append to a byte list; a reader takes the remaining bytes and gives an
  error, or a value and the bytes after it. \<open>usize\<close> is 64 bits wide, so every \<open>u64\<close> byte count fits it.
\<close>

section \<open>Data\<close>

definition PAINTED_UPDATE_FRAME_KIND :: u8 where "PAINTED_UPDATE_FRAME_KIND = 1"

definition PART_OPENS_UPDATE_FLAG :: u8 where "PART_OPENS_UPDATE_FLAG = 1"
definition PART_ENDS_UPDATE_FLAG :: u8 where "PART_ENDS_UPDATE_FLAG = 2"
definition PART_CHANGES_PLACEMENT_PREVIEW_FLAG :: u8 where "PART_CHANGES_PLACEMENT_PREVIEW_FLAG = 4"

definition SECTION_OPENS_PANE_FLAG :: u8 where "SECTION_OPENS_PANE_FLAG = 1"
definition SECTION_HAS_WINDOW_FLAG :: u8 where "SECTION_HAS_WINDOW_FLAG = 2"
definition SECTION_RESETS_ROWS_FLAG :: u8 where "SECTION_RESETS_ROWS_FLAG = 4"

definition CURSOR_VISIBLE_FLAG :: u8 where "CURSOR_VISIBLE_FLAG = 1"
definition CURSOR_BLINKING_FLAG :: u8 where "CURSOR_BLINKING_FLAG = 2"

definition CURSOR_SHAPE_NONE_CODE :: u8 where "CURSOR_SHAPE_NONE_CODE = 0"
definition CURSOR_SHAPE_BLOCK_CODE :: u8 where "CURSOR_SHAPE_BLOCK_CODE = 1"
definition CURSOR_SHAPE_UNDERLINE_CODE :: u8 where "CURSOR_SHAPE_UNDERLINE_CODE = 2"
definition CURSOR_SHAPE_BAR_CODE :: u8 where "CURSOR_SHAPE_BAR_CODE = 3"

definition KEEP_INSTRUCTION_TAG :: u8 where "KEEP_INSTRUCTION_TAG = 0"
definition COPY_INSTRUCTION_TAG :: u8 where "COPY_INSTRUCTION_TAG = 1"
definition NEW_INSTRUCTION_TAG :: u8 where "NEW_INSTRUCTION_TAG = 2"

definition SECTION_FRAME_BYTE_COUNT :: nat where
  "SECTION_FRAME_BYTE_COUNT = 16 + MAX_VARINT_BYTE_COUNT"

definition PART_FRAME_BYTE_COUNT :: nat where
  "PART_FRAME_BYTE_COUNT = 1 + 1 + MAX_VARINT_BYTE_COUNT"

definition MAX_FRAME_BYTE_COUNT :: nat where
  "MAX_FRAME_BYTE_COUNT = 16 * 1024 * 1024"

datatype 'p placement_preview_update = Preview_Unchanged | Preview_Cleared | Preview_Replaced 'p

datatype pane_cursor_shape = Shape_Block | Shape_Underline | Shape_Bar

record pane_cursor =
  cursor_row_index :: u16
  cursor_column_index :: u16
  cursor_is_visible :: bool
  cursor_is_blinking :: bool
  cursor_shape :: "pane_cursor_shape option"

record pane_window =
  window_column_count :: u16
  window_row_count :: u16
  window_view_row_offset :: u64
  window_is_reset :: bool

record pane_header =
  header_cursor :: pane_cursor
  header_view_top_row_index :: u64
  header_retained_line_count :: u64
  header_pane_window :: "pane_window option"

datatype row_instruction =
    Keep (instruction_row_count: u16)
  | Copy (source_row_index: u16) (instruction_row_count: u16)
  | New (encoded_row_bytes: "u8 list")

record pane_section =
  section_pane_id :: pane_id
  section_pane_header :: "pane_header option"
  section_row_instructions :: "row_instruction list"

record ('f, 'p) painted_update_opening =
  opening_update_sequence :: u64
  opening_painted_frame :: "'f option"
  opening_placement_preview_update :: "'p placement_preview_update"

record ('f, 'p) painted_update_part =
  update_opening :: "('f, 'p) painted_update_opening option"
  is_last_part :: bool
  pane_sections :: "pane_section list"

datatype ('f, 'p) session_binary_frame =
    PaintedUpdatePart "('f, 'p) painted_update_part"
  | ImageChunk image_chunk_frame
  | UnknownFrame (unknown_frame_kind: u8)

record pane_update =
  update_pane_id :: pane_id
  update_pane_header :: pane_header
  update_row_instructions :: "row_instruction list"

datatype painted_update_encode_error =
    StructureTooLarge (structure_byte_count: nat) (placement_preview_byte_count: nat)
  | RowTooLarge (row_byte_count: nat)

section \<open>Encoding\<close>

text \<open>\<open>PartWriter\<close>: the finished payloads and the part being filled.\<close>

record part_writer =
  maximum_part_byte_count :: nat
  part_payloads :: "u8 list list"
  opening_bytes :: "u8 list"
  opening_flags :: u8
  section_bytes :: "u8 list"
  section_count :: u64

text \<open>\<open>OpenSection\<close>: one section being filled.\<close>

record open_section =
  open_pane_id :: pane_id
  header_bytes :: "u8 list"
  instruction_bytes :: "u8 list"
  instruction_count :: u64

definition uuid_bytes :: "pane_id \<Rightarrow> u8 list" where
  "uuid_bytes p = to_be_bytes 16 (get_uuid p)"

definition can_take_section_bytes :: "part_writer \<Rightarrow> nat \<Rightarrow> bool" where
  "can_take_section_bytes w section_byte_count \<longleftrightarrow>
     PART_FRAME_BYTE_COUNT + length (opening_bytes w) + length (section_bytes w) + section_byte_count
       \<le> maximum_part_byte_count w"

definition add_section :: "open_section \<Rightarrow> part_writer \<Rightarrow> part_writer" where
  "add_section s w =
     w\<lparr>section_bytes :=
         write_varint (instruction_count s) (section_bytes w @ uuid_bytes (open_pane_id s) @ header_bytes s)
           @ instruction_bytes s,
       section_count := section_count w + 1\<rparr>"

definition close_part :: "bool \<Rightarrow> part_writer \<Rightarrow> part_writer" where
  "close_part last_part w =
     (let is_first_part = part_payloads w = [];
          part_flags = (if is_first_part then opening_flags w else 0);
          part_flags = (if last_part then part_flags OR PART_ENDS_UPDATE_FLAG else part_flags);
          part_payload = write_varint (section_count w)
                           ([PAINTED_UPDATE_FRAME_KIND, part_flags] @ opening_bytes w) @ section_bytes w
      in w\<lparr>opening_bytes := [], section_bytes := [], section_count := 0,
           part_payloads := part_payloads w @ [part_payload]\<rparr>)"

definition cursor_shape_code :: "pane_cursor_shape option \<Rightarrow> u8" where
  "cursor_shape_code shape =
     (case shape of
        None \<Rightarrow> CURSOR_SHAPE_NONE_CODE
      | Some Shape_Block \<Rightarrow> CURSOR_SHAPE_BLOCK_CODE
      | Some Shape_Underline \<Rightarrow> CURSOR_SHAPE_UNDERLINE_CODE
      | Some Shape_Bar \<Rightarrow> CURSOR_SHAPE_BAR_CODE)"

definition open_section_from_pane_update :: "pane_update \<Rightarrow> open_section" where
  "open_section_from_pane_update u =
     (let h = update_pane_header u;
          section_flags =
            (case header_pane_window h of
               None \<Rightarrow> SECTION_OPENS_PANE_FLAG
             | Some win \<Rightarrow>
                 if window_is_reset win
                 then SECTION_OPENS_PANE_FLAG OR SECTION_HAS_WINDOW_FLAG OR SECTION_RESETS_ROWS_FLAG
                 else SECTION_OPENS_PANE_FLAG OR SECTION_HAS_WINDOW_FLAG);
          c = header_cursor h;
          out = [section_flags];
          out = write_varint (ucast (cursor_row_index c)) out;
          out = write_varint (ucast (cursor_column_index c)) out;
          cursor_flags = (if cursor_is_visible c then CURSOR_VISIBLE_FLAG else 0);
          cursor_flags = (if cursor_is_blinking c then cursor_flags OR CURSOR_BLINKING_FLAG else cursor_flags);
          out = out @ [cursor_flags] @ [cursor_shape_code (cursor_shape c)];
          out = write_varint (header_view_top_row_index h) out;
          out = write_varint (header_retained_line_count h) out;
          out = (case header_pane_window h of
                   None \<Rightarrow> out
                 | Some win \<Rightarrow>
                     write_varint (window_view_row_offset win)
                       (write_varint (ucast (window_row_count win))
                         (write_varint (ucast (window_column_count win)) out)))
      in \<lparr>open_pane_id = update_pane_id u, header_bytes = out, instruction_bytes = [], instruction_count = 0\<rparr>)"

definition open_section_from_continued_pane_id :: "pane_id \<Rightarrow> open_section" where
  "open_section_from_continued_pane_id p =
     \<lparr>open_pane_id = p, header_bytes = [0], instruction_bytes = [], instruction_count = 0\<rparr>"

definition compute_byte_count_bound :: "open_section \<Rightarrow> nat" where
  "compute_byte_count_bound s =
     SECTION_FRAME_BYTE_COUNT + length (header_bytes s) + length (instruction_bytes s)"

definition encode_row_instruction :: "row_instruction \<Rightarrow> u8 list \<Rightarrow> u8 list" where
  "encode_row_instruction i out =
     (case i of
        Keep n \<Rightarrow> write_varint (ucast n) (out @ [KEEP_INSTRUCTION_TAG])
      | Copy src n \<Rightarrow> write_varint (ucast n) (write_varint (ucast src) (out @ [COPY_INSTRUCTION_TAG]))
      | New row_bytes \<Rightarrow> out @ [NEW_INSTRUCTION_TAG] @ row_bytes)"

text \<open>The inner loop of \<open>encode_painted_update_in_parts\<close>, over one pane's row instructions.\<close>

fun encode_row_instructions ::
    "pane_id \<Rightarrow> row_instruction list \<Rightarrow> part_writer \<Rightarrow> open_section
       \<Rightarrow> painted_update_encode_error + (part_writer \<times> open_section)" where
  "encode_row_instructions p [] w s = Inr (w, s)"
| "encode_row_instructions p (i # is) w s =
     (let bytes = encode_row_instruction i [] in
      if can_take_section_bytes w (compute_byte_count_bound s + length bytes)
      then encode_row_instructions p is w
             (s\<lparr>instruction_bytes := instruction_bytes s @ bytes, instruction_count := instruction_count s + 1\<rparr>)
      else
        let w = close_part False (add_section s w);
            s = open_section_from_continued_pane_id p
        in if \<not> can_take_section_bytes w (compute_byte_count_bound s + length bytes)
           then Inl (RowTooLarge (length bytes - 1))
           else encode_row_instructions p is w
                  (s\<lparr>instruction_bytes := instruction_bytes s @ bytes, instruction_count := instruction_count s + 1\<rparr>))"

text \<open>The outer loop, over the panes.\<close>

fun encode_pane_updates :: "pane_update list \<Rightarrow> part_writer \<Rightarrow> painted_update_encode_error + part_writer" where
  "encode_pane_updates [] w = Inr w"
| "encode_pane_updates (u # us) w =
     (let s = open_section_from_pane_update u;
          w = (if can_take_section_bytes w (compute_byte_count_bound s) then w else close_part False w)
      in case encode_row_instructions (update_pane_id u) (update_row_instructions u) w s of
           Inl e \<Rightarrow> Inl e
         | Inr (w, s) \<Rightarrow> encode_pane_updates us (add_section s w))"

definition preview_json_bytes :: "u8 list placement_preview_update \<Rightarrow> u8 list option" where
  "preview_json_bytes preview =
     (case preview of
        Preview_Unchanged \<Rightarrow> None
      | Preview_Cleared \<Rightarrow> Some []
      | Preview_Replaced json_bytes \<Rightarrow> Some json_bytes)"

definition update_opening_bytes :: "u64 \<Rightarrow> u8 list \<Rightarrow> u8 list option \<Rightarrow> u8 list" where
  "update_opening_bytes update_sequence structure_json preview_json =
     (let out = write_varint (of_nat (length structure_json)) (write_varint update_sequence []) @ structure_json
      in case preview_json of
           None \<Rightarrow> out
         | Some json_bytes \<Rightarrow> write_varint (of_nat (length json_bytes)) out @ json_bytes)"

definition encode_painted_update_in_parts ::
    "u64 \<Rightarrow> u8 list option \<Rightarrow> u8 list placement_preview_update \<Rightarrow> pane_update list \<Rightarrow> nat
       \<Rightarrow> painted_update_encode_error + u8 list list" where
  "encode_painted_update_in_parts update_sequence structure_json_bytes preview pane_updates max_part =
     (let structure_json = (case structure_json_bytes of None \<Rightarrow> [] | Some json_bytes \<Rightarrow> json_bytes);
          preview_json = preview_json_bytes preview;
          opening = update_opening_bytes update_sequence structure_json preview_json
      in if max_part < PART_FRAME_BYTE_COUNT + length opening
         then Inl (StructureTooLarge (length structure_json)
                (case preview_json of None \<Rightarrow> 0 | Some json_bytes \<Rightarrow> length json_bytes))
         else
           let w = \<lparr>maximum_part_byte_count = max_part, part_payloads = [], opening_bytes = opening,
                    opening_flags =
                      (if preview_json \<noteq> None
                       then PART_OPENS_UPDATE_FLAG OR PART_CHANGES_PLACEMENT_PREVIEW_FLAG
                       else PART_OPENS_UPDATE_FLAG),
                    section_bytes = [], section_count = 0\<rparr>
           in case encode_pane_updates pane_updates w of
                Inl e \<Rightarrow> Inl e
              | Inr w \<Rightarrow> Inr (part_payloads (close_part True w)))"

definition encode_painted_update ::
    "u64 \<Rightarrow> u8 list option \<Rightarrow> u8 list placement_preview_update \<Rightarrow> pane_update list
       \<Rightarrow> painted_update_encode_error + u8 list list" where
  "encode_painted_update update_sequence structure_json_bytes preview pane_updates =
     encode_painted_update_in_parts update_sequence structure_json_bytes preview pane_updates MAX_FRAME_BYTE_COUNT"

section \<open>Decoding\<close>

type_synonym 'a part_reader = "(session_binary_frame_decode_error, 'a) reader"

definition read_part_varint :: "u64 part_reader" where
  "read_part_varint remaining_bytes =
     (case read_varint remaining_bytes of
        Inl Varint_Truncated \<Rightarrow> Inl Frame_Truncated
      | Inl Varint_TooLong \<Rightarrow> Inl Frame_VarintTooLong
      | Inr (v, rest) \<Rightarrow> Inr (v, rest))"

definition read_bytes :: "u64 \<Rightarrow> u8 list part_reader" where
  "read_bytes byte_count remaining_bytes =
     (case split_first_chunk (unat byte_count) remaining_bytes of
        None \<Rightarrow> Inl Frame_Truncated
      | Some (read, unread) \<Rightarrow> Inr (read, unread))"

definition read_byte :: "u8 part_reader" where
  "read_byte = and_then (read_bytes 1) (\<lambda>bytes. give (bytes ! 0))"

definition read_u16 :: "string \<Rightarrow> u16 part_reader" where
  "read_u16 field =
     and_then read_part_varint (\<lambda>v.
       if unat v < 2 ^ 16 then give (ucast v) else refuse (Frame_ValueOutOfRange field v))"

definition read_row_count :: "u16 part_reader" where
  "read_row_count =
     and_then (read_u16 ''row_count'') (\<lambda>n.
       if n = 0 then refuse (Frame_ValueOutOfRange ''row_count'' 0) else give n)"

definition read_new_row :: "row_instruction part_reader" where
  "read_new_row row_start_bytes =
     and_then read_part_varint (\<lambda>body_byte_count.
       and_then (read_bytes body_byte_count) (\<lambda>body remaining_bytes.
         let row_byte_count = length row_start_bytes - length remaining_bytes
         in Inr (New (take row_byte_count row_start_bytes), remaining_bytes))) row_start_bytes"

definition read_row_instruction :: "row_instruction part_reader" where
  "read_row_instruction =
     and_then read_byte (\<lambda>tag.
       if tag = KEEP_INSTRUCTION_TAG then and_then read_row_count (\<lambda>n. give (Keep n))
       else if tag = COPY_INSTRUCTION_TAG then
         and_then (read_u16 ''source_row_index'') (\<lambda>src. and_then read_row_count (\<lambda>n. give (Copy src n)))
       else if tag = NEW_INSTRUCTION_TAG then read_new_row
       else refuse (UnknownRowInstruction tag))"

definition cursor_shape_of_code :: "u8 \<Rightarrow> pane_cursor_shape option" where
  "cursor_shape_of_code code =
     (if code = CURSOR_SHAPE_BLOCK_CODE then Some Shape_Block
      else if code = CURSOR_SHAPE_UNDERLINE_CODE then Some Shape_Underline
      else if code = CURSOR_SHAPE_BAR_CODE then Some Shape_Bar
      else None)"

definition read_pane_window :: "u8 \<Rightarrow> pane_window option part_reader" where
  "read_pane_window section_flags =
     (if section_flags AND SECTION_HAS_WINDOW_FLAG \<noteq> 0 then
        and_then (read_u16 ''column_count'') (\<lambda>columns.
        and_then (read_u16 ''row_count'') (\<lambda>rows.
        and_then read_part_varint (\<lambda>row_offset.
        give (Some \<lparr>window_column_count = columns, window_row_count = rows,
                    window_view_row_offset = row_offset,
                    window_is_reset = (section_flags AND SECTION_RESETS_ROWS_FLAG \<noteq> 0)\<rparr>))))
      else if section_flags AND SECTION_RESETS_ROWS_FLAG \<noteq> 0 then
        refuse (UnknownFlags ''section_flags'' section_flags)
      else give None)"

definition read_pane_header :: "u8 \<Rightarrow> pane_header part_reader" where
  "read_pane_header section_flags =
     and_then (read_u16 ''cursor_row_index'') (\<lambda>row.
     and_then (read_u16 ''cursor_column_index'') (\<lambda>column.
     and_then read_byte (\<lambda>cursor_flags.
     if cursor_flags AND NOT (CURSOR_VISIBLE_FLAG OR CURSOR_BLINKING_FLAG) \<noteq> 0
     then refuse (UnknownFlags ''cursor_flags'' cursor_flags)
     else
     and_then read_byte (\<lambda>shape_code.
     and_then read_part_varint (\<lambda>view_top.
     and_then read_part_varint (\<lambda>retained.
     and_then (read_pane_window section_flags) (\<lambda>win.
     give \<lparr>header_cursor =
             \<lparr>cursor_row_index = row, cursor_column_index = column,
              cursor_is_visible = (cursor_flags AND CURSOR_VISIBLE_FLAG \<noteq> 0),
              cursor_is_blinking = (cursor_flags AND CURSOR_BLINKING_FLAG \<noteq> 0),
              cursor_shape = cursor_shape_of_code shape_code\<rparr>,
           header_view_top_row_index = view_top, header_retained_line_count = retained,
           header_pane_window = win\<rparr>)))))))"

definition read_pane_section :: "pane_section part_reader" where
  "read_pane_section =
     and_then (read_bytes 16) (\<lambda>pane_uuid_bytes.
     and_then read_byte (\<lambda>section_flags.
     let known_section_flags =
           SECTION_OPENS_PANE_FLAG OR SECTION_HAS_WINDOW_FLAG OR SECTION_RESETS_ROWS_FLAG;
         is_pane_opening = section_flags AND SECTION_OPENS_PANE_FLAG \<noteq> 0
     in if section_flags AND NOT known_section_flags \<noteq> 0 \<or> \<not> is_pane_opening \<and> section_flags \<noteq> 0
        then refuse (UnknownFlags ''section_flags'' section_flags)
        else
     and_then (if is_pane_opening then and_then (read_pane_header section_flags) (\<lambda>h. give (Some h))
               else give None) (\<lambda>header.
     and_then read_part_varint (\<lambda>count.
     and_then (read_times (unat count) read_row_instruction) (\<lambda>instructions.
     give \<lparr>section_pane_id = PaneId (from_be_bytes pane_uuid_bytes), section_pane_header = header,
           section_row_instructions = instructions\<rparr>)))))"

definition parse_structure_json :: "(u8 list \<Rightarrow> string + 'a) \<Rightarrow> u8 list \<Rightarrow> 'a part_reader" where
  "parse_structure_json from_slice json_bytes =
     (case from_slice json_bytes of Inl detail \<Rightarrow> refuse (MalformedStructure detail) | Inr x \<Rightarrow> give x)"

definition read_update_opening ::
    "(u8 list \<Rightarrow> string + 'f) \<Rightarrow> (u8 list \<Rightarrow> string + 'p) \<Rightarrow> bool
       \<Rightarrow> ('f, 'p) painted_update_opening part_reader" where
  "read_update_opening parse_frame parse_preview is_placement_preview_changed =
     and_then read_part_varint (\<lambda>sequence.
     and_then read_part_varint (\<lambda>structure_count.
     and_then (read_bytes structure_count) (\<lambda>structure_json.
     and_then (if structure_json = [] then give None
               else and_then (parse_structure_json parse_frame structure_json) (\<lambda>f. give (Some f))) (\<lambda>frame.
     and_then (if is_placement_preview_changed then
                 and_then read_part_varint (\<lambda>preview_count.
                 and_then (read_bytes preview_count) (\<lambda>preview_json.
                   if preview_json = [] then give Preview_Cleared
                   else and_then (parse_structure_json parse_preview preview_json)
                          (\<lambda>v. give (Preview_Replaced v))))
               else give Preview_Unchanged) (\<lambda>preview.
     give \<lparr>opening_update_sequence = sequence, opening_painted_frame = frame,
           opening_placement_preview_update = preview\<rparr>)))))"

definition read_painted_update_part ::
    "(u8 list \<Rightarrow> string + 'f) \<Rightarrow> (u8 list \<Rightarrow> string + 'p) \<Rightarrow> ('f, 'p) painted_update_part part_reader" where
  "read_painted_update_part parse_frame parse_preview =
     and_then read_byte (\<lambda>part_flags.
     let is_update_opening = part_flags AND PART_OPENS_UPDATE_FLAG \<noteq> 0;
         is_placement_preview_changed = part_flags AND PART_CHANGES_PLACEMENT_PREVIEW_FLAG \<noteq> 0
     in if part_flags AND NOT (PART_OPENS_UPDATE_FLAG OR PART_ENDS_UPDATE_FLAG OR PART_CHANGES_PLACEMENT_PREVIEW_FLAG) \<noteq> 0
           \<or> is_placement_preview_changed \<and> \<not> is_update_opening
        then refuse (UnknownFlags ''part_flags'' part_flags)
        else
     and_then (if is_update_opening
               then and_then (read_update_opening parse_frame parse_preview is_placement_preview_changed)
                      (\<lambda>opening. give (Some opening))
               else give None) (\<lambda>opening.
     and_then read_part_varint (\<lambda>count.
     and_then (read_times (unat count) read_pane_section) (\<lambda>sections.
     give \<lparr>update_opening = opening, is_last_part = (part_flags AND PART_ENDS_UPDATE_FLAG \<noteq> 0),
           pane_sections = sections\<rparr>))))"

definition decode_session_binary_frame ::
    "(u8 list \<Rightarrow> string + 'f) \<Rightarrow> (u8 list \<Rightarrow> string + 'p) \<Rightarrow> u8 list
       \<Rightarrow> session_binary_frame_decode_error + ('f, 'p) session_binary_frame" where
  "decode_session_binary_frame parse_frame parse_preview payload =
     (case payload of
        [] \<Rightarrow> Inl MissingFrameKind
      | frame_kind # part_bytes \<Rightarrow>
          if frame_kind = IMAGE_CHUNK_FRAME_KIND
          then map_sum id ImageChunk (decode_image_chunk_frame payload)
          else if frame_kind \<noteq> PAINTED_UPDATE_FRAME_KIND then Inr (UnknownFrame frame_kind)
          else case read_painted_update_part parse_frame parse_preview part_bytes of
                 Inl e \<Rightarrow> Inl e
               | Inr (part, remaining_bytes) \<Rightarrow>
                   if remaining_bytes \<noteq> [] then Inl (Frame_TrailingBytes (length remaining_bytes))
                   else Inr (PaintedUpdatePart part))"

end
