(* ===== verification/Painted_Update_Roundtrip.thy ===== *)
theory Painted_Update_Roundtrip
  imports Painted_Update
begin

text \<open>
  What the painted update decoder reads from what the encoder wrote. Each piece of the wire form, a row
  instruction, a pane header, a section, an opening, a part, reads back as the value it was written
  from; an invariant of the part writer then gives the round trip of a whole update over all its parts,
  the bound on each part's size, and the exact condition of each encoding error.
\<close>

section \<open>Fields\<close>

lemma read_part_varint_bytes [wire_reads]: "read_part_varint (varint_bytes v @ rest) = Inr (v, rest)"
  by (simp add: read_part_varint_def)

lemma read_bytes_append [wire_reads]: "length xs = unat n \<Longrightarrow> read_bytes n (xs @ rest) = Inr (xs, rest)"
  by (simp add: read_bytes_def split_first_chunk_def)

lemma read_bytes_0 [wire_reads]: "read_bytes 0 rest = Inr ([], rest)"
  by (simp add: read_bytes_def split_first_chunk_def)

lemma read_byte_Cons [wire_reads]: "read_byte (b # rest) = Inr (b, rest)"
  by (simp add: read_byte_def read_bytes_def split_first_chunk_def and_then_def give_def)

lemma read_u16_bytes [wire_reads]: "read_u16 field (varint_bytes (ucast n) @ rest) = Inr (n, rest)"
  using unat_u16_less [of n]
  by (simp add: read_u16_def and_then_def give_def read_part_varint_bytes unat_widen_u16)

section \<open>Row instructions\<close>

definition row_instruction_ok :: "row_instruction \<Rightarrow> bool" where
  "row_instruction_ok i =
     (case i of
        Keep n \<Rightarrow> n \<noteq> 0
      | Copy src n \<Rightarrow> n \<noteq> 0
      | New bytes \<Rightarrow> (case read_varint bytes of Inl e \<Rightarrow> False | Inr (n, body) \<Rightarrow> unat n = length body))"

abbreviation instruction_wire :: "row_instruction \<Rightarrow> u8 list" where
  "instruction_wire i \<equiv> encode_row_instruction i []"

lemmas instruction_tags = KEEP_INSTRUCTION_TAG_def COPY_INSTRUCTION_TAG_def NEW_INSTRUCTION_TAG_def

lemma read_new_row_wire:
  assumes "read_varint bytes = Inr (n, body)" "unat n = length body"
  shows "read_new_row (bytes @ rest) = Inr (New bytes, rest)"
  using assms read_varint_append [of bytes n body rest] read_varint_consumes [of bytes n body]
  by (auto simp: read_new_row_def reader_defs read_part_varint_def read_bytes_append)

lemma read_instruction_wire [wire_reads]:
  assumes "row_instruction_ok i"
  shows "read_row_instruction (instruction_wire i @ rest) = Inr (i, rest)"
proof (cases i)
  case (Keep n)
  with assms show ?thesis
    by (simp add: read_row_instruction_def encode_row_instruction_def instruction_tags reader_defs wire_reads
        read_row_count_def row_instruction_ok_def write_varint_append [of _ "[_]"])
next
  case (Copy src n)
  with assms show ?thesis
    by (simp add: read_row_instruction_def encode_row_instruction_def instruction_tags reader_defs wire_reads
        read_row_count_def row_instruction_ok_def write_varint_append [of _ "_ # _"])
next
  case (New bytes)
  with assms obtain n body where "read_varint bytes = Inr (n, body)" "unat n = length body"
    by (auto simp: row_instruction_ok_def split: sum.splits)
  with New show ?thesis
    by (simp add: read_row_instruction_def encode_row_instruction_def instruction_tags reader_defs wire_reads
        read_new_row_wire)
qed

lemma instruction_wire_nonempty [simp]: "instruction_wire i \<noteq> []"
  by (simp add: encode_row_instruction_def write_varint_append [of _ "_ # _"] split: row_instruction.splits)

section \<open>Sections\<close>

lemmas section_flag_defs = SECTION_OPENS_PANE_FLAG_def SECTION_HAS_WINDOW_FLAG_def SECTION_RESETS_ROWS_FLAG_def

lemmas cursor_code_defs = CURSOR_VISIBLE_FLAG_def CURSOR_BLINKING_FLAG_def CURSOR_SHAPE_NONE_CODE_def
  CURSOR_SHAPE_BLOCK_CODE_def CURSOR_SHAPE_UNDERLINE_CODE_def CURSOR_SHAPE_BAR_CODE_def

definition window_wire :: "pane_window option \<Rightarrow> u8 list" where
  "window_wire win =
     (case win of
        None \<Rightarrow> []
      | Some win \<Rightarrow> varint_bytes (ucast (window_column_count win)) @ varint_bytes (ucast (window_row_count win)) @
          varint_bytes (window_view_row_offset win))"

definition window_flags :: "pane_window option \<Rightarrow> u8" where
  "window_flags win =
     (case win of
        None \<Rightarrow> 1
      | Some win \<Rightarrow> if window_is_reset win then 7 else 3)"

definition cursor_flags_of :: "pane_cursor \<Rightarrow> u8" where
  "cursor_flags_of c = of_bool (cursor_is_visible c) + 2 * of_bool (cursor_is_blinking c)"

definition header_wire :: "pane_header option \<Rightarrow> u8 list" where
  "header_wire header =
     (case header of
        None \<Rightarrow> [0]
      | Some h \<Rightarrow>
          [window_flags (header_pane_window h)] @
          varint_bytes (ucast (cursor_row_index (header_cursor h))) @
          varint_bytes (ucast (cursor_column_index (header_cursor h))) @
          [cursor_flags_of (header_cursor h), cursor_shape_code (cursor_shape (header_cursor h))] @
          varint_bytes (header_view_top_row_index h) @ varint_bytes (header_retained_line_count h) @
          window_wire (header_pane_window h))"

lemma open_section_from_pane_update_wire:
  "open_section_from_pane_update u =
     \<lparr>open_pane_id = update_pane_id u, header_bytes = header_wire (Some (update_pane_header u)),
      instruction_bytes = [], instruction_count = 0\<rparr>"
  by (simp add: open_section_from_pane_update_def header_wire_def window_wire_def window_flags_def
      cursor_flags_of_def section_flag_defs cursor_code_defs Let_def write_varint_append [of _ "_ # _"]
      write_varint_append [of _ "_ @ _"] split: option.splits)

lemma shape_of_code [simp]: "cursor_shape_of_code (cursor_shape_code shape) = shape"
  by (simp add: cursor_shape_of_code_def cursor_shape_code_def cursor_code_defs split: option.splits pane_cursor_shape.splits)

lemma read_pane_window_wire [wire_reads]:
  "read_pane_window (window_flags win) (window_wire win @ rest) = Inr (win, rest)"
  by (simp add: read_pane_window_def window_wire_def window_flags_def section_flag_defs reader_defs wire_reads
      split: option.splits)

lemma read_pane_header_wire:
  "read_pane_header (window_flags (header_pane_window h)) (tl (header_wire (Some h)) @ rest) = Inr (h, rest)"
  by (simp add: read_pane_header_def header_wire_def reader_defs wire_reads cursor_flags_of_def cursor_code_defs)

lemma pane_id_of_uuid_bytes [simp]: "PaneId (from_be_bytes (uuid_bytes p)) = p" "length (uuid_bytes p) = 16"
  by (simp_all add: uuid_bytes_def)

definition section_wire :: "pane_section \<Rightarrow> u8 list" where
  "section_wire sec =
     uuid_bytes (section_pane_id sec) @ header_wire (section_pane_header sec) @
     varint_bytes (of_nat (length (section_row_instructions sec))) @
     concat (map instruction_wire (section_row_instructions sec))"

definition section_ok :: "pane_section \<Rightarrow> bool" where
  "section_ok sec \<longleftrightarrow>
     list_all row_instruction_ok (section_row_instructions sec) \<and> length (section_row_instructions sec) < 2 ^ 64"

lemma read_instructions_wire:
  "section_ok sec \<Longrightarrow>
     read_times (unat (of_nat (length (section_row_instructions sec)) :: u64)) read_row_instruction
       (concat (map instruction_wire (section_row_instructions sec)) @ rest) =
     Inr (section_row_instructions sec, rest)"
  by (simp add: section_ok_def unat_count read_times_concat read_instruction_wire list_all_iff)

lemma window_flags_bits:
  "window_flags win AND 1 = 1" "window_flags win AND - 8 = 0"
  by (simp_all add: window_flags_def split: option.splits)

lemma read_pane_section_wire [wire_reads]:
  assumes "section_ok sec"
  shows "read_pane_section (section_wire sec @ rest) = Inr (sec, rest)"
proof (cases "section_pane_header sec")
  case None
  with read_instructions_wire [OF assms, of rest] show ?thesis
    by (simp add: read_pane_section_def section_wire_def reader_defs wire_reads header_wire_def section_flag_defs)
next
  case (Some h)
  obtain wire where wire: "header_wire (Some h) = window_flags (header_pane_window h) # wire"
    by (simp add: header_wire_def)
  then have "read_pane_header (window_flags (header_pane_window h)) (wire @ bytes) = Inr (h, bytes)" for bytes
    using read_pane_header_wire [of h bytes] by simp
  with Some wire read_instructions_wire [OF assms, of rest] show ?thesis
    by (simp add: read_pane_section_def section_wire_def reader_defs wire_reads section_flag_defs window_flags_bits)
qed

section \<open>Parts\<close>

lemmas part_flag_defs = PART_OPENS_UPDATE_FLAG_def PART_ENDS_UPDATE_FLAG_def PART_CHANGES_PLACEMENT_PREVIEW_FLAG_def

text \<open>
  What the encoder is given and what the decoder reads for the opening: no JSON, or JSON that the
  decoder's \<open>from_slice\<close> reads, never empty.
\<close>

definition json_reads :: "(u8 list \<Rightarrow> string + 'a) \<Rightarrow> u8 list option \<Rightarrow> 'a option \<Rightarrow> bool" where
  "json_reads parse json x =
     (case (json, x) of
        (None, None) \<Rightarrow> True
      | (Some bytes, Some y) \<Rightarrow> bytes \<noteq> [] \<and> parse bytes = Inr y
      | _ \<Rightarrow> False)"

definition preview_reads ::
    "(u8 list \<Rightarrow> string + 'p) \<Rightarrow> u8 list placement_preview_update \<Rightarrow> 'p placement_preview_update \<Rightarrow> bool" where
  "preview_reads parse json x =
     (case (json, x) of
        (Preview_Unchanged, Preview_Unchanged) \<Rightarrow> True
      | (Preview_Cleared, Preview_Cleared) \<Rightarrow> True
      | (Preview_Replaced bytes, Preview_Replaced y) \<Rightarrow> bytes \<noteq> [] \<and> parse bytes = Inr y
      | _ \<Rightarrow> False)"

lemma read_update_opening_wire:
  assumes frame: "json_reads parse_frame json frame" and preview: "preview_reads parse_preview preview_json preview"
    and len: "length (update_opening_bytes n (case json of None \<Rightarrow> [] | Some b \<Rightarrow> b) (preview_json_bytes preview_json)) < 2 ^ 64"
  shows "read_update_opening parse_frame parse_preview (preview_json_bytes preview_json \<noteq> None)
      (update_opening_bytes n (case json of None \<Rightarrow> [] | Some b \<Rightarrow> b) (preview_json_bytes preview_json) @ rest) =
    Inr (\<lparr>opening_update_sequence = n, opening_painted_frame = frame, opening_placement_preview_update = preview\<rparr>, rest)"
  using assms
  by (cases json; cases frame; cases preview_json; cases preview)
    (auto simp: json_reads_def preview_reads_def read_update_opening_def update_opening_bytes_def
      preview_json_bytes_def Let_def reader_defs wire_reads unat_count parse_structure_json_def
      write_varint_append [of _ "_ # _"] write_varint_append [of _ "_ @ _"] write_varint_append [of _ "write_varint _ _"])

text \<open>The payload \<open>close_part\<close> finishes, for the sections added so far, decodes to the part they make up.\<close>

definition part_wire :: "u8 \<Rightarrow> u8 list \<Rightarrow> pane_section list \<Rightarrow> u8 list" where
  "part_wire flags opening secs =
     [PAINTED_UPDATE_FRAME_KIND, flags] @ opening @ varint_bytes (of_nat (length secs)) @
     concat (map section_wire secs)"

lemma read_sections_wire:
  "list_all section_ok secs \<Longrightarrow> length secs < 2 ^ 64 \<Longrightarrow>
     read_times (unat (of_nat (length secs) :: u64)) read_pane_section (concat (map section_wire secs) @ rest) = Inr (secs, rest)"
  by (simp add: unat_count read_times_concat read_pane_section_wire list_all_iff)

lemma decode_continuing_part:
  assumes "list_all section_ok secs" "length secs < 2 ^ 64"
  shows "decode_session_binary_frame parse_frame parse_preview (part_wire (if last_part then 2 else 0) [] secs) =
    Inr (PaintedUpdatePart \<lparr>update_opening = None, is_last_part = last_part, pane_sections = secs\<rparr>)"
  using read_sections_wire [OF assms, of "[]"]
  by (simp add: decode_session_binary_frame_def part_wire_def read_painted_update_part_def reader_defs wire_reads
      part_flag_defs PAINTED_UPDATE_FRAME_KIND_def IMAGE_CHUNK_FRAME_KIND_def)

lemma decode_opening_part:
  assumes "list_all section_ok secs" "length secs < 2 ^ 64"
    and "\<And>rest. read_update_opening parse_frame parse_preview changes_preview (opening @ rest) = Inr (op, rest)"
  shows "decode_session_binary_frame parse_frame parse_preview
      (part_wire ((if changes_preview then 5 else 1) OR (if last_part then 2 else 0)) opening secs) =
    Inr (PaintedUpdatePart \<lparr>update_opening = Some op, is_last_part = last_part, pane_sections = secs\<rparr>)"
  using read_sections_wire [OF assms(1,2), of "[]"] assms(3)
  by (cases changes_preview; cases last_part)
    (simp_all add: decode_session_binary_frame_def part_wire_def read_painted_update_part_def reader_defs wire_reads
      part_flag_defs PAINTED_UPDATE_FRAME_KIND_def IMAGE_CHUNK_FRAME_KIND_def)

section \<open>The panes a sequence of sections describes\<close>

text \<open>
  Sections in the order they arrive: one with a header opens the next pane, one without goes on with
  the row instructions of the pane open, which it must name.
\<close>

definition join_section :: "pane_update list \<Rightarrow> pane_section \<Rightarrow> pane_update list option" where
  "join_section us sec =
     (case section_pane_header sec of
        Some h \<Rightarrow>
          Some (us @ [\<lparr>update_pane_id = section_pane_id sec, update_pane_header = h,
                       update_row_instructions = section_row_instructions sec\<rparr>])
      | None \<Rightarrow>
          if us \<noteq> [] \<and> update_pane_id (last us) = section_pane_id sec
          then Some (butlast us @ [(last us)\<lparr>update_row_instructions :=
                 update_row_instructions (last us) @ section_row_instructions sec\<rparr>])
          else None)"

fun join_sections :: "pane_update list \<Rightarrow> pane_section list \<Rightarrow> pane_update list option" where
  "join_sections us [] = Some us"
| "join_sections us (sec # secs) =
     (case join_section us sec of None \<Rightarrow> None | Some us \<Rightarrow> join_sections us secs)"

lemma join_sections_append:
  "join_sections us (xs @ ys) = (case join_sections us xs of None \<Rightarrow> None | Some us \<Rightarrow> join_sections us ys)"
  by (induction us xs rule: join_sections.induct) (auto split: option.splits)

lemma join_sections_snoc:
  "join_sections us (xs @ [sec]) = (case join_sections us xs of None \<Rightarrow> None | Some us \<Rightarrow> join_section us sec)"
  by (auto simp: join_sections_append split: option.splits)

section \<open>The part writer's invariant\<close>

text \<open>
  \<open>parts\<close> are the sections of the finished parts and \<open>cur\<close> the sections of the part being filled; the
  first part carries the opening. \<open>writer_ok\<close> says the writer's bytes are exactly theirs and no part
  passes the maximum.
\<close>

definition part_ok :: "pane_section list \<Rightarrow> bool" where
  "part_ok secs \<longleftrightarrow> list_all section_ok secs \<and> length secs < 2 ^ 64"

definition payload_wires :: "u8 \<Rightarrow> u8 list \<Rightarrow> pane_section list list \<Rightarrow> u8 list list" where
  "payload_wires flags opening parts =
     (case parts of [] \<Rightarrow> [] | secs # parts \<Rightarrow> part_wire flags opening secs # map (part_wire 0 []) parts)"

definition writer_ok :: "nat \<Rightarrow> u8 \<Rightarrow> u8 list \<Rightarrow> part_writer \<Rightarrow> pane_section list list \<Rightarrow> pane_section list \<Rightarrow> bool" where
  "writer_ok max_part flags opening w parts cur \<longleftrightarrow>
     maximum_part_byte_count w = max_part \<and> opening_flags w = flags \<and>
     part_payloads w = payload_wires flags opening parts \<and>
     opening_bytes w = (if parts = [] then opening else []) \<and>
     section_bytes w = concat (map section_wire cur) \<and> section_count w = of_nat (length cur) \<and>
     list_all part_ok parts \<and> list_all section_ok cur \<and>
     can_take_section_bytes w 0 \<and> list_all (\<lambda>payload. length payload \<le> max_part) (part_payloads w)"

text \<open>An open section holds the bytes of \<open>sec\<close>.\<close>

definition holds_section :: "open_section \<Rightarrow> pane_section \<Rightarrow> bool" where
  "holds_section s sec \<longleftrightarrow>
     open_pane_id s = section_pane_id sec \<and> header_bytes s = header_wire (section_pane_header sec) \<and>
     instruction_bytes s = concat (map instruction_wire (section_row_instructions sec)) \<and>
     instruction_count s = of_nat (length (section_row_instructions sec)) \<and>
     list_all row_instruction_ok (section_row_instructions sec)"

lemma section_wire_nonempty [simp]: "section_wire sec \<noteq> []"
  by (simp add: section_wire_def)

lemmas take_defs = can_take_section_bytes_def compute_byte_count_bound_def SECTION_FRAME_BYTE_COUNT_def PART_FRAME_BYTE_COUNT_def

lemma holds_section_ok:
  assumes "holds_section s sec" "can_take_section_bytes w (compute_byte_count_bound s)" "maximum_part_byte_count w < 2 ^ 64"
  shows "section_ok sec" "length (section_wire sec) \<le> compute_byte_count_bound s"
proof -
  have "length (section_row_instructions sec) \<le> length (instruction_bytes s)"
    using assms(1) length_le_concat [of "section_row_instructions sec" instruction_wire] by (simp add: holds_section_def)
  with assms show "section_ok sec" by (simp add: section_ok_def holds_section_def take_defs)
  show "length (section_wire sec) \<le> compute_byte_count_bound s"
    using assms(1) length_varint_bytes by (simp add: section_wire_def holds_section_def take_defs)
qed

lemma writer_add_section:
  assumes w: "writer_ok m flags opening w parts cur" and s: "holds_section s sec"
    and fits: "can_take_section_bytes w (compute_byte_count_bound s)" and m: "m < 2 ^ 64"
  shows "writer_ok m flags opening (add_section s w) parts (cur @ [sec])"
proof -
  have "section_ok sec" "length (section_wire sec) \<le> compute_byte_count_bound s"
    using holds_section_ok [OF s fits] w m by (simp_all add: writer_ok_def)
  moreover have "section_bytes (add_section s w) = section_bytes w @ section_wire sec"
    using s by (simp add: add_section_def section_wire_def holds_section_def write_varint_append [of _ "_ @ _"])
  ultimately show ?thesis using w fits by (auto simp: writer_ok_def add_section_def can_take_section_bytes_def)
qed

lemma writer_sections_fewer: "writer_ok m flags opening w parts cur \<Longrightarrow> m < 2 ^ 64 \<Longrightarrow> part_ok cur"
  using length_le_concat [of cur section_wire] by (auto simp: writer_ok_def part_ok_def can_take_section_bytes_def)

lemma payload_wires_snoc:
  "payload_wires flags opening (parts @ [secs]) =
     payload_wires flags opening parts @ [part_wire (if parts = [] then flags else 0) (if parts = [] then opening else []) secs]"
  by (cases parts) (simp_all add: payload_wires_def)

lemma payload_wires_Nil [simp]: "payload_wires flags opening parts = [] \<longleftrightarrow> parts = []"
  by (cases parts) (simp_all add: payload_wires_def)

lemma close_part_payload:
  assumes "writer_ok m flags opening w parts cur"
  shows "part_payloads (close_part last_part w) = part_payloads w @
      [part_wire ((if parts = [] then flags else 0) OR (if last_part then 2 else 0)) (if parts = [] then opening else []) cur]"
    and "length (last (part_payloads (close_part last_part w))) \<le> m"
proof -
  show payload: "part_payloads (close_part last_part w) = part_payloads w @
      [part_wire ((if parts = [] then flags else 0) OR (if last_part then 2 else 0)) (if parts = [] then opening else []) cur]"
    using assms
    by (cases "parts = []")
      (auto simp: writer_ok_def close_part_def part_wire_def Let_def PART_ENDS_UPDATE_FLAG_def
        write_varint_append [of _ "_ # _"])
  show "length (last (part_payloads (close_part last_part w))) \<le> m"
    using assms length_varint_bytes [of "section_count w"] unfolding payload
    by (auto simp: writer_ok_def part_wire_def can_take_section_bytes_def PART_FRAME_BYTE_COUNT_def)
qed

lemma writer_close_part:
  assumes w: "writer_ok m flags opening w parts cur" and m: "m < 2 ^ 64"
  shows "writer_ok m flags opening (close_part False w) (parts @ [cur]) []"
proof -
  have "part_payloads (close_part False w) = payload_wires flags opening (parts @ [cur])"
    using w close_part_payload(1) [OF w, of False] by (simp add: payload_wires_snoc writer_ok_def)
  moreover have "list_all (\<lambda>payload. length payload \<le> m) (part_payloads (close_part False w))"
    using w close_part_payload [OF w, of False] by (auto simp: writer_ok_def)
  ultimately show ?thesis using w writer_sections_fewer [OF w m]
    by (simp add: writer_ok_def close_part_def can_take_section_bytes_def Let_def)
qed

text \<open>The panes written so far: with every section added, or with one still open.\<close>

definition written :: "nat \<Rightarrow> u8 \<Rightarrow> u8 list \<Rightarrow> part_writer \<Rightarrow> pane_update list \<Rightarrow> bool" where
  "written m flags opening w us \<longleftrightarrow>
     (\<exists>parts cur. writer_ok m flags opening w parts cur \<and> join_sections [] (concat parts @ cur) = Some us)"

definition writing :: "nat \<Rightarrow> u8 \<Rightarrow> u8 list \<Rightarrow> part_writer \<Rightarrow> open_section \<Rightarrow> pane_update list \<Rightarrow> bool" where
  "writing m flags opening w s us \<longleftrightarrow>
     (\<exists>parts cur sec. writer_ok m flags opening w parts cur \<and> holds_section s sec \<and>
        can_take_section_bytes w (compute_byte_count_bound s) \<and>
        join_sections [] (concat parts @ cur @ [sec]) = Some us)"

lemma written_close: "written m flags opening w us \<Longrightarrow> m < 2 ^ 64 \<Longrightarrow> written m flags opening (close_part False w) us"
  unfolding written_def using writer_close_part by fastforce

lemma writing_add: "writing m flags opening w s us \<Longrightarrow> m < 2 ^ 64 \<Longrightarrow> written m flags opening (add_section s w) us"
  unfolding written_def writing_def using writer_add_section by fastforce

lemma writing_pane:
  assumes "written m flags opening w us" "can_take_section_bytes w (compute_byte_count_bound (open_section_from_pane_update u))"
  shows "writing m flags opening w (open_section_from_pane_update u) (us @ [u\<lparr>update_row_instructions := []\<rparr>])"
proof -
  from assms(1) obtain parts cur where w: "writer_ok m flags opening w parts cur" "join_sections [] (concat parts @ cur) = Some us"
    by (auto simp: written_def)
  let ?sec = "\<lparr>section_pane_id = update_pane_id u, section_pane_header = Some (update_pane_header u), section_row_instructions = []\<rparr>"
  have "holds_section (open_section_from_pane_update u) ?sec"
    by (simp add: holds_section_def open_section_from_pane_update_wire)
  moreover have "join_sections [] (concat parts @ cur @ [?sec]) = Some (us @ [u\<lparr>update_row_instructions := []\<rparr>])"
    using w(2) by (simp only: append_assoc [symmetric] join_sections_snoc) (simp add: join_section_def)
  ultimately show ?thesis unfolding writing_def using w(1) assms(2) by blast
qed

lemma writing_continued:
  assumes "written m flags opening w (us @ [u])"
    and "can_take_section_bytes w (compute_byte_count_bound (open_section_from_continued_pane_id (update_pane_id u)))"
  shows "writing m flags opening w (open_section_from_continued_pane_id (update_pane_id u)) (us @ [u])"
proof -
  from assms(1) obtain parts cur where w: "writer_ok m flags opening w parts cur" "join_sections [] (concat parts @ cur) = Some (us @ [u])"
    by (auto simp: written_def)
  let ?sec = "\<lparr>section_pane_id = update_pane_id u, section_pane_header = None, section_row_instructions = []\<rparr>"
  have "holds_section (open_section_from_continued_pane_id (update_pane_id u)) ?sec"
    by (simp add: holds_section_def open_section_from_continued_pane_id_def header_wire_def)
  moreover have "join_sections [] (concat parts @ cur @ [?sec]) = Some (us @ [u])"
    using w(2) by (simp only: append_assoc [symmetric] join_sections_snoc) (simp add: join_section_def)
  ultimately show ?thesis unfolding writing_def using w(1) assms(2) by blast
qed

abbreviation push_instruction :: "row_instruction \<Rightarrow> open_section \<Rightarrow> open_section" where
  "push_instruction i s \<equiv>
     s\<lparr>instruction_bytes := instruction_bytes s @ instruction_wire i, instruction_count := instruction_count s + 1\<rparr>"

abbreviation add_instruction :: "row_instruction \<Rightarrow> pane_update \<Rightarrow> pane_update" where
  "add_instruction i u \<equiv> u\<lparr>update_row_instructions := update_row_instructions u @ [i]\<rparr>"

lemma join_section_snoc:
  "join_section us sec = Some (vs @ [u]) \<Longrightarrow>
     join_section us (sec\<lparr>section_row_instructions := section_row_instructions sec @ [i]\<rparr>) = Some (vs @ [add_instruction i u])"
  by (auto simp: join_section_def split: option.splits if_splits)

lemma writing_instruction:
  assumes "writing m flags opening w s (us @ [u])" "row_instruction_ok i"
    and "can_take_section_bytes w (compute_byte_count_bound s + length (instruction_wire i))"
  shows "writing m flags opening w (push_instruction i s) (us @ [add_instruction i u])"
proof -
  from assms(1) obtain parts cur sec where w: "writer_ok m flags opening w parts cur" and s: "holds_section s sec"
    and join: "join_sections [] (concat parts @ cur @ [sec]) = Some (us @ [u])" by (auto simp: writing_def)
  let ?sec = "sec\<lparr>section_row_instructions := section_row_instructions sec @ [i]\<rparr>"
  have "holds_section (push_instruction i s) ?sec" using s assms(2) by (simp add: holds_section_def)
  moreover have "join_sections [] (concat parts @ cur @ [?sec]) = Some (us @ [add_instruction i u])"
    using join unfolding append_assoc [symmetric] join_sections_snoc
    by (cases "join_sections [] (concat parts @ cur)") (simp_all add: join_section_snoc)
  moreover have "can_take_section_bytes w (compute_byte_count_bound (push_instruction i s))"
    using assms(3) by (simp add: take_defs)
  ultimately show ?thesis unfolding writing_def using w by blast
qed

section \<open>The two loops\<close>

lemma encode_row_instructions_writing:
  assumes m: "m < 2 ^ 64"
  shows "encode_row_instructions (update_pane_id u) is w s = Inr (w', s') \<Longrightarrow>
     writing m flags opening w s (us @ [u]) \<Longrightarrow> list_all row_instruction_ok is \<Longrightarrow>
     writing m flags opening w' s' (us @ [u\<lparr>update_row_instructions := update_row_instructions u @ is\<rparr>])"
proof (induction "is" arbitrary: w s u)
  case (Cons i "is")
  let ?bytes = "length (instruction_wire i)"
  show ?case
  proof (cases "can_take_section_bytes w (compute_byte_count_bound s + ?bytes)")
    case True
    have "writing m flags opening w (push_instruction i s) (us @ [add_instruction i u])"
      using Cons.prems True by (intro writing_instruction) simp_all
    moreover have "encode_row_instructions (update_pane_id (add_instruction i u)) is w (push_instruction i s) = Inr (w', s')"
      using Cons.prems(1) True by (simp add: Let_def)
    ultimately show ?thesis using Cons.IH [of "add_instruction i u"] Cons.prems(3) by simp
  next
    case False
    let ?w = "close_part False (add_section s w)"
    let ?s = "open_section_from_continued_pane_id (update_pane_id u)"
    have fits: "can_take_section_bytes ?w (compute_byte_count_bound ?s + ?bytes)"
      and rest: "encode_row_instructions (update_pane_id (add_instruction i u)) is ?w (push_instruction i ?s) = Inr (w', s')"
      using Cons.prems(1) False by (simp_all add: Let_def split: if_splits)
    have "written m flags opening ?w (us @ [u])"
      using Cons.prems(2) m by (intro written_close writing_add)
    then have "writing m flags opening ?w ?s (us @ [u])"
      using fits by (intro writing_continued) (simp_all add: can_take_section_bytes_def)
    then have "writing m flags opening ?w (push_instruction i ?s) (us @ [add_instruction i u])"
      using fits Cons.prems(3) by (intro writing_instruction) simp_all
    with Cons.IH [OF rest] Cons.prems(3) show ?thesis by simp
  qed
qed simp

text \<open>The section that opens a pane always fits a part that holds nothing else.\<close>

lemma length_header_wire: "length (header_wire (Some h)) \<le> 73"
proof -
  have v: "length (varint_bytes v) \<le> 10" for v using length_varint_bytes by (simp add: MAX_VARINT_BYTE_COUNT_def)
  have win: "length (window_wire win) \<le> 10 + (10 + 10)" for win
    using add_mono [OF v add_mono [OF v v]] by (auto simp: window_wire_def split: option.splits)
  show ?thesis using add_mono [OF v add_mono [OF v add_mono [OF v add_mono [OF v win]]]]
    by (simp add: header_wire_def)
qed

lemma fresh_part_takes_pane:
  "111 \<le> maximum_part_byte_count w \<Longrightarrow>
     can_take_section_bytes (close_part False w) (compute_byte_count_bound (open_section_from_pane_update u))"
  using length_header_wire [of "update_pane_header u"]
  by (simp add: close_part_def take_defs Let_def open_section_from_pane_update_wire MAX_VARINT_BYTE_COUNT_def)

definition pane_update_ok :: "pane_update \<Rightarrow> bool" where
  "pane_update_ok u \<longleftrightarrow> list_all row_instruction_ok (update_row_instructions u)"

lemma encode_pane_updates_written:
  assumes m: "m < 2 ^ 64" "111 \<le> m"
  shows "encode_pane_updates us w = Inr w' \<Longrightarrow> written m flags opening w vs \<Longrightarrow> list_all pane_update_ok us \<Longrightarrow>
     written m flags opening w' (vs @ us)"
proof (induction us arbitrary: w vs)
  case (Cons u us)
  let ?s = "open_section_from_pane_update u"
  let ?w = "if can_take_section_bytes w (compute_byte_count_bound ?s) then w else close_part False w"
  obtain w1 s1 where loop: "encode_row_instructions (update_pane_id u) (update_row_instructions u) ?w ?s = Inr (w1, s1)"
    and rest: "encode_pane_updates us (add_section s1 w1) = Inr w'"
    using Cons.prems(1) by (auto simp: Let_def split: sum.splits)
  have "maximum_part_byte_count w = m" using Cons.prems(2) by (auto simp: written_def writer_ok_def)
  then have "written m flags opening ?w vs" "can_take_section_bytes ?w (compute_byte_count_bound ?s)"
    using Cons.prems(2) m written_close fresh_part_takes_pane [of w u] by auto
  then have "writing m flags opening ?w ?s (vs @ [u\<lparr>update_row_instructions := []\<rparr>])" by (rule writing_pane)
  from encode_row_instructions_writing [OF m(1) _ this, of "update_row_instructions u" w1 s1] loop Cons.prems(3)
  have "writing m flags opening w1 s1 (vs @ [u])" by (simp add: pane_update_ok_def)
  then have "written m flags opening (add_section s1 w1) (vs @ [u])" using m by (intro writing_add)
  from Cons.IH [OF rest this] Cons.prems(3) show ?case by simp
qed simp

section \<open>A whole update\<close>

text \<open>The parts of an update, from the sections of each: the first opens the update, the last ends it.\<close>

definition parts_of ::
    "('f, 'p) painted_update_opening \<Rightarrow> pane_section list list \<Rightarrow> pane_section list \<Rightarrow> ('f, 'p) painted_update_part list" where
  "parts_of op secss last_secs =
     (case secss of
        [] \<Rightarrow> [\<lparr>update_opening = Some op, is_last_part = True, pane_sections = last_secs\<rparr>]
      | secs # secss \<Rightarrow>
          \<lparr>update_opening = Some op, is_last_part = False, pane_sections = secs\<rparr> #
          map (\<lambda>secs. \<lparr>update_opening = None, is_last_part = False, pane_sections = secs\<rparr>) secss @
          [\<lparr>update_opening = None, is_last_part = True, pane_sections = last_secs\<rparr>])"

lemma parts_of_shape:
  "parts_of op secss secs \<noteq> []"
  "map update_opening (parts_of op secss secs) = Some op # replicate (length secss) None"
  "map is_last_part (parts_of op secss secs) = replicate (length secss) False @ [True]"
  "concat (map pane_sections (parts_of op secss secs)) = concat secss @ secs"
  by (auto simp: parts_of_def comp_def map_replicate_const replicate_append_same split: list.splits)

lemma decode_finished_parts:
  assumes ok: "list_all part_ok secss" "part_ok secs"
    and read: "\<And>rest. read_update_opening parse_frame parse_preview changes_preview (opening @ rest) = Inr (op, rest)"
    and flags: "flags = (if changes_preview then 5 else 1)"
  shows "map (decode_session_binary_frame parse_frame parse_preview)
      (payload_wires flags opening secss @
        [part_wire ((if secss = [] then flags else 0) OR 2) (if secss = [] then opening else []) secs]) =
    map (Inr \<circ> PaintedUpdatePart) (parts_of op secss secs)"
proof -
  let ?d = "decode_session_binary_frame parse_frame parse_preview"
  have first: "?d (part_wire flags opening p) =
      Inr (PaintedUpdatePart \<lparr>update_opening = Some op, is_last_part = False, pane_sections = p\<rparr>)" if "part_ok p" for p
    using decode_opening_part [OF _ _ read, of p False] that by (simp add: part_ok_def flags)
  have only: "?d (part_wire (flags OR 2) opening p) =
      Inr (PaintedUpdatePart \<lparr>update_opening = Some op, is_last_part = True, pane_sections = p\<rparr>)" if "part_ok p" for p
    using decode_opening_part [OF _ _ read, of p True] that by (simp add: part_ok_def flags)
  have middle: "?d (part_wire 0 [] p) =
      Inr (PaintedUpdatePart \<lparr>update_opening = None, is_last_part = False, pane_sections = p\<rparr>)" if "part_ok p" for p
    using decode_continuing_part [of p parse_frame parse_preview False] that by (simp add: part_ok_def)
  have last: "?d (part_wire 2 [] p) =
      Inr (PaintedUpdatePart \<lparr>update_opening = None, is_last_part = True, pane_sections = p\<rparr>)" if "part_ok p" for p
    using decode_continuing_part [of p parse_frame parse_preview True] that by (simp add: part_ok_def)
  show ?thesis
    using ok by (cases secss) (auto simp: parts_of_def payload_wires_def first only middle last list_all_iff)
qed

lemma encode_in_parts_roundtrip:
  assumes m: "m < 2 ^ 64" "111 \<le> m"
    and encode: "encode_painted_update_in_parts n json preview us m = Inr payloads"
    and us: "list_all pane_update_ok us"
    and frame: "json_reads parse_frame json frame" and preview: "preview_reads parse_preview preview pv"
  defines "op \<equiv> \<lparr>opening_update_sequence = n, opening_painted_frame = frame, opening_placement_preview_update = pv\<rparr>"
  shows "\<exists>secss secs. map (decode_session_binary_frame parse_frame parse_preview) payloads =
      map (Inr \<circ> PaintedUpdatePart) (parts_of op secss secs) \<and>
    join_sections [] (concat secss @ secs) = Some us \<and> list_all (\<lambda>payload. length payload \<le> m) payloads"
proof -
  let ?json = "case json of None \<Rightarrow> [] | Some b \<Rightarrow> b" and ?preview = "preview_json_bytes preview"
  let ?opening = "update_opening_bytes n ?json ?preview"
  let ?flags = "if ?preview \<noteq> None then 5 else 1 :: u8"
  let ?w = "\<lparr>maximum_part_byte_count = m, part_payloads = [], opening_bytes = ?opening, opening_flags = ?flags,
              section_bytes = [], section_count = 0\<rparr>"
  have fits: "PART_FRAME_BYTE_COUNT + length ?opening \<le> m"
    using encode by (auto simp: encode_painted_update_in_parts_def Let_def not_less split: if_splits)
  have flags: "?flags = (if ?preview \<noteq> None then PART_OPENS_UPDATE_FLAG OR PART_CHANGES_PLACEMENT_PREVIEW_FLAG else PART_OPENS_UPDATE_FLAG)"
    by (simp add: part_flag_defs)
  obtain w where loop: "encode_pane_updates us ?w = Inr w" and payloads: "payloads = part_payloads (close_part True w)"
    using encode fits unfolding encode_painted_update_in_parts_def Let_def flags
    by (auto simp: not_less [symmetric] split: sum.splits if_splits)
  have "writer_ok m ?flags ?opening ?w [] []"
    using fits by (simp add: writer_ok_def payload_wires_def can_take_section_bytes_def)
  then have "written m ?flags ?opening ?w []" by (fastforce simp: written_def)
  from encode_pane_updates_written [OF m loop this us] obtain secss secs
    where w: "writer_ok m ?flags ?opening w secss secs" and join: "join_sections [] (concat secss @ secs) = Some us"
    by (auto simp: written_def)
  have read: "read_update_opening parse_frame parse_preview (?preview \<noteq> None) (?opening @ rest) = Inr (op, rest)" for rest
    unfolding op_def using frame preview fits m by (intro read_update_opening_wire) simp_all
  have wires: "payloads = payload_wires ?flags ?opening secss @
      [part_wire ((if secss = [] then ?flags else 0) OR 2) (if secss = [] then ?opening else []) secs]"
    using close_part_payload(1) [OF w, of True] w payloads by (simp add: writer_ok_def)
  have "list_all part_ok secss" using w by (simp add: writer_ok_def)
  then have "map (decode_session_binary_frame parse_frame parse_preview) payloads =
      map (Inr \<circ> PaintedUpdatePart) (parts_of op secss secs)"
    unfolding wires using writer_sections_fewer [OF w m(1)] by (rule decode_finished_parts [OF _ _ read refl])
  moreover have "list_all (\<lambda>payload. length payload \<le> m) payloads"
    using w close_part_payload [OF w, of True] payloads by (auto simp: writer_ok_def)
  ultimately show ?thesis using join by blast
qed

text \<open>Which row instruction fits no part, not even alone in a section that goes on with its pane.\<close>

definition instruction_too_large :: "nat \<Rightarrow> row_instruction \<Rightarrow> bool" where
  "instruction_too_large m i \<longleftrightarrow> m < PART_FRAME_BYTE_COUNT + SECTION_FRAME_BYTE_COUNT + 1 + length (instruction_wire i)"

lemma encode_row_instructions_result:
  "maximum_part_byte_count w = m \<Longrightarrow> header_bytes s \<noteq> [] \<Longrightarrow>
     (case find (instruction_too_large m) is of
        Some i \<Rightarrow> encode_row_instructions p is w s = Inl (RowTooLarge (length (instruction_wire i) - 1))
      | None \<Rightarrow> \<exists>w' s'. encode_row_instructions p is w s = Inr (w', s') \<and> maximum_part_byte_count w' = m)"
proof (induction "is" arbitrary: w s)
  case (Cons i "is")
  let ?bytes = "length (instruction_wire i)"
  let ?w = "close_part False (add_section s w)" and ?s = "open_section_from_continued_pane_id p"
  have fresh: "can_take_section_bytes ?w (compute_byte_count_bound ?s + ?bytes) \<longleftrightarrow> \<not> instruction_too_large m i"
    "maximum_part_byte_count ?w = m" "header_bytes ?s \<noteq> []"
    using Cons.prems by (auto simp: take_defs instruction_too_large_def close_part_def add_section_def
      open_section_from_continued_pane_id_def Let_def)
  have "0 < length (header_bytes s)" using Cons.prems by simp
  then have taken: "can_take_section_bytes w (compute_byte_count_bound s + ?bytes) \<Longrightarrow> \<not> instruction_too_large m i"
    using Cons.prems(1) unfolding instruction_too_large_def take_defs by linarith
  show ?case
  proof (cases "instruction_too_large m i")
    case True
    with fresh taken show ?thesis by (auto simp: Let_def)
  next
    case False
    then have "\<exists>w1 s1. encode_row_instructions p (i # is) w s = encode_row_instructions p is w1 s1 \<and>
        maximum_part_byte_count w1 = m \<and> header_bytes s1 \<noteq> []"
      using fresh Cons.prems by (cases "can_take_section_bytes w (compute_byte_count_bound s + ?bytes)") (fastforce simp: Let_def)+
    then obtain w1 s1 where step: "encode_row_instructions p (i # is) w s = encode_row_instructions p is w1 s1"
      "maximum_part_byte_count w1 = m" "header_bytes s1 \<noteq> []" by blast
    from Cons.IH [OF step(2,3)] False show ?thesis unfolding step(1) by simp
  qed
qed simp

lemma find_append: "find P (xs @ ys) = (case find P xs of None \<Rightarrow> find P ys | Some x \<Rightarrow> Some x)"
  by (induction xs) auto

lemma encode_pane_updates_result:
  "maximum_part_byte_count w = m \<Longrightarrow>
     (case find (instruction_too_large m) (concat (map update_row_instructions us)) of
        Some i \<Rightarrow> encode_pane_updates us w = Inl (RowTooLarge (length (instruction_wire i) - 1))
      | None \<Rightarrow> \<exists>w'. encode_pane_updates us w = Inr w')"
proof (induction us arbitrary: w)
  case (Cons u us)
  let ?s = "open_section_from_pane_update u"
  let ?w = "if can_take_section_bytes w (compute_byte_count_bound ?s) then w else close_part False w"
  have w: "maximum_part_byte_count ?w = m" using Cons.prems by (simp add: close_part_def Let_def)
  have s: "header_bytes ?s \<noteq> []" by (simp add: open_section_from_pane_update_wire header_wire_def)
  note loop = encode_row_instructions_result [OF w s, of "update_pane_id u" "update_row_instructions u"]
  show ?case
  proof (cases "find (instruction_too_large m) (update_row_instructions u)")
    case None
    with loop obtain w1 s1 where "encode_row_instructions (update_pane_id u) (update_row_instructions u) ?w ?s = Inr (w1, s1)"
      "maximum_part_byte_count w1 = m" by auto
    moreover from this have "maximum_part_byte_count (add_section s1 w1) = m" by (simp add: add_section_def)
    ultimately have step: "encode_pane_updates (u # us) w = encode_pane_updates us (add_section s1 w1)"
      "maximum_part_byte_count (add_section s1 w1) = m" by (simp_all add: Let_def)
    from Cons.IH [OF step(2)] None show ?thesis unfolding step(1) by (simp add: find_append)
  next
    case (Some i)
    with loop show ?thesis by (simp add: find_append Let_def)
  qed
qed simp

lemma encode_in_parts_result:
  "encode_painted_update_in_parts n json preview us m =
     (let structure_json = (case json of None \<Rightarrow> [] | Some b \<Rightarrow> b);
          preview_json = (case preview_json_bytes preview of None \<Rightarrow> [] | Some b \<Rightarrow> b)
      in if m < PART_FRAME_BYTE_COUNT + length (update_opening_bytes n structure_json (preview_json_bytes preview))
         then Inl (StructureTooLarge (length structure_json) (length preview_json))
         else case find (instruction_too_large m) (concat (map update_row_instructions us)) of
                Some i \<Rightarrow> Inl (RowTooLarge (length (instruction_wire i) - 1))
              | None \<Rightarrow> Inr (projr (encode_painted_update_in_parts n json preview us m)))"
proof (cases "m < PART_FRAME_BYTE_COUNT + length (update_opening_bytes n (case json of None \<Rightarrow> [] | Some b \<Rightarrow> b) (preview_json_bytes preview))")
  case True
  then show ?thesis
    by (cases "preview_json_bytes preview") (simp_all add: encode_painted_update_in_parts_def Let_def)
next
  case False
  let ?w = "\<lparr>maximum_part_byte_count = m, part_payloads = [],
      opening_bytes = update_opening_bytes n (case json of None \<Rightarrow> [] | Some b \<Rightarrow> b) (preview_json_bytes preview),
      opening_flags = (if preview_json_bytes preview \<noteq> None then PART_OPENS_UPDATE_FLAG OR PART_CHANGES_PLACEMENT_PREVIEW_FLAG
        else PART_OPENS_UPDATE_FLAG), section_bytes = [], section_count = 0\<rparr>"
  have "encode_painted_update_in_parts n json preview us m =
      (case encode_pane_updates us ?w of Inl e \<Rightarrow> Inl e | Inr w \<Rightarrow> Inr (part_payloads (close_part True w)))"
    using False by (simp only: encode_painted_update_in_parts_def Let_def if_False)
  with encode_pane_updates_result [of ?w m us] False show ?thesis
    by (auto simp: Let_def split: option.splits)
qed

section \<open>The properties\<close>

text \<open>
  C7. Whatever a painted update is split into, reading the payloads back gives the update: every payload
  decodes as one part, only the first part carries the opening, with the sequence number, the frame and
  the placement preview that were given, only the last ends the update, and the sections of all the parts,
  joined in order, are exactly the pane updates that were given. No payload passes the frame limit.
\<close>

theorem painted_update_roundtrip:
  assumes "encode_painted_update n json preview us = Inr payloads" "list_all pane_update_ok us"
    and "json_reads parse_frame json frame" "preview_reads parse_preview preview pv"
  shows "\<exists>parts. map (decode_session_binary_frame parse_frame parse_preview) payloads = map (Inr \<circ> PaintedUpdatePart) parts \<and>
    map update_opening parts =
      Some \<lparr>opening_update_sequence = n, opening_painted_frame = frame, opening_placement_preview_update = pv\<rparr> #
        replicate (length parts - 1) None \<and>
    map is_last_part parts = replicate (length parts - 1) False @ [True] \<and>
    join_sections [] (concat (map pane_sections parts)) = Some us \<and>
    list_all (\<lambda>payload. length payload \<le> MAX_FRAME_BYTE_COUNT) payloads"
proof -
  let ?op = "\<lparr>opening_update_sequence = n, opening_painted_frame = frame, opening_placement_preview_update = pv\<rparr>"
  have "MAX_FRAME_BYTE_COUNT < 2 ^ 64" "111 \<le> MAX_FRAME_BYTE_COUNT" by (simp_all add: MAX_FRAME_BYTE_COUNT_def)
  from encode_in_parts_roundtrip [OF this assms(1) [unfolded encode_painted_update_def] assms(2-4)] obtain secss secs
    where "map (decode_session_binary_frame parse_frame parse_preview) payloads =
        map (Inr \<circ> PaintedUpdatePart) (parts_of ?op secss secs)"
      "join_sections [] (concat secss @ secs) = Some us" "list_all (\<lambda>payload. length payload \<le> MAX_FRAME_BYTE_COUNT) payloads"
    by blast
  moreover have "length (parts_of ?op secss secs) = Suc (length secss)"
    using arg_cong [OF parts_of_shape(2) [of ?op secss secs], of length] by simp
  ultimately show ?thesis
    by (intro exI [of _ "parts_of ?op secss secs"]) (simp add: parts_of_shape)
qed

text \<open>One keystroke in a three-row pane the client already holds, with the structure unchanged.\<close>

definition keystroke_update :: pane_update where
  "keystroke_update =
     \<lparr>update_pane_id = PaneId 7,
      update_pane_header =
        \<lparr>header_cursor = \<lparr>cursor_row_index = 1, cursor_column_index = 1, cursor_is_visible = True,
           cursor_is_blinking = False, cursor_shape = Some Shape_Bar\<rparr>,
         header_view_top_row_index = 0, header_retained_line_count = 0,
         header_pane_window = Some \<lparr>window_column_count = 2, window_row_count = 3, window_view_row_offset = 0,
           window_is_reset = False\<rparr>\<rparr>,
      update_row_instructions = [Keep 1, New [2, 0x61, 0x62], Keep 1]\<rparr>"

lemma keystroke_update_ok: "pane_update_ok keystroke_update"
  by (simp add: keystroke_update_def pane_update_ok_def row_instruction_ok_def read_varint_def)

lemma keystroke_encodes: "\<exists>payloads. encode_painted_update 1 None Preview_Unchanged [keystroke_update] = Inr payloads"
proof -
  have "length (varint_bytes v) \<le> 10" for v using length_varint_bytes [of v] by (simp add: MAX_VARINT_BYTE_COUNT_def)
  from this [of 1] this [of 0] show ?thesis
    unfolding encode_painted_update_def
    by (subst encode_in_parts_result)
      (simp add: keystroke_update_def instruction_too_large_def encode_row_instruction_def preview_json_bytes_def
        update_opening_bytes_def write_varint_append [of _ "_ # _"] write_varint_append [of _ "write_varint _ _"]
        MAX_FRAME_BYTE_COUNT_def take_defs MAX_VARINT_BYTE_COUNT_def)
qed

theorem painted_update_roundtrip_witness:
  "\<exists>payloads parts. encode_painted_update 1 None Preview_Unchanged [keystroke_update] = Inr payloads \<and>
     map (decode_session_binary_frame (\<lambda>bytes. Inr ()) (\<lambda>bytes. Inr ())) payloads = map (Inr \<circ> PaintedUpdatePart) parts \<and>
     join_sections [] (concat (map pane_sections parts)) = Some [keystroke_update]"
proof -
  from keystroke_encodes obtain payloads
    where encode: "encode_painted_update 1 None Preview_Unchanged [keystroke_update] = Inr payloads" by blast
  have "list_all pane_update_ok [keystroke_update]"
    "json_reads (\<lambda>bytes. Inr ()) None None" "preview_reads (\<lambda>bytes. Inr ()) Preview_Unchanged Preview_Unchanged"
    by (simp_all add: keystroke_update_ok json_reads_def preview_reads_def)
  from painted_update_roundtrip [OF encode this] encode show ?thesis by blast
qed

text \<open>
  C25. The encoder refuses exactly what cannot fit a frame. It reports \<open>StructureTooLarge\<close> with the two JSON
  byte counts when the opening does not fit the first part; otherwise \<open>RowTooLarge\<close> with the byte count
  of the first row, over all panes in order, that fits no part even alone; otherwise it succeeds.
\<close>

theorem encode_painted_update_errors:
  "encode_painted_update n json preview us = Inl e \<longleftrightarrow>
     (let structure_json = (case json of None \<Rightarrow> [] | Some b \<Rightarrow> b);
          preview_json = (case preview_json_bytes preview of None \<Rightarrow> [] | Some b \<Rightarrow> b)
      in if MAX_FRAME_BYTE_COUNT < PART_FRAME_BYTE_COUNT + length (update_opening_bytes n structure_json (preview_json_bytes preview))
         then e = StructureTooLarge (length structure_json) (length preview_json)
         else case find (instruction_too_large MAX_FRAME_BYTE_COUNT) (concat (map update_row_instructions us)) of
                Some i \<Rightarrow> e = RowTooLarge (length (instruction_wire i) - 1)
              | None \<Rightarrow> False)"
  unfolding encode_painted_update_def by (subst encode_in_parts_result) (auto simp: Let_def split: option.splits)

end
