(* ===== verification/Style.thy ===== *)
theory Style
  imports Koshi_Prelude
begin

unbundle bit_operations_syntax

text \<open>
  Cell styles (\<open>koshi-terminal/src/style.rs\<close>): colors, and the text attributes packed in one 16-bit
  word, eight boolean attributes in bits 0 to 7 and a three-bit underline code in bits 8 to 10. The
  well-formedness of the word, only defined bits and an underline code that names a style, is kept by
  every setter and established by reading a word.
\<close>

datatype color = Color_Default | Color_Indexed u8 | Color_Rgb u8 u8 u8

datatype underline_style =
  Underline_None | Underline_Single | Underline_Double | Underline_Curly | Underline_Dotted | Underline_Dashed

datatype attribute_flags = AttributeFlags (get_attribute_word: u16)

record style =
  foreground_color :: color
  background_color :: color
  attributes :: attribute_flags
  underline_color :: "color option"

definition style_default :: style where
  "style_default =
     \<lparr>foreground_color = Color_Default, background_color = Color_Default, attributes = AttributeFlags 0,
      underline_color = None\<rparr>"

definition BOLD :: u16 where "BOLD = 1"
definition ITALIC :: u16 where "ITALIC = 2"
definition REVERSE :: u16 where "REVERSE = 4"
definition FAINT :: u16 where "FAINT = 8"
definition BLINK :: u16 where "BLINK = 16"
definition CONCEAL :: u16 where "CONCEAL = 32"
definition STRIKETHROUGH :: u16 where "STRIKETHROUGH = 64"
definition OVERLINE :: u16 where "OVERLINE = 128"
definition UNDERLINE_SHIFT :: nat where "UNDERLINE_SHIFT = 8"
definition UNDERLINE_MASK :: u16 where "UNDERLINE_MASK = push_bit UNDERLINE_SHIFT 7"
definition DEFINED_MASK :: u16 where "DEFINED_MASK = 0x07FF"

definition get_underline_code :: "underline_style \<Rightarrow> u16" where
  "get_underline_code s =
     (case s of Underline_None \<Rightarrow> 0 | Underline_Single \<Rightarrow> 1 | Underline_Double \<Rightarrow> 2 | Underline_Curly \<Rightarrow> 3
      | Underline_Dotted \<Rightarrow> 4 | Underline_Dashed \<Rightarrow> 5)"

definition from_underline_code :: "u16 \<Rightarrow> underline_style" where
  "from_underline_code code =
     (if code = 1 then Underline_Single else if code = 2 then Underline_Double
      else if code = 3 then Underline_Curly else if code = 4 then Underline_Dotted
      else if code = 5 then Underline_Dashed else Underline_None)"

definition from_attribute_word :: "u16 \<Rightarrow> attribute_flags" where
  "from_attribute_word word =
     (let word = word AND DEFINED_MASK;
          underline_code = drop_bit UNDERLINE_SHIFT (word AND UNDERLINE_MASK)
      in if from_underline_code underline_code = Underline_None
         then AttributeFlags (word AND NOT UNDERLINE_MASK)
         else AttributeFlags word)"

definition has_attribute_bit :: "attribute_flags \<Rightarrow> u16 \<Rightarrow> bool" where
  "has_attribute_bit flags flag_bit \<longleftrightarrow> get_attribute_word flags AND flag_bit \<noteq> 0"

definition set_attribute_bit :: "u16 \<Rightarrow> bool \<Rightarrow> attribute_flags \<Rightarrow> attribute_flags" where
  "set_attribute_bit flag_bit is_enabled flags =
     AttributeFlags (if is_enabled then get_attribute_word flags OR flag_bit
                     else get_attribute_word flags AND NOT flag_bit)"

definition set_attribute_underline :: "underline_style \<Rightarrow> attribute_flags \<Rightarrow> attribute_flags" where
  "set_attribute_underline s flags =
     AttributeFlags ((get_attribute_word flags AND NOT UNDERLINE_MASK)
                     OR push_bit UNDERLINE_SHIFT (get_underline_code s))"

definition get_underline_style :: "attribute_flags \<Rightarrow> underline_style" where
  "get_underline_style flags =
     from_underline_code (drop_bit UNDERLINE_SHIFT (get_attribute_word flags AND UNDERLINE_MASK))"

definition is_bold :: "attribute_flags \<Rightarrow> bool" where "is_bold flags = has_attribute_bit flags BOLD"
definition is_italic :: "attribute_flags \<Rightarrow> bool" where "is_italic flags = has_attribute_bit flags ITALIC"
definition is_reverse :: "attribute_flags \<Rightarrow> bool" where "is_reverse flags = has_attribute_bit flags REVERSE"
definition is_faint :: "attribute_flags \<Rightarrow> bool" where "is_faint flags = has_attribute_bit flags FAINT"
definition is_blinking :: "attribute_flags \<Rightarrow> bool" where "is_blinking flags = has_attribute_bit flags BLINK"
definition is_concealed :: "attribute_flags \<Rightarrow> bool" where "is_concealed flags = has_attribute_bit flags CONCEAL"
definition is_strikethrough :: "attribute_flags \<Rightarrow> bool" where
  "is_strikethrough flags = has_attribute_bit flags STRIKETHROUGH"
definition is_overlined :: "attribute_flags \<Rightarrow> bool" where "is_overlined flags = has_attribute_bit flags OVERLINE"

definition set_bold :: "bool \<Rightarrow> style \<Rightarrow> style" where
  "set_bold b s = s\<lparr>attributes := set_attribute_bit BOLD b (attributes s)\<rparr>"
definition set_italic :: "bool \<Rightarrow> style \<Rightarrow> style" where
  "set_italic b s = s\<lparr>attributes := set_attribute_bit ITALIC b (attributes s)\<rparr>"
definition set_underline :: "underline_style \<Rightarrow> style \<Rightarrow> style" where
  "set_underline u s = s\<lparr>attributes := set_attribute_underline u (attributes s)\<rparr>"
definition set_reverse :: "bool \<Rightarrow> style \<Rightarrow> style" where
  "set_reverse b s = s\<lparr>attributes := set_attribute_bit REVERSE b (attributes s)\<rparr>"
definition set_faint :: "bool \<Rightarrow> style \<Rightarrow> style" where
  "set_faint b s = s\<lparr>attributes := set_attribute_bit FAINT b (attributes s)\<rparr>"
definition set_blinking :: "bool \<Rightarrow> style \<Rightarrow> style" where
  "set_blinking b s = s\<lparr>attributes := set_attribute_bit BLINK b (attributes s)\<rparr>"
definition set_concealed :: "bool \<Rightarrow> style \<Rightarrow> style" where
  "set_concealed b s = s\<lparr>attributes := set_attribute_bit CONCEAL b (attributes s)\<rparr>"
definition set_strikethrough :: "bool \<Rightarrow> style \<Rightarrow> style" where
  "set_strikethrough b s = s\<lparr>attributes := set_attribute_bit STRIKETHROUGH b (attributes s)\<rparr>"
definition set_overlined :: "bool \<Rightarrow> style \<Rightarrow> style" where
  "set_overlined b s = s\<lparr>attributes := set_attribute_bit OVERLINE b (attributes s)\<rparr>"
definition set_background_color :: "color \<Rightarrow> style \<Rightarrow> style" where
  "set_background_color c s = s\<lparr>background_color := c\<rparr>"
definition set_foreground_color :: "color \<Rightarrow> style \<Rightarrow> style" where
  "set_foreground_color c s = s\<lparr>foreground_color := c\<rparr>"
definition set_underline_color :: "color option \<Rightarrow> style \<Rightarrow> style" where
  "set_underline_color c s = s\<lparr>underline_color := c\<rparr>"
definition clear_style :: "style \<Rightarrow> style" where
  "clear_style s = style_default"
definition get_background_fill_style :: "style \<Rightarrow> style" where
  "get_background_fill_style s = style_default\<lparr>background_color := background_color s\<rparr>"

section \<open>Well-formed attribute words\<close>

definition flags_ok :: "attribute_flags \<Rightarrow> bool" where
  "flags_ok flags \<longleftrightarrow>
     get_attribute_word flags AND NOT DEFINED_MASK = 0 \<and>
     drop_bit UNDERLINE_SHIFT (get_attribute_word flags AND UNDERLINE_MASK) \<le> 5"

definition style_ok :: "style \<Rightarrow> bool" where
  "style_ok s \<longleftrightarrow> flags_ok (attributes s)"

lemmas boolean_flags = BOLD_def ITALIC_def REVERSE_def FAINT_def BLINK_def CONCEAL_def STRIKETHROUGH_def OVERLINE_def

lemma code_of_style [simp]: "from_underline_code (get_underline_code s) = s"
  by (cases s) (simp_all add: from_underline_code_def get_underline_code_def)

lemma flag_masks:
  "UNDERLINE_MASK = 0x0700" "NOT UNDERLINE_MASK = 0xF8FF" "NOT DEFINED_MASK = 0xF800"
  by (simp_all add: UNDERLINE_MASK_def UNDERLINE_SHIFT_def DEFINED_MASK_def push_bit_eq_mult not_eq_complement)

lemma and_not_0: "w AND NOT m = 0 \<longleftrightarrow> w AND m = w" for w m :: u16
proof
  assume "w AND NOT m = 0"
  then have "\<not> bit (w AND NOT m) n" for n by simp
  then show "w AND m = w" by (intro bit_eqI) (auto simp: bit_simps)
next
  assume "w AND m = w"
  then have "w AND NOT m = (w AND m) AND NOT m" by simp
  then show "w AND NOT m = 0" by (simp add: and.assoc)
qed

lemma and_0_not: "w AND m = 0 \<longleftrightarrow> w AND NOT m = w" for w m :: u16
  using and_not_0 [of w "NOT m"] by simp

lemma drop_underline_0: "drop_bit UNDERLINE_SHIFT (w AND UNDERLINE_MASK) = 0 \<longleftrightarrow> w AND UNDERLINE_MASK = 0"
proof
  assume "drop_bit UNDERLINE_SHIFT (w AND UNDERLINE_MASK) = 0"
  then have "\<not> bit (drop_bit UNDERLINE_SHIFT (w AND UNDERLINE_MASK)) n" for n by (simp only: bit_0_eq bot_apply) simp
  then have "\<not> bit (w AND UNDERLINE_MASK) (UNDERLINE_SHIFT + n)" for n by (simp only: bit_drop_bit_eq comp_def not_False_eq_True)
  then have "\<not> bit (w AND UNDERLINE_MASK) n" for n
    by (cases "UNDERLINE_SHIFT \<le> n") (force simp: le_iff_add, simp add: UNDERLINE_MASK_def bit_simps)
  then show "w AND UNDERLINE_MASK = 0" by (intro bit_eqI) simp
qed simp

lemma code_cases: "c \<le> 5 \<Longrightarrow> c = 0 \<or> c = 1 \<or> c = 2 \<or> c = 3 \<or> c = 4 \<or> c = 5" for c :: u16
proof -
  assume "c \<le> 5"
  then have "unat c = 0 \<or> unat c = 1 \<or> unat c = 2 \<or> unat c = 3 \<or> unat c = 4 \<or> unat c = 5"
    unfolding word_le_nat_alt by simp linarith
  then show ?thesis
    using unat_eq_iff [of c 0] unat_eq_iff [of c 1] unat_eq_iff [of c 2] unat_eq_iff [of c 3] unat_eq_iff [of c 4]
      unat_eq_iff [of c 5] by auto
qed

lemma style_of_code: "c \<le> 5 \<Longrightarrow> get_underline_code (from_underline_code c) = c"
  using code_cases [of c] by (auto simp: from_underline_code_def get_underline_code_def)

lemma code_of_no_style: "from_underline_code c = Underline_None \<Longrightarrow> c \<le> 5 \<Longrightarrow> c = 0"
  using style_of_code [of c] by (simp add: get_underline_code_def)

lemma from_attribute_word_same: "flags_ok flags \<Longrightarrow> from_attribute_word (get_attribute_word flags) = flags"
proof -
  assume ok: "flags_ok flags"
  let ?w = "get_attribute_word flags" and ?code = "drop_bit UNDERLINE_SHIFT (get_attribute_word flags AND UNDERLINE_MASK)"
  have word: "?w AND DEFINED_MASK = ?w" using ok by (simp add: flags_ok_def and_not_0)
  have "?w AND NOT UNDERLINE_MASK = ?w" if "from_underline_code ?code = Underline_None"
  proof -
    have "?code = 0" by (rule code_of_no_style [OF that]) (use ok in \<open>simp only: flags_ok_def\<close>)
    then show ?thesis by (simp only: drop_underline_0 and_0_not)
  qed
  with word show ?thesis by (simp add: from_attribute_word_def Let_def)
qed

lemma code_le_5: "get_underline_code s \<le> 5"
  by (cases s) (simp_all add: get_underline_code_def)

lemma set_attribute_bit_ok:
  assumes "flags_ok flags" "f AND DEFINED_MASK = f" "f AND UNDERLINE_MASK = 0"
  shows "flags_ok (set_attribute_bit f b flags)"
proof -
  let ?w = "get_attribute_word flags" and ?v = "get_attribute_word (set_attribute_bit f b flags)"
  have "?w AND DEFINED_MASK = ?w" using assms(1) by (simp add: flags_ok_def and_not_0)
  then have "?v AND DEFINED_MASK = ?v"
    using assms(2) by (cases b) (simp_all add: set_attribute_bit_def bit.conj_disj_distrib2, metis and.assoc and.commute)
  moreover have "?v AND UNDERLINE_MASK = ?w AND UNDERLINE_MASK"
  proof -
    have "UNDERLINE_MASK AND NOT f = UNDERLINE_MASK" using assms(3) and_0_not [of UNDERLINE_MASK f] by (simp add: and.commute)
    with assms(3) show ?thesis
      by (simp add: set_attribute_bit_def bit.conj_disj_distrib2) (metis and.assoc and.commute)
  qed
  ultimately show ?thesis using assms(1) by (simp only: flags_ok_def and_not_0)
qed

lemma boolean_flag_masks:
  "f \<in> {BOLD, ITALIC, REVERSE, FAINT, BLINK, CONCEAL, STRIKETHROUGH, OVERLINE} \<Longrightarrow>
     f AND DEFINED_MASK = f \<and> f AND UNDERLINE_MASK = 0"
  by (auto simp: boolean_flags DEFINED_MASK_def flag_masks)

lemma set_attribute_underline_word:
  "get_attribute_word (set_attribute_underline s flags) AND UNDERLINE_MASK = push_bit UNDERLINE_SHIFT (get_underline_code s)"
  by (cases s) (simp_all add: set_attribute_underline_def bit.conj_disj_distrib2 and.assoc get_underline_code_def
    UNDERLINE_MASK_def UNDERLINE_SHIFT_def push_bit_eq_mult)

lemma drop_push_code: "drop_bit UNDERLINE_SHIFT (push_bit UNDERLINE_SHIFT (get_underline_code s)) = get_underline_code s"
  by (cases s) (simp_all add: get_underline_code_def UNDERLINE_SHIFT_def push_bit_eq_mult drop_bit_eq_div)

lemma set_attribute_underline_ok:
  assumes "flags_ok flags"
  shows "flags_ok (set_attribute_underline s flags)"
proof -
  have "get_attribute_word flags AND DEFINED_MASK = get_attribute_word flags"
    using assms by (simp add: flags_ok_def and_not_0)
  moreover have "push_bit UNDERLINE_SHIFT (get_underline_code s) AND DEFINED_MASK = push_bit UNDERLINE_SHIFT (get_underline_code s)"
    by (cases s) (simp_all add: get_underline_code_def UNDERLINE_SHIFT_def DEFINED_MASK_def push_bit_eq_mult)
  ultimately have "get_attribute_word (set_attribute_underline s flags) AND DEFINED_MASK = get_attribute_word (set_attribute_underline s flags)"
    unfolding set_attribute_underline_def attribute_flags.sel bit.conj_disj_distrib2 by (metis and.assoc and.commute)
  then show ?thesis
    unfolding flags_ok_def and_not_0 set_attribute_underline_word drop_push_code by (simp add: code_le_5)
qed

lemma style_code_le_5: "from_underline_code c \<noteq> Underline_None \<Longrightarrow> c \<le> 5"
  by (auto simp: from_underline_code_def split: if_splits)

lemma from_attribute_word_ok: "flags_ok (from_attribute_word w)"
proof (cases "from_underline_code (drop_bit UNDERLINE_SHIFT ((w AND DEFINED_MASK) AND UNDERLINE_MASK)) = Underline_None")
  case True
  then have "from_attribute_word w = AttributeFlags ((w AND DEFINED_MASK) AND NOT UNDERLINE_MASK)"
    by (simp only: from_attribute_word_def Let_def simp_thms if_True)
  moreover have "((w AND DEFINED_MASK) AND NOT UNDERLINE_MASK) AND UNDERLINE_MASK = 0" by (simp add: and.assoc)
  moreover have "((w AND DEFINED_MASK) AND NOT UNDERLINE_MASK) AND NOT DEFINED_MASK = 0"
    by (metis (no_types, lifting) and.assoc and.commute bit.conj_cancel_right bit.conj_zero_right)
  ultimately show ?thesis by (simp add: flags_ok_def)
next
  case False
  then have "from_attribute_word w = AttributeFlags (w AND DEFINED_MASK)"
    by (simp only: from_attribute_word_def Let_def if_False)
  moreover have "(w AND DEFINED_MASK) AND NOT DEFINED_MASK = 0" by (simp add: and.assoc)
  ultimately show ?thesis using style_code_le_5 [OF False] by (simp only: flags_ok_def attribute_flags.sel simp_thms)
qed

text \<open>A pen: the default style, and every style the setters make of it.\<close>

inductive pen :: "style \<Rightarrow> bool" where
  pen_default: "pen style_default"
| pen_bold: "pen s \<Longrightarrow> pen (set_bold b s)"
| pen_italic: "pen s \<Longrightarrow> pen (set_italic b s)"
| pen_underline: "pen s \<Longrightarrow> pen (set_underline u s)"
| pen_reverse: "pen s \<Longrightarrow> pen (set_reverse b s)"
| pen_faint: "pen s \<Longrightarrow> pen (set_faint b s)"
| pen_blinking: "pen s \<Longrightarrow> pen (set_blinking b s)"
| pen_concealed: "pen s \<Longrightarrow> pen (set_concealed b s)"
| pen_strikethrough: "pen s \<Longrightarrow> pen (set_strikethrough b s)"
| pen_overlined: "pen s \<Longrightarrow> pen (set_overlined b s)"
| pen_background: "pen s \<Longrightarrow> pen (set_background_color c s)"
| pen_foreground: "pen s \<Longrightarrow> pen (set_foreground_color c s)"
| pen_underline_color: "pen s \<Longrightarrow> pen (set_underline_color uc s)"
| pen_clear: "pen s \<Longrightarrow> pen (clear_style s)"
| pen_fill: "pen s \<Longrightarrow> pen (get_background_fill_style s)"

lemma style_default_ok: "style_ok style_default"
  by (simp add: style_ok_def style_default_def flags_ok_def)

lemma pen_ok: "pen s \<Longrightarrow> style_ok s"
  by (induction rule: pen.induct)
    (simp_all add: style_ok_def set_bold_def set_italic_def set_underline_def set_reverse_def set_faint_def
      set_blinking_def set_concealed_def set_strikethrough_def set_overlined_def set_background_color_def
      set_foreground_color_def set_underline_color_def clear_style_def get_background_fill_style_def
      style_default_ok [unfolded style_ok_def] set_attribute_bit_ok set_attribute_underline_ok boolean_flag_masks)

text \<open>
  C28. A style the setters can produce is well formed: its attribute word sets none of the five spare
  bits and its underline code names an underline style, so reading the word back gives the same flags.
\<close>

theorem pen_styles_typed:
  assumes "pen s"
  shows "get_attribute_word (attributes s) AND NOT DEFINED_MASK = 0 \<and>
    get_underline_code (get_underline_style (attributes s)) =
      drop_bit UNDERLINE_SHIFT (get_attribute_word (attributes s) AND UNDERLINE_MASK) \<and>
    from_attribute_word (get_attribute_word (attributes s)) = attributes s"
proof -
  have ok: "flags_ok (attributes s)" using pen_ok [OF assms] by (simp add: style_ok_def)
  then have "get_underline_code (get_underline_style (attributes s)) =
      drop_bit UNDERLINE_SHIFT (get_attribute_word (attributes s) AND UNDERLINE_MASK)"
    unfolding flags_ok_def get_underline_style_def by (intro style_of_code) (rule conjunct2)
  with ok show ?thesis by (simp add: flags_ok_def from_attribute_word_same)
qed

theorem pen_styles_typed_witness:
  "from_attribute_word (get_attribute_word (attributes (set_underline Underline_Curly (set_bold True style_default)))) =
     attributes (set_underline Underline_Curly (set_bold True style_default))"
  using pen_styles_typed [OF pen_underline [OF pen_bold [OF pen_default]]] by blast

end
