(* ===== verification/Cell.thy ===== *)
theory Cell
  imports Style Varint Text
begin

text \<open>
  The cells of a terminal grid and what is recorded of a row besides them
  (\<open>koshi-terminal/src/grid/state.rs\<close>, \<open>Cell\<close> to \<open>count_row_content_cells\<close>). A character is its
  Unicode scalar value. The sizes in memory the code computes for its budget are left out.
\<close>

definition MAX_GRAPHEME_CONTINUATION_COUNT :: nat where
  "MAX_GRAPHEME_CONTINUATION_COUNT = 32"

section \<open>Image data of a cell\<close>

record image_cell_fragment =
  image_source_id :: u64
  fragment_row_index :: u16
  fragment_column_index :: u16

datatype image_fragments =
    Fragments_Empty
  | Fragments_One image_cell_fragment
  | Fragments_Many "image_cell_fragment list"

definition fragments_is_empty :: "image_fragments \<Rightarrow> bool" where
  "fragments_is_empty fs \<longleftrightarrow> fs = Fragments_Empty"

definition get_fragment_slice :: "image_fragments \<Rightarrow> image_cell_fragment list" where
  "get_fragment_slice fs =
     (case fs of Fragments_Empty \<Rightarrow> [] | Fragments_One f \<Rightarrow> [f] | Fragments_Many list \<Rightarrow> list)"

text \<open>\<open>Some\<close> the fragments with the one of the same source replaced, \<open>None\<close> when there is none.\<close>

definition replace_fragment_by_image_source_id ::
    "image_cell_fragment \<Rightarrow> image_fragments \<Rightarrow> image_fragments option" where
  "replace_fragment_by_image_source_id f fs =
     (case fs of
        Fragments_Empty \<Rightarrow> None
      | Fragments_One existing \<Rightarrow>
          if image_source_id existing = image_source_id f then Some (Fragments_One f) else None
      | Fragments_Many list \<Rightarrow>
          (case position (\<lambda>existing. image_source_id existing = image_source_id f) list of
             None \<Rightarrow> None
           | Some i \<Rightarrow> Some (Fragments_Many (list[i := f]))))"

definition append_image_fragment :: "image_cell_fragment \<Rightarrow> image_fragments \<Rightarrow> image_fragments" where
  "append_image_fragment f fs =
     (case fs of
        Fragments_Empty \<Rightarrow> Fragments_One f
      | Fragments_One existing \<Rightarrow> Fragments_Many [existing, f]
      | Fragments_Many list \<Rightarrow> Fragments_Many (list @ [f]))"

record image_placeholder =
  image_id :: u32
  placement_id :: "u32 option"
  source_row :: "u16 option"
  source_column :: "u16 option"
  image_id_msb :: "u8 option"

definition get_color_value :: "color \<Rightarrow> u32 option" where
  "get_color_value c =
     (case c of
        Color_Default \<Rightarrow> None
      | Color_Indexed i \<Rightarrow> Some (ucast i)
      | Color_Rgb red green blue \<Rightarrow> Some (push_bit 16 (ucast red) OR push_bit 8 (ucast green) OR ucast blue))"

definition from_placeholder_style :: "style \<Rightarrow> image_placeholder" where
  "from_placeholder_style s =
     \<lparr>image_id = (case get_color_value (foreground_color s) of None \<Rightarrow> 0 | Some v \<Rightarrow> v),
      placement_id =
        (case Option.bind (underline_color s) get_color_value of
           None \<Rightarrow> None
         | Some v \<Rightarrow> if v \<noteq> 0 then Some v else None),
      source_row = None, source_column = None, image_id_msb = None\<rparr>"

record cell_extra =
  extra_combining :: "nat list"
  extra_image_placeholder :: "image_placeholder option"
  extra_image_fragments :: image_fragments

definition cell_extra_default :: cell_extra where
  "cell_extra_default =
     \<lparr>extra_combining = [], extra_image_placeholder = None, extra_image_fragments = Fragments_Empty\<rparr>"

definition has_image_data :: "cell_extra \<Rightarrow> bool" where
  "has_image_data e \<longleftrightarrow> extra_image_placeholder e \<noteq> None \<or> \<not> fragments_is_empty (extra_image_fragments e)"

section \<open>Cells\<close>

record cell =
  character :: nat
  combining :: "cell_extra option"
  display_width :: u8
  cell_style :: style

definition build_blank_with_style :: "style \<Rightarrow> cell" where
  "build_blank_with_style s = \<lparr>character = 0x20, combining = None, display_width = 1, cell_style = s\<rparr>"

definition build_blank :: cell where
  "build_blank = build_blank_with_style style_default"

definition from_character :: "nat \<Rightarrow> u8 \<Rightarrow> style \<Rightarrow> cell" where
  "from_character c width s = \<lparr>character = c, combining = None, display_width = width, cell_style = s\<rparr>"

definition list_combining_characters :: "cell \<Rightarrow> nat list" where
  "list_combining_characters c = (case combining c of Some e \<Rightarrow> extra_combining e | None \<Rightarrow> [])"

definition get_image_cell_extra :: "cell \<Rightarrow> cell_extra option" where
  "get_image_cell_extra c =
     (case combining c of None \<Rightarrow> None | Some e \<Rightarrow> if has_image_data e then Some e else None)"

definition set_cell_extra :: "cell_extra \<Rightarrow> cell \<Rightarrow> cell" where
  "set_cell_extra e c = c\<lparr>combining := Some e\<rparr>"

definition get_image_fragments :: "cell \<Rightarrow> image_cell_fragment list" where
  "get_image_fragments c =
     (case combining c of None \<Rightarrow> [] | Some e \<Rightarrow> get_fragment_slice (extra_image_fragments e))"

definition extra_or_default :: "cell \<Rightarrow> cell_extra" where
  "extra_or_default c = (case combining c of None \<Rightarrow> cell_extra_default | Some e \<Rightarrow> e)"

definition set_image_fragment :: "image_cell_fragment \<Rightarrow> bool \<Rightarrow> cell \<Rightarrow> cell" where
  "set_image_fragment f should_overlay c =
     (let replaced =
            (if should_overlay
             then Option.bind (combining c) (\<lambda>e.
                    map_option (\<lambda>fs. e\<lparr>extra_image_fragments := fs\<rparr>)
                      (replace_fragment_by_image_source_id f (extra_image_fragments e)))
             else None);
          base = (if should_overlay then c else build_blank_with_style (cell_style c))
      in case replaced of
           Some e \<Rightarrow> c\<lparr>combining := Some e\<rparr>
         | None \<Rightarrow>
             let e = extra_or_default base
             in base\<lparr>combining := Some (e\<lparr>extra_image_fragments := append_image_fragment f (extra_image_fragments e)\<rparr>)\<rparr>)"

definition clear_image_fragments :: "cell \<Rightarrow> cell" where
  "clear_image_fragments c =
     (case combining c of
        None \<Rightarrow> c
      | Some e \<Rightarrow>
          if extra_combining e = [] \<and> extra_image_placeholder e = None then c\<lparr>combining := None\<rparr>
          else c\<lparr>combining := Some (e\<lparr>extra_image_fragments := Fragments_Empty\<rparr>)\<rparr>)"

definition get_image_placeholder :: "cell \<Rightarrow> image_placeholder option" where
  "get_image_placeholder c = Option.bind (combining c) extra_image_placeholder"

definition has_image_placeholder :: "cell \<Rightarrow> bool" where
  "has_image_placeholder c \<longleftrightarrow> get_image_placeholder c \<noteq> None"

definition set_image_placeholder :: "image_placeholder \<Rightarrow> cell \<Rightarrow> cell" where
  "set_image_placeholder p c =
     c\<lparr>character := 0x20, combining := Some ((extra_or_default c)\<lparr>extra_image_placeholder := Some p\<rparr>)\<rparr>"

definition IMAGE_PLACEHOLDER_DIACRITICS :: "nat list" where
  "IMAGE_PLACEHOLDER_DIACRITICS =
     [0x0305, 0x030D, 0x030E, 0x0310, 0x0312, 0x033D, 0x033E, 0x033F, 0x0346, 0x034A, 0x034B, 0x034C,
      0x0350, 0x0351, 0x0352, 0x0357, 0x035B, 0x0363, 0x0364, 0x0365, 0x0366, 0x0367, 0x0368, 0x0369,
      0x036A, 0x036B, 0x036C, 0x036D, 0x036E, 0x036F, 0x0483, 0x0484, 0x0485, 0x0486, 0x0487, 0x0592,
      0x0593, 0x0594, 0x0595, 0x0597, 0x0598, 0x0599, 0x059C, 0x059D, 0x059E, 0x059F, 0x05A0, 0x05A1,
      0x05A8, 0x05A9, 0x05AB, 0x05AC, 0x05AF, 0x05C4, 0x0610, 0x0611, 0x0612, 0x0613, 0x0614, 0x0615,
      0x0616, 0x0617, 0x0657, 0x0658, 0x0659, 0x065A, 0x065B, 0x065D, 0x065E, 0x06D6, 0x06D7, 0x06D8,
      0x06D9, 0x06DA, 0x06DB, 0x06DC, 0x06DF, 0x06E0, 0x06E1, 0x06E2, 0x06E4, 0x06E7, 0x06E8, 0x06EB,
      0x06EC, 0x0730, 0x0732, 0x0733, 0x0735, 0x0736, 0x073A, 0x073D, 0x073F, 0x0740, 0x0741, 0x0743,
      0x0745, 0x0747, 0x0749, 0x074A, 0x07EB, 0x07EC, 0x07ED, 0x07EE, 0x07EF, 0x07F0, 0x07F1, 0x07F3,
      0x0816, 0x0817, 0x0818, 0x0819, 0x081B, 0x081C, 0x081D, 0x081E, 0x081F, 0x0820, 0x0821, 0x0822,
      0x0823, 0x0825, 0x0826, 0x0827, 0x0829, 0x082A, 0x082B, 0x082C, 0x082D, 0x0951, 0x0953, 0x0954,
      0x0F82, 0x0F83, 0x0F86, 0x0F87, 0x135D, 0x135E, 0x135F, 0x17DD, 0x193A, 0x1A17, 0x1A75, 0x1A76,
      0x1A77, 0x1A78, 0x1A79, 0x1A7A, 0x1A7B, 0x1A7C, 0x1B6B, 0x1B6D, 0x1B6E, 0x1B6F, 0x1B70, 0x1B71,
      0x1B72, 0x1B73, 0x1CD0, 0x1CD1, 0x1CD2, 0x1CDA, 0x1CDB, 0x1CE0, 0x1DC0, 0x1DC1, 0x1DC3, 0x1DC4,
      0x1DC5, 0x1DC6, 0x1DC7, 0x1DC8, 0x1DC9, 0x1DCB, 0x1DCC, 0x1DD1, 0x1DD2, 0x1DD3, 0x1DD4, 0x1DD5,
      0x1DD6, 0x1DD7, 0x1DD8, 0x1DD9, 0x1DDA, 0x1DDB, 0x1DDC, 0x1DDD, 0x1DDE, 0x1DDF, 0x1DE0, 0x1DE1,
      0x1DE2, 0x1DE3, 0x1DE4, 0x1DE5, 0x1DE6, 0x1DFE, 0x20D0, 0x20D1, 0x20D4, 0x20D5, 0x20D6, 0x20D7,
      0x20DB, 0x20DC, 0x20E1, 0x20E7, 0x20E9, 0x20F0, 0x2CEF, 0x2CF0, 0x2CF1, 0x2DE0, 0x2DE1, 0x2DE2,
      0x2DE3, 0x2DE4, 0x2DE5, 0x2DE6, 0x2DE7, 0x2DE8, 0x2DE9, 0x2DEA, 0x2DEB, 0x2DEC, 0x2DED, 0x2DEE,
      0x2DEF, 0x2DF0, 0x2DF1, 0x2DF2, 0x2DF3, 0x2DF4, 0x2DF5, 0x2DF6, 0x2DF7, 0x2DF8, 0x2DF9, 0x2DFA,
      0x2DFB, 0x2DFC, 0x2DFD, 0x2DFE, 0x2DFF, 0xA66F, 0xA67C, 0xA67D, 0xA6F0, 0xA6F1, 0xA8E0, 0xA8E1,
      0xA8E2, 0xA8E3, 0xA8E4, 0xA8E5]"

definition find_image_placeholder_diacritic_index :: "nat \<Rightarrow> u16 option" where
  "find_image_placeholder_diacritic_index mark =
     map_option of_nat (position (\<lambda>c. c = mark) IMAGE_PLACEHOLDER_DIACRITICS)"

text \<open>Every index of the table is below 256, so the narrowing to \<open>u8\<close> never fails.\<close>

definition add_placeholder_diacritic :: "u16 \<Rightarrow> image_placeholder \<Rightarrow> image_placeholder" where
  "add_placeholder_diacritic i p =
     (if source_row p = None then p\<lparr>source_row := Some i\<rparr>
      else if source_column p = None then p\<lparr>source_column := Some i\<rparr>
      else if image_id_msb p = None then p\<lparr>image_id_msb := (if i \<le> 255 then Some (ucast i) else None)\<rparr>
      else p)"

definition set_image_placeholder_diacritic :: "nat \<Rightarrow> cell \<Rightarrow> cell \<times> bool" where
  "set_image_placeholder_diacritic mark c =
     (case combining c of
        None \<Rightarrow> (c, False)
      | Some e \<Rightarrow>
          (case extra_image_placeholder e of
             None \<Rightarrow> (c, False)
           | Some p \<Rightarrow>
               (case find_image_placeholder_diacritic_index mark of
                  None \<Rightarrow> (c, False)
                | Some i \<Rightarrow>
                    (c\<lparr>combining := Some (e\<lparr>extra_image_placeholder := Some (add_placeholder_diacritic i p)\<rparr>)\<rparr>, True))))"

definition push_combining :: "nat \<Rightarrow> cell \<Rightarrow> cell" where
  "push_combining mark c =
     (let e = extra_or_default c in c\<lparr>combining := Some (e\<lparr>extra_combining := extra_combining e @ [mark]\<rparr>)\<rparr>)"

section \<open>Rows\<close>

datatype row_end = Row_Hard | Row_Soft | Row_SoftWide

record row_metadata =
  metadata_row_end :: row_end
  metadata_has_prompt_mark :: bool

definition row_metadata_default :: row_metadata where
  "row_metadata_default = \<lparr>metadata_row_end = Row_Hard, metadata_has_prompt_mark = False\<rparr>"

text \<open>\<open>Iterator::rposition\<close>: the index of the last element a predicate accepts.\<close>

definition rposition :: "('a \<Rightarrow> bool) \<Rightarrow> 'a list \<Rightarrow> nat option" where
  "rposition p xs = map_option (\<lambda>i. length xs - 1 - i) (position p (rev xs))"

definition count_row_content_cells :: "cell list \<Rightarrow> nat" where
  "count_row_content_cells row_cells =
     (case rposition (\<lambda>c. c \<noteq> build_blank) row_cells of None \<Rightarrow> 0 | Some i \<Rightarrow> i + 1)"

text \<open>The row is its content followed by default blanks, and its content does not end in one.\<close>

lemma position_takeWhile:
  "position p xs = (let k = length (takeWhile (\<lambda>x. \<not> p x) xs) in if k < length xs then Some k else None)"
  by (induction xs) (auto simp: Let_def)

lemma count_row_content_cells_takeWhile:
  "count_row_content_cells row = length row - length (takeWhile (\<lambda>c. c = build_blank) (rev row))"
  using length_takeWhile_le [of "\<lambda>c. c = build_blank" "rev row"]
  by (auto simp: count_row_content_cells_def rposition_def position_takeWhile Let_def)

lemma count_row_content_cells_le: "count_row_content_cells row \<le> length row"
  by (simp add: count_row_content_cells_takeWhile)

lemma drop_row_content:
  "drop (count_row_content_cells row) row = replicate (length row - count_row_content_cells row) build_blank"
proof -
  let ?k = "length (takeWhile (\<lambda>c. c = build_blank) (rev row))"
  have "drop (length row - ?k) row = rev (take ?k (rev row))" by (simp add: take_rev)
  also have "take ?k (rev row) = takeWhile (\<lambda>c. c = build_blank) (rev row)" by (simp add: takeWhile_eq_take [symmetric])
  also have "\<dots> = replicate ?k build_blank" by (rule replicate_eqI) (auto dest: set_takeWhileD)
  finally have "drop (length row - ?k) row = replicate ?k build_blank" by simp
  moreover have "length row - (length row - ?k) = ?k" using length_takeWhile_le [of _ "rev row"] by simp
  ultimately show ?thesis by (simp add: count_row_content_cells_takeWhile)
qed

lemma last_row_content: "0 < count_row_content_cells row \<Longrightarrow> row ! (count_row_content_cells row - 1) \<noteq> build_blank"
proof -
  let ?k = "length (takeWhile (\<lambda>c. c = build_blank) (rev row))"
  assume "0 < count_row_content_cells row"
  then have "?k < length (rev row)" by (simp add: count_row_content_cells_takeWhile)
  then have "rev row ! ?k \<noteq> build_blank" by (rule nth_length_takeWhile)
  with \<open>?k < length (rev row)\<close> show ?thesis
    by (simp add: count_row_content_cells_takeWhile rev_nth)
qed

end
