(* ===== verification/Utf8.thy ===== *)
theory Utf8
  imports Text
begin

text \<open>
  UTF-8 as the standard library of Rust reads and writes it (\<open>char::encode_utf8\<close>, \<open>str::from_utf8\<close>,
  \<open>str::chars\<close>): the bytes of one scalar value, the scalar value a byte string starts with, and the
  values of a whole valid byte string. Overlong forms, surrogates and values past 0x10FFFF are invalid.
\<close>

definition is_scalar_value :: "nat \<Rightarrow> bool" where
  "is_scalar_value c \<longleftrightarrow> c < 0xD800 \<or> 0xE000 \<le> c \<and> c < 0x110000"

definition encode_utf8 :: "nat \<Rightarrow> u8 list" where
  "encode_utf8 c =
     map of_nat
       (if c < 0x80 then [c]
        else if c < 0x800 then [0xC0 + c div 64, 0x80 + c mod 64]
        else if c < 0x10000 then [0xE0 + c div 4096, 0x80 + c div 64 mod 64, 0x80 + c mod 64]
        else [0xF0 + c div 262144, 0x80 + c div 4096 mod 64, 0x80 + c div 64 mod 64, 0x80 + c mod 64])"

text \<open>The payload of a continuation byte.\<close>

definition continuation_bits :: "u8 \<Rightarrow> nat option" where
  "continuation_bits b = (if 0x80 \<le> unat b \<and> unat b < 0xC0 then Some (unat b - 0x80) else None)"

fun continuation_value :: "nat \<Rightarrow> nat \<Rightarrow> u8 list \<Rightarrow> (nat \<times> u8 list) option" where
  "continuation_value 0 acc bytes = Some (acc, bytes)"
| "continuation_value (Suc n) acc [] = None"
| "continuation_value (Suc n) acc (b # bytes) =
     (case continuation_bits b of None \<Rightarrow> None | Some v \<Rightarrow> continuation_value n (acc * 64 + v) bytes)"

definition at_least_scalar :: "nat \<Rightarrow> (nat \<times> u8 list) option \<Rightarrow> (nat \<times> u8 list) option" where
  "at_least_scalar m r =
     (case r of None \<Rightarrow> None | Some (c, rest) \<Rightarrow> if m \<le> c \<and> is_scalar_value c then Some (c, rest) else None)"

definition next_char :: "u8 list \<Rightarrow> (nat \<times> u8 list) option" where
  "next_char bytes =
     (case bytes of
        [] \<Rightarrow> None
      | b # rest \<Rightarrow>
          let v = unat b in
          if v < 0x80 then Some (v, rest)
          else if v < 0xC0 then None
          else if v < 0xE0 then at_least_scalar 0x80 (continuation_value 1 (v - 0xC0) rest)
          else if v < 0xF0 then at_least_scalar 0x800 (continuation_value 2 (v - 0xE0) rest)
          else if v < 0xF8 then at_least_scalar 0x10000 (continuation_value 3 (v - 0xF0) rest)
          else None)"

lemma continuation_value_length: "continuation_value n acc bytes = Some (c, rest) \<Longrightarrow> length bytes = n + length rest"
  by (induction n acc bytes rule: continuation_value.induct) (auto split: option.splits)

lemma next_char_shorter: "next_char bytes = Some (c, rest) \<Longrightarrow> length rest < length bytes"
  by (auto simp: next_char_def at_least_scalar_def Let_def dest: continuation_value_length
      split: list.splits if_splits option.splits)

function from_utf8 :: "u8 list \<Rightarrow> nat list option" where
  "from_utf8 bytes =
     (if bytes = [] then Some []
      else case next_char bytes of
             None \<Rightarrow> None
           | Some (c, rest) \<Rightarrow> map_option (Cons c) (from_utf8 rest))"
  by auto

termination from_utf8
  by (relation "measure length") (auto dest: next_char_shorter)

declare from_utf8.simps [simp del]

lemma unat_of_nat_byte: "n < 256 \<Longrightarrow> unat (of_nat n :: u8) = n"
  by (simp add: unat_of_nat)

lemma continuation_bits_byte: "n < 64 \<Longrightarrow> continuation_bits (of_nat (0x80 + n)) = Some n"
  by (simp only: continuation_bits_def unat_of_nat_byte) simp

lemma continuation_values:
  "continuation_value 2 acc (b1 # b2 # bytes) =
     (case (continuation_bits b1, continuation_bits b2) of (Some v1, Some v2) \<Rightarrow> Some ((acc * 64 + v1) * 64 + v2, bytes) | _ \<Rightarrow> None)"
  "continuation_value 3 acc (b1 # b2 # b3 # bytes) =
     (case (continuation_bits b1, continuation_bits b2, continuation_bits b3) of
        (Some v1, Some v2, Some v3) \<Rightarrow> Some (((acc * 64 + v1) * 64 + v2) * 64 + v3, bytes) | _ \<Rightarrow> None)"
  by (simp_all only: numeral_2_eq_2 numeral_3_eq_3 continuation_value.simps) (simp_all split: option.splits)

lemma next_char_2:
  "unat b0 = 0xC0 + a \<Longrightarrow> a < 0x20 \<Longrightarrow> continuation_bits b1 = Some v1 \<Longrightarrow>
     next_char (b0 # b1 # rest) = at_least_scalar 0x80 (Some (a * 64 + v1, rest))"
  by (simp add: next_char_def Let_def)

lemma next_char_3:
  "unat b0 = 0xE0 + a \<Longrightarrow> a < 0x10 \<Longrightarrow> continuation_bits b1 = Some v1 \<Longrightarrow> continuation_bits b2 = Some v2 \<Longrightarrow>
     next_char (b0 # b1 # b2 # rest) = at_least_scalar 0x800 (Some ((a * 64 + v1) * 64 + v2, rest))"
  by (simp add: next_char_def Let_def continuation_values)

lemma next_char_4:
  "unat b0 = 0xF0 + a \<Longrightarrow> a < 8 \<Longrightarrow> continuation_bits b1 = Some v1 \<Longrightarrow> continuation_bits b2 = Some v2 \<Longrightarrow>
     continuation_bits b3 = Some v3 \<Longrightarrow>
     next_char (b0 # b1 # b2 # b3 # rest) = at_least_scalar 0x10000 (Some (((a * 64 + v1) * 64 + v2) * 64 + v3, rest))"
  by (simp add: next_char_def Let_def continuation_values)

lemma div_groups:
  "c div 4096 * 64 + c div 64 mod 64 = c div 64" "c div 262144 * 64 + c div 4096 mod 64 = c div 4096" for c :: nat
proof -
  have "c div 4096 = c div 64 div 64" "c div 262144 = c div 4096 div 64" by (simp_all add: div_mult2_eq [symmetric])
  then show "c div 4096 * 64 + c div 64 mod 64 = c div 64" "c div 262144 * 64 + c div 4096 mod 64 = c div 4096"
    by (simp_all only: div_mult_mod_eq)
qed

lemma encode_utf8_cases:
  "c < 0x80 \<Longrightarrow> encode_utf8 c = [of_nat c]"
  "0x80 \<le> c \<Longrightarrow> c < 0x800 \<Longrightarrow> encode_utf8 c = [of_nat (0xC0 + c div 64), of_nat (0x80 + c mod 64)]"
  "0x800 \<le> c \<Longrightarrow> c < 0x10000 \<Longrightarrow>
     encode_utf8 c = [of_nat (0xE0 + c div 4096), of_nat (0x80 + c div 64 mod 64), of_nat (0x80 + c mod 64)]"
  "0x10000 \<le> c \<Longrightarrow>
     encode_utf8 c = [of_nat (0xF0 + c div 262144), of_nat (0x80 + c div 4096 mod 64), of_nat (0x80 + c div 64 mod 64),
       of_nat (0x80 + c mod 64)]"
  unfolding encode_utf8_def by (simp_all only: list.map not_less [symmetric] if_True if_False simp_thms) auto

lemma next_char_encode_2:
  assumes "0x80 \<le> c" "c < 0x800" "is_scalar_value c"
  shows "next_char (of_nat (0xC0 + c div 64) # of_nat (0x80 + c mod 64) # rest) = Some (c, rest)"
proof -
  have "c div 64 < 0x20" by (rule less_mult_imp_div_less) (use assms in simp)
  then have "next_char (of_nat (0xC0 + c div 64) # of_nat (0x80 + c mod 64) # rest) =
        at_least_scalar 0x80 (Some (c div 64 * 64 + c mod 64, rest))"
    by (intro next_char_2 unat_of_nat_byte continuation_bits_byte) simp_all
  then show ?thesis using assms by (simp only: at_least_scalar_def div_mult_mod_eq option.case prod.case simp_thms if_True)
qed

lemma next_char_encode_3:
  assumes "0x800 \<le> c" "c < 0x10000" "is_scalar_value c"
  shows "next_char (of_nat (0xE0 + c div 4096) # of_nat (0x80 + c div 64 mod 64) # of_nat (0x80 + c mod 64) # rest) = Some (c, rest)"
proof -
  have "c div 4096 < 0x10" by (rule less_mult_imp_div_less) (use assms in simp)
  then have "next_char (of_nat (0xE0 + c div 4096) # of_nat (0x80 + c div 64 mod 64) # of_nat (0x80 + c mod 64) # rest) =
      at_least_scalar 0x800 (Some ((c div 4096 * 64 + c div 64 mod 64) * 64 + c mod 64, rest))"
    by (intro next_char_3 unat_of_nat_byte continuation_bits_byte) simp_all
  then show ?thesis using assms
    by (simp only: at_least_scalar_def div_groups div_mult_mod_eq option.case prod.case simp_thms if_True)
qed

lemma next_char_encode_4:
  assumes "0x10000 \<le> c" "is_scalar_value c"
  shows "next_char (of_nat (0xF0 + c div 262144) # of_nat (0x80 + c div 4096 mod 64) #
    of_nat (0x80 + c div 64 mod 64) # of_nat (0x80 + c mod 64) # rest) = Some (c, rest)"
proof -
  have "c < 0x110000" using assms by (auto simp: is_scalar_value_def)
  then have "c div 262144 < 8" by (intro less_mult_imp_div_less) simp
  then have "next_char (of_nat (0xF0 + c div 262144) # of_nat (0x80 + c div 4096 mod 64) #
      of_nat (0x80 + c div 64 mod 64) # of_nat (0x80 + c mod 64) # rest) =
      at_least_scalar 0x10000 (Some (((c div 262144 * 64 + c div 4096 mod 64) * 64 + c div 64 mod 64) * 64 + c mod 64, rest))"
    by (intro next_char_4 unat_of_nat_byte continuation_bits_byte) simp_all
  then show ?thesis using assms
    by (simp only: at_least_scalar_def div_groups div_mult_mod_eq option.case prod.case simp_thms if_True)
qed

lemma next_char_encode: "is_scalar_value c \<Longrightarrow> next_char (encode_utf8 c @ rest) = Some (c, rest)"
proof -
  assume c: "is_scalar_value c"
  consider "c < 0x80" | "0x80 \<le> c" "c < 0x800" | "0x800 \<le> c" "c < 0x10000" | "0x10000 \<le> c" by linarith
  then show ?thesis
  proof cases
    case 1
    then show ?thesis by (simp add: encode_utf8_cases next_char_def unat_of_nat_byte)
  next
    case 2
    with c show ?thesis by (simp only: encode_utf8_cases append.simps next_char_encode_2)
  next
    case 3
    with c show ?thesis by (simp only: encode_utf8_cases append.simps next_char_encode_3)
  next
    case 4
    with c show ?thesis by (simp only: encode_utf8_cases append.simps next_char_encode_4)
  qed
qed

lemma encode_utf8_nonempty [simp]: "encode_utf8 c \<noteq> []"
  by (simp add: encode_utf8_def)

lemma length_encode_utf8 [simp]: "length (encode_utf8 c) = len_utf8 c"
  by (simp add: encode_utf8_def len_utf8_def)

text \<open>Reading back the bytes of a text.\<close>

theorem from_utf8_encode: "list_all is_scalar_value cs \<Longrightarrow> from_utf8 (concat (map encode_utf8 cs)) = Some cs"
  by (induction cs) (simp_all add: from_utf8.simps [of "encode_utf8 _ @ _"] from_utf8.simps [of "[]"] next_char_encode)

end
