(* ===== verification/Row_Encoding.thy ===== *)
theory Row_Encoding
  imports Cell Utf8 Byte_Reader
begin

text \<open>
  The row encoding (\<open>koshi-terminal/src/row_encoding.rs\<close>): one terminal row as a byte string, with a
  style table, runs of cells in one style, the text of a run and the exceptions of its items. The
  thread-local work buffers of the code are cleared before every use, so an encoder starts from empty
  ones here. \<open>usize\<close> and the \<open>u64\<close> counters of the loops are natural numbers with their checks and
  clamps written out; what a varint carries is a 64-bit word.
\<close>

definition ROW_END_HARD_CODE :: u64 where "ROW_END_HARD_CODE = 0"
definition ROW_END_SOFT_CODE :: u64 where "ROW_END_SOFT_CODE = 1"
definition ROW_END_SOFT_WIDE_CODE :: u64 where "ROW_END_SOFT_WIDE_CODE = 2"

definition COLOR_DEFAULT_KIND :: u64 where "COLOR_DEFAULT_KIND = 0"
definition COLOR_INDEXED_KIND :: u64 where "COLOR_INDEXED_KIND = 1"
definition COLOR_RGB_KIND :: u64 where "COLOR_RGB_KIND = 2"

definition WIDE_PAIR_EXCEPTION_KIND :: u64 where "WIDE_PAIR_EXCEPTION_KIND = 0"
definition WIDTH_EXCEPTION_KIND :: u64 where "WIDTH_EXCEPTION_KIND = 1"
definition COMBINING_EXCEPTION_KIND :: u64 where "COMBINING_EXCEPTION_KIND = 2"
definition REPEAT_EXCEPTION_KIND :: u64 where "REPEAT_EXCEPTION_KIND = 3"

definition MIN_REPEATED_ITEM_COUNT :: nat where "MIN_REPEATED_ITEM_COUNT = 4"
definition MAX_LINEAR_STYLE_SEARCH_COUNT :: nat where "MAX_LINEAR_STYLE_SEARCH_COUNT = 32"

datatype row_decode_error =
    Row_Truncated
  | Row_VarintTooLong
  | BodyPastEnd (body_byte_count: u64) (available_byte_count: nat)
  | Row_TrailingBytes nat
  | Row_ValueOutOfRange string u64
  | UnknownRowEnd (row_end_code: u64)
  | UnknownColorKind (color_kind: u64)
  | StyleEntryPastEnd
  | StyleIndexOutOfTable (style_index: u64) (style_count: nat)
  | InvalidUtf8
  | WidthTooLarge (too_large_width: u64)
  | UnknownExceptionKind u64
  | ExceptionOutOfOrder
  | ExceptionPastRun
  | TooManyCombiningCharacters (combining_count: nat)
  | CellCountMismatch (mismatch_column_count: u16) (mismatch_cell_count: u64)

record decoded_row =
  decoded_row_cells :: "cell list"
  decoded_row_end :: row_end

section \<open>The style table\<close>

record row_style_table =
  table_styles :: "style list"
  style_keys :: "128 word list"
  style_index_by_key :: "128 word \<rightharpoonup> nat"

definition empty_style_table :: row_style_table where
  "empty_style_table = \<lparr>table_styles = [], style_keys = [], style_index_by_key = Map.empty\<rparr>"

definition compute_color_key :: "color \<Rightarrow> u32" where
  "compute_color_key c =
     (case c of
        Color_Default \<Rightarrow> 0
      | Color_Indexed i \<Rightarrow> 0x01000000 OR ucast i
      | Color_Rgb red green blue \<Rightarrow> 0x02000000 OR push_bit 16 (ucast red) OR push_bit 8 (ucast green) OR ucast blue)"

definition compute_style_key :: "style \<Rightarrow> 128 word" where
  "compute_style_key s =
     (let underline_key = (case underline_color s of None \<Rightarrow> 0 | Some c \<Rightarrow> 1 + compute_color_key c)
      in ucast (compute_color_key (foreground_color s))
         OR push_bit 32 (ucast (compute_color_key (background_color s)))
         OR push_bit 64 (ucast (get_attribute_word (attributes s)))
         OR push_bit 80 (ucast underline_key))"

text \<open>\<open>HashMap::extend\<close> with the pairs of an enumeration: a later index of a key replaces an earlier one.\<close>

definition index_keys :: "128 word list \<Rightarrow> (128 word \<rightharpoonup> nat)" where
  "index_keys keys = map_of (rev (zip keys [0..<length keys]))"

definition find_or_add_style :: "style \<Rightarrow> row_style_table \<Rightarrow> row_style_table \<times> nat" where
  "find_or_add_style s t =
     (let key = compute_style_key s;
          found = (if length (style_keys t) \<le> MAX_LINEAR_STYLE_SEARCH_COUNT
                   then position (\<lambda>existing. existing = key) (style_keys t)
                   else style_index_by_key t key)
      in case found of
           Some i \<Rightarrow> (t, i)
         | None \<Rightarrow>
             let index = length (table_styles t);
                 keys = style_keys t @ [key];
                 index_by_key =
                   (if length keys = MAX_LINEAR_STYLE_SEARCH_COUNT + 1
                    then style_index_by_key t ++ index_keys keys
                    else if MAX_LINEAR_STYLE_SEARCH_COUNT + 1 < length keys
                    then (style_index_by_key t)(key \<mapsto> index)
                    else style_index_by_key t)
             in (\<lparr>table_styles = table_styles t @ [s], style_keys = keys, style_index_by_key = index_by_key\<rparr>, index))"

section \<open>Encoding\<close>

definition count_utf8_bytes :: "nat list \<Rightarrow> nat" where
  "count_utf8_bytes characters = sum_list (map len_utf8 characters)"

definition list_encoded_combining_characters :: "cell \<Rightarrow> nat list" where
  "list_encoded_combining_characters c = (if has_image_placeholder c then [] else list_combining_characters c)"

definition is_plain_narrow_cell :: "cell \<Rightarrow> bool" where
  "is_plain_narrow_cell c \<longleftrightarrow> display_width c = 1 \<and> list_encoded_combining_characters c = []"

definition is_standard_continuation_cell :: "cell \<Rightarrow> bool" where
  "is_standard_continuation_cell c \<longleftrightarrow>
     display_width c = 0 \<and> character c = 0x20 \<and> list_encoded_combining_characters c = []"

definition is_item_encoding_equal :: "cell list \<Rightarrow> cell list \<Rightarrow> bool" where
  "is_item_encoding_equal first_cells second_cells \<longleftrightarrow>
     list_all (\<lambda>(a, b). character a = character b \<and> display_width a = display_width b \<and>
         list_encoded_combining_characters a = list_encoded_combining_characters b)
       (zip first_cells second_cells)"

definition is_ascii_char :: "nat \<Rightarrow> bool" where
  "is_ascii_char c \<longleftrightarrow> c < 0x80"

definition push_ascii_cell_text :: "cell list \<Rightarrow> u8 list \<Rightarrow> u8 list" where
  "push_ascii_cell_text cells text_bytes = text_bytes @ map (\<lambda>c. of_nat (character c)) cells"

text \<open>The local variables of \<open>encode_run\<close> that its helpers change.\<close>

record run_encoder =
  run_text :: "u8 list"
  run_exceptions :: "u8 list"
  exception_count :: nat
  previous_exception_item_index :: nat
  run_text_byte_count :: nat
  next_item_index :: nat

definition run_encoder_new :: run_encoder where
  "run_encoder_new =
     \<lparr>run_text = [], run_exceptions = [], exception_count = 0, previous_exception_item_index = 0,
      run_text_byte_count = 0, next_item_index = 0\<rparr>"

definition write_exception_header :: "nat \<Rightarrow> u64 \<Rightarrow> run_encoder \<Rightarrow> run_encoder" where
  "write_exception_header item_index kind r =
     r\<lparr>run_exceptions :=
         write_varint kind (write_varint (of_nat (item_index - previous_exception_item_index r)) (run_exceptions r)),
       previous_exception_item_index := item_index\<rparr>"

definition write_exception_number :: "nat \<Rightarrow> run_encoder \<Rightarrow> run_encoder" where
  "write_exception_number n r = r\<lparr>run_exceptions := write_varint (of_nat n) (run_exceptions r)\<rparr>"

definition count_exception :: "run_encoder \<Rightarrow> run_encoder" where
  "count_exception r = r\<lparr>exception_count := exception_count r + 1\<rparr>"

definition write_repeated_ascii_group :: "cell list \<Rightarrow> nat \<Rightarrow> run_encoder \<Rightarrow> run_encoder" where
  "write_repeated_ascii_group ascii_cells group_start_index r =
     (let r = r\<lparr>run_text := push_ascii_cell_text (take (Suc group_start_index) ascii_cells) (run_text r)\<rparr>;
          group_item_index = next_item_index r + group_start_index;
          r = write_exception_header group_item_index REPEAT_EXCEPTION_KIND r;
          r = write_exception_number (length ascii_cells - group_start_index - 1) r
      in r\<lparr>next_item_index := group_item_index + 1\<rparr>)"

text \<open>
  The inner loop of \<open>encode_run\<close>, over the plain narrow ASCII cells: \<open>unwritten\<close> are the cells between
  \<open>unwritten_cell_index\<close> and \<open>cell_index\<close>, \<open>group_start\<close> the start of the last group in them.
\<close>

fun encode_ascii_cells ::
    "bool \<Rightarrow> cell list \<Rightarrow> cell list \<Rightarrow> nat \<Rightarrow> nat \<Rightarrow> run_encoder
       \<Rightarrow> run_encoder \<times> cell list \<times> nat \<times> cell list" where
  "encode_ascii_cells plain [] unwritten group_start group_character r = (r, unwritten, group_start, [])"
| "encode_ascii_cells plain (c # cells) unwritten group_start group_character r =
     (if \<not> plain \<and> (\<not> is_ascii_char (character c) \<or> \<not> is_plain_narrow_cell c)
      then (r, unwritten, group_start, c # cells)
      else if character c \<noteq> group_character then
        if MIN_REPEATED_ITEM_COUNT \<le> length unwritten - group_start
        then encode_ascii_cells plain cells [c] 0 (character c)
               (count_exception (write_repeated_ascii_group unwritten group_start r))
        else encode_ascii_cells plain cells (unwritten @ [c]) (length unwritten) (character c) r
      else encode_ascii_cells plain cells (unwritten @ [c]) group_start group_character r)"

definition finish_ascii_cells :: "cell list \<Rightarrow> nat \<Rightarrow> run_encoder \<Rightarrow> run_encoder" where
  "finish_ascii_cells unwritten group_start r =
     (if MIN_REPEATED_ITEM_COUNT \<le> length unwritten - group_start
      then count_exception (write_repeated_ascii_group unwritten group_start r)
      else r\<lparr>run_text := push_ascii_cell_text unwritten (run_text r),
             next_item_index := next_item_index r + length unwritten\<rparr>)"

text \<open>The loop that counts how many more items equal to \<open>item_cells\<close> follow.\<close>

function count_repeats :: "cell list \<Rightarrow> cell list \<Rightarrow> nat" where
  "count_repeats item_cells cells =
     (if item_cells \<noteq> [] \<and> length item_cells \<le> length cells \<and>
         is_item_encoding_equal item_cells (take (length item_cells) cells)
      then Suc (count_repeats item_cells (drop (length item_cells) cells)) else 0)"
  by auto

termination count_repeats
  by (relation "measure (\<lambda>(item_cells, cells). length cells)") (auto intro!: diff_less)

declare count_repeats.simps [simp del]

definition encode_item :: "cell \<Rightarrow> bool \<Rightarrow> nat \<Rightarrow> run_encoder \<Rightarrow> run_encoder" where
  "encode_item base_cell is_wide_pair repeat_count r =
     (let item_index = next_item_index r;
          marks = list_encoded_combining_characters base_cell;
          mark_byte_count = count_utf8_bytes marks;
          r = r\<lparr>run_text := run_text r @ encode_utf8 (character base_cell),
                run_text_byte_count := run_text_byte_count r +
                  (if display_width base_cell \<noteq> 0
                   then (len_utf8 (character base_cell) + mark_byte_count) * repeat_count else 0)\<rparr>;
          r = (if is_wide_pair
               then count_exception (write_exception_header item_index WIDE_PAIR_EXCEPTION_KIND r)
               else if display_width base_cell \<noteq> 1
               then count_exception (write_exception_number (unat (display_width base_cell))
                      (write_exception_header item_index WIDTH_EXCEPTION_KIND r))
               else r);
          r = (if marks \<noteq> []
               then let r = write_exception_number mark_byte_count
                              (write_exception_header item_index COMBINING_EXCEPTION_KIND r)
                    in count_exception (r\<lparr>run_exceptions := run_exceptions r @ concat (map encode_utf8 marks)\<rparr>)
               else r);
          r = (if 1 < repeat_count
               then count_exception (write_exception_number (repeat_count - 1)
                      (write_exception_header item_index REPEAT_EXCEPTION_KIND r))
               else r)
      in r\<lparr>next_item_index := item_index + 1\<rparr>)"

text \<open>The outer loop of \<open>encode_run\<close>: \<open>cells\<close> are the cells from \<open>cell_index\<close> on.\<close>

lemma encode_ascii_cells_rest:
  "encode_ascii_cells plain cells unwritten group_start group_character r = (r', unwritten', group_start', rest) \<Longrightarrow>
     length rest \<le> length cells"
  by (induction plain cells unwritten group_start group_character r rule: encode_ascii_cells.induct)
    (auto split: if_splits)

function encode_run_cells :: "bool \<Rightarrow> cell list \<Rightarrow> run_encoder \<Rightarrow> run_encoder" where
  "encode_run_cells plain cells r =
     (case cells of
        [] \<Rightarrow> r
      | base_cell # following_cells \<Rightarrow>
          let (r1, unwritten, group_start, rest) = encode_ascii_cells plain cells [] 0 0 r in
          if length rest < length cells
          then encode_run_cells plain rest
                 (let r2 = finish_ascii_cells unwritten group_start r1
                  in r2\<lparr>run_text_byte_count := run_text_byte_count r2 + (length cells - length rest)\<rparr>)
          else
            let is_wide_pair = display_width base_cell = 2 \<and> following_cells \<noteq> [] \<and>
                               is_standard_continuation_cell (hd following_cells);
                item_cell_count = (if is_wide_pair then 2 else 1);
                repeat_count = 1 + count_repeats (take item_cell_count cells) (drop item_cell_count cells);
                repeat_count = (if repeat_count < MIN_REPEATED_ITEM_COUNT then 1 else repeat_count)
            in encode_run_cells plain (drop (item_cell_count * repeat_count) cells)
                 (encode_item base_cell is_wide_pair repeat_count r))"
  by pat_completeness auto

termination encode_run_cells
  by (relation "measure (\<lambda>(plain, cells, r). length cells)") auto

declare encode_run_cells.simps [simp del]

definition encode_run :: "cell list \<Rightarrow> nat \<Rightarrow> bool \<Rightarrow> u8 list \<Rightarrow> u8 list \<times> nat" where
  "encode_run run_cells index is_plain run_bytes =
     (let r = encode_run_cells is_plain run_cells run_encoder_new;
          out = write_varint (of_nat index) run_bytes;
          out = write_varint (of_nat (length run_cells)) out;
          out = write_varint (of_nat (length (run_text r))) out @ run_text r;
          out = write_varint (of_nat (exception_count r)) out @ run_exceptions r
      in (out, run_text_byte_count r))"

definition compute_row_end_code :: "row_end \<Rightarrow> u64" where
  "compute_row_end_code e =
     (case e of
        Row_Hard \<Rightarrow> ROW_END_HARD_CODE
      | Row_Soft \<Rightarrow> ROW_END_SOFT_CODE
      | Row_SoftWide \<Rightarrow> ROW_END_SOFT_WIDE_CODE)"

definition write_color :: "color \<Rightarrow> u8 list \<Rightarrow> u8 list" where
  "write_color c out =
     (case c of
        Color_Default \<Rightarrow> write_varint COLOR_DEFAULT_KIND out
      | Color_Indexed i \<Rightarrow> write_varint COLOR_INDEXED_KIND out @ [i]
      | Color_Rgb red green blue \<Rightarrow> write_varint COLOR_RGB_KIND out @ [red, green, blue])"

definition write_style_entry :: "style \<Rightarrow> u8 list \<Rightarrow> u8 list" where
  "write_style_entry s output_bytes =
     (let entry_index = length output_bytes;
          out = output_bytes @ [0];
          out = write_color (foreground_color s) out;
          out = write_color (background_color s) out;
          out = write_varint (ucast (get_attribute_word (attributes s))) out;
          out = (case underline_color s of
                   None \<Rightarrow> write_varint 0 out
                 | Some c \<Rightarrow> write_color c (write_varint 1 out))
      in out[entry_index := of_nat (length out - entry_index - 1)])"

text \<open>The loop over the runs: the style table, the run bytes, the run count and the text byte count so far.\<close>

function encode_runs ::
    "bool \<Rightarrow> cell list \<Rightarrow> row_style_table \<Rightarrow> u8 list \<Rightarrow> nat \<Rightarrow> nat
       \<Rightarrow> row_style_table \<times> u8 list \<times> nat \<times> nat" where
  "encode_runs plain following_cells table run_bytes run_count text_byte_count =
     (case following_cells of
        [] \<Rightarrow> (table, run_bytes, run_count, text_byte_count)
      | first_cell # cells \<Rightarrow>
          let run_style = cell_style first_cell;
              run_cell_count =
                (if plain then length following_cells
                 else case position (\<lambda>c. cell_style c \<noteq> run_style) following_cells of
                        None \<Rightarrow> length following_cells
                      | Some i \<Rightarrow> i);
              (table, index) = find_or_add_style run_style table;
              (run_bytes, run_text_bytes) = encode_run (take run_cell_count following_cells) index plain run_bytes
          in encode_runs plain (drop run_cell_count following_cells) table run_bytes (run_count + 1)
               (text_byte_count + run_text_bytes))"
  by pat_completeness auto

termination encode_runs
  by (relation "measure (\<lambda>(plain, cells, table, bytes, n, t). length cells)") (auto split: option.splits)

declare encode_runs.simps [simp del]

definition encode_row_cells_with_buffers :: "cell list \<Rightarrow> u16 \<Rightarrow> bool \<Rightarrow> row_end \<Rightarrow> u8 list \<times> nat" where
  "encode_row_cells_with_buffers row_cells column_count is_plain_row e =
     (let content_cell_count = count_row_content_cells row_cells;
          trailing_blank_count = unat column_count - content_cell_count;
          content_cells = take content_cell_count row_cells;
          (table, run_bytes, run_count, text_byte_count) =
            encode_runs is_plain_row content_cells empty_style_table [] 0
              (if e = Row_Hard then 0 else trailing_blank_count);
          head = write_varint (ucast column_count) [];
          head = write_varint (compute_row_end_code e) head;
          head = write_varint (of_nat trailing_blank_count) head;
          head = write_varint (of_nat (length (table_styles table))) head;
          head = fold write_style_entry (table_styles table) head;
          head = write_varint (of_nat run_count) head;
          body_byte_count = length head + length run_bytes
      in (write_varint (of_nat body_byte_count) [] @ head @ run_bytes, text_byte_count))"

text \<open>The \<open>assert\<close> on the row's length is the panic \<open>None\<close> stands for.\<close>

definition encode_padded_row_cells :: "cell list \<Rightarrow> u16 \<Rightarrow> style option \<Rightarrow> row_end \<Rightarrow> (u8 list \<times> nat) option" where
  "encode_padded_row_cells row_cells column_count plain_row_style e =
     (if length row_cells \<le> unat column_count
      then Some (encode_row_cells_with_buffers row_cells column_count (plain_row_style \<noteq> None) e)
      else None)"

definition encode_row_cells :: "cell list \<Rightarrow> row_end \<Rightarrow> (u8 list \<times> nat) option" where
  "encode_row_cells row_cells e =
     (if length row_cells < 2 ^ 16 then encode_padded_row_cells row_cells (of_nat (length row_cells)) None e else None)"

definition compute_text_byte_count :: "cell list \<Rightarrow> row_end \<Rightarrow> nat" where
  "compute_text_byte_count row_cells e =
     (let retained = (if e = Row_Hard then count_row_content_cells row_cells else length row_cells)
      in sum_list (map (\<lambda>c. len_utf8 (character c) + count_utf8_bytes (list_encoded_combining_characters c))
           (filter (\<lambda>c. display_width c \<noteq> 0) (take retained row_cells))))"

function compute_varint_byte_count_from :: "u64 \<Rightarrow> nat \<Rightarrow> nat" where
  "compute_varint_byte_count_from remaining_value varint_byte_count =
     (if remaining_value = 0 then varint_byte_count
      else compute_varint_byte_count_from (drop_bit 7 remaining_value) (varint_byte_count + 1))"
  by auto

lemma drop_bit_7_smaller: "v \<noteq> 0 \<Longrightarrow> unat (drop_bit 7 v) < unat v" for v :: u64
  using drop_bit_7_less [of v] by (cases "drop_bit 7 v = 0") (simp_all add: unat_gt_0)

termination compute_varint_byte_count_from
  by (relation "measure (\<lambda>(v, n). unat v)") (simp_all add: drop_bit_7_smaller)

declare compute_varint_byte_count_from.simps [simp del]

definition compute_varint_byte_count :: "u64 \<Rightarrow> nat" where
  "compute_varint_byte_count v = compute_varint_byte_count_from (drop_bit 7 v) 1"

section \<open>Decoding\<close>

type_synonym 'a row_reader = "(row_decode_error, 'a) reader"

record encoded_row_shape =
  shape_column_count :: u16
  shape_row_end :: row_end
  shape_trailing_blank_count :: u16

definition read_row_varint :: "u64 row_reader" where
  "read_row_varint remaining_bytes =
     (case read_varint remaining_bytes of
        Inl Varint_Truncated \<Rightarrow> Inl Row_Truncated
      | Inl Varint_TooLong \<Rightarrow> Inl Row_VarintTooLong
      | Inr (v, rest) \<Rightarrow> Inr (v, rest))"

definition read_bounded_varint :: "string \<Rightarrow> nat \<Rightarrow> u64 row_reader" where
  "read_bounded_varint field maximum_value =
     and_then read_row_varint (\<lambda>v.
       if maximum_value < unat v then refuse (Row_ValueOutOfRange field v) else give v)"

definition read_row_bytes :: "u64 \<Rightarrow> u8 list row_reader" where
  "read_row_bytes byte_count remaining_bytes =
     (case split_first_chunk (unat byte_count) remaining_bytes of
        None \<Rightarrow> Inl Row_Truncated
      | Some (read, unread) \<Rightarrow> Inr (read, unread))"

definition read_row_byte :: "u8 row_reader" where
  "read_row_byte = and_then (read_row_bytes 1) (\<lambda>bytes. give (bytes ! 0))"

definition read_row_header :: "encoded_row_shape row_reader" where
  "read_row_header =
     and_then read_row_varint (\<lambda>body_count.
     and_then (read_bounded_varint ''column_count'' 65535) (\<lambda>columns.
     and_then read_row_varint (\<lambda>end_code.
     let row_end_of_code =
           (if end_code = ROW_END_HARD_CODE then Some Row_Hard
            else if end_code = ROW_END_SOFT_CODE then Some Row_Soft
            else if end_code = ROW_END_SOFT_WIDE_CODE then Some Row_SoftWide
            else None)
     in case row_end_of_code of
          None \<Rightarrow> refuse (UnknownRowEnd end_code)
        | Some e \<Rightarrow>
            and_then (read_bounded_varint ''trailing_blank_count'' (unat (ucast columns :: u16))) (\<lambda>blanks.
            give \<lparr>shape_column_count = ucast columns, shape_row_end = e,
                  shape_trailing_blank_count = ucast blanks\<rparr>))))"

definition read_color :: "color row_reader" where
  "read_color =
     and_then read_row_varint (\<lambda>kind.
       if kind = COLOR_DEFAULT_KIND then give Color_Default
       else if kind = COLOR_INDEXED_KIND then and_then read_row_byte (\<lambda>i. give (Color_Indexed i))
       else if kind = COLOR_RGB_KIND then
         and_then (read_row_bytes 3) (\<lambda>bytes. give (Color_Rgb (bytes ! 0) (bytes ! 1) (bytes ! 2)))
       else refuse (UnknownColorKind kind))"

definition split_encoded_row :: "u8 list \<Rightarrow> row_decode_error + (u8 list \<times> u8 list)" where
  "split_encoded_row stream_bytes =
     (case read_row_varint stream_bytes of
        Inl e \<Rightarrow> Inl e
      | Inr (body_count, remaining_bytes) \<Rightarrow>
          let prefix_byte_count = length stream_bytes - length remaining_bytes;
              available = length remaining_bytes
          in if unat body_count \<le> available
             then Inr (take (prefix_byte_count + unat body_count) stream_bytes,
                       drop (prefix_byte_count + unat body_count) stream_bytes)
             else Inl (BodyPastEnd body_count available))"

definition read_encoded_row_shape :: "u8 list \<Rightarrow> row_decode_error + encoded_row_shape" where
  "read_encoded_row_shape encoded_row_bytes = map_sum id fst (read_row_header encoded_row_bytes)"

definition repad_encoded_row :: "u8 list \<Rightarrow> u16 \<Rightarrow> row_decode_error + (u8 list \<times> u16) option" where
  "repad_encoded_row encoded_row_bytes column_count =
     (case read_row_header encoded_row_bytes of
        Inl e \<Rightarrow> Inl e
      | Inr (shape, style_and_run_bytes) \<Rightarrow>
          let end_code = compute_row_end_code (shape_row_end shape);
              run_cell_count = shape_column_count shape - shape_trailing_blank_count shape
          in if column_count \<le> run_cell_count then Inr None
             else
               let blanks = column_count - run_cell_count;
                   body_count = compute_varint_byte_count (ucast column_count)
                                + compute_varint_byte_count end_code
                                + compute_varint_byte_count (ucast blanks)
                                + length style_and_run_bytes;
                   out = write_varint (of_nat body_count) [];
                   out = write_varint (ucast column_count) out;
                   out = write_varint end_code out;
                   out = write_varint (ucast blanks) out
               in Inr (Some (out @ style_and_run_bytes, run_cell_count)))"

definition read_style_fields :: "u8 list \<Rightarrow> row_decode_error + style" where
  "read_style_fields entry_bytes =
     map_sum id fst
       (and_then read_color (\<lambda>foreground.
        and_then read_color (\<lambda>background.
        and_then read_row_varint (\<lambda>word.
        and_then read_row_varint (\<lambda>underline_kind.
        and_then (if underline_kind = 0 then give None
                  else if underline_kind = 1 then and_then read_color (\<lambda>c. give (Some c))
                  else refuse (UnknownColorKind underline_kind)) (\<lambda>underline.
        give \<lparr>foreground_color = foreground, background_color = background,
              attributes = from_attribute_word (ucast word), underline_color = underline\<rparr>))))) entry_bytes)"

definition read_style_entry :: "style row_reader" where
  "read_style_entry =
     and_then read_row_varint (\<lambda>count remaining_bytes.
       case read_row_bytes count remaining_bytes of
         Inl e \<Rightarrow> Inl StyleEntryPastEnd
       | Inr (entry_bytes, rest) \<Rightarrow>
           (case read_style_fields entry_bytes of Inl e \<Rightarrow> Inl e | Inr s \<Rightarrow> Inr (s, rest)))"

datatype item_shape = Single (shape_display_width: u8) | WidePair

datatype exception_payload = Payload_WidePair | Payload_Width u8 | Payload_Combining "nat list" | Payload_Repeat nat

record item_exception =
  exception_item_index :: nat
  exception_kind :: u64
  exception_payload :: exception_payload

definition read_payload :: "u64 \<Rightarrow> exception_payload row_reader" where
  "read_payload kind =
     (if kind = WIDE_PAIR_EXCEPTION_KIND then give Payload_WidePair
      else if kind = WIDTH_EXCEPTION_KIND then
        and_then read_row_varint (\<lambda>width.
          if 2 < width then refuse (WidthTooLarge width) else give (Payload_Width (ucast width)))
      else if kind = COMBINING_EXCEPTION_KIND then
        and_then read_row_varint (\<lambda>count.
        and_then (read_row_bytes count) (\<lambda>bytes.
          case from_utf8 bytes of None \<Rightarrow> refuse InvalidUtf8 | Some marks \<Rightarrow> give (Payload_Combining marks)))
      else if kind = REPEAT_EXCEPTION_KIND then and_then read_row_varint (\<lambda>n. give (Payload_Repeat (unat n)))
      else refuse (UnknownExceptionKind kind))"

definition read_exception :: "nat \<Rightarrow> item_exception row_reader" where
  "read_exception previous_item_index =
     and_then read_row_varint (\<lambda>delta.
       if 2 ^ 64 \<le> previous_item_index + unat delta then refuse ExceptionPastRun
       else
         and_then read_row_varint (\<lambda>kind.
         and_then (read_payload kind) (\<lambda>payload.
         give \<lparr>exception_item_index = previous_item_index + unat delta, exception_kind = kind,
               exception_payload = payload\<rparr>)))"

text \<open>\<open>read_next_exception\<close>: the next exception, if any remains, and how many remain after it.\<close>

definition read_next_exception :: "nat \<Rightarrow> nat \<Rightarrow> (item_exception option \<times> nat) row_reader" where
  "read_next_exception remaining_count previous_item_index =
     (case remaining_count of
        0 \<Rightarrow> give (None, 0)
      | Suc n \<Rightarrow> and_then (read_exception previous_item_index) (\<lambda>e. give (Some e, n)))"

text \<open>What the exceptions of one item say so far.\<close>

record item_state =
  item_shape :: item_shape
  item_marks :: "nat list"
  item_repeat_count :: nat
  last_exception_kind :: "u64 option"

definition item_state_new :: item_state where
  "item_state_new =
     \<lparr>item_shape = Single 1, item_marks = [], item_repeat_count = 1, last_exception_kind = None\<rparr>"

definition is_in_order :: "u64 option \<Rightarrow> u64 \<Rightarrow> bool" where
  "is_in_order last_kind kind =
     (case last_kind of
        None \<Rightarrow> True
      | Some previous \<Rightarrow>
          if previous = WIDE_PAIR_EXCEPTION_KIND \<or> previous = WIDTH_EXCEPTION_KIND
          then WIDTH_EXCEPTION_KIND < kind else previous < kind)"

definition apply_exception :: "item_exception \<Rightarrow> item_state \<Rightarrow> row_decode_error + item_state" where
  "apply_exception e st =
     (if \<not> is_in_order (last_exception_kind st) (exception_kind e) then Inl ExceptionOutOfOrder
      else
        let st = st\<lparr>last_exception_kind := Some (exception_kind e)\<rparr>
        in case exception_payload e of
             Payload_WidePair \<Rightarrow> Inr (st\<lparr>item_shape := WidePair\<rparr>)
           | Payload_Width width \<Rightarrow> Inr (st\<lparr>item_shape := Single width\<rparr>)
           | Payload_Combining marks \<Rightarrow>
               (let marks = item_marks st @ marks
                in if MAX_GRAPHEME_CONTINUATION_COUNT < length marks
                   then Inl (TooManyCombiningCharacters (length marks))
                   else Inr (st\<lparr>item_marks := marks\<rparr>))
           | Payload_Repeat n \<Rightarrow> Inr (st\<lparr>item_repeat_count := min (n + 1) (2 ^ 64 - 1)\<rparr>))"

text \<open>The loop over the exceptions of the item at \<open>item_index\<close>.\<close>

fun read_item_exceptions ::
    "nat \<Rightarrow> nat \<Rightarrow> item_exception option \<Rightarrow> item_state \<Rightarrow> (item_state \<times> item_exception option \<times> nat) row_reader" where
  "read_item_exceptions item_index remaining_count next_exception st =
     (case next_exception of
        None \<Rightarrow> give (st, None, remaining_count)
      | Some e \<Rightarrow>
          if exception_item_index e \<noteq> item_index then give (st, Some e, remaining_count)
          else
            (case apply_exception e st of
               Inl err \<Rightarrow> refuse err
             | Inr st \<Rightarrow>
                 (case remaining_count of
                    0 \<Rightarrow> give (st, None, 0)
                  | Suc n \<Rightarrow>
                      and_then (read_exception item_index) (\<lambda>e. read_item_exceptions item_index n (Some e) st))))"

declare read_item_exceptions.simps [simp del]

datatype run_text_bytes = Run_Ascii "u8 list" | Run_Utf8 "u8 list"

fun bytes_of_run_text :: "run_text_bytes \<Rightarrow> u8 list" where
  "bytes_of_run_text (Run_Ascii bytes) = bytes"
| "bytes_of_run_text (Run_Utf8 bytes) = bytes"

definition read_character_at :: "run_text_bytes \<Rightarrow> nat \<Rightarrow> nat option" where
  "read_character_at text_bytes text_byte_index =
     (case text_bytes of
        Run_Ascii bytes \<Rightarrow> map_option unat (nth_opt bytes text_byte_index)
      | Run_Utf8 bytes \<Rightarrow> map_option fst (next_char (drop text_byte_index bytes)))"

lemma read_character_at_inside:
  "read_character_at text_bytes i = Some c \<Longrightarrow> i < length (bytes_of_run_text text_bytes)"
proof (rule ccontr)
  assume read: "read_character_at text_bytes i = Some c" and "\<not> i < length (bytes_of_run_text text_bytes)"
  then have "nth_opt (bytes_of_run_text text_bytes) i = None" "drop i (bytes_of_run_text text_bytes) = []" by simp_all
  with read show False by (cases text_bytes) (simp_all add: read_character_at_def next_char_def)
qed

definition is_ascii_byte :: "u8 \<Rightarrow> bool" where
  "is_ascii_byte b \<longleftrightarrow> unat b < 0x80"

text \<open>How many plain items written in ASCII the text starts with, from a byte index on.\<close>

definition count_ascii_items :: "u8 list \<Rightarrow> nat \<Rightarrow> nat" where
  "count_ascii_items remaining_text_bytes plain_item_count =
     (let plain_text_bytes = take (min plain_item_count (length remaining_text_bytes)) remaining_text_bytes
      in if list_all is_ascii_byte plain_text_bytes then length plain_text_bytes
         else length (takeWhile is_ascii_byte plain_text_bytes))"

definition build_item_cells :: "nat \<Rightarrow> style \<Rightarrow> item_state \<Rightarrow> cell list" where
  "build_item_cells base_character run_style st =
     (let base_width = (case item_shape st of WidePair \<Rightarrow> 2 | Single width \<Rightarrow> width);
          base_cell = fold push_combining (item_marks st) (from_character base_character base_width run_style)
      in concat (replicate (item_repeat_count st)
           (if item_shape st = WidePair then [base_cell, from_character 0x20 0 run_style] else [base_cell])))"

text \<open>
  The loop of \<open>decode_run\<close> over the characters of the run's text: from a byte index and an item index,
  with the next exception, the exceptions left to read, the cells decoded so far and their count.
\<close>

function decode_items ::
    "run_text_bytes \<Rightarrow> style \<Rightarrow> u16 \<Rightarrow> nat \<Rightarrow> nat \<Rightarrow> nat \<Rightarrow> item_exception option \<Rightarrow> nat \<Rightarrow> nat \<Rightarrow> cell list
       \<Rightarrow> (item_exception option \<times> nat \<times> cell list) row_reader" where
  "decode_items text_bytes run_style column_count run_end_cell_count text_byte_index item_index next_exception
       remaining_count decoded_cell_count row_cells =
     (case read_character_at text_bytes text_byte_index of
        None \<Rightarrow> give (next_exception, decoded_cell_count, row_cells)
      | Some base_character \<Rightarrow>
          let next_index = (case next_exception of None \<Rightarrow> 2 ^ 64 - 1 | Some e \<Rightarrow> exception_item_index e);
              remaining_text_bytes = drop text_byte_index (bytes_of_run_text text_bytes);
              ascii_item_count =
                (if item_index < next_index then count_ascii_items remaining_text_bytes (next_index - item_index) else 0)
          in if 0 < ascii_item_count then
               if run_end_cell_count < decoded_cell_count + ascii_item_count
               then refuse (CellCountMismatch column_count (of_nat (run_end_cell_count + 1)))
               else decode_items text_bytes run_style column_count run_end_cell_count
                      (text_byte_index + ascii_item_count) (item_index + ascii_item_count) next_exception
                      remaining_count (decoded_cell_count + ascii_item_count)
                      (row_cells @ map (\<lambda>b. from_character (unat b) 1 run_style) (take ascii_item_count remaining_text_bytes))
             else if item_index < next_index then
               if run_end_cell_count \<le> decoded_cell_count
               then refuse (CellCountMismatch column_count (of_nat (decoded_cell_count + 1)))
               else decode_items text_bytes run_style column_count run_end_cell_count
                      (text_byte_index + len_utf8 base_character) (item_index + 1) next_exception
                      remaining_count (decoded_cell_count + 1)
                      (row_cells @ [from_character base_character 1 run_style])
             else
               and_then (read_item_exceptions item_index remaining_count next_exception item_state_new)
                 (\<lambda>(st, next_exception, remaining_count).
                    let item_cell_count = (case item_shape st of WidePair \<Rightarrow> 2 | Single width \<Rightarrow> 1);
                        item_cells = item_cell_count * item_repeat_count st
                    in if item_cells < 2 ^ 64 \<and> item_cells + decoded_cell_count < 2 ^ 64 \<and>
                          item_cells + decoded_cell_count \<le> run_end_cell_count
                       then decode_items text_bytes run_style column_count run_end_cell_count
                              (text_byte_index + len_utf8 base_character) (item_index + 1) next_exception
                              remaining_count (item_cells + decoded_cell_count)
                              (row_cells @ build_item_cells base_character run_style st)
                       else refuse (CellCountMismatch column_count
                              (of_nat (min (decoded_cell_count + min item_cells (2 ^ 64 - 1)) (2 ^ 64 - 1))))))"
  by pat_completeness auto

lemma len_utf8_pos [simp]: "0 < len_utf8 c"
  by (simp add: len_utf8_def)

termination decode_items
  by (relation "measure (\<lambda>(text_bytes, s, col, run_end, i, item, next, rem, n, cells). length (bytes_of_run_text text_bytes) - i)")
    (auto dest!: read_character_at_inside intro!: diff_less_mono2 split: if_splits)

declare decode_items.simps [simp del]

text \<open>\<open>decode_run\<close>, on the cells of the row decoded before it.\<close>

definition decode_run :: "style list \<Rightarrow> u16 \<Rightarrow> nat \<Rightarrow> cell list \<Rightarrow> cell list row_reader" where
  "decode_run styles column_count content_cell_count row_cells =
     and_then read_row_varint (\<lambda>index.
     case nth_opt styles (unat index) of
       None \<Rightarrow> refuse (StyleIndexOutOfTable index (length styles))
     | Some run_style \<Rightarrow>
     and_then read_row_varint (\<lambda>run_cell_count.
     let decoded_cell_count = length row_cells;
         run_end_cell_count = decoded_cell_count + unat run_cell_count
     in if \<not> (run_end_cell_count < 2 ^ 64 \<and> run_end_cell_count \<le> content_cell_count)
        then refuse (CellCountMismatch column_count (of_nat (min run_end_cell_count (2 ^ 64 - 1))))
        else
     and_then read_row_varint (\<lambda>text_byte_count.
     and_then (read_row_bytes text_byte_count) (\<lambda>text_bytes.
     let checked_text =
           (if list_all is_ascii_byte text_bytes then Some (Run_Ascii text_bytes)
            else if from_utf8 text_bytes \<noteq> None then Some (Run_Utf8 text_bytes) else None)
     in case checked_text of
          None \<Rightarrow> refuse InvalidUtf8
        | Some text \<Rightarrow>
     (\<lambda>remaining_bytes. and_then (read_bounded_varint ''exception_count'' (length remaining_bytes)) (\<lambda>exception_count.
     and_then (read_next_exception (unat exception_count) 0) (\<lambda>(next_exception, remaining_count).
     and_then (decode_items text run_style column_count run_end_cell_count 0 0 next_exception remaining_count
                 decoded_cell_count row_cells) (\<lambda>(next_exception, decoded_cell_count, row_cells).
     if next_exception \<noteq> None then refuse ExceptionPastRun
     else if decoded_cell_count \<noteq> run_end_cell_count
     then refuse (CellCountMismatch column_count (of_nat decoded_cell_count))
     else give row_cells))) remaining_bytes)))))"

fun decode_runs :: "nat \<Rightarrow> style list \<Rightarrow> u16 \<Rightarrow> nat \<Rightarrow> cell list \<Rightarrow> cell list row_reader" where
  "decode_runs 0 styles column_count content_cell_count row_cells = give row_cells"
| "decode_runs (Suc n) styles column_count content_cell_count row_cells =
     and_then (decode_run styles column_count content_cell_count row_cells)
       (decode_runs n styles column_count content_cell_count)"

definition decode_row_runs :: "u8 list \<Rightarrow> row_decode_error + (encoded_row_shape \<times> cell list)" where
  "decode_row_runs encoded_row_bytes =
     (case split_encoded_row encoded_row_bytes of
        Inl e \<Rightarrow> Inl e
      | Inr (encoded_row, trailing_bytes) \<Rightarrow>
          if trailing_bytes \<noteq> [] then Inl (Row_TrailingBytes (length trailing_bytes))
          else
            map_sum id fst
              (and_then read_row_header (\<lambda>shape remaining_bytes.
                 and_then (read_bounded_varint ''style_count'' (length remaining_bytes)) (\<lambda>style_count.
                 and_then (read_times (unat style_count) read_style_entry) (\<lambda>styles remaining_bytes.
                 let content_cell_count = unat (shape_column_count shape - shape_trailing_blank_count shape) in
                 and_then (read_bounded_varint ''run_count'' (length remaining_bytes)) (\<lambda>run_count.
                 and_then (decode_runs (unat run_count) styles (shape_column_count shape) content_cell_count [])
                   (\<lambda>row_cells remaining_bytes.
                      if length row_cells \<noteq> content_cell_count
                      then Inl (CellCountMismatch (shape_column_count shape)
                             (of_nat (length row_cells + unat (shape_trailing_blank_count shape))))
                      else if remaining_bytes \<noteq> [] then Inl (Row_TrailingBytes (length remaining_bytes))
                      else Inr ((shape, row_cells), remaining_bytes))) remaining_bytes)) remaining_bytes) encoded_row))"

text \<open>On an error the cells are truncated to what they were.\<close>

definition decode_row_run_cells_into ::
    "u8 list \<Rightarrow> cell list \<Rightarrow> (row_decode_error + encoded_row_shape) \<times> cell list" where
  "decode_row_run_cells_into encoded_row_bytes row_cells =
     (case decode_row_runs encoded_row_bytes of
        Inl e \<Rightarrow> (Inl e, row_cells)
      | Inr (shape, cells) \<Rightarrow> (Inr shape, row_cells @ cells))"

definition resize_with :: "nat \<Rightarrow> 'a \<Rightarrow> 'a list \<Rightarrow> 'a list" where
  "resize_with n x xs = take n xs @ replicate (n - length xs) x"

definition decode_row_cells :: "u8 list \<Rightarrow> row_decode_error + decoded_row" where
  "decode_row_cells encoded_row_bytes =
     (case decode_row_run_cells_into encoded_row_bytes [] of
        (Inl e, row_cells) \<Rightarrow> Inl e
      | (Inr shape, row_cells) \<Rightarrow>
          Inr \<lparr>decoded_row_cells = resize_with (unat (shape_column_count shape)) build_blank row_cells,
               decoded_row_end = shape_row_end shape\<rparr>)"

end
