(* ===== verification/Row_Run_Decode.thy ===== *)
theory Row_Run_Decode
  imports Row_Encoding
begin

text \<open>
  The decoder of one run against an abstract view of the run: a list of items, each one character with
  a shape, continuation code points and a repeat count. The text of the run is the characters of the
  items, its exceptions are the items' departures from a plain narrow cell; decoding the two gives the
  cells of the items. The lookahead of one exception and the step over a stretch of ASCII text, which
  the code takes for speed, are what the proof is about.
\<close>

section \<open>Items and exceptions\<close>

record run_item =
  it_character :: nat
  it_shape :: item_shape
  it_marks :: "nat list"
  it_repeat :: nat

definition item_cells :: "style \<Rightarrow> run_item \<Rightarrow> cell list" where
  "item_cells s it =
     build_item_cells (it_character it) s
       \<lparr>item_shape = it_shape it, item_marks = it_marks it, item_repeat_count = it_repeat it,
        last_exception_kind = None\<rparr>"

definition item_ok :: "run_item \<Rightarrow> bool" where
  "item_ok it \<longleftrightarrow>
     is_scalar_value (it_character it) \<and> list_all is_scalar_value (it_marks it) \<and>
     length (it_marks it) \<le> MAX_GRAPHEME_CONTINUATION_COUNT \<and>
     (case it_shape it of WidePair \<Rightarrow> True | Single w \<Rightarrow> w \<le> 2) \<and> 0 < it_repeat it \<and> it_repeat it < 2 ^ 32"

type_synonym exception_part = "u64 \<times> exception_payload"

definition item_exceptions :: "run_item \<Rightarrow> exception_part list" where
  "item_exceptions it =
     (case it_shape it of
        WidePair \<Rightarrow> [(WIDE_PAIR_EXCEPTION_KIND, Payload_WidePair)]
      | Single w \<Rightarrow> if w = 1 then [] else [(WIDTH_EXCEPTION_KIND, Payload_Width w)]) @
     (if it_marks it = [] then [] else [(COMBINING_EXCEPTION_KIND, Payload_Combining (it_marks it))]) @
     (if it_repeat it = 1 then [] else [(REPEAT_EXCEPTION_KIND, Payload_Repeat (it_repeat it - 1))])"

abbreviation plain_item :: "run_item \<Rightarrow> bool" where
  "plain_item it \<equiv> item_exceptions it = []"

text \<open>The exceptions of the items from index \<open>i\<close> on, in the order of the items.\<close>

fun run_exception_list :: "nat \<Rightarrow> run_item list \<Rightarrow> item_exception list" where
  "run_exception_list i [] = []"
| "run_exception_list i (it # its) =
     map (\<lambda>(kind, payload). \<lparr>exception_item_index = i, exception_kind = kind, exception_payload = payload\<rparr>)
       (item_exceptions it) @ run_exception_list (Suc i) its"

definition payload_wire :: "exception_payload \<Rightarrow> u8 list" where
  "payload_wire p =
     (case p of
        Payload_WidePair \<Rightarrow> []
      | Payload_Width w \<Rightarrow> varint_bytes (of_nat (unat w))
      | Payload_Combining marks \<Rightarrow>
          varint_bytes (of_nat (count_utf8_bytes marks)) @ concat (map encode_utf8 marks)
      | Payload_Repeat n \<Rightarrow> varint_bytes (of_nat n))"

fun exceptions_wire :: "nat \<Rightarrow> item_exception list \<Rightarrow> u8 list" where
  "exceptions_wire prev [] = []"
| "exceptions_wire prev (e # es) =
     varint_bytes (of_nat (exception_item_index e - prev)) @ varint_bytes (exception_kind e) @
     payload_wire (exception_payload e) @ exceptions_wire (exception_item_index e) es"

abbreviation text_wire :: "run_item list \<Rightarrow> u8 list" where
  "text_wire its \<equiv> concat (map (\<lambda>it. encode_utf8 (it_character it)) its)"

lemmas exception_kinds = WIDE_PAIR_EXCEPTION_KIND_def WIDTH_EXCEPTION_KIND_def COMBINING_EXCEPTION_KIND_def
  REPEAT_EXCEPTION_KIND_def

section \<open>Reading one exception\<close>

lemma read_row_varint_bytes [wire_reads]: "read_row_varint (varint_bytes v @ rest) = Inr (v, rest)"
  by (simp add: read_row_varint_def)

lemma read_row_bytes_append [wire_reads]: "length xs = unat n \<Longrightarrow> read_row_bytes n (xs @ rest) = Inr (xs, rest)"
  by (simp add: read_row_bytes_def split_first_chunk_def)

lemma read_row_byte_Cons [wire_reads]: "read_row_byte (b # rest) = Inr (b, rest)"
  by (simp add: read_row_byte_def read_row_bytes_def split_first_chunk_def and_then_def give_def)

lemma length_utf8_text: "length (concat (map encode_utf8 marks)) = count_utf8_bytes marks"
  by (induction marks) (simp_all add: count_utf8_bytes_def)

lemma count_utf8_bytes_le: "count_utf8_bytes marks \<le> 4 * length marks"
  by (induction marks) (simp_all add: count_utf8_bytes_def len_utf8_def)

definition exception_ok :: "item_exception \<Rightarrow> bool" where
  "exception_ok e \<longleftrightarrow>
     exception_item_index e < 2 ^ 64 \<and>
     (case exception_payload e of
        Payload_WidePair \<Rightarrow> exception_kind e = WIDE_PAIR_EXCEPTION_KIND
      | Payload_Width w \<Rightarrow> exception_kind e = WIDTH_EXCEPTION_KIND \<and> w \<le> 2
      | Payload_Combining marks \<Rightarrow> exception_kind e = COMBINING_EXCEPTION_KIND \<and>
          list_all is_scalar_value marks \<and> length marks \<le> MAX_GRAPHEME_CONTINUATION_COUNT
      | Payload_Repeat n \<Rightarrow> exception_kind e = REPEAT_EXCEPTION_KIND \<and> n < 2 ^ 32)"

lemma read_payload_wire:
  assumes "exception_ok e"
  shows "read_payload (exception_kind e) (payload_wire (exception_payload e) @ rest) = Inr (exception_payload e, rest)"
proof (cases "exception_payload e")
  case Payload_WidePair
  with assms show ?thesis by (simp add: exception_ok_def read_payload_def payload_wire_def reader_defs)
next
  case (Payload_Width w)
  with assms have "unat w \<le> 2" by (simp add: exception_ok_def word_le_nat_alt)
  then have "unat (of_nat (unat w) :: u64) = unat w" by (simp add: unat_widen)
  moreover have "ucast (of_nat (unat w) :: u64) = w"
    by (rule bit_eqI) (auto simp: bit_simps dest: bit_imp_le_length)
  ultimately have "unat (of_nat (unat w) :: u64) = unat w" "ucast (of_nat (unat w) :: u64) = w" by simp_all
  with Payload_Width assms \<open>unat w \<le> 2\<close> show ?thesis
    by (simp add: exception_ok_def read_payload_def payload_wire_def reader_defs wire_reads exception_kinds word_less_nat_alt)
next
  case (Payload_Combining marks)
  with assms have "count_utf8_bytes marks < 2 ^ 64"
    using count_utf8_bytes_le [of marks] by (simp add: exception_ok_def MAX_GRAPHEME_CONTINUATION_COUNT_def)
  with Payload_Combining assms show ?thesis
    by (simp add: exception_ok_def read_payload_def payload_wire_def reader_defs wire_reads exception_kinds
        unat_count length_utf8_text from_utf8_encode)
next
  case (Payload_Repeat n)
  with assms show ?thesis
    by (simp add: exception_ok_def read_payload_def payload_wire_def reader_defs wire_reads exception_kinds unat_count)
qed

text \<open>Where a reader of exceptions stands: the first exception is read, the others are still bytes.\<close>

definition looked_at :: "item_exception list \<Rightarrow> item_exception option \<times> nat" where
  "looked_at es = (case es of [] \<Rightarrow> (None, 0) | e # es \<Rightarrow> (Some e, length es))"

definition unread_wire :: "item_exception list \<Rightarrow> u8 list" where
  "unread_wire es = (case es of [] \<Rightarrow> [] | e # es \<Rightarrow> exceptions_wire (exception_item_index e) es)"

lemma read_exception_wire:
  assumes "exception_ok e" "prev \<le> exception_item_index e"
  shows "read_exception prev (exceptions_wire prev (e # es) @ rest) = Inr (e, exceptions_wire (exception_item_index e) es @ rest)"
proof -
  obtain d where d: "exception_item_index e = prev + d" using assms(2) le_Suc_ex by blast
  have "prev + d < 2 ^ 64" using assms(1) d by (simp add: exception_ok_def)
  then have "unat (of_nat d :: u64) = d" "\<not> 2 ^ 64 \<le> prev + d" by (simp_all add: unat_count)
  with d show ?thesis
    by (simp add: read_exception_def reader_defs wire_reads read_payload_wire assms(1))
qed

lemma read_next_exception_wire:
  assumes "list_all exception_ok es" "es \<noteq> [] \<Longrightarrow> prev \<le> exception_item_index (hd es)"
  shows "read_next_exception (length es) prev (exceptions_wire prev es @ rest) = Inr (looked_at es, unread_wire es @ rest)"
proof (cases es)
  case (Cons e es')
  with assms have "read_exception prev (exceptions_wire prev (e # es') @ rest) = Inr (e, exceptions_wire (exception_item_index e) es' @ rest)"
    by (intro read_exception_wire) simp_all
  with Cons show ?thesis
    by (simp add: read_next_exception_def looked_at_def unread_wire_def and_then_def give_def del: exceptions_wire.simps)
qed (simp add: read_next_exception_def looked_at_def unread_wire_def give_def)

section \<open>The exceptions of one item\<close>

fun apply_exceptions :: "item_exception list \<Rightarrow> item_state \<Rightarrow> row_decode_error + item_state" where
  "apply_exceptions [] st = Inr st"
| "apply_exceptions (e # es) st = (case apply_exception e st of Inl err \<Rightarrow> Inl err | Inr st \<Rightarrow> apply_exceptions es st)"

lemma read_item_exceptions_wire:
  assumes "apply_exceptions es st = Inr st'" "list_all exception_ok (es @ later)"
    and "\<forall>e \<in> set es. exception_item_index e = i" "\<forall>e \<in> set later. i < exception_item_index e"
  shows "read_item_exceptions i (snd (looked_at (es @ later))) (fst (looked_at (es @ later))) st (unread_wire (es @ later) @ rest) =
    Inr ((st', looked_at later), unread_wire later @ rest)"
  using assms
proof (induction es arbitrary: st)
  case Nil
  then show ?case
    by (cases later) (auto simp: read_item_exceptions.simps looked_at_def give_def)
next
  case (Cons e es)
  from Cons.prems(1) obtain st1 where st1: "apply_exception e st = Inr st1" "apply_exceptions es st1 = Inr st'"
    by (auto split: sum.splits)
  have e: "exception_item_index e = i" using Cons.prems(3) by simp
  have IH: "read_item_exceptions i (snd (looked_at (es @ later))) (fst (looked_at (es @ later))) st1 (unread_wire (es @ later) @ rest) =
      Inr ((st', looked_at later), unread_wire later @ rest)"
    using Cons.IH [OF st1(2)] Cons.prems(2-4) by simp
  have ok: "list_all exception_ok (es @ later)" "\<forall>e \<in> set (es @ later). i \<le> exception_item_index e"
    using Cons.prems(2-4) by auto
  show ?case
  proof (cases "es @ later = []")
    case True
    with st1 e show ?thesis
      by (simp add: read_item_exceptions.simps [of i 0] looked_at_def unread_wire_def give_def)
  next
    case False
    then obtain e2 es2 where split: "es @ later = e2 # es2" by (cases "es @ later") auto
    with ok have "read_exception i (exceptions_wire i (e2 # es2) @ rest) = Inr (e2, exceptions_wire (exception_item_index e2) es2 @ rest)"
      by (intro read_exception_wire) simp_all
    with st1(1) e IH split show ?thesis
      by (simp add: read_item_exceptions.simps [of i "Suc _"] looked_at_def unread_wire_def and_then_def
          del: exceptions_wire.simps)
  qed
qed

abbreviation exception_at :: "nat \<Rightarrow> exception_part \<Rightarrow> item_exception" where
  "exception_at i \<equiv> \<lambda>(kind, payload). \<lparr>exception_item_index = i, exception_kind = kind, exception_payload = payload\<rparr>"

lemma apply_item_exceptions:
  assumes "item_ok it"
  shows "\<exists>st. apply_exceptions (map (exception_at i) (item_exceptions it)) item_state_new = Inr st \<and>
    item_shape st = it_shape it \<and> item_marks st = it_marks it \<and> item_repeat_count st = it_repeat it"
proof -
  have "min (Suc (it_repeat it - Suc 0)) 18446744073709551615 = it_repeat it" using assms by (simp add: item_ok_def)
  then show ?thesis using assms
    by (cases "it_shape it"; cases "it_marks it = []"; cases "it_repeat it = 1")
      (auto simp: item_exceptions_def apply_exception_def item_state_new_def is_in_order_def exception_kinds item_ok_def Let_def)
qed

lemma build_item_cells_state:
  "item_shape st = it_shape it \<Longrightarrow> item_marks st = it_marks it \<Longrightarrow> item_repeat_count st = it_repeat it \<Longrightarrow>
     build_item_cells (it_character it) s st = item_cells s it"
  by (simp add: item_cells_def build_item_cells_def)

lemma item_exceptions_ok: "item_ok it \<Longrightarrow> i < 2 ^ 64 \<Longrightarrow> list_all exception_ok (map (exception_at i) (item_exceptions it))"
  by (auto simp: item_exceptions_def exception_ok_def item_ok_def split: item_shape.splits)

lemma run_exceptions_ok:
  "list_all item_ok its \<Longrightarrow> i + length its \<le> 2 ^ 64 \<Longrightarrow> list_all exception_ok (run_exception_list i its)"
  by (induction its arbitrary: i) (simp_all add: item_exceptions_ok)

lemma run_exceptions_index: "e \<in> set (run_exception_list i its) \<Longrightarrow> i \<le> exception_item_index e"
  by (induction its arbitrary: i) (auto dest: Suc_leD)

lemma run_exceptions_index_less: "e \<in> set (run_exception_list i its) \<Longrightarrow> exception_item_index e < i + length its"
proof (induction its arbitrary: i)
  case (Cons it its)
  then show ?case using Cons.IH [of "Suc i"] by auto
qed simp

lemma run_exception_list_append:
  "run_exception_list i (xs @ ys) = run_exception_list i xs @ run_exception_list (i + length xs) ys"
  by (induction xs arbitrary: i) simp_all

text \<open>The items before the one the next exception names are plain.\<close>

lemma plain_before_exception:
  assumes "n \<le> length its" "run_exception_list i its \<noteq> [] \<Longrightarrow> i + n \<le> exception_item_index (hd (run_exception_list i its))"
  shows "list_all plain_item (take n its)"
  using assms
proof (induction its arbitrary: i n)
  case (Cons it its)
  show ?case
  proof (cases n)
    case (Suc m)
    have plain: "plain_item it"
    proof (rule ccontr)
      assume "\<not> plain_item it"
      then obtain x xs where "item_exceptions it = x # xs" by (cases "item_exceptions it") auto
      with Cons.prems(2) Suc show False by (cases x) simp
    qed
    have "list_all plain_item (take m its)"
      using Cons.prems plain Suc by (intro Cons.IH [of m "Suc i"]) auto
    with plain Suc show ?thesis by simp
  qed simp
qed simp

lemma plain_items_no_exception: "list_all plain_item its \<Longrightarrow> run_exception_list i its = []"
  by (induction its arbitrary: i) simp_all

lemma plain_item_cells: "plain_item it \<Longrightarrow> item_cells s it = [from_character (it_character it) 1 s]"
  by (cases "it_shape it")
    (auto simp: item_exceptions_def item_cells_def build_item_cells_def split: if_splits)

section \<open>The text of the items\<close>

lemma ascii_encode: "c < 0x80 \<Longrightarrow> encode_utf8 c = [of_nat c]"
  by (rule encode_utf8_cases)

lemma non_ascii_first_byte:
  assumes "0x80 \<le> c" "is_scalar_value c"
  shows "\<exists>b bs. encode_utf8 c = b # bs \<and> \<not> is_ascii_byte b"
proof -
  have first: "\<not> is_ascii_byte (of_nat (base + x))" if "0x80 \<le> base" "base + x < 256" for base x
    unfolding is_ascii_byte_def using that by (simp only: unat_of_nat_byte)
  have "c < 0x110000" using assms(2) by (auto simp: is_scalar_value_def)
  consider "c < 0x800" | "0x800 \<le> c" "c < 0x10000" | "0x10000 \<le> c" by linarith
  then show ?thesis
  proof cases
    case 1
    then have "c div 64 < 0x20" by (intro less_mult_imp_div_less) simp
    then have "\<not> is_ascii_byte (of_nat (0xC0 + c div 64))" by (intro first) simp_all
    with 1 assms(1) show ?thesis by (simp only: encode_utf8_cases) blast
  next
    case 2
    then have "c div 4096 < 0x10" by (intro less_mult_imp_div_less) simp
    then have "\<not> is_ascii_byte (of_nat (0xE0 + c div 4096))" by (intro first) simp_all
    with 2 show ?thesis by (simp only: encode_utf8_cases) blast
  next
    case 3
    have "c div 262144 < 8" using \<open>c < 0x110000\<close> by (intro less_mult_imp_div_less) simp
    then have "\<not> is_ascii_byte (of_nat (0xF0 + c div 262144))" by (intro first) simp_all
    with 3 show ?thesis by (simp only: encode_utf8_cases) blast
  qed
qed

definition ascii_item :: "run_item \<Rightarrow> bool" where
  "ascii_item it \<longleftrightarrow> it_character it < 0x80"

lemma ascii_item_byte: "ascii_item it \<Longrightarrow> encode_utf8 (it_character it) = [of_nat (it_character it)] \<and>
    is_ascii_byte (of_nat (it_character it)) \<and> unat (of_nat (it_character it) :: u8) = it_character it"
  by (simp add: ascii_item_def ascii_encode is_ascii_byte_def unat_of_nat_byte)

lemma takeWhile_ascii_text:
  "list_all item_ok its \<Longrightarrow>
     takeWhile is_ascii_byte (text_wire its) = map (\<lambda>it. of_nat (it_character it)) (takeWhile ascii_item its)"
proof (induction its)
  case (Cons it its)
  show ?case
  proof (cases "ascii_item it")
    case True
    with Cons ascii_item_byte [OF True] show ?thesis by simp
  next
    case False
    then obtain b bs where "encode_utf8 (it_character it) = b # bs" "\<not> is_ascii_byte b"
      using non_ascii_first_byte [of "it_character it"] Cons.prems by (auto simp: ascii_item_def item_ok_def)
    with False show ?thesis by simp
  qed
qed simp

lemma takeWhile_take: "takeWhile p (take n xs) = take n (takeWhile p xs)"
  by (induction xs arbitrary: n) (auto simp: take_Cons split: nat.splits)

lemma count_ascii_items_text:
  assumes "list_all item_ok its"
  shows "count_ascii_items (text_wire its) m = min m (length (takeWhile ascii_item its))"
proof -
  let ?plain = "take (min m (length (text_wire its))) (text_wire its)"
  have "count_ascii_items (text_wire its) m = length (takeWhile is_ascii_byte ?plain)"
    by (simp add: count_ascii_items_def Let_def list_all_iff takeWhile_eq_all_conv [THEN iffD2])
  also have "?plain = take m (text_wire its)" by (simp add: min_def)
  also have "length (takeWhile is_ascii_byte (take m (text_wire its))) = min m (length (takeWhile ascii_item its))"
    by (simp add: takeWhile_take takeWhile_ascii_text [OF assms] min.commute)
  finally show ?thesis .
qed

lemma take_ascii_text:
  assumes "list_all item_ok its" "n \<le> length (takeWhile ascii_item its)"
  shows "take n (text_wire its) = map (\<lambda>it. of_nat (it_character it)) (take n its)"
    and "text_wire its = map (\<lambda>it. of_nat (it_character it)) (take n its) @ text_wire (drop n its)"
    and "list_all ascii_item (take n its)"
proof -
  have ascii: "list_all ascii_item (take n its)"
    using assms(2) by (metis list_all_iff set_take_subset set_takeWhileD subsetD takeWhile_eq_take take_take min.absorb1)
  then have bytes: "text_wire (take n its) = map (\<lambda>it. of_nat (it_character it)) (take n its)"
    using ascii_item_byte by (induction "take n its" arbitrary: its n) (auto simp: concat_map_singleton list_all_iff cong: map_cong)
  have "text_wire its = text_wire (take n its) @ text_wire (drop n its)"
    by (metis append_take_drop_id concat_append map_append)
  with bytes show split: "text_wire its = map (\<lambda>it. of_nat (it_character it)) (take n its) @ text_wire (drop n its)" by simp
  have "n \<le> length its" using assms(2) length_takeWhile_le [of ascii_item its] by simp
  with split show "take n (text_wire its) = map (\<lambda>it. of_nat (it_character it)) (take n its)" by simp
  show "list_all ascii_item (take n its)" by (rule ascii)
qed

text \<open>The character the decoder reads at the start of an item.\<close>

definition text_ok :: "run_text_bytes \<Rightarrow> bool" where
  "text_ok text_bytes = (case text_bytes of Run_Ascii bytes \<Rightarrow> list_all is_ascii_byte bytes | Run_Utf8 bytes \<Rightarrow> True)"

lemma read_character_at_items:
  assumes "bytes_of_run_text text_bytes = pre @ text_wire its" "text_ok text_bytes" "list_all item_ok its"
  shows "read_character_at text_bytes (length pre) = (case its of [] \<Rightarrow> None | it # its \<Rightarrow> Some (it_character it))"
proof (cases its)
  case Nil
  with assms show ?thesis
    by (cases text_bytes) (simp_all add: read_character_at_def next_char_def nth_opt_def)
next
  case (Cons it its')
  then have ok: "is_scalar_value (it_character it)" using assms(3) by (simp add: item_ok_def)
  show ?thesis
  proof (cases text_bytes)
    case (Run_Ascii bytes)
    have "ascii_item it"
    proof (rule ccontr)
      assume "\<not> ascii_item it"
      then obtain b bs where "encode_utf8 (it_character it) = b # bs" "\<not> is_ascii_byte b"
        using non_ascii_first_byte [OF _ ok] by (auto simp: ascii_item_def)
      with assms(1,2) Cons Run_Ascii show False by (simp add: text_ok_def)
    qed
    with assms(1) Cons Run_Ascii ascii_item_byte [of it] show ?thesis by (simp add: read_character_at_def nth_opt_def)
  next
    case (Run_Utf8 bytes)
    with assms(1) Cons show ?thesis by (simp add: read_character_at_def next_char_encode [OF ok])
  qed
qed

section \<open>The loop over the text\<close>

definition items_cell_count :: "run_item list \<Rightarrow> nat" where
  "items_cell_count its = sum_list (map (\<lambda>it. (case it_shape it of WidePair \<Rightarrow> 2 | Single w \<Rightarrow> 1) * it_repeat it) its)"

lemma items_cell_count_simps [simp]:
  "items_cell_count [] = 0"
  "items_cell_count (it # its) = (case it_shape it of WidePair \<Rightarrow> 2 | Single w \<Rightarrow> 1) * it_repeat it + items_cell_count its"
  "items_cell_count (xs @ ys) = items_cell_count xs + items_cell_count ys"
  by (simp_all add: items_cell_count_def)

lemma plain_item_count: "plain_item it \<Longrightarrow> (case it_shape it of WidePair \<Rightarrow> 2 | Single w \<Rightarrow> 1) * it_repeat it = (1 :: nat)"
  by (cases "it_shape it") (auto simp: item_exceptions_def split: if_splits)

lemma plain_items_cell_count: "list_all plain_item its \<Longrightarrow> items_cell_count its = length its"
  by (induction its) (simp_all add: plain_item_count)

lemma items_cell_count_split: "items_cell_count its = items_cell_count (take n its) + items_cell_count (drop n its)"
  by (metis append_take_drop_id items_cell_count_simps(3))

lemma plain_ascii_cells:
  "list_all plain_item its \<Longrightarrow> list_all ascii_item its \<Longrightarrow>
     map (\<lambda>b. from_character (unat b) 1 s) (map (\<lambda>it. of_nat (it_character it) :: u8) its) = concat (map (item_cells s) its)"
  by (induction its) (simp_all add: plain_item_cells ascii_item_byte [THEN conjunct2, THEN conjunct2])

text \<open>
  The three ways one round of the loop goes: over a stretch of ASCII items, over one plain item, and
  over one item with exceptions.
\<close>

abbreviation next_index :: "item_exception list \<Rightarrow> nat" where
  "next_index es \<equiv> (case fst (looked_at es) of None \<Rightarrow> 2 ^ 64 - 1 | Some e \<Rightarrow> exception_item_index e)"

lemma next_index_after:
  assumes "i + length its < 2 ^ 64"
  shows "i \<le> next_index (run_exception_list i its)"
    and "run_exception_list i its \<noteq> [] \<Longrightarrow> next_index (run_exception_list i its) = exception_item_index (hd (run_exception_list i its))"
proof -
  show "run_exception_list i its \<noteq> [] \<Longrightarrow> next_index (run_exception_list i its) = exception_item_index (hd (run_exception_list i its))"
    by (auto simp: looked_at_def split: list.splits)
  show "i \<le> next_index (run_exception_list i its)"
    using run_exceptions_index [of _ i its] assms by (auto simp: looked_at_def split: list.splits)
qed

lemma decode_items_ascii:
  assumes run: "bytes_of_run_text text_bytes = pre @ text_wire its" "text_ok text_bytes" "list_all item_ok its"
    and n: "n = min (next_index es - i) (length (takeWhile ascii_item its))" "0 < n"
    and plain: "list_all plain_item (take n its)" and room: "decoded + n \<le> run_end"
  shows "decode_items text_bytes s column_count run_end (length pre) i (fst (looked_at es)) (snd (looked_at es)) decoded cells =
    decode_items text_bytes s column_count run_end (length (pre @ map (\<lambda>it. of_nat (it_character it)) (take n its) :: u8 list))
      (i + n) (fst (looked_at es)) (snd (looked_at es)) (decoded + n) (cells @ concat (map (item_cells s) (take n its)))"
proof -
  have le: "n \<le> length (takeWhile ascii_item its)" "n \<le> length its"
    using n length_takeWhile_le [of ascii_item its] by auto
  from n obtain it its' where its: "its = it # its'" by (cases its) auto
  have before: "i < next_index es" using n by auto
  have count: "count_ascii_items (text_wire its) (next_index es - i) = n"
    using n(1) count_ascii_items_text [OF run(3)] by simp
  have read: "read_character_at text_bytes (length pre) = Some (it_character it)"
    using read_character_at_items [OF run] its by simp
  have drop: "drop (length pre) (bytes_of_run_text text_bytes) = text_wire its" using run(1) by simp
  have cells: "map (\<lambda>b. from_character (unat b) 1 s) (take n (text_wire its)) = concat (map (item_cells s) (take n its))"
    unfolding take_ascii_text(1) [OF run(3) le(1)] by (rule plain_ascii_cells [OF plain take_ascii_text(3) [OF run(3) le(1)]])
  show ?thesis
    by (subst decode_items.simps)
      (use read count before n(2) room le(2) cells in \<open>simp only: option.case Let_def drop if_True if_False not_less length_append length_map length_take min_absorb2 not_le [symmetric] simp_thms\<close>)
qed

lemma decode_items_plain:
  assumes run: "bytes_of_run_text text_bytes = pre @ text_wire (it # its)" "text_ok text_bytes" "list_all item_ok (it # its)"
    and before: "i < next_index es" and it: "plain_item it" "\<not> ascii_item it" and room: "decoded < run_end"
  shows "decode_items text_bytes s column_count run_end (length pre) i (fst (looked_at es)) (snd (looked_at es)) decoded cells =
    decode_items text_bytes s column_count run_end (length (pre @ encode_utf8 (it_character it)))
      (i + 1) (fst (looked_at es)) (snd (looked_at es)) (decoded + 1) (cells @ item_cells s it)"
proof -
  have count: "\<not> 0 < count_ascii_items (text_wire (it # its)) (next_index es - i)"
    using count_ascii_items_text [OF run(3)] it(2) by simp
  have read: "read_character_at text_bytes (length pre) = Some (it_character it)"
    using read_character_at_items [OF run] by simp
  have drop: "drop (length pre) (bytes_of_run_text text_bytes) = text_wire (it # its)" using run(1) by simp
  show ?thesis
    by (subst decode_items.simps)
      (use read count before room plain_item_cells [OF it(1)] in
        \<open>simp only: option.case Let_def drop if_True if_False length_append length_encode_utf8 not_le [symmetric] simp_thms\<close>)
qed

lemma decode_items_excepted:
  assumes run: "bytes_of_run_text text_bytes = pre @ text_wire (it # its)" "text_ok text_bytes" "list_all item_ok (it # its)"
    and es: "es = run_exception_list i (it # its)" and it: "\<not> plain_item it" and i: "i + length (it # its) < 2 ^ 64"
    and room: "decoded + items_cell_count [it] \<le> run_end" "run_end < 2 ^ 64"
  defines "later \<equiv> run_exception_list (Suc i) its"
  shows "decode_items text_bytes s column_count run_end (length pre) i (fst (looked_at es)) (snd (looked_at es)) decoded cells
      (unread_wire es @ rest) =
    decode_items text_bytes s column_count run_end (length (pre @ encode_utf8 (it_character it)))
      (i + 1) (fst (looked_at later)) (snd (looked_at later)) (items_cell_count [it] + decoded) (cells @ item_cells s it)
      (unread_wire later @ rest)"
proof -
  let ?mine = "map (exception_at i) (item_exceptions it)"
  have split: "es = ?mine @ later" by (simp add: es later_def)
  obtain st where st: "apply_exceptions ?mine item_state_new = Inr st" "item_shape st = it_shape it"
    "item_marks st = it_marks it" "item_repeat_count st = it_repeat it"
    using apply_item_exceptions [of it i] run(3) by auto
  have "list_all exception_ok es" unfolding es using run(3) i by (intro run_exceptions_ok) simp_all
  then have item: "read_item_exceptions i (snd (looked_at es)) (fst (looked_at es)) item_state_new (unread_wire es @ rest) =
      Inr ((st, looked_at later), unread_wire later @ rest)"
    unfolding split using st(1) run_exceptions_index [of _ "Suc i" its]
    by (intro read_item_exceptions_wire) (auto simp: later_def Suc_le_eq)
  have "next_index es = i"
    using it by (cases "item_exceptions it") (auto simp: split looked_at_def split: prod.splits)
  then have at: "\<not> i < next_index es" by simp
  have read: "read_character_at text_bytes (length pre) = Some (it_character it)"
    using read_character_at_items [OF run] by simp
  have cells: "build_item_cells (it_character it) s st = item_cells s it" by (rule build_item_cells_state [OF st(2-4)])
  have count: "(case item_shape st of WidePair \<Rightarrow> 2 | Single w \<Rightarrow> 1) * item_repeat_count st = items_cell_count [it]"
    using st by simp
  have "items_cell_count [it] + decoded \<le> run_end" using room by simp
  then show ?thesis
    by (subst decode_items.simps)
      (use read at item room(2) in \<open>simp add: and_then_def Let_def case_prod_beta cells count [simplified]\<close>)
qed

lemma decode_items_wire:
  assumes "bytes_of_run_text text_bytes = pre @ text_wire its" "text_ok text_bytes" "list_all item_ok its"
    and "i + length its < 2 ^ 64" "decoded + items_cell_count its \<le> run_end" "run_end < 2 ^ 64"
    and "es = run_exception_list i its"
  shows "decode_items text_bytes s column_count run_end (length pre) i (fst (looked_at es)) (snd (looked_at es)) decoded cells
      (unread_wire es @ rest) = Inr ((None, decoded + items_cell_count its, cells @ concat (map (item_cells s) its)), rest)"
  using assms
proof (induction its arbitrary: pre i decoded cells es rule: measure_induct_rule [of length])
  case (less its)
  note run = less.prems(1-3) and es = less.prems(7)
  show ?case
  proof (cases its)
    case Nil
    with less.prems read_character_at_items [OF run] show ?thesis
      by (subst decode_items.simps) (simp add: give_def looked_at_def unread_wire_def)
  next
    case (Cons it its')
    define n where "n = min (next_index es - i) (length (takeWhile ascii_item its))"
    have n: "n \<le> length its" "n \<le> length (takeWhile ascii_item its)"
      using length_takeWhile_le [of ascii_item its] by (simp_all add: n_def min_le_iff_disj)
    have "es \<noteq> [] \<Longrightarrow> i + n \<le> exception_item_index (hd es)"
      using next_index_after [OF less.prems(4)] by (simp add: es n_def min_le_iff_disj)
    then have plain: "list_all plain_item (take n its)" unfolding es by (rule plain_before_exception [OF n(1)])
    show ?thesis
    proof (cases "0 < n")
      case True
      let ?pre = "pre @ map (\<lambda>it. of_nat (it_character it)) (take n its)"
      have count: "items_cell_count its = n + items_cell_count (drop n its)"
        using items_cell_count_split [of its n] plain_items_cell_count [OF plain] n by simp
      have cells: "concat (map (item_cells s) its) = concat (map (item_cells s) (take n its)) @ concat (map (item_cells s) (drop n its))"
        by (metis append_take_drop_id concat_append map_append)
      have "decode_items text_bytes s column_count run_end (length pre) i (fst (looked_at es)) (snd (looked_at es)) decoded cells =
          decode_items text_bytes s column_count run_end (length ?pre) (i + n) (fst (looked_at es)) (snd (looked_at es))
            (decoded + n) (cells @ concat (map (item_cells s) (take n its)))"
        using less.prems(5) count by (intro decode_items_ascii [OF run n_def True plain]) simp
      moreover have "decode_items text_bytes s column_count run_end (length ?pre) (i + n) (fst (looked_at es)) (snd (looked_at es))
            (decoded + n) (cells @ concat (map (item_cells s) (take n its))) (unread_wire es @ rest) =
          Inr ((None, decoded + n + items_cell_count (drop n its),
            (cells @ concat (map (item_cells s) (take n its))) @ concat (map (item_cells s) (drop n its))), rest)"
      proof (rule less.IH)
        show "length (drop n its) < length its" using True n by simp
        show "bytes_of_run_text text_bytes = ?pre @ text_wire (drop n its)"
          using run(1) take_ascii_text(2) [OF run(3) n(2)] by simp
        show "list_all item_ok (drop n its)" using run(3) by (metis append_take_drop_id list_all_append)
        show "i + n + length (drop n its) < 2 ^ 64" using less.prems(4) n by simp
        show "decoded + n + items_cell_count (drop n its) \<le> run_end" using less.prems(5) count by simp
        show "es = run_exception_list (i + n) (drop n its)"
          using run_exception_list_append [of i "take n its" "drop n its"] plain_items_no_exception [OF plain] n
          by (simp add: es)
      qed (rule less.prems)+
      ultimately show ?thesis unfolding count cells by simp
    next
      case False
      have after: "Suc i + length its' < 2 ^ 64" "list_all item_ok its'" "length its' < length its"
        "bytes_of_run_text text_bytes = (pre @ encode_utf8 (it_character it)) @ text_wire its'"
        using less.prems(1,3,4) Cons by simp_all
      note IH = less.IH [OF after(3), of "pre @ encode_utf8 (it_character it)", OF after(4) less.prems(2) after(2,1)]
      show ?thesis
      proof (cases "plain_item it")
        case True
        then have es': "es = run_exception_list (Suc i) its'" by (simp add: es Cons)
        have "i < next_index es" unfolding es' using next_index_after(1) [OF after(1)] by simp
        with False Cons have "\<not> ascii_item it" by (cases "ascii_item it") (simp_all add: n_def)
        moreover have "decoded < run_end" using less.prems(5) plain_item_count [OF True] Cons by simp
        ultimately have "decode_items text_bytes s column_count run_end (length pre) i (fst (looked_at es)) (snd (looked_at es)) decoded cells =
            decode_items text_bytes s column_count run_end (length (pre @ encode_utf8 (it_character it)))
              (i + 1) (fst (looked_at es)) (snd (looked_at es)) (decoded + 1) (cells @ item_cells s it)"
          using run \<open>i < next_index es\<close> True unfolding Cons by (intro decode_items_plain)
        with IH [of "decoded + 1" es] less.prems(5,6) plain_item_count [OF True] es' Cons show ?thesis by simp
      next
        case False
        have "decode_items text_bytes s column_count run_end (length pre) i (fst (looked_at es)) (snd (looked_at es)) decoded cells
            (unread_wire es @ rest) =
          decode_items text_bytes s column_count run_end (length (pre @ encode_utf8 (it_character it)))
            (i + 1) (fst (looked_at (run_exception_list (Suc i) its'))) (snd (looked_at (run_exception_list (Suc i) its')))
            (items_cell_count [it] + decoded) (cells @ item_cells s it) (unread_wire (run_exception_list (Suc i) its') @ rest)"
          using run es less.prems(4-6) False unfolding Cons by (intro decode_items_excepted) simp_all
        with IH [of "items_cell_count [it] + decoded" "run_exception_list (Suc i) its'"] less.prems(5,6) Cons show ?thesis
          by (simp add: ac_simps)
      qed
    qed
  qed
qed

section \<open>One run\<close>

definition run_wire :: "nat \<Rightarrow> run_item list \<Rightarrow> u8 list" where
  "run_wire index its =
     varint_bytes (of_nat index) @ varint_bytes (of_nat (items_cell_count its)) @
     varint_bytes (of_nat (length (text_wire its))) @ text_wire its @
     varint_bytes (of_nat (length (run_exception_list 0 its))) @ exceptions_wire 0 (run_exception_list 0 its)"

lemma length_text_wire: "length (text_wire its) \<le> 4 * length its"
proof -
  have "len_utf8 c \<le> 4" for c by (simp add: len_utf8_def)
  then show ?thesis by (induction its) (auto intro: add_mono)
qed

lemma length_items: "list_all item_ok its \<Longrightarrow> length its \<le> items_cell_count its"
proof (induction its)
  case (Cons it its)
  have "1 \<le> (case it_shape it of WidePair \<Rightarrow> 2 | Single w \<Rightarrow> 1) * it_repeat it"
    using Cons.prems by (cases "it_shape it") (simp_all add: item_ok_def)
  moreover have "length its \<le> items_cell_count its" using Cons by simp
  ultimately show ?case unfolding items_cell_count_simps list.size by linarith
qed simp

lemma length_exceptions_wire: "length es \<le> length (exceptions_wire prev es)"
proof (induction prev es rule: exceptions_wire.induct)
  case (2 prev e es)
  have "1 \<le> length (varint_bytes (of_nat (exception_item_index e - prev)))" by (simp add: Suc_le_eq)
  with 2 show ?case unfolding exceptions_wire.simps length_append list.size by linarith
qed simp

lemma length_item_cells:
  "length (item_cells s it) = (case it_shape it of WidePair \<Rightarrow> 2 | Single w \<Rightarrow> 1) * it_repeat it"
  by (simp add: item_cells_def build_item_cells_def Let_def length_concat sum_list_replicate split: item_shape.splits)

lemma length_items_cells: "length (concat (map (item_cells s) its)) = items_cell_count its"
  by (induction its) (simp_all add: length_item_cells)

lemma from_utf8_text: "list_all item_ok its \<Longrightarrow> from_utf8 (text_wire its) = Some (map it_character its)"
  using from_utf8_encode [of "map it_character its"]
  by (simp add: list_all_iff item_ok_def comp_def)

lemma exception_count_le: "list_all item_ok its \<Longrightarrow> length (run_exception_list i its) \<le> 3 * length its"
proof (induction its arbitrary: i)
  case (Cons it its)
  have "length (item_exceptions it) \<le> 3" by (simp add: item_exceptions_def split: item_shape.splits)
  with Cons show ?case by (simp add: add_mono)
qed simp

lemma decode_run_wire [wire_reads]:
  assumes its: "list_all item_ok its" and s: "nth_opt styles index = Some s" "index < 2 ^ 64"
    and room: "length row_cells + items_cell_count its \<le> content" "content < 2 ^ 16"
  shows "decode_run styles column_count content row_cells (run_wire index its @ rest) =
    Inr (row_cells @ concat (map (item_cells s) its), rest)"
proof -
  let ?es = "run_exception_list 0 its" and ?last = "length row_cells + items_cell_count its"
  let ?text = "if list_all is_ascii_byte (text_wire its) then Run_Ascii (text_wire its) else Run_Utf8 (text_wire its)"
  have n: "length its < 2 ^ 16" "items_cell_count its < 2 ^ 16" using length_items [OF its] room by auto
  then have text_bytes: "length (text_wire its) < 2 ^ 64" using length_text_wire [of its] by simp
  have es: "length ?es < 2 ^ 64" using exception_count_le [OF its, of 0] n by simp
  have "list_all exception_ok ?es" using its n by (intro run_exceptions_ok) simp_all
  then have next_ex: "read_next_exception (length ?es) 0 (exceptions_wire 0 ?es @ rest) = Inr (looked_at ?es, unread_wire ?es @ rest)"
    by (rule read_next_exception_wire) simp
  have "decode_items ?text s column_count ?last (length ([] :: u8 list)) 0 (fst (looked_at ?es)) (snd (looked_at ?es)) (length row_cells) row_cells
      (unread_wire ?es @ rest) = Inr ((None, length row_cells + items_cell_count its, row_cells @ concat (map (item_cells s) its)), rest)"
    using its n room by (intro decode_items_wire) (simp_all add: text_ok_def)
  then have items: "decode_items ?text s column_count ?last 0 0 (fst (looked_at ?es)) (snd (looked_at ?es)) (length row_cells) row_cells
      (unread_wire ?es @ rest) = Inr ((None, ?last, row_cells @ concat (map (item_cells s) its)), rest)" by simp
  have bound: "read_bounded_varint ''exception_count'' (length (varint_bytes (of_nat (length ?es)) @ exceptions_wire 0 ?es @ rest))
      (varint_bytes (of_nat (length ?es)) @ exceptions_wire 0 ?es @ rest) = Inr (of_nat (length ?es), exceptions_wire 0 ?es @ rest)"
    using length_exceptions_wire [of ?es 0] es
    by (simp add: read_bounded_varint_def reader_defs wire_reads unat_count)
  show ?thesis
    using s room n text_bytes es next_ex items bound from_utf8_text [OF its]
    by (cases "list_all is_ascii_byte (text_wire its)")
      (simp_all add: decode_run_def run_wire_def reader_defs wire_reads unat_count case_prod_beta Let_def del: nth_opt_Some)
qed

end
