(* ===== verification/Row_Run_Encode.thy ===== *)
theory Row_Run_Encode
  imports Row_Run_Decode
begin

text \<open>
  What the encoder of one run writes: the text and the exceptions of a list of items whose cells are the
  run's cells as the encoding carries them, without image data. The grouping of equal ASCII cells and
  of equal wider items into one item with a repeat count is followed loop by loop.
\<close>

section \<open>A cell as the encoding carries it\<close>

definition wire_cell :: "cell \<Rightarrow> cell" where
  "wire_cell c =
     fold push_combining (list_encoded_combining_characters c)
       (from_character (character c) (display_width c) (cell_style c))"

definition cell_ok :: "cell \<Rightarrow> bool" where
  "cell_ok c \<longleftrightarrow>
     is_scalar_value (character c) \<and> display_width c \<le> 2 \<and>
     list_all is_scalar_value (list_encoded_combining_characters c) \<and>
     length (list_encoded_combining_characters c) \<le> MAX_GRAPHEME_CONTINUATION_COUNT \<and> style_ok (cell_style c)"

definition plain_ascii_cell :: "cell \<Rightarrow> bool" where
  "plain_ascii_cell c \<longleftrightarrow> is_ascii_char (character c) \<and> is_plain_narrow_cell c"

lemma wire_cell_plain: "is_plain_narrow_cell c \<Longrightarrow> wire_cell c = from_character (character c) 1 (cell_style c)"
  by (simp add: wire_cell_def is_plain_narrow_cell_def)

section \<open>Extending a run\<close>

text \<open>\<open>r'\<close> is \<open>r\<close> with the items \<open>its\<close> written after what it holds.\<close>

definition extends :: "run_encoder \<Rightarrow> run_item list \<Rightarrow> run_encoder \<Rightarrow> bool" where
  "extends r its r' \<longleftrightarrow>
     (let es = run_exception_list (next_item_index r) its in
      run_text r' = run_text r @ text_wire its \<and>
      run_exceptions r' = run_exceptions r @ exceptions_wire (previous_exception_item_index r) es \<and>
      exception_count r' = exception_count r + length es \<and>
      previous_exception_item_index r' =
        (if es = [] then previous_exception_item_index r else exception_item_index (last es)) \<and>
      next_item_index r' = next_item_index r + length its)"

lemma exceptions_wire_append:
  "exceptions_wire prev (xs @ ys) =
     exceptions_wire prev xs @ exceptions_wire (if xs = [] then prev else exception_item_index (last xs)) ys"
  by (induction prev xs rule: exceptions_wire.induct) simp_all

lemma extends_refl: "extends r [] r"
  by (simp add: extends_def)

lemma extends_trans: "extends r xs r1 \<Longrightarrow> extends r1 ys r2 \<Longrightarrow> extends r (xs @ ys) r2"
  by (auto simp: extends_def Let_def run_exception_list_append exceptions_wire_append)

lemma extends_text_byte_count [simp]: "extends r its (r'\<lparr>run_text_byte_count := n\<rparr>) \<longleftrightarrow> extends r its r'"
  by (simp add: extends_def)

definition plain_of :: "cell \<Rightarrow> run_item" where
  "plain_of c = \<lparr>it_character = character c, it_shape = Single 1, it_marks = [], it_repeat = 1\<rparr>"

lemma plain_of_plain [simp]: "plain_item (plain_of c)"
  by (simp add: plain_of_def item_exceptions_def)

lemma plain_of_exceptions [simp]: "run_exception_list i (map plain_of cs) = []"
  by (rule plain_items_no_exception) (simp add: list_all_iff)

lemma plain_of_text:
  "list_all plain_ascii_cell cs \<Longrightarrow> text_wire (map plain_of cs) = map (\<lambda>c. of_nat (character c)) cs"
  by (induction cs) (simp_all add: plain_of_def plain_ascii_cell_def is_ascii_char_def ascii_encode)

lemma extends_ascii_text:
  assumes "list_all plain_ascii_cell cs"
  shows "extends r (map plain_of cs)
    (r\<lparr>run_text := push_ascii_cell_text cs (run_text r), next_item_index := next_item_index r + length cs\<rparr>)"
  using plain_of_text [OF assms] by (simp add: extends_def push_ascii_cell_text_def)

definition repeat_item :: "cell \<Rightarrow> nat \<Rightarrow> run_item" where
  "repeat_item c n = \<lparr>it_character = character c, it_shape = Single 1, it_marks = [], it_repeat = n\<rparr>"

lemma extends_repeated_group:
  assumes "list_all plain_ascii_cell u" "gs < length u" "1 < length u - gs"
  shows "extends r (map plain_of (take gs u) @ [repeat_item (u ! gs) (length u - gs)])
    (count_exception (write_repeated_ascii_group u gs r))"
proof -
  have "text_wire (map plain_of (take (Suc gs) u)) = map (\<lambda>c. of_nat (character c)) (take (Suc gs) u)"
    using assms(1) by (intro plain_of_text) (metis append_take_drop_id list_all_append)
  moreover have "text_wire (map plain_of (take (Suc gs) u)) = text_wire (map plain_of (take gs u)) @ encode_utf8 (character (u ! gs))"
    using assms(2) by (simp add: take_Suc_conv_app_nth plain_of_def)
  ultimately show ?thesis using assms(2,3)
    by (auto simp: extends_def Let_def write_repeated_ascii_group_def write_exception_header_def write_exception_number_def
        count_exception_def push_ascii_cell_text_def run_exception_list_append repeat_item_def item_exceptions_def
        payload_wire_def write_varint_append [of _ "run_exceptions r"] write_varint_append [of _ "_ @ _"])
qed

section \<open>Stretches of ASCII cells\<close>

lemma plain_of_cells: "is_plain_narrow_cell c \<Longrightarrow> cell_style c = s \<Longrightarrow> item_cells s (plain_of c) = [wire_cell c]"
  by (simp add: plain_item_cells plain_of_def [of c, symmetric] wire_cell_plain) (simp add: plain_of_def)

lemma plain_of_all_cells:
  "list_all plain_ascii_cell cs \<Longrightarrow> list_all (\<lambda>c. cell_style c = s) cs \<Longrightarrow>
     concat (map (item_cells s) (map plain_of cs)) = map wire_cell cs"
  by (induction cs) (simp_all add: plain_of_cells plain_ascii_cell_def)

lemma repeat_item_cells: "item_cells s (repeat_item c n) = replicate n (from_character (character c) 1 s)"
  by (induction n) (simp_all add: item_cells_def build_item_cells_def repeat_item_def Let_def)

lemma plain_of_ok: "plain_ascii_cell c \<Longrightarrow> item_ok (plain_of c)"
  by (simp add: item_ok_def plain_of_def plain_ascii_cell_def is_ascii_char_def is_scalar_value_def MAX_GRAPHEME_CONTINUATION_COUNT_def)

lemma repeat_item_ok: "plain_ascii_cell c \<Longrightarrow> 0 < n \<Longrightarrow> n < 2 ^ 32 \<Longrightarrow> item_ok (repeat_item c n)"
  by (simp add: item_ok_def repeat_item_def plain_ascii_cell_def is_ascii_char_def is_scalar_value_def MAX_GRAPHEME_CONTINUATION_COUNT_def)

text \<open>The cells not written yet, and the last group of equal characters among them.\<close>

definition group_ok :: "cell list \<Rightarrow> nat \<Rightarrow> nat \<Rightarrow> bool" where
  "group_ok u gs ch \<longleftrightarrow> list_all plain_ascii_cell u \<and> gs \<le> length u \<and> list_all (\<lambda>c. character c = ch) (drop gs u)"

text \<open>\<open>its\<close> are well-formed items whose cells are \<open>cs\<close>.\<close>

definition items_for :: "style \<Rightarrow> run_item list \<Rightarrow> cell list \<Rightarrow> bool" where
  "items_for s its cs \<longleftrightarrow> list_all item_ok its \<and> concat (map (item_cells s) its) = map wire_cell cs"

lemma items_for_append: "items_for s xs cs \<Longrightarrow> items_for s ys ds \<Longrightarrow> items_for s (xs @ ys) (cs @ ds)"
  by (simp add: items_for_def)

lemma write_group_items:
  assumes u: "group_ok u gs ch" "list_all (\<lambda>c. cell_style c = s) u" "length u < 2 ^ 32" and n: "MIN_REPEATED_ITEM_COUNT \<le> length u - gs"
  shows "\<exists>its. extends r its (count_exception (write_repeated_ascii_group u gs r)) \<and> items_for s its u"
proof -
  let ?its = "map plain_of (take gs u) @ [repeat_item (u ! gs) (length u - gs)]"
  have gs: "gs < length u" "1 < length u - gs" using n by (simp_all add: MIN_REPEATED_ITEM_COUNT_def)
  have plain: "list_all plain_ascii_cell u" using u(1) by (simp add: group_ok_def)
  then have parts: "list_all plain_ascii_cell (take gs u)" "list_all plain_ascii_cell (drop gs u)"
    "list_all (\<lambda>c. cell_style c = s) (take gs u)" "list_all (\<lambda>c. cell_style c = s) (drop gs u)"
    using u(2) by (metis append_take_drop_id list_all_append)+
  have "map wire_cell (drop gs u) = replicate (length u - gs) (from_character ch 1 s)"
    using u(1) parts(2,4) by (intro replicate_eqI) (auto simp: group_ok_def list_all_iff plain_ascii_cell_def wire_cell_plain)
  moreover have "character (u ! gs) = ch"
    using u(1) gs(1) by (auto simp: group_ok_def Cons_nth_drop_Suc [symmetric])
  ultimately have "concat (map (item_cells s) ?its) = map wire_cell (take gs u) @ map wire_cell (drop gs u)"
    using plain_of_all_cells [OF parts(1,3)] by (simp add: repeat_item_cells)
  also have "\<dots> = map wire_cell u" by (metis append_take_drop_id map_append)
  finally have "concat (map (item_cells s) ?its) = map wire_cell u" .
  moreover have "list_all item_ok ?its"
  proof -
    have "item_ok (repeat_item (u ! gs) (length u - gs))"
      using plain gs u(3) by (intro repeat_item_ok) (auto simp: list_all_length)
    then show ?thesis using parts(1) plain_of_ok by (auto simp: list_all_iff)
  qed
  ultimately show ?thesis using extends_repeated_group [OF plain gs] unfolding items_for_def by blast
qed

lemma finish_ascii_items:
  assumes "group_ok u gs ch" "list_all (\<lambda>c. cell_style c = s) u" "length u < 2 ^ 32"
  shows "\<exists>its. extends r its (finish_ascii_cells u gs r) \<and> items_for s its u"
proof (cases "MIN_REPEATED_ITEM_COUNT \<le> length u - gs")
  case True
  with write_group_items [OF assms True, of r] show ?thesis by (simp add: finish_ascii_cells_def)
next
  case False
  have plain: "list_all plain_ascii_cell u" using assms(1) by (simp add: group_ok_def)
  then have "items_for s (map plain_of u) u"
    using plain_of_all_cells [OF plain assms(2)] plain_of_ok by (auto simp: items_for_def list_all_iff)
  with extends_ascii_text [OF plain, of r] False show ?thesis by (auto simp: finish_ascii_cells_def)
qed

lemma encode_ascii_cells_items:
  assumes "encode_ascii_cells plain cells u gs ch r = (r', u', gs', rest)" "group_ok u gs ch"
    and "list_all (\<lambda>c. cell_style c = s) (u @ cells)" "length (u @ cells) < 2 ^ 32"
    and "plain \<Longrightarrow> list_all plain_ascii_cell cells"
  shows "\<exists>its consumed. cells = consumed @ rest \<and> extends r its (finish_ascii_cells u' gs' r') \<and> items_for s its (u @ consumed)"
  using assms
proof (induction plain cells u gs ch r rule: encode_ascii_cells.induct)
  case (1 plain u gs ch r)
  then show ?case using finish_ascii_items [of u gs ch s r] by simp
next
  case (2 plain c cells u gs ch r)
  let ?stop = "\<not> plain \<and> (\<not> is_ascii_char (character c) \<or> \<not> is_plain_narrow_cell c)"
  show ?case
  proof (cases ?stop)
    case True
    with 2 show ?thesis using finish_ascii_items [of u gs ch s r] by auto
  next
    case False
    then have c: "plain_ascii_cell c" using "2.prems"(5) by (auto simp: plain_ascii_cell_def)
    have all: "list_all (\<lambda>c. cell_style c = s) ([c] @ cells)" "length ([c] @ cells) < 2 ^ 32"
      "plain \<Longrightarrow> list_all plain_ascii_cell cells" "list_all (\<lambda>c. cell_style c = s) u" "length u < 2 ^ 32"
      using "2.prems"(3-5) by auto
    have u: "list_all plain_ascii_cell (u @ [c])" using "2.prems"(2) c by (simp add: group_ok_def)
    consider (group) "character c \<noteq> ch" "MIN_REPEATED_ITEM_COUNT \<le> length u - gs"
      | (new) "character c \<noteq> ch" "\<not> MIN_REPEATED_ITEM_COUNT \<le> length u - gs" | (same) "character c = ch" by blast
    then show ?thesis
    proof cases
      case group
      let ?r = "count_exception (write_repeated_ascii_group u gs r)"
      obtain its1 where its1: "extends r its1 ?r" "items_for s its1 u"
        using write_group_items [OF "2.prems"(2) all(4,5) group(2)] by blast
      have "group_ok [c] 0 (character c)" using c by (simp add: group_ok_def)
      with "2.IH"(1) [OF False group] "2.prems"(1) False group all obtain its2 consumed where
        its2: "cells = consumed @ rest" "extends ?r its2 (finish_ascii_cells u' gs' r')" "items_for s its2 ([c] @ consumed)"
        by auto
      have "extends r (its1 @ its2) (finish_ascii_cells u' gs' r')" "items_for s (its1 @ its2) (u @ [c] @ consumed)"
        using extends_trans [OF its1(1) its2(2)] items_for_append [OF its1(2) its2(3)] by simp_all
      with its2(1) show ?thesis by auto
    next
      case new
      have "group_ok (u @ [c]) (length u) (character c)" using u by (simp add: group_ok_def)
      with "2.IH"(2) [OF False new] "2.prems" False new obtain its consumed where
        "cells = consumed @ rest" "extends r its (finish_ascii_cells u' gs' r')" "items_for s its ((u @ [c]) @ consumed)"
        by auto
      then show ?thesis by (intro exI [of _ its] exI [of _ "c # consumed"]) simp
    next
      case same
      then have "group_ok (u @ [c]) gs ch" using u "2.prems"(2) by (auto simp: group_ok_def)
      with "2.IH"(3) [OF False] "2.prems" False same obtain its consumed where
        "cells = consumed @ rest" "extends r its (finish_ascii_cells u' gs' r')" "items_for s its ((u @ [c]) @ consumed)"
        by auto
      then show ?thesis by (intro exI [of _ its] exI [of _ "c # consumed"]) simp
    qed
  qed
qed

section \<open>Other items\<close>

text \<open>The item the encoder writes for a cell, or for a wide cell and its continuation cell.\<close>

definition item_of :: "cell \<Rightarrow> bool \<Rightarrow> nat \<Rightarrow> run_item" where
  "item_of c is_wide_pair n =
     \<lparr>it_character = character c, it_shape = (if is_wide_pair then WidePair else Single (display_width c)),
      it_marks = list_encoded_combining_characters c, it_repeat = n\<rparr>"

lemma extends_encode_item:
  "0 < n \<Longrightarrow> extends r [item_of c is_wide_pair n] (encode_item c is_wide_pair n r)"
  by (cases is_wide_pair; cases "display_width c = 1"; cases "list_encoded_combining_characters c = []"; cases "n = 1")
    (auto simp: extends_def encode_item_def item_of_def item_exceptions_def Let_def write_exception_header_def
      write_exception_number_def count_exception_def payload_wire_def write_varint_append [of _ "run_exceptions r"]
      write_varint_append [of _ "_ @ _"])

text \<open>A function of cells that cells with the same encoding agree on.\<close>

definition encoding_function :: "(cell \<Rightarrow> 'a) \<Rightarrow> cell list \<Rightarrow> bool" where
  "encoding_function f cells \<longleftrightarrow>
     (\<forall>a \<in> set cells. \<forall>b \<in> set cells. character a = character b \<and> display_width a = display_width b \<and>
        list_encoded_combining_characters a = list_encoded_combining_characters b \<longrightarrow> f a = f b)"

lemma wire_cell_encoding_function: "list_all (\<lambda>c. cell_style c = s) cells \<Longrightarrow> encoding_function wire_cell cells"
  by (simp add: encoding_function_def wire_cell_def list_all_iff)

lemma encoding_function_subset: "encoding_function f cells \<Longrightarrow> set cells' \<subseteq> set cells \<Longrightarrow> encoding_function f cells'"
  unfolding encoding_function_def by blast

lemma is_item_encoding_equal_map:
  assumes "is_item_encoding_equal xs ys" "length xs = length ys" "encoding_function f (xs @ ys)"
  shows "map f ys = map f xs"
  using assms(2,1,3)
proof (induction xs ys rule: list_induct2)
  case (Cons x xs y ys)
  have same: "character y = character x" "display_width y = display_width x"
    "list_encoded_combining_characters y = list_encoded_combining_characters x" "is_item_encoding_equal xs ys"
    using Cons.prems(1) by (simp_all add: is_item_encoding_equal_def)
  have "\<forall>a \<in> set (x # xs @ y # ys). \<forall>b \<in> set (x # xs @ y # ys). character a = character b \<and> display_width a = display_width b \<and>
      list_encoded_combining_characters a = list_encoded_combining_characters b \<longrightarrow> f a = f b"
    using Cons.prems(2) unfolding encoding_function_def by (simp only: append_Cons)
  then have "f y = f x" using same(1-3) by (meson in_set_conv_decomp list.set_intros(1,2) append_Cons)
  moreover have "encoding_function f (xs @ ys)"
    by (rule encoding_function_subset [OF Cons.prems(2)]) auto
  then have "map f ys = map f xs" by (rule Cons.IH [OF same(4)])
  ultimately show ?case by simp
qed simp

lemma count_repeats_map:
  assumes "encoding_function f (item @ cells)" "k \<le> count_repeats item cells"
  shows "k * length item \<le> length cells \<and> map f (take (k * length item) cells) = concat (replicate k (map f item))"
  using assms
proof (induction item cells arbitrary: k rule: count_repeats.induct)
  case (1 item cells)
  show ?case
  proof (cases k)
    case (Suc m)
    let ?n = "length item"
    have step: "item \<noteq> []" "?n \<le> length cells" "is_item_encoding_equal item (take ?n cells)"
      using "1.prems"(2) Suc by (auto simp: count_repeats.simps [of item cells] split: if_splits)
    then have "m \<le> count_repeats item (drop ?n cells)"
      using "1.prems"(2) Suc by (simp add: count_repeats.simps [of item cells])
    moreover have parts: "encoding_function f (item @ take ?n cells)" "encoding_function f (item @ drop ?n cells)"
      by (rule encoding_function_subset [OF "1.prems"(1)], auto dest: in_set_takeD in_set_dropD)+
    ultimately have IH: "m * ?n \<le> length (drop ?n cells)"
      "map f (take (m * ?n) (drop ?n cells)) = concat (replicate m (map f item))"
      using "1.IH" [of m] step by simp_all
    have "map f (take ?n cells) = map f item"
      using step parts(1) by (intro is_item_encoding_equal_map) simp_all
    with IH step(2) Suc show ?thesis by (simp add: take_add)
  qed simp
qed

text \<open>The cells of \<open>n\<close> equal items at the start of a run, when the encoder counted that many.\<close>

lemma repeated_item_map:
  assumes cells: "encoding_function f cells" "m \<le> length cells" "0 < m"
    and count: "0 < n" "n \<le> 1 + count_repeats (take m cells) (drop m cells)"
  shows "m * n \<le> length cells" "map f (take (m * n) cells) = concat (replicate n (map f (take m cells)))"
proof -
  obtain k where k: "n = Suc k" using count(1) by (cases n) auto
  have "k * length (take m cells) \<le> length (drop m cells) \<and>
      map f (take (k * length (take m cells)) (drop m cells)) = concat (replicate k (map f (take m cells)))"
    using cells(1) count(2) k by (intro count_repeats_map) simp_all
  with cells(2) have repeats: "k * m \<le> length cells - m"
    "map f (take (k * m) (drop m cells)) = concat (replicate k (map f (take m cells)))" by simp_all
  have "m * n = m + k * m" using k by simp
  then show "m * n \<le> length cells" "map f (take (m * n) cells) = concat (replicate n (map f (take m cells)))"
    using repeats(1) cells(2) by (simp, simp only: take_add map_append repeats(2) k replicate_Suc concat.simps)
qed

lemma item_of_cells:
  assumes "list_all (\<lambda>c. cell_style c = s) cells" "cells \<noteq> []"
    and "is_wide_pair \<longleftrightarrow> display_width (hd cells) = 2 \<and> tl cells \<noteq> [] \<and> is_standard_continuation_cell (hd (tl cells))"
  shows "item_cells s (item_of (hd cells) is_wide_pair n) =
    concat (replicate n (map wire_cell (take (if is_wide_pair then 2 else 1) cells)))"
proof -
  obtain c cells' where cells: "cells = c # cells'" using assms(2) by (cases cells) auto
  show ?thesis
  proof (cases is_wide_pair)
    case True
    then obtain c' rest where "cells' = c' # rest" "display_width c = 2" "is_standard_continuation_cell c'"
      using assms(3) cells by (cases cells') auto
    with True cells assms(1) show ?thesis
      by (simp add: item_cells_def item_of_def build_item_cells_def Let_def wire_cell_def is_standard_continuation_cell_def)
  next
    case False
    with cells assms(1) show ?thesis
      by (simp add: item_cells_def item_of_def build_item_cells_def Let_def wire_cell_def)
  qed
qed

lemma item_of_ok: "cell_ok c \<Longrightarrow> 0 < n \<Longrightarrow> n < 2 ^ 32 \<Longrightarrow> item_ok (item_of c is_wide_pair n)"
  by (simp add: cell_ok_def item_ok_def item_of_def)

lemma encode_other_item:
  assumes cells: "list_all (\<lambda>c. cell_style c = s) cells" "list_all cell_ok cells" "length cells < 2 ^ 32" "cells \<noteq> []"
    and pair: "is_wide_pair \<longleftrightarrow> display_width (hd cells) = 2 \<and> tl cells \<noteq> [] \<and> is_standard_continuation_cell (hd (tl cells))"
    and count: "m = (if is_wide_pair then 2 else 1)" "0 < n" "n \<le> 1 + count_repeats (take m cells) (drop m cells)"
  shows "items_for s [item_of (hd cells) is_wide_pair n] (take (m * n) cells) \<and> m * n \<le> length cells"
proof -
  have m: "0 < m" "m \<le> length cells" using pair count(1) cells(4) by (auto simp: Suc_le_eq neq_Nil_conv split: if_splits)
  note fits = repeated_item_map [OF wire_cell_encoding_function [OF cells(1)] m(2,1) count(2,3)]
  have "n \<le> length cells" using fits(1) m by (cases m) auto
  moreover have "cell_ok (hd cells)" using cells(2,4) by (cases cells) auto
  ultimately have "item_ok (item_of (hd cells) is_wide_pair n)" using cells(3) count(2) by (intro item_of_ok) simp_all
  with fits item_of_cells [OF cells(1,4) pair, of n] count(1) show ?thesis by (simp add: items_for_def)
qed

lemma list_all_drop: "list_all p xs \<Longrightarrow> list_all p (drop n xs)"
  by (auto simp: list_all_iff dest: in_set_dropD)

lemma extends_from_text_byte_count [simp]: "extends (r\<lparr>run_text_byte_count := n\<rparr>) its r' \<longleftrightarrow> extends r its r'"
  by (simp add: extends_def)

lemma encode_run_cells_items:
  assumes "list_all (\<lambda>c. cell_style c = s) cells" "list_all cell_ok cells" "length cells < 2 ^ 32"
    and "plain \<Longrightarrow> list_all plain_ascii_cell cells"
  shows "\<exists>its. extends r its (encode_run_cells plain cells r) \<and> items_for s its cells"
  using assms
proof (induction cells arbitrary: r rule: measure_induct_rule [of length])
  case (less cells)
  show ?case
  proof (cases cells)
    case Nil
    then have "extends r [] (encode_run_cells plain cells r) \<and> items_for s [] cells"
      by (simp add: encode_run_cells.simps items_for_def extends_refl)
    then show ?thesis by blast
  next
    case (Cons c cells')
    obtain r1 u gs rest where ascii: "encode_ascii_cells plain cells [] 0 0 r = (r1, u, gs, rest)"
      by (cases "encode_ascii_cells plain cells [] 0 0 r") auto
    obtain its1 consumed where its1: "cells = consumed @ rest" "extends r its1 (finish_ascii_cells u gs r1)" "items_for s its1 consumed"
      using encode_ascii_cells_items [OF ascii, of s] less.prems by (auto simp: group_ok_def)
    show ?thesis
    proof (cases "length rest < length cells")
      case True
      let ?r2 = "finish_ascii_cells u gs r1"
      let ?r3 = "?r2\<lparr>run_text_byte_count := run_text_byte_count ?r2 + (length cells - length rest)\<rparr>"
      have "\<exists>its. extends ?r3 its (encode_run_cells plain rest ?r3) \<and> items_for s its rest"
        using True its1(1) less.prems by (intro less.IH) auto
      then obtain its2 where "extends ?r2 its2 (encode_run_cells plain rest ?r3)" "items_for s its2 rest" by auto
      with its1 have "extends r (its1 @ its2) (encode_run_cells plain rest ?r3)" "items_for s (its1 @ its2) cells"
        using extends_trans items_for_append by blast+
      moreover have "encode_run_cells plain cells r = encode_run_cells plain rest ?r3"
        using ascii True Cons by (subst encode_run_cells.simps) (simp add: Let_def)
      ultimately show ?thesis by auto
    next
      case False
      define pair where "pair \<longleftrightarrow> display_width c = 2 \<and> cells' \<noteq> [] \<and> is_standard_continuation_cell (hd cells')"
      define m where "m = (if pair then 2 else 1 :: nat)"
      define counted where "counted = 1 + count_repeats (take m cells) (drop m cells)"
      define n where "n = (if counted < MIN_REPEATED_ITEM_COUNT then 1 else counted)"
      let ?r = "encode_item c pair n r"
      have n: "0 < n" "n \<le> counted" by (simp_all add: n_def counted_def)
      have item: "items_for s [item_of c pair n] (take (m * n) cells)" "m * n \<le> length cells"
        using encode_other_item [of s cells pair m n] less.prems(1-3) n Cons by (simp_all add: pair_def m_def counted_def)
      have run: "encode_run_cells plain cells r = encode_run_cells plain (drop (m * n) cells) ?r"
        using ascii False Cons
        by (subst encode_run_cells.simps) (simp add: Let_def pair_def [symmetric] m_def [symmetric] counted_def n_def)
      have "\<exists>its. extends ?r its (encode_run_cells plain (drop (m * n) cells) ?r) \<and> items_for s its (drop (m * n) cells)"
      proof (rule less.IH)
        have "0 < m * n" using n by (simp add: m_def)
        with Cons show "length (drop (m * n) cells) < length cells" by simp
      qed (use less.prems in \<open>simp_all add: list_all_drop\<close>)
      then obtain its2 where "extends ?r its2 (encode_run_cells plain (drop (m * n) cells) ?r)" "items_for s its2 (drop (m * n) cells)"
        by blast
      then have "extends r ([item_of c pair n] @ its2) (encode_run_cells plain cells r)"
        "items_for s ([item_of c pair n] @ its2) (take (m * n) cells @ drop (m * n) cells)"
        unfolding run using extends_trans extends_encode_item [OF n(1)] items_for_append [OF item(1)] by blast+
      then show ?thesis by auto
    qed
  qed
qed

section \<open>One run\<close>

lemma encode_run_wire:
  assumes "list_all (\<lambda>c. cell_style c = s) cells" "list_all cell_ok cells" "length cells < 2 ^ 32"
    and "plain \<Longrightarrow> list_all plain_ascii_cell cells"
  shows "\<exists>its. fst (encode_run cells index plain run_bytes) = run_bytes @ run_wire index its \<and> items_for s its cells"
proof -
  obtain its where its: "extends run_encoder_new its (encode_run_cells plain cells run_encoder_new)" "items_for s its cells"
    using encode_run_cells_items [OF assms] by blast
  have "items_cell_count its = length cells"
    using its(2) length_items_cells [of s its] by (simp add: items_for_def)
  with its(1) have "fst (encode_run cells index plain run_bytes) = run_bytes @ run_wire index its"
    by (simp add: encode_run_def Let_def extends_def run_encoder_new_def run_wire_def
        write_varint_append [of _ run_bytes] write_varint_append [of _ "_ @ _"])
  with its(2) show ?thesis by blast
qed

end
