(* ===== verification/Row_Roundtrip.thy ===== *)
theory Row_Roundtrip
  imports Row_Run_Encode
begin

text \<open>
  The row encoding as a whole: the style table and its keys, style entries, the runs of a row, the
  header, and with them the round trip of a row through its bytes.
\<close>

section \<open>Style keys\<close>

lemma color_key_consts: "(0x01000000 :: u32) = push_bit 24 1" "(0x02000000 :: u32) = push_bit 25 1"
  by (simp_all add: push_bit_eq_mult)

lemma color_key_kind:
  "drop_bit 24 (compute_color_key c) = (case c of Color_Default \<Rightarrow> 0 | Color_Indexed i \<Rightarrow> 1 | Color_Rgb r g b \<Rightarrow> 2)"
proof -
  have two: "(2 :: u32) = push_bit 1 1" by (simp add: push_bit_eq_mult)
  show ?thesis
    unfolding compute_color_key_def color_key_consts two
    by (cases c) (auto simp: bit_eq_iff bit_simps dest: bit_imp_le_length)
qed

lemma bit_color_kinds:
  "bit (16777216 :: int) n \<longleftrightarrow> n = 24" "bit (33554432 :: int) n \<longleftrightarrow> n = 25"
  "bit (512 :: int) n \<longleftrightarrow> n = 9" "bit (131072 :: int) n \<longleftrightarrow> n = 17"
proof -
  have power: "bit (2 ^ k :: int) n \<longleftrightarrow> n = k" for k by (auto simp: bit_exp_iff)
  show "bit (16777216 :: int) n \<longleftrightarrow> n = 24" using power [of 24] by simp
  show "bit (33554432 :: int) n \<longleftrightarrow> n = 25" using power [of 25] by simp
  show "bit (512 :: int) n \<longleftrightarrow> n = 9" using power [of 9] by simp
  show "bit (131072 :: int) n \<longleftrightarrow> n = 17" using power [of 17] by simp
qed

lemma color_key_indexed: "ucast (compute_color_key (Color_Indexed i)) = i"
  unfolding compute_color_key_def color_key_consts color.case
  by (rule bit_eqI) (auto simp: bit_simps bit_color_kinds dest: bit_imp_le_length)

lemma color_key_rgb:
  "ucast (drop_bit 16 (compute_color_key (Color_Rgb r g b))) = r"
  "ucast (drop_bit 8 (compute_color_key (Color_Rgb r g b))) = g"
  "ucast (compute_color_key (Color_Rgb r g b)) = b"
  unfolding compute_color_key_def color_key_consts color.case
  by (rule bit_eqI, auto simp: bit_simps bit_color_kinds dest: bit_imp_le_length)+

lemma compute_color_key_inject: "compute_color_key a = compute_color_key b \<longleftrightarrow> a = b"
proof
  assume key: "compute_color_key a = compute_color_key b"
  have "drop_bit 24 (compute_color_key a) = drop_bit 24 (compute_color_key b)" using key by simp
  then show "a = b"
    using key color_key_indexed color_key_rgb
    by (cases a; cases b) (simp_all add: color_key_kind, metis+)
qed simp

definition underline_key :: "color option \<Rightarrow> u32" where
  "underline_key c = (case c of None \<Rightarrow> 0 | Some c \<Rightarrow> 1 + compute_color_key c)"

lemma underline_key_inject: "underline_key a = underline_key b \<longleftrightarrow> a = b"
proof -
  have "1 + compute_color_key c \<noteq> 0" for c
  proof
    assume "1 + compute_color_key c = 0"
    then have "compute_color_key c = 0xFFFFFFFF" by (simp add: add_eq_0_iff)
    then have "drop_bit 24 (compute_color_key c) = 255" by (simp add: drop_bit_eq_div)
    then show False by (simp add: color_key_kind split: color.splits)
  qed
  then have "1 + compute_color_key c \<noteq> 0" "0 \<noteq> 1 + compute_color_key c" for c by (simp, metis)
  then show ?thesis
    by (cases a; cases b) (simp_all add: underline_key_def compute_color_key_inject)
qed

lemma compute_style_key_parts:
  "ucast (compute_style_key s) = compute_color_key (foreground_color s)"
  "ucast (drop_bit 32 (compute_style_key s)) = compute_color_key (background_color s)"
  "ucast (drop_bit 64 (compute_style_key s)) = get_attribute_word (attributes s)"
  "ucast (drop_bit 80 (compute_style_key s)) = underline_key (underline_color s)"
  unfolding compute_style_key_def Let_def underline_key_def [symmetric]
  by (rule bit_eqI, auto simp: bit_simps dest: bit_imp_le_length)+

lemma compute_style_key_inject: "compute_style_key a = compute_style_key b \<longleftrightarrow> a = b"
proof
  assume key: "compute_style_key a = compute_style_key b"
  have "foreground_color a = foreground_color b" "background_color a = background_color b"
    "underline_color a = underline_color b" "get_attribute_word (attributes a) = get_attribute_word (attributes b)"
    using compute_style_key_parts [of a] compute_style_key_parts [of b] key
    by (auto simp flip: compute_color_key_inject underline_key_inject)
  then show "a = b" by (simp add: style.equality attribute_flags.expand)
qed simp

section \<open>The style table\<close>

text \<open>
  The table finds a style by its key, in a list while it is short and in a map afterwards. What it
  computes is the index of the style in the list of its styles.
\<close>

abbreviation index_in :: "'a list \<Rightarrow> 'a \<Rightarrow> nat option" where
  "index_in xs x \<equiv> position (\<lambda>y. y = x) xs"

definition table_ok :: "row_style_table \<Rightarrow> bool" where
  "table_ok t \<longleftrightarrow>
     distinct (table_styles t) \<and> style_keys t = map compute_style_key (table_styles t) \<and>
     style_index_by_key t =
       (if length (table_styles t) \<le> MAX_LINEAR_STYLE_SEARCH_COUNT then Map.empty else index_in (style_keys t))"

lemma index_in_snoc: "x \<notin> set xs \<Longrightarrow> index_in (xs @ [x]) = (index_in xs)(x \<mapsto> length xs)"
  by (induction xs) (auto simp: fun_eq_iff)

lemma index_keys_index_in: "distinct keys \<Longrightarrow> index_keys keys = index_in keys"
proof (induction keys rule: rev_induct)
  case (snoc k keys)
  then have "index_keys (keys @ [k]) = (index_keys keys)(k \<mapsto> length keys)" by (simp add: index_keys_def)
  moreover have "index_in (keys @ [k]) = (index_in keys)(k \<mapsto> length keys)"
    using snoc.prems by (intro index_in_snoc) simp
  moreover have "index_keys keys = index_in keys" using snoc by simp
  ultimately show ?case by (simp only:)
qed (simp add: index_keys_def fun_eq_iff)

lemma index_in_map: "inj f \<Longrightarrow> index_in (map f xs) (f x) = index_in xs x"
  by (induction xs) (auto simp: inj_eq)

lemma inj_style_key: "inj compute_style_key"
  by (rule injI) (simp add: compute_style_key_inject)

lemma find_or_add_style_index:
  assumes "table_ok t"
  shows "find_or_add_style s t =
    (case index_in (table_styles t) s of
       Some i \<Rightarrow> (t, i)
     | None \<Rightarrow> (fst (find_or_add_style s t), length (table_styles t)))"
    and "s \<notin> set (table_styles t) \<Longrightarrow> table_styles (fst (find_or_add_style s t)) = table_styles t @ [s]"
    and "table_ok (fst (find_or_add_style s t))"
proof -
  have keys: "style_keys t = map compute_style_key (table_styles t)" using assms by (simp add: table_ok_def)
  have "(if length (style_keys t) \<le> MAX_LINEAR_STYLE_SEARCH_COUNT then index_in (style_keys t) (compute_style_key s)
      else style_index_by_key t (compute_style_key s)) = index_in (style_keys t) (compute_style_key s)"
    using assms by (simp add: table_ok_def)
  also have "\<dots> = index_in (table_styles t) s" by (simp only: keys index_in_map inj_style_key)
  finally have found: "(if length (style_keys t) \<le> MAX_LINEAR_STYLE_SEARCH_COUNT then index_in (style_keys t) (compute_style_key s)
      else style_index_by_key t (compute_style_key s)) = index_in (table_styles t) s" .
  show "find_or_add_style s t = (case index_in (table_styles t) s of Some i \<Rightarrow> (t, i)
      | None \<Rightarrow> (fst (find_or_add_style s t), length (table_styles t)))"
    unfolding find_or_add_style_def Let_def found by (cases "index_in (table_styles t) s") (simp_all del: position_None)
  show "s \<notin> set (table_styles t) \<Longrightarrow> table_styles (fst (find_or_add_style s t)) = table_styles t @ [s]"
    unfolding find_or_add_style_def Let_def found by (auto split: option.split dest!: position_Some)
  have new: "s \<notin> set (table_styles t)" if "index_in (table_styles t) s = None" using that by auto
  have fresh: "compute_style_key s \<notin> set (style_keys t)" if "s \<notin> set (table_styles t)"
    using that by (auto simp: keys compute_style_key_inject)
  show "table_ok (fst (find_or_add_style s t))"
  proof (cases "index_in (table_styles t) s")
    case (Some i)
    then show ?thesis unfolding find_or_add_style_def Let_def found using assms by simp
  next
    case None
    have distinct: "distinct (style_keys t @ [compute_style_key s])"
      using assms fresh [OF new [OF None]] inj_style_key
      by (auto simp: keys table_ok_def distinct_map intro: inj_on_subset)
    show ?thesis
      using assms new [OF None] fresh [OF new [OF None]] index_keys_index_in [OF distinct] index_in_snoc [OF fresh [OF new [OF None]]]
      unfolding find_or_add_style_def Let_def found None
      by (auto simp: table_ok_def)
  qed
qed

section \<open>Style entries\<close>

definition color_wire :: "color \<Rightarrow> u8 list" where
  "color_wire c = write_color c []"

lemma write_color_append: "write_color c out = out @ color_wire c"
  by (cases c) (simp_all add: color_wire_def write_color_def write_varint_append [of _ out])

lemma small_varint: "v < 128 \<Longrightarrow> varint_bytes v = [ucast v]" for v :: u64
proof -
  assume "v < 128"
  then have v: "unat v < 2 ^ 7" by (simp add: word_less_nat_alt)
  then have "drop_bit 7 v = 0" by (simp add: drop_bit_eq_div unat_div flip: unat_eq_zero)
  then have "take_bit 7 v = v" by (rule drop_bit_0_take_bit)
  then have "v AND 0x7F = v" by (simp add: take_bit_eq_mask mask_eq_exp_minus_1)
  with \<open>drop_bit 7 v = 0\<close> show ?thesis by (simp add: varint_bytes_rec [of v])
qed

lemma color_wire_read [wire_reads]: "read_color (color_wire c @ rest) = Inr (c, rest)"
proof -
  have "read_row_bytes 3 (r # g # b # rest) = Inr ([r, g, b], rest)" for r g b
    using read_row_bytes_append [of "[r, g, b]" 3 rest] by simp
  then show ?thesis
    by (cases c) (simp_all add: color_wire_def write_color_def read_color_def reader_defs
        wire_reads COLOR_DEFAULT_KIND_def COLOR_INDEXED_KIND_def COLOR_RGB_KIND_def)
qed

lemma length_color_wire: "length (color_wire c) \<le> 4"
  by (cases c) (simp_all add: color_wire_def write_color_def small_varint
      COLOR_DEFAULT_KIND_def COLOR_INDEXED_KIND_def COLOR_RGB_KIND_def)

definition style_fields :: "style \<Rightarrow> u8 list" where
  "style_fields s =
     color_wire (foreground_color s) @ color_wire (background_color s) @
     varint_bytes (ucast (get_attribute_word (attributes s))) @
     (case underline_color s of None \<Rightarrow> varint_bytes 0 | Some c \<Rightarrow> varint_bytes 1 @ color_wire c)"

definition style_wire :: "style \<Rightarrow> u8 list" where
  "style_wire s = varint_bytes (of_nat (length (style_fields s))) @ style_fields s"

lemma length_style_fields: "length (style_fields s) < 128"
proof -
  have "length (varint_bytes (ucast (get_attribute_word (attributes s)))) \<le> 10"
    using length_varint_bytes by (simp add: MAX_VARINT_BYTE_COUNT_def)
  moreover have "length (case underline_color s of None \<Rightarrow> varint_bytes 0 | Some c \<Rightarrow> varint_bytes 1 @ color_wire c) \<le> 5"
    using length_color_wire by (simp add: small_varint split: option.split)
  ultimately show ?thesis
    using length_color_wire [of "foreground_color s"] length_color_wire [of "background_color s"]
    by (simp add: style_fields_def)
qed

lemma write_style_entry_append: "write_style_entry s out = out @ style_wire s"
proof -
  let ?n = "length (style_fields s)"
  have n: "unat (of_nat ?n :: u64) = ?n" using length_style_fields [of s] by (simp add: unat_count)
  then have "of_nat ?n < (128 :: u64)" using length_style_fields [of s] by (simp add: word_less_nat_alt)
  then have "varint_bytes (of_nat ?n) = [of_nat ?n]"
    using n by (simp add: small_varint) (metis of_nat_unat ucast_eq word_of_nat_eq_iff)
  moreover have "write_style_entry s out = (out @ [0] @ style_fields s)[length out := of_nat ?n]"
    by (cases "underline_color s")
      (simp_all add: write_style_entry_def Let_def style_fields_def write_color_append [of _ "_ @ _"]
        write_varint_append [of _ "_ @ _"])
  ultimately show ?thesis by (simp add: style_wire_def)
qed

lemma style_wire_read [wire_reads]:
  assumes "style_ok s"
  shows "read_style_entry (style_wire s @ rest) = Inr (s, rest)"
proof -
  have "unat (of_nat (length (style_fields s)) :: u64) = length (style_fields s)"
    using length_style_fields [of s] by (simp add: unat_count)
  moreover have "read_style_fields (style_fields s) = Inr s"
  proof -
    have "read_color (color_wire c) = Inr (c, [])" "read_row_varint (varint_bytes v) = Inr (v, [])" for c v
      using color_wire_read [of c "[]"] read_row_varint_bytes [of v "[]"] by simp_all
    moreover have "from_attribute_word (get_attribute_word (attributes s)) = attributes s"
      using assms by (simp add: style_ok_def from_attribute_word_same)
    ultimately show ?thesis
      by (cases "underline_color s") (simp_all add: read_style_fields_def style_fields_def reader_defs wire_reads)
  qed
  ultimately show ?thesis
    by (simp add: read_style_entry_def style_wire_def reader_defs wire_reads)
qed

section \<open>The runs of a row\<close>

text \<open>Runs, as style indices with items, that stand for a list of cells under a style table.\<close>

inductive runs_for :: "style list \<Rightarrow> (nat \<times> run_item list) list \<Rightarrow> cell list \<Rightarrow> bool" for styles where
  no_run: "runs_for styles [] []"
| one_run:
    "nth_opt styles index = Some s \<Longrightarrow> items_for s its cs \<Longrightarrow> cs \<noteq> [] \<Longrightarrow> runs_for styles runs ds \<Longrightarrow>
       runs_for styles ((index, its) # runs) (cs @ ds)"

lemma runs_for_length: "runs_for styles runs cells \<Longrightarrow> length runs \<le> length cells"
  by (induction rule: runs_for.induct) (auto simp: Suc_le_eq neq_Nil_conv)

abbreviation runs_wire :: "(nat \<times> run_item list) list \<Rightarrow> u8 list" where
  "runs_wire runs \<equiv> concat (map (\<lambda>(index, its). run_wire index its) runs)"

lemma length_runs_wire: "length runs \<le> length (runs_wire runs)"
  by (rule length_le_concat) (auto simp: run_wire_def)

lemma decode_runs_wire:
  assumes "runs_for styles runs cells" "length row_cells + length cells \<le> content" "content < 2 ^ 16" "length styles < 2 ^ 64"
  shows "decode_runs (length runs) styles column_count content row_cells (runs_wire runs @ rest) =
    Inr (row_cells @ map wire_cell cells, rest)"
  using assms
proof (induction arbitrary: row_cells rule: runs_for.induct)
  case no_run
  then show ?case by (simp add: give_def)
next
  case (one_run index s its cs runs ds)
  have its: "list_all item_ok its" "concat (map (item_cells s) its) = map wire_cell cs"
    using one_run.hyps(2) by (simp_all add: items_for_def)
  then have count: "items_cell_count its = length cs" using length_items_cells [of s its] by simp
  have "decode_run styles column_count content row_cells (run_wire index its @ runs_wire runs @ rest) =
      Inr (row_cells @ map wire_cell cs, runs_wire runs @ rest)"
    unfolding its(2) [symmetric] using one_run.prems one_run.hyps(1) its(1) count
    by (intro decode_run_wire) auto
  with one_run.IH [of "row_cells @ map wire_cell cs"] one_run.prems show ?case
    by (simp add: and_then_def)
qed

lemma nth_opt_append: "nth_opt xs i = Some x \<Longrightarrow> nth_opt (xs @ ys) i = Some x"
  by (simp add: nth_append)

lemma find_or_add_style_finds:
  assumes "table_ok t" "find_or_add_style s t = (t', i)"
  shows "table_ok t' \<and> nth_opt (table_styles t') i = Some s \<and>
    (\<exists>more. table_styles t' = table_styles t @ more \<and> set more \<subseteq> {s} \<and> length more \<le> 1)"
proof (cases "index_in (table_styles t) s")
  case None
  then have "s \<notin> set (table_styles t)" by auto
  with None assms find_or_add_style_index [OF assms(1), of s] show ?thesis by (auto simp: nth_append simp del: position_None)
next
  case (Some j)
  with assms find_or_add_style_index [OF assms(1), of s] position_Some [OF Some] show ?thesis by auto
qed

text \<open>How many cells the next run takes.\<close>

definition next_run_count :: "bool \<Rightarrow> cell list \<Rightarrow> nat" where
  "next_run_count plain cells =
     (if plain then length cells
      else case position (\<lambda>c. cell_style c \<noteq> cell_style (hd cells)) cells of None \<Rightarrow> length cells | Some i \<Rightarrow> i)"

definition plain_cells :: "cell list \<Rightarrow> bool" where
  "plain_cells cells \<longleftrightarrow> list_all plain_ascii_cell cells \<and> (\<forall>c \<in> set cells. cell_style c = cell_style (hd cells))"

lemma next_run_same_style:
  assumes "cells \<noteq> []" "plain \<Longrightarrow> plain_cells cells"
  shows "0 < next_run_count plain cells" "next_run_count plain cells \<le> length cells"
    "list_all (\<lambda>c. cell_style c = cell_style (hd cells)) (take (next_run_count plain cells) cells)"
proof -
  define st where "st = cell_style (hd cells)"
  have count: "next_run_count plain cells =
      (if plain then length cells else case position (\<lambda>c. cell_style c \<noteq> st) cells of None \<Rightarrow> length cells | Some i \<Rightarrow> i)"
    by (simp only: next_run_count_def st_def)
  have "0 < k \<and> k \<le> length cells \<and> list_all (\<lambda>c. cell_style c = st) (take k cells)"
    if k: "k = next_run_count plain cells" for k
  proof (cases "plain \<or> position (\<lambda>c. cell_style c \<noteq> st) cells = None")
    case True
    then have "k = length cells" by (auto simp: k count simp del: position_None)
    moreover have "\<forall>c \<in> set cells. cell_style c = st" using True assms(2) by (auto simp: plain_cells_def st_def [symmetric])
    ultimately show ?thesis using assms(1) by (simp add: list_all_iff)
  next
    case False
    then obtain i where i: "position (\<lambda>c. cell_style c \<noteq> st) cells = Some i" by blast
    then have "k = i" unfolding k count using False by simp
    moreover have "i \<noteq> 0" using position_Some [OF i] assms(1) by (cases i) (simp_all add: hd_conv_nth st_def)
    ultimately show ?thesis using position_Some [OF i] by (simp add: list_all_length)
  qed
  from this [OF refl, unfolded st_def]
  show "0 < next_run_count plain cells" "next_run_count plain cells \<le> length cells"
    "list_all (\<lambda>c. cell_style c = cell_style (hd cells)) (take (next_run_count plain cells) cells)" by blast+
qed

lemma encode_runs_step:
  assumes "cells \<noteq> []"
  shows "encode_runs plain cells t run_bytes n texts =
    (let (t', index) = find_or_add_style (cell_style (hd cells)) t;
         (bytes, count) = encode_run (take (next_run_count plain cells) cells) index plain run_bytes
     in encode_runs plain (drop (next_run_count plain cells) cells) t' bytes (n + 1) (texts + count))"
proof -
  obtain c cells' where cells: "cells = c # cells'" using assms by (cases cells) auto
  show ?thesis
    unfolding cells encode_runs.simps [of plain "c # cells'" t run_bytes n texts] next_run_count_def Let_def list.case list.sel
    by (rule refl)
qed

lemma encode_runs_wire:
  assumes "table_ok t" "list_all style_ok (table_styles t)" "list_all cell_ok cells" "length cells < 2 ^ 16"
    and "plain \<Longrightarrow> plain_cells cells" "encode_runs plain cells t run_bytes n texts = (t', bytes, n', texts')"
  shows "\<exists>runs more. runs_for (table_styles t') runs cells \<and> bytes = run_bytes @ runs_wire runs \<and> n' = n + length runs \<and>
    table_styles t' = table_styles t @ more \<and> length more \<le> length runs \<and> list_all style_ok (table_styles t')"
  using assms
proof (induction cells arbitrary: t run_bytes n texts rule: measure_induct_rule [of length])
  case (less cells)
  show ?case
  proof (cases "cells = []")
    case True
    with less.prems show ?thesis by (auto simp: encode_runs.simps intro: no_run)
  next
    case False
    let ?s = "cell_style (hd cells)" and ?k = "next_run_count plain cells"
    obtain t1 index where find: "find_or_add_style ?s t = (t1, index)" by fastforce
    have run: "0 < ?k" "?k \<le> length cells" "list_all (\<lambda>c. cell_style c = ?s) (take ?k cells)"
      by (rule next_run_same_style [OF False less.prems(5)], assumption)+
    have "\<exists>its. fst (encode_run (take ?k cells) index plain run_bytes) = run_bytes @ run_wire index its \<and> items_for ?s its (take ?k cells)"
      using less.prems(3-5) run by (intro encode_run_wire) (auto simp: plain_cells_def list_all_iff dest: in_set_takeD)
    then obtain its count where its: "encode_run (take ?k cells) index plain run_bytes = (run_bytes @ run_wire index its, count)"
      "items_for ?s its (take ?k cells)" by (cases "encode_run (take ?k cells) index plain run_bytes") auto
    obtain more1 where t1: "table_ok t1" "nth_opt (table_styles t1) index = Some ?s" "table_styles t1 = table_styles t @ more1"
      "set more1 \<subseteq> {?s}" "length more1 \<le> 1" using find_or_add_style_finds [OF less.prems(1) find] by auto
    have s: "style_ok ?s" using less.prems(3) False by (cases cells) (simp_all add: cell_ok_def)
    have "encode_runs plain (drop ?k cells) t1 (run_bytes @ run_wire index its) (n + 1) (texts + count) = (t', bytes, n', texts')"
      using less.prems(6) find its(1) by (simp add: encode_runs_step [OF False])
    moreover have "length (drop ?k cells) < length cells" using run False by simp
    moreover have "plain_cells (drop ?k cells)" if plain using that by (simp add: next_run_count_def plain_cells_def)
    moreover have "list_all style_ok (table_styles t1)" using less.prems(2) t1 s by (auto simp: list_all_iff)
    ultimately obtain runs more2 where IH: "runs_for (table_styles t') runs (drop ?k cells)"
      "bytes = (run_bytes @ run_wire index its) @ runs_wire runs" "n' = n + 1 + length runs"
      "table_styles t' = table_styles t1 @ more2" "length more2 \<le> length runs" "list_all style_ok (table_styles t')"
      using less.IH [of "drop ?k cells" t1] t1(1) less.prems(3,4) by (force simp: list_all_drop)
    have "runs_for (table_styles t') ((index, its) # runs) (take ?k cells @ drop ?k cells)"
      using t1(2) its(2) run False IH(1) unfolding IH(4)
      by (intro one_run nth_opt_append) (auto simp del: nth_opt_Some)
    then show ?thesis using IH t1(3,5)
      by (intro exI [of _ "(index, its) # runs"] exI [of _ "more1 @ more2"]) auto
  qed
qed

section \<open>How long a row can get\<close>

lemma length_varint_le_10: "length (varint_bytes v) \<le> 10"
  using length_varint_bytes [of v] by (simp add: MAX_VARINT_BYTE_COUNT_def)

lemma length_payload_wire: "exception_ok e \<Longrightarrow> length (payload_wire (exception_payload e)) \<le> 10 + 4 * MAX_GRAPHEME_CONTINUATION_COUNT"
proof (cases "exception_payload e")
  case (Payload_Combining marks)
  assume "exception_ok e"
  with Payload_Combining have "length (concat (map encode_utf8 marks)) \<le> 4 * MAX_GRAPHEME_CONTINUATION_COUNT"
    using count_utf8_bytes_le [of marks] by (simp add: exception_ok_def length_utf8_text)
  with Payload_Combining length_varint_le_10 show ?thesis by (simp add: payload_wire_def add_mono)
qed (use length_varint_le_10 in \<open>auto simp: payload_wire_def intro: trans_le_add1\<close>)

lemma exceptions_wire_bound:
  "list_all exception_ok es \<Longrightarrow> length (exceptions_wire prev es) \<le> (30 + 4 * MAX_GRAPHEME_CONTINUATION_COUNT) * length es"
proof (induction prev es rule: exceptions_wire.induct)
  case (2 prev e es)
  from "2.prems" have "length (payload_wire (exception_payload e)) \<le> 10 + 4 * MAX_GRAPHEME_CONTINUATION_COUNT"
    by (simp add: length_payload_wire)
  moreover have "length (exceptions_wire (exception_item_index e) es) \<le> (30 + 4 * MAX_GRAPHEME_CONTINUATION_COUNT) * length es"
    using 2 by simp
  ultimately show ?case
    using length_varint_le_10 [of "of_nat (exception_item_index e - prev)"] length_varint_le_10 [of "exception_kind e"] by simp
qed simp

abbreviation item_byte_bound :: nat where
  "item_byte_bound \<equiv> 4 + 3 * (30 + 4 * MAX_GRAPHEME_CONTINUATION_COUNT)"

lemma run_wire_bound:
  assumes "list_all item_ok its" "length its < 2 ^ 16"
  shows "length (run_wire index its) \<le> 40 + item_byte_bound * length its"
proof -
  let ?es = "run_exception_list 0 its" and ?b = "30 + 4 * MAX_GRAPHEME_CONTINUATION_COUNT"
  have "list_all exception_ok ?es" using assms by (intro run_exceptions_ok) simp_all
  then have "length (exceptions_wire 0 ?es) \<le> ?b * length ?es" by (rule exceptions_wire_bound)
  also have "\<dots> \<le> ?b * (3 * length its)" by (intro mult_le_mono2 exception_count_le assms)
  finally have "length (exceptions_wire 0 ?es) \<le> ?b * (3 * length its)" .
  moreover have "item_byte_bound * length its = 4 * length its + ?b * (3 * length its)" by (simp add: algebra_simps)
  ultimately show ?thesis
    using length_text_wire [of its] length_varint_le_10 [of "of_nat index"]
      length_varint_le_10 [of "of_nat (items_cell_count its)"] length_varint_le_10 [of "of_nat (length (text_wire its))"]
      length_varint_le_10 [of "of_nat (length ?es)"]
    unfolding run_wire_def length_append by linarith
qed

lemma runs_wire_bound:
  assumes "runs_for styles runs cells" "length cells < 2 ^ 16"
  shows "length (runs_wire runs) \<le> (40 + item_byte_bound) * length cells"
  using assms
proof (induction rule: runs_for.induct)
  case (one_run index s its cs runs ds)
  have its: "list_all item_ok its" "items_cell_count its = length cs"
    using one_run.hyps(2) length_items_cells [of s its] by (simp_all add: items_for_def)
  then have n: "length its \<le> length cs" using length_items [OF its(1)] by simp
  then have "length (run_wire index its) \<le> 40 + item_byte_bound * length its"
    using its(1) one_run.prems by (intro run_wire_bound) simp_all
  also have "\<dots> \<le> 40 * length cs + item_byte_bound * length cs"
    using n one_run.hyps(3) by (intro add_mono mult_le_mono2) (simp_all add: Suc_le_eq)
  finally have "length (run_wire index its) \<le> (40 + item_byte_bound) * length cs" by (simp only: add_mult_distrib)
  with one_run show ?case by (simp add: add_mult_distrib2)
qed simp

section \<open>A whole row\<close>

definition row_body :: "u16 \<Rightarrow> row_end \<Rightarrow> nat \<Rightarrow> style list \<Rightarrow> (nat \<times> run_item list) list \<Rightarrow> u8 list" where
  "row_body column_count e blanks styles runs =
     varint_bytes (ucast column_count) @ varint_bytes (compute_row_end_code e) @ varint_bytes (of_nat blanks) @
     varint_bytes (of_nat (length styles)) @ concat (map style_wire styles) @
     varint_bytes (of_nat (length runs)) @ runs_wire runs"

abbreviation row_wire :: "u16 \<Rightarrow> row_end \<Rightarrow> nat \<Rightarrow> style list \<Rightarrow> (nat \<times> run_item list) list \<Rightarrow> u8 list" where
  "row_wire column_count e blanks styles runs \<equiv>
     varint_bytes (of_nat (length (row_body column_count e blanks styles runs))) @ row_body column_count e blanks styles runs"

lemma fold_write_style_entry: "fold write_style_entry styles out = out @ concat (map style_wire styles)"
  by (induction styles arbitrary: out) (simp_all add: write_style_entry_append)

lemma content_fits: "length row \<le> unat (column_count :: u16) \<Longrightarrow> count_row_content_cells row < 2 ^ 16"
proof -
  assume "length row \<le> unat column_count"
  moreover have "unat column_count < 2 ^ LENGTH(16)" by (rule unsigned_less)
  ultimately show ?thesis using count_row_content_cells_le [of row] by simp
qed

lemma encode_row_wire:
  assumes "length row \<le> unat column_count" "list_all cell_ok row" "plain \<Longrightarrow> plain_cells row"
  shows "\<exists>styles runs. fst (encode_row_cells_with_buffers row column_count plain e) =
      row_wire column_count e (unat column_count - count_row_content_cells row) styles runs \<and>
    runs_for styles runs (take (count_row_content_cells row) row) \<and> list_all style_ok styles \<and> length styles \<le> length runs"
proof -
  let ?n = "count_row_content_cells row" and ?blanks = "unat column_count - count_row_content_cells row"
  let ?start = "if e = Row_Hard then 0 else ?blanks"
  obtain t bytes n texts where runs: "encode_runs plain (take ?n row) empty_style_table [] 0 ?start = (t, bytes, n, texts)"
    by (cases "encode_runs plain (take ?n row) empty_style_table [] 0 ?start") auto
  have "table_ok empty_style_table" "list_all style_ok (table_styles empty_style_table)"
    by (simp_all add: empty_style_table_def table_ok_def)
  moreover have "plain_cells (take ?n row)" if plain
    using assms(3) [OF that] by (cases row; cases ?n) (auto simp: plain_cells_def list_all_iff dest: in_set_takeD)
  moreover have "list_all cell_ok (take ?n row)" using assms(2) by (auto simp: list_all_iff dest: in_set_takeD)
  moreover have "length (take ?n row) < 2 ^ 16" using content_fits [OF assms(1)] by simp
  ultimately obtain rs where rs: "runs_for (table_styles t) rs (take ?n row)" "bytes = runs_wire rs" "n = length rs"
    "length (table_styles t) \<le> length rs" "list_all style_ok (table_styles t)"
    using encode_runs_wire [OF _ _ _ _ _ runs] by (auto simp: empty_style_table_def)
  have "fst (encode_row_cells_with_buffers row column_count plain e) = row_wire column_count e ?blanks (table_styles t) rs"
    using runs rs(2,3)
    by (simp add: encode_row_cells_with_buffers_def Let_def ac_simps row_body_def fold_write_style_entry write_varint_append [of _ "varint_bytes _"]
        write_varint_append [of _ "_ @ _"])
  with rs show ?thesis by blast
qed

lemma row_end_code_read:
  "read_row_varint (varint_bytes (compute_row_end_code e) @ rest) = Inr (compute_row_end_code e, rest)"
  by (simp add: wire_reads)

lemma row_header_read:
  assumes "blanks \<le> unat column_count"
  shows "read_row_header (varint_bytes n @ varint_bytes (ucast column_count) @ varint_bytes (compute_row_end_code e) @
      varint_bytes (of_nat blanks) @ rest) =
    Inr (\<lparr>shape_column_count = column_count, shape_row_end = e, shape_trailing_blank_count = of_nat blanks\<rparr>, rest)"
proof -
  have "unat column_count < 2 ^ LENGTH(16)" by (rule unsigned_less)
  then have blanks: "unat (of_nat blanks :: u64) = blanks" "blanks < 2 ^ 16" using assms by (simp_all add: unat_count)
  then have "ucast (of_nat blanks :: u64) = (of_nat blanks :: u16)" by (metis ucast_eq of_int_of_nat_eq uint_nat)
  then show ?thesis
    using assms blanks \<open>unat column_count < 2 ^ LENGTH(16)\<close>
    by (cases e) (simp_all add: read_row_header_def reader_defs read_bounded_varint_def wire_reads unat_widen_u16 Let_def
        compute_row_end_code_def ROW_END_HARD_CODE_def ROW_END_SOFT_CODE_def ROW_END_SOFT_WIDE_CODE_def)
qed

lemma row_body_length:
  assumes "runs_for styles runs cells" "length cells < 2 ^ 16" "length styles \<le> length runs"
  shows "length (row_body column_count e blanks styles runs) \<le> 50 + 656 * length cells"
proof -
  have style: "length (style_wire s) \<le> 138" for s
    using length_style_fields [of s] length_varint_le_10 [of "of_nat (length (style_fields s))"] by (simp add: style_wire_def)
  have "length (concat (map style_wire styles)) \<le> 138 * length styles"
    by (induction styles) (simp_all add: add_mono style)
  also have "\<dots> \<le> 138 * length cells" using assms(3) runs_for_length [OF assms(1)] by simp
  finally have "length (concat (map style_wire styles)) \<le> 138 * length cells" .
  moreover have "length (runs_wire runs) \<le> 518 * length cells"
    using runs_wire_bound [OF assms(1,2)] by (simp add: MAX_GRAPHEME_CONTINUATION_COUNT_def)
  ultimately show ?thesis
    using length_varint_le_10 [of "ucast column_count"] length_varint_le_10 [of "compute_row_end_code e"]
      length_varint_le_10 [of "of_nat blanks"] length_varint_le_10 [of "of_nat (length styles)"]
      length_varint_le_10 [of "of_nat (length runs)"]
    by (simp add: row_body_def)
qed

lemma row_body_bound:
  assumes "runs_for styles runs cells" "length cells < 2 ^ 16" "length styles \<le> length runs"
  shows "length (row_body column_count e blanks styles runs) < 2 ^ 32"
  using row_body_length [OF assms, of column_count e blanks] assms(2) by simp

lemma decode_row_runs_wire:
  assumes runs: "runs_for styles runs cells" "length styles \<le> length runs" "list_all style_ok styles"
    and blanks: "length cells + blanks = unat column_count"
  shows "decode_row_runs (row_wire column_count e blanks styles runs) =
    Inr (\<lparr>shape_column_count = column_count, shape_row_end = e, shape_trailing_blank_count = of_nat blanks\<rparr>, map wire_cell cells)"
proof -
  let ?body = "row_body column_count e blanks styles runs"
  have "unat column_count < 2 ^ LENGTH(16)" by (rule unsigned_less)
  then have n: "length cells < 2 ^ 16" "length runs < 2 ^ 16" "length styles < 2 ^ 16"
    using blanks runs(2) runs_for_length [OF runs(1)] by simp_all
  have body: "unat (of_nat (length ?body) :: u64) = length ?body"
    using row_body_bound [OF runs(1) n(1) runs(2)] by (intro unat_count) (rule less_trans, assumption, simp)
  then have split: "split_encoded_row (row_wire column_count e blanks styles runs) = Inr (row_wire column_count e blanks styles runs, [])"
    by (simp add: split_encoded_row_def wire_reads)
  have content: "unat (column_count - of_nat blanks) = length cells"
  proof -
    have "of_nat blanks \<le> column_count" using blanks by (simp add: word_le_nat_alt unat_of_nat)
    then show ?thesis using blanks \<open>unat column_count < 2 ^ LENGTH(16)\<close> by (simp add: unat_sub unat_of_nat)
  qed
  have styles: "read_times (length styles) read_style_entry (concat (map style_wire styles) @ rest) = Inr (styles, rest)" for rest
    using runs(3) by (intro read_times_concat style_wire_read) (simp_all add: list_all_iff)
  have "length styles \<le> length (concat (map style_wire styles))"
    by (rule length_le_concat) (simp add: style_wire_def)
  then have style_count: "read_bounded_varint ''style_count'' (length (varint_bytes (of_nat (length styles)) @ concat (map style_wire styles) @ rest))
      (varint_bytes (of_nat (length styles)) @ concat (map style_wire styles) @ rest) =
      Inr (of_nat (length styles), concat (map style_wire styles) @ rest)" for rest
    using n by (simp add: read_bounded_varint_def reader_defs wire_reads unat_count)
  have run_count: "read_bounded_varint ''run_count'' (length (varint_bytes (of_nat (length runs)) @ runs_wire runs))
      (varint_bytes (of_nat (length runs)) @ runs_wire runs) = Inr (of_nat (length runs), runs_wire runs)"
    using n length_runs_wire [of runs] by (simp add: read_bounded_varint_def reader_defs wire_reads unat_count)
  have decode: "decode_runs (length runs) styles column_count (length cells) [] (runs_wire runs) = Inr (map wire_cell cells, [])"
    using decode_runs_wire [OF runs(1), of "[]" "length cells" column_count "[]"] n by simp
  note header = row_header_read [of blanks column_count]
  show ?thesis
    unfolding decode_row_runs_def split
    using blanks n content styles style_count [of "varint_bytes (of_nat (length runs)) @ runs_wire runs"] run_count decode
    by (simp add: row_body_def and_then_def header unat_count Let_def)
qed

lemma wire_cell_blank [simp]: "wire_cell build_blank = build_blank"
  by (simp add: wire_cell_def build_blank_def build_blank_with_style_def from_character_def
      list_encoded_combining_characters_def list_combining_characters_def has_image_placeholder_def)

lemma row_content_and_blanks:
  assumes "length row \<le> n"
  shows "resize_with n build_blank (map wire_cell (take (count_row_content_cells row) row)) =
    map wire_cell row @ replicate (n - length row) build_blank"
proof -
  let ?k = "count_row_content_cells row"
  have "map wire_cell row = map wire_cell (take ?k row) @ map wire_cell (drop ?k row)"
    by (metis append_take_drop_id map_append)
  also have "map wire_cell (drop ?k row) = replicate (length row - ?k) build_blank"
    by (simp add: drop_row_content)
  finally show ?thesis
    using assms count_row_content_cells_le [of row] by (simp add: resize_with_def replicate_add [symmetric])
qed

definition content_shape :: "cell list \<Rightarrow> u16 \<Rightarrow> row_end \<Rightarrow> encoded_row_shape" where
  "content_shape row column_count e =
     \<lparr>shape_column_count = column_count, shape_row_end = e,
      shape_trailing_blank_count = of_nat (unat column_count - count_row_content_cells row)\<rparr>"

lemma padded_row_wire:
  assumes "length row_cells \<le> unat column_count" "list_all cell_ok row_cells"
    and "\<And>s. plain_row_style = Some s \<Longrightarrow> list_all (\<lambda>c. cell_style c = s \<and> plain_ascii_cell c) row_cells"
  defines "k \<equiv> count_row_content_cells row_cells"
  shows "\<exists>styles runs text_byte_count.
    encode_padded_row_cells row_cells column_count plain_row_style e =
      Some (row_wire column_count e (unat column_count - k) styles runs, text_byte_count) \<and>
    runs_for styles runs (take k row_cells) \<and> list_all style_ok styles \<and> length styles \<le> length runs"
proof -
  define plain where "plain = (plain_row_style \<noteq> None)"
  let ?out = "encode_row_cells_with_buffers row_cells column_count plain e"
  have "plain_cells row_cells" if plain
    using that assms(3) by (cases row_cells) (auto simp: plain_def plain_cells_def list_all_iff)
  then obtain styles runs where "fst ?out = row_wire column_count e (unat column_count - k) styles runs"
    "runs_for styles runs (take k row_cells)" "list_all style_ok styles" "length styles \<le> length runs"
    using encode_row_wire [OF assms(1,2), of plain e] unfolding k_def by blast
  then show ?thesis using assms(1)
    by (cases ?out) (intro exI [of _ styles] exI [of _ runs] exI [of _ "snd ?out"], simp add: encode_padded_row_cells_def plain_def)
qed

lemma encoded_row_reads:
  assumes "length row_cells \<le> unat column_count" "list_all cell_ok row_cells"
    and "\<And>s. plain_row_style = Some s \<Longrightarrow> list_all (\<lambda>c. cell_style c = s \<and> plain_ascii_cell c) row_cells"
  shows "\<exists>bytes text_byte_count. encode_padded_row_cells row_cells column_count plain_row_style e = Some (bytes, text_byte_count) \<and>
    decode_row_runs bytes =
      Inr (content_shape row_cells column_count e, map wire_cell (take (count_row_content_cells row_cells) row_cells)) \<and>
    read_encoded_row_shape bytes = Inr (content_shape row_cells column_count e)"
proof -
  let ?k = "count_row_content_cells row_cells"
  obtain styles runs texts where runs:
    "encode_padded_row_cells row_cells column_count plain_row_style e = Some (row_wire column_count e (unat column_count - ?k) styles runs, texts)"
    "runs_for styles runs (take ?k row_cells)" "list_all style_ok styles" "length styles \<le> length runs"
    using padded_row_wire [OF assms, of plain_row_style e] by blast
  have k: "length (take ?k row_cells) + (unat column_count - ?k) = unat column_count"
    using assms(1) count_row_content_cells_le [of row_cells] by simp
  have "read_encoded_row_shape (row_wire column_count e (unat column_count - ?k) styles runs) = Inr (content_shape row_cells column_count e)"
    unfolding read_encoded_row_shape_def row_body_def append_assoc
    by (subst row_header_read) (simp_all add: content_shape_def)
  with decode_row_runs_wire [OF runs(2,4,3) k] runs(1) show ?thesis
    by (simp add: content_shape_def)
qed

lemma encoded_row_length:
  assumes "length row_cells \<le> unat column_count" "list_all cell_ok row_cells"
    and "\<And>s. plain_row_style = Some s \<Longrightarrow> list_all (\<lambda>c. cell_style c = s \<and> plain_ascii_cell c) row_cells"
    and "encode_padded_row_cells row_cells column_count plain_row_style e = Some (bytes, text_byte_count)"
  shows "length bytes \<le> 60 + 656 * length row_cells"
proof -
  let ?k = "count_row_content_cells row_cells"
  obtain styles runs where bytes: "bytes = row_wire column_count e (unat column_count - ?k) styles runs"
    and runs: "runs_for styles runs (take ?k row_cells)" "length styles \<le> length runs"
    using padded_row_wire [OF assms(1-3), of plain_row_style e] assms(4) by auto
  have k: "length (take ?k row_cells) \<le> length row_cells" "length row_cells < 2 ^ 16"
    using assms(1) unsigned_less [of column_count, where 'a = nat] by simp_all
  then have "length (row_body column_count e (unat column_count - ?k) styles runs) \<le> 50 + 656 * length (take ?k row_cells)"
    using runs by (intro row_body_length) simp_all
  also have "\<dots> \<le> 50 + 656 * length row_cells" using k by simp
  finally show ?thesis
    using length_varint_le_10 [of "of_nat (length (row_body column_count e (unat column_count - ?k) styles runs))"]
    by (simp only: bytes length_append)
qed

lemma encoded_row_decodes:
  assumes "length row_cells \<le> unat column_count" "list_all cell_ok row_cells"
    and "\<And>s. plain_row_style = Some s \<Longrightarrow> list_all (\<lambda>c. cell_style c = s \<and> plain_ascii_cell c) row_cells"
  shows "\<exists>bytes text_byte_count. encode_padded_row_cells row_cells column_count plain_row_style e = Some (bytes, text_byte_count) \<and>
    decode_row_cells bytes =
      Inr \<lparr>decoded_row_cells = map wire_cell row_cells @ replicate (unat column_count - length row_cells) build_blank,
           decoded_row_end = e\<rparr>"
proof -
  obtain bytes texts where "encode_padded_row_cells row_cells column_count plain_row_style e = Some (bytes, texts)"
    "decode_row_runs bytes =
      Inr (content_shape row_cells column_count e, map wire_cell (take (count_row_content_cells row_cells) row_cells))"
    using encoded_row_reads [of row_cells column_count plain_row_style e] assms by blast
  then show ?thesis
    by (simp add: decode_row_cells_def decode_row_run_cells_into_def content_shape_def row_content_and_blanks [OF assms(1)])
qed

text \<open>
  C8. The round trip of a row. A row of at most as many cells as its column count, whose cells hold
  Unicode characters of display width at most two, at most 32 continuation code points and well-formed
  attribute words, encodes without a panic, and decoding the bytes gives back its cells as the encoding
  carries them, padded with blanks to the column count, and its row end. The cells of a row given a
  plain style are narrow ASCII cells of that style, as the code asserts.
\<close>

theorem encode_row_roundtrip:
  assumes "length row_cells \<le> unat column_count" "list_all cell_ok row_cells"
    and "\<And>s. plain_row_style = Some s \<Longrightarrow> list_all (\<lambda>c. cell_style c = s \<and> plain_ascii_cell c) row_cells"
  shows "\<exists>bytes text_byte_count. encode_padded_row_cells row_cells column_count plain_row_style e = Some (bytes, text_byte_count) \<and>
    decode_row_cells bytes =
      Inr \<lparr>decoded_row_cells = map wire_cell row_cells @ replicate (unat column_count - length row_cells) build_blank,
           decoded_row_end = e\<rparr>"
  using assms by (rule encoded_row_decodes)

text \<open>Cells of text only, the ones the encoding carries unchanged.\<close>

definition text_cell :: "cell \<Rightarrow> bool" where
  "text_cell c \<longleftrightarrow>
     (case combining c of
        None \<Rightarrow> True
      | Some e \<Rightarrow> extra_combining e \<noteq> [] \<and> extra_image_placeholder e = None \<and> extra_image_fragments e = Fragments_Empty)"

lemma text_cell_encoded: "text_cell c \<Longrightarrow> list_encoded_combining_characters c = list_combining_characters c"
  by (auto simp: text_cell_def list_encoded_combining_characters_def list_combining_characters_def has_image_placeholder_def
      get_image_placeholder_def split: option.splits)

lemma push_combining_all:
  "fold push_combining marks c =
     (if marks = [] then c
      else c\<lparr>combining := Some ((extra_or_default c)\<lparr>extra_combining := extra_combining (extra_or_default c) @ marks\<rparr>)\<rparr>)"
  by (induction marks arbitrary: c) (simp_all add: push_combining_def Let_def extra_or_default_def)

lemma wire_cell_text: "text_cell c \<Longrightarrow> wire_cell c = c"
  by (auto simp: wire_cell_def text_cell_encoded push_combining_all list_combining_characters_def text_cell_def
      extra_or_default_def from_character_def cell_extra_default_def split: option.splits)

text \<open>A row with a wide character, its continuation cell and a combined character, padded to six columns.\<close>

definition sample_row :: "cell list" where
  "sample_row =
     [from_character 0x4E2D 2 style_default, from_character 0x20 0 style_default,
      push_combining 0x301 (from_character 0x65 1 (set_bold True style_default))]"

theorem encode_row_roundtrip_witness:
  "\<exists>bytes text_byte_count. encode_padded_row_cells sample_row 6 None Row_Soft = Some (bytes, text_byte_count) \<and>
     decode_row_cells bytes = Inr \<lparr>decoded_row_cells = sample_row @ replicate 3 build_blank, decoded_row_end = Row_Soft\<rparr>"
proof -
  have "style_ok (set_bold True style_default)" by (rule pen_ok [OF pen_bold [OF pen_default]])
  moreover have texts: "list_all text_cell sample_row"
    by (simp add: sample_row_def text_cell_def from_character_def push_combining_def Let_def extra_or_default_def cell_extra_default_def)
  ultimately have "list_all cell_ok sample_row"
    using style_default_ok
    by (simp add: sample_row_def cell_ok_def text_cell_encoded)
      (simp add: from_character_def push_combining_def Let_def extra_or_default_def cell_extra_default_def
        list_combining_characters_def is_scalar_value_def MAX_GRAPHEME_CONTINUATION_COUNT_def)
  moreover have "map wire_cell sample_row = sample_row"
    using texts by (intro map_idI wire_cell_text) (simp add: list_all_iff)
  ultimately show ?thesis
    using encode_row_roundtrip [of sample_row 6 None Row_Soft] by (simp add: sample_row_def)
qed

end
