(* ===== verification/Row_Equivalence.thy ===== *)
theory Row_Equivalence
  imports Row_Roundtrip
begin

text \<open>
  The shortcuts of the row encoder change nothing: a row given its plain style encodes as one that is
  read cell by cell, an unpadded row with a column count encodes as the padded row, and the text bytes
  the encoder counts on its way are the ones \<open>compute_text_byte_count\<close> counts.
\<close>

section \<open>Plain rows\<close>

lemma encode_ascii_cells_plain:
  "list_all plain_ascii_cell cells \<Longrightarrow>
     encode_ascii_cells plain cells u gs ch r = encode_ascii_cells False cells u gs ch r"
  by (induction plain cells u gs ch r rule: encode_ascii_cells.induct) (auto simp: plain_ascii_cell_def)

lemma encode_ascii_cells_all:
  "list_all plain_ascii_cell cells \<Longrightarrow> encode_ascii_cells plain cells u gs ch r = (r', u', gs', rest) \<Longrightarrow> rest = []"
  by (induction plain cells u gs ch r rule: encode_ascii_cells.induct) (auto simp: plain_ascii_cell_def split: if_splits)

lemma encode_run_cells_plain:
  assumes "list_all plain_ascii_cell cells"
  shows "encode_run_cells plain cells r = encode_run_cells False cells r"
proof (cases cells)
  case (Cons c cells')
  obtain r1 u gs rest where ascii: "encode_ascii_cells False cells [] 0 0 r = (r1, u, gs, rest)"
    by (cases "encode_ascii_cells False cells [] 0 0 r") auto
  then have "rest = []" by (rule encode_ascii_cells_all [OF assms])
  have "encode_run_cells p cells r = (let r2 = finish_ascii_cells u gs r1
      in r2\<lparr>run_text_byte_count := run_text_byte_count r2 + length cells\<rparr>)" for p
    using ascii \<open>rest = []\<close> encode_ascii_cells_plain [OF assms, of p "[]" 0 0 r]
    unfolding encode_run_cells.simps [of p cells r]
    by (simp add: Cons Let_def encode_run_cells.simps [of p "[]"])
  then show ?thesis by simp
qed (simp add: encode_run_cells.simps)

lemma encode_runs_plain:
  assumes "plain_cells cells"
  shows "encode_runs plain cells t run_bytes n texts = encode_runs False cells t run_bytes n texts"
proof (cases "cells = []")
  case False
  have all: "list_all plain_ascii_cell cells" using assms by (simp add: plain_cells_def)
  have "next_run_count p cells = length cells" for p
  proof -
    have "position (\<lambda>c. cell_style c \<noteq> cell_style (hd cells)) cells = None"
      using assms unfolding position_None plain_cells_def by blast
    then show ?thesis by (simp only: next_run_count_def option.case if_cancel)
  qed
  then show ?thesis
    using encode_run_cells_plain [OF all, of plain]
    by (simp add: encode_runs_step [OF False] encode_run_def encode_runs.simps [of _ "[]"] Let_def case_prod_beta)
qed (simp add: encode_runs.simps)

lemma count_row_content_cells_padded [simp]:
  "count_row_content_cells (row @ replicate n build_blank) = count_row_content_cells row"
proof -
  have "takeWhile p (replicate n x @ xs) = replicate n x @ takeWhile p xs" if "p x" for p and x :: cell and xs
    using that by (induction n) simp_all
  then show ?thesis
    using length_takeWhile_le [of "\<lambda>c. c = build_blank" "rev row"] by (simp add: count_row_content_cells_takeWhile)
qed

lemma plain_cells_iff: "plain_cells cells \<longleftrightarrow> (\<exists>s. \<forall>c \<in> set cells. cell_style c = s \<and> plain_ascii_cell c)"
  unfolding plain_cells_def list_all_iff by (cases cells) auto

lemma plain_cells_take: "plain_cells cells \<Longrightarrow> plain_cells (take n cells)"
  unfolding plain_cells_iff by (meson in_set_takeD)

lemma encode_row_plain:
  assumes "plain \<Longrightarrow> plain_cells row" "length row \<le> unat column_count"
  shows "encode_row_cells_with_buffers row column_count plain e =
    encode_row_cells_with_buffers (row @ replicate n build_blank) column_count False e"
proof -
  have "encode_runs plain (take (count_row_content_cells row) row) t bytes k texts =
      encode_runs False (take (count_row_content_cells row) row) t bytes k texts" for t bytes k texts
    by (cases plain) (use encode_runs_plain [OF plain_cells_take [OF assms(1)]] in \<open>blast, simp\<close>)
  then show ?thesis
    using count_row_content_cells_le [of row] by (simp add: encode_row_cells_with_buffers_def)
qed

section \<open>Text bytes\<close>

definition cell_text_bytes :: "cell \<Rightarrow> nat" where
  "cell_text_bytes c =
     (if display_width c = 0 then 0
      else len_utf8 (character c) + count_utf8_bytes (list_encoded_combining_characters c))"

lemma cell_text_bytes_encoding_function: "encoding_function cell_text_bytes cells"
  by (simp add: encoding_function_def cell_text_bytes_def)

lemma plain_ascii_text_bytes: "list_all plain_ascii_cell cells \<Longrightarrow> sum_list (map cell_text_bytes cells) = length cells"
  by (induction cells)
    (simp_all add: cell_text_bytes_def plain_ascii_cell_def is_plain_narrow_cell_def is_ascii_char_def len_utf8_def count_utf8_bytes_def)

lemma write_exception_text_count [simp]:
  "run_text_byte_count (write_exception_header i k r) = run_text_byte_count r"
  "run_text_byte_count (write_exception_number n r) = run_text_byte_count r"
  "run_text_byte_count (count_exception r) = run_text_byte_count r"
  by (simp_all add: write_exception_header_def write_exception_number_def count_exception_def)

lemma ascii_text_count [simp]:
  "run_text_byte_count (write_repeated_ascii_group u gs r) = run_text_byte_count r"
  "run_text_byte_count (finish_ascii_cells u gs r) = run_text_byte_count r"
  by (simp_all add: write_repeated_ascii_group_def finish_ascii_cells_def Let_def)

lemma encode_ascii_cells_consumed:
  assumes "encode_ascii_cells plain cells u gs ch r = (r', u', gs', rest)" "plain \<Longrightarrow> list_all plain_ascii_cell cells"
  shows "run_text_byte_count r' = run_text_byte_count r \<and> (\<exists>consumed. cells = consumed @ rest \<and> list_all plain_ascii_cell consumed)"
  using assms
proof (induction plain cells u gs ch r rule: encode_ascii_cells.induct)
  case (2 plain c cells u gs ch r)
  show ?case
  proof (cases "\<not> plain \<and> (\<not> is_ascii_char (character c) \<or> \<not> is_plain_narrow_cell c)")
    case True
    with "2.prems"(1) show ?thesis by auto
  next
    case False
    then have c: "plain_ascii_cell c" using "2.prems"(2) by (auto simp: plain_ascii_cell_def)
    have "run_text_byte_count r' = run_text_byte_count r \<and> (\<exists>consumed. cells = consumed @ rest \<and> list_all plain_ascii_cell consumed)"
      using 2 False by (auto split: if_splits)
    then obtain consumed where "run_text_byte_count r' = run_text_byte_count r" "c # cells = (c # consumed) @ rest"
      "list_all plain_ascii_cell (c # consumed)" using c by auto
    then show ?thesis by blast
  qed
qed simp

lemma encode_item_text_count:
  "run_text_byte_count (encode_item c is_wide_pair n r) = run_text_byte_count r + n * cell_text_bytes c"
  by (simp add: encode_item_def Let_def cell_text_bytes_def)

lemma sum_list_concat_replicate: "sum_list (concat (replicate n xs)) = n * sum_list xs" for xs :: "nat list"
  by (induction n) simp_all

lemma encode_run_cells_text_count:
  assumes "plain \<Longrightarrow> list_all plain_ascii_cell cells"
  shows "run_text_byte_count (encode_run_cells plain cells r) = run_text_byte_count r + sum_list (map cell_text_bytes cells)"
  using assms
proof (induction cells arbitrary: r rule: measure_induct_rule [of length])
  case (less cells)
  show ?case
  proof (cases cells)
    case Nil
    then show ?thesis by (simp add: encode_run_cells.simps)
  next
    case (Cons c cells')
    obtain r1 u gs rest where ascii: "encode_ascii_cells plain cells [] 0 0 r = (r1, u, gs, rest)"
      by (cases "encode_ascii_cells plain cells [] 0 0 r") auto
    obtain consumed where consumed: "run_text_byte_count r1 = run_text_byte_count r" "cells = consumed @ rest" "list_all plain_ascii_cell consumed"
      using encode_ascii_cells_consumed [OF ascii less.prems] by auto
    show ?thesis
    proof (cases "length rest < length cells")
      case True
      let ?r2 = "finish_ascii_cells u gs r1"
      let ?r3 = "?r2\<lparr>run_text_byte_count := run_text_byte_count ?r2 + (length cells - length rest)\<rparr>"
      have "run_text_byte_count (encode_run_cells plain rest ?r3) = run_text_byte_count ?r3 + sum_list (map cell_text_bytes rest)"
        using True less.prems consumed(2) by (intro less.IH) auto
      moreover have "encode_run_cells plain cells r = encode_run_cells plain rest ?r3"
        using ascii True Cons by (subst encode_run_cells.simps) (simp add: Let_def)
      ultimately show ?thesis using consumed plain_ascii_text_bytes [OF consumed(3)] by simp
    next
      case False
      define pair where "pair \<longleftrightarrow> display_width c = 2 \<and> cells' \<noteq> [] \<and> is_standard_continuation_cell (hd cells')"
      define m where "m = (if pair then 2 else 1 :: nat)"
      define counted where "counted = 1 + count_repeats (take m cells) (drop m cells)"
      define n where "n = (if counted < MIN_REPEATED_ITEM_COUNT then 1 else counted)"
      let ?r = "encode_item c pair n r"
      have n: "0 < n" "n \<le> counted" by (simp_all add: n_def counted_def)
      have m: "m \<le> length cells" "0 < m" using Cons by (auto simp: m_def pair_def Suc_le_eq)
      have run: "encode_run_cells plain cells r = encode_run_cells plain (drop (m * n) cells) ?r"
        using ascii False Cons
        by (subst encode_run_cells.simps) (simp add: Let_def pair_def [symmetric] m_def [symmetric] counted_def n_def)
      have "run_text_byte_count (encode_run_cells plain (drop (m * n) cells) ?r) =
          run_text_byte_count ?r + sum_list (map cell_text_bytes (drop (m * n) cells))"
      proof (rule less.IH)
        show "length (drop (m * n) cells) < length cells" using Cons m n by simp
      qed (use less.prems in \<open>simp add: list_all_drop\<close>)
      moreover have "sum_list (map cell_text_bytes (take m cells)) = cell_text_bytes c"
        using Cons by (cases cells') (auto simp: m_def pair_def cell_text_bytes_def is_standard_continuation_cell_def)
      then have "sum_list (map cell_text_bytes (take (m * n) cells)) = n * cell_text_bytes c"
        using repeated_item_map(2) [OF cell_text_bytes_encoding_function m n(1) n(2) [unfolded counted_def]]
        by (simp add: sum_list_concat_replicate)
      moreover have "sum_list (map cell_text_bytes cells) =
          sum_list (map cell_text_bytes (take (m * n) cells)) + sum_list (map cell_text_bytes (drop (m * n) cells))"
        by (metis append_take_drop_id map_append sum_list_append)
      ultimately show ?thesis unfolding run by (simp add: encode_item_text_count)
    qed
  qed
qed

lemma encode_runs_text_count:
  assumes "plain \<Longrightarrow> plain_cells cells" "encode_runs plain cells t run_bytes n texts = (t', bytes, n', texts')"
  shows "texts' = texts + sum_list (map cell_text_bytes cells)"
  using assms
proof (induction cells arbitrary: t run_bytes n texts rule: measure_induct_rule [of length])
  case (less cells)
  show ?case
  proof (cases "cells = []")
    case True
    with less.prems show ?thesis by (simp add: encode_runs.simps)
  next
    case False
    let ?k = "next_run_count plain cells"
    obtain t1 index where find: "find_or_add_style (cell_style (hd cells)) t = (t1, index)" by fastforce
    obtain bytes1 count where run: "encode_run (take ?k cells) index plain run_bytes = (bytes1, count)" by fastforce
    have plain: "list_all plain_ascii_cell (take ?k cells)" if plain
      using plain_cells_take [OF less.prems(1) [OF that]] by (simp add: plain_cells_def)
    have count: "count = sum_list (map cell_text_bytes (take ?k cells))"
      using run encode_run_cells_text_count [OF plain, where r = run_encoder_new]
      by (auto simp: encode_run_def Let_def run_encoder_new_def)
    have "texts' = texts + count + sum_list (map cell_text_bytes (drop ?k cells))"
    proof (rule less.IH)
      show "length (drop ?k cells) < length cells"
        using next_run_same_style(1) [OF False less.prems(1)] False by simp
      show "plain_cells (drop ?k cells)" if plain using that by (simp add: next_run_count_def plain_cells_def)
      show "encode_runs plain (drop ?k cells) t1 bytes1 (n + 1) (texts + count) = (t', bytes, n', texts')"
        using less.prems(2) find run by (simp add: encode_runs_step [OF False])
    qed
    then show ?thesis unfolding count by (metis add.assoc append_take_drop_id map_append sum_list_append)
  qed
qed

section \<open>The padded row\<close>

lemma compute_text_byte_count_sum:
  "compute_text_byte_count row e =
     sum_list (map cell_text_bytes (take (if e = Row_Hard then count_row_content_cells row else length row) row))"
proof -
  have "sum_list (map cell_text_bytes cells) = sum_list (map (\<lambda>c. len_utf8 (character c) + count_utf8_bytes (list_encoded_combining_characters c))
      (filter (\<lambda>c. display_width c \<noteq> 0) cells))" for cells
    by (induction cells) (simp_all add: cell_text_bytes_def)
  then show ?thesis by (simp add: compute_text_byte_count_def Let_def)
qed

lemma blanks_text_bytes: "sum_list (map cell_text_bytes (replicate n build_blank)) = n"
proof -
  have "cell_text_bytes build_blank = 1"
    by (simp add: cell_text_bytes_def build_blank_def build_blank_with_style_def list_encoded_combining_characters_def
        list_combining_characters_def len_utf8_def count_utf8_bytes_def)
  then show ?thesis by (simp add: sum_list_replicate)
qed

lemma encode_row_text_count:
  assumes "plain \<Longrightarrow> plain_cells row" "length row = unat column_count"
  shows "snd (encode_row_cells_with_buffers row column_count plain e) = compute_text_byte_count row e"
proof -
  let ?k = "count_row_content_cells row" and ?start = "if e = Row_Hard then 0 else unat column_count - count_row_content_cells row"
  obtain t bytes n texts where runs: "encode_runs plain (take ?k row) empty_style_table [] 0 ?start = (t, bytes, n, texts)"
    by (cases "encode_runs plain (take ?k row) empty_style_table [] 0 ?start") auto
  then have "texts = ?start + sum_list (map cell_text_bytes (take ?k row))"
    by (rule encode_runs_text_count [rotated]) (rule plain_cells_take [OF assms(1)])
  moreover have "sum_list (map cell_text_bytes row) = sum_list (map cell_text_bytes (take ?k row)) + (length row - ?k)"
    by (metis append_take_drop_id map_append sum_list_append drop_row_content blanks_text_bytes)
  ultimately show ?thesis
    using runs assms(2) by (simp add: encode_row_cells_with_buffers_def Let_def compute_text_byte_count_sum)
qed

lemma encode_padded_row_same:
  assumes "length row_cells \<le> unat column_count"
    and "\<And>s. plain_row_style = Some s \<Longrightarrow> list_all (\<lambda>c. cell_style c = s \<and> plain_ascii_cell c) row_cells"
  defines "padded_cells \<equiv> row_cells @ replicate (unat column_count - length row_cells) build_blank"
  shows "encode_padded_row_cells row_cells column_count plain_row_style e = encode_row_cells padded_cells e \<and>
    map_option snd (encode_row_cells padded_cells e) = Some (compute_text_byte_count padded_cells e)"
proof -
  have n: "length padded_cells = unat column_count" using assms(1) by (simp add: padded_cells_def)
  have "unat column_count < 2 ^ LENGTH(16)" by (rule unsigned_less)
  then have encode: "encode_row_cells padded_cells e = Some (encode_row_cells_with_buffers padded_cells column_count False e)"
    using n by (simp add: encode_row_cells_def encode_padded_row_cells_def)
  have plain: "plain_cells row_cells" if "plain_row_style \<noteq> None"
    using that assms(2) by (auto simp: plain_cells_iff list_all_iff)
  have "encode_row_cells_with_buffers row_cells column_count (plain_row_style \<noteq> None) e =
      encode_row_cells_with_buffers padded_cells column_count False e"
    unfolding padded_cells_def by (rule encode_row_plain [OF plain assms(1)])
  then have "encode_padded_row_cells row_cells column_count plain_row_style e = encode_row_cells padded_cells e"
    using assms(1) unfolding encode encode_padded_row_cells_def by simp
  moreover have "snd (encode_row_cells_with_buffers padded_cells column_count False e) = compute_text_byte_count padded_cells e"
    by (rule encode_row_text_count) (simp_all add: n)
  ultimately show ?thesis by (simp add: encode)
qed

text \<open>
  C9. The shortcuts of the row encoder change nothing. Encoding a row of cells with a column count, and
  with the plain style of a row of narrow ASCII cells, gives the bytes and the text byte count of
  encoding the row padded with blanks cell by cell; and the text byte count is the one
  \<open>compute_text_byte_count\<close> gives for the padded row.
\<close>

theorem encode_padded_row_equivalence:
  assumes "length row_cells \<le> unat column_count"
    and "\<And>s. plain_row_style = Some s \<Longrightarrow> list_all (\<lambda>c. cell_style c = s \<and> plain_ascii_cell c) row_cells"
  defines "padded_cells \<equiv> row_cells @ replicate (unat column_count - length row_cells) build_blank"
  shows "encode_padded_row_cells row_cells column_count plain_row_style e = encode_row_cells padded_cells e \<and>
    map_option snd (encode_row_cells padded_cells e) = Some (compute_text_byte_count padded_cells e)"
  unfolding padded_cells_def using assms(1,2) by (rule encode_padded_row_same)

text \<open>Three equal cells in a row of six columns.\<close>

theorem encode_padded_row_equivalence_witness:
  "encode_padded_row_cells (replicate 3 (from_character 0x61 1 style_default)) 6 (Some style_default) Row_Soft =
     encode_row_cells (replicate 3 (from_character 0x61 1 style_default) @ replicate 3 build_blank) Row_Soft"
  using encode_padded_row_equivalence [of "replicate 3 (from_character 0x61 1 style_default)" 6 "Some style_default" Row_Soft]
  by (simp add: list_all_iff plain_ascii_cell_def is_ascii_char_def is_plain_narrow_cell_def from_character_def
      list_encoded_combining_characters_def list_combining_characters_def)

section \<open>Repadding\<close>

lemma compute_varint_byte_count_length: "compute_varint_byte_count v = length (varint_bytes v)"
proof -
  have "compute_varint_byte_count_from w n = n + (if w = 0 then 0 else length (varint_bytes w))" for w n
  proof (induction w n rule: compute_varint_byte_count_from.induct)
    case (1 w n)
    then show ?case
      by (cases "w = 0")
        (simp_all add: compute_varint_byte_count_from.simps [of w n] compute_varint_byte_count_from.simps [of 0 n] varint_bytes_rec [of w])
  qed
  then show ?thesis by (simp add: compute_varint_byte_count_def varint_bytes_rec [of v])
qed

text \<open>What of an encoding does not depend on the column count.\<close>

definition style_and_run_bytes :: "cell list \<Rightarrow> bool \<Rightarrow> u8 list" where
  "style_and_run_bytes content_cells plain =
     (let (table, run_bytes, run_count, texts) = encode_runs plain content_cells empty_style_table [] 0 0
      in varint_bytes (of_nat (length (table_styles table))) @ concat (map style_wire (table_styles table)) @
         varint_bytes (of_nat run_count) @ run_bytes)"

lemma encode_runs_texts:
  assumes "plain \<Longrightarrow> plain_cells cells"
  shows "fst (encode_runs plain cells t bytes n texts) = fst (encode_runs plain cells t bytes n 0) \<and>
    fst (snd (encode_runs plain cells t bytes n texts)) = fst (snd (encode_runs plain cells t bytes n 0)) \<and>
    fst (snd (snd (encode_runs plain cells t bytes n texts))) = fst (snd (snd (encode_runs plain cells t bytes n 0)))"
  using assms
proof (induction cells arbitrary: t bytes n texts rule: measure_induct_rule [of length])
  case (less cells)
  show ?case
  proof (cases "cells = []")
    case True
    then show ?thesis by (simp add: encode_runs.simps)
  next
    case False
    let ?k = "next_run_count plain cells"
    have shorter: "length (drop ?k cells) < length cells"
      using next_run_same_style(1) [OF False less.prems] False by simp
    have "plain_cells (drop ?k cells)" if plain using that by (simp add: next_run_count_def plain_cells_def)
    note IH = less.IH [OF shorter this]
    show ?thesis
      unfolding encode_runs_step [OF False] Let_def case_prod_beta
      by (metis (no_types, lifting) IH)
  qed
qed

lemma encode_row_parts:
  assumes "plain \<Longrightarrow> plain_cells row"
  shows "fst (encode_row_cells_with_buffers row column_count plain e) =
    (let body = varint_bytes (ucast column_count) @ varint_bytes (compute_row_end_code e) @
                varint_bytes (of_nat (unat column_count - count_row_content_cells row)) @
                style_and_run_bytes (take (count_row_content_cells row) row) plain
     in varint_bytes (of_nat (length body)) @ body)"
proof -
  define start where "start = (if e = Row_Hard then 0 else unat column_count - count_row_content_cells row)"
  define content where "content = take (count_row_content_cells row) row"
  have content: "plain_cells content" if plain unfolding content_def using plain_cells_take [OF assms [OF that]] .
  have texts: "fst (encode_runs plain content empty_style_table [] 0 start) = fst (encode_runs plain content empty_style_table [] 0 0)"
    "fst (snd (encode_runs plain content empty_style_table [] 0 start)) = fst (snd (encode_runs plain content empty_style_table [] 0 0))"
    "fst (snd (snd (encode_runs plain content empty_style_table [] 0 start))) = fst (snd (snd (encode_runs plain content empty_style_table [] 0 0)))"
    using encode_runs_texts [of plain content] content by blast+
  have "fst (encode_row_cells_with_buffers row column_count plain e) =
    (let out = encode_runs plain content empty_style_table [] 0 start;
         body = varint_bytes (ucast column_count) @ varint_bytes (compute_row_end_code e) @
                varint_bytes (of_nat (unat column_count - count_row_content_cells row)) @
                varint_bytes (of_nat (length (table_styles (fst out)))) @ concat (map style_wire (table_styles (fst out))) @
                varint_bytes (of_nat (fst (snd (snd out)))) @ fst (snd out)
     in varint_bytes (of_nat (length body)) @ body)"
    unfolding encode_row_cells_with_buffers_def Let_def start_def [symmetric] content_def [symmetric]
    by (simp add: case_prod_beta fold_write_style_entry write_varint_append [of _ "varint_bytes _"]
        write_varint_append [of _ "_ @ _"] ac_simps)
  then show ?thesis
    by (simp only: texts style_and_run_bytes_def case_prod_beta Let_def content_def [symmetric] append_assoc)
qed

lemma count_row_content_cells_content:
  "count_row_content_cells (take (count_row_content_cells row) row) = count_row_content_cells row"
proof -
  let ?k = "count_row_content_cells row"
  have "row = take ?k row @ replicate (length row - ?k) build_blank"
    by (metis append_take_drop_id drop_row_content)
  then show ?thesis by (metis count_row_content_cells_padded)
qed

lemma repad_encoded_row_content:
  assumes "encode_padded_row_cells row_cells column_count plain_row_style e = Some (bytes, texts)"
    and "\<And>s. plain_row_style = Some s \<Longrightarrow> list_all (\<lambda>c. cell_style c = s \<and> plain_ascii_cell c) row_cells"
  defines "content_count \<equiv> count_row_content_cells row_cells"
  shows "repad_encoded_row bytes new_count =
    Inr (if unat new_count \<le> content_count then None
         else map_option (\<lambda>(new_bytes, _). (new_bytes, of_nat content_count))
           (encode_padded_row_cells (take content_count row_cells) new_count plain_row_style e))"
proof -
  define plain where "plain = (plain_row_style \<noteq> None)"
  have n: "length row_cells \<le> unat column_count" and bytes: "bytes = fst (encode_row_cells_with_buffers row_cells column_count plain e)"
    using assms(1) by (auto simp: encode_padded_row_cells_def plain_def split: if_splits)
  have k: "content_count \<le> unat column_count" using n count_row_content_cells_le [of row_cells] by (simp add: content_count_def)
  have plain: "plain_cells row_cells" if plain
    using that assms(2) by (auto simp: plain_def plain_cells_iff list_all_iff)
  let ?rest = "style_and_run_bytes (take content_count row_cells) plain"
  have column: "unat column_count < 2 ^ LENGTH(16)" "unat new_count < 2 ^ LENGTH(16)" by (rule unsigned_less)+
  have header: "read_row_header bytes = Inr (\<lparr>shape_column_count = column_count, shape_row_end = e,
      shape_trailing_blank_count = of_nat (unat column_count - content_count)\<rparr>, ?rest)"
  proof -
    have "bytes = (let body = varint_bytes (ucast column_count) @ varint_bytes (compute_row_end_code e) @
        varint_bytes (of_nat (unat column_count - content_count)) @ ?rest in varint_bytes (of_nat (length body)) @ body)"
      unfolding bytes content_count_def by (rule encode_row_parts [OF plain])
    then show ?thesis unfolding Let_def by (simp only: append_assoc) (rule row_header_read, simp)
  qed
  have count: "column_count - of_nat (unat column_count - content_count) = of_nat content_count"
    using k by (simp add: of_nat_diff)
  have new: "new_count \<le> of_nat content_count \<longleftrightarrow> unat new_count \<le> content_count"
    using k column by (simp add: word_le_nat_alt unat_of_nat)
  have blanks: "ucast (new_count - of_nat content_count) = (of_nat (unat new_count - content_count) :: u64)" if "content_count < unat new_count"
  proof -
    have "of_nat content_count \<le> new_count" using that column by (simp add: word_le_nat_alt unat_of_nat)
    then have "unat (new_count - of_nat content_count) = unat new_count - content_count"
      using that column by (simp add: unat_sub unat_of_nat)
    then show ?thesis by (metis unat_widen_u16 of_nat_unat word_of_nat_eq_iff ucast_id)
  qed
  have take_plain: "plain_cells (take content_count row_cells)" if plain using plain_cells_take [OF plain [OF that]] .
  have "encode_padded_row_cells (take content_count row_cells) new_count plain_row_style e =
      Some (encode_row_cells_with_buffers (take content_count row_cells) new_count plain e)" if "content_count < unat new_count"
    using that by (simp add: encode_padded_row_cells_def plain_def)
  moreover have "fst (encode_row_cells_with_buffers (take content_count row_cells) new_count plain e) =
      (let body = varint_bytes (ucast new_count) @ varint_bytes (compute_row_end_code e) @
                  varint_bytes (of_nat (unat new_count - content_count)) @ ?rest in varint_bytes (of_nat (length body)) @ body)"
    using encode_row_parts [of plain "take content_count row_cells" new_count e] take_plain count_row_content_cells_content [of row_cells]
    by (simp add: content_count_def)
  ultimately show ?thesis
    using blanks
    by (auto simp: repad_encoded_row_def header count new Let_def compute_varint_byte_count_length
        write_varint_append [of _ "varint_bytes _"] write_varint_append [of _ "_ @ _"] ac_simps case_prod_beta)
qed

text \<open>
  C26. Repadding. An encoded row that is repadded to another column count is, byte for byte, the
  encoding of its content at that column count, and the repadding reports the count of content cells;
  a column count the content fills or exceeds is refused with \<open>None\<close>. No cell is decoded on the way.
\<close>

theorem repad_encoded_row_spec:
  assumes "encode_padded_row_cells row_cells column_count plain_row_style e = Some (bytes, texts)"
    and "\<And>s. plain_row_style = Some s \<Longrightarrow> list_all (\<lambda>c. cell_style c = s \<and> plain_ascii_cell c) row_cells"
  defines "content_count \<equiv> count_row_content_cells row_cells"
  shows "repad_encoded_row bytes new_count =
    Inr (if unat new_count \<le> content_count then None
         else map_option (\<lambda>(new_bytes, _). (new_bytes, of_nat content_count))
           (encode_padded_row_cells (take content_count row_cells) new_count plain_row_style e))"
  unfolding content_count_def using assms(1,2) by (rule repad_encoded_row_content)

theorem repad_encoded_row_spec_witness:
  "\<exists>bytes texts new_bytes new_texts.
     encode_padded_row_cells [from_character 0x61 1 style_default, from_character 0x62 1 style_default] 4 None Row_Hard = Some (bytes, texts) \<and>
     encode_padded_row_cells [from_character 0x61 1 style_default, from_character 0x62 1 style_default] 6 None Row_Hard = Some (new_bytes, new_texts) \<and>
     repad_encoded_row bytes 6 = Inr (Some (new_bytes, 2))"
proof -
  let ?row = "[from_character 0x61 1 style_default, from_character 0x62 1 style_default]"
  have k: "count_row_content_cells ?row = 2"
    by (simp add: count_row_content_cells_def rposition_def from_character_def build_blank_def build_blank_with_style_def)
  obtain bytes texts where old: "encode_padded_row_cells ?row 4 None Row_Hard = Some (bytes, texts)"
    by (cases "encode_row_cells_with_buffers ?row 4 False Row_Hard") (simp add: encode_padded_row_cells_def)
  obtain new_bytes new_texts where new: "encode_padded_row_cells ?row 6 None Row_Hard = Some (new_bytes, new_texts)"
    by (cases "encode_row_cells_with_buffers ?row 6 False Row_Hard") (simp add: encode_padded_row_cells_def)
  have "repad_encoded_row bytes 6 = Inr (Some (new_bytes, 2))"
    using repad_encoded_row_spec [OF old, of 6] new by (simp add: k)
  with old new show ?thesis by blast
qed

end
