(* ===== verification/Row_Snapshot.thy ===== *)
theory Row_Snapshot
  imports Row_Equivalence
begin

text \<open>
  Row snapshots (\<open>koshi-terminal/src/grid/row_snapshot.rs\<close>): a row in the row encoding with the image
  data the encoding leaves out. A panic is the outer \<open>None\<close>; the capacity of a buffer, which no result
  shows, is left out. The base64 text of a stored row is a serde form and is left out too.
\<close>

record row_image_cell =
  image_column_index :: u16
  image_cell_extra :: cell_extra

record row_snapshot =
  snapshot_row_bytes :: "u8 list"
  snapshot_metadata :: row_metadata
  snapshot_text_byte_count :: nat
  snapshot_image_cells :: "row_image_cell list"
  decoded_cells :: "cell list option"

record repadded_row =
  repadded_snapshot :: row_snapshot
  repadded_run_cell_count :: u16

datatype stored_row_error =
    Stored_Undecodable row_decode_error
  | RowEndMismatch
  | ImageCellPastRow u16
  | ImageCellsOutOfOrder
  | ImageCellWithoutImage u16

text \<open>The loop that collects the image cells of a row, from a column on.\<close>

fun collect_image_cells :: "nat \<Rightarrow> cell list \<Rightarrow> row_image_cell list" where
  "collect_image_cells column_index [] = []"
| "collect_image_cells column_index (c # cells) =
     (case get_image_cell_extra c of
        None \<Rightarrow> collect_image_cells (column_index + 1) cells
      | Some e \<Rightarrow>
          \<lparr>image_column_index = of_nat column_index, image_cell_extra = e\<rparr> # collect_image_cells (column_index + 1) cells)"

definition from_padded_row_cells ::
    "cell list \<Rightarrow> u16 \<Rightarrow> style option \<Rightarrow> row_metadata \<Rightarrow> row_snapshot option" where
  "from_padded_row_cells row_cells column_count plain_row_style md =
     (case encode_padded_row_cells row_cells column_count plain_row_style (metadata_row_end md) of
        None \<Rightarrow> None
      | Some (bytes, text_byte_count) \<Rightarrow>
          Some \<lparr>snapshot_row_bytes = bytes, snapshot_metadata = md, snapshot_text_byte_count = text_byte_count,
                snapshot_image_cells = collect_image_cells 0 (if plain_row_style \<noteq> None then [] else row_cells),
                decoded_cells = None\<rparr>)"

definition from_row_cells :: "cell list \<Rightarrow> row_metadata \<Rightarrow> row_snapshot option" where
  "from_row_cells row_cells md =
     (if length row_cells < 2 ^ 16 then from_padded_row_cells row_cells (of_nat (length row_cells)) None md else None)"

definition from_encoded_row_bytes :: "u8 list \<Rightarrow> u16 \<Rightarrow> row_decode_error + row_snapshot" where
  "from_encoded_row_bytes bytes column_count =
     (case read_encoded_row_shape bytes of
        Inl e \<Rightarrow> Inl e
      | Inr shape \<Rightarrow>
          if shape_column_count shape \<noteq> column_count
          then Inl (Row_ValueOutOfRange ''column_count'' (ucast (shape_column_count shape)))
          else
            case decode_row_cells bytes of
              Inl e \<Rightarrow> Inl e
            | Inr row \<Rightarrow>
                Inr \<lparr>snapshot_row_bytes = bytes,
                     snapshot_metadata = \<lparr>metadata_row_end = decoded_row_end row, metadata_has_prompt_mark = False\<rparr>,
                     snapshot_text_byte_count = compute_text_byte_count (decoded_row_cells row) (decoded_row_end row),
                     snapshot_image_cells = [], decoded_cells = Some (decoded_row_cells row)\<rparr>)"

text \<open>The loop of \<open>from_stored_row\<close> over the image cells, with the column of the one before.\<close>

fun place_stored_image_cells :: "u16 option \<Rightarrow> row_image_cell list \<Rightarrow> cell list \<Rightarrow> stored_row_error + cell list" where
  "place_stored_image_cells previous [] row_cells = Inr row_cells"
| "place_stored_image_cells previous (ic # ics) row_cells =
     (let i = image_column_index ic in
      if (case previous of None \<Rightarrow> False | Some p \<Rightarrow> i \<le> p) then Inl ImageCellsOutOfOrder
      else case nth_opt row_cells (unat i) of
        None \<Rightarrow> Inl (ImageCellPastRow i)
      | Some c \<Rightarrow>
          let c = set_cell_extra (image_cell_extra ic) c in
          if get_image_cell_extra c = None then Inl (ImageCellWithoutImage i)
          else place_stored_image_cells (Some i) ics (row_cells[unat i := c]))"

definition from_stored_row ::
    "u8 list \<Rightarrow> row_metadata \<Rightarrow> row_image_cell list \<Rightarrow> (stored_row_error + row_snapshot) option" where
  "from_stored_row bytes md image_cells =
     (case decode_row_cells bytes of
        Inl e \<Rightarrow> Some (Inl (Stored_Undecodable e))
      | Inr row \<Rightarrow>
          if decoded_row_end row \<noteq> metadata_row_end md then Some (Inl RowEndMismatch)
          else case place_stored_image_cells None image_cells (decoded_row_cells row) of
            Inl e \<Rightarrow> Some (Inl e)
          | Inr row_cells \<Rightarrow> map_option Inr (from_row_cells row_cells md))"

fun restore_image_cells :: "row_image_cell list \<Rightarrow> cell list \<Rightarrow> cell list option" where
  "restore_image_cells [] row_cells = Some row_cells"
| "restore_image_cells (ic # ics) row_cells =
     (case nth_opt row_cells (unat (image_column_index ic)) of
        None \<Rightarrow> None
      | Some c \<Rightarrow>
          restore_image_cells ics (row_cells[unat (image_column_index ic) := set_cell_extra (image_cell_extra ic) c]))"

definition snapshot_decode_row_cells :: "row_snapshot \<Rightarrow> cell list option" where
  "snapshot_decode_row_cells sn =
     (case decode_row_cells (snapshot_row_bytes sn) of
        Inl e \<Rightarrow> None
      | Inr row \<Rightarrow> restore_image_cells (snapshot_image_cells sn) (decoded_row_cells row))"

definition repad_hard_row :: "row_snapshot \<Rightarrow> u16 \<Rightarrow> repadded_row option option" where
  "repad_hard_row sn column_count =
     (if metadata_row_end (snapshot_metadata sn) \<noteq> Row_Hard then Some None
      else case repad_encoded_row (snapshot_row_bytes sn) column_count of
        Inl e \<Rightarrow> None
      | Inr None \<Rightarrow> Some None
      | Inr (Some (bytes, run_cell_count)) \<Rightarrow>
          Some (Some \<lparr>repadded_snapshot = sn\<lparr>snapshot_row_bytes := bytes, decoded_cells := None\<rparr>,
                      repadded_run_cell_count = run_cell_count\<rparr>))"

definition get_encoded_row_shape :: "row_snapshot \<Rightarrow> encoded_row_shape option" where
  "get_encoded_row_shape sn =
     (case read_encoded_row_shape (snapshot_row_bytes sn) of Inl e \<Rightarrow> None | Inr shape \<Rightarrow> Some shape)"

definition snapshot_decode_run_cells_into :: "row_snapshot \<Rightarrow> cell list \<Rightarrow> (encoded_row_shape \<times> cell list) option" where
  "snapshot_decode_run_cells_into sn row_cells =
     (case decode_row_run_cells_into (snapshot_row_bytes sn) row_cells of
        (Inl e, _) \<Rightarrow> None
      | (Inr shape, cells) \<Rightarrow>
          (case restore_image_cells (snapshot_image_cells sn) (drop (length row_cells) cells) of
             None \<Rightarrow> None
           | Some restored \<Rightarrow> Some (shape, take (length row_cells) cells @ restored)))"

text \<open>\<open>list_row_cells\<close> with the snapshot as it leaves it: the first call keeps the cells.\<close>

definition list_row_cells :: "row_snapshot \<Rightarrow> (cell list \<times> row_snapshot) option" where
  "list_row_cells sn =
     (case decoded_cells sn of
        Some cells \<Rightarrow> Some (cells, sn)
      | None \<Rightarrow> map_option (\<lambda>cells. (cells, sn\<lparr>decoded_cells := Some cells\<rparr>)) (snapshot_decode_row_cells sn))"

definition row_snapshot_eq :: "row_snapshot \<Rightarrow> row_snapshot \<Rightarrow> bool" where
  "row_snapshot_eq a b \<longleftrightarrow>
     snapshot_row_bytes a = snapshot_row_bytes b \<and> snapshot_metadata a = snapshot_metadata b \<and>
     snapshot_image_cells a = snapshot_image_cells b"

section \<open>Image cells\<close>

text \<open>A cell as the grid keeps it: it carries image data, or text only.\<close>

definition cell_normal :: "cell \<Rightarrow> bool" where
  "cell_normal c \<longleftrightarrow> get_image_cell_extra c \<noteq> None \<or> text_cell c"

lemma set_extra_wire_cell: "get_image_cell_extra c = Some e \<Longrightarrow> set_cell_extra e (wire_cell c) = c"
  by (auto simp: get_image_cell_extra_def wire_cell_def push_combining_all set_cell_extra_def from_character_def
      split: option.splits if_splits)

lemma get_image_set_extra: "get_image_cell_extra c = Some e \<Longrightarrow> get_image_cell_extra (set_cell_extra e c') = Some e"
  by (auto simp: get_image_cell_extra_def set_cell_extra_def split: option.splits if_splits)

lemma wire_cell_no_image: "cell_normal c \<Longrightarrow> get_image_cell_extra c = None \<Longrightarrow> wire_cell c = c"
  by (simp add: cell_normal_def wire_cell_text)

lemma collect_image_cells_append:
  "collect_image_cells i (xs @ ys) = collect_image_cells i xs @ collect_image_cells (i + length xs) ys"
  by (induction xs arbitrary: i) (simp_all split: option.split)

lemma collect_no_image: "\<forall>c \<in> set cells. get_image_cell_extra c = None \<Longrightarrow> collect_image_cells i cells = []"
  by (induction cells arbitrary: i) simp_all

lemma blank_no_image [simp]: "get_image_cell_extra build_blank = None"
  by (simp add: get_image_cell_extra_def build_blank_def build_blank_with_style_def)

lemma collect_padded [simp]: "collect_image_cells i (cells @ replicate n build_blank) = collect_image_cells i cells"
  by (simp add: collect_image_cells_append collect_no_image)

lemma collect_content: "collect_image_cells i (take (count_row_content_cells row) row) = collect_image_cells i row"
  by (metis append_take_drop_id collect_padded drop_row_content)

lemma column_of_nat: "i < 2 ^ 16 \<Longrightarrow> unat (of_nat i :: u16) = i"
  by (simp add: unat_of_nat)

lemma restore_collected:
  assumes "list_all cell_normal cells" "length pre + length cells \<le> 2 ^ 16"
  shows "restore_image_cells (collect_image_cells (length pre) cells) (pre @ map wire_cell cells @ post) = Some (pre @ cells @ post)"
  using assms
proof (induction cells arbitrary: pre)
  case (Cons c cells)
  have IH: "restore_image_cells (collect_image_cells (length (pre @ [c])) cells) ((pre @ [c]) @ map wire_cell cells @ post) =
      Some ((pre @ [c]) @ cells @ post)"
    using Cons.prems by (intro Cons.IH) simp_all
  show ?case
  proof (cases "get_image_cell_extra c")
    case None
    with IH Cons.prems show ?thesis by (simp add: wire_cell_no_image)
  next
    case (Some e)
    have "length pre < 2 ^ 16" using Cons.prems by simp
    with IH Some show ?thesis
      by (simp add: column_of_nat nth_opt_def nth_append set_extra_wire_cell list_update_append)
  qed
qed simp

lemma place_collected:
  assumes "list_all cell_normal cells" "length pre + length cells \<le> 2 ^ 16"
    and "\<And>p. previous = Some p \<Longrightarrow> unat p < length pre"
  shows "place_stored_image_cells previous (collect_image_cells (length pre) cells) (pre @ map wire_cell cells @ post) =
    Inr (pre @ cells @ post)"
  using assms
proof (induction cells arbitrary: pre previous)
  case (Cons c cells)
  have IH: "place_stored_image_cells prev (collect_image_cells (length (pre @ [c])) cells) ((pre @ [c]) @ map wire_cell cells @ post) =
      Inr ((pre @ [c]) @ cells @ post)" if "\<And>p. prev = Some p \<Longrightarrow> unat p < length (pre @ [c])" for prev
    using Cons.prems that by (intro Cons.IH) simp_all
  show ?case
  proof (cases "get_image_cell_extra c")
    case None
    moreover have "\<And>p. previous = Some p \<Longrightarrow> unat p < length (pre @ [c])" using Cons.prems(3) by fastforce
    ultimately show ?thesis using IH Cons.prems(1) by (simp add: wire_cell_no_image)
  next
    case (Some e)
    have i: "unat (of_nat (length pre) :: u16) = length pre" using Cons.prems by (intro column_of_nat) simp
    have "place_stored_image_cells (Some (of_nat (length pre))) (collect_image_cells (length (pre @ [c])) cells)
        ((pre @ [c]) @ map wire_cell cells @ post) = Inr ((pre @ [c]) @ cells @ post)"
      by (rule IH) (auto simp: i)
    moreover have "\<not> (case previous of None \<Rightarrow> False | Some p \<Rightarrow> of_nat (length pre) \<le> p)"
      using Cons.prems(3) i by (auto simp: word_le_nat_alt split: option.split)
    ultimately show ?thesis
      using Some get_image_set_extra [OF Some]
      by (simp add: i Let_def nth_opt_def nth_append set_extra_wire_cell list_update_append)
  qed
qed simp

section \<open>A row through its snapshot\<close>

lemma image_free_plain:
  assumes "\<And>s. plain_row_style = Some s \<Longrightarrow> list_all (\<lambda>c. cell_style c = s \<and> plain_ascii_cell c \<and> get_image_cell_extra c = None) row"
  shows "collect_image_cells 0 (if plain_row_style \<noteq> None then [] else row) = collect_image_cells 0 row"
    and "\<And>s. plain_row_style = Some s \<Longrightarrow> list_all (\<lambda>c. cell_style c = s \<and> plain_ascii_cell c) row"
proof -
  show "\<And>s. plain_row_style = Some s \<Longrightarrow> list_all (\<lambda>c. cell_style c = s \<and> plain_ascii_cell c) row"
    using assms by (simp add: list_all_iff)
  show "collect_image_cells 0 (if plain_row_style \<noteq> None then [] else row) = collect_image_cells 0 row"
    using assms by (cases plain_row_style) (auto simp: list_all_iff collect_no_image)
qed

lemma from_row_cells_padded:
  assumes "length row \<le> unat column_count"
    and "\<And>s. plain_row_style = Some s \<Longrightarrow> list_all (\<lambda>c. cell_style c = s \<and> plain_ascii_cell c \<and> get_image_cell_extra c = None) row"
  shows "from_row_cells (row @ replicate (unat column_count - length row) build_blank) md =
    from_padded_row_cells row column_count plain_row_style md"
proof -
  let ?padded = "row @ replicate (unat column_count - length row) build_blank"
  have n: "length ?padded = unat column_count" "unat column_count < 2 ^ 16"
    using assms(1) unat_u16_less [of column_count] by simp_all
  have "encode_padded_row_cells ?padded column_count None e = encode_row_cells ?padded e" for e
    using n by (simp add: encode_row_cells_def)
  moreover have "encode_padded_row_cells row column_count plain_row_style e = encode_row_cells ?padded e" for e
    using encode_padded_row_same [of row column_count plain_row_style e] assms(1) image_free_plain(2) [OF assms(2)] by blast
  moreover have "collect_image_cells 0 (if plain_row_style \<noteq> None then [] else row) = collect_image_cells 0 row"
    by (rule image_free_plain(1) [OF assms(2)])
  ultimately show ?thesis
    using n unfolding from_row_cells_def from_padded_row_cells_def
    by (cases "encode_row_cells ?padded (metadata_row_end md)"; cases plain_row_style) auto
qed

lemma snapshot_decodes:
  assumes "length row \<le> unat column_count" "list_all cell_ok row" "list_all cell_normal row"
    and "\<And>s. plain_row_style = Some s \<Longrightarrow> list_all (\<lambda>c. cell_style c = s \<and> plain_ascii_cell c \<and> get_image_cell_extra c = None) row"
  shows "\<exists>sn. from_padded_row_cells row column_count plain_row_style md = Some sn \<and> snapshot_metadata sn = md \<and>
    snapshot_image_cells sn = collect_image_cells 0 row \<and>
    snapshot_text_byte_count sn = compute_text_byte_count (row @ replicate (unat column_count - length row) build_blank) (metadata_row_end md) \<and>
    decode_row_cells (snapshot_row_bytes sn) =
      Inr \<lparr>decoded_row_cells = map wire_cell row @ replicate (unat column_count - length row) build_blank,
           decoded_row_end = metadata_row_end md\<rparr> \<and>
    read_encoded_row_shape (snapshot_row_bytes sn) = Inr (content_shape row column_count (metadata_row_end md)) \<and>
    decode_row_runs (snapshot_row_bytes sn) =
      Inr (content_shape row column_count (metadata_row_end md), map wire_cell (take (count_row_content_cells row) row))"
proof -
  let ?padded = "row @ replicate (unat column_count - length row) build_blank" and ?e = "metadata_row_end md"
  have plain: "\<And>s. plain_row_style = Some s \<Longrightarrow> list_all (\<lambda>c. cell_style c = s \<and> plain_ascii_cell c) row"
    by (rule image_free_plain(2) [OF assms(4)])
  obtain bytes texts where row: "encode_padded_row_cells row column_count plain_row_style ?e = Some (bytes, texts)"
    "decode_row_cells bytes = Inr \<lparr>decoded_row_cells = map wire_cell row @ replicate (unat column_count - length row) build_blank,
      decoded_row_end = ?e\<rparr>"
    using encoded_row_decodes [of row column_count plain_row_style ?e] assms(1,2) plain by blast
  moreover have "decode_row_runs bytes = Inr (content_shape row column_count ?e, map wire_cell (take (count_row_content_cells row) row))"
    "read_encoded_row_shape bytes = Inr (content_shape row column_count ?e)"
    using encoded_row_reads [of row column_count plain_row_style ?e] assms(1,2) plain row(1) by auto
  moreover have "texts = compute_text_byte_count ?padded ?e"
    using encode_padded_row_same [of row column_count plain_row_style ?e] assms(1) plain row(1) by auto
  moreover have "collect_image_cells 0 (if plain_row_style \<noteq> None then [] else row) = collect_image_cells 0 row"
    by (rule image_free_plain(1) [OF assms(4)])
  ultimately show ?thesis unfolding from_padded_row_cells_def by simp
qed

lemma list_all_take: "list_all p xs \<Longrightarrow> list_all p (take n xs)"
  by (auto simp: list_all_iff dest: in_set_takeD)

lemma snapshot_run_cells:
  assumes "length row \<le> unat column_count" "list_all cell_ok row" "list_all cell_normal row"
    and "\<And>s. plain_row_style = Some s \<Longrightarrow> list_all (\<lambda>c. cell_style c = s \<and> plain_ascii_cell c \<and> get_image_cell_extra c = None) row"
    and "from_padded_row_cells row column_count plain_row_style md = Some sn"
  shows "get_encoded_row_shape sn = Some (content_shape row column_count (metadata_row_end md))"
    and "snapshot_decode_run_cells_into sn row_cells =
      Some (content_shape row column_count (metadata_row_end md), row_cells @ take (count_row_content_cells row) row)"
proof -
  have sn: "snapshot_image_cells sn = collect_image_cells 0 row"
    "read_encoded_row_shape (snapshot_row_bytes sn) = Inr (content_shape row column_count (metadata_row_end md))"
    "decode_row_runs (snapshot_row_bytes sn) =
      Inr (content_shape row column_count (metadata_row_end md), map wire_cell (take (count_row_content_cells row) row))"
    using snapshot_decodes [of row column_count plain_row_style md] assms by auto
  show "get_encoded_row_shape sn = Some (content_shape row column_count (metadata_row_end md))"
    by (simp add: get_encoded_row_shape_def sn(2))
  have "length (take (count_row_content_cells row) row) \<le> 2 ^ 16"
    using assms(1) unat_u16_less [of column_count] by simp
  then have "restore_image_cells (snapshot_image_cells sn) (map wire_cell (take (count_row_content_cells row) row)) =
      Some (take (count_row_content_cells row) row)"
    using restore_collected [OF list_all_take [OF assms(3), of "count_row_content_cells row"], of "[]" "[]"] by (simp add: sn(1) collect_content)
  then show "snapshot_decode_run_cells_into sn row_cells =
      Some (content_shape row column_count (metadata_row_end md), row_cells @ take (count_row_content_cells row) row)"
    by (simp add: snapshot_decode_run_cells_into_def decode_row_run_cells_into_def sn(3))
qed

lemma repad_hard_row_snapshot:
  assumes "length row \<le> unat column_count" "metadata_row_end md = Row_Hard"
    and "\<And>s. plain_row_style = Some s \<Longrightarrow> list_all (\<lambda>c. cell_style c = s \<and> plain_ascii_cell c \<and> get_image_cell_extra c = None) row"
    and "from_padded_row_cells row column_count plain_row_style md = Some sn"
  defines "k \<equiv> count_row_content_cells row"
  shows "repad_hard_row sn new_count =
    Some (if unat new_count \<le> k then None
          else map_option (\<lambda>new. \<lparr>repadded_snapshot = new, repadded_run_cell_count = of_nat k\<rparr>)
            (from_padded_row_cells (take k row) new_count plain_row_style md))"
proof -
  obtain bytes texts where old: "encode_padded_row_cells row column_count plain_row_style Row_Hard = Some (bytes, texts)"
    and sn: "sn = \<lparr>snapshot_row_bytes = bytes, snapshot_metadata = md, snapshot_text_byte_count = texts,
      snapshot_image_cells = collect_image_cells 0 (if plain_row_style \<noteq> None then [] else row), decoded_cells = None\<rparr>"
    using assms(2,4) by (auto simp: from_padded_row_cells_def split: option.splits)
  have plain: "\<And>s. plain_row_style = Some s \<Longrightarrow> list_all (\<lambda>c. cell_style c = s \<and> plain_ascii_cell c) row"
    by (rule image_free_plain(2) [OF assms(3)])
  have repad: "repad_encoded_row bytes new_count = Inr (if unat new_count \<le> k then None
      else map_option (\<lambda>(new_bytes, _). (new_bytes, of_nat k)) (encode_padded_row_cells (take k row) new_count plain_row_style Row_Hard))"
    using repad_encoded_row_content [OF old, of new_count] plain unfolding k_def by blast
  have texts: "texts = compute_text_byte_count (row @ replicate (unat column_count - length row) build_blank) Row_Hard"
    using encode_padded_row_same [of row column_count plain_row_style Row_Hard] assms(1) plain old by auto
  show ?thesis
  proof (cases "unat new_count \<le> k")
    case True
    with repad sn assms(2) show ?thesis by (simp add: repad_hard_row_def)
  next
    case False
    have plain_take: "\<And>s. plain_row_style = Some s \<Longrightarrow> list_all (\<lambda>c. cell_style c = s \<and> plain_ascii_cell c) (take k row)"
      using plain list_all_take by blast
    have "length (take k row) \<le> unat new_count" using False by simp
    then obtain new_bytes where new: "encode_padded_row_cells (take k row) new_count plain_row_style Row_Hard =
        Some (new_bytes, compute_text_byte_count (take k row @ replicate (unat new_count - length (take k row)) build_blank) Row_Hard)"
      using encode_padded_row_same [of "take k row" new_count plain_row_style Row_Hard] plain_take by (auto simp: map_option_case split: option.splits)
    moreover have "compute_text_byte_count (take k row @ replicate m build_blank) Row_Hard = texts" for m
      using count_row_content_cells_le [of row] count_row_content_cells_content [of row]
      by (simp add: texts compute_text_byte_count_sum k_def)
    moreover have "collect_image_cells 0 (if plain_row_style \<noteq> None then [] else take k row) =
        collect_image_cells 0 (if plain_row_style \<noteq> None then [] else row)"
      by (simp add: k_def collect_content)
    ultimately show ?thesis using repad sn assms(2) False by (simp add: repad_hard_row_def from_padded_row_cells_def)
  qed
qed

text \<open>
  C10. A row snapshot loses nothing. The snapshot of a row of cells as the grid keeps them, padded to a
  column count, decodes without a panic to the row itself with its image data and the padding; its
  text byte count is that of the padded row; and storing its bytes, metadata and image cells and reading
  them back gives an equal snapshot.
\<close>

theorem row_snapshot_roundtrip:
  assumes "length row_cells \<le> unat column_count" "list_all cell_ok row_cells" "list_all cell_normal row_cells"
    and "\<And>s. plain_row_style = Some s \<Longrightarrow>
      list_all (\<lambda>c. cell_style c = s \<and> plain_ascii_cell c \<and> get_image_cell_extra c = None) row_cells"
  defines "padded_cells \<equiv> row_cells @ replicate (unat column_count - length row_cells) build_blank"
  shows "\<exists>sn. from_padded_row_cells row_cells column_count plain_row_style md = Some sn \<and>
    snapshot_decode_row_cells sn = Some padded_cells \<and>
    snapshot_text_byte_count sn = compute_text_byte_count padded_cells (metadata_row_end md) \<and>
    (\<exists>stored. from_stored_row (snapshot_row_bytes sn) (snapshot_metadata sn) (snapshot_image_cells sn) = Some (Inr stored) \<and>
       row_snapshot_eq stored sn)"
proof -
  obtain sn where sn: "from_padded_row_cells row_cells column_count plain_row_style md = Some sn" "snapshot_metadata sn = md"
    "snapshot_image_cells sn = collect_image_cells 0 row_cells"
    "snapshot_text_byte_count sn = compute_text_byte_count padded_cells (metadata_row_end md)"
    "decode_row_cells (snapshot_row_bytes sn) =
      Inr \<lparr>decoded_row_cells = map wire_cell row_cells @ replicate (unat column_count - length row_cells) build_blank,
           decoded_row_end = metadata_row_end md\<rparr>"
    using snapshot_decodes [of row_cells column_count plain_row_style md] assms(1-4) unfolding padded_cells_def by blast
  have n: "length row_cells \<le> 2 ^ 16" using assms(1) unat_u16_less [of column_count] by simp
  have "snapshot_decode_row_cells sn = Some padded_cells"
    using restore_collected [OF assms(3), of "[]" "replicate (unat column_count - length row_cells) build_blank"] n
    by (simp add: snapshot_decode_row_cells_def sn padded_cells_def)
  moreover have "from_stored_row (snapshot_row_bytes sn) md (snapshot_image_cells sn) = Some (Inr sn)"
    using place_collected [OF assms(3), of "[]" None "replicate (unat column_count - length row_cells) build_blank"] n
      from_row_cells_padded [of row_cells column_count plain_row_style md] assms(1,4) sn(1)
    by (simp add: from_stored_row_def sn(3,5))
  ultimately show ?thesis using sn by (auto simp: row_snapshot_eq_def padded_cells_def)
qed

text \<open>A row with a combined character and an image placeholder.\<close>

definition image_row :: "cell list" where
  "image_row =
     [push_combining 0x301 (from_character 0x65 1 style_default),
      set_image_placeholder (from_placeholder_style style_default) (from_character 0x41 1 style_default)]"

theorem row_snapshot_roundtrip_witness:
  "\<exists>sn. from_padded_row_cells image_row 4 None row_metadata_default = Some sn \<and>
    snapshot_decode_row_cells sn = Some (image_row @ replicate 2 build_blank)"
proof -
  have "list_all cell_normal image_row"
    by (simp add: image_row_def cell_normal_def text_cell_def get_image_cell_extra_def has_image_data_def from_character_def
        push_combining_def set_image_placeholder_def Let_def extra_or_default_def cell_extra_default_def)
  moreover have "list_all cell_ok image_row"
    using style_default_ok
    by (simp add: image_row_def cell_ok_def list_encoded_combining_characters_def has_image_placeholder_def get_image_placeholder_def
        list_combining_characters_def from_character_def push_combining_def set_image_placeholder_def Let_def extra_or_default_def
        cell_extra_default_def is_scalar_value_def MAX_GRAPHEME_CONTINUATION_COUNT_def)
  ultimately show ?thesis
    using row_snapshot_roundtrip [of image_row 4 None row_metadata_default] by (auto simp: image_row_def)
qed

end
