(* ===== verification/Painted_Stream.thy ===== *)
theory Painted_Stream
  imports Painted_Update_Roundtrip Row_Snapshot
begin

text \<open>
  Both ends of the painted updates on one connection (\<open>koshi-runtime/src/runtime/painted_update.rs\<close>): the
  sender, which turns each snapshot of the screen into the binary frames of one update against what it
  sent last, and the receiver, which applies the parts of each update to what it holds.

  An \<open>Arc\<close> is a value with the address the code compares it by; the receiver compares no address, so its
  rows are plain snapshots. A snapshot of the screen holds the fields the sender reads, and a painted
  frame its pane ids with everything else left abstract. \<open>serde_json::to_vec\<close> of the frame and of the
  wire form of the placement preview are parameters, as are the decoder's parsers. \<open>usize\<close> is 64 bits
  wide, so no count is too large for it; the counts that only travel are 64-bit words.
\<close>

section \<open>Data\<close>

datatype 'a arc = Arc (arc_address: nat) (arc_value: 'a)

datatype cursor_shape = Cursor_Block | Cursor_Underline | Cursor_Bar

record cursor_snapshot =
  snapshot_row_index :: u16
  snapshot_column_index :: u16
  snapshot_is_visible :: bool
  snapshot_is_blinking :: bool
  snapshot_shape :: "cursor_shape option"

record 'row grid_view =
  view_row_snapshots :: "'row list"
  view_column_count :: u16
  view_row_offset :: u64

record pane_snapshot =
  snapshot_pane_id :: pane_id
  snapshot_cursor :: cursor_snapshot
  snapshot_grid_view :: "row_snapshot arc grid_view option"
  snapshot_is_on_alternate_screen :: bool
  snapshot_view_top_row_index :: u64
  snapshot_retained_line_count :: u64

record 'p render_snapshot =
  render_pane_snapshots :: "pane_snapshot list"
  render_placement_preview :: "'p arc option"

record 'x painted_frame =
  painted_pane_ids :: "pane_id list"
  painted_rest :: 'x

section \<open>The sender\<close>

record sent_pane =
  sent_pane_header :: pane_header
  sent_is_on_alternate_screen :: bool
  sent_row_snapshots :: "row_snapshot arc list"

record 'p painted_update_sender =
  sent_structure_json_bytes :: "u8 list"
  sent_placement_preview :: "'p arc option"
  sent_pane_by_id :: "pane_id \<rightharpoonup> sent_pane"
  next_update_sequence :: u64

definition painted_update_sender_new :: "'p painted_update_sender" where
  "painted_update_sender_new =
     \<lparr>sent_structure_json_bytes = [], sent_placement_preview = None, sent_pane_by_id = Map.empty,
      next_update_sequence = 1\<rparr>"

definition get_last_update_sequence :: "'p painted_update_sender \<Rightarrow> u64" where
  "get_last_update_sequence s = next_update_sequence s - 1"

text \<open>Rows by their bytes.\<close>

abbreviation arc_row_bytes :: "row_snapshot arc \<Rightarrow> u8 list" where
  "arc_row_bytes a \<equiv> snapshot_row_bytes (arc_value a)"

definition push_keep :: "row_instruction list \<Rightarrow> row_instruction list" where
  "push_keep instructions =
     (if instructions = [] then [Keep 1]
      else case last instructions of
             Keep n \<Rightarrow> butlast instructions @ [Keep (n + 1)]
           | _ \<Rightarrow> instructions @ [Keep 1])"

definition push_copy :: "u16 \<Rightarrow> row_instruction list \<Rightarrow> row_instruction list" where
  "push_copy source instructions =
     (if instructions = [] then [Copy source 1]
      else case last instructions of
             Copy run_source n \<Rightarrow>
               if run_source + n = source then butlast instructions @ [Copy run_source (n + 1)]
               else instructions @ [Copy source 1]
           | _ \<Rightarrow> instructions @ [Copy source 1])"

text \<open>
  \<open>HashMap\<close> from the pairs of an iterator: a later pair of a key replaces an earlier one. The range of
  \<open>u16\<close> indices that numbers the held rows steps past its maximum only for 65 535 rows, where a build
  with overflow checks would panic.
\<close>

definition collect_map :: "('k \<times> 'v) list \<Rightarrow> ('k \<rightharpoonup> 'v)" where
  "collect_map pairs = map_of (rev pairs)"

definition held_row_index_by_address :: "row_snapshot arc list \<Rightarrow> (nat \<rightharpoonup> u16)" where
  "held_row_index_by_address held_row_snapshots =
     collect_map (zip (map arc_address held_row_snapshots) (map of_nat [0..<length held_row_snapshots]))"

fun row_instructions_from ::
    "row_snapshot arc list \<Rightarrow> nat \<Rightarrow> row_snapshot arc list \<Rightarrow> row_instruction list \<Rightarrow> row_instruction list" where
  "row_instructions_from held shown_row_index [] instructions = instructions"
| "row_instructions_from held shown_row_index (shown # shown_rows) instructions =
     row_instructions_from held (shown_row_index + 1) shown_rows
       (if (case nth_opt held shown_row_index of
              None \<Rightarrow> False
            | Some held_row \<Rightarrow> arc_address held_row = arc_address shown \<or> arc_row_bytes held_row = arc_row_bytes shown)
        then push_keep instructions
        else case held_row_index_by_address held (arc_address shown) of
               Some source \<Rightarrow> push_copy source instructions
             | None \<Rightarrow> instructions @ [New (arc_row_bytes shown)])"

definition compute_row_instructions :: "row_snapshot arc list \<Rightarrow> row_snapshot arc list \<Rightarrow> row_instruction list" where
  "compute_row_instructions held_row_snapshots shown_row_snapshots =
     row_instructions_from held_row_snapshots 0 shown_row_snapshots []"

definition pane_shape_of :: "cursor_shape \<Rightarrow> pane_cursor_shape" where
  "pane_shape_of shape =
     (case shape of Cursor_Block \<Rightarrow> Shape_Block | Cursor_Underline \<Rightarrow> Shape_Underline | Cursor_Bar \<Rightarrow> Shape_Bar)"

definition pane_cursor_of :: "cursor_snapshot \<Rightarrow> pane_cursor" where
  "pane_cursor_of c =
     \<lparr>cursor_row_index = snapshot_row_index c, cursor_column_index = snapshot_column_index c,
      cursor_is_visible = snapshot_is_visible c, cursor_is_blinking = snapshot_is_blinking c,
      cursor_shape = map_option pane_shape_of (snapshot_shape c)\<rparr>"

text \<open>The rows the client holds that the update may keep or copy.\<close>

definition held_rows_for :: "pane_snapshot \<Rightarrow> row_snapshot arc grid_view \<Rightarrow> sent_pane option \<Rightarrow> row_snapshot arc list option" where
  "held_rows_for ps view sent =
     (case sent of
        None \<Rightarrow> None
      | Some sp \<Rightarrow>
          if sent_is_on_alternate_screen sp = snapshot_is_on_alternate_screen ps \<and>
             (case header_pane_window (sent_pane_header sp) of
                None \<Rightarrow> False
              | Some win \<Rightarrow> window_column_count win = view_column_count view \<and>
                  window_row_count win = of_nat (length (view_row_snapshots view)))
          then Some (sent_row_snapshots sp) else None)"

text \<open>\<open>None\<close> is the panic of a window of more than 65 535 rows.\<close>

definition build_pane_update :: "pane_snapshot \<Rightarrow> sent_pane option \<Rightarrow> pane_update option" where
  "build_pane_update ps sent =
     (let update = (\<lambda>(win, instructions).
            \<lparr>update_pane_id = snapshot_pane_id ps,
             update_pane_header =
               \<lparr>header_cursor = pane_cursor_of (snapshot_cursor ps),
                header_view_top_row_index = snapshot_view_top_row_index ps,
                header_retained_line_count = snapshot_retained_line_count ps, header_pane_window = win\<rparr>,
             update_row_instructions = instructions\<rparr>)
      in case snapshot_grid_view ps of
           None \<Rightarrow> Some (update (None, []))
         | Some view \<Rightarrow>
             if length (view_row_snapshots view) < 2 ^ 16 then
               let held = held_rows_for ps view sent;
                   win = \<lparr>window_column_count = view_column_count view,
                          window_row_count = of_nat (length (view_row_snapshots view)),
                          window_view_row_offset = view_row_offset view, window_is_reset = (held = None)\<rparr>
               in Some (update (Some win,
                    compute_row_instructions (case held of None \<Rightarrow> [] | Some rows \<Rightarrow> rows) (view_row_snapshots view)))
             else None)"

fun is_keep :: "row_instruction \<Rightarrow> bool" where
  "is_keep (Keep n) = True"
| "is_keep (Copy src n) = False"
| "is_keep (New bytes) = False"

definition is_pane_update_unchanged :: "pane_update \<Rightarrow> sent_pane option \<Rightarrow> bool" where
  "is_pane_update_unchanged u sent \<longleftrightarrow>
     (case sent of None \<Rightarrow> False | Some sp \<Rightarrow> sent_pane_header sp = update_pane_header u) \<and>
     list_all is_keep (update_row_instructions u)"

text \<open>The loop over the panes: the updates, and whether every pane is unchanged.\<close>

fun build_pane_updates ::
    "(pane_id \<rightharpoonup> sent_pane) \<Rightarrow> pane_snapshot list \<Rightarrow> (pane_update list \<times> bool) option" where
  "build_pane_updates sent_panes [] = Some ([], True)"
| "build_pane_updates sent_panes (ps # pss) =
     (let sent = sent_panes (snapshot_pane_id ps) in
      case build_pane_update ps sent of
        None \<Rightarrow> None
      | Some u \<Rightarrow>
          (case build_pane_updates sent_panes pss of
             None \<Rightarrow> None
           | Some (us, unchanged) \<Rightarrow> Some (u # us, is_pane_update_unchanged u sent \<and> unchanged)))"

definition sent_pane_of :: "pane_snapshot \<Rightarrow> pane_update \<Rightarrow> sent_pane" where
  "sent_pane_of ps u =
     \<lparr>sent_pane_header =
        (update_pane_header u)\<lparr>header_pane_window :=
          map_option (\<lambda>win. win\<lparr>window_is_reset := False\<rparr>) (header_pane_window (update_pane_header u))\<rparr>,
      sent_is_on_alternate_screen = snapshot_is_on_alternate_screen ps,
      sent_row_snapshots = (case snapshot_grid_view ps of None \<Rightarrow> [] | Some view \<Rightarrow> view_row_snapshots view)\<rparr>"

definition preview_update_bytes :: "('p \<Rightarrow> u8 list) \<Rightarrow> 'p arc option \<Rightarrow> 'p arc option \<Rightarrow> u8 list placement_preview_update" where
  "preview_update_bytes preview_json preview sent =
     (case (preview, sent) of
        (None, None) \<Rightarrow> Preview_Unchanged
      | (None, Some _) \<Rightarrow> Preview_Cleared
      | (Some p, Some sent) \<Rightarrow>
          if arc_address p = arc_address sent then Preview_Unchanged else Preview_Replaced (preview_json (arc_value p))
      | (Some p, None) \<Rightarrow> Preview_Replaced (preview_json (arc_value p)))"

definition build_update_frames ::
    "('x painted_frame \<Rightarrow> u8 list) \<Rightarrow> ('p \<Rightarrow> u8 list) \<Rightarrow> 'p render_snapshot \<Rightarrow> 'x painted_frame \<Rightarrow> bool
       \<Rightarrow> 'p painted_update_sender
       \<Rightarrow> (painted_update_encode_error + (u8 list list option \<times> 'p painted_update_sender)) option" where
  "build_update_frames frame_json preview_json rs painted_frame is_update_required s =
     (let json = frame_json painted_frame;
          is_structure_unchanged = (json = sent_structure_json_bytes s);
          preview = preview_update_bytes preview_json (render_placement_preview rs) (sent_placement_preview s)
      in case build_pane_updates (sent_pane_by_id s) (render_pane_snapshots rs) of
           None \<Rightarrow> None
         | Some (us, is_every_pane_unchanged) \<Rightarrow>
             if is_structure_unchanged \<and> preview = Preview_Unchanged \<and> is_every_pane_unchanged \<and> \<not> is_update_required
             then Some (Inr (None, s))
             else
               case encode_painted_update (next_update_sequence s) (if is_structure_unchanged then None else Some json) preview us of
                 Inl e \<Rightarrow> Some (Inl e)
               | Inr payloads \<Rightarrow>
                   Some (Inr (Some payloads,
                     \<lparr>sent_structure_json_bytes = json, sent_placement_preview = render_placement_preview rs,
                      sent_pane_by_id = collect_map (map2 (\<lambda>ps u. (snapshot_pane_id ps, sent_pane_of ps u)) (render_pane_snapshots rs) us),
                      next_update_sequence = next_update_sequence s + 1\<rparr>)))"

section \<open>The receiver\<close>

datatype painted_update_error =
    UpdateAlreadyOpen
  | MissingUpdateOpening
  | UpdateOutOfSequence (expected_update_sequence: u64) (received_update_sequence: u64)
  | MissingStructure
  | SectionContinuesNoPane pane_id
  | PaneRowCountMismatch pane_id (expected_row_count: u16) (received_row_count: nat)
  | RowsWithoutWindow pane_id
  | HeldRowOutOfRange pane_id
  | UndecodableRow pane_id row_decode_error
  | PaneListMismatch
  | CountTooLarge

record held_pane =
  held_column_count :: u16
  held_row_snapshots :: "row_snapshot list"

record staged_pane =
  staged_pane_id :: pane_id
  staged_pane_header :: pane_header
  staged_row_snapshots :: "row_snapshot list"

record ('x, 'w) open_update =
  open_update_sequence :: u64
  open_painted_frame :: "'x painted_frame"
  open_placement_preview :: "'w option"
  open_staged_panes :: "staged_pane list"

record received_pane_view =
  received_pane_id :: pane_id
  received_cursor :: cursor_snapshot
  received_view_top_row_index :: u64
  received_retained_line_count :: u64
  received_grid_view :: "row_snapshot grid_view option"

record ('x, 'w) received_painted_frame =
  received_sequence :: u64
  received_painted_frame :: "'x painted_frame"
  received_placement_preview :: "'w option"
  received_pane_views :: "received_pane_view list"

record ('x, 'w) painted_update_receiver =
  held_painted_frame :: "'x painted_frame option"
  held_placement_preview :: "'w option"
  held_pane_by_id :: "pane_id \<rightharpoonup> held_pane"
  last_update_sequence :: u64
  receiver_open_update :: "('x, 'w) open_update option"

definition painted_update_receiver_new :: "('x, 'w) painted_update_receiver" where
  "painted_update_receiver_new =
     \<lparr>held_painted_frame = None, held_placement_preview = None, held_pane_by_id = Map.empty,
      last_update_sequence = 0, receiver_open_update = None\<rparr>"

definition validate_staged_pane_row_count :: "staged_pane \<Rightarrow> painted_update_error option" where
  "validate_staged_pane_row_count sp =
     (let expected = (case header_pane_window (staged_pane_header sp) of None \<Rightarrow> 0 | Some win \<Rightarrow> window_row_count win)
      in if length (staged_row_snapshots sp) \<noteq> unat expected
         then Some (PaneRowCountMismatch (staged_pane_id sp) expected (length (staged_row_snapshots sp)))
         else None)"

text \<open>\<open>slice::get\<close> with a range.\<close>

definition get_range :: "nat \<Rightarrow> nat \<Rightarrow> 'a list \<Rightarrow> 'a list option" where
  "get_range i n xs = (if i + n \<le> length xs then Some (take n (drop i xs)) else None)"

definition apply_row_instruction ::
    "pane_id \<Rightarrow> pane_window \<Rightarrow> row_snapshot list \<Rightarrow> row_instruction \<Rightarrow> row_snapshot list
       \<Rightarrow> painted_update_error + row_snapshot list" where
  "apply_row_instruction p win held i rows =
     (case i of
        Keep n \<Rightarrow>
          (case get_range (length rows) (unat n) held of None \<Rightarrow> Inl (HeldRowOutOfRange p) | Some kept \<Rightarrow> Inr (rows @ kept))
      | Copy src n \<Rightarrow>
          (case get_range (unat src) (unat n) held of None \<Rightarrow> Inl (HeldRowOutOfRange p) | Some copied \<Rightarrow> Inr (rows @ copied))
      | New bytes \<Rightarrow>
          (case from_encoded_row_bytes bytes (window_column_count win) of
             Inl e \<Rightarrow> Inl (UndecodableRow p e)
           | Inr row \<Rightarrow> Inr (rows @ [row])))"

fun apply_row_instructions ::
    "pane_id \<Rightarrow> pane_window \<Rightarrow> row_snapshot list \<Rightarrow> row_instruction list \<Rightarrow> row_snapshot list
       \<Rightarrow> painted_update_error + row_snapshot list" where
  "apply_row_instructions p win held [] rows = Inr rows"
| "apply_row_instructions p win held (i # instructions) rows =
     (case apply_row_instruction p win held i rows of
        Inl e \<Rightarrow> Inl e
      | Inr rows \<Rightarrow>
          if unat (window_row_count win) < length rows
          then Inl (PaneRowCountMismatch p (window_row_count win) (length rows))
          else apply_row_instructions p win held instructions rows)"

text \<open>The pane a section goes on with or opens, as the last staged pane.\<close>

definition stage_section_pane ::
    "pane_section \<Rightarrow> 'x painted_frame \<Rightarrow> staged_pane list \<Rightarrow> painted_update_error + staged_pane list" where
  "stage_section_pane sec frame staged =
     (case section_pane_header sec of
        Some header \<Rightarrow>
          (case if staged = [] then None else validate_staged_pane_row_count (last staged) of
             Some e \<Rightarrow> Inl e
           | None \<Rightarrow>
               if nth_opt (painted_pane_ids frame) (length staged) = Some (section_pane_id sec)
               then Inr (staged @ [\<lparr>staged_pane_id = section_pane_id sec, staged_pane_header = header, staged_row_snapshots = []\<rparr>])
               else Inl PaneListMismatch)
      | None \<Rightarrow>
          if staged \<noteq> [] \<and> staged_pane_id (last staged) = section_pane_id sec then Inr staged
          else Inl (SectionContinuesNoPane (section_pane_id sec)))"

definition section_held_rows :: "(pane_id \<rightharpoonup> held_pane) \<Rightarrow> pane_id \<Rightarrow> pane_window \<Rightarrow> row_snapshot list" where
  "section_held_rows held p win =
     (if window_is_reset win then []
      else case held p of
             None \<Rightarrow> []
           | Some hp \<Rightarrow> if held_column_count hp = window_column_count win then held_row_snapshots hp else [])"

definition apply_pane_section ::
    "(pane_id \<rightharpoonup> held_pane) \<Rightarrow> pane_section \<Rightarrow> ('x, 'w) open_update \<Rightarrow> painted_update_error + ('x, 'w) open_update" where
  "apply_pane_section held sec ou =
     (case stage_section_pane sec (open_painted_frame ou) (open_staged_panes ou) of
        Inl e \<Rightarrow> Inl e
      | Inr staged \<Rightarrow>
          (case header_pane_window (staged_pane_header (last staged)) of
             None \<Rightarrow>
               if section_row_instructions sec = [] then Inr (ou\<lparr>open_staged_panes := staged\<rparr>)
               else Inl (RowsWithoutWindow (section_pane_id sec))
           | Some win \<Rightarrow>
               (case apply_row_instructions (section_pane_id sec) win (section_held_rows held (section_pane_id sec) win)
                       (section_row_instructions sec) (staged_row_snapshots (last staged)) of
                  Inl e \<Rightarrow> Inl e
                | Inr rows \<Rightarrow>
                    Inr (ou\<lparr>open_staged_panes := butlast staged @ [(last staged)\<lparr>staged_row_snapshots := rows\<rparr>]\<rparr>))))"

fun apply_pane_sections ::
    "(pane_id \<rightharpoonup> held_pane) \<Rightarrow> pane_section list \<Rightarrow> ('x, 'w) open_update \<Rightarrow> painted_update_error + ('x, 'w) open_update" where
  "apply_pane_sections held [] ou = Inr ou"
| "apply_pane_sections held (sec # secs) ou =
     (case apply_pane_section held sec ou of Inl e \<Rightarrow> Inl e | Inr ou \<Rightarrow> apply_pane_sections held secs ou)"

definition cursor_shape_of :: "pane_cursor_shape \<Rightarrow> cursor_shape" where
  "cursor_shape_of shape =
     (case shape of Shape_Block \<Rightarrow> Cursor_Block | Shape_Underline \<Rightarrow> Cursor_Underline | Shape_Bar \<Rightarrow> Cursor_Bar)"

definition build_cursor_snapshot :: "pane_cursor \<Rightarrow> cursor_snapshot" where
  "build_cursor_snapshot c =
     \<lparr>snapshot_row_index = cursor_row_index c, snapshot_column_index = cursor_column_index c,
      snapshot_is_visible = cursor_is_visible c, snapshot_is_blinking = cursor_is_blinking c,
      snapshot_shape = map_option cursor_shape_of (cursor_shape c)\<rparr>"

definition build_pane_view :: "staged_pane \<Rightarrow> received_pane_view" where
  "build_pane_view sp =
     (let header = staged_pane_header sp
      in \<lparr>received_pane_id = staged_pane_id sp, received_cursor = build_cursor_snapshot (header_cursor header),
          received_view_top_row_index = header_view_top_row_index header,
          received_retained_line_count = header_retained_line_count header,
          received_grid_view =
            map_option (\<lambda>win. \<lparr>view_row_snapshots = staged_row_snapshots sp, view_column_count = window_column_count win,
                               view_row_offset = window_view_row_offset win\<rparr>) (header_pane_window header)\<rparr>)"

fun held_panes_of :: "staged_pane list \<Rightarrow> (pane_id \<times> held_pane) list" where
  "held_panes_of [] = []"
| "held_panes_of (sp # sps) =
     (case header_pane_window (staged_pane_header sp) of
        None \<Rightarrow> held_panes_of sps
      | Some win \<Rightarrow>
          (staged_pane_id sp, \<lparr>held_column_count = window_column_count win, held_row_snapshots = staged_row_snapshots sp\<rparr>)
          # held_panes_of sps)"

definition commit_update ::
    "('x, 'w) open_update \<Rightarrow> ('x, 'w) painted_update_receiver
       \<Rightarrow> painted_update_error + (('x, 'w) received_painted_frame \<times> ('x, 'w) painted_update_receiver)" where
  "commit_update ou r =
     (let staged = open_staged_panes ou in
      case if staged = [] then None else validate_staged_pane_row_count (last staged) of
        Some e \<Rightarrow> Inl e
      | None \<Rightarrow>
          if length staged \<noteq> length (painted_pane_ids (open_painted_frame ou)) then Inl PaneListMismatch
          else
            Inr (\<lparr>received_sequence = open_update_sequence ou, received_painted_frame = open_painted_frame ou,
                  received_placement_preview = open_placement_preview ou,
                  received_pane_views = map build_pane_view staged\<rparr>,
                 r\<lparr>held_pane_by_id := collect_map (held_panes_of staged),
                   held_painted_frame := Some (open_painted_frame ou),
                   held_placement_preview := open_placement_preview ou,
                   last_update_sequence := open_update_sequence ou\<rparr>))"

definition open_new_update ::
    "('x painted_frame, 'w) painted_update_opening \<Rightarrow> ('x, 'w) painted_update_receiver
       \<Rightarrow> painted_update_error + ('x, 'w) open_update" where
  "open_new_update opening r =
     (if opening_update_sequence opening \<noteq> last_update_sequence r + 1
      then Inl (UpdateOutOfSequence (last_update_sequence r + 1) (opening_update_sequence opening))
      else
        let frame = (case opening_painted_frame opening of Some f \<Rightarrow> Some f | None \<Rightarrow> held_painted_frame r)
        in case frame of
             None \<Rightarrow> Inl MissingStructure
           | Some f \<Rightarrow>
               Inr \<lparr>open_update_sequence = opening_update_sequence opening, open_painted_frame = f,
                    open_placement_preview =
                      (case opening_placement_preview_update opening of
                         Preview_Unchanged \<Rightarrow> held_placement_preview r
                       | Preview_Cleared \<Rightarrow> None
                       | Preview_Replaced w \<Rightarrow> Some w),
                    open_staged_panes = []\<rparr>)"

text \<open>On an error the receiver holds no usable state, and none is given.\<close>

definition accept_painted_update_part ::
    "('x painted_frame, 'w) painted_update_part \<Rightarrow> ('x, 'w) painted_update_receiver
       \<Rightarrow> painted_update_error + (('x, 'w) received_painted_frame option \<times> ('x, 'w) painted_update_receiver)" where
  "accept_painted_update_part part r =
     (let opened =
        (case (update_opening part, receiver_open_update r) of
           (Some _, Some _) \<Rightarrow> Inl UpdateAlreadyOpen
         | (None, None) \<Rightarrow> Inl MissingUpdateOpening
         | (None, Some ou) \<Rightarrow> Inr ou
         | (Some opening, None) \<Rightarrow> open_new_update opening r)
      in case opened of
           Inl e \<Rightarrow> Inl e
         | Inr ou \<Rightarrow>
             (case apply_pane_sections (held_pane_by_id r) (pane_sections part) ou of
                Inl e \<Rightarrow> Inl e
              | Inr ou \<Rightarrow>
                  if \<not> is_last_part part then Inr (None, r\<lparr>receiver_open_update := Some ou\<rparr>)
                  else
                    case commit_update ou (r\<lparr>receiver_open_update := None\<rparr>) of
                      Inl e \<Rightarrow> Inl e
                    | Inr (received, r) \<Rightarrow> Inr (Some received, r)))"

datatype 'm received_frame = Received_Message 'm | Received_Binary "u8 list"

datatype ('m, 'x, 'w) session_frame =
    Session_Event 'm
  | Session_Painted "('x, 'w) received_painted_frame"
  | Session_ImageChunk image_chunk_frame

text \<open>\<open>IpcError::MalformedFrame\<close> carries the text of one of the two errors.\<close>

datatype malformed_frame =
    Malformed_Binary session_binary_frame_decode_error
  | Malformed_Update painted_update_error

definition accept_session_frame ::
    "(u8 list \<Rightarrow> string + 'x painted_frame) \<Rightarrow> (u8 list \<Rightarrow> string + 'w) \<Rightarrow> 'm received_frame
       \<Rightarrow> ('x, 'w) painted_update_receiver
       \<Rightarrow> malformed_frame + (('m, 'x, 'w) session_frame option \<times> ('x, 'w) painted_update_receiver)" where
  "accept_session_frame parse_frame parse_preview frame r =
     (case frame of
        Received_Message message \<Rightarrow> Inr (Some (Session_Event message), r)
      | Received_Binary payload \<Rightarrow>
          (case decode_session_binary_frame parse_frame parse_preview payload of
             Inl e \<Rightarrow> Inl (Malformed_Binary e)
           | Inr (ImageChunk chunk) \<Rightarrow> Inr (Some (Session_ImageChunk chunk), r)
           | Inr (UnknownFrame kind) \<Rightarrow> Inr (None, r)
           | Inr (PaintedUpdatePart part) \<Rightarrow>
               (case accept_painted_update_part part r of
                  Inl e \<Rightarrow> Inl (Malformed_Update e)
                | Inr (received, r) \<Rightarrow> Inr (map_option Session_Painted received, r))))"

end
