(* ===== verification/Painted_Stream_Rows.thy ===== *)
theory Painted_Stream_Rows
  imports Painted_Stream
begin

text \<open>
  The rows of one pane across the connection: the row instructions the sender computes against the rows
  it sent last rebuild, on the rows the receiver holds, exactly the rows shown.
\<close>

section \<open>Applying instructions\<close>

lemma apply_row_instructions_append:
  "apply_row_instructions p win held (xs @ ys) rows =
     (case apply_row_instructions p win held xs rows of Inl e \<Rightarrow> Inl e | Inr rows \<Rightarrow> apply_row_instructions p win held ys rows)"
  by (induction xs arbitrary: rows) (auto split: sum.splits)

lemma apply_row_instructions_snoc:
  "apply_row_instructions p win held (xs @ [i]) rows =
     (case apply_row_instructions p win held xs rows of
        Inl e \<Rightarrow> Inl e
      | Inr rows \<Rightarrow>
          (case apply_row_instruction p win held i rows of
             Inl e \<Rightarrow> Inl e
           | Inr rows' \<Rightarrow>
               if unat (window_row_count win) < length rows'
               then Inl (PaneRowCountMismatch p (window_row_count win) (length rows')) else Inr rows'))"
  by (simp add: apply_row_instructions_append split: sum.split)

text \<open>What holds of the instructions so far: they give the rows built so far and read back from the wire.\<close>

definition gives_rows :: "pane_id \<Rightarrow> pane_window \<Rightarrow> row_snapshot list \<Rightarrow> row_instruction list \<Rightarrow> row_snapshot list \<Rightarrow> bool" where
  "gives_rows p win held instructions rows \<longleftrightarrow>
     apply_row_instructions p win held instructions [] = Inr rows \<and> list_all row_instruction_ok instructions"

lemma get_range_Suc: "get_range i n xs = Some ys \<Longrightarrow> i + n < length xs \<Longrightarrow> get_range i (Suc n) xs = Some (ys @ [xs ! (i + n)])"
  by (auto simp: get_range_def take_Suc_conv_app_nth split: if_splits)

lemma get_range_one: "i < length xs \<Longrightarrow> get_range i 1 xs = Some [xs ! i]"
  by (simp add: get_range_def Cons_nth_drop_Suc [symmetric])

lemma unat_Suc_u16: "unat n + 1 < 2 ^ 16 \<Longrightarrow> unat (n + 1) = unat n + 1" for n :: u16
  by (simp add: unat_word_ariths)

lemma gives_rows_snoc:
  assumes "gives_rows p win held xs rows" "apply_row_instruction p win held i rows = Inr rows'"
    and "row_instruction_ok i" "length rows' \<le> unat (window_row_count win)"
  shows "gives_rows p win held (xs @ [i]) rows'"
  using assms by (simp add: gives_rows_def apply_row_instructions_snoc)

lemma gives_rows_butlast:
  assumes "gives_rows p win held instructions rows" "instructions \<noteq> []"
  shows "\<exists>before. gives_rows p win held (butlast instructions) before \<and>
    apply_row_instruction p win held (last instructions) before = Inr rows"
proof -
  have "instructions = butlast instructions @ [last instructions]" using assms(2) by simp
  then have "apply_row_instructions p win held (butlast instructions @ [last instructions]) [] = Inr rows"
    using assms(1) by (simp add: gives_rows_def)
  moreover have "list_all row_instruction_ok (butlast instructions)"
    using assms(1) by (auto simp: gives_rows_def list_all_iff dest: in_set_butlastD)
  ultimately show ?thesis
    by (auto simp: apply_row_instructions_snoc gives_rows_def split: sum.splits if_splits)
qed

lemma push_keep_gives:
  assumes "gives_rows p win held instructions rows" "length rows < length held" "length held < 2 ^ 16"
    and "length rows < unat (window_row_count win)"
  shows "gives_rows p win held (push_keep instructions) (rows @ [held ! length rows])"
proof (cases "\<exists>n. instructions \<noteq> [] \<and> last instructions = Keep n")
  case True
  then obtain n where last: "instructions \<noteq> []" "last instructions = Keep n" by blast
  obtain before where before: "gives_rows p win held (butlast instructions) before"
    "apply_row_instruction p win held (Keep n) before = Inr rows"
    using gives_rows_butlast [OF assms(1) last(1)] last(2) by auto
  then obtain kept where kept: "get_range (length before) (unat n) held = Some kept" "rows = before @ kept"
    by (auto simp: apply_row_instruction_def split: option.splits)
  then have n: "length rows = length before + unat n" by (auto simp: get_range_def split: if_splits)
  then have Suc: "unat (n + 1) = Suc (unat n)" using assms(2,3) by (subst unat_Suc_u16) simp_all
  have "get_range (length before) (Suc (unat n)) held = Some (kept @ [held ! length rows])"
    using get_range_Suc [OF kept(1)] assms(2) n by simp
  then have "apply_row_instruction p win held (Keep (n + 1)) before = Inr (rows @ [held ! length rows])"
    by (simp add: apply_row_instruction_def Suc kept(2))
  moreover have "row_instruction_ok (Keep (n + 1))" using Suc by (auto simp: row_instruction_ok_def)
  ultimately show ?thesis
    using gives_rows_snoc [OF before(1)] assms(4) last by (simp add: push_keep_def)
next
  case False
  then have "push_keep instructions = instructions @ [Keep 1]"
    by (cases "last instructions") (auto simp: push_keep_def)
  moreover have "apply_row_instruction p win held (Keep 1) rows = Inr (rows @ [held ! length rows])"
    using get_range_one [OF assms(2)] by (simp add: apply_row_instruction_def)
  moreover have "row_instruction_ok (Keep 1)" by (simp add: row_instruction_ok_def)
  ultimately show ?thesis using gives_rows_snoc [OF assms(1)] assms(4) by simp
qed

lemma push_copy_gives:
  assumes "gives_rows p win held instructions rows" "unat src < length held" "length held < 2 ^ 16"
    and "length rows < unat (window_row_count win)"
  shows "gives_rows p win held (push_copy src instructions) (rows @ [held ! unat src])"
proof (cases "\<exists>first n. instructions \<noteq> [] \<and> last instructions = Copy first n \<and> first + n = src")
  case True
  then obtain first n where last: "instructions \<noteq> []" "last instructions = Copy first n" "first + n = src" by blast
  obtain before where before: "gives_rows p win held (butlast instructions) before"
    "apply_row_instruction p win held (Copy first n) before = Inr rows"
    using gives_rows_butlast [OF assms(1) last(1)] last(2) by auto
  then obtain copied where copied: "get_range (unat first) (unat n) held = Some copied" "rows = before @ copied"
    by (auto simp: apply_row_instruction_def split: option.splits)
  then have "unat first + unat n < 2 ^ 16" using assms(3) by (auto simp: get_range_def split: if_splits)
  then have src: "unat src = unat first + unat n" using last(3) by (auto simp: unat_word_ariths)
  then have Suc: "unat (n + 1) = Suc (unat n)" using assms(2,3) by (subst unat_Suc_u16) simp_all
  have "get_range (unat first) (Suc (unat n)) held = Some (copied @ [held ! unat src])"
    using get_range_Suc [OF copied(1)] assms(2) src by simp
  then have "apply_row_instruction p win held (Copy first (n + 1)) before = Inr (rows @ [held ! unat src])"
    by (simp add: apply_row_instruction_def Suc copied(2))
  moreover have "row_instruction_ok (Copy first (n + 1))" using Suc by (auto simp: row_instruction_ok_def)
  ultimately show ?thesis
    using gives_rows_snoc [OF before(1)] assms(4) last by (simp add: push_copy_def)
next
  case False
  then have "push_copy src instructions = instructions @ [Copy src 1]"
    by (cases "last instructions") (auto simp: push_copy_def)
  moreover have "apply_row_instruction p win held (Copy src 1) rows = Inr (rows @ [held ! unat src])"
    using get_range_one [OF assms(2)] by (simp add: apply_row_instruction_def)
  moreover have "row_instruction_ok (Copy src 1)" by (simp add: row_instruction_ok_def)
  ultimately show ?thesis using gives_rows_snoc [OF assms(1)] assms(4) by simp
qed

section \<open>Rows on both ends\<close>

text \<open>The receiver's row for a row of the sender, in a window of a column count.\<close>

definition received_row :: "u16 \<Rightarrow> row_snapshot arc \<Rightarrow> row_decode_error + row_snapshot" where
  "received_row column_count a = from_encoded_row_bytes (arc_row_bytes a) column_count"

definition rows_received :: "u16 \<Rightarrow> row_snapshot arc list \<Rightarrow> row_snapshot list \<Rightarrow> bool" where
  "rows_received column_count arcs rows \<longleftrightarrow> map (received_row column_count) arcs = map Inr rows"

lemma rows_received_length: "rows_received c arcs rows \<Longrightarrow> length arcs = length rows"
  unfolding rows_received_def by (metis length_map)

lemma rows_received_nth: "rows_received c arcs rows \<Longrightarrow> i < length arcs \<Longrightarrow> received_row c (arcs ! i) = Inr (rows ! i)"
  unfolding rows_received_def by (metis length_map nth_map)

text \<open>Two \<open>Arc\<close>s with one address are the same value.\<close>

definition coherent :: "'a arc set \<Rightarrow> bool" where
  "coherent arcs \<longleftrightarrow> (\<forall>a \<in> arcs. \<forall>b \<in> arcs. arc_address a = arc_address b \<longrightarrow> arc_value a = arc_value b)"

lemma received_row_instruction_ok:
  assumes "received_row c a = Inr row"
  shows "row_instruction_ok (New (arc_row_bytes a))"
proof -
  let ?bytes = "arc_row_bytes a"
  obtain cells where "decode_row_cells ?bytes = Inr cells"
    using assms by (auto simp: received_row_def from_encoded_row_bytes_def split: sum.splits if_splits)
  then obtain row where split: "split_encoded_row ?bytes = Inr (row, [])"
    by (auto simp: decode_row_cells_def decode_row_run_cells_into_def decode_row_runs_def split: sum.splits if_splits prod.splits)
  then obtain n body where read: "read_row_varint ?bytes = Inr (n, body)" and n: "unat n \<le> length body"
    "drop (length ?bytes - length body + unat n) ?bytes = []"
    by (auto simp: split_encoded_row_def Let_def split: sum.splits if_splits)
  then have varint: "read_varint ?bytes = Inr (n, body)" by (auto simp: read_row_varint_def split: sum.splits varint_error.splits)
  have "length body \<le> length ?bytes" using read_varint_consumes [OF varint] by auto
  then have "unat n = length body" using n by auto
  with varint show ?thesis by (simp add: row_instruction_ok_def)
qed

lemma new_row_gives:
  assumes "gives_rows p win held instructions rows" "received_row (window_column_count win) a = Inr row"
    and "length rows < unat (window_row_count win)"
  shows "gives_rows p win held (instructions @ [New (arc_row_bytes a)]) (rows @ [row])"
  using assms received_row_instruction_ok [OF assms(2)]
  by (intro gives_rows_snoc) (simp_all add: apply_row_instruction_def received_row_def)

lemma held_row_index_found:
  assumes "held_row_index_by_address held address = Some src" "length held < 2 ^ 16"
  shows "unat src < length held \<and> arc_address (held ! unat src) = address"
proof -
  have "(address, src) \<in> set (zip (map arc_address held) (map of_nat [0..<length held]))"
    using map_of_SomeD [OF assms(1) [unfolded held_row_index_by_address_def collect_map_def]] by simp
  then obtain i where "i < length held" "address = arc_address (held ! i)" "src = of_nat i"
    by (auto simp: set_zip)
  with assms(2) show ?thesis by (simp add: column_of_nat)
qed

lemma row_instructions_from_gives:
  assumes held: "rows_received (window_column_count win) held_arcs held" and shown: "rows_received (window_column_count win) shown_arcs shown"
    and arcs: "coherent (set held_arcs \<union> set shown_arcs)" and sizes: "length held_arcs < 2 ^ 16" "length shown_arcs = unat (window_row_count win)"
  shows "j \<le> length shown_arcs \<Longrightarrow> gives_rows p win held instructions (take j shown) \<Longrightarrow>
    gives_rows p win held (row_instructions_from held_arcs j (drop j shown_arcs) instructions) shown"
proof (induction "length shown_arcs - j" arbitrary: j instructions)
  case 0
  then show ?case using rows_received_length [OF shown] by simp
next
  case (Suc k)
  then have j: "j < length shown_arcs" by simp
  let ?a = "shown_arcs ! j"
  let ?kept = "case nth_opt held_arcs j of None \<Rightarrow> False | Some h \<Rightarrow> arc_address h = arc_address ?a \<or> arc_row_bytes h = arc_row_bytes ?a"
  let ?next = "if ?kept then push_keep instructions
    else case held_row_index_by_address held_arcs (arc_address ?a) of
           Some source \<Rightarrow> push_copy source instructions | None \<Rightarrow> instructions @ [New (arc_row_bytes ?a)]"
  have row: "received_row (window_column_count win) ?a = Inr (shown ! j)" using rows_received_nth [OF shown j] .
  have len: "length (take j shown) = j" "j < unat (window_row_count win)" "length held = length held_arcs"
    using j sizes rows_received_length [OF shown] rows_received_length [OF held] by simp_all
  have same: "held ! i = shown ! j" if "i < length held_arcs" "arc_row_bytes (held_arcs ! i) = arc_row_bytes ?a" for i
    using rows_received_nth [OF held that(1)] row that(2) by (simp add: received_row_def)
  have address: "arc_row_bytes (held_arcs ! i) = arc_row_bytes ?a" if "i < length held_arcs" "arc_address (held_arcs ! i) = arc_address ?a" for i
    using arcs that j unfolding coherent_def by (metis UnI1 UnI2 nth_mem)
  have "gives_rows p win held ?next (take j shown @ [shown ! j])"
  proof (cases ?kept)
    case True
    then have h: "j < length held_arcs" "arc_row_bytes (held_arcs ! j) = arc_row_bytes ?a"
      using address by (auto simp: nth_opt_def split: if_splits)
    then have "gives_rows p win held (push_keep instructions) (take j shown @ [held ! length (take j shown)])"
      using Suc.prems(2) len sizes(1) by (intro push_keep_gives) simp_all
    with True same [OF h] len show ?thesis by simp
  next
    case False
    show ?thesis
    proof (cases "held_row_index_by_address held_arcs (arc_address ?a)")
      case None
      with False show ?thesis
        using new_row_gives [OF Suc.prems(2) row] len by (simp split del: if_split)
    next
      case (Some src)
      then have src: "unat src < length held_arcs" "arc_address (held_arcs ! unat src) = arc_address ?a"
        using held_row_index_found [OF Some sizes(1)] by simp_all
      then have "gives_rows p win held (push_copy src instructions) (take j shown @ [held ! unat src])"
        using Suc.prems(2) len sizes(1) by (intro push_copy_gives) simp_all
      with False Some same [OF src(1) address [OF src]] show ?thesis by (simp split del: if_split)
    qed
  qed
  moreover have "take j shown @ [shown ! j] = take (Suc j) shown"
    using j rows_received_length [OF shown] by (simp add: take_Suc_conv_app_nth)
  moreover have "row_instructions_from held_arcs j (drop j shown_arcs) instructions =
      row_instructions_from held_arcs (Suc j) (drop (Suc j) shown_arcs) ?next"
    using j by (simp add: Cons_nth_drop_Suc [symmetric])
  ultimately show ?case using Suc.hyps(1) [of "Suc j" ?next] Suc.hyps(2) j by simp
qed

lemma compute_row_instructions_gives:
  assumes "rows_received (window_column_count win) held_arcs held" "rows_received (window_column_count win) shown_arcs shown"
    and "coherent (set held_arcs \<union> set shown_arcs)" "length held_arcs < 2 ^ 16" "length shown_arcs = unat (window_row_count win)"
  shows "gives_rows p win held (compute_row_instructions held_arcs shown_arcs) shown"
proof -
  have "gives_rows p win held [] (take 0 shown)" by (simp add: gives_rows_def)
  from row_instructions_from_gives [OF assms _ this] show ?thesis by (simp add: compute_row_instructions_def)
qed

end
