(* ===== verification/Painted_Stream_Sync.thy ===== *)
theory Painted_Stream_Sync
  imports Painted_Stream_Rows
begin

text \<open>
  The connection as a whole. The parts of an update, in order, stage the panes of the update; the two
  ends stay in step; and what the receiver gives back at the end of each update is the snapshot of the
  screen the sender was given.
\<close>

section \<open>Staging the panes of an update\<close>

definition rows_built :: "(pane_id \<rightharpoonup> held_pane) \<Rightarrow> pane_update \<Rightarrow> painted_update_error + row_snapshot list" where
  "rows_built held u =
     (case header_pane_window (update_pane_header u) of
        None \<Rightarrow> if update_row_instructions u = [] then Inr [] else Inl (RowsWithoutWindow (update_pane_id u))
      | Some win \<Rightarrow>
          apply_row_instructions (update_pane_id u) win (section_held_rows held (update_pane_id u) win) (update_row_instructions u) [])"

definition staged_of :: "(pane_id \<rightharpoonup> held_pane) \<Rightarrow> pane_update \<Rightarrow> staged_pane" where
  "staged_of held u =
     \<lparr>staged_pane_id = update_pane_id u, staged_pane_header = update_pane_header u,
      staged_row_snapshots = projr (rows_built held u)\<rparr>"

text \<open>An update whose instructions apply and give the rows of its window.\<close>

definition update_builds :: "(pane_id \<rightharpoonup> held_pane) \<Rightarrow> pane_update \<Rightarrow> bool" where
  "update_builds held u \<longleftrightarrow> isl (rows_built held u) = False \<and> validate_staged_pane_row_count (staged_of held u) = None"

text \<open>An update with only the first of its row instructions.\<close>

definition partly :: "pane_update \<Rightarrow> pane_update \<Rightarrow> bool" where
  "partly u' u \<longleftrightarrow> (\<exists>later. u = u'\<lparr>update_row_instructions := update_row_instructions u' @ later\<rparr>)"

definition up_to :: "pane_update list \<Rightarrow> pane_update list \<Rightarrow> bool" where
  "up_to us' us \<longleftrightarrow> us' = [] \<or> (\<exists>u rest. us = butlast us' @ u # rest \<and> partly (last us') u)"

lemma partly_refl [simp]: "partly u u"
  unfolding partly_def by (intro exI [of _ "[]"]) simp

lemma partly_trans: "partly u v \<Longrightarrow> partly v w \<Longrightarrow> partly u w"
  unfolding partly_def by (elim exE) (rule exI [of _ "_ @ _"], simp)

lemma partly_same: "partly u' u \<Longrightarrow> update_pane_id u' = update_pane_id u \<and> update_pane_header u' = update_pane_header u"
  by (auto simp: partly_def)

lemma up_to_refl: "up_to us us"
  unfolding up_to_def by (cases us rule: rev_cases) auto

lemma join_section_up_to:
  assumes "join_section us1 sec = Some us2" "up_to us2 us"
  shows "up_to us1 us"
proof (cases "us1 = []")
  case False
  have us2: "us2 \<noteq> []" using assms(1) by (auto simp: join_section_def split: option.splits if_splits)
  then obtain u rest where us: "us = butlast us2 @ u # rest" "partly (last us2) u" using assms(2) by (auto simp: up_to_def)
  show ?thesis
  proof (cases "section_pane_header sec")
    case None
    then have "butlast us2 = butlast us1" "partly (last us1) (last us2)"
      using assms(1) by (auto simp: join_section_def partly_def split: if_splits)
    with us False show ?thesis using partly_trans by (auto simp: up_to_def)
  next
    case (Some h)
    then have "butlast us2 = us1" using assms(1) by (auto simp: join_section_def)
    with us False have "us = butlast us1 @ last us1 # (u # rest)" by simp
    then show ?thesis unfolding up_to_def by (metis partly_refl)
  qed
qed (simp add: up_to_def)

lemma join_sections_up_to: "join_sections us1 secs = Some us \<Longrightarrow> up_to us1 us"
proof (induction us1 secs rule: join_sections.induct)
  case (1 us1)
  then show ?case by (simp add: up_to_refl)
next
  case (2 us1 sec secs)
  then show ?case using join_section_up_to by (auto split: option.splits)
qed

lemma partly_builds:
  assumes "partly u' u" "\<not> isl (rows_built held u)"
  shows "\<not> isl (rows_built held u')"
proof -
  obtain later where "u = u'\<lparr>update_row_instructions := update_row_instructions u' @ later\<rparr>"
    using assms(1) by (auto simp: partly_def)
  with assms(2) show ?thesis
    by (auto simp: rows_built_def apply_row_instructions_append split: option.splits sum.splits if_splits)
qed

lemma rows_built_later:
  assumes "rows_built held u = Inr rows" "header_pane_window (update_pane_header u) = Some win"
  shows "rows_built held (u\<lparr>update_row_instructions := update_row_instructions u @ later\<rparr>) =
    apply_row_instructions (update_pane_id u) win (section_held_rows held (update_pane_id u) win) later rows"
  using assms by (simp add: rows_built_def apply_row_instructions_append)

lemma apply_pane_section_staged:
  fixes ou :: "('x, 'w) open_update"
  assumes join: "join_section us1 sec = Some us2" and up: "up_to us2 us" and builds: "list_all (update_builds held) us"
    and ids: "map update_pane_id us = painted_pane_ids (open_painted_frame ou)"
    and staged: "open_staged_panes ou = map (staged_of held) us1"
  shows "apply_pane_section held sec ou = Inr (ou\<lparr>open_staged_panes := map (staged_of held) us2\<rparr>)"
proof -
  have "us2 \<noteq> []" using join by (auto simp: join_section_def split: option.splits if_splits)
  then obtain u rest where us: "us = butlast us2 @ u # rest" "partly (last us2) u" using up by (auto simp: up_to_def)
  obtain rows where rows: "rows_built held (last us2) = Inr rows"
    using partly_builds [OF us(2), of held] builds us(1) by (cases "rows_built held (last us2)") (auto simp: update_builds_def)
  show ?thesis
  proof (cases "section_pane_header sec")
    case (Some h)
    define new where "new = \<lparr>update_pane_id = section_pane_id sec, update_pane_header = h, update_row_instructions = section_row_instructions sec\<rparr>"
    have us2: "us2 = us1 @ [new]" using join Some by (simp add: join_section_def new_def)
    have new: "last us2 = new" "butlast us2 = us1" using us2 by simp_all
    have "us ! length us1 = u" "length us1 < length us" using us(1) new by simp_all
    then have "nth_opt (painted_pane_ids (open_painted_frame ou)) (length us1) = Some (section_pane_id sec)"
      using partly_same [OF us(2)] ids by (simp add: new new_def nth_opt_def flip: ids)
    moreover have "(if us1 = [] then None else validate_staged_pane_row_count (last (map (staged_of held) us1))) = None"
      using builds us(1) new by (cases us1 rule: rev_cases) (auto simp: update_builds_def)
    ultimately have "stage_section_pane sec (open_painted_frame ou) (open_staged_panes ou) =
        Inr (map (staged_of held) us1 @ [\<lparr>staged_pane_id = section_pane_id sec, staged_pane_header = h, staged_row_snapshots = []\<rparr>])"
      by (simp add: stage_section_pane_def Some staged split del: if_split)
    with rows show ?thesis
      by (auto simp: apply_pane_section_def us2 new new_def staged_of_def rows_built_def split: option.splits if_splits)
  next
    case None
    have last: "us1 \<noteq> []" "update_pane_id (last us1) = section_pane_id sec"
      "us2 = butlast us1 @ [(last us1)\<lparr>update_row_instructions := update_row_instructions (last us1) @ section_row_instructions sec\<rparr>]"
      using join None by (auto simp: join_section_def split: if_splits)
    then obtain before where before: "rows_built held (last us1) = Inr before"
      using partly_builds [of "last us1" "last us2" held] rows by (cases "rows_built held (last us1)") (auto simp: partly_def)
    have stage: "stage_section_pane sec (open_painted_frame ou) (open_staged_panes ou) = Inr (map (staged_of held) us1)"
      using last by (simp add: stage_section_pane_def None staged last_map staged_of_def)
    have split: "map (staged_of held) us1 = map (staged_of held) (butlast us1) @ [staged_of held (last us1)]"
      using last(1) by (metis append_butlast_last_id list.map(1) list.map(2) map_append)
    show ?thesis
    proof (cases "header_pane_window (update_pane_header (last us1))")
      case None
      with rows last have "section_row_instructions sec = []" by (auto simp: rows_built_def split: if_splits)
      with None stage last show ?thesis
        by (simp add: apply_pane_section_def last_map staged_of_def split)
    next
      case (Some win)
      let ?u = "(last us1)\<lparr>update_row_instructions := update_row_instructions (last us1) @ section_row_instructions sec\<rparr>"
      have built: "rows_built held ?u = Inr rows" using rows last(3) by simp
      then have "apply_row_instructions (section_pane_id sec) win (section_held_rows held (section_pane_id sec) win)
          (section_row_instructions sec) before = Inr rows"
        using rows_built_later [OF before Some, of "section_row_instructions sec"] last(2) by simp
      moreover have "staged_of held ?u = (staged_of held (last us1))\<lparr>staged_row_snapshots := rows\<rparr>"
        unfolding staged_of_def built by simp
      moreover have "staged_of held (last us1) =
          \<lparr>staged_pane_id = section_pane_id sec, staged_pane_header = update_pane_header (last us1), staged_row_snapshots = before\<rparr>"
        by (simp add: staged_of_def before last(2))
      ultimately show ?thesis
        using Some stage last(3) unfolding apply_pane_section_def split by simp
    qed
  qed
qed

lemma apply_pane_sections_staged:
  fixes ou :: "('x, 'w) open_update"
  assumes "join_sections us1 secs = Some us" "list_all (update_builds held) us"
    and "map update_pane_id us = painted_pane_ids (open_painted_frame ou)" "open_staged_panes ou = map (staged_of held) us1"
  shows "apply_pane_sections held secs ou = Inr (ou\<lparr>open_staged_panes := map (staged_of held) us\<rparr>)"
  using assms
proof (induction us1 secs arbitrary: ou rule: join_sections.induct)
  case (1 us1)
  then show ?case by (simp add: open_update.equality)
next
  case (2 us1 sec secs)
  then obtain us2 where us2: "join_section us1 sec = Some us2" "join_sections us2 secs = Some us" by (auto split: option.splits)
  have "apply_pane_section held sec ou = Inr (ou\<lparr>open_staged_panes := map (staged_of held) us2\<rparr>)"
    using us2 "2.prems" join_sections_up_to by (intro apply_pane_section_staged) auto
  with "2.IH" [OF us2(1), of "ou\<lparr>open_staged_panes := map (staged_of held) us2\<rparr>"] us2(2) "2.prems" show ?case by simp
qed

section \<open>The parts of an update\<close>

text \<open>A receiver that takes frames one after another, with what each gives back.\<close>

fun accept_parts ::
    "('x painted_frame, 'w) painted_update_part list \<Rightarrow> ('x, 'w) painted_update_receiver
       \<Rightarrow> painted_update_error + (('x, 'w) received_painted_frame option list \<times> ('x, 'w) painted_update_receiver)" where
  "accept_parts [] r = Inr ([], r)"
| "accept_parts (part # parts) r =
     (case accept_painted_update_part part r of
        Inl e \<Rightarrow> Inl e
      | Inr (received, r) \<Rightarrow> map_sum id (map_prod ((#) received) id) (accept_parts parts r))"

lemma accept_parts_step:
  "accept_painted_update_part part r = Inr (received, r1) \<Longrightarrow> accept_parts parts r1 = Inr (receiveds, r2) \<Longrightarrow>
     accept_parts (part # parts) r = Inr (received # receiveds, r2)"
  by simp

fun accept_frames ::
    "(u8 list \<Rightarrow> string + 'x painted_frame) \<Rightarrow> (u8 list \<Rightarrow> string + 'w) \<Rightarrow> 'm received_frame list
       \<Rightarrow> ('x, 'w) painted_update_receiver
       \<Rightarrow> malformed_frame + (('m, 'x, 'w) session_frame option list \<times> ('x, 'w) painted_update_receiver)" where
  "accept_frames parse_frame parse_preview [] r = Inr ([], r)"
| "accept_frames parse_frame parse_preview (frame # frames) r =
     (case accept_session_frame parse_frame parse_preview frame r of
        Inl e \<Rightarrow> Inl e
      | Inr (given, r) \<Rightarrow> map_sum id (map_prod ((#) given) id) (accept_frames parse_frame parse_preview frames r))"

lemma accept_frames_parts:
  assumes "map (decode_session_binary_frame parse_frame parse_preview) payloads = map (Inr \<circ> PaintedUpdatePart) parts"
    and "accept_parts parts r = Inr (received, r')"
  shows "accept_frames parse_frame parse_preview (map Received_Binary payloads) r = Inr (map (map_option Session_Painted) received, r')"
  using assms
proof (induction payloads arbitrary: parts r received)
  case (Cons payload payloads)
  then obtain part parts' where parts: "parts = part # parts'" by (cases parts) auto
  obtain got r1 where step: "accept_painted_update_part part r = Inr (got, r1)"
    using Cons.prems(2) parts by (cases "accept_painted_update_part part r") auto
  then obtain received' where rest: "accept_parts parts' r1 = Inr (received', r')" "received = got # received'"
    using Cons.prems(2) parts by (cases "accept_parts parts' r1") auto
  with step Cons.IH [of parts' r1 received'] Cons.prems(1) parts show ?case
    by (simp add: accept_session_frame_def)
qed simp

lemma apply_pane_sections_append:
  "apply_pane_sections held (xs @ ys) ou =
     (case apply_pane_sections held xs ou of Inl e \<Rightarrow> Inl e | Inr ou \<Rightarrow> apply_pane_sections held ys ou)"
  by (induction xs arbitrary: ou) (auto split: sum.splits)

lemma accept_open_parts:
  assumes "ps \<noteq> []" "list_all (\<lambda>p. update_opening p = None) ps" "map is_last_part ps = replicate (length ps - 1) False @ [True]"
    and "receiver_open_update r = Some ou" "apply_pane_sections (held_pane_by_id r) (concat (map pane_sections ps)) ou = Inr ou'"
    and "commit_update ou' (r\<lparr>receiver_open_update := None\<rparr>) = Inr (received, r')"
  shows "accept_parts ps r = Inr (replicate (length ps - 1) None @ [Some received], r')"
  using assms
proof (induction ps arbitrary: r ou)
  case (Cons p ps)
  obtain ou1 where ou1: "apply_pane_sections (held_pane_by_id r) (pane_sections p) ou = Inr ou1"
    "apply_pane_sections (held_pane_by_id r) (concat (map pane_sections ps)) ou1 = Inr ou'"
    using Cons.prems(5) by (auto simp: apply_pane_sections_append split: sum.splits)
  show ?case
  proof (cases ps)
    case Nil
    with Cons.prems ou1 show ?thesis by (simp add: accept_painted_update_part_def)
  next
    case (Cons q qs)
    then have p: "\<not> is_last_part p" "map is_last_part ps = replicate (length ps - 1) False @ [True]" "update_opening p = None"
      using Cons.prems(2,3) by auto
    have "accept_parts ps (r\<lparr>receiver_open_update := Some ou1\<rparr>) = Inr (replicate (length ps - 1) None @ [Some received], r')"
      using Cons p(2) Cons.prems(2,6) ou1(2) by (intro Cons.IH [of _ ou1]) auto
    moreover have "accept_painted_update_part p r = Inr (None, r\<lparr>receiver_open_update := Some ou1\<rparr>)"
      using p Cons.prems(4) ou1(1) by (simp add: accept_painted_update_part_def)
    moreover have "length ps = Suc (length ps - 1)" using Cons by simp
    ultimately show ?thesis by (metis accept_parts_step replicate_Suc append_Cons diff_Suc_1 length_Cons)
  qed
qed simp

text \<open>The part that opens an update is one of an update already open.\<close>

lemma accept_opening_part:
  assumes "update_opening part = Some op" "receiver_open_update r = None" "open_new_update op r = Inr ou"
  shows "accept_painted_update_part part r =
    accept_painted_update_part (part\<lparr>update_opening := None\<rparr>) (r\<lparr>receiver_open_update := Some ou\<rparr>)"
  using assms by (simp add: accept_painted_update_part_def split: sum.split)

lemma accept_update_parts:
  assumes r: "receiver_open_update r = None" and opened: "open_new_update op r = Inr ou"
    and staged: "apply_pane_sections (held_pane_by_id r) (concat secss @ secs) ou = Inr ou'"
    and commit: "commit_update ou' r = Inr (received, r')"
  shows "accept_parts (parts_of op secss secs) r = Inr (replicate (length secss) None @ [Some received], r')"
proof -
  let ?r = "r\<lparr>receiver_open_update := Some ou\<rparr>"
  obtain part parts where parts: "parts_of op secss secs = part # parts"
    using parts_of_shape(1) [of op secss secs] by (cases "parts_of op secss secs") auto
  let ?ps = "part\<lparr>update_opening := None\<rparr> # parts"
  have opens: "update_opening part = Some op" "map update_opening parts = replicate (length secss) None"
    using parts_of_shape(2) [of op secss secs] by (simp_all add: parts)
  have len: "length parts = length secss" using arg_cong [OF opens(2), of length] by simp
  have "accept_parts ?ps ?r = Inr (replicate (length ?ps - 1) None @ [Some received], r')"
  proof (rule accept_open_parts)
    show "list_all (\<lambda>p. update_opening p = None) ?ps"
      using opens(2) by (auto simp: list_all_iff dest!: arg_cong [of _ _ set])
    show "map is_last_part ?ps = replicate (length ?ps - 1) False @ [True]"
      using parts_of_shape(3) [of op secss secs] len by (simp add: parts)
    show "apply_pane_sections (held_pane_by_id ?r) (concat (map pane_sections ?ps)) ou = Inr ou'"
      using parts_of_shape(4) [of op secss secs] staged by (simp add: parts)
    have "?r\<lparr>receiver_open_update := None\<rparr> = r" using r by simp
    then show "commit_update ou' (?r\<lparr>receiver_open_update := None\<rparr>) = Inr (received, r')" using commit by simp
  qed simp_all
  then show ?thesis by (simp add: parts len accept_opening_part [OF opens(1) r opened])
qed

end
