(* ===== verification/Painted_Connection.thy ===== *)
theory Painted_Connection
  imports Painted_Stream_Sync
begin

text \<open>
  The two ends of a connection in step. What the sender takes the client to hold is what the receiver
  holds, each update keeps it so, and after every snapshot of the screen, sent or found unchanged, the
  client shows exactly that snapshot.
\<close>

section \<open>What the client is to show\<close>

text \<open>A row of the sender as the client decodes it, and a pane as the client is to show it.\<close>

definition shown_row :: "u16 \<Rightarrow> row_snapshot arc \<Rightarrow> row_snapshot" where
  "shown_row column_count a = projr (received_row column_count a)"

definition shown_grid_view :: "row_snapshot arc grid_view \<Rightarrow> row_snapshot grid_view" where
  "shown_grid_view view =
     \<lparr>view_row_snapshots = map (shown_row (view_column_count view)) (view_row_snapshots view),
      view_column_count = view_column_count view, view_row_offset = view_row_offset view\<rparr>"

definition shown_pane_view :: "pane_snapshot \<Rightarrow> received_pane_view" where
  "shown_pane_view ps =
     \<lparr>received_pane_id = snapshot_pane_id ps, received_cursor = snapshot_cursor ps,
      received_view_top_row_index = snapshot_view_top_row_index ps,
      received_retained_line_count = snapshot_retained_line_count ps,
      received_grid_view = map_option shown_grid_view (snapshot_grid_view ps)\<rparr>"

text \<open>Every row of the pane decodes at the column count of its view.\<close>

definition pane_readable :: "pane_snapshot \<Rightarrow> bool" where
  "pane_readable ps \<longleftrightarrow>
     (case snapshot_grid_view ps of
        None \<Rightarrow> True
      | Some view \<Rightarrow> list_all (\<lambda>a. \<not> isl (received_row (view_column_count view) a)) (view_row_snapshots view))"

lemma shown_rows_received:
  "list_all (\<lambda>a. \<not> isl (received_row c a)) arcs \<Longrightarrow> rows_received c arcs (map (shown_row c) arcs)"
  by (induction arcs) (auto simp: rows_received_def shown_row_def)

lemma rows_received_shown: "rows_received c arcs rows \<Longrightarrow> rows = map (shown_row c) arcs"
  using rows_received_length [of c arcs rows] rows_received_nth [of c arcs rows]
  by (intro nth_equalityI) (simp_all add: shown_row_def)

text \<open>A row made from good cells decodes at its own column count, to the cells the encoding carries.\<close>

lemma padded_row_received:
  assumes "length row_cells \<le> unat column_count" "list_all cell_ok row_cells" "list_all cell_normal row_cells"
    and "\<And>s. plain_row_style = Some s \<Longrightarrow>
      list_all (\<lambda>c. cell_style c = s \<and> plain_ascii_cell c \<and> get_image_cell_extra c = None) row_cells"
    and "from_padded_row_cells row_cells column_count plain_row_style md = Some sn"
  shows "\<exists>row. received_row column_count (Arc address sn) = Inr row \<and> snapshot_row_bytes row = snapshot_row_bytes sn \<and>
    decoded_cells row = Some (map wire_cell row_cells @ replicate (unat column_count - length row_cells) build_blank)"
proof -
  have "shape_column_count (content_shape row_cells column_count (metadata_row_end md)) = column_count"
    by (simp add: content_shape_def)
  with snapshot_decodes [of row_cells column_count plain_row_style md] assms(1-4) assms(5) show ?thesis
    by (auto simp: received_row_def from_encoded_row_bytes_def)
qed

section \<open>The pane updates of one snapshot\<close>

text \<open>What the sender takes the client to hold of a pane is what the receiver holds.\<close>

definition pane_in_sync :: "sent_pane \<Rightarrow> held_pane option \<Rightarrow> bool" where
  "pane_in_sync sp hp \<longleftrightarrow>
     (case header_pane_window (sent_pane_header sp) of
        None \<Rightarrow> True
      | Some win \<Rightarrow>
          \<not> window_is_reset win \<and> unat (window_row_count win) = length (sent_row_snapshots sp) \<and>
          (case hp of
             None \<Rightarrow> False
           | Some h \<Rightarrow>
               held_column_count h = window_column_count win \<and>
               rows_received (window_column_count win) (sent_row_snapshots sp) (held_row_snapshots h)))"

abbreviation pane_row_arcs :: "pane_snapshot \<Rightarrow> row_snapshot arc list" where
  "pane_row_arcs ps \<equiv> (case snapshot_grid_view ps of None \<Rightarrow> [] | Some view \<Rightarrow> view_row_snapshots view)"

lemma build_pane_update_header:
  "build_pane_update ps sent = Some u \<Longrightarrow>
     update_pane_id u = snapshot_pane_id ps \<and>
     header_cursor (update_pane_header u) = pane_cursor_of (snapshot_cursor ps) \<and>
     header_view_top_row_index (update_pane_header u) = snapshot_view_top_row_index ps \<and>
     header_retained_line_count (update_pane_header u) = snapshot_retained_line_count ps \<and>
     map_option (\<lambda>win. (window_column_count win, unat (window_row_count win), window_view_row_offset win))
         (header_pane_window (update_pane_header u)) =
       map_option (\<lambda>view. (view_column_count view, length (view_row_snapshots view), view_row_offset view)) (snapshot_grid_view ps)"
  by (auto simp: build_pane_update_def Let_def column_of_nat split: option.splits if_splits)

lemma held_rows_in_sync:
  assumes "held_rows_for ps view sent = Some held_arcs" "\<And>sp. sent = Some sp \<Longrightarrow> pane_in_sync sp (held p)"
  shows "\<exists>h. held p = Some h \<and> held_column_count h = view_column_count view \<and> length held_arcs < 2 ^ 16 \<and>
    rows_received (view_column_count view) held_arcs (held_row_snapshots h) \<and> (\<exists>sp. sent = Some sp \<and> sent_row_snapshots sp = held_arcs)"
proof -
  obtain sp win where sp: "sent = Some sp" "held_arcs = sent_row_snapshots sp" "header_pane_window (sent_pane_header sp) = Some win"
    "window_column_count win = view_column_count view"
    using assms(1) by (auto simp: held_rows_for_def split: option.splits if_splits)
  have "pane_in_sync sp (held p)" using assms(2) sp(1) .
  moreover have "unat (window_row_count win) < 2 ^ 16" using unat_u16_less by simp
  ultimately show ?thesis using sp by (auto simp: pane_in_sync_def split: option.splits)
qed

lemma build_pane_update_rows:
  assumes build: "build_pane_update ps sent = Some u" and sync: "\<And>sp. sent = Some sp \<Longrightarrow> pane_in_sync sp (held (snapshot_pane_id ps))"
    and readable: "pane_readable ps" and arcs: "coherent (set (case sent of None \<Rightarrow> [] | Some sp \<Rightarrow> sent_row_snapshots sp) \<union> set (pane_row_arcs ps))"
  shows "rows_built held u = Inr (case snapshot_grid_view ps of None \<Rightarrow> [] | Some view \<Rightarrow> view_row_snapshots (shown_grid_view view))"
    and "pane_update_ok u"
proof -
  have "rows_built held u = Inr (case snapshot_grid_view ps of None \<Rightarrow> [] | Some view \<Rightarrow> view_row_snapshots (shown_grid_view view)) \<and> pane_update_ok u"
  proof (cases "snapshot_grid_view ps")
    case None
    with build show ?thesis by (auto simp: build_pane_update_def rows_built_def pane_update_ok_def)
  next
    case (Some view)
    let ?held = "held_rows_for ps view sent"
    define win where "win = \<lparr>window_column_count = view_column_count view, window_row_count = of_nat (length (view_row_snapshots view)),
      window_view_row_offset = view_row_offset view, window_is_reset = (?held = None)\<rparr>"
    define held_arcs where "held_arcs = (case ?held of None \<Rightarrow> [] | Some rows \<Rightarrow> rows)"
    have small: "length (view_row_snapshots view) < 2 ^ 16" using build Some by (auto simp: build_pane_update_def split: if_splits)
    have u: "update_pane_id u = snapshot_pane_id ps" "header_pane_window (update_pane_header u) = Some win"
      "update_row_instructions u = compute_row_instructions held_arcs (view_row_snapshots view)"
      using build small by (auto simp: build_pane_update_def Some Let_def win_def held_arcs_def)
    let ?rows = "section_held_rows held (snapshot_pane_id ps) win"
    have held: "rows_received (window_column_count win) held_arcs ?rows \<and> length held_arcs < 2 ^ 16 \<and>
        coherent (set held_arcs \<union> set (view_row_snapshots view))"
    proof (cases ?held)
      case None
      with arcs Some show ?thesis
        by (auto simp: held_arcs_def win_def section_held_rows_def rows_received_def coherent_def)
    next
      case (Some rows)
      with held_rows_in_sync [OF Some, where held = held and p = "snapshot_pane_id ps"] sync arcs \<open>snapshot_grid_view ps = Some view\<close>
      show ?thesis by (auto simp: held_arcs_def win_def section_held_rows_def)
    qed
    have "rows_received (window_column_count win) (view_row_snapshots view) (view_row_snapshots (shown_grid_view view))"
      using readable Some shown_rows_received by (simp add: pane_readable_def win_def shown_grid_view_def)
    with held small have "gives_rows (snapshot_pane_id ps) win ?rows (compute_row_instructions held_arcs (view_row_snapshots view))
        (view_row_snapshots (shown_grid_view view))"
      by (intro compute_row_instructions_gives) (auto simp: win_def column_of_nat)
    with u Some show ?thesis by (simp add: rows_built_def gives_rows_def pane_update_ok_def)
  qed
  then show "rows_built held u = Inr (case snapshot_grid_view ps of None \<Rightarrow> [] | Some view \<Rightarrow> view_row_snapshots (shown_grid_view view))"
    "pane_update_ok u" by simp_all
qed

lemma build_pane_updates_list:
  "build_pane_updates sent_panes pss = Some (us, unchanged) \<Longrightarrow>
     list_all2 (\<lambda>ps u. build_pane_update ps (sent_panes (snapshot_pane_id ps)) = Some u) pss us \<and>
     (unchanged \<longleftrightarrow> list_all2 (\<lambda>ps u. is_pane_update_unchanged u (sent_panes (snapshot_pane_id ps))) pss us)"
  by (induction pss arbitrary: us unchanged) (auto simp: Let_def split: option.splits prod.splits)

text \<open>A pane of the update, as the receiver stages it, holds and shows it.\<close>

lemma build_cursor_pane_cursor [simp]: "build_cursor_snapshot (pane_cursor_of c) = c"
proof -
  have "cursor_shape_of \<circ> pane_shape_of = id"
    by (auto simp: fun_eq_iff cursor_shape_of_def pane_shape_of_def split: cursor_shape.split)
  then show ?thesis by (simp add: build_cursor_snapshot_def pane_cursor_of_def option.map_comp option.map_id)
qed

lemma staged_pane_shown:
  assumes build: "build_pane_update ps sent = Some u" and sync: "\<And>sp. sent = Some sp \<Longrightarrow> pane_in_sync sp (held (snapshot_pane_id ps))"
    and readable: "pane_readable ps" and arcs: "coherent (set (case sent of None \<Rightarrow> [] | Some sp \<Rightarrow> sent_row_snapshots sp) \<union> set (pane_row_arcs ps))"
  shows "update_builds held u" "build_pane_view (staged_of held u) = shown_pane_view ps"
    "pane_in_sync (sent_pane_of ps u) (map_of (held_panes_of [staged_of held u]) (snapshot_pane_id ps))"
proof -
  note rows = build_pane_update_rows [where held = held, OF assms] and header = build_pane_update_header [OF build]
  have win: "snapshot_grid_view ps = None \<and> header_pane_window (update_pane_header u) = None \<or>
      (\<exists>view w. snapshot_grid_view ps = Some view \<and> header_pane_window (update_pane_header u) = Some w \<and>
        window_column_count w = view_column_count view \<and> unat (window_row_count w) = length (view_row_snapshots view) \<and>
        window_view_row_offset w = view_row_offset view)"
    using header by (cases "snapshot_grid_view ps"; cases "header_pane_window (update_pane_header u)") auto
  show "update_builds held u"
    using rows(1) win by (auto simp: update_builds_def staged_of_def validate_staged_pane_row_count_def shown_grid_view_def)
  show "build_pane_view (staged_of held u) = shown_pane_view ps"
    using rows(1) win header by (auto simp: build_pane_view_def staged_of_def shown_pane_view_def shown_grid_view_def)
  show "pane_in_sync (sent_pane_of ps u) (map_of (held_panes_of [staged_of held u]) (snapshot_pane_id ps))"
    using rows(1) win header shown_rows_received readable
    by (auto simp: pane_in_sync_def sent_pane_of_def staged_of_def shown_grid_view_def pane_readable_def)
qed

section \<open>The two ends in step\<close>

text \<open>
  \<open>wire\<close> is the wire form of a placement preview. What the JSON codec is relied on for: what it writes is
  not empty and reads back.
\<close>

definition json_codec ::
    "('x painted_frame \<Rightarrow> u8 list) \<Rightarrow> (u8 list \<Rightarrow> string + 'x painted_frame) \<Rightarrow> ('p \<Rightarrow> u8 list) \<Rightarrow> (u8 list \<Rightarrow> string + 'w)
       \<Rightarrow> ('p \<Rightarrow> 'w) \<Rightarrow> bool" where
  "json_codec frame_json parse_frame preview_json parse_preview wire \<longleftrightarrow>
     (\<forall>f. frame_json f \<noteq> [] \<and> parse_frame (frame_json f) = Inr f) \<and>
     (\<forall>p. preview_json p \<noteq> [] \<and> parse_preview (preview_json p) = Inr (wire p))"

definition in_sync ::
    "('x painted_frame \<Rightarrow> u8 list) \<Rightarrow> ('p \<Rightarrow> 'w) \<Rightarrow> 'p painted_update_sender \<Rightarrow> ('x, 'w) painted_update_receiver \<Rightarrow> bool" where
  "in_sync frame_json wire s r \<longleftrightarrow>
     receiver_open_update r = None \<and> last_update_sequence r = get_last_update_sequence s \<and>
     sent_structure_json_bytes s = (case held_painted_frame r of None \<Rightarrow> [] | Some f \<Rightarrow> frame_json f) \<and>
     held_placement_preview r = map_option (wire \<circ> arc_value) (sent_placement_preview s) \<and>
     (\<forall>p sp. sent_pane_by_id s p = Some sp \<longrightarrow> pane_in_sync sp (held_pane_by_id r p))"

text \<open>
  A snapshot the sender may be given: one pane snapshot for each pane of the frame, in its order and none
  twice; rows that decode; and one value behind each \<open>Arc\<close> address among what was sent and what is shown,
  which holds because the sender keeps the \<open>Arc\<close>s it sent.
\<close>

definition sent_row_arcs :: "'p painted_update_sender \<Rightarrow> row_snapshot arc set" where
  "sent_row_arcs s = (\<Union>sp \<in> ran (sent_pane_by_id s). set (sent_row_snapshots sp))"

definition screen_ok :: "'p painted_update_sender \<Rightarrow> 'p render_snapshot \<Rightarrow> 'x painted_frame \<Rightarrow> bool" where
  "screen_ok s rs f \<longleftrightarrow>
     painted_pane_ids f = map snapshot_pane_id (render_pane_snapshots rs) \<and> distinct (painted_pane_ids f) \<and>
     list_all pane_readable (render_pane_snapshots rs) \<and>
     coherent (sent_row_arcs s \<union> (\<Union>ps \<in> set (render_pane_snapshots rs). set (pane_row_arcs ps))) \<and>
     coherent (set_option (sent_placement_preview s) \<union> set_option (render_placement_preview rs))"

lemma coherentD: "coherent arcs \<Longrightarrow> a \<in> arcs \<Longrightarrow> b \<in> arcs \<Longrightarrow> arc_address a = arc_address b \<Longrightarrow> arc_value a = arc_value b"
  unfolding coherent_def by blast

lemma coherent_subset: "coherent A \<Longrightarrow> B \<subseteq> A \<Longrightarrow> coherent B"
  by (auto simp: coherent_def)

lemma sent_pane_premises:
  assumes "in_sync frame_json wire s r" "screen_ok s rs f" "ps \<in> set (render_pane_snapshots rs)"
  defines "sent \<equiv> sent_pane_by_id s (snapshot_pane_id ps)"
  shows "\<And>sp. sent = Some sp \<Longrightarrow> pane_in_sync sp (held_pane_by_id r (snapshot_pane_id ps))" "pane_readable ps"
    "coherent (set (case sent of None \<Rightarrow> [] | Some sp \<Rightarrow> sent_row_snapshots sp) \<union> set (pane_row_arcs ps))"
proof -
  show "pane_in_sync sp (held_pane_by_id r (snapshot_pane_id ps))" if "sent = Some sp" for sp
    using assms(1) that by (simp add: in_sync_def sent_def)
  show "pane_readable ps" using assms(2,3) by (simp add: screen_ok_def list_all_iff)
  have "set (case sent of None \<Rightarrow> [] | Some sp \<Rightarrow> sent_row_snapshots sp) \<subseteq> sent_row_arcs s"
    by (cases sent) (auto simp: sent_row_arcs_def sent_def intro: ranI)
  then show "coherent (set (case sent of None \<Rightarrow> [] | Some sp \<Rightarrow> sent_row_snapshots sp) \<union> set (pane_row_arcs ps))"
    using assms(2,3) unfolding screen_ok_def by (blast intro: coherent_subset)
qed

section \<open>One update\<close>

text \<open>The opening of an update names the frame and the preview shown.\<close>

lemma json_codecD:
  assumes "json_codec frame_json parse_frame preview_json parse_preview wire"
  shows "frame_json f \<noteq> []" "parse_frame (frame_json f) = Inr f"
    "preview_json p \<noteq> []" "parse_preview (preview_json p) = Inr (wire p)"
  using assms by (simp_all add: json_codec_def)

lemma json_codec_inject:
  assumes codec: "json_codec frame_json parse_frame preview_json parse_preview wire" and "frame_json f = frame_json g"
  shows "f = g"
  using arg_cong [OF assms(2), of parse_frame] unfolding json_codecD(2) [OF codec] by simp

lemma frame_update_reads:
  assumes codec: "json_codec frame_json parse_frame preview_json parse_preview wire"
    and held: "sent_json = (case held of None \<Rightarrow> [] | Some f \<Rightarrow> frame_json f)"
  shows "\<exists>frame. json_reads parse_frame (if frame_json f = sent_json then None else Some (frame_json f)) frame \<and>
    (case frame of Some f \<Rightarrow> Some f | None \<Rightarrow> held) = Some f"
proof (cases "frame_json f = sent_json")
  case True
  then obtain g where g: "held = Some g" "frame_json f = frame_json g"
    using held json_codecD(1) [OF codec, of f] by (cases held) auto
  have "g = f" using json_codec_inject [OF codec g(2)] by simp
  with True g(1) show ?thesis by (intro exI [of _ None]) (simp add: json_reads_def)
next
  case False
  then show ?thesis using json_codecD(1,2) [OF codec, of f] by (intro exI [of _ "Some f"]) (simp add: json_reads_def)
qed

lemma preview_update_reads:
  assumes codec: "json_codec frame_json parse_frame preview_json parse_preview wire"
    and arcs: "coherent (set_option sent \<union> set_option preview)"
  shows "\<exists>pv. preview_reads parse_preview (preview_update_bytes preview_json preview sent) pv \<and>
    (case pv of Preview_Unchanged \<Rightarrow> map_option (wire \<circ> arc_value) sent | Preview_Cleared \<Rightarrow> None | Preview_Replaced w \<Rightarrow> Some w) =
      map_option (wire \<circ> arc_value) preview"
proof (cases "preview_update_bytes preview_json preview sent")
  case Preview_Unchanged
  then have same: "(sent = None) = (preview = None)" "\<And>a b. sent = Some a \<Longrightarrow> preview = Some b \<Longrightarrow> arc_address a = arc_address b"
    by (cases sent; cases preview; simp add: preview_update_bytes_def split: if_splits)+
  have "map_option (wire \<circ> arc_value) sent = map_option (wire \<circ> arc_value) preview"
  proof (cases sent)
    case (Some a)
    with same(1) obtain b where b: "preview = Some b" by auto
    have "arc_value a = arc_value b" using same(2) [OF Some b] arcs Some b by (intro coherentD [OF arcs]) simp_all
    then show ?thesis by (simp add: Some b)
  qed (use same(1) in simp)
  then show ?thesis
    by (intro exI [of _ Preview_Unchanged]) (simp only: Preview_Unchanged, simp add: preview_reads_def)
next
  case Preview_Cleared
  then have "preview = None" by (cases preview; cases sent) (simp_all add: preview_update_bytes_def split: if_splits)
  with Preview_Cleared show ?thesis by (intro exI [of _ Preview_Cleared]) (simp add: preview_reads_def)
next
  case (Preview_Replaced bytes)
  then obtain p where "preview = Some p" "bytes = preview_json (arc_value p)"
    by (cases preview; cases sent) (simp_all add: preview_update_bytes_def split: if_splits)
  with Preview_Replaced show ?thesis using json_codecD(3,4) [OF codec, of "arc_value p"]
    by (intro exI [of _ "Preview_Replaced (wire (arc_value p))"]) (simp add: preview_reads_def)
qed

lemma open_new_update_in_sync:
  assumes sync: "in_sync frame_json wire s r" and codec: "json_codec frame_json parse_frame preview_json parse_preview wire"
    and ok: "screen_ok s rs f"
  shows "\<exists>frame pv. json_reads parse_frame (if frame_json f = sent_structure_json_bytes s then None else Some (frame_json f)) frame \<and>
    preview_reads parse_preview (preview_update_bytes preview_json (render_placement_preview rs) (sent_placement_preview s)) pv \<and>
    open_new_update \<lparr>opening_update_sequence = next_update_sequence s, opening_painted_frame = frame,
      opening_placement_preview_update = pv\<rparr> r =
      Inr \<lparr>open_update_sequence = next_update_sequence s, open_painted_frame = f,
           open_placement_preview = map_option (wire \<circ> arc_value) (render_placement_preview rs), open_staged_panes = []\<rparr>"
proof -
  have r: "sent_structure_json_bytes s = (case held_painted_frame r of None \<Rightarrow> [] | Some f \<Rightarrow> frame_json f)"
    "held_placement_preview r = map_option (wire \<circ> arc_value) (sent_placement_preview s)"
    "next_update_sequence s = last_update_sequence r + 1"
    using sync by (simp_all add: in_sync_def get_last_update_sequence_def)
  have "coherent (set_option (sent_placement_preview s) \<union> set_option (render_placement_preview rs))"
    using ok by (simp add: screen_ok_def)
  from frame_update_reads [OF codec r(1), of f] preview_update_reads [OF codec this] show ?thesis
    by (elim exE conjE) (intro exI conjI, assumption+, simp add: open_new_update_def r(3), simp only: r(2))
qed

text \<open>Both ends look a pane up in a list of panes with different ids.\<close>

lemma collect_map_distinct: "distinct (map fst pairs) \<Longrightarrow> collect_map pairs = map_of pairs"
  unfolding collect_map_def by (subst map_of_inject_set) (simp_all flip: rev_map)

lemma held_panes_of_Cons: "held_panes_of (sp # sps) = held_panes_of [sp] @ held_panes_of sps"
  by (simp split: option.split)

lemma held_panes_of_keys: "set (map fst (held_panes_of sps)) \<subseteq> set (map staged_pane_id sps)"
  by (induction sps) (auto split: option.splits)

lemma held_panes_of_distinct: "distinct (map staged_pane_id sps) \<Longrightarrow> distinct (map fst (held_panes_of sps))"
proof (induction sps)
  case (Cons sp sps)
  then show ?case using held_panes_of_keys [of sps] by (auto split: option.split)
qed simp

lemma held_panes_of_lookup:
  "distinct (map staged_pane_id sps) \<Longrightarrow> sp \<in> set sps \<Longrightarrow>
     map_of (held_panes_of sps) (staged_pane_id sp) = map_of (held_panes_of [sp]) (staged_pane_id sp)"
proof (induction sps)
  case (Cons sp' sps)
  show ?case
  proof (cases "sp = sp'")
    case True
    then have "map_of (held_panes_of sps) (staged_pane_id sp) = None"
      using Cons.prems(1) held_panes_of_keys [of sps] by (force simp: map_of_eq_None_iff)
    with True show ?thesis by (simp split: option.split)
  next
    case False
    then have "staged_pane_id sp' \<noteq> staged_pane_id sp" using Cons.prems by force
    with False Cons show ?thesis by (auto split: option.split)
  qed
qed simp

text \<open>What holds of each pane and its update.\<close>

definition pane_updated :: "(pane_id \<rightharpoonup> held_pane) \<Rightarrow> pane_snapshot \<Rightarrow> pane_update \<Rightarrow> bool" where
  "pane_updated held ps u \<longleftrightarrow>
     update_pane_id u = snapshot_pane_id ps \<and> pane_update_ok u \<and> update_builds held u \<and>
     build_pane_view (staged_of held u) = shown_pane_view ps \<and>
     pane_in_sync (sent_pane_of ps u) (map_of (held_panes_of [staged_of held u]) (snapshot_pane_id ps))"

lemma panes_updated:
  assumes "in_sync frame_json wire s r" "screen_ok s rs f"
    and "build_pane_updates (sent_pane_by_id s) (render_pane_snapshots rs) = Some (us, unchanged)"
  shows "list_all2 (pane_updated (held_pane_by_id r)) (render_pane_snapshots rs) us"
  using conjunct1 [OF build_pane_updates_list [OF assms(3)]]
proof (rule list.rel_mono_strong)
  fix ps u
  assume ps: "ps \<in> set (render_pane_snapshots rs)" and build: "build_pane_update ps (sent_pane_by_id s (snapshot_pane_id ps)) = Some u"
  note facts = build sent_pane_premises [OF assms(1,2) ps]
  show "pane_updated (held_pane_by_id r) ps u"
    unfolding pane_updated_def
    using build_pane_update_header [OF build] build_pane_update_rows(2) [where held = "held_pane_by_id r", OF facts]
      staged_pane_shown [where held = "held_pane_by_id r", OF facts] by simp
qed

lemma panes_updated_lists:
  assumes "list_all2 (pane_updated held) pss us"
  shows "map update_pane_id us = map snapshot_pane_id pss" "list_all pane_update_ok us" "list_all (update_builds held) us"
    "map (build_pane_view \<circ> staged_of held) us = map shown_pane_view pss"
  using assms by (induction rule: list_all2_induct) (simp_all add: pane_updated_def)

lemma panes_stay_in_sync:
  assumes panes: "list_all2 (pane_updated held) pss us" and ids: "distinct (map snapshot_pane_id pss)"
    and sent: "collect_map (map2 (\<lambda>ps u. (snapshot_pane_id ps, sent_pane_of ps u)) pss us) p = Some sp"
  shows "pane_in_sync sp (collect_map (held_panes_of (map (staged_of held) us)) p)"
proof -
  let ?pairs = "map2 (\<lambda>ps u. (snapshot_pane_id ps, sent_pane_of ps u)) pss us"
  have "length pss = length us" using panes by (rule list_all2_lengthD)
  then have "map fst ?pairs = map snapshot_pane_id pss" by (induction pss us rule: list_induct2) simp_all
  with ids sent have "map_of ?pairs p = Some sp" by (simp add: collect_map_distinct)
  then obtain ps u where u: "(ps, u) \<in> set (zip pss us)" "p = snapshot_pane_id ps" "sp = sent_pane_of ps u"
    by (auto dest!: map_of_SomeD)
  have updated: "pane_updated held ps u" using panes u(1) by (auto simp: list_all2_iff)
  let ?staged = "map (staged_of held) us"
  have staged: "distinct (map staged_pane_id ?staged)"
    using ids panes_updated_lists(1) [OF panes] by (simp add: staged_of_def comp_def)
  have "staged_of held u \<in> set ?staged" using u(1) by (auto dest: set_zip_rightD)
  moreover have "staged_pane_id (staged_of held u) = p" using updated u(2) by (simp add: staged_of_def pane_updated_def)
  ultimately have "map_of (held_panes_of ?staged) p = map_of (held_panes_of [staged_of held u]) p"
    using held_panes_of_lookup [OF staged] by blast
  with updated u show ?thesis
    by (simp only: collect_map_distinct [OF held_panes_of_distinct [OF staged]] pane_updated_def)
qed

text \<open>The screen as the client receives it.\<close>

definition received_screen ::
    "('p \<Rightarrow> 'w) \<Rightarrow> u64 \<Rightarrow> 'p render_snapshot \<Rightarrow> 'x painted_frame \<Rightarrow> ('x, 'w) received_painted_frame" where
  "received_screen wire n rs f =
     \<lparr>received_sequence = n, received_painted_frame = f,
      received_placement_preview = map_option (wire \<circ> arc_value) (render_placement_preview rs),
      received_pane_views = map shown_pane_view (render_pane_snapshots rs)\<rparr>"

lemma build_update_framesD:
  assumes "build_update_frames frame_json preview_json rs f required s = Some (Inr (Some payloads, s'))"
  shows "\<exists>us unchanged. build_pane_updates (sent_pane_by_id s) (render_pane_snapshots rs) = Some (us, unchanged) \<and>
    encode_painted_update (next_update_sequence s) (if frame_json f = sent_structure_json_bytes s then None else Some (frame_json f))
      (preview_update_bytes preview_json (render_placement_preview rs) (sent_placement_preview s)) us = Inr payloads \<and>
    s' = \<lparr>sent_structure_json_bytes = frame_json f, sent_placement_preview = render_placement_preview rs,
          sent_pane_by_id = collect_map (map2 (\<lambda>ps u. (snapshot_pane_id ps, sent_pane_of ps u)) (render_pane_snapshots rs) us),
          next_update_sequence = next_update_sequence s + 1\<rparr>"
  using assms unfolding build_update_frames_def Let_def by (auto split: option.splits sum.splits prod.splits if_split_asm)

text \<open>The parts of an update on the receiver.\<close>

lemma accept_screen_parts:
  assumes panes: "list_all2 (pane_updated (held_pane_by_id r)) (render_pane_snapshots rs) us"
    and ids: "painted_pane_ids f = map snapshot_pane_id (render_pane_snapshots rs)" and join: "join_sections [] (concat secss @ secs) = Some us"
    and r: "receiver_open_update r = None"
    and opened: "open_new_update op r = Inr \<lparr>open_update_sequence = n, open_painted_frame = f,
      open_placement_preview = map_option (wire \<circ> arc_value) (render_placement_preview rs), open_staged_panes = []\<rparr>"
  shows "accept_parts (parts_of op secss secs) r =
    Inr (replicate (length secss) None @ [Some (received_screen wire n rs f)],
         r\<lparr>held_pane_by_id := collect_map (held_panes_of (map (staged_of (held_pane_by_id r)) us)), held_painted_frame := Some f,
           held_placement_preview := map_option (wire \<circ> arc_value) (render_placement_preview rs), last_update_sequence := n\<rparr>)"
proof (rule accept_update_parts [OF r opened])
  let ?held = "held_pane_by_id r"
  let ?staged = "map (staged_of ?held) us"
  define ou where "ou = \<lparr>open_update_sequence = n, open_painted_frame = f,
    open_placement_preview = map_option (wire \<circ> arc_value) (render_placement_preview rs), open_staged_panes = ([] :: staged_pane list)\<rparr>"
  note lists = panes_updated_lists [OF panes]
  show "apply_pane_sections ?held (concat secss @ secs) \<lparr>open_update_sequence = n, open_painted_frame = f,
      open_placement_preview = map_option (wire \<circ> arc_value) (render_placement_preview rs), open_staged_panes = []\<rparr> =
      Inr (ou\<lparr>open_staged_panes := ?staged\<rparr>)"
    unfolding ou_def [symmetric] using join lists(1,3) ids by (intro apply_pane_sections_staged) (simp_all add: ou_def)
  have "(if ?staged = [] then None else validate_staged_pane_row_count (last ?staged)) = None"
    using lists(3) by (cases us rule: rev_cases) (simp_all add: update_builds_def)
  moreover have "length us = length (painted_pane_ids f)" using arg_cong [OF lists(1), of length] ids by simp
  ultimately show "commit_update (ou\<lparr>open_staged_panes := ?staged\<rparr>) r =
      Inr (received_screen wire n rs f, r\<lparr>held_pane_by_id := collect_map (held_panes_of ?staged), held_painted_frame := Some f,
           held_placement_preview := map_option (wire \<circ> arc_value) (render_placement_preview rs), last_update_sequence := n\<rparr>)"
    using lists(4) by (simp add: commit_update_def Let_def ou_def received_screen_def del: map_is_Nil_conv)
qed

lemma update_step:
  assumes sync: "in_sync frame_json wire s r" and codec: "json_codec frame_json parse_frame preview_json parse_preview wire"
    and ok: "screen_ok s rs f"
    and build: "build_update_frames frame_json preview_json rs f required s = Some (Inr (Some payloads, s'))"
  shows "\<exists>r'. accept_frames parse_frame parse_preview (map Received_Binary payloads) r =
      Inr (replicate (length payloads - 1) None @ [Some (Session_Painted (received_screen wire (next_update_sequence s) rs f))], r') \<and>
    in_sync frame_json wire s' r'"
proof -
  let ?n = "next_update_sequence s"
  obtain us unchanged where us: "build_pane_updates (sent_pane_by_id s) (render_pane_snapshots rs) = Some (us, unchanged)"
    and encode: "encode_painted_update ?n (if frame_json f = sent_structure_json_bytes s then None else Some (frame_json f))
      (preview_update_bytes preview_json (render_placement_preview rs) (sent_placement_preview s)) us = Inr payloads"
    and s': "s' = \<lparr>sent_structure_json_bytes = frame_json f, sent_placement_preview = render_placement_preview rs,
          sent_pane_by_id = collect_map (map2 (\<lambda>ps u. (snapshot_pane_id ps, sent_pane_of ps u)) (render_pane_snapshots rs) us),
          next_update_sequence = ?n + 1\<rparr>"
    using build_update_framesD [OF build] by blast
  have panes: "list_all2 (pane_updated (held_pane_by_id r)) (render_pane_snapshots rs) us" using panes_updated [OF sync ok us] .
  have ids: "painted_pane_ids f = map snapshot_pane_id (render_pane_snapshots rs)" "distinct (painted_pane_ids f)"
    using ok unfolding screen_ok_def by blast+
  obtain op frame pv where op: "op = \<lparr>opening_update_sequence = ?n, opening_painted_frame = frame, opening_placement_preview_update = pv\<rparr>"
    and reads: "json_reads parse_frame (if frame_json f = sent_structure_json_bytes s then None else Some (frame_json f)) frame"
    "preview_reads parse_preview (preview_update_bytes preview_json (render_placement_preview rs) (sent_placement_preview s)) pv"
    and opened: "open_new_update op r = Inr \<lparr>open_update_sequence = ?n, open_painted_frame = f,
      open_placement_preview = map_option (wire \<circ> arc_value) (render_placement_preview rs), open_staged_panes = []\<rparr>"
    using open_new_update_in_sync [OF sync codec ok] by blast
  have "MAX_FRAME_BYTE_COUNT < 2 ^ 64" "111 \<le> MAX_FRAME_BYTE_COUNT" by (simp_all add: MAX_FRAME_BYTE_COUNT_def)
  from encode_in_parts_roundtrip [OF this encode [unfolded encode_painted_update_def] panes_updated_lists(2) [OF panes] reads] obtain secss secs
    where decode: "map (decode_session_binary_frame parse_frame parse_preview) payloads = map (Inr \<circ> PaintedUpdatePart) (parts_of op secss secs)"
      and join: "join_sections [] (concat secss @ secs) = Some us" unfolding op by blast
  have r: "receiver_open_update r = None" using sync by (simp add: in_sync_def)
  have "length payloads = length (parts_of op secss secs)" using arg_cong [OF decode, of length] by simp
  also have "\<dots> = Suc (length secss)" using arg_cong [OF parts_of_shape(2) [of op secss secs], of length] by simp
  finally have len: "length payloads = Suc (length secss)" .
  let ?r = "r\<lparr>held_pane_by_id := collect_map (held_panes_of (map (staged_of (held_pane_by_id r)) us)), held_painted_frame := Some f,
    held_placement_preview := map_option (wire \<circ> arc_value) (render_placement_preview rs), last_update_sequence := ?n\<rparr>"
  have "accept_frames parse_frame parse_preview (map Received_Binary payloads) r =
      Inr (replicate (length payloads - 1) None @ [Some (Session_Painted (received_screen wire ?n rs f))], ?r)"
    using accept_frames_parts [OF decode accept_screen_parts [OF panes ids(1) join r opened]] by (simp add: len)
  moreover have "in_sync frame_json wire s' ?r"
    using panes_stay_in_sync [OF panes ids(2) [unfolded ids(1)]] r by (simp add: in_sync_def s' get_last_update_sequence_def)
  ultimately show ?thesis by blast
qed

end
