(* ===== verification/Painted_Screen.thy ===== *)
theory Painted_Screen
  imports Painted_Connection
begin

text \<open>
  A connection from its start: the snapshots of the screen the sender is given, the frames it sends, what
  the receiver gives the client. After each snapshot the client shows that snapshot, whether it was sent
  or found unchanged, and no frame the sender builds is refused.
\<close>

section \<open>What the sender takes the client to show\<close>

definition sent_view :: "pane_id \<Rightarrow> sent_pane \<Rightarrow> received_pane_view" where
  "sent_view p sp =
     build_pane_view \<lparr>staged_pane_id = p, staged_pane_header = sent_pane_header sp,
       staged_row_snapshots =
         (case header_pane_window (sent_pane_header sp) of
            None \<Rightarrow> [] | Some win \<Rightarrow> map (shown_row (window_column_count win)) (sent_row_snapshots sp))\<rparr>"

definition client_shows ::
    "('x painted_frame \<Rightarrow> u8 list) \<Rightarrow> ('p \<Rightarrow> 'w) \<Rightarrow> 'p painted_update_sender \<Rightarrow> ('x, 'w) received_painted_frame option \<Rightarrow> bool" where
  "client_shows frame_json wire s shown \<longleftrightarrow>
     (case shown of
        None \<Rightarrow> sent_structure_json_bytes s = []
      | Some received \<Rightarrow>
          received_sequence received = get_last_update_sequence s \<and>
          sent_structure_json_bytes s = frame_json (received_painted_frame received) \<and>
          received_placement_preview received = map_option (wire \<circ> arc_value) (sent_placement_preview s) \<and>
          received_pane_views received =
            map (\<lambda>p. sent_view p (the (sent_pane_by_id s p))) (painted_pane_ids (received_painted_frame received)))"

lemma sent_view_shown:
  assumes "build_pane_update ps sent = Some u"
  shows "sent_view (snapshot_pane_id ps) (sent_pane_of ps u) = shown_pane_view ps"
  using build_pane_update_header [OF assms]
  by (cases "snapshot_grid_view ps"; cases "header_pane_window (update_pane_header u)")
    (simp_all add: sent_view_def sent_pane_of_def build_pane_view_def shown_pane_view_def shown_grid_view_def Let_def)

lemma sent_views_shown:
  assumes builds: "list_all2 (\<lambda>ps u. build_pane_update ps (sent_panes (snapshot_pane_id ps)) = Some u) pss us"
    and ids: "distinct (map snapshot_pane_id pss)"
  defines "sent' \<equiv> collect_map (map2 (\<lambda>ps u. (snapshot_pane_id ps, sent_pane_of ps u)) pss us)"
  shows "map (\<lambda>p. sent_view p (the (sent' p))) (map snapshot_pane_id pss) = map shown_pane_view pss"
proof -
  let ?pairs = "map2 (\<lambda>ps u. (snapshot_pane_id ps, sent_pane_of ps u)) pss us"
  have len: "length pss = length us" using builds by (rule list_all2_lengthD)
  then have keys: "map fst ?pairs = map snapshot_pane_id pss" by (induction pss us rule: list_induct2) simp_all
  have "sent_view (snapshot_pane_id ps) (the (sent' (snapshot_pane_id ps))) = shown_pane_view ps" if ps: "ps \<in> set pss" for ps
  proof -
    obtain u where u: "(ps, u) \<in> set (zip pss us)" using in_set_impl_in_set_zip1 [OF len ps] by blast
    then have "(snapshot_pane_id ps, sent_pane_of ps u) \<in> set ?pairs" by force
    then have "sent' (snapshot_pane_id ps) = Some (sent_pane_of ps u)"
      unfolding sent'_def using ids keys by (simp add: collect_map_distinct map_of_is_SomeI)
    moreover have "build_pane_update ps (sent_panes (snapshot_pane_id ps)) = Some u"
      using builds u by (auto simp: list_all2_iff)
    ultimately show ?thesis using sent_view_shown by simp
  qed
  then show ?thesis by simp
qed

lemma sent_screen_shown:
  assumes ok: "screen_ok s rs f"
    and build: "build_update_frames frame_json preview_json rs f required s = Some (Inr (Some payloads, s'))"
  shows "client_shows frame_json wire s' (Some (received_screen wire (next_update_sequence s) rs f))"
proof -
  obtain us unchanged where us: "build_pane_updates (sent_pane_by_id s) (render_pane_snapshots rs) = Some (us, unchanged)"
    and s': "s' = \<lparr>sent_structure_json_bytes = frame_json f, sent_placement_preview = render_placement_preview rs,
          sent_pane_by_id = collect_map (map2 (\<lambda>ps u. (snapshot_pane_id ps, sent_pane_of ps u)) (render_pane_snapshots rs) us),
          next_update_sequence = next_update_sequence s + 1\<rparr>"
    using build_update_framesD [OF build] by blast
  have ids: "painted_pane_ids f = map snapshot_pane_id (render_pane_snapshots rs)" "distinct (map snapshot_pane_id (render_pane_snapshots rs))"
    using ok unfolding screen_ok_def by metis+
  show ?thesis
    using sent_views_shown [OF conjunct1 [OF build_pane_updates_list [OF us]] ids(2)]
    by (simp add: client_shows_def received_screen_def s' get_last_update_sequence_def ids(1))
qed

section \<open>A snapshot found unchanged\<close>

lemma apply_keeps:
  "list_all is_keep instructions \<Longrightarrow> apply_row_instructions p win held instructions rows = Inr rows' \<Longrightarrow>
     rows = take (length rows) held \<Longrightarrow> rows' = take (length rows') held"
proof (induction instructions arbitrary: rows)
  case (Cons i instructions)
  obtain n where i: "i = Keep n" using Cons.prems(1) by (cases i) simp_all
  obtain kept where kept: "get_range (length rows) (unat n) held = Some kept"
    "apply_row_instructions p win held instructions (rows @ kept) = Inr rows'"
    using Cons.prems(2) by (auto simp: i apply_row_instruction_def split: option.splits if_splits)
  then have "length rows + unat n \<le> length held" "kept = take (unat n) (drop (length rows) held)"
    by (simp_all add: get_range_def split: if_splits)
  then have "rows @ kept = take (length rows + unat n) held" "length (rows @ kept) = length rows + unat n"
    using Cons.prems(3) by (simp_all add: take_add)
  with Cons.IH [OF _ kept(2)] Cons.prems(1) show ?case by simp
qed simp

lemma unchanged_pane_shown:
  assumes build: "build_pane_update ps sent = Some u" and unchanged: "is_pane_update_unchanged u sent"
    and sync: "\<And>sp. sent = Some sp \<Longrightarrow> pane_in_sync sp (held (snapshot_pane_id ps))" and updated: "pane_updated held ps u"
  shows "sent_view (snapshot_pane_id ps) (the sent) = shown_pane_view ps"
proof -
  obtain sp where sp: "sent = Some sp" "sent_pane_header sp = update_pane_header u" and keeps: "list_all is_keep (update_row_instructions u)"
    using unchanged by (auto simp: is_pane_update_unchanged_def split: option.splits)
  have id: "update_pane_id u = snapshot_pane_id ps" using updated by (simp add: pane_updated_def)
  have "staged_row_snapshots (staged_of held u) = map (shown_row (window_column_count win)) (sent_row_snapshots sp)"
    if win: "header_pane_window (update_pane_header u) = Some win" for win
  proof -
    obtain h where h: "held (snapshot_pane_id ps) = Some h" "held_column_count h = window_column_count win" "\<not> window_is_reset win"
      "rows_received (window_column_count win) (sent_row_snapshots sp) (held_row_snapshots h)"
      "unat (window_row_count win) = length (sent_row_snapshots sp)"
      using sync [OF sp(1)] win sp(2) by (auto simp: pane_in_sync_def split: option.splits)
    obtain rows where rows: "rows_built held u = Inr rows" "length rows = unat (window_row_count win)"
      using updated win by (cases "rows_built held u")
        (auto simp: pane_updated_def update_builds_def validate_staged_pane_row_count_def staged_of_def Let_def split: if_splits)
    then have "rows = take (length rows) (held_row_snapshots h)"
      using apply_keeps [OF keeps, of "snapshot_pane_id ps" win "held_row_snapshots h" "[]" rows] win id h
      by (simp add: rows_built_def section_held_rows_def)
    then have "rows = held_row_snapshots h" using rows(2) h(5) rows_received_length [OF h(4)] by simp
    then show ?thesis using rows(1) rows_received_shown [OF h(4)] by (simp add: staged_of_def)
  qed
  then have "sent_view (snapshot_pane_id ps) sp = build_pane_view (staged_of held u)"
    by (cases "header_pane_window (update_pane_header u)")
      (simp_all add: sent_view_def sp(2) build_pane_view_def staged_of_def id Let_def)
  with updated sp(1) show ?thesis by (simp add: pane_updated_def)
qed

lemma unchanged_views:
  assumes sync: "in_sync frame_json wire s r" and ok: "screen_ok s rs f"
    and us: "build_pane_updates (sent_pane_by_id s) (render_pane_snapshots rs) = Some (us, True)"
  shows "map (\<lambda>ps. sent_view (snapshot_pane_id ps) (the (sent_pane_by_id s (snapshot_pane_id ps)))) (render_pane_snapshots rs) =
    map shown_pane_view (render_pane_snapshots rs)"
proof (rule map_cong [OF refl])
  let ?pss = "render_pane_snapshots rs" and ?sent = "sent_pane_by_id s"
  fix ps assume ps: "ps \<in> set ?pss"
  have builds: "list_all2 (\<lambda>ps u. build_pane_update ps (?sent (snapshot_pane_id ps)) = Some u) ?pss us"
    "list_all2 (\<lambda>ps u. is_pane_update_unchanged u (?sent (snapshot_pane_id ps))) ?pss us"
    using build_pane_updates_list [OF us] by simp_all
  obtain u where u: "(ps, u) \<in> set (zip ?pss us)"
    using in_set_impl_in_set_zip1 [OF list_all2_lengthD [OF builds(1)] ps] by blast
  show "sent_view (snapshot_pane_id ps) (the (?sent (snapshot_pane_id ps))) = shown_pane_view ps"
    by (rule unchanged_pane_shown [where held = "held_pane_by_id r" and u = u])
      (use builds panes_updated [OF sync ok us] u sent_pane_premises(1) [OF sync ok ps] in \<open>auto simp: list_all2_iff\<close>)
qed

lemma unchanged_screen_shown:
  assumes sync: "in_sync frame_json wire s r" and codec: "json_codec frame_json parse_frame preview_json parse_preview wire"
    and ok: "screen_ok s rs f" and client: "client_shows frame_json wire s shown"
    and build: "build_update_frames frame_json preview_json rs f required s = Some (Inr (None, s'))"
  shows "s' = s" "shown = Some (received_screen wire (get_last_update_sequence s) rs f)"
proof -
  let ?pss = "render_pane_snapshots rs" and ?sent = "sent_pane_by_id s"
  have "\<exists>us. build_pane_updates ?sent ?pss = Some (us, True) \<and> frame_json f = sent_structure_json_bytes s \<and>
      preview_update_bytes preview_json (render_placement_preview rs) (sent_placement_preview s) = Preview_Unchanged \<and> s' = s"
    using build unfolding build_update_frames_def Let_def by (auto split: option.splits sum.splits prod.splits if_split_asm)
  then obtain us where us: "build_pane_updates ?sent ?pss = Some (us, True)" and json: "frame_json f = sent_structure_json_bytes s"
    and preview: "preview_update_bytes preview_json (render_placement_preview rs) (sent_placement_preview s) = Preview_Unchanged"
    and s': "s' = s" by blast
  show "s' = s" by (rule s')
  obtain received where received: "shown = Some received" "received_sequence received = get_last_update_sequence s"
    "frame_json f = frame_json (received_painted_frame received)"
    "received_placement_preview received = map_option (wire \<circ> arc_value) (sent_placement_preview s)"
    "received_pane_views received = map (\<lambda>p. sent_view p (the (?sent p))) (painted_pane_ids (received_painted_frame received))"
    using client json json_codecD(1) [OF codec, of f] by (cases shown) (simp_all add: client_shows_def)
  have frame: "received_painted_frame received = f" using json_codec_inject [OF codec received(3)] by simp
  have "\<exists>pv. preview_reads parse_preview Preview_Unchanged pv \<and>
      (case pv of Preview_Unchanged \<Rightarrow> map_option (wire \<circ> arc_value) (sent_placement_preview s) | Preview_Cleared \<Rightarrow> None
       | Preview_Replaced w \<Rightarrow> Some w) = map_option (wire \<circ> arc_value) (render_placement_preview rs)"
    using preview_update_reads [OF codec, of "sent_placement_preview s" "render_placement_preview rs"] ok
    unfolding preview screen_ok_def by blast
  then have "map_option (wire \<circ> arc_value) (sent_placement_preview s) = map_option (wire \<circ> arc_value) (render_placement_preview rs)"
    by (elim exE conjE) (simp add: preview_reads_def split: placement_preview_update.splits)
  moreover note unchanged_views [OF sync ok us]
  moreover have "painted_pane_ids f = map snapshot_pane_id ?pss" using ok unfolding screen_ok_def by blast
  ultimately have "received = received_screen wire (get_last_update_sequence s) rs f"
    using received(2,4,5) frame by (simp add: received_screen_def comp_def)
  with received(1) show "shown = Some (received_screen wire (get_last_update_sequence s) rs f)" by simp
qed

section \<open>The connection\<close>

text \<open>The painted frames among what the client was given, in order.\<close>

fun painted_in :: "('m, 'x, 'w) session_frame list \<Rightarrow> ('x, 'w) received_painted_frame list" where
  "painted_in [] = []"
| "painted_in (Session_Painted received # given) = received # painted_in given"
| "painted_in (Session_Event message # given) = painted_in given"
| "painted_in (Session_ImageChunk chunk # given) = painted_in given"

lemma painted_in_append [simp]: "painted_in (xs @ ys) = painted_in xs @ painted_in ys"
  by (induction xs rule: painted_in.induct) simp_all

definition last_painted :: "('m, 'x, 'w) session_frame list \<Rightarrow> ('x, 'w) received_painted_frame option" where
  "last_painted given = (if painted_in given = [] then None else Some (last (painted_in given)))"

lemma last_painted_snoc [simp]:
  "last_painted (given @ [Session_Painted received]) = Some received"
  "last_painted (given @ [Session_Event message]) = last_painted given"
  by (simp_all add: last_painted_def)

text \<open>
  A connection: the sender, the receiver, everything the client was given so far, and the last snapshot
  of the screen. Messages travel on it too, between the updates.
\<close>

inductive connection ::
    "('x painted_frame \<Rightarrow> u8 list) \<Rightarrow> (u8 list \<Rightarrow> string + 'x painted_frame) \<Rightarrow> ('p \<Rightarrow> u8 list) \<Rightarrow> (u8 list \<Rightarrow> string + 'w)
       \<Rightarrow> 'p painted_update_sender \<Rightarrow> ('x, 'w) painted_update_receiver \<Rightarrow> ('m, 'x, 'w) session_frame list
       \<Rightarrow> ('p render_snapshot \<times> 'x painted_frame) option \<Rightarrow> bool"
  for frame_json parse_frame preview_json parse_preview where
  opens: "connection frame_json parse_frame preview_json parse_preview painted_update_sender_new painted_update_receiver_new [] None"
| update:
    "connection frame_json parse_frame preview_json parse_preview s r given screen \<Longrightarrow> screen_ok s rs f \<Longrightarrow>
     build_update_frames frame_json preview_json rs f required s = Some (Inr (payloads, s')) \<Longrightarrow>
     accept_frames parse_frame parse_preview (map Received_Binary (case payloads of None \<Rightarrow> [] | Some sent \<Rightarrow> sent)) r = Inr (results, r') \<Longrightarrow>
     connection frame_json parse_frame preview_json parse_preview s' r' (given @ List.map_filter id results) (Some (rs, f))"
| message:
    "connection frame_json parse_frame preview_json parse_preview s r given screen \<Longrightarrow>
     accept_session_frame parse_frame parse_preview (Received_Message m) r = Inr (Some result, r') \<Longrightarrow>
     connection frame_json parse_frame preview_json parse_preview s r' (given @ [result]) screen"

text \<open>Both ends in step, and the client showing what the sender takes it to show: kept by every step.\<close>

definition in_step ::
    "('x painted_frame \<Rightarrow> u8 list) \<Rightarrow> ('p \<Rightarrow> 'w) \<Rightarrow> 'p painted_update_sender \<Rightarrow> ('x, 'w) painted_update_receiver
       \<Rightarrow> ('m, 'x, 'w) session_frame list \<Rightarrow> ('p render_snapshot \<times> 'x painted_frame) option \<Rightarrow> bool" where
  "in_step frame_json wire s r given screen \<longleftrightarrow>
     in_sync frame_json wire s r \<and> client_shows frame_json wire s (last_painted given) \<and>
     (case screen of None \<Rightarrow> True | Some (rs, f) \<Rightarrow> last_painted given = Some (received_screen wire (get_last_update_sequence s) rs f))"

lemma map_filter_replicate_None [simp]: "List.map_filter id (replicate n None @ xs) = List.map_filter id xs"
  by (induction n) (simp_all add: map_filter_simps)

lemma update_accepted:
  fixes given :: "('m, 'x, 'w) session_frame list"
  assumes sync: "in_sync frame_json wire s r" and codec: "json_codec frame_json parse_frame preview_json parse_preview wire"
    and ok: "screen_ok s rs f" and client: "client_shows frame_json wire s (last_painted given)"
    and build: "build_update_frames frame_json preview_json rs f required s = Some (Inr (payloads, s'))"
  shows "\<exists>results r'. accept_frames parse_frame parse_preview (map Received_Binary (case payloads of None \<Rightarrow> [] | Some sent \<Rightarrow> sent)) r =
      Inr (results, r') \<and> in_step frame_json wire s' r' (given @ List.map_filter id results) (Some (rs, f))"
proof (cases payloads)
  case None
  with unchanged_screen_shown [OF sync codec ok client] build have "s' = s"
    "last_painted given = Some (received_screen wire (get_last_update_sequence s) rs f)" by auto
  with None sync client show ?thesis by (simp add: in_step_def map_filter_simps)
next
  case (Some sent)
  obtain r' where r': "accept_frames parse_frame parse_preview (map Received_Binary sent) r =
      Inr (replicate (length sent - 1) None @
           [Some (Session_Painted (received_screen wire (next_update_sequence s) rs f) :: ('m, 'x, 'w) session_frame)], r')"
    "in_sync frame_json wire s' r'"
    using update_step [OF sync codec ok build [unfolded Some]] by blast
  have "next_update_sequence s = get_last_update_sequence s'"
    using build_update_framesD [OF build [unfolded Some]] by (auto simp: get_last_update_sequence_def)
  with r'(2) sent_screen_shown [OF ok build [unfolded Some], where wire = wire]
  have "in_step frame_json wire s' r' (given @ [Session_Painted (received_screen wire (next_update_sequence s) rs f)]) (Some (rs, f))"
    by (simp add: in_step_def)
  then show ?thesis unfolding Some option.case r'(1) by (auto simp: map_filter_simps)
qed

lemma connection_in_step:
  assumes codec: "json_codec frame_json parse_frame preview_json parse_preview wire"
  shows "connection frame_json parse_frame preview_json parse_preview s r given screen \<Longrightarrow> in_step frame_json wire s r given screen"
proof (induction rule: connection.induct)
  case opens
  show ?case
    by (simp add: in_step_def in_sync_def client_shows_def last_painted_def painted_update_sender_new_def
        painted_update_receiver_new_def get_last_update_sequence_def)
next
  case (update s r given screen rs f required payloads s' results r')
  then show ?case using update_accepted [OF _ codec] by (fastforce simp: in_step_def)
next
  case (message s r given screen m result r')
  then show ?case by (cases screen) (auto simp: accept_session_frame_def in_step_def)
qed

section \<open>Snapshots that fit\<close>

text \<open>
  The sizes a frame is sure to hold: the JSON texts beside the framing of the opening part, each row
  beside the framing of a section, and a view of at most 65 535 rows.
\<close>

definition screen_fits ::
    "('x painted_frame \<Rightarrow> u8 list) \<Rightarrow> ('p \<Rightarrow> u8 list) \<Rightarrow> 'p render_snapshot \<Rightarrow> 'x painted_frame \<Rightarrow> bool" where
  "screen_fits frame_json preview_json rs f \<longleftrightarrow>
     length (frame_json f) + (case render_placement_preview rs of None \<Rightarrow> 0 | Some p \<Rightarrow> length (preview_json (arc_value p))) \<le>
       MAX_FRAME_BYTE_COUNT - (PART_FRAME_BYTE_COUNT + 3 * MAX_VARINT_BYTE_COUNT) \<and>
     list_all (\<lambda>ps. length (pane_row_arcs ps) < 2 ^ 16 \<and>
       list_all (\<lambda>a. length (arc_row_bytes a) \<le> MAX_FRAME_BYTE_COUNT - (PART_FRAME_BYTE_COUNT + SECTION_FRAME_BYTE_COUNT + 2)) (pane_row_arcs ps))
       (render_pane_snapshots rs)"

lemma new_in_push_keep: "New bytes \<in> set (push_keep xs) \<Longrightarrow> New bytes \<in> set xs"
  by (cases xs rule: rev_cases) (auto simp: push_keep_def split: row_instruction.splits)

lemma new_in_push_copy: "New bytes \<in> set (push_copy src xs) \<Longrightarrow> New bytes \<in> set xs"
  by (cases xs rule: rev_cases) (auto simp: push_copy_def split: row_instruction.splits if_splits)

lemma new_row_shown:
  "New bytes \<in> set (row_instructions_from held j shown instructions) \<Longrightarrow>
     New bytes \<in> set instructions \<or> bytes \<in> arc_row_bytes ` set shown"
proof (induction shown arbitrary: j instructions)
  case (Cons a shown)
  obtain xs where xs: "New bytes \<in> set (row_instructions_from held (j + 1) shown xs)"
    "xs = push_keep instructions \<or> (\<exists>src. xs = push_copy src instructions) \<or> xs = instructions @ [New (arc_row_bytes a)]"
    using Cons.prems unfolding row_instructions_from.simps
    by (cases "held_row_index_by_address held (arc_address a)") (auto simp only: option.case split: if_splits)
  from Cons.IH [OF xs(1)] xs(2) show ?case by (auto dest: new_in_push_keep new_in_push_copy)
qed simp

lemma build_pane_update_total:
  assumes "length (pane_row_arcs ps) < 2 ^ 16"
  shows "\<exists>u. build_pane_update ps sent = Some u \<and>
    (\<forall>bytes. New bytes \<in> set (update_row_instructions u) \<longrightarrow> bytes \<in> arc_row_bytes ` set (pane_row_arcs ps))"
  using assms new_row_shown
  by (cases "snapshot_grid_view ps") (fastforce simp: build_pane_update_def Let_def compute_row_instructions_def)+

lemma build_pane_updates_total:
  assumes "list_all (\<lambda>ps. length (pane_row_arcs ps) < 2 ^ 16) pss"
  shows "\<exists>us unchanged. build_pane_updates sent_panes pss = Some (us, unchanged) \<and>
    (\<forall>u \<in> set us. \<forall>bytes. New bytes \<in> set (update_row_instructions u) \<longrightarrow> bytes \<in> (\<Union>ps \<in> set pss. arc_row_bytes ` set (pane_row_arcs ps)))"
  using assms
proof (induction pss)
  case (Cons ps pss)
  then obtain us unchanged where us: "build_pane_updates sent_panes pss = Some (us, unchanged)"
    "\<forall>u \<in> set us. \<forall>bytes. New bytes \<in> set (update_row_instructions u) \<longrightarrow> bytes \<in> (\<Union>ps \<in> set pss. arc_row_bytes ` set (pane_row_arcs ps))"
    by auto
  from build_pane_update_total [of ps "sent_panes (snapshot_pane_id ps)"] Cons.prems obtain u where
    u: "build_pane_update ps (sent_panes (snapshot_pane_id ps)) = Some u"
    "\<forall>bytes. New bytes \<in> set (update_row_instructions u) \<longrightarrow> bytes \<in> arc_row_bytes ` set (pane_row_arcs ps)" by auto
  have "build_pane_updates sent_panes (ps # pss) = Some (u # us, is_pane_update_unchanged u (sent_panes (snapshot_pane_id ps)) \<and> unchanged)"
    using us(1) u(1) by simp
  with us(2) u(2) show ?case by fastforce
qed auto

lemma length_instruction_wire:
  "length (instruction_wire i) \<le> (case i of New bytes \<Rightarrow> 1 + length bytes | _ \<Rightarrow> 1 + 2 * MAX_VARINT_BYTE_COUNT)"
proof (cases i)
  case (Keep n)
  then show ?thesis using length_varint_bytes [of "ucast n"] by (simp add: encode_row_instruction_def write_varint_append [of _ "[_]"])
next
  case (Copy src n)
  then show ?thesis using add_mono [OF length_varint_bytes [of "ucast src"] length_varint_bytes [of "ucast n"]]
    by (simp add: encode_row_instruction_def write_varint_append [of _ "_ # _"])
qed (simp add: encode_row_instruction_def)

lemma length_update_opening_bytes:
  "length (update_opening_bytes n json preview) \<le>
     3 * MAX_VARINT_BYTE_COUNT + length json + (case preview of None \<Rightarrow> 0 | Some bytes \<Rightarrow> length bytes)"
proof -
  have v: "length (write_varint v out) \<le> length out + MAX_VARINT_BYTE_COUNT" for v out
    using length_varint_bytes [of v] by (simp add: write_varint_append [of v out])
  let ?out = "write_varint (of_nat (length json)) (write_varint n []) @ json"
  have out: "length ?out \<le> 2 * MAX_VARINT_BYTE_COUNT + length json"
    using v [of "of_nat (length json)" "write_varint n []"] v [of n "[]"] by simp
  show ?thesis
  proof (cases preview)
    case (Some bytes)
    then show ?thesis using out v [of "of_nat (length bytes)" ?out] by (simp add: update_opening_bytes_def Let_def)
  qed (use out in \<open>simp add: update_opening_bytes_def Let_def\<close>)
qed

lemma encode_painted_update_total:
  assumes "length (case json of None \<Rightarrow> [] | Some b \<Rightarrow> b) + (case preview_json_bytes preview of None \<Rightarrow> 0 | Some b \<Rightarrow> length b)
      \<le> MAX_FRAME_BYTE_COUNT - (PART_FRAME_BYTE_COUNT + 3 * MAX_VARINT_BYTE_COUNT)"
    and "\<And>u bytes. u \<in> set us \<Longrightarrow> New bytes \<in> set (update_row_instructions u) \<Longrightarrow>
      length bytes \<le> MAX_FRAME_BYTE_COUNT - (PART_FRAME_BYTE_COUNT + SECTION_FRAME_BYTE_COUNT + 2)"
  shows "\<exists>payloads. encode_painted_update n json preview us = Inr payloads"
proof -
  have "\<not> instruction_too_large MAX_FRAME_BYTE_COUNT i" if "u \<in> set us" "i \<in> set (update_row_instructions u)" for u i
    using length_instruction_wire [of i] assms(2) [OF that(1)] that(2)
    by (cases i) (fastforce simp: instruction_too_large_def take_defs MAX_VARINT_BYTE_COUNT_def MAX_FRAME_BYTE_COUNT_def)+
  then have "find (instruction_too_large MAX_FRAME_BYTE_COUNT) (concat (map update_row_instructions us)) = None"
    by (auto simp: find_None_iff)
  moreover have "PART_FRAME_BYTE_COUNT + length (update_opening_bytes n (case json of None \<Rightarrow> [] | Some b \<Rightarrow> b) (preview_json_bytes preview))
      \<le> MAX_FRAME_BYTE_COUNT"
    using assms(1) length_update_opening_bytes [of n "case json of None \<Rightarrow> [] | Some b \<Rightarrow> b" "preview_json_bytes preview"]
    by (simp add: take_defs MAX_VARINT_BYTE_COUNT_def MAX_FRAME_BYTE_COUNT_def)
  ultimately show ?thesis
    unfolding encode_painted_update_def by (subst encode_in_parts_result) (simp add: Let_def not_less)
qed

lemma fitting_screen_builds:
  assumes "screen_fits frame_json preview_json rs f"
  shows "\<exists>payloads s'. build_update_frames frame_json preview_json rs f required s = Some (Inr (payloads, s'))"
proof -
  let ?json = "if frame_json f = sent_structure_json_bytes s then None else Some (frame_json f)"
  let ?preview = "preview_update_bytes preview_json (render_placement_preview rs) (sent_placement_preview s)"
  have panes: "list_all (\<lambda>ps. length (pane_row_arcs ps) < 2 ^ 16) (render_pane_snapshots rs)"
    using assms by (auto simp: screen_fits_def list_all_iff)
  obtain us unchanged where us: "build_pane_updates (sent_pane_by_id s) (render_pane_snapshots rs) = Some (us, unchanged)"
    and rows: "\<forall>u \<in> set us. \<forall>bytes. New bytes \<in> set (update_row_instructions u) \<longrightarrow>
      bytes \<in> (\<Union>ps \<in> set (render_pane_snapshots rs). arc_row_bytes ` set (pane_row_arcs ps))"
    using build_pane_updates_total [OF panes, of "sent_pane_by_id s"] by blast
  have "\<exists>payloads. encode_painted_update (next_update_sequence s) ?json ?preview us = Inr payloads"
  proof (rule encode_painted_update_total)
    have "(case preview_json_bytes ?preview of None \<Rightarrow> 0 | Some b \<Rightarrow> length b) \<le>
        (case render_placement_preview rs of None \<Rightarrow> 0 | Some p \<Rightarrow> length (preview_json (arc_value p)))"
      by (simp add: preview_update_bytes_def preview_json_bytes_def split: option.split)
    then show "length (case ?json of None \<Rightarrow> [] | Some b \<Rightarrow> b) + (case preview_json_bytes ?preview of None \<Rightarrow> 0 | Some b \<Rightarrow> length b)
        \<le> MAX_FRAME_BYTE_COUNT - (PART_FRAME_BYTE_COUNT + 3 * MAX_VARINT_BYTE_COUNT)"
      using assms by (simp add: screen_fits_def)
    show "length bytes \<le> MAX_FRAME_BYTE_COUNT - (PART_FRAME_BYTE_COUNT + SECTION_FRAME_BYTE_COUNT + 2)"
      if "u \<in> set us" "New bytes \<in> set (update_row_instructions u)" for u bytes
      using rows that assms unfolding screen_fits_def list_all_iff by blast
  qed
  then show ?thesis using us by (auto simp: build_update_frames_def Let_def)
qed

lemma connection_goes_on:
  assumes "json_codec frame_json parse_frame preview_json parse_preview wire"
    and "connection frame_json parse_frame preview_json parse_preview s r given screen" "screen_ok s rs f"
    and "screen_fits frame_json preview_json rs f"
  shows "\<exists>payloads s' results r'.
    build_update_frames frame_json preview_json rs f required s = Some (Inr (payloads, s')) \<and>
    accept_frames parse_frame parse_preview (map Received_Binary (case payloads of None \<Rightarrow> [] | Some sent \<Rightarrow> sent)) r = Inr (results, r') \<and>
    connection frame_json parse_frame preview_json parse_preview s' r' (given @ List.map_filter id results) (Some (rs, f))"
proof -
  obtain payloads s' where build: "build_update_frames frame_json preview_json rs f required s = Some (Inr (payloads, s'))"
    using fitting_screen_builds [OF assms(4)] by blast
  have "in_sync frame_json wire s r" "client_shows frame_json wire s (last_painted given)"
    using connection_in_step [OF assms(1,2)] by (simp_all add: in_step_def)
  with update_accepted [OF _ assms(1,3) _ build] connection.update [OF assms(2,3) build] build show ?thesis by blast
qed

section \<open>A pane that scrolls\<close>

text \<open>
  A frame of one pane with two rows of two columns, drawn and then drawn again with the rows the other
  way round. The frame's JSON is stood in for by a brace and the bytes of the pane ids.
\<close>

definition example_json :: "unit painted_frame \<Rightarrow> u8 list" where
  "example_json f = 123 # concat (map uuid_bytes (painted_pane_ids f))"

function example_ids :: "u8 list \<Rightarrow> pane_id list" where
  "example_ids bytes = (if length bytes < 16 then [] else PaneId (from_be_bytes (take 16 bytes)) # example_ids (drop 16 bytes))"
  by auto
termination by (relation "measure length") auto

declare example_ids.simps [simp del]

definition example_parse :: "u8 list \<Rightarrow> string + unit painted_frame" where
  "example_parse bytes = Inr \<lparr>painted_pane_ids = example_ids (tl bytes), painted_rest = ()\<rparr>"

lemma example_ids_bytes: "example_ids (concat (map uuid_bytes ids)) = ids"
  by (induction ids) (simp_all add: example_ids.simps [of "[]"] example_ids.simps [of "uuid_bytes _ @ _"])

lemma example_codec: "json_codec example_json example_parse (\<lambda>p. [p]) (\<lambda>bytes. Inr (hd bytes)) id"
  by (simp add: json_codec_def example_json_def example_parse_def example_ids_bytes)

definition example_cells :: "nat \<Rightarrow> cell list" where
  "example_cells letter = [from_character letter 1 style_default]"

definition example_row :: "nat \<Rightarrow> nat \<Rightarrow> row_snapshot arc" where
  "example_row address letter = Arc address (the (from_padded_row_cells (example_cells letter) 2 None row_metadata_default))"

definition example_screen :: "row_snapshot arc list \<Rightarrow> u8 render_snapshot" where
  "example_screen rows =
     \<lparr>render_pane_snapshots =
        [\<lparr>snapshot_pane_id = PaneId 7,
          snapshot_cursor = \<lparr>snapshot_row_index = 0, snapshot_column_index = 1, snapshot_is_visible = True,
            snapshot_is_blinking = False, snapshot_shape = Some Cursor_Bar\<rparr>,
          snapshot_grid_view = Some \<lparr>view_row_snapshots = rows, view_column_count = 2, view_row_offset = 0\<rparr>,
          snapshot_is_on_alternate_screen = False, snapshot_view_top_row_index = 0, snapshot_retained_line_count = 0\<rparr>],
      render_placement_preview = None\<rparr>"

definition example_frame :: "unit painted_frame" where
  "example_frame = \<lparr>painted_pane_ids = [PaneId 7], painted_rest = ()\<rparr>"

abbreviation drawn_screen :: "u8 render_snapshot" where
  "drawn_screen \<equiv> example_screen [example_row 1 97, example_row 2 98]"

abbreviation scrolled_screen :: "u8 render_snapshot" where
  "scrolled_screen \<equiv> example_screen [example_row 2 98, example_row 1 97]"

lemma example_row_made:
  assumes "letter \<in> {97, 98}"
  shows "\<not> isl (received_row 2 (example_row address letter))" "length (arc_row_bytes (example_row address letter)) \<le> 716"
proof -
  have cells: "length (example_cells letter) \<le> unat (2 :: u16)" "list_all cell_ok (example_cells letter)" "list_all cell_normal (example_cells letter)"
    using assms style_default_ok
    by (auto simp: example_cells_def cell_ok_def cell_normal_def text_cell_def list_encoded_combining_characters_def has_image_placeholder_def
        get_image_placeholder_def list_combining_characters_def from_character_def is_scalar_value_def)
  then obtain bytes texts where encode: "encode_padded_row_cells (example_cells letter) 2 None Row_Hard = Some (bytes, texts)"
    using encoded_row_reads [of "example_cells letter" 2 None Row_Hard] by auto
  then have bytes: "length bytes \<le> 716" using encoded_row_length [OF cells(1,2) _ encode] by (simp add: example_cells_def)
  obtain sn where sn: "from_padded_row_cells (example_cells letter) 2 None row_metadata_default = Some sn" "snapshot_row_bytes sn = bytes"
    using encode by (simp add: from_padded_row_cells_def row_metadata_default_def)
  with padded_row_received [OF cells _ sn(1), of address] bytes
  show "\<not> isl (received_row 2 (example_row address letter))" "length (arc_row_bytes (example_row address letter)) \<le> 716"
    by (auto simp: example_row_def)
qed

lemma coherent_empty: "coherent {}"
  by (simp add: coherent_def)

lemma example_rows_coherent: "arcs \<subseteq> {example_row 1 97, example_row 2 98} \<Longrightarrow> coherent arcs"
proof (erule coherent_subset [rotated])
  have "arc_address (example_row 1 97) \<noteq> arc_address (example_row 2 98)" by (simp add: example_row_def)
  then show "coherent {example_row 1 97, example_row 2 98}" unfolding coherent_def
    by (simp only: ball_simps simp_thms) (metis)
qed

lemma example_screen_ok:
  assumes "set rows \<union> sent_row_arcs s \<subseteq> {example_row 1 97, example_row 2 98}" "sent_placement_preview s = None"
  shows "screen_ok s (example_screen rows) example_frame"
proof -
  have "list_all (\<lambda>a. \<not> isl (received_row 2 a)) rows" using assms(1) example_row_made(1) by (auto simp: list_all_iff)
  moreover have "coherent (sent_row_arcs s \<union> set rows)" using assms(1) by (intro example_rows_coherent) blast
  ultimately show ?thesis
    using assms(2) by (simp add: screen_ok_def example_screen_def example_frame_def pane_readable_def coherent_empty)
qed

lemma example_screen_fits:
  assumes "set rows \<subseteq> {example_row 1 97, example_row 2 98}" "length rows < 2 ^ 16"
  shows "screen_fits example_json (\<lambda>p. [p]) (example_screen rows) example_frame"
proof -
  have "length (arc_row_bytes a) \<le> 716" if "a \<in> set rows" for a using that assms(1) example_row_made(2) by blast
  then show ?thesis
    using assms(2) by (fastforce simp: screen_fits_def example_screen_def example_json_def example_frame_def list_all_iff
      take_defs MAX_FRAME_BYTE_COUNT_def MAX_VARINT_BYTE_COUNT_def)
qed

lemma sent_row_arcs_update:
  assumes "build_update_frames frame_json preview_json rs f required s = Some (Inr (payloads, s'))"
  shows "sent_row_arcs s' \<subseteq> sent_row_arcs s \<union> (\<Union>ps \<in> set (render_pane_snapshots rs). set (pane_row_arcs ps))"
    "sent_placement_preview s' \<in> {sent_placement_preview s, render_placement_preview rs}"
proof -
  have "s' = s \<or> (\<exists>us. s' = \<lparr>sent_structure_json_bytes = frame_json f, sent_placement_preview = render_placement_preview rs,
      sent_pane_by_id = collect_map (map2 (\<lambda>ps u. (snapshot_pane_id ps, sent_pane_of ps u)) (render_pane_snapshots rs) us),
      next_update_sequence = next_update_sequence s + 1\<rparr>)"
    using assms unfolding build_update_frames_def Let_def by (auto split: option.splits sum.splits prod.splits if_split_asm)
  then show "sent_row_arcs s' \<subseteq> sent_row_arcs s \<union> (\<Union>ps \<in> set (render_pane_snapshots rs). set (pane_row_arcs ps))"
    "sent_placement_preview s' \<in> {sent_placement_preview s, render_placement_preview rs}"
    by (fastforce simp: sent_row_arcs_def collect_map_def ran_def sent_pane_of_def dest!: map_of_SomeD set_zip_leftD)+
qed

lemma example_drawn:
  "screen_ok painted_update_sender_new drawn_screen example_frame" "screen_fits example_json (\<lambda>p. [p]) drawn_screen example_frame"
proof -
  show "screen_ok painted_update_sender_new drawn_screen example_frame"
    by (rule example_screen_ok) (auto simp: painted_update_sender_new_def sent_row_arcs_def)
  show "screen_fits example_json (\<lambda>p. [p]) drawn_screen example_frame" by (rule example_screen_fits) simp_all
qed

lemma example_scrolled:
  "\<exists>s r (given :: (unit, unit, u8) session_frame list).
     connection example_json example_parse (\<lambda>p. [p]) (\<lambda>bytes. Inr (hd bytes)) s r given (Some (scrolled_screen, example_frame))"
proof -
  obtain payloads s r and given :: "(unit, unit, u8) session_frame list" where
    build: "build_update_frames example_json (\<lambda>p. [p]) drawn_screen example_frame False painted_update_sender_new = Some (Inr (payloads, s))"
    and drawn: "connection example_json example_parse (\<lambda>p. [p]) (\<lambda>bytes. Inr (hd bytes)) s r given (Some (drawn_screen, example_frame))"
    using connection_goes_on [OF example_codec connection.opens example_drawn] by blast
  have "screen_ok s scrolled_screen example_frame"
    using sent_row_arcs_update [OF build]
    by (intro example_screen_ok) (auto simp: painted_update_sender_new_def example_screen_def sent_row_arcs_def)
  moreover have "screen_fits example_json (\<lambda>p. [p]) scrolled_screen example_frame" by (rule example_screen_fits) simp_all
  ultimately show ?thesis using connection_goes_on [OF example_codec drawn] by blast
qed

section \<open>The screen the client shows\<close>

text \<open>
  C5. The client always shows the screen. On a connection the last painted frame the client was given is
  the last snapshot the sender was given: its structure and placement preview, each pane's cursor,
  scroll position and line count, and the decoded cells of every row, whether the rows of the last
  update were kept, copied or sent anew, and whether an update was sent at all. Its sequence is the
  sender's last.
\<close>

theorem client_shows_screen:
  assumes "json_codec frame_json parse_frame preview_json parse_preview wire"
    and "connection frame_json parse_frame preview_json parse_preview s r given (Some (rs, f))"
  shows "last_painted given = Some
    \<lparr>received_sequence = get_last_update_sequence s, received_painted_frame = f,
     received_placement_preview = map_option (wire \<circ> arc_value) (render_placement_preview rs),
     received_pane_views = map shown_pane_view (render_pane_snapshots rs)\<rparr>"
  using connection_in_step [OF assms] by (simp add: in_step_def received_screen_def)

theorem client_shows_screen_witness:
  "\<exists>s r (given :: (unit, unit, u8) session_frame list).
     connection example_json example_parse (\<lambda>p. [p]) (\<lambda>bytes. Inr (hd bytes)) s r given (Some (scrolled_screen, example_frame)) \<and>
     map_option received_pane_views (last_painted given) = Some (map shown_pane_view (render_pane_snapshots scrolled_screen))"
proof -
  from example_scrolled obtain s r and given :: "(unit, unit, u8) session_frame list" where
    c: "connection example_json example_parse (\<lambda>p. [p]) (\<lambda>bytes. Inr (hd bytes)) s r given (Some (scrolled_screen, example_frame))" by blast
  with client_shows_screen [OF example_codec c] show ?thesis by (intro exI [of _ s] exI [of _ r] exI [of _ given]) simp
qed

text \<open>
  C6. Every snapshot that fits reaches the client. Whatever a connection has carried, the sender builds the
  frames of a snapshot whose JSON and rows fit a frame without an error or a panic, the receiver accepts
  every one of them (no sequence, pane list, row count or held row is ever wrong), and the connection
  goes on with that snapshot.
\<close>

theorem fitting_screen_delivered:
  assumes "json_codec frame_json parse_frame preview_json parse_preview wire"
    and "connection frame_json parse_frame preview_json parse_preview s r given screen" "screen_ok s rs f"
    and "screen_fits frame_json preview_json rs f"
  shows "\<exists>payloads s' results r'.
    build_update_frames frame_json preview_json rs f required s = Some (Inr (payloads, s')) \<and>
    accept_frames parse_frame parse_preview (map Received_Binary (case payloads of None \<Rightarrow> [] | Some sent \<Rightarrow> sent)) r = Inr (results, r') \<and>
    connection frame_json parse_frame preview_json parse_preview s' r' (given @ List.map_filter id results) (Some (rs, f))"
  using assms by (rule connection_goes_on)

theorem fitting_screen_delivered_witness:
  "\<exists>payloads s' results r'.
     build_update_frames example_json (\<lambda>p. [p]) drawn_screen example_frame False painted_update_sender_new = Some (Inr (payloads, s')) \<and>
     accept_frames example_parse (\<lambda>bytes. Inr (hd bytes)) (map Received_Binary (case payloads of None \<Rightarrow> [] | Some sent \<Rightarrow> sent))
       painted_update_receiver_new = Inr (results, r') \<and>
     connection example_json example_parse (\<lambda>p. [p]) (\<lambda>bytes. Inr (hd bytes)) s' r'
       ([] @ List.map_filter id (results :: (unit, unit, u8) session_frame option list)) (Some (drawn_screen, example_frame))"
  by (rule fitting_screen_delivered [OF example_codec connection.opens example_drawn])

end
