(* ===== verification/Placement.thy ===== *)
theory Placement
  imports Edit Solver Neighbor Event
begin

text \<open>
  Placement of a pane (\<open>koshi-layout/src/placement.rs\<close>): swapping two leaves, inserting a pane beside a
  pane, a group or the whole tab, stacking it onto another pane, within a tree, across two tabs, or
  from a tree no tab holds. An outer \<open>None\<close> is a panic of the code (an \<open>expect\<close>, an \<open>unreachable!\<close> or a
  path accessor). Sets of ids are sets, and the sort of ids is the library's.
\<close>

section \<open>Targets and errors\<close>

datatype placement_target =
    Place_Swap pane_id
  | Place_Insert pane_placement_anchor direction
  | Place_Stack pane_id

definition from_tiled_placement_target :: "tiled_placement_target \<Rightarrow> placement_target" where
  "from_tiled_placement_target target =
     (case target of
        SwapTarget p \<Rightarrow> Place_Swap p
      | SplitTarget _ beside dir \<Rightarrow> Place_Insert beside dir
      | StackTarget p \<Rightarrow> Place_Stack p)"

datatype placement_error =
    SourcePaneNotFound pane_id
  | TargetPaneNotFound pane_id
  | AnchorIsSource pane_id
  | GroupPaneDuplicated pane_id
  | GroupIsNotOneSubtree "pane_id list"
  | AnchorInsideStack "pane_id list"
  | PaneInBothTrees pane_id
  | DestinationTooSmall required_size cell_size

record cross_tab_placement =
  placed_source_tree :: "layout_node option"
  placed_destination_tree :: layout_node

record placement_tab_sizes =
  destination_tab_size :: "cell_size option"
  source_tab_size :: "cell_size option"

record swap_tab_sizes =
  swap_target_pane_id :: pane_id
  swap_tab_sizes_of :: placement_tab_sizes

record placed_tab_layout =
  placed_tab_id :: tab_id
  placed_tab_size :: cell_size
  placed_layout_solve :: layout_solve

record placed_tab_solve =
  placed_focus_history :: "pane_id list"
  solved_layout :: layout_solve

section \<open>The drawn tab\<close>

definition drawn_layout_tree :: "layout_node \<Rightarrow> pane_id list \<Rightarrow> layout_node" where
  "drawn_layout_tree t focus_history =
     (case build_shown_layout_tree t focus_history of Some shown \<Rightarrow> shown | None \<Rightarrow> t)"

definition solve_placed_tab :: "layout_node \<Rightarrow> pane_id \<Rightarrow> pane_id list \<Rightarrow> cell_size \<Rightarrow> pane_sizing \<Rightarrow> placed_tab_solve" where
  "solve_placed_tab t placed focus_history tab_size z =
     (let history = filter (\<lambda>p. p \<in> set (list_leaf_pane_ids t)) (placed # filter (\<lambda>p. p \<noteq> placed) focus_history)
      in \<lparr>placed_focus_history = history,
          solved_layout = solve_layout_with_sizing (drawn_layout_tree t history) (from_size_at_origin tab_size) z\<rparr>)"

section \<open>Anchors\<close>

text \<open>The path of the first node, in pre-order, with the sorted leaves wanted.\<close>

fun find_split_in_subtree :: "layout_node \<Rightarrow> pane_id list \<Rightarrow> nat list option"
  and find_split_in_children :: "layout_node list \<Rightarrow> nat \<Rightarrow> pane_id list \<Rightarrow> nat list option" where
  "find_split_in_subtree (Pane q) wanted =
     (if length [q] = length wanted \<and> sort [q] = wanted then Some [] else None)"
| "find_split_in_subtree (Split (SplitNode d cs ws a)) wanted =
     (let leaf_pane_ids = list_leaf_pane_ids (Split (SplitNode d cs ws a))
      in if length leaf_pane_ids = length wanted \<and> sort leaf_pane_ids = wanted then Some []
         else find_split_in_children cs 0 wanted)"
| "find_split_in_children [] i wanted = None"
| "find_split_in_children (c # cs) i wanted =
     (case find_split_in_subtree c wanted of
        Some path \<Rightarrow> Some (i # path)
      | None \<Rightarrow> find_split_in_children cs (Suc i) wanted)"

definition find_split_path_by_leaf_set :: "layout_node \<Rightarrow> pane_id list \<Rightarrow> nat list option" where
  "find_split_path_by_leaf_set t pane_ids = find_split_in_subtree t (sort pane_ids)"

definition find_outermost_stack_above :: "layout_node \<Rightarrow> nat list \<Rightarrow> pane_id list option" where
  "find_outermost_stack_above t path =
     find_map
       (\<lambda>k. case get_node_at_path t (take k path) of
              Some (Split s) \<Rightarrow> if direction s = Stacked then Some (list_leaf_pane_ids (Split s)) else None
            | _ \<Rightarrow> None)
       [0..<length path]"

definition find_stack_target_pane_id :: "layout_node \<Rightarrow> pane_placement_anchor \<Rightarrow> pane_id list \<Rightarrow> pane_id option" where
  "find_stack_target_pane_id t beside focus_history =
     (let anchor_path =
        (case beside of
           PaneAnchor p \<Rightarrow> find_pane_path t p
         | GroupAnchor ids \<Rightarrow> find_split_path_by_leaf_set t ids
         | TabAnchor \<Rightarrow> Some [])
      in case Option.bind anchor_path (get_node_at_path t) of
           None \<Rightarrow> None
         | Some (Pane p) \<Rightarrow> Some p
         | Some (Split s) \<Rightarrow>
             if direction s = Stacked
             then case nth_opt (children s) (get_shown_child_index s focus_history) of
                    Some (Pane p) \<Rightarrow> Some p
                  | _ \<Rightarrow> None
             else None)"

text \<open>The loop over the ids of a group, with the ids seen before.\<close>

fun check_group_pane_ids :: "layout_node \<Rightarrow> pane_id set \<Rightarrow> pane_id list \<Rightarrow> placement_error option" where
  "check_group_pane_ids t seen [] = None"
| "check_group_pane_ids t seen (p # ps) =
     (if p \<in> seen then Some (GroupPaneDuplicated p)
      else if \<not> has_pane t p then Some (TargetPaneNotFound p)
      else check_group_pane_ids t (insert p seen) ps)"

definition find_group_anchor_path :: "layout_node \<Rightarrow> pane_id \<Rightarrow> pane_id list \<Rightarrow> placement_error + nat list" where
  "find_group_anchor_path t source ids =
     (if ids = [] then Inl (GroupIsNotOneSubtree [])
      else case check_group_pane_ids t {} ids of
        Some e \<Rightarrow> Inl e
      | None \<Rightarrow>
          if list_all (\<lambda>p. p = source) ids then Inl (AnchorIsSource source)
          else case find_split_path_by_leaf_set t ids of
                 None \<Rightarrow> Inl (GroupIsNotOneSubtree ids)
               | Some path \<Rightarrow> Inr path)"

definition validate_placement_anchor :: "layout_node \<Rightarrow> pane_id \<Rightarrow> pane_placement_anchor \<Rightarrow> placement_error option" where
  "validate_placement_anchor t source beside =
     (let outside_stacks = (\<lambda>path. map_option AnchorInsideStack (find_outermost_stack_above t path))
      in case beside of
           TabAnchor \<Rightarrow> None
         | PaneAnchor p \<Rightarrow>
             if p = source then Some (AnchorIsSource source)
             else (case find_pane_path t p of
                     None \<Rightarrow> Some (TargetPaneNotFound p)
                   | Some path \<Rightarrow> outside_stacks path)
         | GroupAnchor ids \<Rightarrow>
             (case find_group_anchor_path t source ids of
                Inl e \<Rightarrow> Some e
              | Inr path \<Rightarrow> outside_stacks path))"

section \<open>Placing\<close>

definition normalize_all_leaves :: "layout_node \<Rightarrow> layout_node option" where
  "normalize_all_leaves t = normalize_layout_tree t (set (list_leaf_pane_ids t))"

definition validate_layout_fit :: "layout_node \<Rightarrow> rect \<Rightarrow> pane_sizing \<Rightarrow> placement_error + layout_node" where
  "validate_layout_fit t tab_rect z =
     (if \<not> is_layout_within_rect t tab_rect z
      then Inl (DestinationTooSmall (compute_minimum_size t z) (rect_size tab_rect))
      else Inr t)"

definition insert_layout_node_beside_anchor ::
    "layout_node \<Rightarrow> layout_node \<Rightarrow> pane_placement_anchor \<Rightarrow> direction \<Rightarrow> layout_node option" where
  "insert_layout_node_beside_anchor t inserted beside dir =
     (let path =
        (case beside of
           TabAnchor \<Rightarrow> Some []
         | PaneAnchor p \<Rightarrow> find_pane_path t p
         | GroupAnchor ids \<Rightarrow> find_split_path_by_leaf_set t (filter (\<lambda>p. \<not> has_pane inserted p) ids))
      in Option.bind path (\<lambda>path.
         Option.bind
           (update_node_at_path
              (\<lambda>subtree. Split (with_equal_weights (compute_split_direction dir) (pair_in_direction dir subtree inserted)))
              t path)
           normalize_all_leaves))"

definition stack_panes_onto_target :: "layout_node \<Rightarrow> pane_id list \<Rightarrow> pane_id \<Rightarrow> (placement_error + layout_node) option" where
  "stack_panes_onto_target t sources target =
     (case add_panes_to_stack t target sources of
        None \<Rightarrow> None
      | Some (Inl e) \<Rightarrow> Some (Inl (TargetPaneNotFound target))
      | Some (Inr stacked) \<Rightarrow> map_option Inr (normalize_all_leaves stacked))"

definition remove_source_leaf :: "layout_node \<Rightarrow> pane_id \<Rightarrow> layout_node option option" where
  "remove_source_leaf t source =
     (case remove_pane_and_normalize t source of
        Inr remaining \<Rightarrow> Some (Some remaining)
      | Inl (LastPane _) \<Rightarrow> Some None
      | Inl (RemovePaneNotFound _) \<Rightarrow> None)"

definition place_pane_within_tree ::
    "layout_node \<Rightarrow> pane_id \<Rightarrow> placement_target \<Rightarrow> rect \<Rightarrow> pane_sizing \<Rightarrow> (placement_error + layout_node) option" where
  "place_pane_within_tree t source target layout_rect z =
     (case find_pane_path t source of
        None \<Rightarrow> Some (Inl (SourcePaneNotFound source))
      | Some source_path \<Rightarrow>
          (case target of
             Place_Swap other \<Rightarrow>
               if other = source then Some (Inr t)
               else (case find_pane_path t other of
                       None \<Rightarrow> Some (Inl (TargetPaneNotFound other))
                     | Some other_path \<Rightarrow>
                         Option.bind (update_node_at_path (\<lambda>_. Pane other) t source_path) (\<lambda>t'.
                         map_option (\<lambda>swapped. validate_layout_fit swapped layout_rect z)
                           (update_node_at_path (\<lambda>_. Pane source) t' other_path)))
           | Place_Insert beside dir \<Rightarrow>
               (case validate_placement_anchor t source beside of
                  Some e \<Rightarrow> Some (Inl e)
                | None \<Rightarrow>
                    (case remove_leaf t source of
                       (_, PaneNotFound) \<Rightarrow> None
                     | (_, SubtreeEmpty) \<Rightarrow> Some (Inr (Pane source))
                     | (removed, Removed) \<Rightarrow>
                         map_option (\<lambda>inserted. validate_layout_fit inserted layout_rect z)
                           (insert_layout_node_beside_anchor removed (Pane source) beside dir)))
           | Place_Stack other \<Rightarrow>
               if other = source then Some (Inr t)
               else if \<not> has_pane t other then Some (Inl (TargetPaneNotFound other))
               else
                 (case remove_leaf t source of
                    (removed, Removed) \<Rightarrow>
                      map_option
                        (\<lambda>stacked. case stacked of Inl e \<Rightarrow> Inl e | Inr t' \<Rightarrow> validate_layout_fit t' layout_rect z)
                        (stack_panes_onto_target removed [source] other)
                  | _ \<Rightarrow> None)))"

definition is_same_tab_placement_noop :: "layout_node \<Rightarrow> pane_id \<Rightarrow> placement_target \<Rightarrow> rect \<Rightarrow> pane_sizing \<Rightarrow> bool option" where
  "is_same_tab_placement_noop t source target tab_rect z =
     map_option (\<lambda>r. r = Inr t) (place_pane_within_tree t source target tab_rect z)"

definition place_pane_across_tabs ::
    "layout_node \<Rightarrow> pane_id \<Rightarrow> layout_node \<Rightarrow> placement_target \<Rightarrow> rect \<Rightarrow> pane_sizing
       \<Rightarrow> (placement_error + cross_tab_placement) option" where
  "place_pane_across_tabs source_tree source destination_tree target tab_rect z =
     (if has_pane destination_tree source then Some (Inl (PaneInBothTrees source))
      else case find_pane_path source_tree source of
        None \<Rightarrow> Some (Inl (SourcePaneNotFound source))
      | Some source_path \<Rightarrow>
          (let placed = (\<lambda>remaining t. map_sum id (\<lambda>t. \<lparr>placed_source_tree = remaining, placed_destination_tree = t\<rparr>)
                           (validate_layout_fit t tab_rect z))
           in case target of
             Place_Swap other \<Rightarrow>
               if has_pane source_tree other then Some (Inl (PaneInBothTrees other))
               else (case find_pane_path destination_tree other of
                       None \<Rightarrow> Some (Inl (TargetPaneNotFound other))
                     | Some other_path \<Rightarrow>
                         Option.bind (update_node_at_path (\<lambda>_. Pane other) source_tree source_path) (\<lambda>swapped_source.
                         map_option (placed (Some swapped_source))
                           (update_node_at_path (\<lambda>_. Pane source) destination_tree other_path)))
           | Place_Insert beside dir \<Rightarrow>
               (case validate_placement_anchor destination_tree source beside of
                  Some e \<Rightarrow> Some (Inl e)
                | None \<Rightarrow>
                    Option.bind (remove_source_leaf source_tree source) (\<lambda>remaining.
                    map_option (placed remaining) (insert_layout_node_beside_anchor destination_tree (Pane source) beside dir)))
           | Place_Stack other \<Rightarrow>
               (case stack_panes_onto_target destination_tree [source] other of
                  None \<Rightarrow> None
                | Some (Inl e) \<Rightarrow> Some (Inl e)
                | Some (Inr stacked) \<Rightarrow>
                    map_option (\<lambda>remaining. placed remaining stacked) (remove_source_leaf source_tree source))))"

definition place_docking_tree_in_tab ::
    "layout_node \<Rightarrow> layout_node \<Rightarrow> placement_target \<Rightarrow> rect \<Rightarrow> pane_sizing \<Rightarrow> (placement_error + layout_node) option" where
  "place_docking_tree_in_tab t docking target tab_rect z =
     (case list_leaf_pane_ids docking of
        [] \<Rightarrow> None
      | first # others \<Rightarrow>
          (case find (has_pane t) (first # others) of
             Some p \<Rightarrow> Some (Inl (PaneInBothTrees p))
           | None \<Rightarrow>
               (case target of
                  Place_Swap _ \<Rightarrow> Some (Inl (SourcePaneNotFound first))
                | Place_Insert beside dir \<Rightarrow>
                    (case validate_placement_anchor t first beside of
                       Some e \<Rightarrow> Some (Inl e)
                     | None \<Rightarrow>
                         map_option (\<lambda>placed. validate_layout_fit placed tab_rect z)
                           (insert_layout_node_beside_anchor t docking beside dir))
                | Place_Stack other \<Rightarrow>
                    map_option
                      (\<lambda>stacked. case stacked of Inl e \<Rightarrow> Inl e | Inr t' \<Rightarrow> validate_layout_fit t' tab_rect z)
                      (stack_panes_onto_target t (first # others) other))))"

section \<open>Destinations\<close>

record target_pane_slot =
  slot_pane_id :: pane_id
  slot_rect :: rect

record insertion_span =
  span_anchor :: pane_placement_anchor
  span_rect :: rect

record placement_destinations =
  target_pane_slots :: "target_pane_slot list"
  insertion_spans :: "insertion_span list"

text \<open>The smallest rectangle around the rectangles that cover cells.\<close>

definition compute_bounding_rect :: "rect list \<Rightarrow> rect option" where
  "compute_bounding_rect rects =
     (case filter (\<lambda>r. \<not> is_empty r) rects of
        [] \<Rightarrow> None
      | first # others \<Rightarrow>
          (let left_edge = fold (\<lambda>r e. min e (column (origin r))) others (column (origin first));
               top_edge = fold (\<lambda>r e. min e (row (origin r))) others (row (origin first));
               right_edge = fold (\<lambda>r e. max e (compute_right_edge r)) others (compute_right_edge first);
               bottom_edge = fold (\<lambda>r e. max e (compute_bottom_edge r)) others (compute_bottom_edge first)
           in Some (from_origin_and_size \<lparr>column = left_edge, row = top_edge\<rparr>
                \<lparr>column_count = right_edge - left_edge, row_count = bottom_edge - top_edge\<rparr>)))"

record insertion_span_walk =
  walk_source_pane_id :: pane_id
  walk_pane_rect_by_id :: "pane_id \<rightharpoonup> rect"
  walk_suppressed_pane_ids :: "pane_id set"
  walk_stack_headers :: "stack_header list"
  walk_all_pane_ids :: "pane_id list"
  walk_pane_spans :: "insertion_span list"
  walk_group_spans :: "insertion_span list"
  listed_group_pane_id_sets :: "pane_id list list"

definition collect_pane_span :: "pane_id \<Rightarrow> insertion_span_walk \<Rightarrow> insertion_span_walk" where
  "collect_pane_span p w =
     (if p = walk_source_pane_id w then w
      else case walk_pane_rect_by_id w p of
        None \<Rightarrow> w
      | Some r \<Rightarrow>
          if is_content_visible p r (walk_stack_headers w)
          then w\<lparr>walk_pane_spans := walk_pane_spans w @ [\<lparr>span_anchor = PaneAnchor p, span_rect = r\<rparr>]\<rparr>
          else w)"

definition collect_group_span :: "pane_id list \<Rightarrow> insertion_span_walk \<Rightarrow> insertion_span_walk" where
  "collect_group_span ids w =
     (if length ids < 2 \<or> sort ids = walk_all_pane_ids w \<or> sort ids \<in> set (listed_group_pane_id_sets w) \<or>
         (\<exists>p \<in> set ids. p \<in> walk_suppressed_pane_ids w)
      then w
      else case compute_bounding_rect (List.map_filter (walk_pane_rect_by_id w) ids) of
        None \<Rightarrow> w
      | Some r \<Rightarrow>
          w\<lparr>walk_group_spans := walk_group_spans w @ [\<lparr>span_anchor = GroupAnchor ids, span_rect = r\<rparr>],
            listed_group_pane_id_sets := listed_group_pane_id_sets w @ [sort ids]\<rparr>)"

fun collect_insertion_spans :: "layout_node \<Rightarrow> bool \<Rightarrow> insertion_span_walk \<Rightarrow> insertion_span_walk"
  and collect_child_spans :: "layout_node list \<Rightarrow> bool \<Rightarrow> insertion_span_walk \<Rightarrow> insertion_span_walk" where
  "collect_insertion_spans (Pane p) is_inside_stack w = (if \<not> is_inside_stack then collect_pane_span p w else w)"
| "collect_insertion_spans (Split (SplitNode d cs ws a)) is_inside_stack w =
     collect_child_spans cs (is_inside_stack \<or> d = Stacked)
       (if \<not> is_inside_stack then collect_group_span (list_leaf_pane_ids (Split (SplitNode d cs ws a))) w else w)"
| "collect_child_spans [] is_inside_stack w = w"
| "collect_child_spans (c # cs) is_inside_stack w =
     collect_child_spans cs is_inside_stack (collect_insertion_spans c is_inside_stack w)"

definition list_placement_destinations :: "layout_node \<Rightarrow> layout_solve \<Rightarrow> rect \<Rightarrow> pane_id \<Rightarrow> placement_destinations" where
  "list_placement_destinations t solve tab_rect source =
     (let all_pane_ids = sort (list_leaf_pane_ids t);
          walk = collect_insertion_spans t False
            \<lparr>walk_source_pane_id = source, walk_pane_rect_by_id = map_of (rev (pane_rects solve)),
             walk_suppressed_pane_ids = set (suppressed_pane_ids solve), walk_stack_headers = stack_headers solve,
             walk_all_pane_ids = all_pane_ids, walk_pane_spans = [], walk_group_spans = [], listed_group_pane_id_sets = []\<rparr>
      in \<lparr>target_pane_slots =
            map (\<lambda>(p, r). \<lparr>slot_pane_id = p, slot_rect = r\<rparr>)
              (filter (\<lambda>(p, r). p \<noteq> source \<and> \<not> is_empty r) (pane_rects solve)),
          insertion_spans =
            walk_pane_spans walk @ walk_group_spans walk @
            (if \<exists>p \<in> set all_pane_ids. p \<noteq> source then [\<lparr>span_anchor = TabAnchor, span_rect = tab_rect\<rparr>] else [])\<rparr>)"

definition list_shown_placement_destinations ::
    "layout_node \<Rightarrow> pane_id list \<Rightarrow> cell_size \<Rightarrow> pane_sizing \<Rightarrow> pane_id \<Rightarrow> placement_destinations" where
  "list_shown_placement_destinations t focus_history tab_size z source =
     (let tab_rect = from_size_at_origin tab_size; drawn = drawn_layout_tree t focus_history
      in list_placement_destinations drawn (solve_layout_with_sizing drawn tab_rect z) tab_rect source)"

definition anchor_pane_count :: "pane_placement_anchor \<Rightarrow> nat" where
  "anchor_pane_count beside =
     (case beside of PaneAnchor _ \<Rightarrow> 1 | GroupAnchor ids \<Rightarrow> length ids | TabAnchor \<Rightarrow> 2 ^ 64 - 1)"

definition find_insertion_at_point ::
    "(pane_placement_anchor \<times> rect) list \<Rightarrow> point \<Rightarrow> (pane_placement_anchor \<times> direction) option" where
  "find_insertion_at_point span_rects point =
     map_option (\<lambda>(beside, r). (beside, compute_nearest_edge_direction r point))
       (min_by_key (\<lambda>(beside, r). (compute_cell_count (rect_size r), anchor_pane_count beside))
          (filter (\<lambda>(_, r). is_point_inside r point) span_rects))"

end
