(* ===== verification/Placement_Correct.thy ===== *)
theory Placement_Correct
  imports Placement "HOL-Library.Sublist"
begin

text \<open>
  A placement moves exactly one pane: no pane is lost, duplicated or reordered beyond what the target
  says, nothing panics, and what a client is offered as a destination is a destination.
\<close>

section \<open>Nodes by their leaves\<close>

lemma find_split_in_subtree_Some:
  "find_split_in_subtree t wanted = Some path \<Longrightarrow>
     (\<exists>n. get_node_at_path t path = Some n \<and> sort (list_leaf_pane_ids n) = wanted) \<and>
     (\<forall>k < length path. \<forall>n. get_node_at_path t (take k path) = Some n \<longrightarrow> sort (list_leaf_pane_ids n) \<noteq> wanted)"
  "find_split_in_children cs i wanted = Some path \<Longrightarrow>
     \<exists>j rest. path = (i + j) # rest \<and> j < length cs \<and>
       (\<exists>n. get_node_at_path (cs ! j) rest = Some n \<and> sort (list_leaf_pane_ids n) = wanted) \<and>
       (\<forall>k < length rest. \<forall>n. get_node_at_path (cs ! j) (take k rest) = Some n \<longrightarrow> sort (list_leaf_pane_ids n) \<noteq> wanted)"
proof (induction t wanted and cs i wanted arbitrary: path and path rule: find_split_in_subtree_find_split_in_children.induct)
  case (1 q wanted)
  then show ?case by (auto split: if_splits)
next
  case (2 d cs ws a wanted)
  let ?t = "Split (SplitNode d cs ws a)"
  show ?case
  proof (cases "sort (list_leaf_pane_ids ?t) = wanted")
    case True
    then have "length (list_leaf_pane_ids ?t) = length wanted" by (metis length_sort)
    with True "2.prems" show ?thesis by (auto simp: Let_def)
  next
    case False
    then have other: "\<not> (length (list_leaf_pane_ids ?t) = length wanted \<and> sort (list_leaf_pane_ids ?t) = wanted)" by blast
    with "2.prems" have "find_split_in_children cs 0 wanted = Some path"
      by (simp add: Let_def del: list_leaf_pane_ids.simps split del: if_split)
    from "2.IH" [OF refl other this] obtain j rest where "path = j # rest" "j < length cs"
      "\<exists>n. get_node_at_path (cs ! j) rest = Some n \<and> sort (list_leaf_pane_ids n) = wanted"
      "\<forall>k < length rest. \<forall>n. get_node_at_path (cs ! j) (take k rest) = Some n \<longrightarrow> sort (list_leaf_pane_ids n) \<noteq> wanted"
      by auto
    with False show ?thesis by (auto simp: take_Cons' less_Suc_eq_0_disj split: if_splits)
  qed
next
  case (3 i wanted)
  then show ?case by simp
next
  case (4 c cs i wanted)
  show ?case
  proof (cases "find_split_in_subtree c wanted")
    case None
    with 4 obtain j rest where "path = (Suc i + j) # rest" "j < length cs"
      "\<exists>n. get_node_at_path (cs ! j) rest = Some n \<and> sort (list_leaf_pane_ids n) = wanted"
      "\<forall>k < length rest. \<forall>n. get_node_at_path (cs ! j) (take k rest) = Some n \<longrightarrow> sort (list_leaf_pane_ids n) \<noteq> wanted"
      by fastforce
    then show ?thesis by (intro exI [of _ "Suc j"] exI [of _ rest]) simp
  next
    case (Some rest)
    with 4 show ?thesis by (intro exI [of _ 0] exI [of _ rest]) auto
  qed
qed

lemma find_split_in_subtree_None:
  "find_split_in_subtree t wanted = None \<Longrightarrow> get_node_at_path t path = Some n \<Longrightarrow> sort (list_leaf_pane_ids n) \<noteq> wanted"
  "find_split_in_children cs i wanted = None \<Longrightarrow> j < length cs \<Longrightarrow> get_node_at_path (cs ! j) path = Some n \<Longrightarrow>
     sort (list_leaf_pane_ids n) \<noteq> wanted"
proof (induction t wanted and cs i wanted arbitrary: path and j path rule: find_split_in_subtree_find_split_in_children.induct)
  case (1 q wanted)
  then show ?case by (cases path) (auto split: if_splits)
next
  case (2 d cs ws a wanted)
  then show ?case by (cases path) (auto simp: Let_def split: if_splits)
next
  case (3 i wanted)
  then show ?case by simp
next
  case (4 c cs i wanted)
  then show ?case by (cases j) (auto split: option.splits)
qed

lemma find_split_path_Some:
  assumes "find_split_path_by_leaf_set t ids = Some path"
  shows "\<exists>n. get_node_at_path t path = Some n \<and> mset (list_leaf_pane_ids n) = mset ids"
  using find_split_in_subtree_Some(1) [OF assms [unfolded find_split_path_by_leaf_set_def]] by (metis mset_sort)

lemma find_split_path_exists:
  assumes "get_node_at_path t path = Some n" "mset (list_leaf_pane_ids n) = mset ids"
  shows "\<exists>path'. find_split_path_by_leaf_set t ids = Some path'"
proof -
  have "sort (list_leaf_pane_ids n) = sort ids" using assms(2) by (intro properties_for_sort) simp_all
  then show ?thesis
    using find_split_in_subtree_None(1) [OF _ assms(1), of "sort ids"]
    by (cases "find_split_in_subtree t (sort ids)") (auto simp: find_split_path_by_leaf_set_def)
qed

section \<open>Removal keeps the other nodes\<close>

lemma remove_leaf_unchanged: "snd (remove_leaf t p) = PaneNotFound \<Longrightarrow> fst (remove_leaf t p) = t"
  using remove_leaf_ok [of p t] by (cases "remove_leaf t p") (auto simp: removal_ok_def split: pane_removal_status.splits)

lemma removed_children:
  assumes "remove_leaf (Split (SplitNode d cs ws a)) p = (t', Removed)"
  obtains (child) k c where "k < length cs" "remove_leaf (cs ! k) p = (c, Removed)" "t' = Split (SplitNode d (cs[k := c]) ws a)"
  | (gone) k ws' a' where "k < length cs" "list_leaf_pane_ids (cs ! k) = [p]" "t' = Split (SplitNode d (remove_nth k cs) ws' a')"
proof -
  obtain cs' r where r: "remove_leaf_in_children cs 0 p = (cs', r)" by fastforce
  show thesis
    using r
  proof (cases rule: remove_leaf_in_children_cases)
    case absent
    with assms r show thesis by simp
  next
    case (found k c st)
    have "map (\<lambda>c. fst (remove_leaf c p)) (take k cs) = take k cs"
      using found(6) remove_leaf_unchanged by (intro map_idI) blast
    then have cs': "cs' = cs[k := c]" using found(1,5) by (simp add: upd_conv_take_nth_drop)
    show thesis
    proof (cases st)
      case Removed
      with assms r found(2) cs' have "t' = Split (SplitNode d (cs[k := c]) ws a)" by simp
      with found(1,4) Removed child show thesis by blast
    next
      case SubtreeEmpty
      have "list_leaf_pane_ids (cs ! k) = [p]"
        using remove_leaf_ok [of p "cs ! k"] found(4) SubtreeEmpty by (simp add: removal_ok_def)
      moreover have "remove_nth k cs' = remove_nth k cs" using found(1) by (simp add: cs' remove_nth_def)
      then have "\<exists>ws' a'. t' = Split (SplitNode d (remove_nth k cs) ws' a')"
        using assms r found(2) SubtreeEmpty
        by (auto simp: Let_def set_active_child_after_removal_def split: if_splits)
      ultimately show thesis using found(1) gone by blast
    qed (use found(3) in simp)
  qed
qed

text \<open>A node that holds more than the removed pane is still there, without it.\<close>

lemma distinct_concat_disjoint:
  assumes "distinct (concat xss)" "i < k" "k < length xss"
  shows "set (xss ! i) \<inter> set (xss ! k) = {}"
proof -
  have "concat xss = concat (take k xss) @ xss ! k @ concat (drop (Suc k) xss)"
    using id_take_nth_drop [OF assms(3)] by (metis concat.simps(2) concat_append)
  then have "set (concat (take k xss)) \<inter> set (xss ! k) = {}" using assms(1) by auto
  moreover have "xss ! i \<in> set (take k xss)" using assms(2,3) by (auto simp: in_set_conv_nth)
  ultimately show ?thesis by (auto simp: set_concat)
qed

lemma distinct_children_disjoint:
  assumes "distinct (concat (map list_leaf_pane_ids cs))" "i < length cs" "k < length cs" "p \<in> set (list_leaf_pane_ids (cs ! i))" "i \<noteq> k"
  shows "p \<notin> set (list_leaf_pane_ids (cs ! k))"
  using distinct_concat_disjoint [OF assms(1), of i k] distinct_concat_disjoint [OF assms(1), of k i] assms(2-5)
  by (cases "i < k") auto

lemma distinct_child: "distinct (concat (map list_leaf_pane_ids cs)) \<Longrightarrow> k < length cs \<Longrightarrow> distinct (list_leaf_pane_ids (cs ! k))"
  by (induction cs arbitrary: k) (auto simp: nth_Cons' split: if_splits)

lemma remove_nth_index:
  assumes "i < length cs" "i \<noteq> k"
  shows "\<exists>j < length (remove_nth k cs). remove_nth k cs ! j = cs ! i"
proof (cases "i < k")
  case True
  then show ?thesis using assms by (intro exI [of _ i]) (simp add: remove_nth_def nth_append)
next
  case False
  then have "i - 1 - min (length cs) k + Suc k = i" "i - 1 \<ge> min (length cs) k" using assms by auto
  then show ?thesis using False assms by (intro exI [of _ "i - 1"]) (simp add: remove_nth_def nth_append)
qed

lemma node_leaves_subset: "get_node_at_path t path = Some n \<Longrightarrow> set (list_leaf_pane_ids n) \<subseteq> set (list_leaf_pane_ids t)"
  using leaves_at_path by fastforce

lemma remove_leaf_keeps_nodes:
  assumes "remove_leaf t p = (t', Removed)" "distinct (list_leaf_pane_ids t)" "get_node_at_path t path = Some n"
    and "\<not> set (list_leaf_pane_ids n) \<subseteq> {p}"
  shows "\<exists>path' n'. get_node_at_path t' path' = Some n' \<and> list_leaf_pane_ids n' = remove1 p (list_leaf_pane_ids n)"
  using assms
proof (induction t arbitrary: t' path rule: layout_node_induct)
  case (Pane q)
  then show ?case by (simp split: if_splits)
next
  case (Split d cs ws a)
  show ?case
  proof (cases path)
    case Nil
    then have "n = Split (SplitNode d cs ws a)" using Split.prems(3) by simp
    with remove_leaf_ok [of p n] Split.prems(1) show ?thesis by (intro exI [of _ "[]"] exI [of _ t']) (simp add: removal_ok_def)
  next
    case (Cons i rest)
    then have i: "i < length cs" "get_node_at_path (cs ! i) rest = Some n" using Split.prems(3) by (simp_all split: if_splits)
    have dist: "distinct (concat (map list_leaf_pane_ids cs))" using Split.prems(2) by simp
    have elsewhere: "remove1 p (list_leaf_pane_ids n) = list_leaf_pane_ids n" if "k < length cs" "p \<in> set (list_leaf_pane_ids (cs ! k))" "i \<noteq> k" for k
      using distinct_children_disjoint [OF dist that(1) i(1) that(2)] that(3) node_leaves_subset [OF i(2)]
      by (intro remove1_idem) blast
    from Split.prems(1) show ?thesis
    proof (cases rule: removed_children)
      case (child k c)
      show ?thesis
      proof (cases "i = k")
        case True
        have "distinct (list_leaf_pane_ids (cs ! k))" using distinct_child [OF dist child(1)] .
        with Split.IH [of "cs ! k"] child True i(2) Split.prems(4) obtain path' n' where
          "get_node_at_path c path' = Some n'" "list_leaf_pane_ids n' = remove1 p (list_leaf_pane_ids n)"
          by (metis nth_mem)
        with child show ?thesis by (intro exI [of _ "k # path'"] exI [of _ n']) simp
      next
        case False
        have "p \<in> set (list_leaf_pane_ids (cs ! k))" using remove_leaf_ok [of p "cs ! k"] child(2) by (simp add: removal_ok_def)
        with elsewhere [OF child(1)] False i child show ?thesis by (intro exI [of _ path] exI [of _ n]) (simp add: Cons)
      qed
    next
      case (gone k ws' a')
      have ik: "i \<noteq> k" using Split.prems(4) node_leaves_subset [OF i(2)] gone(2) by auto
      then obtain j where "j < length (remove_nth k cs)" "remove_nth k cs ! j = cs ! i" using remove_nth_index [OF i(1)] by blast
      moreover have "remove1 p (list_leaf_pane_ids n) = list_leaf_pane_ids n" using elsewhere [OF gone(1)] gone(2) ik by simp
      ultimately show ?thesis using i gone(3) by (intro exI [of _ "j # rest"] exI [of _ n]) simp
    qed
  qed
qed

section \<open>Where the pane lands\<close>

text \<open>A list with new ids put on one side of a run of it.\<close>

definition placed_beside :: "direction \<Rightarrow> pane_id list \<Rightarrow> pane_id list \<Rightarrow> pane_id list \<Rightarrow> pane_id list \<Rightarrow> bool" where
  "placed_beside dir run new ids ids' \<longleftrightarrow>
     (\<exists>before after. ids = before @ run @ after \<and>
        ids' = before @ (if dir = Right \<or> dir = Down then run @ new else new @ run) @ after)"

lemma placed_beside_mset: "placed_beside dir run new ids ids' \<Longrightarrow> mset ids' = mset ids + mset new"
  by (auto simp: placed_beside_def split: if_splits)

lemma leaves_of_pair:
  "concat (map list_leaf_pane_ids (pair_in_direction dir n m)) =
     (if dir = Right \<or> dir = Down then list_leaf_pane_ids n @ list_leaf_pane_ids m else list_leaf_pane_ids m @ list_leaf_pane_ids n)"
  by (cases dir) simp_all

lemma normalize_all_leaves_Some:
  assumes "list_leaf_pane_ids t \<noteq> []"
  shows "\<exists>t'. normalize_all_leaves t = Some t' \<and> list_leaf_pane_ids t' = list_leaf_pane_ids t"
  using normalize_all_live [OF assms] by (auto simp: normalize_all_leaves_def)

text \<open>The leaves an anchor names, of the ones that are not inserted.\<close>

definition anchor_run :: "pane_placement_anchor \<Rightarrow> pane_id set \<Rightarrow> pane_id list \<Rightarrow> pane_id list \<Rightarrow> bool" where
  "anchor_run beside inserted ids run \<longleftrightarrow>
     (case beside of
        TabAnchor \<Rightarrow> run = ids
      | PaneAnchor p \<Rightarrow> run = [p]
      | GroupAnchor group_ids \<Rightarrow> mset run = mset (filter (\<lambda>p. p \<notin> inserted) group_ids))"

lemma insert_beside_anchor_Some:
  assumes "get_node_at_path t path = Some n" "anchor_run beside (set (list_leaf_pane_ids inserted)) (list_leaf_pane_ids t) (list_leaf_pane_ids n)"
    and "list_leaf_pane_ids inserted \<noteq> []"
  shows "\<exists>t' run. insert_layout_node_beside_anchor t inserted beside dir = Some t' \<and>
    anchor_run beside (set (list_leaf_pane_ids inserted)) (list_leaf_pane_ids t) run \<and>
    placed_beside dir run (list_leaf_pane_ids inserted) (list_leaf_pane_ids t) (list_leaf_pane_ids t')"
proof -
  let ?path = "case beside of TabAnchor \<Rightarrow> Some [] | PaneAnchor p \<Rightarrow> find_pane_path t p
    | GroupAnchor ids \<Rightarrow> find_split_path_by_leaf_set t (filter (\<lambda>p. \<not> has_pane inserted p) ids)"
  let ?f = "\<lambda>subtree. Split (with_equal_weights (compute_split_direction dir) (pair_in_direction dir subtree inserted))"
  have "\<exists>path' n'. ?path = Some path' \<and> get_node_at_path t path' = Some n' \<and>
      anchor_run beside (set (list_leaf_pane_ids inserted)) (list_leaf_pane_ids t) (list_leaf_pane_ids n')"
  proof (cases beside)
    case (PaneAnchor p)
    then have "has_pane t p" using assms(2) leaves_at_path [OF assms(1)] by (simp add: anchor_run_def has_pane_iff)
    then obtain path' where "find_pane_path t p = Some path'" using find_pane_path_iff by blast
    with find_pane_path_props(1) [OF this] PaneAnchor show ?thesis by (simp add: anchor_run_def)
  next
    case (GroupAnchor ids)
    let ?ids = "filter (\<lambda>p. \<not> has_pane inserted p) ids"
    have "mset (list_leaf_pane_ids n) = mset ?ids" using assms(2) GroupAnchor by (simp add: anchor_run_def has_pane_iff)
    then obtain path' where path': "find_split_path_by_leaf_set t ?ids = Some path'" using find_split_path_exists [OF assms(1)] by blast
    with find_split_path_Some [OF path'] GroupAnchor show ?thesis by (auto simp: anchor_run_def has_pane_iff)
  qed (simp add: anchor_run_def)
  then obtain path' n' where path': "?path = Some path'" "get_node_at_path t path' = Some n'"
    and run: "anchor_run beside (set (list_leaf_pane_ids inserted)) (list_leaf_pane_ids t) (list_leaf_pane_ids n')" by blast
  obtain u where u: "update_node_at_path ?f t path' = Some u" using update_node_at_path_Some [OF path'(2), of ?f] by blast
  have leaves: "list_leaf_pane_ids u = leaves_before t path' @ list_leaf_pane_ids (?f n') @ leaves_after t path'"
    using leaves_update [OF u path'(2)] .
  then have beside: "placed_beside dir (list_leaf_pane_ids n') (list_leaf_pane_ids inserted) (list_leaf_pane_ids t) (list_leaf_pane_ids u)"
    using leaves_at_path [OF path'(2)] by (auto simp: placed_beside_def with_equal_weights_leaves leaves_of_pair)
  have "list_leaf_pane_ids u \<noteq> []" using leaves assms(3) by (simp add: with_equal_weights_leaves leaves_of_pair)
  then obtain t' where "normalize_all_leaves u = Some t'" "list_leaf_pane_ids t' = list_leaf_pane_ids u" using normalize_all_leaves_Some by blast
  with u path'(1) run beside show ?thesis
    by (intro exI [of _ t'] exI [of _ "list_leaf_pane_ids n'"]) (simp add: insert_layout_node_beside_anchor_def)
qed

section \<open>Valid anchors\<close>

lemma check_group_pane_ids_None:
  "check_group_pane_ids t seen ids = None \<longleftrightarrow> distinct ids \<and> set ids \<inter> seen = {} \<and> set ids \<subseteq> set (list_leaf_pane_ids t)"
  by (induction ids arbitrary: seen) (auto simp: has_pane_iff)

lemma find_group_anchor_path_Inr:
  assumes "find_group_anchor_path t source ids = Inr path"
  shows "distinct ids \<and> set ids \<subseteq> set (list_leaf_pane_ids t) \<and> \<not> set ids \<subseteq> {source} \<and>
    (\<exists>n. get_node_at_path t path = Some n \<and> mset (list_leaf_pane_ids n) = mset ids)"
  using assms find_split_path_Some [of t ids path]
  by (auto simp: find_group_anchor_path_def check_group_pane_ids_None list_all_iff split: if_splits option.splits)

text \<open>A valid anchor names a node that is there when the source is not.\<close>

lemma valid_anchor_in_tree:
  assumes "validate_placement_anchor t source beside = None" "source \<notin> set (list_leaf_pane_ids t)" "source \<in> inserted"
    and "inserted \<inter> set (list_leaf_pane_ids t) = {}"
  shows "\<exists>path n. get_node_at_path t path = Some n \<and> anchor_run beside inserted (list_leaf_pane_ids t) (list_leaf_pane_ids n)"
proof (cases beside)
  case (PaneAnchor p)
  then obtain path where "find_pane_path t p = Some path"
    using assms(1) by (auto simp: validate_placement_anchor_def Let_def split: if_splits option.splits)
  from find_pane_path_props(1) [OF this] PaneAnchor show ?thesis
    by (intro exI [of _ path] exI [of _ "Pane p"]) (simp add: anchor_run_def)
next
  case (GroupAnchor ids)
  then obtain path where "find_group_anchor_path t source ids = Inr path"
    using assms(1) by (auto simp: validate_placement_anchor_def Let_def split: sum.splits)
  from find_group_anchor_path_Inr [OF this] obtain n where n: "set ids \<subseteq> set (list_leaf_pane_ids t)"
    "get_node_at_path t path = Some n" "mset (list_leaf_pane_ids n) = mset ids" by blast
  have "filter (\<lambda>p. p \<notin> inserted) ids = ids" using n(1) assms(4) by (auto intro: filter_True)
  with n GroupAnchor show ?thesis by (auto simp: anchor_run_def)
next
  case TabAnchor
  then show ?thesis by (intro exI [of _ "[]"] exI [of _ t]) (simp add: anchor_run_def)
qed

lemma valid_anchor_after_removal:
  assumes valid: "validate_placement_anchor t source beside = None" and dist: "distinct (list_leaf_pane_ids t)"
    and removed: "remove_leaf t source = (t', Removed)"
  shows "\<exists>path n. get_node_at_path t' path = Some n \<and> anchor_run beside {source} (list_leaf_pane_ids t') (list_leaf_pane_ids n)"
proof (cases beside)
  case (PaneAnchor p)
  then have "p \<noteq> source" "p \<in> set (list_leaf_pane_ids t)"
    using valid find_pane_path_None(1) [of t p] by (auto simp: validate_placement_anchor_def Let_def split: if_splits option.splits)
  then have "has_pane t' p" using remove_leaf_ok [of source t] removed by (simp add: removal_ok_def has_pane_iff)
  then obtain path where "find_pane_path t' p = Some path" using find_pane_path_iff by blast
  from find_pane_path_props(1) [OF this] PaneAnchor show ?thesis
    by (intro exI [of _ path] exI [of _ "Pane p"]) (simp add: anchor_run_def)
next
  case (GroupAnchor ids)
  then obtain path where "find_group_anchor_path t source ids = Inr path"
    using valid by (auto simp: validate_placement_anchor_def Let_def split: sum.splits)
  from find_group_anchor_path_Inr [OF this] obtain n where n: "distinct ids" "\<not> set ids \<subseteq> {source}"
    "get_node_at_path t path = Some n" "mset (list_leaf_pane_ids n) = mset ids" by blast
  have "\<not> set (list_leaf_pane_ids n) \<subseteq> {source}" using n(2) mset_eq_setD [OF n(4)] by simp
  from remove_leaf_keeps_nodes [OF removed dist n(3) this] obtain path' n' where
    n': "get_node_at_path t' path' = Some n'" "list_leaf_pane_ids n' = remove1 source (list_leaf_pane_ids n)" by blast
  have "mset (list_leaf_pane_ids n') = mset (remove1 source ids)" using n'(2) n(4) by simp
  also have "remove1 source ids = filter (\<lambda>p. p \<notin> {source}) ids" by (simp add: distinct_remove1_removeAll [OF n(1)] removeAll_filter_not_eq neq_commute)
  finally show ?thesis using n'(1) GroupAnchor by (auto simp: anchor_run_def)
next
  case TabAnchor
  then show ?thesis by (intro exI [of _ "[]"] exI [of _ t']) (simp add: anchor_run_def)
qed

lemma only_leaf_anchor:
  assumes "validate_placement_anchor t source beside = None" "list_leaf_pane_ids t = [source]"
  shows "beside = TabAnchor"
proof (cases beside)
  case (PaneAnchor p)
  then show ?thesis using assms find_pane_path_None(1) [of t p] by (auto simp: validate_placement_anchor_def Let_def split: if_splits option.splits)
next
  case (GroupAnchor ids)
  then obtain path where "find_group_anchor_path t source ids = Inr path"
    using assms(1) by (auto simp: validate_placement_anchor_def Let_def split: sum.splits)
  from find_group_anchor_path_Inr [OF this] assms(2) show ?thesis by auto
qed

section \<open>Stacking\<close>

lemma stack_panes_onto_target_Some:
  assumes "has_pane t target" "sources \<noteq> []"
  shows "\<exists>t' before members after. stack_panes_onto_target t sources target = Some (Inr t') \<and> target \<in> set members \<and>
    list_leaf_pane_ids t = before @ members @ after \<and> list_leaf_pane_ids t' = before @ members @ sources @ after"
proof -
  have "\<exists>u before members after. add_panes_to_stack t target sources = Some (Inr u) \<and> target \<in> set members \<and>
    list_leaf_pane_ids t = before @ members @ after \<and> list_leaf_pane_ids u = before @ members @ sources @ after"
  proof (cases "find_containing_stack t target")
    case None
    obtain path where path: "find_pane_path t target = Some path" using assms(1) find_pane_path_iff by blast
    note at = find_pane_path_props(1) [OF path, THEN conjunct1]
    let ?f = "\<lambda>_. Split (from_stacked_pane_ids (target # sources) 0)"
    obtain u where u: "update_node_at_path ?f t path = Some u" using update_node_at_path_Some [OF at, of ?f] by blast
    then have "add_panes_to_stack t target sources = Some (Inr u)" using assms None path by (simp add: add_panes_to_stack_def)
    with leaves_update [OF u at] leaves_at_path [OF at] show ?thesis
      by (intro exI [of _ u] exI [of _ "leaves_before t path"] exI [of _ "[target]"] exI [of _ "leaves_after t path"]) simp
  next
    case (Some path)
    then obtain st where st: "get_node_at_path t path = Some (Split st)" "direction st = Stacked" "target \<in> set (list_leaf_pane_ids (Split st))"
      by (rule find_containing_stack_pane)
    obtain u where u: "update_node_at_path (push_panes sources) t path = Some u"
      using update_node_at_path_Some [OF st(1), of "push_panes sources"] by blast
    then have "add_panes_to_stack t target sources = Some (Inr u)" using assms Some by (simp add: add_panes_to_stack_def)
    with leaves_update [OF u st(1)] leaves_at_path [OF st(1)] push_panes_leaves [OF st(2), of sources] st(3) show ?thesis
      by (intro exI [of _ u] exI [of _ "leaves_before t path"] exI [of _ "list_leaf_pane_ids (Split st)"] exI [of _ "leaves_after t path"]) simp
  qed
  then obtain u before members after where u: "add_panes_to_stack t target sources = Some (Inr u)" "target \<in> set members"
    "list_leaf_pane_ids t = before @ members @ after" "list_leaf_pane_ids u = before @ members @ sources @ after" by blast
  have "list_leaf_pane_ids u \<noteq> []" using u(2,4) by auto
  then obtain t' where "normalize_all_leaves u = Some t'" "list_leaf_pane_ids t' = list_leaf_pane_ids u" using normalize_all_leaves_Some by blast
  with u show ?thesis by (auto simp: stack_panes_onto_target_def)
qed

section \<open>Swapping\<close>

lemma get_leaf_path_neq:
  assumes "get_node_at_path t path1 = Some (Pane a)" "get_node_at_path t path2 = Some (Pane b)"
    and "update_node_at_path (\<lambda>_. Pane c) t path1 = Some u" "path1 \<noteq> path2"
  shows "get_node_at_path u path2 = Some (Pane b) \<and> length (leaves_before u path2) = length (leaves_before t path2)"
  using assms
proof (induction path1 arbitrary: t u path2)
  case Nil
  then show ?case by (cases path2) simp_all
next
  case (Cons i path1)
  from Cons.prems(3) obtain d cs ws e v where t: "t = Split (SplitNode d cs ws e)" "i < length cs"
    "update_node_at_path (\<lambda>_. Pane c) (cs ! i) path1 = Some v" "u = Split (SplitNode d (cs[i := v]) ws e)"
    by (rule update_Cons_cases)
  have at: "get_node_at_path (cs ! i) path1 = Some (Pane a)" using Cons.prems(1) t by simp
  have "length (list_leaf_pane_ids v) = length (list_leaf_pane_ids (cs ! i))"
    using leaves_update [OF t(3) at] leaves_at_path [OF at] by simp
  then have len: "map (length \<circ> list_leaf_pane_ids) (cs[i := v]) = map (length \<circ> list_leaf_pane_ids) cs"
    using t(2) by (simp add: map_update) (metis list_update_id comp_apply nth_map)
  have before: "length (concat (map list_leaf_pane_ids (take j (cs[i := v])))) = length (concat (map list_leaf_pane_ids (take j cs)))" for j
    using arg_cong [OF len, of "take j"] by (simp add: length_concat take_map comp_def)
  obtain j rest where p2: "path2 = j # rest" using Cons.prems(2) t(1) by (cases path2) auto
  then have j: "j < length cs" "get_node_at_path (cs ! j) rest = Some (Pane b)" using Cons.prems(2) t(1) by (simp_all split: if_splits)
  show ?case
  proof (cases "i = j")
    case True
    with Cons.IH [OF at _ t(3), of rest] j p2 Cons.prems(4) t before [of j] show ?thesis by simp
  next
    case False
    with j p2 t before [of j] show ?thesis by simp
  qed
qed

lemma leaf_nth:
  assumes "get_node_at_path t path = Some (Pane a)"
  shows "list_leaf_pane_ids t ! length (leaves_before t path) = a \<and> length (leaves_before t path) < length (list_leaf_pane_ids t)"
  using leaves_at_path [OF assms] by simp

lemma leaf_update:
  assumes "get_node_at_path t path = Some (Pane a)" "update_node_at_path (\<lambda>_. Pane c) t path = Some u"
  shows "list_leaf_pane_ids u = (list_leaf_pane_ids t)[length (leaves_before t path) := c]"
  using leaves_update [OF assms(2,1)] leaves_at_path [OF assms(1)] by (simp add: list_update_append)

text \<open>The two panes change places and every other leaf stays.\<close>

definition swapped_id :: "pane_id \<Rightarrow> pane_id \<Rightarrow> pane_id \<Rightarrow> pane_id" where
  "swapped_id p q x = (if x = p then q else if x = q then p else x)"

lemma map_swapped_id:
  assumes "distinct xs" "i < length xs" "k < length xs" "i \<noteq> k"
  shows "xs[i := xs ! k, k := xs ! i] = map (swapped_id (xs ! i) (xs ! k)) xs"
  using assms by (intro nth_equalityI) (auto simp: swapped_id_def nth_list_update nth_eq_iff_index_eq)

lemma mset_swapped_id:
  assumes "distinct xs" "p \<in> set xs" "q \<in> set xs"
  shows "mset (map (swapped_id p q) xs) = mset xs"
proof -
  have "inj (swapped_id p q)" by (auto simp: inj_def swapped_id_def split: if_splits)
  then have "distinct (map (swapped_id p q) xs)" using assms(1) by (simp add: distinct_map) (rule inj_on_subset, assumption, simp)
  moreover have "set (map (swapped_id p q) xs) = set xs"
    using assms(2,3) by (force simp: swapped_id_def image_iff split: if_splits)
  ultimately show ?thesis using assms(1) by (metis set_eq_iff_mset_eq_distinct)
qed

lemma swap_leaves_Some:
  assumes dist: "distinct (list_leaf_pane_ids t)" and paths: "find_pane_path t p = Some path1" "find_pane_path t q = Some path2" "p \<noteq> q"
  shows "\<exists>u v. update_node_at_path (\<lambda>_. Pane q) t path1 = Some u \<and> update_node_at_path (\<lambda>_. Pane p) u path2 = Some v \<and>
    list_leaf_pane_ids v = map (swapped_id p q) (list_leaf_pane_ids t)"
proof -
  let ?i = "length (leaves_before t path1)" and ?k = "length (leaves_before t path2)" and ?xs = "list_leaf_pane_ids t"
  have at: "get_node_at_path t path1 = Some (Pane p)" "get_node_at_path t path2 = Some (Pane q)"
    using find_pane_path_props(1) paths by blast+
  obtain u where u: "update_node_at_path (\<lambda>_. Pane q) t path1 = Some u" using update_node_at_path_Some [OF at(1)] by blast
  have "path1 \<noteq> path2" using at paths(3) by auto
  from get_leaf_path_neq [OF at u this] have at': "get_node_at_path u path2 = Some (Pane q)" "length (leaves_before u path2) = ?k" by simp_all
  obtain v where v: "update_node_at_path (\<lambda>_. Pane p) u path2 = Some v" using update_node_at_path_Some [OF at'(1)] by blast
  have xs: "?xs ! ?i = p" "?i < length ?xs" "?xs ! ?k = q" "?k < length ?xs"
    using leaf_nth [OF at(1)] leaf_nth [OF at(2)] by simp_all
  have "?i \<noteq> ?k" using xs paths(3) by metis
  then have "list_leaf_pane_ids v = map (swapped_id p q) ?xs"
    using leaf_update [OF at(1) u] leaf_update [OF at'(1) v] at'(2) map_swapped_id [OF dist xs(2,4)] xs(1,3) by simp
  with u v show ?thesis by blast
qed

section \<open>Placements within a tree\<close>

text \<open>What a placement makes of the leaves of a tree, in layout order.\<close>

definition leaves_placed :: "pane_id \<Rightarrow> placement_target \<Rightarrow> pane_id list \<Rightarrow> pane_id list \<Rightarrow> bool" where
  "leaves_placed source target ids ids' \<longleftrightarrow>
     (case target of
        Place_Swap other \<Rightarrow> ids' = map (swapped_id source other) ids
      | Place_Insert beside dir \<Rightarrow>
          (\<exists>run. anchor_run beside {source} (remove1 source ids) run \<and> placed_beside dir run [source] (remove1 source ids) ids')
      | Place_Stack other \<Rightarrow>
          if other = source then ids' = ids
          else (\<exists>before members after. other \<in> set members \<and> remove1 source ids = before @ members @ after \<and>
                  ids' = before @ members @ [source] @ after))"

text \<open>A target that cannot be placed at, whatever the size of the tab.\<close>

definition target_refused :: "layout_node \<Rightarrow> pane_id \<Rightarrow> placement_target \<Rightarrow> placement_error option" where
  "target_refused t source target =
     (case target of
        Place_Swap other \<Rightarrow> if has_pane t other then None else Some (TargetPaneNotFound other)
      | Place_Stack other \<Rightarrow> if has_pane t other then None else Some (TargetPaneNotFound other)
      | Place_Insert beside dir \<Rightarrow> validate_placement_anchor t source beside)"

lemma validate_layout_fit_cases:
  "validate_layout_fit t r z =
     (if is_layout_within_rect t r z then Inr t else Inl (DestinationTooSmall (compute_minimum_size t z) (rect_size r)))"
  by (simp add: validate_layout_fit_def)

lemma swapped_id_same: "map (swapped_id p p) xs = xs"
  by (rule map_idI) (simp add: swapped_id_def)

text \<open>The outcome of a placement that gives a tree.\<close>

definition placed_as :: "layout_node \<Rightarrow> pane_id \<Rightarrow> placement_target \<Rightarrow> rect \<Rightarrow> pane_sizing \<Rightarrow> layout_node \<Rightarrow> bool" where
  "placed_as t source target r z t' \<longleftrightarrow>
     leaves_placed source target (list_leaf_pane_ids t) (list_leaf_pane_ids t') \<and>
     (place_pane_within_tree t source target r z = Some (validate_layout_fit t' r z) \<or>
      place_pane_within_tree t source target r z = Some (Inr t') \<and> (t' = t \<or> t' = Pane source \<and> list_leaf_pane_ids t = [source]))"

lemma remove_leaf_present:
  assumes "has_pane t source"
  obtains (removed) t' where "remove_leaf t source = (t', Removed)" "list_leaf_pane_ids t' = remove1 source (list_leaf_pane_ids t)"
  | (only) t' where "remove_leaf t source = (t', SubtreeEmpty)" "list_leaf_pane_ids t = [source]"
  using assms remove_leaf_ok [of source t]
  by (cases "remove_leaf t source"; cases "snd (remove_leaf t source)") (auto simp: removal_ok_def has_pane_iff)

lemma place_swap:
  assumes dist: "distinct (list_leaf_pane_ids t)" and path: "find_pane_path t source = Some path" and other: "has_pane t other"
  shows "\<exists>t'. placed_as t source (Place_Swap other) r z t'"
proof (cases "other = source")
  case True
  then show ?thesis using path by (intro exI [of _ t]) (simp add: placed_as_def place_pane_within_tree_def leaves_placed_def swapped_id_same)
next
  case False
  obtain path2 where path2: "find_pane_path t other = Some path2" using other find_pane_path_iff by blast
  with swap_leaves_Some [OF dist path path2] False obtain u v where "update_node_at_path (\<lambda>_. Pane other) t path = Some u"
    "update_node_at_path (\<lambda>_. Pane source) u path2 = Some v"
    "list_leaf_pane_ids v = map (swapped_id source other) (list_leaf_pane_ids t)" by blast
  with False path path2 show ?thesis by (intro exI [of _ v]) (simp add: placed_as_def place_pane_within_tree_def leaves_placed_def)
qed

lemma place_insert:
  assumes dist: "distinct (list_leaf_pane_ids t)" and source: "has_pane t source" and path: "find_pane_path t source = Some path"
    and valid: "validate_placement_anchor t source beside = None"
  shows "\<exists>t'. placed_as t source (Place_Insert beside dir) r z t'"
  using source
proof (cases rule: remove_leaf_present)
  case (only t')
  have "leaves_placed source (Place_Insert beside dir) (list_leaf_pane_ids t) [source]"
    using only_leaf_anchor [OF valid only(2)] only(2) by (simp add: leaves_placed_def anchor_run_def placed_beside_def)
  with only path valid show ?thesis by (intro exI [of _ "Pane source"]) (simp add: placed_as_def place_pane_within_tree_def)
next
  case (removed u)
  obtain path' n where n: "get_node_at_path u path' = Some n" "anchor_run beside {source} (list_leaf_pane_ids u) (list_leaf_pane_ids n)"
    using valid_anchor_after_removal [OF valid dist removed(1)] by blast
  obtain t' run where "insert_layout_node_beside_anchor u (Pane source) beside dir = Some t'"
    "anchor_run beside {source} (list_leaf_pane_ids u) run" "placed_beside dir run [source] (list_leaf_pane_ids u) (list_leaf_pane_ids t')"
    using insert_beside_anchor_Some [OF n(1), of beside "Pane source" dir] n(2) by auto
  with removed path valid show ?thesis by (intro exI [of _ t']) (auto simp: placed_as_def place_pane_within_tree_def leaves_placed_def)
qed

lemma place_stack:
  assumes source: "has_pane t source" and path: "find_pane_path t source = Some path" and other: "has_pane t other"
  shows "\<exists>t'. placed_as t source (Place_Stack other) r z t'"
proof (cases "other = source")
  case True
  then show ?thesis using path by (intro exI [of _ t]) (simp add: placed_as_def place_pane_within_tree_def leaves_placed_def)
next
  case False
  from source show ?thesis
  proof (cases rule: remove_leaf_present)
    case (only u)
    with other False show ?thesis by (simp add: has_pane_iff)
  next
    case (removed u)
    have "has_pane u other" using removed(2) other False by (simp add: has_pane_iff)
    from stack_panes_onto_target_Some [OF this, of "[source]"] obtain t' before members after where
      stack: "stack_panes_onto_target u [source] other = Some (Inr t')" "other \<in> set members"
      "list_leaf_pane_ids u = before @ members @ after" "list_leaf_pane_ids t' = before @ members @ [source] @ after" by blast
    then have "leaves_placed source (Place_Stack other) (list_leaf_pane_ids t) (list_leaf_pane_ids t')"
      using False unfolding leaves_placed_def removed(2) [symmetric] by auto
    with False other removed path stack(1) show ?thesis by (intro exI [of _ t']) (simp add: placed_as_def place_pane_within_tree_def)
  qed
qed

lemma place_within_Some:
  assumes dist: "distinct (list_leaf_pane_ids t)" and source: "has_pane t source" and ok: "target_refused t source target = None"
  shows "\<exists>t'. placed_as t source target r z t'"
proof -
  obtain path where path: "find_pane_path t source = Some path" using source find_pane_path_iff by blast
  show ?thesis
    using ok place_swap [OF dist path] place_insert [OF dist source path] place_stack [OF source path]
    by (cases target) (auto simp: target_refused_def split: if_splits)
qed

lemma place_within_refused:
  assumes "\<not> (has_pane t source \<and> target_refused t source target = None)"
  shows "place_pane_within_tree t source target r z =
    Some (Inl (if has_pane t source then the (target_refused t source target) else SourcePaneNotFound source))"
proof (cases "find_pane_path t source")
  case None
  then show ?thesis using find_pane_path_iff [of t source] by (simp add: place_pane_within_tree_def)
next
  case (Some path)
  then have source: "has_pane t source" using find_pane_path_iff by blast
  with assms have "target_refused t source target \<noteq> None" by simp
  then show ?thesis
    using Some source find_pane_path_iff [of t]
    by (cases target) (auto simp: place_pane_within_tree_def target_refused_def split: if_splits option.splits)
qed

lemma leaves_placed_mset:
  assumes "distinct ids" "source \<in> set ids" "leaves_placed source target ids ids'" "\<And>other. target = Place_Swap other \<Longrightarrow> other \<in> set ids"
  shows "mset ids' = mset ids"
proof (cases target)
  case (Place_Swap other)
  then show ?thesis using assms mset_swapped_id [of ids source other] by (simp add: leaves_placed_def)
next
  case (Place_Insert beside dir)
  then obtain run where "placed_beside dir run [source] (remove1 source ids) ids'" using assms(3) by (auto simp: leaves_placed_def)
  from placed_beside_mset [OF this] assms(2) show ?thesis by simp
next
  case (Place_Stack other)
  show ?thesis
  proof (cases "other = source")
    case True
    then show ?thesis using assms(3) Place_Stack by (simp add: leaves_placed_def)
  next
    case False
    then obtain before members after where ids: "remove1 source ids = before @ members @ after" "ids' = before @ members @ [source] @ after"
      using assms(3) Place_Stack by (auto simp: leaves_placed_def)
    have "mset ids' = mset (remove1 source ids) + {#source#}" by (simp add: ids)
    with assms(2) show ?thesis by simp
  qed
qed



section \<open>Placements across trees\<close>

lemma leaf_update_mset:
  assumes "find_pane_path t p = Some path"
  shows "\<exists>u. update_node_at_path (\<lambda>_. Pane q) t path = Some u \<and> mset (list_leaf_pane_ids u) + {#p#} = mset (list_leaf_pane_ids t) + {#q#}"
proof -
  have at: "get_node_at_path t path = Some (Pane p)" using find_pane_path_props(1) [OF assms] by simp
  obtain u where u: "update_node_at_path (\<lambda>_. Pane q) t path = Some u" using update_node_at_path_Some [OF at] by blast
  from leaves_update [OF u at] leaves_at_path [OF at] u show ?thesis by simp
qed

lemma remove_source_leaf_Some:
  assumes "has_pane t source"
  shows "\<exists>remaining. remove_source_leaf t source = Some remaining \<and>
    (case remaining of None \<Rightarrow> [] | Some u \<Rightarrow> list_leaf_pane_ids u) = remove1 source (list_leaf_pane_ids t)"
proof (cases "remove_pane t source")
  case (Inl e)
  then show ?thesis using remove_pane_Inl [OF Inl] assms
    by (auto simp: remove_source_leaf_def remove_pane_and_normalize_def has_pane_iff)
next
  case (Inr u)
  note u = remove_pane_Inr [OF Inr]
  then obtain n where "normalize_layout_tree u (set (list_leaf_pane_ids u)) = Some n" "list_leaf_pane_ids n = list_leaf_pane_ids u"
    using normalize_all_live by blast
  with Inr u show ?thesis by (simp add: remove_source_leaf_def remove_pane_and_normalize_def)
qed

text \<open>Panes in a placement across tabs, with multiplicity.\<close>

abbreviation placement_panes :: "cross_tab_placement \<Rightarrow> pane_id multiset" where
  "placement_panes x \<equiv>
     mset (list_leaf_pane_ids (placed_destination_tree x)) +
     (case placed_source_tree x of None \<Rightarrow> {#} | Some t \<Rightarrow> mset (list_leaf_pane_ids t))"

definition across_ok :: "layout_node \<Rightarrow> pane_id \<Rightarrow> layout_node \<Rightarrow> rect \<Rightarrow> pane_sizing \<Rightarrow> (placement_error + cross_tab_placement) option \<Rightarrow> bool" where
  "across_ok source_tree source destination_tree r z result \<longleftrightarrow>
     (case result of
        None \<Rightarrow> False
      | Some (Inl e) \<Rightarrow> True
      | Some (Inr x) \<Rightarrow>
          placement_panes x = mset (list_leaf_pane_ids source_tree) + mset (list_leaf_pane_ids destination_tree) \<and>
          has_pane (placed_destination_tree x) source \<and>
          (case placed_source_tree x of None \<Rightarrow> True | Some t \<Rightarrow> mset (list_leaf_pane_ids t) \<noteq> mset (list_leaf_pane_ids source_tree)) \<and>
          is_layout_within_rect (placed_destination_tree x) r z)"

lemma across_ok_fit:
  assumes "(case remaining of None \<Rightarrow> {#} | Some u \<Rightarrow> mset (list_leaf_pane_ids u)) + mset (list_leaf_pane_ids t) =
      mset (list_leaf_pane_ids source_tree) + mset (list_leaf_pane_ids destination_tree)"
    and "has_pane t source" "\<not> has_pane destination_tree source"
  shows "across_ok source_tree source destination_tree r z
    (Some (map_sum id (\<lambda>t. \<lparr>placed_source_tree = remaining, placed_destination_tree = t\<rparr>) (validate_layout_fit t r z)))"
proof -
  have "mset (list_leaf_pane_ids u) \<noteq> mset (list_leaf_pane_ids source_tree)" if "remaining = Some u" for u
  proof
    assume "mset (list_leaf_pane_ids u) = mset (list_leaf_pane_ids source_tree)"
    then have "mset (list_leaf_pane_ids t) = mset (list_leaf_pane_ids destination_tree)" using assms(1) that by simp
    then show False using assms(2,3) mset_eq_setD has_pane_iff by blast
  qed
  with assms show ?thesis by (auto simp: across_ok_def validate_layout_fit_cases add.commute split: option.splits)
qed

lemma mset_exchange:
  assumes "A + {#x#} = S + {#y#}" "B + {#y#} = D + {#x#}"
  shows "A + B = S + D"
proof (rule multiset_eqI)
  fix a
  have "count A a + count {#x#} a = count S a + count {#y#} a" "count B a + count {#y#} a = count D a + count {#x#} a"
    using arg_cong [OF assms(1), of "\<lambda>M. count M a"] arg_cong [OF assms(2), of "\<lambda>M. count M a"] by (simp_all only: count_union)
  then show "count (A + B) a = count (S + D) a" unfolding count_union by linarith
qed

lemma across_swap:
  assumes path: "find_pane_path source_tree source = Some path" and absent: "\<not> has_pane destination_tree source"
  shows "across_ok source_tree source destination_tree r z (place_pane_across_tabs source_tree source destination_tree (Place_Swap other) r z)"
proof (cases "has_pane source_tree other \<or> \<not> has_pane destination_tree other")
  case True
  then show ?thesis using absent path find_pane_path_iff [of destination_tree other]
    by (cases "find_pane_path destination_tree other") (auto simp: place_pane_across_tabs_def across_ok_def)
next
  case False
  then obtain path2 where path2: "find_pane_path destination_tree other = Some path2" using find_pane_path_iff by blast
  obtain u where u: "update_node_at_path (\<lambda>_. Pane other) source_tree path = Some u"
    "mset (list_leaf_pane_ids u) + {#source#} = mset (list_leaf_pane_ids source_tree) + {#other#}" using leaf_update_mset [OF path] by blast
  obtain v where v: "update_node_at_path (\<lambda>_. Pane source) destination_tree path2 = Some v"
    "mset (list_leaf_pane_ids v) + {#other#} = mset (list_leaf_pane_ids destination_tree) + {#source#}" using leaf_update_mset [OF path2] by blast
  have "source \<in># mset (list_leaf_pane_ids v) + {#other#}" unfolding v(2) by simp
  then have "has_pane v source" using False path find_pane_path_iff by (auto simp: has_pane_iff)
  moreover have "mset (list_leaf_pane_ids u) + mset (list_leaf_pane_ids v) = mset (list_leaf_pane_ids source_tree) + mset (list_leaf_pane_ids destination_tree)"
    using u(2) v(2) by (rule mset_exchange)
  ultimately show ?thesis
    using across_ok_fit [of "Some u" v source_tree destination_tree source r z] False absent path path2 u(1) v(1)
    by (simp add: place_pane_across_tabs_def)
qed

lemma across_insert:
  assumes path: "find_pane_path source_tree source = Some path" and absent: "\<not> has_pane destination_tree source"
    and remaining: "remove_source_leaf source_tree source = Some remaining"
      "(case remaining of None \<Rightarrow> {#} | Some u \<Rightarrow> mset (list_leaf_pane_ids u)) + {#source#} = mset (list_leaf_pane_ids source_tree)"
  shows "across_ok source_tree source destination_tree r z (place_pane_across_tabs source_tree source destination_tree (Place_Insert beside dir) r z)"
proof (cases "validate_placement_anchor destination_tree source beside")
  case None
  obtain path' n where n: "get_node_at_path destination_tree path' = Some n"
    "anchor_run beside {source} (list_leaf_pane_ids destination_tree) (list_leaf_pane_ids n)"
    using valid_anchor_in_tree [OF None, of "{source}"] absent by (auto simp: has_pane_iff)
  obtain t' run where t': "insert_layout_node_beside_anchor destination_tree (Pane source) beside dir = Some t'"
    and beside: "placed_beside dir run [source] (list_leaf_pane_ids destination_tree) (list_leaf_pane_ids t')"
    using insert_beside_anchor_Some [OF n(1), of beside "Pane source" dir] n(2) by auto
  have "source \<in># mset (list_leaf_pane_ids t')" unfolding placed_beside_mset [OF beside] by simp
  then have "has_pane t' source" by (simp add: has_pane_iff)
  from across_ok_fit [OF _ this absent, of remaining source_tree r z] placed_beside_mset [OF beside] absent path None remaining(1) t'
  show ?thesis by (simp add: place_pane_across_tabs_def flip: remaining(2))
qed (use absent path in \<open>simp add: place_pane_across_tabs_def across_ok_def\<close>)

lemma across_stack:
  assumes path: "find_pane_path source_tree source = Some path" and absent: "\<not> has_pane destination_tree source"
    and remaining: "remove_source_leaf source_tree source = Some remaining"
      "(case remaining of None \<Rightarrow> {#} | Some u \<Rightarrow> mset (list_leaf_pane_ids u)) + {#source#} = mset (list_leaf_pane_ids source_tree)"
  shows "across_ok source_tree source destination_tree r z (place_pane_across_tabs source_tree source destination_tree (Place_Stack other) r z)"
proof (cases "has_pane destination_tree other")
  case True
  obtain t' before members after where t': "stack_panes_onto_target destination_tree [source] other = Some (Inr t')"
    "list_leaf_pane_ids destination_tree = before @ members @ after" "list_leaf_pane_ids t' = before @ members @ [source] @ after"
    using stack_panes_onto_target_Some [OF True, of "[source]"] by blast
  then show ?thesis
    using across_ok_fit [of remaining t' source_tree destination_tree source r z] absent path remaining
    by (simp add: place_pane_across_tabs_def has_pane_iff flip: remaining(2))
next
  case False
  then show ?thesis using absent path
    by (simp add: place_pane_across_tabs_def across_ok_def stack_panes_onto_target_def add_panes_to_stack_def)
qed

text \<open>
  C20. A placement across two tabs never panics and loses no pane: the two trees it gives hold together
  exactly the panes the two trees held, the source has moved to the destination, the source tree has
  changed or is gone, and the destination fits its tab.
\<close>

theorem place_pane_across_tabs_conserves:
  "case place_pane_across_tabs source_tree source destination_tree target r z of
     None \<Rightarrow> False
   | Some (Inl e) \<Rightarrow> True
   | Some (Inr x) \<Rightarrow>
       mset (list_leaf_pane_ids (placed_destination_tree x)) +
         (case placed_source_tree x of None \<Rightarrow> {#} | Some t \<Rightarrow> mset (list_leaf_pane_ids t)) =
       mset (list_leaf_pane_ids source_tree) + mset (list_leaf_pane_ids destination_tree) \<and>
       has_pane (placed_destination_tree x) source \<and>
       (case placed_source_tree x of None \<Rightarrow> True | Some t \<Rightarrow> mset (list_leaf_pane_ids t) \<noteq> mset (list_leaf_pane_ids source_tree)) \<and>
       is_layout_within_rect (placed_destination_tree x) r z"
proof -
  have "across_ok source_tree source destination_tree r z (place_pane_across_tabs source_tree source destination_tree target r z)"
  proof (cases "has_pane destination_tree source \<or> \<not> has_pane source_tree source")
    case True
    then show ?thesis using find_pane_path_iff [of source_tree source]
      by (cases "find_pane_path source_tree source") (auto simp: place_pane_across_tabs_def across_ok_def)
  next
    case False
    then obtain path where path: "find_pane_path source_tree source = Some path" using find_pane_path_iff by blast
    obtain remaining where remaining: "remove_source_leaf source_tree source = Some remaining"
      "(case remaining of None \<Rightarrow> [] | Some u \<Rightarrow> list_leaf_pane_ids u) = remove1 source (list_leaf_pane_ids source_tree)"
      using remove_source_leaf_Some False by blast
    have "(case remaining of None \<Rightarrow> {#} | Some u \<Rightarrow> mset (list_leaf_pane_ids u)) = mset (list_leaf_pane_ids source_tree) - {#source#}"
      using arg_cong [OF remaining(2), of mset] by (cases remaining) simp_all
    then have "(case remaining of None \<Rightarrow> {#} | Some u \<Rightarrow> mset (list_leaf_pane_ids u)) + {#source#} = mset (list_leaf_pane_ids source_tree)"
      using False by (simp add: has_pane_iff)
    then show ?thesis
      using across_swap [OF path] across_insert [OF path _ remaining(1)] across_stack [OF path _ remaining(1)] False by (cases target) simp_all
  qed
  then show ?thesis by (simp only: across_ok_def)
qed

text \<open>
  A tree that no tab holds comes into a tab whole: all its leaves, in their order, beside the anchor or
  after the members of the stack, and none of the tab's own is lost.
\<close>

theorem place_docking_tree_in_tab_spec:
  assumes "list_leaf_pane_ids docking \<noteq> []"
  shows "case place_docking_tree_in_tab t docking target r z of
      None \<Rightarrow> False
    | Some (Inl e) \<Rightarrow> True
    | Some (Inr t') \<Rightarrow>
        set (list_leaf_pane_ids t) \<inter> set (list_leaf_pane_ids docking) = {} \<and>
        mset (list_leaf_pane_ids t') = mset (list_leaf_pane_ids t) + mset (list_leaf_pane_ids docking) \<and>
        is_layout_within_rect t' r z"
proof (cases "find (has_pane t) (list_leaf_pane_ids docking)")
  case (Some p)
  then show ?thesis using assms by (cases "list_leaf_pane_ids docking") (auto simp: place_docking_tree_in_tab_def)
next
  case None
  obtain first others where docking: "list_leaf_pane_ids docking = first # others" using assms by (cases "list_leaf_pane_ids docking") auto
  have apart: "set (list_leaf_pane_ids docking) \<inter> set (list_leaf_pane_ids t) = {}" using None by (auto simp: find_None_iff has_pane_iff)
  show ?thesis
  proof (cases target)
    case (Place_Swap other)
    then show ?thesis using None docking by (simp add: place_docking_tree_in_tab_def)
  next
    case (Place_Insert beside dir)
    show ?thesis
    proof (cases "validate_placement_anchor t first beside")
      case valid: None
      obtain path n where n: "get_node_at_path t path = Some n"
        "anchor_run beside (set (list_leaf_pane_ids docking)) (list_leaf_pane_ids t) (list_leaf_pane_ids n)"
        using valid_anchor_in_tree [OF valid _ _ apart] apart docking by auto
      obtain t' run where t': "insert_layout_node_beside_anchor t docking beside dir = Some t'"
        "placed_beside dir run (list_leaf_pane_ids docking) (list_leaf_pane_ids t) (list_leaf_pane_ids t')"
        using insert_beside_anchor_Some [OF n assms] by blast
      with placed_beside_mset [OF t'(2)] None docking valid apart Place_Insert show ?thesis
        by (auto simp: place_docking_tree_in_tab_def validate_layout_fit_cases)
    qed (use None docking Place_Insert in \<open>simp add: place_docking_tree_in_tab_def\<close>)
  next
    case (Place_Stack other)
    show ?thesis
    proof (cases "has_pane t other")
      case True
      obtain t' before members after where "stack_panes_onto_target t (first # others) other = Some (Inr t')"
        "list_leaf_pane_ids t = before @ members @ after" "list_leaf_pane_ids t' = before @ members @ (first # others) @ after"
        using stack_panes_onto_target_Some [OF True, of "first # others"] by blast
      with None docking apart Place_Stack show ?thesis by (auto simp: place_docking_tree_in_tab_def validate_layout_fit_cases)
    next
      case False
      with None docking Place_Stack show ?thesis
        by (simp add: place_docking_tree_in_tab_def stack_panes_onto_target_def add_panes_to_stack_def)
    qed
  qed
qed

end
