(* ===== verification/Placement_Destinations.thy ===== *)
theory Placement_Destinations
  imports Placement_Correct Solver_Geometry
begin

text \<open>
  What a client is offered as a destination is one: a placement at a listed slot or span is refused only
  when the tab is too small for it.
\<close>

section \<open>Nodes outside every stack\<close>

definition no_stack_above :: "layout_node \<Rightarrow> nat list \<Rightarrow> bool" where
  "no_stack_above t path \<longleftrightarrow> (\<forall>k < length path. \<not> is_stack_at_path t (take k path))"

lemma find_map_None: "find_map f xs = None \<longleftrightarrow> (\<forall>x \<in> set xs. f x = None)"
  by (induction xs) (auto split: option.splits)

lemma find_outermost_stack_above_None: "find_outermost_stack_above t path = None \<longleftrightarrow> no_stack_above t path"
  by (auto simp: find_outermost_stack_above_def find_map_None no_stack_above_def is_stack_at_path_def
      split: option.splits layout_node.splits if_splits)

lemma no_stack_above_prefix:
  assumes "no_stack_above t path" "prefix path' path"
  shows "no_stack_above t path'"
  unfolding no_stack_above_def
proof (intro allI impI)
  fix k assume "k < length path'"
  then have "take k path' = take k path" "k < length path" using assms(2) by (auto simp: prefix_def)
  with assms(1) show "\<not> is_stack_at_path t (take k path')" by (simp add: no_stack_above_def)
qed

lemma no_stack_above_snoc: "no_stack_above t (path @ [i]) \<longleftrightarrow> no_stack_above t path \<and> \<not> is_stack_at_path t path"
  by (auto simp: no_stack_above_def less_Suc_eq)

lemma shared_leaf_paths:
  assumes "distinct (list_leaf_pane_ids t)" "get_node_at_path t path = Some n" "get_node_at_path t path' = Some n'"
    and "p \<in> set (list_leaf_pane_ids n)" "p \<in> set (list_leaf_pane_ids n')"
  shows "prefix path path' \<or> prefix path' path"
  using assms
proof (induction path arbitrary: t path')
  case (Cons i path)
  show ?case
  proof (cases path')
    case (Cons j rest)
    obtain s where s: "t = Split s" "i < length (children s)" "j < length (children s)"
      using \<open>get_node_at_path t (i # path) = Some n\<close> \<open>get_node_at_path t path' = Some n'\<close> Cons by (cases t) (auto split: if_splits)
    have at: "get_node_at_path (children s ! i) path = Some n" "get_node_at_path (children s ! j) rest = Some n'"
      using Cons.prems(2,3) s Cons by auto
    have dist: "distinct (concat (map list_leaf_pane_ids (children s)))" using Cons.prems(1) s(1) by (simp add: leaves_split)
    have "p \<in> set (list_leaf_pane_ids (children s ! i))" "p \<in> set (list_leaf_pane_ids (children s ! j))"
      using node_leaves_subset [OF at(1)] node_leaves_subset [OF at(2)] Cons.prems(4,5) by auto
    then have ij: "i = j" using distinct_children_disjoint [OF dist s(2,3)] by blast
    have "prefix path rest \<or> prefix rest path"
      using Cons.IH [OF distinct_child [OF dist s(2)] at(1), of rest] at(2) ij Cons.prems(4,5) by simp
    then show ?thesis using ij Cons by simp
  qed simp
qed simp

section \<open>The walk lists valid anchors\<close>

definition span_ok :: "layout_node \<Rightarrow> pane_id \<Rightarrow> insertion_span \<Rightarrow> bool" where
  "span_ok t source sp \<longleftrightarrow>
     (case span_anchor sp of
        TabAnchor \<Rightarrow> True
      | PaneAnchor p \<Rightarrow> p \<noteq> source \<and> (\<exists>path. get_node_at_path t path = Some (Pane p) \<and> no_stack_above t path)
      | GroupAnchor ids \<Rightarrow>
          2 \<le> length ids \<and> (\<exists>path n. get_node_at_path t path = Some n \<and> ids = list_leaf_pane_ids n \<and> no_stack_above t path))"

definition walk_ok :: "layout_node \<Rightarrow> pane_id \<Rightarrow> insertion_span_walk \<Rightarrow> bool" where
  "walk_ok t source w \<longleftrightarrow> walk_source_pane_id w = source \<and> list_all (span_ok t source) (walk_pane_spans w @ walk_group_spans w)"

definition reached_outside :: "layout_node \<Rightarrow> bool \<Rightarrow> layout_node \<Rightarrow> bool" where
  "reached_outside t is_inside_stack n \<longleftrightarrow> (\<exists>path. get_node_at_path t path = Some n \<and> (\<not> is_inside_stack \<longrightarrow> no_stack_above t path))"

lemma collect_pane_span_ok: "walk_ok t source w \<Longrightarrow> reached_outside t False (Pane p) \<Longrightarrow> walk_ok t source (collect_pane_span p w)"
  by (auto simp: walk_ok_def collect_pane_span_def span_ok_def reached_outside_def split: option.split)

lemma collect_group_span_ok:
  "walk_ok t source w \<Longrightarrow> reached_outside t False n \<Longrightarrow> walk_ok t source (collect_group_span (list_leaf_pane_ids n) w)"
  by (auto simp: walk_ok_def collect_group_span_def span_ok_def reached_outside_def not_less split: option.split)

lemma reached_child:
  assumes "reached_outside t inside (Split (SplitNode d cs ws a))" "c \<in> set cs"
  shows "reached_outside t (inside \<or> d = Stacked) c"
proof -
  obtain path where path: "get_node_at_path t path = Some (Split (SplitNode d cs ws a))" "\<not> inside \<longrightarrow> no_stack_above t path"
    using assms(1) by (auto simp: reached_outside_def)
  obtain i where i: "i < length cs" "cs ! i = c" using assms(2) by (auto simp: in_set_conv_nth)
  have "get_node_at_path t (path @ [i]) = Some c" using path(1) i by (simp add: get_node_at_path_append)
  moreover have "no_stack_above t (path @ [i])" if "\<not> (inside \<or> d = Stacked)"
    using path that by (simp add: no_stack_above_snoc is_stack_at_path_def)
  ultimately show ?thesis by (auto simp: reached_outside_def)
qed

lemma collect_insertion_spans_ok:
  "reached_outside t inside n \<Longrightarrow> walk_ok t source w \<Longrightarrow> walk_ok t source (collect_insertion_spans n inside w)"
  "\<forall>c \<in> set cs. reached_outside t inside c \<Longrightarrow> walk_ok t source w \<Longrightarrow> walk_ok t source (collect_child_spans cs inside w)"
proof (induction n inside w and cs inside w rule: collect_insertion_spans_collect_child_spans.induct)
  case (1 p inside w)
  then show ?case using collect_pane_span_ok by (cases inside) auto
next
  case (2 d cs ws a inside w)
  have "\<forall>c \<in> set cs. reached_outside t (inside \<or> d = Stacked) c" using reached_child [OF "2.prems"(1)] by blast
  moreover have "walk_ok t source (if \<not> inside then collect_group_span (list_leaf_pane_ids (Split (SplitNode d cs ws a))) w else w)"
    using "2.prems" collect_group_span_ok [of t source w "Split (SplitNode d cs ws a)"] by (cases inside) auto
  ultimately show ?case using "2.IH" by simp
qed simp_all

lemma listed_span_ok:
  assumes "sp \<in> set (insertion_spans (list_placement_destinations t solve tab_rect source))"
  shows "span_ok t source sp"
proof -
  define w where "w = \<lparr>walk_source_pane_id = source, walk_pane_rect_by_id = map_of (rev (pane_rects solve)),
    walk_suppressed_pane_ids = set (suppressed_pane_ids solve), walk_stack_headers = stack_headers solve,
    walk_all_pane_ids = sort (list_leaf_pane_ids t), walk_pane_spans = [], walk_group_spans = [], listed_group_pane_id_sets = []\<rparr>"
  have "reached_outside t False t" unfolding reached_outside_def by (intro exI [of _ "[]"]) (simp add: no_stack_above_def)
  then have "walk_ok t source (collect_insertion_spans t False w)"
    by (rule collect_insertion_spans_ok) (simp add: w_def walk_ok_def)
  moreover have "span_ok t source \<lparr>span_anchor = TabAnchor, span_rect = tab_rect\<rparr>" by (simp add: span_ok_def)
  ultimately show ?thesis using assms unfolding list_placement_destinations_def Let_def w_def [symmetric]
    by (auto simp: walk_ok_def list_all_iff split: if_splits)
qed

text \<open>A listed span names a valid anchor.\<close>

lemma span_ok_valid:
  assumes dist: "distinct (list_leaf_pane_ids t)" and ok: "span_ok t source sp"
  shows "validate_placement_anchor t source (span_anchor sp) = None"
proof (cases "span_anchor sp")
  case (PaneAnchor p)
  then obtain path where p: "p \<noteq> source" "get_node_at_path t path = Some (Pane p)" "no_stack_above t path" using ok by (auto simp: span_ok_def)
  have "p \<in> set (list_leaf_pane_ids t)" using node_leaves_subset [OF p(2)] by simp
  then obtain path' where path': "find_pane_path t p = Some path'" using find_pane_path_None(1) [of t p] by (cases "find_pane_path t p") auto
  then have at: "get_node_at_path t path' = Some (Pane p)" using find_pane_path_props(1) by blast
  from shared_leaf_paths [OF dist p(2) at, of p] have "prefix path path' \<or> prefix path' path" by simp
  then have "path' = path" using p(2) at by (auto simp: prefix_def get_node_at_path_append bind_eq_Some_conv) (metis get_node_at_path.simps(2) list.exhaust option.distinct(1))+
  with p path' PaneAnchor show ?thesis by (simp add: validate_placement_anchor_def find_outermost_stack_above_None)
next
  case (GroupAnchor ids)
  then obtain path n where n: "2 \<le> length ids" "get_node_at_path t path = Some n" "ids = list_leaf_pane_ids n" "no_stack_above t path"
    using ok by (auto simp: span_ok_def)
  have ids: "distinct ids" "set ids \<subseteq> set (list_leaf_pane_ids t)" "ids \<noteq> []"
    using leaves_at_path [OF n(2)] dist n(1,3) by auto
  then have "\<not> list_all (\<lambda>p. p = source) ids" using n(1) by (cases ids; cases "tl ids") auto
  moreover obtain path' where path': "find_split_path_by_leaf_set t ids = Some path'"
    using find_split_path_exists [OF n(2), of ids] n(3) by blast
  ultimately have group: "find_group_anchor_path t source ids = Inr path'"
    using ids check_group_pane_ids_None [of t "{}" ids] by (simp add: find_group_anchor_path_def)
  have found: "\<exists>m. get_node_at_path t path' = Some m \<and> sort (list_leaf_pane_ids m) = sort ids"
    "\<forall>k < length path'. \<forall>m. get_node_at_path t (take k path') = Some m \<longrightarrow> sort (list_leaf_pane_ids m) \<noteq> sort ids"
    using find_split_in_subtree_Some(1) [OF path' [unfolded find_split_path_by_leaf_set_def]] by blast+
  then obtain m where m: "get_node_at_path t path' = Some m" "sort (list_leaf_pane_ids m) = sort ids" by blast
  have "hd ids \<in> set (list_leaf_pane_ids n)" "hd ids \<in> set (list_leaf_pane_ids m)" using ids(3) n(3) m(2) by (metis hd_in_set set_sort)+
  from shared_leaf_paths [OF dist n(2) m(1) this] have "prefix path path' \<or> prefix path' path" .
  moreover have "\<not> strict_prefix path path'"
  proof
    assume "strict_prefix path path'"
    then have "take (length path) path' = path" "length path < length path'" by (auto simp: strict_prefix_def prefix_def)
    with found(2) n(2,3) show False by metis
  qed
  ultimately have "prefix path' path" by (auto simp: strict_prefix_def)
  with n(4) group GroupAnchor show ?thesis
    by (simp add: validate_placement_anchor_def find_outermost_stack_above_None no_stack_above_prefix)
qed (simp add: validate_placement_anchor_def)

section \<open>The tree as a client draws it\<close>

text \<open>Showing other members of the stacks changes no path, leaf or direction.\<close>

lemma shown_find_pane_path:
  "find_pane_path (apply_shown_stack_members t h) p = find_pane_path t p"
  "find_pane_in_children (map (\<lambda>c. apply_shown_stack_members c h) cs) i p = find_pane_in_children cs i p"
  by (induction t p and cs i p rule: find_pane_path_find_pane_in_children.induct) (simp_all cong: option.case_cong)

lemma shown_find_split:
  "find_split_in_subtree (apply_shown_stack_members t h) wanted = find_split_in_subtree t wanted"
  "find_split_in_children (map (\<lambda>c. apply_shown_stack_members c h) cs) i wanted = find_split_in_children cs i wanted"
proof (induction t wanted and cs i wanted rule: find_split_in_subtree_find_split_in_children.induct)
  case (2 d cs ws a wanted)
  have "list_leaf_pane_ids (apply_shown_stack_members (Split (SplitNode d cs ws a)) h) = list_leaf_pane_ids (Split (SplitNode d cs ws a))"
    by (rule shown_leaves)
  with 2 show ?case by (simp add: Let_def)
qed (simp_all cong: option.case_cong)

lemma shown_get_node:
  "get_node_at_path (apply_shown_stack_members t h) path = map_option (\<lambda>n. apply_shown_stack_members n h) (get_node_at_path t path)"
proof (induction path arbitrary: t)
  case (Cons i path)
  then show ?case by (cases t rule: paired.cases) simp_all
qed simp

lemma shown_is_stack: "is_stack_at_path (apply_shown_stack_members t h) path = is_stack_at_path t path"
proof (cases "get_node_at_path t path")
  case (Some n)
  then show ?thesis by (cases n rule: paired.cases) (simp_all add: is_stack_at_path_def shown_get_node)
qed (simp add: is_stack_at_path_def shown_get_node)

lemma shown_anchor_valid:
  "validate_placement_anchor (apply_shown_stack_members t h) source beside = None \<longleftrightarrow> validate_placement_anchor t source beside = None"
proof -
  have group: "find_group_anchor_path (apply_shown_stack_members t h) source ids = find_group_anchor_path t source ids" for ids
  proof -
    have "check_group_pane_ids (apply_shown_stack_members t h) seen ids = check_group_pane_ids t seen ids" for seen
      by (induction ids arbitrary: seen) (simp_all add: has_pane_iff shown_leaves)
    moreover have "find_split_path_by_leaf_set (apply_shown_stack_members t h) ids = find_split_path_by_leaf_set t ids"
      by (simp add: find_split_path_by_leaf_set_def shown_find_split)
    ultimately show ?thesis by (simp only: find_group_anchor_path_def)
  qed
  have "find_outermost_stack_above (apply_shown_stack_members t h) path = None \<longleftrightarrow> find_outermost_stack_above t path = None" for path
    by (simp add: find_outermost_stack_above_None no_stack_above_def shown_is_stack)
  then show ?thesis
    by (cases beside) (auto simp: validate_placement_anchor_def Let_def shown_find_pane_path group split: option.splits sum.splits if_splits)
qed

lemma drawn_tree:
  "list_leaf_pane_ids (drawn_layout_tree t h) = list_leaf_pane_ids t"
  "validate_placement_anchor (drawn_layout_tree t h) source beside = None \<longleftrightarrow> validate_placement_anchor t source beside = None"
  by (simp_all add: drawn_layout_tree_def build_shown_layout_tree_def shown_leaves shown_anchor_valid split: if_splits)

section \<open>Destinations are accepted\<close>

text \<open>The placements a list of destinations offers.\<close>

definition offered_targets :: "placement_destinations \<Rightarrow> placement_target set" where
  "offered_targets d =
     {Place_Swap (slot_pane_id slot) | slot. slot \<in> set (target_pane_slots d)} \<union>
     {Place_Stack (slot_pane_id slot) | slot. slot \<in> set (target_pane_slots d)} \<union>
     {Place_Insert (span_anchor sp) dir | sp dir. sp \<in> set (insertion_spans d)}"

lemma listed_slot:
  assumes "slot \<in> set (target_pane_slots (list_placement_destinations t (solve_layout_with_sizing t r z) tab_rect source))"
  shows "slot_pane_id slot \<in> set (list_leaf_pane_ids t) \<and> slot_pane_id slot \<noteq> source"
proof -
  have "slot_pane_id slot \<in> fst ` set (pane_rects (solve_layout_with_sizing t r z))" "slot_pane_id slot \<noteq> source"
    using assms by (force simp: list_placement_destinations_def Let_def)+
  moreover have "map fst (pane_rects (solve_layout_with_sizing t r z)) = list_leaf_pane_ids t"
    by (simp add: solve_layout_with_sizing_sel solved_leaves)
  ultimately show ?thesis by (metis set_map)
qed

lemma offered_not_refused:
  assumes dist: "distinct (list_leaf_pane_ids t)"
    and offered: "target \<in> offered_targets (list_shown_placement_destinations t h tab_size z source)"
  shows "target_refused t source target = None"
proof -
  let ?drawn = "drawn_layout_tree t h" and ?r = "from_size_at_origin tab_size"
  let ?d = "list_placement_destinations ?drawn (solve_layout_with_sizing ?drawn ?r z) ?r source"
  have d: "list_shown_placement_destinations t h tab_size z source = ?d" by (simp add: list_shown_placement_destinations_def Let_def)
  have slot: "has_pane t (slot_pane_id slot)" if "slot \<in> set (target_pane_slots ?d)" for slot
    using listed_slot [OF that] by (simp add: has_pane_iff drawn_tree(1))
  have "validate_placement_anchor t source (span_anchor sp) = None" if "sp \<in> set (insertion_spans ?d)" for sp
    using span_ok_valid [OF _ listed_span_ok [OF that]] dist by (simp add: drawn_tree)
  with slot offered show ?thesis unfolding d offered_targets_def by (auto simp: target_refused_def)
qed

text \<open>
  C19. Every destination offered is accepted. For a tab whose leaves are all different, a placement at
  any slot or span that the client's own drawing of the tab offers is refused only because the tab is
  too small for its result; in particular no offered anchor lies in a stack, names the source alone or
  names panes that are not one group.
\<close>

theorem offered_destinations_accepted:
  assumes "distinct (list_leaf_pane_ids t)" "has_pane t source"
    and "target \<in> offered_targets (list_shown_placement_destinations t focus_history tab_size z source)"
  shows "\<exists>t'. leaves_placed source target (list_leaf_pane_ids t) (list_leaf_pane_ids t') \<and>
    (place_pane_within_tree t source target r z = Some (Inr t') \<or>
     place_pane_within_tree t source target r z = Some (Inl (DestinationTooSmall (compute_minimum_size t' z) (rect_size r))) \<and>
       \<not> is_layout_within_rect t' r z)"
proof -
  obtain t' where "placed_as t source target r z t'"
    using place_within_Some [OF assms(1,2) offered_not_refused [OF assms(1,3)]] by blast
  then show ?thesis by (auto simp: placed_as_def validate_layout_fit_cases split: if_splits)
qed

text \<open>The first pane of a row of three moved to the right edge of the tab.\<close>

theorem offered_destinations_accepted_witness:
  "distinct (list_leaf_pane_ids example_row) \<and> has_pane example_row (PaneId 1) \<and>
   (\<exists>t'. list_leaf_pane_ids t' = [PaneId 2, PaneId 3, PaneId 1] \<and>
      place_pane_within_tree example_row (PaneId 1) (Place_Insert TabAnchor Right) example_tab default_pane_sizing \<in>
        {Some (Inr t'), Some (Inl (DestinationTooSmall (compute_minimum_size t' default_pane_sizing) (rect_size example_tab)))})"
proof -
  have leaves: "list_leaf_pane_ids example_row = [PaneId 1, PaneId 2, PaneId 3]" by (simp add: example_row_def with_equal_weights_def)
  let ?d = "list_shown_placement_destinations example_row [] \<lparr>column_count = 80, row_count = 24\<rparr> default_pane_sizing (PaneId 1)"
  have "\<exists>sp \<in> set (insertion_spans ?d). span_anchor sp = TabAnchor"
    by (auto simp: list_shown_placement_destinations_def list_placement_destinations_def Let_def drawn_tree(1) leaves)
  then have offered: "Place_Insert TabAnchor Right \<in> offered_targets ?d"
    unfolding offered_targets_def by (metis (mono_tags, lifting) UnI2 mem_Collect_eq)
  have start: "distinct (list_leaf_pane_ids example_row)" "has_pane example_row (PaneId 1)" by (simp_all add: leaves has_pane_iff)
  have "leaves_placed (PaneId 1) (Place_Insert TabAnchor Right) (list_leaf_pane_ids example_row) ids \<Longrightarrow>
      ids = [PaneId 2, PaneId 3, PaneId 1]" for ids
    by (auto simp: leaves_placed_def anchor_run_def placed_beside_def leaves dest!: arg_cong [of "[PaneId 2, PaneId 3]" _ length])
  with offered_destinations_accepted [OF start offered, of example_tab] start show ?thesis by blast
qed

end
