(* ===== verification/Resize_Delta_Conversion.thy ===== *)
theory Resize_Delta_Conversion
  imports Resize Content Event
begin

text \<open>
  The rewrite of resize offsets (\<open>koshi-layout/src/solver/resize_delta_conversion.rs\<close>) that a tree laid
  out by the earlier solve gets. The earlier solve applied each offset before the preferred targets;
  the solver of \<open>Solver\<close> applies it after them. The counter the measurement passes by reference is
  threaded through the walk. A table of sizes is a map, and an offset, an \<open>i32\<close> of the code, an \<open>int\<close>.
\<close>

section \<open>Measuring the drawn size\<close>

fun measure_layout_size ::
    "(pane_id \<rightharpoonup> pty_size) \<Rightarrow> u16 \<Rightarrow> layout_node \<Rightarrow> nat \<Rightarrow> (cell_size \<times> nat) option"
  and measure_side_by_side ::
    "(pane_id \<rightharpoonup> pty_size) \<Rightarrow> u16 \<Rightarrow> bool \<Rightarrow> layout_node list \<Rightarrow> nat \<Rightarrow> u16 \<Rightarrow> u16 \<Rightarrow> nat \<Rightarrow>
     (u16 \<times> u16 \<times> nat) option"
  and measure_member ::
    "(pane_id \<rightharpoonup> pty_size) \<Rightarrow> u16 \<Rightarrow> layout_node list \<Rightarrow> nat \<Rightarrow> nat \<Rightarrow> (cell_size \<times> nat) option" where
  "measure_layout_size sizes gap (Pane p) measured =
     Option.bind (sizes p) (\<lambda>pty.
     Option.bind (checked_add (pty_column_count pty) 2) (\<lambda>columns.
     Option.bind (checked_add (pty_row_count pty) 2) (\<lambda>rows.
       Some (\<lparr>column_count = columns, row_count = rows\<rparr>, measured + 1))))"
| "measure_layout_size sizes gap (Split (SplitNode d cs ws a)) measured =
     (if d = Stacked then
        Option.bind (measure_member sizes gap cs (get_active_child_index (SplitNode d cs ws a)) measured)
          (\<lambda>(shown, measured').
           if length cs - 1 < 2 ^ 16 then
             map_option (\<lambda>rows. (\<lparr>column_count = column_count shown, row_count = rows\<rparr>, measured'))
               (checked_add (row_count shown) (of_nat (length cs - 1)))
           else None)
      else
        map_option
          (\<lambda>(axis, cross, measured').
             case split_axis_and_cross_cell_counts axis cross (d = Horizontal) of
               (columns, rows) \<Rightarrow> (\<lparr>column_count = columns, row_count = rows\<rparr>, measured'))
          (measure_side_by_side sizes gap (d = Horizontal) cs 0 0 0 measured))"
| "measure_side_by_side sizes gap h [] i axis cross measured = Some (axis, cross, measured)"
| "measure_side_by_side sizes gap h (c # cs) i axis cross measured =
     Option.bind (measure_layout_size sizes gap c measured) (\<lambda>(child_size, measured').
       case split_axis_and_cross_cell_counts (column_count child_size) (row_count child_size) h of
         (child_axis, child_cross) \<Rightarrow>
           Option.bind (checked_add axis (if i = 0 then 0 else gap)) (\<lambda>axis'.
           Option.bind (checked_add axis' child_axis) (\<lambda>axis''.
             measure_side_by_side sizes gap h cs (Suc i) axis'' child_cross measured')))"
| "measure_member sizes gap [] i measured = None"
| "measure_member sizes gap (c # cs) i measured =
     (if i = 0 then measure_layout_size sizes gap c measured else measure_member sizes gap cs (i - 1) measured)"

section \<open>The check of the drawn sizes\<close>

definition pty_cell_size :: "pty_size \<Rightarrow> cell_size" where
  "pty_cell_size pty = \<lparr>column_count = pty_column_count pty, row_count = pty_row_count pty\<rparr>"

fun count_preserved_panes :: "(pane_id \<rightharpoonup> pty_size) \<Rightarrow> (pane_id \<times> rect option) list \<Rightarrow> nat \<Rightarrow> nat option" where
  "count_preserved_panes sizes [] shown = Some shown"
| "count_preserved_panes sizes ((p, None) # contents) shown = count_preserved_panes sizes contents shown"
| "count_preserved_panes sizes ((p, Some r) # contents) shown =
     (if map_option pty_cell_size (sizes p) \<noteq> Some (rect_size r) then None
      else count_preserved_panes sizes contents (shown + 1))"

definition is_every_carried_pane_size_preserved ::
    "layout_node \<Rightarrow> rect \<Rightarrow> (pane_id \<rightharpoonup> pty_size) \<Rightarrow> nat \<Rightarrow> pane_sizing \<Rightarrow> bool" where
  "is_every_carried_pane_size_preserved t tab_rect sizes measured z =
     (count_preserved_panes sizes (list_content_rects (solve_layout_with_sizing t tab_rect z)) 0 = Some measured)"

section \<open>Rewriting at a rectangle\<close>

definition earlier_cell_counts :: "size_weight list \<Rightarrow> u16 list \<Rightarrow> u16 \<Rightarrow> u16 list" where
  "earlier_cell_counts ws floors available =
     (let shares = compute_share_cell_counts ws available;
          resized = apply_resize_deltas shares ws available;
          preferred = apply_preferred_cell_counts resized ws floors
      in clamp_cell_counts_to_floors preferred ws floors available)"

definition target_cell_counts :: "size_weight list \<Rightarrow> u16 list \<Rightarrow> u16 \<Rightarrow> u16 list" where
  "target_cell_counts ws floors available =
     (let shares = repair_cell_count_sum (compute_share_cell_counts ws available) available
      in apply_preferred_cell_counts shares ws floors)"

definition convert_split_resize_deltas :: "split_node \<Rightarrow> rect \<Rightarrow> pane_sizing \<Rightarrow> split_node" where
  "convert_split_resize_deltas s split_rect z =
     (let kept = list_kept_children s split_rect z;
          earlier = earlier_cell_counts (kept_weights kept) (kept_floors kept) (shared_cell_count kept)
      in if earlier = distribute_axis_cells (kept_weights kept) (kept_floors kept) (shared_cell_count kept) then s
         else
           (let targets = target_cell_counts (kept_weights kept) (kept_floors kept) (shared_cell_count kept);
                kept_child_indices = filter (\<lambda>i. is_child_kept kept ! i) [0..<length (is_child_kept kept)]
            in fold (\<lambda>(i, earlier_count, target). set_resize_delta i (int (unat earlier_count) - int (unat target)))
                 (zip kept_child_indices (zip earlier targets)) (pad_weights s)))"

fun convert_resize_deltas_at_rect :: "pane_sizing \<Rightarrow> layout_node \<Rightarrow> rect \<Rightarrow> layout_node"
  and convert_children :: "pane_sizing \<Rightarrow> layout_node list \<Rightarrow> rect list \<Rightarrow> layout_node list" where
  "convert_resize_deltas_at_rect z (Pane p) tab_rect = Pane p"
| "convert_resize_deltas_at_rect z (Split (SplitNode d cs ws a)) tab_rect =
     (if d = Stacked then
        (let member_rects = compute_stacked_child_rects (SplitNode d cs ws a) tab_rect z in
         case nth_opt member_rects (get_active_child_index (SplitNode d cs ws a)) of
           None \<Rightarrow> Split (SplitNode d cs ws a)
         | Some shown_rect \<Rightarrow>
             if is_empty shown_rect then Split (SplitNode d cs ws a)
             else Split (SplitNode d (convert_children z cs (replicate (length cs) shown_rect)) ws a))
      else
        (let converted = convert_split_resize_deltas (SplitNode d cs ws a) tab_rect z
         in Split (SplitNode (direction converted)
              (convert_children z cs (compute_directional_child_rects converted tab_rect z))
              (weights converted) (active_child_index converted))))"
| "convert_children z [] rects = []"
| "convert_children z (c # cs) [] = c # cs"
| "convert_children z (c # cs) (r # rects) =
     (if is_empty r then c else convert_resize_deltas_at_rect z c r) # convert_children z cs rects"

section \<open>The fold onto a sibling\<close>

definition fold_child_resize_delta :: "nat \<Rightarrow> split_node \<Rightarrow> split_node" where
  "fold_child_resize_delta i s =
     (case nth_opt (weights s) i of
        None \<Rightarrow> s
      | Some w \<Rightarrow>
          if get_preferred_cell_count w = None then s
          else
            (case find (\<lambda>j. j \<noteq> i \<and> is_flexible (weight_at (weights s) j)) (rev [0..<length (children s)]) of
               None \<Rightarrow> s
             | Some receiver \<Rightarrow>
                 (let padded = (if length (weights s) \<le> receiver then pad_weights s else s);
                      folded = resize_delta (weights padded ! i);
                      taken = set_resize_delta i 0 padded
                  in set_resize_delta receiver
                       (clamp_i32 (resize_delta (weights taken ! receiver) + folded)) taken)))"

definition fold_split_preferred_resize_deltas :: "split_node \<Rightarrow> split_node" where
  "fold_split_preferred_resize_deltas s = fold fold_child_resize_delta [0..<length (children s)] s"

fun fold_preferred_resize_deltas :: "layout_node \<Rightarrow> layout_node" where
  "fold_preferred_resize_deltas (Pane p) = Pane p"
| "fold_preferred_resize_deltas (Split (SplitNode d cs ws a)) =
     (let s = SplitNode d cs ws a;
          folded = (if d \<noteq> Stacked then fold_split_preferred_resize_deltas s else s)
      in Split (SplitNode (direction folded) (map fold_preferred_resize_deltas cs)
           (weights folded) (active_child_index folded)))"

section \<open>The conversion\<close>

definition convert_resize_deltas_to_apply_after_preferred ::
    "layout_node \<Rightarrow> (pane_id \<rightharpoonup> pty_size) \<Rightarrow> pane_sizing \<Rightarrow> layout_node" where
  "convert_resize_deltas_to_apply_after_preferred t sizes z =
     (case measure_layout_size sizes (gap_cell_count z) t 0 of
        Some (tab_size, measured) \<Rightarrow>
          (let tab_rect = from_size_at_origin tab_size;
               converted = convert_resize_deltas_at_rect z t tab_rect
           in if is_every_carried_pane_size_preserved converted tab_rect sizes measured z then converted
              else fold_preferred_resize_deltas t)
      | None \<Rightarrow> fold_preferred_resize_deltas t)"

end
