(* ===== verification/Resize_Delta_Correct.thy ===== *)
theory Resize_Delta_Correct
  imports Resize_Delta_Conversion
begin

text \<open>
  The rewrite of resize offsets changes nothing but offsets, and the solver then answers as the earlier
  solve did: first for one split, whose kept children do not depend on offsets, then for the tree.
\<close>

section \<open>Shares and targets ignore the offsets\<close>

definition plain_weight :: "size_weight \<Rightarrow> size_weight" where
  "plain_weight w = w\<lparr>resize_delta := 0\<rparr>"

lemma plain_weight_reads [simp]:
  "primary_constraint (plain_weight w) = primary_constraint w"
  "is_flexible (plain_weight w) = is_flexible w"
  "get_preferred_cell_count (plain_weight w) = get_preferred_cell_count w"
  "weight_floor (plain_weight w) = weight_floor w"
proof -
  show constraint: "primary_constraint (plain_weight w) = primary_constraint w" by (simp add: plain_weight_def)
  have overlays: "minimum_cell_count (plain_weight w) = minimum_cell_count w"
    "preferred_cell_count (plain_weight w) = preferred_cell_count w" by (simp_all add: plain_weight_def)
  show "is_flexible (plain_weight w) = is_flexible w" by (simp only: is_flexible_def constraint)
  show "get_preferred_cell_count (plain_weight w) = get_preferred_cell_count w"
    by (simp only: get_preferred_cell_count_def constraint overlays)
  show "weight_floor (plain_weight w) = weight_floor w" by (simp only: weight_floor_def constraint overlays)
qed

lemma claim_cells_plain [simp]: "claim_cells request (map plain_weight ws) cs remaining = claim_cells request ws cs remaining"
  by (induction request ws cs remaining rule: claim_cells.induct) (simp_all add: Let_def split: option.split)

lemma flexible_pairs_plain [simp]:
  "list_flexible_child_weight_pairs (map plain_weight ws) = list_flexible_child_weight_pairs ws"
proof -
  have "enumerate 0 (map plain_weight ws) = map (\<lambda>(i, w). (i, plain_weight w)) (enumerate 0 ws)"
    by (simp add: enumerate_eq_zip zip_map2)
  then show ?thesis
    by (simp add: list_flexible_child_weight_pairs_def List.map_filter_def filter_map o_def split_beta)
qed

lemma compute_share_plain [simp]: "compute_share_cell_counts (map plain_weight ws) available = compute_share_cell_counts ws available"
  by (simp add: compute_share_cell_counts_def)

lemma take_from_donors_plain:
  "\<forall>i \<in> set indices. i < length ws \<Longrightarrow>
     take_from_donors flexible_pass (map plain_weight ws) floors needed skipped indices (cs, taken) =
     take_from_donors flexible_pass ws floors needed skipped indices (cs, taken)"
  by (induction indices arbitrary: cs taken) (simp_all add: Let_def)

lemma length_take_from_donors:
  "length (fst (take_from_donors flexible_pass ws floors needed skipped indices (cs, taken))) = length cs"
  by (induction indices arbitrary: cs taken) (simp_all add: Let_def)

lemma length_apply_preferred [simp]: "length (apply_preferred_cell_count ws floors i cs) = length cs"
proof -
  have "length (fst (take_donor_cell_count cs ws floors needed i FlexibleOnly)) = length cs" for needed
    by (simp add: take_donor_cell_count_def length_take_from_donors)
  then show ?thesis
    by (auto simp: apply_preferred_cell_count_def Let_def split: option.split prod.split
        dest!: arg_cong [where f = "\<lambda>p. length (fst p)"])
qed

lemma apply_preferred_cell_count_plain:
  assumes "length cs = length ws" "i < length ws"
  shows "apply_preferred_cell_count (map plain_weight ws) floors i cs = apply_preferred_cell_count ws floors i cs"
proof -
  have "find_surplus_receiver (map plain_weight ws) i = find_surplus_receiver ws i"
    unfolding find_surplus_receiver_def by (rule find_cong) simp_all
  moreover have "take_donor_cell_count cs (map plain_weight ws) floors needed i FlexibleOnly =
      take_donor_cell_count cs ws floors needed i FlexibleOnly" for needed
    using assms by (simp add: take_donor_cell_count_def take_from_donors_plain)
  moreover have "get_preferred_cell_count (map plain_weight ws ! i) = get_preferred_cell_count (ws ! i)"
    using assms by simp
  ultimately show ?thesis by (simp only: apply_preferred_cell_count_def)
qed

lemma apply_preferred_plain:
  assumes "length cs = length ws"
  shows "apply_preferred_cell_counts cs (map plain_weight ws) floors = apply_preferred_cell_counts cs ws floors"
proof -
  have "fold (apply_preferred_cell_count (map plain_weight ws) floors) indices cs =
        fold (apply_preferred_cell_count ws floors) indices cs"
    if "\<forall>i \<in> set indices. i < length ws" for indices
    using assms that by (induction indices arbitrary: cs) (simp_all add: apply_preferred_cell_count_plain)
  then show ?thesis by (simp add: apply_preferred_cell_counts_def)
qed

lemma target_cell_counts_plain: "target_cell_counts (map plain_weight ws) floors available = target_cell_counts ws floors available"
  by (simp add: target_cell_counts_def apply_preferred_plain)

lemma target_cell_counts_cong:
  "map plain_weight ws' = map plain_weight ws \<Longrightarrow>
     target_cell_counts ws' floors available = target_cell_counts ws floors available"
  by (metis target_cell_counts_plain)

section \<open>One split\<close>

lemma clamp_at_floors:
  assumes "length floors = length cs" "\<forall>i < length cs. floors ! i \<le> cs ! i"
  shows "clamp_cell_counts_to_floors cs ws floors available = cs"
proof -
  have "fold (clamp_cell_count_to_floor ws floors) indices cs = cs" if "\<forall>i \<in> set indices. i < length cs" for indices
    using that
  proof (induction indices)
    case (Cons i indices)
    then have "clamp_cell_count_to_floor ws floors i cs = cs"
      using assms(2) by (simp add: clamp_cell_count_to_floor_def leD)
    with Cons show ?case by simp
  qed simp
  then show ?thesis by (simp add: clamp_cell_counts_to_floors_def)
qed

lemma target_cell_counts_length:
  assumes "ws \<noteq> []"
  shows "length (target_cell_counts ws floors available) = length ws"
proof -
  have "compute_share_cell_counts ws available \<noteq> []"
    using assms length_compute_share [of ws available] by (metis length_0_conv)
  then show ?thesis
    using apply_preferred_total [OF total_repair, of "compute_share_cell_counts ws available" available ws]
    by (simp add: target_cell_counts_def)
qed

lemma earlier_cell_counts_contract:
  assumes "length floors = length ws" "ws \<noteq> []"
  shows "cell_total (earlier_cell_counts ws floors available) = unat available"
    "length (earlier_cell_counts ws floors available) = length ws"
    "clamp_cell_counts_to_floors (earlier_cell_counts ws floors available) ws' floors available =
       earlier_cell_counts ws floors available"
proof -
  let ?resized = "apply_resize_deltas (compute_share_cell_counts ws available) ws available"
  let ?preferred = "apply_preferred_cell_counts ?resized ws floors"
  have "compute_share_cell_counts ws available \<noteq> []"
    using assms length_compute_share [of ws available] by (metis length_0_conv)
  then have "cell_total ?resized = unat available" "length ?resized = length ws"
    unfolding apply_resize_deltas_def using assms(2) by (simp_all add: total_repair zip_eq_Nil_iff)
  from apply_preferred_total [OF this]
  have preferred: "cell_total ?preferred = unat available" "length ?preferred = length ws" by blast+
  have "cell_total (earlier_cell_counts ws floors available) = unat available \<and>
    length (earlier_cell_counts ws floors available) = length ws \<and>
    clamp_cell_counts_to_floors (earlier_cell_counts ws floors available) ws' floors available =
       earlier_cell_counts ws floors available"
  proof (cases "cell_total floors \<le> unat available")
    case True
    then have "earlier_cell_counts ws floors available =
        fold (clamp_cell_count_to_floor ws floors) [0..<length ?preferred] ?preferred"
      by (simp add: earlier_cell_counts_def clamp_cell_counts_to_floors_def Let_def)
    with clamp_loop [OF preferred(1) _ _ True, of "length ?preferred" ws] preferred(2) assms(1)
    have "cell_total (earlier_cell_counts ws floors available) = unat available"
      "length (earlier_cell_counts ws floors available) = length ws"
      "\<forall>i < length ws. floors ! i \<le> earlier_cell_counts ws floors available ! i" by simp_all
    then show ?thesis using assms(1) by (simp add: clamp_at_floors)
  next
    case False
    with preferred show ?thesis by (simp add: earlier_cell_counts_def clamp_cell_counts_to_floors_def)
  qed
  then show "cell_total (earlier_cell_counts ws floors available) = unat available"
    "length (earlier_cell_counts ws floors available) = length ws"
    "clamp_cell_counts_to_floors (earlier_cell_counts ws floors available) ws' floors available =
       earlier_cell_counts ws floors available" by blast+
qed

text \<open>Offsets that are the differences to the targets turn the targets into the counts, exactly.\<close>

lemma apply_exact_offsets:
  assumes "length targets = length ws" "length counts = length ws" "cell_total counts = unat (available :: u16)"
    and "\<And>i. i < length ws \<Longrightarrow> resize_delta (ws ! i) = int (unat (counts ! i)) - int (unat (targets ! i))"
  shows "apply_resize_deltas targets ws available = counts"
proof -
  have "map2 (\<lambda>c w. of_int (max 0 (min (int (unat available)) (int (unat c) + resize_delta w)))) targets ws = counts"
  proof (rule nth_equalityI)
    fix i assume "i < length (map2 (\<lambda>c w. of_int (max 0 (min (int (unat available)) (int (unat c) + resize_delta w))) :: u16) targets ws)"
    then have i: "i < length ws" by simp
    have "uint (counts ! i) \<le> uint available"
      using total_le_u16 [OF assms(3)] i assms(2) by (simp add: word_le_nat_alt [symmetric] word_le_def [symmetric])
    then show "map2 (\<lambda>c w. of_int (max 0 (min (int (unat available)) (int (unat c) + resize_delta w)))) targets ws ! i =
        counts ! i"
      using i assms by (simp add: min_absorb2)
  qed (use assms in simp)
  then show ?thesis using repair_exact [OF assms(3)] by (simp add: apply_resize_deltas_def)
qed

lemma distribute_converted:
  assumes "length floors = length ws" "ws \<noteq> []" "map plain_weight ws' = map plain_weight ws"
    and "\<And>i. i < length ws \<Longrightarrow>
      resize_delta (ws' ! i) = int (unat (earlier_cell_counts ws floors available ! i)) -
        int (unat (target_cell_counts ws floors available ! i))"
  shows "distribute_axis_cells ws' floors available = earlier_cell_counts ws floors available"
proof -
  have len: "length ws' = length ws" using assms(3) by (rule map_eq_imp_length_eq)
  have "apply_resize_deltas (target_cell_counts ws floors available) ws' available = earlier_cell_counts ws floors available"
    using len assms earlier_cell_counts_contract [OF assms(1,2)] target_cell_counts_length [OF assms(2)]
    by (intro apply_exact_offsets) simp_all
  then show ?thesis
    using target_cell_counts_cong [OF assms(3), of floors available] earlier_cell_counts_contract(3) [OF assms(1,2)]
    by (simp add: distribute_axis_cells_def target_cell_counts_def Let_def)
qed

text \<open>The weights of the kept children are the weights at the kept positions.\<close>

lemma somes_at_positions:
  "(\<And>k w f. k < length slots \<Longrightarrow> slots ! k = Some (w, f) \<Longrightarrow> w = g k) \<Longrightarrow>
     map fst (somes slots) = map g (filter (\<lambda>k. slots ! k \<noteq> None) [0..<length slots])"
proof (induction slots arbitrary: g)
  case (Cons slot slots)
  have "map fst (somes slots) = map (g \<circ> Suc) (filter (\<lambda>k. slots ! k \<noteq> None) [0..<length slots])"
    using Cons.prems [of "Suc _"] by (intro Cons.IH) auto
  moreover have "filter (\<lambda>k. (slot # slots) ! k \<noteq> None) [0..<length (slot # slots)] =
      (if slot \<noteq> None then [0] else []) @ map Suc (filter (\<lambda>k. slots ! k \<noteq> None) [0..<length slots])"
    by (simp add: upt_conv_Cons map_Suc_upt [symmetric] filter_map o_def del: upt_Suc)
  ultimately show ?case using Cons.prems [of 0] by (cases slot) auto
qed simp

lemma keep_children_weight:
  "k < length cs \<Longrightarrow> keep_children s h z available cross cs i has_kept can_keep claimed ! k = Some (w, f) \<Longrightarrow>
     w = weight_at (weights s) (i + k)"
proof (induction cs arbitrary: i k has_kept can_keep claimed)
  case (Cons c cs)
  then show ?case
    by (cases k) (fastforce simp: keep_children_Cons split: if_splits)+
qed simp

definition kept_positions :: "split_node \<Rightarrow> rect \<Rightarrow> pane_sizing \<Rightarrow> nat list" where
  "kept_positions s r z = filter (\<lambda>k. slots_of s r z ! k \<noteq> None) [0..<length (children s)]"

lemma kept_positions_props:
  "distinct (kept_positions s r z)" "set (kept_positions s r z) \<subseteq> {..<length (children s)}"
  by (auto simp: kept_positions_def)

lemma kept_weights_at: "kept_weights (list_kept_children s r z) = map (weight_at (weights s)) (kept_positions s r z)"
proof -
  have "map fst (somes (slots_of s r z)) =
      map (weight_at (weights s)) (filter (\<lambda>k. slots_of s r z ! k \<noteq> None) [0..<length (slots_of s r z)])"
    by (rule somes_at_positions)
       (auto simp: slots_of_def Let_def dest: keep_children_weight split: prod.splits)
  then show ?thesis by (simp add: list_kept_children_sel kept_positions_def)
qed

lemma kept_indices_eq:
  "filter (\<lambda>i. is_child_kept (list_kept_children s r z) ! i) [0..<length (is_child_kept (list_kept_children s r z))] =
     kept_positions s r z"
  by (auto simp: list_kept_children_sel kept_positions_def intro!: filter_cong)

text \<open>Splits whose weights differ in offsets only keep the same children at the same floors.\<close>

definition same_but_offsets :: "pane_sizing \<Rightarrow> split_node \<Rightarrow> split_node \<Rightarrow> bool" where
  "same_but_offsets z s' s \<longleftrightarrow>
     direction s' = direction s \<and> active_child_index s' = active_child_index s \<and>
     (\<forall>i. plain_weight (weight_at (weights s') i) = plain_weight (weight_at (weights s) i)) \<and>
     map (\<lambda>c. compute_minimum_size c z) (children s') = map (\<lambda>c. compute_minimum_size c z) (children s)"

lemma same_but_offsets_length: "same_but_offsets z s' s \<Longrightarrow> length (children s') = length (children s)"
  unfolding same_but_offsets_def using map_eq_imp_length_eq by blast

lemma keep_children_offsets:
  assumes "\<And>i. plain_weight (weight_at (weights s') i) = plain_weight (weight_at (weights s) i)"
    and "map (\<lambda>c. compute_minimum_size c z) cs' = map (\<lambda>c. compute_minimum_size c z) cs"
  shows "map (map_option snd) (keep_children s' h z available cross cs' i has_kept can_keep claimed) =
         map (map_option snd) (keep_children s h z available cross cs i has_kept can_keep claimed)"
  using assms(2)
proof (induction cs arbitrary: cs' i has_kept can_keep claimed)
  case (Cons c cs)
  then obtain c' cs'' where cs': "cs' = c' # cs''" "compute_minimum_size c' z = compute_minimum_size c z"
    "map (\<lambda>c. compute_minimum_size c z) cs'' = map (\<lambda>c. compute_minimum_size c z) cs" by (cases cs') auto
  have "weight_floor (weight_at (weights s') i) = weight_floor (weight_at (weights s) i)"
    by (metis assms(1) plain_weight_reads(4))
  then have floor: "compute_child_floor s' i m = compute_child_floor s i m" for m by (simp add: child_floor_weight)
  have "cross_minimum h z c' = cross_minimum h z c" "axis_minimum h z c' = axis_minimum h z c"
    using cs'(2) by (simp_all add: cross_minimum_def axis_minimum_def)
  moreover from this have "claimed_with s' h z has_kept i c' claimed = claimed_with s h z has_kept i c claimed"
    by (simp add: claimed_with_def floor)
  ultimately show ?case by (simp add: keep_children_Cons cs'(1) Cons.IH [OF cs'(3)] floor)
qed simp

lemma somes_snd: "map snd (somes slots) = somes (map (map_option snd) slots)"
proof (induction slots)
  case (Cons slot slots)
  then show ?case by (cases slot) simp_all
qed simp

lemma kept_slots_offsets:
  assumes "same_but_offsets z s' s"
  shows "map (map_option snd) (slots_of s' r z) = map (map_option snd) (slots_of s r z)"
  using assms keep_children_offsets [of s' s z "children s'" "children s"]
  by (simp add: slots_of_def Let_def same_but_offsets_def split: prod.split)

lemma kept_positions_offsets:
  assumes "same_but_offsets z s' s"
  shows "kept_positions s' r z = kept_positions s r z"
proof -
  have "slots_of s' r z ! k = None \<longleftrightarrow> slots_of s r z ! k = None" if "k < length (children s)" for k
    using arg_cong [OF kept_slots_offsets [OF assms, of r], of "\<lambda>l. l ! k = None"] that
      same_but_offsets_length [OF assms] by simp
  then show ?thesis
    using same_but_offsets_length [OF assms]
    unfolding kept_positions_def by (intro filter_cong) (simp_all del: not_None_eq)
qed

lemma shared_cell_count_slots:
  "shared_cell_count (list_kept_children s r z) =
     sat_sub (fst (split_axis_and_cross_cell_counts (column_count (rect_size r)) (row_count (rect_size r)) (direction s = Horizontal)))
       (sat_mul (gap_cell_count z) (of_nat (length (kept_floors (list_kept_children s r z)) - 1)))"
  by (simp add: list_kept_children_def Let_def split: prod.split)

lemma kept_children_offsets:
  assumes "same_but_offsets z s' s"
  shows "list_kept_children s' r z =
    (list_kept_children s r z)\<lparr>kept_weights := map (weight_at (weights s')) (kept_positions s r z)\<rparr>"
proof -
  note slots = kept_slots_offsets [OF assms, of r]
  have pattern: "map (\<lambda>slot. slot \<noteq> None) xs = map (\<lambda>slot. slot \<noteq> None) (map (map_option snd) xs)"
    for xs :: "(size_weight \<times> u16) option list" by (simp del: not_None_eq)
  have "is_child_kept (list_kept_children s' r z) = is_child_kept (list_kept_children s r z)"
    unfolding list_kept_children_sel by (subst (1 2) pattern) (simp only: slots)
  moreover have floors: "kept_floors (list_kept_children s' r z) = kept_floors (list_kept_children s r z)"
    unfolding list_kept_children_sel somes_snd slots ..
  moreover have "shared_cell_count (list_kept_children s' r z) = shared_cell_count (list_kept_children s r z)"
    unfolding shared_cell_count_slots floors using assms by (simp add: same_but_offsets_def)
  moreover have "kept_weights (list_kept_children s' r z) = map (weight_at (weights s')) (kept_positions s r z)"
    by (simp add: kept_weights_at kept_positions_offsets [OF assms])
  ultimately show ?thesis by simp
qed

section \<open>The rewritten split\<close>

lemma write_offsets_sel:
  "direction (fold (\<lambda>(i, x). set_resize_delta i (f x)) updates s) = direction s"
  "children (fold (\<lambda>(i, x). set_resize_delta i (f x)) updates s) = children s"
  "active_child_index (fold (\<lambda>(i, x). set_resize_delta i (f x)) updates s) = active_child_index s"
  "length (weights (fold (\<lambda>(i, x). set_resize_delta i (f x)) updates s)) = length (weights s)"
  by (induction updates arbitrary: s) auto

lemma weights_set_resize_delta: "weights (set_resize_delta i x s) = (weights s)[i := (weights s ! i)\<lparr>resize_delta := x\<rparr>]"
  by (cases s) (simp add: set_resize_delta_def)

lemma write_offsets_nth:
  fixes f
  assumes "distinct indices" "length xs = length indices" "\<forall>i \<in> set indices. i < length (weights s)"
  defines "s' \<equiv> fold (\<lambda>(i, x). set_resize_delta i (f x)) (zip indices xs) s"
  shows "(\<forall>k < length indices. weights s' ! (indices ! k) = (weights s ! (indices ! k))\<lparr>resize_delta := f (xs ! k)\<rparr>) \<and>
         (\<forall>i. i \<notin> set indices \<longrightarrow> weights s' ! i = weights s ! i)"
  using assms(2,1,3) unfolding s'_def
proof (induction xs indices arbitrary: s rule: list_induct2)
  case (Cons x xs i indices)
  let ?s = "set_resize_delta i (f x) s"
  from Cons.IH [of ?s] Cons.prems have IH:
    "\<forall>k < length indices. weights (fold (\<lambda>(i, x). set_resize_delta i (f x)) (zip indices xs) ?s) ! (indices ! k) =
        (weights ?s ! (indices ! k))\<lparr>resize_delta := f (xs ! k)\<rparr>"
    "\<forall>j. j \<notin> set indices \<longrightarrow> weights (fold (\<lambda>(i, x). set_resize_delta i (f x)) (zip indices xs) ?s) ! j = weights ?s ! j"
    by auto
  have "i \<noteq> indices ! k" if "k < length indices" for k using Cons.prems(1) that by auto
  with IH Cons.prems show ?case
    by (auto simp: weights_set_resize_delta nth_Cons less_Suc_eq_0_disj split: nat.split)
qed simp

lemma weight_at_pad: "weight_at (weights (pad_weights s)) i = weight_at (weights s) i"
  by (cases s) (simp add: pad_weights_def weight_at_def nth_opt_def nth_append)

lemma weight_at_nth: "i < length ws \<Longrightarrow> weight_at ws i = ws ! i"
  by (simp add: weight_at_def nth_opt_def)

lemma weight_at_beyond: "\<not> i < length ws \<Longrightarrow> weight_at ws i = default_size_weight"
  by (simp add: weight_at_def nth_opt_def)

definition earlier_directional_child_rects :: "split_node \<Rightarrow> rect \<Rightarrow> pane_sizing \<Rightarrow> rect list" where
  "earlier_directional_child_rects s split_rect z =
     (let kept = list_kept_children s split_rect z;
          child_cell_counts =
            earlier_cell_counts (kept_weights kept) (kept_floors kept) (shared_cell_count kept)
      in place_children (direction s = Horizontal) split_rect (gap_cell_count z) (is_child_kept kept)
           child_cell_counts 0)"

lemma earlier_none [simp]: "earlier_cell_counts [] floors available = []"
  by (simp add: earlier_cell_counts_def clamp_cell_counts_to_floors_def apply_resize_deltas_def
      apply_preferred_cell_counts_def compute_share_cell_counts_def list_flexible_child_weight_pairs_def
      repair_cell_count_sum_def List.map_filter_def)

lemma offset_triples:
  "(\<lambda>(i, e, t). set_resize_delta i (int (unat e) - int (unat t))) =
     (\<lambda>(i, x). set_resize_delta i (case x of (e, t) \<Rightarrow> int (unat (e :: u16)) - int (unat (t :: u16))))"
  by (simp add: fun_eq_iff)

lemma convert_split_offsets:
  assumes "earlier_cell_counts (kept_weights kept) (kept_floors kept) (shared_cell_count kept) \<noteq>
        distribute_axis_cells (kept_weights kept) (kept_floors kept) (shared_cell_count kept)"
    and kept: "kept = list_kept_children s r z"
  defines "s' \<equiv> convert_split_resize_deltas s r z"
  shows "same_but_offsets z s' s" "children s' = children s"
    "\<And>k. k < length (kept_positions s r z) \<Longrightarrow>
       resize_delta (weight_at (weights s') (kept_positions s r z ! k)) =
         int (unat (earlier_cell_counts (kept_weights kept) (kept_floors kept) (shared_cell_count kept) ! k)) -
         int (unat (target_cell_counts (kept_weights kept) (kept_floors kept) (shared_cell_count kept) ! k))"
proof -
  let ?e = "earlier_cell_counts (kept_weights kept) (kept_floors kept) (shared_cell_count kept)"
  let ?t = "target_cell_counts (kept_weights kept) (kept_floors kept) (shared_cell_count kept)"
  let ?idx = "kept_positions s r z" and ?f = "\<lambda>(e, t). int (unat e) - int (unat (t :: u16))"
  have s': "s' = fold (\<lambda>(i, x). set_resize_delta i (?f x)) (zip ?idx (zip ?e ?t)) (pad_weights s)"
    using assms(1) unfolding s'_def convert_split_resize_deltas_def kept kept_indices_eq Let_def
    by (simp only: if_False offset_triples)
  have nonempty: "kept_weights kept \<noteq> []" using assms(1) by auto
  have floors: "length (kept_floors kept) = length (kept_weights kept)" by (simp add: kept list_kept_children_sel)
  have len: "length (kept_weights kept) = length ?idx" by (simp add: kept kept_weights_at)
  note lens = len earlier_cell_counts_contract(2) [OF floors nonempty] target_cell_counts_length [OF nonempty]
  have range: "\<forall>i \<in> set ?idx. i < length (weights (pad_weights s))"
    using kept_positions_props(2) [of s r z] pad_weights_sel(5) [of s] less_le_trans by blast
  from write_offsets_nth [OF kept_positions_props(1) _ range, of "zip ?e ?t" ?f] lens
  have nth: "\<And>k. k < length ?idx \<Longrightarrow> weights s' ! (?idx ! k) =
        (weights (pad_weights s) ! (?idx ! k))\<lparr>resize_delta := int (unat (?e ! k)) - int (unat (?t ! k))\<rparr>"
    "\<And>i. i \<notin> set ?idx \<Longrightarrow> weights s' ! i = weights (pad_weights s) ! i"
    by (simp_all add: s')
  have sel: "direction s' = direction s" "children s' = children s" "active_child_index s' = active_child_index s"
    "length (weights s') = length (weights (pad_weights s))"
    by (simp_all add: s' write_offsets_sel)
  show "children s' = children s" by (rule sel(2))
  show "resize_delta (weight_at (weights s') (?idx ! k)) = int (unat (?e ! k)) - int (unat (?t ! k))"
    if "k < length ?idx" for k
    using nth(1) [OF that] range that sel(4) by (simp add: weight_at_nth)
  have "plain_weight (weight_at (weights s') i) = plain_weight (weight_at (weights (pad_weights s)) i)" for i
  proof (cases "i < length (weights (pad_weights s))")
    case True
    moreover have "plain_weight (weights s' ! i) = plain_weight (weights (pad_weights s) ! i)"
      using nth by (cases "i \<in> set ?idx") (auto simp: in_set_conv_nth plain_weight_def)
    ultimately show ?thesis using sel(4) by (simp add: weight_at_nth)
  qed (simp add: weight_at_beyond sel(4))
  then show "same_but_offsets z s' s" by (simp add: same_but_offsets_def sel weight_at_pad)
qed

text \<open>The solver gives the rewritten split the rectangles the earlier solve gave it.\<close>

lemma converted_split_rects:
  "compute_directional_child_rects (convert_split_resize_deltas s r z) r z = earlier_directional_child_rects s r z"
proof -
  define kept where kept: "kept = list_kept_children s r z"
  let ?e = "earlier_cell_counts (kept_weights kept) (kept_floors kept) (shared_cell_count kept)"
  let ?s = "convert_split_resize_deltas s r z"
  show ?thesis
  proof (cases "?e = distribute_axis_cells (kept_weights kept) (kept_floors kept) (shared_cell_count kept)")
    case True
    then have "?s = s" by (simp add: convert_split_resize_deltas_def kept Let_def)
    then show ?thesis using True
      by (simp add: compute_directional_child_rects_def earlier_directional_child_rects_def kept Let_def)
  next
    case False
    note conv = convert_split_offsets [OF False kept]
    have nonempty: "kept_weights kept \<noteq> []" using False by auto
    have floors: "length (kept_floors kept) = length (kept_weights kept)" by (simp add: kept list_kept_children_sel)
    let ?ws = "map (weight_at (weights ?s)) (kept_positions s r z)"
    have ws: "kept_weights kept = map (weight_at (weights s)) (kept_positions s r z)" by (simp add: kept kept_weights_at)
    have "distribute_axis_cells ?ws (kept_floors kept) (shared_cell_count kept) = ?e"
    proof (rule distribute_converted [OF floors nonempty])
      show "map plain_weight ?ws = map plain_weight (kept_weights kept)"
        using conv(1) by (simp add: ws same_but_offsets_def)
    qed (simp add: conv(3) ws)
    moreover have "direction ?s = direction s" using conv(1) by (simp add: same_but_offsets_def)
    ultimately show ?thesis
      unfolding compute_directional_child_rects_def earlier_directional_child_rects_def
      by (simp add: kept_children_offsets [OF conv(1)] kept Let_def)
  qed
qed

section \<open>The earlier solve\<close>

text \<open>
  The solve the sources describe as the earlier one: the solver of \<open>Solver\<close> with the earlier counts in
  every directional split.
\<close>

fun earlier_solve_layout_node :: "layout_node \<Rightarrow> rect \<Rightarrow> layout_solve_state \<Rightarrow> layout_solve_state"
  and earlier_solve_children :: "layout_node list \<Rightarrow> rect list \<Rightarrow> layout_solve_state \<Rightarrow> layout_solve_state"
  and earlier_solve_members ::
    "layout_node list \<Rightarrow> rect list \<Rightarrow> nat \<Rightarrow> nat \<Rightarrow> nat \<Rightarrow> layout_solve_state \<Rightarrow> layout_solve_state" where
  "earlier_solve_layout_node (Pane p) r st = solve_layout_node (Pane p) r st"
| "earlier_solve_layout_node (Split (SplitNode d cs ws a)) r st =
     (if d = Stacked then
        earlier_solve_members cs (compute_stacked_child_rects (SplitNode d cs ws a) r (state_pane_sizing st)) 0
          (get_active_child_index (SplitNode d cs ws a)) (length cs) st
      else
        earlier_solve_children cs (earlier_directional_child_rects (SplitNode d cs ws a) r (state_pane_sizing st)) st)"
| "earlier_solve_children [] rs st = st"
| "earlier_solve_children (c # cs) [] st = st"
| "earlier_solve_children (c # cs) (r # rs) st =
     earlier_solve_children cs rs
       (if is_empty r then suppress_layout_subtree c st else earlier_solve_layout_node c r st)"
| "earlier_solve_members [] rs i active members st = st"
| "earlier_solve_members (c # cs) [] i active members st = st"
| "earlier_solve_members (c # cs) (r # rs) i active members st =
     earlier_solve_members cs rs (Suc i) active members
       (if is_empty r then suppress_layout_subtree c st
        else if i = active then earlier_solve_layout_node c r st
        else emit_stack_header c r i members st)"

definition earlier_solve_layout :: "layout_node \<Rightarrow> rect \<Rightarrow> pane_sizing \<Rightarrow> layout_solve" where
  "earlier_solve_layout t tab_rect z =
     into_layout_solve (earlier_solve_layout_node t tab_rect (from_pane_sizing z))"

section \<open>Only offsets change\<close>

lemma same_but_offsets_refl [simp]: "same_but_offsets z s s"
  by (simp add: same_but_offsets_def)

lemma plain_weights_fold:
  assumes "length (children s) \<le> length (weights s)"
  shows "plain_weights (fold (\<lambda>(i, x). set_resize_delta i (f x)) updates s) = plain_weights s"
  using assms
proof (induction updates arbitrary: s)
  case (Cons u updates)
  then show ?case by (cases u) (simp add: plain_weights_set_resize_delta)
qed simp

lemma convert_split_same: "same_but_offsets z (convert_split_resize_deltas s r z) s"
  "children (convert_split_resize_deltas s r z) = children s"
  using convert_split_offsets [OF _ refl] by (auto simp: convert_split_resize_deltas_def Let_def)

lemma convert_split_plain: "plain_weights (convert_split_resize_deltas s r z) = plain_weights s"
  unfolding convert_split_resize_deltas_def offset_triples Let_def
  by (simp add: plain_weights_fold del: int_nat_eq)

lemma convert_children_map:
  "(\<And>c r. c \<in> set cs \<Longrightarrow> f (convert_resize_deltas_at_rect z c r) = f c) \<Longrightarrow>
     map f (convert_children z cs rects) = map f cs"
proof (induction cs arbitrary: rects)
  case (Cons c cs)
  then show ?case by (cases rects) simp_all
qed simp

lemma length_convert_children [simp]: "length (convert_children z cs rects) = length cs"
  using convert_children_map [of cs "\<lambda>_. ()" z rects] by (intro map_eq_imp_length_eq) auto

lemma plain_weights_children:
  "length cs = length (children s) \<Longrightarrow>
     plain_weights (SplitNode (direction s) cs (weights s) (active_child_index s)) = plain_weights s"
  by (cases s) (simp add: plain_weights_def pad_weights_def)

text \<open>The node a split becomes: a directional split gets the rewritten weights, a stack keeps its own.\<close>

lemma convert_directional:
  "direction s \<noteq> Stacked \<Longrightarrow> c = convert_split_resize_deltas s r z \<Longrightarrow>
     convert_resize_deltas_at_rect z (Split s) r =
       Split (SplitNode (direction c) (convert_children z (children s) (compute_directional_child_rects c r z))
         (weights c) (active_child_index c))"
  by (cases s) (simp add: Let_def)

lemma convert_stacked:
  "direction s = Stacked \<Longrightarrow> nth_opt (compute_stacked_child_rects s r z) (get_active_child_index s) = Some q \<Longrightarrow>
     \<not> is_empty q \<Longrightarrow> convert_resize_deltas_at_rect z (Split s) r =
       Split (SplitNode (direction s) (convert_children z (children s) (replicate (length (children s)) q))
         (weights s) (active_child_index s))"
  by (cases s) (auto simp: nth_opt_def)

lemma convert_hidden_stack:
  "direction s = Stacked \<Longrightarrow>
     \<forall>q. nth_opt (compute_stacked_child_rects s r z) (get_active_child_index s) = Some q \<longrightarrow> is_empty q \<Longrightarrow>
     convert_resize_deltas_at_rect z (Split s) r = Split s"
  by (cases s) (simp add: Let_def split: option.split)

lemma convert_without_offsets: "without_offsets (convert_resize_deltas_at_rect z t r) = without_offsets t"
proof (induction t arbitrary: r rule: layout_node_induct)
  case (Split d cs ws a)
  let ?s = "SplitNode d cs ws a" and ?q = "\<lambda>s. nth_opt (compute_stacked_child_rects s r z) (get_active_child_index s)"
  let ?c = "convert_split_resize_deltas ?s r z"
  have cs: "map without_offsets (convert_children z cs rects) = map without_offsets cs" for rects
    using Split by (rule convert_children_map)
  have plain: "plain_weights (SplitNode (direction c) (convert_children z cs rects) (weights c) (active_child_index c)) =
      plain_weights c" if "children c = cs" for c rects
    using plain_weights_children [of "convert_children z cs rects" c] that by simp
  consider "d \<noteq> Stacked" | q where "d = Stacked" "?q ?s = Some q" "\<not> is_empty q"
    | "d = Stacked" "\<forall>q. ?q ?s = Some q \<longrightarrow> is_empty q" by blast
  then show ?case
  proof cases
    case 1
    have "children ?c = cs" "direction ?c = d" "active_child_index ?c = a"
      using convert_split_same(1) [of z ?s r] convert_split_same(2) [of ?s r z] by (simp_all add: same_but_offsets_def)
    then show ?thesis
      using 1 plain [of ?c] convert_split_plain [of ?s r z] cs
      by (simp add: convert_directional [OF _ refl] without_offsets_split del: without_offsets.simps convert_resize_deltas_at_rect.simps)
  next
    case 2
    then show ?thesis using plain [of ?s] cs
      by (simp add: convert_stacked without_offsets_split del: without_offsets.simps convert_resize_deltas_at_rect.simps)
  next
    case 3
    then show ?thesis by (simp add: convert_hidden_stack del: convert_resize_deltas_at_rect.simps)
  qed
qed simp

lemma convert_leaves: "list_leaf_pane_ids (convert_resize_deltas_at_rect z t r) = list_leaf_pane_ids t"
  by (metis convert_without_offsets without_offsets_leaves)

lemma convert_minimum: "compute_minimum_size (convert_resize_deltas_at_rect z t r) z' = compute_minimum_size t z'"
  by (metis convert_without_offsets minimum_without_offsets)

lemma convert_children_minima:
  "map (\<lambda>c. compute_minimum_size c z') (convert_children z cs rects) = map (\<lambda>c. compute_minimum_size c z') cs"
  by (rule convert_children_map) (rule convert_minimum)

section \<open>The rewritten tree solves as the earlier solve did\<close>

lemma hidden_members_solve:
  "\<forall>k. i + k = active \<longrightarrow> k < length rs \<longrightarrow> is_empty (rs ! k) \<Longrightarrow>
     earlier_solve_members cs rs i active members st = solve_members cs rs i active members st"
proof (induction cs arbitrary: rs i st)
  case (Cons c cs)
  show ?case
  proof (cases rs)
    case (Cons r rs')
    with Cons.prems have "\<forall>k. Suc i + k = active \<longrightarrow> k < length rs' \<longrightarrow> is_empty (rs' ! k)" "i = active \<longrightarrow> is_empty r"
      by (fastforce, fastforce)
    with Cons Cons.IH show ?thesis by simp
  qed simp
qed simp

lemma converted_children_solve:
  assumes "\<And>c r st. c \<in> set cs \<Longrightarrow> state_pane_sizing st = z \<Longrightarrow>
      solve_layout_node (convert_resize_deltas_at_rect z c r) r st = earlier_solve_layout_node c r st"
    and "state_pane_sizing st = z"
  shows "solve_children (convert_children z cs rs) rs st = earlier_solve_children cs rs st"
  using assms
proof (induction cs arbitrary: rs st)
  case (Cons c cs)
  show ?case
  proof (cases rs)
    case (Cons r rs')
    have "solve_layout_node (convert_resize_deltas_at_rect z c r) r st = earlier_solve_layout_node c r st"
      using Cons.prems by simp
    moreover from this have "state_pane_sizing (earlier_solve_layout_node c r st) = z"
      using Cons.prems(2) by (metis solve_sizing(1))
    ultimately show ?thesis using Cons.prems Cons.IH by (simp add: Cons)
  qed simp
qed simp

lemma converted_members_solve:
  assumes "\<And>c r st. c \<in> set cs \<Longrightarrow> state_pane_sizing st = z \<Longrightarrow>
      solve_layout_node (convert_resize_deltas_at_rect z c r) r st = earlier_solve_layout_node c r st"
    and "state_pane_sizing st = z" "\<not> is_empty q"
    and "\<forall>k. i + k = active \<longrightarrow> k < length rs \<longrightarrow> rs ! k = q"
  shows "solve_members (convert_children z cs (replicate (length cs) q)) rs i active members st =
         earlier_solve_members cs rs i active members st"
  using assms
proof (induction cs arbitrary: rs i st)
  case (Cons c cs)
  show ?case
  proof (cases rs)
    case (Cons r rs')
    have tail: "\<forall>k. Suc i + k = active \<longrightarrow> k < length rs' \<longrightarrow> rs' ! k = q" and here: "i = active \<longrightarrow> r = q"
      using Cons.prems(4) Cons by (fastforce, fastforce)
    have same: "suppress_layout_subtree (convert_resize_deltas_at_rect z c q) st = suppress_layout_subtree c st"
      "emit_stack_header (convert_resize_deltas_at_rect z c q) r i members st = emit_stack_header c r i members st"
      by (simp_all add: suppress_layout_subtree_def emit_stack_header_def convert_leaves)
    have node: "solve_layout_node (convert_resize_deltas_at_rect z c q) q st = earlier_solve_layout_node c q st"
      using Cons.prems by simp
    then have "state_pane_sizing (earlier_solve_layout_node c q st) = z" using Cons.prems(2) by (metis solve_sizing(1))
    then show ?thesis using Cons.prems(1-3) Cons.IH [OF _ _ _ tail] here same node by (auto simp: Cons)
  qed simp
qed simp

lemma converted_node_solve:
  "state_pane_sizing st = z \<Longrightarrow>
     solve_layout_node (convert_resize_deltas_at_rect z t r) r st = earlier_solve_layout_node t r st"
proof (induction t arbitrary: r st rule: layout_node_induct)
  case (Split d cs ws a)
  let ?s = "SplitNode d cs ws a" and ?q = "\<lambda>s. nth_opt (compute_stacked_child_rects s r z) (get_active_child_index s)"
  let ?c = "convert_split_resize_deltas ?s r z"
  let ?n = "\<lambda>rects. SplitNode d (convert_children z cs rects) ws a"
  have stack: "compute_stacked_child_rects (?n rects) r z = compute_stacked_child_rects ?s r z"
    "get_active_child_index (?n rects) = get_active_child_index ?s" for rects
    by (simp_all add: stacked_rects_cong convert_children_minima get_active_child_index_def)
  consider "d \<noteq> Stacked" | q where "d = Stacked" "?q ?s = Some q" "\<not> is_empty q"
    | "d = Stacked" "\<forall>q. ?q ?s = Some q \<longrightarrow> is_empty q" by blast
  then show ?case
  proof cases
    case 1
    have c: "children ?c = cs" "direction ?c = d" "active_child_index ?c = a"
      using convert_split_same(1) [of z ?s r] convert_split_same(2) [of ?s r z] by (simp_all add: same_but_offsets_def)
    have "compute_directional_child_rects (SplitNode d (convert_children z cs rects) (weights ?c) a) r z =
        earlier_directional_child_rects ?s r z" for rects
      using directional_rects_cong [of "SplitNode d (convert_children z cs rects) (weights ?c) a" ?c z r]
      by (simp add: c convert_children_minima converted_split_rects)
    then show ?thesis using 1 Split.prems converted_children_solve [OF Split.IH]
      by (simp add: convert_directional [OF _ refl] c converted_split_rects del: convert_resize_deltas_at_rect.simps)
  next
    case 2
    then have "\<forall>k. 0 + k = get_active_child_index ?s \<longrightarrow> k < length (compute_stacked_child_rects ?s r z) \<longrightarrow>
        compute_stacked_child_rects ?s r z ! k = q"
      by (auto simp: nth_opt_def split: if_splits)
    with converted_members_solve [OF Split.IH Split.prems 2(3) this] 2 show ?thesis
      using Split.prems stack by (simp add: convert_stacked del: convert_resize_deltas_at_rect.simps)
  next
    case 3
    then have "\<forall>k. 0 + k = get_active_child_index ?s \<longrightarrow> k < length (compute_stacked_child_rects ?s r z) \<longrightarrow>
        is_empty (compute_stacked_child_rects ?s r z ! k)"
      by (auto simp: nth_opt_def split: if_splits)
    from hidden_members_solve [OF this] 3 show ?thesis
      using Split.prems by (simp add: convert_hidden_stack del: convert_resize_deltas_at_rect.simps)
  qed
qed simp

lemma converted_tree_solve:
  "solve_layout_with_sizing (convert_resize_deltas_at_rect z t r) r z = earlier_solve_layout t r z"
  by (simp add: solve_layout_with_sizing_def earlier_solve_layout_def converted_node_solve from_pane_sizing_def)

text \<open>
  C21. Rewriting the offsets of a tree at a rectangle changes the solver's answer there to the earlier
  solve's: every pane gets the rectangle, every suppressed pane and every stack header is the one that
  applying the offsets before the preferred targets gave, for every tree, rectangle and pane sizing.
\<close>

theorem converted_tree_solves_as_earlier:
  "solve_layout_with_sizing (convert_resize_deltas_at_rect z t r) r z = earlier_solve_layout t r z"
  by (rule converted_tree_solve)

section \<open>The fold\<close>

lemma plain_weights_write: "plain_weights (set_resize_delta i x s) = plain_weights s"
proof (cases "i < length (weights s)")
  case True
  have "map (\<lambda>w. w\<lparr>resize_delta := 0\<rparr>) ((weights s)[i := (weights s ! i)\<lparr>resize_delta := x\<rparr>]) =
      map (\<lambda>w. w\<lparr>resize_delta := 0\<rparr>) (weights s)"
    using True by (simp add: map_update list_update_same_conv)
  then show ?thesis by (cases s) (simp add: plain_weights_def pad_weights_def set_resize_delta_def)
qed (cases s, simp add: set_resize_delta_def list_update_beyond)

lemma fold_child_keeps:
  "plain_weights (fold_child_resize_delta i s) = plain_weights s"
  "direction (fold_child_resize_delta i s) = direction s" "children (fold_child_resize_delta i s) = children s"
  "active_child_index (fold_child_resize_delta i s) = active_child_index s"
  by (auto simp: fold_child_resize_delta_def Let_def plain_weights_write split: option.split)

lemma fold_split_keeps:
  "plain_weights (fold_split_preferred_resize_deltas s) = plain_weights s"
  "direction (fold_split_preferred_resize_deltas s) = direction s"
  "children (fold_split_preferred_resize_deltas s) = children s"
  "active_child_index (fold_split_preferred_resize_deltas s) = active_child_index s"
proof -
  have "plain_weights (fold fold_child_resize_delta is s) = plain_weights s \<and>
      direction (fold fold_child_resize_delta is s) = direction s \<and>
      children (fold fold_child_resize_delta is s) = children s \<and>
      active_child_index (fold fold_child_resize_delta is s) = active_child_index s" for "is"
    by (induction "is" arbitrary: s) (simp_all add: fold_child_keeps)
  then show "plain_weights (fold_split_preferred_resize_deltas s) = plain_weights s"
    "direction (fold_split_preferred_resize_deltas s) = direction s"
    "children (fold_split_preferred_resize_deltas s) = children s"
    "active_child_index (fold_split_preferred_resize_deltas s) = active_child_index s"
    by (simp_all add: fold_split_preferred_resize_deltas_def)
qed

lemma fold_without_offsets: "without_offsets (fold_preferred_resize_deltas t) = without_offsets t"
proof (induction t rule: layout_node_induct)
  case (Split d cs ws a)
  let ?s = "SplitNode d cs ws a"
  let ?f = "if d \<noteq> Stacked then fold_split_preferred_resize_deltas ?s else ?s"
  have f: "plain_weights ?f = plain_weights ?s" "direction ?f = d" "children ?f = cs" "active_child_index ?f = a"
    using fold_split_keeps [of ?s] by auto
  have "map (without_offsets \<circ> fold_preferred_resize_deltas) cs = map without_offsets cs" using Split by simp
  then show ?case
    using plain_weights_children [of "map fold_preferred_resize_deltas cs" ?f] f
    by (simp add: Let_def without_offsets_split del: without_offsets.simps)
qed simp

text \<open>
  The fold moves offsets between the children of a split: their sum stays, and the sum of their sizes
  does not grow, so that an addition saturates only where the offsets together leave \<open>i32\<close>.
\<close>

definition offset_total :: "split_node \<Rightarrow> int" where
  "offset_total s = sum_list (map resize_delta (weights s))"

definition offset_extent :: "split_node \<Rightarrow> int" where
  "offset_extent s = sum_list (map (\<lambda>w. \<bar>resize_delta w\<bar>) (weights s))"

lemma sum_list_write:
  fixes g :: "int \<Rightarrow> int"
  assumes "i < length (weights s)"
  shows "sum_list (map (\<lambda>w. g (resize_delta w)) (weights (set_resize_delta i x s))) =
    sum_list (map (\<lambda>w. g (resize_delta w)) (weights s)) + g x - g (resize_delta (weights s ! i))"
proof -
  have "sum_list (xs[i := y]) = sum_list xs + y - xs ! i" if "i < length xs" for xs and y :: int
    using that
  proof (induction xs arbitrary: i)
    case (Cons v xs)
    then show ?case by (cases i) simp_all
  qed simp
  from this [of "map (\<lambda>w. g (resize_delta w)) (weights s)" "g x"] show ?thesis
    using assms by (simp add: weights_set_resize_delta map_update)
qed

lemma sum_list_pad:
  fixes g :: "int \<Rightarrow> int"
  assumes "g 0 = 0"
  shows "sum_list (map (\<lambda>w. g (resize_delta w)) (weights (pad_weights s))) = sum_list (map (\<lambda>w. g (resize_delta w)) (weights s))"
  using assms
  by (cases s) (simp add: pad_weights_def sum_list_replicate default_size_weight_def from_primary_constraint_def)

lemma offset_le_extent:
  assumes "i < length (weights s)" "j < length (weights s)" "i \<noteq> j"
  shows "\<bar>resize_delta (weights s ! i)\<bar> + \<bar>resize_delta (weights s ! j)\<bar> \<le> offset_extent s"
proof -
  let ?s = "set_resize_delta j 0 (set_resize_delta i 0 s)"
  have "offset_extent ?s = offset_extent s - \<bar>resize_delta (weights s ! i)\<bar> - \<bar>resize_delta (weights s ! j)\<bar>"
    using assms sum_list_write [of j "set_resize_delta i 0 s" abs 0] sum_list_write [of i s abs 0]
    by (simp add: offset_extent_def weights_set_resize_delta)
  moreover have "0 \<le> offset_extent ?s" unfolding offset_extent_def by (rule sum_list_nonneg) auto
  ultimately show ?thesis by simp
qed

lemma fold_child_conserves:
  assumes "offset_extent s < 2 ^ 31"
  shows "offset_total (fold_child_resize_delta i s) = offset_total s \<and>
         offset_extent (fold_child_resize_delta i s) \<le> offset_extent s"
proof (cases "fold_child_resize_delta i s = s")
  case False
  then obtain w j where w: "nth_opt (weights s) i = Some w" "get_preferred_cell_count w \<noteq> None"
    and j: "find (\<lambda>j. j \<noteq> i \<and> is_flexible (weight_at (weights s) j)) (rev [0..<length (children s)]) = Some j"
    by (auto simp: fold_child_resize_delta_def split: option.splits if_splits)
  define p where p: "p = (if length (weights s) \<le> j then pad_weights s else s)"
  from j have "j < length (children s)" "j \<noteq> i" by (auto simp: find_Some_iff rev_nth)
  moreover have "i < length (weights s)" using w(1) by (simp add: nth_opt_def split: if_splits)
  moreover have "length (weights s) \<le> length (weights (pad_weights s))" by (cases s) (simp add: pad_weights_def)
  ultimately have ij: "i < length (weights p)" "j < length (weights p)" "i \<noteq> j"
    using less_le_trans [OF _ pad_weights_sel(5) [of s]] by (auto simp: p)
  have eq: "offset_total p = offset_total s" "offset_extent p = offset_extent s"
    using sum_list_pad [of id s] sum_list_pad [of abs s] by (simp_all add: p offset_total_def offset_extent_def)
  let ?a = "resize_delta (weights p ! i)" and ?b = "resize_delta (weights p ! j)"
  have range: "clamp_i32 (?b + ?a) = ?b + ?a"
    using offset_le_extent [OF ij] assms eq by (auto simp: clamp_i32_def)
  have fold: "fold_child_resize_delta i s = set_resize_delta j (?b + ?a) (set_resize_delta i 0 p)"
    unfolding fold_child_resize_delta_def w(1) j option.case p [symmetric] Let_def
    using w(2) ij(3) range by (auto simp: weights_set_resize_delta)
  have "offset_total (fold_child_resize_delta i s) = offset_total p"
    unfolding fold using ij sum_list_write [of j "set_resize_delta i 0 p" id "?b + ?a"] sum_list_write [of i p id 0]
    by (simp add: offset_total_def weights_set_resize_delta)
  moreover have "offset_extent (fold_child_resize_delta i s) \<le> offset_extent p"
    unfolding fold using ij sum_list_write [of j "set_resize_delta i 0 p" abs "?b + ?a"] sum_list_write [of i p abs 0]
    by (simp add: offset_extent_def weights_set_resize_delta)
  ultimately show ?thesis using eq by simp
qed simp

theorem fold_conserves_offsets:
  assumes "offset_extent s < 2 ^ 31"
  shows "offset_total (fold_split_preferred_resize_deltas s) = offset_total s"
proof -
  have "offset_total (fold fold_child_resize_delta is s) = offset_total s \<and>
      offset_extent (fold fold_child_resize_delta is s) \<le> offset_extent s" for "is"
    using assms
  proof (induction "is" arbitrary: s)
    case (Cons i "is")
    from fold_child_conserves [OF Cons.prems, of i] Cons.IH [of "fold_child_resize_delta i s"] Cons.prems
    show ?case by fastforce
  qed simp
  then show ?thesis by (simp add: fold_split_preferred_resize_deltas_def)
qed

section \<open>The conversion of a carried tree\<close>

text \<open>Every content rectangle of a solve has the carried size of its pane, and there are \<open>measured\<close> of them.\<close>

fun has_carried_size :: "(pane_id \<rightharpoonup> pty_size) \<Rightarrow> pane_id \<times> rect option \<Rightarrow> bool" where
  "has_carried_size sizes (p, None) \<longleftrightarrow> True"
| "has_carried_size sizes (p, Some q) \<longleftrightarrow> map_option pty_cell_size (sizes p) = Some (rect_size q)"

definition draws_carried_sizes :: "(pane_id \<rightharpoonup> pty_size) \<Rightarrow> nat \<Rightarrow> layout_solve \<Rightarrow> bool" where
  "draws_carried_sizes sizes measured solve \<longleftrightarrow>
     list_all (has_carried_size sizes) (list_content_rects solve) \<and>
     length (filter (\<lambda>(p, content). content \<noteq> None) (list_content_rects solve)) = measured"

lemma count_preserved_panes_iff:
  "count_preserved_panes sizes contents n = Some m \<longleftrightarrow>
     list_all (has_carried_size sizes) contents \<and>
     n + length (filter (\<lambda>(p, content). content \<noteq> None) contents) = m"
  by (induction sizes contents n rule: count_preserved_panes.induct) simp_all

lemma preserved_iff:
  "is_every_carried_pane_size_preserved t r sizes measured z =
     draws_carried_sizes sizes measured (solve_layout_with_sizing t r z)"
  unfolding is_every_carried_pane_size_preserved_def draws_carried_sizes_def count_preserved_panes_iff by simp

lemma conversion_without_offsets:
  "without_offsets (convert_resize_deltas_to_apply_after_preferred t sizes z) = without_offsets t"
  by (auto simp: convert_resize_deltas_to_apply_after_preferred_def Let_def convert_without_offsets fold_without_offsets
      split: option.split)

lemma conversion_leaves:
  "list_leaf_pane_ids (convert_resize_deltas_to_apply_after_preferred t sizes z) = list_leaf_pane_ids t"
  by (metis conversion_without_offsets without_offsets_leaves)

text \<open>
  C22. The conversion of a carried tree changes resize offsets only, and keeps the drawn sizes wherever
  they can be found: when the sizes the panes were last drawn at measure a tab and the earlier solve
  over it draws exactly those panes at exactly those sizes, the converted tree solves over it to what
  the earlier solve gave. In every other case the offsets are folded onto flexible siblings.
\<close>

theorem conversion_keeps_drawn_sizes:
  defines "t' t sizes z \<equiv> convert_resize_deltas_to_apply_after_preferred t sizes z"
  shows "without_offsets (t' t sizes z) = without_offsets t \<and>
    list_leaf_pane_ids (t' t sizes z) = list_leaf_pane_ids t \<and>
    (case measure_layout_size sizes (gap_cell_count z) t 0 of
       None \<Rightarrow> t' t sizes z = fold_preferred_resize_deltas t
     | Some (tab_size, measured) \<Rightarrow>
         (let tab_rect = from_size_at_origin tab_size; earlier = earlier_solve_layout t tab_rect z
          in if draws_carried_sizes sizes measured earlier
             then solve_layout_with_sizing (t' t sizes z) tab_rect z = earlier
             else t' t sizes z = fold_preferred_resize_deltas t))"
  unfolding t'_def
  by (intro conjI conversion_without_offsets conversion_leaves)
     (auto simp: convert_resize_deltas_to_apply_after_preferred_def Let_def preserved_iff converted_tree_solve split: option.split)

text \<open>
  The example of the sources: 80 by 24 cells, a pane that prefers 20 columns beside a flexible one,
  offsets \<open>+10\<close> and \<open>-10\<close>. The tab is measured, and both offsets become \<open>0\<close>.
\<close>

definition preferred_split :: "int \<Rightarrow> split_node" where
  "preferred_split d = SplitNode Horizontal [Pane (PaneId 1), Pane (PaneId 2)]
     [from_primary_constraint (Preferred 20)\<lparr>resize_delta := d\<rparr>, default_size_weight\<lparr>resize_delta := - d\<rparr>] 0"

lemma preferred_kept: "list_kept_children (preferred_split d) example_tab default_pane_sizing =
  \<lparr>is_child_kept = [True, True], kept_weights = weights (preferred_split d), kept_floors = [4, 4], shared_cell_count = 80\<rparr>"
  by (simp add: list_kept_children_def preferred_split_def split_axis_and_cross_cell_counts_def keep_children.simps Let_def
   weight_at_def nth_opt_def compute_child_floor_def weight_floor_def sat_add_def sat_sub_def sat_mul_def example_sizes)

lemma preferred_shares: "compute_share_cell_counts (weights (preferred_split d)) 80 = [40, 40]"
  by (simp add: compute_share_cell_counts_def preferred_split_def example_sizes list_flexible_child_weight_pairs_def
     share_flexible_cells_def Let_def compute_flexible_share_def map_filter_def) (simp add: numeral_2_eq_2 [symmetric])

lemma preferred_applied:
  "c \<in> {40, 50} \<Longrightarrow> apply_preferred_cell_counts [c, 80 - c] (weights (preferred_split d)) [4, 4] = [20, 60]"
  by (auto simp: apply_preferred_cell_counts_def apply_preferred_cell_count_def get_preferred_cell_count_def preferred_split_def
      example_sizes find_surplus_receiver_def is_flexible_def sat_sub_def sat_add_def Let_def)

lemma preferred_counts:
  "target_cell_counts (weights (preferred_split d)) [4, 4] 80 = [20, 60]"
  "earlier_cell_counts (weights (preferred_split 10)) [4, 4] 80 = [20, 60]"
  "distribute_axis_cells (weights (preferred_split 10)) [4, 4] 80 = [30, 50]"
proof -
  show "target_cell_counts (weights (preferred_split d)) [4, 4] 80 = [20, 60]" for d
    using preferred_applied [of 40 d] by (simp add: target_cell_counts_def preferred_shares repair_cell_count_sum_def)
  have "apply_resize_deltas [40, 40] (weights (preferred_split 10)) 80 = [50, 30]"
    "apply_resize_deltas [20, 60] (weights (preferred_split 10)) 80 = [30, 50]"
    by (simp_all add: apply_resize_deltas_def preferred_split_def repair_cell_count_sum_def)
  then show "earlier_cell_counts (weights (preferred_split 10)) [4, 4] 80 = [20, 60]"
    "distribute_axis_cells (weights (preferred_split 10)) [4, 4] 80 = [30, 50]"
    using preferred_applied [of 50 10] preferred_applied [of 40 10]
    by (simp_all add: earlier_cell_counts_def distribute_axis_cells_def preferred_shares repair_cell_count_sum_def
        clamp_cell_counts_to_floors_def clamp_cell_count_to_floor_def)
qed

lemma preferred_converted: "convert_split_resize_deltas (preferred_split 10) example_tab default_pane_sizing = preferred_split 0"
  by (simp add: convert_split_resize_deltas_def preferred_kept preferred_counts)
     (simp add: preferred_split_def set_resize_delta_def pad_weights_def from_primary_constraint_def default_size_weight_def)

definition drawn_sizes :: "pane_id \<rightharpoonup> pty_size" where
  "drawn_sizes = [PaneId 1 \<mapsto> \<lparr>pty_column_count = 18, pty_row_count = 22\<rparr>, PaneId 2 \<mapsto> \<lparr>pty_column_count = 58, pty_row_count = 22\<rparr>]"

lemma preferred_measured:
  "measure_layout_size drawn_sizes (gap_cell_count default_pane_sizing) (Split (preferred_split d)) 0 =
     Some (rect_size example_tab, 2)"
  by (simp add: preferred_split_def drawn_sizes_def checked_add_def split_axis_and_cross_cell_counts_def example_sizes)

lemma preferred_rects: "earlier_directional_child_rects (preferred_split 10) example_tab default_pane_sizing =
   [\<lparr>origin = \<lparr>column = 0, row = 0\<rparr>, rect_size = \<lparr>column_count = 20, row_count = 24\<rparr>\<rparr>,
    \<lparr>origin = \<lparr>column = 20, row = 0\<rparr>, rect_size = \<lparr>column_count = 60, row_count = 24\<rparr>\<rparr>]"
  by (simp add: earlier_directional_child_rects_def preferred_kept preferred_counts)
     (simp add: preferred_split_def place_child_def from_origin_and_size_def sat_add_def example_sizes)

lemma preferred_drawn:
  "draws_carried_sizes drawn_sizes 2 (earlier_solve_layout (Split (preferred_split 10)) example_tab default_pane_sizing)"
  using preferred_rects [unfolded preferred_split_def]
  by (simp add: earlier_solve_layout_def preferred_split_def from_pane_sizing_def draws_carried_sizes_def into_layout_solve_def
      list_content_rects_def compute_content_rect_def is_content_visible_def is_leaf_within_minimum_def can_fit_inside_def
      is_empty_def compute_inner_with_border_def compute_inset_def sat_mul_def push_pane_rect_def push_suppressed_def drawn_sizes_def pty_cell_size_def
      from_origin_and_size_def sat_add_def sat_sub_def example_sizes)

lemma conversion_example:
  "convert_resize_deltas_to_apply_after_preferred (Split (preferred_split 10)) drawn_sizes default_pane_sizing =
     Split (preferred_split 0)"
proof -
  have tab: "from_size_at_origin (rect_size example_tab) = example_tab" by (simp add: example_sizes)
  have "convert_resize_deltas_at_rect default_pane_sizing (Split (preferred_split 10)) example_tab = Split (preferred_split 0)"
  proof -
    have "direction (preferred_split d) \<noteq> Stacked" "children (preferred_split d) = [Pane (PaneId 1), Pane (PaneId 2)]" for d
      by (simp_all add: preferred_split_def)
    moreover have "map (\<lambda>c. c) (convert_children z [Pane p, Pane q] rects) = map (\<lambda>c. c) [Pane p, Pane q]" for z p q rects
      by (rule convert_children_map) auto
    ultimately show ?thesis
      by (simp add: convert_directional [OF _ preferred_converted [symmetric]]) (simp add: preferred_split_def)
  qed
  then show ?thesis
    using preferred_drawn
    by (simp add: convert_resize_deltas_to_apply_after_preferred_def preferred_measured tab Let_def preserved_iff
        converted_tree_solve del: convert_resize_deltas_at_rect.simps)
qed

end
