(* ===== verification/Session_Conversion.thy ===== *)
theory Session_Conversion
  imports Session_Invariant Resize_Delta_Correct
begin

text \<open>
  The rewrite of the resize offsets of every tab of a session
  (\<open>Session::convert_resize_deltas_to_apply_after_preferred\<close> of \<open>koshi-session/src/session/state.rs\<close>), which a
  server runs on a resumed session before it solves its tabs again.
\<close>

definition convert_tab_resize_deltas :: "(pane_id \<rightharpoonup> pty_size) \<Rightarrow> pane_sizing \<Rightarrow> tab \<Rightarrow> tab" where
  "convert_tab_resize_deltas sizes z tab =
     tab\<lparr>tab_layout_area := (tab_layout_area tab)\<lparr>area_layout :=
       convert_resize_deltas_to_apply_after_preferred (area_layout (tab_layout_area tab)) sizes z\<rparr>\<rparr>"

definition convert_session_resize_deltas :: "(pane_id \<rightharpoonup> pty_size) \<Rightarrow> pane_sizing \<Rightarrow> session \<Rightarrow> session" where
  "convert_session_resize_deltas sizes z s = s\<lparr>tabs := map_all (convert_tab_resize_deltas sizes z) (tabs s)\<rparr>"

text \<open>
  The rewrite keeps what every area of the session holds, so the panes stay partitioned among the areas,
  and it touches no solve and no other store.
\<close>

theorem convert_session_keeps_areas:
  "leaves_of (convert_session_resize_deltas sizes z s) = leaves_of s \<and>
   convert_session_resize_deltas sizes z s = s\<lparr>tabs := tabs (convert_session_resize_deltas sizes z s)\<rparr> \<and>
   (\<forall>t. map_option (\<lambda>tab. area_layout_solve (tab_layout_area tab)) (get (tabs (convert_session_resize_deltas sizes z s)) t) =
        map_option (\<lambda>tab. area_layout_solve (tab_layout_area tab)) (get (tabs s) t))"
proof -
  have "leaves_of (convert_session_resize_deltas sizes z s) a = leaves_of s a" for a
    by (cases a) (auto simp: convert_session_resize_deltas_def convert_tab_resize_deltas_def conversion_leaves
        float_at_def option.map_comp o_def)
  then show ?thesis
    by (auto simp: convert_session_resize_deltas_def convert_tab_resize_deltas_def option.map_comp o_def)
qed

end
