(* ===== verification/Session_Placement.thy ===== *)
theory Session_Placement
  imports Cascade Placement
begin

text \<open>
  The commits of pane placements (\<open>koshi-session/src/session/placement.rs\<close>): a placement across tabs, an
  undock into a new floating pane and a dock into a tab, with the clients that follow the panes they
  type in, and the reads that find where a pane lifts from and docks to. An outer \<open>None\<close> is a panic of
  the code (an \<open>expect\<close> or an index); the fresh id of a new floating pane is an argument.
\<close>

section \<open>Errors and sources\<close>

datatype placement_commit_error =
    SameTab
  | SourceTabNotFound
  | DestinationTabNotFound
  | CommitSourcePaneNotFound
  | FloatingSourceNotFound
  | PaneOwnershipConflict
  | ActingClientNotFound
  | LastTiledPane
  | AloneInFloatingPane pane_id
  | FloatingPaneRefused floating_set_error

datatype dock_source = DockPane pane_id | WholeFloatingPane floating_pane_id

section \<open>The clients that move\<close>

definition list_following_client_ids :: "session \<Rightarrow> pane_id list \<Rightarrow> client_id \<Rightarrow> client_id list" where
  "list_following_client_ids s moved acting =
     map own_client_id
       (filter (\<lambda>c. own_client_id c \<noteq> acting \<and>
                    (case get_active_focused_pane_id c of None \<Rightarrow> False | Some p \<Rightarrow> p \<in> set moved))
          (list_attached_clients (clients s)))"

definition list_moving_client_ids :: "session \<Rightarrow> pane_id list \<Rightarrow> client_id \<Rightarrow> client_id list" where
  "list_moving_client_ids s moved acting = acting # list_following_client_ids s moved acting"

definition compute_tab_size_after_clients_move ::
  "session \<Rightarrow> tab_id \<Rightarrow> tab_id option \<Rightarrow> client_id list \<Rightarrow> client_id list \<Rightarrow> cell_size option" where
  "compute_tab_size_after_clients_move s t landing_viewer_tab arriving leaving =
     reduce compute_minimum_axes
       (List.map_filter get_pane_area
          (filter (\<lambda>c. own_client_id c \<in> set arriving \<or>
                       own_client_id c \<notin> set leaving \<and>
                       (active_tab_id c = t \<or> landing_viewer_tab = Some (active_tab_id c)))
             (list_attached_clients (clients s))))"

definition compute_placement_tab_sizes ::
  "session \<Rightarrow> pane_id \<Rightarrow> tab_id \<Rightarrow> pane_id option \<Rightarrow> client_id \<Rightarrow> placement_tab_sizes" where
  "compute_placement_tab_sizes s source destination swapped acting =
     (let source_tab = map_option own_tab_id (find_tab_by_pane_id s source)
      in if source_tab = Some destination
         then \<lparr>destination_tab_size = get_tab_size s destination, source_tab_size = None\<rparr>
         else
           (let source_moving = list_moving_client_ids s [source] acting;
                swapped_moving = (case swapped of Some q \<Rightarrow> list_following_client_ids s [q] acting | None \<Rightarrow> []);
                is_source_tab_closing =
                  (swapped = None \<and>
                   (case Option.bind source_tab (get (tabs s)) of
                      Some tab \<Rightarrow> list_leaf_pane_ids (tab_layout tab) = [source]
                    | None \<Rightarrow> False));
                landing_viewer_tab =
                  (case source_tab of
                     Some t \<Rightarrow> if is_source_tab_closing \<and> find_nearest_surviving_tab s t = Some destination
                               then Some t else None
                   | None \<Rightarrow> None)
            in \<lparr>destination_tab_size =
                  compute_tab_size_after_clients_move s destination landing_viewer_tab source_moving swapped_moving,
                source_tab_size =
                  (case source_tab of
                     Some t \<Rightarrow> if \<not> is_source_tab_closing
                               then compute_tab_size_after_clients_move s t None swapped_moving source_moving else None
                   | None \<Rightarrow> None)\<rparr>))"

definition move_client_onto_tiled_pane ::
  "client_id \<Rightarrow> tab_id \<Rightarrow> pane_id \<Rightarrow> pane_id option \<Rightarrow> session \<Rightarrow> session \<times> event list" where
  "move_client_onto_tiled_pane i t p previous_floating s =
     (case with_client i
             (\<lambda>c. case focus_tiled_pane t p (update_active_tab_id t (clear_zoom t c)) of
                    (c', change) \<Rightarrow>
                      (c', (if active_tab_id c \<noteq> t then [TabFocused i t (active_tab_id c)] else []) @
                           build_floating_pane_minimized_changed_events i (floats s) (minimized_floating_pane_ids change) True @
                           [PaneFocused i (Some t) p
                              (case previous_floating of Some q \<Rightarrow> Some q | None \<Rightarrow> previous_pane_id change)])) s of
        (s', es) \<Rightarrow>
          if get_client_by_id (clients s) i = None then (s', es)
          else (update_tab t (record_focus_mru p) s', es))"

fun update_tab_solves :: "tab_id list \<Rightarrow> tab_id list \<Rightarrow> session \<Rightarrow> session \<times> event list" where
  "update_tab_solves [] solved_ids s = (s, [])"
| "update_tab_solves (t # ts) solved_ids s =
     (if t \<in> set solved_ids then update_tab_solves ts solved_ids s
      else andThen (update_tab_solve t) (update_tab_solves ts (solved_ids @ [t])) s)"

section \<open>Where a pane lifts from\<close>

definition find_lifted_tab_pane_rect :: "session \<Rightarrow> client \<Rightarrow> tab_id \<Rightarrow> pane_id \<Rightarrow> rect option" where
  "find_lifted_tab_pane_rect s c t p =
     (if active_tab_id c \<noteq> t then None
      else
        Option.bind (get_pane_area c) (\<lambda>pane_area.
        Option.bind (get (tabs s) t) (\<lambda>tab.
        Option.bind (compute_client_solve s c t) (\<lambda>client_solve.
          let tab_size = area_solved_size (tab_layout_area tab) in
          Option.bind
            (if list_ex (\<lambda>h. header_pane_id h = p) (stack_headers client_solve)
             then find_pane_rect (solved_layout (solve_placed_tab (tab_layout tab) p (list_focus_history c t) tab_size
                    (session_pane_sizing s))) p
             else find_pane_rect client_solve p) (\<lambda>pane_rect.
          let tab_origin = compute_centered_origin pane_area tab_size in
          Some (from_origin_and_size
            \<lparr>column = sat_add (column (origin pane_rect)) (column tab_origin),
             row = sat_add (row (origin pane_rect)) (row tab_origin)\<rparr>
            (rect_size pane_rect)))))))"

definition compute_floating_pane_member_box :: "rect \<Rightarrow> rect \<Rightarrow> rect" where
  "compute_floating_pane_member_box floating_pane_rect pane_rect =
     from_origin_and_size
       \<lparr>column = sat_add (column (origin floating_pane_rect)) (column (origin pane_rect)),
        row = sat_add (row (origin floating_pane_rect)) (row (origin pane_rect))\<rparr>
       \<lparr>column_count = column_count (rect_size pane_rect),
        row_count = sat_add (row_count (rect_size pane_rect)) FLOATING_TITLEBAR_STRIP_ROW_COUNT\<rparr>"

definition find_lifted_floating_pane_member_rect ::
  "session \<Rightarrow> client \<Rightarrow> floating_pane_id \<Rightarrow> pane_id \<Rightarrow> rect option" where
  "find_lifted_floating_pane_member_rect s c f p =
     (if \<not> is_floating_pane_shown c f then None
      else
        Option.bind (find_client_floating_pane_rect s c f) (\<lambda>floating_pane_rect.
        Option.bind (compute_client_floating_pane_solve s c f) (\<lambda>client_solve.
        Option.bind
          (if list_ex (\<lambda>h. header_pane_id h = p) (stack_headers client_solve)
           then
             Option.bind (find_floating_pane_by_id (floats s) f) (\<lambda>(_, pane).
             Option.bind (get_floating_pane_view c f) (\<lambda>v.
               find_pane_rect (solved_layout (solve_placed_tab (floating_layout pane) p (view_focus_history v)
                 (area_solved_size (floating_layout_area pane)) (session_pane_sizing s))) p))
           else find_pane_rect client_solve p) (\<lambda>pane_rect.
        Some (compute_floating_pane_member_box floating_pane_rect pane_rect)))))"

definition find_lifted_floating_pane_rect ::
  "session \<Rightarrow> client_id \<Rightarrow> layout_area_id \<Rightarrow> pane_id \<Rightarrow> (floating_pane_size \<times> point) option" where
  "find_lifted_floating_pane_rect s i area_id p =
     Option.bind (get_client_by_id (clients s) i) (\<lambda>c.
     Option.bind (case area_id of
                    TabArea t \<Rightarrow> find_lifted_tab_pane_rect s c t p
                  | FloatingPaneArea f \<Rightarrow> find_lifted_floating_pane_member_rect s c f p) (\<lambda>lifted_rect.
       if column_count (rect_size lifted_rect) = 0 \<or> row_count (rect_size lifted_rect) = 0 then None
       else Some (\<lparr>floating_width = Cells (column_count (rect_size lifted_rect)),
                   floating_height = Cells (row_count (rect_size lifted_rect))\<rparr>, origin lifted_rect)))"

section \<open>Where a pane docks\<close>

definition find_insertion_under_rect_center ::
  "session \<Rightarrow> client \<Rightarrow> rect \<Rightarrow> pane_id \<Rightarrow> tiled_placement_target option" where
  "find_insertion_under_rect_center s c dock_rect docking =
     Option.bind (get_pane_area c) (\<lambda>pane_area.
     Option.bind (get (tabs s) (active_tab_id c)) (\<lambda>tab.
       let tab_size = area_solved_size (tab_layout_area tab) in
       if column_count tab_size = 0 \<or> row_count tab_size = 0 then None
       else
         (let tab_origin = compute_centered_origin pane_area tab_size;
              dock_cell =
                \<lparr>column = min (sat_sub (sat_add (column (origin dock_rect)) (column_count (rect_size dock_rect) div 2))
                                (column tab_origin)) (column_count tab_size - 1),
                 row = min (sat_sub (sat_add (row (origin dock_rect)) (row_count (rect_size dock_rect) div 2))
                                (row tab_origin)) (row_count tab_size - 1)\<rparr>
          in Option.bind (compute_client_solve s c (active_tab_id c)) (\<lambda>client_solve.
             map_option (\<lambda>(beside, dir). SplitTarget (active_tab_id c) beside dir)
               (find_insertion_at_point
                  (map (\<lambda>span. (span_anchor span, span_rect span))
                     (insertion_spans (list_placement_destinations (tab_layout tab) client_solve
                        (from_size_at_origin tab_size) docking)))
                  dock_cell)))))"

definition find_nearest_dock_target :: "session \<Rightarrow> client \<Rightarrow> pane_id \<Rightarrow> tiled_placement_target option" where
  "find_nearest_dock_target s c p =
     Option.bind (find_floating_pane_by_pane_id (floats s) p) (\<lambda>(_, pane).
       let f = own_floating_pane_id pane in
       if \<not> is_floating_pane_shown c f then None
       else
         Option.bind (find_client_floating_pane_rect s c f) (\<lambda>floating_pane_rect.
         Option.bind (Option.bind (compute_client_floating_pane_solve s c f) (\<lambda>solve. find_pane_rect solve p)) (\<lambda>pane_rect.
           if is_empty pane_rect then None
           else find_insertion_under_rect_center s c (compute_floating_pane_member_box floating_pane_rect pane_rect) p)))"

definition find_nearest_floating_pane_dock_target ::
  "session \<Rightarrow> client \<Rightarrow> floating_pane_id \<Rightarrow> tiled_placement_target option" where
  "find_nearest_floating_pane_dock_target s c f =
     Option.bind (find_floating_pane_by_id (floats s) f) (\<lambda>(_, pane).
       if \<not> is_floating_pane_shown c f then None
       else
         Option.bind (find_client_floating_pane_rect s c f) (\<lambda>floating_pane_rect.
         Option.bind (first (list_floating_pane_ids pane)) (\<lambda>p.
           find_insertion_under_rect_center s c floating_pane_rect p)))"

section \<open>Undocking\<close>

definition undock_source_error :: "session \<Rightarrow> layout_area_id \<Rightarrow> pane_id \<Rightarrow> placement_commit_error option" where
  "undock_source_error s area_id p =
     (case area_id of
        TabArea t \<Rightarrow>
          (case get (tabs s) t of
             None \<Rightarrow> Some SourceTabNotFound
           | Some tab \<Rightarrow>
               (let source_leaves = list_leaf_pane_ids (tab_layout tab)
                in if p \<notin> set source_leaves then Some CommitSourcePaneNotFound
                   else if map_size (tabs s) = 1 \<and> length source_leaves = 1 then Some LastTiledPane
                   else None))
      | FloatingPaneArea f \<Rightarrow>
          (case find_floating_pane_by_id (floats s) f of
             None \<Rightarrow> Some FloatingSourceNotFound
           | Some (_, pane) \<Rightarrow>
               if p \<notin> set (list_floating_pane_ids pane) then Some FloatingSourceNotFound
               else if length (list_floating_pane_ids pane) = 1 then Some (AloneInFloatingPane p)
               else None))"

definition lifted_position :: "session \<Rightarrow> layout_area_id \<Rightarrow> pane_id \<Rightarrow> client_id \<Rightarrow> client_id \<times> floating_pane_position" where
  "lifted_position s area_id p i =
     (i, case find_lifted_floating_pane_rect s i area_id p of
           Some (_, top_left_cell) \<Rightarrow> Moved top_left_cell
         | None \<Rightarrow> DefaultPosition)"

text \<open>The undocked pane's leaf leaves its tree and its floating pane joins the floating set.\<close>

definition lift_pane ::
  "layout_area_id \<Rightarrow> pane_id \<Rightarrow> floating_pane \<Rightarrow> (client_id \<times> floating_pane_position) list \<Rightarrow> session \<Rightarrow>
   (placement_commit_error + session \<times> event list) option" where
  "lift_pane area_id p pane client_positions s =
     (case area_id of
        TabArea t \<Rightarrow>
          (case session_add_floating_pane pane client_positions s of
             Inl e \<Rightarrow> Some (Inl (FloatingPaneRefused e))
           | Inr s1 \<Rightarrow> Some (Inr (remove_pane_from_tab t p None s1)))
      | FloatingPaneArea f \<Rightarrow>
          (case remove_pane_leaf_from_floating_pane f p s of
             (s1, es) \<Rightarrow>
               (case session_add_floating_pane pane client_positions s1 of
                  Inl _ \<Rightarrow> None
                | Inr s2 \<Rightarrow> Some (Inr (s2, es)))))"

definition commit_undock_placement ::
  "floating_pane_id \<Rightarrow> layout_area_id \<Rightarrow> pane_id \<Rightarrow> floating_pane_size \<times> cell_size \<Rightarrow> client_id \<times> floating_pane_position \<Rightarrow>
   session \<Rightarrow> (placement_commit_error + session \<times> event list) option" where
  "commit_undock_placement fresh area_id p sizes acting_view s =
     (case undock_source_error s area_id p of
        Some e \<Rightarrow> Some (Inl e)
      | None \<Rightarrow>
          if get_client_by_id (clients s) (fst acting_view) = None then Some (Inl ActingClientNotFound)
          else if is_full (floats s) then Some (Inl (FloatingPaneRefused TooManyPanes))
          else
            (let client_positions =
                   acting_view # map (lifted_position s area_id p) (list_following_client_ids s [p] (fst acting_view));
                 pane = floating_pane_from_pane fresh p (fst sizes) (snd sizes) (session_pane_sizing s);
                 focused_client_rects =
                   (case area_id of
                      TabArea _ \<Rightarrow> []
                    | FloatingPaneArea f \<Rightarrow> list_floating_pane_focused_client_rects s f p)
             in case lift_pane area_id p pane client_positions s of
                  None \<Rightarrow> None
                | Some (Inl e) \<Rightarrow> Some (Inl e)
                | Some (Inr (s1, es)) \<Rightarrow>
                    (case andThen (run_each (\<lambda>(i, _). show_new_floating_pane i fresh) client_positions)
                            (\<lambda>s. case area_id of
                                   TabArea _ \<Rightarrow> (s, [])
                                 | FloatingPaneArea f \<Rightarrow>
                                     repair_floating_pane_focus_after_pane_left f p focused_client_rects s) s1 of
                       (s2, es') \<Rightarrow> Some (Inr (s2, es @ es')))))"

section \<open>Docking\<close>

definition find_dock_source :: "session \<Rightarrow> dock_source \<Rightarrow> (floating_pane_id \<times> pane_id list) option" where
  "find_dock_source s source =
     (case source of
        DockPane p \<Rightarrow>
          map_option (\<lambda>(_, pane). (own_floating_pane_id pane, [p])) (find_floating_pane_by_pane_id (floats s) p)
      | WholeFloatingPane f \<Rightarrow>
          map_option (\<lambda>(_, pane). (f, list_floating_pane_ids pane)) (find_floating_pane_by_id (floats s) f))"

record moving_client =
  moving_client_id :: client_id
  left_tab_id :: tab_id
  left_floating_focus :: "pane_id option"
  landing_pane_id :: pane_id

definition list_docking_clients :: "session \<Rightarrow> floating_pane_id \<Rightarrow> pane_id list \<Rightarrow> client_id \<Rightarrow> moving_client list" where
  "list_docking_clients s f docked acting =
     List.map_filter
       (\<lambda>i. map_option
              (\<lambda>c. \<lparr>moving_client_id = i, left_tab_id = active_tab_id c,
                    left_floating_focus = find_focused_floating_pane_input_pane_id c,
                    landing_pane_id =
                      (case find_floating_pane_input_pane_id c f of
                         Some q \<Rightarrow> if q \<in> set docked then q else hd docked
                       | None \<Rightarrow> hd docked)\<rparr>)
              (get_client_by_id (clients s) i))
       (list_moving_client_ids s docked acting)"

text \<open>The histories inside a floating pane that docks whole.\<close>

definition list_floating_focus_histories ::
  "session \<Rightarrow> dock_source \<Rightarrow> floating_pane_id \<Rightarrow> (client_id \<times> pane_id list) list" where
  "list_floating_focus_histories s source f =
     (case source of
        DockPane _ \<Rightarrow> []
      | WholeFloatingPane _ \<Rightarrow>
          List.map_filter
            (\<lambda>c. map_option (\<lambda>v. (own_client_id c, view_focus_history v)) (get_floating_pane_view c f))
            (list_attached_clients (clients s)))"

definition join_focus_history ::
  "tab_id \<Rightarrow> client_id list \<Rightarrow> bool \<Rightarrow> client_id \<times> pane_id list \<Rightarrow> session \<Rightarrow> session" where
  "join_focus_history t moving is_stacked joined s =
     (case joined of (i, history) \<Rightarrow>
        s\<lparr>clients := update_client i
             (\<lambda>c. let history_length = length (list_focus_history c t) in
                  if i \<notin> set moving \<and> (is_stacked \<or> history_length = 0) then c
                  else insert_panes_into_focus_history t (if i \<in> set moving then 1 else history_length) history c)
             (clients s)\<rparr>)"

definition take_docked_panes :: "dock_source \<Rightarrow> floating_pane_id \<Rightarrow> session \<Rightarrow> session \<times> event list" where
  "take_docked_panes source f s =
     (case source of
        DockPane p \<Rightarrow> remove_pane_leaf_from_floating_pane f p s
      | WholeFloatingPane _ \<Rightarrow> (fst (session_remove_floating_pane f s), []))"

definition is_stack_target :: "tiled_placement_target \<Rightarrow> bool" where
  "is_stack_target target = (case target of StackTarget _ \<Rightarrow> True | _ \<Rightarrow> False)"

definition commit_dock_placement ::
  "dock_source \<Rightarrow> tab_id \<Rightarrow> layout_node \<Rightarrow> tiled_placement_target \<Rightarrow> client_id \<Rightarrow> session \<Rightarrow>
   (placement_commit_error + session \<times> event list) option" where
  "commit_dock_placement source destination destination_tree target acting s =
     (case find_dock_source s source of
        None \<Rightarrow> Some (Inl FloatingSourceNotFound)
      | Some (f, docked) \<Rightarrow>
          (case get (tabs s) destination of
             None \<Rightarrow> Some (Inl DestinationTabNotFound)
           | Some tab \<Rightarrow>
               if \<not> distinct (list_leaf_pane_ids destination_tree) \<or>
                  set (list_leaf_pane_ids destination_tree) \<noteq> set (list_leaf_pane_ids (tab_layout tab)) \<union> set docked
               then Some (Inl PaneOwnershipConflict)
               else if get_client_by_id (clients s) acting = None then Some (Inl ActingClientNotFound)
               else if docked = [] then None
               else
                 (let focused_client_rects =
                        (case source of
                           DockPane p \<Rightarrow> list_floating_pane_focused_client_rects s f p
                         | WholeFloatingPane _ \<Rightarrow> []);
                      moving = list_docking_clients s f docked acting;
                      histories = list_floating_focus_histories s source f
                  in case andThen (take_docked_panes source f)
                            (andThen (\<lambda>s. (s, [LayoutChanged destination]))
                            (andThen (update_tab_layout destination destination_tree)
                            (andThen
                               (run_each
                                  (\<lambda>m. move_client_onto_tiled_pane (moving_client_id m) destination (landing_pane_id m)
                                         (left_floating_focus m)) moving)
                            (andThen
                               (\<lambda>s. (fold (join_focus_history destination (map moving_client_id moving) (is_stack_target target))
                                       histories s, []))
                            (andThen (update_tab_solves (destination # map left_tab_id moving) [])
                               (\<lambda>s. case source of
                                      DockPane p \<Rightarrow> repair_floating_pane_focus_after_pane_left f p focused_client_rects s
                                    | WholeFloatingPane _ \<Rightarrow> (s, []))))))) s of
                       (s', es) \<Rightarrow> Some (Inr (s', es)))))"

section \<open>Placing across tabs\<close>

text \<open>The prepared trees against the trees of the tabs: the first fault found.\<close>

definition ownership_conflict :: "pane_id \<Rightarrow> pane_id list \<Rightarrow> pane_id list \<Rightarrow> pane_id list \<Rightarrow> pane_id list \<Rightarrow> bool" where
  "ownership_conflict p source_before destination_before source_after destination_after \<longleftrightarrow>
     \<not> distinct source_before \<or> \<not> distinct destination_before \<or>
     set source_before \<inter> set destination_before \<noteq> {} \<or>
     set source_before - set source_after \<noteq> {p} \<or>
     1 < length (filter (\<lambda>q. q \<notin> set destination_after) destination_before) \<or>
     set source_before \<union> set destination_before \<noteq> set source_after \<union> set destination_after"

definition cross_tab_error ::
  "session \<Rightarrow> tab_id \<Rightarrow> tab_id \<Rightarrow> pane_id \<Rightarrow> cross_tab_placement \<Rightarrow> client_id \<Rightarrow> placement_commit_error option" where
  "cross_tab_error s source_tab destination p prepared acting =
     (if source_tab = destination then Some SameTab
      else
        (case get (tabs s) source_tab of
           None \<Rightarrow> Some SourceTabNotFound
         | Some source \<Rightarrow>
             (case get (tabs s) destination of
                None \<Rightarrow> Some DestinationTabNotFound
              | Some dest \<Rightarrow>
                  (let source_before = list_leaf_pane_ids (tab_layout source);
                       destination_before = list_leaf_pane_ids (tab_layout dest);
                       source_after = (case placed_source_tree prepared of None \<Rightarrow> [] | Some t \<Rightarrow> list_leaf_pane_ids t);
                       destination_after = list_leaf_pane_ids (placed_destination_tree prepared)
                   in if p \<notin> set source_before then Some CommitSourcePaneNotFound
                      else if \<not> distinct source_after \<or> \<not> distinct destination_after then Some PaneOwnershipConflict
                      else if p \<notin> set destination_after \<or> set source_after \<inter> set destination_after \<noteq> {}
                      then Some PaneOwnershipConflict
                      else if get_client_by_id (clients s) acting = None then Some ActingClientNotFound
                      else if ownership_conflict p source_before destination_before source_after destination_after
                      then Some PaneOwnershipConflict
                      else None))))"

text \<open>The pane a swap sends to the source tab: the one that leaves the destination tab.\<close>

definition find_swapped_pane_id :: "session \<Rightarrow> tab_id \<Rightarrow> cross_tab_placement \<Rightarrow> pane_id option" where
  "find_swapped_pane_id s destination prepared =
     Option.bind (get (tabs s) destination) (\<lambda>tab.
       first (filter (\<lambda>q. q \<notin> set (list_leaf_pane_ids (placed_destination_tree prepared))) (list_leaf_pane_ids (tab_layout tab))))"

definition install_source_tree ::
  "tab_id \<Rightarrow> pane_id \<Rightarrow> pane_id option \<Rightarrow> layout_node option \<Rightarrow> session \<Rightarrow> session \<times> event list" where
  "install_source_tree t p swapped source_tree s =
     (case source_tree of
        None \<Rightarrow> (s, [])
      | Some source_tree \<Rightarrow>
          (case update_tab_layout t source_tree s of
             (s', es) \<Rightarrow>
               (update_tab t (\<lambda>tab. let tab' = remove_focus_mru p tab in
                                    case swapped of Some q \<Rightarrow> record_focus_mru q tab' | None \<Rightarrow> tab') s',
                LayoutChanged t # es)))"

definition install_destination_tree :: "tab_id \<Rightarrow> pane_id option \<Rightarrow> layout_node \<Rightarrow> session \<Rightarrow> session \<times> event list" where
  "install_destination_tree t swapped destination_tree s =
     (case update_tab_layout t destination_tree s of
        (s', es) \<Rightarrow>
          (case swapped of Some q \<Rightarrow> update_tab t (remove_focus_mru q) s' | None \<Rightarrow> s', LayoutChanged t # es))"

definition clear_zoom_of_moved :: "pane_id \<Rightarrow> pane_id option \<Rightarrow> client \<Rightarrow> client" where
  "clear_zoom_of_moved p swapped c =
     (let c' = clear_zoom_of_pane p c in case swapped of Some q \<Rightarrow> clear_zoom_of_pane q c' | None \<Rightarrow> c')"

definition commit_cross_tab_placement ::
  "tab_id \<Rightarrow> tab_id \<Rightarrow> pane_id \<Rightarrow> cross_tab_placement \<Rightarrow> client_id \<Rightarrow> session \<Rightarrow>
   placement_commit_error + session \<times> event list" where
  "commit_cross_tab_placement source_tab destination p prepared acting s =
     (case cross_tab_error s source_tab destination p prepared acting of
        Some e \<Rightarrow> Inl e
      | None \<Rightarrow>
          (let swapped = find_swapped_pane_id s destination prepared;
               is_source_tab_closing = (placed_source_tree prepared = None);
               source_moving = list_moving_client_ids s [p] acting;
               swapped_moving = (case swapped of Some q \<Rightarrow> list_following_client_ids s [q] acting | None \<Rightarrow> []);
               left_tabs = map active_tab_id (List.map_filter (get_client_by_id (clients s)) (source_moving @ swapped_moving));
               source_rects = filter (\<lambda>(i, _). i \<notin> set swapped_moving) (list_focused_client_rects s source_tab p);
               destination_rects =
                 filter (\<lambda>(i, _). i \<notin> set source_moving)
                   (case swapped of Some q \<Rightarrow> list_focused_client_rects s destination q | None \<Rightarrow> []);
               solved_tabs = filter (\<lambda>t. \<not> (is_source_tab_closing \<and> t = source_tab)) (destination # source_tab # left_tabs)
           in Inr
                (andThen (install_destination_tree destination swapped (placed_destination_tree prepared))
                (andThen (install_source_tree source_tab p swapped (placed_source_tree prepared))
                (andThen (\<lambda>s. (change_all_clients (clear_zoom_of_moved p swapped) s, []))
                (andThen (run_each (\<lambda>i. move_client_onto_tiled_pane i destination p None) source_moving)
                (andThen
                   (\<lambda>s. case swapped of
                          Some q \<Rightarrow> run_each (\<lambda>i. move_client_onto_tiled_pane i source_tab q None) swapped_moving s
                        | None \<Rightarrow> (s, []))
                (andThen (update_tab_solves solved_tabs [])
                (andThen
                   (\<lambda>s. if is_source_tab_closing then (s, [])
                        else repair_focus_after_pane_left source_tab p source_rects s)
                (andThen
                   (\<lambda>s. case swapped of
                          Some q \<Rightarrow> repair_focus_after_pane_left destination q destination_rects s
                        | None \<Rightarrow> (s, []))
                   (\<lambda>s. if is_source_tab_closing then close_and_refocus_tab source_tab None s else (s, []))))))))) s)))"

end
