(* ===== verification/Spec2Isabelle.thy ===== *)
theory Spec2Isabelle
  imports Resize Content Neighbor Regions Template Text Notification Consistency Floating_Placement
    Painted_Screen Placement_Destinations Session_Conversion Session_Placement
begin

text \<open>
  \<^bold>\<open>Verification of the layout engine, the session state and the painted wire format of koshi.\<close>

  koshi is a terminal multiplexer. A server process keeps a \<^emph>\<open>session\<close>: tabs, each with a tree of panes,
  floating panes above the tabs, a registry of the panes, and the clients attached to it, each with its
  own view. The layout crate (\<open>src/crates/koshi-layout\<close>) turns a tree and a size into rectangles and
  edits trees; the session crate (\<open>src/crates/koshi-session\<close>) keeps the stores and changes them by
  operations that the runtime calls one at a time. Both rest on the core crate (\<open>src/crates/koshi-core\<close>)
  and the pane registry (\<open>src/crates/koshi-pane\<close>). What a client draws reaches it as \<^emph>\<open>painted updates\<close>: the
  terminal crate (\<open>src/crates/koshi-terminal\<close>) encodes rows of styled cells as bytes, and the IPC crate
  (\<open>src/crates/koshi-ipc\<close>) packs them, pane by pane, in binary frames of limited size, and the two ends
  of a connection (\<open>src/crates/koshi-runtime\<close>) send and apply only what changed. Everything else
  (clients, daemon, PTYs, the escape-sequence parser, rendering) works around these crates.

  \<^bold>\<open>Conventions.\<close> A \<open>u16\<close>, \<open>u32\<close>, \<open>u128\<close> or \<open>i32\<close> of the code is a word of its width wherever it is computed
  with; \<open>saturating_add\<close>, \<open>checked_mul\<close> and \<open>as\<close> casts are written out (\<open>Koshi_Prelude\<close>), and \<open>usize\<close> counts and
  indices are natural numbers; a \<open>u64\<close> on the wire is a 64-bit word. A struct is a record, an enum a datatype with its variants; \<open>Result\<close> is a
  sum with the error on the left, and a possible panic is an outer option. An operation on the session
  returns the changed session with its events in order. Ids that the code draws at random, and times,
  are arguments. A \<open>BTreeMap\<close> is a red-black tree of the library; a \<open>HashMap\<close> is one too, since its own
  order never shows (\<open>Ordered_Map\<close>). No definition takes fuel: the recursions are structural or have a
  measure, so every function is total and its claims are about its value.

  \<^bold>\<open>The layout crate.\<close>
  \<^item> \<open>Ids\<close>, \<open>Geometry\<close>: \<open>koshi-core/src/ids.rs\<close>, \<open>geometry.rs\<close>. Rectangles are read as sets of cells.
  \<^item> \<open>Size_Weight\<close>, \<open>Layout_Tree\<close>: \<open>size.rs\<close>, \<open>tree.rs\<close>, \<open>mode.rs\<close>. The tree, its paths, stacks and leaves.
  \<^item> \<open>Normalize\<close>, \<open>Edit\<close>: \<open>normalize.rs\<close>, \<open>edit.rs\<close>. Normal form (kept leaves, idempotence) and the edits:
    splits, stacking and removals with every error.
  \<^item> \<open>Distribute\<close>, \<open>Solver\<close>, \<open>Solver_Geometry\<close>: \<open>solver.rs\<close>. The cells of one axis are shared out exactly and
    above the floors; the solve places every leaf once, without overlap, inside the tab, tiles it when
    it fits, and suppresses panes exactly when it does not.
  \<^item> \<open>Content\<close>, \<open>Focus\<close>, \<open>Neighbor\<close>, \<open>Regions\<close>, \<open>Template\<close>, \<open>Resize\<close>: the files of the same names. Content
    rectangles, focus candidates, directional neighbors, edge regions, profile templates, and the
    resize transaction with its binary search.
  \<^item> \<open>Resize_Delta_Conversion\<close>, \<open>Resize_Delta_Correct\<close>: \<open>solver/resize_delta_conversion.rs\<close>. A tree laid out by the
    earlier solve (offsets before preferred targets) is rewritten for the solver: only offsets change, and
    at the rectangle it was drawn in every pane keeps its rectangle.
  \<^item> \<open>Placement\<close>, \<open>Placement_Correct\<close>, \<open>Placement_Destinations\<close>: \<open>placement.rs\<close>. Moving a pane by a swap, an
    insertion or a stack moves exactly that pane, within a tree and across tabs; every error is exact
    and nothing panics; and every destination a client is offered is accepted if it fits.

  \<^bold>\<open>The session crate.\<close>
  \<^item> \<open>Text\<close>, \<open>Notification\<close>, \<open>Event\<close>, \<open>Pane_Registry\<close>, \<open>Lifecycle\<close>: \<open>koshi-core/src/text.rs\<close>, \<open>notification.rs\<close>,
    \<open>event.rs\<close> (with \<open>lock.rs\<close>, \<open>selection.rs\<close>, \<open>client.rs\<close>), \<open>koshi-pane/src\<close>, \<open>session/lifecycle.rs\<close>. The
    notification queue refines an unbounded log; a stopped session stays stopped.
  \<^item> \<open>Layout_Area\<close>, \<open>Client\<close>, \<open>Session_State\<close>: the stores (\<open>session/state.rs\<close>, \<open>client.rs\<close>): tabs, floating
    panes, client views, the client registry and the session record with the reads on it.
  \<^item> \<open>Session_Focus\<close>, \<open>Session_Update\<close>, \<open>Tab_Ops\<close>, \<open>Cascade\<close>: \<open>session/focus.rs\<close>, the solving operations of
    \<open>session/state.rs\<close>, \<open>session/tab_ops.rs\<close>, \<open>session/cascade.rs\<close> and \<open>session/pane_ops.rs\<close>.
  \<^item> \<open>Session_Placement\<close>: \<open>session/placement.rs\<close>. The commits of a placement across tabs, of an undock into a floating
    pane and of a dock into a tab, and the reads that find where a pane lifts from and docks to.
  \<^item> \<open>Session_Conversion\<close>: the rewrite of the resize offsets of every tab of a resumed session, which keeps what
    every tab and floating pane holds.
  \<^item> \<open>Floating_Placement\<close>: size and place of floating panes; their \<open>u16\<close> arithmetic never wraps.

  \<^bold>\<open>The invariant of the session.\<close>
  \<^item> \<open>Client_Invariant\<close>: what makes one client well-formed, and the contract \<open>client_method\<close> of the methods of
    a client (a method leaves no stale solve behind), interpreted on each of them.
  \<^item> \<open>Session_Invariant\<close>: the invariant \<open>session_ok\<close> across the stores, and the contract \<open>focus_operation\<close> of
    the operations that move focus only, interpreted on each of them.
  \<^item> \<open>Session_Layout\<close>, \<open>Tab_Order\<close>, \<open>Session_Opening\<close>, \<open>Session_Closing\<close>: every operation keeps the invariant,
    by way of \<open>held\<close>, the form it has between the steps of an operation.
  \<^item> \<open>Session_Reachable\<close>: the operations as a step relation under their documented preconditions. Every
    reachable session satisfies the invariant, and no cached solve is ever stale.
  \<^item> \<open>Consistency\<close>: the session's own check (\<open>validate_session_consistency\<close>) and what it can report.

  \<^bold>\<open>The painted wire format.\<close>
  \<^item> \<open>Varint\<close>, \<open>Byte_Reader\<close>: \<open>koshi-core/src/varint.rs\<close> and what the decoders share. Varints read back, and
    reading equals a reference reading of LEB128 with exact errors.
  \<^item> \<open>Image_Chunk\<close>, \<open>Painted_Update\<close>, \<open>Painted_Update_Roundtrip\<close>: \<open>koshi-ipc/src/image_chunk.rs\<close>,
    \<open>painted_update.rs\<close>. An update is cut into parts of at most 16 MiB; decoding the parts gives back the
    opening and every pane's header and row instructions, and encoding fails exactly when an opening or
    a row does not fit a frame. The JSON parsers of the opening are parameters; the round trip assumes
    that they read what was written.
  \<^item> \<open>Style\<close>, \<open>Cell\<close>, \<open>Utf8\<close>, \<open>Row_Encoding\<close>: \<open>koshi-terminal/src/style.rs\<close>, \<open>grid/state.rs\<close> (cells and row
    ends), UTF-8 of the standard library, and \<open>row_encoding.rs\<close>: a row as a style table and runs of
    items, text first and exceptions after.
  \<^item> \<open>Row_Run_Decode\<close>, \<open>Row_Run_Encode\<close>, \<open>Row_Roundtrip\<close>, \<open>Row_Equivalence\<close>: a run as a list of items, which
    the encoder writes and the decoder reads; the round trip of a row; and that the encoder's
    shortcuts (plain rows, padding, counted text bytes, repadding without decoding) change no byte. A row
    of \<open>n\<close> cells takes at most \<open>60 + 656 n\<close> bytes, so rows of any real width fit a frame.
  \<^item> \<open>Row_Snapshot\<close>: \<open>grid/row_snapshot.rs\<close>. A row with the image data its encoding leaves out; it decodes to its
    cells, and its stored parts restore an equal snapshot.
  \<^item> \<open>Painted_Stream\<close>: \<open>koshi-runtime/src/runtime/painted_update.rs\<close>, both ends of a connection. The sender
    compares each snapshot of the screen with what it sent last; the receiver applies the parts of
    each update to what it holds. \<open>Painted_Stream_Rows\<close>: the row instructions (keep, copy, new) rebuild
    the rows shown. \<open>Painted_Stream_Sync\<close>: the sections of an update, over all its parts, stage its panes.
    \<open>Painted_Connection\<close>: what the sender takes the client to hold is what the receiver holds, and each
    update keeps it so. \<open>Painted_Screen\<close>: a connection as a step relation from its start. After each
    snapshot the client shows exactly that snapshot, and every snapshot that fits a frame gets through.
    The JSON texts are parameters of which only the round trip is assumed, and one value behind each
    \<open>Arc\<close> address, which holds since the sender keeps the \<open>Arc\<close>s it sent.

  \<^bold>\<open>Not modelled.\<close> The rest of the runtime crate, the daemon, client and link crates and the transport of the IPC crate are
  asynchronous loops over sockets and terminals; the JSON messages are serde derives; the PTY, host, path and storage crates are operating-system calls; the image, sixel, kitty
  and iTerm crates decode formats over third-party codecs; configuration parsing rests on the \<open>kdl\<close>
  crate. \<open>Display\<close> texts and serde derives are left out throughout.
\<close>

end
